(* ===== verification/Prelude.thy ===== *)
theory Prelude
  imports Main "HOL-Library.AList" "HOL-Library.Word"
begin

text \<open>
  Shared vocabulary of the development: the unsigned integer widths of the runtimes with their
  saturating and checked operations, storage maps as association lists with distinct keys,
  fallible dispatch as a sum with the early-return combinators of the Rust code
  (\<open>ensure!\<close>, \<open>ok_or\<close> with \<open>?\<close>, and \<open>?\<close> on a result), the interface of the fungible
  currency that the pallets are configured with, and the contract of a pallet whose calls keep
  an invariant.
\<close>

named_theorems res_simps \<open>when a fallible computation returns \<open>Inr\<close>\<close>
named_theorems store_simps \<open>lookup in an updated storage map\<close>

subsection \<open>Unsigned machine integers\<close>

text \<open>
  A \<open>u8\<close>, \<open>u32\<close>, \<open>u64\<close> or \<open>u128\<close> of the source is a natural number; the bound of its width
  is written out in every operation that saturates or checks. Subtraction on \<open>nat\<close> is
  \<open>saturating_sub\<close>.
\<close>

abbreviation (input) u32_max :: nat where "u32_max \<equiv> 4294967295"
abbreviation (input) u64_max :: nat where "u64_max \<equiv> 18446744073709551615"
abbreviation (input) u128_max :: nat where "u128_max \<equiv> 340282366920938463463374607431768211455"

definition sat_add :: "nat \<Rightarrow> nat \<Rightarrow> nat \<Rightarrow> nat" where
  "sat_add m a b = min m (a + b)"

definition sat_mul :: "nat \<Rightarrow> nat \<Rightarrow> nat \<Rightarrow> nat" where
  "sat_mul m a b = min m (a * b)"

definition checked_add :: "nat \<Rightarrow> nat \<Rightarrow> nat \<Rightarrow> nat option" where
  "checked_add m a b = (if a + b \<le> m then Some (a + b) else None)"

definition checked_sub :: "nat \<Rightarrow> nat \<Rightarrow> nat option" where
  "checked_sub a b = (if b \<le> a then Some (a - b) else None)"

definition checked_div :: "nat \<Rightarrow> nat \<Rightarrow> nat option" where
  "checked_div a b = (if b = 0 then None else Some (a div b))"

definition unwrap_or_default :: "nat option \<Rightarrow> nat" where
  "unwrap_or_default x = (case x of None \<Rightarrow> 0 | Some v \<Rightarrow> v)"

lemma sat_add_exact [simp]: "a + b \<le> m \<Longrightarrow> sat_add m a b = a + b"
  by (simp add: sat_add_def)

lemma sat_add_le: "sat_add m a b \<le> a + b" "sat_add m a b \<le> m"
  by (simp_all add: sat_add_def)

lemma sat_mul_exact [simp]: "a * b \<le> m \<Longrightarrow> sat_mul m a b = a * b"
  by (simp add: sat_mul_def)

lemma sat_mul_le: "sat_mul m a b \<le> a * b" "sat_mul m a b \<le> m"
  by (simp_all add: sat_mul_def)

lemma sat_mul_mono: "a \<le> a' \<Longrightarrow> b \<le> b' \<Longrightarrow> sat_mul m a b \<le> sat_mul m a' b'"
  using mult_le_mono [of a a' b b'] by (simp add: sat_mul_def min_le_iff_disj)

lemma sat_add_mono: "a \<le> a' \<Longrightarrow> b \<le> b' \<Longrightarrow> sat_add m a b \<le> sat_add m a' b'"
  by (auto simp: sat_add_def)

lemma unwrap_or_default_simps [simp]:
  "unwrap_or_default None = 0" "unwrap_or_default (Some v) = v"
  by (simp_all add: unwrap_or_default_def)

subsection \<open>Byte strings and identifiers\<close>

type_synonym bytes = "8 word list"
type_synonym person_alias = bytes
type_synonym account_id = bytes

subsection \<open>Storage maps\<close>

text \<open>
  A \<open>StorageMap\<close> (or a \<open>StorageDoubleMap\<close>, keyed by the pair) is an association list with
  distinct keys; its order stands for the iteration order of the trie, over which every
  theorem quantifies.
\<close>

type_synonym ('k, 'v) storage = "('k \<times> 'v) list"

definition sget :: "('k, 'v) storage \<Rightarrow> 'k \<Rightarrow> 'v option" where
  "sget m k = map_of m k"

definition sput :: "'k \<Rightarrow> 'v \<Rightarrow> ('k, 'v) storage \<Rightarrow> ('k, 'v) storage" where
  "sput k v m = AList.update k v m"

definition sdel :: "'k \<Rightarrow> ('k, 'v) storage \<Rightarrow> ('k, 'v) storage" where
  "sdel k m = AList.delete k m"

definition scontains :: "('k, 'v) storage \<Rightarrow> 'k \<Rightarrow> bool" where
  "scontains m k = (sget m k \<noteq> None)"

definition wf_storage :: "('k, 'v) storage \<Rightarrow> bool" where
  "wf_storage m = distinct (map fst m)"

lemma sget_sput [store_simps, simp]: "sget (sput k v m) k' = (if k' = k then Some v else sget m k')"
  by (simp add: sget_def sput_def update_conv)

lemma sget_sdel [store_simps, simp]: "sget (sdel k m) k' = (if k' = k then None else sget m k')"
  by (simp add: sget_def sdel_def delete_conv)

lemma sget_Nil [simp]: "sget [] k = None"
  by (simp add: sget_def)

lemma sget_Cons: "sget (p # m) k = (if fst p = k then Some (snd p) else sget m k)"
  by (cases p) (simp add: sget_def)

lemma scontains_simps [store_simps, simp]:
  "scontains (sput k v m) k' = (k' = k \<or> scontains m k')"
  "scontains (sdel k m) k' = (k' \<noteq> k \<and> scontains m k')"
  by (simp_all add: scontains_def)

lemma wf_storage_Nil [simp, intro]: "wf_storage []"
  by (simp add: wf_storage_def)

lemma wf_sput [simp, intro]: "wf_storage m \<Longrightarrow> wf_storage (sput k v m)"
  by (simp add: wf_storage_def sput_def distinct_update)

lemma wf_sdel [simp, intro]: "wf_storage m \<Longrightarrow> wf_storage (sdel k m)"
  by (simp add: wf_storage_def sdel_def distinct_delete)

lemma length_sdel: "length (sdel k m) \<le> length m"
  by (simp add: sdel_def length_delete_le)

lemma length_sput_new: "\<not> scontains m k \<Longrightarrow> length (sput k v m) = Suc (length m)"
  by (induction m) (auto simp: sput_def scontains_def sget_def)

lemma sget_in_set: "sget m k = Some v \<Longrightarrow> (k, v) \<in> set m"
  by (simp add: sget_def map_of_SomeD)

lemma in_set_sget: "wf_storage m \<Longrightarrow> (k, v) \<in> set m \<Longrightarrow> sget m k = Some v"
  by (simp add: sget_def wf_storage_def)

lemma sget_None_iff: "sget m k = None \<longleftrightarrow> k \<notin> fst ` set m"
  by (simp add: sget_def map_of_eq_None_iff)

text \<open>A map with \<open>ValueQuery\<close> reads a default where there is no entry.\<close>

definition sget_or :: "'v \<Rightarrow> ('k, 'v) storage \<Rightarrow> 'k \<Rightarrow> 'v" where
  "sget_or d m k = (case sget m k of None \<Rightarrow> d | Some v \<Rightarrow> v)"

lemma sget_or_simps [store_simps, simp]:
  "sget_or d (sput k v m) k' = (if k' = k then v else sget_or d m k')"
  "sget_or d (sdel k m) k' = (if k' = k then d else sget_or d m k')"
  "sget_or d [] k' = d"
  by (simp_all add: sget_or_def)

text \<open>The sum of a quantity over the entries of a storage map.\<close>

definition ssum :: "('k \<times> 'v \<Rightarrow> nat) \<Rightarrow> ('k, 'v) storage \<Rightarrow> nat" where
  "ssum f m = sum_list (map f m)"

abbreviation entry_value :: "('k \<times> 'v \<Rightarrow> nat) \<Rightarrow> ('k, 'v) storage \<Rightarrow> 'k \<Rightarrow> nat" where
  "entry_value f m k \<equiv> (case sget m k of None \<Rightarrow> 0 | Some v \<Rightarrow> f (k, v))"

lemma ssum_Nil [simp]: "ssum f [] = 0"
  by (simp add: ssum_def)

lemma ssum_Cons [simp]: "ssum f (p # m) = f p + ssum f m"
  by (simp add: ssum_def)

lemma ssum_fresh: "k \<notin> fst ` set m \<Longrightarrow> AList.delete k m = m"
  by (simp add: delete_id)

lemma ssum_sput:
  assumes "wf_storage m"
  shows "ssum f (sput k v m) + entry_value f m k = ssum f m + f (k, v)"
  using assms
proof (induction m)
  case Nil
  then show ?case by (simp add: sput_def)
next
  case (Cons p m)
  then show ?case
    by (cases p) (auto simp: sput_def sget_def wf_storage_def split: option.splits)
qed

lemma ssum_sdel:
  assumes "wf_storage m"
  shows "ssum f (sdel k m) + entry_value f m k = ssum f m"
  using assms
proof (induction m)
  case Nil
  then show ?case by (simp add: sdel_def)
next
  case (Cons p m)
  then show ?case
    by (cases p)
       (auto simp: sdel_def sget_def wf_storage_def delete_id map_of_eq_None_iff
             split: option.splits)
qed

lemma entry_value_le: "entry_value f m k \<le> ssum f m"
proof (induction m)
  case (Cons p m)
  then show ?case by (cases p) (auto simp: sget_def split: option.splits)
qed simp

lemma ssum_mono: "(\<And>p. p \<in> set m \<Longrightarrow> f p \<le> g p) \<Longrightarrow> ssum f m \<le> ssum g m"
  by (induction m) (auto intro: add_mono)

lemma ssum_eq_0: "(\<And>p. p \<in> set m \<Longrightarrow> f p = 0) \<Longrightarrow> ssum f m = 0"
  by (induction m) auto

lemma ssum_le_sput: "wf_storage m \<Longrightarrow> ssum f (sput k v m) \<le> ssum f m + f (k, v)"
  using ssum_sput [of m f k v] by linarith

lemma ssum_le_sdel: "wf_storage m \<Longrightarrow> ssum f (sdel k m) \<le> ssum f m"
  using ssum_sdel [of m f k] by linarith

text \<open>The points of one round in a map keyed by the round and who earned them.\<close>

definition points_of :: "(nat \<times> 'k, nat) storage \<Rightarrow> nat \<Rightarrow> nat" where
  "points_of P r = ssum (\<lambda>p. if fst (fst p) = r then snd p else 0) P"

lemma points_of_sdel:
  assumes "wf_storage P"
  shows "points_of (sdel (r, a) P) r' =
    points_of P r' - (if r = r' then unwrap_or_default (sget P (r, a)) else 0)"
  using ssum_sdel [OF assms, of "\<lambda>p. if fst (fst p) = r' then snd p else 0" "(r, a)"]
  by (cases "r = r'"; cases "sget P (r, a)") (simp_all add: points_of_def)

lemma points_of_entry: "unwrap_or_default (sget P (r, a)) \<le> points_of P r"
  using entry_value_le [where f = "\<lambda>p. if fst (fst p) = r then snd p else 0" and m = P and k = "(r, a)"]
  by (cases "sget P (r, a)") (simp_all add: points_of_def)

lemma points_of_sput:
  assumes "wf_storage P"
  shows "points_of (sput (r, a) v P) r' + (if r = r' then unwrap_or_default (sget P (r, a)) else 0)
    = points_of P r' + (if r = r' then v else 0)"
  using ssum_sput [OF assms, of "\<lambda>p. if fst (fst p) = r' then snd p else 0" "(r, a)" v]
  by (cases "r = r'"; cases "sget P (r, a)") (simp_all add: points_of_def)

lemma points_of_unused: "(\<And>a. \<not> scontains P (r, a)) \<Longrightarrow> points_of P r = 0"
  unfolding points_of_def
  by (rule ssum_eq_0) (force simp: scontains_def sget_None_iff)

subsection \<open>Fallible dispatch\<close>

text \<open>
  A \<open>DispatchError\<close>: the origin was refused, a pallet's own \<open>Error\<close>, or an error handed on
  from code outside the pallet (the currency, the people service). A dispatchable returns the
  new state with the \<open>Pays\<close> flag; with an error the storage layer is rolled back, so the
  state stays what it was.
\<close>

datatype 'e dispatch_error = BadOrigin | Module 'e | External string

datatype pays = PaysYes | PaysNo

definition ensure :: "bool \<Rightarrow> 'e \<Rightarrow> 'e + 'a \<Rightarrow> 'e + 'a" where
  "ensure c e k = (if c then k else Inl e)"

definition ok_or :: "'b option \<Rightarrow> 'e \<Rightarrow> ('b \<Rightarrow> 'e + 'a) \<Rightarrow> 'e + 'a" where
  "ok_or x e k = (case x of None \<Rightarrow> Inl e | Some v \<Rightarrow> k v)"

definition on_ok :: "'e + 'b \<Rightarrow> ('b \<Rightarrow> 'e + 'a) \<Rightarrow> 'e + 'a" where
  "on_ok r k = (case r of Inl e \<Rightarrow> Inl e | Inr v \<Rightarrow> k v)"

definition map_err :: "('e \<Rightarrow> 'f) \<Rightarrow> 'e + 'a \<Rightarrow> 'f + 'a" where
  "map_err f r = (case r of Inl e \<Rightarrow> Inl (f e) | Inr v \<Rightarrow> Inr v)"

definition is_ok :: "'e + 'a \<Rightarrow> bool" where
  "is_ok r = (case r of Inl _ \<Rightarrow> False | Inr _ \<Rightarrow> True)"

lemma ensure_Inr [res_simps, simp]: "ensure c e k = Inr x \<longleftrightarrow> c \<and> k = Inr x"
  by (simp add: ensure_def)

lemma ok_or_Inr [res_simps, simp]: "ok_or o' e k = Inr x \<longleftrightarrow> (\<exists>v. o' = Some v \<and> k v = Inr x)"
  by (simp add: ok_or_def split: option.splits)

lemma on_ok_Inr [res_simps, simp]: "on_ok r k = Inr x \<longleftrightarrow> (\<exists>v. r = Inr v \<and> k v = Inr x)"
  by (simp add: on_ok_def split: sum.splits)

lemma map_err_Inr [res_simps, simp]: "map_err f r = Inr x \<longleftrightarrow> r = Inr x"
  by (simp add: map_err_def split: sum.splits)

lemma result_eval [simp]:
  "ensure True e k = k" "ensure False e k = Inl e"
  "ok_or None e g = Inl e" "ok_or (Some v) e g = g v"
  "on_ok (Inl e) h = Inl e" "on_ok (Inr w) h = h w"
  "map_err f (Inl e') = Inl (f e')" "map_err f (Inr u) = Inr u"
  "is_ok (Inl e'') = False" "is_ok (Inr u') = True"
  by (simp_all add: ensure_def ok_or_def on_ok_def map_err_def is_ok_def)

lemma is_ok_iff: "is_ok r \<longleftrightarrow> (\<exists>x. r = Inr x)"
  by (cases r) auto

subsection \<open>The currency of a pallet\<close>

text \<open>
  \<open>T::Currency\<close> is code of the SDK: its operations are parameters of the model, over a ledger
  whose representation stays abstract. \<open>hold_laws\<close> states what the documentation of
  \<open>fungible::MutateHold\<close> promises: a successful \<open>hold\<close> raises the balance held for that
  reason and account by the amount; a successful \<open>release\<close> returns the amount released and
  lowers the held balance by it; with \<open>Precision::Exact\<close> that is the amount asked for, with
  \<open>Precision::BestEffort\<close> at most it, and all of it when enough is held; a \<open>transfer\<close>
  moves free balance only. No operation touches another reason or another account's holds.
\<close>

datatype precision = Exact | BestEffort

datatype preservation = Expendable | Protect | Preserve

record ('r, 'l) currency =
  cur_hold :: "'r \<Rightarrow> account_id \<Rightarrow> nat \<Rightarrow> 'l \<Rightarrow> string + 'l"
  cur_release :: "'r \<Rightarrow> account_id \<Rightarrow> nat \<Rightarrow> precision \<Rightarrow> 'l \<Rightarrow> string + (nat \<times> 'l)"
  cur_transfer :: "account_id \<Rightarrow> account_id \<Rightarrow> nat \<Rightarrow> preservation \<Rightarrow> 'l \<Rightarrow> string + (nat \<times> 'l)"
  on_hold :: "'r \<Rightarrow> account_id \<Rightarrow> 'l \<Rightarrow> nat"

definition same_holds_but :: "('r, 'l) currency \<Rightarrow> 'r \<Rightarrow> account_id \<Rightarrow> 'l \<Rightarrow> 'l \<Rightarrow> bool" where
  "same_holds_but c r a l l' \<longleftrightarrow>
     (\<forall>r' a'. (r', a') \<noteq> (r, a) \<longrightarrow> on_hold c r' a' l' = on_hold c r' a' l)"

definition hold_laws :: "('r, 'l) currency \<Rightarrow> bool" where
  "hold_laws c \<longleftrightarrow>
     (\<forall>r a n l l'. cur_hold c r a n l = Inr l' \<longrightarrow>
        on_hold c r a l' = on_hold c r a l + n \<and> same_holds_but c r a l l') \<and>
     (\<forall>r a n p l m l'. cur_release c r a n p l = Inr (m, l') \<longrightarrow>
        m \<le> n \<and> m \<le> on_hold c r a l \<and> on_hold c r a l' = on_hold c r a l - m \<and>
        same_holds_but c r a l l' \<and> (p = Exact \<longrightarrow> m = n) \<and>
        (n \<le> on_hold c r a l \<longrightarrow> m = n)) \<and>
     (\<forall>a b n p l m l'. cur_transfer c a b n p l = Inr (m, l') \<longrightarrow>
        m = n \<and> (\<forall>r' a'. on_hold c r' a' l' = on_hold c r' a' l))"

lemma hold_law_all:
  "hold_laws c \<Longrightarrow> cur_hold c r a n l = Inr l' \<Longrightarrow>
   on_hold c r a l' = on_hold c r a l + n \<and> same_holds_but c r a l l'"
  by (simp add: hold_laws_def)

lemma release_law_all:
  "hold_laws c \<Longrightarrow> cur_release c r a n p l = Inr (m, l') \<Longrightarrow>
   m \<le> n \<and> m \<le> on_hold c r a l \<and> on_hold c r a l' = on_hold c r a l - m \<and>
   same_holds_but c r a l l' \<and> (p = Exact \<longrightarrow> m = n) \<and> (n \<le> on_hold c r a l \<longrightarrow> m = n)"
  unfolding hold_laws_def by simp

lemma transfer_law_all:
  "hold_laws c \<Longrightarrow> cur_transfer c a b n p l = Inr (m, l') \<Longrightarrow>
   m = n \<and> (\<forall>r' a'. on_hold c r' a' l' = on_hold c r' a' l)"
  unfolding hold_laws_def by simp

lemma hold_lawD:
  assumes "hold_laws c" and "cur_hold c r a n l = Inr l'"
  shows "on_hold c r a l' = on_hold c r a l + n"
    and "(r', a') \<noteq> (r, a) \<Longrightarrow> on_hold c r' a' l' = on_hold c r' a' l"
  using hold_law_all [OF assms] by (auto simp: same_holds_but_def)

lemma release_lawD:
  assumes "hold_laws c" and "cur_release c r a n p l = Inr (m, l')"
  shows "m \<le> n" and "m \<le> on_hold c r a l" and "on_hold c r a l' = on_hold c r a l - m"
    and "(r', a') \<noteq> (r, a) \<Longrightarrow> on_hold c r' a' l' = on_hold c r' a' l"
    and "p = Exact \<Longrightarrow> m = n" and "n \<le> on_hold c r a l \<Longrightarrow> m = n"
  using release_law_all [OF assms] by (auto simp: same_holds_but_def)

lemma transfer_lawD:
  assumes "hold_laws c" and "cur_transfer c a b n p l = Inr (m, l')"
  shows "m = n" and "on_hold c r' a' l' = on_hold c r' a' l"
  using transfer_law_all [OF assms] by auto

text \<open>
  A ledger that meets the laws, for the witnesses: what each account has on hold for each
  reason, with no limit on the free balance.
\<close>

definition book_currency :: "('r, ('r \<times> account_id, nat) storage) currency" where
  "book_currency = \<lparr>
     cur_hold = (\<lambda>r a n l. Inr (sput (r, a) (unwrap_or_default (sget l (r, a)) + n) l)),
     cur_release = (\<lambda>r a n p l.
        let h = unwrap_or_default (sget l (r, a))
        in if n \<le> h then Inr (n, sput (r, a) (h - n) l)
           else if p = Exact then Inl ''FundsUnavailable''
           else Inr (h, sput (r, a) 0 l)),
     cur_transfer = (\<lambda>a b n p l. Inr (n, l)),
     on_hold = (\<lambda>r a l. unwrap_or_default (sget l (r, a))) \<rparr>"

lemma book_currency_laws: "hold_laws book_currency"
  by (auto simp: hold_laws_def same_holds_but_def book_currency_def Let_def split: if_splits)

subsection \<open>A pallet that keeps an invariant\<close>

text \<open>
  A block applies dispatchables one after another; one that fails leaves the state alone.
\<close>

fun run_calls :: "('op \<Rightarrow> 's \<Rightarrow> 'e + 's) \<Rightarrow> 'op list \<Rightarrow> 's \<Rightarrow> 's" where
  "run_calls step [] s = s"
| "run_calls step (x # xs) s =
     run_calls step xs (case step x s of Inl _ \<Rightarrow> s | Inr s' \<Rightarrow> s')"

lemma run_calls_append: "run_calls step (xs @ ys) s = run_calls step ys (run_calls step xs s)"
  by (induction xs arbitrary: s) auto

fun guarded_run :: "('op \<Rightarrow> 's \<Rightarrow> 'e + 's) \<Rightarrow> ('op \<Rightarrow> 's \<Rightarrow> bool) \<Rightarrow> 'op list \<Rightarrow> 's \<Rightarrow> bool" where
  "guarded_run step g [] s = True"
| "guarded_run step g (x # xs) s =
     (g x s \<and> guarded_run step g xs (case step x s of Inl _ \<Rightarrow> s | Inr s' \<Rightarrow> s'))"

lemma guarded_run_weaken:
  "guarded_run step g xs s \<Longrightarrow> (\<And>x s. x \<in> set xs \<Longrightarrow> g x s \<Longrightarrow> g' x s) \<Longrightarrow>
   guarded_run step g' xs s"
  by (induction xs arbitrary: s) auto

lemma guarded_run_take: "guarded_run step g xs s \<Longrightarrow> guarded_run step g (take k xs) s"
  by (induction xs arbitrary: s k) (auto simp: take_Cons split: nat.splits)

lemma guarded_run_trivial: "guarded_run step (\<lambda>_ _. True) xs s"
  by (induction xs arbitrary: s) auto

text \<open>What holds after a run and did not hold before it was brought about by one of its calls.\<close>

lemma run_calls_brings:
  assumes "Q (run_calls step xs s)" and "\<not> Q s"
  shows "\<exists>n < length xs. \<exists>s'. \<not> Q (run_calls step (take n xs) s) \<and> step (xs ! n) (run_calls step (take n xs) s) = Inr s' \<and> Q s'"
  using assms
proof (induction xs rule: rev_induct)
  case (snoc x xs)
  let ?s = "run_calls step xs s"
  show ?case
  proof (cases "Q ?s")
    case True
    then obtain n where "n < length xs"
      and "\<exists>s'. \<not> Q (run_calls step (take n xs) s) \<and> step (xs ! n) (run_calls step (take n xs) s) = Inr s' \<and> Q s'"
      using snoc by blast
    then show ?thesis by (intro exI [of _ n]) (simp add: nth_append)
  next
    case False
    then show ?thesis
      using snoc.prems(1) by (intro exI [of _ "length xs"]) (auto simp: run_calls_append split: sum.split_asm)
  qed
qed simp

locale pallet_contract =
  fixes step :: "'op \<Rightarrow> 's \<Rightarrow> 'e + 's"
    and inv :: "'s \<Rightarrow> bool"
    and guard :: "'op \<Rightarrow> 's \<Rightarrow> bool"
  assumes step_keeps: "inv s \<Longrightarrow> guard x s \<Longrightarrow> step x s = Inr s' \<Longrightarrow> inv s'"
begin

lemma run_keeps: "inv s \<Longrightarrow> guarded_run step guard xs s \<Longrightarrow> inv (run_calls step xs s)"
proof (induction xs arbitrary: s)
  case (Cons x xs)
  have "inv (case step x s of Inl _ \<Rightarrow> s | Inr s' \<Rightarrow> s')"
    using Cons.prems step_keeps by (auto split: sum.splits)
  then show ?case using Cons by simp
qed simp

end

end
