(* ===== verification/Reality.thy ===== *)
theory Reality
  imports Prelude
begin

text \<open>
  The shared data of \<open>support/src/traits/reality.rs\<close>: judgements and the statements put to the
  oracle, callbacks, ring exponents and positions, and the mutation session of the member
  rings, which is a semaphore counting the entities that change the ring members.
\<close>

subsection \<open>Ring exponents\<close>

datatype RingExponent = R2e9 | R2e10 | R2e14

fun exponent :: "RingExponent \<Rightarrow> nat" where
  "exponent R2e9 = 9"
| "exponent R2e10 = 10"
| "exponent R2e14 = 14"

definition new_from_exponent :: "nat \<Rightarrow> nat + RingExponent" where
  "new_from_exponent v =
     (if v = 9 then Inr R2e9 else if v = 10 then Inr R2e10 else if v = 14 then Inr R2e14
      else Inl v)"

definition max_ring_exponent :: RingExponent where
  "max_ring_exponent = R2e14"

definition ALL_exponents :: "RingExponent list" where
  "ALL_exponents = [R2e9, R2e10, R2e14]"

subsection \<open>Ring status and position\<close>

datatype RingMode = AppendOnlyRings | FlexibleRings

record RingStatus =
  rs_total :: nat
  rs_included :: nat
  rs_immutable_since :: "nat option"

datatype RingPosition =
    Onboarding (queue_page: nat) (queued_at: nat)
  | Included (included_ring: nat) (ring_page: nat) (ring_position: nat)
  | SuspendedPosition

fun suspended :: "RingPosition \<Rightarrow> bool" where
  "suspended SuspendedPosition = True"
| "suspended _ = False"

fun ring_index :: "RingPosition \<Rightarrow> nat option" where
  "ring_index (Included r p q) = Some r"
| "ring_index _ = None"

subsection \<open>The mutation session of the rings\<close>

text \<open>The counter of \<open>Mutating\<close> is a \<open>u8\<close>.\<close>

datatype RingMutationMode = AppendOnly | Mutating nat

record RingMembersState =
  rms_mode :: RingMutationMode

definition default_ring_members_state :: RingMembersState where
  "default_ring_members_state = \<lparr>rms_mode = AppendOnly\<rparr>"

definition append_only :: "RingMembersState \<Rightarrow> bool" where
  "append_only s = (case rms_mode s of AppendOnly \<Rightarrow> True | Mutating _ \<Rightarrow> False)"

definition mutating :: "RingMembersState \<Rightarrow> bool" where
  "mutating s = (case rms_mode s of AppendOnly \<Rightarrow> False | Mutating _ \<Rightarrow> True)"

definition start_mutation_session :: "RingMembersState \<Rightarrow> RingMembersState + RingMembersState" where
  "start_mutation_session s =
     (case rms_mode s of
        AppendOnly \<Rightarrow> Inr (s\<lparr>rms_mode := Mutating 1\<rparr>)
      | Mutating n \<Rightarrow>
          ok_or (checked_add 255 n 1) s (\<lambda>n'. Inr (s\<lparr>rms_mode := Mutating n'\<rparr>)))"

definition end_mutation_session :: "RingMembersState \<Rightarrow> RingMembersState + RingMembersState" where
  "end_mutation_session s =
     (case rms_mode s of
        AppendOnly \<Rightarrow> Inl s
      | Mutating n \<Rightarrow>
          Inr (s\<lparr>rms_mode := if n = 1 then AppendOnly else Mutating (n - 1)\<rparr>))"

subsection \<open>Judgements, statements and callbacks\<close>

datatype Truth = TruthTrue | TruthFalse

datatype Judgement = Truth Truth | Contempt

fun matches_intent :: "Judgement \<Rightarrow> Judgement \<Rightarrow> bool" where
  "matches_intent (Truth TruthTrue) (Truth TruthTrue) = True"
| "matches_intent (Truth TruthFalse) (Truth TruthFalse) = True"
| "matches_intent Contempt Contempt = True"
| "matches_intent _ _ = False"

datatype InkSpec =
    DesignedElective nat nat
  | ProceduralAccount nat bytes
  | ProceduralPersonal nat nat
  | Procedural nat bytes

datatype Social = Twitter bytes | Github bytes | Discord bytes

fun eq_platform :: "Social \<Rightarrow> Social \<Rightarrow> bool" where
  "eq_platform (Twitter _) (Twitter _) = True"
| "eq_platform (Github _) (Github _) = True"
| "eq_platform (Discord _) (Discord _) = True"
| "eq_platform _ _ = False"

datatype Statement =
    ProofOfInk InkSpec bytes bool
  | IdentityCredential Social bytes
  | UsernameValid bytes

record Callback =
  pallet_index :: nat
  call_index :: nat

text \<open>
  \<open>curry\<close> encodes the indices and the arguments and decodes the bytes as a runtime call; the
  codec is outside the repository and a parameter.
\<close>

definition curry_callback :: "(nat \<times> nat \<times> 'p \<Rightarrow> 'call option) \<Rightarrow> Callback \<Rightarrow> 'p \<Rightarrow> 'call option" where
  "curry_callback codec cb args = codec (pallet_index cb, call_index cb, args)"

subsection \<open>Lemmas\<close>

lemma matches_intent_eq [simp]: "matches_intent a b \<longleftrightarrow> a = b"
  by (cases "(a, b)" rule: matches_intent.cases) auto

text \<open>
  The session as a counter: how many entities hold it. \<open>AppendOnly\<close> is the count zero.
\<close>

fun session_count :: "RingMembersState \<Rightarrow> nat" where
  "session_count s = (case rms_mode s of AppendOnly \<Rightarrow> 0 | Mutating n \<Rightarrow> n)"

definition session_wf :: "RingMembersState \<Rightarrow> bool" where
  "session_wf s = (case rms_mode s of AppendOnly \<Rightarrow> True | Mutating n \<Rightarrow> 1 \<le> n \<and> n \<le> 255)"

lemma session_wf_default: "session_wf default_ring_members_state"
  by (simp add: session_wf_def default_ring_members_state_def)

datatype session_call = StartSession | EndSession

fun session_step :: "session_call \<Rightarrow> RingMembersState \<Rightarrow> RingMembersState + RingMembersState" where
  "session_step StartSession s = start_mutation_session s"
| "session_step EndSession s = end_mutation_session s"

lemma session_step_wf: "session_wf s \<Longrightarrow> session_step x s = Inr s' \<Longrightarrow> session_wf s'"
  by (cases x)
     (auto simp: session_wf_def start_mutation_session_def end_mutation_session_def
        checked_add_def split: RingMutationMode.splits if_splits)

interpretation session: pallet_contract session_step session_wf "\<lambda>_ _. True"
  by unfold_locales (rule session_step_wf)

lemma append_only_iff_count: "session_wf s \<Longrightarrow> append_only s \<longleftrightarrow> session_count s = 0"
  by (auto simp: append_only_def session_wf_def split: RingMutationMode.splits)

text \<open>
  The mutation session refines a counter from 0 to 255: starting succeeds exactly below 255
  and adds one, ending succeeds exactly above 0 and takes one off, a failed call hands back
  the state unchanged, and the rings are append only exactly at zero; so the rings stay in
  mutation until every entity that started a session has ended it.
\<close>

theorem mutation_session_counter:
  assumes "session_wf s"
  shows "(if session_count s < 255
          then \<exists>s'. start_mutation_session s = Inr s' \<and> session_count s' = session_count s + 1 \<and> session_wf s'
          else start_mutation_session s = Inl s) \<and>
         (if 0 < session_count s
          then \<exists>s'. end_mutation_session s = Inr s' \<and> session_count s' + 1 = session_count s \<and> session_wf s'
          else end_mutation_session s = Inl s) \<and>
         (append_only s \<longleftrightarrow> session_count s = 0) \<and> (mutating s \<longleftrightarrow> 0 < session_count s)"
  using assms
  by (auto simp: session_wf_def start_mutation_session_def end_mutation_session_def append_only_def
        mutating_def checked_add_def split: RingMutationMode.splits)

theorem mutation_session_counter_witness:
  "start_mutation_session \<lparr>rms_mode = Mutating 255\<rparr> = Inl \<lparr>rms_mode = Mutating 255\<rparr>"
  using mutation_session_counter [of "\<lparr>rms_mode = Mutating 255\<rparr>"] by (simp add: session_wf_def)

text \<open>
  An exponent parses exactly when it is that of a supported ring, parsing the exponent of
  a ring gives the ring back, the list of all rings is complete and in rising order, and the
  greatest ring is at its end.
\<close>

theorem ring_exponent_roundtrip:
  "new_from_exponent (exponent r) = Inr r \<and>
   (new_from_exponent n = Inr r \<longleftrightarrow> n = exponent r) \<and>
   (new_from_exponent n = Inl n \<longleftrightarrow> n \<notin> exponent ` set ALL_exponents) \<and>
   r \<in> set ALL_exponents \<and> sorted (map exponent ALL_exponents) \<and>
   exponent r \<le> exponent max_ring_exponent"
  by (cases r)
     (auto simp: new_from_exponent_def ALL_exponents_def max_ring_exponent_def)

end
