(* ===== verification/Mob_Tally.thy ===== *)
theory Mob_Tally
  imports Reality
begin

text \<open>
  The vote tally of \<open>pallets/mob-rule/src/lib.rs\<close>: counting and discounting a vote, collapsing
  the tally into a verdict with its turnout and whether remaining voters can still change the
  outcome, and the approval threshold that falls with time.
\<close>

subsection \<open>Definitions\<close>

record VoteTally =
  aye :: nat
  nay :: nat
  contempt :: nat

definition empty_tally :: VoteTally where
  "empty_tally = \<lparr>aye = 0, nay = 0, contempt = 0\<rparr>"

record VoteCountResult =
  verdict :: Judgement
  aye_weight :: nat
  nay_weight :: nat
  turnout :: nat
  voter_count :: nat
  definitive :: bool

definition VoteCountResult_empty :: VoteCountResult where
  "VoteCountResult_empty =
     \<lparr>verdict = Truth TruthFalse, aye_weight = 0, nay_weight = 0, turnout = 0, voter_count = 0,
      definitive = False\<rparr>"

definition VoteCountResult_new ::
  "Judgement \<Rightarrow> nat \<Rightarrow> nat \<Rightarrow> nat \<Rightarrow> nat \<Rightarrow> bool \<Rightarrow> VoteCountResult" where
  "VoteCountResult_new v a n t c d =
     \<lparr>verdict = v, aye_weight = a, nay_weight = n, turnout = t, voter_count = c, definitive = d\<rparr>"

text \<open>\<open>u64\<close> arithmetic on durations, with \<open>u32\<close> weights widened to \<open>u64\<close>.\<close>

definition is_passing :: "VoteCountResult \<Rightarrow> nat \<Rightarrow> nat \<Rightarrow> bool" where
  "is_passing r max_duration elapsed =
     (let remaining = max_duration - elapsed;
          total_vote_weight = sat_add u32_max (aye_weight r) (nay_weight r)
      in sat_mul u64_max (sat_mul u64_max max_duration (aye_weight r)) 2 >
         sat_mul u64_max (sat_add u64_max max_duration remaining) total_vote_weight)"

fun tally_count :: "VoteTally \<Rightarrow> Judgement \<Rightarrow> VoteTally" where
  "tally_count t (Truth TruthTrue) = t\<lparr>aye := sat_add u32_max (aye t) 1\<rparr>"
| "tally_count t (Truth TruthFalse) = t\<lparr>nay := sat_add u32_max (nay t) 1\<rparr>"
| "tally_count t Contempt = t\<lparr>contempt := sat_add u32_max (contempt t) 1\<rparr>"

fun tally_discount :: "VoteTally \<Rightarrow> Judgement \<Rightarrow> VoteTally" where
  "tally_discount t (Truth TruthTrue) = t\<lparr>aye := aye t - 1\<rparr>"
| "tally_discount t (Truth TruthFalse) = t\<lparr>nay := nay t - 1\<rparr>"
| "tally_discount t Contempt = t\<lparr>contempt := contempt t - 1\<rparr>"

text \<open>
  \<open>Percent::from_rational\<close> is code of the SDK and the parameter \<open>from_rational\<close>; a
  \<open>Percent\<close> is its number of parts in a hundred.
\<close>

definition collapsed :: "(nat \<Rightarrow> nat \<Rightarrow> nat) \<Rightarrow> VoteTally \<Rightarrow> nat \<Rightarrow> VoteCountResult" where
  "collapsed from_rational t active_voters =
     (let vote_count = sat_add u32_max (sat_add u32_max (aye t) (nay t)) (contempt t)
      in if vote_count = 0 then VoteCountResult_empty
         else
           let nw = sat_add u32_max (nay t) (contempt t);
               remaining_voters = active_voters - vote_count;
               definitive0 = (remaining_voters = 0);
               (v, d) =
                 (if aye t > nw
                  then (Truth TruthTrue, definitive0 \<or> aye t - nw > remaining_voters)
                  else (if contempt t \<ge> nay t then Contempt else Truth TruthFalse,
                        definitive0 \<or> nw - aye t > remaining_voters))
           in VoteCountResult_new v (aye t) nw (from_rational vote_count active_voters) vote_count d)"

subsection \<open>Lemmas\<close>

text \<open>The number of votes behind a tally, and the tally after more votes of each kind.\<close>

definition tally_total :: "VoteTally \<Rightarrow> nat" where
  "tally_total t = aye t + nay t + contempt t"

definition tally_plus :: "VoteTally \<Rightarrow> VoteTally \<Rightarrow> VoteTally" where
  "tally_plus t d = \<lparr>aye = aye t + aye d, nay = nay t + nay d, contempt = contempt t + contempt d\<rparr>"

lemma collapsed_small:
  assumes "0 < tally_total t" and "tally_total t \<le> u32_max"
  shows "collapsed fr t active =
    VoteCountResult_new
      (if aye t > nay t + contempt t then Truth TruthTrue
       else if contempt t \<ge> nay t then Contempt else Truth TruthFalse)
      (aye t) (nay t + contempt t) (fr (tally_total t) active) (tally_total t)
      (active \<le> tally_total t \<or>
       (if aye t > nay t + contempt t then aye t - (nay t + contempt t)
        else nay t + contempt t - aye t) > active - tally_total t)"
proof -
  have "sat_add u32_max (sat_add u32_max (aye t) (nay t)) (contempt t) = tally_total t"
    and "sat_add u32_max (nay t) (contempt t) = nay t + contempt t"
    using assms by (simp_all add: tally_total_def sat_add_def)
  with assms(1) show ?thesis
    by (simp add: collapsed_def Let_def split: prod.splits)
qed

lemma collapsed_verdict:
  assumes "tally_total t \<le> u32_max"
  shows "verdict (collapsed fr t active) = Truth TruthTrue \<longleftrightarrow> aye t > nay t + contempt t"
proof (cases "tally_total t = 0")
  case True
  then show ?thesis
    by (simp add: collapsed_def tally_total_def VoteCountResult_empty_def sat_add_def Let_def)
next
  case False
  then show ?thesis
    using collapsed_small [of t fr active] assms by (simp add: VoteCountResult_new_def)
qed

lemma count_discount:
  assumes "aye t < u32_max" "nay t < u32_max" "contempt t < u32_max"
  shows "tally_discount (tally_count t j) j = t"
  using assms by (cases "(t, j)" rule: tally_count.cases) auto

lemma tally_total_count:
  "tally_total t < u32_max \<Longrightarrow> tally_total (tally_count t j) = Suc (tally_total t)"
  by (cases "(t, j)" rule: tally_count.cases) (auto simp: tally_total_def)

end
