(* ===== verification/Mob_Rule.thy ===== *)
theory Mob_Rule
  imports Mob_Tally
begin

text \<open>
  The pallet \<open>pallets/mob-rule/src/lib.rs\<close>: people vote on cases put to them as a statement
  oracle; a case moves from open over ripe to done and is then reaped; correct votes earn
  points, which payout rounds turn into credit held in the pot and paid out on request. One
  definition per storage type, dispatchable, validation and helper, in the order of the source.
\<close>

subsection \<open>Storage\<close>

datatype HoldReason = Payout | Credit

record MobCredit =
  voted :: nat
  cleaned :: nat
  correct :: nat
  credit :: nat

definition default_credit :: MobCredit where
  "default_credit = \<lparr>voted = 0, cleaned = 0, correct = 0, credit = 0\<rparr>"

record CaseDetails =
  statement :: Statement
  judgement_context :: bytes
  callback :: Callback

record OpenCase =
  open_since :: nat
  open_details :: CaseDetails
  tally :: VoteTally

record RipeCase =
  ripe_details :: CaseDetails
  ripe_verdict :: Judgement

record DoneCase =
  done_since :: nat
  done_verdict :: Judgement

record CreditDistribution =
  round :: nat
  initial_balance :: nat
  remaining_balance :: nat
  total_points :: nat
  start :: nat

record PayoutSchedule =
  remaining :: nat
  amount_per_round :: nat
  period :: nat

datatype Event =
    CaseCreated nat
  | CallbackRun "string + unit"
  | CallbackError
  | CaseClosed nat Judgement
  | Voted nat person_alias Judgement
  | VoteCleaned nat person_alias
  | CaseRemoved nat
  | CaseIntervened nat Judgement
  | VotesClaimed person_alias "nat list"
  | RewardPayout person_alias account_id nat
  | PayoutRoundStarted nat nat nat
  | PayoutRoundsScheduled nat nat nat
  | PayoutScheduleRemoved nat
  | CreditClaimed person_alias nat
  | PointsCleaned nat person_alias
  | CaseTouched nat bool
  | VotingPenaltyCleared person_alias

datatype Error =
    NoSuchCase | NoSuchVote | NotOpen | NotRipe | NotDone | CodecError | DispatchError | Recent
  | NoCredit | NoReward | NoPoints | TooManyClaims | NoPayout | ArithmeticOverflow
  | TooManySchedules | NoSchedule | NoPenalty | Early | UnderPenalty | CaseExpirationDisabled

record 'l mob_state =
  Credits :: "(person_alias, MobCredit) storage"
  VotingPenalties :: "(person_alias, nat) storage"
  VotingPoints :: "(nat \<times> person_alias, nat) storage"
  Votes :: "(nat \<times> person_alias, Judgement) storage"
  CaseCount :: nat
  OpenCases :: "(nat, OpenCase) storage"
  RipeCases :: "(nat, RipeCase) storage"
  DoneCases :: "(nat, DoneCase) storage"
  AccumulatedPoints :: nat
  PayoutDistribution :: "CreditDistribution option"
  RoundSchedules :: "PayoutSchedule list"
  ActiveSince :: "nat option"
  ledger :: 'l
  events :: "Event list"

text \<open>
  The configuration and the runtime around the pallet: the constants of the \<open>Config\<close> trait,
  what the origin checks answer, the clock, the block number and the number of active people
  at the time of the call, and the operations of code outside the repository (the currency,
  \<open>Percent\<close> and \<open>Perbill\<close>, the codec and the dispatch of a runtime call, the weight meter).
\<close>

datatype weight_item = OnPollBase | SetActiveSince | KillActiveSince

record ('o, 'l, 'call, 'm) mob_config =
  ensure_none :: "'o \<Rightarrow> bool"
  ensure_signed :: "'o \<Rightarrow> account_id option"
  ensure_person :: "'o \<Rightarrow> person_alias option"
  ensure_intervention :: "'o \<Rightarrow> bool"
  now_secs :: nat
  block_number :: nat
  active_count :: nat
  MaxVoteClaimDuration :: nat
  MinCaseDuration :: nat
  MaxVotingDuration :: nat
  MinTurnoutNominal :: nat
  MinTurnoutPercentage :: nat
  MaxPayoutRoundSchedules :: nat
  VotingPenaltyDuration :: nat
  mob_rule_pot_id :: account_id
  MaxVotesClaimable :: nat
  OffchainWorkInterval :: nat
  CleanVotesBatchSize :: nat
  VotesOpenForClaimsDuration :: nat
  MinimumVoterThreshold :: nat
  Currency :: "(HoldReason, 'l) currency"
  percent_from_rational :: "nat \<Rightarrow> nat \<Rightarrow> nat"
  perbill_from_rational :: "nat \<Rightarrow> nat \<Rightarrow> nat"
  perbill_mul_floor :: "nat \<Rightarrow> nat \<Rightarrow> nat"
  codec :: "nat \<times> nat \<times> (nat \<times> bytes \<times> Judgement) \<Rightarrow> 'call option"
  dispatch_as_root :: "'call \<Rightarrow> 'l mob_state \<Rightarrow> (string + unit) \<times> 'l mob_state"
  try_consume :: "'m \<Rightarrow> weight_item \<Rightarrow> 'm option"

type_synonym 'l mob_result = "Error dispatch_error + ('l mob_state \<times> pays)"

definition deposit_event :: "Event \<Rightarrow> 'l mob_state \<Rightarrow> 'l mob_state" where
  "deposit_event e s = s\<lparr>events := events s @ [e]\<rparr>"

definition get_credit :: "'l mob_state \<Rightarrow> person_alias \<Rightarrow> MobCredit" where
  "get_credit s a = (case sget (Credits s) a of None \<Rightarrow> default_credit | Some c \<Rightarrow> c)"

definition get_points :: "'l mob_state \<Rightarrow> nat \<Rightarrow> person_alias \<Rightarrow> nat" where
  "get_points s r a = unwrap_or_default (sget (VotingPoints s) (r, a))"

subsection \<open>Validation\<close>

definition validate_close_case :: "nat \<Rightarrow> 'l mob_state \<Rightarrow> Error + RipeCase" where
  "validate_close_case case_index s = ok_or (sget (RipeCases s) case_index) NotRipe Inr"

definition validate_clean_vote ::
  "('o, 'l, 'call, 'm) mob_config \<Rightarrow> nat \<Rightarrow> person_alias \<Rightarrow> 'l mob_state \<Rightarrow> Error + Judgement" where
  "validate_clean_vote cfg case_index voter s =
     ensure (\<not> scontains (OpenCases s) case_index \<and> \<not> scontains (RipeCases s) case_index) NotDone (
     ensure (case sget (DoneCases s) case_index of
               None \<Rightarrow> True
             | Some c \<Rightarrow> now_secs cfg > sat_add u64_max (VotesOpenForClaimsDuration cfg) (done_since c))
       Recent (
     ok_or (sget (Votes s) (case_index, voter)) NoSuchVote Inr))"

definition validate_reap_case ::
  "('o, 'l, 'call, 'm) mob_config \<Rightarrow> nat \<Rightarrow> 'l mob_state \<Rightarrow> Error + DoneCase" where
  "validate_reap_case cfg case_index s =
     ok_or (sget (DoneCases s) case_index) NotDone (\<lambda>c.
     ensure (now_secs cfg > sat_add u64_max (done_since c) (MaxVoteClaimDuration cfg)) Recent (
     Inr c))"

definition validate_timeout_case ::
  "('o, 'l, 'call, 'm) mob_config \<Rightarrow> nat \<Rightarrow> 'l mob_state \<Rightarrow> Error + OpenCase" where
  "validate_timeout_case cfg case_index s =
     ok_or (sget (OpenCases s) case_index) NotOpen (\<lambda>c.
     ok_or (ActiveSince s) CaseExpirationDisabled (\<lambda>active_since.
     let secs = now_secs cfg - max (open_since c) active_since
     in ensure (secs \<ge> MaxVotingDuration cfg) Recent (Inr c)))"

subsection \<open>Voting and the life of a case\<close>

text \<open>The condition under which \<open>vote\<close> and \<open>touch_case\<close> ripen a case.\<close>

definition ripens :: "('o, 'l, 'call, 'm) mob_config \<Rightarrow> VoteCountResult \<Rightarrow> nat \<Rightarrow> bool" where
  "ripens cfg r secs =
     (let minimum_turnout_reached =
            turnout r \<ge> MinTurnoutPercentage cfg \<and> voter_count r \<ge> MinTurnoutNominal cfg;
          minimum_duration_elapsed = secs > MinCaseDuration cfg
      in minimum_turnout_reached \<and> minimum_duration_elapsed \<and>
         (definitive r \<or> is_passing r (MaxVotingDuration cfg) secs))"

definition vote ::
  "('o, 'l, 'call, 'm) mob_config \<Rightarrow> 'o \<Rightarrow> nat \<Rightarrow> Judgement \<Rightarrow> 'l mob_state \<Rightarrow> 'l mob_result" where
  "vote cfg origin case_index opinion s0 =
     ok_or (ensure_person cfg origin) BadOrigin (\<lambda>who.
     ensure (opinion \<noteq> Contempt \<or> \<not> scontains (VotingPenalties s0) who) (Module UnderPenalty) (
     ok_or (sget (OpenCases s0) case_index) (Module NotOpen) (\<lambda>c0.
     let s1 = s0\<lparr>OpenCases := sdel case_index (OpenCases s0)\<rparr>;
         credit0 = get_credit s1 who;
         (tally1, credit1, pays) =
           (case sget (Votes s1) (case_index, who) of
              Some old_opinion \<Rightarrow> (tally_discount (tally c0) old_opinion, credit0, PaysYes)
            | None \<Rightarrow> (tally c0, credit0\<lparr>voted := sat_add u32_max (voted credit0) 1\<rparr>, PaysNo));
         c1 = c0\<lparr>tally := tally_count tally1 opinion\<rparr>;
         s2 = s1\<lparr>Votes := sput (case_index, who) opinion (Votes s1)\<rparr>;
         secs = now_secs cfg - open_since c1;
         r = collapsed (percent_from_rational cfg) (tally c1) (active_count cfg);
         s3 = (if ripens cfg r secs
               then s2\<lparr>RipeCases :=
                      sput case_index \<lparr>ripe_details = open_details c1, ripe_verdict = verdict r\<rparr>
                        (RipeCases s2)\<rparr>
               else s2\<lparr>OpenCases := sput case_index c1 (OpenCases s2)\<rparr>);
         s4 = s3\<lparr>Credits := sput who credit1 (Credits s3)\<rparr>
     in Inr (deposit_event (Voted case_index who opinion) s4, pays))))"

text \<open>Currying the callback of a case and dispatching it as root.\<close>

definition run_callback ::
  "('o, 'l, 'call, 'm) mob_config \<Rightarrow> nat \<Rightarrow> CaseDetails \<Rightarrow> Judgement \<Rightarrow> 'l mob_state \<Rightarrow> 'l mob_state" where
  "run_callback cfg case_index d v s =
     (case curry_callback (codec cfg) (callback d) (case_index, judgement_context d, v) of
        None \<Rightarrow> deposit_event CallbackError s
      | Some call \<Rightarrow>
          let (result, s') = dispatch_as_root cfg call s
          in deposit_event (CallbackRun result) s')"

definition close_case ::
  "('o, 'l, 'call, 'm) mob_config \<Rightarrow> 'o \<Rightarrow> nat \<Rightarrow> 'l mob_state \<Rightarrow> 'l mob_result" where
  "close_case cfg origin case_index s0 =
     ensure (ensure_none cfg origin) BadOrigin (
     on_ok (map_err Module (validate_close_case case_index s0)) (\<lambda>c.
     let s1 = s0\<lparr>RipeCases := sdel case_index (RipeCases s0)\<rparr>;
         s2 = run_callback cfg case_index (ripe_details c) (ripe_verdict c) s1;
         s3 = s2\<lparr>DoneCases :=
                sput case_index \<lparr>done_since = now_secs cfg, done_verdict = ripe_verdict c\<rparr>
                  (DoneCases s2)\<rparr>
     in Inr (deposit_event (CaseClosed case_index (ripe_verdict c)) s3, PaysYes)))"

definition clean_vote_inner ::
  "('o, 'l, 'call, 'm) mob_config \<Rightarrow> nat \<Rightarrow> person_alias \<Rightarrow> 'l mob_state \<Rightarrow>
   Error dispatch_error + 'l mob_state" where
  "clean_vote_inner cfg case_index voter s0 =
     on_ok (map_err Module (validate_clean_vote cfg case_index voter s0)) (\<lambda>v.
     let maybe_verdict = map_option done_verdict (sget (DoneCases s0) case_index);
         s1 = s0\<lparr>Votes := sdel (case_index, voter) (Votes s0)\<rparr>;
         credit0 = get_credit s1 voter;
         credit1 = credit0\<lparr>cleaned := sat_add u32_max (cleaned credit0) 1\<rparr>;
         (s2, credit2) =
           (case maybe_verdict of
              Some verd \<Rightarrow>
                if matches_intent verd v \<or> (verd = Contempt \<and> v = Truth TruthFalse)
                then (s1, credit1\<lparr>correct := sat_add u32_max (correct credit1) 1\<rparr>)
                else if v = Contempt
                then (s1\<lparr>VotingPenalties := sput voter (block_number cfg) (VotingPenalties s1)\<rparr>,
                      credit1)
                else (s1, credit1)
            | None \<Rightarrow> (s1, credit1));
         s3 = s2\<lparr>Credits := sput voter credit2 (Credits s2)\<rparr>
     in Inr (deposit_event (VoteCleaned case_index voter) s3))"

definition clean_vote ::
  "('o, 'l, 'call, 'm) mob_config \<Rightarrow> 'o \<Rightarrow> nat \<Rightarrow> person_alias \<Rightarrow> 'l mob_state \<Rightarrow> 'l mob_result" where
  "clean_vote cfg origin case_index voter s =
     ensure (ensure_none cfg origin) BadOrigin (
     on_ok (clean_vote_inner cfg case_index voter s) (\<lambda>s'. Inr (s', PaysYes)))"

definition reap_case ::
  "('o, 'l, 'call, 'm) mob_config \<Rightarrow> 'o \<Rightarrow> nat \<Rightarrow> 'l mob_state \<Rightarrow> 'l mob_result" where
  "reap_case cfg origin case_index s =
     ensure (ensure_none cfg origin) BadOrigin (
     on_ok (map_err Module (validate_reap_case cfg case_index s)) (\<lambda>_.
     Inr (deposit_event (CaseRemoved case_index)
            (s\<lparr>DoneCases := sdel case_index (DoneCases s)\<rparr>), PaysYes)))"

definition intervene ::
  "('o, 'l, 'call, 'm) mob_config \<Rightarrow> 'o \<Rightarrow> nat \<Rightarrow> Judgement \<Rightarrow> 'l mob_state \<Rightarrow> 'l mob_result" where
  "intervene cfg origin case_index v s0 =
     ensure (ensure_intervention cfg origin) BadOrigin (
     ok_or (sget (OpenCases s0) case_index) (Module NotOpen) (\<lambda>c.
     let s1 = s0\<lparr>OpenCases := sdel case_index (OpenCases s0)\<rparr>;
         s2 = run_callback cfg case_index (open_details c) v s1;
         s3 = s2\<lparr>DoneCases :=
                sput case_index \<lparr>done_since = now_secs cfg, done_verdict = v\<rparr> (DoneCases s2)\<rparr>
     in Inr (deposit_event (CaseIntervened case_index v) s3, PaysNo)))"

definition force_ripen_case ::
  "('o, 'l, 'call, 'm) mob_config \<Rightarrow> 'o \<Rightarrow> nat \<Rightarrow> 'l mob_state \<Rightarrow> 'l mob_result" where
  "force_ripen_case cfg origin case_index s0 =
     ensure (ensure_none cfg origin) BadOrigin (
     on_ok (map_err Module (validate_timeout_case cfg case_index s0)) (\<lambda>c.
     let s1 = s0\<lparr>OpenCases := sdel case_index (OpenCases s0)\<rparr>;
         r = collapsed (percent_from_rational cfg) (tally c) (active_count cfg);
         s2 = s1\<lparr>RipeCases :=
                sput case_index \<lparr>ripe_details = open_details c, ripe_verdict = verdict r\<rparr>
                  (RipeCases s1)\<rparr>
     in Inr (deposit_event (CaseClosed case_index (verdict r)) s2, PaysYes)))"

definition touch_case ::
  "('o, 'l, 'call, 'm) mob_config \<Rightarrow> 'o \<Rightarrow> nat \<Rightarrow> 'l mob_state \<Rightarrow> 'l mob_result" where
  "touch_case cfg origin case_index s0 =
     ok_or (ensure_signed cfg origin) BadOrigin (\<lambda>_.
     ok_or (sget (OpenCases s0) case_index) (Module NotOpen) (\<lambda>c.
     let s1 = s0\<lparr>OpenCases := sdel case_index (OpenCases s0)\<rparr>;
         secs = now_secs cfg - open_since c;
         r = collapsed (percent_from_rational cfg) (tally c) (active_count cfg)
     in if ripens cfg r secs
        then Inr (deposit_event (CaseTouched case_index True)
                    (s1\<lparr>RipeCases :=
                       sput case_index \<lparr>ripe_details = open_details c, ripe_verdict = verdict r\<rparr>
                         (RipeCases s1)\<rparr>), PaysNo)
        else Inr (deposit_event (CaseTouched case_index False)
                    (s1\<lparr>OpenCases := sput case_index c (OpenCases s1)\<rparr>), PaysYes)))"

subsection \<open>Claims, penalties and points\<close>

text \<open>
  The loop of \<open>do_claim_votes\<close>: each vote is taken from storage, the case must be done; the
  number of correct votes accumulates, and a contemptuous vote that was wrong is penalised.
\<close>

fun claim_loop ::
  "('o, 'l, 'call, 'm) mob_config \<Rightarrow> person_alias \<Rightarrow> nat list \<Rightarrow> nat \<Rightarrow> 'l mob_state \<Rightarrow>
   Error dispatch_error + (nat \<times> 'l mob_state)" where
  "claim_loop cfg voter [] n s = Inr (n, s)"
| "claim_loop cfg voter (case_index # rest) n s =
     ok_or (sget (Votes s) (case_index, voter)) (Module NoSuchVote) (\<lambda>v.
     let s1 = s\<lparr>Votes := sdel (case_index, voter) (Votes s)\<rparr>
     in ok_or (sget (DoneCases s1) case_index) (Module NotDone) (\<lambda>c.
        if matches_intent (done_verdict c) v \<or> (done_verdict c = Contempt \<and> v = Truth TruthFalse)
        then claim_loop cfg voter rest (sat_add u32_max n 1) s1
        else if v = Contempt
        then claim_loop cfg voter rest n
               (s1\<lparr>VotingPenalties := sput voter (block_number cfg) (VotingPenalties s1)\<rparr>)
        else claim_loop cfg voter rest n s1))"

definition next_round :: "'l mob_state \<Rightarrow> nat" where
  "next_round s =
     (case PayoutDistribution s of None \<Rightarrow> 0 | Some d \<Rightarrow> sat_add u32_max (round d) 1)"

definition do_claim_votes ::
  "('o, 'l, 'call, 'm) mob_config \<Rightarrow> person_alias \<Rightarrow> nat list \<Rightarrow> 'l mob_state \<Rightarrow>
   Error dispatch_error + 'l mob_state" where
  "do_claim_votes cfg voter case_indices s0 =
     ensure (length case_indices \<le> MaxVotesClaimable cfg) (Module TooManyClaims) (
     let credit0 = get_credit s0 voter;
         current_round = next_round s0
     in on_ok (claim_loop cfg voter case_indices 0 s0) (\<lambda>(correct_votes, s1).
        let credit1 = credit0\<lparr>cleaned := sat_add u32_max (cleaned credit0) (length case_indices)\<rparr>;
            credit2 = credit1\<lparr>correct := sat_add u32_max (correct credit1) correct_votes\<rparr>;
            s2 = s1\<lparr>VotingPoints :=
                   sput (current_round, voter)
                     (sat_add u32_max (get_points s1 current_round voter) correct_votes)
                     (VotingPoints s1)\<rparr>;
            s3 = s2\<lparr>AccumulatedPoints := sat_add u64_max (AccumulatedPoints s2) correct_votes\<rparr>;
            s4 = s3\<lparr>Credits := sput voter credit2 (Credits s3)\<rparr>
        in Inr (deposit_event (VotesClaimed voter case_indices) s4)))"

definition claim_votes ::
  "('o, 'l, 'call, 'm) mob_config \<Rightarrow> 'o \<Rightarrow> nat list \<Rightarrow> 'l mob_state \<Rightarrow> 'l mob_result" where
  "claim_votes cfg origin case_indices s =
     ok_or (ensure_person cfg origin) BadOrigin (\<lambda>voter.
     on_ok (do_claim_votes cfg voter case_indices s) (\<lambda>s'. Inr (s', PaysNo)))"

definition claim_vote ::
  "('o, 'l, 'call, 'm) mob_config \<Rightarrow> 'o \<Rightarrow> nat \<Rightarrow> 'l mob_state \<Rightarrow> 'l mob_result" where
  "claim_vote cfg origin case_index s =
     ok_or (ensure_person cfg origin) BadOrigin (\<lambda>voter.
     on_ok (do_claim_votes cfg voter [case_index] s) (\<lambda>s'. Inr (s', PaysNo)))"

definition clear_voting_penalty ::
  "('o, 'l, 'call, 'm) mob_config \<Rightarrow> 'o \<Rightarrow> 'l mob_state \<Rightarrow> 'l mob_result" where
  "clear_voting_penalty cfg origin s =
     ok_or (ensure_person cfg origin) BadOrigin (\<lambda>who.
     ok_or (sget (VotingPenalties s) who) (Module NoPenalty) (\<lambda>begin_at.
     ensure (sat_add u32_max begin_at (VotingPenaltyDuration cfg) \<le> block_number cfg) (Module Early) (
     Inr (deposit_event (VotingPenaltyCleared who)
            (s\<lparr>VotingPenalties := sdel who (VotingPenalties s)\<rparr>), PaysNo))))"

definition clean_vote_signed ::
  "('o, 'l, 'call, 'm) mob_config \<Rightarrow> 'o \<Rightarrow> nat \<Rightarrow> person_alias \<Rightarrow> 'l mob_state \<Rightarrow> 'l mob_result" where
  "clean_vote_signed cfg origin case_index voter s =
     ok_or (ensure_signed cfg origin) BadOrigin (\<lambda>_.
     on_ok (clean_vote_inner cfg case_index voter s) (\<lambda>s'. Inr (s', PaysNo)))"

definition clean_points ::
  "('o, 'l, 'call, 'm) mob_config \<Rightarrow> 'o \<Rightarrow> nat \<Rightarrow> person_alias \<Rightarrow> 'l mob_state \<Rightarrow> 'l mob_result" where
  "clean_points cfg origin rnd voter s =
     ok_or (ensure_signed cfg origin) BadOrigin (\<lambda>_.
     ok_or (PayoutDistribution s) (Module NoPayout) (\<lambda>d.
     ensure (rnd < round d) (Module NoPayout) (
     ensure (scontains (VotingPoints s) (rnd, voter)) (Module NoPoints) (
     Inr (deposit_event (PointsCleaned rnd voter)
            (s\<lparr>VotingPoints := sdel (rnd, voter) (VotingPoints s)\<rparr>), PaysNo)))))"

subsection \<open>Payout rounds\<close>

definition payout_rewards ::
  "('o, 'l, 'call, 'm) mob_config \<Rightarrow> 'o \<Rightarrow> account_id \<Rightarrow> 'l mob_state \<Rightarrow> 'l mob_result" where
  "payout_rewards cfg origin destination s0 =
     ok_or (ensure_person cfg origin) BadOrigin (\<lambda>voter.
     let mob_credit = get_credit s0 voter;
         payout_amount = credit mob_credit;
         pot = mob_rule_pot_id cfg
     in ensure (payout_amount \<noteq> 0) (Module NoCredit) (
        on_ok (map_err External
                (cur_release (Currency cfg) Credit pot payout_amount Exact (ledger s0)))
          (\<lambda>(released, l1).
        on_ok (map_err External
                (cur_transfer (Currency cfg) pot destination released Expendable l1))
          (\<lambda>(transferred, l2).
        let s1 = s0\<lparr>ledger := l2\<rparr>;
            s2 = s1\<lparr>Credits := sput voter (mob_credit\<lparr>credit := 0\<rparr>) (Credits s1)\<rparr>
        in Inr (deposit_event (RewardPayout voter destination transferred) s2, PaysNo)))))"

definition start_payout_round ::
  "('o, 'l, 'call, 'm) mob_config \<Rightarrow> 'o \<Rightarrow> 'l mob_state \<Rightarrow> 'l mob_result" where
  "start_payout_round cfg origin s0 =
     ensure (ensure_intervention cfg origin) BadOrigin (
     let points = AccumulatedPoints s0; now = block_number cfg
     in ensure (points > 0) (Module NoPoints) (
        (case RoundSchedules s0 of
           [] \<Rightarrow> Inl (Module NoSchedule)
         | current_schedule # later \<Rightarrow>
             ensure (case PayoutDistribution s0 of
                       None \<Rightarrow> True
                     | Some d \<Rightarrow> sat_add u32_max (start d) (period current_schedule) \<le> now)
               (Module Recent) (
             let current_schedule' =
                   current_schedule\<lparr>remaining := remaining current_schedule - 1\<rparr>
             in on_ok (case PayoutDistribution s0 of
                         None \<Rightarrow> Inr (ledger s0)
                       | Some d \<Rightarrow>
                           on_ok (map_err External
                                   (cur_release (Currency cfg) Payout (mob_rule_pot_id cfg)
                                      (remaining_balance d) BestEffort (ledger s0)))
                             (\<lambda>(_, l). Inr l))
                  (\<lambda>l1.
                let rnd = next_round s0;
                    amount = amount_per_round current_schedule';
                    d' = \<lparr>round = rnd, initial_balance = amount, remaining_balance = amount,
                          total_points = points, start = now\<rparr>;
                    schedules' =
                      (if remaining current_schedule' = 0 then later
                       else current_schedule' # later);
                    s1 = s0\<lparr>ledger := l1, PayoutDistribution := Some d', AccumulatedPoints := 0,
                            RoundSchedules := schedules'\<rparr>
                in Inr (deposit_event (PayoutRoundStarted rnd amount points) s1, PaysNo))))))"

definition schedule_payout_rounds ::
  "('o, 'l, 'call, 'm) mob_config \<Rightarrow> 'o \<Rightarrow> nat \<Rightarrow> nat \<Rightarrow> nat \<Rightarrow> 'l mob_state \<Rightarrow> 'l mob_result" where
  "schedule_payout_rounds cfg origin amount n per s0 =
     ensure (ensure_intervention cfg origin) BadOrigin (
     on_ok (map_err External
             (cur_hold (Currency cfg) Payout (mob_rule_pot_id cfg) (sat_mul u128_max amount n)
                (ledger s0))) (\<lambda>l1.
     ensure (length (RoundSchedules s0) < MaxPayoutRoundSchedules cfg) (Module TooManySchedules) (
     let s1 = s0\<lparr>ledger := l1,
                RoundSchedules :=
                  RoundSchedules s0 @ [\<lparr>remaining = n, amount_per_round = amount, period = per\<rparr>]\<rparr>
     in Inr (deposit_event (PayoutRoundsScheduled amount n per) s1, PaysNo))))"

definition remove_payout_schedule ::
  "('o, 'l, 'call, 'm) mob_config \<Rightarrow> 'o \<Rightarrow> nat \<Rightarrow> 'l mob_state \<Rightarrow> 'l mob_result" where
  "remove_payout_schedule cfg origin index s0 =
     ensure (ensure_intervention cfg origin) BadOrigin (
     ensure (index < length (RoundSchedules s0)) (Module NoSchedule) (
     let sched = RoundSchedules s0 ! index;
         rest = take index (RoundSchedules s0) @ drop (Suc index) (RoundSchedules s0);
         amount_to_release = sat_mul u128_max (amount_per_round sched) (remaining sched)
     in on_ok (map_err External
                (cur_release (Currency cfg) Payout (mob_rule_pot_id cfg) amount_to_release
                   BestEffort (ledger s0))) (\<lambda>(_, l1).
        Inr (deposit_event (PayoutScheduleRemoved index)
               (s0\<lparr>ledger := l1, RoundSchedules := rest\<rparr>), PaysNo))))"

definition claim_credit ::
  "('o, 'l, 'call, 'm) mob_config \<Rightarrow> 'o \<Rightarrow> 'l mob_state \<Rightarrow> 'l mob_result" where
  "claim_credit cfg origin s0 =
     ok_or (ensure_person cfg origin) BadOrigin (\<lambda>voter.
     ok_or (PayoutDistribution s0) (Module NoReward) (\<lambda>d.
     let mob_credit = get_credit s0 voter;
         points = get_points s0 (round d) voter;
         s1 = s0\<lparr>VotingPoints := sdel (round d, voter) (VotingPoints s0)\<rparr>
     in ensure (points > 0) (Module NoPoints) (
        let claimable_portion = perbill_from_rational cfg points (total_points d);
            claimable = perbill_mul_floor cfg claimable_portion (initial_balance d);
            pot = mob_rule_pot_id cfg
        in on_ok (map_err External
                   (cur_release (Currency cfg) Payout pot claimable BestEffort (ledger s1)))
             (\<lambda>(actual_released, l1).
           let d' = d\<lparr>remaining_balance := remaining_balance d - actual_released\<rparr>
           in on_ok (map_err External (cur_hold (Currency cfg) Credit pot actual_released l1)) (\<lambda>l2.
              ok_or (checked_add u128_max (credit mob_credit) actual_released)
                (Module ArithmeticOverflow) (\<lambda>new_credit.
              let s2 = s1\<lparr>ledger := l2,
                         Credits := sput voter (mob_credit\<lparr>credit := new_credit\<rparr>) (Credits s1),
                         PayoutDistribution := Some d'\<rparr>
              in Inr (deposit_event (CreditClaimed voter actual_released) s2, PaysNo)))))))"

subsection \<open>The statement oracle\<close>

definition judge_statement ::
  "nat \<Rightarrow> Statement \<Rightarrow> bytes \<Rightarrow> Callback \<Rightarrow> 'l mob_state \<Rightarrow> nat \<times> 'l mob_state" where
  "judge_statement now st ctx cb s =
     (let ticket = CaseCount s;
          s1 = s\<lparr>CaseCount := sat_add u32_max (CaseCount s) 1\<rparr>;
          status = \<lparr>open_since = now,
                    open_details = \<lparr>statement = st, judgement_context = ctx, callback = cb\<rparr>,
                    tally = empty_tally\<rparr>;
          s2 = s1\<lparr>OpenCases := sput ticket status (OpenCases s1)\<rparr>
      in (ticket, deposit_event (CaseCreated ticket) s2))"

subsection \<open>Hooks, unsigned transactions and queries\<close>

datatype Call =
    CallCloseCase nat
  | CallCleanVote nat person_alias
  | CallReapCase nat
  | CallForceRipenCase nat
  | OtherCall

datatype TransactionSource = InBlock | Local | ExternalSource

datatype InvalidTransaction = InvalidCall | Future | Stale | BadSigner

definition validate_unsigned ::
  "('o, 'l, 'call, 'm) mob_config \<Rightarrow> TransactionSource \<Rightarrow> Call \<Rightarrow> 'l mob_state \<Rightarrow>
   InvalidTransaction + unit" where
  "validate_unsigned cfg source call s =
     (case call of
        CallCloseCase case_index \<Rightarrow>
          map_err (\<lambda>e. if e = NotRipe \<and> scontains (OpenCases s) case_index then Future else Stale)
            (on_ok (validate_close_case case_index s) (\<lambda>_. Inr ()))
      | CallCleanVote case_index voter \<Rightarrow>
          ensure (source = Local \<or> source = InBlock) BadSigner (
          map_err (\<lambda>e. if e = Recent then Future else Stale)
            (on_ok (validate_clean_vote cfg case_index voter s) (\<lambda>_. Inr ())))
      | CallReapCase case_index \<Rightarrow>
          map_err (\<lambda>e. if e = Recent then Future else Stale)
            (on_ok (validate_reap_case cfg case_index s) (\<lambda>_. Inr ()))
      | CallForceRipenCase case_index \<Rightarrow>
          map_err (\<lambda>e. if e = Recent then Future else Stale)
            (on_ok (validate_timeout_case cfg case_index s) (\<lambda>_. Inr ()))
      | OtherCall \<Rightarrow> Inl InvalidCall)"

definition do_on_poll ::
  "('o, 'l, 'call, 'm) mob_config \<Rightarrow> 'm \<Rightarrow> 'l mob_state \<Rightarrow> 'm \<times> 'l mob_state" where
  "do_on_poll cfg meter s =
     (case try_consume cfg meter OnPollBase of
        None \<Rightarrow> (meter, s)
      | Some meter1 \<Rightarrow>
          if ActiveSince s = None \<and> active_count cfg \<ge> MinimumVoterThreshold cfg
          then (case try_consume cfg meter1 SetActiveSince of
                  None \<Rightarrow> (meter1, s)
                | Some meter2 \<Rightarrow> (meter2, s\<lparr>ActiveSince := Some (now_secs cfg)\<rparr>))
          else if ActiveSince s \<noteq> None \<and> active_count cfg < MinimumVoterThreshold cfg
          then (case try_consume cfg meter1 KillActiveSince of
                  None \<Rightarrow> (meter1, s)
                | Some meter2 \<Rightarrow> (meter2, s\<lparr>ActiveSince := None\<rparr>))
          else (meter1, s))"

definition voted_on :: "person_alias \<Rightarrow> bool \<Rightarrow> 'l mob_state \<Rightarrow> nat list" where
  "voted_on voter done_only s =
     [c. (c, a) \<leftarrow> map fst (Votes s), a = voter, done_only \<longrightarrow> scontains (DoneCases s) c]"

text \<open>
  The loop of \<open>votes_to_clean\<close> over the stored votes: the accumulator is the map from a case
  to the voters chosen so far and their number; the loop stops once \<open>limit\<close> are chosen.
\<close>

fun votes_to_clean_loop ::
  "('o, 'l, 'call, 'm) mob_config \<Rightarrow> 'l mob_state \<Rightarrow> nat \<Rightarrow> ((nat \<times> person_alias) \<times> Judgement) list \<Rightarrow>
   (nat, person_alias list) storage \<Rightarrow> nat \<Rightarrow> (nat, person_alias list) storage" where
  "votes_to_clean_loop cfg s limit_per_case [] cases cases_len = cases"
| "votes_to_clean_loop cfg s limit_per_case (((case_index, voter), _) # rest) cases cases_len =
     (let (cases', cases_len') =
        (if case sget (DoneCases s) case_index of
              None \<Rightarrow> False
            | Some c \<Rightarrow>
                now_secs cfg > sat_add u64_max (VotesOpenForClaimsDuration cfg) (done_since c)
         then (case sget cases case_index of
                 Some voters \<Rightarrow>
                   if length voters < limit_per_case
                   then (sput case_index (voters @ [voter]) cases, Suc cases_len)
                   else (cases, cases_len)
               | None \<Rightarrow> (sput case_index [voter] cases, Suc cases_len))
         else (cases, cases_len))
      in if cases_len' \<ge> CleanVotesBatchSize cfg then cases'
         else votes_to_clean_loop cfg s limit_per_case rest cases' cases_len')"

definition votes_to_clean ::
  "('o, 'l, 'call, 'm) mob_config \<Rightarrow> 'l mob_state \<Rightarrow> (nat \<times> person_alias list) list" where
  "votes_to_clean cfg s =
     (let done_cases_len = length (DoneCases s)
      in if done_cases_len = 0 then []
         else sort_key fst
                (votes_to_clean_loop cfg s (CleanVotesBatchSize cfg div done_cases_len)
                   (Votes s) [] 0))"

text \<open>The unsigned transactions that the offchain worker submits, in their order.\<close>

definition offchain_worker ::
  "('o, 'l, 'call, 'm) mob_config \<Rightarrow> nat \<Rightarrow> 'l mob_state \<Rightarrow> Call list" where
  "offchain_worker cfg block s =
     (let interval = OffchainWorkInterval cfg
      in if interval = 0 \<or> block mod interval \<noteq> 0 then []
         else [CallCloseCase c. (c, _) \<leftarrow> RipeCases s, is_ok (validate_close_case c s)] @
              [CallCleanVote c v. (c, vs) \<leftarrow> votes_to_clean cfg s, v \<leftarrow> vs] @
              [CallReapCase c. (c, _) \<leftarrow> DoneCases s, is_ok (validate_reap_case cfg c s)] @
              [CallForceRipenCase c. (c, _) \<leftarrow> OpenCases s, is_ok (validate_timeout_case cfg c s)])"

subsection \<open>All the entry points of the pallet\<close>

text \<open>
  One constructor per way into the pallet: its dispatchables, the oracle interface and the
  poll hook. A call carries its origin and the configuration seen at its time.
\<close>

datatype 'o mob_call =
    DoVote 'o nat Judgement
  | DoCloseCase 'o nat
  | DoCleanVote 'o nat person_alias
  | DoReapCase 'o nat
  | DoIntervene 'o nat Judgement
  | DoClaimVote 'o nat
  | DoPayoutRewards 'o account_id
  | DoClaimVotes 'o "nat list"
  | DoStartPayoutRound 'o
  | DoSchedulePayoutRounds 'o nat nat nat
  | DoRemovePayoutSchedule 'o nat
  | DoClaimCredit 'o
  | DoCleanPoints 'o nat person_alias
  | DoForceRipenCase 'o nat
  | DoTouchCase 'o nat
  | DoClearVotingPenalty 'o
  | DoCleanVoteSigned 'o nat person_alias
  | DoJudgeStatement Statement bytes Callback
  | DoPoll

fun mob_dispatch ::
  "('o, 'l, 'call, 'm) mob_config \<times> 'm \<Rightarrow> 'o mob_call \<Rightarrow> 'l mob_state \<Rightarrow> 'l mob_result" where
  "mob_dispatch (cfg, m) (DoVote org c j) s = vote cfg org c j s"
| "mob_dispatch (cfg, m) (DoCloseCase org c) s = close_case cfg org c s"
| "mob_dispatch (cfg, m) (DoCleanVote org c v) s = clean_vote cfg org c v s"
| "mob_dispatch (cfg, m) (DoReapCase org c) s = reap_case cfg org c s"
| "mob_dispatch (cfg, m) (DoIntervene org c j) s = intervene cfg org c j s"
| "mob_dispatch (cfg, m) (DoClaimVote org c) s = claim_vote cfg org c s"
| "mob_dispatch (cfg, m) (DoPayoutRewards org d) s = payout_rewards cfg org d s"
| "mob_dispatch (cfg, m) (DoClaimVotes org cs) s = claim_votes cfg org cs s"
| "mob_dispatch (cfg, m) (DoStartPayoutRound org) s = start_payout_round cfg org s"
| "mob_dispatch (cfg, m) (DoSchedulePayoutRounds org a n p) s = schedule_payout_rounds cfg org a n p s"
| "mob_dispatch (cfg, m) (DoRemovePayoutSchedule org i) s = remove_payout_schedule cfg org i s"
| "mob_dispatch (cfg, m) (DoClaimCredit org) s = claim_credit cfg org s"
| "mob_dispatch (cfg, m) (DoCleanPoints org r v) s = clean_points cfg org r v s"
| "mob_dispatch (cfg, m) (DoForceRipenCase org c) s = force_ripen_case cfg org c s"
| "mob_dispatch (cfg, m) (DoTouchCase org c) s = touch_case cfg org c s"
| "mob_dispatch (cfg, m) (DoClearVotingPenalty org) s = clear_voting_penalty cfg org s"
| "mob_dispatch (cfg, m) (DoCleanVoteSigned org c v) s = clean_vote_signed cfg org c v s"
| "mob_dispatch (cfg, m) (DoJudgeStatement st ctx cb) s =
     Inr (snd (judge_statement (now_secs cfg) st ctx cb s), PaysYes)"
| "mob_dispatch (cfg, m) DoPoll s = Inr (snd (do_on_poll cfg m s), PaysYes)"

end
