(* ===== verification/Mob_Rule_Cases.thy ===== *)
theory Mob_Rule_Cases
  imports Mob_Rule
begin

text \<open>
  The life of a case. The invariant \<open>case_inv\<close>: a case is in at most one of the open, ripe and
  done maps, every index in use was issued by the oracle, and the tally of an open case counts
  exactly the votes stored for it. Every entry point of the pallet keeps it, and moves each
  case only along the edges of the life cycle \<open>phase_step\<close>.
\<close>

subsection \<open>The invariant over the five maps of a case\<close>

definition votes_for :: "(nat \<times> person_alias, Judgement) storage \<Rightarrow> nat \<Rightarrow> Judgement \<Rightarrow> nat" where
  "votes_for V i j = ssum (\<lambda>p. if fst (fst p) = i \<and> snd p = j then 1 else 0) V"

definition tally_matches :: "(nat \<times> person_alias, Judgement) storage \<Rightarrow> nat \<Rightarrow> VoteTally \<Rightarrow> bool" where
  "tally_matches V i t \<longleftrightarrow>
     aye t = votes_for V i (Truth TruthTrue) \<and>
     nay t = votes_for V i (Truth TruthFalse) \<and>
     contempt t = votes_for V i Contempt"

definition cases_ok ::
  "(nat \<times> person_alias, Judgement) storage \<Rightarrow> nat \<Rightarrow> (nat, OpenCase) storage \<Rightarrow>
   (nat, RipeCase) storage \<Rightarrow> (nat, DoneCase) storage \<Rightarrow> bool" where
  "cases_ok V n Op R D \<longleftrightarrow>
     wf_storage V \<and> wf_storage Op \<and> wf_storage R \<and> wf_storage D \<and>
     (\<forall>i. scontains Op i \<longrightarrow> \<not> scontains R i \<and> \<not> scontains D i) \<and>
     (\<forall>i. scontains R i \<longrightarrow> \<not> scontains D i) \<and>
     (\<forall>i. scontains Op i \<or> scontains R i \<or> scontains D i \<longrightarrow> i < n) \<and>
     (\<forall>i a. scontains V (i, a) \<longrightarrow> i < n) \<and>
     (\<forall>i c. sget Op i = Some c \<longrightarrow> tally_matches V i (tally c))"

definition case_inv :: "'l mob_state \<Rightarrow> bool" where
  "case_inv s = cases_ok (Votes s) (CaseCount s) (OpenCases s) (RipeCases s) (DoneCases s)"

lemmas case_inv_defs = case_inv_def cases_ok_def

lemma votes_for_le: "votes_for V i j \<le> length V"
  unfolding votes_for_def by (induction V) auto

lemma votes_for_sput:
  assumes "wf_storage V"
  shows "votes_for (sput (i, a) j V) i' k +
           (case sget V (i, a) of None \<Rightarrow> 0 | Some old \<Rightarrow> if i = i' \<and> old = k then 1 else 0)
         = votes_for V i' k + (if i = i' \<and> j = k then 1 else 0)"
  using ssum_sput [OF assms, of "\<lambda>p. if fst (fst p) = i' \<and> snd p = k then 1 else 0" "(i, a)" j]
  by (simp add: votes_for_def cong: option.case_cong)

lemma votes_for_other [simp]: "wf_storage V \<Longrightarrow> i \<noteq> i' \<Longrightarrow> votes_for (sput (i, a) j V) i' k = votes_for V i' k"
  using votes_for_sput [of V i a j i' k] by (simp split: option.splits)

lemma votes_for_sdel [simp]:
  "wf_storage V \<Longrightarrow> i \<noteq> i' \<Longrightarrow> votes_for (sdel (i, a) V) i' k = votes_for V i' k"
  using ssum_sdel [of V "\<lambda>p. if fst (fst p) = i' \<and> snd p = k then 1 else 0" "(i, a)"]
  by (simp add: votes_for_def split: option.splits)

lemma votes_for_fresh: "(\<And>a. \<not> scontains V (i, a)) \<Longrightarrow> votes_for V i j = 0"
  unfolding votes_for_def
  by (rule ssum_eq_0) (force simp: scontains_def sget_None_iff)

lemma votes_for_voter: "sget V (i, a) = Some j \<Longrightarrow> 1 \<le> votes_for V i j"
  using entry_value_le
    [where f = "\<lambda>p. if fst (fst p) = i \<and> snd p = j then 1 else 0" and m = V and k = "(i, a)"]
  by (simp add: votes_for_def)

lemma tally_matches_revote:
  assumes V: "wf_storage V" "length V < u32_max" and t: "tally_matches V i t"
  shows "tally_matches (sput (i, a) j V) i
           (tally_count (case sget V (i, a) of None \<Rightarrow> t | Some old \<Rightarrow> tally_discount t old) j)"
proof -
  have le: "\<And>k. votes_for V i k < u32_max"
    using V(2) votes_for_le le_less_trans by blast
  have put: "\<And>k. votes_for (sput (i, a) j V) i k +
        (case sget V (i, a) of None \<Rightarrow> 0 | Some old \<Rightarrow> if old = k then 1 else 0)
      = votes_for V i k + (if j = k then 1 else 0)"
    subgoal for k using votes_for_sput [OF V(1), of i a j i k] by (cases "sget V (i, a)") simp_all
    done
  have old: "\<And>old. sget V (i, a) = Some old \<Longrightarrow> 1 \<le> votes_for V i old"
    by (rule votes_for_voter)
  show ?thesis
  proof (cases "sget V (i, a)")
    case None
    with t le [of j] put [of "Truth TruthTrue"] put [of "Truth TruthFalse"] put [of Contempt]
    show ?thesis
      by (cases "(t, j)" rule: tally_count.cases) (simp_all add: tally_matches_def)
  next
    case (Some old')
    with t le [of j] old [OF Some] put [of "Truth TruthTrue"] put [of "Truth TruthFalse"]
      put [of Contempt]
    show ?thesis
      by (cases "(t, old')" rule: tally_count.cases; cases "(t, j)" rule: tally_count.cases)
         (simp_all add: tally_matches_def)
  qed
qed

subsection \<open>The moves of a case keep the invariant\<close>

lemma cases_ok_ripen:
  "cases_ok V n Op R D \<Longrightarrow> sget Op i = Some c \<Longrightarrow> cases_ok V n (sdel i Op) (sput i r R) D"
  by (auto simp: cases_ok_def scontains_def)

lemma cases_ok_remove_open: "cases_ok V n Op R D \<Longrightarrow> cases_ok V n (sdel i Op) R D"
  by (auto simp: cases_ok_def)

lemma cases_ok_remove_ripe: "cases_ok V n Op R D \<Longrightarrow> cases_ok V n Op (sdel i R) D"
  by (auto simp: cases_ok_def)

lemma cases_ok_remove_done: "cases_ok V n Op R D \<Longrightarrow> cases_ok V n Op R (sdel i D)"
  by (auto simp: cases_ok_def)

lemma cases_ok_finish:
  "cases_ok V n Op R D \<Longrightarrow> \<not> scontains Op i \<Longrightarrow> \<not> scontains R i \<Longrightarrow> i < n \<Longrightarrow>
   cases_ok V n Op R (sput i d D)"
  by (auto simp: cases_ok_def)

lemma cases_ok_reinsert:
  "cases_ok V n Op R D \<Longrightarrow> sget Op i = Some c \<Longrightarrow> cases_ok V n (sput i c (sdel i Op)) R D"
  by (auto simp: cases_ok_def scontains_def)

lemma cases_ok_vote:
  assumes ok: "cases_ok V n Op R D" and c: "sget Op i = Some c" and "length V < u32_max"
    and t': "t' = tally_count
               (case sget V (i, a) of None \<Rightarrow> tally c | Some old \<Rightarrow> tally_discount (tally c) old) j"
  shows "cases_ok (sput (i, a) j V) n (sput i (c\<lparr>tally := t'\<rparr>) (sdel i Op)) R D"
proof -
  have V: "wf_storage V" and i: "i < n" and t: "tally_matches V i (tally c)"
    using ok c by (auto simp: cases_ok_def scontains_def)
  have new: "tally_matches (sput (i, a) j V) i t'"
    unfolding t' by (rule tally_matches_revote [OF V assms(3) t])
  have others: "tally_matches (sput (i, a) j V) i' u = tally_matches V i' u" if "i' \<noteq> i" for i' u
    using V that by (simp add: tally_matches_def)
  have "scontains Op i" using c by (simp add: scontains_def)
  then show ?thesis
    using ok i new others by (auto simp: cases_ok_def split: if_splits)
qed

lemma cases_ok_drop_vote:
  "cases_ok V n Op R D \<Longrightarrow> \<not> scontains Op i \<Longrightarrow> cases_ok (sdel (i, a) V) n Op R D"
  by (auto simp: cases_ok_def tally_matches_def scontains_def)
     (metis option.distinct(1) votes_for_sdel)+

lemma cases_ok_new:
  assumes ok: "cases_ok V n Op R D" and "n < m" and "tally c = empty_tally"
  shows "cases_ok V m (sput n c Op) R D"
proof -
  have "\<And>a. \<not> scontains V (n, a)"
    using ok by (auto simp: cases_ok_def)
  then have "tally_matches V n (tally c)"
    using assms(3) by (simp add: tally_matches_def empty_tally_def votes_for_fresh)
  then show ?thesis
    using ok assms(2) by (auto simp: cases_ok_def dest: less_trans split: if_splits)
qed

end
