(* ===== verification/Mob_Rule_Lifecycle.thy ===== *)
theory Mob_Rule_Lifecycle
  imports Mob_Rule_Cases
begin

text \<open>
  Every entry point of mob-rule keeps the invariant of the cases and moves a case only along
  the life cycle. A callback dispatched as root runs other pallets; what it can do to the
  state of mob-rule is stated by \<open>callback_effect\<close>: open new cases through the statement
  oracle, deposit events, and move money without touching the holds of the pot.
\<close>

subsection \<open>What a callback may do\<close>

inductive callback_effect ::
  "('o, 'l, 'call, 'm) mob_config \<Rightarrow> 'l mob_state \<Rightarrow> 'l mob_state \<Rightarrow> bool"
  for cfg :: "('o, 'l, 'call, 'm) mob_config" and s :: "'l mob_state" where
  quiet: "callback_effect cfg s s"
| judge: "callback_effect cfg s s' \<Longrightarrow> CaseCount s' < u32_max \<Longrightarrow>
    callback_effect cfg s (snd (judge_statement now st ctx cb s'))"
| event: "callback_effect cfg s s' \<Longrightarrow> callback_effect cfg s (deposit_event e s')"
| money: "callback_effect cfg s s' \<Longrightarrow>
    (\<And>r. on_hold (Currency cfg) r (mob_rule_pot_id cfg) l =
         on_hold (Currency cfg) r (mob_rule_pot_id cfg) (ledger s')) \<Longrightarrow>
    callback_effect cfg s (s'\<lparr>ledger := l\<rparr>)"

definition callback_ok :: "('o, 'l, 'call, 'm) mob_config \<Rightarrow> bool" where
  "callback_ok cfg \<longleftrightarrow>
     (\<forall>call s r s'. dispatch_as_root cfg call s = (r, s') \<longrightarrow> callback_effect cfg s s')"

lemma deposit_event_sel [simp]:
  "Credits (deposit_event e s) = Credits s" "VotingPenalties (deposit_event e s) = VotingPenalties s"
  "VotingPoints (deposit_event e s) = VotingPoints s" "Votes (deposit_event e s) = Votes s"
  "CaseCount (deposit_event e s) = CaseCount s" "OpenCases (deposit_event e s) = OpenCases s"
  "RipeCases (deposit_event e s) = RipeCases s" "DoneCases (deposit_event e s) = DoneCases s"
  "AccumulatedPoints (deposit_event e s) = AccumulatedPoints s"
  "PayoutDistribution (deposit_event e s) = PayoutDistribution s"
  "RoundSchedules (deposit_event e s) = RoundSchedules s"
  "ActiveSince (deposit_event e s) = ActiveSince s" "ledger (deposit_event e s) = ledger s"
  "events (deposit_event e s) = events s @ [e]"
  by (simp_all add: deposit_event_def)

text \<open>The parts of the state a callback leaves alone, and what it does to the cases.\<close>

definition same_books :: "('o, 'l, 'call, 'm) mob_config \<Rightarrow> 'l mob_state \<Rightarrow> 'l mob_state \<Rightarrow> bool" where
  "same_books cfg s s' \<longleftrightarrow>
     Credits s' = Credits s \<and> VotingPoints s' = VotingPoints s \<and>
     AccumulatedPoints s' = AccumulatedPoints s \<and>
     PayoutDistribution s' = PayoutDistribution s \<and> RoundSchedules s' = RoundSchedules s \<and>
     (\<forall>r. on_hold (Currency cfg) r (mob_rule_pot_id cfg) (ledger s') =
          on_hold (Currency cfg) r (mob_rule_pot_id cfg) (ledger s))"

definition only_new_cases :: "'l mob_state \<Rightarrow> 'l mob_state \<Rightarrow> bool" where
  "only_new_cases s s' \<longleftrightarrow>
     Votes s' = Votes s \<and> RipeCases s' = RipeCases s \<and> DoneCases s' = DoneCases s \<and>
     CaseCount s \<le> CaseCount s' \<and>
     (\<forall>i<CaseCount s. sget (OpenCases s') i = sget (OpenCases s) i) \<and>
     (\<forall>i. CaseCount s \<le> i \<longrightarrow> i < CaseCount s' \<longrightarrow> scontains (OpenCases s') i)"

lemma callback_effect_books: "callback_effect cfg s s' \<Longrightarrow> same_books cfg s s'"
  by (induction rule: callback_effect.induct)
     (auto simp: same_books_def judge_statement_def Let_def)

lemma callback_effect_cases:
  "callback_effect cfg s s' \<Longrightarrow> case_inv s \<Longrightarrow> case_inv s' \<and> only_new_cases s s'"
proof (induction rule: callback_effect.induct)
  case (judge s' now st ctx cb)
  then have inv: "case_inv s'" and new: "only_new_cases s s'" by simp_all
  from judge.hyps have n: "sat_add u32_max (CaseCount s') 1 = Suc (CaseCount s')" by simp
  have "cases_ok (Votes s') (Suc (CaseCount s'))
          (sput (CaseCount s') \<lparr>open_since = now,
             open_details = \<lparr>statement = st, judgement_context = ctx, callback = cb\<rparr>,
             tally = empty_tally\<rparr> (OpenCases s')) (RipeCases s') (DoneCases s')"
    using inv by (intro cases_ok_new) (simp_all add: case_inv_def)
  with new n show ?case
    by (auto simp: only_new_cases_def case_inv_def judge_statement_def Let_def less_Suc_eq)
qed (auto simp: only_new_cases_def case_inv_def)

lemma run_callback_effect: "callback_ok cfg \<Longrightarrow> callback_effect cfg s (run_callback cfg i d v s)"
  unfolding run_callback_def callback_ok_def
  by (auto split: option.splits prod.splits intro: callback_effect.intros)

lemmas run_callback_books = callback_effect_books [OF run_callback_effect]
lemmas run_callback_cases = callback_effect_cases [OF run_callback_effect]

subsection \<open>The life cycle\<close>

datatype phase = Unissued | InVoting | Decided | Finished | Reaped

inductive phase_step :: "phase \<Rightarrow> phase \<Rightarrow> bool" where
  issue: "phase_step Unissued InVoting"
| ripen: "phase_step InVoting Decided"
| force: "phase_step InVoting Finished"
| close: "phase_step Decided Finished"
| reap: "phase_step Finished Reaped"

inductive_simps phase_step_simps [simp]:
  "phase_step Unissued q" "phase_step InVoting q" "phase_step Decided q" "phase_step Finished q"
  "phase_step Reaped q"

definition phase_of :: "'l mob_state \<Rightarrow> nat \<Rightarrow> phase" where
  "phase_of s i =
     (if scontains (OpenCases s) i then InVoting
      else if scontains (RipeCases s) i then Decided
      else if scontains (DoneCases s) i then Finished
      else if i < CaseCount s then Reaped else Unissued)"

definition phases_follow :: "'l mob_state \<Rightarrow> 'l mob_state \<Rightarrow> bool" where
  "phases_follow s s' \<longleftrightarrow>
     (\<forall>i. phase_of s' i = phase_of s i \<or> phase_step (phase_of s i) (phase_of s' i))"

text \<open>
  One conclusion for every call: the invariant is kept and the phases follow the life cycle.
\<close>

definition case_contract :: "'l mob_state \<Rightarrow> 'l mob_state \<Rightarrow> bool" where
  "case_contract s s' \<longleftrightarrow> case_inv s' \<and> phases_follow s s'"

lemma case_contract_frame:
  assumes "case_inv s" and "CaseCount s' = CaseCount s" "OpenCases s' = OpenCases s"
    "RipeCases s' = RipeCases s" "DoneCases s' = DoneCases s" "Votes s' = Votes s"
  shows "case_contract s s'"
  using assms by (simp add: case_contract_def case_inv_def phases_follow_def phase_of_def)

lemma openD: "case_inv s \<Longrightarrow> sget (OpenCases s) i = Some c \<Longrightarrow>
    scontains (OpenCases s) i \<and> \<not> scontains (RipeCases s) i \<and> \<not> scontains (DoneCases s) i \<and>
    i < CaseCount s"
  by (simp add: case_inv_defs scontains_def)

lemma ripeD: "case_inv s \<Longrightarrow> sget (RipeCases s) i = Some c \<Longrightarrow>
    scontains (RipeCases s) i \<and> \<not> scontains (OpenCases s) i \<and> \<not> scontains (DoneCases s) i \<and>
    i < CaseCount s"
  by (auto simp: case_inv_defs scontains_def)

lemma doneD: "case_inv s \<Longrightarrow> sget (DoneCases s) i = Some c \<Longrightarrow>
    scontains (DoneCases s) i \<and> \<not> scontains (OpenCases s) i \<and> \<not> scontains (RipeCases s) i \<and>
    i < CaseCount s"
  by (auto simp: case_inv_defs scontains_def)

lemma contract_ripen:
  assumes "case_inv s" and "sget (OpenCases s) i = Some c"
    and "CaseCount s' = CaseCount s" "OpenCases s' = sdel i (OpenCases s)"
    "RipeCases s' = sput i r (RipeCases s)" "DoneCases s' = DoneCases s" "Votes s' = Votes s"
  shows "case_contract s s'"
  using assms cases_ok_ripen [of "Votes s" _ "OpenCases s"] openD [OF assms(1,2)]
  by (auto simp: case_contract_def case_inv_def phases_follow_def phase_of_def)

lemma contract_finish:
  assumes "case_inv s" and mid: "case_inv s1 \<and> only_new_cases s1 s2"
    and i: "i < CaseCount s" "\<not> scontains (OpenCases s1) i" "\<not> scontains (RipeCases s1) i"
    and s1: "CaseCount s1 = CaseCount s" "DoneCases s1 = DoneCases s"
    "\<And>k. k \<noteq> i \<Longrightarrow> scontains (OpenCases s1) k = scontains (OpenCases s) k"
    "\<And>k. k \<noteq> i \<Longrightarrow> scontains (RipeCases s1) k = scontains (RipeCases s) k"
    and from_open: "phase_of s i = InVoting \<or> phase_of s i = Decided"
    and s': "CaseCount s' = CaseCount s2" "OpenCases s' = OpenCases s2" "RipeCases s' = RipeCases s2"
    "Votes s' = Votes s2" "DoneCases s' = sput i d (DoneCases s2)"
    and inv2: "case_inv s2"
  shows "case_contract s s'"
proof -
  have n: "only_new_cases s1 s2" using mid by simp
  have io: "\<not> scontains (OpenCases s2) i" "\<not> scontains (RipeCases s2) i" "i < CaseCount s2"
    using n i s1 by (auto simp: only_new_cases_def scontains_def)
  have "case_inv s'"
    using inv2 io s' cases_ok_finish by (simp add: case_inv_def)
  moreover have "phase_of s' k = phase_of s k \<or> phase_step (phase_of s k) (phase_of s' k)" for k
  proof (cases "k = i")
    case True
    then have "phase_of s' k = Finished" using io s' by (simp add: phase_of_def)
    with True from_open show ?thesis by auto
  next
    case False
    show ?thesis
    proof (cases "k < CaseCount s")
      case True
      then have "phase_of s' k = phase_of s k"
        using n False s1 s' by (auto simp: phase_of_def only_new_cases_def scontains_def)
      then show ?thesis by simp
    next
      case outside: False
      have "\<not> scontains (OpenCases s) k" "\<not> scontains (RipeCases s) k" "\<not> scontains (DoneCases s) k"
        using assms(1) outside by (auto simp: case_inv_defs)
      then have "phase_of s k = Unissued" using outside by (simp add: phase_of_def)
      moreover have "phase_of s' k = InVoting \<or> phase_of s' k = Unissued"
        using n False outside s1 s' \<open>\<not> scontains (RipeCases s) k\<close> \<open>\<not> scontains (DoneCases s) k\<close>
        by (auto simp: phase_of_def only_new_cases_def)
      ultimately show ?thesis by auto
    qed
  qed
  ultimately show ?thesis by (simp add: case_contract_def phases_follow_def)
qed

subsection \<open>Each entry point\<close>

lemma contract_same_phase:
  assumes "case_inv s'" and "CaseCount s' = CaseCount s"
    "\<And>i. scontains (OpenCases s') i = scontains (OpenCases s) i"
    "RipeCases s' = RipeCases s" "DoneCases s' = DoneCases s"
  shows "case_contract s s'"
  using assms by (simp add: case_contract_def phases_follow_def phase_of_def)

lemma cases_ok_vote_ripen:
  assumes "cases_ok V n Op R D" "sget Op i = Some c" "length V < u32_max"
  shows "cases_ok (sput (i, a) j V) n (sdel i Op) (sput i r R) D"
  using cases_ok_vote [OF assms refl, where a = a and j = j] assms(1)
  by (auto simp: cases_ok_def split: if_splits)

lemma vote_contract:
  assumes inv: "case_inv s" and len: "length (Votes s) < u32_max"
    and res: "vote cfg origin i j s = Inr (s', p)"
  shows "case_contract s s'"
proof -
  from res obtain who c where who: "ensure_person cfg origin = Some who"
    and c: "sget (OpenCases s) i = Some c"
    by (auto simp: vote_def)
  have eqs: "CaseCount s' = CaseCount s" "DoneCases s' = DoneCases s"
      "Votes s' = sput (i, who) j (Votes s)"
    using res who c by (auto simp: vote_def Let_def split: option.splits if_splits)
  have out: "(OpenCases s' = sdel i (OpenCases s) \<and> (\<exists>r. RipeCases s' = sput i r (RipeCases s))) \<or>
      (RipeCases s' = RipeCases s \<and>
       OpenCases s' = sput i (c\<lparr>tally := tally_count
         (case sget (Votes s) (i, who) of None \<Rightarrow> tally c
          | Some old \<Rightarrow> tally_discount (tally c) old) j\<rparr>) (sdel i (OpenCases s)))"
    using res who c by (cases "sget (Votes s) (i, who)") (auto simp: vote_def Let_def split: if_splits)
  note ok = inv [unfolded case_inv_def]
  from out show ?thesis
  proof
    assume "OpenCases s' = sdel i (OpenCases s) \<and> (\<exists>r. RipeCases s' = sput i r (RipeCases s))"
    with eqs cases_ok_vote_ripen [OF ok c len, of who j] openD [OF inv c] show ?thesis
      by (auto simp: case_contract_def case_inv_def phases_follow_def phase_of_def)
  next
    assume *: "RipeCases s' = RipeCases s \<and>
       OpenCases s' = sput i (c\<lparr>tally := tally_count
         (case sget (Votes s) (i, who) of None \<Rightarrow> tally c
          | Some old \<Rightarrow> tally_discount (tally c) old) j\<rparr>) (sdel i (OpenCases s))"
    have "case_inv s'"
      using cases_ok_vote [OF ok c len refl, of who j] * eqs by (simp add: case_inv_def)
    then show ?thesis
      by (rule contract_same_phase) (use * eqs openD [OF inv c] in auto)
  qed
qed

lemma close_case_contract:
  assumes inv: "case_inv s" and cb: "callback_ok cfg" and res: "close_case cfg origin i s = Inr (s', p)"
  shows "case_contract s s'"
proof -
  let ?s1 = "s\<lparr>RipeCases := sdel i (RipeCases s)\<rparr>"
  from res obtain c where c: "sget (RipeCases s) i = Some c"
    and s': "s' = deposit_event (CaseClosed i (ripe_verdict c))
      ((run_callback cfg i (ripe_details c) (ripe_verdict c) ?s1)
        \<lparr>DoneCases := sput i \<lparr>done_since = now_secs cfg, done_verdict = ripe_verdict c\<rparr>
          (DoneCases (run_callback cfg i (ripe_details c) (ripe_verdict c) ?s1))\<rparr>)"
    by (auto simp: close_case_def validate_close_case_def Let_def)
  have "case_inv ?s1"
    using inv cases_ok_remove_ripe by (simp add: case_inv_def)
  note mid = this run_callback_cases [OF cb this, of i "ripe_details c" "ripe_verdict c"]
  show ?thesis
    by (rule contract_finish [OF inv, where ?s1.0 = ?s1 and i = i and
          ?s2.0 = "run_callback cfg i (ripe_details c) (ripe_verdict c) ?s1"])
       (use mid ripeD [OF inv c] s' in \<open>auto simp: phase_of_def\<close>)
qed

lemma intervene_contract:
  assumes inv: "case_inv s" and cb: "callback_ok cfg" and res: "intervene cfg origin i v s = Inr (s', p)"
  shows "case_contract s s'"
proof -
  let ?s1 = "s\<lparr>OpenCases := sdel i (OpenCases s)\<rparr>"
  from res obtain c where c: "sget (OpenCases s) i = Some c"
    and s': "s' = deposit_event (CaseIntervened i v)
      ((run_callback cfg i (open_details c) v ?s1)
        \<lparr>DoneCases := sput i \<lparr>done_since = now_secs cfg, done_verdict = v\<rparr>
          (DoneCases (run_callback cfg i (open_details c) v ?s1))\<rparr>)"
    by (auto simp: intervene_def Let_def)
  have "case_inv ?s1"
    using inv cases_ok_remove_open by (simp add: case_inv_def)
  note mid = this run_callback_cases [OF cb this, of i "open_details c" v]
  show ?thesis
    by (rule contract_finish [OF inv, where ?s1.0 = ?s1 and i = i and
          ?s2.0 = "run_callback cfg i (open_details c) v ?s1"])
       (use mid openD [OF inv c] s' in \<open>auto simp: phase_of_def\<close>)
qed

lemma clean_vote_inner_contract:
  assumes inv: "case_inv s" and res: "clean_vote_inner cfg i v s = Inr s'"
  shows "case_contract s s'"
proof -
  from res have i: "\<not> scontains (OpenCases s) i"
    and eqs: "CaseCount s' = CaseCount s" "OpenCases s' = OpenCases s" "RipeCases s' = RipeCases s"
      "DoneCases s' = DoneCases s" "Votes s' = sdel (i, v) (Votes s)"
    by (auto simp: clean_vote_inner_def validate_clean_vote_def Let_def
          split: option.splits if_splits prod.splits)
  have "case_inv s'"
    using inv i eqs cases_ok_drop_vote by (simp add: case_inv_def)
  then show ?thesis by (rule contract_same_phase) (simp_all add: eqs)
qed

lemma reap_case_contract:
  assumes inv: "case_inv s" and res: "reap_case cfg origin i s = Inr (s', p)"
  shows "case_contract s s'"
proof -
  from res obtain c where c: "sget (DoneCases s) i = Some c"
    and eqs: "CaseCount s' = CaseCount s" "OpenCases s' = OpenCases s" "RipeCases s' = RipeCases s"
      "DoneCases s' = sdel i (DoneCases s)" "Votes s' = Votes s"
    by (auto simp: reap_case_def validate_reap_case_def)
  with cases_ok_remove_done [OF inv [unfolded case_inv_def]] doneD [OF inv c] show ?thesis
    by (auto simp: case_contract_def case_inv_def phases_follow_def phase_of_def)
qed

lemma force_ripen_contract:
  assumes inv: "case_inv s" and res: "force_ripen_case cfg origin i s = Inr (s', p)"
  shows "case_contract s s'"
proof -
  from res obtain c r where "sget (OpenCases s) i = Some c" "CaseCount s' = CaseCount s"
      "OpenCases s' = sdel i (OpenCases s)" "RipeCases s' = sput i r (RipeCases s)"
      "DoneCases s' = DoneCases s" "Votes s' = Votes s"
    by (auto simp: force_ripen_case_def validate_timeout_case_def Let_def)
  then show ?thesis by (rule contract_ripen [OF inv])
qed

lemma touch_case_contract:
  assumes inv: "case_inv s" and res: "touch_case cfg origin i s = Inr (s', p)"
  shows "case_contract s s'"
proof -
  from res obtain c where c: "sget (OpenCases s) i = Some c"
    and eqs: "CaseCount s' = CaseCount s" "DoneCases s' = DoneCases s" "Votes s' = Votes s"
    and out: "(OpenCases s' = sdel i (OpenCases s) \<and> (\<exists>r. RipeCases s' = sput i r (RipeCases s))) \<or>
      (RipeCases s' = RipeCases s \<and> OpenCases s' = sput i c (sdel i (OpenCases s)))"
    by (auto simp: touch_case_def Let_def split: if_splits) blast
  from out show ?thesis
  proof
    assume "OpenCases s' = sdel i (OpenCases s) \<and> (\<exists>r. RipeCases s' = sput i r (RipeCases s))"
    with eqs contract_ripen [OF inv c] show ?thesis by blast
  next
    assume *: "RipeCases s' = RipeCases s \<and> OpenCases s' = sput i c (sdel i (OpenCases s))"
    have "case_inv s'"
      using cases_ok_reinsert [OF inv [unfolded case_inv_def] c] * eqs by (simp add: case_inv_def)
    then show ?thesis
      by (rule contract_same_phase) (use * eqs openD [OF inv c] in auto)
  qed
qed

text \<open>The claim loop removes votes of done cases only, and leaves the books alone.\<close>

lemma claim_loop_frame:
  "claim_loop cfg voter cs n s = Inr (m, s') \<Longrightarrow> case_inv s \<Longrightarrow>
   case_inv s' \<and> CaseCount s' = CaseCount s \<and> OpenCases s' = OpenCases s \<and>
   RipeCases s' = RipeCases s \<and> DoneCases s' = DoneCases s \<and> Credits s' = Credits s \<and>
   VotingPoints s' = VotingPoints s \<and> AccumulatedPoints s' = AccumulatedPoints s \<and>
   PayoutDistribution s' = PayoutDistribution s \<and> RoundSchedules s' = RoundSchedules s \<and>
   ledger s' = ledger s"
proof (induction cs arbitrary: n s)
  case (Cons i cs)
  from Cons.prems(1) obtain s2 n2 where c: "scontains (DoneCases s) i"
    and loop: "claim_loop cfg voter cs n2 s2 = Inr (m, s')"
    and s2: "s2 = s\<lparr>Votes := sdel (i, voter) (Votes s)\<rparr> \<or>
      s2 = s\<lparr>Votes := sdel (i, voter) (Votes s),
             VotingPenalties := sput voter (block_number cfg) (VotingPenalties s)\<rparr>"
    by (auto simp: Let_def scontains_def split: if_splits)
  have "\<not> scontains (OpenCases s) i"
    using Cons.prems(2) c by (auto simp: case_inv_defs)
  then have "case_inv s2"
    using Cons.prems(2) s2 cases_ok_drop_vote by (auto simp: case_inv_def)
  from Cons.IH [OF loop this] s2 show ?case by auto
qed simp

lemma do_claim_votes_contract:
  assumes inv: "case_inv s" and res: "do_claim_votes cfg voter cs s = Inr s'"
  shows "case_contract s s'"
proof -
  from res obtain n s1 where loop: "claim_loop cfg voter cs 0 s = Inr (n, s1)"
    and eqs: "CaseCount s' = CaseCount s1" "OpenCases s' = OpenCases s1" "RipeCases s' = RipeCases s1"
      "DoneCases s' = DoneCases s1" "Votes s' = Votes s1"
    by (auto simp: do_claim_votes_def Let_def)
  note frame = claim_loop_frame [OF loop inv]
  from frame have "case_inv s1" by simp
  then have "case_inv s'" by (simp add: eqs case_inv_def)
  then show ?thesis by (rule contract_same_phase) (simp_all add: frame eqs)
qed

lemma judge_statement_contract:
  fixes s :: "'l mob_state"
  assumes inv: "case_inv s" and n: "CaseCount s < u32_max"
  shows "case_contract s (snd (judge_statement now st ctx cb s))"
proof -
  let ?s' = "snd (judge_statement now st ctx cb s)"
  from n have eff: "callback_effect cfg s ?s'" for cfg :: "('o, 'l, 'call, 'm) mob_config"
    by (intro callback_effect.judge callback_effect.quiet)
  have new: "only_new_cases s ?s'" and inv': "case_inv ?s'"
    using callback_effect_cases [OF eff inv] by simp_all
  have "phase_of ?s' k = phase_of s k \<or> phase_step (phase_of s k) (phase_of ?s' k)" for k
  proof (cases "k < CaseCount s")
    case True
    with new have "phase_of ?s' k = phase_of s k"
      by (auto simp: phase_of_def only_new_cases_def scontains_def)
    then show ?thesis by simp
  next
    case False
    with inv new show ?thesis
      by (auto simp: phase_of_def only_new_cases_def case_inv_defs)
  qed
  with inv' show ?thesis by (simp add: case_contract_def phases_follow_def)
qed

subsection \<open>The pallet as a machine\<close>

lemma mob_dispatch_contract:
  assumes inv: "case_inv s" and cb: "callback_ok cfg"
    and n: "CaseCount s < u32_max" and len: "length (Votes s) < u32_max"
    and res: "mob_dispatch (cfg, m) x s = Inr (s', p)"
  shows "case_contract s s'"
proof (cases x)
  case (DoVote org c j)
  with res vote_contract [OF inv len] show ?thesis by simp
next
  case (DoCloseCase org c)
  with res close_case_contract [OF inv cb] show ?thesis by simp
next
  case (DoCleanVote org c v)
  with res clean_vote_inner_contract [OF inv] show ?thesis by (auto simp: clean_vote_def)
next
  case (DoReapCase org c)
  with res reap_case_contract [OF inv] show ?thesis by simp
next
  case (DoIntervene org c j)
  with res intervene_contract [OF inv cb] show ?thesis by simp
next
  case (DoClaimVote org c)
  with res do_claim_votes_contract [OF inv] show ?thesis by (auto simp: claim_vote_def)
next
  case (DoClaimVotes org cs)
  with res do_claim_votes_contract [OF inv] show ?thesis by (auto simp: claim_votes_def)
next
  case (DoForceRipenCase org c)
  with res force_ripen_contract [OF inv] show ?thesis by simp
next
  case (DoTouchCase org c)
  with res touch_case_contract [OF inv] show ?thesis by simp
next
  case (DoCleanVoteSigned org c v)
  with res clean_vote_inner_contract [OF inv] show ?thesis by (auto simp: clean_vote_signed_def)
next
  case (DoJudgeStatement st ctx cb')
  with res judge_statement_contract [OF inv n] show ?thesis by auto
next
  case DoPoll
  with res show ?thesis
    by (intro case_contract_frame [OF inv]) (auto simp: do_on_poll_def split: option.splits)
next
  case (DoStartPayoutRound org)
  with res show ?thesis
    by (intro case_contract_frame [OF inv])
       (auto simp: start_payout_round_def Let_def split: list.splits)
qed ((rule case_contract_frame [OF inv];
      use res in \<open>auto simp: payout_rewards_def schedule_payout_rounds_def
        remove_payout_schedule_def claim_credit_def clean_points_def clear_voting_penalty_def
        Let_def\<close>)+)

definition mob_step ::
  "(('o, 'l, 'call, 'm) mob_config \<times> 'm) \<times> 'o mob_call \<Rightarrow> 'l mob_state \<Rightarrow>
   Error dispatch_error + 'l mob_state" where
  "mob_step x s = on_ok (mob_dispatch (fst x) (snd x) s) (\<lambda>(s', _). Inr s')"

definition case_guard ::
  "(('o, 'l, 'call, 'm) mob_config \<times> 'm) \<times> 'o mob_call \<Rightarrow> 'l mob_state \<Rightarrow> bool" where
  "case_guard x s \<longleftrightarrow>
     callback_ok (fst (fst x)) \<and> CaseCount s < u32_max \<and> length (Votes s) < u32_max"

lemma mob_step_case_inv:
  "case_inv s \<Longrightarrow> case_guard x s \<Longrightarrow> mob_step x s = Inr s' \<Longrightarrow> case_inv s'"
  using mob_dispatch_contract [of s "fst (fst x)" "snd (fst x)" "snd x" s']
  by (auto simp: mob_step_def case_guard_def case_contract_def)

interpretation mob_cases: pallet_contract mob_step case_inv case_guard
  by unfold_locales (rule mob_step_case_inv)

end
