(* ===== verification/Mob_Rule_Payout.thy ===== *)
theory Mob_Rule_Payout
  imports Mob_Rule_Lifecycle
begin

text \<open>
  The books of mob-rule: what the pot has on hold covers what the schedules, the running round
  and the credits promise. \<open>books_inv\<close> is kept by every entry point; it rests on the points:
  the points that voters can still claim in a round are worth at most what is left of it.
\<close>

subsection \<open>The invariant of the books\<close>

definition committed :: "PayoutSchedule list \<Rightarrow> nat" where
  "committed S = sum_list (map (\<lambda>x. remaining x * amount_per_round x) S)"

definition credits_total :: "(person_alias, MobCredit) storage \<Rightarrow> nat" where
  "credits_total C = ssum (\<lambda>p. credit (snd p)) C"

definition points_ok :: "'l mob_state \<Rightarrow> bool" where
  "points_ok s \<longleftrightarrow>
     wf_storage (VotingPoints s) \<and>
     (\<forall>r a. scontains (VotingPoints s) (r, a) \<longrightarrow> r \<le> next_round s) \<and>
     points_of (VotingPoints s) (next_round s) \<le> AccumulatedPoints s \<and>
     (case PayoutDistribution s of
        None \<Rightarrow> True
      | Some d \<Rightarrow> 0 < total_points d \<and>
          points_of (VotingPoints s) (round d) * initial_balance d
            \<le> remaining_balance d * total_points d)"

definition payout_backed :: "(HoldReason, 'l) currency \<Rightarrow> account_id \<Rightarrow> 'l mob_state \<Rightarrow> bool" where
  "payout_backed cur pot s \<longleftrightarrow>
     (\<forall>x\<in>set (RoundSchedules s).
        0 < remaining x \<and> amount_per_round x * remaining x \<le> u128_max) \<and>
     committed (RoundSchedules s) +
       (case PayoutDistribution s of None \<Rightarrow> 0 | Some d \<Rightarrow> remaining_balance d)
       \<le> on_hold cur Payout pot (ledger s)"

definition credit_backed :: "(HoldReason, 'l) currency \<Rightarrow> account_id \<Rightarrow> 'l mob_state \<Rightarrow> bool" where
  "credit_backed cur pot s \<longleftrightarrow>
     wf_storage (Credits s) \<and> credits_total (Credits s) \<le> on_hold cur Credit pot (ledger s)"

definition books_inv :: "(HoldReason, 'l) currency \<Rightarrow> account_id \<Rightarrow> 'l mob_state \<Rightarrow> bool" where
  "books_inv cur pot s \<longleftrightarrow> points_ok s \<and> payout_backed cur pot s \<and> credit_backed cur pot s"

lemmas books_defs = books_inv_def points_ok_def payout_backed_def credit_backed_def

text \<open>
  \<open>Perbill\<close> is documented to round down in \<open>from_rational\<close> and in \<open>mul_floor\<close>.
\<close>

definition perbill_laws :: "('o, 'l, 'call, 'm) mob_config \<Rightarrow> bool" where
  "perbill_laws cfg \<longleftrightarrow>
     (\<forall>p q. perbill_from_rational cfg p q * q \<le> p * 1000000000) \<and>
     (\<forall>y x. perbill_mul_floor cfg y x * 1000000000 \<le> y * x)"

lemma perbill_share:
  assumes "perbill_laws cfg"
  shows "perbill_mul_floor cfg (perbill_from_rational cfg p q) x * q \<le> p * x"
proof -
  let ?y = "perbill_from_rational cfg p q"
  have "perbill_mul_floor cfg ?y x * 1000000000 \<le> ?y * x" "?y * q \<le> p * 1000000000"
    using assms by (simp_all add: perbill_laws_def)
  then have 1: "perbill_mul_floor cfg ?y x * 1000000000 * q \<le> ?y * x * q"
    and 2: "?y * q * x \<le> p * 1000000000 * x"
    by (simp_all only: mult_le_mono1)
  have "(perbill_mul_floor cfg ?y x * q) * 1000000000 = perbill_mul_floor cfg ?y x * 1000000000 * q"
    by (simp only: ac_simps)
  also have "\<dots> \<le> ?y * x * q" by (rule 1)
  also have "\<dots> = ?y * q * x" by (simp only: ac_simps)
  also have "\<dots> \<le> p * 1000000000 * x" by (rule 2)
  also have "\<dots> = (p * x) * 1000000000" by (simp only: ac_simps)
  finally show ?thesis by simp
qed

lemma credits_total_sput:
  assumes "wf_storage (Credits s)"
  shows "credits_total (sput a c (Credits s)) + credit (get_credit s a) =
    credits_total (Credits s) + credit c"
  using ssum_sput [OF assms, of "\<lambda>p. credit (snd p)" a c]
  by (cases "sget (Credits s) a") (simp_all add: credits_total_def get_credit_def default_credit_def)

lemma credits_total_keep:
  "wf_storage (Credits s) \<Longrightarrow> credit c = credit (get_credit s a) \<Longrightarrow>
   credits_total (sput a c (Credits s)) = credits_total (Credits s)"
  using credits_total_sput [of s a c] by simp

lemma credit_le_total: "credit (get_credit s a) \<le> credits_total (Credits s)"
  using entry_value_le [where f = "\<lambda>p. credit (snd p)" and m = "Credits s" and k = a]
  by (cases "sget (Credits s) a") (simp_all add: credits_total_def get_credit_def default_credit_def)

text \<open>Nothing of the books changes but the records of a voter, whose credit stays.\<close>

lemma books_frame:
  assumes inv: "books_inv cur pot s"
    and same: "VotingPoints s' = VotingPoints s" "AccumulatedPoints s' = AccumulatedPoints s"
      "PayoutDistribution s' = PayoutDistribution s" "RoundSchedules s' = RoundSchedules s"
      "\<And>r. on_hold cur r pot (ledger s') = on_hold cur r pot (ledger s)"
    and cr: "Credits s' = Credits s \<or>
      (\<exists>a c. Credits s' = sput a c (Credits s) \<and> credit c = credit (get_credit s a))"
  shows "books_inv cur pot s'"
proof -
  have wf: "wf_storage (Credits s)" using inv by (simp add: books_inv_def credit_backed_def)
  have "wf_storage (Credits s') \<and> credits_total (Credits s') = credits_total (Credits s)"
    using cr
  proof
    assume "\<exists>a c. Credits s' = sput a c (Credits s) \<and> credit c = credit (get_credit s a)"
    then obtain a c where "Credits s' = sput a c (Credits s)" "credit c = credit (get_credit s a)"
      by blast
    with wf credits_total_keep [OF wf] show ?thesis by simp
  qed (simp add: wf)
  then have "credit_backed cur pot s'"
    using inv same by (simp add: books_inv_def credit_backed_def)
  moreover have "points_ok s'"
    using inv same by (simp add: books_inv_def points_ok_def next_round_def cong: option.case_cong)
  moreover have "payout_backed cur pot s'"
    using inv same by (simp add: books_inv_def payout_backed_def)
  ultimately show ?thesis by (simp add: books_inv_def)
qed

lemma same_books_inv:
  "same_books cfg s s' \<Longrightarrow> books_inv (Currency cfg) (mob_rule_pot_id cfg) s \<Longrightarrow>
   books_inv (Currency cfg) (mob_rule_pot_id cfg) s'"
  by (erule books_frame) (simp_all add: same_books_def)

subsection \<open>The entry points that move points\<close>

lemma claim_loop_bound:
  "claim_loop cfg voter cs n s = Inr (m, s') \<Longrightarrow> m \<le> n + length cs"
proof (induction cs arbitrary: n s)
  case (Cons i cs)
  then show ?case
    using sat_add_le(1) [of u32_max n 1]
    by (auto simp: Let_def split: if_splits) (fastforce dest!: Cons.IH)+
qed simp

lemma claim_loop_books:
  "claim_loop cfg voter cs n s = Inr (m, s') \<Longrightarrow>
   Credits s' = Credits s \<and> VotingPoints s' = VotingPoints s \<and>
   AccumulatedPoints s' = AccumulatedPoints s \<and> PayoutDistribution s' = PayoutDistribution s \<and>
   RoundSchedules s' = RoundSchedules s \<and> ledger s' = ledger s"
proof (induction cs arbitrary: n s)
  case (Cons i cs)
  from Cons.prems obtain s2 n2 where loop: "claim_loop cfg voter cs n2 s2 = Inr (m, s')"
    and s2: "s2 = s\<lparr>Votes := sdel (i, voter) (Votes s)\<rparr> \<or>
      s2 = s\<lparr>Votes := sdel (i, voter) (Votes s),
             VotingPenalties := sput voter (block_number cfg) (VotingPenalties s)\<rparr>"
    by (auto simp: Let_def split: if_splits)
  from Cons.IH [OF loop] s2 show ?case by auto
qed simp

lemma do_claim_votes_books:
  assumes inv: "books_inv cur pot s" and res: "do_claim_votes cfg voter cs s = Inr s'"
    and acc: "AccumulatedPoints s + MaxVotesClaimable cfg \<le> u64_max"
    and rnd: "next_round s < u32_max"
  shows "books_inv cur pot s'"
proof -
  let ?r = "next_round s"
  let ?P = "VotingPoints s"
  from res obtain n s1 where len: "length cs \<le> MaxVotesClaimable cfg"
    and loop: "claim_loop cfg voter cs 0 s = Inr (n, s1)"
    by (auto simp: do_claim_votes_def Let_def)
  note eqs = claim_loop_books [OF loop]
  have n: "n \<le> MaxVotesClaimable cfg" using claim_loop_bound [OF loop] len by simp
  then have acc': "sat_add u64_max (AccumulatedPoints s) n = AccumulatedPoints s + n"
    using acc by simp
  have s': "VotingPoints s' = sput (?r, voter) (sat_add u32_max (get_points s ?r voter) n) ?P"
      "AccumulatedPoints s' = AccumulatedPoints s + n"
      "PayoutDistribution s' = PayoutDistribution s" "RoundSchedules s' = RoundSchedules s"
      "ledger s' = ledger s"
      "\<exists>c. Credits s' = sput voter c (Credits s) \<and> credit c = credit (get_credit s voter)"
    using res loop eqs acc' by (auto simp: do_claim_votes_def Let_def get_points_def)
  have wf: "wf_storage ?P" and wfc: "wf_storage (Credits s)" using inv by (simp_all add: books_defs)
  have nr: "next_round s' = ?r" using s' by (simp add: next_round_def)
  have le: "points_of (VotingPoints s') ?r \<le> points_of ?P ?r + n"
    using points_of_sput [OF wf, of ?r voter "sat_add u32_max (get_points s ?r voter) n" ?r] s'(1)
      sat_add_le(1) [of u32_max "get_points s ?r voter" n]
    by (simp add: get_points_def)
  have ne: "round d \<noteq> ?r" if "PayoutDistribution s = Some d" for d
    using that rnd by (simp add: next_round_def sat_add_def)
  have other: "points_of (VotingPoints s') r' = points_of ?P r'" if "r' \<noteq> ?r" for r'
    using points_of_sput [OF wf, of ?r voter _ r'] s'(1) that by simp
  have "credits_total (Credits s') = credits_total (Credits s)" "wf_storage (Credits s')"
    using s'(6) credits_total_keep [OF wfc] wfc by auto
  then show ?thesis
    using inv s' nr le ne other wf
    by (auto simp: books_defs split: option.splits)
qed

lemma start_payout_round_books:
  assumes inv: "books_inv (Currency cfg) (mob_rule_pot_id cfg) s"
    and laws: "hold_laws (Currency cfg)" and rnd: "next_round s < u32_max"
    and res: "start_payout_round cfg origin s = Inr (s', p)"
  shows "books_inv (Currency cfg) (mob_rule_pot_id cfg) s'"
proof -
  let ?cur = "Currency cfg" and ?pot = "mob_rule_pot_id cfg"
  from res obtain x xs where S: "RoundSchedules s = x # xs" and pos: "0 < AccumulatedPoints s"
    by (auto simp: start_payout_round_def Let_def split: list.splits)
  let ?d = "\<lparr>round = next_round s, initial_balance = amount_per_round x,
     remaining_balance = amount_per_round x, total_points = AccumulatedPoints s,
     start = block_number cfg\<rparr>"
  have s': "PayoutDistribution s' = Some ?d" "AccumulatedPoints s' = 0"
      "VotingPoints s' = VotingPoints s" "Credits s' = Credits s"
      "RoundSchedules s' = (if remaining x - 1 = 0 then xs
         else x\<lparr>remaining := remaining x - 1\<rparr> # xs)"
    using res S by (auto simp: start_payout_round_def Let_def)
  have x: "0 < remaining x" "amount_per_round x * remaining x \<le> u128_max"
    using inv S by (simp_all add: books_defs)
  have "committed (RoundSchedules s') + amount_per_round x = committed (RoundSchedules s)"
    using S s'(5) x(1) by (cases "remaining x") (auto simp: committed_def)
  moreover have "amount_per_round x * (remaining x - 1) \<le> u128_max"
    using x(2) by (meson diff_le_self mult_le_mono2 order_trans)
  moreover have "on_hold ?cur Credit ?pot (ledger s') = on_hold ?cur Credit ?pot (ledger s) \<and>
    on_hold ?cur Payout ?pot (ledger s) \<le> on_hold ?cur Payout ?pot (ledger s') +
      (case PayoutDistribution s of None \<Rightarrow> 0 | Some d \<Rightarrow> remaining_balance d)"
    using res S
    by (auto simp: start_payout_round_def Let_def same_holds_but_def
          dest!: release_law_all [OF laws] split: option.splits)
  ultimately have "payout_backed ?cur ?pot s'" and "credit_backed ?cur ?pot s'"
    using inv S s' x by (auto simp: books_defs split: if_splits)
  moreover have "points_ok s'"
  proof -
    have "next_round s' = Suc (next_round s)" using s'(1) rnd by (simp add: next_round_def)
    moreover from this have "points_of (VotingPoints s) (next_round s') = 0"
      using inv by (intro points_of_unused) (fastforce simp: books_defs)
    moreover have "points_of (VotingPoints s) (next_round s) * amount_per_round x
        \<le> amount_per_round x * AccumulatedPoints s"
      using inv by (simp add: books_defs mult.commute)
    ultimately show ?thesis
      using inv s' pos by (auto simp: books_defs)
  qed
  ultimately show ?thesis by (simp add: books_inv_def)
qed

subsection \<open>The entry points that move money\<close>

lemma schedule_payout_rounds_books:
  assumes inv: "books_inv (Currency cfg) (mob_rule_pot_id cfg) s"
    and laws: "hold_laws (Currency cfg)" and n: "0 < n" "amount * n \<le> u128_max"
    and res: "schedule_payout_rounds cfg origin amount n per s = Inr (s', p)"
  shows "books_inv (Currency cfg) (mob_rule_pot_id cfg) s'"
proof -
  let ?cur = "Currency cfg" and ?pot = "mob_rule_pot_id cfg"
  have s': "PayoutDistribution s' = PayoutDistribution s" "Credits s' = Credits s"
      "AccumulatedPoints s' = AccumulatedPoints s" "VotingPoints s' = VotingPoints s"
      "RoundSchedules s' = RoundSchedules s @
         [\<lparr>remaining = n, amount_per_round = amount, period = per\<rparr>]"
      "on_hold ?cur Payout ?pot (ledger s') = on_hold ?cur Payout ?pot (ledger s) + amount * n"
      "on_hold ?cur Credit ?pot (ledger s') = on_hold ?cur Credit ?pot (ledger s)"
    using res n(2)
    by (auto simp: schedule_payout_rounds_def Let_def same_holds_but_def
          dest!: hold_law_all [OF laws])
  then show ?thesis
    using inv n
    by (auto simp: books_defs committed_def next_round_def mult.commute cong: option.case_cong)
qed

lemma committed_remove:
  "i < length S \<Longrightarrow> committed (take i S @ drop (Suc i) S) +
     remaining (S ! i) * amount_per_round (S ! i) = committed S"
proof -
  assume "i < length S"
  then have "committed S = committed (take i S @ S ! i # drop (Suc i) S)"
    by (simp flip: id_take_nth_drop)
  then show ?thesis by (simp add: committed_def)
qed

lemma remove_payout_schedule_books:
  assumes inv: "books_inv (Currency cfg) (mob_rule_pot_id cfg) s"
    and laws: "hold_laws (Currency cfg)"
    and res: "remove_payout_schedule cfg origin i s = Inr (s', p)"
  shows "books_inv (Currency cfg) (mob_rule_pot_id cfg) s'"
proof -
  let ?cur = "Currency cfg" and ?pot = "mob_rule_pot_id cfg"
  let ?x = "RoundSchedules s ! i"
  from res have i: "i < length (RoundSchedules s)" by (simp add: remove_payout_schedule_def)
  then have x: "amount_per_round ?x * remaining ?x \<le> u128_max"
    using inv by (simp add: books_defs)
  have s': "PayoutDistribution s' = PayoutDistribution s" "Credits s' = Credits s"
      "AccumulatedPoints s' = AccumulatedPoints s" "VotingPoints s' = VotingPoints s"
      "RoundSchedules s' = take i (RoundSchedules s) @ drop (Suc i) (RoundSchedules s)"
      "on_hold ?cur Payout ?pot (ledger s)
         \<le> on_hold ?cur Payout ?pot (ledger s') + remaining ?x * amount_per_round ?x"
      "on_hold ?cur Credit ?pot (ledger s') = on_hold ?cur Credit ?pot (ledger s)"
    using res x
    by (auto simp: remove_payout_schedule_def Let_def same_holds_but_def mult.commute
          dest!: release_law_all [OF laws])
  have "set (RoundSchedules s') \<subseteq> set (RoundSchedules s)"
    using s'(5) set_take_subset set_drop_subset by fastforce
  then have "payout_backed ?cur ?pot s'"
    using inv s' committed_remove [OF i]
    by (auto simp: books_inv_def payout_backed_def cong: option.case_cong)
  moreover have "points_ok s'" "credit_backed ?cur ?pot s'"
    using inv s'
    by (simp_all add: books_inv_def points_ok_def credit_backed_def next_round_def
          cong: option.case_cong)
  ultimately show ?thesis by (simp add: books_inv_def)
qed

lemma payout_rewards_books:
  assumes inv: "books_inv (Currency cfg) (mob_rule_pot_id cfg) s"
    and laws: "hold_laws (Currency cfg)"
    and res: "payout_rewards cfg origin dest s = Inr (s', p)"
  shows "books_inv (Currency cfg) (mob_rule_pot_id cfg) s'"
proof -
  let ?cur = "Currency cfg" and ?pot = "mob_rule_pot_id cfg"
  from res obtain who where who: "ensure_person cfg origin = Some who"
    by (auto simp: payout_rewards_def)
  have s': "PayoutDistribution s' = PayoutDistribution s"
      "AccumulatedPoints s' = AccumulatedPoints s" "VotingPoints s' = VotingPoints s"
      "RoundSchedules s' = RoundSchedules s"
      "Credits s' = sput who ((get_credit s who)\<lparr>credit := 0\<rparr>) (Credits s)"
      "on_hold ?cur Payout ?pot (ledger s') = on_hold ?cur Payout ?pot (ledger s)"
      "on_hold ?cur Credit ?pot (ledger s)
         \<le> on_hold ?cur Credit ?pot (ledger s') + credit (get_credit s who)"
    using res who
    by (auto simp: payout_rewards_def Let_def same_holds_but_def
          dest!: release_law_all [OF laws] transfer_law_all [OF laws])
  have "credit_backed ?cur ?pot s'"
    using inv s' credits_total_sput [of s who "(get_credit s who)\<lparr>credit := 0\<rparr>"]
    by (simp add: books_inv_def credit_backed_def)
  moreover have "points_ok s'" "payout_backed ?cur ?pot s'"
    using inv s'
    by (simp_all add: books_inv_def points_ok_def payout_backed_def next_round_def
          cong: option.case_cong)
  ultimately show ?thesis by (simp add: books_inv_def)
qed

text \<open>
  A claim of the running round is worth at most what is left of it, so the release of
  \<open>claim_credit\<close> is never cut short.
\<close>

definition claimable :: "('o, 'l, 'call, 'm) mob_config \<Rightarrow> CreditDistribution \<Rightarrow> nat \<Rightarrow> nat" where
  "claimable cfg d points =
     perbill_mul_floor cfg (perbill_from_rational cfg points (total_points d)) (initial_balance d)"

lemma claimable_le:
  assumes inv: "points_ok s" and d: "PayoutDistribution s = Some d" and laws: "perbill_laws cfg"
  shows "claimable cfg d (get_points s (round d) who) \<le> remaining_balance d"
    and "(points_of (VotingPoints s) (round d) - get_points s (round d) who) * initial_balance d
      \<le> (remaining_balance d - claimable cfg d (get_points s (round d) who)) * total_points d"
proof -
  let ?p = "get_points s (round d) who" and ?P = "points_of (VotingPoints s) (round d)"
  let ?c = "claimable cfg d ?p"
  have total: "0 < total_points d"
    and all: "?P * initial_balance d \<le> remaining_balance d * total_points d"
    using inv d by (simp_all add: points_ok_def)
  have share: "?c * total_points d \<le> ?p * initial_balance d"
    unfolding claimable_def by (rule perbill_share [OF laws])
  have part: "?p \<le> ?P" by (simp add: get_points_def points_of_entry)
  have "?c * total_points d \<le> remaining_balance d * total_points d"
    using share all mult_le_mono1 [OF part, of "initial_balance d"] by linarith
  then show "?c \<le> remaining_balance d" using total by simp
  have "(?P - ?p) * initial_balance d + ?p * initial_balance d = ?P * initial_balance d"
    using part by (simp add: diff_mult_distrib)
  moreover have "(remaining_balance d - ?c) * total_points d + ?c * total_points d
      = remaining_balance d * total_points d"
    using \<open>?c \<le> remaining_balance d\<close> by (simp add: diff_mult_distrib)
  ultimately show "(?P - ?p) * initial_balance d \<le> (remaining_balance d - ?c) * total_points d"
    using share all by linarith
qed

lemma claim_credit_result:
  assumes inv: "books_inv (Currency cfg) (mob_rule_pot_id cfg) s"
    and laws: "hold_laws (Currency cfg)" "perbill_laws cfg"
    and who: "ensure_person cfg origin = Some who" and d: "PayoutDistribution s = Some d"
    and res: "claim_credit cfg origin s = Inr (s', p)"
  defines "c \<equiv> claimable cfg d (get_points s (round d) who)"
  shows "PayoutDistribution s' = Some (d\<lparr>remaining_balance := remaining_balance d - c\<rparr>)"
    and "Credits s' = sput who ((get_credit s who)\<lparr>credit := credit (get_credit s who) + c\<rparr>) (Credits s)"
    and "VotingPoints s' = sdel (round d, who) (VotingPoints s)"
    and "AccumulatedPoints s' = AccumulatedPoints s" and "RoundSchedules s' = RoundSchedules s"
    and "on_hold (Currency cfg) Payout (mob_rule_pot_id cfg) (ledger s') + c =
      on_hold (Currency cfg) Payout (mob_rule_pot_id cfg) (ledger s)"
    and "on_hold (Currency cfg) Credit (mob_rule_pot_id cfg) (ledger s') =
      on_hold (Currency cfg) Credit (mob_rule_pot_id cfg) (ledger s) + c"
    and "events s' = events s @ [CreditClaimed who c]"
proof -
  let ?cur = "Currency cfg" and ?pot = "mob_rule_pot_id cfg"
  have "points_ok s" using inv by (simp add: books_inv_def)
  from claimable_le(1) [OF this d laws(2)] have "c \<le> remaining_balance d" by (simp add: c_def)
  also have "\<dots> \<le> on_hold ?cur Payout ?pot (ledger s)"
    using inv d by (simp add: books_inv_def payout_backed_def)
  finally have enough: "c \<le> on_hold ?cur Payout ?pot (ledger s)" .
  from res who d obtain m l1 l2 where rel: "cur_release ?cur Payout ?pot c BestEffort (ledger s) = Inr (m, l1)"
    and hold: "cur_hold ?cur Credit ?pot m l1 = Inr l2"
    and s': "PayoutDistribution s' = Some (d\<lparr>remaining_balance := remaining_balance d - m\<rparr>)"
      "Credits s' = sput who ((get_credit s who)\<lparr>credit := credit (get_credit s who) + m\<rparr>) (Credits s)"
      "VotingPoints s' = sdel (round d, who) (VotingPoints s)"
      "AccumulatedPoints s' = AccumulatedPoints s" "RoundSchedules s' = RoundSchedules s"
      "ledger s' = l2" "events s' = events s @ [CreditClaimed who m]"
    by (auto simp: claim_credit_def claimable_def c_def Let_def checked_add_def split: if_splits)
  have m: "m = c" by (rule release_lawD(6) [OF laws(1) rel enough])
  have "on_hold ?cur Payout ?pot l1 = on_hold ?cur Payout ?pot (ledger s) - c"
    and "on_hold ?cur Credit ?pot l1 = on_hold ?cur Credit ?pot (ledger s)"
    using release_lawD(3,4) [OF laws(1) rel] m by auto
  moreover have "on_hold ?cur Payout ?pot l2 = on_hold ?cur Payout ?pot l1"
    and "on_hold ?cur Credit ?pot l2 = on_hold ?cur Credit ?pot l1 + c"
    using hold_lawD [OF laws(1) hold] m by auto
  ultimately show "on_hold ?cur Payout ?pot (ledger s') + c = on_hold ?cur Payout ?pot (ledger s)"
    and "on_hold ?cur Credit ?pot (ledger s') = on_hold ?cur Credit ?pot (ledger s) + c"
    using s'(6) enough by simp_all
  from s' m show "PayoutDistribution s' = Some (d\<lparr>remaining_balance := remaining_balance d - c\<rparr>)"
    and "Credits s' = sput who ((get_credit s who)\<lparr>credit := credit (get_credit s who) + c\<rparr>) (Credits s)"
    and "VotingPoints s' = sdel (round d, who) (VotingPoints s)"
    and "AccumulatedPoints s' = AccumulatedPoints s" and "RoundSchedules s' = RoundSchedules s"
    and "events s' = events s @ [CreditClaimed who c]"
    by simp_all
qed

lemma claim_credit_books:
  assumes inv: "books_inv (Currency cfg) (mob_rule_pot_id cfg) s"
    and laws: "hold_laws (Currency cfg)" "perbill_laws cfg"
    and rnd: "next_round s < u32_max"
    and res: "claim_credit cfg origin s = Inr (s', p)"
  shows "books_inv (Currency cfg) (mob_rule_pot_id cfg) s'"
proof -
  from res obtain who d where who: "ensure_person cfg origin = Some who"
    and d: "PayoutDistribution s = Some d"
    by (auto simp: claim_credit_def)
  note r = claim_credit_result [OF inv laws who d res]
  let ?p = "get_points s (round d) who"
  have P: "points_ok s" and wf: "wf_storage (VotingPoints s)"
    using inv by (simp_all add: books_inv_def points_ok_def)
  have nr: "next_round s' = next_round s" "next_round s \<noteq> round d"
    using r(1) d rnd by (simp_all add: next_round_def sat_add_def)
  have "points_ok s'"
    using P d nr r(1,3,4) wf claimable_le(2) [OF P d laws(2), of who]
      points_of_sdel [OF wf, of "round d" who]
    by (auto simp: points_ok_def get_points_def)
  moreover have "payout_backed (Currency cfg) (mob_rule_pot_id cfg) s'"
    using inv d r(1,5,6) claimable_le(1) [OF P d laws(2), of who]
    by (auto simp: books_inv_def payout_backed_def)
  moreover have "credit_backed (Currency cfg) (mob_rule_pot_id cfg) s'"
    using inv r(2,7) credits_total_sput [of s who "(get_credit s who)\<lparr>credit :=
      credit (get_credit s who) + claimable cfg d ?p\<rparr>"]
    by (simp add: books_inv_def credit_backed_def)
  ultimately show ?thesis by (simp add: books_inv_def)
qed

lemma clean_points_books:
  assumes inv: "books_inv cur pot s" and res: "clean_points cfg origin r v s = Inr (s', p)"
  shows "books_inv cur pot s'"
proof -
  from res obtain d where d: "PayoutDistribution s = Some d" "r < round d"
    and s': "s' = deposit_event (PointsCleaned r v) (s\<lparr>VotingPoints := sdel (r, v) (VotingPoints s)\<rparr>)"
    by (auto simp: clean_points_def)
  have wf: "wf_storage (VotingPoints s)" and P: "points_ok s"
    using inv by (simp_all add: books_defs)
  have le: "points_of (sdel (r, v) (VotingPoints s)) r' \<le> points_of (VotingPoints s) r'" for r'
    by (simp add: points_of_sdel [OF wf])
  have worth: "points_of (sdel (r, v) (VotingPoints s)) (round d) * initial_balance d
      \<le> remaining_balance d * total_points d"
    by (rule order_trans [OF mult_le_mono1 [OF le]]) (use P d in \<open>simp add: points_ok_def\<close>)
  have nr: "next_round s' = next_round s" by (simp add: s' next_round_def)
  have "points_ok s'"
    unfolding points_ok_def nr
    using P s' d wf worth order_trans [OF le [of "next_round s"]]
    by (auto simp: points_ok_def)
  then show ?thesis
    using inv s' by (simp add: books_inv_def payout_backed_def credit_backed_def)
qed

subsection \<open>The pallet keeps its books\<close>

fun schedule_sane :: "'o mob_call \<Rightarrow> bool" where
  "schedule_sane (DoSchedulePayoutRounds org amount n per) = (0 < n \<and> amount * n \<le> u128_max)"
| "schedule_sane _ = True"

definition books_guard ::
  "(HoldReason, 'l) currency \<Rightarrow> account_id \<Rightarrow> (('o, 'l, 'call, 'm) mob_config \<times> 'm) \<times> 'o mob_call \<Rightarrow>
   'l mob_state \<Rightarrow> bool" where
  "books_guard cur pot x s \<longleftrightarrow>
     (let cfg = fst (fst x) in
        Currency cfg = cur \<and> mob_rule_pot_id cfg = pot \<and> hold_laws cur \<and> perbill_laws cfg \<and>
        callback_ok cfg \<and> schedule_sane (snd x) \<and> next_round s < u32_max \<and>
        AccumulatedPoints s + MaxVotesClaimable cfg \<le> u64_max)"

lemma run_callback_books_inv:
  assumes "callback_ok cfg" and "books_inv (Currency cfg) (mob_rule_pot_id cfg) s"
  shows "books_inv (Currency cfg) (mob_rule_pot_id cfg) (run_callback cfg i d v s)"
  using run_callback_books [OF assms(1)] assms(2) by (rule same_books_inv)

lemma vote_books:
  assumes inv: "books_inv cur pot s" and res: "vote cfg origin i j s = Inr (s', p)"
  shows "books_inv cur pot s'"
proof -
  from res obtain who c where who: "ensure_person cfg origin = Some who"
    and c: "sget (OpenCases s) i = Some c"
    by (auto simp: vote_def)
  have cr: "\<exists>k. Credits s' = sput who k (Credits s) \<and> credit k = credit (get_credit s who)"
    using res who c
    by (cases "sget (Votes s) (i, who)")
       (auto simp: vote_def Let_def get_credit_def split: if_splits)
  show ?thesis
    by (rule books_frame [OF inv])
       (use res who c cr in \<open>auto simp: vote_def Let_def split: if_splits option.splits\<close>)
qed

lemma clean_vote_inner_books:
  assumes inv: "books_inv cur pot s" and res: "clean_vote_inner cfg i v s = Inr s'"
  shows "books_inv cur pot s'"
proof -
  have cr: "\<exists>k. Credits s' = sput v k (Credits s) \<and> credit k = credit (get_credit s v)"
    using res
    by (cases "sget (DoneCases s) i")
       (auto simp: clean_vote_inner_def Let_def get_credit_def split: if_splits)
  show ?thesis
    by (rule books_frame [OF inv])
       (use res cr in \<open>auto simp: clean_vote_inner_def Let_def split: option.splits if_splits\<close>)
qed

lemma close_case_books:
  assumes inv: "books_inv (Currency cfg) (mob_rule_pot_id cfg) s" and cb: "callback_ok cfg"
    and res: "close_case cfg origin i s = Inr (s', p)"
  shows "books_inv (Currency cfg) (mob_rule_pot_id cfg) s'"
proof -
  from res obtain c where c: "sget (RipeCases s) i = Some c"
    by (auto simp: close_case_def validate_close_case_def)
  let ?s1 = "s\<lparr>RipeCases := sdel i (RipeCases s)\<rparr>"
  have "books_inv (Currency cfg) (mob_rule_pot_id cfg) ?s1"
    by (rule books_frame [OF inv]) simp_all
  from run_callback_books_inv [OF cb this, of i "ripe_details c" "ripe_verdict c"] show ?thesis
    by (rule books_frame)
       (use res c in \<open>auto simp: close_case_def validate_close_case_def Let_def\<close>)
qed

lemma intervene_books:
  assumes inv: "books_inv (Currency cfg) (mob_rule_pot_id cfg) s" and cb: "callback_ok cfg"
    and res: "intervene cfg origin i v s = Inr (s', p)"
  shows "books_inv (Currency cfg) (mob_rule_pot_id cfg) s'"
proof -
  from res obtain c where c: "sget (OpenCases s) i = Some c"
    by (auto simp: intervene_def)
  let ?s1 = "s\<lparr>OpenCases := sdel i (OpenCases s)\<rparr>"
  have "books_inv (Currency cfg) (mob_rule_pot_id cfg) ?s1"
    by (rule books_frame [OF inv]) simp_all
  from run_callback_books_inv [OF cb this, of i "open_details c" v] show ?thesis
    by (rule books_frame) (use res c in \<open>auto simp: intervene_def Let_def\<close>)
qed

lemma mob_dispatch_books:
  assumes inv: "books_inv cur pot s" and g: "books_guard cur pot ((cfg, m), x) s"
    and res: "mob_dispatch (cfg, m) x s = Inr (s', p)"
  shows "books_inv cur pot s'"
proof -
  from g have cur: "cur = Currency cfg" "pot = mob_rule_pot_id cfg"
    and laws: "hold_laws (Currency cfg)" "perbill_laws cfg" and cb: "callback_ok cfg"
    and sane: "schedule_sane x" and rnd: "next_round s < u32_max"
    and acc: "AccumulatedPoints s + MaxVotesClaimable cfg \<le> u64_max"
    by (auto simp: books_guard_def)
  note inv' = inv [unfolded cur]
  note claims = do_claim_votes_books [OF inv' _ acc rnd]
  note frame = books_frame [OF inv']
  have "books_inv (Currency cfg) (mob_rule_pot_id cfg) s'"
  proof (cases x)
    case (DoVote org c j)
    with res vote_books [OF inv'] show ?thesis by simp
  next
    case (DoCloseCase org c)
    with res close_case_books [OF inv' cb] show ?thesis by simp
  next
    case (DoCleanVote org c v)
    with res clean_vote_inner_books [OF inv'] show ?thesis
      by (auto simp: clean_vote_def)
  next
    case (DoCleanVoteSigned org c v)
    with res clean_vote_inner_books [OF inv'] show ?thesis
      by (auto simp: clean_vote_signed_def)
  next
    case (DoIntervene org c j)
    with res intervene_books [OF inv' cb] show ?thesis by simp
  next
    case (DoClaimVote org c)
    with res claims show ?thesis by (auto simp: claim_vote_def)
  next
    case (DoClaimVotes org c)
    with res claims show ?thesis by (auto simp: claim_votes_def)
  next
    case (DoPayoutRewards org d)
    with res payout_rewards_books [OF inv' laws(1)]
    show ?thesis by simp
  next
    case (DoStartPayoutRound org)
    with res start_payout_round_books [OF inv' laws(1) rnd]
    show ?thesis by simp
  next
    case (DoSchedulePayoutRounds org a n q)
    with res sane schedule_payout_rounds_books [OF inv' laws(1)]
    show ?thesis by auto
  next
    case (DoRemovePayoutSchedule org i)
    with res remove_payout_schedule_books [OF inv' laws(1)]
    show ?thesis by simp
  next
    case (DoClaimCredit org)
    with res claim_credit_books [OF inv' laws rnd]
    show ?thesis by simp
  next
    case (DoCleanPoints org r v)
    with res clean_points_books [OF inv']
    show ?thesis by simp
  next
    case DoPoll
    with res show ?thesis
      by (intro frame) (auto simp: do_on_poll_def split: option.splits)
  next
    case (DoTouchCase org c)
    with res show ?thesis
      by (intro frame) (auto simp: touch_case_def Let_def split: if_splits)
  qed ((rule frame; use res in \<open>auto simp: reap_case_def force_ripen_case_def
        clear_voting_penalty_def judge_statement_def Let_def\<close>)+)
  then show ?thesis by (simp add: cur)
qed

lemma mob_step_books:
  "books_inv cur pot s \<Longrightarrow> books_guard cur pot x s \<Longrightarrow> mob_step x s = Inr s' \<Longrightarrow> books_inv cur pot s'"
  using mob_dispatch_books [of cur pot s "fst (fst x)" "snd (fst x)" "snd x" s']
  by (auto simp: mob_step_def)

interpretation mob_books: pallet_contract mob_step "books_inv cur pot" "books_guard cur pot"
  for cur pot
  by unfold_locales (rule mob_step_books)

end
