(* ===== verification/Mob_Demo.thy ===== *)
theory Mob_Demo
  imports Mob_Rule_Lifecycle
begin

text \<open>
  A concrete configuration of mob-rule for the witnesses of the properties: origins that say
  who they are, the constants of the people runtime, the ledger of the prelude as currency,
  rational arithmetic that rounds down, and a callback that opens one more case.
\<close>

datatype demo_origin = FromNone | FromSigned account_id | FromPerson person_alias | FromRoot

type_synonym demo_ledger = "(HoldReason \<times> account_id, nat) storage"

definition demo_ratio :: "nat \<Rightarrow> nat \<Rightarrow> nat \<Rightarrow> nat" where
  "demo_ratio parts p q = (if q \<le> p then parts else p * parts div q)"

definition demo_statement :: Statement where
  "demo_statement = UsernameValid [1]"

definition demo_callback :: Callback where
  "demo_callback = \<lparr>pallet_index = 7, call_index = 1\<rparr>"

definition demo_config :: "nat \<Rightarrow> nat \<Rightarrow> nat \<Rightarrow> (demo_origin, demo_ledger, unit, unit) mob_config" where
  "demo_config secs block active = \<lparr>
     ensure_none = (\<lambda>x. x = FromNone),
     ensure_signed = (\<lambda>x. case x of FromSigned a \<Rightarrow> Some a | _ \<Rightarrow> None),
     ensure_person = (\<lambda>x. case x of FromPerson a \<Rightarrow> Some a | _ \<Rightarrow> None),
     ensure_intervention = (\<lambda>x. x = FromRoot),
     now_secs = secs, block_number = block, active_count = active,
     MaxVoteClaimDuration = 86400, MinCaseDuration = 600, MaxVotingDuration = 1200,
     MinTurnoutNominal = 1, MinTurnoutPercentage = 10, MaxPayoutRoundSchedules = 4,
     VotingPenaltyDuration = 10, mob_rule_pot_id = [9], MaxVotesClaimable = 10,
     OffchainWorkInterval = 1, CleanVotesBatchSize = 100, VotesOpenForClaimsDuration = 600,
     MinimumVoterThreshold = 1, Currency = book_currency,
     percent_from_rational = demo_ratio 100, perbill_from_rational = demo_ratio 1000000000,
     perbill_mul_floor = (\<lambda>p x. p * x div 1000000000),
     codec = (\<lambda>_. Some ()),
     dispatch_as_root = (\<lambda>_ s.
        (Inr (), if CaseCount s < u32_max
                 then snd (judge_statement secs demo_statement [] demo_callback s) else s)),
     try_consume = (\<lambda>m _. Some m) \<rparr>"

definition mob_genesis :: "'l \<Rightarrow> 'l mob_state" where
  "mob_genesis l = \<lparr>
     Credits = [], VotingPenalties = [], VotingPoints = [], Votes = [], CaseCount = 0,
     OpenCases = [], RipeCases = [], DoneCases = [], AccumulatedPoints = 0,
     PayoutDistribution = None, RoundSchedules = [], ActiveSince = None, ledger = l, events = []\<rparr>"

lemma demo_callback_ok: "callback_ok (demo_config secs block active)"
  unfolding callback_ok_def demo_config_def
  by (auto intro: callback_effect.quiet callback_effect.judge)

lemma mob_genesis_case_inv: "case_inv (mob_genesis l)"
  by (simp add: case_inv_defs mob_genesis_def scontains_def)

lemma demo_laws: "hold_laws (Currency (demo_config secs block active))"
  by (simp add: demo_config_def book_currency_laws)

end
