(* ===== verification/Mob_Rule_Props.thy ===== *)
theory Mob_Rule_Props
  imports Mob_Rule_Payout Mob_Demo
begin

text \<open>
  The properties of mob-rule: the invariants along every run, the life cycle of a case, the
  decision rule of a tally and its threshold, solvency of the pot, claims, the offchain
  batch, and the oracle interface. Each property with a hypothesis is followed by a witness.
\<close>

subsection \<open>Runs\<close>

lemma phases_follow_run:
  assumes "case_inv s" and "guarded_run mob_step case_guard xs s"
  shows "phase_step\<^sup>*\<^sup>* (phase_of s i) (phase_of (run_calls mob_step xs s) i)"
  using assms
proof (induction xs arbitrary: s)
  case (Cons x xs)
  show ?case
  proof (cases "mob_step x s")
    case (Inl e)
    with Cons show ?thesis by simp
  next
    case (Inr s')
    then obtain p where disp: "mob_dispatch (fst (fst x), snd (fst x)) (snd x) s = Inr (s', p)"
      by (auto simp: mob_step_def)
    have guard: "case_guard x s" using Cons.prems by simp
    have "case_contract s s'"
      by (rule mob_dispatch_contract [OF Cons.prems(1) _ _ _ disp])
         (use guard in \<open>simp_all add: case_guard_def\<close>)
    then have "case_inv s'" and step: "phase_step\<^sup>=\<^sup>= (phase_of s i) (phase_of s' i)"
      unfolding case_contract_def phases_follow_def by (blast, metis sup2CI)
    with Cons Inr have "phase_step\<^sup>*\<^sup>* (phase_of s' i) (phase_of (run_calls mob_step xs s') i)"
      by simp
    with step Inr show ?thesis by (auto intro: converse_rtranclp_into_rtranclp)
  qed
qed simp

text \<open>
  A run for the witnesses: a case is judged, two people vote on it, it ripens with the second
  vote and is closed, whose callback opens the next case.
\<close>

definition demo_step :: "nat \<Rightarrow> demo_origin mob_call \<Rightarrow>
  (((demo_origin, demo_ledger, unit, unit) mob_config \<times> unit) \<times> demo_origin mob_call)" where
  "demo_step secs x = ((demo_config secs 1 2, ()), x)"

definition demo_run ::
  "(((demo_origin, demo_ledger, unit, unit) mob_config \<times> unit) \<times> demo_origin mob_call) list" where
  "demo_run =
     [demo_step 0 (DoJudgeStatement demo_statement [] demo_callback),
      demo_step 10 (DoVote (FromPerson [1]) 0 (Truth TruthTrue)),
      demo_step 1000 (DoVote (FromPerson [2]) 0 (Truth TruthTrue)),
      demo_step 1001 (DoCloseCase FromNone 0)]"

definition demo_details :: CaseDetails where
  "demo_details = \<lparr>statement = demo_statement, judgement_context = [], callback = demo_callback\<rparr>"

definition demo_open :: "nat \<Rightarrow> VoteTally \<Rightarrow> OpenCase" where
  "demo_open t v = \<lparr>open_since = t, open_details = demo_details, tally = v\<rparr>"

definition demo_s1 :: "demo_ledger mob_state" where
  "demo_s1 = (mob_genesis [])\<lparr>CaseCount := 1, OpenCases := [(0, demo_open 0 empty_tally)],
     events := [CaseCreated 0]\<rparr>"

definition demo_s2 :: "demo_ledger mob_state" where
  "demo_s2 = demo_s1\<lparr>OpenCases := [(0, demo_open 0 \<lparr>aye = 1, nay = 0, contempt = 0\<rparr>)],
     Votes := [((0, [1]), Truth TruthTrue)], Credits := [([1], default_credit\<lparr>voted := 1\<rparr>)],
     events := [CaseCreated 0, Voted 0 [1] (Truth TruthTrue)]\<rparr>"

definition demo_s3 :: "demo_ledger mob_state" where
  "demo_s3 = demo_s2\<lparr>OpenCases := [],
     RipeCases := [(0, \<lparr>ripe_details = demo_details, ripe_verdict = Truth TruthTrue\<rparr>)],
     Votes := [((0, [1]), Truth TruthTrue), ((0, [2]), Truth TruthTrue)],
     Credits := [([1], default_credit\<lparr>voted := 1\<rparr>), ([2], default_credit\<lparr>voted := 1\<rparr>)],
     events := [CaseCreated 0, Voted 0 [1] (Truth TruthTrue), Voted 0 [2] (Truth TruthTrue)]\<rparr>"

definition demo_s4 :: "demo_ledger mob_state" where
  "demo_s4 = demo_s3\<lparr>RipeCases := [], CaseCount := 2, OpenCases := [(1, demo_open 1001 empty_tally)],
     DoneCases := [(0, \<lparr>done_since = 1001, done_verdict = Truth TruthTrue\<rparr>)],
     events := [CaseCreated 0, Voted 0 [1] (Truth TruthTrue), Voted 0 [2] (Truth TruthTrue),
       CaseCreated 1, CallbackRun (Inr ()), CaseClosed 0 (Truth TruthTrue)]\<rparr>"

lemma demo_step_guard:
  "case_guard (demo_step secs x) s \<longleftrightarrow> CaseCount s < u32_max \<and> length (Votes s) < u32_max"
  by (simp add: case_guard_def demo_step_def demo_callback_ok)

lemma demo_step_run: "mob_step (demo_step secs x) s =
   on_ok (mob_dispatch (demo_config secs 1 2, ()) x s) (\<lambda>(s', _). Inr s')"
  by (simp add: mob_step_def demo_step_def)

lemma demo_config_sel [simp]:
  "ensure_none (demo_config t b a) = (\<lambda>x. x = FromNone)"
  "ensure_person (demo_config t b a) = (\<lambda>x. case x of FromPerson p \<Rightarrow> Some p | _ \<Rightarrow> None)"
  "now_secs (demo_config t b a) = t" "active_count (demo_config t b a) = a"
  "percent_from_rational (demo_config t b a) = demo_ratio 100"
  "MinTurnoutPercentage (demo_config t b a) = 10" "MinTurnoutNominal (demo_config t b a) = 1"
  "MinCaseDuration (demo_config t b a) = 600" "MaxVotingDuration (demo_config t b a) = 1200"
  "codec (demo_config t b a) = (\<lambda>_. Some ())"
  by (simp_all add: demo_config_def)

lemma demo_dispatch:
  "CaseCount s < u32_max \<Longrightarrow> dispatch_as_root (demo_config t b a) c s =
     (Inr (), snd (judge_statement t demo_statement [] demo_callback s))"
  by (simp add: demo_config_def)

lemmas demo_eval = mob_genesis_def demo_open_def demo_details_def
  sget_def sput_def sdel_def scontains_def get_credit_def default_credit_def empty_tally_def
  deposit_event_def

lemma demo_step1:
  "mob_step (demo_step 0 (DoJudgeStatement demo_statement [] demo_callback)) (mob_genesis []) = Inr demo_s1"
  by (simp add: demo_step_run judge_statement_def Let_def demo_s1_def demo_eval)

lemma demo_tally1: "collapsed (demo_ratio 100) \<lparr>aye = 1, nay = 0, contempt = 0\<rparr> 2 =
    VoteCountResult_new (Truth TruthTrue) 1 0 50 1 False"
  by (simp add: collapsed_small tally_total_def demo_ratio_def)

lemma demo_tally2: "collapsed (demo_ratio 100) \<lparr>aye = 2, nay = 0, contempt = 0\<rparr> 2 =
    VoteCountResult_new (Truth TruthTrue) 2 0 100 2 True"
  by (simp add: collapsed_small tally_total_def demo_ratio_def)

lemma demo_ripens:
  "\<not> ripens (demo_config 10 b a) r 10"
  "ripens (demo_config 1000 b a) (VoteCountResult_new v 2 0 100 2 True) 1000"
  by (simp_all add: ripens_def VoteCountResult_new_def)

lemma demo_step2: "mob_step (demo_step 10 (DoVote (FromPerson [1]) 0 (Truth TruthTrue))) demo_s1 = Inr demo_s2"
  by (simp add: demo_step_run vote_def demo_tally1 demo_ripens
        demo_s1_def demo_s2_def demo_eval Let_def del: One_nat_def)

lemma demo_step3: "mob_step (demo_step 1000 (DoVote (FromPerson [2]) 0 (Truth TruthTrue))) demo_s2 = Inr demo_s3"
  by (simp add: demo_step_run vote_def demo_tally2 demo_ripens
        demo_s1_def demo_s2_def demo_s3_def demo_eval Let_def del: One_nat_def)
     (simp add: VoteCountResult_new_def)

lemma demo_step4: "mob_step (demo_step 1001 (DoCloseCase FromNone 0)) demo_s3 = Inr demo_s4"
  by (simp add: demo_step_run close_case_def validate_close_case_def run_callback_def
        curry_callback_def judge_statement_def Let_def demo_dispatch
        demo_s1_def demo_s2_def demo_s3_def demo_s4_def demo_eval)

lemmas demo_steps = demo_step1 demo_step2 demo_step3 demo_step4

lemma demo_run_guard: "guarded_run mob_step case_guard demo_run (mob_genesis [])"
  by (simp add: demo_run_def demo_steps demo_step_guard)
     (simp add: mob_genesis_def demo_s1_def demo_s2_def demo_s3_def)

lemma demo_run_result: "run_calls mob_step demo_run (mob_genesis []) = demo_s4"
  by (simp add: demo_run_def demo_steps)

subsection \<open>Cases\<close>

lemma votes_for_card:
  "wf_storage V \<Longrightarrow> votes_for V i j = card {a. sget V (i, a) = Some j} \<and> finite {a. sget V (i, a) = Some j}"
proof (induction V)
  case (Cons p V)
  obtain k b v where p: "p = ((k, b), v)" by (metis prod.collapse)
  from Cons have IH: "votes_for V i j = card {a. sget V (i, a) = Some j}"
    and fin: "finite {a. sget V (i, a) = Some j}" and fresh: "sget V (k, b) = None"
    by (auto simp: wf_storage_def p sget_None_iff)
  have "{a. sget (p # V) (i, a) = Some j} =
      (if k = i \<and> v = j then insert b {a. sget V (i, a) = Some j} else {a. sget V (i, a) = Some j})"
    using fresh by (auto simp: p sget_Cons)
  with IH fin fresh show ?case by (auto simp: votes_for_def p)
qed (simp add: votes_for_def)

text \<open>
  C1: in every state reached from genesis, the tally of an open case is the number of people
  whose stored vote on it is aye, nay and contempt, and the case is in no other map.
\<close>

theorem open_tally_counts_votes:
  assumes "guarded_run mob_step case_guard xs (mob_genesis l)"
    and "run_calls mob_step xs (mob_genesis l) = s"
    and "sget (OpenCases s) i = Some c"
  shows "aye (tally c) = card {a. sget (Votes s) (i, a) = Some (Truth TruthTrue)} \<and>
    nay (tally c) = card {a. sget (Votes s) (i, a) = Some (Truth TruthFalse)} \<and>
    contempt (tally c) = card {a. sget (Votes s) (i, a) = Some Contempt} \<and>
    \<not> scontains (RipeCases s) i \<and> \<not> scontains (DoneCases s) i \<and> i < CaseCount s"
proof -
  have inv: "case_inv s"
    using mob_cases.run_keeps [OF mob_genesis_case_inv assms(1)] assms(2) by simp
  then have "tally_matches (Votes s) i (tally c)" "wf_storage (Votes s)"
    using assms(3) by (simp_all add: case_inv_defs)
  with openD [OF inv assms(3)] show ?thesis
    by (simp add: tally_matches_def votes_for_card)
qed

theorem open_tally_counts_votes_witness:
  "aye empty_tally = card {a. sget (Votes demo_s4) (1, a) = Some (Truth TruthTrue)} \<and>
   \<not> scontains (RipeCases demo_s4) 1 \<and> (1::nat) < CaseCount demo_s4"
proof -
  have "sget (OpenCases demo_s4) 1 = Some (demo_open 1001 empty_tally)"
    by (simp add: demo_s4_def sget_def)
  from open_tally_counts_votes [OF demo_run_guard demo_run_result this] show ?thesis
    by (simp add: demo_open_def)
qed

text \<open>
  C2: along any run a case moves only forward: from unissued to open, from open to ripe or
  (by intervention) directly to done, from ripe to done, from done to reaped. In particular no
  decided case is opened for voting again and no ticket is used twice.
\<close>

theorem case_moves_forward:
  assumes "guarded_run mob_step case_guard xs (mob_genesis l)"
    and "guarded_run mob_step case_guard ys (run_calls mob_step xs (mob_genesis l))"
  shows "phase_step\<^sup>*\<^sup>* (phase_of (run_calls mob_step xs (mob_genesis l)) i)
    (phase_of (run_calls mob_step ys (run_calls mob_step xs (mob_genesis l))) i)"
  by (rule phases_follow_run [OF mob_cases.run_keeps [OF mob_genesis_case_inv assms(1)] assms(2)])

theorem case_moves_forward_witness:
  "phase_step\<^sup>*\<^sup>* Unissued Finished \<and> phase_of (mob_genesis ([] :: demo_ledger)) 0 = Unissued \<and>
   phase_of demo_s4 0 = Finished"
proof -
  have "phase_step\<^sup>*\<^sup>* (phase_of (mob_genesis ([] :: demo_ledger)) 0)
      (phase_of (run_calls mob_step demo_run (mob_genesis ([] :: demo_ledger))) 0)"
    using case_moves_forward [of "[]" "[]" demo_run 0] demo_run_guard by simp
  then show ?thesis
    by (simp add: demo_run_result)
       (simp add: phase_of_def mob_genesis_def demo_s4_def scontains_def sget_def)
qed

subsection \<open>The decision rule\<close>

text \<open>
  C5: a definitive count settles whether the statement is judged true: whatever the remaining
  voters vote, the verdict stays true if it was and does not become true if it was not.
\<close>

theorem definitive_settles_truth:
  assumes "definitive (collapsed fr t active)"
    and "tally_total d \<le> active - tally_total t"
    and "tally_total t + tally_total d \<le> u32_max"
  shows "verdict (collapsed fr (tally_plus t d) active) = Truth TruthTrue \<longleftrightarrow>
         verdict (collapsed fr t active) = Truth TruthTrue"
proof -
  have pos: "0 < tally_total t"
    using assms(1)
    by (rule_tac ccontr)
       (simp add: collapsed_def tally_total_def VoteCountResult_empty_def sat_add_def Let_def)
  have "active \<le> tally_total t \<or>
       (if aye t > nay t + contempt t then aye t - (nay t + contempt t)
        else nay t + contempt t - aye t) > active - tally_total t"
    using assms(1,3) collapsed_small [OF pos, of fr active] by (simp add: VoteCountResult_new_def)
  moreover have "tally_total (tally_plus t d) \<le> u32_max"
    using assms(3) by (simp add: tally_total_def tally_plus_def)
  ultimately show ?thesis
    using assms(2,3)
    by (subst (1 2) collapsed_verdict) (auto simp: tally_total_def tally_plus_def split: if_splits)
qed

theorem definitive_settles_truth_witness:
  "verdict (collapsed (demo_ratio 100)
     (tally_plus \<lparr>aye = 3, nay = 0, contempt = 0\<rparr> \<lparr>aye = 0, nay = 1, contempt = 1\<rparr>) 5) = Truth TruthTrue"
proof -
  have "collapsed (demo_ratio 100) \<lparr>aye = 3, nay = 0, contempt = 0\<rparr> 5 =
      VoteCountResult_new (Truth TruthTrue) 3 0 60 3 True"
    by (simp add: collapsed_small tally_total_def demo_ratio_def)
  then show ?thesis
    using definitive_settles_truth [of "demo_ratio 100" "\<lparr>aye = 3, nay = 0, contempt = 0\<rparr>" 5
        "\<lparr>aye = 0, nay = 1, contempt = 1\<rparr>"]
    by (simp add: tally_total_def VoteCountResult_new_def)
qed

text \<open>
  C27: definitive does not settle between false and contempt: with three contempt and two nay
  votes of seven active voters the count is definitive with the verdict contempt, and two more
  nays turn it into false.
\<close>

theorem definitive_contempt_can_flip:
  "definitive (collapsed fr \<lparr>aye = 0, nay = 2, contempt = 3\<rparr> 7) \<and>
   verdict (collapsed fr \<lparr>aye = 0, nay = 2, contempt = 3\<rparr> 7) = Contempt \<and>
   verdict (collapsed fr (tally_count (tally_count \<lparr>aye = 0, nay = 2, contempt = 3\<rparr>
     (Truth TruthFalse)) (Truth TruthFalse)) 7) = Truth TruthFalse"
  by (simp add: collapsed_small tally_total_def VoteCountResult_new_def sat_add_def)

text \<open>
  C8: the approval threshold only falls with time: a count that passes keeps passing.
\<close>

theorem is_passing_mono:
  assumes "is_passing r d e" and "e \<le> e'"
  shows "is_passing r d e'"
proof -
  have "sat_mul u64_max (sat_add u64_max d (d - e')) k \<le> sat_mul u64_max (sat_add u64_max d (d - e)) k" for k
    using assms(2) by (intro sat_mul_mono sat_add_mono) simp_all
  with assms(1) show ?thesis
    unfolding is_passing_def Let_def by (meson order_le_less_trans)
qed

theorem is_passing_mono_witness:
  "is_passing (VoteCountResult_new (Truth TruthTrue) 3 2 50 5 False) 1200 1200"
proof -
  have "is_passing (VoteCountResult_new (Truth TruthTrue) 3 2 50 5 False) 1200 1000"
    by (simp add: is_passing_def VoteCountResult_new_def sat_add_def sat_mul_def)
  from is_passing_mono [OF this, of 1200] show ?thesis by simp
qed

text \<open>
  Where nothing saturates, a count passes exactly when the share of ayes exceeds a
  threshold that falls linearly from all votes at the start to half of them at the maximum
  duration; from then on a simple majority passes.
\<close>

theorem is_passing_threshold:
  assumes "aye_weight r + nay_weight r \<le> u32_max" and "0 < d"
    and "2 * d * (aye_weight r + nay_weight r) \<le> u64_max"
  shows "(is_passing r d e \<longleftrightarrow>
      2 * d * aye_weight r > (d + (d - e)) * (aye_weight r + nay_weight r)) \<and>
    (d \<le> e \<longrightarrow> (is_passing r d e \<longleftrightarrow> aye_weight r > nay_weight r))"
proof -
  let ?n = "aye_weight r + nay_weight r"
  have thr: "is_passing r d e \<longleftrightarrow> 2 * d * aye_weight r > (d + (d - e)) * ?n"
  proof (cases "?n = 0")
    case False
    have "d * 2 \<le> 2 * d * ?n" using False by (cases ?n) simp_all
    then have "d * 2 \<le> u64_max" using assms(3) by linarith
    then have 1: "sat_add u64_max d (d - e) = d + (d - e)" by simp
    have "(d + (d - e)) * ?n \<le> 2 * d * ?n" by (intro mult_le_mono1) simp
    then have 2: "(d + (d - e)) * ?n \<le> u64_max" using assms(3) by linarith
    have "2 * (d * aye_weight r) \<le> u64_max" "d * aye_weight r \<le> u64_max"
      using assms(3) by (simp_all add: algebra_simps)
    with 1 2 assms(1) show ?thesis
      by (simp add: is_passing_def Let_def mult.commute mult.left_commute)
  qed (simp add: is_passing_def sat_mul_def Let_def)
  have "is_passing r d e \<longleftrightarrow> aye_weight r > nay_weight r" if "d \<le> e"
  proof -
    from that thr have "is_passing r d e \<longleftrightarrow> d * (2 * aye_weight r) > d * ?n"
      by (simp add: mult.commute mult.left_commute)
    also have "\<dots> \<longleftrightarrow> aye_weight r > nay_weight r" using assms(2) by simp
    finally show ?thesis .
  qed
  with thr show ?thesis by blast
qed

theorem is_passing_threshold_witness:
  "\<not> is_passing (VoteCountResult_new (Truth TruthTrue) 3 2 50 5 False) 1200 600 \<and>
   is_passing (VoteCountResult_new (Truth TruthTrue) 3 2 50 5 False) 1200 1300"
  using is_passing_threshold [of "VoteCountResult_new (Truth TruthTrue) 3 2 50 5 False" 1200 600]
    is_passing_threshold [of "VoteCountResult_new (Truth TruthTrue) 3 2 50 5 False" 1200 1300]
  by (simp add: VoteCountResult_new_def)

end
