(* ===== verification/Mob_Payout_Props.thy ===== *)
theory Mob_Payout_Props
  imports Mob_Rule_Props "HOL-Library.Multiset"
begin

text \<open>
  The properties of mob-rule about money, claims, the offchain batch of votes to clean, and
  the interface of the statement oracle.
\<close>

subsection \<open>The statement oracle as an interface\<close>

text \<open>
  What a client of \<open>StatementOracle::judge_statement\<close> relies on: the ticket is new, the case
  is pending under it with what was asked, and no other ticket is disturbed.
\<close>

locale statement_oracle =
  fixes judge :: "Statement \<Rightarrow> bytes \<Rightarrow> Callback \<Rightarrow> 's \<Rightarrow> nat \<times> 's"
    and pending :: "'s \<Rightarrow> nat \<Rightarrow> (Statement \<times> bytes \<times> Callback) option"
    and ok :: "'s \<Rightarrow> bool"
  assumes judge_pending: "ok s \<Longrightarrow> pending (snd (judge st ctx cb s)) (fst (judge st ctx cb s)) = Some (st, ctx, cb)"
    and judge_fresh: "ok s \<Longrightarrow> pending s (fst (judge st ctx cb s)) = None"
    and judge_others: "ok s \<Longrightarrow> t \<noteq> fst (judge st ctx cb s) \<Longrightarrow> pending (snd (judge st ctx cb s)) t = pending s t"
begin

lemma two_judgements:
  assumes "ok s" and "judge st ctx cb s = (t, s')" and "ok s'" and "judge st' ctx' cb' s' = (t', s'')"
  shows "t \<noteq> t'" and "pending s'' t = Some (st, ctx, cb)" and "pending s'' t' = Some (st', ctx', cb')"
proof -
  from judge_pending [OF assms(1), of st ctx cb] assms(2) have p: "pending s' t = Some (st, ctx, cb)"
    by simp
  with judge_fresh [OF assms(3), of st' ctx' cb'] assms(4) show "t \<noteq> t'" by auto
  with judge_others [OF assms(3), of t st' ctx' cb'] assms(4) p show "pending s'' t = Some (st, ctx, cb)"
    by simp
  from judge_pending [OF assms(3), of st' ctx' cb'] assms(4) show "pending s'' t' = Some (st', ctx', cb')"
    by simp
qed

end

definition pending_case :: "'l mob_state \<Rightarrow> nat \<Rightarrow> (Statement \<times> bytes \<times> Callback) option" where
  "pending_case s t = map_option
     (\<lambda>c. (statement (open_details c), judgement_context (open_details c), callback (open_details c)))
     (sget (OpenCases s) t)"

definition oracle_ok :: "'l mob_state \<Rightarrow> bool" where
  "oracle_ok s \<longleftrightarrow> case_inv s \<and> CaseCount s < u32_max"

interpretation mob_oracle: statement_oracle "judge_statement now" pending_case oracle_ok
  for now
  by unfold_locales
     (auto simp: pending_case_def oracle_ok_def judge_statement_def deposit_event_def Let_def
        case_inv_defs scontains_def)

text \<open>
  C10: two statements judged one after the other get different tickets, and both are pending
  with the statement, context and callback they were asked with.
\<close>

theorem judge_statement_tickets:
  assumes "case_inv s" and "CaseCount s + 1 < u32_max"
    and "judge_statement now st ctx cb s = (t, s')"
    and "judge_statement now' st' ctx' cb' s' = (t', s'')"
  shows "t \<noteq> t' \<and> pending_case s'' t = Some (st, ctx, cb) \<and> pending_case s'' t' = Some (st', ctx', cb')"
proof -
  have ok: "oracle_ok s" using assms(1,2) by (simp add: oracle_ok_def)
  have "case_inv s'"
    using judge_statement_contract [OF assms(1), of now st ctx cb] assms(2,3)
    by (simp add: case_contract_def)
  moreover have "CaseCount s' < u32_max"
    using assms(2,3) by (auto simp: judge_statement_def Let_def)
  ultimately have ok': "oracle_ok s'" by (simp add: oracle_ok_def)
  have first: "pending_case s' t = Some (st, ctx, cb)"
    using mob_oracle.judge_pending [OF ok, of now st ctx cb] assms(3) by simp
  with mob_oracle.judge_fresh [OF ok', of now' st' ctx' cb'] assms(4) have "t \<noteq> t'" by auto
  with mob_oracle.judge_others [OF ok', of t now' st' ctx' cb']
    mob_oracle.judge_pending [OF ok', of now' st' ctx' cb'] assms(4) first
  show ?thesis by simp
qed

theorem judge_statement_tickets_witness:
  "(0::nat) \<noteq> 1 \<and>
   pending_case (snd (judge_statement 6 (UsernameValid [2]) [] demo_callback
     (snd (judge_statement 5 demo_statement [] demo_callback (mob_genesis ([] :: demo_ledger)))))) 1 =
     Some (UsernameValid [2], [], demo_callback)"
proof -
  let ?s1 = "snd (judge_statement 5 demo_statement [] demo_callback (mob_genesis ([] :: demo_ledger)))"
  have t: "judge_statement 5 demo_statement [] demo_callback (mob_genesis ([] :: demo_ledger)) = (0, ?s1)"
    by (simp add: judge_statement_def mob_genesis_def Let_def)
  have "fst (judge_statement 6 (UsernameValid [2]) [] demo_callback ?s1) = 1"
    by (simp add: judge_statement_def mob_genesis_def Let_def)
  then have t': "judge_statement 6 (UsernameValid [2]) [] demo_callback ?s1 =
      (1, snd (judge_statement 6 (UsernameValid [2]) [] demo_callback ?s1))"
    by (metis prod.collapse)
  show ?thesis
    using judge_statement_tickets [OF mob_genesis_case_inv _ t t'] by (simp add: mob_genesis_def)
qed

subsection \<open>Money\<close>


lemma demo_perbill: "perbill_laws (demo_config t b a)"
proof -
  have "demo_ratio n p q * q \<le> p * n" for n p q
    by (simp add: demo_ratio_def mult.commute)
  then show ?thesis by (simp add: perbill_laws_def demo_config_def)
qed




text \<open>
  C4: with the books in order (the invariant that every run keeps), a claim of credit moves
  exactly the voter's share, rounded down: the round, the pot's holds, the credit and the
  event change by the same amount, which never exceeds what is left of the round, and the
  points are spent.
\<close>

theorem claim_credit_exact:
  assumes "books_inv (Currency cfg) (mob_rule_pot_id cfg) s"
    and "hold_laws (Currency cfg)" and "perbill_laws cfg"
    and "ensure_person cfg origin = Some who" and "PayoutDistribution s = Some d"
    and "claim_credit cfg origin s = Inr (s', p)"
    and "c = claimable cfg d (get_points s (round d) who)"
  shows "c \<le> remaining_balance d \<and>
    c * total_points d \<le> get_points s (round d) who * initial_balance d \<and>
    PayoutDistribution s' = Some (d\<lparr>remaining_balance := remaining_balance d - c\<rparr>) \<and>
    credit (get_credit s' who) = credit (get_credit s who) + c \<and>
    get_points s' (round d) who = 0 \<and>
    on_hold (Currency cfg) Payout (mob_rule_pot_id cfg) (ledger s') + c =
      on_hold (Currency cfg) Payout (mob_rule_pot_id cfg) (ledger s) \<and>
    on_hold (Currency cfg) Credit (mob_rule_pot_id cfg) (ledger s') =
      on_hold (Currency cfg) Credit (mob_rule_pot_id cfg) (ledger s) + c \<and>
    events s' = events s @ [CreditClaimed who c]"
proof -
  note r = claim_credit_result [OF assms(1-6), folded assms(7)]
  have "points_ok s" using assms(1) by (simp add: books_inv_def)
  from claimable_le(1) [OF this assms(5,3)] have 1: "c \<le> remaining_balance d" by (simp add: assms(7))
  have 2: "c * total_points d \<le> get_points s (round d) who * initial_balance d"
    unfolding assms(7) claimable_def by (rule perbill_share [OF assms(3)])
  have 3: "credit (get_credit s' who) = credit (get_credit s who) + c"
    by (simp add: get_credit_def r(2))
  have 4: "get_points s' (round d) who = 0" by (simp add: get_points_def r(3))
  from 1 2 3 4 r(1,6,7,8) show ?thesis by simp
qed

definition demo_round :: CreditDistribution where
  "demo_round = \<lparr>round = 0, initial_balance = 100, remaining_balance = 100, total_points = 3, start = 0\<rparr>"

definition demo_paying :: "demo_ledger mob_state" where
  "demo_paying = (mob_genesis [((Payout, [9]), 100)])\<lparr>
     VotingPoints := [((0, [1]), 1), ((0, [2]), 2)], PayoutDistribution := Some demo_round\<rparr>"

lemma demo_paying_books: "books_inv book_currency [9] demo_paying"
  by (simp add: books_defs demo_paying_def demo_round_def mob_genesis_def next_round_def points_of_def
        committed_def credits_total_def scontains_def sget_def wf_storage_def book_currency_def)

theorem claim_credit_exact_witness:
  "\<exists>s'. claim_credit (demo_config 0 1 2) (FromPerson [1]) demo_paying = Inr (s', PaysNo) \<and>
     credit (get_credit s' [1]) = 33 \<and> events s' = [CreditClaimed [1] 33]"
proof -
  let ?cfg = "demo_config 0 1 2"
  let ?l2 = "[((Payout, [9]), 67), ((Credit, [9]), 33)]"
  let ?s' = "demo_paying\<lparr>VotingPoints := [((0, [2]), 2)], ledger := ?l2,
     Credits := [([1], default_credit\<lparr>credit := 33\<rparr>)],
     PayoutDistribution := Some (demo_round\<lparr>remaining_balance := 67\<rparr>),
     events := [CreditClaimed [1] 33]\<rparr>"
  have inv: "books_inv (Currency ?cfg) (mob_rule_pot_id ?cfg) demo_paying"
    using demo_paying_books by (simp add: demo_config_def)
  have run: "claim_credit ?cfg (FromPerson [1]) demo_paying = Inr (?s', PaysNo)"
    by (simp add: claim_credit_def demo_paying_def demo_round_def get_points_def get_credit_def
          mob_genesis_def sget_def sput_def sdel_def demo_config_def demo_ratio_def book_currency_def
          deposit_event_def default_credit_def checked_add_def)
       (simp add: Let_def)
  have d: "PayoutDistribution demo_paying = Some demo_round" by (simp add: demo_paying_def)
  have c: "33 = claimable ?cfg demo_round (get_points demo_paying (round demo_round) [1])"
    by (simp add: claimable_def demo_config_def demo_ratio_def demo_paying_def demo_round_def
          get_points_def sget_def)
  note r = claim_credit_exact [OF inv demo_laws demo_perbill _ d run c]
  have "credit (get_credit ?s' [1]) = 33" "events ?s' = [CreditClaimed [1] 33]"
    using r by (simp_all add: demo_paying_def mob_genesis_def get_credit_def default_credit_def)
  with run show ?thesis by blast
qed

text \<open>
  A schedule of zero rounds holds nothing, is accepted, and the next payout round still
  starts with its full amount: the round promises funds that the pot does not hold.
\<close>

theorem zero_rounds_unbacked:
  "\<exists>s. run_calls mob_step
      [demo_step 0 (DoSchedulePayoutRounds FromRoot 100 0 5), demo_step 0 (DoStartPayoutRound FromRoot)]
      ((mob_genesis [])\<lparr>AccumulatedPoints := 3\<rparr>) = s \<and>
    PayoutDistribution s = Some \<lparr>round = 0, initial_balance = 100, remaining_balance = 100,
      total_points = 3, start = 1\<rparr> \<and>
    on_hold book_currency Payout [9] (ledger s) = 0"
  by (simp add: demo_step_run schedule_payout_rounds_def start_payout_round_def demo_config_def
        book_currency_def mob_genesis_def deposit_event_def next_round_def Let_def)

subsection \<open>Claims\<close>

definition rewarded :: "'l mob_state \<Rightarrow> person_alias \<Rightarrow> nat \<Rightarrow> bool" where
  "rewarded s who i \<longleftrightarrow> (\<exists>v c. sget (Votes s) (i, who) = Some v \<and> sget (DoneCases s) i = Some c \<and>
     (done_verdict c = v \<or> done_verdict c = Contempt \<and> v = Truth TruthFalse))"

lemma claim_loop_result:
  assumes "claim_loop cfg who cs n s = Inr (m, s')" and "n + length cs \<le> u32_max"
  shows "distinct cs \<and> (\<forall>i\<in>set cs. scontains (Votes s) (i, who) \<and> scontains (DoneCases s) i) \<and>
    (\<forall>k. sget (Votes s') k = (if fst k \<in> set cs \<and> snd k = who then None else sget (Votes s) k)) \<and>
    m = n + length (filter (rewarded s who) cs)"
  using assms
proof (induction cs arbitrary: n s)
  case (Cons i cs)
  from Cons.prems(1) obtain v c where v: "sget (Votes s) (i, who) = Some v"
    and c: "sget (DoneCases s) i = Some c"
    by (auto simp: Let_def)
  let ?won = "done_verdict c = v \<or> done_verdict c = Contempt \<and> v = Truth TruthFalse"
  let ?s1 = "s\<lparr>Votes := sdel (i, who) (Votes s)\<rparr>"
  define n2 where "n2 = (if rewarded s who i then n + 1 else n)"
  define s2 where "s2 = (if \<not> ?won \<and> v = Contempt
    then ?s1\<lparr>VotingPenalties := sput who (block_number cfg) (VotingPenalties s)\<rparr> else ?s1)"
  have n2: "n2 = (if rewarded s who i then n + 1 else n)" by (rule n2_def)
  have won: "rewarded s who i \<longleftrightarrow> ?won" using v c by (auto simp: rewarded_def)
  have s2: "Votes s2 = sdel (i, who) (Votes s)" "DoneCases s2 = DoneCases s"
    by (simp_all add: s2_def)
  have loop: "claim_loop cfg who cs n2 s2 = Inr (m, s')"
    using Cons.prems v c won unfolding n2_def s2_def by (auto simp: Let_def split: if_splits)
  from Cons.IH [OF loop] Cons.prems(2) n2 have IH:
    "distinct cs" "\<forall>j\<in>set cs. scontains (Votes s2) (j, who) \<and> scontains (DoneCases s2) j"
    "\<forall>k. sget (Votes s') k = (if fst k \<in> set cs \<and> snd k = who then None else sget (Votes s2) k)"
    "m = n2 + length (filter (rewarded s2 who) cs)"
    by (simp_all split: if_splits)
  from IH(2) s2 have "i \<notin> set cs" by auto
  moreover from this s2 have "filter (rewarded s2 who) cs = filter (rewarded s who) cs"
    by (intro filter_cong) (auto simp: rewarded_def)
  moreover have "scontains (Votes s) (i, who)" "scontains (DoneCases s) i"
    using v c by (simp_all add: scontains_def)
  with IH(2) s2 have "\<forall>j\<in>set (i # cs). scontains (Votes s) (j, who) \<and> scontains (DoneCases s) j"
    by auto
  ultimately show ?case
    using IH(1,3,4) n2 s2 by auto
qed simp

text \<open>
  A successful claim names each case once, each done and voted on by the claimer; it
  removes exactly those votes, so none can be claimed again, and earns one point per vote
  that matched the verdict, or was nay on a case found in contempt.
\<close>

theorem claim_votes_once:
  assumes "claim_votes cfg origin cs s = Inr (s', p)" and "ensure_person cfg origin = Some who"
    and "length cs \<le> u32_max"
  shows "distinct cs \<and> length cs \<le> MaxVotesClaimable cfg \<and>
    (\<forall>i\<in>set cs. scontains (Votes s) (i, who) \<and> scontains (DoneCases s) i) \<and>
    (\<forall>k. sget (Votes s') k = (if fst k \<in> set cs \<and> snd k = who then None else sget (Votes s) k)) \<and>
    get_points s' (next_round s) who =
      sat_add u32_max (get_points s (next_round s) who) (length (filter (rewarded s who) cs)) \<and>
    AccumulatedPoints s' = sat_add u64_max (AccumulatedPoints s) (length (filter (rewarded s who) cs))"
proof -
  from assms(1,2) obtain m s1 where loop: "claim_loop cfg who cs 0 s = Inr (m, s1)"
    and len: "length cs \<le> MaxVotesClaimable cfg"
    by (auto simp: claim_votes_def do_claim_votes_def Let_def)
  note r = claim_loop_result [OF loop] and b = claim_loop_books [OF loop]
  from r len assms(3) have 1: "distinct cs \<and> length cs \<le> MaxVotesClaimable cfg"
    "\<forall>i\<in>set cs. scontains (Votes s) (i, who) \<and> scontains (DoneCases s) i" by simp_all
  have m: "m = length (filter (rewarded s who) cs)" using r assms(3) by simp
  have s': "Votes s' = Votes s1"
    "VotingPoints s' = sput (next_round s, who) (sat_add u32_max (get_points s1 (next_round s) who) m) (VotingPoints s1)"
    "AccumulatedPoints s' = sat_add u64_max (AccumulatedPoints s1) m"
    using assms(1,2) loop len
    by (auto simp: claim_votes_def do_claim_votes_def deposit_event_def Let_def)
  from s'(1) r assms(3)
  have 2: "\<forall>k. sget (Votes s') k = (if fst k \<in> set cs \<and> snd k = who then None else sget (Votes s) k)"
    by simp
  from s' b m have 3:
    "get_points s' (next_round s) who =
      sat_add u32_max (get_points s (next_round s) who) (length (filter (rewarded s who) cs))"
    "AccumulatedPoints s' = sat_add u64_max (AccumulatedPoints s) (length (filter (rewarded s who) cs))"
    by (simp_all add: get_points_def)
  from 1 2 3 show ?thesis by blast
qed

theorem claim_votes_once_witness:
  "\<exists>s'. claim_votes (demo_config 2000 1 2) (FromPerson [1]) [0] demo_s4 = Inr (s', PaysNo) \<and>
     sget (Votes s') (0, [1]) = None \<and> sget (Votes s') (0, [2]) = Some (Truth TruthTrue) \<and>
     AccumulatedPoints s' = 1"
proof -
  let ?cfg = "demo_config 2000 1 2"
  have max: "MaxVotesClaimable (demo_config t b a) = 10" for t b a by (simp add: demo_config_def)
  have s4: "sget (Votes demo_s4) (0, [1]) = Some (Truth TruthTrue)"
    "sget (Votes demo_s4) (0, [2]) = Some (Truth TruthTrue)"
    "sget (DoneCases demo_s4) 0 = Some \<lparr>done_since = 1001, done_verdict = Truth TruthTrue\<rparr>"
    "AccumulatedPoints demo_s4 = 0"
    by (simp_all add: demo_s4_def demo_s3_def demo_s2_def demo_s1_def mob_genesis_def sget_def)
  obtain s' where run: "claim_votes ?cfg (FromPerson [1]) [0] demo_s4 = Inr (s', PaysNo)"
    by (simp add: claim_votes_def do_claim_votes_def max s4 Let_def)
  have "rewarded demo_s4 [1] 0" by (simp add: rewarded_def s4)
  with claim_votes_once [OF run, of "[1]"] s4 have
    "sget (Votes s') (0, [1]) = None" "sget (Votes s') (0, [2]) = Some (Truth TruthTrue)"
    "AccumulatedPoints s' = 1"
    by simp_all
  with run show ?thesis by blast
qed

subsection \<open>The batch of votes to clean\<close>

definition batch_size :: "(nat \<times> person_alias list) list \<Rightarrow> nat" where
  "batch_size cs = sum_list (map (\<lambda>p. length (snd p)) cs)"

lemma batch_size_sput:
  assumes "wf_storage cs"
  shows "batch_size (sput i vs cs) + (case sget cs i of None \<Rightarrow> 0 | Some us \<Rightarrow> length us) =
    batch_size cs + length vs"
  using ssum_sput [OF assms, of "\<lambda>p. length (snd p)" i vs]
  by (simp add: batch_size_def ssum_def cong: option.case_cong)

definition batch_ok :: "('o, 'l, 'call, 'm) mob_config \<Rightarrow> 'l mob_state \<Rightarrow> (nat \<times> person_alias list) list \<Rightarrow> bool" where
  "batch_ok cfg s cs \<longleftrightarrow> wf_storage cs \<and>
     (\<forall>i vs v. sget cs i = Some vs \<longrightarrow> v \<in> set vs \<longrightarrow> is_ok (validate_clean_vote cfg i v s))"

lemma votes_to_clean_loop_ok:
  assumes "case_inv s" and "set vs \<subseteq> set (Votes s)" and "batch_ok cfg s cs"
    and "batch_size cs = n" and "n < CleanVotesBatchSize cfg"
  shows "batch_ok cfg s (votes_to_clean_loop cfg s lim vs cs n) \<and>
    batch_size (votes_to_clean_loop cfg s lim vs cs n) \<le> CleanVotesBatchSize cfg"
  using assms(2-)
proof (induction vs arbitrary: cs n)
  case (Cons p vs)
  obtain i a v where p: "p = ((i, a), v)" by (metis prod.collapse)
  have wfV: "wf_storage (Votes s)" using assms(1) by (simp add: case_inv_defs)
  have vote: "sget (Votes s) (i, a) = Some v"
    using Cons.prems(1) by (intro in_set_sget [OF wfV]) (auto simp: p)
  let ?due = "case sget (DoneCases s) i of None \<Rightarrow> False
    | Some c \<Rightarrow> now_secs cfg > sat_add u64_max (VotesOpenForClaimsDuration cfg) (done_since c)"
  have ok: "is_ok (validate_clean_vote cfg i a s)" if due: ?due
    using due vote doneD [OF assms(1), of i]
    by (auto simp: validate_clean_vote_def is_ok_iff split: option.splits)
  define q where "q = (if ?due then (case sget cs i of
       Some voters \<Rightarrow> if length voters < lim then (sput i (voters @ [a]) cs, Suc n) else (cs, n)
     | None \<Rightarrow> (sput i [a] cs, Suc n)) else (cs, n))"
  have q: "batch_ok cfg s (fst q) \<and> batch_size (fst q) = snd q \<and> snd q \<le> CleanVotesBatchSize cfg"
    using Cons.prems ok batch_size_sput [of cs i "[a]"] batch_size_sput [of cs i "the (sget cs i) @ [a]"]
    unfolding q_def batch_ok_def by (auto split: option.splits if_splits)
  have "votes_to_clean_loop cfg s lim (p # vs) cs n =
      (if snd q \<ge> CleanVotesBatchSize cfg then fst q
       else votes_to_clean_loop cfg s lim vs (fst q) (snd q))"
    unfolding q_def p by (simp add: Let_def split: prod.splits)
  with q Cons.IH [of "fst q" "snd q"] Cons.prems(1) show ?case by auto
qed simp

text \<open>
  C9: the batch that the offchain worker cleans has no more votes than its configured size,
  and every vote in it passes the validation of \<open>clean_vote\<close>, so none of the transactions it
  submits is refused.
\<close>

theorem votes_to_clean_valid:
  assumes "case_inv s" and "0 < CleanVotesBatchSize cfg"
  shows "(\<forall>(i, vs)\<in>set (votes_to_clean cfg s). \<forall>v\<in>set vs. is_ok (validate_clean_vote cfg i v s)) \<and>
    batch_size (votes_to_clean cfg s) \<le> CleanVotesBatchSize cfg"
proof -
  let ?b = "votes_to_clean_loop cfg s (CleanVotesBatchSize cfg div length (DoneCases s)) (Votes s) [] 0"
  have r: "batch_ok cfg s ?b" "batch_size ?b \<le> CleanVotesBatchSize cfg"
    using votes_to_clean_loop_ok [OF assms(1) order_refl, of cfg "[]" 0] assms(2)
    by (auto simp: batch_ok_def batch_size_def)
  then have "\<forall>(i, vs)\<in>set ?b. \<forall>v\<in>set vs. is_ok (validate_clean_vote cfg i v s)"
    by (auto simp: batch_ok_def dest: in_set_sget)
  then have 1: "\<forall>(i, vs)\<in>set (votes_to_clean cfg s). \<forall>v\<in>set vs. is_ok (validate_clean_vote cfg i v s)"
    by (simp add: votes_to_clean_def Let_def)
  have "batch_size (sort_key fst ?b) = batch_size ?b"
    unfolding batch_size_def by (simp add: sum_mset_sum_list [symmetric] del: sum_mset_sum_list)
  with r(2) have "batch_size (votes_to_clean cfg s) \<le> CleanVotesBatchSize cfg"
    by (simp add: votes_to_clean_def Let_def batch_size_def)
  with 1 show ?thesis by blast
qed

theorem votes_to_clean_valid_witness:
  "votes_to_clean (demo_config 9000 1 2) demo_s4 = [(0, [[1], [2]])] \<and>
   is_ok (validate_clean_vote (demo_config 9000 1 2) 0 [2] demo_s4)"
proof -
  have inv: "case_inv demo_s4"
    using mob_cases.run_keeps [OF mob_genesis_case_inv demo_run_guard] demo_run_result by simp
  have b: "votes_to_clean (demo_config 9000 1 2) demo_s4 = [(0, [[1], [2]])]"
    by (simp add: votes_to_clean_def Let_def demo_config_def demo_s4_def demo_s3_def demo_s2_def
          demo_s1_def mob_genesis_def sget_def sput_def)
  have "0 < CleanVotesBatchSize (demo_config 9000 1 2)" by (simp add: demo_config_def)
  from votes_to_clean_valid [OF inv this] b show ?thesis by simp
qed

end
