(* ===== verification/Score_Types.thy ===== *)
theory Score_Types
  imports Prelude
begin

text \<open>
  The data of \<open>pallets/score/src/types.rs\<close>: the rolling attendance bits, streaks, tiers,
  participants, recognition and payout rounds. The attendance byte is shown to be the list of
  the last eight games.
\<close>

unbundle bit_operations_syntax

subsection \<open>Attendance history\<close>

type_synonym AttendanceHistory = "8 word"

definition default_attendance :: AttendanceHistory where
  "default_attendance = 0xFF"

definition store_attendance :: "AttendanceHistory \<Rightarrow> bool \<Rightarrow> AttendanceHistory" where
  "store_attendance h attended = push_bit 1 h OR of_bool attended"

text \<open>\<open>u8::count_ones\<close>.\<close>

definition count_ones :: "8 word \<Rightarrow> nat" where
  "count_ones x = length (filter (bit x) [0..<8])"

definition misses_in_window :: "AttendanceHistory \<Rightarrow> nat \<Rightarrow> nat" where
  "misses_in_window h window0 =
     (let window = min window0 8;
          mask = (if window \<ge> 8 then 0xFF else push_bit window 1 - 1);
          attended_bits = h AND mask
      in window - count_ones attended_bits)"

subsection \<open>Streaks\<close>

datatype Streak = Attended nat | Absent nat

definition default_streak :: Streak where
  "default_streak = Attended 0"

fun add_attendance :: "Streak \<Rightarrow> nat \<Rightarrow> Streak" where
  "add_attendance (Attended count) amount = Attended (sat_add u32_max count amount)"
| "add_attendance (Absent _) amount = Attended amount"

fun add_absence :: "Streak \<Rightarrow> nat \<Rightarrow> Streak" where
  "add_absence (Absent count) amount = Absent (sat_add u32_max count amount)"
| "add_absence (Attended _) amount = Absent amount"

fun attendance :: "Streak \<Rightarrow> nat" where
  "attendance (Attended count) = count"
| "attendance (Absent _) = 0"

fun absence :: "Streak \<Rightarrow> nat" where
  "absence (Absent count) = count"
| "absence (Attended _) = 0"

fun set_attendance_to_at_least :: "Streak \<Rightarrow> nat \<Rightarrow> Streak" where
  "set_attendance_to_at_least (Attended c) count = Attended (max c count)"
| "set_attendance_to_at_least (Absent _) count = Attended count"

fun reset_attendance :: "Streak \<Rightarrow> Streak" where
  "reset_attendance (Attended _) = Attended 0"
| "reset_attendance (Absent c) = Absent c"

subsection \<open>Tiers, participants and rounds\<close>

record PersonhoodThresholdTier =
  pt_population :: nat
  score_threshold :: nat

record AbsenceGraceTier =
  ag_population :: nat
  window :: nat
  allowed_misses :: nat

datatype Recognition =
    ExternallyRecognized
  | NotRecognized
  | Suspended nat
  | Recognized nat

fun is_recognized :: "Recognition \<Rightarrow> bool" where
  "is_recognized (Recognized _) = True"
| "is_recognized ExternallyRecognized = True"
| "is_recognized _ = False"

fun is_externally_recognized :: "Recognition \<Rightarrow> bool" where
  "is_externally_recognized ExternallyRecognized = True"
| "is_externally_recognized _ = False"

record Participant =
  score :: nat
  streak :: Streak
  attendance_history :: AttendanceHistory
  credit :: nat
  cashed_out :: bool
  reached_personhood :: bool
  has_ever_reached_personhood :: bool
  recognition :: Recognition
  last_attended_game :: "nat option"

record ScoreSchedule =
  remaining :: nat
  amount_per_round :: nat
  duration :: nat

datatype AccountOrPerson = Account account_id | Person person_alias

fun account_of :: "AccountOrPerson \<Rightarrow> account_id option" where
  "account_of (Account a) = Some a"
| "account_of (Person _) = None"

record RoundInfo =
  finish_at :: nat
  round_credit :: nat

record RoundPayout =
  remaining_balance :: nat
  point_price :: nat
  remainder :: nat
  total_points :: nat

subsection \<open>The attendance byte as a list of games\<close>

definition games_of :: "AttendanceHistory \<Rightarrow> bool list" where
  "games_of h = map (bit h) [0..<8]"

lemma length_games [simp]: "length (games_of h) = 8"
  by (simp add: games_of_def)

lemma games_of_default: "games_of default_attendance = replicate 8 True"
  by (simp add: games_of_def default_attendance_def upt_rec numeral_eq_Suc)

lemma games_of_store: "games_of (store_attendance h a) = a # butlast (games_of h)"
proof -
  have *: "[0..<8] = 0 # map Suc [0..<7]" and "[0..<8] = [0..<7] @ [7]"
    by (simp_all add: upt_rec)
  have "bit (store_attendance h a) 0 = a"
    unfolding store_attendance_def bit_or_iff bit_push_bit_iff by (cases a) simp_all
  moreover have "bit (store_attendance h a) (Suc i) = bit h i" if "i < 7" for i
    using that unfolding store_attendance_def bit_or_iff bit_push_bit_iff
    by (cases a) (simp_all add: possible_bit_def bit_1_iff)
  ultimately show ?thesis
    unfolding games_of_def \<open>[0..<8] = [0..<7] @ [7]\<close> [symmetric]
    by (subst *) (simp add: \<open>[0..<8] = [0..<7] @ [7]\<close> comp_def)
qed

lemma mask_bits: "w < 8 \<Longrightarrow> bit (push_bit w 1 - 1 :: 8 word) i \<longleftrightarrow> i < w"
  by (auto simp: bit_simps simp flip: mask_eq_exp_minus_1)

lemma misses_games: "misses_in_window h w = length (filter Not (take w (games_of h)))"
proof -
  let ?w = "min w 8"
  let ?m = "if ?w \<ge> 8 then 0xFF else push_bit ?w 1 - 1 :: 8 word"
  have m: "i < 8 \<Longrightarrow> bit ?m i \<longleftrightarrow> i < ?w" for i
    using games_of_default mask_bits [of ?w i]
    by (auto simp: games_of_def default_attendance_def map_replicate_const list_eq_iff_nth_eq)
  have split: "[0..<8] = [0..<?w] @ [?w..<8]"
    using upt_add_eq_append [of 0 ?w "8 - ?w"] by simp
  have low: "filter (bit (h AND ?m)) [0..<?w] = filter (bit h) [0..<?w]"
    by (rule filter_cong) (use m in \<open>simp_all only: bit_and_iff, auto\<close>)
  have high: "filter (bit (h AND ?m)) [?w..<8] = []"
    by (rule filter_False) (use m in \<open>simp only: bit_and_iff, auto\<close>)
  have "filter (bit (h AND ?m)) [0..<8] = filter (bit h) [0..<?w]"
    by (simp only: split filter_append low high append_Nil2)
  moreover have "length (filter (bit h) [0..<?w]) + length (filter (\<lambda>i. \<not> bit h i) [0..<?w]) = ?w"
    using sum_length_filter_compl [of "bit h" "[0..<?w]"] by simp
  moreover have "take w (games_of h) = map (bit h) [0..<?w]"
    by (simp add: games_of_def take_map take_upt min_def)
  ultimately show ?thesis
    by (simp add: misses_in_window_def count_ones_def Let_def filter_map comp_def)
qed

end
