(* ===== verification/Score.thy ===== *)
theory Score
  imports Score_Types
begin

text \<open>
  The pallet \<open>pallets/score/src/lib.rs\<close>: participants gain score by attending games and lose
  it by missing them; who reaches the threshold may register as a person, who misses too many
  games is suspended; score can be cashed out into points of the current round, which payout
  rounds turn into credit. Names that mob-rule has too carry the prefix \<open>Score\<close>.
\<close>

subsection \<open>Storage and configuration\<close>

definition MAX_PERSONHOOD_THRESHOLD :: nat where
  "MAX_PERSONHOOD_THRESHOLD = 21"

definition DefaultPersonhoodThresholdTiers :: "PersonhoodThresholdTier list" where
  "DefaultPersonhoodThresholdTiers =
     [\<lparr>pt_population = 5000, score_threshold = 1\<rparr>,
      \<lparr>pt_population = 10000, score_threshold = 3\<rparr>,
      \<lparr>pt_population = 20000, score_threshold = 6\<rparr>,
      \<lparr>pt_population = 35000, score_threshold = 10\<rparr>,
      \<lparr>pt_population = 50000, score_threshold = 15\<rparr>,
      \<lparr>pt_population = u32_max, score_threshold = MAX_PERSONHOOD_THRESHOLD\<rparr>]"

definition DefaultAbsenceGraceTiers :: "AbsenceGraceTier list" where
  "DefaultAbsenceGraceTiers =
     [\<lparr>ag_population = 5000, window = 6, allowed_misses = 5\<rparr>,
      \<lparr>ag_population = 10000, window = 5, allowed_misses = 4\<rparr>,
      \<lparr>ag_population = 20000, window = 4, allowed_misses = 3\<rparr>,
      \<lparr>ag_population = 35000, window = 3, allowed_misses = 2\<rparr>,
      \<lparr>ag_population = 50000, window = 2, allowed_misses = 1\<rparr>,
      \<lparr>ag_population = u32_max, window = 6, allowed_misses = 1\<rparr>]"

datatype ScoreHoldReason = Payout | Credit

datatype ScoreEvent =
    CreditClaimed AccountOrPerson account_id nat
  | PersonhoodRecognized AccountOrPerson bool
  | PayoutRoundsScheduled nat nat nat
  | PayoutScheduleRemoved nat
  | RoundTransitioned nat
  | PayoutRoundOperated nat
  | CashedOut AccountOrPerson
  | PersonhoodThresholdScheduleSet
  | AbsenceGraceScheduleSet

datatype ScoreError =
    NotPerson | HasNotReachedPersonhood | NoReward | NoScore | NoSchedule | TooManySchedules
  | ErrorRecognized | CashOutCooldown | RoundOnGoingOrNoSchedule | NoRound
  | BadOriginNotPersonNotSigned | BadOriginNotPersonNotSignedNotAccountParticipant
  | BadOriginNotSignedNotAccountParticipant | AlreadyParticipating | KeyMustBeProvided
  | KeyMustNotBeProvided | HasReachedPersonhood | InvalidProofOfOwnership | WindowTooLarge
  | AllowedMissesTooLarge | AbsenceScheduleNotSorted | PersonhoodScheduleEmpty
  | PersonhoodScoreThresholdZero | PersonhoodScoreThresholdTooLarge | PersonhoodScheduleNotSorted
  | PersonhoodScheduleNotMonotonic | PersonhoodScheduleNotTotal

text \<open>
  The storage of the pallet, with \<open>world\<close> for the state of the other pallets it calls (the
  currency, the people service, the account references of the system).
\<close>

record 'w score_state =
  Participants :: "(AccountOrPerson, Participant) storage"
  PersonhoodThreshold :: nat
  PersonhoodThresholdSchedule :: "PersonhoodThresholdTier list"
  AbsenceGraceSchedule :: "AbsenceGraceTier list"
  AbsenceGraceRatio :: "nat \<times> nat"
  CurrentRoundPoints :: nat
  CurrentRoundIndex :: nat
  RoundsPointsForParticipant :: "(nat \<times> AccountOrPerson, nat) storage"
  RoundPayouts :: "(nat, RoundPayout) storage"
  RoundPlanning :: "RoundInfo option"
  RoundSchedules :: "ScoreSchedule list"
  world :: 'w
  score_events :: "ScoreEvent list"

definition score_genesis :: "'w \<Rightarrow> 'w score_state" where
  "score_genesis w = \<lparr>
     Participants = [], PersonhoodThreshold = 0,
     PersonhoodThresholdSchedule = DefaultPersonhoodThresholdTiers,
     AbsenceGraceSchedule = DefaultAbsenceGraceTiers, AbsenceGraceRatio = (0, 0),
     CurrentRoundPoints = 0, CurrentRoundIndex = 0, RoundsPointsForParticipant = [],
     RoundPayouts = [], RoundPlanning = None, RoundSchedules = [], world = w, score_events = []\<rparr>"

text \<open>
  The configuration: what an origin is (none, signed, an \<open>AccountParticipant\<close>, a person in the
  score context, the manager or root), the clock and the number of active people at the time
  of the call, and the services of the \<open>Config\<close> trait over the world.
\<close>

record ('o, 'w, 'key, 'sig) score_config =
  is_none_origin :: "'o \<Rightarrow> bool"
  try_signed :: "'o \<Rightarrow> account_id option"
  try_account_participant :: "'o \<Rightarrow> account_id option"
  try_person :: "'o \<Rightarrow> person_alias option"
  is_manager_or_root :: "'o \<Rightarrow> bool"
  block_number :: nat
  active_count :: nat
  MaxPayoutRoundSchedules :: nat
  OffchainWorkInterval :: nat
  score_pot_id :: account_id
  Currency :: "(ScoreHoldReason, 'w) currency"
  reserve_new_id :: "'w \<Rightarrow> nat \<times> 'w"
  recognize_personhood :: "nat \<Rightarrow> 'key option \<Rightarrow> 'w \<Rightarrow> string + 'w"
  suspend_personhood :: "nat list \<Rightarrow> 'w \<Rightarrow> (string + unit) \<times> 'w"
  start_people_set_mutation_session :: "'w \<Rightarrow> (string + unit) \<times> 'w"
  end_people_set_mutation_session :: "'w \<Rightarrow> (string + unit) \<times> 'w"
  can_start_people_set_mutation_session :: "'w \<Rightarrow> bool"
  inc_sufficients :: "account_id \<Rightarrow> 'w \<Rightarrow> 'w"
  dec_sufficients :: "account_id \<Rightarrow> 'w \<Rightarrow> 'w"
  verify_signature :: "'sig \<Rightarrow> bytes \<Rightarrow> 'key \<Rightarrow> bool"

type_synonym 'a score_result = "ScoreError dispatch_error + 'a"

definition score_deposit :: "ScoreEvent \<Rightarrow> 'w score_state \<Rightarrow> 'w score_state" where
  "score_deposit e s = s\<lparr>score_events := score_events s @ [e]\<rparr>"

definition get_round_points :: "'w score_state \<Rightarrow> nat \<Rightarrow> AccountOrPerson \<Rightarrow> nat" where
  "get_round_points s r who = unwrap_or_default (sget (RoundsPointsForParticipant s) (r, who))"

subsection \<open>Validation of the schedules\<close>

text \<open>The loop carries \<open>prev_pop\<close> and \<open>prev_score\<close>.\<close>

fun validate_personhood_loop :: "PersonhoodThresholdTier list \<Rightarrow> nat \<Rightarrow> nat \<Rightarrow> ScoreError + unit" where
  "validate_personhood_loop [] prev_pop prev_score =
     ensure (prev_pop = u32_max) PersonhoodScheduleNotTotal (Inr ())"
| "validate_personhood_loop (tier # tiers) prev_pop prev_score =
     ensure (score_threshold tier > 0) PersonhoodScoreThresholdZero (
     ensure (score_threshold tier \<le> MAX_PERSONHOOD_THRESHOLD) PersonhoodScoreThresholdTooLarge (
     ensure (pt_population tier \<ge> prev_pop) PersonhoodScheduleNotSorted (
     ensure (score_threshold tier \<ge> prev_score) PersonhoodScheduleNotMonotonic (
     validate_personhood_loop tiers (pt_population tier) (score_threshold tier)))))"

definition validate_personhood_threshold_tiers :: "PersonhoodThresholdTier list \<Rightarrow> ScoreError + unit" where
  "validate_personhood_threshold_tiers tiers =
     ensure (tiers \<noteq> []) PersonhoodScheduleEmpty (validate_personhood_loop tiers 0 0)"

fun validate_absence_loop :: "AbsenceGraceTier list \<Rightarrow> nat \<Rightarrow> ScoreError + unit" where
  "validate_absence_loop [] prev_threshold = Inr ()"
| "validate_absence_loop (tier # tiers) prev_threshold =
     ensure (window tier \<le> 8) WindowTooLarge (
     ensure (allowed_misses tier < window tier \<or> (window tier = 0 \<and> allowed_misses tier = 0))
       AllowedMissesTooLarge (
     ensure (ag_population tier \<ge> prev_threshold) AbsenceScheduleNotSorted (
     validate_absence_loop tiers (ag_population tier))))"

definition validate_absence_grace_tiers :: "AbsenceGraceTier list \<Rightarrow> ScoreError + unit" where
  "validate_absence_grace_tiers tiers = validate_absence_loop tiers 0"

definition calculate_personhood_threshold :: "PersonhoodThresholdTier list \<Rightarrow> nat \<Rightarrow> nat" where
  "calculate_personhood_threshold schedule active =
     (case find (\<lambda>t. active \<le> pt_population t) schedule of
        Some t \<Rightarrow> score_threshold t
      | None \<Rightarrow> MAX_PERSONHOOD_THRESHOLD)"

definition calculate_absence_grace_ratio :: "AbsenceGraceTier list \<Rightarrow> nat \<Rightarrow> nat \<times> nat" where
  "calculate_absence_grace_ratio tiers active =
     (if tiers = [] then (0, 0)
      else
        let tier = (case find (\<lambda>t. active \<le> ag_population t) tiers of
                      Some t \<Rightarrow> t
                    | None \<Rightarrow> last tiers)
        in (allowed_misses tier, window tier))"

definition update_thresholds ::
  "('o, 'w, 'key, 'sig) score_config \<Rightarrow> 'w score_state \<Rightarrow> 'w score_state" where
  "update_thresholds cfg s =
     s\<lparr>PersonhoodThreshold :=
         calculate_personhood_threshold (PersonhoodThresholdSchedule s) (active_count cfg),
       AbsenceGraceRatio :=
         calculate_absence_grace_ratio (AbsenceGraceSchedule s) (active_count cfg)\<rparr>"

subsection \<open>Origins\<close>

definition ensure_signed_or_person ::
  "('o, 'w, 'key, 'sig) score_config \<Rightarrow> 'o \<Rightarrow> AccountOrPerson score_result" where
  "ensure_signed_or_person cfg origin =
     (case try_signed cfg origin of
        Some a \<Rightarrow> Inr (Account a)
      | None \<Rightarrow> ok_or (try_person cfg origin) (Module BadOriginNotPersonNotSigned) (\<lambda>p. Inr (Person p)))"

definition ensure_signed_or_participant ::
  "('o, 'w, 'key, 'sig) score_config \<Rightarrow> 'o \<Rightarrow> account_id score_result" where
  "ensure_signed_or_participant cfg origin =
     (case try_signed cfg origin of
        Some a \<Rightarrow> Inr a
      | None \<Rightarrow> ok_or (try_account_participant cfg origin)
                  (Module BadOriginNotSignedNotAccountParticipant) Inr)"

definition ensure_signed_or_participant_or_person ::
  "('o, 'w, 'key, 'sig) score_config \<Rightarrow> 'o \<Rightarrow> AccountOrPerson score_result" where
  "ensure_signed_or_participant_or_person cfg origin =
     (case try_person cfg origin of
        Some p \<Rightarrow> Inr (Person p)
      | None \<Rightarrow> map_err (\<lambda>_. Module BadOriginNotPersonNotSignedNotAccountParticipant)
                  (on_ok (ensure_signed_or_participant cfg origin) (\<lambda>a. Inr (Account a))))"

definition score_ensure_person ::
  "('o, 'w, 'key, 'sig) score_config \<Rightarrow> 'o \<Rightarrow> person_alias score_result" where
  "score_ensure_person cfg origin = ok_or (try_person cfg origin) BadOrigin Inr"

subsection \<open>Payout rounds\<close>

definition score_schedule_payout_rounds ::
  "('o, 'w, 'key, 'sig) score_config \<Rightarrow> 'o \<Rightarrow> nat \<Rightarrow> nat \<Rightarrow> nat \<Rightarrow> 'w score_state \<Rightarrow>
   ('w score_state \<times> pays) score_result" where
  "score_schedule_payout_rounds cfg origin amount n dur s0 =
     ensure (is_manager_or_root cfg origin) BadOrigin (
     on_ok (map_err External
             (cur_hold (Currency cfg) Payout (score_pot_id cfg) (sat_mul u128_max amount n)
                (world s0))) (\<lambda>w1.
     ensure (length (RoundSchedules s0) < MaxPayoutRoundSchedules cfg) (Module TooManySchedules) (
     let s1 = s0\<lparr>world := w1,
                RoundSchedules :=
                  RoundSchedules s0 @ [\<lparr>remaining = n, amount_per_round = amount, duration = dur\<rparr>]\<rparr>
     in Inr (score_deposit (PayoutRoundsScheduled amount n dur) s1, PaysNo))))"

definition score_remove_payout_schedule ::
  "('o, 'w, 'key, 'sig) score_config \<Rightarrow> 'o \<Rightarrow> nat \<Rightarrow> 'w score_state \<Rightarrow>
   ('w score_state \<times> pays) score_result" where
  "score_remove_payout_schedule cfg origin index s0 =
     ensure (is_manager_or_root cfg origin) BadOrigin (
     ensure (index < length (RoundSchedules s0)) (Module NoSchedule) (
     let sched = RoundSchedules s0 ! index;
         rest = take index (RoundSchedules s0) @ drop (Suc index) (RoundSchedules s0);
         amount_to_release = sat_mul u128_max (amount_per_round sched) (remaining sched)
     in on_ok (map_err External
                (cur_release (Currency cfg) Payout (score_pot_id cfg) amount_to_release
                   BestEffort (world s0))) (\<lambda>(_, w1).
        Inr (score_deposit (PayoutScheduleRemoved index)
               (s0\<lparr>world := w1, RoundSchedules := rest\<rparr>), PaysNo))))"

definition validate_transition_round ::
  "('o, 'w, 'key, 'sig) score_config \<Rightarrow> nat \<Rightarrow> 'w score_state \<Rightarrow> bool" where
  "validate_transition_round cfg round_index s =
     (round_index = CurrentRoundIndex s \<and>
      (let end_current_round =
             (case RoundPlanning s of None \<Rightarrow> False | Some r \<Rightarrow> block_number cfg \<ge> finish_at r);
           schedule_exists =
             (case RoundSchedules s of [] \<Rightarrow> False | x # _ \<Rightarrow> remaining x > 0);
           start_new_round_planning = (RoundPlanning s = None \<and> schedule_exists)
       in end_current_round \<or> start_new_round_planning))"

definition validate_operate_payout_round :: "nat \<Rightarrow> 'w score_state \<Rightarrow> RoundPayout option" where
  "validate_operate_payout_round round_index s = sget (RoundPayouts s) round_index"

text \<open>
  The two halves of \<open>transition_round\<close>: the planned round, if any, moves to payout, then the
  first schedule plans the next. The index is incremented in the width of \<open>u32\<close>.
\<close>

definition finish_current_round :: "'w score_state \<Rightarrow> 'w score_state" where
  "finish_current_round s0 =
     (case RoundPlanning s0 of
        None \<Rightarrow> s0
      | Some current_round \<Rightarrow>
          let points = CurrentRoundPoints s0;
              index = CurrentRoundIndex s0;
              crd = round_credit current_round;
              price = unwrap_or_default (checked_div crd points);
              total_from_point_price = sat_mul u128_max price points;
              rest = crd - total_from_point_price
          in s0\<lparr>RoundPlanning := None, CurrentRoundPoints := 0,
                RoundPayouts :=
                  sput index \<lparr>remaining_balance = crd, point_price = price, remainder = rest,
                              total_points = points\<rparr> (RoundPayouts s0),
                CurrentRoundIndex := (index + 1) mod 4294967296\<rparr>)"

definition plan_next_round ::
  "('o, 'w, 'key, 'sig) score_config \<Rightarrow> 'w score_state \<Rightarrow> 'w score_state" where
  "plan_next_round cfg s =
     (case RoundSchedules s of
        [] \<Rightarrow> s
      | first_schedule # later \<Rightarrow>
          let first' = first_schedule\<lparr>remaining := remaining first_schedule - 1\<rparr>
          in s\<lparr>RoundPlanning :=
                 Some \<lparr>finish_at = sat_add u32_max (block_number cfg) (duration first'),
                       round_credit = amount_per_round first'\<rparr>,
               RoundSchedules := (if remaining first' = 0 then later else first' # later)\<rparr>)"

definition transition_round ::
  "('o, 'w, 'key, 'sig) score_config \<Rightarrow> 'o \<Rightarrow> nat \<Rightarrow> 'w score_state \<Rightarrow> 'w score_state score_result" where
  "transition_round cfg origin round_index s =
     ensure (is_none_origin cfg origin) BadOrigin (
     ensure (validate_transition_round cfg round_index s) (Module RoundOnGoingOrNoSchedule) (
     Inr (score_deposit (RoundTransitioned round_index) (plan_next_round cfg (finish_current_round s)))))"

text \<open>
  The loop of \<open>operate_payout_round\<close>: up to \<open>limit\<close> entries of the round are drained in storage
  order; the flag says that the drain came to its end.
\<close>

fun next_in_round :: "nat \<Rightarrow> (nat \<times> AccountOrPerson, nat) storage \<Rightarrow> (AccountOrPerson \<times> nat) option" where
  "next_in_round r [] = None"
| "next_in_round r (((r', who), points) # rest) =
     (if r' = r then Some (who, points) else next_in_round r rest)"

definition reward_of :: "RoundPayout \<Rightarrow> nat \<Rightarrow> nat" where
  "reward_of rnd points =
     (let base_reward = sat_mul u128_max (point_price rnd) points;
          remainder_portion =
            unwrap_or_default (checked_div (sat_mul u128_max (remainder rnd) points) (total_points rnd))
      in sat_add u128_max base_reward remainder_portion)"

fun drain_loop ::
  "nat \<Rightarrow> RoundPayout \<Rightarrow> nat \<Rightarrow> nat \<Rightarrow> 'w score_state \<Rightarrow> nat \<times> bool \<times> 'w score_state" where
  "drain_loop r rnd 0 credited_in_op s = (credited_in_op, False, s)"
| "drain_loop r rnd (Suc n) credited_in_op s =
     (case next_in_round r (RoundsPointsForParticipant s) of
        None \<Rightarrow> (credited_in_op, True, s)
      | Some (who, points) \<Rightarrow>
          let s1 = s\<lparr>RoundsPointsForParticipant := sdel (r, who) (RoundsPointsForParticipant s)\<rparr>
          in (case sget (Participants s1) who of
                None \<Rightarrow> drain_loop r rnd n credited_in_op s1
              | Some p \<Rightarrow>
                  let credited = reward_of rnd points
                  in drain_loop r rnd n (sat_add u128_max credited_in_op credited)
                       (s1\<lparr>Participants :=
                          sput who (p\<lparr>credit := sat_add u128_max (credit p) credited\<rparr>)
                            (Participants s1)\<rparr>)))"

text \<open>The closure run in its own storage layer.\<close>

definition operate_in_layer ::
  "('o, 'w, 'key, 'sig) score_config \<Rightarrow> nat \<Rightarrow> RoundPayout \<Rightarrow> nat \<Rightarrow> 'w score_state \<Rightarrow>
   string + 'w score_state" where
  "operate_in_layer cfg round_index rnd limit s0 =
     (let (credited_in_op, no_more_points, s1) = drain_loop round_index rnd limit 0 s0;
          pot = score_pot_id cfg
      in on_ok (cur_release (Currency cfg) Payout pot credited_in_op Exact (world s1))
           (\<lambda>(released, w1).
         on_ok (cur_hold (Currency cfg) Credit pot released w1) (\<lambda>w2.
         let rnd' = rnd\<lparr>remaining_balance :=
                      unwrap_or_default (checked_sub (remaining_balance rnd) credited_in_op)\<rparr>
         in if no_more_points
            then on_ok (cur_release (Currency cfg) Payout pot (remaining_balance rnd') Exact w2)
                   (\<lambda>(_, w3).
                 Inr (s1\<lparr>world := w3, RoundPayouts := sdel round_index (RoundPayouts s1)\<rparr>))
            else Inr (s1\<lparr>world := w2, RoundPayouts := sput round_index rnd' (RoundPayouts s1)\<rparr>))))"

definition operate_payout_round ::
  "('o, 'w, 'key, 'sig) score_config \<Rightarrow> 'o \<Rightarrow> nat \<Rightarrow> nat \<Rightarrow> 'w score_state \<Rightarrow>
   'w score_state score_result" where
  "operate_payout_round cfg origin round_index limit s =
     ensure (is_none_origin cfg origin) BadOrigin (
     ok_or (validate_operate_payout_round round_index s) (Module NoRound) (\<lambda>rnd.
     (case operate_in_layer cfg round_index rnd limit s of
        Inr s' \<Rightarrow> Inr (score_deposit (PayoutRoundOperated round_index) s')
      | Inl _ \<Rightarrow> Inr (s\<lparr>RoundPayouts := sdel round_index (RoundPayouts s)\<rparr>))))"

subsection \<open>Cashing out, redeeming and registering\<close>

definition award_participant_payout_points :: "AccountOrPerson \<Rightarrow> nat \<Rightarrow> 'w score_state \<Rightarrow> 'w score_state" where
  "award_participant_payout_points who points s =
     (if points = 0 then s
      else
        let round_index = CurrentRoundIndex s
        in (case checked_add u32_max (CurrentRoundPoints s) points of
              Some new_round_points \<Rightarrow>
                s\<lparr>RoundsPointsForParticipant :=
                    sput (round_index, who) (sat_add u32_max (get_round_points s round_index who) points)
                      (RoundsPointsForParticipant s),
                  CurrentRoundPoints := new_round_points\<rparr>
            | None \<Rightarrow> s))"

definition cash_out ::
  "('o, 'w, 'key, 'sig) score_config \<Rightarrow> 'o \<Rightarrow> 'w score_state \<Rightarrow> ('w score_state \<times> pays) score_result" where
  "cash_out cfg origin s0 =
     on_ok (ensure_signed_or_participant cfg origin) (\<lambda>acc.
     let who = Account acc
     in ok_or (sget (Participants s0) who) (Module NoScore) (\<lambda>p0.
        ensure (\<not> has_ever_reached_personhood p0) (Module HasReachedPersonhood) (
        ensure (\<not> cashed_out p0) (Module CashOutCooldown) (
        let reduction = sat_add u32_max (score p0) 1 div 2;
            p1 = p0\<lparr>score := score p0 - reduction, streak := reset_attendance (streak p0),
                    cashed_out := True\<rparr>;
            s1 = award_participant_payout_points who reduction s0;
            s2 = s1\<lparr>Participants := sput who p1 (Participants s1)\<rparr>
        in Inr (score_deposit (CashedOut who) s2, PaysNo)))))"

definition redeem_credit ::
  "('o, 'w, 'key, 'sig) score_config \<Rightarrow> 'o \<Rightarrow> account_id \<Rightarrow> 'w score_state \<Rightarrow>
   ('w score_state \<times> pays) score_result" where
  "redeem_credit cfg origin destination s0 =
     on_ok (ensure_signed_or_participant_or_person cfg origin) (\<lambda>who.
     ok_or (sget (Participants s0) who) (Module NoScore) (\<lambda>p0.
     let pot = score_pot_id cfg; payout_amount = credit p0
     in ensure (payout_amount \<noteq> 0) (Module NoReward) (
        on_ok (map_err External
                (cur_release (Currency cfg) Credit pot payout_amount Exact (world s0)))
          (\<lambda>(released, w1).
        on_ok (map_err External (cur_transfer (Currency cfg) pot destination released Expendable w1))
          (\<lambda>(transferred, w2).
        let s1 = s0\<lparr>world := w2, Participants := sput who (p0\<lparr>credit := 0\<rparr>) (Participants s0)\<rparr>
        in Inr (score_deposit (CreditClaimed who destination transferred) s1, PaysNo))))))"

text \<open>The bytes of \<open>"pop register using"\<close>; an \<open>AccountId\<close> encodes to its own bytes.\<close>

definition register_prefix :: bytes where
  "register_prefix =
     [112, 111, 112, 32, 114, 101, 103, 105, 115, 116, 101, 114, 32, 117, 115, 105, 110, 103]"

definition register ::
  "('o, 'w, 'key, 'sig) score_config \<Rightarrow> 'o \<Rightarrow> ('key \<times> 'sig) option \<Rightarrow> 'w score_state \<Rightarrow>
   ('w score_state \<times> pays) score_result" where
  "register cfg origin key s0 =
     on_ok (ensure_signed_or_participant cfg origin) (\<lambda>acc.
     let who = Account acc
     in ok_or (sget (Participants s0) who) (Module NoScore) (\<lambda>p0.
        ensure (reached_personhood p0 \<or> score p0 \<ge> PersonhoodThreshold s0)
          (Module HasNotReachedPersonhood) (
        on_ok (case recognition p0 of
                 Suspended i \<Rightarrow>
                   ensure (key = None) (Module KeyMustNotBeProvided) (
                   on_ok (map_err External (recognize_personhood cfg i None (world s0))) (\<lambda>w1.
                   Inr (i, True, w1)))
               | NotRecognized \<Rightarrow>
                   ok_or key (Module KeyMustBeProvided) (\<lambda>(member_key, proof_of_ownership).
                   ensure (verify_signature cfg proof_of_ownership (register_prefix @ acc) member_key)
                     (Module InvalidProofOfOwnership) (
                   let (i, w1) = reserve_new_id cfg (world s0)
                   in on_ok (map_err External (recognize_personhood cfg i (Some member_key) w1)) (\<lambda>w2.
                      Inr (i, False, w2))))
               | ExternallyRecognized \<Rightarrow> Inl (Module ErrorRecognized)
               | Recognized _ \<Rightarrow> Inl (Module ErrorRecognized))
          (\<lambda>(i, resumed, w').
        let p1 = p0\<lparr>recognition := Recognized i, reached_personhood := True,
                    has_ever_reached_personhood := True\<rparr>;
            s1 = s0\<lparr>world := w', Participants := sput who p1 (Participants s0)\<rparr>
        in Inr (score_deposit (PersonhoodRecognized who resumed) s1, PaysNo)))))"

definition set_absence_grace_schedule ::
  "('o, 'w, 'key, 'sig) score_config \<Rightarrow> 'o \<Rightarrow> AbsenceGraceTier list \<Rightarrow> 'w score_state \<Rightarrow>
   ('w score_state \<times> pays) score_result" where
  "set_absence_grace_schedule cfg origin schedule s =
     ensure (is_manager_or_root cfg origin) BadOrigin (
     on_ok (map_err Module (validate_absence_grace_tiers schedule)) (\<lambda>_.
     Inr (score_deposit AbsenceGraceScheduleSet (s\<lparr>AbsenceGraceSchedule := schedule\<rparr>), PaysNo)))"

definition set_personhood_threshold_schedule ::
  "('o, 'w, 'key, 'sig) score_config \<Rightarrow> 'o \<Rightarrow> PersonhoodThresholdTier list \<Rightarrow> 'w score_state \<Rightarrow>
   ('w score_state \<times> pays) score_result" where
  "set_personhood_threshold_schedule cfg origin schedule s =
     ensure (is_manager_or_root cfg origin) BadOrigin (
     on_ok (map_err Module (validate_personhood_threshold_tiers schedule)) (\<lambda>_.
     Inr (score_deposit PersonhoodThresholdScheduleSet
            (s\<lparr>PersonhoodThresholdSchedule := schedule\<rparr>), PaysNo)))"

subsection \<open>The interface of the games\<close>

definition can_onboard_for_recognition :: "account_id \<Rightarrow> 'w score_state \<Rightarrow> unit score_result" where
  "can_onboard_for_recognition who s =
     ensure (\<not> scontains (Participants s) (Account who)) (Module AlreadyParticipating) (Inr ())"

definition new_participant :: "nat \<Rightarrow> bool \<Rightarrow> Recognition \<Rightarrow> Participant" where
  "new_participant sc reached rec =
     \<lparr>score = sc, streak = default_streak, attendance_history = default_attendance, credit = 0,
      cashed_out = False, reached_personhood = reached, has_ever_reached_personhood = reached,
      recognition = rec, last_attended_game = None\<rparr>"

definition onboard_for_recognition ::
  "('o, 'w, 'key, 'sig) score_config \<Rightarrow> account_id \<Rightarrow> 'w score_state \<Rightarrow> 'w score_state score_result" where
  "onboard_for_recognition cfg who s =
     on_ok (can_onboard_for_recognition who s) (\<lambda>_.
     Inr (s\<lparr>world := inc_sufficients cfg who (world s),
           Participants := sput (Account who) (new_participant 0 False NotRecognized) (Participants s)\<rparr>))"

definition onboard_externally_recognized :: "person_alias \<Rightarrow> 'w score_state \<Rightarrow> 'w score_state score_result" where
  "onboard_externally_recognized who s =
     ensure (\<not> scontains (Participants s) (Person who)) (Module AlreadyParticipating) (
     Inr (s\<lparr>Participants :=
             sput (Person who) (new_participant (PersonhoodThreshold s) True ExternallyRecognized)
               (Participants s)\<rparr>))"

definition offboard ::
  "('o, 'w, 'key, 'sig) score_config \<Rightarrow> AccountOrPerson \<Rightarrow> 'w score_state \<Rightarrow> 'w score_state" where
  "offboard cfg who s =
     (let s1 = (case who of
                  Account a \<Rightarrow> s\<lparr>world := dec_sufficients cfg a (world s)\<rparr>
                | Person _ \<Rightarrow> s)
      in s1\<lparr>Participants := sdel who (Participants s1)\<rparr>)"

definition start_attendance_report_session ::
  "('o, 'w, 'key, 'sig) score_config \<Rightarrow> 'w score_state \<Rightarrow> (string + unit) \<times> 'w score_state" where
  "start_attendance_report_session cfg s =
     (let s1 = update_thresholds cfg s;
          (res, w) = start_people_set_mutation_session cfg (world s1)
      in (res, s1\<lparr>world := w\<rparr>))"

definition end_attendance_report_session ::
  "('o, 'w, 'key, 'sig) score_config \<Rightarrow> 'w score_state \<Rightarrow> (string + unit) \<times> 'w score_state" where
  "end_attendance_report_session cfg s =
     (let (res, w) = end_people_set_mutation_session cfg (world s) in (res, s\<lparr>world := w\<rparr>))"

definition can_start_attendance_report_session ::
  "('o, 'w, 'key, 'sig) score_config \<Rightarrow> 'w score_state \<Rightarrow> bool" where
  "can_start_attendance_report_session cfg s = can_start_people_set_mutation_session cfg (world s)"

definition has_reached_personhood :: "AccountOrPerson \<Rightarrow> 'w score_state \<Rightarrow> bool" where
  "has_reached_personhood who s =
     (case sget (Participants s) who of None \<Rightarrow> False | Some p \<Rightarrow> reached_personhood p)"

text \<open>Score and streak after an attendance or an absence, and the suspension rule.\<close>

definition attendance_score :: "nat \<Rightarrow> bool \<Rightarrow> nat \<Rightarrow> Participant \<Rightarrow> Participant" where
  "attendance_score threshold attended game_index p0 =
     (let p1 = (if is_externally_recognized (recognition p0) then p0\<lparr>score := threshold\<rparr> else p0);
          p2 = (if attended then p1\<lparr>last_attended_game := Some game_index\<rparr> else p1);
          p3 = (if attended
                then let st = add_attendance (streak p2) 1;
                         uncapped_score = sat_add u32_max (score p2) (attendance st)
                     in p2\<lparr>streak := st, score := min uncapped_score MAX_PERSONHOOD_THRESHOLD\<rparr>
                else let st = add_absence (streak p2) 1
                     in if \<not> is_externally_recognized (recognition p2)
                        then p2\<lparr>streak := st, score := score p2 - absence st\<rparr>
                        else p2\<lparr>streak := st\<rparr>)
      in p3\<lparr>attendance_history := store_attendance (attendance_history p3) attended\<rparr>)"

definition suspends :: "nat \<Rightarrow> nat \<times> nat \<Rightarrow> bool \<Rightarrow> Participant \<Rightarrow> bool" where
  "suspends threshold ratio attended p =
     (let (allowed, win) = ratio;
          misses = misses_in_window (attendance_history p) win
      in \<not> attended \<and> reached_personhood p \<and>
         (case recognition p of
            ExternallyRecognized \<Rightarrow> False
          | Suspended _ \<Rightarrow> False
          | Recognized _ \<Rightarrow> win = 0 \<or> misses > allowed
          | NotRecognized \<Rightarrow> win = 0 \<or> misses > allowed \<or> score p < threshold))"

definition set_attendance ::
  "('o, 'w, 'key, 'sig) score_config \<Rightarrow> AccountOrPerson \<Rightarrow> bool \<Rightarrow> nat \<Rightarrow> 'w score_state \<Rightarrow>
   (Participant \<times> 'w score_state) score_result" where
  "set_attendance cfg who attended game_index s0 =
     ok_or (sget (Participants s0) who) (Module NoScore) (\<lambda>p0.
     let threshold = PersonhoodThreshold s0;
         p1 = attendance_score threshold attended game_index p0;
         acquire = (\<not> reached_personhood p1 \<and> score p1 \<ge> threshold);
         suspend = suspends threshold (AbsenceGraceRatio s0) attended p1;
         p2 = p1\<lparr>reached_personhood :=
                 (if acquire then True else if suspend then False else reached_personhood p1)\<rparr>;
         p3 = p2\<lparr>has_ever_reached_personhood :=
                 (has_ever_reached_personhood p2 \<or> reached_personhood p2), cashed_out := False\<rparr>;
         (p4, w4) =
           (case recognition p3 of
              Recognized i \<Rightarrow>
                if suspend
                then (p3\<lparr>recognition := Suspended i\<rparr>, snd (suspend_personhood cfg [i] (world s0)))
                else (p3, world s0)
            | _ \<Rightarrow> (p3, world s0))
     in Inr (p4, s0\<lparr>world := w4, Participants := sput who p4 (Participants s0)\<rparr>))"

subsection \<open>Unsigned transactions, the offchain worker and the transaction extension\<close>

datatype ScoreCall =
    CallTransitionRound nat
  | CallOperatePayoutRound nat nat
  | OtherScoreCall

datatype ScoreInvalid = InvalidCall | Future | Stale | Custom nat

definition CUSTOM_ERROR_FAR_FUTURE :: nat where
  "CUSTOM_ERROR_FAR_FUTURE = 87"

definition score_validate_unsigned ::
  "('o, 'w, 'key, 'sig) score_config \<Rightarrow> ScoreCall \<Rightarrow> 'w score_state \<Rightarrow> ScoreInvalid + (string \<times> nat)" where
  "score_validate_unsigned cfg call s =
     (let current = CurrentRoundIndex s in
      case call of
        CallTransitionRound round_index \<Rightarrow>
          if validate_transition_round cfg round_index s
          then Inr (''TransitionRound'', round_index)
          else if round_index = sat_add u32_max current 1 \<or> round_index = current then Inl Future
          else if round_index > current then Inl (Custom CUSTOM_ERROR_FAR_FUTURE)
          else Inl Stale
      | CallOperatePayoutRound round_index limit \<Rightarrow>
          if validate_operate_payout_round round_index s \<noteq> None
          then Inr (''PayoutRound'', round_index)
          else if round_index = current then Inl Future
          else if round_index > current then Inl (Custom CUSTOM_ERROR_FAR_FUTURE)
          else Inl Stale
      | OtherScoreCall \<Rightarrow> Inl InvalidCall)"

definition score_offchain_worker ::
  "('o, 'w, 'key, 'sig) score_config \<Rightarrow> nat \<Rightarrow> 'w score_state \<Rightarrow> ScoreCall list" where
  "score_offchain_worker cfg block s =
     (let interval = OffchainWorkInterval cfg
      in if interval = 0 \<or> block mod interval \<noteq> 0 then []
         else
           (let current = CurrentRoundIndex s
            in if validate_transition_round cfg current s then [CallTransitionRound current] else []) @
           [CallOperatePayoutRound r 1000. (r, _) \<leftarrow> RoundPayouts s,
              validate_operate_payout_round r s \<noteq> None])"

text \<open>
  \<open>ScoreAsParticipant\<close> of \<open>extension.rs\<close>: with a nonce, a signed participant is validated and
  its origin becomes \<open>AccountParticipant\<close>; without one the origin passes unchanged. The nonce
  checks of the system pallet are the parameters \<open>validate_nonce\<close> and \<open>prepare_nonce\<close>.
\<close>

datatype ScoreAsParticipantVal = UseAsParticipant account_id | NoVal

definition as_participant_validate ::
  "('o, 'w, 'key, 'sig) score_config \<Rightarrow> (account_id \<Rightarrow> 'o) \<Rightarrow>
   (account_id \<Rightarrow> 'n \<Rightarrow> 'w \<Rightarrow> ScoreInvalid + 'v) \<Rightarrow> 'n option \<Rightarrow> 'o \<Rightarrow> 'w score_state \<Rightarrow>
   ScoreInvalid + ('v option \<times> ScoreAsParticipantVal \<times> 'o)" where
  "as_participant_validate cfg account_participant validate_nonce data origin s =
     (case data of
        Some nonce \<Rightarrow>
          ok_or (try_signed cfg origin) InvalidCall (\<lambda>who.
          ensure (scontains (Participants s) (Account who)) InvalidCall (
          on_ok (validate_nonce who nonce (world s)) (\<lambda>validity.
          Inr (Some validity, UseAsParticipant who, account_participant who))))
      | None \<Rightarrow> Inr (None, NoVal, origin))"

definition as_participant_prepare ::
  "(account_id \<Rightarrow> 'n \<Rightarrow> 'w \<Rightarrow> ScoreInvalid + 'w) \<Rightarrow> 'n option \<Rightarrow> ScoreAsParticipantVal \<Rightarrow>
   'w score_state \<Rightarrow> ScoreInvalid + 'w score_state" where
  "as_participant_prepare prepare_nonce data val s =
     (case val of
        UseAsParticipant account \<Rightarrow>
          ok_or data InvalidCall (\<lambda>nonce.
          on_ok (prepare_nonce account nonce (world s)) (\<lambda>w. Inr (s\<lparr>world := w\<rparr>)))
      | NoVal \<Rightarrow> Inr s)"

subsection \<open>All the entry points of the pallet\<close>

text \<open>
  The dispatchables and the operations the games call. A session whose start or end fails
  leaves an error to the caller, who rolls its storage back.
\<close>

datatype ('o, 'key, 'sig) score_call =
    DoSchedulePayoutRounds 'o nat nat nat
  | DoRemovePayoutSchedule 'o nat
  | DoTransitionRound 'o nat
  | DoOperatePayoutRound 'o nat nat
  | DoCashOut 'o
  | DoRedeemCredit 'o account_id
  | DoRegister 'o "('key \<times> 'sig) option"
  | DoSetAbsenceGraceSchedule 'o "AbsenceGraceTier list"
  | DoSetPersonhoodThresholdSchedule 'o "PersonhoodThresholdTier list"
  | DoOnboardForRecognition account_id
  | DoOnboardExternallyRecognized person_alias
  | DoOffboard AccountOrPerson
  | DoStartSession
  | DoEndSession
  | DoSetAttendance AccountOrPerson bool nat

definition session_result :: "(string + unit) \<times> 'w score_state \<Rightarrow> 'w score_state score_result" where
  "session_result r = (case fst r of Inl e \<Rightarrow> Inl (External e) | Inr _ \<Rightarrow> Inr (snd r))"

fun score_dispatch ::
  "('o, 'w, 'key, 'sig) score_config \<Rightarrow> ('o, 'key, 'sig) score_call \<Rightarrow> 'w score_state \<Rightarrow>
   'w score_state score_result" where
  "score_dispatch cfg (DoSchedulePayoutRounds org a n d) s =
     on_ok (score_schedule_payout_rounds cfg org a n d s) (\<lambda>(s', _). Inr s')"
| "score_dispatch cfg (DoRemovePayoutSchedule org i) s =
     on_ok (score_remove_payout_schedule cfg org i s) (\<lambda>(s', _). Inr s')"
| "score_dispatch cfg (DoTransitionRound org r) s = transition_round cfg org r s"
| "score_dispatch cfg (DoOperatePayoutRound org r limit) s = operate_payout_round cfg org r limit s"
| "score_dispatch cfg (DoCashOut org) s = on_ok (cash_out cfg org s) (\<lambda>(s', _). Inr s')"
| "score_dispatch cfg (DoRedeemCredit org d) s = on_ok (redeem_credit cfg org d s) (\<lambda>(s', _). Inr s')"
| "score_dispatch cfg (DoRegister org k) s = on_ok (register cfg org k s) (\<lambda>(s', _). Inr s')"
| "score_dispatch cfg (DoSetAbsenceGraceSchedule org ts) s =
     on_ok (set_absence_grace_schedule cfg org ts s) (\<lambda>(s', _). Inr s')"
| "score_dispatch cfg (DoSetPersonhoodThresholdSchedule org ts) s =
     on_ok (set_personhood_threshold_schedule cfg org ts s) (\<lambda>(s', _). Inr s')"
| "score_dispatch cfg (DoOnboardForRecognition a) s = onboard_for_recognition cfg a s"
| "score_dispatch cfg (DoOnboardExternallyRecognized p) s = onboard_externally_recognized p s"
| "score_dispatch cfg (DoOffboard who) s = Inr (offboard cfg who s)"
| "score_dispatch cfg DoStartSession s = session_result (start_attendance_report_session cfg s)"
| "score_dispatch cfg DoEndSession s = session_result (end_attendance_report_session cfg s)"
| "score_dispatch cfg (DoSetAttendance who b g) s =
     on_ok (set_attendance cfg who b g s) (\<lambda>(_, s'). Inr s')"

definition score_step ::
  "('o, 'w, 'key, 'sig) score_config \<times> ('o, 'key, 'sig) score_call \<Rightarrow> 'w score_state \<Rightarrow>
   'w score_state score_result" where
  "score_step x s = score_dispatch (fst x) (snd x) s"

end
