(* ===== verification/Score_People.thy ===== *)
theory Score_People
  imports Score
begin

text \<open>
  Participants of the score pallet: the schedules that pass validation are total and monotone,
  every entry point keeps the invariant of the participants, and recognition moves only along
  the edges of its state machine.
\<close>

subsection \<open>Validated schedules\<close>

lemma validate_personhood_loop_iff:
  "validate_personhood_loop ts pp ps = Inr () \<longleftrightarrow>
     (\<forall>t\<in>set ts. 0 < score_threshold t \<and> score_threshold t \<le> MAX_PERSONHOOD_THRESHOLD) \<and>
     sorted (pp # map pt_population ts) \<and> sorted (ps # map score_threshold ts) \<and>
     last (pp # map pt_population ts) = u32_max"
  by (induction ts arbitrary: pp ps) (auto intro: order_trans)

lemma validate_personhood_iff:
  "validate_personhood_threshold_tiers ts = Inr () \<longleftrightarrow>
     ts \<noteq> [] \<and> (\<forall>t\<in>set ts. 0 < score_threshold t \<and> score_threshold t \<le> MAX_PERSONHOOD_THRESHOLD) \<and>
     sorted (map pt_population ts) \<and> sorted (map score_threshold ts) \<and>
     pt_population (last ts) = u32_max"
  by (auto simp: validate_personhood_threshold_tiers_def validate_personhood_loop_iff last_map)

lemma validate_absence_iff:
  "validate_absence_grace_tiers ts = Inr () \<longleftrightarrow>
     (\<forall>t\<in>set ts. window t \<le> 8 \<and>
        (allowed_misses t < window t \<or> window t = 0 \<and> allowed_misses t = 0)) \<and>
     sorted (map ag_population ts)"
proof -
  have "validate_absence_loop ts pp = Inr () \<longleftrightarrow>
      (\<forall>t\<in>set ts. window t \<le> 8 \<and>
        (allowed_misses t < window t \<or> window t = 0 \<and> allowed_misses t = 0)) \<and>
      sorted (pp # map ag_population ts)" for pp
    by (induction ts arbitrary: pp) (auto intro: order_trans)
  then show ?thesis by (simp add: validate_absence_grace_tiers_def)
qed

lemma find_total:
  assumes "ts \<noteq> []" and "pt_population (last ts) = u32_max" and "n \<le> u32_max"
  obtains t where "find (\<lambda>t. n \<le> pt_population t) ts = Some t" and "t \<in> set ts"
proof (cases "find (\<lambda>t. n \<le> pt_population t) ts")
  case None
  then have "\<not> n \<le> pt_population (last ts)" using assms(1) by (auto simp: find_None_iff)
  then show ?thesis using assms(2,3) by simp
next
  case (Some t)
  then have "t \<in> set ts" by (auto simp: find_Some_iff)
  with Some show ?thesis by (rule that)
qed

lemma threshold_range:
  assumes "validate_personhood_threshold_tiers ts = Inr ()"
  shows "0 < calculate_personhood_threshold ts n"
    and "calculate_personhood_threshold ts n \<le> MAX_PERSONHOOD_THRESHOLD"
  using assms
  by (auto simp: calculate_personhood_threshold_def validate_personhood_iff MAX_PERSONHOOD_THRESHOLD_def
        find_Some_iff split: option.splits)

lemma find_sorted_mono:
  assumes "sorted (map pt_population ts)" and "sorted (map score_threshold ts)" and "m \<le> n"
    and "find (\<lambda>t. m \<le> pt_population t) ts = Some a" and "find (\<lambda>t. n \<le> pt_population t) ts = Some b"
  shows "score_threshold a \<le> score_threshold b"
  using assms
proof (induction ts)
  case (Cons t ts)
  show ?case
  proof (cases "n \<le> pt_population t")
    case True
    then show ?thesis using Cons.prems by auto
  next
    case False
    then have b: "find (\<lambda>t. n \<le> pt_population t) ts = Some b" using Cons.prems by simp
    then have "b \<in> set ts" by (auto simp: find_Some_iff)
    with b False Cons show ?thesis by (auto split: if_splits)
  qed
qed simp

lemma threshold_mono:
  assumes valid: "validate_personhood_threshold_tiers ts = Inr ()" and le: "m \<le> n" "n \<le> u32_max"
  shows "calculate_personhood_threshold ts m \<le> calculate_personhood_threshold ts n"
proof -
  have ts: "ts \<noteq> []" "pt_population (last ts) = u32_max" "sorted (map pt_population ts)"
    "sorted (map score_threshold ts)"
    using valid by (simp_all add: validate_personhood_iff)
  obtain a where a: "find (\<lambda>t. m \<le> pt_population t) ts = Some a"
    using find_total [OF ts(1,2) order_trans [OF le]] by metis
  obtain b where b: "find (\<lambda>t. n \<le> pt_population t) ts = Some b"
    using find_total [OF ts(1,2) le(2)] by metis
  from find_sorted_mono [OF ts(3,4) le(1) a b] a b show ?thesis
    by (simp add: calculate_personhood_threshold_def)
qed

definition ratio_ok :: "nat \<times> nat \<Rightarrow> bool" where
  "ratio_ok r \<longleftrightarrow> snd r \<le> 8 \<and> (fst r < snd r \<or> r = (0, 0))"

lemma grace_ratio_ok:
  assumes "validate_absence_grace_tiers ts = Inr ()"
  shows "ratio_ok (calculate_absence_grace_ratio ts n)"
proof (cases "ts = []")
  case False
  then have "last ts \<in> set ts" by simp
  moreover have "t \<in> set ts" if "find (\<lambda>t. n \<le> ag_population t) ts = Some t" for t
    using that by (auto simp: find_Some_iff)
  ultimately have "(case find (\<lambda>t. n \<le> ag_population t) ts of Some t \<Rightarrow> t | None \<Rightarrow> last ts) \<in> set ts"
    by (simp split: option.splits)
  with assms False show ?thesis
    by (auto simp: calculate_absence_grace_ratio_def ratio_ok_def validate_absence_iff Let_def)
qed (simp add: calculate_absence_grace_ratio_def ratio_ok_def)

lemma default_schedules_valid:
  "validate_personhood_threshold_tiers DefaultPersonhoodThresholdTiers = Inr ()"
  "validate_absence_grace_tiers DefaultAbsenceGraceTiers = Inr ()"
  by (simp_all add: validate_personhood_iff validate_absence_iff DefaultPersonhoodThresholdTiers_def
        DefaultAbsenceGraceTiers_def MAX_PERSONHOOD_THRESHOLD_def)

subsection \<open>The invariant of the participants\<close>

definition participant_ok :: "AccountOrPerson \<Rightarrow> Participant \<Rightarrow> bool" where
  "participant_ok who p \<longleftrightarrow>
     score p \<le> MAX_PERSONHOOD_THRESHOLD \<and>
     (reached_personhood p \<longrightarrow> has_ever_reached_personhood p) \<and>
     (is_recognized (recognition p) \<longrightarrow> reached_personhood p) \<and>
     (recognition p \<noteq> NotRecognized \<longrightarrow> has_ever_reached_personhood p) \<and>
     (recognition p = ExternallyRecognized \<longleftrightarrow> account_of who = None)"

definition thresholds_ok :: "'w score_state \<Rightarrow> bool" where
  "thresholds_ok s \<longleftrightarrow>
     PersonhoodThreshold s \<le> MAX_PERSONHOOD_THRESHOLD \<and> ratio_ok (AbsenceGraceRatio s) \<and>
     validate_personhood_threshold_tiers (PersonhoodThresholdSchedule s) = Inr () \<and>
     validate_absence_grace_tiers (AbsenceGraceSchedule s) = Inr ()"

definition people_inv :: "'w score_state \<Rightarrow> bool" where
  "people_inv s \<longleftrightarrow> thresholds_ok s \<and>
     (\<forall>who p. sget (Participants s) who = Some p \<longrightarrow> participant_ok who p)"

lemma score_deposit_sel [simp]:
  "Participants (score_deposit e s) = Participants s"
  "PersonhoodThreshold (score_deposit e s) = PersonhoodThreshold s"
  "PersonhoodThresholdSchedule (score_deposit e s) = PersonhoodThresholdSchedule s"
  "AbsenceGraceSchedule (score_deposit e s) = AbsenceGraceSchedule s"
  "AbsenceGraceRatio (score_deposit e s) = AbsenceGraceRatio s"
  "CurrentRoundPoints (score_deposit e s) = CurrentRoundPoints s"
  "CurrentRoundIndex (score_deposit e s) = CurrentRoundIndex s"
  "RoundsPointsForParticipant (score_deposit e s) = RoundsPointsForParticipant s"
  "RoundPayouts (score_deposit e s) = RoundPayouts s"
  "RoundPlanning (score_deposit e s) = RoundPlanning s"
  "RoundSchedules (score_deposit e s) = RoundSchedules s" "world (score_deposit e s) = world s"
  "score_events (score_deposit e s) = score_events s @ [e]"
  by (simp_all add: score_deposit_def)

definition same_thresholds :: "'w score_state \<Rightarrow> 'w score_state \<Rightarrow> bool" where
  "same_thresholds s s' \<longleftrightarrow>
     PersonhoodThreshold s' = PersonhoodThreshold s \<and> AbsenceGraceRatio s' = AbsenceGraceRatio s \<and>
     PersonhoodThresholdSchedule s' = PersonhoodThresholdSchedule s \<and>
     AbsenceGraceSchedule s' = AbsenceGraceSchedule s"

lemma people_inv_frame:
  assumes "people_inv s" and "same_thresholds s s'"
    and "\<And>who p. sget (Participants s') who = Some p \<Longrightarrow>
           sget (Participants s) who = Some p \<or> participant_ok who p"
  shows "people_inv s'"
  using assms unfolding people_inv_def thresholds_ok_def same_thresholds_def by metis

lemma people_invD: "people_inv s \<Longrightarrow> sget (Participants s) who = Some p \<Longrightarrow> participant_ok who p"
  by (simp add: people_inv_def)

subsection \<open>The entry points\<close>

lemma drain_loop_people:
  assumes "drain_loop r rnd n c s = (c', b, s')" and "people_inv s"
  shows "people_inv s' \<and> same_thresholds s s'"
  using assms
proof (induction n arbitrary: c s)
  case (Suc n)
  show ?case
  proof (cases "next_in_round r (RoundsPointsForParticipant s)")
    case None
    with Suc show ?thesis by (simp add: same_thresholds_def)
  next
    case (Some q)
    obtain who points where q: "q = (who, points)" by (cases q)
    let ?s1 = "s\<lparr>RoundsPointsForParticipant := sdel (r, who) (RoundsPointsForParticipant s)\<rparr>"
    have s1: "people_inv ?s1"
      by (rule people_inv_frame [OF Suc.prems(2)]) (simp_all add: same_thresholds_def)
    show ?thesis
    proof (cases "sget (Participants s) who")
      case None
      with Suc.IH [OF _ s1] Suc.prems(1) Some q show ?thesis by (auto simp: same_thresholds_def)
    next
      case p: (Some p)
      let ?p = "p\<lparr>credit := sat_add u128_max (credit p) (reward_of rnd points)\<rparr>"
      let ?s2 = "?s1\<lparr>Participants := sput who ?p (Participants s)\<rparr>"
      have "participant_ok who ?p"
        using people_invD [OF Suc.prems(2) p] by (simp add: participant_ok_def)
      then have "people_inv ?s2"
        by (intro people_inv_frame [OF s1]) (auto simp: same_thresholds_def split: if_splits)
      from Suc.IH [OF _ this] Suc.prems(1) Some q p show ?thesis
        by (auto simp: same_thresholds_def Let_def)
    qed
  qed
qed (simp add: same_thresholds_def)

lemma operate_people:
  assumes "people_inv s" and "operate_payout_round cfg org r limit s = Inr s'"
  shows "people_inv s'"
proof -
  from assms(2) obtain rnd where rnd: "sget (RoundPayouts s) r = Some rnd"
    by (auto simp: operate_payout_round_def validate_operate_payout_round_def)
  obtain c b s1 where loop: "drain_loop r rnd limit 0 s = (c, b, s1)" by (metis prod_cases3)
  have s1: "people_inv s1" using drain_loop_people [OF loop assms(1)] by simp
  show ?thesis
  proof (cases "operate_in_layer cfg r rnd limit s")
    case (Inl e)
    with assms(2) rnd show ?thesis
      by (intro people_inv_frame [OF assms(1)])
         (auto simp: operate_payout_round_def validate_operate_payout_round_def same_thresholds_def)
  next
    case (Inr s2)
    have "Participants s2 = Participants s1" "same_thresholds s1 s2"
      using Inr loop by (auto simp: operate_in_layer_def same_thresholds_def Let_def split: if_splits)
    with Inr assms(2) rnd show ?thesis
      by (intro people_inv_frame [OF s1])
         (auto simp: operate_payout_round_def validate_operate_payout_round_def same_thresholds_def)
  qed
qed

lemma attendance_score_same:
  "recognition (attendance_score t b g p) = recognition p"
  "reached_personhood (attendance_score t b g p) = reached_personhood p"
  "has_ever_reached_personhood (attendance_score t b g p) = has_ever_reached_personhood p"
  "credit (attendance_score t b g p) = credit p"
  "attendance_history (attendance_score t b g p) = store_attendance (attendance_history p) b"
  "score p \<le> MAX_PERSONHOOD_THRESHOLD \<Longrightarrow> t \<le> MAX_PERSONHOOD_THRESHOLD \<Longrightarrow>
   score (attendance_score t b g p) \<le> MAX_PERSONHOOD_THRESHOLD"
  by (auto simp: attendance_score_def Let_def)

lemma set_attendance_result:
  assumes "sget (Participants s) who = Some p0"
    and "set_attendance cfg who attended game s = Inr (p, s')"
  defines "p1 \<equiv> attendance_score (PersonhoodThreshold s) attended game p0"
  defines "susp \<equiv> suspends (PersonhoodThreshold s) (AbsenceGraceRatio s) attended p1"
  shows "Participants s' = sput who p (Participants s)" and "same_thresholds s s'"
    and "score p = score p1" and "credit p = credit p0" and "\<not> cashed_out p"
    and "reached_personhood p \<longleftrightarrow> (\<not> reached_personhood p0 \<and> score p1 \<ge> PersonhoodThreshold s) \<or>
           (reached_personhood p0 \<and> \<not> susp)"
    and "has_ever_reached_personhood p \<longleftrightarrow> has_ever_reached_personhood p0 \<or> reached_personhood p"
    and "recognition p = (case recognition p0 of Recognized i \<Rightarrow> if susp then Suspended i else Recognized i
           | r \<Rightarrow> r)"
    and "world s' = (case recognition p0 of
           Recognized i \<Rightarrow> if susp then snd (suspend_personhood cfg [i] (world s)) else world s
         | _ \<Rightarrow> world s)"
    and "attendance_history p = store_attendance (attendance_history p0) attended"
    and "CurrentRoundPoints s' = CurrentRoundPoints s"
    and "CurrentRoundIndex s' = CurrentRoundIndex s"
    and "RoundsPointsForParticipant s' = RoundsPointsForParticipant s"
    and "RoundPayouts s' = RoundPayouts s" and "RoundPlanning s' = RoundPlanning s"
    and "RoundSchedules s' = RoundSchedules s"
proof -
  have reach: "reached_personhood p1 = reached_personhood p0"
    and rec: "recognition p1 = recognition p0"
    by (simp_all add: p1_def attendance_score_same)
  have nosusp: "susp \<Longrightarrow> reached_personhood p0"
    by (simp add: susp_def suspends_def reach Let_def split: prod.splits)
  define p3 where "p3 = p1\<lparr>reached_personhood :=
       (if \<not> reached_personhood p1 \<and> score p1 \<ge> PersonhoodThreshold s then True
        else if susp then False else reached_personhood p1),
     has_ever_reached_personhood := (has_ever_reached_personhood p1 \<or>
       (if \<not> reached_personhood p1 \<and> score p1 \<ge> PersonhoodThreshold s then True
        else if susp then False else reached_personhood p1)), cashed_out := False\<rparr>"
  have p: "p = (case recognition p0 of Recognized i \<Rightarrow>
        if susp then p3\<lparr>recognition := Suspended i\<rparr> else p3 | _ \<Rightarrow> p3)"
    and s': "s' = s\<lparr>world := (case recognition p0 of
           Recognized i \<Rightarrow> if susp then snd (suspend_personhood cfg [i] (world s)) else world s
         | _ \<Rightarrow> world s), Participants := sput who p (Participants s)\<rparr>"
    using assms(2)
    unfolding set_attendance_def assms(1) result_eval Let_def
    unfolding p1_def [symmetric]
    unfolding susp_def [symmetric] p3_def
    by (cases "recognition p0"; auto simp: rec split: if_splits; fail)+
  have p3: "score p3 = score p1" "credit p3 = credit p1" "\<not> cashed_out p3"
    "recognition p3 = recognition p0" "attendance_history p3 = attendance_history p1"
    by (simp_all add: p3_def rec)
  show "Participants s' = sput who p (Participants s)" "same_thresholds s s'"
    "CurrentRoundPoints s' = CurrentRoundPoints s" "CurrentRoundIndex s' = CurrentRoundIndex s"
    "RoundsPointsForParticipant s' = RoundsPointsForParticipant s"
    "RoundPayouts s' = RoundPayouts s" "RoundPlanning s' = RoundPlanning s"
    "RoundSchedules s' = RoundSchedules s"
    "world s' = (case recognition p0 of
           Recognized i \<Rightarrow> if susp then snd (suspend_personhood cfg [i] (world s)) else world s
         | _ \<Rightarrow> world s)"
    by (simp_all add: s' same_thresholds_def)
  show "score p = score p1" "\<not> cashed_out p" "credit p = credit p0"
    "attendance_history p = store_attendance (attendance_history p0) attended"
    by (simp_all add: p p3 p1_def attendance_score_same split: Recognition.split)
  show "recognition p = (case recognition p0 of Recognized i \<Rightarrow> if susp then Suspended i else Recognized i
      | r \<Rightarrow> r)"
    by (simp add: p p3 split: Recognition.split)
  have r: "reached_personhood p = reached_personhood p3"
    "has_ever_reached_personhood p = has_ever_reached_personhood p3"
    by (simp_all add: p split: Recognition.split)
  show "reached_personhood p \<longleftrightarrow> (\<not> reached_personhood p0 \<and> score p1 \<ge> PersonhoodThreshold s) \<or>
      (reached_personhood p0 \<and> \<not> susp)"
    unfolding r using nosusp by (auto simp: p3_def reach)
  show "has_ever_reached_personhood p \<longleftrightarrow> has_ever_reached_personhood p0 \<or> reached_personhood p"
    unfolding r by (simp add: p3_def p1_def attendance_score_same)
qed

subsection \<open>Recognition as a state machine\<close>

inductive recognition_step :: "Recognition \<Rightarrow> Recognition \<Rightarrow> bool" where
  registers: "recognition_step NotRecognized (Recognized i)"
| suspends: "recognition_step (Recognized i) (Suspended i)"
| resumes: "recognition_step (Suspended i) (Recognized i)"

inductive_simps recognition_step_simps [simp]:
  "recognition_step NotRecognized r" "recognition_step (Recognized i) r"
  "recognition_step (Suspended i) r" "recognition_step ExternallyRecognized r"

definition recognition_follows :: "'w score_state \<Rightarrow> 'w score_state \<Rightarrow> bool" where
  "recognition_follows s s' \<longleftrightarrow>
     (\<forall>who p p'. sget (Participants s) who = Some p \<longrightarrow> sget (Participants s') who = Some p' \<longrightarrow>
        recognition p' = recognition p \<or> recognition_step (recognition p) (recognition p'))"

definition people_contract :: "'w score_state \<Rightarrow> 'w score_state \<Rightarrow> bool" where
  "people_contract s s' \<longleftrightarrow> people_inv s' \<and> recognition_follows s s'"

lemma people_contract_same:
  "people_inv s \<Longrightarrow> same_thresholds s s' \<Longrightarrow> Participants s' = Participants s \<Longrightarrow> people_contract s s'"
  by (auto simp: people_contract_def recognition_follows_def intro: people_inv_frame)

lemma people_contract_put:
  assumes "people_inv s" and "same_thresholds s s'" and "Participants s' = sput who p' (Participants s)"
    and "participant_ok who p'"
    and "\<And>p. sget (Participants s) who = Some p \<Longrightarrow>
           recognition p' = recognition p \<or> recognition_step (recognition p) (recognition p')"
  shows "people_contract s s'"
proof -
  have "people_inv s'"
    by (rule people_inv_frame [OF assms(1,2)]) (auto simp: assms(3,4) split: if_splits)
  with assms(3,5) show ?thesis by (auto simp: people_contract_def recognition_follows_def)
qed

lemma drain_loop_recognition:
  assumes "drain_loop r rnd n c s = (c', b, s')"
  shows "recognition_follows s s' \<and>
    (\<forall>who. scontains (Participants s') who = scontains (Participants s) who) \<and>
    (\<forall>who p'. sget (Participants s') who = Some p' \<longrightarrow>
       (\<exists>p. sget (Participants s) who = Some p \<and> recognition p' = recognition p))"
  using assms
proof (induction n arbitrary: c s)
  case (Suc n)
  show ?case
  proof (cases "next_in_round r (RoundsPointsForParticipant s)")
    case None
    with Suc show ?thesis by (simp add: recognition_follows_def)
  next
    case (Some q)
    obtain who points where q: "q = (who, points)" by (cases q)
    show ?thesis
    proof (cases "sget (Participants s) who")
      case None
      with Suc.IH Suc.prems(1) Some q show ?thesis by (fastforce simp: recognition_follows_def)
    next
      case p: (Some p)
      let ?s2 = "s\<lparr>RoundsPointsForParticipant := sdel (r, who) (RoundsPointsForParticipant s),
        Participants := sput who (p\<lparr>credit := sat_add u128_max (credit p) (reward_of rnd points)\<rparr>)
          (Participants s)\<rparr>"
      have "drain_loop r rnd n (sat_add u128_max c (reward_of rnd points)) ?s2 = (c', b, s')"
        using Suc.prems Some q p by (simp add: Let_def)
      note IH = Suc.IH [OF this]
      from p have "scontains (Participants s) who" by (simp add: scontains_def)
      with IH have cont: "\<forall>w. scontains (Participants s') w = scontains (Participants s) w" by auto
      have "\<exists>p0. sget (Participants s) w = Some p0 \<and> recognition p' = recognition p0"
        if "sget (Participants s') w = Some p'" for w p'
        using IH that p by (force split: if_splits)
      with cont show ?thesis by (fastforce simp: recognition_follows_def)
    qed
  qed
qed (auto simp: recognition_follows_def)

lemma operate_contract:
  assumes "people_inv s" and "operate_payout_round cfg org r limit s = Inr s'"
  shows "people_contract s s'"
proof -
  from assms(2) obtain rnd where rnd: "sget (RoundPayouts s) r = Some rnd"
    by (auto simp: operate_payout_round_def validate_operate_payout_round_def)
  obtain c b s1 where loop: "drain_loop r rnd limit 0 s = (c, b, s1)" by (metis prod_cases3)
  have "recognition_follows s s'"
  proof (cases "operate_in_layer cfg r rnd limit s")
    case (Inl e)
    with assms(2) rnd show ?thesis
      by (auto simp: operate_payout_round_def validate_operate_payout_round_def recognition_follows_def)
  next
    case (Inr s2)
    have "Participants s2 = Participants s1"
      using Inr loop by (auto simp: operate_in_layer_def Let_def split: if_splits)
    with Inr assms(2) rnd have "Participants s' = Participants s1"
      by (auto simp: operate_payout_round_def validate_operate_payout_round_def)
    with drain_loop_recognition [OF loop] show ?thesis by (simp add: recognition_follows_def)
  qed
  with operate_people [OF assms] show ?thesis by (simp add: people_contract_def)
qed

lemma cash_out_contract:
  assumes "people_inv s" and "cash_out cfg org s = Inr (s', q)"
  shows "people_contract s s'"
proof -
  from assms(2) obtain acc p0 where acc: "ensure_signed_or_participant cfg org = Inr acc"
    and p0: "sget (Participants s) (Account acc) = Some p0"
    by (auto simp: cash_out_def Let_def)
  have aw: "Participants (award_participant_payout_points w n s) = Participants s"
    "same_thresholds s (award_participant_payout_points w n s)" for w n
    by (simp_all add: award_participant_payout_points_def same_thresholds_def Let_def split: option.splits)
  let ?p = "p0\<lparr>score := score p0 - sat_add u32_max (score p0) 1 div 2,
    streak := reset_attendance (streak p0), cashed_out := True\<rparr>"
  have s': "Participants s' = sput (Account acc) ?p (Participants s)" "same_thresholds s s'"
    using assms(2) acc p0 aw by (auto simp: cash_out_def Let_def same_thresholds_def)
  from people_invD [OF assms(1) p0] have "participant_ok (Account acc) ?p"
    by (auto simp: participant_ok_def)
  with s' p0 show ?thesis by (intro people_contract_put [OF assms(1)]) auto
qed

lemma register_result:
  assumes "register cfg org key s = Inr (s', q)"
  obtains acc p0 i w resumed where "ensure_signed_or_participant cfg org = Inr acc"
    and "sget (Participants s) (Account acc) = Some p0"
    and "reached_personhood p0 \<or> score p0 \<ge> PersonhoodThreshold s"
    and "recognition p0 = Suspended i \<and> key = None \<and> resumed \<and>
           recognize_personhood cfg i None (world s) = Inr w \<or>
         (\<exists>k sg w0. recognition p0 = NotRecognized \<and> key = Some (k, sg) \<and> \<not> resumed \<and>
           verify_signature cfg sg (register_prefix @ acc) k \<and>
           reserve_new_id cfg (world s) = (i, w0) \<and> recognize_personhood cfg i (Some k) w0 = Inr w)"
    and "s' = score_deposit (PersonhoodRecognized (Account acc) resumed)
           (s\<lparr>world := w, Participants := sput (Account acc) (p0\<lparr>recognition := Recognized i,
              reached_personhood := True, has_ever_reached_personhood := True\<rparr>) (Participants s)\<rparr>)"
proof -
  from assms obtain acc p0 where acc: "ensure_signed_or_participant cfg org = Inr acc"
    and p0: "sget (Participants s) (Account acc) = Some p0"
    and r: "reached_personhood p0 \<or> score p0 \<ge> PersonhoodThreshold s"
    by (auto simp: register_def Let_def)
  show thesis
  proof (cases "recognition p0")
    case (Suspended i)
    with assms acc p0 r obtain w where "key = None" "recognize_personhood cfg i None (world s) = Inr w"
      "s' = score_deposit (PersonhoodRecognized (Account acc) True)
           (s\<lparr>world := w, Participants := sput (Account acc) (p0\<lparr>recognition := Recognized i,
              reached_personhood := True, has_ever_reached_personhood := True\<rparr>) (Participants s)\<rparr>)"
      by (auto simp: register_def Let_def)
    with acc p0 r Suspended show ?thesis by (intro that [of acc p0 i True w]) simp_all
  next
    case NotRecognized
    obtain i w0 where id: "reserve_new_id cfg (world s) = (i, w0)" by (metis prod.collapse)
    with NotRecognized assms acc p0 r obtain w k sg where "key = Some (k, sg)"
      "verify_signature cfg sg (register_prefix @ acc) k"
      "recognize_personhood cfg i (Some k) w0 = Inr w"
      "s' = score_deposit (PersonhoodRecognized (Account acc) False)
           (s\<lparr>world := w, Participants := sput (Account acc) (p0\<lparr>recognition := Recognized i,
              reached_personhood := True, has_ever_reached_personhood := True\<rparr>) (Participants s)\<rparr>)"
      by (auto simp: register_def Let_def)
    with acc p0 r NotRecognized id show ?thesis by (intro that [of acc p0 i False w]) simp_all
  qed (use assms acc p0 r in \<open>simp_all add: register_def Let_def\<close>)
qed

lemma register_contract:
  assumes "people_inv s" and "register cfg org key s = Inr (s', q)"
  shows "people_contract s s'"
proof -
  from assms(2) obtain acc p0 i w b where p0: "sget (Participants s) (Account acc) = Some p0"
    and rec: "recognition p0 = Suspended i \<or> recognition p0 = NotRecognized"
    and s': "s' = score_deposit (PersonhoodRecognized (Account acc) b)
           (s\<lparr>world := w, Participants := sput (Account acc) (p0\<lparr>recognition := Recognized i,
              reached_personhood := True, has_ever_reached_personhood := True\<rparr>) (Participants s)\<rparr>)"
    by (rule register_result) blast
  from people_invD [OF assms(1) p0] have
    "participant_ok (Account acc) (p0\<lparr>recognition := Recognized i, reached_personhood := True,
       has_ever_reached_personhood := True\<rparr>)"
    by (simp add: participant_ok_def)
  with s' p0 rec show ?thesis
    by (intro people_contract_put [OF assms(1)]) (auto simp: same_thresholds_def)
qed

lemma set_attendance_contract:
  assumes inv: "people_inv s" and res: "set_attendance cfg who b g s = Inr (p, s')"
  shows "people_contract s s'"
proof -
  from res obtain p0 where p0: "sget (Participants s) who = Some p0"
    by (auto simp: set_attendance_def)
  note r = set_attendance_result [OF p0 res]
  have ok: "participant_ok who p0" by (rule people_invD [OF inv p0])
  have t: "PersonhoodThreshold s \<le> MAX_PERSONHOOD_THRESHOLD"
    using inv by (simp add: people_inv_def thresholds_ok_def)
  have "participant_ok who p"
    using ok r(3,6,7,8) attendance_score_same(6) [OF _ t, of p0 b g]
      attendance_score_same(1,2) [of "PersonhoodThreshold s" b g p0]
    by (auto simp: participant_ok_def suspends_def Let_def split: Recognition.splits if_splits prod.splits)
  with r(1,2,8) p0 show ?thesis
    by (intro people_contract_put [OF inv]) (auto split: Recognition.splits)
qed

lemma score_dispatch_people:
  assumes inv: "people_inv s" and res: "score_dispatch cfg x s = Inr s'"
  shows "people_contract s s'"
proof (cases x)
  case (DoOperatePayoutRound org r limit)
  with res operate_contract [OF inv] show ?thesis by simp
next
  case (DoCashOut org)
  with res cash_out_contract [OF inv] show ?thesis by auto
next
  case (DoRegister org key)
  with res register_contract [OF inv] show ?thesis by auto
next
  case (DoSetAttendance who b g)
  with res set_attendance_contract [OF inv] show ?thesis by auto
next
  case (DoRedeemCredit org d)
  with res obtain who p0 where p0: "sget (Participants s) who = Some p0"
    and s': "same_thresholds s s'" "Participants s' = sput who (p0\<lparr>credit := 0\<rparr>) (Participants s)"
    by (auto simp: redeem_credit_def Let_def same_thresholds_def)
  have "participant_ok who (p0\<lparr>credit := 0\<rparr>)"
    using people_invD [OF inv p0] by (simp add: participant_ok_def)
  with p0 s' show ?thesis by (intro people_contract_put [OF inv]) auto
next
  case (DoOnboardForRecognition a)
  with res show ?thesis
    by (intro people_contract_put [OF inv, where who = "Account a" and p' = "new_participant 0 False NotRecognized"])
       (auto simp: onboard_for_recognition_def can_onboard_for_recognition_def same_thresholds_def
          participant_ok_def new_participant_def scontains_def)
next
  case (DoOnboardExternallyRecognized a)
  have "PersonhoodThreshold s \<le> MAX_PERSONHOOD_THRESHOLD"
    using inv by (simp add: people_inv_def thresholds_ok_def)
  with DoOnboardExternallyRecognized res show ?thesis
    by (intro people_contract_put [OF inv, where who = "Person a" and
          p' = "new_participant (PersonhoodThreshold s) True ExternallyRecognized"])
       (auto simp: onboard_externally_recognized_def same_thresholds_def participant_ok_def
          new_participant_def scontains_def)
next
  case (DoOffboard who)
  with res have s': "same_thresholds s s'" "Participants s' = sdel who (Participants s)"
    by (auto simp: offboard_def same_thresholds_def split: AccountOrPerson.splits)
  then have "people_inv s'" by (intro people_inv_frame [OF inv]) (auto split: if_splits)
  with s' show ?thesis by (auto simp: people_contract_def recognition_follows_def split: if_splits)
next
  case DoStartSession
  with res obtain w where s': "s' = (update_thresholds cfg s)\<lparr>world := w\<rparr>"
    by (auto simp: session_result_def start_attendance_report_session_def Let_def
          split: prod.splits sum.splits)
  from inv have "people_inv s'"
    using threshold_range(2) grace_ratio_ok
    by (auto simp: s' people_inv_def thresholds_ok_def update_thresholds_def)
  then show ?thesis by (simp add: people_contract_def recognition_follows_def s' update_thresholds_def)
next
  case (DoSetAbsenceGraceSchedule org ts)
  with inv res show ?thesis
    by (auto simp: set_absence_grace_schedule_def people_contract_def recognition_follows_def
          people_inv_def thresholds_ok_def)
next
  case (DoSetPersonhoodThresholdSchedule org ts)
  with inv res show ?thesis
    by (auto simp: set_personhood_threshold_schedule_def people_contract_def recognition_follows_def
          people_inv_def thresholds_ok_def)
qed ((rule people_contract_same [OF inv]; use res in \<open>auto simp: score_schedule_payout_rounds_def
      score_remove_payout_schedule_def transition_round_def plan_next_round_def finish_current_round_def
      session_result_def end_attendance_report_session_def same_thresholds_def Let_def
      split: option.splits list.splits prod.splits sum.splits\<close>)+)

interpretation score_people: pallet_contract score_step people_inv "\<lambda>_ _. True"
  by unfold_locales (use score_dispatch_people in \<open>fastforce simp: score_step_def people_contract_def\<close>)

lemma score_genesis_people: "people_inv (score_genesis w)"
  by (simp add: people_inv_def thresholds_ok_def score_genesis_def default_schedules_valid ratio_ok_def)

end
