(* ===== verification/Score_Payout.thy ===== *)
theory Score_Payout
  imports Score_People
begin

text \<open>
  The payout rounds of the score pallet: the points of the current round add up, what remains
  of a round covers the rewards of the points not yet drained, and the holds of the pot cover
  schedules, the planned round, the rounds paying out and all credit.
\<close>

subsection \<open>Invariants\<close>

definition round_worth :: "RoundPayout \<Rightarrow> nat" where
  "round_worth rd = point_price rd * total_points rd + remainder rd"

definition round_covers :: "RoundPayout \<Rightarrow> nat \<Rightarrow> nat \<Rightarrow> bool" where
  "round_covers rd left pts \<longleftrightarrow>
     pts * round_worth rd \<le> left * total_points rd \<and> (total_points rd = 0 \<longrightarrow> pts = 0)"

definition rounds_inv :: "'w score_state \<Rightarrow> bool" where
  "rounds_inv s \<longleftrightarrow>
     wf_storage (Participants s) \<and> wf_storage (RoundsPointsForParticipant s) \<and>
     wf_storage (RoundPayouts s) \<and>
     (\<forall>r who. scontains (RoundsPointsForParticipant s) (r, who) \<longrightarrow> r \<le> CurrentRoundIndex s) \<and>
     CurrentRoundPoints s = points_of (RoundsPointsForParticipant s) (CurrentRoundIndex s) \<and>
     CurrentRoundPoints s \<le> u32_max \<and>
     (\<forall>r rd. sget (RoundPayouts s) r = Some rd \<longrightarrow> r < CurrentRoundIndex s \<and>
        remaining_balance rd \<le> u128_max \<and>
        round_covers rd (remaining_balance rd) (points_of (RoundsPointsForParticipant s) r))"

definition score_committed :: "ScoreSchedule list \<Rightarrow> nat" where
  "score_committed S = sum_list (map (\<lambda>x. remaining x * amount_per_round x) S)"

definition planned :: "RoundInfo option \<Rightarrow> nat" where
  "planned p = (case p of None \<Rightarrow> 0 | Some r \<Rightarrow> round_credit r)"

definition paying :: "(nat, RoundPayout) storage \<Rightarrow> nat" where
  "paying R = ssum (\<lambda>p. remaining_balance (snd p)) R"

definition total_credit :: "(AccountOrPerson, Participant) storage \<Rightarrow> nat" where
  "total_credit P = ssum (\<lambda>p. credit (snd p)) P"

definition holds_inv :: "(ScoreHoldReason, 'w) currency \<Rightarrow> account_id \<Rightarrow> 'w score_state \<Rightarrow> bool" where
  "holds_inv cur pot s \<longleftrightarrow>
     (\<forall>x\<in>set (RoundSchedules s). 0 < remaining x \<and> amount_per_round x * remaining x \<le> u128_max) \<and>
     planned (RoundPlanning s) \<le> u128_max \<and>
     score_committed (RoundSchedules s) + planned (RoundPlanning s) + paying (RoundPayouts s)
       \<le> on_hold cur Payout pot (world s) \<and>
     total_credit (Participants s) \<le> on_hold cur Credit pot (world s)"

definition payout_inv :: "(ScoreHoldReason, 'w) currency \<Rightarrow> account_id \<Rightarrow> 'w score_state \<Rightarrow> bool" where
  "payout_inv cur pot s \<longleftrightarrow> rounds_inv s \<and> holds_inv cur pot s"

lemma rounds_invI:
  assumes "wf_storage (Participants s)" and "wf_storage (RoundsPointsForParticipant s)"
    and "wf_storage (RoundPayouts s)"
    and "\<And>r who. scontains (RoundsPointsForParticipant s) (r, who) \<Longrightarrow> r \<le> CurrentRoundIndex s"
    and "CurrentRoundPoints s = points_of (RoundsPointsForParticipant s) (CurrentRoundIndex s)"
    and "CurrentRoundPoints s \<le> u32_max"
    and "\<And>r rd. sget (RoundPayouts s) r = Some rd \<Longrightarrow> r < CurrentRoundIndex s"
    and "\<And>r rd. sget (RoundPayouts s) r = Some rd \<Longrightarrow> remaining_balance rd \<le> u128_max"
    and "\<And>r rd. sget (RoundPayouts s) r = Some rd \<Longrightarrow>
       round_covers rd (remaining_balance rd) (points_of (RoundsPointsForParticipant s) r)"
  shows "rounds_inv s"
  using assms unfolding rounds_inv_def by blast

lemma rounds_invD:
  assumes "rounds_inv s"
  shows "wf_storage (Participants s)" and "wf_storage (RoundsPointsForParticipant s)"
    and "wf_storage (RoundPayouts s)"
    and "scontains (RoundsPointsForParticipant s) (r, who) \<Longrightarrow> r \<le> CurrentRoundIndex s"
    and "CurrentRoundPoints s = points_of (RoundsPointsForParticipant s) (CurrentRoundIndex s)"
    and "CurrentRoundPoints s \<le> u32_max"
    and "sget (RoundPayouts s) r = Some rd \<Longrightarrow> r < CurrentRoundIndex s"
    and "sget (RoundPayouts s) r = Some rd \<Longrightarrow> remaining_balance rd \<le> u128_max"
    and "sget (RoundPayouts s) r = Some rd \<Longrightarrow>
       round_covers rd (remaining_balance rd) (points_of (RoundsPointsForParticipant s) r)"
  using assms unfolding rounds_inv_def by blast+

lemma round_covers_update [simp]:
  "round_covers (rd\<lparr>remaining_balance := x\<rparr>) l p = round_covers rd l p"
  by (simp add: round_covers_def round_worth_def)

lemma payout_inv_deposit [simp]: "payout_inv cur pot (score_deposit e s) = payout_inv cur pot s"
  by (simp add: payout_inv_def rounds_inv_def holds_inv_def)

text \<open>
  The people service and the account references of the system do not touch the holds of the pot.
\<close>

definition world_frame :: "('o, 'w, 'key, 'sig) score_config \<Rightarrow> bool" where
  "world_frame cfg \<longleftrightarrow>
     (\<forall>r w. let h = on_hold (Currency cfg) r (score_pot_id cfg) in
        h (snd (reserve_new_id cfg w)) = h w \<and>
        (\<forall>i k w'. recognize_personhood cfg i k w = Inr w' \<longrightarrow> h w' = h w) \<and>
        (\<forall>is. h (snd (suspend_personhood cfg is w)) = h w) \<and>
        h (snd (start_people_set_mutation_session cfg w)) = h w \<and>
        h (snd (end_people_set_mutation_session cfg w)) = h w \<and>
        (\<forall>a. h (inc_sufficients cfg a w) = h w \<and> h (dec_sufficients cfg a w) = h w))"

lemma total_credit_sput:
  assumes "wf_storage P"
  shows "total_credit (sput who p P) + (case sget P who of None \<Rightarrow> 0 | Some q \<Rightarrow> credit q) =
    total_credit P + credit p"
  using ssum_sput [OF assms, of "\<lambda>p. credit (snd p)" who p]
  by (simp add: total_credit_def cong: option.case_cong)

lemma total_credit_keep:
  "wf_storage P \<Longrightarrow> sget P who = Some q \<Longrightarrow> credit p = credit q \<Longrightarrow>
   total_credit (sput who p P) = total_credit P"
  using total_credit_sput [of P who p] by simp

lemma total_credit_new:
  "wf_storage P \<Longrightarrow> sget P who = None \<Longrightarrow> credit p = 0 \<Longrightarrow>
   total_credit (sput who p P) = total_credit P"
  using total_credit_sput [of P who p] by simp

lemma total_credit_sdel: "wf_storage P \<Longrightarrow> total_credit (sdel who P) \<le> total_credit P"
  unfolding total_credit_def by (rule ssum_le_sdel)

lemma paying_sput:
  assumes "wf_storage R"
  shows "paying (sput r rd R) + (case sget R r of None \<Rightarrow> 0 | Some q \<Rightarrow> remaining_balance q) =
    paying R + remaining_balance rd"
  using ssum_sput [OF assms, of "\<lambda>p. remaining_balance (snd p)" r rd]
  by (simp add: paying_def cong: option.case_cong)

lemma paying_sdel:
  assumes "wf_storage R" and "sget R r = Some rd"
  shows "paying (sdel r R) + remaining_balance rd = paying R"
  using ssum_sdel [OF assms(1), of "\<lambda>p. remaining_balance (snd p)" r] assms(2)
  by (simp add: paying_def)

subsection \<open>Draining a round\<close>

lemma reward_share: "reward_of rd pts * total_points rd \<le> pts * round_worth rd"
proof -
  let ?t = "total_points rd"
  have "reward_of rd pts \<le> point_price rd * pts + unwrap_or_default (checked_div (remainder rd * pts) ?t)"
  proof -
    have "unwrap_or_default (checked_div (sat_mul u128_max (remainder rd) pts) ?t)
        \<le> unwrap_or_default (checked_div (remainder rd * pts) ?t)"
      by (simp add: checked_div_def div_le_mono sat_mul_le(1))
    then show ?thesis
      unfolding reward_of_def Let_def
      using sat_add_le(1) sat_mul_le(1) [of u128_max "point_price rd" pts] add_mono order_trans
      by meson
  qed
  then have "reward_of rd pts * ?t \<le>
      (point_price rd * pts + unwrap_or_default (checked_div (remainder rd * pts) ?t)) * ?t"
    by (rule mult_le_mono1)
  also have "\<dots> \<le> point_price rd * pts * ?t + remainder rd * pts"
    by (simp add: checked_div_def distrib_right)
  also have "\<dots> = pts * round_worth rd"
    by (simp add: round_worth_def algebra_simps)
  finally show ?thesis .
qed

lemma reward_no_total: "total_points rd = 0 \<Longrightarrow> reward_of rd 0 = 0"
  by (simp add: reward_of_def checked_div_def sat_mul_def sat_add_def)

lemma next_in_round_some:
  "next_in_round r P = Some (who, pts) \<Longrightarrow> wf_storage P \<Longrightarrow> sget P (r, who) = Some pts"
proof (induction r P rule: next_in_round.induct)
  case (2 r r' w q rest)
  then show ?case by (auto simp: sget_Cons wf_storage_def split: if_splits)
qed simp

lemma next_in_round_none: "next_in_round r P = None \<longleftrightarrow> (\<forall>who. \<not> scontains P (r, who))"
proof (induction r P rule: next_in_round.induct)
  case (2 r r' w q rest)
  then show ?case by (auto simp: scontains_def sget_def)
qed (simp add: scontains_def)

lemma covers_step:
  assumes cov: "round_covers rd left P" and pts: "pts \<le> P"
  shows "reward_of rd pts \<le> left" and "round_covers rd (left - reward_of rd pts) (P - pts)"
    and "round_covers rd left (P - pts)"
proof -
  let ?c = "reward_of rd pts" and ?t = "total_points rd" and ?w = "round_worth rd"
  have share: "?c * ?t \<le> pts * ?w" by (rule reward_share)
  have all: "P * ?w \<le> left * ?t" using cov by (simp add: round_covers_def)
  have part: "pts * ?w \<le> P * ?w" using pts by (rule mult_le_mono1)
  show le: "?c \<le> left"
  proof (cases "?t = 0")
    case True
    with cov pts have "pts = 0" by (simp add: round_covers_def)
    with True reward_no_total show ?thesis by simp
  next
    case False
    have "?c * ?t \<le> left * ?t" using share all part by linarith
    with False show ?thesis by simp
  qed
  have "(P - pts) * ?w + pts * ?w = P * ?w" using pts by (simp add: diff_mult_distrib)
  moreover have "(left - ?c) * ?t + ?c * ?t = left * ?t" using le by (simp add: diff_mult_distrib)
  ultimately have "(P - pts) * ?w \<le> (left - ?c) * ?t" using share all by linarith
  then show "round_covers rd (left - ?c) (P - pts)"
    using cov by (simp add: round_covers_def)
  have "(P - pts) * ?w \<le> left * ?t"
    by (rule order_trans [OF mult_le_mono1 [OF diff_le_self] all])
  then show "round_covers rd left (P - pts)"
    using cov by (simp add: round_covers_def)
qed

definition drained :: "nat \<Rightarrow> 'w score_state \<Rightarrow> 'w score_state \<Rightarrow> bool" where
  "drained r s s' \<longleftrightarrow>
     wf_storage (Participants s') \<and> wf_storage (RoundsPointsForParticipant s') \<and>
     (\<forall>k. scontains (RoundsPointsForParticipant s') k \<longrightarrow> scontains (RoundsPointsForParticipant s) k) \<and>
     (\<forall>r'. r' \<noteq> r \<longrightarrow> points_of (RoundsPointsForParticipant s') r' =
        points_of (RoundsPointsForParticipant s) r') \<and>
     CurrentRoundPoints s' = CurrentRoundPoints s \<and> CurrentRoundIndex s' = CurrentRoundIndex s \<and>
     RoundPayouts s' = RoundPayouts s \<and> RoundPlanning s' = RoundPlanning s \<and>
     RoundSchedules s' = RoundSchedules s \<and> world s' = world s"

lemma drain_loop_covers:
  assumes "drain_loop r rd n c s = (c', b, s')"
    and "wf_storage (Participants s)" "wf_storage (RoundsPointsForParticipant s)"
    and "c \<le> B" and "B \<le> u128_max"
    and "round_covers rd (B - c) (points_of (RoundsPointsForParticipant s) r)"
  shows "drained r s s' \<and> c' \<le> B \<and>
    round_covers rd (B - c') (points_of (RoundsPointsForParticipant s') r) \<and>
    total_credit (Participants s') + c \<le> total_credit (Participants s) + c' \<and>
    (b \<longrightarrow> (\<forall>who. \<not> scontains (RoundsPointsForParticipant s') (r, who)))"
  using assms
proof (induction n arbitrary: c s)
  case 0
  then show ?case by (simp add: drained_def)
next
  case (Suc n)
  note wfs = Suc.prems(2,3)
  show ?case
  proof (cases "next_in_round r (RoundsPointsForParticipant s)")
    case None
    with Suc.prems show ?thesis by (simp add: drained_def next_in_round_none)
  next
    case (Some q)
    obtain who pts where q: "q = (who, pts)" by (cases q)
    have entry: "sget (RoundsPointsForParticipant s) (r, who) = Some pts"
      using next_in_round_some [OF _ wfs(2)] Some q by simp
    let ?P = "points_of (RoundsPointsForParticipant s)"
    let ?s1 = "s\<lparr>RoundsPointsForParticipant := sdel (r, who) (RoundsPointsForParticipant s)\<rparr>"
    have pts: "pts \<le> ?P r"
      using points_of_entry [of "RoundsPointsForParticipant s" r who] entry by simp
    have P1: "points_of (sdel (r, who) (RoundsPointsForParticipant s)) r' =
        (if r' = r then ?P r - pts else ?P r')" for r'
      using points_of_sdel [OF wfs(2), of r who r'] entry by auto
    have s1: "drained r s ?s1" using wfs P1 by (simp add: drained_def)
    note cov = covers_step [OF Suc.prems(6) pts]
    show ?thesis
    proof (cases "sget (Participants s) who")
      case None
      have "drain_loop r rd n c ?s1 = (c', b, s')" using Suc.prems(1) Some q None by simp
      from Suc.IH [OF this] wfs Suc.prems(4,5) cov(3) P1 s1 show ?thesis
        by (auto simp: drained_def)
    next
      case p: (Some p)
      let ?c = "reward_of rd pts"
      let ?p = "p\<lparr>credit := sat_add u128_max (credit p) ?c\<rparr>"
      let ?s2 = "?s1\<lparr>Participants := sput who ?p (Participants s)\<rparr>"
      have c: "sat_add u128_max c ?c = c + ?c" "c + ?c \<le> B"
        using cov(1) Suc.prems(4,5) by simp_all
      have loop: "drain_loop r rd n (c + ?c) ?s2 = (c', b, s')"
        using Suc.prems(1) Some q p c(1) by (simp add: Let_def)
      have cov2: "round_covers rd (B - (c + ?c)) (points_of (RoundsPointsForParticipant ?s2) r)"
        using cov(2) P1 [of r] by simp
      have wf2: "wf_storage (Participants ?s2)" "wf_storage (RoundsPointsForParticipant ?s2)"
        using wfs by simp_all
      note r = Suc.IH [OF loop wf2 c(2) Suc.prems(5) cov2]
      have cr: "total_credit (Participants ?s2) \<le> total_credit (Participants s) + ?c"
        using total_credit_sput [OF wfs(1), of who ?p] p sat_add_le(1) [of u128_max "credit p" ?c]
        by simp
      from r have "drained r ?s2 s'" by simp
      with s1 have "drained r s s'" by (auto simp: drained_def)
      with r cr show ?thesis by simp
    qed
  qed
qed

subsection \<open>The entry points\<close>

lemma operate_payout_inv:
  assumes inv: "payout_inv (Currency cfg) (score_pot_id cfg) s" and laws: "hold_laws (Currency cfg)"
    and res: "operate_payout_round cfg org r limit s = Inr s'"
  shows "payout_inv (Currency cfg) (score_pot_id cfg) s'"
proof -
  let ?cur = "Currency cfg" and ?pot = "score_pot_id cfg"
  have R: "rounds_inv s" and H: "holds_inv ?cur ?pot s" using inv by (simp_all add: payout_inv_def)
  from res obtain rd where rd: "sget (RoundPayouts s) r = Some rd"
    by (auto simp: operate_payout_round_def validate_operate_payout_round_def)
  have wf: "wf_storage (RoundPayouts s)" "wf_storage (Participants s)"
    "wf_storage (RoundsPointsForParticipant s)" using R by (simp_all add: rounds_inv_def)
  have rdD: "r < CurrentRoundIndex s" "remaining_balance rd \<le> u128_max"
    "round_covers rd (remaining_balance rd) (points_of (RoundsPointsForParticipant s) r)"
    using R rd by (auto simp: rounds_inv_def)
  show ?thesis
  proof (cases "operate_in_layer cfg r rd limit s")
    case (Inl e)
    with res rd have s': "s' = s\<lparr>RoundPayouts := sdel r (RoundPayouts s)\<rparr>"
      by (simp add: operate_payout_round_def validate_operate_payout_round_def)
    have "rounds_inv s'" using R by (simp add: s' rounds_inv_def)
    moreover have "holds_inv ?cur ?pot s'"
      using H paying_sdel [OF wf(1) rd] by (simp add: s' holds_inv_def)
    ultimately show ?thesis by (simp add: payout_inv_def)
  next
    case (Inr s2)
    obtain c b s1 where loop: "drain_loop r rd limit 0 s = (c, b, s1)" by (metis prod_cases3)
    have d: "drained r s s1" "c \<le> remaining_balance rd"
      "round_covers rd (remaining_balance rd - c) (points_of (RoundsPointsForParticipant s1) r)"
      "total_credit (Participants s1) \<le> total_credit (Participants s) + c"
      using drain_loop_covers [OF loop wf(2,3) _ rdD(2)] rdD(3) by simp_all
    let ?rd = "rd\<lparr>remaining_balance := remaining_balance rd - c\<rparr>"
    have w1: "world s1 = world s" "RoundPayouts s1 = RoundPayouts s" using d(1) by (simp_all add: drained_def)
    from Inr loop d(2) w1 obtain m wa wb where
      rel: "cur_release ?cur Payout ?pot c Exact (world s) = Inr (m, wa)" and
      hold: "cur_hold ?cur Credit ?pot m wa = Inr wb" and
      fin: "if b then \<exists>k wc. cur_release ?cur Payout ?pot (remaining_balance rd - c) Exact wb = Inr (k, wc) \<and>
                 s2 = s1\<lparr>world := wc, RoundPayouts := sdel r (RoundPayouts s)\<rparr>
            else s2 = s1\<lparr>world := wb, RoundPayouts := sput r ?rd (RoundPayouts s)\<rparr>"
      by (auto simp: operate_in_layer_def Let_def checked_sub_def split: if_splits)
    have m: "m = c" by (rule release_lawD(5) [OF laws rel refl])
    have hb: "on_hold ?cur Payout ?pot wb = on_hold ?cur Payout ?pot (world s) - c"
      "on_hold ?cur Credit ?pot wb = on_hold ?cur Credit ?pot (world s) + c"
      using release_lawD(3,4) [OF laws rel] hold_lawD [OF laws hold] m by auto
    have h2: "on_hold ?cur Credit ?pot (world s2) = on_hold ?cur Credit ?pot (world s) + c \<and>
      on_hold ?cur Payout ?pot (world s2) =
        on_hold ?cur Payout ?pot (world s) - c - (if b then remaining_balance rd - c else 0)"
    proof (cases b)
      case True
      with fin obtain k wc where k: "cur_release ?cur Payout ?pot (remaining_balance rd - c) Exact wb = Inr (k, wc)"
        "s2 = s1\<lparr>world := wc, RoundPayouts := sdel r (RoundPayouts s)\<rparr>" by auto
      have "k = remaining_balance rd - c" by (rule release_lawD(5) [OF laws k(1) refl])
      with k(2) release_lawD(3,4) [OF laws k(1)] hb True show ?thesis by auto
    next
      case False
      with fin hb show ?thesis by simp
    qed
    have s2: "Participants s2 = Participants s1"
      "RoundsPointsForParticipant s2 = RoundsPointsForParticipant s1"
      "CurrentRoundPoints s2 = CurrentRoundPoints s" "CurrentRoundIndex s2 = CurrentRoundIndex s"
      "RoundPlanning s2 = RoundPlanning s" "RoundSchedules s2 = RoundSchedules s"
      "RoundPayouts s2 = (if b then sdel r (RoundPayouts s) else sput r ?rd (RoundPayouts s))"
      using fin d(1) by (auto simp: drained_def split: if_splits)
    have dr: "wf_storage (Participants s1)" "wf_storage (RoundsPointsForParticipant s1)"
      "\<And>k. scontains (RoundsPointsForParticipant s1) k \<Longrightarrow> scontains (RoundsPointsForParticipant s) k"
      "\<And>q. q \<noteq> r \<Longrightarrow> points_of (RoundsPointsForParticipant s1) q = points_of (RoundsPointsForParticipant s) q"
      using d(1) unfolding drained_def by blast+
    have old: "sget (RoundPayouts s) q = Some x" if "sget (RoundPayouts s2) q = Some x" "q \<noteq> r" for q x
      using that s2(7) by (simp split: if_splits)
    have new: "x = ?rd" if "sget (RoundPayouts s2) r = Some x" for x
      using that s2(7) by (simp split: if_splits)
    have pts: "CurrentRoundPoints s2 = points_of (RoundsPointsForParticipant s2) (CurrentRoundIndex s2)"
      using rounds_invD(5) [OF R] rdD(1) dr(4) [of "CurrentRoundIndex s"] s2 by simp
    have "rounds_inv s2"
    proof (rule rounds_invI)
      fix q who assume "scontains (RoundsPointsForParticipant s2) (q, who)"
      then have "scontains (RoundsPointsForParticipant s) (q, who)" using dr(3) s2(2) by simp
      from rounds_invD(4) [OF R this] show "q \<le> CurrentRoundIndex s2" using s2(4) by simp
    next
      fix q x assume q: "sget (RoundPayouts s2) q = Some x"
      show "q < CurrentRoundIndex s2"
        using rounds_invD(7) [OF R] old [OF q] rdD(1) s2(4) by (cases "q = r") auto
      show "remaining_balance x \<le> u128_max"
        using rounds_invD(8) [OF R] old [OF q] new rdD(2) q by (cases "q = r") auto
      show "round_covers x (remaining_balance x) (points_of (RoundsPointsForParticipant s2) q)"
        using rounds_invD(9) [OF R] old [OF q] new d(3) q dr(4) s2(2) by (cases "q = r") auto
    qed (use pts s2 dr(1,2) wf rounds_invD(6) [OF R] in auto)
    moreover have "paying (RoundPayouts s2) + c + (if b then remaining_balance rd - c else 0)
        = paying (RoundPayouts s)"
      using paying_sdel [OF wf(1) rd] paying_sput [OF wf(1), of r ?rd] rd d(2) s2(7) by auto
    then have "holds_inv ?cur ?pot s2"
      using H h2 s2 d(4) by (auto simp: holds_inv_def)
    ultimately have "payout_inv ?cur ?pot s2" by (simp add: payout_inv_def)
    moreover from res rd Inr have "s' = score_deposit (PayoutRoundOperated r) s2"
      by (simp add: operate_payout_round_def validate_operate_payout_round_def)
    ultimately show ?thesis by simp
  qed
qed

lemma finish_current_round_inv:
  assumes inv: "payout_inv cur pot s" and rnd: "CurrentRoundIndex s < u32_max"
  shows "payout_inv cur pot (finish_current_round s)"
proof (cases "RoundPlanning s")
  case None
  with inv show ?thesis by (simp add: finish_current_round_def)
next
  case (Some ri)
  have R: "rounds_inv s" and H: "holds_inv cur pot s" using inv by (simp_all add: payout_inv_def)
  let ?i = "CurrentRoundIndex s" and ?n = "CurrentRoundPoints s" and ?c = "round_credit ri"
  let ?price = "unwrap_or_default (checked_div ?c ?n)"
  let ?rd = "\<lparr>remaining_balance = ?c, point_price = ?price, remainder = ?c - ?price * ?n, total_points = ?n\<rparr>"
  have c: "?c \<le> u128_max" using H Some by (simp add: holds_inv_def planned_def)
  have le: "?price * ?n \<le> ?c" by (simp add: checked_div_def)
  then have s': "finish_current_round s = s\<lparr>RoundPlanning := None, CurrentRoundPoints := 0,
      RoundPayouts := sput ?i ?rd (RoundPayouts s), CurrentRoundIndex := ?i + 1\<rparr>"
    using Some c rnd by (simp add: finish_current_round_def Let_def)
  have fresh: "sget (RoundPayouts s) ?i = None"
  proof (cases "sget (RoundPayouts s) ?i")
    case (Some rd)
    then have "?i < ?i" using R unfolding rounds_inv_def by blast
    then show ?thesis by simp
  qed
  have wf: "wf_storage (RoundPayouts s)" using R by (simp add: rounds_inv_def)
  have none: "points_of (RoundsPointsForParticipant s) (?i + 1) = 0"
    using R by (intro points_of_unused) (force simp: rounds_inv_def)
  have cov: "round_covers ?rd ?c (points_of (RoundsPointsForParticipant s) ?i)"
    using R le by (simp add: rounds_inv_def round_covers_def round_worth_def mult.commute)
  have "rounds_inv (finish_current_round s)"
    unfolding s'
    by (rule rounds_invI)
       (use R rounds_invD(1-3) [OF R] rounds_invD(4,7,8,9) [OF R] none cov c in
         \<open>auto split: if_splits intro: le_SucI less_SucI\<close>)
  moreover have "holds_inv cur pot (finish_current_round s)"
    unfolding s' using H Some paying_sput [OF wf, of ?i ?rd] fresh by (auto simp: holds_inv_def planned_def)
  ultimately show ?thesis by (simp add: payout_inv_def)
qed

lemma plan_next_round_inv:
  assumes inv: "payout_inv cur pot s" and free: "RoundPlanning s = None"
  shows "payout_inv cur pot (plan_next_round cfg s)"
proof (cases "RoundSchedules s")
  case Nil
  with inv show ?thesis by (simp add: plan_next_round_def)
next
  case (Cons x xs)
  have H: "holds_inv cur pot s" using inv by (simp add: payout_inv_def)
  have x: "0 < remaining x" "amount_per_round x * remaining x \<le> u128_max"
    using H Cons by (simp_all add: holds_inv_def)
  have a: "amount_per_round x \<le> u128_max"
    using x by (cases "remaining x") simp_all
  have "amount_per_round x * (remaining x - 1) \<le> u128_max"
    by (rule order_trans [OF mult_le_mono2 [OF diff_le_self] x(2)])
  moreover have "score_committed (RoundSchedules (plan_next_round cfg s)) + amount_per_round x =
      score_committed (RoundSchedules s)"
    using Cons x(1) by (cases "remaining x") (auto simp: plan_next_round_def score_committed_def Let_def)
  ultimately have "holds_inv cur pot (plan_next_round cfg s)"
    using H Cons a free x(1) by (auto simp: holds_inv_def plan_next_round_def planned_def Let_def split: if_splits)
  then show ?thesis using inv Cons by (simp add: payout_inv_def rounds_inv_def plan_next_round_def Let_def)
qed

lemma transition_payout_inv:
  assumes inv: "payout_inv cur pot s" and rnd: "CurrentRoundIndex s < u32_max"
    and res: "transition_round cfg org r s = Inr s'"
  shows "payout_inv cur pot s'"
proof -
  have "RoundPlanning (finish_current_round s) = None"
    by (simp add: finish_current_round_def Let_def split: option.splits)
  from plan_next_round_inv [OF finish_current_round_inv [OF inv rnd] this, of cfg] res show ?thesis
    by (auto simp: transition_round_def)
qed

lemma award_points_inv:
  assumes R: "rounds_inv s"
  shows "rounds_inv (award_participant_payout_points who n s)"
proof (cases "n = 0 \<or> checked_add u32_max (CurrentRoundPoints s) n = None")
  case True
  with R show ?thesis by (auto simp: award_participant_payout_points_def)
next
  case False
  let ?i = "CurrentRoundIndex s" and ?P = "RoundsPointsForParticipant s"
  have n: "n \<noteq> 0" "CurrentRoundPoints s + n \<le> u32_max"
    using False by (auto simp: checked_add_def split: if_splits)
  have wf: "wf_storage ?P" using R by (simp add: rounds_inv_def)
  have "get_round_points s ?i who \<le> CurrentRoundPoints s"
    using R points_of_entry [of ?P ?i who] by (simp add: rounds_inv_def get_round_points_def)
  then have s': "award_participant_payout_points who n s =
      s\<lparr>RoundsPointsForParticipant := sput (?i, who) (get_round_points s ?i who + n) ?P,
        CurrentRoundPoints := CurrentRoundPoints s + n\<rparr>"
    using n by (simp add: award_participant_payout_points_def checked_add_def Let_def)
  have pts: "points_of (sput (?i, who) (get_round_points s ?i who + n) ?P) r =
      points_of ?P r + (if r = ?i then n else 0)" for r
    using points_of_sput [OF wf, of ?i who "get_round_points s ?i who + n" r]
    by (auto simp: get_round_points_def)
  show ?thesis
    unfolding s' using R n pts by (auto simp: rounds_inv_def)
qed

text \<open>What does not touch the rounds: the participants may change, their credit in total not upwards.\<close>

definition same_rounds :: "'w score_state \<Rightarrow> 'w score_state \<Rightarrow> bool" where
  "same_rounds s s' \<longleftrightarrow>
     CurrentRoundPoints s' = CurrentRoundPoints s \<and> CurrentRoundIndex s' = CurrentRoundIndex s \<and>
     RoundsPointsForParticipant s' = RoundsPointsForParticipant s \<and> RoundPayouts s' = RoundPayouts s \<and>
     RoundPlanning s' = RoundPlanning s \<and> RoundSchedules s' = RoundSchedules s"

lemma payout_inv_frame:
  assumes "payout_inv cur pot s" and "same_rounds s s'" and "wf_storage (Participants s')"
    and "total_credit (Participants s') \<le> total_credit (Participants s)"
    and "\<And>r. on_hold cur r pot (world s') = on_hold cur r pot (world s)"
  shows "payout_inv cur pot s'"
  using assms by (simp add: payout_inv_def rounds_inv_def holds_inv_def same_rounds_def)

lemma world_frameD:
  assumes "world_frame cfg"
  shows "reserve_new_id cfg w = (i, w') \<Longrightarrow>
      on_hold (Currency cfg) r (score_pot_id cfg) w' = on_hold (Currency cfg) r (score_pot_id cfg) w"
    and "recognize_personhood cfg i k w = Inr w' \<Longrightarrow>
      on_hold (Currency cfg) r (score_pot_id cfg) w' = on_hold (Currency cfg) r (score_pot_id cfg) w"
    and "on_hold (Currency cfg) r (score_pot_id cfg) (snd (suspend_personhood cfg ids w)) =
      on_hold (Currency cfg) r (score_pot_id cfg) w"
    and "start_people_set_mutation_session cfg w = (res, w') \<Longrightarrow>
      on_hold (Currency cfg) r (score_pot_id cfg) w' = on_hold (Currency cfg) r (score_pot_id cfg) w"
    and "end_people_set_mutation_session cfg w = (res, w') \<Longrightarrow>
      on_hold (Currency cfg) r (score_pot_id cfg) w' = on_hold (Currency cfg) r (score_pot_id cfg) w"
    and "on_hold (Currency cfg) r (score_pot_id cfg) (inc_sufficients cfg a w) =
      on_hold (Currency cfg) r (score_pot_id cfg) w"
    and "on_hold (Currency cfg) r (score_pot_id cfg) (dec_sufficients cfg a w) =
      on_hold (Currency cfg) r (score_pot_id cfg) w"
  using assms unfolding world_frame_def Let_def by (metis snd_conv)+

lemma schedule_payout_inv:
  assumes inv: "payout_inv (Currency cfg) (score_pot_id cfg) s" and laws: "hold_laws (Currency cfg)"
    and n: "0 < n" "amount * n \<le> u128_max"
    and res: "score_schedule_payout_rounds cfg org amount n dur s = Inr (s', q)"
  shows "payout_inv (Currency cfg) (score_pot_id cfg) s'"
proof -
  let ?cur = "Currency cfg" and ?pot = "score_pot_id cfg"
  from res n obtain w1 where hold: "cur_hold ?cur Payout ?pot (amount * n) (world s) = Inr w1"
    and s': "s' = score_deposit (PayoutRoundsScheduled amount n dur) (s\<lparr>world := w1,
       RoundSchedules := RoundSchedules s @ [\<lparr>remaining = n, amount_per_round = amount, duration = dur\<rparr>]\<rparr>)"
    by (auto simp: score_schedule_payout_rounds_def)
  have "on_hold ?cur Payout ?pot w1 = on_hold ?cur Payout ?pot (world s) + amount * n"
    "on_hold ?cur Credit ?pot w1 = on_hold ?cur Credit ?pot (world s)"
    using hold_lawD [OF laws hold] by auto
  then show ?thesis
    using inv n by (auto simp: s' payout_inv_def rounds_inv_def holds_inv_def score_committed_def mult.commute)
qed

lemma score_committed_remove:
  assumes "i < length S"
  shows "score_committed (take i S @ drop (Suc i) S) + remaining (S ! i) * amount_per_round (S ! i) =
    score_committed S"
proof -
  have "score_committed S = score_committed (take i S @ S ! i # drop (Suc i) S)"
    using assms by (simp flip: id_take_nth_drop)
  then show ?thesis by (simp add: score_committed_def)
qed

lemma remove_payout_inv:
  assumes inv: "payout_inv (Currency cfg) (score_pot_id cfg) s" and laws: "hold_laws (Currency cfg)"
    and res: "score_remove_payout_schedule cfg org i s = Inr (s', q)"
  shows "payout_inv (Currency cfg) (score_pot_id cfg) s'"
proof -
  let ?cur = "Currency cfg" and ?pot = "score_pot_id cfg" and ?x = "RoundSchedules s ! i"
  let ?rest = "take i (RoundSchedules s) @ drop (Suc i) (RoundSchedules s)"
  from res have i: "i < length (RoundSchedules s)" by (simp add: score_remove_payout_schedule_def)
  then have x: "amount_per_round ?x * remaining ?x \<le> u128_max"
    using inv by (simp add: payout_inv_def holds_inv_def)
  from res x obtain m w1 where
    rel: "cur_release ?cur Payout ?pot (amount_per_round ?x * remaining ?x) BestEffort (world s) = Inr (m, w1)"
    and s': "s' = score_deposit (PayoutScheduleRemoved i) (s\<lparr>world := w1, RoundSchedules := ?rest\<rparr>)"
    by (auto simp: score_remove_payout_schedule_def Let_def)
  have w1: "on_hold ?cur Payout ?pot (world s) \<le> on_hold ?cur Payout ?pot w1 + remaining ?x * amount_per_round ?x"
    "on_hold ?cur Credit ?pot w1 = on_hold ?cur Credit ?pot (world s)"
    using release_lawD(1,3,4) [OF laws rel] by (auto simp: mult.commute)
  have "set ?rest \<subseteq> set (RoundSchedules s)"
    using set_take_subset set_drop_subset by fastforce
  with inv w1 score_committed_remove [OF i] have "payout_inv ?cur ?pot (s\<lparr>world := w1, RoundSchedules := ?rest\<rparr>)"
    by (auto simp: payout_inv_def rounds_inv_def holds_inv_def)
  then show ?thesis by (simp add: s')
qed

lemma redeem_payout_inv:
  assumes inv: "payout_inv (Currency cfg) (score_pot_id cfg) s" and laws: "hold_laws (Currency cfg)"
    and res: "redeem_credit cfg org dest s = Inr (s', q)"
  shows "payout_inv (Currency cfg) (score_pot_id cfg) s'"
proof -
  let ?cur = "Currency cfg" and ?pot = "score_pot_id cfg"
  from res obtain who p0 m w1 k w2 where p0: "sget (Participants s) who = Some p0"
    and rel: "cur_release ?cur Credit ?pot (credit p0) Exact (world s) = Inr (m, w1)"
    and tr: "cur_transfer ?cur ?pot dest m Expendable w1 = Inr (k, w2)"
    and s': "s' = score_deposit (CreditClaimed who dest k)
       (s\<lparr>world := w2, Participants := sput who (p0\<lparr>credit := 0\<rparr>) (Participants s)\<rparr>)"
    by (auto simp: redeem_credit_def Let_def)
  have wf: "wf_storage (Participants s)" using inv by (simp add: payout_inv_def rounds_inv_def)
  have "m = credit p0" by (rule release_lawD(5) [OF laws rel refl])
  with release_lawD(2,3,4) [OF laws rel] transfer_lawD(2) [OF laws tr]
  have w: "on_hold ?cur Credit ?pot (world s) = on_hold ?cur Credit ?pot w2 + credit p0"
    "on_hold ?cur Payout ?pot w2 = on_hold ?cur Payout ?pot (world s)"
    by auto
  from total_credit_sput [OF wf, of who "p0\<lparr>credit := 0\<rparr>"] p0
  have "total_credit (sput who (p0\<lparr>credit := 0\<rparr>) (Participants s)) + credit p0 = total_credit (Participants s)"
    by simp
  with inv w wf show ?thesis by (simp add: s' payout_inv_def rounds_inv_def holds_inv_def)
qed

lemma cash_out_payout_inv:
  assumes inv: "payout_inv cur pot s" and res: "cash_out cfg org s = Inr (s', q)"
  shows "payout_inv cur pot s'"
proof -
  from res obtain acc p0 where acc: "ensure_signed_or_participant cfg org = Inr acc"
    and p0: "sget (Participants s) (Account acc) = Some p0"
    by (auto simp: cash_out_def Let_def)
  define n where "n = sat_add u32_max (score p0) 1 div 2"
  let ?p = "p0\<lparr>score := score p0 - n, streak := reset_attendance (streak p0), cashed_out := True\<rparr>"
  let ?s1 = "award_participant_payout_points (Account acc) n s"
  have aw: "Participants ?s1 = Participants s" "world ?s1 = world s" "RoundSchedules ?s1 = RoundSchedules s"
    "RoundPlanning ?s1 = RoundPlanning s" "RoundPayouts ?s1 = RoundPayouts s"
    by (simp_all add: award_participant_payout_points_def Let_def split: option.splits)
  have R: "rounds_inv ?s1" by (rule award_points_inv) (use inv in \<open>simp add: payout_inv_def\<close>)
  have s': "s' = score_deposit (CashedOut (Account acc)) (?s1\<lparr>Participants := sput (Account acc) ?p (Participants s)\<rparr>)"
    using res acc p0 aw(1) by (auto simp: cash_out_def n_def Let_def)
  have wf: "wf_storage (Participants s)" using inv by (simp add: payout_inv_def rounds_inv_def)
  have "payout_inv cur pot ?s1"
    using R inv aw by (simp add: payout_inv_def holds_inv_def)
  then show ?thesis
    unfolding s' payout_inv_deposit
    by (rule payout_inv_frame)
       (use wf aw p0 total_credit_keep [OF wf p0, of ?p] in \<open>simp_all add: same_rounds_def\<close>)
qed

lemma register_payout_inv:
  assumes inv: "payout_inv (Currency cfg) (score_pot_id cfg) s" and frame: "world_frame cfg"
    and res: "register cfg org key s = Inr (s', q)"
  shows "payout_inv (Currency cfg) (score_pot_id cfg) s'"
proof -
  from res obtain acc p0 i w b where p0: "sget (Participants s) (Account acc) = Some p0"
    and rec: "recognize_personhood cfg i None (world s) = Inr w \<or>
      (\<exists>k w0. reserve_new_id cfg (world s) = (i, w0) \<and> recognize_personhood cfg i (Some k) w0 = Inr w)"
    and s': "s' = score_deposit (PersonhoodRecognized (Account acc) b)
           (s\<lparr>world := w, Participants := sput (Account acc) (p0\<lparr>recognition := Recognized i,
              reached_personhood := True, has_ever_reached_personhood := True\<rparr>) (Participants s)\<rparr>)"
    by (rule register_result) blast
  have wf: "wf_storage (Participants s)" using inv by (simp add: payout_inv_def rounds_inv_def)
  have w: "on_hold (Currency cfg) r (score_pot_id cfg) w = on_hold (Currency cfg) r (score_pot_id cfg) (world s)" for r
    using rec world_frameD(1,2) [OF frame] by metis
  show ?thesis
    unfolding s' payout_inv_deposit
    by (rule payout_inv_frame [OF inv])
       (use wf w total_credit_keep [OF wf p0] in \<open>simp_all add: same_rounds_def\<close>)
qed

lemma set_attendance_payout_inv:
  assumes inv: "payout_inv (Currency cfg) (score_pot_id cfg) s" and frame: "world_frame cfg"
    and res: "set_attendance cfg who b g s = Inr (p, s')"
  shows "payout_inv (Currency cfg) (score_pot_id cfg) s'"
proof -
  from res obtain p0 where p0: "sget (Participants s) who = Some p0"
    by (auto simp: set_attendance_def)
  note r = set_attendance_result [OF p0 res]
  have wf: "wf_storage (Participants s)" using inv by (simp add: payout_inv_def rounds_inv_def)
  have w: "on_hold (Currency cfg) h (score_pot_id cfg) (world s') =
      on_hold (Currency cfg) h (score_pot_id cfg) (world s)" for h
    using r(9) world_frameD(3) [OF frame] by (simp split: Recognition.split)
  show ?thesis
    by (rule payout_inv_frame [OF inv])
       (use r wf w total_credit_keep [OF wf p0 r(4)] in \<open>simp_all add: same_rounds_def\<close>)
qed

fun score_schedule_sane :: "('o, 'key, 'sig) score_call \<Rightarrow> bool" where
  "score_schedule_sane (DoSchedulePayoutRounds org amount n d) = (0 < n \<and> amount * n \<le> u128_max)"
| "score_schedule_sane _ = True"

definition score_guard ::
  "(ScoreHoldReason, 'w) currency \<Rightarrow> account_id \<Rightarrow>
   ('o, 'w, 'key, 'sig) score_config \<times> ('o, 'key, 'sig) score_call \<Rightarrow> 'w score_state \<Rightarrow> bool" where
  "score_guard cur pot x s \<longleftrightarrow>
     Currency (fst x) = cur \<and> score_pot_id (fst x) = pot \<and> hold_laws cur \<and> world_frame (fst x) \<and>
     score_schedule_sane (snd x) \<and> CurrentRoundIndex s < u32_max"

lemma score_dispatch_payout:
  assumes inv: "payout_inv (Currency cfg) (score_pot_id cfg) s"
    and laws: "hold_laws (Currency cfg)" and frame: "world_frame cfg"
    and sane: "score_schedule_sane x" and rnd: "CurrentRoundIndex s < u32_max"
    and res: "score_dispatch cfg x s = Inr s'"
  shows "payout_inv (Currency cfg) (score_pot_id cfg) s'"
proof (cases x)
  case (DoSchedulePayoutRounds org a n d)
  with res sane schedule_payout_inv [OF inv laws] show ?thesis by auto
next
  case (DoRemovePayoutSchedule org i)
  with res remove_payout_inv [OF inv laws] show ?thesis by auto
next
  case (DoTransitionRound org r)
  with res transition_payout_inv [OF inv rnd] show ?thesis by auto
next
  case (DoOperatePayoutRound org r limit)
  with res operate_payout_inv [OF inv laws] show ?thesis by auto
next
  case (DoCashOut org)
  with res cash_out_payout_inv [OF inv] show ?thesis by auto
next
  case (DoRedeemCredit org d)
  with res redeem_payout_inv [OF inv laws] show ?thesis by auto
next
  case (DoRegister org key)
  with res register_payout_inv [OF inv frame] show ?thesis by auto
next
  case (DoSetAttendance who b g)
  with res set_attendance_payout_inv [OF inv frame] show ?thesis by auto
next
  case (DoOnboardForRecognition a)
  have wf: "wf_storage (Participants s)" using inv by (simp add: payout_inv_def rounds_inv_def)
  from DoOnboardForRecognition res show ?thesis
    by (intro payout_inv_frame [OF inv])
       (use wf world_frameD(6) [OF frame] in \<open>auto simp: onboard_for_recognition_def
          can_onboard_for_recognition_def same_rounds_def total_credit_new new_participant_def scontains_def\<close>)
next
  case (DoOnboardExternallyRecognized a)
  have wf: "wf_storage (Participants s)" using inv by (simp add: payout_inv_def rounds_inv_def)
  from DoOnboardExternallyRecognized res show ?thesis
    by (intro payout_inv_frame [OF inv])
       (use wf in \<open>auto simp: onboard_externally_recognized_def same_rounds_def total_credit_new
          new_participant_def scontains_def\<close>)
next
  case (DoOffboard who)
  have wf: "wf_storage (Participants s)" using inv by (simp add: payout_inv_def rounds_inv_def)
  from DoOffboard res show ?thesis
    by (intro payout_inv_frame [OF inv])
       (use wf world_frameD(7) [OF frame] total_credit_sdel [OF wf] in
         \<open>auto simp: offboard_def same_rounds_def split: AccountOrPerson.splits\<close>)
next
  case DoStartSession
  have wf: "wf_storage (Participants s)" using inv by (simp add: payout_inv_def rounds_inv_def)
  from DoStartSession res obtain w where s': "s' = (update_thresholds cfg s)\<lparr>world := w\<rparr>"
    and st: "start_people_set_mutation_session cfg (world s) = (Inr (), w)"
    by (auto simp: session_result_def start_attendance_report_session_def update_thresholds_def Let_def
          split: prod.splits sum.splits)
  show ?thesis
    by (rule payout_inv_frame [OF inv])
       (use s' wf world_frameD(4) [OF frame st] in \<open>simp_all add: same_rounds_def update_thresholds_def\<close>)
next
  case DoEndSession
  have wf: "wf_storage (Participants s)" using inv by (simp add: payout_inv_def rounds_inv_def)
  from DoEndSession res obtain w where s': "s' = s\<lparr>world := w\<rparr>"
    and st: "end_people_set_mutation_session cfg (world s) = (Inr (), w)"
    by (auto simp: session_result_def end_attendance_report_session_def split: prod.splits sum.splits)
  show ?thesis
    by (rule payout_inv_frame [OF inv])
       (use s' wf world_frameD(5) [OF frame st] in \<open>simp_all add: same_rounds_def\<close>)
next
  case (DoSetAbsenceGraceSchedule org ts)
  with res have s': "same_rounds s s'" "Participants s' = Participants s" "world s' = world s"
    by (auto simp: set_absence_grace_schedule_def same_rounds_def)
  show ?thesis
    by (rule payout_inv_frame [OF inv s'(1)])
       (use inv s' in \<open>simp_all add: payout_inv_def rounds_inv_def\<close>)
next
  case (DoSetPersonhoodThresholdSchedule org ts)
  with res have s': "same_rounds s s'" "Participants s' = Participants s" "world s' = world s"
    by (auto simp: set_personhood_threshold_schedule_def same_rounds_def)
  show ?thesis
    by (rule payout_inv_frame [OF inv s'(1)])
       (use inv s' in \<open>simp_all add: payout_inv_def rounds_inv_def\<close>)
qed

lemma score_step_payout:
  "payout_inv cur pot s \<Longrightarrow> score_guard cur pot x s \<Longrightarrow> score_step x s = Inr s' \<Longrightarrow> payout_inv cur pot s'"
  using score_dispatch_payout [of "fst x" s "snd x" s'] by (auto simp: score_guard_def score_step_def)

interpretation score_payout: pallet_contract score_step "payout_inv cur pot" "score_guard cur pot"
  for cur pot
  by unfold_locales (rule score_step_payout)

lemma score_genesis_payout: "payout_inv cur pot (score_genesis w)"
  by (simp add: payout_inv_def rounds_inv_def holds_inv_def score_genesis_def points_of_def
        score_committed_def planned_def paying_def total_credit_def scontains_def)

end
