(* ===== verification/Score_Props.thy ===== *)
theory Score_Props
  imports Score_Payout
begin

text \<open>
  The properties of the score pallet, with a concrete configuration for their witnesses.
\<close>

subsection \<open>A configuration for the witnesses\<close>

datatype score_origin = FromNone | FromSigned account_id | FromPerson person_alias | FromManager

type_synonym score_world = "(ScoreHoldReason \<times> account_id, nat) storage"

definition score_demo :: "nat \<Rightarrow> nat \<Rightarrow> (score_origin, score_world, nat, nat) score_config" where
  "score_demo block active = \<lparr>
     is_none_origin = (\<lambda>x. x = FromNone),
     try_signed = (\<lambda>x. case x of FromSigned a \<Rightarrow> Some a | _ \<Rightarrow> None),
     try_account_participant = (\<lambda>_. None),
     try_person = (\<lambda>x. case x of FromPerson a \<Rightarrow> Some a | _ \<Rightarrow> None),
     is_manager_or_root = (\<lambda>x. x = FromManager),
     block_number = block, active_count = active, MaxPayoutRoundSchedules = 4,
     OffchainWorkInterval = 1, score_pot_id = [9], Currency = book_currency,
     reserve_new_id = (\<lambda>w. (7, w)), recognize_personhood = (\<lambda>_ _ w. Inr w),
     suspend_personhood = (\<lambda>_ w. (Inr (), w)),
     start_people_set_mutation_session = (\<lambda>w. (Inr (), w)),
     end_people_set_mutation_session = (\<lambda>w. (Inr (), w)),
     can_start_people_set_mutation_session = (\<lambda>_. True),
     inc_sufficients = (\<lambda>_ w. w), dec_sufficients = (\<lambda>_ w. w),
     verify_signature = (\<lambda>_ _ _. True) \<rparr>"

lemma score_demo_sel [simp]:
  "is_none_origin (score_demo b n) = (\<lambda>x. x = FromNone)"
  "try_signed (score_demo b n) = (\<lambda>x. case x of FromSigned a \<Rightarrow> Some a | _ \<Rightarrow> None)"
  "try_person (score_demo b n) = (\<lambda>x. case x of FromPerson a \<Rightarrow> Some a | _ \<Rightarrow> None)"
  "is_manager_or_root (score_demo b n) = (\<lambda>x. x = FromManager)"
  "block_number (score_demo b n) = b" "active_count (score_demo b n) = n"
  "MaxPayoutRoundSchedules (score_demo b n) = 4" "score_pot_id (score_demo b n) = [9]"
  "Currency (score_demo b n) = book_currency" "reserve_new_id (score_demo b n) = (\<lambda>w. (7, w))"
  "recognize_personhood (score_demo b n) = (\<lambda>_ _ w. Inr w)"
  "suspend_personhood (score_demo b n) = (\<lambda>_ w. (Inr (), w))"
  "start_people_set_mutation_session (score_demo b n) = (\<lambda>w. (Inr (), w))"
  "inc_sufficients (score_demo b n) = (\<lambda>_ w. w)" "verify_signature (score_demo b n) = (\<lambda>_ _ _. True)"
  by (simp_all add: score_demo_def)


definition demo_account :: "nat \<Rightarrow> Recognition \<Rightarrow> Participant" where
  "demo_account sc rec = new_participant sc (rec \<noteq> NotRecognized) rec"

subsection \<open>Attendance\<close>

lemma games_of_fold:
  "games_of (foldl store_attendance default_attendance gs) = take 8 (rev gs @ replicate 8 True)"
proof (induction gs rule: rev_induct)
  case (snoc g gs)
  define xs where "xs = rev gs @ replicate 8 True"
  have "games_of (foldl store_attendance default_attendance (gs @ [g])) = g # butlast (take 8 xs)"
    using snoc by (simp only: foldl_append foldl.simps games_of_store xs_def)
  also have "butlast (take 8 xs) = take 7 xs"
    using butlast_take [of 8 xs] by (simp add: xs_def del: take_append)
  also have "g # take 7 xs = take (Suc 7) (g # xs)" by (simp only: take_Suc_Cons)
  finally show ?case by (simp add: xs_def)
qed (simp add: games_of_default)

text \<open>
  C10: the attendance byte counts misses as the list of games would: after any sequence of games
  the misses in a window are the absences among the most recent games, where games before the
  first count as attended and at most eight games are looked at.
\<close>

theorem misses_count_recent_games:
  "misses_in_window (foldl store_attendance default_attendance gs) w =
   length (filter Not (take (min w 8) (rev gs @ replicate 8 True)))"
  by (simp add: misses_games games_of_fold min.commute)

lemma set_attendance_returns:
  "sget (Participants s) who = Some p0 \<Longrightarrow> \<exists>p s'. set_attendance cfg who b g s = Inr (p, s')"
  unfolding set_attendance_def Let_def by (simp split: prod.split)

text \<open>
  C9: a recognised participant is suspended by an attendance report exactly when it was absent
  and either there is no window of grace or the misses in the window, this one included,
  exceed the allowance; only then is the people service told, and of this person only. The
  participant can be suspended once at most: it is then no longer recognised.
\<close>

theorem recognised_suspended_iff:
  assumes "people_inv s" and "sget (Participants s) who = Some p0" and "recognition p0 = Recognized i"
    and "set_attendance cfg who attended game s = Inr (p, s')"
    and "AbsenceGraceRatio s = (allowed, win)"
  shows "(let susp = (\<not> attended \<and> (win = 0 \<or>
            allowed < misses_in_window (store_attendance (attendance_history p0) attended) win))
    in recognition p = (if susp then Suspended i else Recognized i) \<and>
       reached_personhood p = (\<not> susp) \<and>
       world s' = (if susp then snd (suspend_personhood cfg [i] (world s)) else world s) \<and>
       sget (Participants s') who = Some p)"
proof -
  note r = set_attendance_result [OF assms(2,4)]
  have reached: "reached_personhood p0"
    using people_invD [OF assms(1,2)] assms(3) by (simp add: participant_ok_def)
  let ?p1 = "attendance_score (PersonhoodThreshold s) attended game p0"
  have "suspends (PersonhoodThreshold s) (AbsenceGraceRatio s) attended ?p1 \<longleftrightarrow>
      (\<not> attended \<and> (win = 0 \<or>
         allowed < misses_in_window (store_attendance (attendance_history p0) attended) win))"
    using reached assms(3,5) by (auto simp: suspends_def attendance_score_same)
  with r(1,6,8,9) reached assms(3) show ?thesis by (simp add: Let_def)
qed

definition demo_people :: "score_world score_state" where
  "demo_people = (score_genesis [])\<lparr>PersonhoodThreshold := 1, AbsenceGraceRatio := (1, 2),
     Participants := [(Account [1], demo_account 3 (Recognized 5))]\<rparr>"

lemma demo_people_inv: "people_inv demo_people"
  using score_genesis_people [of "[] :: score_world"]
  by (auto simp: demo_people_def people_inv_def thresholds_ok_def score_genesis_def ratio_ok_def sget_def
        participant_ok_def demo_account_def new_participant_def MAX_PERSONHOOD_THRESHOLD_def split: if_splits)

theorem recognised_suspended_iff_witness:
  "\<exists>p s'. set_attendance (score_demo 1 10) (Account [1]) False 4 demo_people = Inr (p, s') \<and>
     recognition p = Recognized 5"
proof -
  have p0: "sget (Participants demo_people) (Account [1]) = Some (demo_account 3 (Recognized 5))"
    by (simp add: demo_people_def sget_def)
  obtain p s' where res: "set_attendance (score_demo 1 10) (Account [1]) False 4 demo_people = Inr (p, s')"
    using set_attendance_returns [OF p0] by metis
  have rec: "recognition (demo_account 3 (Recognized 5)) = Recognized 5"
    and hist: "attendance_history (demo_account 3 (Recognized 5)) = default_attendance"
    by (simp_all add: demo_account_def new_participant_def)
  have "misses_in_window (store_attendance default_attendance False) 2 = 1"
    using misses_games [of "store_attendance default_attendance False" 2] games_of_store games_of_default
    by (simp add: numeral_eq_Suc)
  with recognised_suspended_iff [OF demo_people_inv p0 rec res, of 1 2] hist
  have "recognition p = Recognized 5" by (simp add: demo_people_def)
  with res show ?thesis by blast
qed

subsection \<open>Participants\<close>

text \<open>
  C6: in every state reached from genesis a participant's score is at most 21; who is recognised
  has reached personhood, who ever was recognised has it on record, and the participants
  recognised elsewhere are exactly those that take part as a person; the threshold and the
  ratio of grace in force are within their ranges.
\<close>

theorem participants_in_order:
  assumes "run_calls score_step xs (score_genesis w) = s" and "sget (Participants s) who = Some p"
  shows "score p \<le> 21 \<and>
    (is_recognized (recognition p) \<longrightarrow> reached_personhood p) \<and>
    (reached_personhood p \<or> recognition p \<noteq> NotRecognized \<longrightarrow> has_ever_reached_personhood p) \<and>
    (is_externally_recognized (recognition p) \<longleftrightarrow> account_of who = None) \<and>
    PersonhoodThreshold s \<le> 21 \<and> snd (AbsenceGraceRatio s) \<le> 8 \<and>
    (fst (AbsenceGraceRatio s) < snd (AbsenceGraceRatio s) \<or> AbsenceGraceRatio s = (0, 0))"
proof -
  have inv: "people_inv s"
    using score_people.run_keeps [OF score_genesis_people guarded_run_trivial] assms(1) by metis
  have "is_externally_recognized r \<longleftrightarrow> r = ExternallyRecognized" for r by (cases r) simp_all
  with inv people_invD [OF inv assms(2)] show ?thesis
    by (auto simp: participant_ok_def people_inv_def thresholds_ok_def ratio_ok_def
          MAX_PERSONHOOD_THRESHOLD_def)
qed

definition score_run :: "((score_origin, score_world, nat, nat) score_config \<times> (score_origin, nat, nat) score_call) list" where
  "score_run = [(score_demo 1 10, DoOnboardForRecognition [1]), (score_demo 1 10, DoStartSession)]"

lemma score_run_result:
  "run_calls score_step score_run (score_genesis []) = (score_genesis [])\<lparr>
     Participants := [(Account [1], new_participant 0 False NotRecognized)],
     PersonhoodThreshold := 1, AbsenceGraceRatio := (5, 6)\<rparr>"
  by (simp add: score_run_def score_step_def onboard_for_recognition_def can_onboard_for_recognition_def
        session_result_def start_attendance_report_session_def update_thresholds_def
        calculate_personhood_threshold_def calculate_absence_grace_ratio_def score_genesis_def
        DefaultPersonhoodThresholdTiers_def DefaultAbsenceGraceTiers_def sget_def sput_def scontains_def)

theorem participants_in_order_witness:
  "score (new_participant 0 False NotRecognized) \<le> 21 \<and>
   PersonhoodThreshold (run_calls score_step score_run (score_genesis [])) \<le> 21"
proof -
  have "sget (Participants (run_calls score_step score_run (score_genesis []))) (Account [1]) =
      Some (new_participant 0 False NotRecognized)"
    by (simp add: score_run_result sget_def)
  from participants_in_order [OF refl this] show ?thesis by simp
qed

text \<open>
  While it takes part, a participant's recognition moves only from not recognised to
  recognised, from recognised to suspended and back, always under the same personal identity,
  and never changes for one recognised elsewhere.
\<close>

theorem recognition_moves:
  assumes "run_calls score_step xs (score_genesis w) = s" and "score_dispatch cfg x s = Inr s'"
    and "sget (Participants s) who = Some p" and "sget (Participants s') who = Some p'"
  shows "recognition p' = recognition p \<or> recognition_step (recognition p) (recognition p')"
proof -
  have "people_inv s"
    using score_people.run_keeps [OF score_genesis_people guarded_run_trivial] assms(1) by metis
  from score_dispatch_people [OF this assms(2)] assms(3,4) show ?thesis
    by (auto simp: people_contract_def recognition_follows_def)
qed

definition demo_onboarded :: "score_world score_state" where
  "demo_onboarded = (score_genesis [])\<lparr>Participants := [(Account [1], new_participant 0 False NotRecognized)]\<rparr>"

definition demo_registered :: "score_world score_state" where
  "demo_registered = demo_onboarded\<lparr>Participants := [(Account [1],
     (new_participant 0 False NotRecognized)\<lparr>recognition := Recognized 7, reached_personhood := True,
        has_ever_reached_personhood := True\<rparr>)],
     score_events := [PersonhoodRecognized (Account [1]) False]\<rparr>"

lemma demo_onboard: "onboard_for_recognition (score_demo b n) [1] (score_genesis []) = Inr demo_onboarded"
  by (simp add: onboard_for_recognition_def can_onboard_for_recognition_def demo_onboarded_def
        score_genesis_def scontains_def sput_def)

lemma demo_register:
  "register (score_demo b n) (FromSigned [1]) (Some (3, 4)) demo_onboarded = Inr (demo_registered, PaysNo)"
  by (simp add: register_def ensure_signed_or_participant_def demo_onboarded_def demo_registered_def
        score_genesis_def new_participant_def sget_def sput_def score_deposit_def)
     (simp add: Let_def)

text \<open>
  C26: before the first report session the threshold is the storage default zero, so an account
  that has just been onboarded, with score zero, can register as a person.
\<close>

theorem registers_with_zero_score:
  "\<exists>s1 s2 p. onboard_for_recognition (score_demo 1 10) [1] (score_genesis []) = Inr s1 \<and>
     register (score_demo 1 10) (FromSigned [1]) (Some (3, 4)) s1 = Inr (s2, PaysNo) \<and>
     sget (Participants s2) (Account [1]) = Some p \<and> score p = 0 \<and> recognition p = Recognized 7"
proof -
  have "sget (Participants demo_registered) (Account [1]) =
      Some ((new_participant 0 False NotRecognized)\<lparr>recognition := Recognized 7, reached_personhood := True,
        has_ever_reached_personhood := True\<rparr>)"
    by (simp add: demo_registered_def sget_def)
  then show ?thesis using demo_onboard demo_register by (force simp: new_participant_def)
qed

theorem recognition_moves_witness:
  "recognition_step NotRecognized (Recognized 7)"
proof -
  have run: "run_calls score_step [(score_demo 1 10, DoOnboardForRecognition [1])] (score_genesis []) = demo_onboarded"
    by (simp add: score_step_def demo_onboard)
  have d: "score_dispatch (score_demo 1 10) (DoRegister (FromSigned [1]) (Some (3, 4))) demo_onboarded = Inr demo_registered"
    by (simp add: demo_register)
  have p0: "sget (Participants demo_onboarded) (Account [1]) = Some (new_participant 0 False NotRecognized)"
    by (simp add: demo_onboarded_def sget_def)
  obtain p where p: "sget (Participants demo_registered) (Account [1]) = Some p" "recognition p = Recognized 7"
    by (simp add: demo_registered_def sget_def)
  from recognition_moves [OF run d p0 p(1)] p(2) show ?thesis by (simp add: new_participant_def)
qed

text \<open>
  A validated schedule gives every population a threshold between 1 and 21 that never falls
  as the population grows.
\<close>

theorem threshold_schedule_sound:
  assumes "validate_personhood_threshold_tiers ts = Inr ()" and "m \<le> n" and "n \<le> u32_max"
  shows "1 \<le> calculate_personhood_threshold ts m \<and>
    calculate_personhood_threshold ts m \<le> calculate_personhood_threshold ts n \<and>
    calculate_personhood_threshold ts n \<le> 21 \<and>
    (\<exists>t\<in>set ts. n \<le> pt_population t \<and> calculate_personhood_threshold ts n = score_threshold t)"
proof -
  have ts: "ts \<noteq> []" "pt_population (last ts) = u32_max"
    using assms(1) by (simp_all add: validate_personhood_iff)
  obtain t where t: "find (\<lambda>t. n \<le> pt_population t) ts = Some t" "t \<in> set ts"
    using find_total [OF ts assms(3)] by metis
  then have "n \<le> pt_population t" by (auto simp: find_Some_iff)
  moreover have "calculate_personhood_threshold ts n = score_threshold t"
    using t by (simp add: calculate_personhood_threshold_def)
  moreover have "1 \<le> calculate_personhood_threshold ts m" "calculate_personhood_threshold ts n \<le> 21"
    using threshold_range(1) [OF assms(1), of m] threshold_range(2) [OF assms(1), of n]
    by (simp_all add: MAX_PERSONHOOD_THRESHOLD_def)
  ultimately show ?thesis using t(2) threshold_mono [OF assms] by blast
qed

theorem threshold_schedule_sound_witness:
  "calculate_personhood_threshold DefaultPersonhoodThresholdTiers 100
     \<le> calculate_personhood_threshold DefaultPersonhoodThresholdTiers 30000"
  using threshold_schedule_sound [OF default_schedules_valid(1), of 100 30000] by simp

text \<open>
  C21: cashing out turns half the score, rounded up, into points of the current round, keeps the
  other half, and is refused a second time until the next attendance report.
\<close>

theorem cash_out_halves:
  assumes "cash_out cfg origin s = Inr (s', q)" and "ensure_signed_or_participant cfg origin = Inr acc"
    and "sget (Participants s) (Account acc) = Some p0" and "score p0 < u32_max"
    and "CurrentRoundPoints s + (score p0 + 1) div 2 \<le> u32_max"
  shows "\<exists>p1. sget (Participants s') (Account acc) = Some p1 \<and> score p1 = score p0 div 2 \<and>
      score p1 + (score p0 + 1) div 2 = score p0 \<and> credit p1 = credit p0 \<and>
      CurrentRoundPoints s' = CurrentRoundPoints s + (score p0 + 1) div 2 \<and>
      (\<forall>cfg' origin'. ensure_signed_or_participant cfg' origin' = Inr acc \<longrightarrow>
         cash_out cfg' origin' s' = Inl (Module CashOutCooldown))"
proof -
  let ?n = "(score p0 + 1) div 2"
  let ?p1 = "p0\<lparr>score := score p0 - ?n, streak := reset_attendance (streak p0), cashed_out := True\<rparr>"
  let ?s1 = "award_participant_payout_points (Account acc) ?n s"
  have never: "\<not> has_ever_reached_personhood p0"
    using assms(1-3) by (auto simp: cash_out_def Let_def)
  have s': "s' = score_deposit (CashedOut (Account acc)) (?s1\<lparr>Participants := sput (Account acc) ?p1 (Participants ?s1)\<rparr>)"
    using assms(1-4) by (auto simp: cash_out_def Let_def)
  have "CurrentRoundPoints ?s1 = CurrentRoundPoints s + ?n"
    using assms(5) by (simp add: award_participant_payout_points_def checked_add_def Let_def)
  moreover have "score p0 - ?n = score p0 div 2" "score p0 div 2 + ?n = score p0" by linarith+
  ultimately show ?thesis
    using never by (simp add: s' cash_out_def Let_def)
qed

theorem cash_out_halves_witness:
  "\<exists>s'. cash_out (score_demo 1 10) (FromSigned [1])
      ((score_genesis [])\<lparr>Participants := [(Account [1], demo_account 5 NotRecognized)]\<rparr>) = Inr (s', PaysNo) \<and>
     CurrentRoundPoints s' = 3"
proof -
  let ?s = "(score_genesis ([] :: score_world))\<lparr>Participants := [(Account [1], demo_account 5 NotRecognized)]\<rparr>"
  have p0: "sget (Participants ?s) (Account [1]) = Some (demo_account 5 NotRecognized)" by (simp add: sget_def)
  have sg: "ensure_signed_or_participant (score_demo 1 10) (FromSigned [1]) = Inr [1]"
    by (simp add: ensure_signed_or_participant_def)
  obtain s' where run: "cash_out (score_demo 1 10) (FromSigned [1]) ?s = Inr (s', PaysNo)"
    using p0 sg by (simp add: cash_out_def Let_def demo_account_def new_participant_def)
  from cash_out_halves [OF run sg p0] have "CurrentRoundPoints s' = 3"
    by (auto simp: demo_account_def new_participant_def score_genesis_def)
  with run show ?thesis by blast
qed

subsection \<open>Payout rounds\<close>



text \<open>
  With the payout invariant, operating a round never asks for more than is left of it or
  than the pot holds for payouts: so the exact releases of \<open>operate_payout_round\<close> ask for funds
  that are there; what it credits to participants is at most what it moves.
\<close>

theorem operate_asks_for_held_funds:
  assumes "payout_inv cur pot s" and "sget (RoundPayouts s) r = Some rd"
    and "drain_loop r rd limit 0 s = (credited, finished, s1)"
  shows "credited \<le> remaining_balance rd \<and> remaining_balance rd \<le> on_hold cur Payout pot (world s) \<and>
    total_credit (Participants s1) \<le> total_credit (Participants s) + credited \<and>
    (finished \<longrightarrow> points_of (RoundsPointsForParticipant s1) r = 0)"
proof -
  have R: "rounds_inv s" and H: "holds_inv cur pot s" using assms(1) by (simp_all add: payout_inv_def)
  have cov: "round_covers rd (remaining_balance rd - 0) (points_of (RoundsPointsForParticipant s) r)"
    using rounds_invD(9) [OF R assms(2)] by simp
  note d = drain_loop_covers [OF assms(3) rounds_invD(1,2) [OF R] le0 rounds_invD(8) [OF R assms(2)] cov]
  have "remaining_balance rd \<le> paying (RoundPayouts s)"
    using paying_sdel [OF rounds_invD(3) [OF R] assms(2)] by simp
  then have "remaining_balance rd \<le> on_hold cur Payout pot (world s)"
    using H by (simp add: holds_inv_def)
  with d show ?thesis using points_of_unused by auto
qed

definition demo_payout :: "score_world score_state" where
  "demo_payout = (score_genesis [((Payout, [9]), 100)])\<lparr>
     Participants := [(Account [1], demo_account 2 NotRecognized), (Account [2], demo_account 2 NotRecognized)],
     RoundsPointsForParticipant := [((0, Account [1]), 1), ((0, Account [2]), 2)],
     CurrentRoundIndex := 1,
     RoundPayouts := [(0, \<lparr>remaining_balance = 100, point_price = 33, remainder = 1, total_points = 3\<rparr>)]\<rparr>"

lemma demo_payout_inv: "payout_inv book_currency [9] demo_payout"
  by (auto simp: payout_inv_def rounds_inv_def holds_inv_def demo_payout_def score_genesis_def
        points_of_def score_committed_def planned_def paying_def total_credit_def scontains_def sget_def
        wf_storage_def book_currency_def demo_account_def new_participant_def round_covers_def
        round_worth_def split: if_splits)

theorem operate_asks_for_held_funds_witness:
  "\<exists>c b s1. drain_loop 0 \<lparr>remaining_balance = 100, point_price = 33, remainder = 1, total_points = 3\<rparr>
      5 0 demo_payout = (c, b, s1) \<and> c \<le> 100 \<and> total_credit (Participants s1) \<le> c"
proof -
  let ?rd = "\<lparr>remaining_balance = 100, point_price = 33, remainder = 1, total_points = 3\<rparr>"
  obtain c b s1 where d: "drain_loop 0 ?rd 5 0 demo_payout = (c, b, s1)" by (metis prod_cases3)
  have "sget (RoundPayouts demo_payout) 0 = Some ?rd" by (simp add: demo_payout_def sget_def)
  from operate_asks_for_held_funds [OF demo_payout_inv this d]
  have "c \<le> 100" "total_credit (Participants s1) \<le> total_credit (Participants demo_payout) + c" by simp_all
  moreover have "total_credit (Participants demo_payout) = 0"
    by (simp add: demo_payout_def total_credit_def demo_account_def new_participant_def)
  ultimately show ?thesis using d by auto
qed

definition entries_of :: "nat \<Rightarrow> (nat \<times> AccountOrPerson, nat) storage \<Rightarrow> nat" where
  "entries_of r P = length (filter (\<lambda>p. fst (fst p) = r) P)"

lemma entries_of_sdel:
  "next_in_round r P = Some (who, pts) \<Longrightarrow> entries_of r (sdel (r, who) P) < entries_of r P"
proof (induction r P rule: next_in_round.induct)
  case (2 r r' w q rest)
  have le: "entries_of r (sdel k m) \<le> entries_of r m" for k and m :: "(nat \<times> AccountOrPerson, nat) storage"
    by (induction m) (auto simp: entries_of_def sdel_def)
  from 2 le [of "(r, who)" rest] show ?case
    by (auto simp: entries_of_def sdel_def split: if_splits)
qed simp

lemma drain_loop_finishes:
  "entries_of r (RoundsPointsForParticipant s) < n \<Longrightarrow> drain_loop r rd n c s = (c', b, s') \<Longrightarrow> b"
proof (induction n arbitrary: c s)
  case (Suc n)
  show ?case
  proof (cases "next_in_round r (RoundsPointsForParticipant s)")
    case None
    with Suc.prems show ?thesis by simp
  next
    case (Some q)
    obtain who pts where q: "q = (who, pts)" by (cases q)
    have lt: "entries_of r (sdel (r, who) (RoundsPointsForParticipant s)) < n"
      using entries_of_sdel Some q Suc.prems(1) by fastforce
    have "\<exists>c2 s2. drain_loop r rd n c2 s2 = (c', b, s') \<and>
        RoundsPointsForParticipant s2 = sdel (r, who) (RoundsPointsForParticipant s)"
      using Suc.prems(2) Some q by (cases "sget (Participants s) who") (force simp: Let_def)+
    with Suc.IH lt show ?thesis by metis
  qed
qed simp

text \<open>
  C8: a round that is paying out can always be brought to its end: operated with a limit above
  the number of its entries, the call returns and the round is no longer in storage, whether
  the transfers worked or not.
\<close>

theorem payout_round_ends:
  assumes "is_none_origin cfg origin" and "scontains (RoundPayouts s) r"
    and "entries_of r (RoundsPointsForParticipant s) < limit"
  shows "\<exists>s'. operate_payout_round cfg origin r limit s = Inr s' \<and> \<not> scontains (RoundPayouts s') r"
proof -
  from assms(2) obtain rd where rd: "sget (RoundPayouts s) r = Some rd" by (auto simp: scontains_def)
  obtain c b s1 where loop: "drain_loop r rd limit 0 s = (c, b, s1)" by (metis prod_cases3)
  have b: b by (rule drain_loop_finishes [OF assms(3) loop])
  show ?thesis
  proof (cases "operate_in_layer cfg r rd limit s")
    case (Inl e)
    with assms(1) rd show ?thesis
      by (simp add: operate_payout_round_def validate_operate_payout_round_def)
  next
    case (Inr s2)
    then have "\<not> scontains (RoundPayouts s2) r"
      using loop b by (auto simp: operate_in_layer_def Let_def)
    with Inr assms(1) rd show ?thesis
      by (simp add: operate_payout_round_def validate_operate_payout_round_def)
  qed
qed

theorem payout_round_ends_witness:
  "\<exists>s'. operate_payout_round (score_demo 1 10) FromNone 0 3 demo_payout = Inr s' \<and>
     \<not> scontains (RoundPayouts s') 0"
  using payout_round_ends [of "score_demo 1 10" FromNone demo_payout 0 3]
  by (simp add: demo_payout_def scontains_def sget_def entries_of_def)

end
