(* ===== verification/Origin_Restriction.thy ===== *)
theory Origin_Restriction
  imports Prelude
begin

text \<open>
  The pallet and transaction extension of \<open>pallets/origin-restriction/src/lib.rs\<close>: an entity
  behind a restricted origin accumulates the fees of its transactions as usage, which recovers
  block by block; a transaction that would exceed the allowance is refused, but for the calls
  that may exceed it once from zero usage.
\<close>

subsection \<open>Definitions\<close>

record Allowance =
  max_usage :: nat
  recovery_per_block :: nat

record Usage =
  used :: nat
  at_block :: nat

type_synonym 'e usages = "('e, Usage) storage"

datatype RestrictionError = NoUsage | NotZero

datatype RestrictionInvalid = InvalidCall | InvalidPayment

text \<open>
  The runtime gives the entity of an origin and its allowance, the calls allowed to exceed it
  once, and the fees by weight and length.
\<close>

record ('o, 'e, 'call, 'wt) restriction_config =
  is_none :: "'o \<Rightarrow> bool"
  allowance :: "'e \<Rightarrow> Allowance"
  restricted_entity :: "'o \<Rightarrow> 'e option"
  OperationAllowedOneTimeExcess :: "'e \<Rightarrow> 'call \<Rightarrow> bool"
  weight_to_fee :: "'wt \<Rightarrow> nat"
  length_to_fee :: "nat \<Rightarrow> nat"
  ext_weight :: 'wt
  zero_weight :: 'wt

text \<open>The usage left after the recovery since it was stored; the elapsed blocks saturate to \<open>u32\<close>.\<close>

definition recovered :: "Allowance \<Rightarrow> nat \<Rightarrow> Usage \<Rightarrow> nat" where
  "recovered al now u =
     (let elapsed = min (now - at_block u) u32_max;
          receive_back = sat_mul u128_max (recovery_per_block al) elapsed
      in used u - receive_back)"

definition clean_usage ::
  "('o, 'e, 'call, 'wt) restriction_config \<Rightarrow> nat \<Rightarrow> 'o \<Rightarrow> 'e \<Rightarrow> 'e usages \<Rightarrow>
   RestrictionError dispatch_error + ('e usages \<times> 'e \<times> pays)" where
  "clean_usage cfg now origin entity us =
     (if is_none cfg origin then Inl BadOrigin
      else
        ok_or (sget us entity) (Module NoUsage) (\<lambda>usage.
        let us1 = sdel entity us;
            left = recovered (allowance cfg entity) now usage
        in ensure (left = 0) (Module NotZero) (Inr (us1, entity, PaysNo))))"

definition extrinsic_fee :: "('o, 'e, 'call, 'wt) restriction_config \<Rightarrow> 'wt \<Rightarrow> nat \<Rightarrow> nat" where
  "extrinsic_fee cfg weight len = sat_add u128_max (weight_to_fee cfg weight) (length_to_fee cfg len)"

datatype 'e Val = ValCharge nat 'e | ValNoCharge

datatype ('e, 'wt) Pre = PreCharge nat 'e | PreNoCharge 'wt

definition restrict_weight :: "('o, 'e, 'call, 'wt) restriction_config \<Rightarrow> bool \<Rightarrow> 'wt" where
  "restrict_weight cfg enabled = (if \<not> enabled then zero_weight cfg else ext_weight cfg)"

text \<open>
  \<open>validate\<close> with the flag of the extension; a refused transaction leaves no storage behind, so
  only a valid one returns the usages.
\<close>

definition restrict_validate ::
  "('o, 'e, 'call, 'wt) restriction_config \<Rightarrow> bool \<Rightarrow> nat \<Rightarrow> 'o \<Rightarrow> 'call \<Rightarrow> 'wt \<Rightarrow> nat \<Rightarrow> 'e usages \<Rightarrow>
   RestrictionInvalid + ('e Val \<times> 'e usages)" where
  "restrict_validate cfg enabled now origin call weight len us =
     (case restricted_entity cfg origin of
        None \<Rightarrow> Inr (ValNoCharge, us)
      | Some entity \<Rightarrow>
          let al = allowance cfg entity
          in ensure enabled InvalidCall (
             let usage = (case sget us entity of
                            Some u \<Rightarrow> \<lparr>used = recovered al now u, at_block = now\<rparr>
                          | None \<Rightarrow> \<lparr>used = 0, at_block = now\<rparr>);
                 usage_without_new_xt = used usage;
                 fee = extrinsic_fee cfg weight len;
                 usage' = usage\<lparr>used := sat_add u128_max (used usage) fee\<rparr>;
                 us' = sput entity usage' us;
                 allowed_one_time_excess =
                   (usage_without_new_xt = 0 \<and> OperationAllowedOneTimeExcess cfg entity call)
             in if used usage' \<le> max_usage al \<or> allowed_one_time_excess
                then Inr (ValCharge fee entity, us')
                else Inl InvalidPayment))"

definition restrict_prepare ::
  "('o, 'e, 'call, 'wt) restriction_config \<Rightarrow> bool \<Rightarrow> 'e Val \<Rightarrow> ('e, 'wt) Pre" where
  "restrict_prepare cfg enabled val =
     (case val of
        ValCharge fee entity \<Rightarrow> PreCharge fee entity
      | ValNoCharge \<Rightarrow> PreNoCharge (restrict_weight cfg enabled))"

definition post_dispatch_details ::
  "('o, 'e, 'call, 'wt) restriction_config \<Rightarrow> ('e, 'wt) Pre \<Rightarrow> pays \<Rightarrow> 'wt option \<Rightarrow> nat \<Rightarrow> 'e usages \<Rightarrow>
   'wt \<times> 'e usages" where
  "post_dispatch_details cfg pre pays_fee actual_weight len us =
     (case pre of
        PreCharge fee entity \<Rightarrow>
          (zero_weight cfg,
           case sget us entity of
             None \<Rightarrow> us
           | Some usage \<Rightarrow>
               let usage' =
                     (if pays_fee = PaysNo then usage\<lparr>used := used usage - fee\<rparr>
                      else case actual_weight of
                             Some w \<Rightarrow> usage\<lparr>used := used usage - (fee - extrinsic_fee cfg w len)\<rparr>
                           | None \<Rightarrow> usage)
               in if used usage' = 0 then sdel entity us else sput entity usage' us)
      | PreNoCharge refund \<Rightarrow> (refund, us))"

subsection \<open>A transaction from end to end\<close>

record ('o, 'call, 'wt) restricted_tx =
  tx_block :: nat
  tx_origin :: 'o
  tx_call :: 'call
  tx_weight :: 'wt
  tx_len :: nat
  tx_pays :: pays
  tx_actual :: "'wt option"

definition apply_tx ::
  "('o, 'e, 'call, 'wt) restriction_config \<Rightarrow> ('o, 'call, 'wt) restricted_tx \<Rightarrow> 'e usages \<Rightarrow>
   RestrictionInvalid + 'e usages" where
  "apply_tx cfg tx us =
     on_ok (restrict_validate cfg True (tx_block tx) (tx_origin tx) (tx_call tx) (tx_weight tx) (tx_len tx) us)
       (\<lambda>(val, us1).
     Inr (snd (post_dispatch_details cfg (restrict_prepare cfg True val) (tx_pays tx) (tx_actual tx) (tx_len tx) us1)))"

text \<open>What a transaction costs in usage once it is dispatched.\<close>

definition net_fee :: "('o, 'e, 'call, 'wt) restriction_config \<Rightarrow> ('o, 'call, 'wt) restricted_tx \<Rightarrow> nat" where
  "net_fee cfg tx =
     (let fee = extrinsic_fee cfg (tx_weight tx) (tx_len tx)
      in if tx_pays tx = PaysNo then 0
         else case tx_actual tx of
                Some w \<Rightarrow> min fee (extrinsic_fee cfg w (tx_len tx))
              | None \<Rightarrow> fee)"

text \<open>The usage of an entity seen from a block.\<close>

definition usage_at :: "('o, 'e, 'call, 'wt) restriction_config \<Rightarrow> nat \<Rightarrow> 'e \<Rightarrow> 'e usages \<Rightarrow> nat" where
  "usage_at cfg now e us =
     (case sget us e of None \<Rightarrow> 0 | Some u \<Rightarrow> recovered (allowance cfg e) now u)"

subsection \<open>Lemmas\<close>

lemma recovered_now: "recovered al now \<lparr>used = u, at_block = now\<rparr> = u"
  by (simp add: recovered_def sat_mul_def)

lemma recovered_mono: "now \<le> later \<Longrightarrow> recovered al later u \<le> recovered al now u"
proof -
  assume "now \<le> later"
  then have "sat_mul u128_max (recovery_per_block al) (min (now - at_block u) u32_max)
      \<le> sat_mul u128_max (recovery_per_block al) (min (later - at_block u) u32_max)"
    by (intro sat_mul_mono) (auto simp: min_def)
  then show ?thesis unfolding recovered_def Let_def by (rule diff_le_mono2)
qed

lemma recovered_ge: "used u \<le> recovered al now u + recovery_per_block al * (now - at_block u)"
proof -
  have "sat_mul u128_max (recovery_per_block al) (min (now - at_block u) u32_max)
      \<le> recovery_per_block al * (now - at_block u)"
    by (rule order_trans [OF sat_mul_le(1)]) (intro mult_le_mono2, simp)
  then show ?thesis by (simp add: recovered_def Let_def)
qed

lemma usage_at_sput: "usage_at cfg now e (sput e \<lparr>used = u, at_block = now\<rparr> us) = u"
  by (simp add: usage_at_def recovered_now)

lemma restrict_validate_iff:
  assumes "restricted_entity cfg origin = Some e"
  shows "restrict_validate cfg True now origin call w len us = Inr (val, us') \<longleftrightarrow>
    (let u = usage_at cfg now e us; fee = extrinsic_fee cfg w len; u' = sat_add u128_max u fee in
      (u' \<le> max_usage (allowance cfg e) \<or> u = 0 \<and> OperationAllowedOneTimeExcess cfg e call) \<and>
      val = ValCharge fee e \<and> us' = sput e \<lparr>used = u', at_block = now\<rparr> us)"
  using assms by (cases "sget us e") (auto simp: restrict_validate_def usage_at_def Let_def)

lemma apply_tx_result:
  assumes e: "restricted_entity cfg (tx_origin tx) = Some e" and res: "apply_tx cfg tx us = Inr us'"
    and fits: "usage_at cfg (tx_block tx) e us + extrinsic_fee cfg (tx_weight tx) (tx_len tx) \<le> u128_max"
  shows "usage_at cfg (tx_block tx) e us' = usage_at cfg (tx_block tx) e us + net_fee cfg tx"
    and "\<And>u. sget us' e = Some u \<Longrightarrow> at_block u = tx_block tx"
    and "\<And>e'. e' \<noteq> e \<Longrightarrow> sget us' e' = sget us e'"
    and "usage_at cfg (tx_block tx) e us + extrinsic_fee cfg (tx_weight tx) (tx_len tx)
           \<le> max_usage (allowance cfg e) \<or>
         usage_at cfg (tx_block tx) e us = 0 \<and> OperationAllowedOneTimeExcess cfg e (tx_call tx)"
proof -
  let ?u = "usage_at cfg (tx_block tx) e us" and ?fee = "extrinsic_fee cfg (tx_weight tx) (tx_len tx)"
  let ?us1 = "sput e \<lparr>used = ?u + ?fee, at_block = tx_block tx\<rparr> us"
  have sat: "sat_add u128_max ?u ?fee = ?u + ?fee" using fits by simp
  from res obtain val us1 where
    val: "restrict_validate cfg True (tx_block tx) (tx_origin tx) (tx_call tx) (tx_weight tx) (tx_len tx) us = Inr (val, us1)"
    and us': "us' = snd (post_dispatch_details cfg (restrict_prepare cfg True val) (tx_pays tx) (tx_actual tx) (tx_len tx) us1)"
    by (auto simp: apply_tx_def)
  from val [unfolded restrict_validate_iff [OF e] Let_def sat]
  have v: "val = ValCharge ?fee e" "us1 = ?us1"
    and ok: "?u + ?fee \<le> max_usage (allowance cfg e) \<or> ?u = 0 \<and> OperationAllowedOneTimeExcess cfg e (tx_call tx)"
    by simp_all
  show "?u + ?fee \<le> max_usage (allowance cfg e) \<or> ?u = 0 \<and> OperationAllowedOneTimeExcess cfg e (tx_call tx)"
    by (rule ok)
  have n: "us' = (if ?u + net_fee cfg tx = 0 then sdel e ?us1
      else sput e \<lparr>used = ?u + net_fee cfg tx, at_block = tx_block tx\<rparr> ?us1)"
    unfolding us' v post_dispatch_details_def restrict_prepare_def net_fee_def Let_def
    by (cases "tx_pays tx"; cases "tx_actual tx") (auto simp: min_def)
  show "usage_at cfg (tx_block tx) e us' = ?u + net_fee cfg tx"
    using usage_at_sput [of cfg "tx_block tx" e "?u + net_fee cfg tx" ?us1]
    by (simp add: n usage_at_def split: if_splits)
  show "\<And>u. sget us' e = Some u \<Longrightarrow> at_block u = tx_block tx" "\<And>e'. e' \<noteq> e \<Longrightarrow> sget us' e' = sget us e'"
    by (auto simp: n split: if_splits)
qed




lemma apply_tx_fits:
  assumes "restricted_entity cfg (tx_origin tx) = Some e" and "apply_tx cfg tx us = Inr us'"
    and "max_usage (allowance cfg e) < u128_max"
  shows "usage_at cfg (tx_block tx) e us + extrinsic_fee cfg (tx_weight tx) (tx_len tx) \<le> u128_max"
proof -
  let ?u = "usage_at cfg (tx_block tx) e us" and ?fee = "extrinsic_fee cfg (tx_weight tx) (tx_len tx)"
  have fee: "?fee \<le> u128_max" by (simp add: extrinsic_fee_def sat_add_def)
  from assms(2) obtain val us1 where
    "restrict_validate cfg True (tx_block tx) (tx_origin tx) (tx_call tx) (tx_weight tx) (tx_len tx) us = Inr (val, us1)"
    by (auto simp: apply_tx_def)
  from this [unfolded restrict_validate_iff [OF assms(1)] Let_def]
  have "sat_add u128_max ?u ?fee \<le> max_usage (allowance cfg e) \<or> ?u = 0" by auto
  then show ?thesis using fee assms(3) by (auto simp: sat_add_def min_def split: if_splits)
qed





subsection \<open>Properties\<close>


text \<open>A configuration with one restricted entity, for the witnesses: the fee is the weight.\<close>

definition restriction_demo :: "(bool, bool, bool, nat) restriction_config" where
  "restriction_demo = \<lparr>is_none = (\<lambda>o'. \<not> o'), allowance = (\<lambda>_. \<lparr>max_usage = 10, recovery_per_block = 1\<rparr>),
     restricted_entity = (\<lambda>o'. if o' then Some True else None),
     OperationAllowedOneTimeExcess = (\<lambda>_ c. c), weight_to_fee = (\<lambda>w. w), length_to_fee = (\<lambda>_. 0),
     ext_weight = 1, zero_weight = 0\<rparr>"

definition demo_tx :: "nat \<Rightarrow> nat \<Rightarrow> (bool, bool, nat) restricted_tx" where
  "demo_tx b w = \<lparr>tx_block = b, tx_origin = True, tx_call = False, tx_weight = w, tx_len = 0,
     tx_pays = PaysYes, tx_actual = None\<rparr>"

lemmas restriction_eval = restriction_demo_def demo_tx_def apply_tx_def restrict_validate_def
  restrict_prepare_def post_dispatch_details_def extrinsic_fee_def recovered_def sget_def sput_def
  sat_add_def sat_mul_def



text \<open>
  A transaction of a restricted entity is valid exactly when the extension is enabled and
  the usage recovered so far plus the fee stays within the allowance, or the usage has
  recovered to zero and the call may exceed it once; nothing else is tracked or charged, and
  an origin that is not restricted always passes.
\<close>

theorem restrict_valid_iff:
  "is_ok (restrict_validate cfg enabled now origin call w len us) \<longleftrightarrow>
   (case restricted_entity cfg origin of
      None \<Rightarrow> True
    | Some e \<Rightarrow> enabled \<and>
        (sat_add u128_max (usage_at cfg now e us) (extrinsic_fee cfg w len) \<le> max_usage (allowance cfg e) \<or>
         usage_at cfg now e us = 0 \<and> OperationAllowedOneTimeExcess cfg e call))"
proof (cases "restricted_entity cfg origin")
  case None
  then show ?thesis by (simp add: restrict_validate_def)
next
  case (Some e)
  show ?thesis
  proof (cases enabled)
    case True
    with restrict_validate_iff [OF Some, of now call w len us] Some show ?thesis
      by (auto simp: is_ok_iff Let_def)
  qed (use Some in \<open>simp add: restrict_validate_def Let_def\<close>)
qed

text \<open>
  C12: cleaning a usage that has recovered to zero is not observable: at every later block the
  same transactions are valid as without it, with the same charge.
\<close>

theorem clean_usage_unobservable:
  assumes "clean_usage cfg now origin e us = Inr (us', ent, p)" and "now \<le> later"
  shows "usage_at cfg later e' us' = usage_at cfg later e' us \<and>
    is_ok (restrict_validate cfg enabled later origin' call w len us') =
    is_ok (restrict_validate cfg enabled later origin' call w len us)"
proof -
  from assms(1) obtain u where u: "sget us e = Some u" and us': "us' = sdel e us"
    and zero: "recovered (allowance cfg e) now u = 0"
    by (auto simp: clean_usage_def Let_def split: if_splits)
  have "recovered (allowance cfg e) later u = 0"
    using recovered_mono [OF assms(2), of "allowance cfg e" u] zero by simp
  with u us' have same: "usage_at cfg later x us' = usage_at cfg later x us" for x
    by (simp add: usage_at_def)
  moreover have "is_ok (restrict_validate cfg enabled later origin' call w len us') =
      is_ok (restrict_validate cfg enabled later origin' call w len us)"
  proof (cases "restricted_entity cfg origin'")
    case (Some x)
    show ?thesis
      using restrict_validate_iff [OF Some, of later call w len us]
        restrict_validate_iff [OF Some, of later call w len us'] same [of x] Some
      by (cases enabled) (auto simp: is_ok_iff restrict_validate_def Let_def)
  qed (simp add: restrict_validate_def)
  ultimately show ?thesis by simp
qed

theorem clean_usage_unobservable_witness:
  "usage_at restriction_demo 20 True (sdel True [(True, \<lparr>used = 4, at_block = 3\<rparr>)]) =
   usage_at restriction_demo 20 True [(True, \<lparr>used = 4, at_block = 3\<rparr>)]"
proof -
  have "clean_usage restriction_demo 10 True True [(True, \<lparr>used = 4, at_block = 3\<rparr>)] =
      Inr (sdel True [(True, \<lparr>used = 4, at_block = 3\<rparr>)], True, PaysNo)"
    by (simp add: clean_usage_def restriction_demo_def recovered_def sget_def sat_mul_def)
  from clean_usage_unobservable [OF this, of 20 True] show ?thesis by simp
qed

text \<open>
  C24: a call that turns out to pay no fee gives back exactly what it was charged: the usage of
  its entity is what it was before, seen from its own and from every later block, and no
  other entity is touched.
\<close>

theorem pays_no_restores_usage:
  assumes "restricted_entity cfg (tx_origin tx) = Some e" and "apply_tx cfg tx us = Inr us'"
    and "max_usage (allowance cfg e) < u128_max" and "tx_pays tx = PaysNo"
  shows "usage_at cfg (tx_block tx) e us' = usage_at cfg (tx_block tx) e us \<and>
    (\<forall>e'. e' \<noteq> e \<longrightarrow> sget us' e' = sget us e')"
  using apply_tx_result(1,3) [OF assms(1,2) apply_tx_fits [OF assms(1-3)]] assms(4)
  by (simp add: net_fee_def)

theorem pays_no_restores_usage_witness:
  "usage_at restriction_demo 9 True [(True, \<lparr>used = 2, at_block = 9\<rparr>)] =
   usage_at restriction_demo 9 True [(True, \<lparr>used = 4, at_block = 7\<rparr>)]"
proof -
  have "apply_tx restriction_demo ((demo_tx 9 6)\<lparr>tx_pays := PaysNo\<rparr>) [(True, \<lparr>used = 4, at_block = 7\<rparr>)] =
      Inr [(True, \<lparr>used = 2, at_block = 9\<rparr>)]"
    by (simp add: restriction_eval)
  from pays_no_restores_usage [OF _ this, of True] show ?thesis
    by (simp add: restriction_demo_def demo_tx_def)
qed

end
