(* ===== verification/Honour.thy ===== *)
theory Honour
  imports Prelude
begin

text \<open>
  The pallet \<open>pallets/honour\<close>: a person directs points at subjects, up or down; a point can be
  redirected after a freeze. Voter and subject are known to the pallet by aliases that a ring
  proof yields, so one person votes once on a subject and uses a point once at a time.
\<close>

subsection \<open>Types\<close>

datatype Direction = Honourable | Dishonourable

fun direction_score :: "Direction \<Rightarrow> int" where
  "direction_score Honourable = 1"
| "direction_score Dishonourable = -1"

fun opposite :: "Direction \<Rightarrow> Direction" where
  "opposite Honourable = Dishonourable"
| "opposite Dishonourable = Honourable"

record PointInfo =
  pi_subject :: bytes
  pi_subject_alias :: bytes
  pi_direction :: Direction
  last_used_at :: nat

record VoteData =
  vote_subject :: bytes
  vote_point :: "8 word"
  vote_direction :: Direction

record VoteAliases =
  subject_alias :: bytes
  point_alias :: bytes

definition from_aliases :: "bytes \<times> bytes \<Rightarrow> VoteAliases" where
  "from_aliases as = \<lparr>subject_alias = fst as, point_alias = snd as\<rparr>"

definition POINT_CONTEXT_PREFIX :: bytes where
  "POINT_CONTEXT_PREFIX = map (of_nat \<circ> of_char) ''pop:polkadot.network/honour/point:''"

definition SUBJECT_CONTEXT_PREFIX :: bytes where
  "SUBJECT_CONTEXT_PREFIX = map (of_nat \<circ> of_char) ''pop:polkadot.network/honour/subject:''"

text \<open>The hash \<open>twox_256\<close> is a parameter.\<close>

definition point_context :: "(bytes \<Rightarrow> bytes) \<Rightarrow> 8 word \<Rightarrow> bytes" where
  "point_context twox_256 p = twox_256 (POINT_CONTEXT_PREFIX @ [p])"

definition subject_context :: "(bytes \<Rightarrow> bytes) \<Rightarrow> bytes \<Rightarrow> bytes" where
  "subject_context twox_256 s = twox_256 (SUBJECT_CONTEXT_PREFIX @ s)"

definition get_contexts :: "(bytes \<Rightarrow> bytes) \<Rightarrow> VoteData \<Rightarrow> bytes \<times> bytes" where
  "get_contexts twox_256 v = (subject_context twox_256 (vote_subject v), point_context twox_256 (vote_point v))"

definition SUBJECT_DEFAULT_SCORE :: int where
  "SUBJECT_DEFAULT_SCORE = -1"

subsection \<open>Storage\<close>

datatype HonourEvent =
    VoteCast bytes Direction
  | VoteReused bytes Direction bytes Direction
  | HonourChanged bytes int int

datatype HonourError = Arithmetic | SubjectAlreadyVoted | InvalidProof

record honour_state =
  Points :: "(bytes, PointInfo) storage"
  HonourVotes :: "(bytes, unit) storage"
  Tally :: "(bytes, int) storage"
  honour_events :: "HonourEvent list"

definition honour_genesis :: honour_state where
  "honour_genesis = \<lparr>Points = [], HonourVotes = [], Tally = [], honour_events = []\<rparr>"

text \<open>
  The durations of the configuration and the multi-context prover: given a ring state, a proof,
  the ring and its revision, the two contexts and the message, it yields the aliases with
  their contexts, or fails.
\<close>

record ('ring, 'proof) honour_config =
  PointFreezeDuration :: nat
  CallMortality :: nat
  twox :: "bytes \<Rightarrow> bytes"
  verify_multi_context :: "'ring \<Rightarrow> 'proof \<Rightarrow> nat \<Rightarrow> nat \<Rightarrow> bytes \<times> bytes \<Rightarrow> bytes \<Rightarrow> (bytes \<times> bytes) list option"

definition honour_deposit :: "HonourEvent \<Rightarrow> honour_state \<Rightarrow> honour_state" where
  "honour_deposit e s = s\<lparr>honour_events := honour_events s @ [e]\<rparr>"

definition honour_integrity_test :: "('ring, 'proof) honour_config \<Rightarrow> bool" where
  "honour_integrity_test cfg = (CallMortality cfg \<le> sat_mul u64_max (PointFreezeDuration cfg) 2)"

subsection \<open>Operations\<close>

text \<open>\<open>i32::saturating_add\<close>.\<close>

definition sat_add_i32 :: "int \<Rightarrow> int \<Rightarrow> int" where
  "sat_add_i32 a b = max (- 2147483648) (min 2147483647 (a + b))"

definition read_honour :: "bytes \<Rightarrow> honour_state \<Rightarrow> int" where
  "read_honour subject s = (case sget (Tally s) subject of None \<Rightarrow> SUBJECT_DEFAULT_SCORE | Some v \<Rightarrow> v)"

definition amend_tally :: "bytes \<Rightarrow> Direction \<Rightarrow> honour_state \<Rightarrow> (int \<times> int) \<times> honour_state" where
  "amend_tally subject direction s =
     (let old_value = read_honour subject s;
          new_value = sat_add_i32 old_value (direction_score direction);
          s' = (if new_value = SUBJECT_DEFAULT_SCORE
                then s\<lparr>Tally := sdel subject (Tally s)\<rparr>
                else s\<lparr>Tally := sput subject new_value (Tally s)\<rparr>)
      in ((old_value, new_value), s'))"

definition release_point :: "VoteData \<Rightarrow> VoteAliases \<Rightarrow> honour_state \<Rightarrow> honour_state" where
  "release_point vote aliases s0 =
     (case sget (Points s0) (point_alias aliases) of
        Some old \<Rightarrow>
          let s1 = s0\<lparr>Points := sdel (point_alias aliases) (Points s0),
                     HonourVotes := sdel (pi_subject_alias old) (HonourVotes s0)\<rparr>;
              s2 = honour_deposit (VoteReused (pi_subject old) (pi_direction old)
                     (vote_subject vote) (vote_direction vote)) s1;
              ((old_value, new_value), s3) = amend_tally (pi_subject old) (opposite (pi_direction old)) s2
          in honour_deposit (HonourChanged (pi_subject old) old_value new_value) s3
      | None \<Rightarrow> honour_deposit (VoteCast (vote_subject vote) (vote_direction vote)) s0)"

definition do_bestow :: "nat \<Rightarrow> VoteData \<Rightarrow> VoteAliases \<Rightarrow> honour_state \<Rightarrow> HonourError + honour_state" where
  "do_bestow now vote aliases s0 =
     (let s1 = release_point vote aliases s0
      in ensure (\<not> scontains (HonourVotes s1) (subject_alias aliases)) SubjectAlreadyVoted (
         let s2 = s1\<lparr>HonourVotes := sput (subject_alias aliases) () (HonourVotes s1),
                    Points := sput (point_alias aliases)
                      \<lparr>pi_subject = vote_subject vote, pi_subject_alias = subject_alias aliases,
                       pi_direction = vote_direction vote, last_used_at = now\<rparr> (Points s1)\<rparr>;
             ((old_value, new_value), s3) = amend_tally (vote_subject vote) (vote_direction vote) s2
         in Inr (honour_deposit (HonourChanged (vote_subject vote) old_value new_value) s3)))"

text \<open>The origin is the pallet's own \<open>Voter\<close>, or another one.\<close>

definition bestow :: "VoteAliases option \<Rightarrow> nat \<Rightarrow> VoteData \<Rightarrow> nat \<Rightarrow> honour_state \<Rightarrow>
  HonourError dispatch_error + honour_state" where
  "bestow origin now vote call_valid_from s =
     ok_or origin BadOrigin (\<lambda>aliases. map_err Module (do_bestow now vote aliases s))"

definition is_point_frozen :: "('ring, 'proof) honour_config \<Rightarrow> bytes \<Rightarrow> nat \<Rightarrow> honour_state \<Rightarrow> bool" where
  "is_point_frozen cfg p now s =
     (case sget (Points s) p of
        Some point \<Rightarrow> sat_add u64_max (last_used_at point) (PointFreezeDuration cfg) > now
      | None \<Rightarrow> False)"

definition validate_vote_proof ::
  "('ring, 'proof) honour_config \<Rightarrow> 'ring \<Rightarrow> VoteData \<Rightarrow> bytes \<Rightarrow> 'proof \<Rightarrow> nat \<Rightarrow> nat \<Rightarrow>
   HonourError + VoteAliases" where
  "validate_vote_proof cfg ring vote message proof ring_index revision =
     (let contexts = get_contexts (twox cfg) vote
      in ok_or (verify_multi_context cfg ring proof ring_index revision contexts message) InvalidProof (\<lambda>as.
         case as of
           [(c0, a0), (c1, a1)] \<Rightarrow>
             ensure (c0 = fst contexts \<and> c1 = snd contexts) InvalidProof (Inr (from_aliases (a0, a1)))
         | _ \<Rightarrow> Inl InvalidProof))"

subsection \<open>The transaction extension\<close>

datatype HonourInvalid = InvalidBadSigner | InvalidCall | InvalidFuture | InvalidStale | InvalidBadProof

record 'proof VoterAuthData =
  auth_proof :: 'proof
  auth_ring_index :: nat
  auth_revision :: nat

text \<open>A transaction: its extension data, whether its origin is still none, and the call if it is \<open>bestow\<close>.\<close>

record 'proof honour_tx =
  tx_auth :: "'proof VoterAuthData option"
  tx_origin_none :: bool
  tx_bestow :: "(VoteData \<times> nat) option"
  tx_message :: bytes

definition voter_auth_validate ::
  "('ring, 'proof) honour_config \<Rightarrow> 'ring \<Rightarrow> nat \<Rightarrow> 'proof honour_tx \<Rightarrow> honour_state \<Rightarrow>
   HonourInvalid + VoteAliases option" where
  "voter_auth_validate cfg ring now tx s =
     (case tx_auth tx of
        None \<Rightarrow> Inr None
      | Some auth \<Rightarrow>
          ensure (tx_origin_none tx) InvalidBadSigner (
          ok_or (tx_bestow tx) InvalidCall (\<lambda>(vote, call_valid_from).
          if call_valid_from > now then Inl InvalidFuture
          else if sat_add u64_max call_valid_from (CallMortality cfg) \<le> now then Inl InvalidStale
          else
            on_ok (map_err (\<lambda>_. InvalidBadProof)
                    (validate_vote_proof cfg ring vote (tx_message tx) (auth_proof auth)
                       (auth_ring_index auth) (auth_revision auth))) (\<lambda>aliases.
            if is_point_frozen cfg (point_alias aliases) now s then Inl InvalidFuture
            else if scontains (HonourVotes s) (subject_alias aliases) then Inl InvalidStale
            else Inr (Some aliases)))))"

text \<open>A transaction that validates as a vote is dispatched with the \<open>Voter\<close> origin.\<close>

definition apply_honour_tx ::
  "('ring, 'proof) honour_config \<Rightarrow> 'ring \<times> nat \<Rightarrow> 'proof honour_tx \<Rightarrow> honour_state \<Rightarrow>
   HonourError dispatch_error + honour_state" where
  "apply_honour_tx cfg ctx tx s =
     (case voter_auth_validate cfg (fst ctx) (snd ctx) tx s of
        Inl e \<Rightarrow> Inl (External ''invalid'')
      | Inr origin \<Rightarrow>
          (case tx_bestow tx of
             None \<Rightarrow> Inl BadOrigin
           | Some (vote, from) \<Rightarrow> bestow origin (snd ctx) vote from s))"

end
