(* ===== verification/Honour_Props.thy ===== *)
theory Honour_Props
  imports Honour
begin

text \<open>
  The honour of a subject is the points directed at it, one vote per voter and subject is
  counted, and a vote once cast cannot be replayed.
\<close>

subsection \<open>The invariant\<close>

definition points_to :: "Direction \<Rightarrow> bytes \<Rightarrow> (bytes, PointInfo) storage \<Rightarrow> nat" where
  "points_to d subj P = ssum (\<lambda>p. if pi_subject (snd p) = subj \<and> pi_direction (snd p) = d then 1 else 0) P"

definition net_points :: "bytes \<Rightarrow> (bytes, PointInfo) storage \<Rightarrow> int" where
  "net_points subj P = int (points_to Honourable subj P) - int (points_to Dishonourable subj P)"

definition votes_match :: "(bytes, PointInfo) storage \<Rightarrow> (bytes, unit) storage \<Rightarrow> bool" where
  "votes_match P V \<longleftrightarrow>
     (\<forall>a. scontains V a \<longleftrightarrow> (\<exists>p i. sget P p = Some i \<and> pi_subject_alias i = a)) \<and>
     (\<forall>p q i j. sget P p = Some i \<longrightarrow> sget P q = Some j \<longrightarrow>
        pi_subject_alias i = pi_subject_alias j \<longrightarrow> p = q)"

definition honour_inv :: "honour_state \<Rightarrow> bool" where
  "honour_inv s \<longleftrightarrow> wf_storage (Points s) \<and> votes_match (Points s) (HonourVotes s)"

definition tally_inv :: "honour_state \<Rightarrow> bool" where
  "tally_inv s \<longleftrightarrow> honour_inv s \<and>
     (\<forall>subj. read_honour subj s = SUBJECT_DEFAULT_SCORE + net_points subj (Points s))"

text \<open>An \<open>i32\<close> holds the score while there are fewer than \<open>2 ^ 31 - 2\<close> points.\<close>

definition points_fit :: "honour_state \<Rightarrow> bool" where
  "points_fit s \<longleftrightarrow> length (Points s) < 2147483646"

lemma points_to_le: "points_to d subj P \<le> length P"
  unfolding points_to_def by (induction P) auto

lemma net_points_sput_new:
  assumes "wf_storage P" and "sget P p = None"
  shows "net_points subj (sput p i P) =
    net_points subj P + (if pi_subject i = subj then direction_score (pi_direction i) else 0)"
  using ssum_sput [OF assms(1), of "\<lambda>x. if pi_subject (snd x) = subj \<and> pi_direction (snd x) = Honourable then 1 else 0" p i]
    ssum_sput [OF assms(1), of "\<lambda>x. if pi_subject (snd x) = subj \<and> pi_direction (snd x) = Dishonourable then 1 else 0" p i]
    assms(2)
  by (cases "pi_direction i") (auto simp: net_points_def points_to_def)

lemma net_points_sdel:
  assumes "wf_storage P" and "sget P p = Some i"
  shows "net_points subj (sdel p P) =
    net_points subj P + (if pi_subject i = subj then direction_score (opposite (pi_direction i)) else 0)"
  using ssum_sdel [OF assms(1), of "\<lambda>x. if pi_subject (snd x) = subj \<and> pi_direction (snd x) = Honourable then 1 else 0" p]
    ssum_sdel [OF assms(1), of "\<lambda>x. if pi_subject (snd x) = subj \<and> pi_direction (snd x) = Dishonourable then 1 else 0" p]
    assms(2)
  by (cases "pi_direction i") (auto simp: net_points_def points_to_def)

lemma net_points_bound: "\<bar>net_points subj P\<bar> \<le> int (length P)"
  using points_to_le [of Honourable subj P] points_to_le [of Dishonourable subj P]
  by (simp add: net_points_def)

lemma honour_deposit_sel [simp]:
  "Points (honour_deposit e s) = Points s" "HonourVotes (honour_deposit e s) = HonourVotes s"
  "Tally (honour_deposit e s) = Tally s" "read_honour subj (honour_deposit e s) = read_honour subj s"
  by (simp_all add: honour_deposit_def read_honour_def)

lemma sat_add_i32_exact: "- 2147483648 \<le> a + b \<Longrightarrow> a + b \<le> 2147483647 \<Longrightarrow> sat_add_i32 a b = a + b"
  by (simp add: sat_add_i32_def)

lemma amend_tally_result:
  assumes "amend_tally subj d s = ((old, new), s')"
  shows "Points s' = Points s" and "HonourVotes s' = HonourVotes s"
    and "read_honour x s' = (if x = subj then sat_add_i32 (read_honour subj s) (direction_score d) else read_honour x s)"
  using assms by (auto simp: amend_tally_def read_honour_def Let_def split: if_splits)

lemma direction_score_bound: "direction_score d = 1 \<or> direction_score d = -1"
  by (cases d) simp_all

lemma amend_step:
  assumes "\<And>x. read_honour x s = SUBJECT_DEFAULT_SCORE + n x" and "\<bar>n subj\<bar> \<le> 2147483646"
    and "amend_tally subj d s = ((old, new), s')"
  shows "read_honour x s' = SUBJECT_DEFAULT_SCORE + (n x + (if subj = x then direction_score d else 0))"
  using amend_tally_result(3) [OF assms(3), of x] assms(1) [of x] assms(2) direction_score_bound [of d]
    sat_add_i32_exact [of "SUBJECT_DEFAULT_SCORE + n subj" "direction_score d"]
  by (auto simp: SUBJECT_DEFAULT_SCORE_def)

lemma votes_matchI:
  assumes "\<And>a. scontains V a \<longleftrightarrow> (\<exists>p i. sget P p = Some i \<and> pi_subject_alias i = a)"
    and "\<And>p q i j. sget P p = Some i \<Longrightarrow> sget P q = Some j \<Longrightarrow>
      pi_subject_alias i = pi_subject_alias j \<Longrightarrow> p = q"
  shows "votes_match P V"
  unfolding votes_match_def using assms by blast

lemma votes_matchD:
  assumes "votes_match P V"
  shows "scontains V a \<longleftrightarrow> (\<exists>p i. sget P p = Some i \<and> pi_subject_alias i = a)"
    and "sget P p = Some i \<Longrightarrow> sget P q = Some j \<Longrightarrow> pi_subject_alias i = pi_subject_alias j \<Longrightarrow> p = q"
  using assms unfolding votes_match_def by blast+

lemma ex_sget_sdel:
  "(\<exists>q j. sget (sdel p P) q = Some j \<and> Q j) \<longleftrightarrow> (\<exists>q j. q \<noteq> p \<and> sget P q = Some j \<and> Q j)"
  by (auto split: if_splits)

lemma ex_sget_sput:
  "(\<exists>q j. sget (sput p i P) q = Some j \<and> Q j) \<longleftrightarrow> Q i \<or> (\<exists>q j. q \<noteq> p \<and> sget P q = Some j \<and> Q j)"
  by (auto split: if_splits)

lemma votes_match_sdel:
  assumes "votes_match P V" and "sget P p = Some i"
  shows "votes_match (sdel p P) (sdel (pi_subject_alias i) V)"
proof (rule votes_matchI)
  fix a
  have "scontains (sdel (pi_subject_alias i) V) a \<longleftrightarrow>
      a \<noteq> pi_subject_alias i \<and> (\<exists>q j. sget P q = Some j \<and> pi_subject_alias j = a)"
    using votes_matchD(1) [OF assms(1), of a] by simp
  also have "\<dots> \<longleftrightarrow> (\<exists>q j. q \<noteq> p \<and> sget P q = Some j \<and> pi_subject_alias j = a)"
    using votes_matchD(2) [OF assms(1) assms(2)] assms(2) by (metis option.inject)
  finally show "scontains (sdel (pi_subject_alias i) V) a \<longleftrightarrow>
      (\<exists>q j. sget (sdel p P) q = Some j \<and> pi_subject_alias j = a)"
    unfolding ex_sget_sdel .
next
  fix q r j k
  assume "sget (sdel p P) q = Some j" "sget (sdel p P) r = Some k" "pi_subject_alias j = pi_subject_alias k"
  then show "q = r" using votes_matchD(2) [OF assms(1), of q j r k] by (simp split: if_splits)
qed

lemma votes_match_sput:
  assumes "votes_match P V" and "sget P p = None" and "\<not> scontains V (pi_subject_alias i)"
  shows "votes_match (sput p i P) (sput (pi_subject_alias i) () V)"
proof (rule votes_matchI)
  fix a
  have "(\<exists>q j. q \<noteq> p \<and> sget P q = Some j \<and> pi_subject_alias j = a) \<longleftrightarrow> scontains V a"
    using votes_matchD(1) [OF assms(1), of a] assms(2) by (metis option.distinct(1))
  then show "scontains (sput (pi_subject_alias i) () V) a \<longleftrightarrow>
      (\<exists>q j. sget (sput p i P) q = Some j \<and> pi_subject_alias j = a)"
    unfolding ex_sget_sput by auto
next
  fix q r j k
  have none: "\<And>q j. sget P q = Some j \<Longrightarrow> pi_subject_alias j \<noteq> pi_subject_alias i"
    using votes_matchD(1) [OF assms(1), of "pi_subject_alias i"] assms(3) by blast
  assume "sget (sput p i P) q = Some j" "sget (sput p i P) r = Some k" "pi_subject_alias j = pi_subject_alias k"
  then show "q = r"
    using votes_matchD(2) [OF assms(1), of q j r k] none [of q j] none [of r k]
    by (auto split: if_splits)
qed

lemma release_point_None:
  assumes "sget (Points s) (point_alias aliases) = None"
  shows "Points (release_point vote aliases s) = Points s"
    and "HonourVotes (release_point vote aliases s) = HonourVotes s"
    and "read_honour x (release_point vote aliases s) = read_honour x s"
    and "sdel (point_alias aliases) (Points s) = Points s"
proof -
  show "sdel (point_alias aliases) (Points s) = Points s"
    using assms by (simp add: sdel_def sget_None_iff delete_id)
qed (use assms in \<open>simp_all add: release_point_def\<close>)

lemma release_point_Some:
  assumes old: "sget (Points s) (point_alias aliases) = Some i"
  shows "Points (release_point vote aliases s) = sdel (point_alias aliases) (Points s)" (is ?P)
    and "HonourVotes (release_point vote aliases s) = sdel (pi_subject_alias i) (HonourVotes s)" (is ?V)
    and "(\<And>y. read_honour y s = SUBJECT_DEFAULT_SCORE + n y) \<Longrightarrow> \<bar>n (pi_subject i)\<bar> \<le> 2147483646 \<Longrightarrow>
      read_honour x (release_point vote aliases s) = SUBJECT_DEFAULT_SCORE +
        (n x + (if pi_subject i = x then direction_score (opposite (pi_direction i)) else 0))"
proof -
  let ?p = "point_alias aliases"
  define s2 where "s2 = honour_deposit (VoteReused (pi_subject i) (pi_direction i)
     (vote_subject vote) (vote_direction vote))
     (s\<lparr>Points := sdel ?p (Points s), HonourVotes := sdel (pi_subject_alias i) (HonourVotes s)\<rparr>)"
  obtain old new s3 where am: "amend_tally (pi_subject i) (opposite (pi_direction i)) s2 = ((old, new), s3)"
    by (metis prod.collapse)
  have rel: "release_point vote aliases s = honour_deposit (HonourChanged (pi_subject i) old new) s3"
    using old am by (simp add: release_point_def s2_def Let_def)
  show ?P ?V using amend_tally_result(1,2) [OF am] by (simp_all add: rel s2_def)
  assume "\<And>y. read_honour y s = SUBJECT_DEFAULT_SCORE + n y" and small: "\<bar>n (pi_subject i)\<bar> \<le> 2147483646"
  then have "\<And>y. read_honour y s2 = SUBJECT_DEFAULT_SCORE + n y"
    by (simp add: s2_def read_honour_def)
  from amend_step [OF this small am]
  show "read_honour x (release_point vote aliases s) = SUBJECT_DEFAULT_SCORE +
      (n x + (if pi_subject i = x then direction_score (opposite (pi_direction i)) else 0))"
    by (simp add: rel)
qed

lemma release_point_keeps:
  shows "honour_inv s \<Longrightarrow> honour_inv (release_point vote aliases s)"
    and "tally_inv s \<Longrightarrow> points_fit s \<Longrightarrow> tally_inv (release_point vote aliases s)"
    and "Points (release_point vote aliases s) = sdel (point_alias aliases) (Points s)"
proof -
  let ?p = "point_alias aliases"
  show pts: "Points (release_point vote aliases s) = sdel ?p (Points s)"
    by (cases "sget (Points s) ?p") (simp_all add: release_point_None release_point_Some)
  show inv: "honour_inv (release_point vote aliases s)" if "honour_inv s"
    using that votes_match_sdel [of "Points s" "HonourVotes s" ?p]
    by (cases "sget (Points s) ?p") (auto simp: honour_inv_def release_point_None release_point_Some)
  assume ti: "tally_inv s" and fit: "points_fit s"
  have "read_honour x (release_point vote aliases s) =
      SUBJECT_DEFAULT_SCORE + net_points x (sdel ?p (Points s))" for x
  proof (cases "sget (Points s) ?p")
    case None
    then show ?thesis using ti by (simp add: release_point_None tally_inv_def)
  next
    case (Some i)
    have "\<bar>net_points (pi_subject i) (Points s)\<bar> \<le> 2147483646"
      using net_points_bound [of "pi_subject i" "Points s"] fit by (simp add: points_fit_def)
    moreover have "wf_storage (Points s)" using ti by (simp add: tally_inv_def honour_inv_def)
    ultimately show ?thesis
      using release_point_Some(3) [OF Some, of "\<lambda>y. net_points y (Points s)"] ti net_points_sdel [OF _ Some]
      by (simp add: tally_inv_def)
  qed
  then show "tally_inv (release_point vote aliases s)"
    using inv ti pts by (simp add: tally_inv_def)
qed

definition cast_point :: "nat \<Rightarrow> VoteData \<Rightarrow> VoteAliases \<Rightarrow> PointInfo" where
  "cast_point now vote aliases = \<lparr>pi_subject = vote_subject vote,
     pi_subject_alias = subject_alias aliases, pi_direction = vote_direction vote, last_used_at = now\<rparr>"

lemma do_bestow_result:
  assumes res: "do_bestow now vote aliases s = Inr s'"
  defines "s1 \<equiv> release_point vote aliases s"
  shows "Points s' = sput (point_alias aliases) (cast_point now vote aliases) (Points s1)"
    and "HonourVotes s' = sput (subject_alias aliases) () (HonourVotes s1)"
    and "\<not> scontains (HonourVotes s1) (subject_alias aliases)"
    and "(\<And>y. read_honour y s1 = SUBJECT_DEFAULT_SCORE + n y) \<Longrightarrow> \<bar>n (vote_subject vote)\<bar> \<le> 2147483646 \<Longrightarrow>
      read_honour x s' = SUBJECT_DEFAULT_SCORE +
        (n x + (if vote_subject vote = x then direction_score (vote_direction vote) else 0))"
proof -
  define s2 where "s2 = s1\<lparr>HonourVotes := sput (subject_alias aliases) () (HonourVotes s1),
    Points := sput (point_alias aliases) (cast_point now vote aliases) (Points s1)\<rparr>"
  obtain old new s3 where am: "amend_tally (vote_subject vote) (vote_direction vote) s2 = ((old, new), s3)"
    by (metis prod.collapse)
  from res show "\<not> scontains (HonourVotes s1) (subject_alias aliases)"
    by (simp add: do_bestow_def s1_def Let_def)
  from res have s': "s' = honour_deposit (HonourChanged (vote_subject vote) old new) s3"
    using am by (simp add: do_bestow_def s1_def [symmetric] s2_def cast_point_def Let_def)
  show "Points s' = sput (point_alias aliases) (cast_point now vote aliases) (Points s1)"
    "HonourVotes s' = sput (subject_alias aliases) () (HonourVotes s1)"
    using amend_tally_result(1,2) [OF am] by (simp_all add: s' s2_def)
  assume "\<And>y. read_honour y s1 = SUBJECT_DEFAULT_SCORE + n y" and small: "\<bar>n (vote_subject vote)\<bar> \<le> 2147483646"
  then have "\<And>y. read_honour y s2 = SUBJECT_DEFAULT_SCORE + n y" by (simp add: s2_def read_honour_def)
  from amend_step [OF this small am] show "read_honour x s' = SUBJECT_DEFAULT_SCORE +
      (n x + (if vote_subject vote = x then direction_score (vote_direction vote) else 0))"
    by (simp add: s')
qed

lemma do_bestow_keeps_votes:
  assumes "honour_inv s" and res: "do_bestow now vote aliases s = Inr s'"
  shows "honour_inv s'"
proof -
  let ?s1 = "release_point vote aliases s"
  have "honour_inv ?s1" and "sget (Points ?s1) (point_alias aliases) = None"
    using release_point_keeps(1) [OF assms(1)] by (simp_all add: release_point_keeps(3))
  then show ?thesis
    using votes_match_sput [of "Points ?s1" "HonourVotes ?s1" "point_alias aliases" "cast_point now vote aliases"]
      do_bestow_result(1-3) [OF res]
    by (simp add: honour_inv_def cast_point_def)
qed

lemma do_bestow_keeps_tally:
  assumes "tally_inv s" and "points_fit s" and res: "do_bestow now vote aliases s = Inr s'"
  shows "tally_inv s'"
proof -
  let ?s1 = "release_point vote aliases s" and ?i = "cast_point now vote aliases"
  have ti: "tally_inv ?s1" using release_point_keeps(2) [OF assms(1,2)] .
  have fresh: "sget (Points ?s1) (point_alias aliases) = None" by (simp add: release_point_keeps(3))
  have "length (Points ?s1) < 2147483646"
    using assms(2) length_sdel [of "point_alias aliases" "Points s"]
    by (simp add: points_fit_def release_point_keeps(3))
  then have "\<bar>net_points (vote_subject vote) (Points ?s1)\<bar> \<le> 2147483646"
    using net_points_bound [of "vote_subject vote" "Points ?s1"] by linarith
  then have "read_honour x s' = SUBJECT_DEFAULT_SCORE + net_points x (sput (point_alias aliases) ?i (Points ?s1))" for x
    using do_bestow_result(4) [OF res, of "\<lambda>y. net_points y (Points ?s1)"] ti
      net_points_sput_new [OF _ fresh, of x ?i]
    by (simp add: tally_inv_def honour_inv_def cast_point_def)
  moreover have "honour_inv s'"
    using do_bestow_keeps_votes [OF _ res] assms(1) by (simp add: tally_inv_def)
  ultimately show ?thesis using do_bestow_result(1) [OF res] by (simp add: tally_inv_def)
qed

subsection \<open>Transactions\<close>

type_synonym ('ring, 'proof) honour_op = "('ring \<times> nat) \<times> 'proof honour_tx"

definition honour_step ::
  "('ring, 'proof) honour_config \<Rightarrow> ('ring, 'proof) honour_op \<Rightarrow> honour_state \<Rightarrow>
   HonourError dispatch_error + honour_state" where
  "honour_step cfg x s = apply_honour_tx cfg (fst x) (snd x) s"

text \<open>An accepted transaction: the call, the proof's aliases, and what the validation checked.\<close>

definition accepted_vote ::
  "('ring, 'proof) honour_config \<Rightarrow> 'ring \<Rightarrow> nat \<Rightarrow> 'proof honour_tx \<Rightarrow> honour_state \<Rightarrow>
   VoteData \<Rightarrow> nat \<Rightarrow> VoteAliases \<Rightarrow> bool" where
  "accepted_vote cfg ring now tx s vote from aliases \<longleftrightarrow>
     (\<exists>auth. tx_auth tx = Some auth \<and> tx_bestow tx = Some (vote, from) \<and>
       from \<le> now \<and> now < sat_add u64_max from (CallMortality cfg) \<and>
       validate_vote_proof cfg ring vote (tx_message tx) (auth_proof auth)
         (auth_ring_index auth) (auth_revision auth) = Inr aliases \<and>
       \<not> is_point_frozen cfg (point_alias aliases) now s \<and>
       \<not> scontains (HonourVotes s) (subject_alias aliases))"

lemma validate_accepts:
  assumes "voter_auth_validate cfg ring now tx s = Inr (Some aliases)"
  shows "\<exists>vote from. accepted_vote cfg ring now tx s vote from aliases"
  using assms by (auto simp: voter_auth_validate_def accepted_vote_def split: option.splits if_splits)

lemma apply_honour_txE:
  assumes "apply_honour_tx cfg (ring, now) tx s = Inr s'"
  obtains vote "from" aliases where "accepted_vote cfg ring now tx s vote from aliases"
    and "do_bestow now vote aliases s = Inr s'"
proof -
  from assms obtain origin vote "from" where v: "voter_auth_validate cfg ring now tx s = Inr origin"
    and tx: "tx_bestow tx = Some (vote, from)" and b: "bestow origin now vote from s = Inr s'"
    by (auto simp: apply_honour_tx_def split: sum.splits option.splits)
  from b obtain aliases where o': "origin = Some aliases" and d: "do_bestow now vote aliases s = Inr s'"
    by (auto simp: bestow_def)
  have "accepted_vote cfg ring now tx s vote from aliases"
    using validate_accepts v o' tx by (fastforce simp: accepted_vote_def)
  then show ?thesis using that d by blast
qed

lemma honour_step_cases:
  assumes "honour_step cfg x s = Inr s'"
  obtains vote "from" aliases
  where "accepted_vote cfg (fst (fst x)) (snd (fst x)) (snd x) s vote from aliases"
    and "do_bestow (snd (fst x)) vote aliases s = Inr s'"
  using assms apply_honour_txE [of cfg "fst (fst x)" "snd (fst x)" "snd x" s s']
  by (auto simp: honour_step_def)

interpretation honour_votes: pallet_contract "honour_step cfg" honour_inv "\<lambda>_ _. True" for cfg
  by unfold_locales (auto elim!: honour_step_cases intro: do_bestow_keeps_votes)

interpretation honour_tally: pallet_contract "honour_step cfg" tally_inv "\<lambda>_ s. points_fit s" for cfg
  by unfold_locales (auto elim!: honour_step_cases intro: do_bestow_keeps_tally)

lemma honour_genesis_inv: "honour_inv honour_genesis" "tally_inv honour_genesis"
  by (simp_all add: honour_inv_def tally_inv_def votes_match_def honour_genesis_def read_honour_def
      net_points_def points_to_def scontains_def)

text \<open>
  C13: the honour of a subject is what the points say. After any sequence of transactions from
  genesis, in a state with fewer than \<open>2 ^ 31 - 2\<close> points throughout, the tally of every subject is
  the default score plus the points directed at it as honourable less those directed at it as
  dishonourable, and no two points back the same subject alias (one vote per voter and subject).
\<close>

theorem honour_is_net_points:
  assumes "guarded_run (honour_step cfg) (\<lambda>_ s. points_fit s) txs honour_genesis"
  shows "let s = run_calls (honour_step cfg) txs honour_genesis in
    read_honour subj s = -1 + int (points_to Honourable subj (Points s)) - int (points_to Dishonourable subj (Points s)) \<and>
    (sget (Points s) p = Some i \<and> sget (Points s) q = Some j \<and> pi_subject_alias i = pi_subject_alias j \<longrightarrow> p = q)"
proof -
  have "tally_inv (run_calls (honour_step cfg) txs honour_genesis)"
    using honour_tally.run_keeps [OF honour_genesis_inv(2) assms] .
  then show ?thesis
    using votes_matchD(2)
    by (auto simp: tally_inv_def honour_inv_def net_points_def SUBJECT_DEFAULT_SCORE_def Let_def)
qed

subsection \<open>No replay\<close>

text \<open>
  A documented property of the ring proofs: the aliases are a function of the prover's key and the
  contexts, so one proof over one message cannot open to different aliases under different ring states.
\<close>

definition aliases_stable :: "('ring, 'proof) honour_config \<Rightarrow> bool" where
  "aliases_stable cfg \<longleftrightarrow> (\<forall>ring ring' proof idx rev cs msg as as'.
     verify_multi_context cfg ring proof idx rev cs msg = Some as \<longrightarrow>
     verify_multi_context cfg ring' proof idx rev cs msg = Some as' \<longrightarrow> as = as')"

lemma validate_vote_proof_stable:
  assumes "aliases_stable cfg" and "validate_vote_proof cfg ring v m pr i r = Inr al"
    and "validate_vote_proof cfg ring' v m pr i r = Inr al'"
  shows "al = al'"
proof -
  from assms(2,3) obtain as as' where
    "verify_multi_context cfg ring pr i r (get_contexts (twox cfg) v) m = Some as"
    "verify_multi_context cfg ring' pr i r (get_contexts (twox cfg) v) m = Some as'"
    by (auto simp: validate_vote_proof_def Let_def)
  moreover from this have "as = as'" using assms(1) unfolding aliases_stable_def by blast
  ultimately show ?thesis using assms(2,3) by (simp add: validate_vote_proof_def Let_def)
qed

text \<open>
  After a vote with point \<open>p\<close> on the subject alias \<open>a\<close> at time \<open>t\<close>, either the point still backs that
  subject, or it has been redirected, which the freeze allows from \<open>t + PointFreezeDuration\<close> on.
\<close>

definition point_spent ::
  "('ring, 'proof) honour_config \<Rightarrow> bytes \<Rightarrow> bytes \<Rightarrow> nat \<Rightarrow> honour_state \<Rightarrow> bool" where
  "point_spent cfg p a t s \<longleftrightarrow> (\<exists>i. sget (Points s) p = Some i \<and>
     (pi_subject_alias i = a \<and> t \<le> last_used_at i \<or> t + PointFreezeDuration cfg \<le> last_used_at i))"

lemma unfrozen_point:
  assumes "\<not> is_point_frozen cfg p now s" and "sget (Points s) p = Some i" and "now < u64_max"
  shows "last_used_at i + PointFreezeDuration cfg \<le> now"
  using assms by (simp add: is_point_frozen_def sat_add_def)

lemma do_bestow_point:
  assumes "do_bestow now vote aliases s = Inr s'"
  shows "sget (Points s') p =
    (if p = point_alias aliases then Some (cast_point now vote aliases) else sget (Points s) p)"
  using do_bestow_result(1) [OF assms] by (simp add: release_point_keeps(3))

lemma point_spent_step:
  assumes "point_spent cfg p a t s" and "honour_step cfg x s = Inr s'" and "snd (fst x) < u64_max"
  shows "point_spent cfg p a t s'"
  using assms(2)
proof (rule honour_step_cases)
  fix vote "from" aliases
  assume acc: "accepted_vote cfg (fst (fst x)) (snd (fst x)) (snd x) s vote from aliases"
    and d: "do_bestow (snd (fst x)) vote aliases s = Inr s'"
  show ?thesis
  proof (cases "p = point_alias aliases")
    case True
    from assms(1) obtain i where i: "sget (Points s) p = Some i" "t \<le> last_used_at i"
      unfolding point_spent_def by fastforce
    with True acc assms(3) have "last_used_at i + PointFreezeDuration cfg \<le> snd (fst x)"
      by (intro unfrozen_point [where p = p and s = s]) (auto simp: accepted_vote_def)
    with i True show ?thesis by (simp add: point_spent_def do_bestow_point [OF d] cast_point_def)
  next
    case False
    with assms(1) show ?thesis by (simp add: point_spent_def do_bestow_point [OF d])
  qed
qed

interpretation honour_spent: pallet_contract "honour_step cfg" "point_spent cfg p a t"
  "\<lambda>x _. snd (fst x) < u64_max" for cfg p a t
  by unfold_locales (rule point_spent_step)

lemma spent_not_accepted:
  assumes test: "honour_integrity_test cfg" and inv: "honour_inv s"
    and spent: "point_spent cfg (point_alias aliases) (subject_alias aliases) t s"
    and "from \<le> t" and "now < u64_max"
  shows "\<not> accepted_vote cfg ring now tx s vote from aliases"
proof
  assume acc: "accepted_vote cfg ring now tx s vote from aliases"
  from spent obtain i where i: "sget (Points s) (point_alias aliases) = Some i"
    and or: "pi_subject_alias i = subject_alias aliases \<or> t + PointFreezeDuration cfg \<le> last_used_at i"
    unfolding point_spent_def by blast
  have "pi_subject_alias i \<noteq> subject_alias aliases"
    using acc inv i unfolding accepted_vote_def honour_inv_def votes_match_def by metis
  with or have "t + PointFreezeDuration cfg \<le> last_used_at i" by simp
  moreover have "last_used_at i + PointFreezeDuration cfg \<le> now"
    using acc i assms(5) by (intro unfrozen_point [where s = s]) (auto simp: accepted_vote_def)
  moreover have "now < from + CallMortality cfg" using acc by (auto simp: accepted_vote_def sat_add_def)
  moreover have "CallMortality cfg \<le> PointFreezeDuration cfg * 2"
    using test by (simp add: honour_integrity_test_def sat_mul_def)
  ultimately show False using assms(4) by simp
qed

lemma accepted_stable:
  assumes "aliases_stable cfg" and "accepted_vote cfg ring now tx s vote from al"
    and "accepted_vote cfg ring' now' tx s' vote' from' al'"
  shows "from' = from" and "al' = al" and "from \<le> now"
proof -
  obtain auth where *: "tx_auth tx = Some auth" "tx_bestow tx = Some (vote, from)" "from \<le> now"
    "validate_vote_proof cfg ring vote (tx_message tx) (auth_proof auth) (auth_ring_index auth) (auth_revision auth) = Inr al"
    using assms(2) unfolding accepted_vote_def by blast
  have same: "vote' = vote" "from' = from" using assms(3) *(2) by (auto simp: accepted_vote_def)
  have "validate_vote_proof cfg ring' vote (tx_message tx) (auth_proof auth) (auth_ring_index auth) (auth_revision auth) = Inr al'"
    using assms(3) *(1) same by (auto simp: accepted_vote_def)
  then show "al' = al" using validate_vote_proof_stable [OF assms(1) *(4)] by simp
  show "from' = from" "from \<le> now" using * same by simp_all
qed

text \<open>
  C14: a vote cannot be replayed. With a configuration that passes the pallet's integrity test (a call
  lives at most two freezes) and ring proofs that open to fixed aliases, a transaction that was accepted
  and executed is refused from then on: whatever transactions follow, whatever the ring has become and
  at any later or earlier clock reading below the last representable second, executing it again fails.
\<close>

theorem vote_not_replayed:
  assumes "honour_integrity_test cfg" and "aliases_stable cfg"
    and "apply_honour_tx cfg (ring, now) tx (run_calls (honour_step cfg) before honour_genesis) = Inr s'"
    and "guarded_run (honour_step cfg) (\<lambda>x _. snd (fst x) < u64_max) later s'" and "now' < u64_max"
  shows "\<exists>e. apply_honour_tx cfg (ring', now') tx (run_calls (honour_step cfg) later s') = Inl e"
proof -
  let ?s = "run_calls (honour_step cfg) before honour_genesis"
  let ?t = "run_calls (honour_step cfg) later s'"
  have inv: "honour_inv ?s"
    using honour_votes.run_keeps [OF honour_genesis_inv(1) guarded_run_trivial] .
  obtain vote "from" al where acc: "accepted_vote cfg ring now tx ?s vote from al"
    and d: "do_bestow now vote al ?s = Inr s'"
    using apply_honour_txE [OF assms(3)] .
  have "point_spent cfg (point_alias al) (subject_alias al) now s'"
    by (simp add: point_spent_def do_bestow_point [OF d] cast_point_def)
  then have spent: "point_spent cfg (point_alias al) (subject_alias al) now ?t"
    using honour_spent.run_keeps assms(4) by blast
  have inv': "honour_inv ?t"
    using honour_votes.run_keeps [OF do_bestow_keeps_votes [OF inv d] guarded_run_trivial] .
  have "apply_honour_tx cfg (ring', now') tx ?t \<noteq> Inr s2" for s2
  proof
    assume "apply_honour_tx cfg (ring', now') tx ?t = Inr s2"
    then obtain vote2 from2 al2 where acc2: "accepted_vote cfg ring' now' tx ?t vote2 from2 al2"
      by (rule apply_honour_txE)
    note st = accepted_stable [OF assms(2) acc acc2]
    have "accepted_vote cfg ring' now' tx ?t vote2 from al" using acc2 st(1,2) by simp
    with spent_not_accepted [OF assms(1) inv' spent st(3) assms(5)] show False by blast
  qed
  then show ?thesis by (metis sum.exhaust)
qed

subsection \<open>Witnesses\<close>

text \<open>
  One voter with one point: the proof is the pair of bytes that become the aliases. The point goes to
  subject 1 at time 0, and to subject 2 when the freeze of ten seconds is over.
\<close>

definition demo_honour :: "(unit, 8 word \<times> 8 word) honour_config" where
  "demo_honour = \<lparr>PointFreezeDuration = 10, CallMortality = 20, twox = id,
     verify_multi_context = (\<lambda>_ (a, b) _ _ (c0, c1) _. Some [(c0, [a]), (c1, [b])])\<rparr>"

definition demo_tx :: "8 word \<Rightarrow> Direction \<Rightarrow> (8 word \<times> 8 word) honour_tx" where
  "demo_tx subj d = \<lparr>tx_auth = Some \<lparr>auth_proof = (subj, 7), auth_ring_index = 0, auth_revision = 0\<rparr>,
     tx_origin_none = True,
     tx_bestow = Some (\<lparr>vote_subject = [subj], vote_point = 0, vote_direction = d\<rparr>, 0), tx_message = []\<rparr>"

definition demo_state :: "8 word \<Rightarrow> Direction \<Rightarrow> nat \<Rightarrow> int \<Rightarrow> HonourEvent list \<Rightarrow> honour_state" where
  "demo_state subj d now score evs = \<lparr>
     Points = [([7], \<lparr>pi_subject = [subj], pi_subject_alias = [subj], pi_direction = d, last_used_at = now\<rparr>)],
     HonourVotes = [([subj], ())], Tally = [([subj], score)], honour_events = evs\<rparr>"

lemma demo_validate:
  "now < 20 \<Longrightarrow> voter_auth_validate demo_honour () now (demo_tx subj d) s =
     (if is_point_frozen demo_honour [7] now s then Inl InvalidFuture
      else if scontains (HonourVotes s) [subj] then Inl InvalidStale
      else Inr (Some \<lparr>subject_alias = [subj], point_alias = [7]\<rparr>))"
  by (simp add: voter_auth_validate_def demo_tx_def demo_honour_def validate_vote_proof_def
      from_aliases_def get_contexts_def Let_def)

lemma demo_first_vote:
  "apply_honour_tx demo_honour ((), 0) (demo_tx 1 Honourable) honour_genesis =
     Inr (demo_state 1 Honourable 0 0 [VoteCast [1] Honourable, HonourChanged [1] (-1) 0])"
  by (simp add: apply_honour_tx_def demo_validate is_point_frozen_def scontains_def honour_genesis_def)
     (simp add: demo_tx_def bestow_def do_bestow_def release_point_def amend_tally_def read_honour_def
      honour_deposit_def SUBJECT_DEFAULT_SCORE_def sat_add_i32_def sput_def scontains_def demo_state_def Let_def)

theorem honour_is_net_points_witness:
  "read_honour [1] (run_calls (honour_step demo_honour) [(((), 0), demo_tx 1 Honourable)] honour_genesis) = 0"
  using honour_is_net_points [of demo_honour "[(((), 0), demo_tx 1 Honourable)]" "[1]"]
  by (simp add: honour_step_def demo_first_vote points_fit_def)
     (simp add: honour_genesis_def demo_state_def points_to_def Let_def)

theorem vote_not_replayed_witness:
  "\<exists>e. apply_honour_tx demo_honour ((), 19) (demo_tx 1 Honourable)
     (run_calls (honour_step demo_honour) [(((), 10), demo_tx 2 Dishonourable)]
       (demo_state 1 Honourable 0 0 [VoteCast [1] Honourable, HonourChanged [1] (-1) 0])) = Inl e"
proof (rule vote_not_replayed [where before = "[]" and ring = "()" and now = 0])
  show "honour_integrity_test demo_honour"
    by (simp add: honour_integrity_test_def demo_honour_def)
  show "aliases_stable demo_honour"
    by (auto simp: aliases_stable_def demo_honour_def)
qed (simp_all add: demo_first_vote)

end
