(* ===== verification/Chunks_Manager.thy ===== *)
theory Chunks_Manager
  imports Reality "HOL-Library.Monad_Syntax"
begin

text \<open>
  The pallet \<open>pallets/chunks-manager\<close>: the pages of ring chunks, admitted when their hash is the
  one registered for the page, and the lookup of single chunks and of ranges.
\<close>

unbundle bit_operations_syntax

subsection \<open>Storage and configuration\<close>

definition MAX_PAGE_SIZE :: nat where
  "MAX_PAGE_SIZE = 65536"

definition MAX_PAGE_COUNT :: nat where
  "MAX_PAGE_COUNT = 20000"

text \<open>
  The chunk codec (with curve point validation) and the hash \<open>blake2_256\<close> are parameters;
  \<open>decode_chunks\<close> is the decoder of an unbounded vector.
\<close>

record 'c chunks_config =
  PageSize :: nat
  decode_chunks :: "bytes \<Rightarrow> 'c list option"
  blake2_256 :: "bytes \<Rightarrow> bytes"

datatype ChunksEvent =
    ChunkPageHashesInitialized RingExponent nat
  | ChunksAdded RingExponent nat nat

datatype ChunksError = ChunkNotFound | InvalidChunks | InvalidChunkRange

record 'c chunks_state =
  Chunks :: "(RingExponent \<times> nat, 'c list) storage"
  ChunkPageHashes :: "(RingExponent \<times> nat, bytes) storage"
  chunks_events :: "ChunksEvent list"

definition chunks_empty :: "'c chunks_state" where
  "chunks_empty = \<lparr>Chunks = [], ChunkPageHashes = [], chunks_events = []\<rparr>"

definition chunks_integrity_test :: "'c chunks_config \<Rightarrow> bool" where
  "chunks_integrity_test cfg \<longleftrightarrow> PageSize cfg > 0 \<and> PageSize cfg \<le> MAX_PAGE_SIZE"

subsection \<open>Pages and their hashes\<close>

text \<open>Decoding a \<open>BoundedVec<T::Chunk, T::PageSize>\<close> fails when the vector is longer than the bound.\<close>

definition decode_page :: "'c chunks_config \<Rightarrow> bytes \<Rightarrow> 'c list option" where
  "decode_page cfg b =
     (case decode_chunks cfg b of
        Some v \<Rightarrow> if length v \<le> PageSize cfg then Some v else None
      | None \<Rightarrow> None)"

definition authorize_add_chunks ::
  "'c chunks_config \<Rightarrow> RingExponent \<Rightarrow> nat \<Rightarrow> bytes \<Rightarrow> 'c chunks_state \<Rightarrow> bool" where
  "authorize_add_chunks cfg ring_exponent page_index encoded_chunks s =
     (if scontains (Chunks s) (ring_exponent, page_index) then False
      else case sget (ChunkPageHashes s) (ring_exponent, page_index) of
        None \<Rightarrow> False
      | Some expected_page_hash \<Rightarrow> expected_page_hash = blake2_256 cfg encoded_chunks)"

definition add_chunks ::
  "'c chunks_config \<Rightarrow> bool \<Rightarrow> RingExponent \<Rightarrow> nat \<Rightarrow> bytes \<Rightarrow> 'c chunks_state \<Rightarrow>
   ChunksError dispatch_error + 'c chunks_state" where
  "add_chunks cfg authorized ring_exponent page_index encoded_chunks s =
     ensure authorized BadOrigin (
     ok_or (decode_page cfg encoded_chunks) (Module InvalidChunks) (\<lambda>page.
     Inr (s\<lparr>Chunks := sput (ring_exponent, page_index) page (Chunks s),
           chunks_events := chunks_events s @ [ChunksAdded ring_exponent page_index (length page)]\<rparr>)))"

fun insert_page_hashes ::
  "RingExponent \<Rightarrow> nat \<Rightarrow> bytes list \<Rightarrow> (RingExponent \<times> nat, bytes) storage \<Rightarrow>
   (RingExponent \<times> nat, bytes) storage" where
  "insert_page_hashes e i [] H = H"
| "insert_page_hashes e i (h # hs) H = insert_page_hashes e (i + 1) hs (sput (e, i) h H)"

definition add_chunk_page_hashes :: "RingExponent \<Rightarrow> bytes list \<Rightarrow> 'c chunks_state \<Rightarrow> 'c chunks_state" where
  "add_chunk_page_hashes ring_exponent page_hashes s =
     s\<lparr>ChunkPageHashes := insert_page_hashes ring_exponent 0 page_hashes (ChunkPageHashes s),
       chunks_events := chunks_events s @
         [ChunkPageHashesInitialized ring_exponent (length page_hashes)]\<rparr>"

text \<open>A call whose vector exceeds \<open>MAX_PAGE_COUNT\<close> does not decode.\<close>

definition set_chunk_page_hashes ::
  "bool \<Rightarrow> RingExponent \<Rightarrow> bytes list \<Rightarrow> 'c chunks_state \<Rightarrow> ChunksError dispatch_error + 'c chunks_state" where
  "set_chunk_page_hashes manager_or_root ring_exponent page_hashes s =
     ensure manager_or_root BadOrigin (Inr (add_chunk_page_hashes ring_exponent page_hashes s))"

text \<open>The genesis build panics (no result) on an invalid exponent with hashes.\<close>

fun chunks_genesis_build :: "(nat \<times> bytes list) list \<Rightarrow> 'c chunks_state \<Rightarrow> 'c chunks_state option" where
  "chunks_genesis_build [] s = Some s"
| "chunks_genesis_build ((ex, hashes) # rest) s =
     (if hashes = [] then chunks_genesis_build rest s
      else case new_from_exponent ex of
        Inl _ \<Rightarrow> None
      | Inr ring_exponent \<Rightarrow> chunks_genesis_build rest (add_chunk_page_hashes ring_exponent hashes s))"

subsection \<open>Lookup\<close>

text \<open>
  Numbers are \<open>u32\<close>; an exponent is at most 14, so no intermediate value reaches the width. Division
  by a page size of zero panics in the code; the integrity test excludes it.
\<close>

definition get_location :: "'c chunks_config \<Rightarrow> RingExponent \<Rightarrow> nat \<Rightarrow> nat \<times> nat" where
  "get_location cfg ring_exponent chunk_index =
     (let ring_size = 2 ^ exponent ring_exponent;
          page_size = PageSize cfg;
          total_pages = max 1 (ring_size div page_size);
          page_mask = total_pages - 1;
          absolute_page_idx = chunk_index div page_size;
          page_idx = absolute_page_idx AND page_mask;
          position = chunk_index mod page_size
      in (page_idx, position))"

definition get_chunk :: "'c chunks_config \<Rightarrow> 'c chunks_state \<Rightarrow> RingExponent \<Rightarrow> nat \<Rightarrow> ChunksError + 'c" where
  "get_chunk cfg s ring_exponent chunk_index =
     (let (page_idx, position) = get_location cfg ring_exponent chunk_index
      in case sget (Chunks s) (ring_exponent, page_idx) of
           None \<Rightarrow> Inl ChunkNotFound
         | Some page \<Rightarrow> if position < length page then Inr (page ! position) else Inl ChunkNotFound)"

text \<open>The loop over the pages; \<open>None\<close> would be a loop that never ends.\<close>

partial_function (option) get_chunks_loop ::
  "'c chunks_config \<Rightarrow> 'c chunks_state \<Rightarrow> RingExponent \<Rightarrow> nat \<Rightarrow> nat \<Rightarrow> 'c list \<Rightarrow>
   (ChunksError + 'c list) option" where
  "get_chunks_loop cfg s ring_exponent end_idx chunk_index result =
     (if chunk_index < end_idx then
        (let (page_idx, position) = get_location cfg ring_exponent chunk_index
         in case sget (Chunks s) (ring_exponent, page_idx) of
              None \<Rightarrow> Some (Inl ChunkNotFound)
            | Some page \<Rightarrow>
                let count = min (PageSize cfg - position) (end_idx - chunk_index)
                in if length page < position + count then Some (Inl ChunkNotFound)
                   else get_chunks_loop cfg s ring_exponent end_idx (chunk_index + count)
                          (result @ take count (drop position page)))
      else Some (Inr result))"

definition get_chunks ::
  "'c chunks_config \<Rightarrow> 'c chunks_state \<Rightarrow> RingExponent \<Rightarrow> nat \<Rightarrow> nat \<Rightarrow> (ChunksError + 'c list) option" where
  "get_chunks cfg s ring_exponent start end_idx =
     (if start < end_idx then get_chunks_loop cfg s ring_exponent end_idx start []
      else Some (Inl InvalidChunkRange))"

end
