(* ===== verification/Chunks_Props.thy ===== *)
theory Chunks_Props
  imports Chunks_Manager
begin

text \<open>
  The range lookup is the single lookup repeated and always ends; the ring wraps around when the
  page size is a power of two; pages are admitted by hash and never change afterwards.
\<close>

subsection \<open>Lookup of a range\<close>

text \<open>The reference: look up the chunks one by one, stopping at the first that is missing.\<close>

fun get_each :: "'c chunks_config \<Rightarrow> 'c chunks_state \<Rightarrow> RingExponent \<Rightarrow> nat list \<Rightarrow> ChunksError + 'c list" where
  "get_each cfg s e [] = Inr []"
| "get_each cfg s e (i # is) =
     on_ok (get_chunk cfg s e i) (\<lambda>c. on_ok (get_each cfg s e is) (\<lambda>cs. Inr (c # cs)))"

lemma get_each_append:
  "get_each cfg s e (is @ js) =
     on_ok (get_each cfg s e is) (\<lambda>cs. on_ok (get_each cfg s e js) (\<lambda>ds. Inr (cs @ ds)))"
proof (induction "is")
  case Nil
  then show ?case by (cases "get_each cfg s e js") simp_all
next
  case (Cons i "is")
  then show ?case
    by (cases "get_chunk cfg s e i"; cases "get_each cfg s e is"; cases "get_each cfg s e js") simp_all
qed

lemma get_chunk_error: "get_chunk cfg s e i = Inl err \<Longrightarrow> err = ChunkNotFound"
  by (auto simp: get_chunk_def split: prod.splits option.splits if_splits)

lemma get_each_error: "get_each cfg s e is = Inl err \<Longrightarrow> err = ChunkNotFound"
  by (induction "is") (auto dest: get_chunk_error simp: on_ok_def split: sum.splits)

text \<open>Within a page the positions are consecutive.\<close>

lemma get_location_in_page:
  assumes "get_location cfg e i = (pg, pos)" and "pos + k < PageSize cfg"
  shows "get_location cfg e (i + k) = (pg, pos + k)"
proof -
  have pos: "pos = i mod PageSize cfg" using assms(1) by (simp add: get_location_def Let_def)
  have ik: "i + k = (pos + k) + PageSize cfg * (i div PageSize cfg)"
    using mod_mult_div_eq [of i "PageSize cfg"] by (simp add: pos)
  have "(i + k) mod PageSize cfg = pos + k" "(i + k) div PageSize cfg = i div PageSize cfg"
    using assms(2) by (subst ik; simp)+
  then show ?thesis using assms(1) by (simp add: get_location_def Let_def)
qed

lemma get_chunk_in_page:
  assumes "get_location cfg e i = (pg, pos)" and "pos + k < PageSize cfg"
    and "sget (Chunks s) (e, pg) = Some page"
  shows "get_chunk cfg s e (i + k) = (if pos + k < length page then Inr (page ! (pos + k)) else Inl ChunkNotFound)"
  using get_location_in_page [OF assms(1,2)] assms(3) by (simp add: get_chunk_def)

lemma get_each_in_page:
  assumes loc: "get_location cfg e i = (pg, pos)" and page: "sget (Chunks s) (e, pg) = Some page"
    and "pos + n \<le> PageSize cfg" and "pos + n \<le> length page"
  shows "get_each cfg s e [i..<i + n] = Inr (take n (drop pos page))"
  using assms(3,4)
proof (induction n)
  case (Suc n)
  then have "take (Suc n) (drop pos page) = take n (drop pos page) @ [page ! (pos + n)]"
    by (simp add: take_Suc_conv_app_nth)
  then show ?case
    using Suc get_chunk_in_page [OF loc _ page, of n] by (simp add: get_each_append)
qed simp

lemma get_each_missing:
  assumes "get_chunk cfg s e j = Inl ChunkNotFound" and "j \<in> set is"
  shows "get_each cfg s e is = Inl ChunkNotFound"
  using assms(2)
proof (induction "is")
  case (Cons i "is")
  then show ?case
    using assms(1) get_chunk_error [of cfg s e i]
    by (cases "get_chunk cfg s e i") auto
qed simp

lemma get_location_pos: "PageSize cfg > 0 \<Longrightarrow> snd (get_location cfg e i) < PageSize cfg"
  by (simp add: get_location_def Let_def)

lemma get_chunks_loop_correct:
  assumes "PageSize cfg > 0"
  shows "i \<le> n \<Longrightarrow> get_chunks_loop cfg s e n i acc =
    Some (on_ok (get_each cfg s e [i..<n]) (\<lambda>cs. Inr (acc @ cs)))"
proof (induction "n - i" arbitrary: i acc rule: less_induct)
  case less
  obtain pg pos where loc: "get_location cfg e i = (pg, pos)" by fastforce
  have pos: "pos < PageSize cfg" using get_location_pos [OF assms, of e i] loc by simp
  show ?case
  proof (cases "i < n")
    case False
    then show ?thesis by (subst get_chunks_loop.simps) simp
  next
    case True
    define count where "count = min (PageSize cfg - pos) (n - i)"
    have count: "count > 0" "i + count \<le> n" "pos + count \<le> PageSize cfg"
      using True pos by (auto simp: count_def)
    have split: "[i..<n] = [i..<i + count] @ [i + count..<n]"
      using upt_add_eq_append [of i "i + count" "n - (i + count)"] count(2) by simp
    show ?thesis
    proof (cases "sget (Chunks s) (e, pg)")
      case None
      then have "get_chunk cfg s e i = Inl ChunkNotFound" using loc by (simp add: get_chunk_def)
      then have "get_each cfg s e [i..<n] = Inl ChunkNotFound"
        using True by (intro get_each_missing [where j = i]) simp_all
      then show ?thesis using None loc True by (subst get_chunks_loop.simps) simp
    next
      case (Some page)
      show ?thesis
      proof (cases "length page < pos + count")
        case short: True
        have "get_chunk cfg s e (i + (count - 1)) = Inl ChunkNotFound"
          using get_chunk_in_page [OF loc _ Some, of "count - 1"] count short by simp
        then have "get_each cfg s e [i..<n] = Inl ChunkNotFound"
          using count by (intro get_each_missing [where j = "i + (count - 1)"]) auto
        then show ?thesis
          using Some loc True short by (subst get_chunks_loop.simps) (simp add: count_def Let_def)
      next
        case False
        have "get_each cfg s e [i..<i + count] = Inr (take count (drop pos page))"
          using get_each_in_page [OF loc Some, of count] count False by simp
        then have "get_each cfg s e [i..<n] = on_ok (get_each cfg s e [i + count..<n])
            (\<lambda>ds. Inr (take count (drop pos page) @ ds))"
          by (simp add: split get_each_append)
        moreover have "get_chunks_loop cfg s e n i acc =
            get_chunks_loop cfg s e n (i + count) (acc @ take count (drop pos page))"
          using Some loc True False by (subst get_chunks_loop.simps) (simp add: count_def Let_def)
        ultimately show ?thesis
          using less.hyps [of "i + count" "acc @ take count (drop pos page)"] count True
          by (cases "get_each cfg s e [i + count..<n]") simp_all
      qed
    qed
  qed
qed

text \<open>
  C15: with a page size the integrity test accepts, the range lookup always ends, and it returns what
  looking up the chunks of the range one by one returns: the chunks in order, or \<open>ChunkNotFound\<close>
  when one is missing. An empty range is refused.
\<close>

theorem get_chunks_is_each:
  assumes "chunks_integrity_test cfg"
  shows "get_chunks cfg s e start end_idx =
    Some (if start < end_idx then get_each cfg s e [start..<end_idx] else Inl InvalidChunkRange)"
proof (cases "start < end_idx")
  case True
  then show ?thesis
    using get_chunks_loop_correct [of cfg start end_idx s e "[]"] assms
    by (cases "get_each cfg s e [start..<end_idx]")
       (simp_all add: get_chunks_def chunks_integrity_test_def del: upt_Suc)
qed (simp add: get_chunks_def)

subsection \<open>The ring wraps around\<close>

lemma get_location_pow2:
  assumes "PageSize cfg = 2 ^ k" and "k \<le> exponent e"
  shows "get_location cfg e i = (i div 2 ^ k mod 2 ^ (exponent e - k), i mod 2 ^ k)"
proof -
  have div: "2 ^ exponent e div 2 ^ k = (2 :: nat) ^ (exponent e - k)"
    using assms(2) by (simp add: power_diff)
  have "x AND (2 ^ (exponent e - k) - 1) = x mod 2 ^ (exponent e - k)" for x :: nat
    by (metis mask_eq_exp_minus_1 take_bit_eq_mask take_bit_eq_mod)
  moreover have "max 1 ((2 :: nat) ^ n) = 2 ^ n" for n :: nat by (simp add: max_def)
  ultimately show ?thesis using assms(1) div by (simp add: get_location_def Let_def)
qed

text \<open>
  C31: when the page size is a power of two not above the ring size, a chunk index addresses the chunk of
  its residue modulo the ring size, and the page and position of an index below the ring size
  determine the index: no two chunks of a ring share a place.
\<close>

theorem ring_wraps_around:
  assumes "PageSize cfg = 2 ^ k" and "k \<le> exponent e"
  shows "get_chunk cfg s e i = get_chunk cfg s e (i mod 2 ^ exponent e) \<and>
    i mod 2 ^ exponent e = fst (get_location cfg e i) * PageSize cfg + snd (get_location cfg e i)"
proof -
  let ?d = "exponent e - k"
  have pow: "(2 :: nat) ^ exponent e = 2 ^ k * 2 ^ ?d"
    using assms(2) by (simp add: power_add [symmetric])
  have eq: "i mod 2 ^ exponent e = 2 ^ k * (i div 2 ^ k mod 2 ^ ?d) + i mod 2 ^ k"
    unfolding pow by (rule mod_mult2_eq)
  have "get_location cfg e (i mod 2 ^ exponent e) = get_location cfg e i"
    unfolding get_location_pow2 [OF assms] eq by simp
  then show ?thesis using eq get_location_pow2 [OF assms, of i] assms(1) by (simp add: get_chunk_def)
qed

text \<open>
  The integrity test does not ask for a power of two, which the documentation of \<open>PageSize\<close> does. With
  a page size of three and a ring of 512 the pages after the second are masked away: page 2 is never
  looked up, so chunk 6 is read from the place of chunk 0.
\<close>

theorem page_size_not_checked:
  "chunks_integrity_test \<lparr>PageSize = 3, decode_chunks = dec, blake2_256 = h\<rparr> \<and>
   fst (get_location \<lparr>PageSize = 3, decode_chunks = dec, blake2_256 = h\<rparr> R2e9 i) \<noteq> 2 \<and>
   get_location \<lparr>PageSize = 3, decode_chunks = dec, blake2_256 = h\<rparr> R2e9 6 =
   get_location \<lparr>PageSize = 3, decode_chunks = dec, blake2_256 = h\<rparr> R2e9 0"
proof -
  have "x AND 169 \<noteq> 2" for x :: nat
  proof
    assume "x AND 169 = 2"
    then have "bit (x AND 169) 1 = bit (2 :: nat) 1" by simp
    then show False by (simp add: bit_and_iff bit_numeral_rec bit_0)
  qed
  then show ?thesis
    by (simp add: chunks_integrity_test_def MAX_PAGE_SIZE_def get_location_def Let_def)
qed

definition demo_chunks :: "nat chunks_config" where
  "demo_chunks = \<lparr>PageSize = 2, decode_chunks = (\<lambda>b. Some (map unat b)), blake2_256 = id\<rparr>"

definition demo_pages :: "nat chunks_state" where
  "demo_pages = chunks_empty\<lparr>Chunks := [((R2e9, 0), [10, 11]), ((R2e9, 1), [12])]\<rparr>"

lemma demo_get_chunk:
  "get_chunk demo_chunks demo_pages R2e9 1 = Inr 11" "get_chunk demo_chunks demo_pages R2e9 2 = Inr 12"
  "get_chunk demo_chunks demo_pages R2e9 3 = Inl ChunkNotFound"
  by (simp_all add: get_chunk_def get_location_pow2 [where k = 1] demo_chunks_def demo_pages_def sget_def)

theorem get_chunks_is_each_witness:
  "get_chunks demo_chunks demo_pages R2e9 1 3 = Some (Inr [11, 12]) \<and>
   get_chunks demo_chunks demo_pages R2e9 2 4 = Some (Inl ChunkNotFound)"
proof -
  have "chunks_integrity_test demo_chunks"
    by (simp add: chunks_integrity_test_def demo_chunks_def MAX_PAGE_SIZE_def)
  note g = get_chunks_is_each [OF this]
  have "[1..<3] = [1, 2::nat]" "[2..<4] = [2, 3::nat]" by (simp_all add: upt_rec)
  then show ?thesis by (simp add: g demo_get_chunk del: upt_Suc One_nat_def)
qed

theorem ring_wraps_around_witness:
  "get_chunk demo_chunks demo_pages R2e9 513 = get_chunk demo_chunks demo_pages R2e9 1"
  using ring_wraps_around [of demo_chunks 1 R2e9 demo_pages 513] by (simp add: demo_chunks_def)

subsection \<open>Pages are admitted by hash and stay\<close>

datatype chunks_op =
    AddChunks RingExponent nat bytes
  | SetChunkPageHashes bool RingExponent "bytes list"

text \<open>An \<open>add_chunks\<close> call is dispatched with the authorised origin when the authorisation accepts it.\<close>

fun chunks_step ::
  "'c chunks_config \<Rightarrow> chunks_op \<Rightarrow> 'c chunks_state \<Rightarrow> ChunksError dispatch_error + 'c chunks_state" where
  "chunks_step cfg (AddChunks e p b) s = add_chunks cfg (authorize_add_chunks cfg e p b s) e p b s"
| "chunks_step cfg (SetChunkPageHashes m e hs) s = set_chunk_page_hashes m e hs s"

lemma chunks_step_page:
  assumes "chunks_step cfg x s = Inr s'"
  shows "sget (Chunks s') k = sget (Chunks s) k \<or>
    (\<exists>b page. x = AddChunks (fst k) (snd k) b \<and> sget (Chunks s) k = None \<and> sget (Chunks s') k = Some page \<and>
       decode_page cfg b = Some page \<and> sget (ChunkPageHashes s) k = Some (blake2_256 cfg b))"
  using assms
  by (cases x) (auto simp: add_chunks_def set_chunk_page_hashes_def add_chunk_page_hashes_def
      authorize_add_chunks_def scontains_def split: if_splits option.splits)

lemma chunks_step_keeps_page:
  "sget (Chunks s) k = Some page \<Longrightarrow> chunks_step cfg x s = Inr s' \<Longrightarrow> sget (Chunks s') k = Some page"
  using chunks_step_page [of cfg x s s' k] by auto

interpretation stored_page: pallet_contract "chunks_step cfg" "\<lambda>s. sget (Chunks s) k = Some page" "\<lambda>_ _. True"
  for cfg k page
  by unfold_locales (rule chunks_step_keeps_page)

text \<open>
  C33: a page once stored is never changed or removed, whatever calls follow.
\<close>

theorem stored_page_stays:
  assumes "sget (Chunks s) (e, p) = Some page"
  shows "sget (Chunks (run_calls (chunks_step cfg) xs s)) (e, p) = Some page"
  using stored_page.run_keeps [OF assms guarded_run_trivial] .

theorem stored_page_stays_witness:
  "sget (Chunks (run_calls (chunks_step demo_chunks) [AddChunks R2e9 0 [1, 2]] demo_pages)) (R2e9, 0) = Some [10, 11]"
  by (rule stored_page_stays) (simp add: demo_pages_def sget_def)

text \<open>
  Every page that the pallet holds after a run from the empty storage was brought by an \<open>add_chunks\<close>
  call of that run whose bytes decode to the page, fit the page size, and had, when the call ran,
  the hash registered for that page.
\<close>

theorem page_has_registered_hash:
  assumes "sget (Chunks (run_calls (chunks_step cfg) xs chunks_empty)) (e, p) = Some page"
  shows "\<exists>before b later. xs = before @ AddChunks e p b # later \<and> decode_chunks cfg b = Some page \<and>
    length page \<le> PageSize cfg \<and>
    sget (ChunkPageHashes (run_calls (chunks_step cfg) before chunks_empty)) (e, p) = Some (blake2_256 cfg b)"
  using assms
proof (induction xs rule: rev_induct)
  case Nil
  then show ?case by (simp add: chunks_empty_def)
next
  case (snoc x xs)
  let ?s = "run_calls (chunks_step cfg) xs chunks_empty"
  have last: "run_calls (chunks_step cfg) (xs @ [x]) chunks_empty =
      (case chunks_step cfg x ?s of Inl _ \<Rightarrow> ?s | Inr s' \<Rightarrow> s')"
    by (simp add: run_calls_append)
  show ?case
  proof (cases "sget (Chunks ?s) (e, p) = Some page")
    case True
    with snoc.IH show ?thesis by fastforce
  next
    case False
    then obtain s' where s': "chunks_step cfg x ?s = Inr s'" "sget (Chunks s') (e, p) = Some page"
      using snoc.prems unfolding last by (auto split: sum.splits)
    with False chunks_step_page [OF s'(1), of "(e, p)"] obtain b
      where "x = AddChunks e p b" "decode_page cfg b = Some page"
        "sget (ChunkPageHashes ?s) (e, p) = Some (blake2_256 cfg b)"
      by auto
    then show ?thesis
      by (intro exI [of _ xs] exI [of _ b] exI [of _ "[]"])
         (auto simp: decode_page_def split: option.splits if_splits)
  qed
qed

theorem page_has_registered_hash_witness:
  "\<exists>before b later. [SetChunkPageHashes True R2e9 [[5, 6]], AddChunks R2e9 0 [5, 6]] = before @ AddChunks R2e9 0 b # later \<and>
    decode_chunks demo_chunks b = Some [5, 6] \<and> length [5, 6 :: nat] \<le> PageSize demo_chunks \<and>
    sget (ChunkPageHashes (run_calls (chunks_step demo_chunks) before chunks_empty)) (R2e9, 0) =
      Some (blake2_256 demo_chunks b)"
  by (rule page_has_registered_hash)
     (simp add: demo_chunks_def chunks_empty_def set_chunk_page_hashes_def add_chunk_page_hashes_def add_chunks_def
      authorize_add_chunks_def decode_page_def scontains_def sget_def sput_def)

end
