(* ===== verification/Members.thy ===== *)
theory Members
  imports Chunks_Manager
begin

text \<open>
  The pallet \<open>pallets/members\<close>: collections of members, each waiting in a paginated onboarding
  queue or included in a ring whose root commits to its keys. This theory holds the storage
  and the internal operations; \<open>Members_Calls\<close> holds the calls, their authorisation, the interface
  for other pallets and the verification of membership proofs.
\<close>

subsection \<open>Types\<close>

type_synonym coll_id = bytes

datatype CollectionOwner = ExternalOwner bytes | LocalOwner account_id

record CollectionInfo =
  ci_owner :: CollectionOwner
  ci_mode :: RingMode
  ci_ring_size :: RingExponent
  ci_self_inclusion_delay :: "nat option"

record ('root, 'inter) RingRoot =
  rr_root :: 'root
  rr_revision :: nat
  rr_intermediate :: 'inter

record 'root OldRoot =
  or_root :: 'root
  or_archived_at :: nat

datatype 'root RingRootOp = RootBuilt nat 'root | RootDeleted

datatype 'm QueueMergeAction = MergePages nat nat "'m list" "'m list" | NoMergeAction

definition BUILD_MAX_ENTRIES :: nat where
  "BUILD_MAX_ENTRIES = 10"

definition OFFCHAIN_WORKER_OLD_ROOT_CLEANUP_LIMIT :: nat where
  "OFFCHAIN_WORKER_OLD_ROOT_CLEANUP_LIMIT = 1000"

text \<open>
  The configuration. The ring crypto and the capacity of a ring are parameters: \<open>capacity_supported\<close>
  says whether the exponent converts to a capacity of the crypto, and the exponent stands for
  that capacity in the crypto's operations. The chunks come from the chunks manager.
\<close>

record ('m, 'root, 'inter, 'c) members_config =
  MaxCollections :: nat
  OnboardingQueuePageSize :: nat
  MaxFlexibleRingExponent :: RingExponent
  RingBuildingMemberLimit :: nat
  OldRootRetentionDuration :: nat
  OffchainWorkerInterval :: nat
  ring_capacity :: "RingExponent \<Rightarrow> nat"
  capacity_supported :: "RingExponent \<Rightarrow> bool"
  start_members :: "RingExponent \<Rightarrow> 'inter"
  push_members :: "'inter \<Rightarrow> 'm list \<Rightarrow> (nat \<times> nat \<Rightarrow> 'c list option) \<Rightarrow> 'inter option"
  finish_members :: "'inter \<Rightarrow> 'root"
  is_member_valid :: "'m \<Rightarrow> bool"
  ChunksManager :: "'c chunks_config"

text \<open>What a call reads of its surroundings: the clock in seconds and the chunk pages.\<close>

record 'c members_env =
  env_now :: nat
  env_chunks :: "'c chunks_state"

datatype 'm MembersEvent =
    MemberAdded 'm
  | MemberRemoved 'm
  | CollectionMarked coll_id
  | CollectionDeleted coll_id
  | RingBuilt coll_id nat
  | MembersOnboarded coll_id
  | RingsMerged coll_id nat nat
  | OnboardingSizeSet coll_id nat
  | MemberSelfIncluded coll_id 'm
  | OldRootCleanedUp coll_id nat nat

datatype MembersError =
    NotMember | NoRoot | InvalidProof | Incomplete | TooManyMembers | KeyAlreadyInUse | KeyNotFound
  | CouldNotPush | InvalidRing | SuspensionsPending | RingAboveMergeThreshold | InvalidSuspensions
  | NoRemovalSession | CouldNotStartRemovalSession | RemovalSessionInProgress | KeyAlreadySuspended
  | InvalidOnboardingSize | InvalidMemberKey | CollectionNotFound | CollectionAlreadyExists
  | TooManyCollections | InvalidRingSizeForFlexible | InvalidRingExponent | PrematureOnboarding
  | CollectionMarkedForDeletion | NotCollectionOwner | NotOnboarding | NothingToBuild

subsection \<open>Storage\<close>

text \<open>
  \<open>root_changes\<close> lists the notifications \<open>OnRingRootChange\<close> received, in order; the maps with a
  default value are read by \<open>sget_or\<close>.
\<close>

record ('m, 'root, 'inter) members_state =
  Collections :: "(coll_id, CollectionInfo) storage"
  SuspendedCollections :: "(coll_id, CollectionInfo) storage"
  IdentifiersOf :: "(CollectionOwner, coll_id list) storage"
  Root :: "(coll_id \<times> nat, ('root, 'inter) RingRoot) storage"
  OldRoots :: "(coll_id \<times> nat \<times> nat, 'root OldRoot) storage"
  CurrentRingIndex :: "(coll_id, nat) storage"
  OnboardingSize :: "(coll_id, nat) storage"
  RingKeys :: "(coll_id \<times> nat \<times> nat, 'm list) storage"
  RingKeysStatus :: "(coll_id \<times> nat, RingStatus) storage"
  PendingSuspensions :: "(coll_id \<times> nat, nat list) storage"
  ActiveMembers :: "(coll_id, nat) storage"
  Members :: "(coll_id \<times> 'm, RingPosition) storage"
  RingsState :: "(coll_id, RingMembersState) storage"
  StaleRings :: "(coll_id \<times> nat, unit) storage"
  QueuePageIndices :: "(coll_id, nat \<times> nat) storage"
  OnboardingQueue :: "(coll_id \<times> nat, 'm list) storage"
  RingDeletionQueue :: "(coll_id \<times> nat \<times> nat, unit) storage"
  members_events :: "'m MembersEvent list"
  root_changes :: "(coll_id \<times> nat \<times> 'root RingRootOp) list"

definition members_genesis :: "('m, 'root, 'inter) members_state" where
  "members_genesis = \<lparr>Collections = [], SuspendedCollections = [], IdentifiersOf = [], Root = [],
     OldRoots = [], CurrentRingIndex = [], OnboardingSize = [], RingKeys = [], RingKeysStatus = [],
     PendingSuspensions = [], ActiveMembers = [], Members = [], RingsState = [], StaleRings = [],
     QueuePageIndices = [], OnboardingQueue = [], RingDeletionQueue = [], members_events = [],
     root_changes = []\<rparr>"

definition default_status :: RingStatus where
  "default_status = \<lparr>rs_total = 0, rs_included = 0, rs_immutable_since = None\<rparr>"

definition status_of :: "('m, 'root, 'inter) members_state \<Rightarrow> coll_id \<Rightarrow> nat \<Rightarrow> RingStatus" where
  "status_of s i r = sget_or default_status (RingKeysStatus s) (i, r)"

definition keys_of :: "('m, 'root, 'inter) members_state \<Rightarrow> coll_id \<Rightarrow> nat \<Rightarrow> nat \<Rightarrow> 'm list" where
  "keys_of s i r p = sget_or [] (RingKeys s) (i, r, p)"

definition queue_of :: "('m, 'root, 'inter) members_state \<Rightarrow> coll_id \<Rightarrow> nat \<Rightarrow> 'm list" where
  "queue_of s i p = sget_or [] (OnboardingQueue s) (i, p)"

definition pending_of :: "('m, 'root, 'inter) members_state \<Rightarrow> coll_id \<Rightarrow> nat \<Rightarrow> nat list" where
  "pending_of s i r = sget_or [] (PendingSuspensions s) (i, r)"

definition rings_state_of :: "('m, 'root, 'inter) members_state \<Rightarrow> coll_id \<Rightarrow> RingMembersState" where
  "rings_state_of s i = sget_or default_ring_members_state (RingsState s) i"

definition current_ring :: "('m, 'root, 'inter) members_state \<Rightarrow> coll_id \<Rightarrow> nat" where
  "current_ring s i = sget_or 0 (CurrentRingIndex s) i"

definition queue_pages :: "('m, 'root, 'inter) members_state \<Rightarrow> coll_id \<Rightarrow> nat \<times> nat" where
  "queue_pages s i = sget_or (0, 0) (QueuePageIndices s) i"

definition active_count :: "('m, 'root, 'inter) members_state \<Rightarrow> coll_id \<Rightarrow> nat" where
  "active_count s i = sget_or 0 (ActiveMembers s) i"

definition ring_revision :: "coll_id \<Rightarrow> nat \<Rightarrow> ('m, 'root, 'inter) members_state \<Rightarrow> nat option" where
  "ring_revision i r s = map_option rr_revision (sget (Root s) (i, r))"

definition members_deposit :: "'m MembersEvent \<Rightarrow> ('m, 'root, 'inter) members_state \<Rightarrow> ('m, 'root, 'inter) members_state" where
  "members_deposit e s = s\<lparr>members_events := members_events s @ [e]\<rparr>"

definition on_ring_root_change ::
  "coll_id \<Rightarrow> nat \<Rightarrow> 'root RingRootOp \<Rightarrow> ('m, 'root, 'inter) members_state \<Rightarrow> ('m, 'root, 'inter) members_state" where
  "on_ring_root_change i r ch s = s\<lparr>root_changes := root_changes s @ [(i, r, ch)]\<rparr>"

definition flexible_ring_capacity :: "('m, 'root, 'inter, 'c) members_config \<Rightarrow> nat" where
  "flexible_ring_capacity cfg = ring_capacity cfg (MaxFlexibleRingExponent cfg)"

text \<open>\<open>checked_add(1).unwrap_or(0)\<close> on a \<open>u32\<close> page index, and \<open>saturating_inc\<close>.\<close>

definition next_page :: "nat \<Rightarrow> nat" where
  "next_page p = (case checked_add u32_max p 1 of Some q \<Rightarrow> q | None \<Rightarrow> 0)"

definition saturating_inc :: "nat \<Rightarrow> nat" where
  "saturating_inc n = sat_add u32_max n 1"

text \<open>\<open>BoundedVec::try_push\<close>.\<close>

definition try_push :: "nat \<Rightarrow> 'a list \<Rightarrow> 'a \<Rightarrow> 'a list option" where
  "try_push bound xs x = (if length xs < bound then Some (xs @ [x]) else None)"

definition members_integrity_test :: "('m, 'root, 'inter, 'c) members_config \<Rightarrow> bool" where
  "members_integrity_test cfg \<longleftrightarrow>
     flexible_ring_capacity cfg > 0 \<and> OnboardingQueuePageSize cfg > 0 \<and>
     RingBuildingMemberLimit cfg \<le> flexible_ring_capacity cfg \<and> OffchainWorkerInterval cfg > 0 \<and>
     list_all (capacity_supported cfg) ALL_exponents"

subsection \<open>The onboarding queue\<close>

definition push_to_onboarding_queue ::
  "('m, 'root, 'inter, 'c) members_config \<Rightarrow> nat \<Rightarrow> coll_id \<Rightarrow> 'm \<Rightarrow> ('m, 'root, 'inter) members_state \<Rightarrow>
   MembersError + ('m, 'root, 'inter) members_state" where
  "push_to_onboarding_queue cfg now i key s =
     (let (head, tail0) = queue_pages s i;
          keys0 = queue_of s i tail0;
          store = (\<lambda>tail keys.
            Inr (members_deposit (MemberAdded key)
              (s\<lparr>QueuePageIndices := sput i (head, tail) (QueuePageIndices s),
                OnboardingQueue := sput (i, tail) keys (OnboardingQueue s),
                Members := sput (i, key) (Onboarding tail now) (Members s)\<rparr>)))
      in case try_push (OnboardingQueuePageSize cfg) keys0 key of
           Some keys \<Rightarrow> store tail0 keys
         | None \<Rightarrow> let tail = next_page tail0 in ensure (tail \<noteq> head) TooManyMembers (store tail [key]))"

definition should_merge_queue_pages ::
  "('m, 'root, 'inter, 'c) members_config \<Rightarrow> coll_id \<Rightarrow> ('m, 'root, 'inter) members_state \<Rightarrow> 'm QueueMergeAction" where
  "should_merge_queue_pages cfg i s =
     (if scontains (SuspendedCollections s) i then NoMergeAction
      else let (initial_head, tail) = queue_pages s i;
               first_key_page = queue_of s i initial_head
           in if initial_head = tail then NoMergeAction
              else let new_head = next_page initial_head;
                       second_key_page = queue_of s i new_head
                   in if length first_key_page + length second_key_page > OnboardingQueuePageSize cfg
                      then NoMergeAction
                      else MergePages initial_head new_head first_key_page second_key_page)"

fun requeue_loop ::
  "coll_id \<Rightarrow> nat \<Rightarrow> 'm list \<Rightarrow> ('m, 'root, 'inter) members_state \<Rightarrow>
   MembersError + ('m, 'root, 'inter) members_state" where
  "requeue_loop i new_head [] s = Inr s"
| "requeue_loop i new_head (key # keys) s =
     ok_or (sget (Members s) (i, key)) KeyNotFound (\<lambda>position.
       requeue_loop i new_head keys
         (case position of
            Onboarding _ since \<Rightarrow> s\<lparr>Members := sput (i, key) (Onboarding new_head since) (Members s)\<rparr>
          | _ \<Rightarrow> s))"

definition merge_queue_pages ::
  "('m, 'root, 'inter, 'c) members_config \<Rightarrow> coll_id \<Rightarrow> nat \<Rightarrow> nat \<Rightarrow> 'm list \<Rightarrow> 'm list \<Rightarrow>
   ('m, 'root, 'inter) members_state \<Rightarrow> MembersError + ('m, 'root, 'inter) members_state" where
  "merge_queue_pages cfg i initial_head new_head first_key_page second_key_page s =
     on_ok (requeue_loop i new_head first_key_page s) (\<lambda>s1.
     ensure (length first_key_page + length second_key_page \<le> OnboardingQueuePageSize cfg) TooManyMembers (
     Inr (s1\<lparr>OnboardingQueue := sput (i, new_head) (first_key_page @ second_key_page)
                (sdel (i, initial_head) (OnboardingQueue s1)),
            QueuePageIndices := sput i (new_head, snd (queue_pages s1 i)) (QueuePageIndices s1)\<rparr>)))"

subsection \<open>The ring that takes new members\<close>

text \<open>
  \<open>available_ring\<close>: the ring, the page, the keys of the page and the status of the ring that was current; the
  state changes only in the branch the code calls unreachable.
\<close>

definition available_ring ::
  "('m, 'root, 'inter, 'c) members_config \<Rightarrow> coll_id \<Rightarrow> nat \<Rightarrow> ('m, 'root, 'inter) members_state \<Rightarrow>
   (nat \<times> nat \<times> 'm list \<times> RingStatus) \<times> ('m, 'root, 'inter) members_state" where
  "available_ring cfg i max_ring_size s =
     (let page_size = flexible_ring_capacity cfg;
          current = current_ring s i;
          ring_status = status_of s i current;
          page_index = rs_total ring_status div page_size;
          current_keys = keys_of s i current page_index;
          is_full = page_index * page_size + length current_keys \<ge> max_ring_size
      in if is_full then
           let next = saturating_inc current;
               s1 = s\<lparr>CurrentRingIndex := sput i next (CurrentRingIndex s)\<rparr>
           in ((next, 0, keys_of s1 i next 0, ring_status), s1)
         else ((current, page_index, current_keys, ring_status), s))"

definition should_onboard_members ::
  "coll_id \<Rightarrow> nat \<Rightarrow> RingStatus \<Rightarrow> nat \<Rightarrow> nat \<Rightarrow> nat \<Rightarrow> nat \<Rightarrow> ('m, 'root, 'inter) members_state \<Rightarrow>
   (nat \<times> bool) option" where
  "should_onboard_members i ring ring_status open_slots available_for_inclusion onboarding_size
     max_ring_size s =
     (if scontains (SuspendedCollections s) i then None
      else if \<not> append_only (rings_state_of s i) then None
      else if scontains (PendingSuspensions s) (i, ring) then None
      else
        let to_include = min available_for_inclusion open_slots
        in if to_include = 0 then None
           else
             let can_onboard_with_cohort = (to_include \<ge> onboarding_size \<and>
                   sat_add u32_max (rs_total ring_status) to_include \<le> max_ring_size - onboarding_size);
                 ring_filled = (open_slots = to_include)
             in if ring_filled \<or> can_onboard_with_cohort then Some (to_include, ring_filled) else None)"

fun onboard_loop ::
  "('m, 'root, 'inter, 'c) members_config \<Rightarrow> coll_id \<Rightarrow> nat \<Rightarrow> nat \<Rightarrow> 'm list \<Rightarrow> 'm list \<Rightarrow>
   ('m, 'root, 'inter) members_state \<Rightarrow> MembersError + (nat \<times> 'm list \<times> ('m, 'root, 'inter) members_state)" where
  "onboard_loop cfg i ring page keys [] s = Inr (page, keys, s)"
| "onboard_loop cfg i ring page keys (key # rest) s =
     ensure (scontains (Members s) (i, key)) KeyNotFound (
     let s1 = s\<lparr>Members := sput (i, key) (Included ring page (length keys)) (Members s)\<rparr>
     in ok_or (try_push (flexible_ring_capacity cfg) keys key) TooManyMembers (\<lambda>keys1.
        if length keys1 \<ge> flexible_ring_capacity cfg then
          let s2 = s1\<lparr>RingKeys := sput (i, ring, page) keys1 (RingKeys s1)\<rparr>;
              page1 = saturating_inc page
          in onboard_loop cfg i ring page1 (keys_of s2 i ring page1) rest s2
        else onboard_loop cfg i ring page keys1 rest s1))"

text \<open>Putting back what is left of the one or two queue pages that were read.\<close>

definition store_remaining ::
  "('m, 'root, 'inter, 'c) members_config \<Rightarrow> coll_id \<Rightarrow> nat \<Rightarrow> nat \<Rightarrow> nat \<Rightarrow> 'm list \<Rightarrow>
   ('m, 'root, 'inter) members_state \<Rightarrow> ('m, 'root, 'inter) members_state" where
  "store_remaining cfg i old_head head tail remaining s =
     (if length remaining > OnboardingQueuePageSize cfg then
        let split_idx = length remaining - OnboardingQueuePageSize cfg
        in s\<lparr>OnboardingQueue := sput (i, head) (drop split_idx remaining)
               (sput (i, old_head) (take split_idx remaining) (OnboardingQueue s)),
             QueuePageIndices := sput i (old_head, tail) (QueuePageIndices s)\<rparr>
      else if remaining \<noteq> [] then
        s\<lparr>OnboardingQueue := sput (i, head) remaining (sdel (i, old_head) (OnboardingQueue s)),
          QueuePageIndices := sput i (head, tail) (QueuePageIndices s)\<rparr>
      else
        let q1 = sdel (i, head) (OnboardingQueue s);
            q2 = (if old_head \<noteq> head then sdel (i, old_head) q1 else q1);
            head' = (if head \<noteq> tail then next_page head else head)
        in s\<lparr>OnboardingQueue := q2, QueuePageIndices := sput i (head', tail) (QueuePageIndices s)\<rparr>)"

text \<open>
  \<open>onboard_members\<close> runs in a storage transaction: an error, and \<open>Ok(false)\<close>, leave the state as it was.
\<close>

definition onboard_members ::
  "('m, 'root, 'inter, 'c) members_config \<Rightarrow> coll_id \<Rightarrow> bool \<Rightarrow> ('m, 'root, 'inter) members_state \<Rightarrow>
   MembersError + (bool \<times> ('m, 'root, 'inter) members_state)" where
  "onboard_members cfg i must_build s0 =
     ok_or (sget (Collections s0) i) CollectionNotFound (\<lambda>collection_info.
     let max_ring_size = ring_capacity cfg (ci_ring_size collection_info);
         ring_page_size = flexible_ring_capacity cfg;
         ((top_ring_index, ring_page_index, keys, ring_status), s) = available_ring cfg i max_ring_size s0;
         open_slots = max_ring_size - (length keys + ring_page_index * ring_page_size);
         (old_head, tail) = queue_pages s i;
         first = queue_of s i old_head;
         two_pages = (length first < open_slots \<and> old_head \<noteq> tail);
         head = (if two_pages then next_page old_head else old_head);
         keys_to_include = (if two_pages then first @ queue_of s i head else first);
         onboarding_size = sget_or 0 (OnboardingSize s) i
     in case should_onboard_members i top_ring_index ring_status open_slots (length keys_to_include)
               onboarding_size max_ring_size s of
          None \<Rightarrow> if must_build then Inl PrematureOnboarding else Inr (False, s0)
        | Some (to_include, ring_filled) \<Rightarrow>
            on_ok (onboard_loop cfg i top_ring_index ring_page_index keys (take to_include keys_to_include) s)
              (\<lambda>(page, keys1, s1).
            let s2 = s1\<lparr>RingKeys := sput (i, top_ring_index, page) keys1 (RingKeys s1),
                       ActiveMembers := sput i (sat_add u32_max (active_count s1 i) to_include) (ActiveMembers s1),
                       RingKeysStatus := sput (i, top_ring_index)
                         (ring_status\<lparr>rs_total := sat_add u32_max (rs_total ring_status) to_include\<rparr>) (RingKeysStatus s1),
                       StaleRings := sput (i, top_ring_index) () (StaleRings s1)\<rparr>;
                s3 = (if ring_filled
                      then s2\<lparr>CurrentRingIndex := sput i (saturating_inc (current_ring s2 i)) (CurrentRingIndex s2)\<rparr>
                      else s2);
                s4 = store_remaining cfg i old_head head tail (drop to_include keys_to_include) s3
            in Inr (True, members_deposit (MembersOnboarded i) s4)))"

text \<open>Taking a member out of its queue page: \<open>position\<close> and \<open>remove\<close> of a vector.\<close>

definition do_self_include ::
  "('m, 'root, 'inter, 'c) members_config \<Rightarrow> coll_id \<Rightarrow> 'm \<Rightarrow> ('m, 'root, 'inter) members_state \<Rightarrow>
   MembersError + ('m, 'root, 'inter) members_state" where
  "do_self_include cfg i member s =
     ok_or (sget (Collections s) i) CollectionNotFound (\<lambda>collection_info.
     let max_ring_size = ring_capacity cfg (ci_ring_size collection_info)
     in ensure (append_only (rings_state_of s i)) RemovalSessionInProgress (
     ok_or (sget (Members s) (i, member)) NotMember (\<lambda>position.
     case position of
       Onboarding qpage _ \<Rightarrow>
         let keys = queue_of s i qpage
         in ensure (member \<in> set keys) KeyNotFound (
            let keys1 = remove1 member keys;
                (head, tail) = queue_pages s i;
                s1 = (if keys1 = []
                      then s\<lparr>OnboardingQueue := sdel (i, qpage) (OnboardingQueue s),
                             QueuePageIndices := sput i
                               (if head = qpage \<and> head \<noteq> tail then next_page qpage else head, tail)
                               (QueuePageIndices s)\<rparr>
                      else s\<lparr>OnboardingQueue := sput (i, qpage) keys1 (OnboardingQueue s)\<rparr>);
                ((ring, page, ring_keys, ring_status), s2) = available_ring cfg i max_ring_size s1
            in ok_or (try_push (flexible_ring_capacity cfg) ring_keys member) TooManyMembers (\<lambda>ring_keys1.
               let total = sat_add u32_max (rs_total ring_status) 1;
                   s3 = s2\<lparr>RingKeys := sput (i, ring, page) ring_keys1 (RingKeys s2),
                          Members := sput (i, member) (Included ring page (length ring_keys)) (Members s2),
                          RingKeysStatus := sput (i, ring) (ring_status\<lparr>rs_total := total\<rparr>) (RingKeysStatus s2),
                          ActiveMembers := sput i (sat_add u32_max (active_count s2 i) 1) (ActiveMembers s2),
                          StaleRings := sput (i, ring) () (StaleRings s2)\<rparr>
               in Inr (if total \<ge> max_ring_size
                       then s3\<lparr>CurrentRingIndex := sput i (saturating_inc (current_ring s3 i)) (CurrentRingIndex s3)\<rparr>
                       else s3)))
     | _ \<Rightarrow> Inl NotOnboarding)))"

subsection \<open>Building a root\<close>

definition should_build_ring ::
  "coll_id \<Rightarrow> nat \<Rightarrow> nat \<Rightarrow> ('m, 'root, 'inter) members_state \<Rightarrow> nat option" where
  "should_build_ring i ring limit s =
     (if scontains (SuspendedCollections s) i then None
      else if \<not> append_only (rings_state_of s i) then None
      else if scontains (PendingSuspensions s) (i, ring) then None
      else let not_included_count = rs_total (status_of s i ring) - rs_included (status_of s i ring);
               to_include = min not_included_count limit
           in if to_include = 0 then None else Some to_include)"

text \<open>
  The loop that collects the keys to push, over the pages of a ring with \<open>ring_total\<close> keys; it ends because
  every round includes at least one more key.
\<close>

function build_loop ::
  "nat \<Rightarrow> (nat \<Rightarrow> 'm list) \<Rightarrow> nat \<Rightarrow> nat \<Rightarrow> nat \<Rightarrow> 'm list \<Rightarrow> 'm list \<times> nat" where
  "build_loop page_size pages ring_total to_include included keys_to_push =
     (if to_include = 0 then (keys_to_push, included)
      else
        let working_page = included div page_size;
            included_in_page = included mod page_size;
            unincluded_left_in_page = min (ring_total - included) (page_size - included_in_page);
            to_push = min to_include unincluded_left_in_page
        in if to_push = 0 then (keys_to_push, included)
           else build_loop page_size pages ring_total (to_include - to_push) (sat_add u32_max included to_push)
                  (keys_to_push @ take to_push (drop included_in_page (pages working_page))))"
  by pat_completeness auto

termination build_loop
  by (relation "measure (\<lambda>(page_size, pages, ring_total, to_include, included, keys). to_include)") auto

declare build_loop.simps [simp del]

definition fetch_chunks ::
  "('m, 'root, 'inter, 'c) members_config \<Rightarrow> 'c members_env \<Rightarrow> RingExponent \<Rightarrow> nat \<times> nat \<Rightarrow> 'c list option" where
  "fetch_chunks cfg env ring_exponent rng =
     (case get_chunks (ChunksManager cfg) (env_chunks env) ring_exponent
             (min u32_max (fst rng)) (min u32_max (snd rng)) of
        Some (Inr chunks) \<Rightarrow> Some chunks
      | _ \<Rightarrow> None)"

definition build_ring ::
  "('m, 'root, 'inter, 'c) members_config \<Rightarrow> 'c members_env \<Rightarrow> coll_id \<Rightarrow> nat \<Rightarrow> nat \<Rightarrow>
   ('m, 'root, 'inter) members_state \<Rightarrow> MembersError dispatch_error + ('m, 'root, 'inter) members_state" where
  "build_ring cfg env i ring to_include s =
     ok_or (sget (Collections s) i) (Module CollectionNotFound) (\<lambda>collection_info.
     let ring_exponent = ci_ring_size collection_info;
         ring_status = status_of s i ring;
         page_size = flexible_ring_capacity cfg;
         maybe_root = sget (Root s) (i, ring)
     in ensure (capacity_supported cfg ring_exponent) (Module InvalidRingExponent) (
        on_ok (case maybe_root of
                 Some existing \<Rightarrow>
                   ok_or (checked_add u32_max (rr_revision existing) 1) (External ''Overflow'')
                     (\<lambda>next. Inr (next, rr_intermediate existing))
               | None \<Rightarrow> Inr (0, start_members cfg ring_exponent)) (\<lambda>(next_revision, intermediate).
        let (keys_to_push, included) =
              build_loop page_size (keys_of s i ring) (rs_total ring_status) to_include (rs_included ring_status) []
        in ok_or (push_members cfg intermediate keys_to_push (fetch_chunks cfg env ring_exponent))
             (Module CouldNotPush) (\<lambda>intermediate1.
           let complete = (included = rs_total ring_status);
               status1 = ring_status\<lparr>rs_included := included\<rparr>;
               status2 = (if complete \<and> ci_mode collection_info = AppendOnlyRings \<and>
                            rs_total ring_status = ring_capacity cfg ring_exponent
                          then status1\<lparr>rs_immutable_since := Some (env_now env)\<rparr> else status1);
               root = finish_members cfg intermediate1;
               s1 = s\<lparr>StaleRings := (if complete then sdel (i, ring) (StaleRings s) else StaleRings s),
                      RingKeysStatus := sput (i, ring) status2 (RingKeysStatus s),
                      Root := sput (i, ring)
                        \<lparr>rr_root = root, rr_revision = next_revision, rr_intermediate = intermediate1\<rparr> (Root s),
                      OldRoots := (case maybe_root of
                          Some existing \<Rightarrow> sput (i, ring, rr_revision existing)
                            \<lparr>or_root = rr_root existing, or_archived_at = env_now env\<rparr> (OldRoots s)
                        | None \<Rightarrow> OldRoots s)\<rparr>
           in Inr (members_deposit (RingBuilt i ring)
                (on_ring_root_change i ring (RootBuilt next_revision root) s1))))))"

text \<open>\<open>archive_root\<close> returns whether there was a root; its callers then notify of the deletion.\<close>

definition archive_root ::
  "nat \<Rightarrow> coll_id \<Rightarrow> nat \<Rightarrow> ('m, 'root, 'inter) members_state \<Rightarrow> bool \<times> ('m, 'root, 'inter) members_state" where
  "archive_root now i ring s =
     (case sget (Root s) (i, ring) of
        None \<Rightarrow> (False, s)
      | Some root \<Rightarrow>
          (True, s\<lparr>Root := sdel (i, ring) (Root s),
                  OldRoots := sput (i, ring, rr_revision root)
                    \<lparr>or_root = rr_root root, or_archived_at = now\<rparr> (OldRoots s)\<rparr>))"

definition archive_and_notify ::
  "nat \<Rightarrow> coll_id \<Rightarrow> nat \<Rightarrow> ('m, 'root, 'inter) members_state \<Rightarrow> ('m, 'root, 'inter) members_state" where
  "archive_and_notify now i ring s =
     (let (archived, s1) = archive_root now i ring s
      in if archived then on_ring_root_change i ring RootDeleted s1 else s1)"

subsection \<open>Suspensions\<close>

definition should_remove_suspended_keys ::
  "coll_id \<Rightarrow> nat \<Rightarrow> bool \<Rightarrow> ('m, 'root, 'inter) members_state \<Rightarrow> bool" where
  "should_remove_suspended_keys i ring check_rings_state s =
     (if scontains (SuspendedCollections s) i then False
      else if check_rings_state \<and> \<not> append_only (rings_state_of s i) then False
      else length (pending_of s i ring) \<noteq> 0)"

text \<open>\<open>binary_search\<close> on the sorted indices, then an insertion at the place it returns.\<close>

definition insert_suspension :: "nat \<Rightarrow> nat list \<Rightarrow> nat list option" where
  "insert_suspension j js =
     (if j \<in> set js then None
      else Some (takeWhile (\<lambda>x. x < j) js @ j # dropWhile (\<lambda>x. x < j) js))"

definition suspend_member ::
  "('m, 'root, 'inter, 'c) members_config \<Rightarrow> coll_id \<Rightarrow> 'm \<Rightarrow> ('m, 'root, 'inter) members_state \<Rightarrow>
   MembersError + ('m, 'root, 'inter) members_state" where
  "suspend_member cfg i key s =
     ok_or (sget (Members s) (i, key)) InvalidSuspensions (\<lambda>position.
     let finish = (\<lambda>s1. Inr (s1\<lparr>Members := sput (i, key) SuspendedPosition (Members s1)\<rparr>))
     in case position of
          Included ring _ j \<Rightarrow>
            let suspended_indices = pending_of s i ring
            in ok_or (insert_suspension j suspended_indices) KeyAlreadySuspended (\<lambda>indices.
               ensure (length suspended_indices < flexible_ring_capacity cfg) TooManyMembers (
               finish (s\<lparr>PendingSuspensions := sput (i, ring) indices (PendingSuspensions s)\<rparr>)))
        | Onboarding qpage _ \<Rightarrow>
            if key \<in> set (queue_of s i qpage)
            then finish (s\<lparr>OnboardingQueue := sput (i, qpage) (remove1 key (queue_of s i qpage)) (OnboardingQueue s)\<rparr>)
            else finish s
        | SuspendedPosition \<Rightarrow> finish s)"

fun suspend_loop ::
  "('m, 'root, 'inter, 'c) members_config \<Rightarrow> coll_id \<Rightarrow> 'm list \<Rightarrow> ('m, 'root, 'inter) members_state \<Rightarrow>
   MembersError + ('m, 'root, 'inter) members_state" where
  "suspend_loop cfg i [] s = Inr s"
| "suspend_loop cfg i (key # keys) s = on_ok (suspend_member cfg i key s) (suspend_loop cfg i keys)"

definition queue_member_suspensions ::
  "('m, 'root, 'inter, 'c) members_config \<Rightarrow> coll_id \<Rightarrow> 'm list \<Rightarrow> ('m, 'root, 'inter) members_state \<Rightarrow>
   MembersError + ('m, 'root, 'inter) members_state" where
  "queue_member_suspensions cfg i suspensions s =
     ensure (mutating (rings_state_of s i)) NoRemovalSession (suspend_loop cfg i suspensions s)"

text \<open>
  The loop over the keys of a ring: \<open>n\<close> is the index of the next key, \<open>indices\<close> the suspended
  indices still to come. It stops early, with \<open>False\<close>, if a key cannot be kept.
\<close>

fun retain_loop ::
  "('m, 'root, 'inter, 'c) members_config \<Rightarrow> coll_id \<Rightarrow> nat \<Rightarrow> nat \<Rightarrow> nat list \<Rightarrow> 'm list \<Rightarrow> 'm list \<Rightarrow>
   ('m, 'root, 'inter) members_state \<Rightarrow> bool \<times> 'm list \<times> ('m, 'root, 'inter) members_state" where
  "retain_loop cfg i ring n indices [] new_keys s = (True, new_keys, s)"
| "retain_loop cfg i ring n indices (key # keys) new_keys s =
     (if indices \<noteq> [] \<and> n = hd indices
      then retain_loop cfg i ring (n + 1) (tl indices) keys new_keys (members_deposit (MemberRemoved key) s)
      else
        let s1 = (case sget (Members s) (i, key) of
                    Some (Included member_ring page j) \<Rightarrow>
                      if ring \<noteq> member_ring then s
                      else s\<lparr>Members := sput (i, key) (Included member_ring page (length new_keys)) (Members s)\<rparr>
                  | _ \<Rightarrow> s)
        in case try_push (flexible_ring_capacity cfg) new_keys key of
             None \<Rightarrow> (False, new_keys, s1)
           | Some new_keys1 \<Rightarrow> retain_loop cfg i ring (n + 1) indices keys new_keys1 s1)"

definition remove_suspended_keys ::
  "('m, 'root, 'inter, 'c) members_config \<Rightarrow> nat \<Rightarrow> coll_id \<Rightarrow> nat \<Rightarrow>
   ('m, 'root, 'inter) members_state \<Rightarrow> ('m, 'root, 'inter) members_state" where
  "remove_suspended_keys cfg now i ring s =
     (case sget (Collections s) i of
        None \<Rightarrow> s
      | Some info \<Rightarrow>
          if \<not> capacity_supported cfg (ci_ring_size info) then s
          else
            let (complete, new_keys, s1) =
                  retain_loop cfg i ring 0 (pending_of s i ring) (keys_of s i ring 0) [] s
            in if \<not> complete then s1
               else
                 let status = status_of s1 i ring;
                     new_total = length new_keys;
                     suspended_count = rs_total status - new_total;
                     s2 = s1\<lparr>RingKeysStatus := sput (i, ring)
                                (status\<lparr>rs_total := new_total, rs_included := 0\<rparr>) (RingKeysStatus s1),
                            ActiveMembers := sput i (active_count s1 i - suspended_count) (ActiveMembers s1),
                            RingKeys := (if new_keys = [] then sdel (i, ring, 0) (RingKeys s1)
                                         else sput (i, ring, 0) new_keys (RingKeys s1))\<rparr>;
                     s3 = (case sget (Root s2) (i, ring) of
                             None \<Rightarrow> s2
                           | Some root \<Rightarrow>
                               let empty_intermediate = start_members cfg (ci_ring_size info)
                               in s2\<lparr>OldRoots := sput (i, ring, rr_revision root)
                                        \<lparr>or_root = rr_root root, or_archived_at = now\<rparr> (OldRoots s2),
                                     Root := sput (i, ring)
                                        \<lparr>rr_root = finish_members cfg empty_intermediate,
                                         rr_revision = sat_add u32_max (rr_revision root) 1,
                                         rr_intermediate = empty_intermediate\<rparr> (Root s2)\<rparr>)
                 in s3\<lparr>StaleRings := (if new_total > 0 then sput (i, ring) () (StaleRings s3) else StaleRings s3),
                      PendingSuspensions := sdel (i, ring) (PendingSuspensions s3)\<rparr>)"

subsection \<open>Merging rings\<close>

fun merge_loop ::
  "('m, 'root, 'inter, 'c) members_config \<Rightarrow> coll_id \<Rightarrow> nat \<Rightarrow> 'm list \<Rightarrow> 'm list \<Rightarrow>
   ('m, 'root, 'inter) members_state \<Rightarrow> MembersError + ('m list \<times> ('m, 'root, 'inter) members_state)" where
  "merge_loop cfg i base base_keys [] s = Inr (base_keys, s)"
| "merge_loop cfg i base base_keys (key # keys) s =
     ensure (scontains (Members s) (i, key)) NotMember (
     let s1 = s\<lparr>Members := sput (i, key) (Included base 0 (length base_keys)) (Members s)\<rparr>
     in ok_or (try_push (flexible_ring_capacity cfg) base_keys key) TooManyMembers (\<lambda>base_keys1.
        merge_loop cfg i base base_keys1 keys s1))"

definition merge_rings ::
  "('m, 'root, 'inter, 'c) members_config \<Rightarrow> nat \<Rightarrow> bool \<Rightarrow> coll_id \<Rightarrow> nat \<Rightarrow> nat \<Rightarrow>
   ('m, 'root, 'inter) members_state \<Rightarrow> MembersError dispatch_error + (pays \<times> ('m, 'root, 'inter) members_state)" where
  "merge_rings cfg now is_signed i base target s =
     ensure is_signed BadOrigin (map_err Module (
     ok_or (sget (Collections s) i) CollectionNotFound (\<lambda>collection_info.
     let max_ring_size = ring_capacity cfg (ci_ring_size collection_info)
     in ensure (append_only (rings_state_of s i)) RemovalSessionInProgress (
        let current = current_ring s i
        in ensure (base \<noteq> target \<and> base \<noteq> current \<and> target \<noteq> current) InvalidRing (
        let base_keys = keys_of s i base 0;
            base_status = status_of s i base
        in ensure (length base_keys < max_ring_size div 2) RingAboveMergeThreshold (
        ensure (length (pending_of s i base) = 0) SuspensionsPending (
        let target_keys = keys_of s i target 0
        in ensure (length target_keys < max_ring_size div 2) RingAboveMergeThreshold (
        ensure (length (pending_of s i target) = 0) SuspensionsPending (
        on_ok (merge_loop cfg i base base_keys target_keys s) (\<lambda>(base_keys1, s1).
        let s2 = s1\<lparr>RingKeys := sput (i, base, 0) base_keys1 (RingKeys s1),
                   RingKeysStatus := sput (i, base)
                     (base_status\<lparr>rs_total := sat_add u32_max (rs_total base_status) (length target_keys)\<rparr>)
                     (RingKeysStatus s1)\<rparr>;
            s3 = archive_and_notify now i target s2;
            s4 = s3\<lparr>StaleRings := sdel (i, target) (sput (i, base) () (StaleRings s3)),
                   RingKeys := sdel (i, target, 0) (RingKeys s3),
                   RingKeysStatus := sdel (i, target) (RingKeysStatus s3)\<rparr>
        in Inr (PaysNo, members_deposit (RingsMerged i base target) s4)))))))))))"

subsection \<open>Deleting rings and collections\<close>

fun release_loop ::
  "coll_id \<Rightarrow> nat \<Rightarrow> nat \<Rightarrow> nat \<Rightarrow> 'm list \<Rightarrow> ('m, 'root, 'inter) members_state \<Rightarrow> ('m, 'root, 'inter) members_state" where
  "release_loop i ring page j [] s = s"
| "release_loop i ring page j (key # keys) s =
     release_loop i ring page (j + 1) keys
       (if sget (Members s) (i, key) = Some (Included ring page j)
        then s\<lparr>Members := sdel (i, key) (Members s)\<rparr> else s)"

definition delete_ring_page ::
  "coll_id \<Rightarrow> nat \<Rightarrow> nat \<Rightarrow> ('m, 'root, 'inter) members_state \<Rightarrow> nat \<times> ('m, 'root, 'inter) members_state" where
  "delete_ring_page i ring page s =
     (let keys = keys_of s i ring page;
          s1 = release_loop i ring page 0 keys s
      in (length keys, s1\<lparr>RingKeys := sdel (i, ring, page) (RingKeys s1)\<rparr>))"

definition page_count :: "nat \<Rightarrow> nat \<Rightarrow> nat" where
  "page_count n page_size = n div page_size + (if n mod page_size \<noteq> 0 then 1 else 0)"

fun enqueue_pages :: "coll_id \<Rightarrow> nat \<Rightarrow> nat list \<Rightarrow> (coll_id \<times> nat \<times> nat, unit) storage \<Rightarrow> (coll_id \<times> nat \<times> nat, unit) storage" where
  "enqueue_pages i ring [] D = D"
| "enqueue_pages i ring (p # ps) D = enqueue_pages i ring ps (sput (i, ring, p) () D)"

definition enqueue_ring_for_deletion ::
  "('m, 'root, 'inter, 'c) members_config \<Rightarrow> nat \<Rightarrow> coll_id \<Rightarrow> nat \<Rightarrow>
   ('m, 'root, 'inter) members_state \<Rightarrow> nat \<times> ('m, 'root, 'inter) members_state" where
  "enqueue_ring_for_deletion cfg now i ring s =
     (let s1 = archive_and_notify now i ring s;
          total = rs_total (status_of s1 i ring);
          s2 = s1\<lparr>StaleRings := sdel (i, ring) (StaleRings s1),
                 PendingSuspensions := sdel (i, ring) (PendingSuspensions s1),
                 RingKeysStatus := sdel (i, ring) (RingKeysStatus s1)\<rparr>
      in if total = 0 then (0, s2)
         else
           let pages = page_count total (flexible_ring_capacity cfg)
           in (pages, s2\<lparr>ActiveMembers := sput i (active_count s2 i - total) (ActiveMembers s2),
                        RingDeletionQueue := enqueue_pages i ring [0..<pages] (RingDeletionQueue s2)\<rparr>))"

definition delete_onboarding_queue_page ::
  "coll_id \<Rightarrow> nat \<Rightarrow> ('m, 'root, 'inter) members_state \<Rightarrow> nat \<times> ('m, 'root, 'inter) members_state" where
  "delete_onboarding_queue_page i page s =
     (let keys = queue_of s i page
      in (length keys,
          s\<lparr>OnboardingQueue := sdel (i, page) (OnboardingQueue s),
            Members := fold (\<lambda>key. sdel (i, key)) keys (Members s)\<rparr>))"

definition finalize_collection_deletion ::
  "coll_id \<Rightarrow> ('m, 'root, 'inter) members_state \<Rightarrow> ('m, 'root, 'inter) members_state" where
  "finalize_collection_deletion i s =
     (let maybe_owner = map_option ci_owner (sget (SuspendedCollections s) i)
      in members_deposit (CollectionDeleted i)
           (s\<lparr>SuspendedCollections := sdel i (SuspendedCollections s),
              CurrentRingIndex := sdel i (CurrentRingIndex s),
              OnboardingSize := sdel i (OnboardingSize s),
              ActiveMembers := sdel i (ActiveMembers s),
              RingsState := sdel i (RingsState s),
              QueuePageIndices := sdel i (QueuePageIndices s),
              IdentifiersOf := (case maybe_owner of
                  None \<Rightarrow> IdentifiersOf s
                | Some owner \<Rightarrow>
                    (case sget (IdentifiersOf s) owner of
                       None \<Rightarrow> IdentifiersOf s
                     | Some ids \<Rightarrow> sput owner (filter (\<lambda>x. x \<noteq> i) ids) (IdentifiersOf s)))\<rparr>))"

end
