(* ===== verification/Members_Calls.thy ===== *)
theory Members_Calls
  imports Members
begin

text \<open>
  The calls of \<open>pallets/members\<close> with their authorisation, the offchain worker, the transaction extension
  \<open>AsMember\<close>, the interface the other pallets use (\<open>AppendOnlyMembers\<close>, \<open>FlexibleMembers\<close>,
  \<open>RingRootsProvider\<close>) and the verification of membership proofs.
\<close>

subsection \<open>Old roots\<close>

text \<open>
  The revisions of the old roots of a ring in rising order: the key of the map is encoded so that
  iteration follows the revision.
\<close>

definition old_revisions :: "coll_id \<Rightarrow> nat \<Rightarrow> ('m, 'root, 'inter) members_state \<Rightarrow> nat list" where
  "old_revisions i ring s =
     sort (map (\<lambda>((_, _, rv), _). rv) (filter (\<lambda>((i', r', _), _). i' = i \<and> r' = ring) (OldRoots s)))"

definition first_old_root :: "coll_id \<Rightarrow> nat \<Rightarrow> ('m, 'root, 'inter) members_state \<Rightarrow> (nat \<times> 'root OldRoot) option" where
  "first_old_root i ring s =
     (case old_revisions i ring s of
        [] \<Rightarrow> None
      | rv # _ \<Rightarrow> map_option (\<lambda>old. (rv, old)) (sget (OldRoots s) (i, ring, rv)))"

fun clean_up_loop ::
  "('m, 'root, 'inter, 'c) members_config \<Rightarrow> nat \<Rightarrow> coll_id \<Rightarrow> nat \<Rightarrow> nat \<Rightarrow>
   ('m, 'root, 'inter) members_state \<Rightarrow> ('m, 'root, 'inter) members_state" where
  "clean_up_loop cfg now i ring 0 s = s"
| "clean_up_loop cfg now i ring (Suc limit) s =
     (case first_old_root i ring s of
        None \<Rightarrow> s
      | Some (rv, old) \<Rightarrow>
          if now < sat_add u64_max (or_archived_at old) (OldRootRetentionDuration cfg) then s
          else clean_up_loop cfg now i ring limit
                 (members_deposit (OldRootCleanedUp i ring rv)
                   (s\<lparr>OldRoots := sdel (i, ring, rv) (OldRoots s)\<rparr>)))"

definition get_root_at_revision ::
  "('m, 'root, 'inter, 'c) members_config \<Rightarrow> nat \<Rightarrow> coll_id \<Rightarrow> nat \<Rightarrow> nat \<Rightarrow>
   ('m, 'root, 'inter) members_state \<Rightarrow> MembersError + 'root" where
  "get_root_at_revision cfg now i ring revision s =
     (case sget (Root s) (i, ring) of
        Some root \<Rightarrow>
          if rr_revision root = revision then Inr (rr_root root)
          else ok_or (sget (OldRoots s) (i, ring, revision)) NoRoot (\<lambda>old.
               if now < sat_add u64_max (or_archived_at old) (OldRootRetentionDuration cfg)
               then Inr (or_root old) else Inl NoRoot)
      | None \<Rightarrow> Inl NoRoot)"

definition is_revision_valid ::
  "('m, 'root, 'inter, 'c) members_config \<Rightarrow> nat \<Rightarrow> coll_id \<Rightarrow> nat \<Rightarrow> nat \<Rightarrow>
   ('m, 'root, 'inter) members_state \<Rightarrow> bool" where
  "is_revision_valid cfg now i ring revision s =
     (if \<not> scontains (Collections s) i then False
      else case sget (Root s) (i, ring) of
        None \<Rightarrow> False
      | Some root \<Rightarrow>
          if rr_revision root = revision then True
          else case sget (OldRoots s) (i, ring, revision) of
            None \<Rightarrow> False
          | Some old \<Rightarrow> now < sat_add u64_max (or_archived_at old) (OldRootRetentionDuration cfg))"

definition revision_source_time :: "coll_id \<Rightarrow> nat \<Rightarrow> nat \<Rightarrow> ('m, 'root, 'inter) members_state \<Rightarrow> nat option" where
  "revision_source_time i ring revision s = map_option or_archived_at (sget (OldRoots s) (i, ring, revision))"

subsection \<open>Authorisation of the maintenance calls\<close>

datatype AuthorizeInvalidity = TxStale | TxFuture | TransactionNotLocal

text \<open>The order of \<open>Option<RevisionIndex>\<close>: no revision is below every revision.\<close>

fun rev_less :: "nat option \<Rightarrow> nat option \<Rightarrow> bool" where
  "rev_less None None = False"
| "rev_less None (Some _) = True"
| "rev_less (Some _) None = False"
| "rev_less (Some a) (Some b) = (a < b)"

definition check_revision ::
  "nat option \<Rightarrow> nat option \<Rightarrow> AuthorizeInvalidity + unit \<Rightarrow> AuthorizeInvalidity + unit" where
  "check_revision revision current k =
     (if rev_less revision current then Inl TxStale
      else if rev_less current revision then Inl TxFuture else k)"

definition has_prefix1 :: "coll_id \<Rightarrow> (coll_id \<times> 'k, 'v) storage \<Rightarrow> bool" where
  "has_prefix1 i m = list_ex (\<lambda>((j, _), _). j = i) m"

definition ensure_can_build_ring ::
  "('m, 'root, 'inter, 'c) members_config \<Rightarrow> coll_id \<Rightarrow> nat \<Rightarrow> RingExponent \<Rightarrow> nat option \<Rightarrow> nat \<Rightarrow>
   ('m, 'root, 'inter) members_state \<Rightarrow> AuthorizeInvalidity + unit" where
  "ensure_can_build_ring cfg i ring ring_exponent revision to_include s =
     ok_or (sget (Collections s) i) TxStale (\<lambda>info.
     ensure (ci_ring_size info = ring_exponent) TxStale (
     check_revision revision (ring_revision i ring s) (
     ok_or (should_build_ring i ring (RingBuildingMemberLimit cfg) s) TxStale (\<lambda>pending.
     ensure (\<not> (to_include = 0 \<or> to_include > pending)) TxStale (Inr ())))))"

definition can_onboard_members ::
  "('m, 'root, 'inter, 'c) members_config \<Rightarrow> coll_id \<Rightarrow> nat \<Rightarrow> nat \<Rightarrow> ('m, 'root, 'inter) members_state \<Rightarrow> bool" where
  "can_onboard_members cfg i ring head s =
     (case sget (Collections s) i of
        None \<Rightarrow> False
      | Some info \<Rightarrow>
          let max_ring_size = ring_capacity cfg (ci_ring_size info);
              ring_status = status_of s i ring;
              open_slots = max_ring_size - rs_total ring_status;
              onboarding_size = sget_or 0 (OnboardingSize s) i;
              first_page_len = length (queue_of s i head);
              tail = snd (queue_pages s i);
              available_for_inclusion =
                (if first_page_len < open_slots \<and> head \<noteq> tail
                 then first_page_len + length (queue_of s i (next_page head)) else first_page_len)
          in should_onboard_members i ring ring_status open_slots available_for_inclusion onboarding_size
               max_ring_size s \<noteq> None)"

definition first_queued :: "coll_id \<Rightarrow> nat \<Rightarrow> ('m, 'root, 'inter) members_state \<Rightarrow> 'm option" where
  "first_queued i head s = (case queue_of s i head of [] \<Rightarrow> None | key # _ \<Rightarrow> Some key)"

definition ensure_can_onboard_members ::
  "('m, 'root, 'inter, 'c) members_config \<Rightarrow> coll_id \<Rightarrow> nat \<Rightarrow> nat \<Rightarrow> 'm option \<Rightarrow>
   ('m, 'root, 'inter) members_state \<Rightarrow> AuthorizeInvalidity + unit" where
  "ensure_can_onboard_members cfg i ring head first_member s =
     ensure (ring = current_ring s i) TxStale (
     ensure (head = fst (queue_pages s i)) TxStale (
     ensure (can_onboard_members cfg i ring head s) TxStale (
     ensure (first_member = first_queued i head s) TxStale (Inr ()))))"

definition ensure_can_merge_queue_pages ::
  "('m, 'root, 'inter, 'c) members_config \<Rightarrow> coll_id \<Rightarrow> nat \<Rightarrow> nat \<Rightarrow>
   ('m, 'root, 'inter) members_state \<Rightarrow> AuthorizeInvalidity + unit" where
  "ensure_can_merge_queue_pages cfg i initial_head new_head s =
     (case should_merge_queue_pages cfg i s of
        MergePages current_head current_new_head _ _ \<Rightarrow>
          ensure (initial_head = current_head \<and> new_head = current_new_head) TxStale (Inr ())
      | NoMergeAction \<Rightarrow> Inl TxStale)"

definition ensure_can_remove_suspended_keys ::
  "coll_id \<Rightarrow> nat \<Rightarrow> nat option \<Rightarrow> ('m, 'root, 'inter) members_state \<Rightarrow> AuthorizeInvalidity + unit" where
  "ensure_can_remove_suspended_keys i ring revision s =
     ensure (should_remove_suspended_keys i ring True s) TxStale (
     check_revision revision (ring_revision i ring s) (Inr ()))"

definition ensure_can_delete_ring_page ::
  "coll_id \<Rightarrow> nat \<Rightarrow> nat \<Rightarrow> ('m, 'root, 'inter) members_state \<Rightarrow> AuthorizeInvalidity + unit" where
  "ensure_can_delete_ring_page i ring page s =
     ensure (scontains (RingDeletionQueue s) (i, ring, page)) TxStale (Inr ())"

definition ensure_can_enqueue_ring_deletion ::
  "coll_id \<Rightarrow> nat \<Rightarrow> ('m, 'root, 'inter) members_state \<Rightarrow> AuthorizeInvalidity + unit" where
  "ensure_can_enqueue_ring_deletion i ring s =
     ensure (scontains (SuspendedCollections s) i) TxStale (
     ensure (scontains (RingKeysStatus s) (i, ring)) TxStale (Inr ()))"

definition ensure_can_delete_onboarding_queue_page ::
  "coll_id \<Rightarrow> nat \<Rightarrow> ('m, 'root, 'inter) members_state \<Rightarrow> AuthorizeInvalidity + unit" where
  "ensure_can_delete_onboarding_queue_page i page s =
     ensure (scontains (SuspendedCollections s) i) TxStale (
     ensure (\<not> has_prefix1 i (RingKeysStatus s)) TxFuture (
     ensure (\<not> has_prefix1 i (RingDeletionQueue s)) TxFuture (
     ensure (scontains (OnboardingQueue s) (i, page)) TxStale (Inr ()))))"

definition ensure_can_finalize_collection_deletion ::
  "coll_id \<Rightarrow> ('m, 'root, 'inter) members_state \<Rightarrow> AuthorizeInvalidity + unit" where
  "ensure_can_finalize_collection_deletion i s =
     ensure (scontains (SuspendedCollections s) i) TxStale (
     ensure (\<not> has_prefix1 i (RingKeysStatus s)) TxFuture (
     ensure (\<not> has_prefix1 i (RingDeletionQueue s)) TxFuture (
     ensure (\<not> has_prefix1 i (OnboardingQueue s)) TxFuture (Inr ()))))"

definition ensure_can_mark_ring_stale ::
  "coll_id \<Rightarrow> nat \<Rightarrow> ('m, 'root, 'inter) members_state \<Rightarrow> AuthorizeInvalidity + unit" where
  "ensure_can_mark_ring_stale i ring s =
     ensure (\<not> scontains (SuspendedCollections s) i) TxStale (
     ensure (\<not> scontains (StaleRings s) (i, ring)) TxStale (
     ensure (\<not> rs_total (status_of s i ring) \<le> rs_included (status_of s i ring)) TxStale (Inr ())))"

definition ensure_can_clean_up_old_roots ::
  "('m, 'root, 'inter, 'c) members_config \<Rightarrow> nat \<Rightarrow> coll_id \<Rightarrow> nat \<Rightarrow> ('m, 'root, 'inter) members_state \<Rightarrow>
   AuthorizeInvalidity + unit" where
  "ensure_can_clean_up_old_roots cfg now i ring s =
     (case first_old_root i ring s of
        None \<Rightarrow> if scontains (RingKeysStatus s) (i, ring) then Inl TxFuture else Inl TxStale
      | Some (first_rev, old) \<Rightarrow>
          ensure (\<not> now < sat_add u64_max (or_archived_at old) (OldRootRetentionDuration cfg)) TxFuture (Inr ()))"

subsection \<open>The calls\<close>

definition set_onboarding_size ::
  "('m, 'root, 'inter, 'c) members_config \<Rightarrow> bool \<Rightarrow> coll_id \<Rightarrow> nat \<Rightarrow> ('m, 'root, 'inter) members_state \<Rightarrow>
   MembersError dispatch_error + ('m, 'root, 'inter) members_state" where
  "set_onboarding_size cfg manager_or_root i onboarding_size s =
     ensure manager_or_root BadOrigin (
     ok_or (sget (Collections s) i) (Module CollectionNotFound) (\<lambda>info.
     ensure (onboarding_size \<le> ring_capacity cfg (ci_ring_size info)) (Module InvalidOnboardingSize) (
     Inr (members_deposit (OnboardingSizeSet i onboarding_size)
       (s\<lparr>OnboardingSize := sput i onboarding_size (OnboardingSize s)\<rparr>)))))"

text \<open>The origin is the pallet's \<open>SelfInclude\<close> with its member, or another one.\<close>

definition self_include ::
  "('m, 'root, 'inter, 'c) members_config \<Rightarrow> 'm option \<Rightarrow> coll_id \<Rightarrow> 'm \<Rightarrow> nat \<Rightarrow>
   ('m, 'root, 'inter) members_state \<Rightarrow> MembersError dispatch_error + ('m, 'root, 'inter) members_state" where
  "self_include cfg origin i member call_valid_at s =
     ok_or origin BadOrigin (\<lambda>origin_member.
     ensure (origin_member = member) (Module NotMember) (
     on_ok (map_err Module (do_self_include cfg i member s)) (\<lambda>s1.
     Inr (members_deposit (MemberSelfIncluded i member) s1))))"

text \<open>The maintenance calls, with the arguments the offchain worker gives them.\<close>

datatype 'm maintenance_call =
    BuildRing coll_id nat RingExponent "nat option" nat
  | OnboardMembers coll_id nat nat "'m option"
  | MergeQueuePages coll_id nat nat
  | RemoveSuspendedKeys coll_id nat "nat option"
  | DeleteRingPage coll_id nat nat
  | EnqueueRingDeletion coll_id nat
  | DeleteOnboardingQueuePage coll_id nat
  | FinalizeCollectionDeletion coll_id
  | MarkRingStale coll_id nat
  | CleanUpOldRoots coll_id nat nat

fun members_authorize ::
  "('m, 'root, 'inter, 'c) members_config \<Rightarrow> nat \<Rightarrow> bool \<Rightarrow> 'm maintenance_call \<Rightarrow>
   ('m, 'root, 'inter) members_state \<Rightarrow> AuthorizeInvalidity + unit" where
  "members_authorize cfg now local (BuildRing i r e rv n) s =
     ensure local TransactionNotLocal (ensure_can_build_ring cfg i r e rv n s)"
| "members_authorize cfg now local (OnboardMembers i r h m) s =
     ensure local TransactionNotLocal (ensure_can_onboard_members cfg i r h m s)"
| "members_authorize cfg now local (MergeQueuePages i h h') s =
     ensure local TransactionNotLocal (ensure_can_merge_queue_pages cfg i h h' s)"
| "members_authorize cfg now local (RemoveSuspendedKeys i r rv) s =
     ensure local TransactionNotLocal (ensure_can_remove_suspended_keys i r rv s)"
| "members_authorize cfg now local (DeleteRingPage i r p) s =
     ensure local TransactionNotLocal (ensure_can_delete_ring_page i r p s)"
| "members_authorize cfg now local (EnqueueRingDeletion i r) s =
     ensure local TransactionNotLocal (ensure_can_enqueue_ring_deletion i r s)"
| "members_authorize cfg now local (DeleteOnboardingQueuePage i p) s =
     ensure local TransactionNotLocal (ensure_can_delete_onboarding_queue_page i p s)"
| "members_authorize cfg now local (FinalizeCollectionDeletion i) s =
     ensure local TransactionNotLocal (ensure_can_finalize_collection_deletion i s)"
| "members_authorize cfg now local (MarkRingStale i r) s = ensure_can_mark_ring_stale i r s"
| "members_authorize cfg now local (CleanUpOldRoots i r limit) s =
     ensure local TransactionNotLocal (ensure_can_clean_up_old_roots cfg now i r s)"

definition onboard_members_authorized ::
  "('m, 'root, 'inter, 'c) members_config \<Rightarrow> coll_id \<Rightarrow> ('m, 'root, 'inter) members_state \<Rightarrow>
   MembersError dispatch_error + ('m, 'root, 'inter) members_state" where
  "onboard_members_authorized cfg i s = on_ok (map_err Module (onboard_members cfg i True s)) (\<lambda>(_, s1). Inr s1)"

definition merge_queue_pages_authorized ::
  "('m, 'root, 'inter, 'c) members_config \<Rightarrow> coll_id \<Rightarrow> nat \<Rightarrow> nat \<Rightarrow> ('m, 'root, 'inter) members_state \<Rightarrow>
   MembersError dispatch_error + ('m, 'root, 'inter) members_state" where
  "merge_queue_pages_authorized cfg i initial_head new_head s =
     map_err Module (merge_queue_pages cfg i initial_head new_head (queue_of s i initial_head) (queue_of s i new_head) s)"

definition delete_ring_page_authorized ::
  "coll_id \<Rightarrow> nat \<Rightarrow> nat \<Rightarrow> ('m, 'root, 'inter) members_state \<Rightarrow> ('m, 'root, 'inter) members_state" where
  "delete_ring_page_authorized i ring page s =
     snd (delete_ring_page i ring page (s\<lparr>RingDeletionQueue := sdel (i, ring, page) (RingDeletionQueue s)\<rparr>))"

definition mark_ring_stale_authorized ::
  "coll_id \<Rightarrow> nat \<Rightarrow> ('m, 'root, 'inter) members_state \<Rightarrow> ('m, 'root, 'inter) members_state" where
  "mark_ring_stale_authorized i ring s = s\<lparr>StaleRings := sput (i, ring) () (StaleRings s)\<rparr>"

fun maintenance_dispatch ::
  "('m, 'root, 'inter, 'c) members_config \<Rightarrow> 'c members_env \<Rightarrow> 'm maintenance_call \<Rightarrow>
   ('m, 'root, 'inter) members_state \<Rightarrow> MembersError dispatch_error + ('m, 'root, 'inter) members_state" where
  "maintenance_dispatch cfg env (BuildRing i r e rv n) s = build_ring cfg env i r n s"
| "maintenance_dispatch cfg env (OnboardMembers i r h m) s = onboard_members_authorized cfg i s"
| "maintenance_dispatch cfg env (MergeQueuePages i h h') s = merge_queue_pages_authorized cfg i h h' s"
| "maintenance_dispatch cfg env (RemoveSuspendedKeys i r rv) s = Inr (remove_suspended_keys cfg (env_now env) i r s)"
| "maintenance_dispatch cfg env (DeleteRingPage i r p) s = Inr (delete_ring_page_authorized i r p s)"
| "maintenance_dispatch cfg env (EnqueueRingDeletion i r) s =
     Inr (snd (enqueue_ring_for_deletion cfg (env_now env) i r s))"
| "maintenance_dispatch cfg env (DeleteOnboardingQueuePage i p) s = Inr (snd (delete_onboarding_queue_page i p s))"
| "maintenance_dispatch cfg env (FinalizeCollectionDeletion i) s = Inr (finalize_collection_deletion i s)"
| "maintenance_dispatch cfg env (MarkRingStale i r) s = Inr (mark_ring_stale_authorized i r s)"
| "maintenance_dispatch cfg env (CleanUpOldRoots i r limit) s = Inr (clean_up_loop cfg (env_now env) i r limit s)"

subsection \<open>The offchain worker\<close>

definition old_root_cleanups ::
  "('m, 'root, 'inter, 'c) members_config \<Rightarrow> nat \<Rightarrow> ('m, 'root, 'inter) members_state \<Rightarrow> 'm maintenance_call list" where
  "old_root_cleanups cfg now s =
     concat (map (\<lambda>(i, r).
       case first_old_root i r s of
         None \<Rightarrow> []
       | Some (_, old) \<Rightarrow>
           if now \<ge> sat_add u64_max (or_archived_at old) (OldRootRetentionDuration cfg)
           then [CleanUpOldRoots i r OFFCHAIN_WORKER_OLD_ROOT_CLEANUP_LIMIT] else [])
       (remdups (map (\<lambda>((i, r, _), _). (i, r)) (OldRoots s))))"

definition keys_with_prefix1 :: "coll_id \<Rightarrow> (coll_id \<times> 'k, 'v) storage \<Rightarrow> 'k list" where
  "keys_with_prefix1 i m = map (\<lambda>((_, k), _). k) (filter (\<lambda>((j, _), _). j = i) m)"

definition collection_deletions :: "coll_id \<Rightarrow> ('m, 'root, 'inter) members_state \<Rightarrow> 'm maintenance_call list" where
  "collection_deletions i s =
     map (EnqueueRingDeletion i) (keys_with_prefix1 i (RingKeysStatus s)) @
     (if \<not> has_prefix1 i (RingKeysStatus s) \<and> \<not> has_prefix1 i (RingDeletionQueue s)
      then map (DeleteOnboardingQueuePage i) (keys_with_prefix1 i (OnboardingQueue s)) @
           (if \<not> has_prefix1 i (OnboardingQueue s) then [FinalizeCollectionDeletion i] else [])
      else [])"

definition members_offchain_worker ::
  "('m, 'root, 'inter, 'c) members_config \<Rightarrow> nat \<Rightarrow> nat \<Rightarrow> ('m, 'root, 'inter) members_state \<Rightarrow> 'm maintenance_call list" where
  "members_offchain_worker cfg now block_number s =
     (if block_number mod OffchainWorkerInterval cfg \<noteq> 0 then []
      else
        concat (map (\<lambda>((i, r), _).
          if should_remove_suspended_keys i r True s then [RemoveSuspendedKeys i r (ring_revision i r s)] else [])
          (PendingSuspensions s)) @
        concat (map (\<lambda>(i, _).
          case should_merge_queue_pages cfg i s of
            MergePages initial_head new_head _ _ \<Rightarrow> [MergeQueuePages i initial_head new_head]
          | NoMergeAction \<Rightarrow> []) (Collections s)) @
        concat (map (\<lambda>(i, _).
          let ring = current_ring s i; head = fst (queue_pages s i)
          in if can_onboard_members cfg i ring head s
             then [OnboardMembers i ring head (first_queued i head s)] else []) (Collections s)) @
        concat (map (\<lambda>((i, r), _).
          case should_build_ring i r (RingBuildingMemberLimit cfg) s of
            None \<Rightarrow> []
          | Some to_include \<Rightarrow>
              (case sget (Collections s) i of
                 None \<Rightarrow> []
               | Some info \<Rightarrow> [BuildRing i r (ci_ring_size info) (ring_revision i r s) to_include]))
          (StaleRings s)) @
        map (\<lambda>((i, r, p), _). DeleteRingPage i r p) (RingDeletionQueue s) @
        concat (map (\<lambda>(i, _). collection_deletions i s) (SuspendedCollections s)) @
        old_root_cleanups cfg now s)"

subsection \<open>The transaction extension\<close>

datatype AsMemberInvalid =
    BadSigner | NotSelfIncludeCall | ExtFuture | ExtStale | ExtCollectionNotFound | SelfInclusionNotEnabled
  | RingsMutating | MemberNotFound | ExtNotOnboarding | SelfInclusionTooEarly | BadProof

definition self_inclusion_time_tolerance :: nat where
  "self_inclusion_time_tolerance = 600"

text \<open>
  \<open>validate\<close> for a transaction that carries a signature: whether its origin is still none, the call if it is
  \<open>self_include\<close>, and the crypto's check of the signature for a member. It yields the origin's member.
\<close>

definition as_member_validate ::
  "nat \<Rightarrow> ('m \<Rightarrow> bool) \<Rightarrow> bool \<Rightarrow> (coll_id \<times> 'm \<times> nat) option \<Rightarrow> ('m, 'root, 'inter) members_state \<Rightarrow>
   AsMemberInvalid + 'm" where
  "as_member_validate now verify_signature origin_none call s =
     ensure origin_none BadSigner (
     ok_or call NotSelfIncludeCall (\<lambda>(i, member, call_valid_at).
     if now < call_valid_at then Inl ExtFuture
     else if now > sat_add u64_max call_valid_at self_inclusion_time_tolerance then Inl ExtStale
     else
       ok_or (sget (Collections s) i) ExtCollectionNotFound (\<lambda>info.
       ok_or (ci_self_inclusion_delay info) SelfInclusionNotEnabled (\<lambda>delay.
       ensure (append_only (rings_state_of s i)) RingsMutating (
       ok_or (sget (Members s) (i, member)) MemberNotFound (\<lambda>position.
       case position of
         Onboarding _ since \<Rightarrow>
           if now < sat_add u64_max since delay then Inl SelfInclusionTooEarly
           else ensure (verify_signature member) BadProof (Inr member)
       | _ \<Rightarrow> Inl ExtNotOnboarding))))))"

subsection \<open>The interface for other pallets\<close>

fun ring_exponent_le :: "RingExponent \<Rightarrow> RingExponent \<Rightarrow> bool" where
  "ring_exponent_le a b = (exponent a \<le> exponent b)"

definition create_collection ::
  "('m, 'root, 'inter, 'c) members_config \<Rightarrow> bytes \<Rightarrow> coll_id \<Rightarrow> nat \<Rightarrow> RingMode \<Rightarrow> RingExponent \<Rightarrow> nat option \<Rightarrow>
   ('m, 'root, 'inter) members_state \<Rightarrow> MembersError + ('m, 'root, 'inter) members_state" where
  "create_collection cfg owner i onboarding_size mode ring_size self_inclusion_delay s =
     ensure (\<not> scontains (Collections s) i \<and> \<not> scontains (SuspendedCollections s) i) CollectionAlreadyExists (
     ensure (mode = FlexibleRings \<longrightarrow>
        ring_exponent_le ring_size (MaxFlexibleRingExponent cfg) \<and>
        ring_capacity cfg ring_size \<le> ring_capacity cfg (MaxFlexibleRingExponent cfg)) InvalidRingSizeForFlexible (
     ensure (onboarding_size \<le> ring_capacity cfg ring_size) InvalidOnboardingSize (
     let collection_owner = ExternalOwner owner
     in ok_or (try_push (MaxCollections cfg) (sget_or [] (IdentifiersOf s) collection_owner) i) TooManyCollections (\<lambda>ids.
        Inr (s\<lparr>IdentifiersOf := sput collection_owner ids (IdentifiersOf s),
               Collections := sput i \<lparr>ci_owner = collection_owner, ci_mode = mode, ci_ring_size = ring_size,
                 ci_self_inclusion_delay = self_inclusion_delay\<rparr> (Collections s),
               OnboardingSize := sput i onboarding_size (OnboardingSize s),
               RingsState := sput i default_ring_members_state (RingsState s)\<rparr>)))))"

fun add_loop ::
  "('m, 'root, 'inter, 'c) members_config \<Rightarrow> nat \<Rightarrow> coll_id \<Rightarrow> 'm list \<Rightarrow> ('m, 'root, 'inter) members_state \<Rightarrow>
   MembersError + ('m, 'root, 'inter) members_state" where
  "add_loop cfg now i [] s = Inr s"
| "add_loop cfg now i (member # rest) s =
     on_ok (case sget (Members s) (i, member) of
              None \<Rightarrow> ensure (is_member_valid cfg member) InvalidMemberKey (push_to_onboarding_queue cfg now i member s)
            | Some position \<Rightarrow>
                if suspended position then push_to_onboarding_queue cfg now i member s else Inl KeyAlreadyInUse)
       (add_loop cfg now i rest)"

definition add_members ::
  "('m, 'root, 'inter, 'c) members_config \<Rightarrow> nat \<Rightarrow> coll_id \<Rightarrow> 'm list \<Rightarrow> ('m, 'root, 'inter) members_state \<Rightarrow>
   MembersError + ('m, 'root, 'inter) members_state" where
  "add_members cfg now i members s =
     ensure (scontains (Collections s) i) CollectionNotFound (add_loop cfg now i members s)"

definition remove_ring ::
  "('m, 'root, 'inter, 'c) members_config \<Rightarrow> nat \<Rightarrow> coll_id \<Rightarrow> nat \<Rightarrow> ('m, 'root, 'inter) members_state \<Rightarrow>
   MembersError + ('m, 'root, 'inter) members_state" where
  "remove_ring cfg now i ring s =
     ensure (scontains (Collections s) i) CollectionNotFound (
     ensure (ring \<noteq> current_ring s i) InvalidRing (
     if list_ex (\<lambda>((j, r, _), _). j = i \<and> r = ring) (RingDeletionQueue s) then Inr s
     else Inr (snd (enqueue_ring_for_deletion cfg now i ring s))))"

definition ring_status :: "coll_id \<Rightarrow> nat \<Rightarrow> ('m, 'root, 'inter) members_state \<Rightarrow> RingStatus option" where
  "ring_status i ring s = (if scontains (Collections s) i then Some (status_of s i ring) else None)"

definition member_status :: "coll_id \<Rightarrow> 'm \<Rightarrow> ('m, 'root, 'inter) members_state \<Rightarrow> RingPosition option" where
  "member_status i member s = sget (Members s) (i, member)"

definition max_pages_per_ring :: "('m, 'root, 'inter, 'c) members_config \<Rightarrow> RingExponent \<Rightarrow> nat" where
  "max_pages_per_ring cfg ring_exponent =
     (let page_size = flexible_ring_capacity cfg; max_ring_capacity = ring_capacity cfg ring_exponent
      in sat_add u32_max (max_ring_capacity div page_size) (if max_ring_capacity mod page_size = 0 then 0 else 1))"

text \<open>The loop of \<open>ring_members\<close> reads pages until it has all keys or is past the last page.\<close>

function ring_members_loop ::
  "('m, 'root, 'inter) members_state \<Rightarrow> coll_id \<Rightarrow> nat \<Rightarrow> nat \<Rightarrow> nat \<Rightarrow> nat \<Rightarrow> 'm list \<Rightarrow> 'm list" where
  "ring_members_loop s i ring wanted max_page_count page members =
     (if length members \<ge> wanted \<or> page > max_page_count then members
      else ring_members_loop s i ring wanted max_page_count (page + 1) (members @ keys_of s i ring page))"
  by pat_completeness auto

termination ring_members_loop
  by (relation "measure (\<lambda>(s, i, ring, wanted, max_page_count, page, members). Suc max_page_count - page)") auto

declare ring_members_loop.simps [simp del]

definition ring_members ::
  "('m, 'root, 'inter, 'c) members_config \<Rightarrow> coll_id \<Rightarrow> nat \<Rightarrow> ('m, 'root, 'inter) members_state \<Rightarrow> 'm list" where
  "ring_members cfg i ring s =
     (case sget (Collections s) i of
        None \<Rightarrow> []
      | Some info \<Rightarrow>
          ring_members_loop s i ring (rs_total (status_of s i ring)) (max_pages_per_ring cfg (ci_ring_size info)) 0 [])"

definition delete_collection ::
  "bytes \<Rightarrow> coll_id \<Rightarrow> ('m, 'root, 'inter) members_state \<Rightarrow> MembersError + ('m, 'root, 'inter) members_state" where
  "delete_collection owner i s =
     ok_or (sget (Collections s) i) CollectionNotFound (\<lambda>info.
     ensure (ci_owner info = ExternalOwner owner) NotCollectionOwner (
     ensure (\<not> scontains (SuspendedCollections s) i) CollectionMarkedForDeletion (
     Inr (members_deposit (CollectionMarked i)
       (s\<lparr>Collections := sdel i (Collections s),
          SuspendedCollections := sput i info (SuspendedCollections s)\<rparr>)))))"

definition remove_members ::
  "('m, 'root, 'inter, 'c) members_config \<Rightarrow> coll_id \<Rightarrow> 'm list \<Rightarrow> ('m, 'root, 'inter) members_state \<Rightarrow>
   MembersError + ('m, 'root, 'inter) members_state" where
  "remove_members cfg i suspensions s = queue_member_suspensions cfg i suspensions s"

definition start_removal_session ::
  "coll_id \<Rightarrow> ('m, 'root, 'inter) members_state \<Rightarrow> MembersError + ('m, 'root, 'inter) members_state" where
  "start_removal_session i s =
     (if \<not> scontains (Collections s) i then Inr s
      else on_ok (map_err (\<lambda>_. CouldNotStartRemovalSession) (start_mutation_session (rings_state_of s i)))
             (\<lambda>st. Inr (s\<lparr>RingsState := sput i st (RingsState s)\<rparr>)))"

definition end_removal_session ::
  "coll_id \<Rightarrow> ('m, 'root, 'inter) members_state \<Rightarrow> MembersError + ('m, 'root, 'inter) members_state" where
  "end_removal_session i s =
     (if \<not> scontains (Collections s) i then Inr s
      else on_ok (map_err (\<lambda>_. NoRemovalSession) (end_mutation_session (rings_state_of s i)))
             (\<lambda>st. Inr (s\<lparr>RingsState := sput i st (RingsState s)\<rparr>)))"

definition next_ring_index :: "coll_id \<Rightarrow> ('m, 'root, 'inter) members_state \<Rightarrow> nat" where
  "next_ring_index i s =
     (if scontains (Root s) (i, current_ring s i) then sat_add u32_max (current_ring s i) 1 else current_ring s i)"

definition get_ring_roots ::
  "coll_id \<Rightarrow> nat list \<Rightarrow> ('m, 'root, 'inter) members_state \<Rightarrow> (nat \<times> 'root \<times> nat) list" where
  "get_ring_roots i indices s =
     List.map_filter (\<lambda>r. map_option (\<lambda>root. (r, rr_root root, rr_revision root)) (sget (Root s) (i, r))) indices"

subsection \<open>Membership proofs\<close>

record ('proof, 'root) ring_prover =
  validate_proof :: "RingExponent \<Rightarrow> 'proof \<Rightarrow> 'root \<Rightarrow> bytes \<Rightarrow> bytes \<Rightarrow> bytes option"
  batch_validate :: "RingExponent \<Rightarrow> 'root \<Rightarrow> ('proof \<times> bytes \<times> bytes) list \<Rightarrow> bytes list option"
  validate_multi :: "RingExponent \<Rightarrow> 'proof \<Rightarrow> 'root \<Rightarrow> bytes list \<Rightarrow> bytes \<Rightarrow> bytes list option"

record ContextualAlias =
  ca_alias :: bytes
  ca_context :: bytes

record RevisedContextualAlias =
  rca_revision :: nat
  rca_ring :: nat
  rca_ca :: ContextualAlias

definition collection_exponent ::
  "('m, 'root, 'inter, 'c) members_config \<Rightarrow> coll_id \<Rightarrow> ('m, 'root, 'inter) members_state \<Rightarrow> MembersError + RingExponent" where
  "collection_exponent cfg i s =
     ok_or (sget (Collections s) i) CollectionNotFound (\<lambda>info.
     ensure (capacity_supported cfg (ci_ring_size info)) InvalidRingExponent (Inr (ci_ring_size info)))"

definition verify_membership ::
  "('m, 'root, 'inter, 'c) members_config \<Rightarrow> ('proof, 'root) ring_prover \<Rightarrow> coll_id \<Rightarrow> 'proof \<Rightarrow> nat \<Rightarrow> bytes \<Rightarrow> bytes \<Rightarrow>
   ('m, 'root, 'inter) members_state \<Rightarrow> MembersError + RevisedContextualAlias" where
  "verify_membership cfg pr i proof ring context msg s =
     on_ok (collection_exponent cfg i s) (\<lambda>capacity.
     ok_or (sget (Root s) (i, ring)) NoRoot (\<lambda>root.
     ok_or (validate_proof pr capacity proof (rr_root root) context msg) InvalidProof (\<lambda>alias.
     Inr \<lparr>rca_revision = rr_revision root, rca_ring = ring, rca_ca = \<lparr>ca_alias = alias, ca_context = context\<rparr>\<rparr>)))"

definition verify_membership_at_rev ::
  "('m, 'root, 'inter, 'c) members_config \<Rightarrow> ('proof, 'root) ring_prover \<Rightarrow> nat \<Rightarrow> coll_id \<Rightarrow> 'proof \<Rightarrow> nat \<Rightarrow> nat \<Rightarrow>
   bytes \<Rightarrow> bytes \<Rightarrow> ('m, 'root, 'inter) members_state \<Rightarrow> MembersError + ContextualAlias" where
  "verify_membership_at_rev cfg pr now i proof ring revision context msg s =
     on_ok (collection_exponent cfg i s) (\<lambda>capacity.
     on_ok (get_root_at_revision cfg now i ring revision s) (\<lambda>root.
     ok_or (validate_proof pr capacity proof root context msg) InvalidProof (\<lambda>alias.
     Inr \<lparr>ca_alias = alias, ca_context = context\<rparr>)))"

text \<open>Pairing the aliases of a batch with their contexts, each of which has to be of 32 bytes.\<close>

fun aliases_with_contexts :: "(bytes \<times> bytes) list \<Rightarrow> MembersError + ContextualAlias list" where
  "aliases_with_contexts [] = Inr []"
| "aliases_with_contexts ((alias, context) # rest) =
     ensure (length context = 32) InvalidProof (
     on_ok (aliases_with_contexts rest) (\<lambda>cas. Inr (\<lparr>ca_alias = alias, ca_context = context\<rparr> # cas)))"

definition verify_memberships_in_ring ::
  "('m, 'root, 'inter, 'c) members_config \<Rightarrow> ('proof, 'root) ring_prover \<Rightarrow> coll_id \<Rightarrow> nat \<Rightarrow> ('proof \<times> bytes \<times> bytes) list \<Rightarrow>
   ('m, 'root, 'inter) members_state \<Rightarrow> MembersError + RevisedContextualAlias list" where
  "verify_memberships_in_ring cfg pr i ring items s =
     on_ok (collection_exponent cfg i s) (\<lambda>capacity.
     ok_or (sget (Root s) (i, ring)) NoRoot (\<lambda>root.
     ok_or (batch_validate pr capacity (rr_root root) items) InvalidProof (\<lambda>aliases.
     on_ok (aliases_with_contexts (zip aliases (map (\<lambda>(_, context, _). context) items))) (\<lambda>cas.
     Inr (map (\<lambda>ca. \<lparr>rca_revision = rr_revision root, rca_ring = ring, rca_ca = ca\<rparr>) cas)))))"

definition verify_memberships_in_ring_at_rev ::
  "('m, 'root, 'inter, 'c) members_config \<Rightarrow> ('proof, 'root) ring_prover \<Rightarrow> nat \<Rightarrow> coll_id \<Rightarrow> nat \<Rightarrow> nat \<Rightarrow>
   ('proof \<times> bytes \<times> bytes) list \<Rightarrow> ('m, 'root, 'inter) members_state \<Rightarrow> MembersError + ContextualAlias list" where
  "verify_memberships_in_ring_at_rev cfg pr now i ring revision items s =
     on_ok (collection_exponent cfg i s) (\<lambda>capacity.
     on_ok (get_root_at_revision cfg now i ring revision s) (\<lambda>root.
     ok_or (batch_validate pr capacity root items) InvalidProof (\<lambda>aliases.
     aliases_with_contexts (zip aliases (map (\<lambda>(_, context, _). context) items)))))"

definition verify_membership_multi_context ::
  "('m, 'root, 'inter, 'c) members_config \<Rightarrow> ('proof, 'root) ring_prover \<Rightarrow> coll_id \<Rightarrow> 'proof \<Rightarrow> nat \<Rightarrow> bytes list \<Rightarrow> bytes \<Rightarrow>
   ('m, 'root, 'inter) members_state \<Rightarrow> MembersError + RevisedContextualAlias list" where
  "verify_membership_multi_context cfg pr i proof ring contexts msg s =
     on_ok (collection_exponent cfg i s) (\<lambda>capacity.
     ok_or (sget (Root s) (i, ring)) NoRoot (\<lambda>root.
     ok_or (validate_multi pr capacity proof (rr_root root) contexts msg) InvalidProof (\<lambda>aliases.
     Inr (map (\<lambda>(alias, context). \<lparr>rca_revision = rr_revision root, rca_ring = ring,
            rca_ca = \<lparr>ca_alias = alias, ca_context = context\<rparr>\<rparr>) (zip aliases contexts)))))"

definition verify_membership_multi_context_at_rev ::
  "('m, 'root, 'inter, 'c) members_config \<Rightarrow> ('proof, 'root) ring_prover \<Rightarrow> nat \<Rightarrow> coll_id \<Rightarrow> 'proof \<Rightarrow> nat \<Rightarrow> nat \<Rightarrow>
   bytes list \<Rightarrow> bytes \<Rightarrow> ('m, 'root, 'inter) members_state \<Rightarrow> MembersError + ContextualAlias list" where
  "verify_membership_multi_context_at_rev cfg pr now i proof ring revision contexts msg s =
     on_ok (collection_exponent cfg i s) (\<lambda>capacity.
     on_ok (get_root_at_revision cfg now i ring revision s) (\<lambda>root.
     ok_or (validate_multi pr capacity proof root contexts msg) InvalidProof (\<lambda>aliases.
     Inr (map (\<lambda>(alias, context). \<lparr>ca_alias = alias, ca_context = context\<rparr>) (zip aliases contexts)))))"

end
