(* ===== verification/Members_View.thy ===== *)
theory Members_View
  imports Members_Calls
begin

text \<open>
  What the storage of the members pallet says about one collection, as a \<open>view\<close> of plain functions, and the
  invariant of a view: every record of a member points at the place where its key is, every key
  in a ring or queue has its record, the pages of a ring are a list cut into pages, and the counters
  count. Every abstract step of a collection keeps the invariant.
\<close>

subsection \<open>The view of a collection\<close>

record 'm cview =
  vinfo :: "CollectionInfo option"
  vsusp :: bool
  vmem :: "'m \<Rightarrow> RingPosition option"
  vkeys :: "nat \<Rightarrow> nat \<Rightarrow> 'm list"
  vqueue :: "nat \<Rightarrow> 'm list"
  vpend :: "nat \<Rightarrow> nat list option"
  vstat :: "nat \<Rightarrow> RingStatus option"
  vdel :: "nat \<Rightarrow> nat \<Rightarrow> bool"
  vcur :: nat
  vspan :: "nat \<times> nat"
  vact :: nat
  vsum :: nat

definition totals_of :: "coll_id \<Rightarrow> (coll_id \<times> nat, RingStatus) storage \<Rightarrow> nat" where
  "totals_of i m = ssum (\<lambda>p. if fst (fst p) = i then rs_total (snd p) else 0) m"

definition view :: "('m, 'root, 'inter) members_state \<Rightarrow> coll_id \<Rightarrow> 'm cview" where
  "view s i = \<lparr>
     vinfo = sget (Collections s) i,
     vsusp = scontains (SuspendedCollections s) i,
     vmem = (\<lambda>k. sget (Members s) (i, k)),
     vkeys = (\<lambda>r p. keys_of s i r p),
     vqueue = (\<lambda>p. queue_of s i p),
     vpend = (\<lambda>r. sget (PendingSuspensions s) (i, r)),
     vstat = (\<lambda>r. sget (RingKeysStatus s) (i, r)),
     vdel = (\<lambda>r p. scontains (RingDeletionQueue s) (i, r, p)),
     vcur = current_ring s i,
     vspan = queue_pages s i,
     vact = active_count s i,
     vsum = totals_of i (RingKeysStatus s)\<rparr>"

definition stotal :: "'m cview \<Rightarrow> nat \<Rightarrow> nat" where
  "stotal v r = (case vstat v r of None \<Rightarrow> 0 | Some st \<Rightarrow> rs_total st)"

definition susp_at :: "'m cview \<Rightarrow> nat \<Rightarrow> nat \<Rightarrow> nat \<Rightarrow> bool" where
  "susp_at v r p j \<longleftrightarrow> p = 0 \<and> (\<exists>js. vpend v r = Some js \<and> j \<in> set js)"

text \<open>A list cut into pages.\<close>

definition page :: "nat \<Rightarrow> 'a list \<Rightarrow> nat \<Rightarrow> 'a list" where
  "page cap L p = take cap (drop (p * cap) L)"

text \<open>The pages between the head and the tail of the queue, which may wrap around the \<open>u32\<close> range.\<close>

definition in_span :: "nat \<times> nat \<Rightarrow> nat \<Rightarrow> bool" where
  "in_span ht p \<longleftrightarrow> p \<le> u32_max \<and>
     (if fst ht \<le> snd ht then fst ht \<le> p \<and> p \<le> snd ht else fst ht \<le> p \<or> p \<le> snd ht)"

definition span_ok :: "nat \<times> nat \<Rightarrow> bool" where
  "span_ok ht \<longleftrightarrow> fst ht \<le> u32_max \<and> snd ht \<le> u32_max"

subsection \<open>The invariant\<close>

definition queue_inv :: "nat \<Rightarrow> 'm cview \<Rightarrow> bool" where
  "queue_inv qps v \<longleftrightarrow>
     (\<forall>p k. k \<in> set (vqueue v p) \<longleftrightarrow> (\<exists>t. vmem v k = Some (Onboarding p t))) \<and>
     (\<forall>p. distinct (vqueue v p) \<and> length (vqueue v p) \<le> qps) \<and>
     (\<forall>p. vqueue v p \<noteq> [] \<longrightarrow> in_span (vspan v) p) \<and> span_ok (vspan v)"

definition place_inv :: "'m cview \<Rightarrow> bool" where
  "place_inv v \<longleftrightarrow>
     (\<forall>k r p j. vmem v k = Some (Included r p j) \<longrightarrow>
        j < length (vkeys v r p) \<and> vkeys v r p ! j = k \<and> \<not> susp_at v r p j) \<and>
     (vinfo v \<noteq> None \<longrightarrow> (\<forall>r p j. j < length (vkeys v r p) \<longrightarrow>
        susp_at v r p j \<or> vmem v (vkeys v r p ! j) = Some (Included r p j)))"

definition pend_inv :: "'m cview \<Rightarrow> bool" where
  "pend_inv v \<longleftrightarrow> (\<forall>r js. vpend v r = Some js \<longrightarrow>
     js \<noteq> [] \<and> sorted_wrt (<) js \<and> (\<forall>j\<in>set js. j < length (vkeys v r 0)))"

definition pages_inv :: "nat \<Rightarrow> 'm cview \<Rightarrow> bool" where
  "pages_inv cap v \<longleftrightarrow>
     (\<forall>r. (\<forall>p. \<not> vdel v r p) \<longrightarrow> (\<exists>L. length L = stotal v r \<and> (\<forall>p. vkeys v r p = page cap L p))) \<and>
     (\<forall>r p. vdel v r p \<longrightarrow> vstat v r = None \<and> vpend v r = None \<and> (\<forall>q. vkeys v r q \<noteq> [] \<longrightarrow> vdel v r q)) \<and>
     (\<forall>r st. vstat v r = Some st \<longrightarrow> rs_included st \<le> rs_total st)"

definition live_inv :: "nat \<Rightarrow> (RingExponent \<Rightarrow> nat) \<Rightarrow> 'm cview \<Rightarrow> bool" where
  "live_inv cap rc v \<longleftrightarrow> (\<forall>info. vinfo v = Some info \<longrightarrow>
     \<not> vsusp v \<and>
     (\<forall>r. stotal v r \<le> rc (ci_ring_size info)) \<and>
     (\<forall>r\<ge>vcur v. stotal v r < rc (ci_ring_size info)) \<and>
     (if ci_mode info = FlexibleRings then rc (ci_ring_size info) \<le> cap \<and> (\<forall>r p. \<not> vdel v r p)
      else (\<forall>r. vpend v r = None) \<and> (\<forall>r>vcur v. vstat v r = None) \<and> (\<forall>r\<ge>vcur v. \<forall>p. \<not> vdel v r p)))"

definition gone_inv :: "'m cview \<Rightarrow> bool" where
  "gone_inv v \<longleftrightarrow> (vinfo v = None \<and> \<not> vsusp v \<longrightarrow>
     (\<forall>r. vstat v r = None) \<and> (\<forall>r p. \<not> vdel v r p) \<and> (\<forall>p. vqueue v p = []) \<and>
     vcur v = 0 \<and> vspan v = (0, 0) \<and> vact v = 0)"

definition coll_inv :: "('m, 'root, 'inter, 'c) members_config \<Rightarrow> 'm cview \<Rightarrow> bool" where
  "coll_inv cfg v \<longleftrightarrow>
     queue_inv (OnboardingQueuePageSize cfg) v \<and> place_inv v \<and> pend_inv v \<and>
     pages_inv (flexible_ring_capacity cfg) v \<and>
     live_inv (flexible_ring_capacity cfg) (ring_capacity cfg) v \<and> gone_inv v \<and> vact v = vsum v"

definition members_inv :: "('m, 'root, 'inter, 'c) members_config \<Rightarrow> ('m, 'root, 'inter) members_state \<Rightarrow> bool" where
  "members_inv cfg s \<longleftrightarrow> wf_storage (RingKeysStatus s) \<and> (\<forall>i. coll_inv cfg (view s i))"

text \<open>What the configuration has to satisfy: the integrity test, and positive \<open>u32\<close> capacities.\<close>

definition members_config_ok :: "('m, 'root, 'inter, 'c) members_config \<Rightarrow> bool" where
  "members_config_ok cfg \<longleftrightarrow> members_integrity_test cfg \<and>
     (\<forall>e. 0 < ring_capacity cfg e \<and> ring_capacity cfg e \<le> u32_max)"

subsection \<open>Pages\<close>

lemma page_Nil [simp]: "page cap [] p = []"
  by (simp add: page_def)

lemma page_0: "length L \<le> cap \<Longrightarrow> page cap L 0 = L"
  by (simp add: page_def)

lemma page_beyond: "length L \<le> p * cap \<Longrightarrow> page cap L p = []"
  by (simp add: page_def)

lemma page_small: "length L \<le> cap \<Longrightarrow> p \<noteq> 0 \<Longrightarrow> page cap L p = []"
  by (rule page_beyond) (cases p; simp)

lemma length_page: "length (page cap L p) = min cap (length L - p * cap)"
  by (simp add: page_def)

lemma page_lt: "j < length (page cap L p) \<longleftrightarrow> j < cap \<and> p * cap + j < length L"
  unfolding length_page by (simp add: less_diff_conv add.commute)

lemma page_nth: "j < length (page cap L p) \<Longrightarrow> page cap L p ! j = L ! (p * cap + j)"
  unfolding page_lt by (simp add: page_def)

lemma page_index:
  assumes "n < length L" and "0 < cap"
  shows "n mod cap < length (page cap L (n div cap))" and "page cap L (n div cap) ! (n mod cap) = L ! n"
proof -
  have "n div cap * cap + n mod cap = n" by (simp add: div_mult_mod_eq)
  moreover have "n mod cap < cap" using assms(2) by simp
  ultimately show "n mod cap < length (page cap L (n div cap))" using assms(1) by (simp add: page_lt)
  then show "page cap L (n div cap) ! (n mod cap) = L ! n"
    using \<open>n div cap * cap + n mod cap = n\<close> by (simp add: page_nth)
qed

lemma page_append_old:
  assumes "j < length (page cap L p)"
  shows "j < length (page cap (L @ ks) p) \<and> page cap (L @ ks) p ! j = page cap L p ! j"
proof -
  have j: "j < cap" "p * cap + j < length L" using assms by (simp_all add: page_lt)
  then have "j < length (page cap (L @ ks) p)" by (simp add: page_lt)
  then show ?thesis using assms j by (simp add: page_nth nth_append)
qed

lemma page_append_cases:
  assumes "j < length (page cap (L @ ks) p)" and "0 < cap"
  obtains "j < length (page cap L p)" and "page cap (L @ ks) p ! j = page cap L p ! j"
  | t where "t < length ks" and "page cap (L @ ks) p ! j = ks ! t"
      and "p = (length L + t) div cap" and "j = (length L + t) mod cap"
proof -
  have j: "j < cap" "p * cap + j < length L + length ks" using assms(1) by (simp_all add: page_lt)
  show thesis
  proof (cases "p * cap + j < length L")
    case True
    with j have "j < length (page cap L p)" by (simp add: page_lt)
    then show thesis using that(1) page_append_old [of j cap L p ks] by simp
  next
    case False
    define t where "t = p * cap + j - length L"
    have t: "length L + t = p * cap + j" "t < length ks" using False j by (simp_all add: t_def)
    have "page cap (L @ ks) p ! j = ks ! t"
      using assms(1) False by (simp add: page_nth nth_append t_def)
    moreover have "p = (length L + t) div cap" "j = (length L + t) mod cap"
      unfolding t(1) using j(1) by simp_all
    ultimately show thesis using that(2) t(2) by blast
  qed
qed

lemma next_page_le: "p \<le> u32_max \<Longrightarrow> next_page p \<le> u32_max"
  by (simp add: next_page_def checked_add_def split: option.splits)

lemma next_page_cases: "p \<le> u32_max \<Longrightarrow> next_page p = (if p = u32_max then 0 else p + 1)"
  by (simp add: next_page_def checked_add_def)

lemma in_span_next_tail:
  assumes "span_ok (h, t)" and "next_page t \<noteq> h"
  shows "\<not> in_span (h, t) (next_page t)" and "in_span (h, next_page t) (next_page t)"
    and "in_span (h, t) p \<Longrightarrow> in_span (h, next_page t) p" and "span_ok (h, next_page t)"
  using assms by (auto simp: in_span_def span_ok_def next_page_cases split: if_splits)

lemma in_span_next_head:
  assumes "span_ok (h, t)" and "h \<noteq> t"
  shows "in_span (h, t) p \<Longrightarrow> p \<noteq> h \<Longrightarrow> in_span (next_page h, t) p" and "span_ok (next_page h, t)"
    and "in_span (h, t) (next_page h)" and "next_page h \<noteq> h" and "in_span (next_page h, t) (next_page h)"
  using assms by (auto simp: in_span_def span_ok_def next_page_cases split: if_splits)

lemma in_span_ends: "span_ok (h, t) \<Longrightarrow> in_span (h, t) h \<and> in_span (h, t) t"
  by (auto simp: in_span_def span_ok_def)

subsection \<open>Changes of the queue\<close>

text \<open>Two record maps that say the same about rings, and about the queue.\<close>

definition same_included :: "('m \<Rightarrow> RingPosition option) \<Rightarrow> ('m \<Rightarrow> RingPosition option) \<Rightarrow> bool" where
  "same_included m m' \<longleftrightarrow> (\<forall>k r p j. m' k = Some (Included r p j) \<longleftrightarrow> m k = Some (Included r p j))"

definition same_onboarding :: "('m \<Rightarrow> RingPosition option) \<Rightarrow> ('m \<Rightarrow> RingPosition option) \<Rightarrow> bool" where
  "same_onboarding m m' \<longleftrightarrow> (\<forall>k p t. m' k = Some (Onboarding p t) \<longleftrightarrow> m k = Some (Onboarding p t))"

lemma coll_invD:
  assumes "coll_inv cfg v"
  shows "queue_inv (OnboardingQueuePageSize cfg) v" and "place_inv v" and "pend_inv v"
    and "pages_inv (flexible_ring_capacity cfg) v" and "live_inv (flexible_ring_capacity cfg) (ring_capacity cfg) v"
    and "gone_inv v" and "vact v = vsum v"
  using assms by (simp_all add: coll_inv_def)

lemma queue_invD:
  assumes "queue_inv qps v"
  shows "k \<in> set (vqueue v p) \<longleftrightarrow> (\<exists>t. vmem v k = Some (Onboarding p t))"
    and "distinct (vqueue v p)" and "length (vqueue v p) \<le> qps"
    and "vqueue v p \<noteq> [] \<Longrightarrow> in_span (vspan v) p" and "span_ok (vspan v)"
  using assms unfolding queue_inv_def by blast+

lemma queue_change:
  assumes inv: "coll_inv cfg v" and q: "queue_inv (OnboardingQueuePageSize cfg) (v\<lparr>vqueue := q, vmem := m, vspan := sp\<rparr>)"
    and m: "same_included (vmem v) m" and known: "vinfo v \<noteq> None \<or> vsusp v"
  shows "coll_inv cfg (v\<lparr>vqueue := q, vmem := m, vspan := sp\<rparr>)"
proof -
  let ?v = "v\<lparr>vqueue := q, vmem := m, vspan := sp\<rparr>"
  have "place_inv ?v"
    using coll_invD(2) [OF inv] m by (simp add: place_inv_def susp_at_def same_included_def)
  moreover have "pend_inv ?v" using coll_invD(3) [OF inv] by (simp add: pend_inv_def)
  moreover have "pages_inv (flexible_ring_capacity cfg) ?v"
    using coll_invD(4) [OF inv] by (simp add: pages_inv_def stotal_def)
  moreover have "live_inv (flexible_ring_capacity cfg) (ring_capacity cfg) ?v"
    using coll_invD(5) [OF inv] by (simp add: live_inv_def stotal_def)
  moreover have "gone_inv ?v" using known by (auto simp: gone_inv_def)
  ultimately show ?thesis using q coll_invD(7) [OF inv] by (simp add: coll_inv_def)
qed

lemma push_step:
  assumes inv: "coll_inv cfg v" and known: "vinfo v \<noteq> None \<or> vsusp v" and qps: "0 < OnboardingQueuePageSize cfg"
    and out: "vmem v k = None \<or> vmem v k = Some SuspendedPosition"
    and span: "vspan v = (h, t0)"
    and new: "(t = t0 \<and> q = vqueue v t0 @ [k] \<and> length (vqueue v t0) < OnboardingQueuePageSize cfg) \<or>
      (t = next_page t0 \<and> t \<noteq> h \<and> q = [k])"
  shows "coll_inv cfg (v\<lparr>vqueue := (vqueue v)(t := q), vmem := (vmem v)(k \<mapsto> Onboarding t now), vspan := (h, t)\<rparr>)"
proof (rule queue_change [OF inv _ _ known])
  note Q = queue_invD [OF coll_invD(1) [OF inv]]
  show "same_included (vmem v) ((vmem v)(k \<mapsto> Onboarding t now))"
    using out by (auto simp: same_included_def)
  have ok: "span_ok (h, t0)" using Q(5) span by simp
  have fresh: "k \<notin> set (vqueue v p)" for p using Q(1) [of k p] out by auto
  have empty: "vqueue v t = []" if "t = next_page t0" "t \<noteq> h"
    using Q(4) [of t] in_span_next_tail(1) [OF ok] that span by auto
  have grow: "in_span (h, t0) p \<Longrightarrow> in_span (h, t) p" "span_ok (h, t)" "in_span (h, t) t" for p
    using new in_span_next_tail [OF ok] in_span_ends [OF ok] ok by auto
  have q: "set q = insert k (set (vqueue v t))" "distinct q" "length q \<le> OnboardingQueuePageSize cfg"
    using new empty fresh [of t] Q(2) [of t] qps by auto
  show "queue_inv (OnboardingQueuePageSize cfg)
     (v\<lparr>vqueue := (vqueue v)(t := q), vmem := (vmem v)(k \<mapsto> Onboarding t now), vspan := (h, t)\<rparr>)"
    unfolding queue_inv_def
    using Q(1) fresh q Q(2,3,4) span grow by (auto simp: fun_upd_def)
qed

text \<open>Taking keys out of the queue: they become suspended for the moment.\<close>

lemma unqueue_step:
  assumes inv: "coll_inv cfg v" and known: "vinfo v \<noteq> None \<or> vsusp v"
    and q: "\<And>p. set (q p) = set (vqueue v p) - ks" "\<And>p. distinct (q p)"
    and len: "\<And>p. length (q p) \<le> OnboardingQueuePageSize cfg"
    and ks: "\<And>k. k \<in> ks \<Longrightarrow> \<exists>p t. vmem v k = Some (Onboarding p t)"
    and sp: "span_ok sp" "\<And>p. q p \<noteq> [] \<Longrightarrow> in_span sp p"
    and new: "new = None \<or> new = Some SuspendedPosition"
  shows "coll_inv cfg (v\<lparr>vqueue := q, vmem := (\<lambda>k. if k \<in> ks then new else vmem v k), vspan := sp\<rparr>)"
proof (rule queue_change [OF inv _ _ known])
  note Q = queue_invD [OF coll_invD(1) [OF inv]]
  show "same_included (vmem v) (\<lambda>k. if k \<in> ks then new else vmem v k)"
  proof -
    have "vmem v k \<noteq> Some (Included r p j)" if "k \<in> ks" for k r p j using ks [OF that] by auto
    with new show ?thesis by (auto simp: same_included_def)
  qed
  show "queue_inv (OnboardingQueuePageSize cfg)
      (v\<lparr>vqueue := q, vmem := (\<lambda>k. if k \<in> ks then new else vmem v k), vspan := sp\<rparr>)"
    unfolding queue_inv_def using q len sp Q(1) new by auto
qed

text \<open>Moving the keys of a page to the front of the next page.\<close>

lemma merge_pages_step:
  assumes inv: "coll_inv cfg v" and known: "vinfo v \<noteq> None \<or> vsusp v"
    and span: "vspan v = (h, t)" "h \<noteq> t"
    and fit: "length (vqueue v h) + length (vqueue v (next_page h)) \<le> OnboardingQueuePageSize cfg"
  shows "coll_inv cfg (v\<lparr>
     vqueue := (vqueue v)(h := [], next_page h := vqueue v h @ vqueue v (next_page h)),
     vmem := (\<lambda>k. if k \<in> set (vqueue v h)
        then (case vmem v k of Some (Onboarding _ since) \<Rightarrow> Some (Onboarding (next_page h) since) | x \<Rightarrow> x) else vmem v k),
     vspan := (next_page h, t)\<rparr>)"
proof (rule queue_change [OF inv _ _ known])
  note Q = queue_invD [OF coll_invD(1) [OF inv]]
  have ok: "span_ok (h, t)" using Q(5) span by simp
  note H = in_span_next_head [OF ok span(2)]
  let ?n = "next_page h"
  let ?m = "\<lambda>k. if k \<in> set (vqueue v h)
     then (case vmem v k of Some (Onboarding _ since) \<Rightarrow> Some (Onboarding ?n since) | x \<Rightarrow> x) else vmem v k"
  have head: "k \<in> set (vqueue v h) \<Longrightarrow> \<exists>since. vmem v k = Some (Onboarding h since)" for k
    using Q(1) [of k h] by simp
  show "same_included (vmem v) ?m"
    using head by (fastforce simp: same_included_def split: option.splits RingPosition.splits)
  have mem: "(\<exists>since. ?m k = Some (Onboarding p since)) \<longleftrightarrow>
      (if k \<in> set (vqueue v h) then p = ?n else k \<in> set (vqueue v p))" for k p
    using head [of k] Q(1) [of k p] by auto
  have "set (vqueue v h) \<inter> set (vqueue v ?n) = {}"
    using Q(1) H(4) by fastforce
  then show "queue_inv (OnboardingQueuePageSize cfg) (v\<lparr>
     vqueue := (vqueue v)(h := [], ?n := vqueue v h @ vqueue v ?n), vmem := ?m, vspan := (?n, t)\<rparr>)"
    unfolding queue_inv_def
    using mem Q(2,3) Q(4) fit H span Q(1) by (auto simp: head)
qed

subsection \<open>Changes of the rings\<close>

lemma place_invD:
  assumes "place_inv v"
  shows "vmem v k = Some (Included r p j) \<Longrightarrow> j < length (vkeys v r p) \<and> vkeys v r p ! j = k \<and> \<not> susp_at v r p j"
    and "vinfo v \<noteq> None \<Longrightarrow> j < length (vkeys v r p) \<Longrightarrow> susp_at v r p j \<or> vmem v (vkeys v r p ! j) = Some (Included r p j)"
  using assms unfolding place_inv_def by blast+

lemma pend_invD:
  assumes "pend_inv v" and "vpend v r = Some js"
  shows "js \<noteq> []" and "sorted_wrt (<) js" and "j \<in> set js \<Longrightarrow> j < length (vkeys v r 0)"
  using assms unfolding pend_inv_def by blast+

lemma pages_invD:
  assumes "pages_inv cap v"
  shows "(\<And>p. \<not> vdel v r p) \<Longrightarrow> \<exists>L. length L = stotal v r \<and> (\<forall>p. vkeys v r p = page cap L p)"
    and "vdel v r p \<Longrightarrow> vstat v r = None" and "vdel v r p \<Longrightarrow> vpend v r = None"
    and "vdel v r p \<Longrightarrow> vkeys v r q \<noteq> [] \<Longrightarrow> vdel v r q"
    and "vstat v r = Some st \<Longrightarrow> rs_included st \<le> rs_total st"
  using assms unfolding pages_inv_def by blast+

lemma live_invD:
  assumes "live_inv cap rc v" and "vinfo v = Some info"
  shows "\<not> vsusp v" and "stotal v r \<le> rc (ci_ring_size info)"
    and "vcur v \<le> r \<Longrightarrow> stotal v r < rc (ci_ring_size info)"
    and "ci_mode info = FlexibleRings \<Longrightarrow> rc (ci_ring_size info) \<le> cap"
    and "ci_mode info = FlexibleRings \<Longrightarrow> \<not> vdel v r p"
    and "ci_mode info = AppendOnlyRings \<Longrightarrow> vpend v r = None"
    and "ci_mode info = AppendOnlyRings \<Longrightarrow> vcur v < r \<Longrightarrow> vstat v r = None"
    and "vcur v \<le> r \<Longrightarrow> \<not> vdel v r p"
  using assms unfolding live_inv_def by (auto split: if_splits)

text \<open>The queue part of the invariant only reads the records of waiting members.\<close>

lemma queue_inv_rings:
  assumes "queue_inv qps v" and "same_onboarding (vmem v) (vmem v')" and "vqueue v' = vqueue v" and "vspan v' = vspan v"
  shows "queue_inv qps v'"
  using assms unfolding queue_inv_def same_onboarding_def by simp

text \<open>Appending keys to the ring that takes new members.\<close>

definition append_positions :: "nat \<Rightarrow> nat \<Rightarrow> nat \<Rightarrow> 'm list \<Rightarrow> ('m \<Rightarrow> RingPosition option) \<Rightarrow> 'm \<Rightarrow> RingPosition option" where
  "append_positions cap r n ks m k =
     (case map_of (zip ks [n..<n + length ks]) k of
        Some x \<Rightarrow> Some (Included r (x div cap) (x mod cap))
      | None \<Rightarrow> m k)"

lemma append_positions_in:
  assumes "distinct ks" and "t < length ks"
  shows "append_positions cap r n ks m (ks ! t) = Some (Included r ((n + t) div cap) ((n + t) mod cap))"
proof -
  have "map_of (zip ks [n..<n + length ks]) (ks ! t) = Some ([n..<n + length ks] ! t)"
    using assms by (intro map_of_zip_nth) simp_all
  then show ?thesis using assms(2) by (simp add: append_positions_def)
qed

lemma append_positions_out: "k \<notin> set ks \<Longrightarrow> append_positions cap r n ks m k = m k"
  by (auto simp: append_positions_def dest!: map_of_SomeD set_zip_leftD split: option.splits)

definition appended :: "nat \<Rightarrow> nat \<Rightarrow> 'm list \<Rightarrow> 'm list \<Rightarrow> RingStatus \<Rightarrow> 'm cview \<Rightarrow> 'm cview" where
  "appended cap r L ks st v = v\<lparr>
     vmem := append_positions cap r (length L) ks (vmem v),
     vkeys := (vkeys v)(r := page cap (L @ ks)),
     vstat := (vstat v)(r \<mapsto> st),
     vact := vact v + length ks,
     vsum := vsum v + length ks\<rparr>"

lemma append_place:
  assumes inv: "place_inv v" and pend: "pend_inv v" and cap: "0 < cap"
    and L: "vkeys v r = page cap L" and ks: "distinct ks"
    and out: "\<And>k. k \<in> set ks \<Longrightarrow> vmem v k = Some SuspendedPosition"
  shows "place_inv (appended cap r L ks st v)" and "pend_inv (appended cap r L ks st v)"
proof -
  let ?v = "appended cap r L ks st v"
  have susp: "susp_at ?v = susp_at v" by (simp add: fun_eq_iff susp_at_def appended_def)
  have keys: "vkeys ?v q p = (if q = r then page cap (L @ ks) p else vkeys v q p)" for q p
    by (simp add: appended_def)
  have mem_in: "t < length ks \<Longrightarrow> vmem ?v (ks ! t) = Some (Included r ((length L + t) div cap) ((length L + t) mod cap))" for t
    using append_positions_in [OF ks] by (simp add: appended_def)
  have mem_out: "k \<notin> set ks \<Longrightarrow> vmem ?v k = vmem v k" for k
    by (simp add: appended_def append_positions_out)
  have fresh: "\<not> susp_at v r ((length L + t) div cap) ((length L + t) mod cap)" for t
  proof
    assume a: "susp_at v r ((length L + t) div cap) ((length L + t) mod cap)"
    then have "(length L + t) mod cap < length (page cap L 0)" "(length L + t) div cap = 0"
      using pend L by (auto simp: susp_at_def dest: pend_invD(3))
    then show False using cap by (auto simp: page_lt div_eq_0_iff)
  qed
  show "place_inv ?v" unfolding place_inv_def susp
  proof (intro conjI allI impI)
    fix k q p j
    assume k: "vmem ?v k = Some (Included q p j)"
    have "j < length (vkeys ?v q p) \<and> vkeys ?v q p ! j = k \<and> \<not> susp_at v q p j"
    proof (cases "k \<in> set ks")
      case True
      then obtain t where t: "t < length ks" "k = ks ! t" by (auto simp: in_set_conv_nth)
      with k mem_in have "q = r" "p = (length L + t) div cap" "j = (length L + t) mod cap" by auto
      then show ?thesis
        using page_index [of "length L + t" "L @ ks" cap] t cap fresh [of t] by (simp add: keys nth_append)
    next
      case False
      then have "j < length (vkeys v q p) \<and> vkeys v q p ! j = k \<and> \<not> susp_at v q p j"
        using k mem_out place_invD(1) [OF inv] by simp
      then show ?thesis using page_append_old [of j cap L p ks] L by (auto simp: keys)
    qed
    then show "j < length (vkeys ?v q p)" "vkeys ?v q p ! j = k" "\<not> susp_at v q p j" by simp_all
  next
    fix q p j
    assume live: "vinfo ?v \<noteq> None" and j: "j < length (vkeys ?v q p)"
    have live': "vinfo v \<noteq> None" using live by (simp add: appended_def)
    have kept: "susp_at v q p j \<or> vmem ?v (vkeys v q p ! j) = Some (Included q p j)" if "j < length (vkeys v q p)"
      using place_invD(2) [OF inv live' that]
      by (cases "vkeys v q p ! j \<in> set ks") (auto simp: out mem_out)
    show "susp_at v q p j \<or> vmem ?v (vkeys ?v q p ! j) = Some (Included q p j)"
    proof (cases "q = r")
      case True
      then have jr: "j < length (page cap (L @ ks) p)" using j by (simp add: keys)
      consider (old) "j < length (page cap L p)" "page cap (L @ ks) p ! j = page cap L p ! j"
        | (new) t where "t < length ks" "page cap (L @ ks) p ! j = ks ! t"
            "p = (length L + t) div cap" "j = (length L + t) mod cap"
        using page_append_cases [OF jr cap] by blast
      then show ?thesis
      proof cases
        case old
        then show ?thesis using kept L True by (simp add: keys)
      next
        case (new t)
        then show ?thesis using mem_in True by (simp add: keys)
      qed
    qed (use j kept in \<open>simp add: keys\<close>)
  qed
  show "pend_inv ?v"
    unfolding pend_inv_def
  proof (intro allI impI)
    fix q js assume "vpend ?v q = Some js"
    then have q: "vpend v q = Some js" by (simp add: appended_def)
    then show "js \<noteq> [] \<and> sorted_wrt (<) js \<and> (\<forall>j\<in>set js. j < length (vkeys ?v q 0))"
      using pend_invD [OF pend q] page_append_old [of _ cap L 0 ks] L by (auto simp: keys)
  qed
qed

lemma append_step:
  assumes inv: "coll_inv cfg v" and cap: "cap = flexible_ring_capacity cfg" "0 < cap"
    and live: "vinfo v = Some info" and L: "vkeys v r = page cap L" "length L = stotal v r"
    and r: "r = vcur v" and ks: "distinct ks" and out: "\<And>k. k \<in> set ks \<Longrightarrow> vmem v k = Some SuspendedPosition"
    and st: "rs_total st = length L + length ks" "rs_included st \<le> length L"
    and room: "length L + length ks \<le> ring_capacity cfg (ci_ring_size info)"
    and cur: "c = (if length L + length ks = ring_capacity cfg (ci_ring_size info) then vcur v + 1 else vcur v)"
  shows "coll_inv cfg ((appended cap r L ks st v)\<lparr>vcur := c\<rparr>)"
proof -
  let ?v = "(appended cap r L ks st v)\<lparr>vcur := c\<rparr>"
  note P = append_place [OF coll_invD(2) [OF inv] coll_invD(3) [OF inv] cap(2) L(1) ks out, where st = st]
  note LI = live_invD [OF coll_invD(5) [OF inv] live]
  have tot: "stotal ?v q = (if q = r then length L + length ks else stotal v q)" for q
    by (simp add: stotal_def appended_def st(1))
  have keys: "vkeys ?v q = (if q = r then page cap (L @ ks) else vkeys v q)" for q
    by (simp add: appended_def)
  have sel: "vdel ?v = vdel v" "vpend ?v = vpend v" "vinfo ?v = vinfo v" "vsusp ?v = vsusp v"
    by (simp_all add: appended_def)
  have "queue_inv (OnboardingQueuePageSize cfg) ?v"
  proof (rule queue_inv_rings [OF coll_invD(1) [OF inv]])
    have "vmem ?v k = Some (Onboarding p t) \<longleftrightarrow> vmem v k = Some (Onboarding p t)" for k p t
    proof (cases "k \<in> set ks")
      case True
      then obtain x where "x < length ks" "k = ks ! x" by (auto simp: in_set_conv_nth)
      then show ?thesis using append_positions_in [OF ks] out [OF True] by (simp add: appended_def)
    qed (simp add: appended_def append_positions_out)
    then show "same_onboarding (vmem v) (vmem ?v)" by (simp add: same_onboarding_def)
  qed (simp_all add: appended_def)
  moreover have "place_inv ?v" "pend_inv ?v"
    using P by (simp_all add: place_inv_def pend_inv_def susp_at_def)
  moreover have "pages_inv (flexible_ring_capacity cfg) ?v"
    unfolding pages_inv_def sel cap(1) [symmetric]
  proof (intro conjI allI impI)
    fix q assume nodel: "\<forall>p. \<not> vdel v q p"
    show "\<exists>L. length L = stotal ?v q \<and> (\<forall>p. vkeys ?v q p = page cap L p)"
    proof (cases "q = r")
      case True
      then show ?thesis by (intro exI [of _ "L @ ks"]) (simp only: tot keys if_True length_append simp_thms)
    next
      case False
      then show ?thesis
        using pages_invD(1) [OF coll_invD(4) [OF inv], of q] nodel unfolding cap(1) [symmetric]
        by (simp only: tot keys if_False simp_thms)
    qed
  next
    fix q p assume del: "vdel v q p"
    then have "q \<noteq> r" using LI(8) [of r p] r by auto
    then show "vstat ?v q = None" "vpend v q = None" "\<And>x. vkeys ?v q x \<noteq> [] \<Longrightarrow> vdel v q x"
      using pages_invD(2-4) [OF coll_invD(4) [OF inv] del] by (simp_all add: appended_def)
  next
    fix q st' assume "vstat ?v q = Some st'"
    then show "rs_included st' \<le> rs_total st'"
      using pages_invD(5) [OF coll_invD(4) [OF inv], of q st'] st
      by (simp add: appended_def split: if_splits)
  qed
  moreover have "live_inv (flexible_ring_capacity cfg) (ring_capacity cfg) ?v"
    unfolding live_inv_def sel
  proof (intro allI impI conjI)
    fix info' assume "vinfo v = Some info'"
    then have i: "info' = info" using live by simp
    show "\<not> vsusp v" using LI(1) .
    show "stotal ?v q \<le> ring_capacity cfg (ci_ring_size info')" for q
      using room LI(2) by (simp add: tot i)
    show "stotal ?v q < ring_capacity cfg (ci_ring_size info')" if "vcur ?v \<le> q" for q
      using that room LI(3) [of q] cur r unfolding tot i by (auto split: if_splits)
    show "if ci_mode info' = FlexibleRings
      then ring_capacity cfg (ci_ring_size info') \<le> flexible_ring_capacity cfg \<and> (\<forall>r p. \<not> vdel v r p)
      else (\<forall>r. vpend v r = None) \<and> (\<forall>r>vcur ?v. vstat ?v r = None) \<and> (\<forall>r\<ge>vcur ?v. \<forall>p. \<not> vdel v r p)"
      using LI(4-8) cur r by (cases "ci_mode info") (auto simp: i appended_def)
  qed
  moreover have "gone_inv ?v" using live by (simp add: gone_inv_def appended_def)
  ultimately show ?thesis using coll_invD(7) [OF inv] by (simp add: coll_inv_def appended_def)
qed

text \<open>Suspending a member of a ring.\<close>

lemma insert_suspension_Some:
  assumes "insert_suspension j js = Some js'" and "sorted_wrt (<) js"
  shows "set js' = insert j (set js)" and "sorted_wrt (<) js'" and "js' \<noteq> []" and "j \<notin> set js"
proof -
  have js': "js' = takeWhile (\<lambda>x. x < j) js @ j # dropWhile (\<lambda>x. x < j) js" and new: "j \<notin> set js"
    using assms(1) by (auto simp: insert_suspension_def split: if_splits)
  have "set js = set (takeWhile (\<lambda>x. x < j) js) \<union> set (dropWhile (\<lambda>x. x < j) js)"
    by (metis set_append takeWhile_dropWhile_id)
  then show "set js' = insert j (set js)" by (auto simp: js')
  have low: "x < j" if "x \<in> set (takeWhile (\<lambda>x. x < j) js)" for x
    using set_takeWhileD [OF that] by simp
  have high: "j < x" if "x \<in> set (dropWhile (\<lambda>x. x < j) js)" for x
    using assms(2) new that
  proof (induction js)
    case (Cons y ys)
    then show ?case by (auto split: if_splits)
  qed simp
  show "sorted_wrt (<) js'"
    using assms(2) low high
    by (auto simp: js' sorted_wrt_append sorted_wrt_takeWhile sorted_wrt_dropWhile dest: less_trans)
  show "js' \<noteq> []" by (simp add: js')
  show "j \<notin> set js" by (rule new)
qed

lemma suspend_step:
  assumes inv: "coll_inv cfg v" and live: "vinfo v = Some info" "ci_mode info = FlexibleRings"
    and cap: "0 < flexible_ring_capacity cfg"
    and k: "vmem v k = Some (Included r p j)"
    and js: "insert_suspension j (case vpend v r of None \<Rightarrow> [] | Some js \<Rightarrow> js) = Some js'"
  shows "coll_inv cfg (v\<lparr>vpend := (vpend v)(r \<mapsto> js'), vmem := (vmem v)(k \<mapsto> SuspendedPosition)\<rparr>)" (is "coll_inv cfg ?v")
proof -
  note LI = live_invD [OF coll_invD(5) [OF inv] live(1)]
  have old: "sorted_wrt (<) (case vpend v r of None \<Rightarrow> [] | Some js \<Rightarrow> js)"
    using coll_invD(3) [OF inv] by (auto dest: pend_invD(2) split: option.splits)
  note J = insert_suspension_Some [OF js old]
  obtain L where L: "length L = stotal v r" "\<And>p. vkeys v r p = page (flexible_ring_capacity cfg) L p"
    using pages_invD(1) [OF coll_invD(4) [OF inv], of r] LI(5) [OF live(2)] by blast
  have "length L \<le> flexible_ring_capacity cfg" using LI(2) [of r] LI(4) [OF live(2)] L(1) by simp
  moreover note kp = place_invD(1) [OF coll_invD(2) [OF inv] k]
  ultimately have p: "p = 0" using L(2) [of p] page_small [of L _ p] by (cases "p = 0") auto
  have susp: "susp_at ?v q x y \<longleftrightarrow> susp_at v q x y \<or> (q = r \<and> x = 0 \<and> y = j)" for q x y
    using J(1) by (cases "vpend v r") (auto simp: susp_at_def)
  have "place_inv ?v" unfolding place_inv_def susp
  proof (intro conjI allI impI)
    fix k' q x y assume "vmem ?v k' = Some (Included q x y)"
    then have k': "k' \<noteq> k" "vmem v k' = Some (Included q x y)" by (auto split: if_splits)
    note place_invD(1) [OF coll_invD(2) [OF inv] k'(2)]
    then show "y < length (vkeys ?v q x)" "vkeys ?v q x ! y = k'" "\<not> (susp_at v q x y \<or> q = r \<and> x = 0 \<and> y = j)"
      using k' kp p by auto
  next
    fix q x y assume "vinfo ?v \<noteq> None" and y: "y < length (vkeys ?v q x)"
    then have "susp_at v q x y \<or> vmem v (vkeys v q x ! y) = Some (Included q x y)"
      using place_invD(2) [OF coll_invD(2) [OF inv]] by simp
    then show "(susp_at v q x y \<or> q = r \<and> x = 0 \<and> y = j) \<or> vmem ?v (vkeys ?v q x ! y) = Some (Included q x y)"
      using k p by auto
  qed
  moreover have "queue_inv (OnboardingQueuePageSize cfg) ?v"
    by (rule queue_inv_rings [OF coll_invD(1) [OF inv]]) (use k in \<open>simp_all add: same_onboarding_def\<close>)
  moreover have "pend_inv ?v"
    using coll_invD(3) [OF inv] J(1-3) kp p unfolding pend_inv_def by (cases "vpend v r") auto
  moreover have "pages_inv (flexible_ring_capacity cfg) ?v"
    using coll_invD(4) [OF inv] LI(5) [OF live(2)] unfolding pages_inv_def by (simp add: stotal_def)
  moreover have "live_inv (flexible_ring_capacity cfg) (ring_capacity cfg) ?v"
    using coll_invD(5) [OF inv] live unfolding live_inv_def by (simp add: stotal_def)
  moreover have "gone_inv ?v" using live by (simp add: gone_inv_def)
  ultimately show ?thesis using coll_invD(7) [OF inv] by (simp add: coll_inv_def)
qed

text \<open>
  Rewriting a one-page ring: ring \<open>r\<close> gets the keys \<open>N\<close>, the rings of \<open>Z\<close> lose theirs, and nothing of
  these rings stays suspended.
\<close>

definition rewritten :: "nat \<Rightarrow> nat \<Rightarrow> nat set \<Rightarrow> 'm list \<Rightarrow> 'm cview \<Rightarrow> 'm cview" where
  "rewritten cap r Z N v = v\<lparr>
     vmem := append_positions cap r 0 N (vmem v),
     vkeys := (\<lambda>q. if q = r then page cap N else if q \<in> Z then (\<lambda>_. []) else vkeys v q),
     vpend := (\<lambda>q. if q = r \<or> q \<in> Z then None else vpend v q)\<rparr>"

lemma rewritten_sel:
  "vkeys (rewritten cap r Z N v) q = (if q = r then page cap N else if q \<in> Z then (\<lambda>_. []) else vkeys v q)"
  "vpend (rewritten cap r Z N v) q = (if q = r \<or> q \<in> Z then None else vpend v q)"
  "vinfo (rewritten cap r Z N v) = vinfo v" "vdel (rewritten cap r Z N v) = vdel v"
  "vqueue (rewritten cap r Z N v) = vqueue v" "vspan (rewritten cap r Z N v) = vspan v"
  "vstat (rewritten cap r Z N v) = vstat v" "vcur (rewritten cap r Z N v) = vcur v"
  "vsusp (rewritten cap r Z N v) = vsusp v" "vact (rewritten cap r Z N v) = vact v"
  "vsum (rewritten cap r Z N v) = vsum v"
  by (simp_all add: rewritten_def)

lemma rewritten_places:
  assumes inv: "coll_inv cfg v" and cap: "0 < cap"
    and N: "distinct N" "length N \<le> cap"
    and was: "\<And>k. k \<in> set N \<Longrightarrow> \<exists>q p j. vmem v k = Some (Included q p j) \<and> (q = r \<or> q \<in> Z)"
    and all: "\<And>k q p j. vmem v k = Some (Included q p j) \<Longrightarrow> q = r \<or> q \<in> Z \<Longrightarrow> k \<in> set N"
  shows "place_inv (rewritten cap r Z N v)" and "pend_inv (rewritten cap r Z N v)"
    and "queue_inv (OnboardingQueuePageSize cfg) (rewritten cap r Z N v)"
proof -
  let ?v = "rewritten cap r Z N v"
  have mem_in: "t < length N \<Longrightarrow> vmem ?v (N ! t) = Some (Included r 0 t)" for t
    using append_positions_in [OF N(1), of t cap r 0] N(2) by (simp add: rewritten_def)
  have mem_out: "k \<notin> set N \<Longrightarrow> vmem ?v k = vmem v k" for k
    by (simp add: rewritten_def append_positions_out)
  have susp: "susp_at ?v q p j \<longleftrightarrow> q \<noteq> r \<and> q \<notin> Z \<and> susp_at v q p j" for q p j
    by (auto simp: susp_at_def rewritten_sel)
  have pg: "page cap N p = (if p = 0 then N else [])" for p
    using page_0 [OF N(2)] page_small [OF N(2)] by simp
  have mem: "vmem ?v k = Some (Included q p j) \<longleftrightarrow>
      (if k \<in> set N then q = r \<and> p = 0 \<and> j < length N \<and> N ! j = k else vmem v k = Some (Included q p j))" for k q p j
    using mem_in mem_out N(1) by (auto simp: in_set_conv_nth nth_eq_iff_index_eq)
  note old = place_invD [OF coll_invD(2) [OF inv]]
  show "place_inv ?v" unfolding place_inv_def susp mem
  proof (intro conjI allI impI)
    fix k q p j
    assume "if k \<in> set N then q = r \<and> p = 0 \<and> j < length N \<and> N ! j = k else vmem v k = Some (Included q p j)"
    then have "(q = r \<and> p = 0 \<and> j < length N \<and> N ! j = k) \<or>
        (q \<noteq> r \<and> q \<notin> Z \<and> j < length (vkeys v q p) \<and> vkeys v q p ! j = k \<and> \<not> susp_at v q p j)"
      using old(1) [of k q p j] all [of k q p j] by (metis (full_types))
    then show "j < length (vkeys ?v q p)" "vkeys ?v q p ! j = k" "\<not> (q \<noteq> r \<and> q \<notin> Z \<and> susp_at v q p j)"
      by (auto simp: rewritten_sel pg)
  next
    fix q p j
    assume live: "vinfo ?v \<noteq> None" and j: "j < length (vkeys ?v q p)"
    show "(q \<noteq> r \<and> q \<notin> Z \<and> susp_at v q p j) \<or> (if vkeys ?v q p ! j \<in> set N
        then q = r \<and> p = 0 \<and> j < length N \<and> N ! j = vkeys ?v q p ! j
        else vmem v (vkeys ?v q p ! j) = Some (Included q p j))"
    proof (cases "q = r \<or> q \<in> Z")
      case True
      then show ?thesis using j by (auto simp: rewritten_sel pg split: if_splits)
    next
      case False
      then show ?thesis using j live old(2) [of j q p] was [of "vkeys v q p ! j"] by (auto simp: rewritten_sel)
    qed
  qed
  show "pend_inv ?v" using coll_invD(3) [OF inv] unfolding pend_inv_def by (auto simp: rewritten_sel)
  have "vmem ?v k = Some (Onboarding p t) \<longleftrightarrow> vmem v k = Some (Onboarding p t)" for k p t
    using mem_in mem_out was [of k] by (cases "k \<in> set N") (auto simp: in_set_conv_nth)
  then show "queue_inv (OnboardingQueuePageSize cfg) ?v"
    by (intro queue_inv_rings [OF coll_invD(1) [OF inv]]) (simp_all add: same_onboarding_def rewritten_sel)
qed

text \<open>Setting the status of rewritten rings completes the step.\<close>

lemma rewrite_step:
  assumes inv: "coll_inv cfg v" and cap: "cap = flexible_ring_capacity cfg" "0 < cap"
    and live: "vinfo v = Some info" "ci_mode info = FlexibleRings"
    and N: "distinct N" "length N \<le> cap"
    and was: "\<And>k. k \<in> set N \<Longrightarrow> \<exists>q p j. vmem v k = Some (Included q p j) \<and> (q = r \<or> q \<in> Z)"
    and all: "\<And>k q p j. vmem v k = Some (Included q p j) \<Longrightarrow> q = r \<or> q \<in> Z \<Longrightarrow> k \<in> set N"
    and st: "rs_total st = length N" "rs_included st \<le> length N" and Z: "r \<notin> Z"
    and room: "length N \<le> ring_capacity cfg (ci_ring_size info)"
      "vcur v \<le> r \<Longrightarrow> length N < ring_capacity cfg (ci_ring_size info)"
    and n: "n = m"
  shows "coll_inv cfg ((rewritten cap r Z N v)\<lparr>vstat := (\<lambda>q. if q = r then Some st else if q \<in> Z then None else vstat v q),
     vact := n, vsum := m\<rparr>)"
proof -
  let ?w = "rewritten cap r Z N v"
  let ?v = "?w\<lparr>vstat := (\<lambda>q. if q = r then Some st else if q \<in> Z then None else vstat v q), vact := n, vsum := m\<rparr>"
  note P = rewritten_places [OF inv cap(2) N was all]
  note LI = live_invD [OF coll_invD(5) [OF inv] live(1)]
  have tot: "stotal ?v q = (if q = r then length N else if q \<in> Z then 0 else stotal v q)" for q
    by (simp add: stotal_def st(1))
  have "pages_inv (flexible_ring_capacity cfg) ?v"
    unfolding pages_inv_def tot cap(1) [symmetric]
  proof (intro conjI allI impI)
    fix q
    obtain L where "length L = stotal v q" "\<And>p. vkeys v q p = page cap L p"
      using pages_invD(1) [OF coll_invD(4) [OF inv], of q] LI(5) [OF live(2)] cap(1) by blast
    then show "\<exists>L. length L = (if q = r then length N else if q \<in> Z then 0 else stotal v q) \<and>
        (\<forall>p. vkeys ?v q p = page cap L p)"
      by (intro exI [of _ "if q = r then N else if q \<in> Z then [] else L"]) (simp add: rewritten_sel)
  next
    fix q st' assume "vstat ?v q = Some st'"
    then show "rs_included st' \<le> rs_total st'"
      using st pages_invD(5) [OF coll_invD(4) [OF inv], of q st'] by (auto split: if_splits)
  qed (use LI(5) [OF live(2)] in \<open>simp_all add: rewritten_sel\<close>)
  moreover have "live_inv (flexible_ring_capacity cfg) (ring_capacity cfg) ?v"
    unfolding live_inv_def tot
    using live LI(1-5) room LI(3) by (auto simp: rewritten_sel intro: order_le_less_trans [OF _ LI(3)])
  moreover have "gone_inv ?v" using live by (simp add: gone_inv_def rewritten_sel)
  moreover have "queue_inv (OnboardingQueuePageSize cfg) ?v" "place_inv ?v" "pend_inv ?v"
    using P by (simp_all add: queue_inv_def place_inv_def pend_inv_def susp_at_def)
  ultimately show ?thesis using n by (simp add: coll_inv_def)
qed

subsection \<open>Deletion and creation\<close>

lemma build_step:
  assumes inv: "coll_inv cfg v" and st: "vstat v r = Some st" "rs_total st' = rs_total st" "rs_included st' \<le> rs_total st"
  shows "coll_inv cfg (v\<lparr>vstat := (vstat v)(r \<mapsto> st')\<rparr>)"
proof -
  let ?v = "v\<lparr>vstat := (vstat v)(r \<mapsto> st')\<rparr>"
  have tot: "stotal ?v = stotal v" using st by (simp add: fun_eq_iff stotal_def)
  have "queue_inv (OnboardingQueuePageSize cfg) ?v" "place_inv ?v" "pend_inv ?v"
    using coll_invD(1-3) [OF inv] by (simp_all add: queue_inv_def place_inv_def pend_inv_def susp_at_def)
  moreover have "pages_inv (flexible_ring_capacity cfg) ?v"
    using coll_invD(4) [OF inv] st unfolding pages_inv_def tot by auto
  moreover have "live_inv (flexible_ring_capacity cfg) (ring_capacity cfg) ?v"
    using coll_invD(5) [OF inv] st unfolding live_inv_def tot by auto
  moreover have "gone_inv ?v" using coll_invD(6) [OF inv] st by (auto simp: gone_inv_def)
  ultimately show ?thesis using coll_invD(7) [OF inv] by (simp add: coll_inv_def)
qed

lemma delete_page_step:
  assumes inv: "coll_inv cfg v" and del: "vdel v r p"
  shows "coll_inv cfg (v\<lparr>vdel := (vdel v)(r := (vdel v r)(p := False)),
     vkeys := (vkeys v)(r := (vkeys v r)(p := [])),
     vmem := (\<lambda>k. if \<exists>j. vmem v k = Some (Included r p j) then None else vmem v k)\<rparr>)" (is "coll_inv cfg ?v")
proof -
  note D = pages_invD(2-4) [OF coll_invD(4) [OF inv] del]
  have tot: "stotal ?v = stotal v" by (simp add: fun_eq_iff stotal_def)
  have susp: "susp_at ?v = susp_at v" by (simp add: fun_eq_iff susp_at_def)
  have keys: "vkeys ?v q x = (if q = r \<and> x = p then [] else vkeys v q x)" for q x by simp
  have mem: "vmem ?v k = Some (Included q x j) \<longleftrightarrow> \<not> (q = r \<and> x = p) \<and> vmem v k = Some (Included q x j)" for k q x j
    by auto
  have "queue_inv (OnboardingQueuePageSize cfg) ?v"
    by (rule queue_inv_rings [OF coll_invD(1) [OF inv]]) (auto simp: same_onboarding_def)
  moreover have "place_inv ?v"
    using coll_invD(2) [OF inv] unfolding place_inv_def susp mem keys by auto
  moreover have "pend_inv ?v"
    unfolding pend_inv_def keys using coll_invD(3) [OF inv] D(2) by (auto simp: pend_inv_def)
  moreover have "pages_inv (flexible_ring_capacity cfg) ?v"
    unfolding pages_inv_def tot
  proof (intro conjI allI impI)
    fix q assume "\<forall>x. \<not> vdel ?v q x"
    then have nodel: "vdel v q x \<Longrightarrow> q = r \<and> x = p" for x by (auto split: if_splits)
    show "\<exists>L. length L = stotal v q \<and> (\<forall>x. vkeys ?v q x = page (flexible_ring_capacity cfg) L x)"
    proof (cases "q = r")
      case True
      have "vkeys ?v r x = []" for x using D(3) [of x] nodel [of x] True by auto
      then show ?thesis using True D(1) by (intro exI [of _ "[]"]) (simp add: stotal_def)
    next
      case False
      then show ?thesis
        using pages_invD(1) [OF coll_invD(4) [OF inv], of q] nodel by auto
    qed
  next
    fix q x assume "vdel ?v q x"
    then have d: "vdel v q x" by (auto split: if_splits)
    note pages_invD(2-4) [OF coll_invD(4) [OF inv] d]
    then show "vstat ?v q = None" "vpend ?v q = None" "\<And>y. vkeys ?v q y \<noteq> [] \<Longrightarrow> vdel ?v q y"
      by (auto split: if_splits)
  qed (use pages_invD(5) [OF coll_invD(4) [OF inv]] in simp)
  moreover have "live_inv (flexible_ring_capacity cfg) (ring_capacity cfg) ?v"
    using coll_invD(5) [OF inv] unfolding live_inv_def tot by auto
  moreover have "gone_inv ?v" using coll_invD(6) [OF inv] del by (auto simp: gone_inv_def)
  ultimately show ?thesis using coll_invD(7) [OF inv] by (simp add: coll_inv_def)
qed

lemma page_count_covers:
  assumes "0 < cap" and "page cap L q \<noteq> []" shows "q < page_count (length L) cap"
proof -
  have lt: "q * cap < length L" using assms(2) by (simp add: page_def)
  have len: "length L = length L div cap * cap + length L mod cap" by simp
  show ?thesis
  proof (cases "length L mod cap = 0")
    case True
    then have "q * cap < length L div cap * cap" using lt len by simp
    then show ?thesis by (simp add: page_count_def)
  next
    case False
    have "q * cap < (length L div cap + 1) * cap"
      using lt len mod_less_divisor [OF assms(1), of "length L"] unfolding add_mult_distrib by linarith
    then have "q < length L div cap + 1" by (metis mult_less_cancel2)
    then show ?thesis using False by (simp add: page_count_def)
  qed
qed

text \<open>A removed ring: its status and suspensions are gone and its pages wait for deletion.\<close>

lemma enqueue_step:
  assumes inv: "coll_inv cfg v" and cap: "cap = flexible_ring_capacity cfg" "0 < cap"
    and nodel: "\<And>p. \<not> vdel v r p"
    and who: "case vinfo v of None \<Rightarrow> vsusp v | Some info \<Rightarrow> ci_mode info = AppendOnlyRings \<and> r < vcur v"
    and n: "n = m"
  shows "coll_inv cfg (v\<lparr>vstat := (vstat v)(r := None), vpend := (vpend v)(r := None),
     vdel := (vdel v)(r := (\<lambda>p. p < page_count (stotal v r) cap)), vact := n, vsum := m\<rparr>)" (is "coll_inv cfg ?v")
proof -
  obtain L where L: "length L = stotal v r" "\<And>p. vkeys v r p = page cap L p"
    using pages_invD(1) [OF coll_invD(4) [OF inv] nodel] cap(1) by blast
  have susp: "susp_at ?v q p j \<longleftrightarrow> q \<noteq> r \<and> susp_at v q p j" for q p j by (simp add: susp_at_def)
  have tot: "stotal ?v q = (if q = r then 0 else stotal v q)" for q by (simp add: stotal_def)
  have nopend: "vinfo v \<noteq> None \<Longrightarrow> vpend v q = None" for q
    using who live_invD(6) [OF coll_invD(5) [OF inv]] by (auto split: option.splits)
  have "queue_inv (OnboardingQueuePageSize cfg) ?v"
    by (rule queue_inv_rings [OF coll_invD(1) [OF inv]]) (simp_all add: same_onboarding_def)
  moreover have "place_inv ?v"
    using coll_invD(2) [OF inv] nopend unfolding place_inv_def susp by (auto simp: susp_at_def)
  moreover have "pend_inv ?v" using coll_invD(3) [OF inv] by (simp add: pend_inv_def)
  moreover have "pages_inv (flexible_ring_capacity cfg) ?v"
    unfolding pages_inv_def tot cap(1) [symmetric]
  proof (intro conjI allI impI)
    fix q assume nd: "\<forall>x. \<not> vdel ?v q x"
    show "\<exists>L. length L = (if q = r then 0 else stotal v q) \<and> (\<forall>p. vkeys ?v q p = page cap L p)"
    proof (cases "q = r")
      case True
      then have "page_count (stotal v r) cap = 0" using nd by (auto dest: spec [of _ 0])
      then have "L = []" using cap(2) L(1)
        by (auto simp: page_count_def div_eq_0_iff split: if_splits)
      then show ?thesis using True L(2) by (intro exI [of _ "[]"]) simp
    next
      case False
      then show ?thesis
        using pages_invD(1) [OF coll_invD(4) [OF inv], of q] nd cap(1) by auto
    qed
  next
    fix q x assume d: "vdel ?v q x"
    show "vstat ?v q = None" "vpend ?v q = None" "\<And>y. vkeys ?v q y \<noteq> [] \<Longrightarrow> vdel ?v q y"
      using d pages_invD(2-4) [OF coll_invD(4) [OF inv], of q x] page_count_covers [OF cap(2), of L] L
      by (auto split: if_splits)
  qed (use pages_invD(5) [OF coll_invD(4) [OF inv]] in \<open>simp split: if_splits\<close>)
  moreover have "live_inv (flexible_ring_capacity cfg) (ring_capacity cfg) ?v"
    using coll_invD(5) [OF inv] who unfolding live_inv_def tot by auto
  moreover have "gone_inv ?v" using who by (auto simp: gone_inv_def)
  ultimately show ?thesis using n by (simp add: coll_inv_def)
qed

lemma finalize_step:
  assumes inv: "coll_inv cfg v" and gone: "\<And>r. vstat v r = None" "\<And>r p. \<not> vdel v r p" "\<And>p. vqueue v p = []"
    and sum: "vsum v = 0" and none: "vinfo v = None"
  shows "coll_inv cfg (v\<lparr>vsusp := False, vcur := 0, vspan := (0, 0), vact := 0\<rparr>)" (is "coll_inv cfg ?v")
proof -
  have "queue_inv (OnboardingQueuePageSize cfg) ?v"
    using coll_invD(1) [OF inv] gone(3) by (simp add: queue_inv_def span_ok_def)
  moreover have "place_inv ?v" "pend_inv ?v" "pages_inv (flexible_ring_capacity cfg) ?v"
    using coll_invD(2-4) [OF inv] by (simp_all add: place_inv_def pend_inv_def pages_inv_def susp_at_def stotal_def)
  ultimately show ?thesis
    using gone sum none by (simp add: coll_inv_def live_inv_def gone_inv_def)
qed

lemma mark_step:
  assumes inv: "coll_inv cfg v" and "vinfo v = Some info"
  shows "coll_inv cfg (v\<lparr>vinfo := None, vsusp := True\<rparr>)" (is "coll_inv cfg ?v")
proof -
  have "queue_inv (OnboardingQueuePageSize cfg) ?v" "place_inv ?v" "pend_inv ?v" "pages_inv (flexible_ring_capacity cfg) ?v"
    using coll_invD(1-4) [OF inv] by (auto simp: queue_inv_def place_inv_def pend_inv_def pages_inv_def susp_at_def stotal_def)
  then show ?thesis
    using coll_invD(7) [OF inv] by (simp add: coll_inv_def live_inv_def gone_inv_def)
qed

lemma create_step:
  assumes inv: "coll_inv cfg v" and gone: "vinfo v = None" "\<not> vsusp v"
    and cap: "0 < ring_capacity cfg (ci_ring_size info)"
    and flex: "ci_mode info = FlexibleRings \<Longrightarrow> ring_capacity cfg (ci_ring_size info) \<le> flexible_ring_capacity cfg"
  shows "coll_inv cfg (v\<lparr>vinfo := Some info\<rparr>)" (is "coll_inv cfg ?v")
proof -
  have g: "vstat v r = None" "\<not> vdel v r p" for r p
    using coll_invD(6) [OF inv] gone by (simp_all add: gone_inv_def)
  have keys: "vkeys v r p = []" for r p
    using pages_invD(1) [OF coll_invD(4) [OF inv], of r] g by (auto simp: stotal_def)
  have pend: "vpend v r = None" for r
  proof (rule ccontr)
    assume "vpend v r \<noteq> None"
    then obtain js where js: "vpend v r = Some js" by blast
    then have "hd js \<in> set js" using pend_invD(1) [OF coll_invD(3) [OF inv]] by simp
    then show False using pend_invD(3) [OF coll_invD(3) [OF inv] js] keys by simp
  qed
  have "queue_inv (OnboardingQueuePageSize cfg) ?v" "place_inv ?v" "pend_inv ?v" "pages_inv (flexible_ring_capacity cfg) ?v"
    using coll_invD(1-4) [OF inv] keys pend
    by (simp_all add: queue_inv_def place_inv_def pend_inv_def pages_inv_def susp_at_def stotal_def)
  moreover have "live_inv (flexible_ring_capacity cfg) (ring_capacity cfg) ?v"
    using gone g pend cap flex by (auto simp: live_inv_def stotal_def)
  ultimately show ?thesis
    using coll_invD(7) [OF inv] by (simp add: coll_inv_def gone_inv_def)
qed

end
