(* ===== verification/Members_Inv.thy ===== *)
theory Members_Inv
  imports Members_View
begin

text \<open>
  The operations of the members pallet are the abstract steps on the view of their collection and leave
  the views of the other collections alone; so the invariant holds in every reachable state.
\<close>

subsection \<open>The view of an updated state\<close>

lemma view_sel [simp]:
  "vinfo (view s i) = sget (Collections s) i" "vsusp (view s i) = scontains (SuspendedCollections s) i"
  "vmem (view s i) = (\<lambda>k. sget (Members s) (i, k))" "vkeys (view s i) = (\<lambda>r p. keys_of s i r p)"
  "vqueue (view s i) = (\<lambda>p. queue_of s i p)" "vpend (view s i) = (\<lambda>r. sget (PendingSuspensions s) (i, r))"
  "vstat (view s i) = (\<lambda>r. sget (RingKeysStatus s) (i, r))"
  "vdel (view s i) = (\<lambda>r p. scontains (RingDeletionQueue s) (i, r, p))"
  "vcur (view s i) = current_ring s i" "vspan (view s i) = queue_pages s i"
  "vact (view s i) = active_count s i" "vsum (view s i) = totals_of i (RingKeysStatus s)"
  by (simp_all add: view_def)

lemma view_upd [simp]:
  "view (s\<lparr>Members := m1\<rparr>) i = (view s i)\<lparr>vmem := (\<lambda>k. sget m1 (i, k))\<rparr>"
  "view (s\<lparr>RingKeys := m2\<rparr>) i = (view s i)\<lparr>vkeys := (\<lambda>r p. sget_or [] m2 (i, r, p))\<rparr>"
  "view (s\<lparr>OnboardingQueue := m3\<rparr>) i = (view s i)\<lparr>vqueue := (\<lambda>p. sget_or [] m3 (i, p))\<rparr>"
  "view (s\<lparr>PendingSuspensions := m4\<rparr>) i = (view s i)\<lparr>vpend := (\<lambda>r. sget m4 (i, r))\<rparr>"
  "view (s\<lparr>RingKeysStatus := m5\<rparr>) i = (view s i)\<lparr>vstat := (\<lambda>r. sget m5 (i, r)), vsum := totals_of i m5\<rparr>"
  "view (s\<lparr>RingDeletionQueue := m6\<rparr>) i = (view s i)\<lparr>vdel := (\<lambda>r p. scontains m6 (i, r, p))\<rparr>"
  "view (s\<lparr>CurrentRingIndex := m7\<rparr>) i = (view s i)\<lparr>vcur := sget_or 0 m7 i\<rparr>"
  "view (s\<lparr>QueuePageIndices := m8\<rparr>) i = (view s i)\<lparr>vspan := sget_or (0, 0) m8 i\<rparr>"
  "view (s\<lparr>ActiveMembers := m9\<rparr>) i = (view s i)\<lparr>vact := sget_or 0 m9 i\<rparr>"
  "view (s\<lparr>Collections := m10\<rparr>) i = (view s i)\<lparr>vinfo := sget m10 i\<rparr>"
  "view (s\<lparr>SuspendedCollections := m11\<rparr>) i = (view s i)\<lparr>vsusp := scontains m11 i\<rparr>"
  "view (s\<lparr>Root := m12\<rparr>) i = view s i" "view (s\<lparr>OldRoots := m13\<rparr>) i = view s i"
  "view (s\<lparr>IdentifiersOf := m14\<rparr>) i = view s i" "view (s\<lparr>OnboardingSize := m15\<rparr>) i = view s i"
  "view (s\<lparr>RingsState := m16\<rparr>) i = view s i" "view (s\<lparr>StaleRings := m17\<rparr>) i = view s i"
  "view (s\<lparr>members_events := m18\<rparr>) i = view s i" "view (s\<lparr>root_changes := m19\<rparr>) i = view s i"
  by (simp_all add: view_def keys_of_def queue_of_def current_ring_def queue_pages_def active_count_def)

lemma view_notify [simp]:
  "view (members_deposit e s) i = view s i" "view (on_ring_root_change j r ch s) i = view s i"
  "view (archive_and_notify now j r s) i = view s i"
  by (simp_all add: members_deposit_def on_ring_root_change_def archive_and_notify_def archive_root_def
      split: option.splits)

lemma view_same [simp]:
  "(view s i)\<lparr>vmem := (\<lambda>k. sget (Members s) (i, k))\<rparr> = view s i"
  "(view s i)\<lparr>vkeys := (\<lambda>r p. keys_of s i r p)\<rparr> = view s i"
  "(view s i)\<lparr>vkeys := (\<lambda>r p. sget_or [] (RingKeys s) (i, r, p))\<rparr> = view s i"
  "(view s i)\<lparr>vqueue := (\<lambda>p. sget_or [] (OnboardingQueue s) (i, p))\<rparr> = view s i"
  "(view s i)\<lparr>vpend := (\<lambda>r. sget (PendingSuspensions s) (i, r))\<rparr> = view s i"
  "(view s i)\<lparr>vstat := (\<lambda>r. sget (RingKeysStatus s) (i, r)), vsum := totals_of i (RingKeysStatus s)\<rparr> = view s i"
  "(view s i)\<lparr>vdel := (\<lambda>r p. scontains (RingDeletionQueue s) (i, r, p))\<rparr> = view s i"
  "(view s i)\<lparr>vcur := sget_or 0 (CurrentRingIndex s) i\<rparr> = view s i"
  "(view s i)\<lparr>vspan := sget_or (0, 0) (QueuePageIndices s) i\<rparr> = view s i"
  "(view s i)\<lparr>vact := sget_or 0 (ActiveMembers s) i\<rparr> = view s i"
  "(view s i)\<lparr>vinfo := sget (Collections s) i\<rparr> = view s i"
  "(view s i)\<lparr>vsusp := scontains (SuspendedCollections s) i\<rparr> = view s i"
  by (simp_all add: view_def keys_of_def queue_of_def current_ring_def queue_pages_def active_count_def)

lemma row_put:
  "(\<lambda>k'. sget (sput (i, k) x m) (i, k')) = (\<lambda>k'. sget m (i, k'))(k \<mapsto> x)"
  "(\<lambda>k'. sget (sdel (i, k) m) (i, k')) = (\<lambda>k'. sget m (i, k'))(k := None)"
  "(\<lambda>p. sget_or d (sput (i, k) y q) (i, p)) = (\<lambda>p. sget_or d q (i, p))(k := y)"
  "(\<lambda>p. sget_or d (sdel (i, k) q) (i, p)) = (\<lambda>p. sget_or d q (i, p))(k := d)"
  by (simp_all add: fun_eq_iff)

lemma page_put:
  "(\<lambda>r' p'. sget_or d (sput (i, r, p) x m) (i, r', p')) =
     (\<lambda>r' p'. sget_or d m (i, r', p'))(r := (\<lambda>p'. sget_or d m (i, r, p'))(p := x))"
  "(\<lambda>r' p'. sget_or d (sdel (i, r, p) m) (i, r', p')) =
     (\<lambda>r' p'. sget_or d m (i, r', p'))(r := (\<lambda>p'. sget_or d m (i, r, p'))(p := d))"
  by (auto simp: fun_eq_iff)

lemma totals_other:
  "j \<noteq> i \<Longrightarrow> wf_storage m \<Longrightarrow> totals_of j (sput (i, r) st m) = totals_of j m"
  "j \<noteq> i \<Longrightarrow> wf_storage m \<Longrightarrow> totals_of j (sdel (i, r) m) = totals_of j m"
  using ssum_sput [of m "\<lambda>p. if fst (fst p) = j then rs_total (snd p) else 0" "(i, r)" st]
    ssum_sdel [of m "\<lambda>p. if fst (fst p) = j then rs_total (snd p) else 0" "(i, r)"]
  by (auto simp: totals_of_def split: option.splits)

lemma totals_put:
  "wf_storage m \<Longrightarrow> totals_of i (sput (i, r) st m) + (case sget m (i, r) of None \<Rightarrow> 0 | Some st \<Rightarrow> rs_total st) =
     totals_of i m + rs_total st"
  "wf_storage m \<Longrightarrow> totals_of i (sdel (i, r) m) + (case sget m (i, r) of None \<Rightarrow> 0 | Some st \<Rightarrow> rs_total st) =
     totals_of i m"
  using ssum_sput [of m "\<lambda>p. if fst (fst p) = i then rs_total (snd p) else 0" "(i, r)" st]
    ssum_sdel [of m "\<lambda>p. if fst (fst p) = i then rs_total (snd p) else 0" "(i, r)"]
  by (auto simp: totals_of_def split: option.splits)

lemma totals_ge: "(case sget m (i, r) of None \<Rightarrow> 0 | Some st \<Rightarrow> rs_total st) \<le> totals_of i m"
  using entry_value_le [where f = "\<lambda>p. if fst (fst p) = i then rs_total (snd p) else 0" and m = m and k = "(i, r)"]
  by (auto simp: totals_of_def split: option.splits)

lemma status_total: "rs_total (status_of s i r) = stotal (view s i) r"
  by (simp add: status_of_def stotal_def sget_or_def default_status_def split: option.splits)

text \<open>An operation on one collection.\<close>

lemma members_inv_step:
  assumes "members_inv cfg s" and "wf_storage (RingKeysStatus s')" and "\<And>j. j \<noteq> i \<Longrightarrow> view s' j = view s j"
    and "coll_inv cfg (view s i) \<Longrightarrow> coll_inv cfg (view s' i)"
  shows "members_inv cfg s'"
  unfolding members_inv_def
proof (intro conjI allI)
  fix j
  show "coll_inv cfg (view s' j)"
    using assms by (cases "j = i") (auto simp: members_inv_def)
qed (use assms(2) in simp)

lemma members_invD: "members_inv cfg s \<Longrightarrow> coll_inv cfg (view s i)" "members_inv cfg s \<Longrightarrow> wf_storage (RingKeysStatus s)"
  by (simp_all add: members_inv_def)

lemma members_inv_frame:
  "members_inv cfg s \<Longrightarrow> wf_storage (RingKeysStatus s') \<Longrightarrow> (\<And>j. view s' j = view s j) \<Longrightarrow> members_inv cfg s'"
  by (simp add: members_inv_def)

subsection \<open>Waiting members\<close>

lemma push_view:
  assumes "push_to_onboarding_queue cfg now i key s = Inr s'"
  obtains t q where
    "view s' i = (view s i)\<lparr>vqueue := (vqueue (view s i))(t := q), vmem := (vmem (view s i))(key \<mapsto> Onboarding t now),
       vspan := (fst (queue_pages s i), t)\<rparr>"
    "(t = snd (queue_pages s i) \<and> q = queue_of s i t @ [key] \<and> length (queue_of s i t) < OnboardingQueuePageSize cfg) \<or>
     (t = next_page (snd (queue_pages s i)) \<and> t \<noteq> fst (queue_pages s i) \<and> q = [key])"
    "\<And>j. j \<noteq> i \<Longrightarrow> view s' j = view s j" "RingKeysStatus s' = RingKeysStatus s"
    "\<And>k. k \<noteq> key \<Longrightarrow> sget (Members s') (i, k) = sget (Members s) (i, k)" "Collections s' = Collections s"
proof -
  obtain h t0 where sp: "queue_pages s i = (h, t0)" by fastforce
  have "\<exists>t q. s' = members_deposit (MemberAdded key)
        (s\<lparr>QueuePageIndices := sput i (h, t) (QueuePageIndices s),
           OnboardingQueue := sput (i, t) q (OnboardingQueue s),
           Members := sput (i, key) (Onboarding t now) (Members s)\<rparr>) \<and>
      ((t = t0 \<and> q = queue_of s i t @ [key] \<and> length (queue_of s i t) < OnboardingQueuePageSize cfg) \<or>
       (t = next_page t0 \<and> t \<noteq> h \<and> q = [key]))"
    using assms sp by (auto simp: push_to_onboarding_queue_def try_push_def Let_def split: if_splits)
  then obtain t q where s': "s' = members_deposit (MemberAdded key)
        (s\<lparr>QueuePageIndices := sput i (h, t) (QueuePageIndices s),
           OnboardingQueue := sput (i, t) q (OnboardingQueue s),
           Members := sput (i, key) (Onboarding t now) (Members s)\<rparr>)"
    and tq: "(t = t0 \<and> q = queue_of s i t @ [key] \<and> length (queue_of s i t) < OnboardingQueuePageSize cfg) \<or>
       (t = next_page t0 \<and> t \<noteq> h \<and> q = [key])" by blast
  show thesis
  proof (rule that [of t q])
    show "view s' i = (view s i)\<lparr>vqueue := (vqueue (view s i))(t := q), vmem := (vmem (view s i))(key \<mapsto> Onboarding t now),
       vspan := (fst (queue_pages s i), t)\<rparr>"
      by (rule cview.equality) (simp_all add: s' sp queue_of_def fun_upd_def)
    show "\<And>j. j \<noteq> i \<Longrightarrow> view s' j = view s j" by (simp add: s')
    show "RingKeysStatus s' = RingKeysStatus s" "Collections s' = Collections s"
      "\<And>k. k \<noteq> key \<Longrightarrow> sget (Members s') (i, k) = sget (Members s) (i, k)"
      by (simp_all add: s' members_deposit_def)
  qed (use tq sp in auto)
qed

lemma push_inv:
  assumes inv: "members_inv cfg s" and ok: "push_to_onboarding_queue cfg now i key s = Inr s'"
    and qps: "0 < OnboardingQueuePageSize cfg" and live: "scontains (Collections s) i"
    and out: "sget (Members s) (i, key) = None \<or> sget (Members s) (i, key) = Some SuspendedPosition"
  shows "members_inv cfg s'"
  using ok
proof (rule push_view)
  fix t q
  assume v: "view s' i = (view s i)\<lparr>vqueue := (vqueue (view s i))(t := q), vmem := (vmem (view s i))(key \<mapsto> Onboarding t now),
       vspan := (fst (queue_pages s i), t)\<rparr>"
    and tq: "(t = snd (queue_pages s i) \<and> q = queue_of s i t @ [key] \<and> length (queue_of s i t) < OnboardingQueuePageSize cfg) \<or>
     (t = next_page (snd (queue_pages s i)) \<and> t \<noteq> fst (queue_pages s i) \<and> q = [key])"
    and frame: "\<And>j. j \<noteq> i \<Longrightarrow> view s' j = view s j" "RingKeysStatus s' = RingKeysStatus s"
  show ?thesis
  proof (rule members_inv_step [OF inv _ frame(1)])
    show "coll_inv cfg (view s' i)" if "coll_inv cfg (view s i)"
      unfolding v
      by (rule push_step [OF that _ qps, where ?t0.0 = "snd (queue_pages s i)"])
         (use out tq live in \<open>auto simp: scontains_def\<close>)
  qed (use members_invD(2) [OF inv] frame(2) in simp_all)
qed

lemma add_loop_inv:
  assumes "members_inv cfg s" and "add_loop cfg now i ms s = Inr s'" and "0 < OnboardingQueuePageSize cfg"
    and "scontains (Collections s) i"
  shows "members_inv cfg s'"
  using assms
proof (induction ms arbitrary: s)
  case (Cons m ms)
  then obtain s1 where p: "push_to_onboarding_queue cfg now i m s = Inr s1" and rest: "add_loop cfg now i ms s1 = Inr s'"
    and out: "sget (Members s) (i, m) = None \<or> sget (Members s) (i, m) = Some SuspendedPosition"
    by (auto split: option.splits if_splits elim: suspended.elims)
  have "Collections s1 = Collections s" using p by (rule push_view)
  then show ?case
    using Cons.IH [OF push_inv [OF Cons.prems(1) p Cons.prems(3,4) out] rest Cons.prems(3)] Cons.prems(4) by simp
qed simp

lemma requeue_loop_result:
  assumes "requeue_loop i n ks s = Inr s'"
  shows "\<exists>M. s' = s\<lparr>Members := M\<rparr> \<and> (\<forall>j k. sget M (j, k) = (if j = i \<and> k \<in> set ks
    then (case sget (Members s) (i, k) of Some (Onboarding _ since) \<Rightarrow> Some (Onboarding n since) | x \<Rightarrow> x)
    else sget (Members s) (j, k)))"
  using assms
proof (induction ks arbitrary: s)
  case Nil
  then show ?case by (intro exI [of _ "Members s"]) simp
next
  case (Cons a ks)
  then obtain pos where pos: "sget (Members s) (i, a) = Some pos"
    and rest: "requeue_loop i n ks (case pos of Onboarding _ since \<Rightarrow> s\<lparr>Members := sput (i, a) (Onboarding n since) (Members s)\<rparr> | _ \<Rightarrow> s) = Inr s'"
    by auto
  from Cons.IH [OF rest] pos show ?case
    by (auto split: RingPosition.splits)
qed

lemma merge_queue_pages_inv:
  assumes inv: "members_inv cfg s" and auth: "ensure_can_merge_queue_pages cfg i h h' s = Inr ()"
    and ok: "merge_queue_pages_authorized cfg i h h' s = Inr s'" and live: "scontains (Collections s) i"
  shows "members_inv cfg s'"
proof -
  obtain t where sp: "queue_pages s i = (h, t)" "h \<noteq> t" "h' = next_page h"
    and fit: "length (queue_of s i h) + length (queue_of s i h') \<le> OnboardingQueuePageSize cfg"
    using auth by (auto simp: ensure_can_merge_queue_pages_def should_merge_queue_pages_def Let_def split: if_splits prod.splits)
  from ok obtain s1 where r: "requeue_loop i h' (queue_of s i h) s = Inr s1"
    and s': "s' = s1\<lparr>OnboardingQueue := sput (i, h') (queue_of s i h @ queue_of s i h') (sdel (i, h) (OnboardingQueue s1)),
        QueuePageIndices := sput i (h', snd (queue_pages s1 i)) (QueuePageIndices s1)\<rparr>"
    by (auto simp: merge_queue_pages_authorized_def merge_queue_pages_def)
  obtain M where s1: "s1 = s\<lparr>Members := M\<rparr>" and M: "\<And>j k. sget M (j, k) = (if j = i \<and> k \<in> set (queue_of s i h)
      then (case sget (Members s) (i, k) of Some (Onboarding _ since) \<Rightarrow> Some (Onboarding h' since) | x \<Rightarrow> x)
      else sget (Members s) (j, k))"
    using requeue_loop_result [OF r] by blast
  have sp1: "queue_pages s1 i = (h, t)" using sp by (simp add: s1 queue_pages_def)
  have hh: "h \<noteq> h'" using in_span_next_head(4) [of h t] queue_invD(5) [OF coll_invD(1) [OF members_invD(1) [OF inv, of i]]] sp
    by auto
  show ?thesis
  proof (rule members_inv_step [OF inv, of _ i])
    show "view s' j = view s j" if "j \<noteq> i" for j
      by (rule cview.equality) (use that in \<open>simp_all add: s' s1 M queue_of_def\<close>)
    assume c: "coll_inv cfg (view s i)"
    have "view s' i = (view s i)\<lparr>
       vqueue := (vqueue (view s i))(h := [], next_page h := vqueue (view s i) h @ vqueue (view s i) (next_page h)),
       vmem := (\<lambda>k. if k \<in> set (vqueue (view s i) h)
          then (case vmem (view s i) k of Some (Onboarding _ since) \<Rightarrow> Some (Onboarding (next_page h) since) | x \<Rightarrow> x)
          else vmem (view s i) k),
       vspan := (next_page h, t)\<rparr>"
      by (rule cview.equality)
         (use sp sp1 hh in \<open>simp_all add: s' s1 M fun_eq_iff queue_of_def split: option.splits RingPosition.splits\<close>)
    then show "coll_inv cfg (view s' i)"
      using merge_pages_step [OF c _ _ sp(2)] sp fit live by (auto simp: scontains_def)
  qed (use members_invD(2) [OF inv] in \<open>simp add: s' s1\<close>)
qed

subsection \<open>Suspensions\<close>

lemma unqueue_one:
  assumes inv: "coll_inv cfg v" and known: "vinfo v \<noteq> None" and k: "vmem v k = Some (Onboarding p t)"
    and sp: "span_ok sp" "\<And>q. ((vqueue v)(p := remove1 k (vqueue v p))) q \<noteq> [] \<Longrightarrow> in_span sp q"
  shows "coll_inv cfg (v\<lparr>vqueue := (vqueue v)(p := remove1 k (vqueue v p)), vmem := (vmem v)(k \<mapsto> SuspendedPosition), vspan := sp\<rparr>)"
proof -
  note Q = queue_invD [OF coll_invD(1) [OF inv]]
  have mem: "(vmem v)(k \<mapsto> SuspendedPosition) = (\<lambda>k'. if k' \<in> {k} then Some SuspendedPosition else vmem v k')"
    by (simp add: fun_eq_iff)
  show ?thesis
    unfolding mem
  proof (rule unqueue_step [OF inv])
    show "set (((vqueue v)(p := remove1 k (vqueue v p))) q) = set (vqueue v q) - {k}" for q
      using Q(1) [of k q] Q(2) [of p] k by auto
    show "length (((vqueue v)(p := remove1 k (vqueue v p))) q) \<le> OnboardingQueuePageSize cfg" for q
      using Q(3) [of q] by (auto simp: length_remove1)
    show "distinct (((vqueue v)(p := remove1 k (vqueue v p))) q)" for q
      using Q(2) [of q] by auto
  qed (use known k sp in auto)
qed

lemma suspend_member_inv:
  assumes inv: "members_inv cfg s" and ok: "suspend_member cfg i key s = Inr s'"
    and live: "sget (Collections s) i = Some info" "ci_mode info = FlexibleRings" and cap: "0 < flexible_ring_capacity cfg"
  shows "members_inv cfg s'" and "Collections s' = Collections s"
proof -
  obtain pos where pos: "sget (Members s) (i, key) = Some pos" using ok by (auto simp: suspend_member_def)
  have "members_inv cfg s' \<and> Collections s' = Collections s"
  proof (cases pos)
    case (Included r p j)
    then obtain js where js: "insert_suspension j (pending_of s i r) = Some js"
      and s': "s' = s\<lparr>PendingSuspensions := sput (i, r) js (PendingSuspensions s),
                      Members := sput (i, key) SuspendedPosition (Members s)\<rparr>"
      using ok pos by (auto simp: suspend_member_def Let_def)
    have "members_inv cfg s'"
    proof (rule members_inv_step [OF inv, of _ i])
      assume c: "coll_inv cfg (view s i)"
      have "view s' i = (view s i)\<lparr>vpend := (vpend (view s i))(r \<mapsto> js), vmem := (vmem (view s i))(key \<mapsto> SuspendedPosition)\<rparr>"
        by (rule cview.equality) (simp_all add: s' fun_upd_def)
      then show "coll_inv cfg (view s' i)"
        using suspend_step [OF c _ live(2) cap, of key r p j js] live pos Included js
        by (simp add: pending_of_def sget_or_def)
    qed (use members_invD(2) [OF inv] in \<open>auto simp: s'\<close>)
    then show ?thesis by (simp add: s')
  next
    case (Onboarding p t)
    note Q = queue_invD [OF coll_invD(1) [OF members_invD(1) [OF inv, of i]]]
    have "key \<in> set (queue_of s i p)" using Q(1) [of key p] pos Onboarding by simp
    then have s': "s' = s\<lparr>OnboardingQueue := sput (i, p) (remove1 key (queue_of s i p)) (OnboardingQueue s),
                      Members := sput (i, key) SuspendedPosition (Members s)\<rparr>"
      using ok pos Onboarding by (simp add: suspend_member_def Let_def)
    have "members_inv cfg s'"
    proof (rule members_inv_step [OF inv, of _ i])
      assume c: "coll_inv cfg (view s i)"
      have "view s' i = (view s i)\<lparr>vqueue := (vqueue (view s i))(p := remove1 key (vqueue (view s i) p)),
         vmem := (vmem (view s i))(key \<mapsto> SuspendedPosition), vspan := queue_pages s i\<rparr>"
        by (rule cview.equality) (simp_all add: s' fun_upd_def queue_of_def)
      moreover have "((vqueue (view s i))(p := remove1 key (vqueue (view s i) p))) q \<noteq> [] \<Longrightarrow> in_span (queue_pages s i) q" for q
        using Q(4) [of q] by (cases "queue_of s i q = []") (auto split: if_splits)
      ultimately show "coll_inv cfg (view s' i)"
        using unqueue_one [OF c, of key p t "queue_pages s i"] live pos Onboarding Q(5) by simp
    qed (use members_invD(2) [OF inv] in \<open>auto simp: s' queue_of_def\<close>)
    then show ?thesis by (simp add: s')
  next
    case SuspendedPosition
    then have s': "s' = s\<lparr>Members := sput (i, key) SuspendedPosition (Members s)\<rparr>"
      using ok pos by (simp add: suspend_member_def Let_def)
    have "view s' j = view s j" for j
      by (rule cview.equality) (use pos SuspendedPosition in \<open>auto simp: s'\<close>)
    then show ?thesis using members_inv_frame [OF inv, of s'] members_invD(2) [OF inv] by (simp add: s')
  qed
  then show "members_inv cfg s'" "Collections s' = Collections s" by simp_all
qed

lemma suspend_loop_inv:
  assumes "members_inv cfg s" and "suspend_loop cfg i keys s = Inr s'"
    and "sget (Collections s) i = Some info" "ci_mode info = FlexibleRings" and "0 < flexible_ring_capacity cfg"
  shows "members_inv cfg s'"
  using assms
proof (induction keys arbitrary: s)
  case (Cons k ks)
  then obtain s1 where s1: "suspend_member cfg i k s = Inr s1" "suspend_loop cfg i ks s1 = Inr s'" by auto
  note suspend_member_inv [OF Cons.prems(1) s1(1) Cons.prems(3-5)]
  then show ?case using Cons.IH [OF _ s1(2) _ Cons.prems(4,5)] Cons.prems(3) by simp
qed simp

subsection \<open>Including members\<close>

lemma last_page:
  assumes "0 < cap"
  shows "page cap L (length L div cap) = drop (length L div cap * cap) L"
    and "length (drop (length L div cap * cap) L) = length L mod cap"
proof -
  have "length L - length L div cap * cap = length L mod cap"
    by (metis minus_div_mult_eq_mod)
  then show "length (drop (length L div cap * cap) L) = length L mod cap" by simp
  then show "page cap L (length L div cap) = drop (length L div cap * cap) L"
    using mod_less_divisor [OF assms, of "length L"] by (simp add: page_def)
qed

lemma available_ring_live:
  assumes inv: "members_inv cfg s" and live: "sget (Collections s) i = Some info" and cap: "0 < flexible_ring_capacity cfg"
  obtains L where "length L = stotal (view s i) (current_ring s i)"
    and "\<And>p. keys_of s i (current_ring s i) p = page (flexible_ring_capacity cfg) L p"
    and "length L < ring_capacity cfg (ci_ring_size info)"
    and "available_ring cfg i (ring_capacity cfg (ci_ring_size info)) s =
      ((current_ring s i, length L div flexible_ring_capacity cfg,
        drop (length L div flexible_ring_capacity cfg * flexible_ring_capacity cfg) L,
        status_of s i (current_ring s i)), s)"
proof -
  let ?cap = "flexible_ring_capacity cfg" and ?c = "current_ring s i"
  note c = members_invD(1) [OF inv, of i]
  note LI = live_invD [OF coll_invD(5) [OF c], of info]
  obtain L where L: "length L = stotal (view s i) ?c" "\<And>p. keys_of s i ?c p = page ?cap L p"
    using pages_invD(1) [OF coll_invD(4) [OF c], of ?c] LI(8) live by auto
  have lt: "length L < ring_capacity cfg (ci_ring_size info)" using LI(3) live L(1) by simp
  have "length L div ?cap * ?cap + length L mod ?cap = length L" by (simp add: div_mult_mod_eq)
  then have "available_ring cfg i (ring_capacity cfg (ci_ring_size info)) s =
      ((?c, length L div ?cap, drop (length L div ?cap * ?cap) L, status_of s i ?c), s)"
    using lt L last_page [OF cap, of L] by (simp add: available_ring_def status_total Let_def del: length_drop)
  then show thesis using that L lt by blast
qed

lemma append_positions_Cons:
  assumes "k \<notin> set ks"
  shows "append_positions cap r n (k # ks) m =
    append_positions cap r (Suc n) ks (m(k \<mapsto> Included r (n div cap) (n mod cap)))"
proof
  fix x
  have upt: "[n..<n + length (k # ks)] = n # [Suc n..<Suc n + length ks]" by (simp add: upt_rec)
  show "append_positions cap r n (k # ks) m x =
      append_positions cap r (Suc n) ks (m(k \<mapsto> Included r (n div cap) (n mod cap))) x"
  proof (cases "x = k")
    case True
    have "append_positions cap r n (k # ks) m k = Some (Included r (n div cap) (n mod cap))"
      unfolding append_positions_def upt by simp
    then show ?thesis using True append_positions_out [OF assms] by simp
  next
    case False
    then show ?thesis unfolding append_positions_def upt fun_upd_other [OF False] by (simp del: upt_Suc)
  qed
qed

lemma append_positions_cong:
  assumes "\<And>k. k \<notin> set ks \<Longrightarrow> m k = m' k"
  shows "append_positions cap r n ks m = append_positions cap r n ks m'"
proof
  fix k
  show "append_positions cap r n ks m k = append_positions cap r n ks m' k"
  proof (cases "k \<in> set ks")
    case True
    then obtain x where "map_of (zip ks [n..<n + length ks]) k = Some x"
      using map_of_zip_is_Some [of ks "[n..<n + length ks]" k] by auto
    then show ?thesis by (simp add: append_positions_def)
  qed (simp add: append_positions_out assms)
qed

lemma onboard_loop_step:
  assumes "scontains (Members s) (i, k)" and "length keys < cap" and "cap = flexible_ring_capacity cfg"
  shows "length keys + 1 \<ge> cap \<Longrightarrow> onboard_loop cfg i r p keys (k # ks) s =
      (let s2 = s\<lparr>Members := sput (i, k) (Included r p (length keys)) (Members s),
                 RingKeys := sput (i, r, p) (keys @ [k]) (RingKeys s)\<rparr>
       in onboard_loop cfg i r (saturating_inc p) (keys_of s2 i r (saturating_inc p)) ks s2)"
    and "\<not> length keys + 1 \<ge> cap \<Longrightarrow> onboard_loop cfg i r p keys (k # ks) s =
      onboard_loop cfg i r p (keys @ [k]) ks (s\<lparr>Members := sput (i, k) (Included r p (length keys)) (Members s)\<rparr>)"
  using assms by (simp_all add: try_push_def Let_def)

text \<open>
  The loop of \<open>onboard_members\<close> appends to the list of the ring, page by page: the keys are stored but for
  the last page, which it returns.
\<close>

definition onboarded :: "nat \<Rightarrow> coll_id \<Rightarrow> nat \<Rightarrow> 'm list \<Rightarrow> ('m \<Rightarrow> RingPosition option) \<Rightarrow>
  ('m, 'root, 'inter) members_state \<Rightarrow> ('m, 'root, 'inter) members_state \<Rightarrow> bool" where
  "onboarded cap i r L m s s' \<longleftrightarrow> (\<exists>M K. s' = s\<lparr>Members := M, RingKeys := K\<rparr>) \<and>
    (\<forall>q. q \<noteq> length L div cap \<longrightarrow> keys_of s' i r q = page cap L q) \<and>
    (\<forall>j r' q. (j, r') \<noteq> (i, r) \<longrightarrow> keys_of s' j r' q = keys_of s j r' q) \<and>
    (\<forall>j k. sget (Members s') (j, k) = (if j = i then m k else sget (Members s) (j, k)))"

lemma onboarded_trans:
  assumes "onboarded cap i r L m t s'" and "\<exists>M K. t = s\<lparr>Members := M, RingKeys := K\<rparr>"
    and "\<And>j r' q. (j, r') \<noteq> (i, r) \<Longrightarrow> keys_of t j r' q = keys_of s j r' q"
    and "\<And>j k. j \<noteq> i \<Longrightarrow> sget (Members t) (j, k) = sget (Members s) (j, k)"
  shows "onboarded cap i r L m s s'"
  unfolding onboarded_def
proof (intro conjI allI impI)
  show "\<exists>M K. s' = s\<lparr>Members := M, RingKeys := K\<rparr>"
    using assms(1,2) unfolding onboarded_def by fastforce
  show "keys_of s' j r' q = keys_of s j r' q" if "(j, r') \<noteq> (i, r)" for j r' q
    using assms(1) assms(3) [OF that] that unfolding onboarded_def by simp
  show "sget (Members s') (j, k) = (if j = i then m k else sget (Members s) (j, k))" for j k
    using assms(1) assms(4) [of j k] unfolding onboarded_def by simp
qed (use assms(1) in \<open>simp add: onboarded_def\<close>)

lemma page_snoc_other:
  assumes "0 < cap" and "q \<noteq> length L div cap"
  shows "page cap (L @ [k]) q = page cap L q"
proof -
  have "q < length L div cap \<or> length L div cap < q" using assms(2) by linarith
  then show ?thesis
  proof
    assume "q < length L div cap"
    then have "q * cap + cap \<le> length L div cap * cap" using mult_le_mono1 [of "Suc q" "length L div cap" cap] by simp
    also have "\<dots> \<le> length L" by (rule div_times_less_eq_dividend)
    finally show ?thesis by (simp add: page_def)
  next
    assume "length L div cap < q"
    then have "Suc (length L div cap) * cap \<le> q * cap" using mult_le_mono1 [of "Suc (length L div cap)" q cap] by simp
    then have "length L < q * cap" using dividend_less_div_times [OF assms(1), of "length L"] by simp
    then show ?thesis by (simp add: page_def)
  qed
qed

lemma onboard_loop_one:
  assumes cap: "0 < cap" "cap = flexible_ring_capacity cfg" and member: "scontains (Members s) (i, k)"
    and pages: "\<And>q. q \<noteq> length L div cap \<Longrightarrow> keys_of s i r q = page cap L q" and small: "length L < u32_max"
  obtains t where "onboard_loop cfg i r (length L div cap) (drop (length L div cap * cap) L) (k # ks) s =
      onboard_loop cfg i r (length (L @ [k]) div cap) (drop (length (L @ [k]) div cap * cap) (L @ [k])) ks t"
    and "onboarded cap i r (L @ [k]) ((\<lambda>x. sget (Members s) (i, x))(k \<mapsto> Included r (length L div cap) (length L mod cap))) s t"
proof -
  let ?p = "length L div cap" and ?L = "L @ [k]"
  let ?s1 = "s\<lparr>Members := sput (i, k) (Included r ?p (length L mod cap)) (Members s)\<rparr>"
  have len: "length (drop (?p * cap) L) = length L mod cap" using last_page(2) [OF cap(1)] .
  have lt: "length L mod cap < cap" using cap(1) by simp
  have dr: "drop (?p * cap) L @ [k] = drop (?p * cap) ?L" by (simp add: div_times_less_eq_dividend)
  show thesis
  proof (cases "length L mod cap + 1 \<ge> cap")
    case True
    have "?p * cap + length L mod cap = length L" by (rule div_mult_mod_eq)
    then have "length L + 1 = ?p * cap + cap" using True lt by linarith
    then have eq: "length ?L = Suc ?p * cap" by simp
    have full: "length ?L div cap = Suc ?p" unfolding eq using cap(1) by simp
    have rest: "drop (length ?L div cap * cap) ?L = []" unfolding full eq [symmetric] by simp
    have "?p < u32_max" by (rule le_less_trans [OF div_le_dividend small])
    then have inc: "saturating_inc ?p = Suc ?p" by (simp add: saturating_inc_def)
    let ?s2 = "?s1\<lparr>RingKeys := sput (i, r, ?p) (drop (?p * cap) ?L) (RingKeys s)\<rparr>"
    have nxt: "keys_of ?s2 i r (Suc ?p) = []"
      using pages [of "Suc ?p"] page_beyond [of L "Suc ?p" cap] dividend_less_div_times [OF cap(1), of "length L"]
      by (simp add: keys_of_def)
    have here: "page cap ?L ?p = drop (?p * cap) ?L"
      using True lt len by (simp add: page_def dr [symmetric])
    have "onboarded cap i r ?L ((\<lambda>x. sget (Members s) (i, x))(k \<mapsto> Included r ?p (length L mod cap))) s ?s2"
      unfolding onboarded_def
    proof (intro conjI allI impI)
      show "keys_of ?s2 i r q = page cap ?L q" if "q \<noteq> length ?L div cap" for q
        using that pages [of q] here page_snoc_other [OF cap(1), of q L k] by (cases "q = ?p") (simp_all add: keys_of_def)
    qed (auto simp: keys_of_def)
    moreover have "onboard_loop cfg i r ?p (drop (?p * cap) L) (k # ks) s =
        onboard_loop cfg i r (Suc ?p) [] ks ?s2"
      using onboard_loop_step(1) [OF member _ cap(2), of "drop (?p * cap) L" r ?p ks, unfolded len inc dr Let_def nxt, OF lt True] .
    ultimately show thesis using that [of ?s2] unfolding full rest [unfolded full] by blast
  next
    case False
    then have same: "length ?L div cap = ?p"
      using div_Suc [of "length L" cap] mod_Suc [of "length L" cap] by simp
    have "onboarded cap i r ?L ((\<lambda>x. sget (Members s) (i, x))(k \<mapsto> Included r ?p (length L mod cap))) s ?s1"
      unfolding onboarded_def same
    proof (intro conjI allI impI)
      show "keys_of ?s1 i r q = page cap ?L q" if "q \<noteq> ?p" for q
        using that pages [of q] page_snoc_other [OF cap(1) that, of k] by (simp add: keys_of_def)
      show "\<exists>M K. ?s1 = s\<lparr>Members := M, RingKeys := K\<rparr>"
        by (intro exI [of _ "Members ?s1"] exI [of _ "RingKeys s"]) simp
    qed (auto simp: keys_of_def)
    moreover have "onboard_loop cfg i r ?p (drop (?p * cap) L) (k # ks) s =
        onboard_loop cfg i r ?p (drop (?p * cap) ?L) ks ?s1"
      using onboard_loop_step(2) [OF member _ cap(2), of "drop (?p * cap) L" r ?p ks, unfolded len dr, OF lt False] .
    ultimately show thesis using that [of ?s1] unfolding same by blast
  qed
qed

lemma onboard_loop_result:
  assumes cap: "0 < cap" "cap = flexible_ring_capacity cfg" and "distinct ks"
    and "\<And>k. k \<in> set ks \<Longrightarrow> scontains (Members s) (i, k)"
    and "\<And>q. q \<noteq> length L div cap \<Longrightarrow> keys_of s i r q = page cap L q" and "length L + length ks \<le> u32_max"
  shows "\<exists>s'. onboard_loop cfg i r (length L div cap) (drop (length L div cap * cap) L) ks s =
      Inr (length (L @ ks) div cap, drop (length (L @ ks) div cap * cap) (L @ ks), s') \<and>
    onboarded cap i r (L @ ks) (append_positions cap r (length L) ks (\<lambda>k. sget (Members s) (i, k))) s s'"
  using assms(3-6)
proof (induction ks arbitrary: L s)
  case Nil
  show ?case
    by (intro exI [of _ s] conjI) (use Nil in \<open>auto simp: onboarded_def append_positions_def keys_of_def intro!: exI [of _ "Members s"] exI [of _ "RingKeys s"]\<close>)
next
  case (Cons k ks)
  let ?m = "(\<lambda>x. sget (Members s) (i, x))(k \<mapsto> Included r (length L div cap) (length L mod cap))"
  obtain t where t: "onboard_loop cfg i r (length L div cap) (drop (length L div cap * cap) L) (k # ks) s =
      onboard_loop cfg i r (length (L @ [k]) div cap) (drop (length (L @ [k]) div cap * cap) (L @ [k])) ks t"
    "onboarded cap i r (L @ [k]) ?m s t"
    using onboard_loop_one [OF cap, of s i k L r ks] Cons.prems by auto
  have mt: "(\<lambda>x. sget (Members t) (i, x)) = ?m" using t(2) by (simp add: onboarded_def fun_eq_iff)
  have "\<exists>s'. onboard_loop cfg i r (length (L @ [k]) div cap) (drop (length (L @ [k]) div cap * cap) (L @ [k])) ks t =
      Inr (length ((L @ [k]) @ ks) div cap, drop (length ((L @ [k]) @ ks) div cap * cap) ((L @ [k]) @ ks), s') \<and>
    onboarded cap i r ((L @ [k]) @ ks) (append_positions cap r (length (L @ [k])) ks (\<lambda>k. sget (Members t) (i, k))) t s'"
  proof (rule Cons.IH)
    show "scontains (Members t) (i, x)" if "x \<in> set ks" for x
      using Cons.prems(2) [of x] that fun_cong [OF mt, of x] by (simp add: scontains_def split: if_splits)
    show "keys_of t i r q = page cap (L @ [k]) q" if "q \<noteq> length (L @ [k]) div cap" for q
      using t(2) that unfolding onboarded_def by blast
  qed (use Cons.prems in simp_all)
  then obtain s' where s': "onboard_loop cfg i r (length L div cap) (drop (length L div cap * cap) L) (k # ks) s =
      Inr (length (L @ k # ks) div cap, drop (length (L @ k # ks) div cap * cap) (L @ k # ks), s')"
    "onboarded cap i r (L @ k # ks) (append_positions cap r (length (L @ [k])) ks ?m) t s'"
    unfolding t(1) mt append_assoc append_Cons append_Nil by blast
  have m: "append_positions cap r (length (L @ [k])) ks ?m = append_positions cap r (length L) (k # ks) (\<lambda>k. sget (Members s) (i, k))"
    using append_positions_Cons [of k ks cap r "length L"] Cons.prems(1) by simp
  have "onboarded cap i r (L @ k # ks) (append_positions cap r (length L) (k # ks) (\<lambda>k. sget (Members s) (i, k))) s s'"
    by (rule onboarded_trans [OF s'(2) [unfolded m]]) (use t(2) in \<open>auto simp: onboarded_def\<close>)
  with s'(1) show ?case by blast
qed

end
