(* ===== verification/Members_Rings.thy ===== *)
theory Members_Rings
  imports Members_Inv
begin

text \<open>
  The operations of the members pallet that change rings keep the invariant: including members from the
  queue, removing suspended keys, merging, building, and deleting rings and collections.
\<close>

subsection \<open>Including members from the queue\<close>

text \<open>What \<open>onboard_members\<close> reads of the queue, takes from it and leaves in it.\<close>

definition wanted :: "nat \<Rightarrow> nat \<times> nat \<Rightarrow> (nat \<Rightarrow> 'm list) \<Rightarrow> nat \<times> 'm list" where
  "wanted open_slots ht q =
     (if length (q (fst ht)) < open_slots \<and> fst ht \<noteq> snd ht
      then (next_page (fst ht), q (fst ht) @ q (next_page (fst ht))) else (fst ht, q (fst ht)))"

lemma wanted_distinct:
  assumes "queue_inv qps v" and "wanted n (vspan v) (vqueue v) = (head, all)"
  shows "distinct all" and "k \<in> set all \<Longrightarrow> \<exists>p t. vmem v k = Some (Onboarding p t)"
proof -
  obtain h t where sp: "vspan v = (h, t)" by fastforce
  note Q = queue_invD [OF assms(1)]
  have "next_page h \<noteq> h" if "h \<noteq> t" using in_span_next_head(4) [of h t] Q(5) sp that by simp
  moreover have "set (vqueue v h) \<inter> set (vqueue v p) = {}" if "p \<noteq> h" for p
    using Q(1) that by fastforce
  ultimately show "distinct all"
    using assms(2) Q(2) by (auto simp: wanted_def sp split: if_splits)
  show "k \<in> set all \<Longrightarrow> \<exists>p t. vmem v k = Some (Onboarding p t)"
    using assms(2) Q(1) by (auto simp: wanted_def split: if_splits)
qed

lemma take_from_queue:
  assumes inv: "coll_inv cfg v" and known: "vinfo v \<noteq> None"
    and w: "wanted open_slots (vspan v) (vqueue v) = (head, all)" and n: "n = min (length all) open_slots"
    and sp: "vspan v = (h, t)"
  shows "coll_inv cfg (v\<lparr>vqueue := (vqueue v)(h := [], head := drop n all),
      vmem := (\<lambda>k. if k \<in> set (take n all) then Some SuspendedPosition else vmem v k),
      vspan := (if drop n all = [] \<and> head \<noteq> t then next_page head else head, t)\<rparr>)"
    and "length (drop n all) \<le> OnboardingQueuePageSize cfg"
proof -
  note Q = queue_invD [OF coll_invD(1) [OF inv]]
  note W = wanted_distinct [OF coll_invD(1) [OF inv] w]
  have ok: "span_ok (h, t)" using Q(5) sp by simp
  let ?two = "length (vqueue v h) < open_slots \<and> h \<noteq> t"
  have head: "head = (if ?two then next_page h else h)"
    and all: "all = (if ?two then vqueue v h @ vqueue v (next_page h) else vqueue v h)"
    using w sp by (auto simp: wanted_def split: if_splits)
  have rest: "drop n all = drop (if ?two then n - length (vqueue v h) else n) (vqueue v head)"
    unfolding head all using n by (auto simp: all)
  show fits: "length (drop n all) \<le> OnboardingQueuePageSize cfg"
    unfolding rest using Q(3) [of head] by simp
  have inhead: "in_span (h, t) head" "span_ok (head, t)" "in_span (head, t) head"
    using in_span_next_head [OF ok] in_span_ends [OF ok] ok by (auto simp: head)
  have other: "k \<in> set (vqueue v p) \<Longrightarrow> k \<in> set (vqueue v p') \<Longrightarrow> p' = p" for k p p' using Q(1) by fastforce
  have split: "set (drop n all) = set all - set (take n all)"
    using W(1) by (metis Diff_cancel Diff_disjoint Un_Diff Un_Diff_Int append_take_drop_id distinct_append set_append sup_bot.right_neutral Int_commute Diff_triv)
  show "coll_inv cfg (v\<lparr>vqueue := (vqueue v)(h := [], head := drop n all),
      vmem := (\<lambda>k. if k \<in> set (take n all) then Some SuspendedPosition else vmem v k),
      vspan := (if drop n all = [] \<and> head \<noteq> t then next_page head else head, t)\<rparr>)"
  proof (rule unqueue_step [OF inv])
    fix p
    have front: "set (vqueue v h) \<subseteq> set (take n all)" if ?two
      using that n by (auto simp: all)
    have sub: "set (take n all) \<subseteq> set (vqueue v h) \<union> set (vqueue v head)"
      using set_take_subset [of n all] by (auto simp: all head split: if_splits)
    show "set (((vqueue v)(h := [], head := drop n all)) p) = set (vqueue v p) - set (take n all)"
    proof (cases "p = head")
      case True
      then show ?thesis using front split other [of _ h head] by (auto simp: all head split: if_splits)
    next
      case False
      then show ?thesis using front sub other by (auto simp: head split: if_splits)
    qed
    show "distinct (((vqueue v)(h := [], head := drop n all)) p)" using Q(2) W(1) by simp
    show "length (((vqueue v)(h := [], head := drop n all)) p) \<le> OnboardingQueuePageSize cfg" using Q(3) fits by simp
  next
    show "span_ok (if drop n all = [] \<and> head \<noteq> t then next_page head else head, t)"
      using in_span_next_head(2) inhead(2) by simp
  next
    fix p assume p: "((vqueue v)(h := [], head := drop n all)) p \<noteq> []"
    have "in_span (head, t) p"
    proof (cases "p = head")
      case False
      then have "in_span (h, t) p" "p \<noteq> h" using p Q(4) [of p] sp by (auto split: if_splits)
      then show ?thesis using in_span_next_head(1) [OF ok, of p] by (auto simp: head)
    qed (use inhead in simp)
    then show "in_span (if drop n all = [] \<and> head \<noteq> t then next_page head else head, t) p"
      using p in_span_next_head(1) [OF inhead(2), of p] by (auto split: if_splits)
  qed (use known W(2) in \<open>auto dest: in_set_takeD\<close>)
qed

text \<open>Only the storage of one collection changes.\<close>

definition only_touches :: "coll_id \<Rightarrow> ('m, 'root, 'inter) members_state \<Rightarrow> ('m, 'root, 'inter) members_state \<Rightarrow> bool" where
  "only_touches i s s' \<longleftrightarrow> wf_storage (RingKeysStatus s') \<and> (\<forall>j. j \<noteq> i \<longrightarrow> view s' j = view s j)"

lemma only_touches_inv:
  "members_inv cfg s \<Longrightarrow> only_touches i s s' \<Longrightarrow> coll_inv cfg (view s' i) \<Longrightarrow> members_inv cfg s'"
  by (rule members_inv_step [of _ _ _ i]) (simp_all add: only_touches_def)

lemma should_onboard_Some:
  assumes "should_onboard_members i r st open_slots avail sz cap s = Some (n, filled)"
  shows "n = min avail open_slots" and "n \<noteq> 0" and "filled \<longleftrightarrow> open_slots = n"
  using assms by (auto simp: should_onboard_members_def Let_def split: if_splits)

text \<open>The state in which \<open>onboard_members\<close> leaves the pallet, in terms of its local variables.\<close>

lemma onboard_members_Some:
  assumes inv: "members_inv cfg s" and cfg: "members_config_ok cfg"
    and live: "sget (Collections s) i = Some info"
    and ok: "onboard_members cfg i True s = Inr (b, s')"
  obtains L h t head all n s1 where
    "length L = stotal (view s i) (current_ring s i)"
    "\<And>p. keys_of s i (current_ring s i) p = page (flexible_ring_capacity cfg) L p"
    "queue_pages s i = (h, t)"
    "wanted (ring_capacity cfg (ci_ring_size info) - length L) (h, t) (queue_of s i) = (head, all)"
    "n = min (length all) (ring_capacity cfg (ci_ring_size info) - length L)"
    "length L < ring_capacity cfg (ci_ring_size info)"
    "onboarded (flexible_ring_capacity cfg) i (current_ring s i) (L @ take n all)
       (append_positions (flexible_ring_capacity cfg) (current_ring s i) (length L) (take n all) (\<lambda>k. sget (Members s) (i, k))) s s1"
    "s' = members_deposit (MembersOnboarded i) (store_remaining cfg i h head t (drop n all)
       (let s2 = s1\<lparr>RingKeys := sput (i, current_ring s i, length (L @ take n all) div flexible_ring_capacity cfg)
                   (drop (length (L @ take n all) div flexible_ring_capacity cfg * flexible_ring_capacity cfg) (L @ take n all)) (RingKeys s1),
                 ActiveMembers := sput i (sat_add u32_max (active_count s1 i) n) (ActiveMembers s1),
                 RingKeysStatus := sput (i, current_ring s i) ((status_of s i (current_ring s i))\<lparr>rs_total := length L + n\<rparr>) (RingKeysStatus s1),
                 StaleRings := sput (i, current_ring s i) () (StaleRings s1)\<rparr>
        in if ring_capacity cfg (ci_ring_size info) - length L = n
           then s2\<lparr>CurrentRingIndex := sput i (saturating_inc (current_ring s2 i)) (CurrentRingIndex s2)\<rparr> else s2))"
proof -
  let ?cap = "flexible_ring_capacity cfg" and ?c = "current_ring s i" and ?rc = "ring_capacity cfg (ci_ring_size info)"
  have cap: "0 < ?cap" and rc: "?rc \<le> u32_max" using cfg by (simp_all add: members_config_ok_def members_integrity_test_def)
  obtain L where L: "length L = stotal (view s i) ?c" "\<And>p. keys_of s i ?c p = page ?cap L p" "length L < ?rc"
    and av: "available_ring cfg i ?rc s = ((?c, length L div ?cap, drop (length L div ?cap * ?cap) L, status_of s i ?c), s)"
    using available_ring_live [OF inv live cap] by blast
  obtain h t where sp: "queue_pages s i = (h, t)" by fastforce
  obtain head all where w: "wanted (?rc - length L) (h, t) (queue_of s i) = (head, all)" by fastforce
  have "length (drop (length L div ?cap * ?cap) L) + length L div ?cap * ?cap = length L"
    unfolding last_page(2) [OF cap] by (simp add: mod_div_mult_eq)
  then have slots: "?rc - (length (drop (length L div ?cap * ?cap) L) + length L div ?cap * ?cap) = ?rc - length L" by simp
  have head: "(if length (queue_of s i h) < ?rc - length L \<and> h \<noteq> t then next_page h else h) = head"
    and all: "(if length (queue_of s i h) < ?rc - length L \<and> h \<noteq> t
        then queue_of s i h @ queue_of s i head else queue_of s i h) = all"
    using w by (auto simp: wanted_def split: if_splits)
  note unf = ok [unfolded onboard_members_def live result_eval Let_def av prod.case slots sp head all]
  obtain n filled where so: "should_onboard_members i ?c (status_of s i ?c) (?rc - length L) (length all)
      (sget_or 0 (OnboardingSize s) i) ?rc s = Some (n, filled)"
    using unf by (cases "should_onboard_members i ?c (status_of s i ?c) (?rc - length L) (length all)
      (sget_or 0 (OnboardingSize s) i) ?rc s") (auto split: if_splits)
  note SO = should_onboard_Some [OF so]
  have q: "queue_inv (OnboardingQueuePageSize cfg) (view s i)" using coll_invD(1) [OF members_invD(1) [OF inv]] .
  note W = wanted_distinct [OF q, of "?rc - length L" head all]
  have ks: "distinct (take n all)" "\<And>k. k \<in> set (take n all) \<Longrightarrow> scontains (Members s) (i, k)"
    using W w sp by (auto simp: scontains_def dest: in_set_takeD)
  have len: "length (take n all) = n" and room: "length L + n \<le> ?rc" using SO(1) L(3) by simp_all
  have "\<exists>s1. onboard_loop cfg i ?c (length L div ?cap) (drop (length L div ?cap * ?cap) L) (take n all) s =
      Inr (length (L @ take n all) div ?cap, drop (length (L @ take n all) div ?cap * ?cap) (L @ take n all), s1) \<and>
      onboarded ?cap i ?c (L @ take n all)
       (append_positions ?cap ?c (length L) (take n all) (\<lambda>k. sget (Members s) (i, k))) s s1"
    by (rule onboard_loop_result [OF cap _ ks]) (use L(2) room rc len in simp_all)
  then obtain s1 where loop: "onboard_loop cfg i ?c (length L div ?cap) (drop (length L div ?cap * ?cap) L) (take n all) s =
      Inr (length (L @ take n all) div ?cap, drop (length (L @ take n all) div ?cap * ?cap) (L @ take n all), s1)"
    and on: "onboarded ?cap i ?c (L @ take n all)
       (append_positions ?cap ?c (length L) (take n all) (\<lambda>k. sget (Members s) (i, k))) s s1" by blast
  have tot: "sat_add u32_max (rs_total (status_of s i ?c)) n = length L + n"
    using room rc L(1) by (simp add: status_total)
  note s' = unf [unfolded so option.case prod.case loop result_eval tot SO(3), symmetric]
  show thesis
    by (rule that [OF L(1,2) sp w SO(1) L(3) on]) (use s' in \<open>simp only: sum.inject prod.inject Let_def\<close>)
qed

lemma store_remaining_view:
  assumes "length rem \<le> OnboardingQueuePageSize cfg"
  shows "view (store_remaining cfg i h head t rem s) i = (view s i)\<lparr>
      vqueue := (vqueue (view s i))(h := [], head := rem),
      vspan := (if rem = [] \<and> head \<noteq> t then next_page head else head, t)\<rparr>"
    and "j \<noteq> i \<Longrightarrow> view (store_remaining cfg i h head t rem s) j = view s j"
    and "RingKeysStatus (store_remaining cfg i h head t rem s) = RingKeysStatus s"
proof -
  let ?h = "if rem = [] \<and> head \<noteq> t then next_page head else head"
  define Q where "Q = OnboardingQueue (store_remaining cfg i h head t rem s)"
  have Q: "store_remaining cfg i h head t rem s =
      s\<lparr>OnboardingQueue := Q, QueuePageIndices := sput i (?h, t) (QueuePageIndices s)\<rparr>"
    using assms unfolding Q_def by (simp add: store_remaining_def Let_def)
  have Q': "sget_or [] Q (j, p) = (if j = i then ((queue_of s i)(h := [], head := rem)) p else queue_of s j p)" for j p
    using assms unfolding Q_def by (simp add: store_remaining_def Let_def queue_of_def)
  show "view (store_remaining cfg i h head t rem s) i = (view s i)\<lparr>
      vqueue := (vqueue (view s i))(h := [], head := rem), vspan := (?h, t)\<rparr>"
    by (rule cview.equality) (simp_all add: Q Q' fun_upd_def)
  show "j \<noteq> i \<Longrightarrow> view (store_remaining cfg i h head t rem s) j = view s j"
    by (rule cview.equality) (simp_all add: Q Q' queue_pages_def)
  show "RingKeysStatus (store_remaining cfg i h head t rem s) = RingKeysStatus s"
    by (simp add: Q)
qed

lemma onboarded_view:
  assumes "onboarded cap i r L m s s'" and cap: "0 < cap"
  shows "RingKeysStatus s' = RingKeysStatus s" and "j \<noteq> i \<Longrightarrow> view s' j = view s j"
    and "view (s'\<lparr>RingKeys := sput (i, r, length L div cap) (drop (length L div cap * cap) L) (RingKeys s')\<rparr>) i =
      (view s i)\<lparr>vmem := m, vkeys := (vkeys (view s i))(r := page cap L)\<rparr>"
proof -
  obtain M K where s': "s' = s\<lparr>Members := M, RingKeys := K\<rparr>" using assms(1) by (auto simp: onboarded_def)
  have keys: "q \<noteq> length L div cap \<Longrightarrow> sget_or [] K (i, r, q) = page cap L q"
    "(j, r') \<noteq> (i, r) \<Longrightarrow> sget_or [] K (j, r', q) = keys_of s j r' q" for j r' q
    using assms(1) unfolding onboarded_def s' by (auto simp: keys_of_def)
  have mem: "sget M (j, k) = (if j = i then m k else sget (Members s) (j, k))" for j k
    using assms(1) unfolding onboarded_def s' by simp
  show "RingKeysStatus s' = RingKeysStatus s" by (simp add: s')
  show "j \<noteq> i \<Longrightarrow> view s' j = view s j" for j
    by (rule cview.equality) (simp_all add: s' mem keys fun_eq_iff)
  have "(if q = length L div cap then drop (length L div cap * cap) L else sget_or [] K (i, r, q)) = page cap L q" for q
    using keys(1) last_page(1) [OF cap, of L] by simp
  then have "(\<lambda>r' p. sget_or [] (sput (i, r, length L div cap) (drop (length L div cap * cap) L) K) (i, r', p)) =
      (\<lambda>r' p. keys_of s i r' p)(r := page cap L)"
    using keys(2) by (auto simp: fun_eq_iff)
  then show "view (s'\<lparr>RingKeys := sput (i, r, length L div cap) (drop (length L div cap * cap) L) (RingKeys s')\<rparr>) i =
      (view s i)\<lparr>vmem := m, vkeys := (vkeys (view s i))(r := page cap L)\<rparr>"
    by (simp add: s' mem)
qed

text \<open>What the counters have room for: one more full ring.\<close>

definition members_room :: "('m, 'root, 'inter, 'c) members_config \<Rightarrow> coll_id \<Rightarrow> ('m, 'root, 'inter) members_state \<Rightarrow> bool" where
  "members_room cfg i s \<longleftrightarrow> current_ring s i < u32_max \<and>
     (\<forall>info. sget (Collections s) i = Some info \<longrightarrow> active_count s i + ring_capacity cfg (ci_ring_size info) \<le> u32_max)"

lemma appended_status:
  assumes "coll_inv cfg (view s i)" and "length L = stotal (view s i) r"
  shows "rs_included ((status_of s i r)\<lparr>rs_total := n\<rparr>) \<le> length L"
  using pages_invD(5) [OF coll_invD(4) [OF assms(1)], of r] assms(2)
  by (auto simp: status_of_def sget_or_def default_status_def stotal_def split: option.splits)

lemma appended_sum:
  assumes "wf_storage (RingKeysStatus s)" and "length L = stotal (view s i) r"
  shows "totals_of i (sput (i, r) (st\<lparr>rs_total := length L + n\<rparr>) (RingKeysStatus s)) = totals_of i (RingKeysStatus s) + n"
  using totals_put(1) [OF assms(1), of i r "st\<lparr>rs_total := length L + n\<rparr>"] assms(2) by (simp add: stotal_def)

lemma onboard_members_inv:
  assumes inv: "members_inv cfg s" and cfg: "members_config_ok cfg" and room: "members_room cfg i s"
    and ok: "onboard_members cfg i True s = Inr (b, s')"
  shows "members_inv cfg s'"
proof -
  obtain info where live: "sget (Collections s) i = Some info" using ok by (auto simp: onboard_members_def)
  let ?cap = "flexible_ring_capacity cfg" and ?c = "current_ring s i" and ?rc = "ring_capacity cfg (ci_ring_size info)"
  have cap: "0 < ?cap" using cfg by (simp add: members_config_ok_def members_integrity_test_def)
  obtain L h t head all n s1 where
    L: "length L = stotal (view s i) ?c" "\<And>p. keys_of s i ?c p = page ?cap L p" and
    sp: "queue_pages s i = (h, t)" and w: "wanted (?rc - length L) (h, t) (queue_of s i) = (head, all)" and
    n: "n = min (length all) (?rc - length L)" and lt: "length L < ?rc" and
    on: "onboarded ?cap i ?c (L @ take n all) (append_positions ?cap ?c (length L) (take n all) (\<lambda>k. sget (Members s) (i, k))) s s1" and
    s': "s' = members_deposit (MembersOnboarded i) (store_remaining cfg i h head t (drop n all)
       (let s2 = s1\<lparr>RingKeys := sput (i, ?c, length (L @ take n all) div ?cap) (drop (length (L @ take n all) div ?cap * ?cap) (L @ take n all)) (RingKeys s1),
                 ActiveMembers := sput i (sat_add u32_max (active_count s1 i) n) (ActiveMembers s1),
                 RingKeysStatus := sput (i, ?c) ((status_of s i ?c)\<lparr>rs_total := length L + n\<rparr>) (RingKeysStatus s1),
                 StaleRings := sput (i, ?c) () (StaleRings s1)\<rparr>
        in if ?rc - length L = n then s2\<lparr>CurrentRingIndex := sput i (saturating_inc (current_ring s2 i)) (CurrentRingIndex s2)\<rparr> else s2))"
    using onboard_members_Some [OF inv cfg live ok] by blast
  let ?ks = "take n all" and ?st = "(status_of s i ?c)\<lparr>rs_total := length L + n\<rparr>"
  let ?w = "(view s i)\<lparr>vqueue := (vqueue (view s i))(h := [], head := drop n all),
      vmem := (\<lambda>k. if k \<in> set ?ks then Some SuspendedPosition else vmem (view s i) k),
      vspan := (if drop n all = [] \<and> head \<noteq> t then next_page head else head, t)\<rparr>"
  note c = members_invD(1) [OF inv, of i] and wf = members_invD(2) [OF inv]
  note T = take_from_queue [OF c _ _ n, of head h t]
  note V = onboarded_view [OF on cap] and R = store_remaining_view [where rem = "drop n all" and cfg = cfg]
  have fits: "length (drop n all) \<le> OnboardingQueuePageSize cfg" using T(2) live sp w by simp
  have len: "length ?ks = n" "length L + n \<le> ?rc" using n lt by simp_all
  have act: "active_count s1 i = active_count s i" "current_ring s1 i = ?c"
    using on by (auto simp: onboarded_def active_count_def current_ring_def)
  have cur: "saturating_inc ?c = ?c + 1" "active_count s i + n \<le> u32_max"
    using room live len(2) by (auto simp: members_room_def saturating_inc_def)
  have ks: "distinct ?ks" "\<And>k. k \<in> set ?ks \<Longrightarrow> \<exists>p t. sget (Members s) (i, k) = Some (Onboarding p t)"
    using wanted_distinct [OF coll_invD(1) [OF c], of "?rc - length L" head all] sp w by (auto dest: in_set_takeD)
  define x where "x = s1\<lparr>RingKeys := sput (i, ?c, length (L @ ?ks) div ?cap) (drop (length (L @ ?ks) div ?cap * ?cap) (L @ ?ks)) (RingKeys s1)\<rparr>"
  define y where "y = (let s2 = x\<lparr>ActiveMembers := sput i (active_count s i + n) (ActiveMembers x),
        RingKeysStatus := sput (i, ?c) ?st (RingKeysStatus s), StaleRings := sput (i, ?c) () (StaleRings x)\<rparr>
      in if length L + n = ?rc then s2\<lparr>CurrentRingIndex := sput i (?c + 1) (CurrentRingIndex s2)\<rparr> else s2)"
  have full: "?rc - length L = n \<longleftrightarrow> length L + n = ?rc" using lt by linarith
  have sy: "s' = members_deposit (MembersOnboarded i) (store_remaining cfg i h head t (drop n all) y)"
    unfolding s' y_def full using act cur V(1) by (simp add: x_def Let_def current_ring_def active_count_def)
  have mem: "append_positions ?cap ?c (length L) ?ks (\<lambda>k. if k \<in> set ?ks then Some SuspendedPosition else vmem (view s i) k) =
      append_positions ?cap ?c (length L) ?ks (\<lambda>k. sget (Members s) (i, k))"
    by (rule append_positions_cong) simp
  have vx: "view x i = (view s i)\<lparr>vmem := append_positions ?cap ?c (length L) ?ks (\<lambda>k. sget (Members s) (i, k)),
      vkeys := (vkeys (view s i))(?c := page ?cap (L @ ?ks))\<rparr>"
    unfolding x_def by (rule V(3))
  have cx: "current_ring x i = ?c" using act(2) by (simp add: x_def current_ring_def)
  have vy: "view y i = (view x i)\<lparr>vact := active_count s i + n,
      vstat := (vstat (view s i))(?c \<mapsto> ?st), vsum := totals_of i (RingKeysStatus s) + n,
      vcur := (if length L + n = ?rc then ?c + 1 else ?c)\<rparr>"
    using appended_sum [OF wf L(1), where st = "status_of s i ?c" and n = n] cx
    by (cases "length L + n = ?rc") (simp_all add: y_def Let_def fun_upd_def)
  have "view s' i = (appended ?cap ?c L ?ks ?st ?w)\<lparr>vcur := (if length L + n = ?rc then ?c + 1 else ?c)\<rparr>"
    unfolding sy view_notify R(1) [OF fits] vy vx
    by (intro cview.equality) (simp_all add: appended_def mem len(1) del: length_take)
  moreover have "coll_inv cfg ((appended ?cap ?c L ?ks ?st ?w)\<lparr>vcur := (if length L + n = ?rc then ?c + 1 else ?c)\<rparr>)"
  proof (rule append_step [OF _ refl cap, where info = info])
    show "coll_inv cfg ?w" using T(1) live sp w by simp
    show "rs_included ?st \<le> length L" using appended_status [OF c L(1)] .
  qed (use live L ks len in \<open>simp_all add: fun_eq_iff stotal_def\<close>)
  moreover have "only_touches i s s'"
  proof -
    have rx: "RingKeysStatus x = RingKeysStatus s" using V(1) by (simp add: x_def)
    have "view y j = view x j" if "j \<noteq> i" for j
      using that wf unfolding y_def Let_def rx [symmetric] by (simp add: totals_other)
    moreover have "view x j = view s1 j" if "j \<noteq> i" for j using that by (simp add: x_def)
    ultimately have "view y j = view s j" if "j \<noteq> i" for j using V(2) that by metis
    then show ?thesis
      unfolding only_touches_def sy members_deposit_def using wf R(2) [OF fits] R(3) [OF fits] by (simp add: y_def Let_def)
  qed
  ultimately show ?thesis using only_touches_inv [OF inv] by simp
qed

subsection \<open>A member includes itself\<close>

lemma available_ring_open:
  assumes "0 < flexible_ring_capacity cfg" and "rs_total (status_of s i (current_ring s i)) = length L"
    and "keys_of s i (current_ring s i) (length L div flexible_ring_capacity cfg) =
      drop (length L div flexible_ring_capacity cfg * flexible_ring_capacity cfg) L" and "length L < rc"
  shows "available_ring cfg i rc s =
    ((current_ring s i, length L div flexible_ring_capacity cfg,
      drop (length L div flexible_ring_capacity cfg * flexible_ring_capacity cfg) L, status_of s i (current_ring s i)), s)"
proof -
  have "length L div flexible_ring_capacity cfg * flexible_ring_capacity cfg + length L mod flexible_ring_capacity cfg = length L"
    by (simp add: div_mult_mod_eq)
  then show ?thesis
    using assms last_page [OF assms(1), of L] by (simp add: available_ring_def Let_def del: length_drop)
qed

lemma page_snoc:
  assumes "0 < cap"
  shows "(page cap L)(length L div cap := drop (length L div cap * cap) L @ [k]) = page cap (L @ [k])"
proof
  fix q
  have "length (drop (length L div cap * cap) L @ [k]) \<le> cap"
    using last_page(2) [OF assms, of L] mod_less_divisor [OF assms, of "length L"] by simp
  moreover have "drop (length L div cap * cap) (L @ [k]) = drop (length L div cap * cap) L @ [k]"
    by (simp add: div_times_less_eq_dividend)
  ultimately have "page cap (L @ [k]) (length L div cap) = drop (length L div cap * cap) L @ [k]"
    unfolding page_def by simp
  then show "((page cap L)(length L div cap := drop (length L div cap * cap) L @ [k])) q = page cap (L @ [k]) q"
    using page_snoc_other [OF assms, of q L k] by simp
qed

text \<open>The queue after the member has left it.\<close>

definition leave_queue :: "coll_id \<Rightarrow> 'm \<Rightarrow> nat \<Rightarrow> ('m, 'root, 'inter) members_state \<Rightarrow> ('m, 'root, 'inter) members_state" where
  "leave_queue i member qpage s =
     (if remove1 member (queue_of s i qpage) = []
      then s\<lparr>OnboardingQueue := sdel (i, qpage) (OnboardingQueue s),
             QueuePageIndices := sput i
               (if fst (queue_pages s i) = qpage \<and> fst (queue_pages s i) \<noteq> snd (queue_pages s i)
                then next_page qpage else fst (queue_pages s i), snd (queue_pages s i)) (QueuePageIndices s)\<rparr>
      else s\<lparr>OnboardingQueue := sput (i, qpage) (remove1 member (queue_of s i qpage)) (OnboardingQueue s)\<rparr>)"

lemma do_self_include_ok:
  assumes inv: "members_inv cfg s" and cfg: "members_config_ok cfg" and live: "sget (Collections s) i = Some info"
    and pos: "sget (Members s) (i, k) = Some (Onboarding qp since)" and ao: "append_only (rings_state_of s i)"
  obtains L where "length L = stotal (view s i) (current_ring s i)"
    "\<And>p. keys_of s i (current_ring s i) p = page (flexible_ring_capacity cfg) L p"
    "length L < ring_capacity cfg (ci_ring_size info)"
    "do_self_include cfg i k s = Inr
       (let c = current_ring s i; s1 = leave_queue i k qp s;
            s3 = s1\<lparr>RingKeys := sput (i, c, length L div flexible_ring_capacity cfg)
                      (drop (length L div flexible_ring_capacity cfg * flexible_ring_capacity cfg) L @ [k]) (RingKeys s),
               Members := sput (i, k) (Included c (length L div flexible_ring_capacity cfg)
                      (length L mod flexible_ring_capacity cfg)) (Members s),
               RingKeysStatus := sput (i, c) ((status_of s i c)\<lparr>rs_total := length L + 1\<rparr>) (RingKeysStatus s),
               ActiveMembers := sput i (sat_add u32_max (active_count s i) 1) (ActiveMembers s),
               StaleRings := sput (i, c) () (StaleRings s)\<rparr>
        in if length L + 1 = ring_capacity cfg (ci_ring_size info)
           then s3\<lparr>CurrentRingIndex := sput i (saturating_inc c) (CurrentRingIndex s)\<rparr> else s3)"
proof -
  let ?cap = "flexible_ring_capacity cfg" and ?c = "current_ring s i" and ?rc = "ring_capacity cfg (ci_ring_size info)"
  have cap: "0 < ?cap" and rc: "?rc \<le> u32_max" using cfg by (simp_all add: members_config_ok_def members_integrity_test_def)
  obtain L where L: "length L = stotal (view s i) ?c" "\<And>p. keys_of s i ?c p = page ?cap L p" "length L < ?rc"
    using available_ring_live [OF inv live cap] by blast
  let ?s1 = "leave_queue i k qp s"
  obtain Q I where s1: "?s1 = s\<lparr>OnboardingQueue := Q, QueuePageIndices := I\<rparr>"
  proof -
    have "?s1 = s\<lparr>OnboardingQueue := OnboardingQueue ?s1, QueuePageIndices := QueuePageIndices ?s1\<rparr>"
      by (simp add: leave_queue_def)
    then show ?thesis using that by blast
  qed
  have sel: "current_ring ?s1 i = ?c" "keys_of ?s1 i r p = keys_of s i r p" "status_of ?s1 i r = status_of s i r"
    "active_count ?s1 i = active_count s i" for r p
    by (simp_all add: s1 current_ring_def keys_of_def status_of_def active_count_def)
  have av: "available_ring cfg i ?rc ?s1 =
      ((?c, length L div ?cap, drop (length L div ?cap * ?cap) L, status_of s i ?c), ?s1)"
    using available_ring_open [OF cap, of ?s1 i L ?rc] L last_page(1) [OF cap, of L] by (simp add: sel status_total)
  have inq: "k \<in> set (queue_of s i qp)"
    using queue_invD(1) [OF coll_invD(1) [OF members_invD(1) [OF inv, of i]], of k qp] pos by simp
  have len: "length (drop (length L div ?cap * ?cap) L) = length L mod ?cap" "length L mod ?cap < ?cap"
    using last_page(2) [OF cap] cap by simp_all
  have tot: "sat_add u32_max (rs_total (status_of s i ?c)) 1 = length L + 1" "(length L + 1 \<ge> ?rc) = (length L + 1 = ?rc)"
    using L rc by (auto simp: status_total)
  have q: "(let (head, tail) = queue_pages s i in
      if remove1 k (queue_of s i qp) = []
      then s\<lparr>OnboardingQueue := sdel (i, qp) (OnboardingQueue s),
             QueuePageIndices := sput i (if head = qp \<and> head \<noteq> tail then next_page qp else head, tail) (QueuePageIndices s)\<rparr>
      else s\<lparr>OnboardingQueue := sput (i, qp) (remove1 k (queue_of s i qp)) (OnboardingQueue s)\<rparr>) = ?s1"
    by (simp add: leave_queue_def split_beta)
  obtain h t where sp: "queue_pages s i = (h, t)" by fastforce
  note q1 = q [unfolded sp Let_def prod.case]
  show thesis
    by (rule that [OF L])
       (use live ao pos inq len tot in \<open>simp add: do_self_include_def Let_def sp q1 av try_push_def sel del: length_drop;
          simp add: s1 current_ring_def\<close>)
qed

lemma leave_queue_view:
  assumes inv: "coll_inv cfg (view s i)" and live: "sget (Collections s) i = Some info"
    and pos: "sget (Members s) (i, k) = Some (Onboarding qp since)"
  obtains sp where "view (leave_queue i k qp s) i = (view s i)\<lparr>
      vqueue := (vqueue (view s i))(qp := remove1 k (vqueue (view s i) qp)), vspan := sp\<rparr>"
    and "coll_inv cfg ((view s i)\<lparr>vqueue := (vqueue (view s i))(qp := remove1 k (vqueue (view s i) qp)),
      vmem := (vmem (view s i))(k \<mapsto> SuspendedPosition), vspan := sp\<rparr>)"
    and "\<And>j. j \<noteq> i \<Longrightarrow> view (leave_queue i k qp s) j = view s j"
proof -
  note Q = queue_invD [OF coll_invD(1) [OF inv]]
  obtain h t where sp: "queue_pages s i = (h, t)" by fastforce
  let ?q = "(queue_of s i)(qp := remove1 k (queue_of s i qp))"
  let ?sp = "if remove1 k (queue_of s i qp) = [] \<and> h = qp \<and> h \<noteq> t then (next_page h, t) else (h, t)"
  have ok: "span_ok (h, t)" using Q(5) sp by simp
  show thesis
  proof (rule that [of ?sp])
    show "view (leave_queue i k qp s) i = (view s i)\<lparr>
        vqueue := (vqueue (view s i))(qp := remove1 k (vqueue (view s i) qp)), vspan := ?sp\<rparr>"
      by (cases "remove1 k (queue_of s i qp) = []"; intro cview.equality)
         (simp_all add: leave_queue_def sp queue_of_def fun_eq_iff)
    show "view (leave_queue i k qp s) j = view s j" if "j \<noteq> i" for j
      using that by (simp add: leave_queue_def)
    show "coll_inv cfg ((view s i)\<lparr>vqueue := (vqueue (view s i))(qp := remove1 k (vqueue (view s i) qp)),
        vmem := (vmem (view s i))(k \<mapsto> SuspendedPosition), vspan := ?sp\<rparr>)"
    proof (rule unqueue_one [OF inv])
      show "span_ok ?sp" using ok in_span_next_head(2) [OF ok] by auto
      fix p assume "((vqueue (view s i))(qp := remove1 k (vqueue (view s i) qp))) p \<noteq> []"
      then have ne: "queue_of s i p \<noteq> []" "p = qp \<Longrightarrow> remove1 k (queue_of s i qp) \<noteq> []" by (auto split: if_splits)
      then have "in_span (h, t) p" using Q(4) [of p] sp by simp
      then show "in_span ?sp p" using ne(2) in_span_next_head(1) [OF ok] by auto
    qed (use live pos in simp_all)
  qed
qed

lemma do_self_include_inv:
  assumes inv: "members_inv cfg s" and cfg: "members_config_ok cfg" and room: "members_room cfg i s"
    and ok: "do_self_include cfg i k s = Inr s'"
  shows "members_inv cfg s'"
proof -
  obtain info pos where live: "sget (Collections s) i = Some info"
    and pos: "sget (Members s) (i, k) = Some pos" and ao: "append_only (rings_state_of s i)"
    using ok unfolding do_self_include_def ok_or_Inr Let_def ensure_Inr by blast
  with ok obtain qp since where pos: "sget (Members s) (i, k) = Some (Onboarding qp since)"
    by (cases pos) (simp_all add: do_self_include_def)
  let ?cap = "flexible_ring_capacity cfg" and ?c = "current_ring s i" and ?rc = "ring_capacity cfg (ci_ring_size info)"
  have cap: "0 < ?cap" using cfg by (simp add: members_config_ok_def members_integrity_test_def)
  note c = members_invD(1) [OF inv, of i] and wf = members_invD(2) [OF inv]
  obtain L where L: "length L = stotal (view s i) ?c" "\<And>p. keys_of s i ?c p = page ?cap L p" "length L < ?rc"
    and eq: "do_self_include cfg i k s = Inr
       (let c = current_ring s i; s1 = leave_queue i k qp s;
            s3 = s1\<lparr>RingKeys := sput (i, c, length L div ?cap) (drop (length L div ?cap * ?cap) L @ [k]) (RingKeys s),
               Members := sput (i, k) (Included c (length L div ?cap) (length L mod ?cap)) (Members s),
               RingKeysStatus := sput (i, c) ((status_of s i c)\<lparr>rs_total := length L + 1\<rparr>) (RingKeysStatus s),
               ActiveMembers := sput i (sat_add u32_max (active_count s i) 1) (ActiveMembers s),
               StaleRings := sput (i, c) () (StaleRings s)\<rparr>
        in if length L + 1 = ?rc then s3\<lparr>CurrentRingIndex := sput i (saturating_inc c) (CurrentRingIndex s)\<rparr> else s3)"
    using do_self_include_ok [OF inv cfg live pos ao] by blast
  let ?s1 = "leave_queue i k qp s" and ?st = "(status_of s i ?c)\<lparr>rs_total := length L + 1\<rparr>"
  obtain sp where v1: "view ?s1 i = (view s i)\<lparr>vqueue := (vqueue (view s i))(qp := remove1 k (vqueue (view s i) qp)), vspan := sp\<rparr>"
    and cw: "coll_inv cfg ((view s i)\<lparr>vqueue := (vqueue (view s i))(qp := remove1 k (vqueue (view s i) qp)),
      vmem := (vmem (view s i))(k \<mapsto> SuspendedPosition), vspan := sp\<rparr>)" (is "coll_inv cfg ?w")
    and fr: "\<And>j. j \<noteq> i \<Longrightarrow> view ?s1 j = view s j"
    using leave_queue_view [OF c live pos] by blast
  have cur: "saturating_inc ?c = ?c + 1" "sat_add u32_max (active_count s i) 1 = active_count s i + 1"
    using room live L(3) by (auto simp: members_room_def saturating_inc_def)
  have cr: "current_ring ?s1 i = ?c" by (simp add: leave_queue_def current_ring_def)
  have mem: "append_positions ?cap ?c (length L) [k] ((\<lambda>k. sget (Members s) (i, k))(k \<mapsto> SuspendedPosition)) =
      (\<lambda>x. if x = k then Some (Included ?c (length L div ?cap) (length L mod ?cap)) else sget (Members s) (i, x))"
    by (simp add: append_positions_Cons append_positions_out fun_eq_iff)
  have keys: "(\<lambda>r p. sget_or [] (sput (i, ?c, length L div ?cap) (drop (length L div ?cap * ?cap) L @ [k]) (RingKeys s)) (i, r, p)) =
      (vkeys (view s i))(?c := page ?cap (L @ [k]))"
    unfolding page_put page_snoc [OF cap, symmetric] using L(2) by (simp add: keys_of_def fun_eq_iff)
  note s' = ok [unfolded eq sum.inject, symmetric]
  have v: "view s' i = (appended ?cap ?c L [k] ?st ?w)\<lparr>vcur := (if length L + length [k] = ?rc then vcur ?w + 1 else vcur ?w)\<rparr>"
    using cur cr appended_sum [OF wf L(1), where st = "status_of s i ?c" and n = 1] keys
    unfolding s' Let_def by (cases "length L + 1 = ?rc") (auto intro!: cview.equality simp: appended_def v1 row_put mem)
  show ?thesis
  proof (rule only_touches_inv [OF inv])
    show "coll_inv cfg (view s' i)" unfolding v
      by (rule append_step [OF cw refl cap, where info = info])
         (use live L appended_status [OF c L(1)] in \<open>simp_all add: fun_eq_iff stotal_def\<close>)
    show "only_touches i s s'"
      using ok [unfolded eq] wf fr by (auto simp: only_touches_def Let_def totals_other split: if_splits)
  qed
qed

end
