(* ===== verification/Members_Steps.thy ===== *)
theory Members_Steps
  imports Members_Rings
begin

text \<open>
  The remaining operations of the members pallet on rings keep the invariant: removing suspended keys,
  merging rings, building a root, and the deletion of rings and collections.
\<close>

subsection \<open>Removing suspended keys\<close>

definition kept :: "nat \<Rightarrow> nat list \<Rightarrow> 'm list \<Rightarrow> 'm list" where
  "kept n js ks = map snd (filter (\<lambda>(j, _). j \<notin> set js) (enumerate n ks))"

lemma kept_Nil [simp]: "kept n js [] = []"
  by (simp add: kept_def)

lemma kept_Cons: "kept n js (k # ks) = (if n \<in> set js then kept (Suc n) js ks else k # kept (Suc n) js ks)"
  by (simp add: kept_def)

lemma kept_tl: "sorted_wrt (<) (j # js) \<Longrightarrow> kept (Suc j) js ks = kept (Suc j) (j # js) ks"
proof -
  have "filter (\<lambda>(x, _). x \<notin> set js) (enumerate (Suc j) ks) = filter (\<lambda>(x, _). x \<notin> set (j # js)) (enumerate (Suc j) ks)"
    by (rule filter_cong) (auto simp: in_set_enumerate_eq)
  then show ?thesis by (simp add: kept_def)
qed

lemma set_kept: "k \<in> set (kept n js ks) \<longleftrightarrow> (\<exists>x < length ks. ks ! x = k \<and> n + x \<notin> set js)"
proof -
  have "k \<in> set (kept n js ks) \<longleftrightarrow> (\<exists>j. (j, k) \<in> set (enumerate n ks) \<and> j \<notin> set js)"
    by (force simp: kept_def)
  also have "\<dots> \<longleftrightarrow> (\<exists>x < length ks. ks ! x = k \<and> n + x \<notin> set js)"
  proof
    assume "\<exists>j. (j, k) \<in> set (enumerate n ks) \<and> j \<notin> set js"
    then obtain j where "n \<le> j" "j < length ks + n" "ks ! (j - n) = k" "j \<notin> set js" by (auto simp: in_set_enumerate_eq)
    then show "\<exists>x < length ks. ks ! x = k \<and> n + x \<notin> set js" by (intro exI [of _ "j - n"]) auto
  next
    assume "\<exists>x < length ks. ks ! x = k \<and> n + x \<notin> set js"
    then obtain x where "x < length ks" "ks ! x = k" "n + x \<notin> set js" by blast
    then show "\<exists>j. (j, k) \<in> set (enumerate n ks) \<and> j \<notin> set js" by (intro exI [of _ "n + x"]) (auto simp: in_set_enumerate_eq)
  qed
  finally show ?thesis .
qed

lemma distinct_kept:
  assumes "\<And>x y. x < length ks \<Longrightarrow> y < length ks \<Longrightarrow> x \<notin> set js \<Longrightarrow> y \<notin> set js \<Longrightarrow> ks ! x = ks ! y \<Longrightarrow> x = y"
  shows "distinct (kept 0 js ks)"
  unfolding kept_def distinct_map
proof
  show "inj_on snd (set (filter (\<lambda>(j, _). j \<notin> set js) (enumerate 0 ks)))"
    using assms by (auto simp: inj_on_def in_set_enumerate_eq)
qed simp

lemma length_kept: "length (kept n js ks) \<le> length ks"
  unfolding kept_def by (metis length_enumerate length_filter_le length_map)

lemma retain_loop_result:
  assumes "sorted_wrt (<) js" and "\<And>j. j \<in> set js \<Longrightarrow> n \<le> j" and "length new + length ks \<le> flexible_ring_capacity cfg"
    and "distinct (kept n js ks)" and "\<And>k. k \<in> set (kept n js ks) \<Longrightarrow> \<exists>j. sget (Members s) (i, k) = Some (Included r 0 j)"
  shows "\<exists>M E. retain_loop cfg i r n js ks new s = (True, new @ kept n js ks, s\<lparr>Members := M, members_events := E\<rparr>) \<and>
    (\<forall>j k. sget M (j, k) = (if j = i then append_positions (flexible_ring_capacity cfg) r (length new) (kept n js ks)
        (\<lambda>k. sget (Members s) (i, k)) k else sget (Members s) (j, k)))"
  using assms
proof (induction ks arbitrary: n js new s)
  case Nil
  show ?case
    by (intro exI [of _ "Members s"] exI [of _ "members_events s"]) (simp add: append_positions_out)
next
  case (Cons k ks)
  show ?case
  proof (cases "n \<in> set js")
    case True
    then obtain js' where js: "js = n # js'"
      using Cons.prems(1,2) by (cases js) (auto intro: antisym dest: less_imp_le)
    have kp: "kept n js (k # ks) = kept (Suc n) js' ks" using True kept_tl [of n js' ks] Cons.prems(1) by (simp add: kept_Cons js)
    have "retain_loop cfg i r n js (k # ks) new s = retain_loop cfg i r (Suc n) js' ks new (members_deposit (MemberRemoved k) s)"
      by (simp add: js)
    moreover have "\<exists>M E. retain_loop cfg i r (Suc n) js' ks new (members_deposit (MemberRemoved k) s) =
        (True, new @ kept (Suc n) js' ks, (members_deposit (MemberRemoved k) s)\<lparr>Members := M, members_events := E\<rparr>) \<and>
      (\<forall>j k'. sget M (j, k') = (if j = i then append_positions (flexible_ring_capacity cfg) r (length new) (kept (Suc n) js' ks)
        (\<lambda>x. sget (Members (members_deposit (MemberRemoved k) s)) (i, x)) k' else sget (Members (members_deposit (MemberRemoved k) s)) (j, k')))"
      by (rule Cons.IH) (use Cons.prems kp js in \<open>auto simp: members_deposit_def\<close>)
    ultimately show ?thesis unfolding kp by (auto simp: members_deposit_def)
  next
    case False
    have kp: "kept n js (k # ks) = k # kept (Suc n) js ks" using False by (simp add: kept_Cons)
    let ?s1 = "s\<lparr>Members := sput (i, k) (Included r 0 (length new)) (Members s)\<rparr>"
    obtain j where j: "sget (Members s) (i, k) = Some (Included r 0 j)" using Cons.prems(5) [of k] kp by auto
    have hd: "\<not> (js \<noteq> [] \<and> n = hd js)" using False by (cases js) auto
    have room: "length new < flexible_ring_capacity cfg" using Cons.prems(3) by simp
    have step: "retain_loop cfg i r n js (k # ks) new s = retain_loop cfg i r (Suc n) js ks (new @ [k]) ?s1"
      using j hd room by (auto simp: try_push_def)
    have "\<exists>M E. retain_loop cfg i r (Suc n) js ks (new @ [k]) ?s1 =
        (True, (new @ [k]) @ kept (Suc n) js ks, ?s1\<lparr>Members := M, members_events := E\<rparr>) \<and>
      (\<forall>j k'. sget M (j, k') = (if j = i then append_positions (flexible_ring_capacity cfg) r (length (new @ [k])) (kept (Suc n) js ks)
        (\<lambda>x. sget (Members ?s1) (i, x)) k' else sget (Members ?s1) (j, k')))"
    proof (rule Cons.IH)
      show "Suc n \<le> x" if "x \<in> set js" for x using Cons.prems(2) [OF that] that False by (cases "x = n") auto
      show "\<exists>j. sget (Members ?s1) (i, x) = Some (Included r 0 j)" if "x \<in> set (kept (Suc n) js ks)" for x
        using Cons.prems(5) [of x] that kp by simp
    qed (use Cons.prems kp in simp_all)
    moreover have "append_positions (flexible_ring_capacity cfg) r (length (new @ [k])) (kept (Suc n) js ks) (\<lambda>x. sget (Members ?s1) (i, x)) =
        append_positions (flexible_ring_capacity cfg) r (length new) (k # kept (Suc n) js ks) (\<lambda>x. sget (Members s) (i, x))"
      using append_positions_Cons [of k "kept (Suc n) js ks" "flexible_ring_capacity cfg" r "length new"] Cons.prems(4) kp room
      by (simp add: row_put fun_upd_def)
    ultimately show ?thesis unfolding kp step by auto
  qed
qed

lemma flexible_ring:
  assumes inv: "coll_inv cfg v" and live: "vinfo v = Some info" "ci_mode info = FlexibleRings"
  shows "length (vkeys v r 0) = stotal v r" and "p \<noteq> 0 \<Longrightarrow> vkeys v r p = []"
    and "length (vkeys v r 0) \<le> ring_capacity cfg (ci_ring_size info)" and "length (vkeys v r 0) \<le> flexible_ring_capacity cfg"
    and "vmem v k = Some (Included r p j) \<Longrightarrow> p = 0"
proof -
  note LI = live_invD [OF coll_invD(5) [OF inv] live(1)]
  obtain L where L: "length L = stotal v r" "\<And>p. vkeys v r p = page (flexible_ring_capacity cfg) L p"
    using pages_invD(1) [OF coll_invD(4) [OF inv], of r] LI(5) [OF live(2)] by blast
  have len: "length L \<le> ring_capacity cfg (ci_ring_size info)" "length L \<le> flexible_ring_capacity cfg"
    using LI(2) [of r] LI(4) [OF live(2)] L(1) by simp_all
  show rest: "p \<noteq> 0 \<Longrightarrow> vkeys v r p = []" unfolding L(2) by (rule page_small [OF len(2)])
  show "length (vkeys v r 0) = stotal v r" "length (vkeys v r 0) \<le> ring_capacity cfg (ci_ring_size info)"
    "length (vkeys v r 0) \<le> flexible_ring_capacity cfg"
    unfolding L(2) page_0 [OF len(2)] using L(1) len by simp_all
  show "vmem v k = Some (Included r p j) \<Longrightarrow> p = 0"
    using place_invD(1) [OF coll_invD(2) [OF inv], of k r p j] rest by (cases "p = 0") auto
qed

text \<open>The keys of a ring that are not suspended are the members the ring has.\<close>

lemma kept_members:
  assumes inv: "coll_inv cfg v" and live: "vinfo v = Some info" "ci_mode info = FlexibleRings"
    and js: "js = (case vpend v r of None \<Rightarrow> [] | Some js \<Rightarrow> js)"
  shows "k \<in> set (kept 0 js (vkeys v r 0)) \<longleftrightarrow> (\<exists>p j. vmem v k = Some (Included r p j))"
    and "distinct (kept 0 js (vkeys v r 0))"
proof -
  note P = place_invD [OF coll_invD(2) [OF inv]]
  have susp: "susp_at v r p j \<longleftrightarrow> p = 0 \<and> j \<in> set js" for p j
    by (cases "vpend v r") (auto simp: susp_at_def js)
  have at: "vmem v (vkeys v r 0 ! x) = Some (Included r 0 x)" if "x < length (vkeys v r 0)" "x \<notin> set js" for x
    using P(2) [of x r 0] that live by (simp add: susp)
  show "k \<in> set (kept 0 js (vkeys v r 0)) \<longleftrightarrow> (\<exists>p j. vmem v k = Some (Included r p j))"
  proof
    assume "\<exists>p j. vmem v k = Some (Included r p j)"
    then obtain p j where k: "vmem v k = Some (Included r p j)" by blast
    then have "p = 0" by (rule flexible_ring(5) [OF inv live])
    then show "k \<in> set (kept 0 js (vkeys v r 0))" using P(1) [OF k] by (auto simp: set_kept susp)
  qed (auto simp: set_kept at)
  show "distinct (kept 0 js (vkeys v r 0))"
    by (rule distinct_kept) (metis at option.inject RingPosition.inject(2))
qed

text \<open>Archiving the root of a ring and replacing it shows in no view.\<close>

lemma remove_suspended_keys_view:
  assumes "sget (Collections s) i = Some info" and "capacity_supported cfg (ci_ring_size info)"
    and "retain_loop cfg i r 0 (pending_of s i r) (keys_of s i r 0) [] s = (True, N, s1)"
    and "K = (if N = [] then sdel (i, r, 0) (RingKeys s1) else sput (i, r, 0) N (RingKeys s1))"
  defines "s2 \<equiv> s1\<lparr>RingKeysStatus := sput (i, r) ((status_of s1 i r)\<lparr>rs_total := length N, rs_included := 0\<rparr>) (RingKeysStatus s1),
      ActiveMembers := sput i (active_count s1 i - (rs_total (status_of s1 i r) - length N)) (ActiveMembers s1),
      RingKeys := K\<rparr>"
  shows "view (remove_suspended_keys cfg now i r s) j = view (s2\<lparr>PendingSuspensions := sdel (i, r) (PendingSuspensions s2)\<rparr>) j"
    and "RingKeysStatus (remove_suspended_keys cfg now i r s) = RingKeysStatus s2"
proof -
  obtain R Q S where "remove_suspended_keys cfg now i r s =
      s2\<lparr>Root := R, OldRoots := Q, StaleRings := S, PendingSuspensions := sdel (i, r) (PendingSuspensions s2)\<rparr>"
  proof (cases "sget (Root s1) (i, r)")
    case None
    show thesis
      by (rule that [where R = "Root s2" and Q = "OldRoots s2" and S = "if length N > 0 then sput (i, r) () (StaleRings s2) else StaleRings s2"])
         (use assms(1-3) None in \<open>simp add: remove_suspended_keys_def Let_def s2_def assms(4)\<close>)
  next
    case (Some root)
    show thesis
      by (rule that [where R = "sput (i, r) \<lparr>rr_root = finish_members cfg (start_members cfg (ci_ring_size info)),
              rr_revision = sat_add u32_max (rr_revision root) 1,
              rr_intermediate = start_members cfg (ci_ring_size info)\<rparr> (Root s2)" and Q =
            "sput (i, r, rr_revision root) \<lparr>or_root = rr_root root, or_archived_at = now\<rparr> (OldRoots s2)" and S =
            "if length N > 0 then sput (i, r) () (StaleRings s2) else StaleRings s2"])
         (use assms(1-3) Some in \<open>simp add: remove_suspended_keys_def Let_def s2_def assms(4)\<close>)
  qed
  then show "view (remove_suspended_keys cfg now i r s) j = view (s2\<lparr>PendingSuspensions := sdel (i, r) (PendingSuspensions s2)\<rparr>) j"
    "RingKeysStatus (remove_suspended_keys cfg now i r s) = RingKeysStatus s2" by simp_all
qed

lemma remove_suspended_keys_inv:
  assumes inv: "members_inv cfg s" and cfg: "members_config_ok cfg" and pend: "pending_of s i r \<noteq> []"
  shows "members_inv cfg (remove_suspended_keys cfg now i r s)"
proof (cases "\<exists>info. sget (Collections s) i = Some info \<and> capacity_supported cfg (ci_ring_size info)")
  case False
  then show ?thesis using inv by (auto simp: remove_suspended_keys_def split: option.splits)
next
  case True
  then obtain info where live: "sget (Collections s) i = Some info" and sup: "capacity_supported cfg (ci_ring_size info)" by blast
  let ?cap = "flexible_ring_capacity cfg" and ?js = "pending_of s i r" and ?K = "keys_of s i r 0"
  have cap: "0 < ?cap" using cfg by (simp add: members_config_ok_def members_integrity_test_def)
  note c = members_invD(1) [OF inv, of i] and wf = members_invD(2) [OF inv]
  have l: "vinfo (view s i) = Some info" using live by simp
  have flex: "ci_mode info = FlexibleRings"
  proof (rule ccontr)
    assume "ci_mode info \<noteq> FlexibleRings"
    then have "ci_mode info = AppendOnlyRings" by (cases "ci_mode info") auto
    then show False using live_invD(6) [OF coll_invD(5) [OF c] l, of r] pend by (simp add: pending_of_def sget_or_def)
  qed
  have js: "?js = (case vpend (view s i) r of None \<Rightarrow> [] | Some js \<Rightarrow> js)" by (simp add: pending_of_def sget_or_def)
  define N where "N = kept 0 ?js ?K"
  note F = flexible_ring [OF c l flex, where r = r] and KM = kept_members [OF c l flex js]
  have N: "distinct N" "\<And>k. k \<in> set N \<longleftrightarrow> (\<exists>p j. sget (Members s) (i, k) = Some (Included r p j))" "length N \<le> length ?K"
    using KM length_kept [of 0 ?js ?K] by (simp_all add: N_def)
  have sorted: "sorted_wrt (<) ?js"
    using pend_invD(2) [OF coll_invD(3) [OF c], of r] by (simp add: pending_of_def sget_or_def split: option.splits)
  have "\<exists>M E. retain_loop cfg i r 0 ?js ?K [] s = (True, [] @ kept 0 ?js ?K, s\<lparr>Members := M, members_events := E\<rparr>) \<and>
    (\<forall>j k. sget M (j, k) = (if j = i then append_positions ?cap r (length ([] :: 'a list)) (kept 0 ?js ?K)
        (\<lambda>k. sget (Members s) (i, k)) k else sget (Members s) (j, k)))"
  proof (rule retain_loop_result [OF sorted])
    show "\<exists>j. sget (Members s) (i, k) = Some (Included r 0 j)" if "k \<in> set (kept 0 ?js ?K)" for k
      using that N(2) [of k, unfolded N_def] F(5) by fastforce
  qed (use F N in \<open>simp_all add: N_def\<close>)
  then obtain M E where loop: "retain_loop cfg i r 0 ?js ?K [] s = (True, N, s\<lparr>Members := M, members_events := E\<rparr>)"
    and M: "\<And>j k. sget M (j, k) = (if j = i then append_positions ?cap r 0 N (\<lambda>k. sget (Members s) (i, k)) k else sget (Members s) (j, k))"
    by (auto simp: N_def)
  let ?st = "(status_of s i r)\<lparr>rs_total := length N, rs_included := 0\<rparr>"
  define K' where "K' = (if N = [] then sdel (i, r, 0) (RingKeys s) else sput (i, r, 0) N (RingKeys s))"
  let ?act = "active_count s i - (length ?K - length N)"
  have "K' = (if N = [] then sdel (i, r, 0) (RingKeys (s\<lparr>Members := M, members_events := E\<rparr>))
      else sput (i, r, 0) N (RingKeys (s\<lparr>Members := M, members_events := E\<rparr>)))" by (simp add: K'_def)
  note V = remove_suspended_keys_view [OF live sup loop this, where now = now]
  have tot: "rs_total (status_of s i r) = length ?K" using F(1) by (simp add: status_total)
  have st: "status_of (s\<lparr>Members := M, members_events := E\<rparr>) i r = status_of s i r"
    "active_count (s\<lparr>Members := M, members_events := E\<rparr>) i = active_count s i" by (simp_all add: status_of_def active_count_def)
  have rk: "RingKeysStatus (remove_suspended_keys cfg now i r s) = sput (i, r) ?st (RingKeysStatus s)"
    unfolding V(2) by (simp add: st)
  have K': "sget_or [] K' (j, q, p) = (if j = i \<and> q = r \<and> p = 0 then N else keys_of s j q p)" for j q p
    by (simp add: K'_def keys_of_def)
  have keys: "(\<lambda>q p. sget_or [] K' (i, q, p)) = (\<lambda>q. if q = r then page ?cap N else vkeys (view s i) q)"
    unfolding K' using F(2) page_0 [of N ?cap] page_small [of N ?cap] F(4) N(3) by (auto simp: fun_eq_iff)
  have sum: "totals_of i (sput (i, r) ?st (RingKeysStatus s)) + length ?K = totals_of i (RingKeysStatus s) + length N"
    using totals_put(1) [OF wf, of i r ?st] F(1) by (simp add: stotal_def)
  have le: "length ?K \<le> totals_of i (RingKeysStatus s)"
    using totals_ge [of "RingKeysStatus s" i r] F(1) by (simp add: stotal_def)
  have vi: "view (remove_suspended_keys cfg now i r s) i = (rewritten ?cap r {} N (view s i))\<lparr>
      vstat := (\<lambda>q. if q = r then Some ?st else if q \<in> {} then None else vstat (view s i) q),
      vact := ?act, vsum := totals_of i (sput (i, r) ?st (RingKeysStatus s))\<rparr>"
    unfolding V(1) using keys by (intro cview.equality) (simp_all add: st tot M rewritten_def fun_eq_iff)
  show ?thesis
  proof (rule only_touches_inv [OF inv])
    show "only_touches i s (remove_suspended_keys cfg now i r s)"
      unfolding only_touches_def rk V(1) using wf by (auto simp: totals_other M K' intro!: cview.equality)
    show "coll_inv cfg (view (remove_suspended_keys cfg now i r s) i)"
      unfolding vi
    proof (rule rewrite_step [OF c refl cap l flex N(1)])
      show "length N < ring_capacity cfg (ci_ring_size info)" if "vcur (view s i) \<le> r"
        using live_invD(3) [OF coll_invD(5) [OF c] l that] F(1) N(3) by simp
      show "?act = totals_of i (sput (i, r) ?st (RingKeysStatus s))"
        using sum le N(3) coll_invD(7) [OF c] by simp
    qed (use N F in auto)
  qed
qed

subsection \<open>Merging rings\<close>

lemma kept_all: "kept n [] ks = ks"
  by (simp add: kept_def)

lemma append_positions_append:
  assumes "distinct (B @ T)"
  shows "append_positions cap r 0 (B @ T) m = append_positions cap r (length B) T (append_positions cap r 0 B m)"
proof
  fix k
  consider (new) y where "y < length T" "k = T ! y" | (old) x where "x < length B" "k = B ! x" "k \<notin> set T" | (none) "k \<notin> set (B @ T)"
    by (metis Un_iff in_set_conv_nth set_append)
  then show "append_positions cap r 0 (B @ T) m k = append_positions cap r (length B) T (append_positions cap r 0 B m) k"
  proof cases
    case (new y)
    then show ?thesis
      using append_positions_in [OF assms, of "length B + y" cap r 0 m] append_positions_in [of T y cap r "length B"] assms by simp
  next
    case (old x)
    then show ?thesis
      using append_positions_in [OF assms, of x cap r 0 m] append_positions_in [of B x cap r 0 m] assms
      by (simp add: append_positions_out nth_append)
  qed (simp add: append_positions_out)
qed

lemma append_positions_id:
  assumes "distinct B" and "\<And>x. x < length B \<Longrightarrow> m (B ! x) = Some (Included r (x div cap) (x mod cap))"
  shows "append_positions cap r 0 B m = m"
proof
  fix k
  show "append_positions cap r 0 B m k = m k"
  proof (cases "k \<in> set B")
    case True
    then obtain x where "x < length B" "k = B ! x" by (auto simp: in_set_conv_nth)
    then show ?thesis using append_positions_in [OF assms(1), of x cap r 0 m] assms(2) by simp
  qed (simp add: append_positions_out)
qed

lemma merge_loop_result:
  assumes "distinct ks" and "\<And>k. k \<in> set ks \<Longrightarrow> scontains (Members s) (i, k)"
    and "length B + length ks \<le> flexible_ring_capacity cfg"
  shows "\<exists>M. merge_loop cfg i base B ks s = Inr (B @ ks, s\<lparr>Members := M\<rparr>) \<and>
    (\<forall>j k. sget M (j, k) = (if j = i then append_positions (flexible_ring_capacity cfg) base (length B) ks
        (\<lambda>k. sget (Members s) (i, k)) k else sget (Members s) (j, k)))"
  using assms
proof (induction ks arbitrary: B s)
  case Nil
  show ?case by (intro exI [of _ "Members s"]) (simp add: append_positions_out)
next
  case (Cons k ks)
  let ?s1 = "s\<lparr>Members := sput (i, k) (Included base 0 (length B)) (Members s)\<rparr>"
  have room: "length B < flexible_ring_capacity cfg" using Cons.prems(3) by simp
  have step: "merge_loop cfg i base B (k # ks) s = merge_loop cfg i base (B @ [k]) ks ?s1"
    using room Cons.prems(2) by (simp add: try_push_def)
  have "\<exists>M. merge_loop cfg i base (B @ [k]) ks ?s1 = Inr ((B @ [k]) @ ks, ?s1\<lparr>Members := M\<rparr>) \<and>
    (\<forall>j x. sget M (j, x) = (if j = i then append_positions (flexible_ring_capacity cfg) base (length (B @ [k])) ks
        (\<lambda>x. sget (Members ?s1) (i, x)) x else sget (Members ?s1) (j, x)))"
    by (rule Cons.IH) (use Cons.prems in auto)
  moreover have "append_positions (flexible_ring_capacity cfg) base (length (B @ [k])) ks (\<lambda>x. sget (Members ?s1) (i, x)) =
      append_positions (flexible_ring_capacity cfg) base (length B) (k # ks) (\<lambda>x. sget (Members s) (i, x))"
    using append_positions_Cons [of k ks "flexible_ring_capacity cfg" base "length B"] Cons.prems(1) room
    by (simp add: row_put fun_upd_def)
  ultimately show ?case unfolding step by auto
qed

lemma unsuspended_ring:
  assumes inv: "coll_inv cfg v" and live: "vinfo v = Some info" "ci_mode info = FlexibleRings"
    and none: "vpend v r = None"
  shows "k \<in> set (vkeys v r 0) \<longleftrightarrow> (\<exists>p j. vmem v k = Some (Included r p j))" and "distinct (vkeys v r 0)"
    and "x < length (vkeys v r 0) \<Longrightarrow> vmem v (vkeys v r 0 ! x) = Some (Included r 0 x)"
  using kept_members [OF inv live, of "[]" r] none place_invD(2) [OF coll_invD(2) [OF inv], of x r 0] live
  by (auto simp: kept_all susp_at_def)

lemma merge_rings_inv:
  assumes inv: "members_inv cfg s" and cfg: "members_config_ok cfg"
    and ok: "merge_rings cfg now sg i base target s = Inr (py, s')"
    and flex: "\<And>info. sget (Collections s) i = Some info \<Longrightarrow> ci_mode info = FlexibleRings"
  shows "members_inv cfg s'"
proof -
  let ?cap = "flexible_ring_capacity cfg" and ?B = "keys_of s i base 0" and ?T = "keys_of s i target 0"
  have cap: "0 < ?cap" and u32: "ring_capacity cfg e \<le> u32_max" for e
    using cfg by (simp_all add: members_config_ok_def members_integrity_test_def)
  note c = members_invD(1) [OF inv, of i] and wf = members_invD(2) [OF inv]
  let ?fin = "\<lambda>(B :: 'a list, s1). let s2 = s1\<lparr>RingKeys := sput (i, base, 0) B (RingKeys s1),
          RingKeysStatus := sput (i, base) ((status_of s i base)\<lparr>rs_total :=
            sat_add u32_max (rs_total (status_of s i base)) (length ?T)\<rparr>) (RingKeysStatus s1)\<rparr>;
        s3 = archive_and_notify now i target s2;
        s4 = s3\<lparr>StaleRings := sdel (i, target) (sput (i, base) () (StaleRings s3)),
             RingKeys := sdel (i, target, 0) (RingKeys s3), RingKeysStatus := sdel (i, target) (RingKeysStatus s3)\<rparr>
      in (Inr (PaysNo, members_deposit (RingsMerged i base target) s4) :: MembersError + (pays \<times> ('a, 'b, 'c) members_state))"
  obtain info where live: "sget (Collections s) i = Some info" and ne: "base \<noteq> target"
    and half: "length ?B < ring_capacity cfg (ci_ring_size info) div 2" "length ?T < ring_capacity cfg (ci_ring_size info) div 2"
    and pend: "pending_of s i base = []" "pending_of s i target = []"
    and fin: "on_ok (merge_loop cfg i base ?B ?T s) ?fin = Inr (py, s')"
    using ok unfolding merge_rings_def Let_def by auto
  have l: "vinfo (view s i) = Some info" "ci_mode info = FlexibleRings" using live flex by simp_all
  have none: "vpend (view s i) q = None" if "pending_of s i q = []" for q
    using pend_invD(1) [OF coll_invD(3) [OF c], of q] that by (auto simp: pending_of_def sget_or_def split: option.splits)
  note UB = unsuspended_ring [OF c l none [OF pend(1)]] and UT = unsuspended_ring [OF c l none [OF pend(2)]]
  note FB = flexible_ring [OF c l, where r = base] and FT = flexible_ring [OF c l, where r = target]
  have room: "length ?B + length ?T < ring_capacity cfg (ci_ring_size info)" using half by linarith
  have fit: "length ?B + length ?T \<le> ?cap" using room live_invD(4) [OF coll_invD(5) [OF c] l(1,2)] by simp
  have dist: "distinct (?B @ ?T)" using UB(1,2) UT(1,2) ne by fastforce
  obtain M where loop: "merge_loop cfg i base ?B ?T s = Inr (?B @ ?T, s\<lparr>Members := M\<rparr>)"
    and M: "\<And>j k. sget M (j, k) = (if j = i then append_positions ?cap base (length ?B) ?T (\<lambda>k. sget (Members s) (i, k)) k
      else sget (Members s) (j, k))"
    using merge_loop_result [of ?T s i ?B cfg base] UT(1,2) fit by (auto simp: scontains_def)
  let ?st = "(status_of s i base)\<lparr>rs_total := length ?B + length ?T\<rparr>"
  have tot: "sat_add u32_max (rs_total (status_of s i base)) (length ?T) = length ?B + length ?T"
    using FB(1) room u32 [of "ci_ring_size info"] by (simp add: status_total)
  define x where "x = s\<lparr>Members := M, RingKeys := sdel (i, target, 0) (sput (i, base, 0) (?B @ ?T) (RingKeys s)),
      RingKeysStatus := sdel (i, target) (sput (i, base) ?st (RingKeysStatus s))\<rparr>"
  have "s' = x\<lparr>Root := Root s', OldRoots := OldRoots s', StaleRings := StaleRings s', members_events := members_events s',
      root_changes := root_changes s'\<rparr>"
    using fin unfolding loop x_def
    by (auto simp: Let_def tot archive_and_notify_def archive_root_def on_ring_root_change_def members_deposit_def split: option.splits)
  then obtain R Q S E C where s': "s' = x\<lparr>Root := R, OldRoots := Q, StaleRings := S, members_events := E, root_changes := C\<rparr>"
    by blast
  have vx: "view s' j = view x j" "RingKeysStatus s' = RingKeysStatus x" for j by (simp_all add: s')
  have mem: "append_positions ?cap base 0 (?B @ ?T) (\<lambda>k. sget (Members s) (i, k)) =
      append_positions ?cap base (length ?B) ?T (\<lambda>k. sget (Members s) (i, k))"
    unfolding append_positions_append [OF dist]
    using append_positions_id [of ?B "\<lambda>k. sget (Members s) (i, k)" base ?cap] UB(2,3) fit by simp
  have keys: "(\<lambda>q p. sget_or [] (sdel (i, target, 0) (sput (i, base, 0) (?B @ ?T) (RingKeys s))) (i, q, p)) =
      (\<lambda>q. if q = base then page ?cap (?B @ ?T) else if q \<in> {target} then (\<lambda>_. []) else vkeys (view s i) q)"
    using FB(2) FT(2) page_0 [of "?B @ ?T" ?cap] page_small [of "?B @ ?T" ?cap] fit ne by (auto simp: fun_eq_iff keys_of_def)
  have "totals_of i (RingKeysStatus x) = totals_of i (RingKeysStatus s)"
    using totals_put(1) [OF wf, of i base ?st] totals_put(2) [of "sput (i, base) ?st (RingKeysStatus s)" i target] FB(1) FT(1) wf ne
    by (simp add: x_def stotal_def)
  then have vi: "view s' i = (rewritten ?cap base {target} (?B @ ?T) (view s i))\<lparr>
      vstat := (\<lambda>q. if q = base then Some ?st else if q \<in> {target} then None else vstat (view s i) q),
      vact := active_count s i, vsum := totals_of i (RingKeysStatus s)\<rparr>"
    unfolding vx using keys none pend
    by (intro cview.equality) (auto simp: x_def M mem rewritten_def ne fun_eq_iff)
  show ?thesis
  proof (rule only_touches_inv [OF inv])
    show "only_touches i s s'"
      unfolding only_touches_def vx using wf by (auto simp: x_def totals_other M intro!: cview.equality)
    show "coll_inv cfg (view s' i)"
      unfolding vi
    proof (rule rewrite_step [OF c refl cap l dist])
      show "rs_included ?st \<le> length (?B @ ?T)"
        using appended_status [OF c, of ?B base "length ?B + length ?T"] FB(1) by simp
      show "active_count s i = totals_of i (RingKeysStatus s)" using coll_invD(7) [OF c] by simp
    qed (use UB(1) UT(1) room fit ne in \<open>auto simp: FB(1)\<close>)
  qed
qed

end
