(* ===== verification/Members_Delete.thy ===== *)
theory Members_Delete
  imports Members_Rings
begin

text \<open>
  The operations of the members pallet that build roots, create collections, and delete rings and
  collections keep the invariant.
\<close>

subsection \<open>Building a root\<close>

text \<open>The keys that a build pushes are the next ones of the ring.\<close>

lemma build_loop_result:
  assumes "0 < cap" and "length L \<le> u32_max" and "inc \<le> length L"
  shows "build_loop cap (page cap L) (length L) n inc acc = (acc @ take n (drop inc L), min (length L) (inc + n))"
  using assms
proof (induction n arbitrary: inc acc rule: less_induct)
  case (less n)
  let ?left = "min (length L - inc) (cap - inc mod cap)"
  let ?m = "min n ?left"
  have mod: "inc mod cap < cap" using less.prems(1) by simp
  show ?case
  proof (cases "?m = 0")
    case True
    then have "n = 0 \<or> inc = length L" using mod less.prems(3) by auto
    then show ?thesis using True less.prems(3) by (subst build_loop.simps) auto
  next
    case False
    then have nz: "n \<noteq> 0" by (cases n) simp_all
    have "drop (inc mod cap) (page cap L (inc div cap)) = take (cap - inc mod cap) (drop inc L)"
      unfolding page_def drop_take drop_drop by (simp add: mod_div_mult_eq)
    then have keys: "take ?m (drop (inc mod cap) (page cap L (inc div cap))) = take ?m (drop inc L)" by simp
    have inc: "sat_add u32_max inc ?m = inc + ?m" using less.prems(2,3) by simp
    have "build_loop cap (page cap L) (length L) n inc acc =
        build_loop cap (page cap L) (length L) (n - ?m) (inc + ?m) (acc @ take ?m (drop inc L))"
      by (subst build_loop.simps) (simp only: Let_def keys inc False nz if_False)
    also have "\<dots> = ((acc @ take ?m (drop inc L)) @ take (n - ?m) (drop (inc + ?m) L), min (length L) (inc + ?m + (n - ?m)))"
      by (rule less.IH) (use False less.prems in auto)
    also have "\<dots> = (acc @ take n (drop inc L), min (length L) (inc + n))"
    proof -
      have "take n (drop inc L) = take (?m + (n - ?m)) (drop inc L)" by simp
      then have "take n (drop inc L) = take ?m (drop inc L) @ take (n - ?m) (drop (inc + ?m) L)"
        unfolding take_add by (simp add: add.commute)
      then show ?thesis by simp
    qed
    finally show ?thesis .
  qed
qed

lemma ring_list:
  assumes inv: "coll_inv cfg (view s i)" and st: "sget (RingKeysStatus s) (i, r) = Some st"
  obtains L where "length L = rs_total st" "keys_of s i r = page (flexible_ring_capacity cfg) L" "rs_included st \<le> length L"
proof -
  have "\<not> vdel (view s i) r p" for p
    using pages_invD(2) [OF coll_invD(4) [OF inv], of r p] st by auto
  then obtain L where L: "length L = stotal (view s i) r" "\<And>p. vkeys (view s i) r p = page (flexible_ring_capacity cfg) L p"
    using pages_invD(1) [OF coll_invD(4) [OF inv], of r] by blast
  show thesis
    by (rule that [of L]) (use L st pages_invD(5) [OF coll_invD(4) [OF inv], of r st] in \<open>simp_all add: stotal_def fun_eq_iff\<close>)
qed

lemma build_ring_Some:
  assumes inv: "members_inv cfg s" and cfg: "members_config_ok cfg"
    and st: "sget (RingKeysStatus s) (i, r) = Some st" and ok: "build_ring cfg env i r n s = Inr s'"
  obtains info L inter inter' rv st' R Q S E C where "sget (Collections s) i = Some info"
    "length L = rs_total st" "keys_of s i r = page (flexible_ring_capacity cfg) L" "rs_included st \<le> length L"
    "inter = (case sget (Root s) (i, r) of Some rr \<Rightarrow> rr_intermediate rr | None \<Rightarrow> start_members cfg (ci_ring_size info))"
    "push_members cfg inter (take n (drop (rs_included st) L)) (fetch_chunks cfg env (ci_ring_size info)) = Some inter'"
    "rs_total st' = rs_total st" "rs_included st' = min (length L) (rs_included st + n)"
    "s' = s\<lparr>StaleRings := S, RingKeysStatus := sput (i, r) st' (RingKeysStatus s),
       Root := sput (i, r) \<lparr>rr_root = finish_members cfg inter', rr_revision = rv, rr_intermediate = inter'\<rparr> (Root s),
       OldRoots := Q, root_changes := C, members_events := E\<rparr>"
proof -
  have cap: "0 < flexible_ring_capacity cfg" using cfg by (simp add: members_config_ok_def members_integrity_test_def)
  note c = members_invD(1) [OF inv, of i]
  obtain info where live: "sget (Collections s) i = Some info" using ok by (auto simp: build_ring_def)
  obtain L where L: "length L = rs_total st" "keys_of s i r = page (flexible_ring_capacity cfg) L" "rs_included st \<le> length L"
    using ring_list [OF c st] by blast
  have "stotal (view s i) r \<le> ring_capacity cfg (ci_ring_size info)"
    using live_invD(2) [OF coll_invD(5) [OF c]] live by simp
  then have u32: "length L \<le> u32_max"
    using cfg L(1) st le_trans by (fastforce simp: members_config_ok_def stotal_def)
  have sto: "status_of s i r = st" using st by (simp add: status_of_def sget_or_def)
  note bl = build_loop_result [OF cap u32 L(3), of n "[]", unfolded append_Nil]
  let ?inter = "case sget (Root s) (i, r) of Some rr \<Rightarrow> rr_intermediate rr | None \<Rightarrow> start_members cfg (ci_ring_size info)"
  obtain rv inter where inter: "(case sget (Root s) (i, r) of
        Some existing \<Rightarrow> ok_or (checked_add u32_max (rr_revision existing) 1) (External ''Overflow'')
           (\<lambda>next. Inr (next, rr_intermediate existing))
      | None \<Rightarrow> Inr (0, start_members cfg (ci_ring_size info))) = (Inr (rv, inter) :: MembersError dispatch_error + (nat \<times> 'c))"
    using ok live by (auto simp: build_ring_def Let_def)
  then have eq: "inter = ?inter" by (auto split: option.splits)
  obtain inter' where push: "push_members cfg inter (take n (drop (rs_included st) L)) (fetch_chunks cfg env (ci_ring_size info)) = Some inter'"
    using ok live inter bl L by (auto simp: build_ring_def Let_def sto)
  define st' where "st' = (let status1 = st\<lparr>rs_included := min (length L) (rs_included st + n)\<rparr>
      in if min (length L) (rs_included st + n) = rs_total st \<and> ci_mode info = AppendOnlyRings \<and> rs_total st = ring_capacity cfg (ci_ring_size info)
         then status1\<lparr>rs_immutable_since := Some (env_now env)\<rparr> else status1)"
  have "s' = s\<lparr>StaleRings := StaleRings s', RingKeysStatus := sput (i, r) st' (RingKeysStatus s),
       Root := sput (i, r) \<lparr>rr_root = finish_members cfg inter', rr_revision = rv, rr_intermediate = inter'\<rparr> (Root s),
       OldRoots := OldRoots s', root_changes := root_changes s', members_events := members_events s'\<rparr>"
    using ok live inter bl L push
    by (auto simp: build_ring_def Let_def sto st'_def members_deposit_def on_ring_root_change_def)
  moreover have "rs_total st' = rs_total st" "rs_included st' = min (length L) (rs_included st + n)"
    by (simp_all add: st'_def Let_def)
  ultimately show thesis using that [OF live L eq push] by blast
qed

lemma build_ring_inv:
  assumes inv: "members_inv cfg s" and cfg: "members_config_ok cfg"
    and auth: "should_build_ring i r limit s \<noteq> None" and ok: "build_ring cfg env i r n s = Inr s'"
  shows "members_inv cfg s'"
proof -
  obtain st where st: "sget (RingKeysStatus s) (i, r) = Some st"
    using auth by (cases "sget (RingKeysStatus s) (i, r)")
      (auto simp: should_build_ring_def status_of_def sget_or_def default_status_def Let_def split: if_splits)
  note c = members_invD(1) [OF inv, of i] and wf = members_invD(2) [OF inv]
  show ?thesis
    using inv cfg st ok
  proof (rule build_ring_Some)
    fix L :: "'a list" and st' S R Q C E
    assume L: "length L = rs_total st" and st': "rs_total st' = rs_total st" "rs_included st' = min (length L) (rs_included st + n)"
      and s': "s' = s\<lparr>StaleRings := S, RingKeysStatus := sput (i, r) st' (RingKeysStatus s), Root := R,
       OldRoots := Q, root_changes := C, members_events := E\<rparr>"
    show ?thesis
    proof (rule only_touches_inv [OF inv])
      show "only_touches i s s'" using wf by (auto simp: only_touches_def s' totals_other)
      have "totals_of i (sput (i, r) st' (RingKeysStatus s)) = totals_of i (RingKeysStatus s)"
        using totals_put(1) [OF wf, of i r st'] st st'(1) by simp
      then have "view s' i = (view s i)\<lparr>vstat := (vstat (view s i))(r \<mapsto> st')\<rparr>"
        by (intro cview.equality) (simp_all add: s' fun_upd_def)
      then show "coll_inv cfg (view s' i)" using build_step [OF c, of r st st'] st st' L by simp
    qed
  qed
qed

subsection \<open>Deleting rings\<close>

lemma release_loop_result:
  "\<exists>M. release_loop i r p n ks s = s\<lparr>Members := M\<rparr> \<and> (\<forall>j k. sget M (j, k) =
     (if j = i \<and> (\<exists>x < length ks. ks ! x = k \<and> sget (Members s) (i, k) = Some (Included r p (n + x)))
      then None else sget (Members s) (j, k)))"
proof (induction ks arbitrary: n s)
  case Nil
  show ?case by (intro exI [of _ "Members s"]) simp
next
  case (Cons a ks)
  let ?s1 = "if sget (Members s) (i, a) = Some (Included r p n) then s\<lparr>Members := sdel (i, a) (Members s)\<rparr> else s"
  obtain M where M: "release_loop i r p (Suc n) ks ?s1 = ?s1\<lparr>Members := M\<rparr>"
    "\<And>j k. sget M (j, k) = (if j = i \<and> (\<exists>x < length ks. ks ! x = k \<and> sget (Members ?s1) (i, k) = Some (Included r p (Suc n + x)))
      then None else sget (Members ?s1) (j, k))"
    using Cons.IH [of "Suc n" ?s1] by blast
  show ?case
  proof (intro exI [of _ M] conjI allI)
    show "release_loop i r p n (a # ks) s = s\<lparr>Members := M\<rparr>" using M(1) by (simp split: if_splits)
    show "sget M (j, k) = (if j = i \<and> (\<exists>x < length (a # ks). (a # ks) ! x = k \<and>
        sget (Members s) (i, k) = Some (Included r p (n + x))) then None else sget (Members s) (j, k))" for j k
      unfolding M(2) length_Cons Ex_less_Suc2 nth_Cons_0 nth_Cons_Suc by auto
  qed
qed

lemma delete_ring_page_inv:
  assumes inv: "members_inv cfg s" and del: "scontains (RingDeletionQueue s) (i, r, p)"
  shows "members_inv cfg (delete_ring_page_authorized i r p s)"
proof -
  note c = members_invD(1) [OF inv, of i]
  let ?s1 = "s\<lparr>RingDeletionQueue := sdel (i, r, p) (RingDeletionQueue s)\<rparr>"
  have k1: "keys_of ?s1 i r p = keys_of s i r p" by (simp add: keys_of_def)
  have m1: "Members ?s1 = Members s" by simp
  obtain M where loop: "release_loop i r p 0 (keys_of s i r p) ?s1 = ?s1\<lparr>Members := M\<rparr>"
    and M: "\<And>j k. sget M (j, k) = (if j = i \<and> (\<exists>x < length (keys_of s i r p). keys_of s i r p ! x = k \<and>
        sget (Members s) (i, k) = Some (Included r p x)) then None else sget (Members s) (j, k))"
    using release_loop_result [of i r p 0 "keys_of s i r p" ?s1] unfolding m1 add_0 by blast
  have s': "delete_ring_page_authorized i r p s = ?s1\<lparr>Members := M, RingKeys := sdel (i, r, p) (RingKeys s)\<rparr>"
    by (simp add: delete_ring_page_authorized_def delete_ring_page_def Let_def k1 loop)
  have M': "sget M (i, k) = (if \<exists>j. sget (Members s) (i, k) = Some (Included r p j) then None else sget (Members s) (i, k))" for k
    using place_invD(1) [OF coll_invD(2) [OF c], of k r p] unfolding M by auto
  show ?thesis
  proof (rule only_touches_inv [OF inv])
    show "only_touches i s (delete_ring_page_authorized i r p s)"
      using members_invD(2) [OF inv] by (auto simp: only_touches_def s' M intro!: cview.equality)
    have "view (delete_ring_page_authorized i r p s) i = (view s i)\<lparr>vdel := (vdel (view s i))(r := (vdel (view s i) r)(p := False)),
       vkeys := (vkeys (view s i))(r := (vkeys (view s i) r)(p := [])),
       vmem := (\<lambda>k. if \<exists>j. vmem (view s i) k = Some (Included r p j) then None else vmem (view s i) k)\<rparr>"
      by (intro cview.equality) (auto simp: s' M' fun_eq_iff keys_of_def)
    then show "coll_inv cfg (view (delete_ring_page_authorized i r p s) i)"
      using delete_page_step [OF c, of r p] del by simp
  qed
qed

lemma scontains_enqueue_pages:
  "scontains (enqueue_pages i r ps D) x \<longleftrightarrow> scontains D x \<or> (\<exists>p \<in> set ps. x = (i, r, p))"
  by (induction ps arbitrary: D) auto

lemma enqueue_view:
  assumes wf: "wf_storage (RingKeysStatus s)" and nodel: "\<And>p. \<not> scontains (RingDeletionQueue s) (i, r, p)"
    and act: "active_count s i = totals_of i (RingKeysStatus s)" and cap: "0 < flexible_ring_capacity cfg"
    and s': "s' = snd (enqueue_ring_for_deletion cfg now i r s)"
  shows "view s' i = (view s i)\<lparr>vstat := (vstat (view s i))(r := None), vpend := (vpend (view s i))(r := None),
     vdel := (vdel (view s i))(r := (\<lambda>p. p < page_count (stotal (view s i) r) (flexible_ring_capacity cfg))),
     vact := totals_of i (sdel (i, r) (RingKeysStatus s)), vsum := totals_of i (sdel (i, r) (RingKeysStatus s))\<rparr>"
    and "only_touches i s s'"
proof -
  let ?n = "stotal (view s i) r"
  let ?a = "archive_and_notify now i r s"
  obtain R Q C where a: "?a = s\<lparr>Root := R, OldRoots := Q, root_changes := C\<rparr>"
  proof -
    have "?a = s\<lparr>Root := Root ?a, OldRoots := OldRoots ?a, root_changes := root_changes ?a\<rparr>"
      by (simp add: archive_and_notify_def archive_root_def on_ring_root_change_def split: option.splits)
    then show thesis using that by blast
  qed
  have tot: "rs_total (status_of ?a i r) = ?n" by (simp add: a status_of_def stotal_def sget_or_def default_status_def split: option.splits)
  have sum: "totals_of i (sdel (i, r) (RingKeysStatus s)) = totals_of i (RingKeysStatus s) - ?n"
    using totals_put(2) [OF wf, of i r] by (simp add: stotal_def)
  define x where "x = s\<lparr>StaleRings := sdel (i, r) (StaleRings s), PendingSuspensions := sdel (i, r) (PendingSuspensions s),
      RingKeysStatus := sdel (i, r) (RingKeysStatus s), ActiveMembers := (if ?n = 0 then ActiveMembers s else sput i (active_count s i - ?n) (ActiveMembers s)),
      RingDeletionQueue := (if ?n = 0 then RingDeletionQueue s
        else enqueue_pages i r [0..<page_count ?n (flexible_ring_capacity cfg)] (RingDeletionQueue s))\<rparr>"
  have "s' = x\<lparr>Root := R, OldRoots := Q, root_changes := C\<rparr>"
    using tot by (simp add: s' enqueue_ring_for_deletion_def Let_def a x_def active_count_def)
  then have vx: "view s' j = view x j" "RingKeysStatus s' = RingKeysStatus x" for j by simp_all
  have zero: "?n = 0 \<Longrightarrow> page_count ?n (flexible_ring_capacity cfg) = 0" by (simp add: page_count_def)
  have act': "sget_or 0 (ActiveMembers s) i = active_count s i" by (simp add: active_count_def)
  show "view s' i = (view s i)\<lparr>vstat := (vstat (view s i))(r := None), vpend := (vpend (view s i))(r := None),
     vdel := (vdel (view s i))(r := (\<lambda>p. p < page_count ?n (flexible_ring_capacity cfg))),
     vact := totals_of i (sdel (i, r) (RingKeysStatus s)), vsum := totals_of i (sdel (i, r) (RingKeysStatus s))\<rparr>"
    unfolding vx x_def
    by (cases "?n = 0"; intro cview.equality)
       (use nodel act zero sum in \<open>auto simp: fun_eq_iff scontains_enqueue_pages act'\<close>)
  show "only_touches i s s'"
    using wf unfolding only_touches_def vx x_def
    by (cases "?n = 0") (auto simp: totals_other scontains_enqueue_pages intro!: cview.equality)
qed

lemma enqueue_inv:
  assumes inv: "members_inv cfg s" and cfg: "members_config_ok cfg" and susp: "scontains (SuspendedCollections s) i"
    and st: "scontains (RingKeysStatus s) (i, r)"
  shows "members_inv cfg (snd (enqueue_ring_for_deletion cfg now i r s))"
proof -
  note c = members_invD(1) [OF inv, of i] and wf = members_invD(2) [OF inv]
  have cap: "0 < flexible_ring_capacity cfg" using cfg by (simp add: members_config_ok_def members_integrity_test_def)
  have none: "vinfo (view s i) = None" using live_invD(1) [OF coll_invD(5) [OF c]] susp by (cases "vinfo (view s i)") auto
  have nodel: "\<not> scontains (RingDeletionQueue s) (i, r, p)" for p
    using pages_invD(2) [OF coll_invD(4) [OF c], of r p] st by (auto simp: scontains_def)
  have act: "active_count s i = totals_of i (RingKeysStatus s)" using coll_invD(7) [OF c] by simp
  note V = enqueue_view [OF wf nodel act cap refl]
  show ?thesis
    by (rule only_touches_inv [OF inv V(2)], unfold V(1), rule enqueue_step [OF c refl cap])
       (use none susp nodel in auto)
qed

lemma remove_ring_inv:
  assumes inv: "members_inv cfg s" and cfg: "members_config_ok cfg" and ok: "remove_ring cfg now i r s = Inr s'"
    and ao: "\<And>info. sget (Collections s) i = Some info \<Longrightarrow> ci_mode info = AppendOnlyRings"
  shows "members_inv cfg s'"
proof (cases "list_ex (\<lambda>((j, q, _), _). j = i \<and> q = r) (RingDeletionQueue s)")
  case True
  then show ?thesis using ok inv by (auto simp: remove_ring_def)
next
  case False
  note c = members_invD(1) [OF inv, of i] and wf = members_invD(2) [OF inv]
  have cap: "0 < flexible_ring_capacity cfg" using cfg by (simp add: members_config_ok_def members_integrity_test_def)
  have s': "s' = snd (enqueue_ring_for_deletion cfg now i r s)" and ne: "r \<noteq> current_ring s i" and co: "scontains (Collections s) i"
    using ok False by (auto simp: remove_ring_def)
  obtain info where l: "vinfo (view s i) = Some info" "ci_mode info = AppendOnlyRings" using co ao by (auto simp: scontains_def)
  have nodel: "\<not> scontains (RingDeletionQueue s) (i, r, p)" for p
  proof
    assume "scontains (RingDeletionQueue s) (i, r, p)"
    then have "(i, r, p) \<in> fst ` set (RingDeletionQueue s)" by (simp add: scontains_def sget_None_iff del: not_None_eq)
    then show False using False by (auto simp: list_ex_iff)
  qed
  have act: "active_count s i = totals_of i (RingKeysStatus s)" using coll_invD(7) [OF c] by simp
  note V = enqueue_view [OF wf nodel act cap s'] and LI = live_invD [OF coll_invD(5) [OF c] l(1)]
  have "coll_inv cfg (view s' i)"
  proof (cases "r < current_ring s i")
    case True
    then show ?thesis unfolding V(1) by (intro enqueue_step [OF c refl cap]) (use l nodel in auto)
  next
    case False
    then have "vstat (view s i) r = None" "vpend (view s i) r = None" using LI(6,7) [OF l(2), of r] ne by auto
    moreover from this have "totals_of i (sdel (i, r) (RingKeysStatus s)) = totals_of i (RingKeysStatus s)"
      using totals_put(2) [OF wf, of i r] by simp
    ultimately have "view s' i = view s i"
      unfolding V(1) using nodel act by (intro cview.equality) (auto simp: fun_eq_iff stotal_def page_count_def)
    then show ?thesis using c by simp
  qed
  then show ?thesis using only_touches_inv [OF inv V(2)] by simp
qed

subsection \<open>Deleting and creating collections\<close>

lemma sget_fold_sdel:
  "sget (fold (\<lambda>k. sdel (i, k)) ks m) (j, k) = (if j = i \<and> k \<in> set ks then None else sget m (j, k))"
  by (induction ks arbitrary: m) auto

lemma no_prefix1: "\<not> has_prefix1 i m \<Longrightarrow> sget m (i, k) = None"
  by (auto simp: has_prefix1_def list_ex_iff sget_None_iff split_beta)

lemma delete_queue_page_inv:
  assumes inv: "members_inv cfg s" and susp: "scontains (SuspendedCollections s) i"
  shows "members_inv cfg (snd (delete_onboarding_queue_page i p s))"
proof -
  note c = members_invD(1) [OF inv, of i]
  let ?s' = "snd (delete_onboarding_queue_page i p s)" and ?ks = "queue_of s i p"
  note Q = queue_invD [OF coll_invD(1) [OF c]]
  have s': "?s' = s\<lparr>OnboardingQueue := sdel (i, p) (OnboardingQueue s), Members := fold (\<lambda>k. sdel (i, k)) ?ks (Members s)\<rparr>"
    by (simp add: delete_onboarding_queue_page_def Let_def)
  show ?thesis
  proof (rule only_touches_inv [OF inv])
    show "only_touches i s ?s'"
      using members_invD(2) [OF inv] by (auto simp: only_touches_def s' sget_fold_sdel)
    have "view ?s' i = (view s i)\<lparr>vqueue := (vqueue (view s i))(p := []),
        vmem := (\<lambda>k. if k \<in> set ?ks then None else vmem (view s i) k), vspan := queue_pages s i\<rparr>"
      by (intro cview.equality) (auto simp: s' sget_fold_sdel fun_eq_iff queue_of_def)
    moreover have "coll_inv cfg ((view s i)\<lparr>vqueue := (vqueue (view s i))(p := []),
        vmem := (\<lambda>k. if k \<in> set ?ks then None else vmem (view s i) k), vspan := queue_pages s i\<rparr>)"
    proof (rule unqueue_step [OF c])
      show "set (((vqueue (view s i))(p := [])) q) = set (vqueue (view s i) q) - set ?ks" for q
      proof -
        have "set (queue_of s i q) \<inter> set (queue_of s i p) = {}" if "q \<noteq> p" using Q(1) that by fastforce
        then show ?thesis by (cases "q = p") auto
      qed
    qed (use Q susp in \<open>auto split: if_splits\<close>)
    ultimately show "coll_inv cfg (view ?s' i)" by simp
  qed
qed

lemma finalize_inv:
  assumes inv: "members_inv cfg s" and susp: "scontains (SuspendedCollections s) i"
    and gone: "\<not> has_prefix1 i (RingKeysStatus s)" "\<not> has_prefix1 i (RingDeletionQueue s)" "\<not> has_prefix1 i (OnboardingQueue s)"
  shows "members_inv cfg (finalize_collection_deletion i s)"
proof -
  note c = members_invD(1) [OF inv, of i]
  have none: "vinfo (view s i) = None" using live_invD(1) [OF coll_invD(5) [OF c]] susp by (cases "vinfo (view s i)") auto
  have sum: "totals_of i (RingKeysStatus s) = 0"
    unfolding totals_of_def using gone(1) by (intro ssum_eq_0) (auto simp: has_prefix1_def list_ex_iff split_beta)
  show ?thesis
  proof (rule only_touches_inv [OF inv])
    show "only_touches i s (finalize_collection_deletion i s)"
      using members_invD(2) [OF inv] by (simp add: only_touches_def finalize_collection_deletion_def Let_def members_deposit_def)
    have "view (finalize_collection_deletion i s) i = (view s i)\<lparr>vsusp := False, vcur := 0, vspan := (0, 0), vact := 0\<rparr>"
      by (intro cview.equality) (simp_all add: finalize_collection_deletion_def Let_def)
    moreover have "coll_inv cfg ((view s i)\<lparr>vsusp := False, vcur := 0, vspan := (0, 0), vact := 0\<rparr>)"
      by (rule finalize_step [OF c])
         (use gone none sum in \<open>simp_all add: no_prefix1 scontains_def queue_of_def sget_or_def\<close>)
    ultimately show "coll_inv cfg (view (finalize_collection_deletion i s) i)" by simp
  qed
qed

lemma create_collection_inv:
  assumes inv: "members_inv cfg s" and cfg: "members_config_ok cfg"
    and ok: "create_collection cfg owner i sz mode ring_size delay s = Inr s'"
  shows "members_inv cfg s'"
proof -
  note c = members_invD(1) [OF inv, of i]
  let ?info = "\<lparr>ci_owner = ExternalOwner owner, ci_mode = mode, ci_ring_size = ring_size, ci_self_inclusion_delay = delay\<rparr>"
  obtain I Z R where s': "s' = s\<lparr>IdentifiersOf := I, Collections := sput i ?info (Collections s), OnboardingSize := Z, RingsState := R\<rparr>"
    and new: "\<not> scontains (Collections s) i" "\<not> scontains (SuspendedCollections s) i"
    and flex: "mode = FlexibleRings \<Longrightarrow> ring_capacity cfg ring_size \<le> flexible_ring_capacity cfg"
    using ok by (auto simp: create_collection_def Let_def flexible_ring_capacity_def)
  show ?thesis
  proof (rule only_touches_inv [OF inv])
    show "only_touches i s s'" using members_invD(2) [OF inv] by (simp add: only_touches_def s')
    have "view s' i = (view s i)\<lparr>vinfo := Some ?info\<rparr>" by (simp add: s')
    then show "coll_inv cfg (view s' i)"
      using create_step [OF c, of ?info] new flex cfg by (simp add: scontains_def members_config_ok_def)
  qed
qed

lemma delete_collection_inv:
  assumes inv: "members_inv cfg s" and ok: "delete_collection owner i s = Inr s'"
  shows "members_inv cfg s'"
proof -
  note c = members_invD(1) [OF inv, of i]
  obtain info where live: "sget (Collections s) i = Some info"
    and s': "s' = members_deposit (CollectionMarked i)
       (s\<lparr>Collections := sdel i (Collections s), SuspendedCollections := sput i info (SuspendedCollections s)\<rparr>)"
    using ok by (auto simp: delete_collection_def)
  show ?thesis
  proof (rule only_touches_inv [OF inv])
    show "only_touches i s s'" using members_invD(2) [OF inv] by (simp add: only_touches_def s' members_deposit_def)
    have "view s' i = (view s i)\<lparr>vinfo := None, vsusp := True\<rparr>" by (simp add: s')
    then show "coll_inv cfg (view s' i)" using mark_step [OF c, of info] live by simp
  qed
qed

lemma clean_up_loop_view:
  "view (clean_up_loop cfg now i r n s) j = view s j \<and> RingKeysStatus (clean_up_loop cfg now i r n s) = RingKeysStatus s"
  by (induction n arbitrary: s) (auto simp: members_deposit_def split: option.splits)

end
