(* ===== verification/Members_Props.thy ===== *)
theory Members_Props
  imports Members_Steps Members_Delete
begin

text \<open>
  The members pallet as a whole: a step is one call with its authorisation, in its environment; the invariant
  holds after every run of steps, and what it says about the records, rings and counters of a collection.
\<close>

subsection \<open>Steps\<close>

datatype 'm members_op =
    Maintain bool "'m maintenance_call"
  | SelfInclude bool coll_id 'm nat
  | SetOnboardingSize bool coll_id nat
  | MergeRings bool coll_id nat nat
  | CreateCollection bytes coll_id nat RingMode RingExponent "nat option"
  | AddMembers coll_id "'m list"
  | RemoveRing coll_id nat
  | DeleteCollection bytes coll_id
  | RemoveMembers coll_id "'m list"
  | StartRemoval coll_id
  | EndRemoval coll_id

datatype members_failure =
    Unauthorized AuthorizeInvalidity
  | NotValid AsMemberInvalid
  | Failed "MembersError dispatch_error"

fun members_step ::
  "('m, 'root, 'inter, 'c) members_config \<Rightarrow> 'c members_env \<times> 'm members_op \<Rightarrow>
   ('m, 'root, 'inter) members_state \<Rightarrow> members_failure + ('m, 'root, 'inter) members_state" where
  "members_step cfg (env, Maintain local c) s =
     on_ok (map_err Unauthorized (members_authorize cfg (env_now env) local c s))
       (\<lambda>_. map_err Failed (maintenance_dispatch cfg env c s))"
| "members_step cfg (env, SelfInclude good_sig i m call_valid_at) s =
     on_ok (map_err NotValid (as_member_validate (env_now env) (\<lambda>_. good_sig) True (Some (i, m, call_valid_at)) s))
       (\<lambda>origin. map_err Failed (self_include cfg (Some origin) i m call_valid_at s))"
| "members_step cfg (env, SetOnboardingSize manager i n) s = map_err Failed (set_onboarding_size cfg manager i n s)"
| "members_step cfg (env, MergeRings is_signed i base target) s =
     on_ok (map_err Failed (merge_rings cfg (env_now env) is_signed i base target s)) (\<lambda>(_, s1). Inr s1)"
| "members_step cfg (env, CreateCollection owner i n mode ring_size delay) s =
     map_err (Failed \<circ> Module) (create_collection cfg owner i n mode ring_size delay s)"
| "members_step cfg (env, AddMembers i ms) s = map_err (Failed \<circ> Module) (add_members cfg (env_now env) i ms s)"
| "members_step cfg (env, RemoveRing i r) s = map_err (Failed \<circ> Module) (remove_ring cfg (env_now env) i r s)"
| "members_step cfg (env, DeleteCollection owner i) s = map_err (Failed \<circ> Module) (delete_collection owner i s)"
| "members_step cfg (env, RemoveMembers i ms) s = map_err (Failed \<circ> Module) (remove_members cfg i ms s)"
| "members_step cfg (env, StartRemoval i) s = map_err (Failed \<circ> Module) (start_removal_session i s)"
| "members_step cfg (env, EndRemoval i) s = map_err (Failed \<circ> Module) (end_removal_session i s)"

text \<open>
  What the callers have to respect, since the code does not check it: rings are merged and members removed only
  in a flexible collection, a ring is removed only from an append-only one; and a step that includes members
  finds room in the \<open>u32\<close> counters.
\<close>

definition mode_is :: "RingMode \<Rightarrow> coll_id \<Rightarrow> ('m, 'root, 'inter) members_state \<Rightarrow> bool" where
  "mode_is mode i s = (case sget (Collections s) i of None \<Rightarrow> False | Some info \<Rightarrow> ci_mode info = mode)"

definition room_left :: "('m, 'root, 'inter, 'c) members_config \<Rightarrow> coll_id \<Rightarrow> ('m, 'root, 'inter) members_state \<Rightarrow> bool" where
  "room_left cfg i s = (current_ring s i < u32_max \<and>
     (case sget (Collections s) i of None \<Rightarrow> True
      | Some info \<Rightarrow> active_count s i + ring_capacity cfg (ci_ring_size info) \<le> u32_max))"

fun members_guard ::
  "('m, 'root, 'inter, 'c) members_config \<Rightarrow> 'c members_env \<times> 'm members_op \<Rightarrow> ('m, 'root, 'inter) members_state \<Rightarrow> bool" where
  "members_guard cfg (env, Maintain local (OnboardMembers i r h m)) s = room_left cfg i s"
| "members_guard cfg (env, SelfInclude good_sig i m t) s = room_left cfg i s"
| "members_guard cfg (env, MergeRings is_signed i base target) s = mode_is FlexibleRings i s"
| "members_guard cfg (env, RemoveMembers i ms) s = mode_is FlexibleRings i s"
| "members_guard cfg (env, RemoveRing i r) s = mode_is AppendOnlyRings i s"
| "members_guard cfg (env, _) s = True"

lemma room_left_room: "room_left cfg i s \<Longrightarrow> members_room cfg i s"
  by (simp add: room_left_def members_room_def split: option.splits)

lemma config_okD:
  "members_config_ok cfg \<Longrightarrow> 0 < flexible_ring_capacity cfg" "members_config_ok cfg \<Longrightarrow> 0 < OnboardingQueuePageSize cfg"
  by (simp_all add: members_config_ok_def members_integrity_test_def)

lemma merge_queue_pages_live:
  assumes inv: "members_inv cfg s" and auth: "ensure_can_merge_queue_pages cfg i h h' s = Inr ()"
  shows "scontains (Collections s) i"
proof (rule ccontr)
  assume "\<not> scontains (Collections s) i"
  moreover have ne: "\<not> scontains (SuspendedCollections s) i" "fst (queue_pages s i) \<noteq> snd (queue_pages s i)"
    using auth by (auto simp: ensure_can_merge_queue_pages_def should_merge_queue_pages_def Let_def split: if_splits prod.splits)
  ultimately have "queue_pages s i = (0, 0)"
    using coll_invD(6) [OF members_invD(1) [OF inv, of i]] by (simp add: gone_inv_def scontains_def)
  with ne(2) show False by simp
qed

lemma maintenance_inv:
  assumes inv: "members_inv cfg s" and cfg: "members_config_ok cfg" and guard: "members_guard cfg (env, Maintain local c) s"
    and auth: "members_authorize cfg (env_now env) local c s = Inr ()" and ok: "maintenance_dispatch cfg env c s = Inr s'"
  shows "members_inv cfg s'"
proof (cases c)
  case (BuildRing i r e rv n)
  then have "should_build_ring i r (RingBuildingMemberLimit cfg) s \<noteq> None"
    using auth by (auto simp: ensure_can_build_ring_def check_revision_def split: if_splits)
  then show ?thesis using build_ring_inv [OF inv cfg _ ok [unfolded BuildRing maintenance_dispatch.simps]] by simp
next
  case (OnboardMembers i r h m)
  then show ?thesis
    using onboard_members_inv [OF inv cfg, of i] ok guard by (auto simp: onboard_members_authorized_def dest: room_left_room)
next
  case (MergeQueuePages i h h')
  then have "ensure_can_merge_queue_pages cfg i h h' s = Inr ()" using auth by simp
  then show ?thesis using merge_queue_pages_inv [OF inv] merge_queue_pages_live [OF inv] ok MergeQueuePages by simp
next
  case (RemoveSuspendedKeys i r rv)
  then have "pending_of s i r \<noteq> []" using auth
    by (auto simp: ensure_can_remove_suspended_keys_def should_remove_suspended_keys_def split: if_splits)
  then show ?thesis using remove_suspended_keys_inv [OF inv cfg] ok RemoveSuspendedKeys by auto
next
  case (DeleteRingPage i r p)
  then show ?thesis using delete_ring_page_inv [OF inv] ok auth by (auto simp: ensure_can_delete_ring_page_def)
next
  case (EnqueueRingDeletion i r)
  then show ?thesis using enqueue_inv [OF inv cfg] ok auth by (auto simp: ensure_can_enqueue_ring_deletion_def)
next
  case (DeleteOnboardingQueuePage i p)
  then show ?thesis using delete_queue_page_inv [OF inv] ok auth by (auto simp: ensure_can_delete_onboarding_queue_page_def)
next
  case (FinalizeCollectionDeletion i)
  then show ?thesis using finalize_inv [OF inv] ok auth by (auto simp: ensure_can_finalize_collection_deletion_def)
next
  case (MarkRingStale i r)
  then show ?thesis
    using members_inv_frame [OF inv, of s'] members_invD(2) [OF inv] ok by (auto simp: mark_ring_stale_authorized_def)
next
  case (CleanUpOldRoots i r n)
  then show ?thesis using members_inv_frame [OF inv, of s'] members_invD(2) [OF inv] ok by (auto simp: clean_up_loop_view)
qed

lemma members_step_inv:
  assumes cfg: "members_config_ok cfg" and inv: "members_inv cfg s" and guard: "members_guard cfg x s"
    and ok: "members_step cfg x s = Inr s'"
  shows "members_inv cfg s'"
proof -
  obtain env y where x: "x = (env, y)" by fastforce
  note frame = members_inv_frame [OF inv, of s'] members_invD(2) [OF inv]
  show ?thesis
  proof (cases y)
    case (Maintain local c)
    then show ?thesis using maintenance_inv [OF inv cfg, of env local c s'] guard ok x by auto
  next
    case (SelfInclude sg i m t)
    then show ?thesis
      using do_self_include_inv [OF inv cfg, of i m] guard ok x
      by (auto simp: self_include_def members_inv_def members_deposit_def dest!: room_left_room)
  next
    case (MergeRings sg i b t)
    then obtain py where "merge_rings cfg (env_now env) sg i b t s = Inr (py, s')" using ok x by auto
    then show ?thesis
      by (rule merge_rings_inv [OF inv cfg]) (use guard x MergeRings in \<open>simp add: mode_is_def\<close>)
  next
    case (CreateCollection ow i n mode sz d)
    then show ?thesis using create_collection_inv [OF inv cfg] ok x by auto
  next
    case (AddMembers i ms)
    then show ?thesis using add_loop_inv [OF inv _ config_okD(2) [OF cfg]] ok x by (auto simp: add_members_def)
  next
    case (RemoveRing i r)
    then have "remove_ring cfg (env_now env) i r s = Inr s'" using ok x by simp
    then show ?thesis
      by (rule remove_ring_inv [OF inv cfg]) (use guard x RemoveRing in \<open>simp add: mode_is_def\<close>)
  next
    case (DeleteCollection ow i)
    then show ?thesis using delete_collection_inv [OF inv] ok x by auto
  next
    case (RemoveMembers i ms)
    then show ?thesis
      using suspend_loop_inv [OF inv _ _ _ config_okD(1) [OF cfg]] guard ok x
      by (auto simp: remove_members_def queue_member_suspensions_def mode_is_def split: option.splits)
  next
    case (SetOnboardingSize mgr i n)
    then show ?thesis using frame ok x by (auto simp: set_onboarding_size_def members_deposit_def)
  next
    case (StartRemoval i)
    then show ?thesis using frame ok x inv by (auto simp: start_removal_session_def split: if_splits)
  next
    case (EndRemoval i)
    then show ?thesis using frame ok x inv by (auto simp: end_removal_session_def split: if_splits)
  qed
qed

lemma members_genesis_inv: "members_inv cfg members_genesis"
proof -
  define g where "g = (members_genesis :: ('a, 'b, 'c) members_state)"
  have "view g i = \<lparr>vinfo = None, vsusp = False, vmem = (\<lambda>_. None), vkeys = (\<lambda>_ _. []), vqueue = (\<lambda>_. []),
      vpend = (\<lambda>_. None), vstat = (\<lambda>_. None), vdel = (\<lambda>_ _. False), vcur = 0, vspan = (0, 0), vact = 0, vsum = 0\<rparr>" for i
    by (rule cview.equality) (simp_all add: g_def members_genesis_def view_def keys_of_def queue_of_def current_ring_def
        queue_pages_def active_count_def totals_of_def scontains_def)
  then have "coll_inv cfg (view g i)" for i
    by (simp add: coll_inv_def queue_inv_def place_inv_def pend_inv_def pages_inv_def live_inv_def
        gone_inv_def span_ok_def stotal_def)
  moreover have "wf_storage (RingKeysStatus g)" by (simp add: g_def members_genesis_def)
  ultimately show ?thesis unfolding g_def by (simp add: members_inv_def)
qed

interpretation members: pallet_contract "members_step cfg" "\<lambda>s. members_config_ok cfg \<and> members_inv cfg s" "members_guard cfg"
  for cfg
  by unfold_locales (auto intro: members_step_inv)

lemma members_reachable:
  assumes "members_config_ok cfg" and "guarded_run (members_step cfg) (members_guard cfg) ops members_genesis"
  shows "members_inv cfg (run_calls (members_step cfg) ops members_genesis)"
  using members.run_keeps [of cfg members_genesis ops] assms members_genesis_inv by blast

end
