(* ===== verification/Members_Demo.thy ===== *)
theory Members_Demo
  imports Members_Props "HOL-Library.Code_Target_Nat"
begin

text \<open>
  A concrete configuration of the members pallet for the witnesses of the properties: members are numbers,
  a root is the list of the keys it commits to, the rings of the smallest exponent have two keys in one page and
  the others four and six keys in two and three pages.
\<close>

definition demo_members :: "(nat, nat list, nat list, nat) members_config" where
  "demo_members = \<lparr>MaxCollections = 4, OnboardingQueuePageSize = 2, MaxFlexibleRingExponent = R2e9,
     RingBuildingMemberLimit = 2, OldRootRetentionDuration = 100, OffchainWorkerInterval = 1,
     ring_capacity = (\<lambda>e. case e of R2e9 \<Rightarrow> 2 | R2e10 \<Rightarrow> 4 | R2e14 \<Rightarrow> 6), capacity_supported = (\<lambda>_. True),
     start_members = (\<lambda>_. []), push_members = (\<lambda>inter ks _. Some (inter @ ks)), finish_members = id,
     is_member_valid = (\<lambda>_. True),
     ChunksManager = \<lparr>PageSize = 4, decode_chunks = (\<lambda>b. Some (map unat b)), blake2_256 = id\<rparr>\<rparr>"

definition demo_env :: "nat \<Rightarrow> nat members_env" where
  "demo_env now = \<lparr>env_now = now, env_chunks = \<lparr>Chunks = [], ChunkPageHashes = [], chunks_events = []\<rparr>\<rparr>"

lemma demo_members_ok: "members_config_ok demo_members"
  by (simp add: members_config_ok_def members_integrity_test_def demo_members_def flexible_ring_capacity_def
      ALL_exponents_def split: RingExponent.splits)

text \<open>A flexible collection with three members, of whom two are in a ring with a root.\<close>

definition demo_flexible :: "(nat members_env \<times> nat members_op) list" where
  "demo_flexible = [
     (demo_env 10, CreateCollection [7] [1] 1 FlexibleRings R2e9 (Some 5)),
     (demo_env 10, AddMembers [1] [21, 22, 23]),
     (demo_env 11, Maintain True (OnboardMembers [1] 0 0 (Some 21))),
     (demo_env 12, Maintain True (BuildRing [1] 0 R2e9 None 2))]"

text \<open>An append-only collection whose first ring is full, built and two pages long.\<close>

definition demo_append_only :: "(nat members_env \<times> nat members_op) list" where
  "demo_append_only = [
     (demo_env 10, CreateCollection [7] [2] 1 AppendOnlyRings R2e10 None),
     (demo_env 10, AddMembers [2] [31, 32, 33, 34]),
     (demo_env 11, Maintain True (OnboardMembers [2] 0 0 (Some 31))),
     (demo_env 12, Maintain True (BuildRing [2] 0 R2e10 None 2)),
     (demo_env 13, Maintain True (BuildRing [2] 0 R2e10 (Some 0) 2))]"

text \<open>An append-only collection of the largest exponent, with a full ring of three pages.\<close>

definition demo_large :: "(nat members_env \<times> nat members_op) list" where
  "demo_large = [
     (demo_env 10, CreateCollection [7] [3] 1 AppendOnlyRings R2e14 None),
     (demo_env 10, AddMembers [3] [31, 32, 33, 34, 35, 36]),
     (demo_env 11, Maintain True (OnboardMembers [3] 0 0 (Some 31))),
     (demo_env 11, Maintain True (OnboardMembers [3] 0 2 (Some 35))),
     (demo_env 12, Maintain True (BuildRing [3] 0 R2e14 None 2))]"

abbreviation demo_state :: "(nat members_env \<times> nat members_op) list \<Rightarrow> (nat, nat list, nat list) members_state" where
  "demo_state ops \<equiv> run_calls (members_step demo_members) ops members_genesis"

lemma demo_guards:
  "guarded_run (members_step demo_members) (members_guard demo_members) demo_flexible members_genesis"
  "guarded_run (members_step demo_members) (members_guard demo_members) demo_append_only members_genesis"
  "guarded_run (members_step demo_members) (members_guard demo_members) demo_large members_genesis"
  by code_simp+

text \<open>A prover in which a proof names a member, which has to be in the root, and is its own alias.\<close>

definition demo_ring_prover :: "(nat, nat list) ring_prover" where
  "demo_ring_prover = \<lparr>validate_proof = (\<lambda>_ k root _ _. if k \<in> set root then Some [of_nat k] else None),
     batch_validate = (\<lambda>_ root items. if list_all (\<lambda>(k, _, _). k \<in> set root) items then Some (map (\<lambda>(k, _, _). [of_nat k]) items) else None),
     validate_multi = (\<lambda>_ k root contexts _. if k \<in> set root then Some (map (\<lambda>_. [of_nat k]) contexts) else None)\<rparr>"

end
