(* ===== verification/Members_Worker.thy ===== *)
theory Members_Worker
  imports Members_Demo
begin

text \<open>
  The offchain worker of the members pallet and the calls it submits: they pass their own authorisation, and
  a call that passes succeeds, so that free transactions are not wasted.
\<close>

subsection \<open>The worker's calls are authorised\<close>

lemma keys_with_prefix1_iff: "k \<in> set (keys_with_prefix1 i m) \<longleftrightarrow> scontains m (i, k)"
  by (force simp: keys_with_prefix1_def scontains_def sget_None_iff simp del: not_None_eq)

lemma entry_contained: "(k, v) \<in> set m \<Longrightarrow> scontains m k"
  by (force simp: scontains_def sget_None_iff simp del: not_None_eq)

lemma rev_less_irrefl [simp]: "rev_less v v = False"
  by (cases v) simp_all

lemma check_revision_same [simp]: "check_revision v v k = k"
  by (simp add: check_revision_def)

lemma old_root_cleanups_ok:
  "c \<in> set (old_root_cleanups cfg now s) \<Longrightarrow> members_authorize cfg now True c s = Inr ()"
  by (auto simp: old_root_cleanups_def ensure_can_clean_up_old_roots_def dest: sym split: option.splits if_splits)

lemma collection_deletions_ok:
  "c \<in> set (collection_deletions i s) \<Longrightarrow> scontains (SuspendedCollections s) i \<Longrightarrow>
   members_authorize cfg now True c s = Inr ()"
  by (auto simp: collection_deletions_def keys_with_prefix1_iff ensure_can_enqueue_ring_deletion_def
      ensure_can_delete_onboarding_queue_page_def ensure_can_finalize_collection_deletion_def split: if_splits)

lemma worker_authorized:
  assumes "c \<in> set (members_offchain_worker cfg now block s)"
  shows "members_authorize cfg now True c s = Inr ()"
proof -
  consider (susp) i r where "c = RemoveSuspendedKeys i r (ring_revision i r s)" "should_remove_suspended_keys i r True s"
    | (merge) i h h' ks ks' where "c = MergeQueuePages i h h'" "should_merge_queue_pages cfg i s = MergePages h h' ks ks'"
    | (onboard) i where "c = OnboardMembers i (current_ring s i) (fst (queue_pages s i)) (first_queued i (fst (queue_pages s i)) s)"
        "can_onboard_members cfg i (current_ring s i) (fst (queue_pages s i)) s"
    | (build) i r n info where "c = BuildRing i r (ci_ring_size info) (ring_revision i r s) n"
        "should_build_ring i r (RingBuildingMemberLimit cfg) s = Some n" "sget (Collections s) i = Some info"
    | (page) i r p v where "c = DeleteRingPage i r p" "((i, r, p), v) \<in> set (RingDeletionQueue s)"
    | (coll) i v where "c \<in> set (collection_deletions i s)" "(i, v) \<in> set (SuspendedCollections s)"
    | (roots) "c \<in> set (old_root_cleanups cfg now s)"
    using assms unfolding members_offchain_worker_def Let_def
    by (auto dest: sym split: if_splits option.splits QueueMergeAction.splits)
  then show ?thesis
  proof cases
    case susp
    then show ?thesis by (simp add: ensure_can_remove_suspended_keys_def)
  next
    case merge
    then show ?thesis by (simp add: ensure_can_merge_queue_pages_def)
  next
    case onboard
    then show ?thesis by (simp add: ensure_can_onboard_members_def)
  next
    case build
    then have "n \<noteq> 0" by (auto simp: should_build_ring_def Let_def split: if_splits)
    with build show ?thesis by (simp add: ensure_can_build_ring_def)
  next
    case page
    then show ?thesis by (simp add: ensure_can_delete_ring_page_def entry_contained)
  next
    case coll
    then show ?thesis using collection_deletions_ok entry_contained by metis
  next
    case roots
    then show ?thesis by (rule old_root_cleanups_ok)
  qed
qed

subsection \<open>Authorised calls succeed\<close>

lemma requeue_loop_ok:
  assumes "\<And>k. k \<in> set ks \<Longrightarrow> sget (Members s) (i, k) \<noteq> None"
  shows "\<exists>s'. requeue_loop i n ks s = Inr s'"
  using assms
proof (induction ks arbitrary: s)
  case (Cons k ks)
  then obtain pos where pos: "sget (Members s) (i, k) = Some pos" by auto
  let ?s1 = "case pos of Onboarding _ since \<Rightarrow> s\<lparr>Members := sput (i, k) (Onboarding n since) (Members s)\<rparr> | _ \<Rightarrow> s"
  have "\<exists>s'. requeue_loop i n ks ?s1 = Inr s'"
    by (rule Cons.IH) (use Cons.prems in \<open>auto split: RingPosition.splits\<close>)
  then show ?case using pos by simp
qed simp

lemma merge_queue_pages_ok:
  assumes inv: "members_inv cfg s" and auth: "ensure_can_merge_queue_pages cfg i h h' s = Inr ()"
  shows "is_ok (merge_queue_pages_authorized cfg i h h' s)"
proof -
  have fit: "length (queue_of s i h) + length (queue_of s i h') \<le> OnboardingQueuePageSize cfg"
    using auth by (auto simp: ensure_can_merge_queue_pages_def should_merge_queue_pages_def Let_def split: if_splits prod.splits)
  have "sget (Members s) (i, k) \<noteq> None" if "k \<in> set (queue_of s i h)" for k
    using queue_invD(1) [OF coll_invD(1) [OF members_invD(1) [OF inv, of i]], of k h] that by auto
  then obtain s1 where "requeue_loop i h' (queue_of s i h) s = Inr s1" using requeue_loop_ok by blast
  then show ?thesis using fit by (simp add: merge_queue_pages_authorized_def merge_queue_pages_def)
qed

lemma onboard_members_ok:
  assumes inv: "members_inv cfg s" and cfg: "members_config_ok cfg"
    and auth: "ensure_can_onboard_members cfg i r h m s = Inr ()"
  shows "is_ok (onboard_members_authorized cfg i s)"
proof -
  let ?cap = "flexible_ring_capacity cfg" and ?c = "current_ring s i"
  have r: "r = ?c" "h = fst (queue_pages s i)" and can: "can_onboard_members cfg i r h s"
    using auth by (auto simp: ensure_can_onboard_members_def)
  obtain info where live: "sget (Collections s) i = Some info" using can by (auto simp: can_onboard_members_def split: option.splits)
  let ?rc = "ring_capacity cfg (ci_ring_size info)"
  have cap: "0 < ?cap" and rc: "?rc \<le> u32_max" using cfg by (simp_all add: members_config_ok_def members_integrity_test_def)
  obtain L where L: "length L = stotal (view s i) ?c" "\<And>p. keys_of s i ?c p = page ?cap L p" "length L < ?rc"
    and av: "available_ring cfg i ?rc s = ((?c, length L div ?cap, drop (length L div ?cap * ?cap) L, status_of s i ?c), s)"
    using available_ring_live [OF inv live cap] by blast
  obtain t where sp: "queue_pages s i = (h, t)" using r(2) by (metis prod.collapse)
  obtain head all where w: "wanted (?rc - length L) (h, t) (queue_of s i) = (head, all)" by fastforce
  have "length (drop (length L div ?cap * ?cap) L) + length L div ?cap * ?cap = length L"
    unfolding last_page(2) [OF cap] by (simp add: mod_div_mult_eq)
  then have slots: "?rc - (length (drop (length L div ?cap * ?cap) L) + length L div ?cap * ?cap) = ?rc - length L" by simp
  have head: "(if length (queue_of s i h) < ?rc - length L \<and> h \<noteq> t then next_page h else h) = head"
    and all: "(if length (queue_of s i h) < ?rc - length L \<and> h \<noteq> t
        then queue_of s i h @ queue_of s i head else queue_of s i h) = all"
    using w by (auto simp: wanted_def split: if_splits)
  have len: "length all = (if length (queue_of s i h) < ?rc - length L \<and> h \<noteq> t
      then length (queue_of s i h) + length (queue_of s i (next_page h)) else length (queue_of s i h))"
    using all head by auto
  have "rs_total (status_of s i ?c) = length L" using L(1) by (simp add: status_total)
  then have "should_onboard_members i ?c (status_of s i ?c) (?rc - length L) (length all) (sget_or 0 (OnboardingSize s) i) ?rc s \<noteq> None"
    using can live sp unfolding can_onboard_members_def len r(1) Let_def by simp
  then obtain n filled where so: "should_onboard_members i ?c (status_of s i ?c) (?rc - length L) (length all)
      (sget_or 0 (OnboardingSize s) i) ?rc s = Some (n, filled)" by auto
  have ks: "distinct (take n all)" "\<And>k. k \<in> set (take n all) \<Longrightarrow> scontains (Members s) (i, k)"
    using wanted_distinct [OF coll_invD(1) [OF members_invD(1) [OF inv, of i]], of "?rc - length L" head all] w sp
    by (auto simp: scontains_def dest: in_set_takeD)
  have "\<exists>s1. onboard_loop cfg i ?c (length L div ?cap) (drop (length L div ?cap * ?cap) L) (take n all) s =
      Inr (length (L @ take n all) div ?cap, drop (length (L @ take n all) div ?cap * ?cap) (L @ take n all), s1) \<and>
      onboarded ?cap i ?c (L @ take n all)
       (append_positions ?cap ?c (length L) (take n all) (\<lambda>k. sget (Members s) (i, k))) s s1"
    by (rule onboard_loop_result [OF cap _ ks]) (use L rc should_onboard_Some [OF so] in simp_all)
  then obtain s1 where loop: "onboard_loop cfg i ?c (length L div ?cap) (drop (length L div ?cap * ?cap) L) (take n all) s =
      Inr (length (L @ take n all) div ?cap, drop (length (L @ take n all) div ?cap * ?cap) (L @ take n all), s1)" by blast
  note unf = onboard_members_def [of cfg i True s, unfolded live result_eval Let_def av prod.case slots sp head all so option.case loop]
  show ?thesis unfolding onboard_members_authorized_def unf by simp
qed

lemma exponent_supported: "members_config_ok cfg \<Longrightarrow> capacity_supported cfg e"
  by (cases e) (simp_all add: members_config_ok_def members_integrity_test_def ALL_exponents_def)

lemma build_ring_fails:
  assumes cfg: "members_config_ok cfg" and auth: "ensure_can_build_ring cfg i r e rv n s = Inr ()"
    and fails: "build_ring cfg env i r n s = Inl x"
  shows "x = Module CouldNotPush \<or> (x = External ''Overflow'' \<and> (\<exists>rv. ring_revision i r s = Some rv \<and> u32_max \<le> rv))"
proof -
  obtain info where live: "sget (Collections s) i = Some info" using auth by (auto simp: ensure_can_build_ring_def)
  obtain ks inc where bl: "build_loop (flexible_ring_capacity cfg) (keys_of s i r) (rs_total (status_of s i r)) n
      (rs_included (status_of s i r)) [] = (ks, inc)" by fastforce
  note unf = fails [unfolded build_ring_def live result_eval Let_def bl prod.case, simplified exponent_supported [OF cfg] result_eval]
  show ?thesis
  proof (cases "sget (Root s) (i, r)")
    case None
    then show ?thesis using unf
      by (cases "push_members cfg (start_members cfg (ci_ring_size info)) ks (fetch_chunks cfg env (ci_ring_size info))") simp_all
  next
    case (Some rr)
    then show ?thesis using unf
      by (cases "push_members cfg (rr_intermediate rr) ks (fetch_chunks cfg env (ci_ring_size info))")
         (simp_all add: checked_add_def ring_revision_def split: if_splits)
  qed
qed

end
