(* ===== verification/Members_Root.thy ===== *)
theory Members_Root
  imports Members_Props
begin

text \<open>
  What the root of a ring commits to: in every reachable state it is the root the crypto yields for the keys of
  the ring that count as included, pushed in their order from an empty ring.
\<close>

inductive built_from :: "('m, 'root, 'inter, 'c) members_config \<Rightarrow> RingExponent \<Rightarrow> 'm list \<Rightarrow> 'inter \<Rightarrow> bool"
  for cfg e where
  start: "built_from cfg e [] (start_members cfg e)"
| push: "built_from cfg e ks acc \<Longrightarrow> push_members cfg acc new chunks = Some acc' \<Longrightarrow> built_from cfg e (ks @ new) acc'"

text \<open>The keys of a ring, page after page.\<close>

definition ring_keys :: "nat \<Rightarrow> ('m, 'root, 'inter) members_state \<Rightarrow> coll_id \<Rightarrow> nat \<Rightarrow> 'm list" where
  "ring_keys cap s i r = concat (map (keys_of s i r) [0..<page_count (rs_total (status_of s i r)) cap])"

lemma concat_pages: "0 < cap \<Longrightarrow> concat (map (page cap L) [0..<n]) = take (n * cap) L"
proof (induction n)
  case (Suc n)
  have "take (Suc n * cap) L = take (n * cap) L @ take cap (drop (n * cap) L)"
    by (metis add.commute mult_Suc take_add)
  then show ?case using Suc by (simp add: page_def)
qed simp

lemma page_count_enough:
  assumes "0 < cap" shows "n \<le> page_count n cap * cap"
proof -
  have eq: "n div cap * cap + n mod cap = n" by (rule div_mult_mod_eq)
  moreover have "n mod cap < cap" using assms by simp
  ultimately have "n \<le> n div cap * cap + cap" by linarith
  then show ?thesis using eq by (cases "n mod cap = 0") (simp_all add: page_count_def)
qed

lemma ring_keys_eq:
  assumes "0 < cap" and "rs_total (status_of s i r) = length L" and "keys_of s i r = page cap L"
  shows "ring_keys cap s i r = L"
  unfolding ring_keys_def assms(2,3) concat_pages [OF assms(1)] using page_count_enough [OF assms(1)] by simp

lemma ring_keys_cong:
  "keys_of s' i r = keys_of s i r \<Longrightarrow> sget (RingKeysStatus s') (i, r) = sget (RingKeysStatus s) (i, r) \<Longrightarrow>
   ring_keys cap s' i r = ring_keys cap s i r"
  by (simp add: ring_keys_def status_of_def sget_or_def)

definition root_ok :: "('m, 'root, 'inter, 'c) members_config \<Rightarrow> ('m, 'root, 'inter) members_state \<Rightarrow> coll_id \<Rightarrow> nat \<Rightarrow> bool" where
  "root_ok cfg s i r \<longleftrightarrow> (case sget (Root s) (i, r) of
     None \<Rightarrow> rs_included (status_of s i r) = 0
   | Some rr \<Rightarrow> scontains (RingKeysStatus s) (i, r) \<and> rr_root rr = finish_members cfg (rr_intermediate rr) \<and>
       (\<forall>info. sget (Collections s) i = Some info \<longrightarrow> built_from cfg (ci_ring_size info)
         (take (rs_included (status_of s i r)) (ring_keys (flexible_ring_capacity cfg) s i r)) (rr_intermediate rr)))"

definition root_inv :: "('m, 'root, 'inter, 'c) members_config \<Rightarrow> ('m, 'root, 'inter) members_state \<Rightarrow> bool" where
  "root_inv cfg s \<longleftrightarrow> (\<forall>i r. root_ok cfg s i r)"

lemma root_ok_same:
  assumes "root_ok cfg s i r" and "sget (Root s') (i, r) = sget (Root s) (i, r)"
    and "sget (RingKeysStatus s') (i, r) = sget (RingKeysStatus s) (i, r)" and "keys_of s' i r = keys_of s i r"
    and "\<And>info. sget (Collections s') i = Some info \<Longrightarrow> sget (Collections s) i = Some info"
  shows "root_ok cfg s' i r"
  using assms ring_keys_cong [OF assms(4,3)]
  by (auto simp: root_ok_def status_of_def sget_or_def scontains_def split: option.splits)

lemma root_ok_none: "sget (Root s) (i, r) = None \<Longrightarrow> sget (RingKeysStatus s) (i, r) = None \<Longrightarrow> root_ok cfg s i r"
  by (simp add: root_ok_def status_of_def sget_or_def default_status_def)

text \<open>Operations that leave the rings alone.\<close>

definition same_rings :: "('m, 'root, 'inter) members_state \<Rightarrow> ('m, 'root, 'inter) members_state \<Rightarrow> bool" where
  "same_rings s s' \<longleftrightarrow> Root s' = Root s \<and> RingKeys s' = RingKeys s \<and> RingKeysStatus s' = RingKeysStatus s \<and>
     (\<forall>i info. sget (Collections s') i = Some info \<longrightarrow> sget (Collections s) i = Some info)"

lemma same_rings_inv: "root_inv cfg s \<Longrightarrow> same_rings s s' \<Longrightarrow> root_inv cfg s'"
  unfolding root_inv_def
proof (intro allI)
  fix i r assume "\<forall>i r. root_ok cfg s i r" and same: "same_rings s s'"
  then have "root_ok cfg s i r" by blast
  then show "root_ok cfg s' i r"
    by (rule root_ok_same) (use same in \<open>simp_all add: same_rings_def keys_of_def fun_eq_iff\<close>)
qed

lemma same_rings_trans: "same_rings s s1 \<Longrightarrow> same_rings s1 s2 \<Longrightarrow> same_rings s s2"
  by (simp add: same_rings_def)

lemma same_rings_refl [simp]: "same_rings s s"
  by (simp add: same_rings_def)

lemma push_same: "push_to_onboarding_queue cfg now i k s = Inr s' \<Longrightarrow> same_rings s s'"
  by (auto simp: push_to_onboarding_queue_def Let_def members_deposit_def same_rings_def split: prod.split_asm option.split_asm)

lemma add_loop_same: "add_loop cfg now i ms s = Inr s' \<Longrightarrow> same_rings s s'"
proof (induction ms arbitrary: s)
  case (Cons m ms)
  then obtain s1 where "push_to_onboarding_queue cfg now i m s = Inr s1" "add_loop cfg now i ms s1 = Inr s'"
    by (auto split: option.splits if_splits)
  then show ?case using push_same Cons.IH same_rings_trans by metis
qed simp

lemma suspend_member_same:
  assumes "suspend_member cfg i m s = Inr s'" shows "same_rings s s'"
proof -
  obtain pos where "sget (Members s) (i, m) = Some pos" using assms by (auto simp: suspend_member_def)
  then show ?thesis
    using assms by (cases pos) (auto simp: suspend_member_def same_rings_def Let_def split: if_split_asm)
qed

lemma suspend_loop_same: "suspend_loop cfg i ms s = Inr s' \<Longrightarrow> same_rings s s'"
proof (induction ms arbitrary: s)
  case (Cons m ms)
  then obtain s1 where "suspend_member cfg i m s = Inr s1" "suspend_loop cfg i ms s1 = Inr s'" by auto
  then show ?case using suspend_member_same Cons.IH same_rings_trans by metis
qed simp

lemma merge_queue_pages_same: "merge_queue_pages_authorized cfg i h h' s = Inr s' \<Longrightarrow> same_rings s s'"
  using requeue_loop_result [of i h' "queue_of s i h" s]
  by (auto simp: merge_queue_pages_authorized_def merge_queue_pages_def same_rings_def)

lemma clean_up_loop_same: "same_rings s (clean_up_loop cfg now i r n s)"
proof (induction n arbitrary: s)
  case (Suc n)
  have "same_rings s (members_deposit (OldRootCleanedUp i r v) (s\<lparr>OldRoots := sdel (i, r, v) (OldRoots s)\<rparr>))" for v
    by (simp add: same_rings_def members_deposit_def)
  then show ?case using Suc.IH same_rings_trans by (fastforce split: option.splits)
qed simp

subsection \<open>Operations on rings\<close>

lemma included_le:
  assumes inv: "coll_inv cfg (view s i)" and cap: "0 < flexible_ring_capacity cfg" and L: "keys_of s i r = page (flexible_ring_capacity cfg) L" "length L = stotal (view s i) r"
  shows "rs_included (status_of s i r) \<le> length L" and "ring_keys (flexible_ring_capacity cfg) s i r = L"
proof -
  show "rs_included (status_of s i r) \<le> length L" using appended_status [OF inv L(2), where n = 0] by simp
  show "ring_keys (flexible_ring_capacity cfg) s i r = L" by (rule ring_keys_eq [OF cap]) (simp_all add: L status_total)
qed

text \<open>A ring that grows at its end keeps its root and its count of included keys.\<close>

lemma root_ok_grow:
  assumes ok: "root_ok cfg s i r" and cap: "0 < flexible_ring_capacity cfg" and inv: "coll_inv cfg (view s i)"
    and L: "keys_of s i r = page (flexible_ring_capacity cfg) L" "length L = stotal (view s i) r"
    and L': "keys_of s' i r = page (flexible_ring_capacity cfg) (L @ ks)"
    and st: "sget (RingKeysStatus s') (i, r) = Some ((status_of s i r)\<lparr>rs_total := length L + length ks\<rparr>)"
    and root: "sget (Root s') (i, r) = sget (Root s) (i, r)" and co: "Collections s' = Collections s"
  shows "root_ok cfg s' i r"
proof -
  note I = included_le [OF inv cap L]
  have st': "status_of s' i r = (status_of s i r)\<lparr>rs_total := length L + length ks\<rparr>" using st by (simp add: status_of_def sget_or_def)
  have "ring_keys (flexible_ring_capacity cfg) s' i r = L @ ks" by (rule ring_keys_eq [OF cap]) (simp_all add: st' L')
  then show ?thesis using ok I by (auto simp: root_ok_def root co st' st scontains_def split: option.splits)
qed

lemma onboard_members_root:
  assumes inv: "members_inv cfg s" and cfg: "members_config_ok cfg" and roots: "root_inv cfg s"
    and ok: "onboard_members cfg i True s = Inr (b, s')"
  shows "root_inv cfg s'"
proof -
  obtain info where live: "sget (Collections s) i = Some info" using ok by (auto simp: onboard_members_def)
  let ?cap = "flexible_ring_capacity cfg" and ?c = "current_ring s i"
  have cap: "0 < ?cap" using config_okD(1) [OF cfg] .
  note c = members_invD(1) [OF inv, of i]
  show ?thesis
    using inv cfg live ok
  proof (rule onboard_members_Some)
    fix L h t head all n s1
    assume L: "length L = stotal (view s i) ?c" "\<And>p. keys_of s i ?c p = page ?cap L p"
      and n: "n = min (length all) (ring_capacity cfg (ci_ring_size info) - length L)"
      and lt: "length L < ring_capacity cfg (ci_ring_size info)"
      and on: "onboarded ?cap i ?c (L @ take n all) (append_positions ?cap ?c (length L) (take n all) (\<lambda>k. sget (Members s) (i, k))) s s1"
      and s': "s' = members_deposit (MembersOnboarded i) (store_remaining cfg i h head t (drop n all)
       (let s2 = s1\<lparr>RingKeys := sput (i, ?c, length (L @ take n all) div ?cap)
                   (drop (length (L @ take n all) div ?cap * ?cap) (L @ take n all)) (RingKeys s1),
                 ActiveMembers := sput i (sat_add u32_max (active_count s1 i) n) (ActiveMembers s1),
                 RingKeysStatus := sput (i, ?c) ((status_of s i ?c)\<lparr>rs_total := length L + n\<rparr>) (RingKeysStatus s1),
                 StaleRings := sput (i, ?c) () (StaleRings s1)\<rparr>
        in if ring_capacity cfg (ci_ring_size info) - length L = n
           then s2\<lparr>CurrentRingIndex := sput i (saturating_inc (current_ring s2 i)) (CurrentRingIndex s2)\<rparr> else s2))"
    obtain M K where s1: "s1 = s\<lparr>Members := M, RingKeys := K\<rparr>" using on by (auto simp: onboarded_def)
    have len: "length (take n all) = n" using n by simp
    have sel: "Root s' = Root s" "Collections s' = Collections s"
      "RingKeysStatus s' = sput (i, ?c) ((status_of s i ?c)\<lparr>rs_total := length L + n\<rparr>) (RingKeysStatus s)"
      "RingKeys s' = sput (i, ?c, length (L @ take n all) div ?cap)
                   (drop (length (L @ take n all) div ?cap * ?cap) (L @ take n all)) (RingKeys s1)"
      by (simp_all add: s' s1 members_deposit_def store_remaining_def Let_def)
    have keys: "keys_of s' j r = (if j = i \<and> r = ?c then page ?cap (L @ take n all) else keys_of s j r)" for j r
    proof
      fix q
      show "keys_of s' j r q = (if j = i \<and> r = ?c then page ?cap (L @ take n all) else keys_of s j r) q"
        using on last_page(1) [OF cap, of "L @ take n all"] unfolding onboarded_def keys_of_def sel by auto
    qed
    show ?thesis
      unfolding root_inv_def
    proof (intro allI)
      fix j r
      have ok: "root_ok cfg s j r" using roots by (simp add: root_inv_def)
      show "root_ok cfg s' j r"
      proof (cases "j = i \<and> r = ?c")
        case True
        then show ?thesis
          using root_ok_grow [OF ok [unfolded True [THEN conjunct1] True [THEN conjunct2]] cap c _ L(1), where ks = "take n all" and s' = s'] L(2) len
          by (simp add: sel keys fun_eq_iff del: length_take)
      next
        case False
        then show ?thesis by (intro root_ok_same [OF ok]) (auto simp: sel keys)
      qed
    qed
  qed
qed

lemma root_invI:
  assumes "root_inv cfg s" and "\<And>r. r \<in> R \<Longrightarrow> root_ok cfg s' i r"
    and "\<And>j r. j \<noteq> i \<or> r \<notin> R \<Longrightarrow> sget (Root s') (j, r) = sget (Root s) (j, r) \<and>
      sget (RingKeysStatus s') (j, r) = sget (RingKeysStatus s) (j, r) \<and> keys_of s' j r = keys_of s j r"
    and "Collections s' = Collections s"
  shows "root_inv cfg s'"
  unfolding root_inv_def
proof (intro allI)
  fix j r
  have ok: "root_ok cfg s j r" using assms(1) by (simp add: root_inv_def)
  show "root_ok cfg s' j r"
  proof (cases "j = i \<and> r \<in> R")
    case False
    then show ?thesis using root_ok_same [OF ok, of s'] assms(3) [of j r] assms(4) by simp
  qed (use assms(2) in simp)
qed

lemma do_self_include_root:
  assumes inv: "members_inv cfg s" and cfg: "members_config_ok cfg" and roots: "root_inv cfg s"
    and ok: "do_self_include cfg i k s = Inr s'"
  shows "root_inv cfg s'"
proof -
  obtain info pos where live: "sget (Collections s) i = Some info"
    and pos: "sget (Members s) (i, k) = Some pos" and ao: "append_only (rings_state_of s i)"
    using ok unfolding do_self_include_def ok_or_Inr Let_def ensure_Inr by blast
  with ok obtain qp since where pos: "sget (Members s) (i, k) = Some (Onboarding qp since)"
    by (cases pos) (simp_all add: do_self_include_def)
  let ?cap = "flexible_ring_capacity cfg" and ?c = "current_ring s i"
  have cap: "0 < ?cap" using config_okD(1) [OF cfg] .
  note c = members_invD(1) [OF inv, of i]
  show ?thesis
    using inv cfg live pos ao
  proof (rule do_self_include_ok)
    fix L
    assume L: "length L = stotal (view s i) ?c" "\<And>p. keys_of s i ?c p = page ?cap L p"
      and eq: "do_self_include cfg i k s = Inr
       (let c = current_ring s i; s1 = leave_queue i k qp s;
            s3 = s1\<lparr>RingKeys := sput (i, c, length L div ?cap) (drop (length L div ?cap * ?cap) L @ [k]) (RingKeys s),
               Members := sput (i, k) (Included c (length L div ?cap) (length L mod ?cap)) (Members s),
               RingKeysStatus := sput (i, c) ((status_of s i c)\<lparr>rs_total := length L + 1\<rparr>) (RingKeysStatus s),
               ActiveMembers := sput i (sat_add u32_max (active_count s i) 1) (ActiveMembers s),
               StaleRings := sput (i, c) () (StaleRings s)\<rparr>
        in if length L + 1 = ring_capacity cfg (ci_ring_size info)
           then s3\<lparr>CurrentRingIndex := sput i (saturating_inc c) (CurrentRingIndex s)\<rparr> else s3)"
    note s' = ok [unfolded eq sum.inject, symmetric]
    have sel: "Root s' = Root s" "Collections s' = Collections s"
      "RingKeysStatus s' = sput (i, ?c) ((status_of s i ?c)\<lparr>rs_total := length L + 1\<rparr>) (RingKeysStatus s)"
      "RingKeys s' = sput (i, ?c, length L div ?cap) (drop (length L div ?cap * ?cap) L @ [k]) (RingKeys s)"
      by (simp_all add: s' leave_queue_def Let_def)
    have L': "keys_of s i ?c = page ?cap L" using L(2) by (simp add: fun_eq_iff)
    have keys: "keys_of s' i ?c = page ?cap (L @ [k])"
      unfolding page_snoc [OF cap, symmetric] using L(2) by (auto simp: keys_of_def sel fun_eq_iff)
    show ?thesis
    proof (rule root_invI [OF roots, of "{?c}" _ i])
      show "root_ok cfg s' i r" if "r \<in> {?c}" for r
        using root_ok_grow [OF _ cap c L' L(1) keys] roots that by (simp add: sel root_inv_def)
      show "sget (Root s') (j, r) = sget (Root s) (j, r) \<and> sget (RingKeysStatus s') (j, r) = sget (RingKeysStatus s) (j, r) \<and>
          keys_of s' j r = keys_of s j r" if "j \<noteq> i \<or> r \<notin> {?c}" for j r
        using that by (auto simp: sel keys_of_def fun_eq_iff)
    qed (rule sel)
  qed
qed

lemma build_ring_root:
  assumes inv: "members_inv cfg s" and cfg: "members_config_ok cfg" and roots: "root_inv cfg s"
    and auth: "should_build_ring i r limit s \<noteq> None" and ok: "build_ring cfg env i r n s = Inr s'"
  shows "root_inv cfg s'"
proof -
  obtain st where st: "sget (RingKeysStatus s) (i, r) = Some st"
    using auth by (cases "sget (RingKeysStatus s) (i, r)")
      (auto simp: should_build_ring_def status_of_def sget_or_def default_status_def Let_def split: if_splits)
  let ?cap = "flexible_ring_capacity cfg"
  have cap: "0 < ?cap" using config_okD(1) [OF cfg] .
  note c = members_invD(1) [OF inv, of i]
  have sto: "status_of s i r = st" using st by (simp add: status_of_def sget_or_def)
  show ?thesis
    using inv cfg st ok
  proof (rule build_ring_Some)
    fix info L acc acc' rv st' Q S E C
    assume live: "sget (Collections s) i = Some info" and L: "length L = rs_total st" "keys_of s i r = page ?cap L" "rs_included st \<le> length L"
      and acc: "acc = (case sget (Root s) (i, r) of Some rr \<Rightarrow> rr_intermediate rr | None \<Rightarrow> start_members cfg (ci_ring_size info))"
      and push: "push_members cfg acc (take n (drop (rs_included st) L)) (fetch_chunks cfg env (ci_ring_size info)) = Some acc'"
      and st': "rs_total st' = rs_total st" "rs_included st' = min (length L) (rs_included st + n)"
      and s': "s' = s\<lparr>StaleRings := S, RingKeysStatus := sput (i, r) st' (RingKeysStatus s),
       Root := sput (i, r) \<lparr>rr_root = finish_members cfg acc', rr_revision = rv, rr_intermediate = acc'\<rparr> (Root s),
       OldRoots := Q, root_changes := C, members_events := E\<rparr>"
    have old: "ring_keys ?cap s i r = L" by (rule ring_keys_eq [OF cap]) (use L sto in simp_all)
    have keys: "keys_of s' = keys_of s" by (simp add: s' keys_of_def fun_eq_iff)
    have new: "ring_keys ?cap s' i r = L" "status_of s' i r = st'"
      by (rule ring_keys_eq [OF cap]) (use L st' keys in \<open>simp_all add: s' status_of_def sget_or_def\<close>)
    have "root_ok cfg s i r" using roots by (simp add: root_inv_def)
    then have "built_from cfg (ci_ring_size info) (take (rs_included st) L) acc"
      using live old sto built_from.start [of cfg "ci_ring_size info"] by (auto simp: root_ok_def acc split: option.splits)
    then have "built_from cfg (ci_ring_size info) (take (rs_included st) L @ take n (drop (rs_included st) L)) acc'"
      using push by (rule built_from.push)
    then have "built_from cfg (ci_ring_size info) (take (rs_included st') L) acc'"
      unfolding take_add [symmetric] st'(2) by (cases "length L \<le> rs_included st + n") (simp_all add: min_def)
    then have "root_ok cfg s' i r" using new live by (simp add: root_ok_def s')
    then show ?thesis by (intro root_invI [OF roots, of "{r}" _ i]) (auto simp: s' keys_of_def fun_eq_iff)
  qed
qed

lemma Root_archived: "sget (Root (archive_and_notify now i r s)) x = (if x = (i, r) then None else sget (Root s) x)"
  by (auto simp: archive_and_notify_def archive_root_def on_ring_root_change_def split: option.splits)

lemma archived_same [simp]:
  "RingKeys (archive_and_notify now i r s) = RingKeys s" "RingKeysStatus (archive_and_notify now i r s) = RingKeysStatus s"
  "Collections (archive_and_notify now i r s) = Collections s"
  by (simp_all add: archive_and_notify_def archive_root_def on_ring_root_change_def split: option.splits)

lemma enqueue_root:
  assumes roots: "root_inv cfg s"
  shows "root_inv cfg (snd (enqueue_ring_for_deletion cfg now i r s))"
proof (rule root_invI [OF roots, of "{r}" _ i])
  let ?s' = "snd (enqueue_ring_for_deletion cfg now i r s)"
  have sel: "sget (Root ?s') x = (if x = (i, r) then None else sget (Root s) x)" "RingKeysStatus ?s' = sdel (i, r) (RingKeysStatus s)"
    "RingKeys ?s' = RingKeys s" "Collections ?s' = Collections s" for x
    by (simp_all add: enqueue_ring_for_deletion_def Let_def Root_archived)
  show "root_ok cfg ?s' i q" if "q \<in> {r}" for q using that by (simp add: root_ok_none sel)
  show "sget (Root ?s') (j, q) = sget (Root s) (j, q) \<and> sget (RingKeysStatus ?s') (j, q) = sget (RingKeysStatus s) (j, q) \<and>
      keys_of ?s' j q = keys_of s j q" if "j \<noteq> i \<or> q \<notin> {r}" for j q
    using that by (auto simp: sel keys_of_def fun_eq_iff)
  show "Collections ?s' = Collections s" by (rule sel)
qed

lemma delete_ring_page_root:
  assumes inv: "members_inv cfg s" and roots: "root_inv cfg s" and del: "scontains (RingDeletionQueue s) (i, r, p)"
  shows "root_inv cfg (delete_ring_page_authorized i r p s)"
proof (rule root_invI [OF roots, of "{r}" _ i])
  let ?s' = "delete_ring_page_authorized i r p s"
  obtain M where s': "?s' = s\<lparr>RingDeletionQueue := sdel (i, r, p) (RingDeletionQueue s), Members := M, RingKeys := sdel (i, r, p) (RingKeys s)\<rparr>"
    using release_loop_result [of i r p 0 "keys_of s i r p" "s\<lparr>RingDeletionQueue := sdel (i, r, p) (RingDeletionQueue s)\<rparr>"]
    by (auto simp: delete_ring_page_authorized_def delete_ring_page_def Let_def keys_of_def)
  have none: "sget (RingKeysStatus s) (i, r) = None"
    using pages_invD(2) [OF coll_invD(4) [OF members_invD(1) [OF inv, of i]], of r p] del by simp
  moreover have "sget (Root s) (i, r) = None"
  proof (rule ccontr)
    assume "sget (Root s) (i, r) \<noteq> None"
    moreover have "root_ok cfg s i r" using roots by (simp add: root_inv_def)
    ultimately show False using none by (auto simp: root_ok_def scontains_def)
  qed
  ultimately show "root_ok cfg ?s' i q" if "q \<in> {r}" for q using that by (simp add: root_ok_none s')
  show "sget (Root ?s') (j, q) = sget (Root s) (j, q) \<and> sget (RingKeysStatus ?s') (j, q) = sget (RingKeysStatus s) (j, q) \<and>
      keys_of ?s' j q = keys_of s j q" if "j \<noteq> i \<or> q \<notin> {r}" for j q
    using that by (auto simp: s' keys_of_def fun_eq_iff)
  show "Collections ?s' = Collections s" by (simp add: s')
qed

lemma retain_loop_frame:
  "retain_loop cfg i r n js ks new s = (b, N, s1) \<Longrightarrow> \<exists>M E. s1 = s\<lparr>Members := M, members_events := E\<rparr>"
proof (induction ks arbitrary: n js new s)
  case Nil
  then show ?case by (intro exI [of _ "Members s"] exI [of _ "members_events s"]) simp
next
  case (Cons k ks)
  show ?case
  proof (cases "js \<noteq> [] \<and> n = hd js")
    case True
    then have "retain_loop cfg i r (n + 1) (tl js) ks new (members_deposit (MemberRemoved k) s) = (b, N, s1)"
      using Cons.prems by simp
    then show ?thesis using Cons.IH by (fastforce simp: members_deposit_def)
  next
    case False
    let ?s1 = "case sget (Members s) (i, k) of
        Some (Included q p j) \<Rightarrow>
          if r \<noteq> q then s else s\<lparr>Members := sput (i, k) (Included q p (length new)) (Members s)\<rparr>
      | _ \<Rightarrow> s"
    obtain M0 where one: "?s1 = s\<lparr>Members := M0\<rparr>"
    proof -
      have "?s1 = s\<lparr>Members := Members ?s1\<rparr>" by (simp split: option.splits RingPosition.splits)
      then show thesis using that by blast
    qed
    define s2 where "s2 = ?s1"
    have "s2 = s1 \<or> (\<exists>new'. retain_loop cfg i r (n + 1) js ks new' s2 = (b, N, s1))"
      using Cons.prems False unfolding s2_def by (auto simp: Let_def split: option.split_asm if_split_asm)
    then have "\<exists>M E. s1 = s2\<lparr>Members := M, members_events := E\<rparr>"
    proof
      assume "s2 = s1"
      then show ?thesis by (intro exI [of _ "Members s1"] exI [of _ "members_events s1"]) simp
    qed (use Cons.IH in blast)
    then show ?thesis unfolding s2_def one by auto
  qed
qed

lemma remove_suspended_keys_root:
  assumes roots: "root_inv cfg s"
  shows "root_inv cfg (remove_suspended_keys cfg now i r s)"
proof (cases "\<exists>info. sget (Collections s) i = Some info \<and> capacity_supported cfg (ci_ring_size info)")
  case False
  then show ?thesis using roots by (auto simp: remove_suspended_keys_def split: option.splits)
next
  case True
  then obtain info where live: "sget (Collections s) i = Some info" "capacity_supported cfg (ci_ring_size info)" by blast
  obtain b N s1 where loop: "retain_loop cfg i r 0 (pending_of s i r) (keys_of s i r 0) [] s = (b, N, s1)" by (metis prod_cases3)
  obtain M E where s1: "s1 = s\<lparr>Members := M, members_events := E\<rparr>" using retain_loop_frame [OF loop] by blast
  let ?s' = "remove_suspended_keys cfg now i r s"
  show ?thesis
  proof (cases b)
    case False
    then have "?s' = s1" using live loop by (simp add: remove_suspended_keys_def)
    then show ?thesis using same_rings_inv [OF roots, of s1] by (simp add: s1 same_rings_def)
  next
    case True
    have eq: "RingKeysStatus ?s' = sput (i, r) ((status_of s1 i r)\<lparr>rs_total := length N, rs_included := 0\<rparr>) (RingKeysStatus s)"
      "RingKeys ?s' = (if N = [] then sdel (i, r, 0) (RingKeys s) else sput (i, r, 0) N (RingKeys s))" "Collections ?s' = Collections s"
      "Root ?s' = (case sget (Root s) (i, r) of None \<Rightarrow> Root s
        | Some root \<Rightarrow> sput (i, r) \<lparr>rr_root = finish_members cfg (start_members cfg (ci_ring_size info)),
            rr_revision = sat_add u32_max (rr_revision root) 1, rr_intermediate = start_members cfg (ci_ring_size info)\<rparr> (Root s))"
      using live loop True by (simp_all add: remove_suspended_keys_def Let_def s1 split: option.splits)
    show ?thesis
    proof (rule root_invI [OF roots, of "{r}" _ i])
      show "root_ok cfg ?s' i q" if "q \<in> {r}" for q
        using that live by (cases "sget (Root s) (i, r)") (simp_all add: root_ok_def eq status_of_def sget_or_def built_from.start)
      show "sget (Root ?s') (j, q) = sget (Root s) (j, q) \<and> sget (RingKeysStatus ?s') (j, q) = sget (RingKeysStatus s) (j, q) \<and>
          keys_of ?s' j q = keys_of s j q" if "j \<noteq> i \<or> q \<notin> {r}" for j q
        using that by (auto simp: eq keys_of_def fun_eq_iff split: option.splits)
    qed (rule eq)
  qed
qed

lemma merge_loop_frame:
  "merge_loop cfg i base B ks s = Inr (B', s1) \<Longrightarrow> B' = B @ ks \<and> (\<exists>M. s1 = s\<lparr>Members := M\<rparr>)"
proof (induction ks arbitrary: B s)
  case Nil
  then show ?case by (auto intro: exI [of _ "Members s"])
next
  case (Cons k ks)
  then have "merge_loop cfg i base (B @ [k]) ks (s\<lparr>Members := sput (i, k) (Included base 0 (length B)) (Members s)\<rparr>) = Inr (B', s1)"
    by (auto simp: try_push_def split: if_splits)
  from Cons.IH [OF this] show ?case by auto
qed

lemma merge_rings_root:
  assumes inv: "members_inv cfg s" and cfg: "members_config_ok cfg" and roots: "root_inv cfg s"
    and ok: "merge_rings cfg now sg i base target s = Inr (py, s')" and mode: "mode_is FlexibleRings i s"
  shows "root_inv cfg s'"
proof -
  let ?cap = "flexible_ring_capacity cfg" and ?B = "keys_of s i base 0" and ?T = "keys_of s i target 0"
  obtain info where live: "sget (Collections s) i = Some info" "ci_mode info = FlexibleRings"
    using mode by (auto simp: mode_is_def split: option.splits)
  have cap: "0 < ?cap" using config_okD(1) [OF cfg] .
  note c = members_invD(1) [OF inv, of i]
  have l: "vinfo (view s i) = Some info" using live by simp
  note FB = flexible_ring [OF c l live(2), where r = base] and FT = flexible_ring [OF c l live(2), where r = target]
  obtain B1 s1 where ne: "base \<noteq> target" and half: "length ?B < ring_capacity cfg (ci_ring_size info) div 2"
      "length ?T < ring_capacity cfg (ci_ring_size info) div 2"
    and loop: "merge_loop cfg i base ?B ?T s = Inr (B1, s1)"
    and s': "s' = (let s2 = s1\<lparr>RingKeys := sput (i, base, 0) B1 (RingKeys s1), RingKeysStatus := sput (i, base)
            ((status_of s i base)\<lparr>rs_total := sat_add u32_max (rs_total (status_of s i base)) (length ?T)\<rparr>) (RingKeysStatus s1)\<rparr>;
          s3 = archive_and_notify now i target s2
        in members_deposit (RingsMerged i base target) (s3\<lparr>StaleRings := sdel (i, target) (sput (i, base) () (StaleRings s3)),
             RingKeys := sdel (i, target, 0) (RingKeys s3), RingKeysStatus := sdel (i, target) (RingKeysStatus s3)\<rparr>))"
    using ok live(1) unfolding merge_rings_def Let_def by auto
  obtain M where s1: "B1 = ?B @ ?T" "s1 = s\<lparr>Members := M\<rparr>" using merge_loop_frame [OF loop] by blast
  have fit: "length ?B + length ?T \<le> ?cap" "length ?B + length ?T \<le> u32_max"
    using half live_invD(4) [OF coll_invD(5) [OF c] l live(2)] cfg
    by (auto simp: members_config_ok_def dest!: spec [of _ "ci_ring_size info"])
  let ?st = "(status_of s i base)\<lparr>rs_total := length ?B + length ?T\<rparr>"
  have tot: "sat_add u32_max (rs_total (status_of s i base)) (length ?T) = length ?B + length ?T"
    using FB(1) fit(2) by (simp add: status_total)
  have sel: "sget (Root s') x = (if x = (i, target) then None else sget (Root s) x)"
    "RingKeysStatus s' = sdel (i, target) (sput (i, base) ?st (RingKeysStatus s))"
    "RingKeys s' = sdel (i, target, 0) (sput (i, base, 0) (?B @ ?T) (RingKeys s))" "Collections s' = Collections s" for x
    by (simp_all add: s' Let_def members_deposit_def Root_archived tot s1)
  have pg: "keys_of s i base = page ?cap ?B"
    using FB(2) page_0 [of ?B ?cap] page_small [of ?B ?cap] FB(4) by (auto simp: fun_eq_iff) (metis neq0_conv)
  have pg': "keys_of s' i base = page ?cap (?B @ ?T)"
  proof
    fix q
    show "keys_of s' i base q = page ?cap (?B @ ?T) q"
      using FB(2) [of q] ne page_0 [of "?B @ ?T" ?cap] page_small [of "?B @ ?T" ?cap q] fit(1)
      by (cases "q = 0") (simp_all add: keys_of_def sel)
  qed
  show ?thesis
  proof (rule root_invI [OF roots, of "{base, target}" _ i])
    have "root_ok cfg s i base" using roots by (simp add: root_inv_def)
    then have "root_ok cfg s' i base"
      by (rule root_ok_grow [OF _ cap c pg _ pg']) (use FB(1) ne in \<open>simp_all add: sel\<close>)
    moreover have "root_ok cfg s' i target" by (simp add: root_ok_none sel)
    ultimately show "root_ok cfg s' i q" if "q \<in> {base, target}" for q using that by auto
    show "sget (Root s') (j, q) = sget (Root s) (j, q) \<and> sget (RingKeysStatus s') (j, q) = sget (RingKeysStatus s) (j, q) \<and>
        keys_of s' j q = keys_of s j q" if "j \<noteq> i \<or> q \<notin> {base, target}" for j q
      using that by (auto simp: sel keys_of_def fun_eq_iff)
  qed (rule sel)
qed

lemma create_collection_root:
  assumes inv: "members_inv cfg s" and roots: "root_inv cfg s"
    and ok: "create_collection cfg owner i sz mode ring_size delay s = Inr s'"
  shows "root_inv cfg s'"
  unfolding root_inv_def
proof (intro allI)
  fix j r
  have ok1: "root_ok cfg s j r" using roots by (simp add: root_inv_def)
  have new: "\<not> scontains (Collections s) i" "\<not> scontains (SuspendedCollections s) i"
    and sel: "Root s' = Root s" "RingKeys s' = RingKeys s" "RingKeysStatus s' = RingKeysStatus s" "j \<noteq> i \<Longrightarrow> sget (Collections s') j = sget (Collections s) j"
    using ok by (auto simp: create_collection_def Let_def)
  show "root_ok cfg s' j r"
  proof (cases "j = i")
    case True
    have "sget (RingKeysStatus s) (i, r) = None"
      using coll_invD(6) [OF members_invD(1) [OF inv, of i]] new by (simp add: gone_inv_def scontains_def)
    moreover from this have "sget (Root s) (i, r) = None" using ok1 True by (auto simp: root_ok_def scontains_def split: option.splits)
    ultimately show ?thesis using True by (simp add: root_ok_none sel)
  next
    case False
    then show ?thesis by (intro root_ok_same [OF ok1]) (simp_all add: sel keys_of_def fun_eq_iff)
  qed
qed

subsection \<open>Every step keeps the commitment\<close>

lemma same_rings_upd [simp]:
  "same_rings s (s\<lparr>OnboardingSize := a\<rparr>)" "same_rings s (s\<lparr>RingsState := b\<rparr>)" "same_rings s (s\<lparr>StaleRings := c\<rparr>)"
  "same_rings s (members_deposit e s1) = same_rings s s1"
  by (simp_all add: same_rings_def members_deposit_def)

lemma maintenance_root:
  assumes inv: "members_inv cfg s" and cfg: "members_config_ok cfg" and roots: "root_inv cfg s"
    and auth: "members_authorize cfg (env_now env) local c s = Inr ()" and ok: "maintenance_dispatch cfg env c s = Inr s'"
  shows "root_inv cfg s'"
proof (cases c)
  case (BuildRing i r e rv n)
  then have "should_build_ring i r (RingBuildingMemberLimit cfg) s \<noteq> None"
    using auth by (auto simp: ensure_can_build_ring_def check_revision_def split: if_splits)
  then show ?thesis using build_ring_root [OF inv cfg roots _ ok [unfolded BuildRing maintenance_dispatch.simps]] by simp
next
  case (OnboardMembers i r h m)
  then show ?thesis using onboard_members_root [OF inv cfg roots, of i] ok by (auto simp: onboard_members_authorized_def)
next
  case (DeleteRingPage i r p)
  then show ?thesis using delete_ring_page_root [OF inv roots] ok auth by (auto simp: ensure_can_delete_ring_page_def)
next
  case (FinalizeCollectionDeletion i)
  then have "same_rings s s'" using ok by (auto simp: finalize_collection_deletion_def Let_def same_rings_def members_deposit_def)
  then show ?thesis by (rule same_rings_inv [OF roots])
next
  case (DeleteOnboardingQueuePage i p)
  then have "same_rings s s'" using ok by (auto simp: delete_onboarding_queue_page_def Let_def same_rings_def)
  then show ?thesis by (rule same_rings_inv [OF roots])
next
  case (MergeQueuePages i h h')
  then have "merge_queue_pages_authorized cfg i h h' s = Inr s'" using ok by simp
  then show ?thesis by (intro same_rings_inv [OF roots] merge_queue_pages_same)
next
  case (CleanUpOldRoots i r n)
  then have "s' = clean_up_loop cfg (env_now env) i r n s" using ok by simp
  then show ?thesis by (simp add: same_rings_inv [OF roots clean_up_loop_same])
qed (use ok remove_suspended_keys_root [OF roots] enqueue_root [OF roots] same_rings_inv [OF roots] in
      \<open>auto simp: mark_ring_stale_authorized_def\<close>)

lemma members_step_root:
  assumes cfg: "members_config_ok cfg" and inv: "members_inv cfg s" and roots: "root_inv cfg s"
    and guard: "members_guard cfg x s" and ok: "members_step cfg x s = Inr s'"
  shows "root_inv cfg s'"
proof -
  obtain env y where x: "x = (env, y)" by fastforce
  note same = same_rings_inv [OF roots, of s']
  show ?thesis
  proof (cases y)
    case (Maintain local c)
    then show ?thesis using maintenance_root [OF inv cfg roots, of env local c s'] ok x by auto
  next
    case (SelfInclude sg i m t)
    then obtain s1 where "do_self_include cfg i m s = Inr s1" "s' = members_deposit (MemberSelfIncluded i m) s1"
      using ok x by (auto simp: self_include_def)
    then show ?thesis using do_self_include_root [OF inv cfg roots] same_rings_inv [of cfg s1 s'] by simp
  next
    case (MergeRings sg i b t)
    then obtain py where "merge_rings cfg (env_now env) sg i b t s = Inr (py, s')" using ok x by auto
    then show ?thesis using merge_rings_root [OF inv cfg roots] guard x MergeRings by simp
  next
    case (CreateCollection ow i n mode sz d)
    then show ?thesis using create_collection_root [OF inv roots] ok x by auto
  next
    case (AddMembers i ms)
    then have "add_loop cfg (env_now env) i ms s = Inr s'" using ok x by (auto simp: add_members_def)
    then show ?thesis by (intro same add_loop_same)
  next
    case (RemoveRing i r)
    then show ?thesis using enqueue_root [OF roots] roots ok x by (auto simp: remove_ring_def split: if_splits)
  next
    case (DeleteCollection ow i)
    then have "same_rings s s'" using ok x by (auto simp: delete_collection_def same_rings_def members_deposit_def split: if_splits)
    then show ?thesis by (rule same)
  next
    case (RemoveMembers i ms)
    then have "suspend_loop cfg i ms s = Inr s'" using ok x by (auto simp: remove_members_def queue_member_suspensions_def)
    then show ?thesis by (intro same suspend_loop_same)
  next
    case (SetOnboardingSize mgr i n)
    then have "same_rings s s'" using ok x by (auto simp: set_onboarding_size_def)
    then show ?thesis by (rule same)
  next
    case (StartRemoval i)
    then have "same_rings s s'" using ok x by (auto simp: start_removal_session_def split: if_splits)
    then show ?thesis by (rule same)
  next
    case (EndRemoval i)
    then have "same_rings s s'" using ok x by (auto simp: end_removal_session_def split: if_splits)
    then show ?thesis by (rule same)
  qed
qed

interpretation rooted: pallet_contract "members_step cfg"
  "\<lambda>s. members_config_ok cfg \<and> members_inv cfg s \<and> root_inv cfg s" "members_guard cfg" for cfg
  by unfold_locales (auto intro: members_step_inv members_step_root)

lemma members_rooted:
  assumes "members_config_ok cfg" and "guarded_run (members_step cfg) (members_guard cfg) ops members_genesis"
  shows "members_inv cfg (run_calls (members_step cfg) ops members_genesis)"
    and "root_inv cfg (run_calls (members_step cfg) ops members_genesis)"
proof -
  have "root_inv cfg members_genesis" by (simp add: root_inv_def root_ok_none members_genesis_def)
  then show "members_inv cfg (run_calls (members_step cfg) ops members_genesis)"
    "root_inv cfg (run_calls (members_step cfg) ops members_genesis)"
    using rooted.run_keeps [of cfg members_genesis ops] assms members_genesis_inv by blast+
qed

end
