(* ===== verification/Members_Claims.thy ===== *)
theory Members_Claims
  imports Members_Worker Members_Root
begin

text \<open>The properties of the members pallet.\<close>

subsection \<open>Records and rings\<close>

text \<open>C17: in every reachable state the records of the members and the places of their keys agree: a key is in a page
  of the onboarding queue exactly if its record says so, a record of a ring position points at the key, and every key
  of a ring of a live collection has the record of its position, unless its suspension is pending.\<close>

theorem records_match_places:
  assumes "members_config_ok cfg"
    and "guarded_run (members_step cfg) (members_guard cfg) ops members_genesis"
    and s: "s = run_calls (members_step cfg) ops members_genesis"
  shows "(k \<in> set (queue_of s i p) \<longleftrightarrow> (\<exists>since. sget (Members s) (i, k) = Some (Onboarding p since))) \<and>
    (sget (Members s) (i, k) = Some (Included r q j) \<longrightarrow> j < length (keys_of s i r q) \<and> keys_of s i r q ! j = k) \<and>
    (scontains (Collections s) i \<and> n < length (keys_of s i r q) \<longrightarrow>
       sget (Members s) (i, keys_of s i r q ! n) = Some (Included r q n) \<or> (q = 0 \<and> n \<in> set (pending_of s i r)))"
proof -
  have c: "coll_inv cfg (view s i)" unfolding s by (rule members_invD(1) [OF members_rooted(1) [OF assms(1,2)]])
  note P = place_invD [OF coll_invD(2) [OF c]]
  show ?thesis
    using queue_invD(1) [OF coll_invD(1) [OF c], of k p] P(1) [of k r q j] P(2) [of n r q]
    by (auto simp: susp_at_def scontains_def pending_of_def sget_or_def)
qed

theorem records_match_places_witness:
  "let s = demo_state demo_flexible in
    (23 \<in> set (queue_of s [1] 1) \<longleftrightarrow> (\<exists>since. sget (Members s) ([1], 23) = Some (Onboarding 1 since))) \<and>
    (sget (Members s) ([1], 23) = Some (Included 0 0 1) \<longrightarrow> 1 < length (keys_of s [1] 0 0) \<and> keys_of s [1] 0 0 ! 1 = 23) \<and>
    (scontains (Collections s) [1] \<and> 1 < length (keys_of s [1] 0 0) \<longrightarrow>
       sget (Members s) ([1], keys_of s [1] 0 0 ! 1) = Some (Included 0 0 1) \<or> (0 = (0 :: nat) \<and> 1 \<in> set (pending_of s [1] 0)))"
  unfolding Let_def by (rule records_match_places [OF demo_members_ok demo_guards(1) refl])

text \<open>\<open>ring_members\<close> stops with all keys of the ring.\<close>

lemma ring_members_loop_result:
  assumes "0 < cap" and "length L \<le> (m + 1) * cap" and "keys_of s i r = page cap L"
  shows "ring_members_loop s i r (length L) m p (take (p * cap) L) = L"
proof (induction "Suc m - p" arbitrary: p)
  case 0
  then have "m < p" by simp
  then have "(m + 1) * cap \<le> p * cap" by (intro mult_le_mono1) simp
  with assms(2) have "take (p * cap) L = L" by simp
  then show ?case using 0 by (subst ring_members_loop.simps) simp
next
  case (Suc x)
  show ?case
  proof (cases "length (take (p * cap) L) \<ge> length L")
    case True
    then show ?thesis by (subst ring_members_loop.simps) (auto simp: min_def split: if_splits)
  next
    case False
    have pm: "\<not> m < p" using Suc.hyps(2) by arith
    have "take (p * cap) L @ keys_of s i r p = take (Suc p * cap) L"
      unfolding assms(3) page_def by (metis add.commute mult_Suc take_add)
    with False pm have "ring_members_loop s i r (length L) m p (take (p * cap) L) =
        ring_members_loop s i r (length L) m (Suc p) (take (Suc p * cap) L)"
      by (subst ring_members_loop.simps) simp
    also have "\<dots> = L" by (rule Suc.hyps(1)) (use Suc.hyps(2) in arith)
    finally show ?thesis .
  qed
qed

lemma ring_members_result:
  assumes inv: "members_inv cfg s" and cfg: "members_config_ok cfg" and live: "sget (Collections s) i = Some info"
    and nodel: "\<And>p. \<not> scontains (RingDeletionQueue s) (i, r, p)"
  shows "ring_members cfg i r s = ring_keys (flexible_ring_capacity cfg) s i r"
    and "length (ring_keys (flexible_ring_capacity cfg) s i r) = rs_total (status_of s i r)"
    and "keys_of s i r = page (flexible_ring_capacity cfg) (ring_keys (flexible_ring_capacity cfg) s i r)"
proof -
  let ?cap = "flexible_ring_capacity cfg" and ?rc = "ring_capacity cfg (ci_ring_size info)"
  have cap: "0 < ?cap" using config_okD(1) [OF cfg] .
  note c = members_invD(1) [OF inv, of i]
  obtain L where L: "length L = stotal (view s i) r" "\<And>p. vkeys (view s i) r p = page ?cap L p"
    using pages_invD(1) [OF coll_invD(4) [OF c], of r] nodel by auto
  have K: "keys_of s i r = page ?cap L" using L(2) by (simp add: fun_eq_iff)
  have rk: "ring_keys ?cap s i r = L" using included_le(2) [OF c cap K L(1)] .
  have "length L \<le> ?rc" using live_invD(2) [OF coll_invD(5) [OF c]] live L(1) by simp
  moreover have "?rc \<le> (?rc div ?cap + (if ?rc mod ?cap = 0 then 0 else 1)) * ?cap"
    using page_count_enough [OF cap, of ?rc] by (simp add: page_count_def split: if_splits)
  moreover have "max_pages_per_ring cfg (ci_ring_size info) = ?rc div ?cap + (if ?rc mod ?cap = 0 then 0 else 1)"
  proof -
    have "?rc div ?cap + (if ?rc mod ?cap = 0 then 0 else 1) \<le> ?rc"
    proof (cases "?rc mod ?cap = 0")
      case False
      have "?rc div ?cap * 1 \<le> ?rc div ?cap * ?cap" using cap by (intro mult_le_mono2) simp
      moreover have "?rc div ?cap * ?cap + ?rc mod ?cap = ?rc" by (rule div_mult_mod_eq)
      moreover have "0 < ?rc mod ?cap" using False by simp
      ultimately have "?rc div ?cap + 1 \<le> ?rc" by linarith
      then show ?thesis using False by simp
    qed simp
    also have "\<dots> \<le> u32_max" using cfg by (simp add: members_config_ok_def)
    finally show ?thesis by (simp add: max_pages_per_ring_def Let_def)
  qed
  ultimately have "length L \<le> (max_pages_per_ring cfg (ci_ring_size info) + 1) * ?cap"
    by (simp add: algebra_simps) 
  then have "ring_members_loop s i r (length L) (max_pages_per_ring cfg (ci_ring_size info)) 0 (take (0 * ?cap) L) = L"
    by (rule ring_members_loop_result [OF cap _ K])
  then show "ring_members cfg i r s = ring_keys ?cap s i r"
    using L(1) live unfolding rk by (simp add: ring_members_def status_total)
  show "length (ring_keys ?cap s i r) = rs_total (status_of s i r)" unfolding rk L(1) status_total ..
  show "keys_of s i r = page ?cap (ring_keys ?cap s i r)" unfolding rk by (rule K)
qed



subsection \<open>Roots\<close>

text \<open>C16: in every reachable state the root of a ring of a live collection commits to exactly the keys that the status
  counts as included: its intermediate is built from an empty ring by pushing the first \<open>included\<close> keys of the ring, in their order
  and each once, and the root is the one the crypto finishes from it; without a root no key counts as included.\<close>

theorem root_commits_to_included:
  assumes "members_config_ok cfg"
    and "guarded_run (members_step cfg) (members_guard cfg) ops members_genesis"
    and s: "s = run_calls (members_step cfg) ops members_genesis"
    and live: "sget (Collections s) i = Some info" and nodel: "\<And>p. \<not> scontains (RingDeletionQueue s) (i, r, p)"
  shows "case sget (Root s) (i, r) of
      None \<Rightarrow> rs_included (status_of s i r) = 0
    | Some root \<Rightarrow> rr_root root = finish_members cfg (rr_intermediate root) \<and>
        built_from cfg (ci_ring_size info) (take (rs_included (status_of s i r)) (ring_members cfg i r s)) (rr_intermediate root)"
proof -
  have inv: "members_inv cfg s" and "root_ok cfg s i r"
    using members_rooted [OF assms(1,2)] by (simp_all add: s root_inv_def)
  then show ?thesis
    using ring_members_result(1) [OF inv assms(1) live nodel] live by (auto simp: root_ok_def split: option.splits)
qed

theorem root_commits_to_included_witness:
  "let s = demo_state demo_large in
    case sget (Root s) ([3], 0) of
      None \<Rightarrow> rs_included (status_of s [3] 0) = 0
    | Some root \<Rightarrow> rr_root root = finish_members demo_members (rr_intermediate root) \<and>
        built_from demo_members R2e14 (take (rs_included (status_of s [3] 0)) (ring_members demo_members [3] 0 s)) (rr_intermediate root)"
proof -
  have live: "sget (Collections (demo_state demo_large)) [3] =
      Some \<lparr>ci_owner = ExternalOwner [7], ci_mode = AppendOnlyRings, ci_ring_size = R2e14, ci_self_inclusion_delay = None\<rparr>"
    by code_simp
  have "RingDeletionQueue (demo_state demo_large) = []" by code_simp
  then have nodel: "\<not> scontains (RingDeletionQueue (demo_state demo_large)) ([3], 0, p)" for p
    by (simp add: scontains_def)
  show ?thesis
    unfolding Let_def by (rule root_commits_to_included [OF demo_members_ok demo_guards(3) refl live nodel, unfolded CollectionInfo.select_convs])
qed

lemma first_old_root_stored: "first_old_root i r s = Some (v, old) \<Longrightarrow> sget (OldRoots s) (i, r, v) = Some old"
  by (auto simp: first_old_root_def split: list.splits)

text \<open>Cleaning up removes no old root that a proof could still use.\<close>

lemma clean_up_keeps_valid:
  assumes "t \<le> now"
  shows "get_root_at_revision cfg now j q v (clean_up_loop cfg t i r n s) = get_root_at_revision cfg now j q v s"
proof (induction n arbitrary: s)
  case (Suc n)
  show ?case
  proof (cases "first_old_root i r s")
    case (Some x)
    obtain w old where x: "x = (w, old)" by fastforce
    have stored: "sget (OldRoots s) (i, r, w) = Some old" using first_old_root_stored Some x by blast
    show ?thesis
    proof (cases "t < sat_add u64_max (or_archived_at old) (OldRootRetentionDuration cfg)")
      case False
      let ?s1 = "members_deposit (OldRootCleanedUp i r w) (s\<lparr>OldRoots := sdel (i, r, w) (OldRoots s)\<rparr>)"
      have "clean_up_loop cfg t i r (Suc n) s = clean_up_loop cfg t i r n ?s1" using Some x False by simp
      moreover have "get_root_at_revision cfg now j q v ?s1 = get_root_at_revision cfg now j q v s"
        using stored False assms by (auto simp: get_root_at_revision_def members_deposit_def ok_or_def split: option.splits)
      ultimately show ?thesis using Suc.IH by simp
    qed (simp add: Some x)
  qed simp
qed simp

text \<open>C19: when a ring's root is rebuilt, the root it replaces stays the root of its revision for the retention
  duration and then no longer, whether or not old roots have been cleaned up in between; and the new root has the
  next revision.\<close>

theorem replaced_root_retained:
  assumes build: "build_ring cfg env i r n s = Inr s'" and old: "sget (Root s) (i, r) = Some old"
    and clean: "t \<le> now"
  shows "get_root_at_revision cfg now i r (rr_revision old) (clean_up_loop cfg t i r limit s') =
      (if now < sat_add u64_max (env_now env) (OldRootRetentionDuration cfg) then Inr (rr_root old) else Inl NoRoot) \<and>
    (\<exists>new. sget (Root s') (i, r) = Some new \<and> rr_revision new = rr_revision old + 1 \<and>
      get_root_at_revision cfg now i r (rr_revision old + 1) (clean_up_loop cfg t i r limit s') = Inr (rr_root new))"
proof -
  obtain info where live: "sget (Collections s) i = Some info" "capacity_supported cfg (ci_ring_size info)"
    using build by (auto simp: build_ring_def Let_def)
  obtain ks inc where bl: "build_loop (flexible_ring_capacity cfg) (keys_of s i r) (rs_total (status_of s i r)) n
      (rs_included (status_of s i r)) [] = (ks, inc)" by fastforce
  note unf = build [unfolded build_ring_def live(1) old result_eval Let_def bl prod.case option.case]
  obtain acc where "push_members cfg (rr_intermediate old) ks (fetch_chunks cfg env (ci_ring_size info)) = Some acc"
    and "rr_revision old + 1 \<le> u32_max"
    using unf by (auto simp: checked_add_def split: if_split_asm)
  then have "sget (Root s') (i, r) = Some \<lparr>rr_root = finish_members cfg acc, rr_revision = rr_revision old + 1, rr_intermediate = acc\<rparr>"
    and arch: "sget (OldRoots s') (i, r, rr_revision old) = Some \<lparr>or_root = rr_root old, or_archived_at = env_now env\<rparr>"
    using unf live(2) by (auto simp: checked_add_def members_deposit_def on_ring_root_change_def)
  then obtain new where new: "sget (Root s') (i, r) = Some new" "rr_revision new = rr_revision old + 1" by simp
  show ?thesis
    unfolding clean_up_keeps_valid [OF clean] using new arch by (simp add: get_root_at_revision_def)
qed

theorem replaced_root_retained_witness:
  "let s = demo_state demo_large; s' = projr (build_ring demo_members (demo_env 20) [3] 0 2 s); old = the (sget (Root s) ([3], 0)) in
    get_root_at_revision demo_members 120 [3] 0 (rr_revision old) (clean_up_loop demo_members 50 [3] 0 5 s') =
      (if 120 < sat_add u64_max (env_now (demo_env 20)) (OldRootRetentionDuration demo_members) then Inr (rr_root old) else Inl NoRoot) \<and>
    (\<exists>new. sget (Root s') ([3], 0) = Some new \<and> rr_revision new = rr_revision old + 1 \<and>
      get_root_at_revision demo_members 120 [3] 0 (rr_revision old + 1) (clean_up_loop demo_members 50 [3] 0 5 s') = Inr (rr_root new))"
proof -
  have "isl (build_ring demo_members (demo_env 20) [3] 0 2 (demo_state demo_large)) = False" by code_simp
  then have b: "build_ring demo_members (demo_env 20) [3] 0 2 (demo_state demo_large) =
      Inr (projr (build_ring demo_members (demo_env 20) [3] 0 2 (demo_state demo_large)))" by simp
  have "sget (Root (demo_state demo_large)) ([3], 0) \<noteq> None" by code_simp
  then have o': "sget (Root (demo_state demo_large)) ([3], 0) = Some (the (sget (Root (demo_state demo_large)) ([3], 0)))" by simp
  show ?thesis
    unfolding Let_def by (rule replaced_root_retained [OF b o']) simp
qed

subsection \<open>Calls that succeed\<close>

text \<open>C20: in every reachable state each call the offchain worker submits passes its authorisation and takes effect, with
  two exceptions, both of a root build: the crypto refuses the keys, or the revision of the root has reached the end of
  its range.\<close>

theorem worker_calls_succeed:
  assumes "members_config_ok cfg"
    and "guarded_run (members_step cfg) (members_guard cfg) ops members_genesis"
    and s: "s = run_calls (members_step cfg) ops members_genesis"
    and c: "c \<in> set (members_offchain_worker cfg (env_now env) block s)"
  shows "(\<exists>s'. members_step cfg (env, Maintain True c) s = Inr s') \<or>
    (\<exists>i r e v n. c = BuildRing i r e v n \<and>
      (members_step cfg (env, Maintain True c) s = Inl (Failed (Module CouldNotPush)) \<or>
       (members_step cfg (env, Maintain True c) s = Inl (Failed (External ''Overflow'')) \<and> (\<exists>w. v = Some w \<and> u32_max \<le> w))))"
proof -
  have inv: "members_inv cfg s" unfolding s by (rule members_rooted(1) [OF assms(1,2)])
  have auth: "members_authorize cfg (env_now env) True c s = Inr ()" by (rule worker_authorized [OF c])
  then have step: "members_step cfg (env, Maintain True c) s = map_err Failed (maintenance_dispatch cfg env c s)" by simp
  have ok: "\<exists>s'. members_step cfg (env, Maintain True c) s = Inr s'" if "is_ok (maintenance_dispatch cfg env c s)"
    unfolding step using that by (auto simp: is_ok_iff)
  show ?thesis
  proof (cases c)
    case (BuildRing i r e v n)
    then have a: "ensure_can_build_ring cfg i r e v n s = Inr ()" using auth by simp
    then have v: "v = ring_revision i r s"
      by (cases v; cases "ring_revision i r s") (auto simp: ensure_can_build_ring_def check_revision_def split: if_splits)
    show ?thesis
    proof (cases "build_ring cfg env i r n s")
      case (Inl x)
      with build_ring_fails [OF assms(1) a] show ?thesis unfolding step using BuildRing v by (auto simp: map_err_def)
    qed (use step BuildRing in \<open>simp add: map_err_def\<close>)
  next
    case (OnboardMembers i r h m)
    then show ?thesis using onboard_members_ok [OF inv assms(1), of i r h m] auth ok by simp
  next
    case (MergeQueuePages i h h')
    then show ?thesis using merge_queue_pages_ok [OF inv, of i h h'] auth ok by simp
  qed (use step in \<open>simp_all add: map_err_def\<close>)
qed

theorem worker_calls_succeed_witness:
  "(\<exists>s'. members_step demo_members (demo_env 12, Maintain True (OnboardMembers [1] 1 1 (Some 23))) (demo_state demo_flexible) = Inr s') \<or>
    (\<exists>i r e v n. OnboardMembers [1] 1 1 (Some (23 :: nat)) = BuildRing i r e v n \<and>
      (members_step demo_members (demo_env 12, Maintain True (OnboardMembers [1] 1 1 (Some 23))) (demo_state demo_flexible) =
         Inl (Failed (Module CouldNotPush)) \<or>
       (members_step demo_members (demo_env 12, Maintain True (OnboardMembers [1] 1 1 (Some 23))) (demo_state demo_flexible) =
         Inl (Failed (External ''Overflow'')) \<and> (\<exists>w. v = Some w \<and> u32_max \<le> w))))"
proof -
  have "OnboardMembers [1] 1 1 (Some 23) \<in> set (members_offchain_worker demo_members (env_now (demo_env 12)) 3 (demo_state demo_flexible))"
    by code_simp
  then show ?thesis by (rule worker_calls_succeed [OF demo_members_ok demo_guards(1) refl])
qed

text \<open>A transaction that the extension admits as a self-inclusion does not fail: in every reachable state the member then
  moves from its queue page into the ring that takes new members, at the end of its keys.\<close>

theorem validated_self_inclusion_succeeds:
  assumes "members_config_ok cfg"
    and "guarded_run (members_step cfg) (members_guard cfg) ops members_genesis"
    and s: "s = run_calls (members_step cfg) ops members_genesis"
    and valid: "as_member_validate now verify_sig origin_none (Some (i, m, call_valid_at)) s = Inr origin"
  shows "\<exists>s' q. self_include cfg (Some origin) i m call_valid_at s = Inr s' \<and>
    sget (Members s') (i, m) = Some (Included (current_ring s i) q (length (keys_of s i (current_ring s i) q))) \<and>
    keys_of s' i (current_ring s i) q = keys_of s i (current_ring s i) q @ [m] \<and>
    rs_total (status_of s' i (current_ring s i)) = rs_total (status_of s i (current_ring s i)) + 1"
proof -
  have inv: "members_inv cfg s" unfolding s by (rule members_rooted(1) [OF assms(1,2)])
  let ?c = "current_ring s i" and ?cap = "flexible_ring_capacity cfg"
  have cap: "0 < ?cap" using config_okD(1) [OF assms(1)] .
  obtain info pos where live: "sget (Collections s) i = Some info" and ao: "append_only (rings_state_of s i)"
    and pos: "sget (Members s) (i, m) = Some pos"
    using valid by (auto simp: as_member_validate_def split: if_split_asm)
  with valid obtain qp since where pos: "sget (Members s) (i, m) = Some (Onboarding qp since)" and origin: "origin = m"
    by (cases pos) (auto simp: as_member_validate_def split: if_split_asm)
  show ?thesis
    using inv assms(1) live pos ao
  proof (rule do_self_include_ok)
    fix L :: "'a list"
    let ?q = "length L div ?cap"
    assume L: "length L = stotal (view s i) ?c" "\<And>p. keys_of s i ?c p = page ?cap L p" "length L < ring_capacity cfg (ci_ring_size info)"
      and eq: "do_self_include cfg i m s = Inr
       (let c = current_ring s i; s1 = leave_queue i m qp s;
            s3 = s1\<lparr>RingKeys := sput (i, c, ?q) (drop (?q * ?cap) L @ [m]) (RingKeys s),
               Members := sput (i, m) (Included c ?q (length L mod ?cap)) (Members s),
               RingKeysStatus := sput (i, c) ((status_of s i c)\<lparr>rs_total := length L + 1\<rparr>) (RingKeysStatus s),
               ActiveMembers := sput i (sat_add u32_max (active_count s i) 1) (ActiveMembers s),
               StaleRings := sput (i, c) () (StaleRings s)\<rparr>
        in if length L + 1 = ring_capacity cfg (ci_ring_size info)
           then s3\<lparr>CurrentRingIndex := sput i (saturating_inc c) (CurrentRingIndex s)\<rparr> else s3)"
    obtain s1 where inc: "do_self_include cfg i m s = Inr s1"
      and sel: "Members s1 = sput (i, m) (Included ?c ?q (length L mod ?cap)) (Members s)"
      "RingKeys s1 = sput (i, ?c, ?q) (drop (?q * ?cap) L @ [m]) (RingKeys s)"
      "RingKeysStatus s1 = sput (i, ?c) ((status_of s i ?c)\<lparr>rs_total := length L + 1\<rparr>) (RingKeysStatus s)"
      by (rule that [OF eq]) (simp_all add: Let_def)
    let ?s' = "members_deposit (MemberSelfIncluded i m) s1"
    have sel': "Members ?s' = Members s1" "RingKeys ?s' = RingKeys s1" "RingKeysStatus ?s' = RingKeysStatus s1"
      by (simp_all add: members_deposit_def)
    have page: "keys_of s i ?c ?q = drop (?q * ?cap) L" unfolding L(2) by (rule last_page(1) [OF cap])
    have "self_include cfg (Some origin) i m call_valid_at s = Inr ?s'"
      unfolding self_include_def origin by (simp add: inc)
    moreover have "sget (Members ?s') (i, m) = Some (Included ?c ?q (length (keys_of s i ?c ?q)))"
      unfolding page last_page(2) [OF cap] sel' sel by simp
    moreover have "keys_of ?s' i ?c ?q = keys_of s i ?c ?q @ [m]"
      unfolding page by (simp add: keys_of_def sel sel')
    moreover have "rs_total (status_of ?s' i ?c) = rs_total (status_of s i ?c) + 1"
      using L(1) unfolding status_total [of s] by (simp add: status_of_def [of ?s'] sget_or_def sel sel')
    ultimately show ?thesis by blast
  qed
qed

theorem validated_self_inclusion_succeeds_witness:
  "\<exists>s' q. self_include demo_members (Some 23) [1] 23 15 (demo_state demo_flexible) = Inr s' \<and>
    sget (Members s') ([1], 23) = Some (Included (current_ring (demo_state demo_flexible) [1]) q
      (length (keys_of (demo_state demo_flexible) [1] (current_ring (demo_state demo_flexible) [1]) q))) \<and>
    keys_of s' [1] (current_ring (demo_state demo_flexible) [1]) q =
      keys_of (demo_state demo_flexible) [1] (current_ring (demo_state demo_flexible) [1]) q @ [23] \<and>
    rs_total (status_of s' [1] (current_ring (demo_state demo_flexible) [1])) =
      rs_total (status_of (demo_state demo_flexible) [1] (current_ring (demo_state demo_flexible) [1])) + 1"
proof (rule validated_self_inclusion_succeeds [OF demo_members_ok demo_guards(1) refl])
  show "as_member_validate 15 (\<lambda>_. True) True (Some ([1], 23, 15)) (demo_state demo_flexible) = Inr 23" by code_simp
qed

subsection \<open>Merging the rings of an append-only collection\<close>

lemma archived_members [simp]: "Members (archive_and_notify now i r s) = Members s"
  by (simp add: archive_and_notify_def archive_root_def on_ring_root_change_def split: option.splits)

text \<open>\<open>merge_rings\<close> does not check the mode of the collection. In an append-only collection whose capacity is more than twice a
  page, any signed account can at no fee merge a ring of the collection into an index that holds no keys: the ring loses its root
  and its status while its further pages, and the records of the members on them, stay, so that these members are in no ring that
  could be built or proved against.\<close>

theorem merge_breaks_append_only_ring:
  assumes "members_config_ok cfg"
    and "guarded_run (members_step cfg) (members_guard cfg) ops members_genesis"
    and s: "s = run_calls (members_step cfg) ops members_genesis"
    and live: "sget (Collections s) i = Some info" "ci_mode info = AppendOnlyRings" "append_only (rings_state_of s i)"
    and large: "flexible_ring_capacity cfg < ring_capacity cfg (ci_ring_size info) div 2"
    and idx: "base \<noteq> target" "base \<noteq> current_ring s i" "target \<noteq> current_ring s i"
    and none: "keys_of s i base 0 = []" and nodel: "\<And>p. \<not> scontains (RingDeletionQueue s) (i, target, p)"
  shows "\<exists>s'. merge_rings cfg now True i base target s = Inr (PaysNo, s') \<and>
    sget (Root s') (i, target) = None \<and> \<not> scontains (RingKeysStatus s') (i, target) \<and>
    (\<forall>q > 0. keys_of s' i target q = keys_of s i target q) \<and>
    (\<forall>k q j. q > 0 \<and> sget (Members s) (i, k) = Some (Included target q j) \<longrightarrow> sget (Members s') (i, k) = Some (Included target q j))"
proof -
  have inv: "members_inv cfg s" unfolding s by (rule members_rooted(1) [OF assms(1,2)])
  note c = members_invD(1) [OF inv, of i]
  have l: "vinfo (view s i) = Some info" using live by simp
  note P = place_invD [OF coll_invD(2) [OF c]]
  let ?T = "keys_of s i target 0" and ?cap = "flexible_ring_capacity cfg"
  have pend: "sget (PendingSuspensions s) (i, q) = None" for q
    using live_invD(6) [OF coll_invD(5) [OF c] l live(2), of q] by simp
  have pof: "pending_of s i q = []" for q using pend by (simp add: pending_of_def sget_or_def)
  have at: "sget (Members s) (i, ?T ! x) = Some (Included target 0 x)" if "x < length ?T" for x
    using P(2) [of x target 0] that l pend by (simp add: susp_at_def)
  have dist: "distinct ?T" unfolding distinct_conv_nth
    using at by (metis RingPosition.inject(2) option.inject)
  have len: "length ?T \<le> ?cap"
    using ring_members_result(3) [OF inv assms(1) live(1) nodel] by (simp add: length_page)
  have known: "scontains (Members s) (i, k)" if "k \<in> set ?T" for k
    using that at by (auto simp: scontains_def in_set_conv_nth)
  obtain M where loop: "merge_loop cfg i base [] ?T s = Inr (?T, s\<lparr>Members := M\<rparr>)"
    and M: "\<And>j k. sget M (j, k) = (if j = i then append_positions ?cap base 0 ?T (\<lambda>k. sget (Members s) (i, k)) k else sget (Members s) (j, k))"
    using merge_loop_result [OF dist known, of "[]" cfg base] len by auto
  obtain s' where s': "merge_rings cfg now True i base target s = Inr (PaysNo, s')"
    and sel: "Members s' = M" "sget (Root s') (i, target) = None" "\<not> scontains (RingKeysStatus s') (i, target)"
      "RingKeys s' = sdel (i, target, 0) (sput (i, base, 0) ?T (RingKeys s))"
    using live large len idx none pof loop
    by (simp add: merge_rings_def Let_def members_deposit_def Root_archived)
  have "k \<notin> set ?T" if "q > 0" "sget (Members s) (i, k) = Some (Included target q j)" for k q j
    using that at by (auto simp: in_set_conv_nth)
  then have "sget (Members s') (i, k) = Some (Included target q j)"
    if "q > 0" "sget (Members s) (i, k) = Some (Included target q j)" for k q j
    using that by (simp add: sel M append_positions_out)
  moreover have "keys_of s' i target q = keys_of s i target q" if "q > 0" for q
    using that idx(1) by (simp add: sel keys_of_def)
  ultimately show ?thesis using s' sel(2,3) by blast
qed

theorem merge_breaks_append_only_ring_witness:
  "\<exists>s'. merge_rings demo_members 20 True [3] 5 0 (demo_state demo_large) = Inr (PaysNo, s') \<and>
    sget (Root s') ([3], 0) = None \<and> \<not> scontains (RingKeysStatus s') ([3], 0) \<and>
    (\<forall>q > 0. keys_of s' [3] 0 q = keys_of (demo_state demo_large) [3] 0 q) \<and>
    (\<forall>k q j. q > 0 \<and> sget (Members (demo_state demo_large)) ([3], k) = Some (Included 0 q j) \<longrightarrow>
       sget (Members s') ([3], k) = Some (Included 0 q j))"
proof (rule merge_breaks_append_only_ring [OF demo_members_ok demo_guards(3) refl])
  show "sget (Collections (demo_state demo_large)) [3] =
      Some \<lparr>ci_owner = ExternalOwner [7], ci_mode = AppendOnlyRings, ci_ring_size = R2e14, ci_self_inclusion_delay = None\<rparr>"
    by code_simp
  have "RingDeletionQueue (demo_state demo_large) = []" by code_simp
  then show "\<not> scontains (RingDeletionQueue (demo_state demo_large)) ([3], 0, p)" for p
    by (simp add: scontains_def)
  show "append_only (rings_state_of (demo_state demo_large) [3])" "5 \<noteq> current_ring (demo_state demo_large) [3]"
    "0 \<noteq> current_ring (demo_state demo_large) [3]" "keys_of (demo_state demo_large) [3] 5 0 = []"
    by code_simp+
qed (simp_all add: demo_members_def flexible_ring_capacity_def)

end
