(* ===== verification/Ring_Feed.thy ===== *)
theory Ring_Feed
  imports Members_Calls "HOL-Library.List_Lexorder" "HOL-Library.Option_ord"
begin

text \<open>
  What \<open>support/src/members_notifier_subscriber.rs\<close> shares between the notifier of ring roots and its
  subscribers: the updates, their batches and the provider of ring roots, which the members pallet
  implements. The notifier only relies on the contract \<open>ring_feed\<close> of a provider, and the members
  pallet is shown to keep it.
\<close>

subsection \<open>Updates and batches\<close>

record 'root RingRootUpdate =
  up_ring :: nat
  up_op :: "'root RingRootOp"

record 'root RingRootUpdatesBatch =
  ub_identifier :: coll_id
  ub_sequence :: nat
  ub_source_time :: nat
  ub_updates :: "'root RingRootUpdate list"
  ub_next_ring_index :: nat

text \<open>
  \<open>RingRootsProvider\<close>: the three operations of the trait, as the notifier reads them in one block.
\<close>

record 'root ring_provider =
  rp_get_ring_roots :: "coll_id \<Rightarrow> nat list \<Rightarrow> (nat \<times> 'root \<times> nat) list"
  rp_next_ring_index :: "coll_id \<Rightarrow> nat"
  rp_get_ring_roots_paginated :: "coll_id \<Rightarrow> nat option \<Rightarrow> nat \<Rightarrow> (nat \<times> 'root \<times> nat) list"

subsection \<open>The members pallet as a provider\<close>

text \<open>
  The trie iterates over the roots of a collection in the order of their hashed keys. The hash is a
  parameter: \<open>hashed i r\<close> is the place of the key of ring \<open>r\<close> in that order. Iteration from a key takes
  the entries after it, whether or not the key is still there.
\<close>

definition collection_roots ::
  "coll_id \<Rightarrow> ((coll_id \<times> nat) \<times> ('root, 'inter) RingRoot) list \<Rightarrow> (nat \<times> 'root \<times> nat) list" where
  "collection_roots i m =
     map (\<lambda>p. (snd (fst p), rr_root (snd p), rr_revision (snd p))) (filter (\<lambda>p. fst (fst p) = i) m)"

definition roots_in_order ::
  "(coll_id \<Rightarrow> nat \<Rightarrow> nat) \<Rightarrow> coll_id \<Rightarrow> ('m, 'root, 'inter) members_state \<Rightarrow> (nat \<times> 'root \<times> nat) list" where
  "roots_in_order hashed i s = sort_key (\<lambda>p. hashed i (fst p)) (collection_roots i (Root s))"

definition get_ring_roots_paginated ::
  "(coll_id \<Rightarrow> nat \<Rightarrow> nat) \<Rightarrow> coll_id \<Rightarrow> nat option \<Rightarrow> nat \<Rightarrow> ('m, 'root, 'inter) members_state \<Rightarrow>
   (nat \<times> 'root \<times> nat) list" where
  "get_ring_roots_paginated hashed i after_key limit s =
     (case after_key of
        Some key \<Rightarrow> take limit (filter (\<lambda>p. hashed i key < hashed i (fst p)) (roots_in_order hashed i s))
      | None \<Rightarrow> take limit (roots_in_order hashed i s))"

definition members_provider ::
  "(coll_id \<Rightarrow> nat \<Rightarrow> nat) \<Rightarrow> ('m, 'root, 'inter) members_state \<Rightarrow> 'root ring_provider" where
  "members_provider hashed s = \<lparr>
     rp_get_ring_roots = (\<lambda>i indices. get_ring_roots i indices s),
     rp_next_ring_index = (\<lambda>i. next_ring_index i s),
     rp_get_ring_roots_paginated = (\<lambda>i after_key limit. get_ring_roots_paginated hashed i after_key limit s)\<rparr>"

subsection \<open>The contract of a provider\<close>

text \<open>
  \<open>root_view i r\<close> is the revision and the root of a ring. A page of roots starts after the given ring in
  the provider's order; one that is not full has all the roots that are left, a full one leaves out
  only roots that come after its last.
\<close>

definition comes_after :: "(coll_id \<Rightarrow> nat \<Rightarrow> nat) \<Rightarrow> coll_id \<Rightarrow> nat option \<Rightarrow> nat \<Rightarrow> bool" where
  "comes_after place i after_key r = (case after_key of None \<Rightarrow> True | Some k \<Rightarrow> place i k < place i r)"

locale ring_feed =
  fixes provider :: "'s \<Rightarrow> 'root ring_provider"
    and feed_ok :: "'s \<Rightarrow> bool"
    and root_view :: "'s \<Rightarrow> coll_id \<Rightarrow> nat \<Rightarrow> (nat \<times> 'root) option"
    and place :: "coll_id \<Rightarrow> nat \<Rightarrow> nat"
  assumes get_roots: "feed_ok s \<Longrightarrow> rp_get_ring_roots (provider s) i indices =
      List.map_filter (\<lambda>r. map_option (\<lambda>(v, root). (r, root, v)) (root_view s i r)) indices"
    and page_sound: "feed_ok s \<Longrightarrow> (r, root, v) \<in> set (rp_get_ring_roots_paginated (provider s) i k n) \<Longrightarrow>
      root_view s i r = Some (v, root) \<and> comes_after place i k r"
    and page_length: "feed_ok s \<Longrightarrow> length (rp_get_ring_roots_paginated (provider s) i k n) \<le> n"
    and page_last: "feed_ok s \<Longrightarrow> length (rp_get_ring_roots_paginated (provider s) i k n) < n \<Longrightarrow>
      comes_after place i k r \<Longrightarrow> root_view s i r \<noteq> None \<Longrightarrow>
      r \<in> fst ` set (rp_get_ring_roots_paginated (provider s) i k n)"
    and page_full: "feed_ok s \<Longrightarrow> rp_get_ring_roots_paginated (provider s) i k n \<noteq> [] \<Longrightarrow>
      comes_after place i k r \<Longrightarrow> root_view s i r \<noteq> None \<Longrightarrow>
      r \<notin> fst ` set (rp_get_ring_roots_paginated (provider s) i k n) \<Longrightarrow>
      comes_after place i (Some (fst (last (rp_get_ring_roots_paginated (provider s) i k n)))) r"

subsection \<open>The members pallet keeps the contract\<close>

definition members_root_view :: "('m, 'root, 'inter) members_state \<Rightarrow> coll_id \<Rightarrow> nat \<Rightarrow> (nat \<times> 'root) option" where
  "members_root_view s i r = map_option (\<lambda>root. (rr_revision root, rr_root root)) (sget (Root s) (i, r))"

lemma roots_in_order_set:
  assumes "wf_storage (Root s)"
  shows "(r, root, v) \<in> set (roots_in_order hashed i s) \<longleftrightarrow> members_root_view s i r = Some (v, root)"
proof -
  have "(r, root, v) \<in> set (roots_in_order hashed i s) \<longleftrightarrow>
        (\<exists>x. ((i, r), x) \<in> set (Root s) \<and> rr_root x = root \<and> rr_revision x = v)"
    by (auto simp: roots_in_order_def collection_roots_def image_iff Bex_def)
  also have "\<dots> \<longleftrightarrow> (\<exists>x. sget (Root s) (i, r) = Some x \<and> rr_root x = root \<and> rr_revision x = v)"
    by (metis in_set_sget [OF assms] sget_in_set)
  also have "\<dots> \<longleftrightarrow> members_root_view s i r = Some (v, root)"
    by (auto simp: members_root_view_def)
  finally show ?thesis .
qed

lemma roots_in_order_sorted: "sorted (map (\<lambda>p. hashed i (fst p)) (roots_in_order hashed i s))"
  by (simp add: roots_in_order_def)

text \<open>A cut of a list sorted by a key: what is taken, and what is left out.\<close>

lemma take_sorted_rest:
  assumes "sorted (map f xs)" and "y \<in> set xs" and "y \<notin> set (take n xs)" and "take n xs \<noteq> []"
  shows "f (last (take n xs)) \<le> f y"
proof -
  have "y \<in> set (drop n xs)" using assms(2,3) by (metis append_take_drop_id Un_iff set_append)
  moreover have "sorted (map f (take n xs @ drop n xs))" using assms(1) by simp
  ultimately show ?thesis
    using last_in_set [OF assms(4)] by (simp only: map_append sorted_append) auto
qed

lemma paginated_filter:
  "get_ring_roots_paginated hashed i k n s =
     take n (filter (\<lambda>p. comes_after hashed i k (fst p)) (roots_in_order hashed i s))"
  by (cases k) (simp_all add: get_ring_roots_paginated_def comes_after_def)

text \<open>The hash is injective: a hashed key ends in the key itself.\<close>

definition members_feed_ok :: "(coll_id \<Rightarrow> nat \<Rightarrow> nat) \<Rightarrow> ('m, 'root, 'inter) members_state \<Rightarrow> bool" where
  "members_feed_ok hashed s \<longleftrightarrow> wf_storage (Root s) \<and> (\<forall>i. inj (hashed i))"

lemma members_page_set:
  assumes "members_feed_ok hashed s"
  shows "(r, root, v) \<in> set (filter (\<lambda>p. comes_after hashed i k (fst p)) (roots_in_order hashed i s)) \<longleftrightarrow>
    members_root_view s i r = Some (v, root) \<and> comes_after hashed i k r"
  using assms by (auto simp: members_feed_ok_def roots_in_order_set)

lemma members_page_full:
  fixes hashed i k and n :: nat and s :: "('m, 'root, 'inter) members_state"
  defines "p \<equiv> get_ring_roots_paginated hashed i k n s"
  assumes ok: "members_feed_ok hashed s" and after: "comes_after hashed i k r"
    and root: "members_root_view s i r \<noteq> None" and full: "p \<noteq> []" and out: "r \<notin> fst ` set p"
  shows "comes_after hashed i (Some (fst (last p))) r"
proof -
  let ?l = "filter (\<lambda>p. comes_after hashed i k (fst p)) (roots_in_order hashed i s)"
  have p: "p = take n ?l" by (simp add: p_def paginated_filter)
  obtain v x where "members_root_view s i r = Some (v, x)" using root by auto
  then have mem: "(r, x, v) \<in> set ?l" using after members_page_set [OF ok] by blast
  have "(r, x, v) \<notin> set p" using out by force
  moreover have "sorted (map (\<lambda>p. hashed i (fst p)) ?l)"
    using roots_in_order_sorted [of hashed i s] by (rule sorted_filter)
  ultimately have "hashed i (fst (last p)) \<le> hashed i r"
    using take_sorted_rest [of "\<lambda>p. hashed i (fst p)" ?l "(r, x, v)" n] mem full by (simp add: p)
  moreover have "fst (last p) \<noteq> r" using full out by (metis image_eqI last_in_set)
  moreover have "inj (hashed i)" using ok by (simp add: members_feed_ok_def)
  ultimately show ?thesis by (simp add: comes_after_def order_less_le inj_eq)
qed

interpretation members_feed: ring_feed "members_provider hashed" "members_feed_ok hashed" members_root_view hashed
  for hashed
proof
  fix s :: "('a, 'b, 'c) members_state" and i indices
  show "rp_get_ring_roots (members_provider hashed s) i indices =
      List.map_filter (\<lambda>r. map_option (\<lambda>(v, root). (r, root, v)) (members_root_view s i r)) indices"
    by (simp add: members_provider_def get_ring_roots_def members_root_view_def option.map_comp o_def)
next
  fix s :: "('a, 'b, 'c) members_state" and r root v i k n
  assume "members_feed_ok hashed s" "(r, root, v) \<in> set (rp_get_ring_roots_paginated (members_provider hashed s) i k n)"
  then show "members_root_view s i r = Some (v, root) \<and> comes_after hashed i k r"
    by (auto simp: members_provider_def paginated_filter members_page_set [symmetric] dest: in_set_takeD)
next
  fix s :: "('a, 'b, 'c) members_state" and i k n
  show "length (rp_get_ring_roots_paginated (members_provider hashed s) i k n) \<le> n"
    by (simp add: members_provider_def paginated_filter)
next
  fix s :: "('a, 'b, 'c) members_state" and i k n r
  let ?l = "filter (\<lambda>p. comes_after hashed i k (fst p)) (roots_in_order hashed i s)"
  assume ok: "members_feed_ok hashed s" and "length (rp_get_ring_roots_paginated (members_provider hashed s) i k n) < n"
    and after: "comes_after hashed i k r" and some: "members_root_view s i r \<noteq> None"
  moreover obtain v x where "members_root_view s i r = Some (v, x)" using some by auto
  then have "(r, x, v) \<in> set ?l" using after members_page_set [OF ok] by blast
  ultimately show "r \<in> fst ` set (rp_get_ring_roots_paginated (members_provider hashed s) i k n)"
    by (force simp: members_provider_def paginated_filter image_iff)
next
  fix s :: "('a, 'b, 'c) members_state" and i k n r
  assume "members_feed_ok hashed s" and "rp_get_ring_roots_paginated (members_provider hashed s) i k n \<noteq> []"
    and "comes_after hashed i k r" and "members_root_view s i r \<noteq> None"
    and "r \<notin> fst ` set (rp_get_ring_roots_paginated (members_provider hashed s) i k n)"
  then show "comes_after hashed i (Some (fst (last (rp_get_ring_roots_paginated (members_provider hashed s) i k n)))) r"
    using members_page_full [of hashed s i k r n] by (simp add: members_provider_def)
qed

end
