(* ===== verification/Notifier.thy ===== *)
theory Notifier
  imports Ring_Feed
begin

text \<open>
  The pallet \<open>pallets/members-notifier\<close>: it collects the rings whose root changed in pages, seals a page
  into a batch, sends the batch to each subscriber over XCM, sends new subscribers all roots page by
  page and answers requests to send roots again. The XCM router, the channel sizes and the encoded
  length of an update belong to the SDK and are parameters.
\<close>

subsection \<open>Types\<close>

record PagingState =
  write_page :: "16 word"
  send_page :: "16 word"
  last_update_block :: nat

record BatchDistributionState =
  bd_sequence :: nat
  bd_source_time :: nat
  bd_sealed_at :: nat
  bd_remaining :: nat

record PendingInitState =
  pi_collections :: "(coll_id \<times> RingExponent) list"
  pi_current :: nat
  pi_after :: "nat option"
  pi_sequence :: nat
  pi_source_time :: nat
  pi_pallet_index :: nat

record SubscriberInfo =
  si_collections :: "(coll_id \<times> RingExponent) list"
  si_last_init :: nat
  si_pallet_index :: nat

datatype CustomInvalidity =
    NotLocal | BatchInProgress | NoPendingWork | InvNoBatchActive | AlreadySent | InvSubscriberNotFound
  | InvNoPendingInit | BatchNotStuck

fun invalidity_code :: "CustomInvalidity \<Rightarrow> nat" where
  "invalidity_code NotLocal = 200"
| "invalidity_code BatchInProgress = 201"
| "invalidity_code NoPendingWork = 202"
| "invalidity_code InvNoBatchActive = 203"
| "invalidity_code AlreadySent = 204"
| "invalidity_code InvSubscriberNotFound = 205"
| "invalidity_code InvNoPendingInit = 206"
| "invalidity_code BatchNotStuck = 207"

datatype NotifierInvalid = InvStale | InvFuture | InvCustom CustomInvalidity

datatype 'root SubscriberCall =
    InitializeRingRoots RingExponent "'root RingRootUpdatesBatch"
  | UpdateRingRoots "'root RingRootUpdatesBatch"
  | TerminateSubscription

text \<open>A message handed to the router: the parachain, the index of its pallet and the call.\<close>

type_synonym 'root sent = "nat \<times> nat \<times> 'root SubscriberCall"

datatype NotifierEvent =
    Subscribed nat
  | Unsubscribed nat
  | UpdatesSent nat nat
  | UpdateSendFailed nat
  | ReplayRequested nat coll_id nat
  | BatchAbandoned nat

datatype NotifierError =
    SubscriberNotFound | AlreadySubscribed | TooManySubscribers | InvalidCollectionsList | TooManyUpdates
  | XcmSendFailed | NotSubscribedToCollection | InvalidRingIndex | ExceedsChannelCapacity | NoBatchActive
  | NoPendingInit | ReplayCooldownActive | EmptyRingIndices

datatype notifier_origin = FromSibling nat | Manager | SignedBy account_id | Authorized | NoOrigin

record notifier_config =
  nc_MaxSubscribers :: nat
  nc_MaxUpdatesPerBatch :: nat
  nc_MaxCollectionsPerSubscriber :: nat
  nc_MaxCollections :: nat
  nc_UpdateTriggerBlocks :: nat
  nc_UpdateTriggerThreshold :: nat
  nc_OffchainWorkerInterval :: nat
  nc_StuckBatchTimeout :: nat
  nc_ReplayCooldownSeconds :: nat
  nc_xcm_overhead :: nat
  nc_update_size :: nat

text \<open>
  What a call reads of its surroundings: the block number, the clock in seconds, the message size of
  the channel to a parachain, whether the router takes a message after those already sent, and the
  provider of ring roots.
\<close>

record 'root notifier_env =
  ne_block :: nat
  ne_now :: nat
  ne_channel :: "nat \<Rightarrow> nat option"
  ne_router :: "'root sent list \<Rightarrow> 'root sent \<Rightarrow> bool"
  ne_provider :: "'root ring_provider"

definition TX_RETRY_WINDOW :: nat where
  "TX_RETRY_WINDOW = 8"

definition TX_LONGEVITY :: nat where
  "TX_LONGEVITY = 64"

subsection \<open>Storage\<close>

text \<open>
  \<open>outbox\<close> lists the messages the router took, in order. The count of a counted map is its length.
\<close>

record 'root notifier_state =
  Subscribers :: "(nat, SubscriberInfo) storage"
  SealedBatchSequence :: nat
  PageState :: PagingState
  PendingUpdates :: "(16 word \<times> coll_id \<times> nat, unit) storage"
  PageUpdatesCount :: "(16 word, nat) storage"
  PendingInit :: "(nat, PendingInitState) storage"
  SealedBatchIndices :: "(coll_id, nat list) storage"
  CurrentBatch :: "BatchDistributionState option"
  SubscribersWithCurrentBatch :: "(nat, unit) storage"
  LastReplayTime :: "(nat \<times> coll_id, nat) storage"
  outbox :: "'root sent list"
  notifier_events :: "NotifierEvent list"

definition notifier_genesis :: "'root notifier_state" where
  "notifier_genesis = \<lparr>Subscribers = [], SealedBatchSequence = 0,
     PageState = \<lparr>write_page = 0, send_page = 0, last_update_block = 0\<rparr>, PendingUpdates = [],
     PageUpdatesCount = [], PendingInit = [], SealedBatchIndices = [], CurrentBatch = None,
     SubscribersWithCurrentBatch = [], LastReplayTime = [], outbox = [], notifier_events = []\<rparr>"

definition updates_in_page :: "'root notifier_state \<Rightarrow> 16 word \<Rightarrow> nat" where
  "updates_in_page s p = sget_or 0 (PageUpdatesCount s) p"

definition notifier_deposit :: "NotifierEvent \<Rightarrow> 'root notifier_state \<Rightarrow> 'root notifier_state" where
  "notifier_deposit e s = s\<lparr>notifier_events := notifier_events s @ [e]\<rparr>"

text \<open>
  \<open>clear(limit, None)\<close> removes the first \<open>limit\<close> entries of the iteration; \<open>clear_prefix\<close> the first ones
  of a prefix.
\<close>

definition sclear :: "nat \<Rightarrow> ('k, 'v) storage \<Rightarrow> ('k, 'v) storage" where
  "sclear limit m = drop limit m"

fun sclear_prefix :: "('k \<Rightarrow> bool) \<Rightarrow> nat \<Rightarrow> ('k, 'v) storage \<Rightarrow> ('k, 'v) storage" where
  "sclear_prefix P limit [] = []"
| "sclear_prefix P limit (x # m) =
     (if P (fst x) \<and> limit > 0 then sclear_prefix P (limit - 1) m else x # sclear_prefix P limit m)"

text \<open>\<open>windows(2).all(|w| w[0] < w[1])\<close>.\<close>

fun ascending :: "'a::ord list \<Rightarrow> bool" where
  "ascending (x # y # zs) = (x < y \<and> ascending (y # zs))"
| "ascending _ = True"

text \<open>\<open>chunks(n)\<close>; the callers never pass \<open>0\<close>, for which Rust panics.\<close>

function chunks_of :: "nat \<Rightarrow> 'a list \<Rightarrow> 'a list list" where
  "chunks_of n xs = (if n = 0 \<or> xs = [] then [] else take n xs # chunks_of n (drop n xs))"
  by pat_completeness auto
termination by (relation "measure (\<lambda>(n, xs). length xs)") auto
declare chunks_of.simps [simp del]

subsection \<open>Message sizes\<close>

definition max_xcm_payload_for_subscriber :: "'root notifier_env \<Rightarrow> nat \<Rightarrow> nat option" where
  "max_xcm_payload_for_subscriber env para = ne_channel env para"

definition get_xcm_update_batch_size :: "notifier_config \<Rightarrow> 'root notifier_env \<Rightarrow> nat \<Rightarrow> nat option" where
  "get_xcm_update_batch_size cfg env para =
     (case max_xcm_payload_for_subscriber env para of
        None \<Rightarrow> None
      | Some max_payload \<Rightarrow>
          if nc_update_size cfg = 0 then None
          else
            let available = max_payload - nc_xcm_overhead cfg;
                count = available div nc_update_size cfg
            in if count = 0 then None else Some (min count (nc_MaxUpdatesPerBatch cfg)))"

definition max_updates_per_xcm :: "notifier_config \<Rightarrow> 'root notifier_env \<Rightarrow> nat \<Rightarrow> nat option" where
  "max_updates_per_xcm cfg env para = get_xcm_update_batch_size cfg env para"

subsection \<open>Sending\<close>

definition send_xcm_call_to_subscriber ::
  "'root notifier_env \<Rightarrow> nat \<Rightarrow> 'root SubscriberCall \<Rightarrow> nat \<Rightarrow> 'root notifier_state \<Rightarrow>
   NotifierError + 'root notifier_state" where
  "send_xcm_call_to_subscriber env para call idx s =
     ensure (ne_router env (outbox s) (para, idx, call)) XcmSendFailed
       (Inr (s\<lparr>outbox := outbox s @ [(para, idx, call)]\<rparr>))"

definition send_updates_to_subscriber ::
  "'root notifier_env \<Rightarrow> nat \<Rightarrow> 'root RingRootUpdatesBatch \<Rightarrow> nat \<Rightarrow> 'root notifier_state \<Rightarrow>
   NotifierError + 'root notifier_state" where
  "send_updates_to_subscriber env para batch idx s =
     send_xcm_call_to_subscriber env para (UpdateRingRoots batch) idx s"

definition send_initialize_ring_roots ::
  "'root notifier_env \<Rightarrow> nat \<Rightarrow> 'root RingRootUpdatesBatch \<Rightarrow> RingExponent \<Rightarrow> nat \<Rightarrow> 'root notifier_state \<Rightarrow>
   NotifierError + 'root notifier_state" where
  "send_initialize_ring_roots env para batch ring_exponent idx s =
     send_xcm_call_to_subscriber env para (InitializeRingRoots ring_exponent batch) idx s"

text \<open>The loop of \<open>resolve_updates_for_indices\<close> over the indices, with the roots still to be matched.\<close>

fun match_roots :: "nat list \<Rightarrow> (nat \<times> 'root \<times> nat) list \<Rightarrow> 'root RingRootUpdate list" where
  "match_roots [] roots = []"
| "match_roots (idx # idxs) ((r, root, revision) # roots) =
     (if r = idx then \<lparr>up_ring = r, up_op = RootBuilt revision root\<rparr> # match_roots idxs roots
      else \<lparr>up_ring = idx, up_op = RootDeleted\<rparr> # match_roots idxs ((r, root, revision) # roots))"
| "match_roots (idx # idxs) [] = \<lparr>up_ring = idx, up_op = RootDeleted\<rparr> # match_roots idxs []"

definition resolve_updates_for_indices ::
  "'root notifier_env \<Rightarrow> coll_id \<Rightarrow> nat list \<Rightarrow> 'root RingRootUpdate list" where
  "resolve_updates_for_indices env i indices =
     match_roots indices (rp_get_ring_roots (ne_provider env) i indices)"

subsection \<open>Pages and batches\<close>

definition cleanup_send_buffer ::
  "notifier_config \<Rightarrow> 'root notifier_env \<Rightarrow> 16 word \<Rightarrow> 'root notifier_state \<Rightarrow> 'root notifier_state" where
  "cleanup_send_buffer cfg env page s =
     s\<lparr>PendingUpdates := sclear_prefix (\<lambda>(p, _, _). p = page) (nc_MaxUpdatesPerBatch cfg) (PendingUpdates s),
       PageUpdatesCount := sdel page (PageUpdatesCount s),
       PageState := (PageState s)\<lparr>send_page := send_page (PageState s) + 1, last_update_block := ne_block env\<rparr>\<rparr>"

definition seal_and_start_batch ::
  "'root notifier_env \<Rightarrow> 16 word \<Rightarrow> 16 word \<Rightarrow> 'root notifier_state \<Rightarrow> (nat \<times> nat) \<times> 'root notifier_state" where
  "seal_and_start_batch env send write s =
     (let s1 = (if send = write then s\<lparr>PageState := (PageState s)\<lparr>write_page := write_page (PageState s) + 1\<rparr>\<rparr> else s);
          sequence = sat_add u64_max (SealedBatchSequence s1) 1
      in ((sequence, ne_now env), s1\<lparr>SealedBatchSequence := sequence\<rparr>))"

definition clear_batch :: "notifier_config \<Rightarrow> 'root notifier_state \<Rightarrow> 'root notifier_state" where
  "clear_batch cfg s =
     s\<lparr>CurrentBatch := None,
       SealedBatchIndices := sclear (nc_MaxCollections cfg) (SealedBatchIndices s),
       SubscribersWithCurrentBatch := sclear (nc_MaxSubscribers cfg) (SubscribersWithCurrentBatch s)\<rparr>"

definition has_processable_updates ::
  "notifier_config \<Rightarrow> 'root notifier_env \<Rightarrow> PagingState \<Rightarrow> 'root notifier_state \<Rightarrow> bool" where
  "has_processable_updates cfg env page_state s =
     (if send_page page_state \<noteq> write_page page_state then True
      else
        let count = updates_in_page s (write_page page_state)
        in if count = 0 then False
           else ne_block env - last_update_block page_state \<ge> nc_UpdateTriggerBlocks cfg \<or>
                count \<ge> nc_UpdateTriggerThreshold cfg)"

definition has_pending_work :: "notifier_config \<Rightarrow> 'root notifier_env \<Rightarrow> 'root notifier_state \<Rightarrow> bool" where
  "has_pending_work cfg env s = has_processable_updates cfg env (PageState s) s"

text \<open>\<open>on_ring_root_change\<close> of the notifier.\<close>

definition note_root_change ::
  "notifier_config \<Rightarrow> coll_id \<Rightarrow> nat \<Rightarrow> 'root notifier_state \<Rightarrow> 'root notifier_state" where
  "note_root_change cfg i r s =
     (let page = write_page (PageState s)
      in if scontains (PendingUpdates s) (page, i, r) then s
         else
           let (page1, s1) =
                 (if updates_in_page s page \<ge> nc_MaxUpdatesPerBatch cfg
                  then (page + 1, s\<lparr>PageState := (PageState s)\<lparr>write_page := page + 1\<rparr>\<rparr>) else (page, s))
           in s1\<lparr>PendingUpdates := sput (page1, i, r) () (PendingUpdates s1),
                 PageUpdatesCount := sput page1 (sat_add u32_max (updates_in_page s1 page1) 1) (PageUpdatesCount s1)\<rparr>)"

subsection \<open>Subscriptions\<close>

definition register_for_init ::
  "'root notifier_env \<Rightarrow> nat \<Rightarrow> (coll_id \<times> RingExponent) list \<Rightarrow> nat \<Rightarrow> 'root notifier_state \<Rightarrow> 'root notifier_state" where
  "register_for_init env para collections idx s =
     s\<lparr>Subscribers := sput para \<lparr>si_collections = collections, si_last_init = SealedBatchSequence s,
         si_pallet_index = idx\<rparr> (Subscribers s),
       PendingInit := sput para \<lparr>pi_collections = collections, pi_current = 0, pi_after = None,
         pi_sequence = SealedBatchSequence s, pi_source_time = ne_now env, pi_pallet_index = idx\<rparr> (PendingInit s)\<rparr>"

definition subscribe ::
  "notifier_config \<Rightarrow> 'root notifier_env \<Rightarrow> notifier_origin \<Rightarrow> nat \<Rightarrow> (coll_id \<times> RingExponent) list \<Rightarrow> nat \<Rightarrow>
   'root notifier_state \<Rightarrow> NotifierError dispatch_error + 'root notifier_state" where
  "subscribe cfg env origin para members_collections idx s =
     ensure (origin = Manager) BadOrigin (
     ensure (\<not> scontains (Subscribers s) para) (Module AlreadySubscribed) (
     ensure (length (Subscribers s) < nc_MaxSubscribers cfg) (Module TooManySubscribers) (
     ensure (ascending (map fst members_collections)) (Module InvalidCollectionsList) (
     Inr (notifier_deposit (Subscribed para) (register_for_init env para members_collections idx s))))))"

text \<open>The origin of \<open>unsubscribe\<close>: the parachain, and whether it asks for itself.\<close>

definition unsubscribe_origin ::
  "notifier_origin \<Rightarrow> nat option \<Rightarrow> NotifierError dispatch_error + (nat \<times> bool)" where
  "unsubscribe_origin origin subscriber_parachain_id =
     (case origin of
        FromSibling para \<Rightarrow> Inr (para, True)
      | _ \<Rightarrow>
          ensure (origin = Manager) BadOrigin (
          ok_or subscriber_parachain_id (Module SubscriberNotFound) (\<lambda>para. Inr (para, False))))"

text \<open>The adjustment of the current batch when a subscriber leaves.\<close>

definition leave_batch ::
  "notifier_config \<Rightarrow> nat \<Rightarrow> SubscriberInfo \<Rightarrow> 'root notifier_state \<Rightarrow> 'root notifier_state" where
  "leave_batch cfg para info s =
     (case CurrentBatch s of
        None \<Rightarrow> s
      | Some batch \<Rightarrow>
          if scontains (SubscribersWithCurrentBatch s) para
          then s\<lparr>SubscribersWithCurrentBatch := sdel para (SubscribersWithCurrentBatch s)\<rparr>
          else
            let was_counted = si_last_init info < bd_sequence batch
            in if was_counted \<and> bd_remaining batch > 0
               then
                 let batch1 = batch\<lparr>bd_remaining := bd_remaining batch - 1\<rparr>
                 in if bd_remaining batch1 = 0 then clear_batch cfg s else s\<lparr>CurrentBatch := Some batch1\<rparr>
               else s)"

definition unsubscribe ::
  "notifier_config \<Rightarrow> 'root notifier_env \<Rightarrow> notifier_origin \<Rightarrow> nat option \<Rightarrow> 'root notifier_state \<Rightarrow>
   NotifierError dispatch_error + 'root notifier_state" where
  "unsubscribe cfg env origin subscriber_parachain_id s =
     on_ok (unsubscribe_origin origin subscriber_parachain_id) (\<lambda>(para, from_subscriber).
     ok_or (sget (Subscribers s) para) (Module SubscriberNotFound) (\<lambda>info.
     let s1 = (if \<not> from_subscriber
               then (case send_xcm_call_to_subscriber env para TerminateSubscription (si_pallet_index info) s of
                       Inl _ \<Rightarrow> s | Inr s' \<Rightarrow> s')
               else s);
         s2 = s1\<lparr>LastReplayTime := fold (\<lambda>(i, _). sdel (para, i)) (si_collections info) (LastReplayTime s1),
                 Subscribers := sdel para (Subscribers s1),
                 PendingInit := sdel para (PendingInit s1)\<rparr>;
         s3 = leave_batch cfg para info s2
     in Inr (notifier_deposit (Unsubscribed para) s3)))"

subsection \<open>Replay\<close>

text \<open>
  The lists of collections are sorted, so that the binary search finds an identifier exactly if it is there.
\<close>

definition request_replay ::
  "notifier_config \<Rightarrow> 'root notifier_env \<Rightarrow> notifier_origin \<Rightarrow> nat \<Rightarrow> coll_id \<Rightarrow> nat list \<Rightarrow>
   'root notifier_state \<Rightarrow> NotifierError dispatch_error + 'root notifier_state" where
  "request_replay cfg env origin para i ring_root_indices s =
     ensure (case origin of SignedBy _ \<Rightarrow> True | _ \<Rightarrow> False) BadOrigin (map_err Module (
     ensure (ring_root_indices \<noteq> []) EmptyRingIndices (
     ok_or (sget (Subscribers s) para) SubscriberNotFound (\<lambda>info.
     ensure (i \<in> fst ` set (si_collections info)) NotSubscribedToCollection (
     let next = rp_next_ring_index (ne_provider env) i
     in ensure (ascending ring_root_indices \<and> last ring_root_indices < next) InvalidRingIndex (
        ok_or (get_xcm_update_batch_size cfg env para) XcmSendFailed (\<lambda>max_per_xcm.
        ensure (length ring_root_indices \<le> max_per_xcm) ExceedsChannelCapacity (
        ensure (case sget (LastReplayTime s) (para, i) of
                  None \<Rightarrow> True | Some last_time \<Rightarrow> ne_now env - last_time \<ge> nc_ReplayCooldownSeconds cfg)
          ReplayCooldownActive (
        let updates = resolve_updates_for_indices env i ring_root_indices
        in ensure (length updates \<le> nc_MaxUpdatesPerBatch cfg) TooManyUpdates (
           let batch = \<lparr>ub_identifier = i, ub_sequence = SealedBatchSequence s, ub_source_time = ne_now env,
                 ub_updates = updates, ub_next_ring_index = next\<rparr>
           in on_ok (send_updates_to_subscriber env para batch (si_pallet_index info) s) (\<lambda>s1.
              Inr (notifier_deposit (ReplayRequested para i (length ring_root_indices))
                (s1\<lparr>LastReplayTime := sput (para, i) (ne_now env) (LastReplayTime s1)\<rparr>)))))))))))))"

subsection \<open>The calls of the offchain worker\<close>

text \<open>
  The changed rings of a page, grouped by collection in ascending order and sorted.
\<close>

definition page_entries :: "16 word \<Rightarrow> 'root notifier_state \<Rightarrow> (coll_id \<times> nat) list" where
  "page_entries page s = map (\<lambda>k. snd (fst k)) (filter (\<lambda>k. fst (fst k) = page) (PendingUpdates s))"

definition changed_indices :: "(coll_id \<times> nat) list \<Rightarrow> (coll_id \<times> nat list) list" where
  "changed_indices entries =
     map (\<lambda>i. (i, sort (map snd (filter (\<lambda>e. fst e = i) entries)))) (sort (remdups (map fst entries)))"

definition enqueue_updates ::
  "notifier_config \<Rightarrow> 'root notifier_env \<Rightarrow> notifier_origin \<Rightarrow> 'root notifier_state \<Rightarrow>
   NotifierError dispatch_error + 'root notifier_state" where
  "enqueue_updates cfg env origin s =
     ensure (origin = Authorized) BadOrigin (
     let write = write_page (PageState s);
         actual_send_page = send_page (PageState s)
     in if Subscribers s = []
        then Inr (cleanup_send_buffer cfg env actual_send_page
               (if actual_send_page = write
                then s\<lparr>PageState := (PageState s)\<lparr>write_page := write_page (PageState s) + 1\<rparr>\<rparr> else s))
        else
          let ((sequence, source_time), s1) = seal_and_start_batch env actual_send_page write s;
              s2 = s1\<lparr>SealedBatchIndices :=
                     fold (\<lambda>(i, indices). sput i (take (nc_MaxUpdatesPerBatch cfg) indices))
                       (changed_indices (page_entries actual_send_page s1)) (SealedBatchIndices s1)\<rparr>;
              s3 = cleanup_send_buffer cfg env actual_send_page s2
          in Inr (s3\<lparr>CurrentBatch := Some \<lparr>bd_sequence = sequence, bd_source_time = source_time,
                      bd_sealed_at = ne_block env, bd_remaining = length (Subscribers s)\<rparr>\<rparr>))"

text \<open>
  The loops of \<open>send_batch\<close> over the chunks of a collection and over the collections, with the flag
  that a message was refused.
\<close>

fun send_chunks ::
  "notifier_config \<Rightarrow> 'root notifier_env \<Rightarrow> nat \<Rightarrow> nat \<Rightarrow> ('root RingRootUpdate list \<Rightarrow> 'root RingRootUpdatesBatch) \<Rightarrow>
   'root RingRootUpdate list list \<Rightarrow> bool \<Rightarrow> 'root notifier_state \<Rightarrow> bool \<times> 'root notifier_state" where
  "send_chunks cfg env para idx mk [] failed s = (failed, s)"
| "send_chunks cfg env para idx mk (chunk # rest) failed s =
     (if length chunk > nc_MaxUpdatesPerBatch cfg \<or> chunk = [] then send_chunks cfg env para idx mk rest failed s
      else case send_updates_to_subscriber env para (mk chunk) idx s of
             Inr s1 \<Rightarrow> send_chunks cfg env para idx mk rest failed (notifier_deposit (UpdatesSent para (length chunk)) s1)
           | Inl _ \<Rightarrow> send_chunks cfg env para idx mk rest True (notifier_deposit (UpdateSendFailed para) s))"

fun send_collections ::
  "notifier_config \<Rightarrow> 'root notifier_env \<Rightarrow> nat \<Rightarrow> nat \<Rightarrow> nat \<Rightarrow> nat \<Rightarrow> nat \<Rightarrow> (coll_id \<times> RingExponent) list \<Rightarrow> bool \<Rightarrow>
   'root notifier_state \<Rightarrow> bool \<times> 'root notifier_state" where
  "send_collections cfg env para idx max_per_xcm sequence source_time [] failed s = (failed, s)"
| "send_collections cfg env para idx max_per_xcm sequence source_time ((i, _) # rest) failed s =
     (case sget (SealedBatchIndices s) i of
        None \<Rightarrow> send_collections cfg env para idx max_per_xcm sequence source_time rest failed s
      | Some indices \<Rightarrow>
          if indices = [] then send_collections cfg env para idx max_per_xcm sequence source_time rest failed s
          else
            let updates = resolve_updates_for_indices env i indices;
                mk = (\<lambda>chunk. \<lparr>ub_identifier = i, ub_sequence = sequence, ub_source_time = source_time,
                       ub_updates = chunk, ub_next_ring_index = rp_next_ring_index (ne_provider env) i\<rparr>);
                (failed1, s1) = send_chunks cfg env para idx mk (chunks_of max_per_xcm updates) failed s
            in send_collections cfg env para idx max_per_xcm sequence source_time rest failed1 s1)"

definition mark_served ::
  "notifier_config \<Rightarrow> nat \<Rightarrow> BatchDistributionState \<Rightarrow> 'root notifier_state \<Rightarrow> 'root notifier_state" where
  "mark_served cfg para current_batch s =
     (let s1 = s\<lparr>SubscribersWithCurrentBatch := sput para () (SubscribersWithCurrentBatch s)\<rparr>;
          batch1 = current_batch\<lparr>bd_remaining := bd_remaining current_batch - 1\<rparr>
      in if bd_remaining batch1 = 0 then clear_batch cfg s1 else s1\<lparr>CurrentBatch := Some batch1\<rparr>)"

definition send_batch ::
  "notifier_config \<Rightarrow> 'root notifier_env \<Rightarrow> notifier_origin \<Rightarrow> nat \<Rightarrow> nat \<Rightarrow> 'root notifier_state \<Rightarrow>
   NotifierError dispatch_error + 'root notifier_state" where
  "send_batch cfg env origin para sequence s =
     ensure (origin = Authorized) BadOrigin (
     ok_or (CurrentBatch s) (Module NoBatchActive) (\<lambda>current_batch.
     ok_or (sget (Subscribers s) para) (Module SubscriberNotFound) (\<lambda>info.
     let max_per_xcm = (case get_xcm_update_batch_size cfg env para of None \<Rightarrow> 0 | Some n \<Rightarrow> n)
     in if max_per_xcm = 0
        then Inr (mark_served cfg para current_batch (notifier_deposit (UpdateSendFailed para) s))
        else
          let (send_failed, s1) = send_collections cfg env para (si_pallet_index info) max_per_xcm sequence
                (bd_source_time current_batch) (si_collections info) False s
          in if send_failed then Inr s1 else Inr (mark_served cfg para current_batch s1))))"

definition build_init_batch ::
  "notifier_config \<Rightarrow> 'root notifier_env \<Rightarrow> PendingInitState \<Rightarrow> coll_id \<Rightarrow> (nat \<times> 'root \<times> nat) list \<Rightarrow>
   'root RingRootUpdatesBatch" where
  "build_init_batch cfg env state i roots =
     \<lparr>ub_identifier = i, ub_sequence = pi_sequence state, ub_source_time = pi_source_time state,
      ub_updates = take (nc_MaxUpdatesPerBatch cfg)
        (map (\<lambda>(r, root, revision). \<lparr>up_ring = r, up_op = RootBuilt revision root\<rparr>) roots),
      ub_next_ring_index = rp_next_ring_index (ne_provider env) i\<rparr>"

definition advance_init_pagination ::
  "nat \<Rightarrow> PendingInitState \<Rightarrow> nat \<Rightarrow> bool \<Rightarrow> nat option \<Rightarrow> 'root notifier_state \<Rightarrow> 'root notifier_state" where
  "advance_init_pagination para state total_collections might_have_more_in_collection last_returned_index s =
     (if might_have_more_in_collection
      then (case sget (PendingInit s) para of
              None \<Rightarrow> s
            | Some st \<Rightarrow> s\<lparr>PendingInit := sput para (st\<lparr>pi_after := last_returned_index\<rparr>) (PendingInit s)\<rparr>)
      else if pi_current state < total_collections - 1
      then (case sget (PendingInit s) para of
              None \<Rightarrow> s
            | Some st \<Rightarrow> s\<lparr>PendingInit := sput para
                (st\<lparr>pi_current := sat_add u32_max (pi_current st) 1, pi_after := None\<rparr>) (PendingInit s)\<rparr>)
      else s\<lparr>PendingInit := sdel para (PendingInit s)\<rparr>)"

definition send_init_page ::
  "notifier_config \<Rightarrow> 'root notifier_env \<Rightarrow> notifier_origin \<Rightarrow> nat \<Rightarrow> 'root notifier_state \<Rightarrow>
   NotifierError dispatch_error + 'root notifier_state" where
  "send_init_page cfg env origin para s =
     ensure (origin = Authorized) BadOrigin (
     ok_or (sget (PendingInit s) para) (Module NoPendingInit) (\<lambda>state.
     case max_updates_per_xcm cfg env para of
       None \<Rightarrow> Inr s
     | Some max_per_xcm \<Rightarrow>
         if \<not> pi_current state < length (pi_collections state) then Inr (s\<lparr>PendingInit := sdel para (PendingInit s)\<rparr>)
         else
           let (current_collection, ring_exponent) = pi_collections state ! pi_current state;
               roots = rp_get_ring_roots_paginated (ne_provider env) current_collection (pi_after state) max_per_xcm;
               might_have_more_in_collection = (length roots = max_per_xcm);
               last_returned_index = (if roots = [] then None else Some (fst (last roots)));
               batch = build_init_batch cfg env state current_collection roots
           in case send_initialize_ring_roots env para batch ring_exponent (pi_pallet_index state) s of
                Inl _ \<Rightarrow> Inr s
              | Inr s1 \<Rightarrow> Inr (advance_init_pagination para state (length (pi_collections state))
                           might_have_more_in_collection last_returned_index s1)))"

definition abandon_stuck_batch ::
  "notifier_config \<Rightarrow> notifier_origin \<Rightarrow> 'root notifier_state \<Rightarrow> NotifierError dispatch_error + 'root notifier_state" where
  "abandon_stuck_batch cfg origin s =
     ensure (origin = Authorized) BadOrigin (
     ok_or (CurrentBatch s) (Module NoBatchActive) (\<lambda>current_batch.
     Inr (notifier_deposit (BatchAbandoned (bd_sequence current_batch)) (clear_batch cfg s))))"

subsection \<open>Authorisation\<close>

datatype tx_source = InBlock | LocalSource | ExternalSource

datatype provides_tag =
    TagEnqueue "16 word"
  | TagSend nat nat
  | TagInit nat nat "nat option"
  | TagAbandon nat

record notifier_validity =
  nv_provides :: provides_tag
  nv_priority :: nat
  nv_longevity :: nat
  nv_propagate :: bool

definition ensure_local_source :: "tx_source \<Rightarrow> NotifierInvalid + 'a \<Rightarrow> NotifierInvalid + 'a" where
  "ensure_local_source source k = ensure (source = InBlock \<or> source = LocalSource) (InvCustom NotLocal) k"

definition build_local_validity :: "'root notifier_env \<Rightarrow> provides_tag \<Rightarrow> notifier_validity" where
  "build_local_validity env tag =
     \<lparr>nv_provides = tag, nv_priority = min u64_max (ne_block env), nv_longevity = TX_LONGEVITY, nv_propagate = False\<rparr>"

definition authorize_enqueue_updates ::
  "notifier_config \<Rightarrow> 'root notifier_env \<Rightarrow> tx_source \<Rightarrow> 16 word \<Rightarrow> 'root notifier_state \<Rightarrow>
   NotifierInvalid + notifier_validity" where
  "authorize_enqueue_updates cfg env source page s =
     ensure_local_source source (
     if CurrentBatch s \<noteq> None then Inl (InvCustom BatchInProgress)
     else if page < send_page (PageState s) then Inl InvStale
     else if page > send_page (PageState s) then Inl InvFuture
     else if \<not> has_processable_updates cfg env (PageState s) s then Inl (InvCustom NoPendingWork)
     else Inr (build_local_validity env (TagEnqueue (send_page (PageState s)))))"

definition authorize_send_batch ::
  "'root notifier_env \<Rightarrow> tx_source \<Rightarrow> nat \<Rightarrow> nat \<Rightarrow> 'root notifier_state \<Rightarrow> NotifierInvalid + notifier_validity" where
  "authorize_send_batch env source para sequence s =
     ensure_local_source source (
     ok_or (CurrentBatch s) (InvCustom InvNoBatchActive) (\<lambda>current_batch.
     if sequence < bd_sequence current_batch then Inl InvStale
     else if sequence > bd_sequence current_batch then Inl InvFuture
     else if bd_remaining current_batch = 0 then Inl (InvCustom InvNoBatchActive)
     else if scontains (SubscribersWithCurrentBatch s) para then Inl (InvCustom AlreadySent)
     else
       ok_or (sget (Subscribers s) para) (InvCustom InvSubscriberNotFound) (\<lambda>info.
       if si_last_init info \<ge> bd_sequence current_batch then Inl InvStale
       else Inr (build_local_validity env (TagSend sequence para)))))"

definition authorize_send_init_page ::
  "'root notifier_env \<Rightarrow> tx_source \<Rightarrow> nat \<Rightarrow> nat \<Rightarrow> nat option \<Rightarrow> 'root notifier_state \<Rightarrow>
   NotifierInvalid + notifier_validity" where
  "authorize_send_init_page env source para current_collection_index after_ring_index s =
     ensure_local_source source (
     ok_or (sget (PendingInit s) para) (InvCustom InvNoPendingInit) (\<lambda>state.
     if current_collection_index < pi_current state then Inl InvStale
     else if current_collection_index > pi_current state then Inl InvFuture
     else if after_ring_index < pi_after state then Inl InvStale
     else if after_ring_index > pi_after state then Inl InvFuture
     else Inr (build_local_validity env (TagInit para (pi_current state) (pi_after state)))))"

definition authorize_abandon_stuck_batch ::
  "notifier_config \<Rightarrow> 'root notifier_env \<Rightarrow> tx_source \<Rightarrow> 'root notifier_state \<Rightarrow> NotifierInvalid + notifier_validity" where
  "authorize_abandon_stuck_batch cfg env source s =
     ensure_local_source source (
     ok_or (CurrentBatch s) (InvCustom InvNoBatchActive) (\<lambda>current_batch.
     if ne_block env - bd_sealed_at current_batch < nc_StuckBatchTimeout cfg then Inl (InvCustom BatchNotStuck)
     else Inr (build_local_validity env (TagAbandon (bd_sequence current_batch)))))"

datatype notifier_call =
    EnqueueUpdates "16 word" nat
  | SendBatch nat nat nat
  | SendInitPage nat nat "nat option" nat
  | AbandonStuckBatch nat

fun notifier_authorize ::
  "notifier_config \<Rightarrow> 'root notifier_env \<Rightarrow> tx_source \<Rightarrow> notifier_call \<Rightarrow> 'root notifier_state \<Rightarrow>
   NotifierInvalid + notifier_validity" where
  "notifier_authorize cfg env source (EnqueueUpdates page _) s = authorize_enqueue_updates cfg env source page s"
| "notifier_authorize cfg env source (SendBatch para sequence _) s = authorize_send_batch env source para sequence s"
| "notifier_authorize cfg env source (SendInitPage para c k _) s = authorize_send_init_page env source para c k s"
| "notifier_authorize cfg env source (AbandonStuckBatch _) s = authorize_abandon_stuck_batch cfg env source s"

fun notifier_dispatch ::
  "notifier_config \<Rightarrow> 'root notifier_env \<Rightarrow> notifier_call \<Rightarrow> 'root notifier_state \<Rightarrow>
   NotifierError dispatch_error + 'root notifier_state" where
  "notifier_dispatch cfg env (EnqueueUpdates _ _) s = enqueue_updates cfg env Authorized s"
| "notifier_dispatch cfg env (SendBatch para sequence _) s = send_batch cfg env Authorized para sequence s"
| "notifier_dispatch cfg env (SendInitPage para _ _ _) s = send_init_page cfg env Authorized para s"
| "notifier_dispatch cfg env (AbandonStuckBatch _) s = abandon_stuck_batch cfg Authorized s"

subsection \<open>Hooks\<close>

definition notifier_offchain_worker ::
  "notifier_config \<Rightarrow> 'root notifier_env \<Rightarrow> 'root notifier_state \<Rightarrow> notifier_call list" where
  "notifier_offchain_worker cfg env s =
     (if ne_block env mod nc_OffchainWorkerInterval cfg \<noteq> 0 then []
      else
        let discriminator = ne_block env div TX_RETRY_WINDOW
        in (if CurrentBatch s = None \<and> has_pending_work cfg env s
            then [EnqueueUpdates (send_page (PageState s)) discriminator] else []) @
           (case CurrentBatch s of
              None \<Rightarrow> []
            | Some current_batch \<Rightarrow>
                (if bd_remaining current_batch > 0
                 then concat (map (\<lambda>(para, info).
                   if \<not> scontains (SubscribersWithCurrentBatch s) para \<and> si_last_init info < bd_sequence current_batch
                   then [SendBatch para (bd_sequence current_batch) discriminator] else []) (Subscribers s))
                 else []) @
                (if ne_block env - bd_sealed_at current_batch \<ge> nc_StuckBatchTimeout cfg
                 then [AbandonStuckBatch discriminator] else [])) @
           map (\<lambda>(para, state). SendInitPage para (pi_current state) (pi_after state) discriminator) (PendingInit s))"

text \<open>The checks of the integrity test that do not compare weights or types of origins.\<close>

definition notifier_integrity_test :: "notifier_config \<Rightarrow> bool" where
  "notifier_integrity_test cfg \<longleftrightarrow>
     nc_UpdateTriggerThreshold cfg \<le> nc_MaxUpdatesPerBatch cfg \<and>
     nc_update_size cfg > 0 \<and>
     nc_MaxCollectionsPerSubscriber cfg \<le> nc_MaxCollections cfg \<and>
     nc_MaxCollectionsPerSubscriber cfg \<le> nc_MaxUpdatesPerBatch cfg \<and>
     TX_LONGEVITY < nc_StuckBatchTimeout cfg"

end
