(* ===== verification/Subscriber.thy ===== *)
theory Subscriber
  imports Notifier
begin

text \<open>
  The pallet \<open>pallets/members-subscriber\<close>: a chain that receives ring roots from the notifier, keeps a
  window of recent roots per ring, tracks the rings it misses and asks for them again, and verifies
  membership proofs against the roots it has. Names that other pallets use too carry the prefix
  \<open>sub_\<close> or \<open>Sub_\<close>.
\<close>

subsection \<open>Types\<close>

record 'root RingCommitmentRecord =
  rc_root :: 'root
  rc_revision :: nat
  rc_source_time :: nat
  rc_source_sequence :: nat

text \<open>The bounded map and set are lists; their bound is that of the configuration.\<close>

record RingCollectionState =
  cs_ring_count :: nat
  cs_next_ring_index :: nat
  cs_missing :: "(nat, nat) storage"
  cs_deleted :: "nat list"

definition default_collection_state :: RingCollectionState where
  "default_collection_state = \<lparr>cs_ring_count = 0, cs_next_ring_index = 0, cs_missing = [], cs_deleted = []\<rparr>"

datatype SubscriptionStatus = SubInactive | SubActive nat | SubTerminated

record UpdatesProcessingState =
  ps_last_processed :: nat
  ps_last_batch_time :: nat
  ps_last_replay_time :: nat

definition default_processing_state :: UpdatesProcessingState where
  "default_processing_state = \<lparr>ps_last_processed = 0, ps_last_batch_time = 0, ps_last_replay_time = 0\<rparr>"

datatype NotifierCall =
    CallUnsubscribe "nat option"
  | CallRequestReplay nat coll_id "nat list"

datatype SubscriberEvent =
    RingRootsInitialized nat nat
  | RingRootsUpdated nat nat
  | SubscriptionTerminatedEvent bool
  | MissingRingsDetected coll_id nat
  | ReplayRequestSent coll_id nat
  | DeletedIndicesAtCapacity coll_id

datatype SubscriberError =
    Sub_XcmSendFailed | SubscriptionInactive | SubscriptionTerminated | SubscriptionAlreadyActive
  | Sub_CollectionNotFound | Sub_NoRoot | Sub_InvalidProof | Sub_InvalidRingExponent | RevisionNotFound

datatype subscriber_origin = NotifierOrigin | TerminationOrigin | SubAuthorized | OtherOrigin

record subscriber_config =
  sc_SelfParaId :: nat
  sc_MaxMissing :: nat
  sc_MaxDeleted :: nat
  sc_MaxRingRoots :: nat
  sc_MaxCollections :: nat
  sc_ReplayCooldownSeconds :: nat
  sc_MaxUpdatesPerBatch :: nat
  sc_ReplayWarningThreshold :: nat
  sc_ReplayAbandonThreshold :: nat
  sc_MaxRecentRoots :: nat
  sc_OffchainWorkerInterval :: nat
  sc_notifier_pallet_index :: nat
  sc_capacity_supported :: "RingExponent \<Rightarrow> bool"

text \<open>The clock in seconds, and whether the sender takes a message after those already sent.\<close>

record subscriber_env =
  se_now :: nat
  se_sender :: "(nat \<times> NotifierCall) list \<Rightarrow> nat \<times> NotifierCall \<Rightarrow> bool"

subsection \<open>Storage\<close>

record 'root subscriber_state =
  RingRoots :: "(coll_id \<times> nat, 'root RingCommitmentRecord list) storage"
  RingCollectionStates :: "(coll_id, RingCollectionState) storage"
  RingCollectionExponents :: "(coll_id, RingExponent) storage"
  Subscription :: SubscriptionStatus
  ProcessingState :: UpdatesProcessingState
  to_notifier :: "(nat \<times> NotifierCall) list"
  subscriber_events :: "SubscriberEvent list"

definition subscriber_genesis :: "'root subscriber_state" where
  "subscriber_genesis = \<lparr>RingRoots = [], RingCollectionStates = [], RingCollectionExponents = [],
     Subscription = SubInactive, ProcessingState = default_processing_state, to_notifier = [], subscriber_events = []\<rparr>"

definition collection_state_of :: "'root subscriber_state \<Rightarrow> coll_id \<Rightarrow> RingCollectionState" where
  "collection_state_of s i = sget_or default_collection_state (RingCollectionStates s) i"

definition subscriber_deposit :: "SubscriberEvent \<Rightarrow> 'root subscriber_state \<Rightarrow> 'root subscriber_state" where
  "subscriber_deposit e s = s\<lparr>subscriber_events := subscriber_events s @ [e]\<rparr>"

text \<open>\<open>try_insert\<close> of the bounded map and set: an entry that is there already always fits.\<close>

definition try_insert_map :: "nat \<Rightarrow> 'k \<Rightarrow> 'v \<Rightarrow> ('k, 'v) storage \<Rightarrow> ('k, 'v) storage option" where
  "try_insert_map bound k v m = (if length m < bound \<or> scontains m k then Some (sput k v m) else None)"

definition try_insert_set :: "nat \<Rightarrow> 'k \<Rightarrow> 'k list \<Rightarrow> 'k list option" where
  "try_insert_set bound k ks =
     (if k \<in> set ks then Some ks else if length ks < bound then Some (k # ks) else None)"

subsection \<open>Storing updates\<close>

definition clear_all_ring_data :: "subscriber_config \<Rightarrow> 'root subscriber_state \<Rightarrow> 'root subscriber_state" where
  "clear_all_ring_data cfg s =
     (let max_roots = sat_mul u32_max (sc_MaxCollections cfg) (sc_MaxRingRoots cfg)
      in s\<lparr>RingRoots := sclear max_roots (RingRoots s),
           RingCollectionStates := sclear (sc_MaxCollections cfg) (RingCollectionStates s),
           RingCollectionExponents := sclear (sc_MaxCollections cfg) (RingCollectionExponents s),
           ProcessingState := default_processing_state\<rparr>)"

definition push_record ::
  "subscriber_config \<Rightarrow> 'root RingCommitmentRecord \<Rightarrow> 'root RingCommitmentRecord list \<Rightarrow> 'root RingCommitmentRecord list" where
  "push_record cfg x roots =
     (let roots1 = (if length roots \<ge> sc_MaxRecentRoots cfg then tl roots else roots)
      in if length roots1 < sc_MaxRecentRoots cfg then roots1 @ [x] else roots1)"

text \<open>One update of the loop in \<open>store_ring_roots\<close>: the collection's state and the roots.\<close>

definition store_update ::
  "subscriber_config \<Rightarrow> 'root RingRootUpdatesBatch \<Rightarrow> 'root RingRootUpdate \<Rightarrow>
   RingCollectionState \<times> (coll_id \<times> nat, 'root RingCommitmentRecord list) storage \<Rightarrow>
   RingCollectionState \<times> (coll_id \<times> nat, 'root RingCommitmentRecord list) storage" where
  "store_update cfg batch update x =
     (let (state, R) = x;
          i = ub_identifier batch;
          r = up_ring update;
          state1 = state\<lparr>cs_missing := sdel r (cs_missing state)\<rparr>
      in case up_op update of
           RootBuilt revision root \<Rightarrow>
             let roots = sget_or [] R (i, r);
                 state2 = (if roots = [] then state1\<lparr>cs_ring_count := sat_add u32_max (cs_ring_count state1) 1\<rparr> else state1);
                 state3 = state2\<lparr>cs_deleted := removeAll r (cs_deleted state2)\<rparr>;
                 roots1 = push_record cfg \<lparr>rc_root = root, rc_revision = revision,
                   rc_source_time = ub_source_time batch, rc_source_sequence = ub_sequence batch\<rparr> roots
             in (state3, sput (i, r) roots1 R)
         | RootDeleted \<Rightarrow>
             let was_stored = scontains R (i, r);
                 state2 = (if was_stored then state1\<lparr>cs_ring_count := cs_ring_count state1 - 1\<rparr> else state1);
                 state3 = (case try_insert_set (sc_MaxDeleted cfg) r (cs_deleted state2) of
                             None \<Rightarrow> state2 | Some d \<Rightarrow> state2\<lparr>cs_deleted := d\<rparr>)
             in (state3, sdel (i, r) R))"

definition store_ring_roots ::
  "subscriber_config \<Rightarrow> 'root RingRootUpdatesBatch \<Rightarrow> 'root subscriber_state \<Rightarrow> 'root subscriber_state" where
  "store_ring_roots cfg batch s =
     (let i = ub_identifier batch;
          state = collection_state_of s i;
          state1 = state\<lparr>cs_next_ring_index := max (cs_next_ring_index state) (ub_next_ring_index batch)\<rparr>;
          (state2, R) = fold (store_update cfg batch) (ub_updates batch) (state1, RingRoots s)
      in s\<lparr>RingRoots := R, RingCollectionStates := sput i state2 (RingCollectionStates s)\<rparr>)"

text \<open>
  The scan of \<open>detect_missing_rings_in_batch\<close> from \<open>idx\<close> for \<open>n\<close> indices; it stops when the map is full.
\<close>

fun scan_missing ::
  "subscriber_config \<Rightarrow> coll_id \<Rightarrow> (coll_id \<times> nat, 'root RingCommitmentRecord list) storage \<Rightarrow> nat list \<Rightarrow>
   nat \<Rightarrow> nat \<Rightarrow> (nat, nat) storage \<Rightarrow> nat \<Rightarrow> (nat, nat) storage \<times> nat" where
  "scan_missing cfg i R deleted idx 0 missing count = (missing, count)"
| "scan_missing cfg i R deleted idx (Suc n) missing count =
     (if \<not> scontains R (i, idx) \<and> \<not> scontains missing idx \<and> idx \<notin> set deleted
      then (case try_insert_map (sc_MaxMissing cfg) idx 0 missing of
              None \<Rightarrow> (missing, count)
            | Some missing1 \<Rightarrow> scan_missing cfg i R deleted (idx + 1) n missing1 (count + 1))
      else scan_missing cfg i R deleted (idx + 1) n missing count)"

definition detect_missing_rings_in_batch ::
  "subscriber_config \<Rightarrow> 'root RingRootUpdatesBatch \<Rightarrow> nat \<Rightarrow> 'root subscriber_state \<Rightarrow> 'root subscriber_state" where
  "detect_missing_rings_in_batch cfg batch old_next_ring_index s =
     (let i = ub_identifier batch;
          state = collection_state_of s i;
          accounted_for = sat_add u32_max (cs_ring_count state) (length (cs_deleted state))
      in if accounted_for \<ge> cs_next_ring_index state
         then s\<lparr>RingCollectionStates := sput i (state\<lparr>cs_missing := []\<rparr>) (RingCollectionStates s)\<rparr>
         else if length (cs_deleted state) \<ge> sc_MaxDeleted cfg
         then subscriber_deposit (DeletedIndicesAtCapacity i) s
         else
           let (missing, new_missing_count) = scan_missing cfg i (RingRoots s) (cs_deleted state) old_next_ring_index
                 (cs_next_ring_index state - old_next_ring_index) (cs_missing state) 0;
               s1 = s\<lparr>RingCollectionStates := sput i (state\<lparr>cs_missing := missing\<rparr>) (RingCollectionStates s)\<rparr>
           in if new_missing_count > 0 then subscriber_deposit (MissingRingsDetected i new_missing_count) s1 else s1)"

definition record_batch_processed :: "subscriber_env \<Rightarrow> nat \<Rightarrow> 'root subscriber_state \<Rightarrow> 'root subscriber_state" where
  "record_batch_processed env sequence s =
     s\<lparr>ProcessingState := (ProcessingState s)\<lparr>ps_last_batch_time := se_now env, ps_last_processed := sequence\<rparr>\<rparr>"

definition ensure_subscription_active :: "'root subscriber_state \<Rightarrow> SubscriberError + unit" where
  "ensure_subscription_active s =
     (case Subscription s of
        SubActive _ \<Rightarrow> Inr ()
      | SubInactive \<Rightarrow> Inl SubscriptionInactive
      | SubTerminated \<Rightarrow> Inl SubscriptionTerminated)"

subsection \<open>Calls\<close>

definition initialize_ring_roots ::
  "subscriber_config \<Rightarrow> subscriber_env \<Rightarrow> subscriber_origin \<Rightarrow> RingExponent \<Rightarrow> 'root RingRootUpdatesBatch \<Rightarrow>
   'root subscriber_state \<Rightarrow> SubscriberError dispatch_error + 'root subscriber_state" where
  "initialize_ring_roots cfg env origin ring_exponent roots s =
     ensure (origin = NotifierOrigin) BadOrigin (
     on_ok (case Subscription s of
              SubActive initialized_at \<Rightarrow>
                if ub_sequence roots < initialized_at then Inl (Module SubscriptionAlreadyActive)
                else if ub_sequence roots > initialized_at then Inr (clear_all_ring_data cfg s) else Inr s
            | _ \<Rightarrow> Inr s) (\<lambda>s1.
     let old_next_ring_index = cs_next_ring_index (collection_state_of s1 (ub_identifier roots));
         s2 = record_batch_processed env (ub_sequence roots)
                (detect_missing_rings_in_batch cfg roots old_next_ring_index (store_ring_roots cfg roots s1))
     in Inr (subscriber_deposit (RingRootsInitialized (length (ub_updates roots)) (ub_sequence roots))
          (s2\<lparr>Subscription := SubActive (ub_sequence roots),
              RingCollectionExponents := sput (ub_identifier roots) ring_exponent (RingCollectionExponents s2)\<rparr>))))"

definition process_ring_updates ::
  "subscriber_config \<Rightarrow> subscriber_env \<Rightarrow> subscriber_origin \<Rightarrow> 'root RingRootUpdatesBatch \<Rightarrow>
   'root subscriber_state \<Rightarrow> SubscriberError dispatch_error + 'root subscriber_state" where
  "process_ring_updates cfg env origin batch s =
     ensure (origin = NotifierOrigin) BadOrigin (
     on_ok (map_err Module (ensure_subscription_active s)) (\<lambda>_.
     if ub_sequence batch < ps_last_processed (ProcessingState s) then Inr s
     else
       let old_next_ring_index = cs_next_ring_index (collection_state_of s (ub_identifier batch));
           s1 = record_batch_processed env (ub_sequence batch)
                  (detect_missing_rings_in_batch cfg batch old_next_ring_index (store_ring_roots cfg batch s))
       in Inr (subscriber_deposit (RingRootsUpdated (length (ub_updates batch)) (ub_sequence batch)) s1)))"

definition send_to_notifier ::
  "subscriber_config \<Rightarrow> subscriber_env \<Rightarrow> NotifierCall \<Rightarrow> 'root subscriber_state \<Rightarrow> SubscriberError + 'root subscriber_state" where
  "send_to_notifier cfg env call s =
     (let message = (sc_notifier_pallet_index cfg, call)
      in ensure (se_sender env (to_notifier s) message) Sub_XcmSendFailed
           (Inr (s\<lparr>to_notifier := to_notifier s @ [message]\<rparr>)))"

definition terminate_subscription ::
  "subscriber_config \<Rightarrow> subscriber_env \<Rightarrow> subscriber_origin \<Rightarrow> 'root subscriber_state \<Rightarrow>
   SubscriberError dispatch_error + 'root subscriber_state" where
  "terminate_subscription cfg env origin s =
     ensure (origin = NotifierOrigin \<or> origin = TerminationOrigin) BadOrigin (
     case Subscription s of
       SubInactive \<Rightarrow> Inl (Module SubscriptionInactive)
     | SubTerminated \<Rightarrow> Inr s
     | SubActive _ \<Rightarrow>
         let (notifier_notified, s1) =
               (if origin = NotifierOrigin then (True, s)
                else case send_to_notifier cfg env (CallUnsubscribe None) s of
                       Inl _ \<Rightarrow> (False, s) | Inr s' \<Rightarrow> (True, s'))
         in Inr (subscriber_deposit (SubscriptionTerminatedEvent notifier_notified)
              ((clear_all_ring_data cfg s1)\<lparr>Subscription := SubTerminated\<rparr>)))"

text \<open>The loop of \<open>process_collection_replay\<close> over the requested indices.\<close>

fun replay_loop :: "nat \<Rightarrow> nat list \<Rightarrow> (nat, nat) storage \<Rightarrow> nat list \<Rightarrow> (nat, nat) storage \<times> nat list" where
  "replay_loop abandon [] missing to_send = (missing, to_send)"
| "replay_loop abandon (idx # idxs) missing to_send =
     (case sget missing idx of
        None \<Rightarrow> replay_loop abandon idxs missing to_send
      | Some attempts \<Rightarrow>
          let attempts1 = sat_add u32_max attempts 1
          in if attempts1 \<ge> abandon then replay_loop abandon idxs (sdel idx missing) to_send
             else replay_loop abandon idxs (sput idx attempts1 missing) (to_send @ [idx]))"

definition send_replay_request ::
  "subscriber_config \<Rightarrow> subscriber_env \<Rightarrow> coll_id \<Rightarrow> nat list \<Rightarrow> 'root subscriber_state \<Rightarrow>
   SubscriberError + 'root subscriber_state" where
  "send_replay_request cfg env i indices s =
     send_to_notifier cfg env (CallRequestReplay (sc_SelfParaId cfg) i indices) s"

fun send_replay_chunks ::
  "subscriber_config \<Rightarrow> subscriber_env \<Rightarrow> coll_id \<Rightarrow> nat list list \<Rightarrow> bool \<Rightarrow> 'root subscriber_state \<Rightarrow>
   bool \<times> 'root subscriber_state" where
  "send_replay_chunks cfg env i [] any_sent s = (any_sent, s)"
| "send_replay_chunks cfg env i (chunk # rest) any_sent s =
     (case send_replay_request cfg env i chunk s of
        Inl _ \<Rightarrow> (any_sent, s)
      | Inr s1 \<Rightarrow> send_replay_chunks cfg env i rest True (subscriber_deposit (ReplayRequestSent i (length chunk)) s1))"

definition process_collection_replay ::
  "subscriber_config \<Rightarrow> subscriber_env \<Rightarrow> coll_id \<Rightarrow> nat list \<Rightarrow> 'root subscriber_state \<Rightarrow> bool \<times> 'root subscriber_state" where
  "process_collection_replay cfg env i indices s =
     (if indices = [] then (False, s)
      else
        let state = collection_state_of s i
        in if cs_missing state = [] then (False, s)
           else
             let (missing, to_send) = replay_loop (sc_ReplayAbandonThreshold cfg) indices (cs_missing state) [];
                 s1 = s\<lparr>RingCollectionStates := sput i (state\<lparr>cs_missing := missing\<rparr>) (RingCollectionStates s)\<rparr>
             in if to_send = [] then (False, s1)
                else send_replay_chunks cfg env i (chunks_of (sc_MaxUpdatesPerBatch cfg) to_send) False s1)"

text \<open>The indices are gathered in a \<open>BTreeSet\<close>: in ascending order, each once.\<close>

definition replay_missing_roots ::
  "subscriber_config \<Rightarrow> subscriber_env \<Rightarrow> subscriber_origin \<Rightarrow> coll_id \<Rightarrow> nat list \<Rightarrow> 'root subscriber_state \<Rightarrow>
   SubscriberError dispatch_error + 'root subscriber_state" where
  "replay_missing_roots cfg env origin i indices s =
     ensure (origin = SubAuthorized) BadOrigin (
     let (any_sent, s1) = process_collection_replay cfg env i (sort (remdups indices)) s
     in Inr (if any_sent then s1\<lparr>ProcessingState := (ProcessingState s1)\<lparr>ps_last_replay_time := se_now env\<rparr>\<rparr> else s1))"

subsection \<open>Authorisation and hooks\<close>

datatype SubscriberInvalid = SubInvalidCall | SubStale

definition authorize_replay_missing_roots ::
  "subscriber_config \<Rightarrow> subscriber_env \<Rightarrow> tx_source \<Rightarrow> coll_id \<Rightarrow> nat list \<Rightarrow> 'root subscriber_state \<Rightarrow>
   SubscriberInvalid + coll_id" where
  "authorize_replay_missing_roots cfg env source i indices s =
     ensure (source = InBlock \<or> source = LocalSource) SubInvalidCall (
     ensure (case Subscription s of SubActive _ \<Rightarrow> True | _ \<Rightarrow> False) SubInvalidCall (
     ensure (se_now env - ps_last_replay_time (ProcessingState s) \<ge> sc_ReplayCooldownSeconds cfg) SubStale (
     ensure (list_ex (scontains (cs_missing (collection_state_of s i))) indices) SubStale (
     Inr i))))"

definition subscriber_offchain_worker ::
  "subscriber_config \<Rightarrow> subscriber_env \<Rightarrow> nat \<Rightarrow> 'root subscriber_state \<Rightarrow> (coll_id \<times> nat list) list" where
  "subscriber_offchain_worker cfg env block_number s =
     (if block_number mod sc_OffchainWorkerInterval cfg \<noteq> 0 then []
      else if \<not> (case Subscription s of SubActive _ \<Rightarrow> True | _ \<Rightarrow> False) then []
      else if se_now env - ps_last_batch_time (ProcessingState s) < sc_ReplayCooldownSeconds cfg then []
      else if se_now env - ps_last_replay_time (ProcessingState s) < sc_ReplayCooldownSeconds cfg then []
      else concat (map (\<lambda>(i, state).
        if cs_missing state = [] then []
        else if length (cs_deleted state) = sc_MaxDeleted cfg then []
        else [(i, take (sc_MaxMissing cfg) (sort (map fst (cs_missing state))))]) (RingCollectionStates s)))"

text \<open>The checks of the integrity test that do not compare weights or locations.\<close>

definition subscriber_integrity_test :: "subscriber_config \<Rightarrow> bool" where
  "subscriber_integrity_test cfg \<longleftrightarrow>
     sc_MaxMissing cfg > 0 \<and> sc_ReplayCooldownSeconds cfg > 0 \<and> sc_MaxUpdatesPerBatch cfg > 0 \<and>
     sc_MaxCollections cfg > 0 \<and> sc_MaxDeleted cfg > 0 \<and> sc_MaxRingRoots cfg > 0 \<and>
     sc_ReplayAbandonThreshold cfg > sc_ReplayWarningThreshold cfg \<and>
     sc_MaxRecentRoots cfg > 0 \<and> sc_OffchainWorkerInterval cfg > 0"

subsection \<open>Membership proofs\<close>

definition ring_proving_information ::
  "subscriber_config \<Rightarrow> coll_id \<Rightarrow> nat \<Rightarrow> 'root subscriber_state \<Rightarrow>
   SubscriberError + (RingExponent \<times> 'root RingCommitmentRecord list)" where
  "ring_proving_information cfg i ring s =
     ok_or (sget (RingCollectionExponents s) i) Sub_CollectionNotFound (\<lambda>ring_exponent.
     ensure (sc_capacity_supported cfg ring_exponent) Sub_InvalidRingExponent (
     ok_or (sget (RingRoots s) (i, ring)) Sub_NoRoot (\<lambda>roots. Inr (ring_exponent, roots))))"

text \<open>The loop over the window from the newest record: the first for which the check succeeds.\<close>

fun first_valid :: "('a \<Rightarrow> 'b option) \<Rightarrow> 'a list \<Rightarrow> ('a \<times> 'b) option" where
  "first_valid f [] = None"
| "first_valid f (x # xs) = (case f x of Some y \<Rightarrow> Some (x, y) | None \<Rightarrow> first_valid f xs)"

definition sub_verify_membership ::
  "subscriber_config \<Rightarrow> ('proof, 'root) ring_prover \<Rightarrow> coll_id \<Rightarrow> 'proof \<Rightarrow> nat \<Rightarrow> bytes \<Rightarrow> bytes \<Rightarrow>
   'root subscriber_state \<Rightarrow> SubscriberError + RevisedContextualAlias" where
  "sub_verify_membership cfg pr i proof ring context msg s =
     on_ok (ring_proving_information cfg i ring s) (\<lambda>(capacity, roots).
     ok_or (first_valid (\<lambda>x. validate_proof pr capacity proof (rc_root x) context msg) (rev roots)) Sub_InvalidProof
       (\<lambda>(x, alias). Inr \<lparr>rca_revision = rc_revision x, rca_ring = ring,
          rca_ca = \<lparr>ca_alias = alias, ca_context = context\<rparr>\<rparr>))"

definition sub_verify_membership_at_rev ::
  "subscriber_config \<Rightarrow> ('proof, 'root) ring_prover \<Rightarrow> coll_id \<Rightarrow> 'proof \<Rightarrow> nat \<Rightarrow> nat \<Rightarrow> bytes \<Rightarrow> bytes \<Rightarrow>
   'root subscriber_state \<Rightarrow> SubscriberError + ContextualAlias" where
  "sub_verify_membership_at_rev cfg pr i proof ring revision context msg s =
     on_ok (ring_proving_information cfg i ring s) (\<lambda>(capacity, roots).
     ok_or (find (\<lambda>x. rc_revision x = revision) roots) RevisionNotFound (\<lambda>x.
     ok_or (validate_proof pr capacity proof (rc_root x) context msg) Sub_InvalidProof (\<lambda>alias.
     Inr \<lparr>ca_alias = alias, ca_context = context\<rparr>)))"

text \<open>Pairing the aliases with their contexts, as in the members pallet.\<close>

definition sub_aliases :: "bytes list \<Rightarrow> ('proof \<times> bytes \<times> bytes) list \<Rightarrow> SubscriberError + ContextualAlias list" where
  "sub_aliases aliases items =
     map_err (\<lambda>_. Sub_InvalidProof) (aliases_with_contexts (zip aliases (map (\<lambda>(_, context, _). context) items)))"

definition sub_verify_memberships_in_ring ::
  "subscriber_config \<Rightarrow> ('proof, 'root) ring_prover \<Rightarrow> coll_id \<Rightarrow> nat \<Rightarrow> ('proof \<times> bytes \<times> bytes) list \<Rightarrow>
   'root subscriber_state \<Rightarrow> SubscriberError + RevisedContextualAlias list" where
  "sub_verify_memberships_in_ring cfg pr i ring items s =
     on_ok (ring_proving_information cfg i ring s) (\<lambda>(capacity, roots).
     ok_or (first_valid (\<lambda>x. batch_validate pr capacity (rc_root x) items) (rev roots)) Sub_InvalidProof
       (\<lambda>(x, aliases). on_ok (sub_aliases aliases items) (\<lambda>cas.
          Inr (map (\<lambda>ca. \<lparr>rca_revision = rc_revision x, rca_ring = ring, rca_ca = ca\<rparr>) cas))))"

definition sub_verify_memberships_in_ring_at_rev ::
  "subscriber_config \<Rightarrow> ('proof, 'root) ring_prover \<Rightarrow> coll_id \<Rightarrow> nat \<Rightarrow> nat \<Rightarrow> ('proof \<times> bytes \<times> bytes) list \<Rightarrow>
   'root subscriber_state \<Rightarrow> SubscriberError + ContextualAlias list" where
  "sub_verify_memberships_in_ring_at_rev cfg pr i ring revision items s =
     on_ok (ring_proving_information cfg i ring s) (\<lambda>(capacity, roots).
     ok_or (find (\<lambda>x. rc_revision x = revision) roots) RevisionNotFound (\<lambda>x.
     ok_or (batch_validate pr capacity (rc_root x) items) Sub_InvalidProof (\<lambda>aliases. sub_aliases aliases items)))"

definition sub_ring_revision :: "coll_id \<Rightarrow> nat \<Rightarrow> 'root subscriber_state \<Rightarrow> nat option" where
  "sub_ring_revision i ring s =
     (case sget (RingRoots s) (i, ring) of
        None \<Rightarrow> None
      | Some roots \<Rightarrow> if roots = [] then None else Some (rc_revision (last roots)))"

definition sub_is_revision_valid :: "coll_id \<Rightarrow> nat \<Rightarrow> nat \<Rightarrow> 'root subscriber_state \<Rightarrow> bool" where
  "sub_is_revision_valid i ring revision s =
     (case sget (RingRoots s) (i, ring) of
        None \<Rightarrow> False
      | Some roots \<Rightarrow> list_ex (\<lambda>x. rc_revision x = revision) roots)"

definition sub_revision_source_time :: "coll_id \<Rightarrow> nat \<Rightarrow> nat \<Rightarrow> 'root subscriber_state \<Rightarrow> nat option" where
  "sub_revision_source_time i ring revision s =
     (case sget (RingRoots s) (i, ring) of
        None \<Rightarrow> None
      | Some roots \<Rightarrow> map_option rc_source_time (find (\<lambda>x. rc_revision x = revision) roots))"

definition sub_verify_membership_multi_context ::
  "subscriber_config \<Rightarrow> ('proof, 'root) ring_prover \<Rightarrow> coll_id \<Rightarrow> 'proof \<Rightarrow> nat \<Rightarrow> bytes list \<Rightarrow> bytes \<Rightarrow>
   'root subscriber_state \<Rightarrow> SubscriberError + RevisedContextualAlias list" where
  "sub_verify_membership_multi_context cfg pr i proof ring contexts msg s =
     on_ok (ring_proving_information cfg i ring s) (\<lambda>(capacity, roots).
     ok_or (first_valid (\<lambda>x. validate_multi pr capacity proof (rc_root x) contexts msg) (rev roots)) Sub_InvalidProof
       (\<lambda>(x, aliases). Inr (map (\<lambda>(alias, context). \<lparr>rca_revision = rc_revision x, rca_ring = ring,
          rca_ca = \<lparr>ca_alias = alias, ca_context = context\<rparr>\<rparr>) (zip aliases contexts))))"

definition sub_verify_membership_multi_context_at_rev ::
  "subscriber_config \<Rightarrow> ('proof, 'root) ring_prover \<Rightarrow> coll_id \<Rightarrow> 'proof \<Rightarrow> nat \<Rightarrow> nat \<Rightarrow> bytes list \<Rightarrow> bytes \<Rightarrow>
   'root subscriber_state \<Rightarrow> SubscriberError + ContextualAlias list" where
  "sub_verify_membership_multi_context_at_rev cfg pr i proof ring revision contexts msg s =
     on_ok (ring_proving_information cfg i ring s) (\<lambda>(capacity, roots).
     ok_or (find (\<lambda>x. rc_revision x = revision) roots) RevisionNotFound (\<lambda>x.
     ok_or (validate_multi pr capacity proof (rc_root x) contexts msg) Sub_InvalidProof (\<lambda>aliases.
     Inr (map (\<lambda>(alias, context). \<lparr>ca_alias = alias, ca_context = context\<rparr>) (zip aliases contexts)))))"

end
