(* ===== verification/Members_Announce.thy ===== *)
theory Members_Announce
  imports Members_Root Ring_Feed
begin

text \<open>
  Which changes of ring roots the members pallet announces through \<open>OnRingRootChange\<close>: building a ring
  and archiving a root announce what they do, the removal of suspended keys replaces the root
  of a ring without announcing it.
\<close>

subsection \<open>Quiet, announced and silent steps\<close>

definition quiet :: "('m, 'root, 'inter) members_state \<Rightarrow> ('m, 'root, 'inter) members_state \<Rightarrow> bool" where
  "quiet s s' \<longleftrightarrow> Root s' = Root s \<and> root_changes s' = root_changes s"

fun op_view :: "'root RingRootOp \<Rightarrow> (nat \<times> 'root) option" where
  "op_view (RootBuilt v root) = Some (v, root)"
| "op_view RootDeleted = None"

text \<open>The step changes the root of one ring, announces it, and the announcement tells the new root.\<close>

definition announces :: "('m, 'root, 'inter) members_state \<Rightarrow> ('m, 'root, 'inter) members_state \<Rightarrow> bool" where
  "announces s s' \<longleftrightarrow> (\<exists>i r c. root_changes s' = root_changes s @ [(i, r, c)] \<and>
     members_root_view s' i r = op_view c \<and>
     (\<forall>j q. (j, q) \<noteq> (i, r) \<longrightarrow> members_root_view s' j q = members_root_view s j q) \<and>
     (\<forall>v root v0 root0. c = RootBuilt v root \<and> members_root_view s i r = Some (v0, root0) \<longrightarrow> v0 < v))"

text \<open>The step replaces the root of one ring and announces nothing.\<close>

definition silent :: "coll_id \<Rightarrow> nat \<Rightarrow> ('m, 'root, 'inter) members_state \<Rightarrow> ('m, 'root, 'inter) members_state \<Rightarrow> bool" where
  "silent i r s s' \<longleftrightarrow> root_changes s' = root_changes s \<and>
     (\<exists>v root root'. members_root_view s i r = Some (v, root) \<and>
        members_root_view s' i r = Some (sat_add u32_max v 1, root')) \<and>
     (\<forall>j q. (j, q) \<noteq> (i, r) \<longrightarrow> members_root_view s' j q = members_root_view s j q)"

lemma quiet_refl [simp]: "quiet s s"
  by (simp add: quiet_def)

lemma quiet_trans: "quiet s s1 \<Longrightarrow> quiet s1 s2 \<Longrightarrow> quiet s s2"
  by (simp add: quiet_def)

lemma quiet_upd [simp]:
  "quiet s (s\<lparr>OnboardingSize := a\<rparr>)" "quiet s (s\<lparr>RingsState := b\<rparr>)" "quiet s (s\<lparr>StaleRings := c\<rparr>)"
  "quiet s (members_deposit e s1) = quiet s s1"
  by (simp_all add: quiet_def members_deposit_def)

lemma push_quiet: "push_to_onboarding_queue cfg now i k s = Inr s' \<Longrightarrow> quiet s s'"
  by (auto simp: push_to_onboarding_queue_def Let_def members_deposit_def quiet_def split: prod.split_asm option.split_asm)

lemma add_loop_quiet: "add_loop cfg now i ms s = Inr s' \<Longrightarrow> quiet s s'"
proof (induction ms arbitrary: s)
  case (Cons m ms)
  then obtain s1 where "push_to_onboarding_queue cfg now i m s = Inr s1" "add_loop cfg now i ms s1 = Inr s'"
    by (auto split: option.splits if_splits)
  then show ?case using push_quiet Cons.IH quiet_trans by metis
qed simp

lemma suspend_member_quiet:
  assumes "suspend_member cfg i m s = Inr s'" shows "quiet s s'"
proof -
  obtain pos where "sget (Members s) (i, m) = Some pos" using assms by (auto simp: suspend_member_def)
  then show ?thesis
    using assms by (cases pos) (auto simp: suspend_member_def quiet_def Let_def split: if_split_asm)
qed

lemma suspend_loop_quiet: "suspend_loop cfg i ms s = Inr s' \<Longrightarrow> quiet s s'"
proof (induction ms arbitrary: s)
  case (Cons m ms)
  then obtain s1 where "suspend_member cfg i m s = Inr s1" "suspend_loop cfg i ms s1 = Inr s'" by auto
  then show ?case using suspend_member_quiet Cons.IH quiet_trans by metis
qed simp

lemma merge_queue_pages_quiet: "merge_queue_pages_authorized cfg i h h' s = Inr s' \<Longrightarrow> quiet s s'"
  using requeue_loop_result [of i h' "queue_of s i h" s]
  by (auto simp: merge_queue_pages_authorized_def merge_queue_pages_def quiet_def)

lemma clean_up_loop_quiet: "quiet s (clean_up_loop cfg now i r n s)"
proof (induction n arbitrary: s)
  case (Suc n)
  have "quiet s (members_deposit (OldRootCleanedUp i r v) (s\<lparr>OldRoots := sdel (i, r, v) (OldRoots s)\<rparr>))" for v
    by (simp add: quiet_def members_deposit_def)
  then have "quiet s (clean_up_loop cfg now i r n (members_deposit (OldRootCleanedUp i r v) (s\<lparr>OldRoots := sdel (i, r, v) (OldRoots s)\<rparr>)))" for v
    using Suc.IH quiet_trans by blast
  then show ?case by (auto split: option.split prod.split)
qed simp

lemma delete_ring_page_quiet: "quiet s (delete_ring_page_authorized i r p s)"
  using release_loop_result [of i r p 0 "keys_of s i r p" "s\<lparr>RingDeletionQueue := sdel (i, r, p) (RingDeletionQueue s)\<rparr>"]
  by (auto simp: delete_ring_page_authorized_def delete_ring_page_def Let_def keys_of_def quiet_def)

lemma onboard_members_quiet:
  assumes inv: "members_inv cfg s" and cfg: "members_config_ok cfg" and ok: "onboard_members cfg i True s = Inr (b, s')"
  shows "quiet s s'"
proof -
  obtain info where live: "sget (Collections s) i = Some info" using ok by (auto simp: onboard_members_def)
  show ?thesis
    using inv cfg live ok
  proof (rule onboard_members_Some)
    fix L h t head all n s1
    assume on: "onboarded (flexible_ring_capacity cfg) i (current_ring s i) (L @ take n all)
       (append_positions (flexible_ring_capacity cfg) (current_ring s i) (length L) (take n all) (\<lambda>k. sget (Members s) (i, k))) s s1"
      and s': "s' = members_deposit (MembersOnboarded i) (store_remaining cfg i h head t (drop n all)
       (let s2 = s1\<lparr>RingKeys := sput (i, current_ring s i, length (L @ take n all) div flexible_ring_capacity cfg)
                   (drop (length (L @ take n all) div flexible_ring_capacity cfg * flexible_ring_capacity cfg) (L @ take n all)) (RingKeys s1),
                 ActiveMembers := sput i (sat_add u32_max (active_count s1 i) n) (ActiveMembers s1),
                 RingKeysStatus := sput (i, current_ring s i) ((status_of s i (current_ring s i))\<lparr>rs_total := length L + n\<rparr>) (RingKeysStatus s1),
                 StaleRings := sput (i, current_ring s i) () (StaleRings s1)\<rparr>
        in if ring_capacity cfg (ci_ring_size info) - length L = n
           then s2\<lparr>CurrentRingIndex := sput i (saturating_inc (current_ring s2 i)) (CurrentRingIndex s2)\<rparr> else s2))"
    obtain M K where "s1 = s\<lparr>Members := M, RingKeys := K\<rparr>" using on by (auto simp: onboarded_def)
    then show ?thesis by (simp add: quiet_def s' members_deposit_def store_remaining_def Let_def)
  qed
qed

lemma do_self_include_quiet:
  assumes inv: "members_inv cfg s" and cfg: "members_config_ok cfg" and ok: "do_self_include cfg i k s = Inr s'"
  shows "quiet s s'"
proof -
  obtain info pos where live: "sget (Collections s) i = Some info"
    and pos: "sget (Members s) (i, k) = Some pos" and ao: "append_only (rings_state_of s i)"
    using ok unfolding do_self_include_def ok_or_Inr Let_def ensure_Inr by blast
  with ok obtain qp since where pos: "sget (Members s) (i, k) = Some (Onboarding qp since)"
    by (cases pos) (simp_all add: do_self_include_def)
  show ?thesis
    using inv cfg live pos ao
    by (rule do_self_include_ok) (use ok in \<open>auto simp: quiet_def leave_queue_def Let_def\<close>)
qed

subsection \<open>Steps that change a root\<close>

lemma build_ring_changes:
  assumes ok: "build_ring cfg env i r n s = Inr s'"
  obtains v root inter where
    "Root s' = sput (i, r) \<lparr>rr_root = root, rr_revision = v, rr_intermediate = inter\<rparr> (Root s)"
    "root_changes s' = root_changes s @ [(i, r, RootBuilt v root)]"
    "\<And>x. sget (Root s) (i, r) = Some x \<Longrightarrow> rr_revision x < v"
proof -
  obtain info where live: "sget (Collections s) i = Some info" "capacity_supported cfg (ci_ring_size info)"
    using ok by (auto simp: build_ring_def Let_def)
  obtain v inter where inter: "(case sget (Root s) (i, r) of
        Some existing \<Rightarrow> ok_or (checked_add u32_max (rr_revision existing) 1) (External ''Overflow'')
           (\<lambda>next. Inr (next, rr_intermediate existing))
      | None \<Rightarrow> Inr (0, start_members cfg (ci_ring_size info))) = (Inr (v, inter) :: MembersError dispatch_error + (nat \<times> 'c))"
    using ok live by (auto simp: build_ring_def Let_def)
  obtain ks inc where loop: "build_loop (flexible_ring_capacity cfg) (keys_of s i r) (rs_total (status_of s i r)) n
      (rs_included (status_of s i r)) [] = (ks, inc)" by fastforce
  obtain inter' where push: "push_members cfg inter ks (fetch_chunks cfg env (ci_ring_size info)) = Some inter'"
    using ok live inter loop by (auto simp: build_ring_def Let_def)
  show thesis
  proof (rule that)
    show "Root s' = sput (i, r) \<lparr>rr_root = finish_members cfg inter', rr_revision = v, rr_intermediate = inter'\<rparr> (Root s)"
      and "root_changes s' = root_changes s @ [(i, r, RootBuilt v (finish_members cfg inter'))]"
      using ok live inter loop push
      by (auto simp: build_ring_def Let_def members_deposit_def on_ring_root_change_def)
    show "rr_revision x < v" if "sget (Root s) (i, r) = Some x" for x
      using inter that by (auto simp: checked_add_def split: if_splits)
  qed
qed

lemma build_ring_announces:
  assumes ok: "build_ring cfg env i r n s = Inr s'"
  shows "announces s s' \<and> (wf_storage (Root s) \<longrightarrow> wf_storage (Root s'))"
  using ok
proof (rule build_ring_changes)
  fix v root inter
  assume "Root s' = sput (i, r) \<lparr>rr_root = root, rr_revision = v, rr_intermediate = inter\<rparr> (Root s)"
    "root_changes s' = root_changes s @ [(i, r, RootBuilt v root)]"
    "\<And>x. sget (Root s) (i, r) = Some x \<Longrightarrow> rr_revision x < v"
  then show ?thesis
    unfolding announces_def
    by (intro conjI impI exI [of _ i] exI [of _ r] exI [of _ "RootBuilt v root"])
       (auto simp: members_root_view_def)
qed

lemma archive_and_notify_cases:
  "(archive_and_notify now i r s = s \<and> sget (Root s) (i, r) = None) \<or>
   (Root (archive_and_notify now i r s) = sdel (i, r) (Root s) \<and>
    root_changes (archive_and_notify now i r s) = root_changes s @ [(i, r, RootDeleted)])"
  by (cases "sget (Root s) (i, r)") (simp_all add: archive_and_notify_def archive_root_def on_ring_root_change_def)

lemma archived_announces:
  assumes "Root s' = Root (archive_and_notify now i r s)" and "root_changes s' = root_changes (archive_and_notify now i r s)"
  shows "(quiet s s' \<or> announces s s') \<and> (wf_storage (Root s) \<longrightarrow> wf_storage (Root s'))"
  using archive_and_notify_cases [of now i r s]
proof
  assume "Root (archive_and_notify now i r s) = sdel (i, r) (Root s) \<and>
    root_changes (archive_and_notify now i r s) = root_changes s @ [(i, r, RootDeleted)]"
  then have "announces s s'"
    unfolding announces_def
    by (intro exI [of _ i] exI [of _ r] exI [of _ RootDeleted]) (auto simp: assms members_root_view_def)
  then show ?thesis using assms archive_and_notify_cases [of now i r s] by auto
qed (simp add: quiet_def assms)

lemma archived_frame:
  assumes "Root s1 = Root s" and "root_changes s1 = root_changes s"
  shows "Root (archive_and_notify now i r s1) = Root (archive_and_notify now i r s)"
    and "root_changes (archive_and_notify now i r s1) = root_changes (archive_and_notify now i r s)"
  using assms by (simp_all add: archive_and_notify_def archive_root_def on_ring_root_change_def split: option.splits)

lemma enqueue_announces:
  fixes cfg now i r and s :: "('m, 'root, 'inter) members_state"
  defines "s' \<equiv> snd (enqueue_ring_for_deletion cfg now i r s)"
  shows "(quiet s s' \<or> announces s s') \<and> (wf_storage (Root s) \<longrightarrow> wf_storage (Root s'))"
  by (rule archived_announces [of _ now i r]) (simp_all add: s'_def enqueue_ring_for_deletion_def Let_def)

lemma merge_rings_announces:
  assumes ok: "merge_rings cfg now sg i base target s = Inr (py, s')"
  shows "(quiet s s' \<or> announces s s') \<and> (wf_storage (Root s) \<longrightarrow> wf_storage (Root s'))"
proof -
  obtain info where live: "sget (Collections s) i = Some info" using ok unfolding merge_rings_def by auto
  obtain B1 s1 where
    loop: "merge_loop cfg i base (keys_of s i base 0) (keys_of s i target 0) s = Inr (B1, s1)"
    and s': "s' = (let s2 = s1\<lparr>RingKeys := sput (i, base, 0) B1 (RingKeys s1), RingKeysStatus := sput (i, base) ((status_of s i base)\<lparr>rs_total :=
            sat_add u32_max (rs_total (status_of s i base)) (length (keys_of s i target 0))\<rparr>) (RingKeysStatus s1)\<rparr>;
          s3 = archive_and_notify now i target s2
        in members_deposit (RingsMerged i base target) (s3\<lparr>StaleRings := sdel (i, target) (sput (i, base) () (StaleRings s3)),
             RingKeys := sdel (i, target, 0) (RingKeys s3), RingKeysStatus := sdel (i, target) (RingKeysStatus s3)\<rparr>))"
    using ok live unfolding merge_rings_def Let_def by auto
  obtain M where s1: "s1 = s\<lparr>Members := M\<rparr>" using merge_loop_frame [OF loop] by blast
  define s2 where "s2 = s1\<lparr>RingKeys := sput (i, base, 0) B1 (RingKeys s1), RingKeysStatus := sput (i, base)
          ((status_of s i base)\<lparr>rs_total := sat_add u32_max (rs_total (status_of s i base)) (length (keys_of s i target 0))\<rparr>)
          (RingKeysStatus s1)\<rparr>"
  have s2: "Root s2 = Root s" "root_changes s2 = root_changes s" by (simp_all add: s2_def s1)
  have "Root s' = Root (archive_and_notify now i target s2)" "root_changes s' = root_changes (archive_and_notify now i target s2)"
    unfolding s' Let_def s2_def [symmetric] by (simp_all add: members_deposit_def)
  then show ?thesis
    by (intro archived_announces [of _ now i target]) (simp_all only: archived_frame [OF s2])
qed

lemma remove_suspended_keys_silent:
  fixes cfg now i r and s :: "('m, 'root, 'inter) members_state"
  defines "s' \<equiv> remove_suspended_keys cfg now i r s"
  shows "(quiet s s' \<or> silent i r s s') \<and> (wf_storage (Root s) \<longrightarrow> wf_storage (Root s'))"
proof (cases "\<exists>info. sget (Collections s) i = Some info \<and> capacity_supported cfg (ci_ring_size info)")
  case False
  then have "s' = s" by (auto simp: s'_def remove_suspended_keys_def split: option.splits)
  then show ?thesis by simp
next
  case True
  then obtain info where live: "sget (Collections s) i = Some info" "capacity_supported cfg (ci_ring_size info)" by blast
  obtain b N s1 where loop: "retain_loop cfg i r 0 (pending_of s i r) (keys_of s i r 0) [] s = (b, N, s1)" by (metis prod_cases3)
  obtain M E where s1: "s1 = s\<lparr>Members := M, members_events := E\<rparr>" using retain_loop_frame [OF loop] by blast
  show ?thesis
  proof (cases b)
    case False
    then have "s' = s1" using live loop by (simp add: s'_def remove_suspended_keys_def)
    then show ?thesis by (simp add: s1 quiet_def)
  next
    case True
    have eq: "root_changes s' = root_changes s"
      "Root s' = (case sget (Root s) (i, r) of None \<Rightarrow> Root s
        | Some root \<Rightarrow> sput (i, r) \<lparr>rr_root = finish_members cfg (start_members cfg (ci_ring_size info)),
            rr_revision = sat_add u32_max (rr_revision root) 1, rr_intermediate = start_members cfg (ci_ring_size info)\<rparr> (Root s))"
      using live loop True by (simp_all add: s'_def remove_suspended_keys_def Let_def s1 split: option.splits)
    show ?thesis
      by (cases "sget (Root s) (i, r)") (auto simp: quiet_def silent_def eq members_root_view_def)
  qed
qed

text \<open>The only step that changes a root without announcing it is the removal of suspended keys.\<close>

lemma maintenance_announces:
  assumes inv: "members_inv cfg s" and cfg: "members_config_ok cfg" and ok: "maintenance_dispatch cfg env c s = Inr s'"
  shows "(quiet s s' \<or> announces s s' \<or> (\<exists>i r v. c = RemoveSuspendedKeys i r v \<and> silent i r s s')) \<and>
    (wf_storage (Root s) \<longrightarrow> wf_storage (Root s'))"
proof -
  have q: "?thesis" if "quiet s s'" using that by (simp add: quiet_def)
  show ?thesis
  proof (cases c)
    case (BuildRing i r e rv n)
    then show ?thesis using build_ring_announces [of cfg env i r n s s'] ok by simp
  next
    case (OnboardMembers i r h m)
    then show ?thesis using q onboard_members_quiet [OF inv cfg, of i] ok by (auto simp: onboard_members_authorized_def)
  next
    case (DeleteRingPage i r p)
    then show ?thesis using q delete_ring_page_quiet ok by auto
  next
    case (FinalizeCollectionDeletion i)
    then show ?thesis using q ok by (auto simp: finalize_collection_deletion_def Let_def quiet_def members_deposit_def)
  next
    case (DeleteOnboardingQueuePage i p)
    then show ?thesis using q ok by (auto simp: delete_onboarding_queue_page_def Let_def quiet_def)
  next
    case (MergeQueuePages i h h')
    then have "merge_queue_pages_authorized cfg i h h' s = Inr s'" using ok by simp
    then show ?thesis by (intro q merge_queue_pages_quiet)
  next
    case (CleanUpOldRoots i r n)
    then have "s' = clean_up_loop cfg (env_now env) i r n s" using ok by simp
    then show ?thesis using clean_up_loop_quiet q by blast
  next
    case (RemoveSuspendedKeys i r v)
    then show ?thesis using remove_suspended_keys_silent [of s cfg "env_now env" i r] ok by auto
  next
    case (EnqueueRingDeletion i r)
    then show ?thesis using enqueue_announces [of s cfg "env_now env" i r] ok by auto
  next
    case (MarkRingStale i r)
    then show ?thesis using q ok by (auto simp: mark_ring_stale_authorized_def)
  qed
qed

lemma members_step_announces:
  assumes cfg: "members_config_ok cfg" and inv: "members_inv cfg s" and ok: "members_step cfg (env, y) s = Inr s'"
  shows "(quiet s s' \<or> announces s s' \<or> (\<exists>local i r v. y = Maintain local (RemoveSuspendedKeys i r v) \<and> silent i r s s')) \<and>
    (wf_storage (Root s) \<longrightarrow> wf_storage (Root s'))"
proof -
  have q: "?thesis" if "quiet s s'" using that by (simp add: quiet_def)
  show ?thesis
  proof (cases y)
    case (Maintain local c)
    then show ?thesis using maintenance_announces [OF inv cfg, of env c s'] ok by auto
  next
    case (SelfInclude sg i m t)
    then obtain s1 where "do_self_include cfg i m s = Inr s1" "s' = members_deposit (MemberSelfIncluded i m) s1"
      using ok by (auto simp: self_include_def)
    then show ?thesis using do_self_include_quiet [OF inv cfg] by (intro q) simp
  next
    case (MergeRings sg i b t)
    then obtain py where "merge_rings cfg (env_now env) sg i b t s = Inr (py, s')" using ok by auto
    then show ?thesis using merge_rings_announces by blast
  next
    case (CreateCollection ow i n mode sz d)
    then show ?thesis using q ok by (auto simp: create_collection_def Let_def quiet_def)
  next
    case (AddMembers i ms)
    then have "add_loop cfg (env_now env) i ms s = Inr s'" using ok by (auto simp: add_members_def)
    then show ?thesis by (intro q add_loop_quiet)
  next
    case (RemoveRing i r)
    then show ?thesis
      using enqueue_announces [of s cfg "env_now env" i r] q ok by (auto simp: remove_ring_def split: if_splits)
  next
    case (DeleteCollection ow i)
    then show ?thesis using q ok by (auto simp: delete_collection_def quiet_def members_deposit_def split: if_splits)
  next
    case (RemoveMembers i ms)
    then have "suspend_loop cfg i ms s = Inr s'" using ok by (auto simp: remove_members_def queue_member_suspensions_def)
    then show ?thesis by (intro q suspend_loop_quiet)
  next
    case (SetOnboardingSize mgr i n)
    then show ?thesis using q ok by (auto simp: set_onboarding_size_def)
  next
    case (StartRemoval i)
    then show ?thesis using q ok by (auto simp: start_removal_session_def split: if_splits)
  next
    case (EndRemoval i)
    then show ?thesis using q ok by (auto simp: end_removal_session_def split: if_splits)
  qed
qed

subsection \<open>What has been announced\<close>

text \<open>The root a listener knows of a ring from the announcements alone.\<close>

definition announced :: "(coll_id \<times> nat \<times> 'root RingRootOp) list \<Rightarrow> coll_id \<Rightarrow> nat \<Rightarrow> (nat \<times> 'root) option" where
  "announced log i r =
     (case find (\<lambda>(j, q, _). j = i \<and> q = r) (rev log) of None \<Rightarrow> None | Some (_, _, c) \<Rightarrow> op_view c)"

lemma announced_Nil [simp]: "announced [] i r = None"
  by (simp add: announced_def)

lemma announced_snoc [simp]:
  "announced (log @ [(j, q, c)]) i r = (if (j, q) = (i, r) then op_view c else announced log i r)"
  by (simp add: announced_def)

text \<open>
  A root that was not announced is of a later revision than the one announced last, and without an
  announcement there is no root.
\<close>

definition announce_ok :: "(nat \<times> 'root) option \<Rightarrow> (nat \<times> 'root) option \<Rightarrow> bool" where
  "announce_ok a x =
     (case a of
        None \<Rightarrow> x = None
      | Some (v, root) \<Rightarrow> (case x of None \<Rightarrow> False | Some (v', root') \<Rightarrow> v \<le> v' \<and> (v = v' \<longrightarrow> root' = root)))"

definition announce_inv :: "('m, 'root, 'inter) members_state \<Rightarrow> bool" where
  "announce_inv s \<longleftrightarrow> (\<forall>i r. announce_ok (announced (root_changes s) i r) (members_root_view s i r))"

lemma announce_ok_refl [simp]: "announce_ok x x"
  by (simp add: announce_ok_def split: option.split)

lemma announce_inv_genesis: "announce_inv members_genesis"
  by (simp add: announce_inv_def members_genesis_def members_root_view_def)

lemma quiet_view: "quiet s s' \<Longrightarrow> members_root_view s' = members_root_view s"
  by (simp add: quiet_def members_root_view_def fun_eq_iff)

lemma announce_inv_quiet: "announce_inv s \<Longrightarrow> quiet s s' \<Longrightarrow> announce_inv s'"
  by (simp add: announce_inv_def quiet_view) (simp add: quiet_def)

lemma announce_inv_announces:
  assumes inv: "announce_inv s" and step: "announces s s'"
  shows "announce_inv s'"
proof -
  obtain i r c where log: "root_changes s' = root_changes s @ [(i, r, c)]" and new: "members_root_view s' i r = op_view c"
    and old: "\<And>j q. (j, q) \<noteq> (i, r) \<Longrightarrow> members_root_view s' j q = members_root_view s j q"
    using step unfolding announces_def by blast
  have "announce_ok (announced (root_changes s') j q) (members_root_view s' j q)" for j q
    using inv old [of j q] new by (cases "(j, q) = (i, r)") (auto simp: log announce_inv_def)
  then show ?thesis by (simp add: announce_inv_def)
qed

lemma silent_later:
  assumes "announce_inv s" and "silent i r s s'" and "rr_revision (the (sget (Root s) (i, r))) < u32_max"
  obtains v root v' root' where "announced (root_changes s) i r = Some (v, root)"
    "members_root_view s' i r = Some (v', root')" "v < v'"
proof -
  obtain w root0 root' where s: "members_root_view s i r = Some (w, root0)" "members_root_view s' i r = Some (sat_add u32_max w 1, root')"
    using assms(2) by (auto simp: silent_def)
  have w: "w < u32_max" using s(1) assms(3) by (auto simp: members_root_view_def)
  have "announce_ok (announced (root_changes s) i r) (Some (w, root0))"
    using assms(1) s(1) unfolding announce_inv_def by metis
  then obtain v root where "announced (root_changes s) i r = Some (v, root)" "v \<le> w"
    by (auto simp: announce_ok_def split: option.splits)
  then show thesis using that s(2) w by (simp add: sat_add_def)
qed

lemma announce_inv_silent:
  assumes inv: "announce_inv s" and step: "silent i r s s'" and room: "rr_revision (the (sget (Root s) (i, r))) < u32_max"
  shows "announce_inv s'"
proof -
  obtain v root v' root' where a: "announced (root_changes s) i r = Some (v, root)"
    "members_root_view s' i r = Some (v', root')" "v < v'" using silent_later [OF assms] .
  have log: "root_changes s' = root_changes s" and old: "\<And>j q. (j, q) \<noteq> (i, r) \<Longrightarrow> members_root_view s' j q = members_root_view s j q"
    using step by (auto simp: silent_def)
  have "announce_ok (announced (root_changes s') j q) (members_root_view s' j q)" for j q
    using inv old [of j q] a by (cases "(j, q) = (i, r)") (auto simp: log announce_inv_def announce_ok_def)
  then show ?thesis by (simp add: announce_inv_def)
qed

text \<open>The last announcement of a ring is out of date after a silent step.\<close>

lemma silent_unannounced:
  assumes "announce_inv s" and "silent i r s s'" and "rr_revision (the (sget (Root s) (i, r))) < u32_max"
  shows "members_root_view s' i r \<noteq> announced (root_changes s') i r"
  using silent_later [OF assms] assms(2) by (fastforce simp: silent_def)

end
