(* ===== verification/Replica.thy ===== *)
theory Replica
  imports Subscriber Members_Announce
begin

text \<open>
  The subscriber as a replica: its subscription, the sequence it processed last and the windows of roots.
  Receiving a message of the notifier is a function of these alone, which the calls of the
  pallet implement; the newest record of a window is what the replica takes for the root of a ring.
\<close>

subsection \<open>Messages received\<close>

fun call_batch :: "'root SubscriberCall \<Rightarrow> 'root RingRootUpdatesBatch option" where
  "call_batch (InitializeRingRoots _ b) = Some b"
| "call_batch (UpdateRingRoots b) = Some b"
| "call_batch TerminateSubscription = None"

text \<open>
  A message executes if its pallet index is that of the subscriber and its updates fit the bounded list.
\<close>

definition decodes :: "subscriber_config \<Rightarrow> nat \<Rightarrow> nat \<times> 'root SubscriberCall \<Rightarrow> bool" where
  "decodes cfg here m \<longleftrightarrow> fst m = here \<and>
     (case call_batch (snd m) of None \<Rightarrow> True | Some b \<Rightarrow> length (ub_updates b) \<le> sc_MaxUpdatesPerBatch cfg)"

fun receive_call ::
  "subscriber_config \<Rightarrow> subscriber_env \<Rightarrow> 'root SubscriberCall \<Rightarrow> 'root subscriber_state \<Rightarrow>
   SubscriberError dispatch_error + 'root subscriber_state" where
  "receive_call cfg env (InitializeRingRoots e b) s = initialize_ring_roots cfg env NotifierOrigin e b s"
| "receive_call cfg env (UpdateRingRoots b) s = process_ring_updates cfg env NotifierOrigin b s"
| "receive_call cfg env TerminateSubscription s = terminate_subscription cfg env NotifierOrigin s"

definition receive_message ::
  "subscriber_config \<Rightarrow> nat \<Rightarrow> subscriber_env \<Rightarrow> nat \<times> 'root SubscriberCall \<Rightarrow> 'root subscriber_state \<Rightarrow> 'root subscriber_state" where
  "receive_message cfg here env m s =
     (if decodes cfg here m then (case receive_call cfg env (snd m) s of Inl _ \<Rightarrow> s | Inr s' \<Rightarrow> s') else s)"

subsection \<open>The abstract replica\<close>

type_synonym 'root windows = "(coll_id \<times> nat, 'root RingCommitmentRecord list) storage"

record 'root replica =
  rep_status :: SubscriptionStatus
  rep_sequence :: nat
  rep_roots :: "'root windows"

definition replica_of :: "'root subscriber_state \<Rightarrow> 'root replica" where
  "replica_of s = \<lparr>rep_status = Subscription s, rep_sequence = ps_last_processed (ProcessingState s), rep_roots = RingRoots s\<rparr>"

definition store_root ::
  "subscriber_config \<Rightarrow> 'root RingRootUpdatesBatch \<Rightarrow> 'root RingRootUpdate \<Rightarrow> 'root windows \<Rightarrow> 'root windows" where
  "store_root cfg batch update R =
     (let k = (ub_identifier batch, up_ring update)
      in case up_op update of
           RootBuilt revision root \<Rightarrow>
             sput k (push_record cfg \<lparr>rc_root = root, rc_revision = revision, rc_source_time = ub_source_time batch,
               rc_source_sequence = ub_sequence batch\<rparr> (sget_or [] R k)) R
         | RootDeleted \<Rightarrow> sdel k R)"

definition replica_store :: "subscriber_config \<Rightarrow> 'root RingRootUpdatesBatch \<Rightarrow> 'root replica \<Rightarrow> 'root replica" where
  "replica_store cfg b R =
     R\<lparr>rep_roots := fold (store_root cfg b) (ub_updates b) (rep_roots R), rep_sequence := ub_sequence b\<rparr>"

definition replica_clear :: "subscriber_config \<Rightarrow> 'root replica \<Rightarrow> 'root replica" where
  "replica_clear cfg R =
     R\<lparr>rep_roots := sclear (sat_mul u32_max (sc_MaxCollections cfg) (sc_MaxRingRoots cfg)) (rep_roots R), rep_sequence := 0\<rparr>"

fun replica_call :: "subscriber_config \<Rightarrow> 'root SubscriberCall \<Rightarrow> 'root replica \<Rightarrow> 'root replica" where
  "replica_call cfg (InitializeRingRoots e b) R =
     (case rep_status R of
        SubActive n \<Rightarrow>
          if ub_sequence b < n then R
          else (replica_store cfg b (if n < ub_sequence b then replica_clear cfg R else R))\<lparr>rep_status := SubActive (ub_sequence b)\<rparr>
      | _ \<Rightarrow> (replica_store cfg b R)\<lparr>rep_status := SubActive (ub_sequence b)\<rparr>)"
| "replica_call cfg (UpdateRingRoots b) R =
     (case rep_status R of
        SubActive _ \<Rightarrow> if ub_sequence b < rep_sequence R then R else replica_store cfg b R
      | _ \<Rightarrow> R)"
| "replica_call cfg TerminateSubscription R =
     (case rep_status R of
        SubActive _ \<Rightarrow> (replica_clear cfg R)\<lparr>rep_status := SubTerminated\<rparr>
      | _ \<Rightarrow> R)"

definition replica_receive :: "subscriber_config \<Rightarrow> nat \<Rightarrow> nat \<times> 'root SubscriberCall \<Rightarrow> 'root replica \<Rightarrow> 'root replica" where
  "replica_receive cfg here m R = (if decodes cfg here m then replica_call cfg (snd m) R else R)"

subsection \<open>The pallet implements the replica\<close>

lemma snd_store_update: "snd (store_update cfg b u (st, R)) = store_root cfg b u R"
  by (simp add: store_update_def store_root_def Let_def split: RingRootOp.split)

lemma fold_store_update: "snd (fold (store_update cfg b) us x) = fold (store_root cfg b) us (snd x)"
proof (induction us arbitrary: x)
  case (Cons u us)
  then show ?case by (cases x) (simp add: snd_store_update)
qed simp

lemma store_ring_roots_frame [simp]:
  "RingRoots (store_ring_roots cfg b s) = fold (store_root cfg b) (ub_updates b) (RingRoots s)"
  "Subscription (store_ring_roots cfg b s) = Subscription s"
  "ProcessingState (store_ring_roots cfg b s) = ProcessingState s"
  by (simp_all add: store_ring_roots_def Let_def case_prod_beta fold_store_update)

lemma detect_missing_frame [simp]:
  "RingRoots (detect_missing_rings_in_batch cfg b n s) = RingRoots s"
  "Subscription (detect_missing_rings_in_batch cfg b n s) = Subscription s"
  "ProcessingState (detect_missing_rings_in_batch cfg b n s) = ProcessingState s"
  by (simp_all add: detect_missing_rings_in_batch_def subscriber_deposit_def Let_def case_prod_beta)

lemma replica_of_processed:
  "replica_of (subscriber_deposit e (record_batch_processed env (ub_sequence b)
     (detect_missing_rings_in_batch cfg b n (store_ring_roots cfg b s)))) = replica_store cfg b (replica_of s)"
  by (simp add: replica_of_def replica_store_def record_batch_processed_def subscriber_deposit_def)

lemma replica_of_cleared: "replica_of (clear_all_ring_data cfg s) = replica_clear cfg (replica_of s)"
  by (simp add: replica_of_def replica_clear_def clear_all_ring_data_def Let_def default_processing_state_def)

lemma replica_of_activated:
  "ub_sequence b = q \<Longrightarrow> replica_of (subscriber_deposit e ((record_batch_processed env q
     (detect_missing_rings_in_batch cfg b n (store_ring_roots cfg b s)))\<lparr>Subscription := st, RingCollectionExponents := X\<rparr>)) =
   (replica_store cfg b (replica_of s))\<lparr>rep_status := st\<rparr>"
  by (simp add: replica_of_def replica_store_def record_batch_processed_def subscriber_deposit_def)

lemma rep_status_of: "rep_status (replica_of s) = Subscription s" "rep_sequence (replica_of s) = ps_last_processed (ProcessingState s)"
  by (simp_all add: replica_of_def)

lemma receive_call_replica:
  "replica_of (case receive_call cfg env c s of Inl _ \<Rightarrow> s | Inr s' \<Rightarrow> s') = replica_call cfg c (replica_of s)"
proof (cases c)
  case (InitializeRingRoots e b)
  then show ?thesis
    by (cases "Subscription s")
       (simp_all add: initialize_ring_roots_def Let_def replica_of_activated replica_of_cleared rep_status_of)
next
  case (UpdateRingRoots b)
  then show ?thesis
    by (cases "Subscription s")
       (simp_all add: process_ring_updates_def ensure_subscription_active_def Let_def replica_of_processed rep_status_of)
next
  case TerminateSubscription
  have "replica_of (subscriber_deposit e ((clear_all_ring_data cfg s)\<lparr>Subscription := SubTerminated\<rparr>)) =
      (replica_clear cfg (replica_of s))\<lparr>rep_status := SubTerminated\<rparr>" for e
    unfolding replica_of_cleared [symmetric] by (simp add: replica_of_def subscriber_deposit_def)
  then show ?thesis using TerminateSubscription
    by (cases "Subscription s") (simp_all add: terminate_subscription_def rep_status_of)
qed

lemma receive_message_replica:
  "replica_of (receive_message cfg here env m s) = replica_receive cfg here m (replica_of s)"
  by (simp add: receive_message_def replica_receive_def receive_call_replica)

text \<open>The replay of missing roots leaves the replica alone.\<close>

lemma send_replay_chunks_replica: "replica_of (snd (send_replay_chunks cfg env i cs b s)) = replica_of s"
proof (induction cs arbitrary: b s)
  case (Cons c cs)
  have eq: "replica_of (subscriber_deposit e (s\<lparr>to_notifier := x\<rparr>)) = replica_of s" for e x
    by (simp add: replica_of_def subscriber_deposit_def)
  show ?case
    using Cons.IH by (auto simp: send_replay_request_def send_to_notifier_def ensure_def Let_def eq split: sum.splits if_splits)
qed simp

lemma replay_replica: "replay_missing_roots cfg env origin i idx s = Inr s' \<Longrightarrow> replica_of s' = replica_of s"
proof -
  assume ok: "replay_missing_roots cfg env origin i idx s = Inr s'"
  have "replica_of (snd (process_collection_replay cfg env i xs s)) = replica_of s" for xs
    by (simp add: process_collection_replay_def Let_def case_prod_beta send_replay_chunks_replica) (simp add: replica_of_def)
  moreover have "replica_of (x\<lparr>ProcessingState := (ProcessingState x)\<lparr>ps_last_replay_time := t\<rparr>\<rparr>) = replica_of x" for x :: "'a subscriber_state" and t
    by (simp add: replica_of_def)
  ultimately show ?thesis
    using ok by (auto simp: replay_missing_roots_def Let_def case_prod_beta split: if_splits)
qed

subsection \<open>What a replica knows\<close>

definition newest :: "'root windows \<Rightarrow> coll_id \<Rightarrow> nat \<Rightarrow> (nat \<times> 'root) option" where
  "newest R i r =
     (case sget_or [] R (i, r) of [] \<Rightarrow> None | x # xs \<Rightarrow> Some (rc_revision (last (x # xs)), rc_root (last (x # xs))))"

definition windows_ok :: "subscriber_config \<Rightarrow> 'root windows \<Rightarrow> bool" where
  "windows_ok cfg R \<longleftrightarrow> (\<forall>k. length (sget_or [] R k) \<le> sc_MaxRecentRoots cfg)"

lemma push_record_length:
  "length ws \<le> sc_MaxRecentRoots cfg \<Longrightarrow> length (push_record cfg x ws) \<le> sc_MaxRecentRoots cfg"
  by (cases ws) (auto simp: push_record_def Let_def)

lemma push_record_last:
  "0 < sc_MaxRecentRoots cfg \<Longrightarrow> length ws \<le> sc_MaxRecentRoots cfg \<Longrightarrow> push_record cfg x ws \<noteq> [] \<and> last (push_record cfg x ws) = x"
  by (cases ws) (auto simp: push_record_def Let_def)

lemma push_record_set: "set (push_record cfg x ws) \<subseteq> insert x (set ws)"
  by (cases ws) (auto simp: push_record_def Let_def)

lemma store_root_windows: "windows_ok cfg R \<Longrightarrow> windows_ok cfg (store_root cfg b u R)"
  by (auto simp: windows_ok_def store_root_def Let_def push_record_length split: RingRootOp.split)

lemma fold_store_windows: "windows_ok cfg R \<Longrightarrow> windows_ok cfg (fold (store_root cfg b) us R)"
  by (induction us arbitrary: R) (simp_all add: store_root_windows)

lemma newest_nonempty: "ws \<noteq> [] \<Longrightarrow> sget_or [] R (i, r) = ws \<Longrightarrow> newest R i r = Some (rc_revision (last ws), rc_root (last ws))"
  by (cases ws) (simp_all add: newest_def)

lemma newest_store_root:
  assumes "0 < sc_MaxRecentRoots cfg" and "windows_ok cfg R"
  shows "newest (store_root cfg b u R) i r =
    (if i = ub_identifier b \<and> r = up_ring u then op_view (up_op u) else newest R i r)"
proof (cases "i = ub_identifier b \<and> r = up_ring u")
  case True
  show ?thesis
  proof (cases "up_op u")
    case (RootBuilt v root)
    let ?x = "\<lparr>rc_root = root, rc_revision = v, rc_source_time = ub_source_time b, rc_source_sequence = ub_sequence b\<rparr>"
    let ?w = "push_record cfg ?x (sget_or [] R (i, r))"
    have "?w \<noteq> [] \<and> last ?w = ?x" using assms by (intro push_record_last) (simp_all add: windows_ok_def)
    moreover have "sget_or [] (store_root cfg b u R) (i, r) = ?w" using RootBuilt True by (simp add: store_root_def Let_def)
    ultimately have "newest (store_root cfg b u R) i r = Some (v, root)" using newest_nonempty [of ?w] by simp
    then show ?thesis using RootBuilt True by simp
  qed (use True in \<open>simp add: store_root_def Let_def newest_def\<close>)
next
  case False
  then have "sget_or [] (store_root cfg b u R) (i, r) = sget_or [] R (i, r)"
    by (auto simp: store_root_def Let_def split: RingRootOp.split)
  then show ?thesis using False by (auto simp: newest_def)
qed

text \<open>A batch is honest if its updates tell the roots as they are.\<close>

definition honest :: "(coll_id \<Rightarrow> nat \<Rightarrow> (nat \<times> 'root) option) \<Rightarrow> 'root RingRootUpdatesBatch \<Rightarrow> bool" where
  "honest V b \<longleftrightarrow> (\<forall>u \<in> set (ub_updates b). op_view (up_op u) = V (ub_identifier b) (up_ring u))"

definition batch_rings :: "'root RingRootUpdatesBatch \<Rightarrow> (coll_id \<times> nat) set" where
  "batch_rings b = (\<lambda>u. (ub_identifier b, up_ring u)) ` set (ub_updates b)"

lemma newest_fold:
  assumes cfg: "0 < sc_MaxRecentRoots cfg"
  shows "windows_ok cfg R \<Longrightarrow> (\<And>u. u \<in> set us \<Longrightarrow> op_view (up_op u) = V (ub_identifier b) (up_ring u)) \<Longrightarrow>
    newest (fold (store_root cfg b) us R) i r =
    (if (i, r) \<in> (\<lambda>u. (ub_identifier b, up_ring u)) ` set us then V i r else newest R i r)"
proof (induction us arbitrary: R)
  case (Cons u us)
  then have "newest (fold (store_root cfg b) us (store_root cfg b u R)) i r =
    (if (i, r) \<in> (\<lambda>u. (ub_identifier b, up_ring u)) ` set us then V i r else newest (store_root cfg b u R) i r)"
    by (intro Cons.IH) (simp_all add: store_root_windows)
  then show ?case using newest_store_root [OF cfg Cons.prems(1), of b u i r] Cons.prems(2) [of u] by auto
qed simp

lemma newest_stored:
  assumes "0 < sc_MaxRecentRoots cfg" and "windows_ok cfg (rep_roots R)" and "honest V b"
  shows "newest (rep_roots (replica_store cfg b R)) i r = (if (i, r) \<in> batch_rings b then V i r else newest (rep_roots R) i r)"
  using newest_fold [OF assms(1,2), of "ub_updates b" V b] assms(3)
  by (simp add: replica_store_def honest_def batch_rings_def)

text \<open>The records of a window are those it had and roots of the batch.\<close>

definition window_roots :: "'root windows \<Rightarrow> coll_id \<Rightarrow> nat \<Rightarrow> (nat \<times> 'root) set" where
  "window_roots R i r = (\<lambda>x. (rc_revision x, rc_root x)) ` set (sget_or [] R (i, r))"

lemma window_roots_store_root:
  assumes "op_view (up_op u) = V (ub_identifier b) (up_ring u)" and "p \<in> window_roots (store_root cfg b u R) i r"
  shows "p \<in> window_roots R i r \<or> V i r = Some p"
proof (cases "i = ub_identifier b \<and> r = up_ring u")
  case True
  show ?thesis
  proof (cases "up_op u")
    case (RootBuilt v root)
    let ?x = "\<lparr>rc_root = root, rc_revision = v, rc_source_time = ub_source_time b, rc_source_sequence = ub_sequence b\<rparr>"
    have "sget_or [] (store_root cfg b u R) (i, r) = push_record cfg ?x (sget_or [] R (i, r))"
      using RootBuilt True by (simp add: store_root_def Let_def)
    then have "p \<in> insert (v, root) (window_roots R i r)"
      using assms(2) push_record_set [of cfg ?x "sget_or [] R (i, r)"] by (auto simp: window_roots_def)
    then show ?thesis using assms(1) RootBuilt True by auto
  qed (use True assms(2) in \<open>simp add: store_root_def Let_def window_roots_def\<close>)
next
  case False
  then have "sget_or [] (store_root cfg b u R) (i, r) = sget_or [] R (i, r)"
    by (auto simp: store_root_def Let_def split: RingRootOp.split)
  then show ?thesis using assms(2) by (simp add: window_roots_def)
qed

lemma window_roots_fold:
  "(\<And>u. u \<in> set us \<Longrightarrow> op_view (up_op u) = V (ub_identifier b) (up_ring u)) \<Longrightarrow>
   p \<in> window_roots (fold (store_root cfg b) us R) i r \<Longrightarrow> p \<in> window_roots R i r \<or> V i r = Some p"
proof (induction us arbitrary: R)
  case (Cons u us)
  then have "p \<in> window_roots (store_root cfg b u R) i r \<or> V i r = Some p" by simp
  then show ?case using window_roots_store_root [of u V b p cfg R i r] Cons.prems(1) by auto
qed simp

lemma sget_or_sclear_wf:
  assumes "wf_storage m"
  shows "sget_or [] (sclear n m) k = [] \<or> sget_or [] (sclear n m) k = sget_or [] m k"
proof (cases "k \<in> fst ` set (drop n m)")
  case True
  then obtain v where v: "(k, v) \<in> set (drop n m)" by auto
  have "wf_storage (drop n m)" using assms by (simp add: wf_storage_def drop_map [symmetric])
  then have "sget (drop n m) k = Some v" using v by (rule in_set_sget)
  moreover have "sget m k = Some v" using assms v by (intro in_set_sget) (auto dest: in_set_dropD)
  ultimately show ?thesis by (simp add: sget_or_def sclear_def)
next
  case False
  then have "sget (sclear n m) k = None" by (simp add: sclear_def sget_None_iff)
  then show ?thesis by (simp add: sget_or_def)
qed

end
