(* ===== verification/Notifier_Feed.thy ===== *)
theory Notifier_Feed
  imports Replica
begin

text \<open>
  What the notifier sends. Every message carries the roots as the provider has them at that moment,
  a batch sent without failure covers all of its rings, and a page of the initialisation covers the roots up to
  the ring from which the next page goes on.
\<close>

fun view_op :: "(nat \<times> 'root) option \<Rightarrow> 'root RingRootOp" where
  "view_op None = RootDeleted"
| "view_op (Some (v, root)) = RootBuilt v root"

lemma op_view_op [simp]: "op_view (view_op x) = x"
  by (cases x rule: view_op.cases) simp_all

subsection \<open>Chunks\<close>

lemma chunks_of_concat: "0 < n \<Longrightarrow> concat (chunks_of n xs) = xs"
proof (induction n xs rule: chunks_of.induct)
  case (1 n xs)
  then show ?case by (subst chunks_of.simps) auto
qed

lemma chunks_of_sizes: "c \<in> set (chunks_of n xs) \<Longrightarrow> c \<noteq> [] \<and> length c \<le> n"
proof (induction n xs rule: chunks_of.induct)
  case (1 n xs)
  then show ?case by (subst (asm) chunks_of.simps) (auto split: if_splits)
qed

lemma in_chunks_of: "0 < n \<Longrightarrow> x \<in> set xs \<Longrightarrow> \<exists>c \<in> set (chunks_of n xs). x \<in> set c"
  using chunks_of_concat [of n xs] by (metis UN_iff set_concat)

lemma batch_size_le: "get_xcm_update_batch_size cfg env p = Some n \<Longrightarrow> n \<le> nc_MaxUpdatesPerBatch cfg"
  by (auto simp: get_xcm_update_batch_size_def Let_def split: option.splits if_splits)

subsection \<open>Only the outbox and the events change\<close>

definition sent_only :: "'root sent list \<Rightarrow> 'root notifier_state \<Rightarrow> 'root notifier_state \<Rightarrow> bool" where
  "sent_only ms s s' \<longleftrightarrow> (\<exists>E. s' = s\<lparr>outbox := outbox s @ ms, notifier_events := E\<rparr>)"

lemma sent_only_refl: "sent_only [] s s"
  unfolding sent_only_def by (rule exI [of _ "notifier_events s"]) simp

lemma sent_only_trans: "sent_only ms s s1 \<Longrightarrow> sent_only ns s1 s2 \<Longrightarrow> sent_only (ms @ ns) s s2"
  unfolding sent_only_def by force

lemma sent_only_deposit: "sent_only ms s s1 \<Longrightarrow> sent_only ms s (notifier_deposit e s1)"
  unfolding sent_only_def notifier_deposit_def by force

lemma sent_onlyD:
  assumes "sent_only ms s s'"
  shows "outbox s' = outbox s @ ms" "Subscribers s' = Subscribers s" "SealedBatchSequence s' = SealedBatchSequence s"
    "PageState s' = PageState s" "PendingUpdates s' = PendingUpdates s" "PageUpdatesCount s' = PageUpdatesCount s"
    "PendingInit s' = PendingInit s" "SealedBatchIndices s' = SealedBatchIndices s" "CurrentBatch s' = CurrentBatch s"
    "SubscribersWithCurrentBatch s' = SubscribersWithCurrentBatch s" "LastReplayTime s' = LastReplayTime s"
  using assms by (auto simp: sent_only_def)

lemma send_updates_sent:
  "send_updates_to_subscriber env p b idx s = Inr s' \<Longrightarrow> sent_only [(p, idx, UpdateRingRoots b)] s s'"
  unfolding sent_only_def send_updates_to_subscriber_def send_xcm_call_to_subscriber_def
  by (intro exI [of _ "notifier_events s"]) auto

lemma send_chunks_sent:
  assumes "send_chunks cfg env p idx mk cs failed s = (failed', s')"
  shows "\<exists>ms. sent_only (map (\<lambda>c. (p, idx, UpdateRingRoots (mk c))) ms) s s' \<and> set ms \<subseteq> set cs \<and>
    (\<not> failed' \<longrightarrow> \<not> failed \<and> (\<forall>c \<in> set cs. c \<noteq> [] \<and> length c \<le> nc_MaxUpdatesPerBatch cfg \<longrightarrow> c \<in> set ms))"
  using assms
proof (induction cs arbitrary: failed s)
  case Nil
  then show ?case by (intro exI [of _ "[]"]) (simp add: sent_only_refl)
next
  case (Cons c cs)
  show ?case
  proof (cases "length c > nc_MaxUpdatesPerBatch cfg \<or> c = []")
    case True
    then have "send_chunks cfg env p idx mk cs failed s = (failed', s')" using Cons.prems by simp
    from Cons.IH [OF this] True show ?thesis by fastforce
  next
    case False
    show ?thesis
    proof (cases "send_updates_to_subscriber env p (mk c) idx s")
      case (Inl e)
      then have "send_chunks cfg env p idx mk cs True (notifier_deposit (UpdateSendFailed p) s) = (failed', s')"
        using Cons.prems False by simp
      from Cons.IH [OF this] obtain ms where
        "sent_only (map (\<lambda>c. (p, idx, UpdateRingRoots (mk c))) ms) (notifier_deposit (UpdateSendFailed p) s) s'"
        "set ms \<subseteq> set cs" "failed'" by auto
      moreover have "sent_only [] s (notifier_deposit (UpdateSendFailed p) s)" by (rule sent_only_deposit [OF sent_only_refl])
      ultimately show ?thesis using sent_only_trans by (intro exI [of _ ms]) fastforce
    next
      case (Inr s1)
      then have "send_chunks cfg env p idx mk cs failed (notifier_deposit (UpdatesSent p (length c)) s1) = (failed', s')"
        using Cons.prems False by simp
      from Cons.IH [OF this] obtain ms where
        ms: "sent_only (map (\<lambda>c. (p, idx, UpdateRingRoots (mk c))) ms) (notifier_deposit (UpdatesSent p (length c)) s1) s'"
        "set ms \<subseteq> set cs"
        "\<not> failed' \<longrightarrow> \<not> failed \<and> (\<forall>c \<in> set cs. c \<noteq> [] \<and> length c \<le> nc_MaxUpdatesPerBatch cfg \<longrightarrow> c \<in> set ms)" by blast
      have "sent_only [(p, idx, UpdateRingRoots (mk c))] s (notifier_deposit (UpdatesSent p (length c)) s1)"
        by (rule sent_only_deposit [OF send_updates_sent [OF Inr]])
      from sent_only_trans [OF this ms(1)] have "sent_only (map (\<lambda>c. (p, idx, UpdateRingRoots (mk c))) (c # ms)) s s'" by simp
      then show ?thesis using ms(2,3) by (intro exI [of _ "c # ms"]) auto
    qed
  qed
qed

subsection \<open>Messages are honest\<close>

text \<open>
  The messages of \<open>send_batch\<close>: batches of the given sequence, of at most \<open>n\<close> updates each, for collections of
  the subscriber, that tell the roots as they are.
\<close>

definition fresh_batch ::
  "(coll_id \<Rightarrow> nat \<Rightarrow> (nat \<times> 'root) option) \<Rightarrow> nat \<Rightarrow> nat \<Rightarrow> 'root RingRootUpdatesBatch \<Rightarrow> bool" where
  "fresh_batch V q n b \<longleftrightarrow> honest V b \<and> ub_sequence b = q \<and> length (ub_updates b) \<le> n"

lemma match_roots_filter:
  fixes V :: "nat \<Rightarrow> (nat \<times> 'root) option"
  shows "match_roots xs (List.map_filter (\<lambda>r. map_option (\<lambda>(v, root). (r, root, v)) (V r)) xs) =
   map (\<lambda>r. \<lparr>up_ring = r, up_op = view_op (V r)\<rparr>) xs"
proof (induction xs)
  case (Cons x xs)
  let ?f = "\<lambda>r. map_option (\<lambda>(v, root). (r, root, v)) (V r)"
  show ?case
  proof (cases "V x")
    case None
    have "match_roots (x # xs) ys = \<lparr>up_ring = x, up_op = RootDeleted\<rparr> # match_roots xs ys"
      if "\<And>r root v. (r, root, v) \<in> set ys \<Longrightarrow> r \<noteq> x" for ys :: "(nat \<times> 'root \<times> nat) list"
    proof (cases ys)
      case (Cons y zs)
      then show ?thesis using that by (cases y) auto
    qed simp
    moreover have "r \<noteq> x" if "(r, root, v) \<in> set (List.map_filter ?f xs)" for r root v
      using that None by (auto simp: List.map_filter_def)
    ultimately have "match_roots (x # xs) (List.map_filter ?f xs) =
        \<lparr>up_ring = x, up_op = RootDeleted\<rparr> # match_roots xs (List.map_filter ?f xs)" by blast
    then show ?thesis unfolding Cons.IH using None by (simp add: List.map_filter_simps)
  next
    case (Some p)
    then show ?thesis using Cons.IH by (cases p) (simp add: List.map_filter_simps)
  qed
qed (simp add: List.map_filter_simps)

context ring_feed
begin

lemma resolve_updates:
  "feed_ok s \<Longrightarrow> ne_provider env = provider s \<Longrightarrow>
   resolve_updates_for_indices env i xs = map (\<lambda>r. \<lparr>up_ring = r, up_op = view_op (root_view s i r)\<rparr>) xs"
  by (simp add: resolve_updates_for_indices_def get_roots match_roots_filter)

lemma resolved_part_honest:
  assumes "feed_ok s" and "ne_provider env = provider s" and "set (ub_updates b) \<subseteq> set (resolve_updates_for_indices env (ub_identifier b) xs)"
  shows "honest (root_view s) b"
  using assms(3) unfolding resolve_updates [OF assms(1,2)] honest_def by auto

lemma send_collections_sent:
  assumes ok: "feed_ok v" and prov: "ne_provider env = provider v" and n: "0 < n" "n \<le> nc_MaxUpdatesPerBatch cfg"
    and run: "send_collections cfg env p idx n q t cs failed s = (failed', s')"
  shows "\<exists>bs. sent_only (map (\<lambda>b. (p, idx, UpdateRingRoots b)) bs) s s' \<and> (\<forall>b \<in> set bs. fresh_batch (root_view v) q n b) \<and>
    (\<not> failed' \<longrightarrow> \<not> failed \<and> (\<forall>i e xs r. (i, e) \<in> set cs \<and> sget (SealedBatchIndices s) i = Some xs \<and> r \<in> set xs \<longrightarrow>
       (\<exists>b \<in> set bs. (i, r) \<in> batch_rings b)))"
  using run
proof (induction cs arbitrary: failed s)
  case Nil
  then show ?case by (intro exI [of _ "[]"]) (simp add: sent_only_refl)
next
  case (Cons c cs)
  obtain i e where c: "c = (i, e)" by fastforce
  define xs where "xs = (case sget (SealedBatchIndices s) i of None \<Rightarrow> [] | Some xs \<Rightarrow> xs)"
  define mk where "mk = (\<lambda>chunk. \<lparr>ub_identifier = i, ub_sequence = q, ub_source_time = t,
       ub_updates = chunk, ub_next_ring_index = rp_next_ring_index (ne_provider env) i\<rparr> :: 'root RingRootUpdatesBatch)"
  let ?us = "resolve_updates_for_indices env i xs"
  obtain f1 s1 where chunks: "send_chunks cfg env p idx mk (chunks_of n ?us) failed s = (f1, s1)" by fastforce
  have rest: "send_collections cfg env p idx n q t cs f1 s1 = (failed', s')"
  proof (cases "xs = []")
    case True
    then have "?us = []" using resolve_updates [OF ok prov] by simp
    then have "(f1, s1) = (failed, s)" using chunks by (simp add: chunks_of.simps [of n "[]"])
    then show ?thesis using True Cons.prems by (auto simp: c xs_def split: option.splits)
  next
    case False
    then obtain ys where "sget (SealedBatchIndices s) i = Some ys" "xs = ys" by (cases "sget (SealedBatchIndices s) i") (auto simp: xs_def)
    then show ?thesis using False Cons.prems chunks by (simp add: c mk_def Let_def)
  qed
  from send_chunks_sent [OF chunks] obtain ms where
    ms: "sent_only (map (\<lambda>c. (p, idx, UpdateRingRoots (mk c))) ms) s s1" "set ms \<subseteq> set (chunks_of n ?us)"
    "\<not> f1 \<longrightarrow> \<not> failed \<and> (\<forall>c \<in> set (chunks_of n ?us). c \<noteq> [] \<and> length c \<le> nc_MaxUpdatesPerBatch cfg \<longrightarrow> c \<in> set ms)"
    by blast
  from Cons.IH [OF rest] obtain bs where
    bs: "sent_only (map (\<lambda>b. (p, idx, UpdateRingRoots b)) bs) s1 s'" "\<forall>b \<in> set bs. fresh_batch (root_view v) q n b"
    "\<not> failed' \<longrightarrow> \<not> f1 \<and> (\<forall>i e xs r. (i, e) \<in> set cs \<and> sget (SealedBatchIndices s1) i = Some xs \<and> r \<in> set xs \<longrightarrow>
       (\<exists>b \<in> set bs. (i, r) \<in> batch_rings b))" by blast
  let ?bs = "map mk ms @ bs"
  have out: "sent_only (map (\<lambda>b. (p, idx, UpdateRingRoots b)) ?bs) s s'" using sent_only_trans [OF ms(1) bs(1)] by (simp add: o_def)
  have fresh: "fresh_batch (root_view v) q n (mk m)" if "m \<in> set ms" for m
  proof -
    have m: "m \<in> set (chunks_of n ?us)" using that ms(2) by blast
    then have "set m \<subseteq> set ?us" using chunks_of_concat [OF n(1), of ?us] by (metis UN_upper set_concat)
    then have "honest (root_view v) (mk m)" by (intro resolved_part_honest [OF ok prov]) (simp add: mk_def)
    then show ?thesis using chunks_of_sizes [OF m] by (simp add: fresh_batch_def mk_def)
  qed
  have covered: "\<exists>b \<in> set ?bs. (j, r) \<in> batch_rings b"
    if nf: "\<not> failed'" and j: "(j, e') \<in> set (c # cs)" "sget (SealedBatchIndices s) j = Some ys" "r \<in> set ys" for j e' ys r
  proof (cases "(j, e') \<in> set cs")
    case True
    then show ?thesis using bs(3) nf j sent_onlyD(8) [OF ms(1)] by (metis UnI2 set_append)
  next
    case False
    then have ji: "j = i" using j(1) c by simp
    then have "ys = xs" using j(2) by (simp add: xs_def)
    then have u: "\<lparr>up_ring = r, up_op = view_op (root_view v i r)\<rparr> \<in> set ?us" using j(3) by (simp add: resolve_updates [OF ok prov])
    obtain ch where ch: "ch \<in> set (chunks_of n ?us)" "\<lparr>up_ring = r, up_op = view_op (root_view v i r)\<rparr> \<in> set ch"
      using in_chunks_of [OF n(1) u] by blast
    then have "ch \<in> set ms" using ms(3) bs(3) nf chunks_of_sizes [OF ch(1)] n(2) by auto
    moreover have "(i, r) \<in> batch_rings (mk ch)" using ch(2) by (force simp: batch_rings_def mk_def)
    ultimately show ?thesis using ji by auto
  qed
  have all_fresh: "\<forall>b \<in> set ?bs. fresh_batch (root_view v) q n b" using fresh bs(2) by auto
  have "\<not> failed' \<longrightarrow> \<not> failed" using ms(3) bs(3) by blast
  then show ?case using out all_fresh covered by blast
qed

end

end
