(* ===== verification/Notifier_Inv.thy ===== *)
theory Notifier_Inv
  imports Notifier_Feed
begin

text \<open>
  The notifier as a whole: its calls as steps, and the invariant they keep. The counter of a page counts
  its entries and fits a batch, the pages in use lie between the page sent next and the page written
  to, and the counter of a batch counts the subscribers that still have to get it.
\<close>

subsection \<open>Steps\<close>

datatype notifier_op =
    Subscribe notifier_origin nat "(coll_id \<times> RingExponent) list" nat
  | Unsubscribe notifier_origin "nat option"
  | RequestReplay notifier_origin nat coll_id "nat list"
  | Worker tx_source notifier_call
  | RootChange coll_id nat

datatype notifier_failure = NotAuthorized NotifierInvalid | CallFailed "NotifierError dispatch_error"

fun notifier_step ::
  "notifier_config \<Rightarrow> 'root notifier_env \<times> notifier_op \<Rightarrow> 'root notifier_state \<Rightarrow> notifier_failure + 'root notifier_state" where
  "notifier_step cfg (env, Subscribe origin p cs idx) s = map_err CallFailed (subscribe cfg env origin p cs idx s)"
| "notifier_step cfg (env, Unsubscribe origin x) s = map_err CallFailed (unsubscribe cfg env origin x s)"
| "notifier_step cfg (env, RequestReplay origin p i xs) s = map_err CallFailed (request_replay cfg env origin p i xs s)"
| "notifier_step cfg (env, Worker source c) s =
     on_ok (map_err NotAuthorized (notifier_authorize cfg env source c s))
       (\<lambda>_. map_err CallFailed (notifier_dispatch cfg env c s))"
| "notifier_step cfg (env, RootChange i r) s = Inr (note_root_change cfg i r s)"

text \<open>
  The bounds of the integers: the sequence is a \<open>u64\<close>, and not all 65536 pages are in use when a page
  is full.
\<close>

fun notifier_guard :: "notifier_config \<Rightarrow> 'root notifier_env \<times> notifier_op \<Rightarrow> 'root notifier_state \<Rightarrow> bool" where
  "notifier_guard cfg (env, Worker source (EnqueueUpdates _ _)) s = (SealedBatchSequence s < u64_max)"
| "notifier_guard cfg (env, RootChange i r) s = (write_page (PageState s) + 1 \<noteq> send_page (PageState s))"
| "notifier_guard cfg (env, _) s = True"

definition notifier_config_ok :: "notifier_config \<Rightarrow> bool" where
  "notifier_config_ok cfg \<longleftrightarrow> notifier_integrity_test cfg \<and> 0 < nc_MaxUpdatesPerBatch cfg \<and> nc_MaxUpdatesPerBatch cfg \<le> u32_max"

subsection \<open>The invariant\<close>

definition awaits :: "nat \<Rightarrow> (nat, unit) storage \<Rightarrow> nat \<times> SubscriberInfo \<Rightarrow> nat" where
  "awaits q served x = (if si_last_init (snd x) < q \<and> \<not> scontains served (fst x) then 1 else 0)"

definition unserved :: "'root notifier_state \<Rightarrow> nat \<Rightarrow> nat" where
  "unserved s q = ssum (awaits q (SubscribersWithCurrentBatch s)) (Subscribers s)"

definition entries_of :: "16 word \<Rightarrow> (16 word \<times> coll_id \<times> nat, unit) storage \<Rightarrow> nat" where
  "entries_of p m = ssum (\<lambda>x. if fst (fst x) = p then 1 else 0) m"

definition batch_ok :: "'root notifier_state \<Rightarrow> bool" where
  "batch_ok s \<longleftrightarrow>
     (case CurrentBatch s of
        None \<Rightarrow> SubscribersWithCurrentBatch s = []
      | Some b \<Rightarrow> bd_sequence b = SealedBatchSequence s \<and> 0 < bd_remaining b \<and> bd_remaining b = unserved s (bd_sequence b))"

definition pages_ok :: "notifier_config \<Rightarrow> 'root notifier_state \<Rightarrow> bool" where
  "pages_ok cfg s \<longleftrightarrow> wf_storage (PendingUpdates s) \<and>
     (\<forall>p. updates_in_page s p = entries_of p (PendingUpdates s)) \<and>
     (\<forall>p. entries_of p (PendingUpdates s) \<le> nc_MaxUpdatesPerBatch cfg) \<and>
     (\<forall>p. entries_of p (PendingUpdates s) \<noteq> 0 \<longrightarrow>
        p - send_page (PageState s) \<le> write_page (PageState s) - send_page (PageState s))"

definition subscribers_ok :: "notifier_config \<Rightarrow> 'root notifier_state \<Rightarrow> bool" where
  "subscribers_ok cfg s \<longleftrightarrow>
     wf_storage (Subscribers s) \<and> wf_storage (SubscribersWithCurrentBatch s) \<and>
     length (Subscribers s) \<le> nc_MaxSubscribers cfg \<and>
     (\<forall>p. scontains (SubscribersWithCurrentBatch s) p \<longrightarrow> scontains (Subscribers s) p) \<and>
     (\<forall>p info. sget (Subscribers s) p = Some info \<longrightarrow>
        si_last_init info \<le> SealedBatchSequence s \<and> ascending (map fst (si_collections info))) \<and>
     (\<forall>p st. sget (PendingInit s) p = Some st \<longrightarrow>
        (\<exists>info. sget (Subscribers s) p = Some info \<and> pi_collections st = si_collections info \<and>
           pi_sequence st = si_last_init info \<and> pi_pallet_index st = si_pallet_index info))"

definition notifier_inv :: "notifier_config \<Rightarrow> 'root notifier_state \<Rightarrow> bool" where
  "notifier_inv cfg s \<longleftrightarrow> subscribers_ok cfg s \<and> batch_ok s \<and> pages_ok cfg s"

lemma notifier_genesis_inv: "notifier_inv cfg notifier_genesis"
  by (simp add: notifier_inv_def subscribers_ok_def batch_ok_def pages_ok_def notifier_genesis_def updates_in_page_def
      entries_of_def sget_or_def scontains_def)

text \<open>Operations that touch none of the three parts.\<close>

lemma subscribers_ok_cong:
  "subscribers_ok cfg s \<Longrightarrow> Subscribers s' = Subscribers s \<Longrightarrow> SubscribersWithCurrentBatch s' = SubscribersWithCurrentBatch s \<Longrightarrow>
   PendingInit s' = PendingInit s \<Longrightarrow> SealedBatchSequence s \<le> SealedBatchSequence s' \<Longrightarrow> subscribers_ok cfg s'"
  unfolding subscribers_ok_def by simp (meson le_trans)

lemma batch_ok_cong:
  "batch_ok s \<Longrightarrow> Subscribers s' = Subscribers s \<Longrightarrow> SubscribersWithCurrentBatch s' = SubscribersWithCurrentBatch s \<Longrightarrow>
   CurrentBatch s' = CurrentBatch s \<Longrightarrow> SealedBatchSequence s' = SealedBatchSequence s \<Longrightarrow> batch_ok s'"
  unfolding batch_ok_def unserved_def by (cases "CurrentBatch s") auto

lemma pages_ok_cong:
  "pages_ok cfg s \<Longrightarrow> PendingUpdates s' = PendingUpdates s \<Longrightarrow> PageUpdatesCount s' = PageUpdatesCount s \<Longrightarrow>
   PageState s' = PageState s \<Longrightarrow> pages_ok cfg s'"
  by (simp add: pages_ok_def updates_in_page_def)

lemma sent_only_inv: "notifier_inv cfg s \<Longrightarrow> sent_only ms s s' \<Longrightarrow> notifier_inv cfg s'"
  unfolding notifier_inv_def
  by (auto elim!: subscribers_ok_cong batch_ok_cong pages_ok_cong simp: sent_onlyD)

lemma notifier_deposit_inv [simp]: "notifier_inv cfg (notifier_deposit e s) = notifier_inv cfg s"
  unfolding notifier_inv_def notifier_deposit_def
  by (auto elim!: subscribers_ok_cong batch_ok_cong pages_ok_cong)

subsection \<open>Counting\<close>

lemma ssum_change_at:
  assumes "wf_storage m" and "sget m k = Some v" and "\<And>x. x \<in> set m \<Longrightarrow> fst x \<noteq> k \<Longrightarrow> g x = f x"
  shows "ssum g m + f (k, v) = ssum f m + g (k, v)"
  using assms
proof (induction m)
  case (Cons x m)
  show ?case
  proof (cases "fst x = k")
    case True
    then have x: "x = (k, v)" using Cons.prems(2) by (cases x) (simp add: sget_Cons)
    have "fst y \<noteq> k" if "y \<in> set m" for y using that Cons.prems(1) True by (auto simp: wf_storage_def) (metis image_eqI)
    then have "ssum g m = ssum f m" using Cons.prems(3) by (simp add: ssum_def cong: map_cong)
    then show ?thesis using x by simp
  next
    case False
    then have "ssum g m + f (k, v) = ssum f m + g (k, v)"
      using Cons.prems by (intro Cons.IH) (simp_all add: sget_Cons wf_storage_def)
    then show ?thesis using Cons.prems(3) [of x] False by simp
  qed
qed simp

lemma ssum_cong: "(\<And>x. x \<in> set m \<Longrightarrow> g x = f x) \<Longrightarrow> ssum g m = ssum f m"
  by (simp add: ssum_def cong: map_cong)

lemma served_bounded:
  assumes "subscribers_ok cfg s"
  shows "length (SubscribersWithCurrentBatch s) \<le> nc_MaxSubscribers cfg"
proof -
  have sub: "fst ` set (SubscribersWithCurrentBatch s) \<subseteq> fst ` set (Subscribers s)"
    using assms by (auto simp: subscribers_ok_def scontains_def sget_None_iff)
  have "length (SubscribersWithCurrentBatch s) = card (fst ` set (SubscribersWithCurrentBatch s))"
    using assms distinct_card [of "map fst (SubscribersWithCurrentBatch s)"] by (simp add: subscribers_ok_def wf_storage_def)
  also have "\<dots> \<le> card (fst ` set (Subscribers s))" using sub by (intro card_mono) simp_all
  also have "\<dots> \<le> length (Subscribers s)" using card_image_le [of "set (Subscribers s)" fst] card_length le_trans by blast
  finally show ?thesis using assms by (simp add: subscribers_ok_def)
qed

lemma clear_batch_inv:
  assumes "subscribers_ok cfg s" and "pages_ok cfg s"
  shows "notifier_inv cfg (clear_batch cfg s)"
proof -
  have [simp]: "sclear (nc_MaxSubscribers cfg) (SubscribersWithCurrentBatch s) = []"
    using served_bounded [OF assms(1)] by (simp add: sclear_def)
  have "subscribers_ok cfg (clear_batch cfg s)" using assms(1) by (simp add: subscribers_ok_def clear_batch_def scontains_def)
  moreover have "pages_ok cfg (clear_batch cfg s)" using assms(2) by (rule pages_ok_cong) (simp_all add: clear_batch_def)
  ultimately show ?thesis by (simp add: notifier_inv_def batch_ok_def clear_batch_def)
qed

lemma unserved_served:
  assumes wf: "wf_storage (Subscribers s)" and info: "sget (Subscribers s) p = Some info"
    and counted: "si_last_init info < q" "\<not> scontains (SubscribersWithCurrentBatch s) p"
  shows "unserved (s\<lparr>SubscribersWithCurrentBatch := sput p () (SubscribersWithCurrentBatch s)\<rparr>) q = unserved s q - 1"
    and "0 < unserved s q"
proof -
  let ?S = "SubscribersWithCurrentBatch s"
  have "ssum (awaits q (sput p () ?S)) (Subscribers s) + awaits q ?S (p, info) = ssum (awaits q ?S) (Subscribers s) + awaits q (sput p () ?S) (p, info)"
    using wf info by (rule ssum_change_at) (auto simp: awaits_def)
  then show "unserved (s\<lparr>SubscribersWithCurrentBatch := sput p () ?S\<rparr>) q = unserved s q - 1" and "0 < unserved s q"
    using counted by (simp_all add: unserved_def awaits_def)
qed

lemma subscribers_served:
  "subscribers_ok cfg s \<Longrightarrow> sget (Subscribers s) p = Some info \<Longrightarrow>
   subscribers_ok cfg (s\<lparr>SubscribersWithCurrentBatch := sput p () (SubscribersWithCurrentBatch s)\<rparr>)"
  by (simp add: subscribers_ok_def scontains_def)

lemma mark_served_inv:
  assumes inv: "notifier_inv cfg s" and b: "CurrentBatch s = Some b" and info: "sget (Subscribers s) p = Some info"
    and counted: "si_last_init info < bd_sequence b" "\<not> scontains (SubscribersWithCurrentBatch s) p"
  shows "notifier_inv cfg (mark_served cfg p b s)"
proof -
  define s1 where "s1 = s\<lparr>SubscribersWithCurrentBatch := sput p () (SubscribersWithCurrentBatch s)\<rparr>"
  have sub: "subscribers_ok cfg s1" using inv info by (simp add: s1_def notifier_inv_def subscribers_served)
  have pages: "pages_ok cfg s1" using inv unfolding notifier_inv_def by (auto elim!: pages_ok_cong simp: s1_def)
  have rem: "bd_sequence b = SealedBatchSequence s" "bd_remaining b = unserved s (bd_sequence b)"
    using inv b by (simp_all add: notifier_inv_def batch_ok_def)
  have un: "unserved s1 (bd_sequence b) = unserved s (bd_sequence b) - 1"
    using inv info counted unfolding s1_def by (intro unserved_served) (auto simp: notifier_inv_def subscribers_ok_def)
  show ?thesis
  proof (cases "bd_remaining b - 1 = 0")
    case True
    then have "mark_served cfg p b s = clear_batch cfg s1" by (simp add: mark_served_def s1_def)
    then show ?thesis using clear_batch_inv [OF sub pages] by simp
  next
    case False
    then have m: "mark_served cfg p b s = s1\<lparr>CurrentBatch := Some (b\<lparr>bd_remaining := bd_remaining b - 1\<rparr>)\<rparr>"
      by (simp add: mark_served_def s1_def)
    have "batch_ok (mark_served cfg p b s)"
      using rem un False by (simp add: m batch_ok_def) (simp add: unserved_def s1_def)
    moreover have "subscribers_ok cfg (mark_served cfg p b s)" "pages_ok cfg (mark_served cfg p b s)"
      using sub pages by (auto elim!: subscribers_ok_cong pages_ok_cong simp: m)
    ultimately show ?thesis by (simp add: notifier_inv_def)
  qed
qed

subsection \<open>Pages\<close>

lemma entries_of_sput:
  "wf_storage m \<Longrightarrow> \<not> scontains m (q, i, r) \<Longrightarrow> entries_of p (sput (q, i, r) () m) = entries_of p m + (if q = p then 1 else 0)"
  using ssum_sput [of m "\<lambda>x. if fst (fst x) = p then 1 else 0" "(q, i, r)" "()"]
  by (cases "sget m (q, i, r)") (auto simp: entries_of_def scontains_def)

lemma sclear_prefix_all:
  "ssum (\<lambda>x. if P (fst x) then 1 else 0) m \<le> n \<Longrightarrow> sclear_prefix P n m = filter (\<lambda>x. \<not> P (fst x)) m"
  by (induction m arbitrary: n) auto

lemma ssum_filter: "ssum f (filter P m) = ssum (\<lambda>x. if P x then f x else 0) m"
  by (induction m) auto

lemma wf_filter: "wf_storage m \<Longrightarrow> wf_storage (filter P m)"
  by (induction m) (auto simp: wf_storage_def)

lemma cleanup_pending:
  assumes "pages_ok cfg s"
  shows "PendingUpdates (cleanup_send_buffer cfg env p s) = filter (\<lambda>x. fst (fst x) \<noteq> p) (PendingUpdates s)"
proof -
  have eq: "(\<lambda>(q, _, _). q = p) = (\<lambda>k. fst k = p)" by (auto simp: fun_eq_iff)
  have "ssum (\<lambda>x. if fst (fst x) = p then 1 else 0) (PendingUpdates s) \<le> nc_MaxUpdatesPerBatch cfg"
    using assms by (auto simp: pages_ok_def entries_of_def dest!: spec [of _ p])
  then show ?thesis unfolding cleanup_send_buffer_def eq using sclear_prefix_all [of "\<lambda>k. fst k = p"] by simp
qed

lemma entries_of_filter: "entries_of q (filter (\<lambda>x. fst (fst x) \<noteq> p) m) = (if q = p then 0 else entries_of q m)"
  unfolding entries_of_def ssum_filter by (cases "q = p") (auto intro!: ssum_eq_0 ssum_cong)

text \<open>Moving the window of the pages on by one.\<close>

lemma word_window_shrink:
  fixes p send wr :: "16 word"
  assumes "p - send \<le> wr - send" and "p \<noteq> send"
  shows "p - (send + 1) \<le> wr - (send + 1)"
proof -
  have "p - send \<noteq> 0" "wr - send \<noteq> 0" using assms by auto
  then have "unat (p - send - 1) = unat (p - send) - 1" "unat (wr - send - 1) = unat (wr - send) - 1"
    by (simp_all add: unat_minus_one)
  then show ?thesis using assms(1) unfolding diff_diff_eq [symmetric] word_le_nat_alt by simp
qed

lemma word_window_grow:
  fixes p send wr :: "16 word"
  assumes "wr + 1 \<noteq> send"
  shows "wr - send \<le> wr + 1 - send" and "wr + 1 - send \<noteq> 0" and "\<not> wr + 1 - send \<le> wr - send"
proof -
  have e: "wr + 1 - send = 1 + (wr - send)" by (simp add: algebra_simps)
  show ne: "wr + 1 - send \<noteq> 0" unfolding right_minus_eq by (rule assms)
  then have "unat (1 + (wr - send)) = Suc (unat (wr - send))" unfolding e by (rule unatSuc)
  then show "wr - send \<le> wr + 1 - send" "\<not> wr + 1 - send \<le> wr - send" unfolding e word_le_nat_alt by simp_all
qed

lemma note_root_change_pages:
  assumes ok: "pages_ok cfg s" and cfg: "notifier_config_ok cfg" and room: "write_page (PageState s) + 1 \<noteq> send_page (PageState s)"
  shows "pages_ok cfg (note_root_change cfg i r s)"
proof (cases "scontains (PendingUpdates s) (write_page (PageState s), i, r)")
  case False
  let ?w = "write_page (PageState s)" and ?f = "send_page (PageState s)"
  define full where "full = (updates_in_page s ?w \<ge> nc_MaxUpdatesPerBatch cfg)"
  define w' where "w' = (if full then ?w + 1 else ?w)"
  let ?s' = "note_root_change cfg i r s"
  have win: "updates_in_page s p \<noteq> 0 \<Longrightarrow> p - ?f \<le> ?w - ?f" for p using ok by (simp add: pages_ok_def)
  have "updates_in_page s (?w + 1) = 0" using win [of "?w + 1"] word_window_grow(3) [OF room] by blast
  then have less: "updates_in_page s w' < nc_MaxUpdatesPerBatch cfg" using cfg by (auto simp: w'_def full_def notifier_config_ok_def)
  have eq: "PendingUpdates ?s' = sput (w', i, r) () (PendingUpdates s)" "write_page (PageState ?s') = w'"
    "send_page (PageState ?s') = ?f"
    "updates_in_page ?s' p = (if p = w' then updates_in_page s w' + 1 else updates_in_page s p)" for p
    using False less cfg by (auto simp: note_root_change_def Let_def w'_def full_def updates_in_page_def notifier_config_ok_def)
  have grow: "?w - ?f \<le> w' - ?f" using word_window_grow(1) [OF room] by (simp add: w'_def)
  have new: "\<not> scontains (PendingUpdates s) (w', i, r)"
  proof
    assume a: "scontains (PendingUpdates s) (w', i, r)"
    then have "full" using False w'_def by (auto split: if_splits)
    then have "w' = ?w + 1" by (simp add: w'_def)
    then have "entries_of w' (PendingUpdates s) = 0" using \<open>updates_in_page s (?w + 1) = 0\<close> ok by (simp add: pages_ok_def)
    then show False
      using a entry_value_le [where f = "\<lambda>x. if fst (fst x) = w' then 1 else 0" and m = "PendingUpdates s" and k = "(w', i, r)"]
      by (auto simp: entries_of_def scontains_def)
  qed
  have cnt: "entries_of p (PendingUpdates ?s') = entries_of p (PendingUpdates s) + (if w' = p then 1 else 0)" for p
    using ok unfolding eq(1) by (intro entries_of_sput [OF _ new]) (simp add: pages_ok_def)
  have same: "updates_in_page s p = entries_of p (PendingUpdates s)" for p using ok by (simp add: pages_ok_def)
  have "updates_in_page ?s' p = entries_of p (PendingUpdates ?s')" for p by (auto simp: eq(4) cnt same)
  moreover have "entries_of p (PendingUpdates ?s') \<le> nc_MaxUpdatesPerBatch cfg" for p
    using ok less by (auto simp: cnt same pages_ok_def)
  moreover have "p - ?f \<le> w' - ?f" if "entries_of p (PendingUpdates ?s') \<noteq> 0" for p
    using that win [of p] grow by (cases "p = w'") (auto simp: cnt same intro: order_trans)
  ultimately show ?thesis using ok unfolding pages_ok_def eq(2,3) by (simp add: eq(1))
qed (use ok in \<open>simp add: note_root_change_def\<close>)

lemma note_root_change_frame [simp]:
  "Subscribers (note_root_change cfg i r s) = Subscribers s"
  "SubscribersWithCurrentBatch (note_root_change cfg i r s) = SubscribersWithCurrentBatch s"
  "PendingInit (note_root_change cfg i r s) = PendingInit s" "CurrentBatch (note_root_change cfg i r s) = CurrentBatch s"
  "SealedBatchSequence (note_root_change cfg i r s) = SealedBatchSequence s" "outbox (note_root_change cfg i r s) = outbox s"
  "SealedBatchIndices (note_root_change cfg i r s) = SealedBatchIndices s"
  by (simp_all add: note_root_change_def Let_def)

lemma note_root_change_inv:
  "notifier_inv cfg s \<Longrightarrow> notifier_config_ok cfg \<Longrightarrow> write_page (PageState s) + 1 \<noteq> send_page (PageState s) \<Longrightarrow>
   notifier_inv cfg (note_root_change cfg i r s)"
  unfolding notifier_inv_def by (auto intro: note_root_change_pages elim!: subscribers_ok_cong batch_ok_cong)

end
