(* ===== verification/Notifier_Steps.thy ===== *)
theory Notifier_Steps
  imports Notifier_Inv
begin

text \<open>Every step of the notifier keeps its invariant.\<close>

subsection \<open>Subscriptions\<close>

lemma register_for_init_inv:
  assumes inv: "notifier_inv cfg s" and new: "\<not> scontains (Subscribers s) p" and room: "length (Subscribers s) < nc_MaxSubscribers cfg"
    and sorted: "ascending (map fst cs)"
  shows "notifier_inv cfg (register_for_init env p cs idx s)"
proof -
  let ?s' = "register_for_init env p cs idx s" and ?info = "\<lparr>si_collections = cs, si_last_init = SealedBatchSequence s, si_pallet_index = idx\<rparr>"
  have sub: "subscribers_ok cfg s" "batch_ok s" "pages_ok cfg s" using inv by (simp_all add: notifier_inv_def)
  have "unserved ?s' q = unserved s q" if "q = SealedBatchSequence s" for q
    using ssum_sput [of "Subscribers s" "awaits q (SubscribersWithCurrentBatch s)" p ?info] sub(1) new that
    by (simp add: unserved_def register_for_init_def awaits_def subscribers_ok_def scontains_def)
  then have "batch_ok ?s'" using sub(2) by (auto simp: batch_ok_def register_for_init_def split: option.splits)
  moreover have "subscribers_ok cfg ?s'"
    using sub(1) room sorted length_sput_new [OF new] by (auto simp: subscribers_ok_def register_for_init_def)
  moreover have "pages_ok cfg ?s'" using sub(3) by (rule pages_ok_cong) (simp_all add: register_for_init_def)
  ultimately show ?thesis by (simp add: notifier_inv_def)
qed

text \<open>A subscriber leaves: first its entries, then its part of the batch.\<close>

lemma unsubscribed_inv:
  assumes inv: "notifier_inv cfg s" and info: "sget (Subscribers s) p = Some info"
    and s1: "Subscribers s1 = sdel p (Subscribers s)" "PendingInit s1 = sdel p (PendingInit s)"
      "SubscribersWithCurrentBatch s1 = SubscribersWithCurrentBatch s" "CurrentBatch s1 = CurrentBatch s"
      "SealedBatchSequence s1 = SealedBatchSequence s" and pages: "pages_ok cfg s1"
  shows "notifier_inv cfg (leave_batch cfg p info s1)"
proof -
  let ?S = "SubscribersWithCurrentBatch s"
  have sub: "subscribers_ok cfg s" "batch_ok s" using inv by (simp_all add: notifier_inv_def)
  have count: "unserved s q = ssum (awaits q ?S) (sdel p (Subscribers s)) + awaits q ?S (p, info)" for q
    using ssum_sdel [of "Subscribers s" "awaits q ?S" p] sub(1) info by (simp add: unserved_def subscribers_ok_def)
  have sub1: "subscribers_ok cfg s1" if "\<not> scontains ?S p"
    using that sub(1) length_sdel [of p "Subscribers s"] by (auto simp: subscribers_ok_def s1)
  show ?thesis
  proof (cases "CurrentBatch s")
    case None
    then have S: "?S = []" using sub(2) by (simp add: batch_ok_def)
    then have "batch_ok s1" using None by (simp add: batch_ok_def s1)
    then show ?thesis using None sub1 S pages by (simp add: leave_batch_def s1 notifier_inv_def scontains_def)
  next
    case (Some b)
    then have b: "bd_sequence b = SealedBatchSequence s" "0 < bd_remaining b" "bd_remaining b = unserved s (bd_sequence b)"
      using sub(2) by (auto simp: batch_ok_def)
    show ?thesis
    proof (cases "scontains ?S p")
      case True
      let ?s' = "s1\<lparr>SubscribersWithCurrentBatch := sdel p ?S\<rparr>"
      have "unserved ?s' q = unserved s q" for q
      proof -
        have "ssum (awaits q (sdel p ?S)) (sdel p (Subscribers s)) = ssum (awaits q ?S) (sdel p (Subscribers s))"
        proof (rule ssum_cong)
          fix x assume "x \<in> set (sdel p (Subscribers s))"
          then have "fst x \<noteq> p" by (auto simp: sdel_def AList.delete_eq)
          then show "awaits q (sdel p ?S) x = awaits q ?S x" by (simp add: awaits_def)
        qed
        moreover have "awaits q ?S (p, info) = 0" using True by (simp add: awaits_def)
        ultimately show ?thesis using count [of q] by (simp add: unserved_def s1)
      qed
      then have "batch_ok ?s'" using b Some by (simp add: batch_ok_def s1)
      moreover have "subscribers_ok cfg ?s'"
        using sub(1) length_sdel [of p "Subscribers s"] by (auto simp: subscribers_ok_def s1)
      moreover have "pages_ok cfg ?s'" using pages by (rule pages_ok_cong) simp_all
      ultimately show ?thesis using Some True by (simp add: leave_batch_def s1 notifier_inv_def)
    next
      case False
      show ?thesis
      proof (cases "si_last_init info < bd_sequence b")
        case counted: True
        then have un: "unserved s1 (bd_sequence b) = bd_remaining b - 1"
          using count [of "bd_sequence b"] b(3) False by (simp add: unserved_def s1 awaits_def)
        show ?thesis
        proof (cases "bd_remaining b - 1 = 0")
          case True
          then have "leave_batch cfg p info s1 = clear_batch cfg s1"
            using Some False counted b by (simp add: leave_batch_def s1)
          then show ?thesis using clear_batch_inv [OF sub1 [OF False] pages] by simp
        next
          case rest: False
          then have eq: "leave_batch cfg p info s1 = s1\<lparr>CurrentBatch := Some (b\<lparr>bd_remaining := bd_remaining b - 1\<rparr>)\<rparr>"
            using Some False counted b by (simp add: leave_batch_def s1)
          have "batch_ok (leave_batch cfg p info s1)"
            using un b(1) rest unfolding eq by (simp add: batch_ok_def s1) (simp add: unserved_def s1)
          moreover have "subscribers_ok cfg (leave_batch cfg p info s1)" "pages_ok cfg (leave_batch cfg p info s1)"
            using sub1 [OF False] pages by (auto elim!: subscribers_ok_cong pages_ok_cong simp: eq)
          ultimately show ?thesis by (simp add: notifier_inv_def)
        qed
      next
        case uncounted: False
        then have eq: "leave_batch cfg p info s1 = s1" using Some False by (simp add: leave_batch_def s1)
        have "unserved s1 (bd_sequence b) = unserved s (bd_sequence b)"
          using count [of "bd_sequence b"] uncounted by (simp add: unserved_def s1 awaits_def)
        then have "batch_ok s1" using b Some by (simp add: batch_ok_def s1)
        then show ?thesis unfolding eq using sub1 [OF False] pages by (simp add: notifier_inv_def)
      qed
    qed
  qed
qed

lemma terminate_sent:
  "\<exists>ms. sent_only ms s (case send_xcm_call_to_subscriber env p c idx s of Inl _ \<Rightarrow> s | Inr s' \<Rightarrow> s') \<and> set ms \<subseteq> {(p, idx, c)}"
proof (cases "ne_router env (outbox s) (p, idx, c)")
  case True
  then have "sent_only [(p, idx, c)] s (case send_xcm_call_to_subscriber env p c idx s of Inl _ \<Rightarrow> s | Inr s' \<Rightarrow> s')"
    unfolding sent_only_def by (intro exI [of _ "notifier_events s"]) (simp add: send_xcm_call_to_subscriber_def)
  then show ?thesis by (intro exI [of _ "[(p, idx, c)]"]) simp
next
  case False
  then show ?thesis using sent_only_refl [of s] by (intro exI [of _ "[]"]) (simp add: send_xcm_call_to_subscriber_def)
qed

lemma unsubscribe_inv:
  assumes inv: "notifier_inv cfg s" and ok: "unsubscribe cfg env origin x s = Inr s'"
  shows "notifier_inv cfg s'"
proof -
  obtain p own info where info: "sget (Subscribers s) p = Some info" and or: "unsubscribe_origin origin x = Inr (p, own)"
    using ok by (auto simp: unsubscribe_def)
  define s0 where "s0 = (if \<not> own then (case send_xcm_call_to_subscriber env p TerminateSubscription (si_pallet_index info) s of
      Inl _ \<Rightarrow> s | Inr s' \<Rightarrow> s') else s)"
  obtain ms where s0: "sent_only ms s s0"
    using terminate_sent [of s env p TerminateSubscription "si_pallet_index info"] sent_only_refl [of s] unfolding s0_def by (cases own) auto
  define s1 where "s1 = s0\<lparr>LastReplayTime := fold (\<lambda>(i, _). sdel (p, i)) (si_collections info) (LastReplayTime s0),
      Subscribers := sdel p (Subscribers s0), PendingInit := sdel p (PendingInit s0)\<rparr>"
  have s': "s' = notifier_deposit (Unsubscribed p) (leave_batch cfg p info s1)"
    using ok info or by (simp add: unsubscribe_def s0_def s1_def Let_def)
  have "pages_ok cfg s1" using inv unfolding notifier_inv_def by (auto elim!: pages_ok_cong simp: s1_def sent_onlyD [OF s0])
  then have "notifier_inv cfg (leave_batch cfg p info s1)"
    by (intro unsubscribed_inv [OF inv info]) (simp_all add: s1_def sent_onlyD [OF s0])
  then show ?thesis by (simp add: s')
qed

lemma subscribe_inv: "notifier_inv cfg s \<Longrightarrow> subscribe cfg env origin p cs idx s = Inr s' \<Longrightarrow> notifier_inv cfg s'"
  by (auto simp: subscribe_def intro: register_for_init_inv)

lemma request_replay_sent:
  assumes ok: "request_replay cfg env origin p i xs s = Inr s'"
  obtains info n b L where "sget (Subscribers s) p = Some info" "get_xcm_update_batch_size cfg env p = Some n" "length xs \<le> n"
    "b = \<lparr>ub_identifier = i, ub_sequence = SealedBatchSequence s, ub_source_time = ne_now env,
       ub_updates = resolve_updates_for_indices env i xs, ub_next_ring_index = rp_next_ring_index (ne_provider env) i\<rparr>"
    "length (ub_updates b) \<le> nc_MaxUpdatesPerBatch cfg" "i \<in> fst ` set (si_collections info)"
    "s' = notifier_deposit (ReplayRequested p i (length xs))
      (s\<lparr>outbox := outbox s @ [(p, si_pallet_index info, UpdateRingRoots b)], LastReplayTime := L\<rparr>)"
proof -
  let ?us = "resolve_updates_for_indices env i xs"
  obtain info where info: "sget (Subscribers s) p = Some info" "i \<in> fst ` set (si_collections info)"
    using ok unfolding request_replay_def Let_def ensure_Inr map_err_Inr ok_or_Inr by blast
  obtain n where n: "get_xcm_update_batch_size cfg env p = Some n" "length xs \<le> n"
    using ok unfolding request_replay_def Let_def ensure_Inr map_err_Inr ok_or_Inr by blast
  let ?b = "\<lparr>ub_identifier = i, ub_sequence = SealedBatchSequence s, ub_source_time = ne_now env,
       ub_updates = ?us, ub_next_ring_index = rp_next_ring_index (ne_provider env) i\<rparr>"
  have len: "length ?us \<le> nc_MaxUpdatesPerBatch cfg"
    using ok unfolding request_replay_def Let_def ensure_Inr map_err_Inr ok_or_Inr by blast
  obtain s1 where s1: "send_updates_to_subscriber env p ?b (si_pallet_index info) s = Inr s1"
    and s': "s' = notifier_deposit (ReplayRequested p i (length xs)) (s1\<lparr>LastReplayTime := sput (p, i) (ne_now env) (LastReplayTime s1)\<rparr>)"
    using ok info unfolding request_replay_def Let_def ensure_Inr map_err_Inr ok_or_Inr on_ok_Inr by auto
  have "s1 = s\<lparr>outbox := outbox s @ [(p, si_pallet_index info, UpdateRingRoots ?b)]\<rparr>"
    using s1 by (simp add: send_updates_to_subscriber_def send_xcm_call_to_subscriber_def)
  then show thesis using that [OF info(1) n refl _ info(2)] len s' by simp
qed

lemma request_replay_inv:
  assumes inv: "notifier_inv cfg s" and ok: "request_replay cfg env origin p i xs s = Inr s'"
  shows "notifier_inv cfg s'"
  using ok
proof (rule request_replay_sent)
  fix info n b L
  assume "s' = notifier_deposit (ReplayRequested p i (length xs))
      (s\<lparr>outbox := outbox s @ [(p, si_pallet_index info, UpdateRingRoots b)], LastReplayTime := L\<rparr>)"
  then show ?thesis using inv unfolding notifier_inv_def
    by (auto elim!: subscribers_ok_cong batch_ok_cong pages_ok_cong simp: notifier_deposit_def)
qed

subsection \<open>The worker's calls\<close>

lemma bump_pages:
  assumes "pages_ok cfg s" and "send_page (PageState s) = write_page (PageState s)"
  shows "pages_ok cfg (s\<lparr>PageState := (PageState s)\<lparr>write_page := write_page (PageState s) + 1\<rparr>\<rparr>)"
proof -
  have "p = send_page (PageState s)" if "entries_of p (PendingUpdates s) \<noteq> 0" for p
    using assms that by (auto simp: pages_ok_def)
  then show ?thesis using assms by (auto simp: pages_ok_def updates_in_page_def)
qed

lemma cleanup_pages:
  assumes ok: "pages_ok cfg s" and p: "p = send_page (PageState s)"
  shows "pages_ok cfg (cleanup_send_buffer cfg env p s)"
proof -
  let ?s' = "cleanup_send_buffer cfg env p s"
  have cnt: "entries_of q (PendingUpdates ?s') = (if q = p then 0 else entries_of q (PendingUpdates s))" for q
    unfolding cleanup_pending [OF ok] by (rule entries_of_filter)
  have "q - (p + 1) \<le> write_page (PageState s) - (p + 1)" if "entries_of q (PendingUpdates ?s') \<noteq> 0" for q
  proof (rule word_window_shrink)
    show "q \<noteq> p" using that by (auto simp: cnt)
    then have "entries_of q (PendingUpdates s) \<noteq> 0" using that by (simp add: cnt)
    then show "q - p \<le> write_page (PageState s) - p" using ok unfolding p pages_ok_def by blast
  qed
  moreover have "wf_storage (PendingUpdates ?s')" unfolding cleanup_pending [OF ok] using ok by (simp add: pages_ok_def wf_filter)
  moreover have "updates_in_page ?s' q = entries_of q (PendingUpdates ?s')" for q
    using ok by (auto simp: cnt) (auto simp: updates_in_page_def cleanup_send_buffer_def pages_ok_def)
  moreover have "entries_of q (PendingUpdates ?s') \<le> nc_MaxUpdatesPerBatch cfg" for q using ok by (simp add: cnt pages_ok_def)
  ultimately show ?thesis unfolding pages_ok_def by (simp add: cleanup_send_buffer_def p)
qed

text \<open>The state in which \<open>enqueue_updates\<close> seals a page.\<close>

definition sealing :: "'root notifier_state \<Rightarrow> 'root notifier_state" where
  "sealing s = (if send_page (PageState s) = write_page (PageState s)
     then s\<lparr>PageState := (PageState s)\<lparr>write_page := write_page (PageState s) + 1\<rparr>\<rparr> else s)"

lemma sealing_pages: "pages_ok cfg s \<Longrightarrow> pages_ok cfg (sealing s)"
  by (simp add: sealing_def bump_pages)

lemma sealing_frame [simp]:
  "PendingUpdates (sealing s) = PendingUpdates s" "send_page (PageState (sealing s)) = send_page (PageState s)"
  "Subscribers (sealing s) = Subscribers s" "PendingInit (sealing s) = PendingInit s" "CurrentBatch (sealing s) = CurrentBatch s"
  "SubscribersWithCurrentBatch (sealing s) = SubscribersWithCurrentBatch s" "SealedBatchSequence (sealing s) = SealedBatchSequence s"
  "outbox (sealing s) = outbox s" "SealedBatchIndices (sealing s) = SealedBatchIndices s"
  by (simp_all add: sealing_def)

lemma enqueue_updates_eq:
  assumes "enqueue_updates cfg env Authorized s = Inr s'"
  shows "s' = (if Subscribers s = [] then cleanup_send_buffer cfg env (send_page (PageState s)) (sealing s)
    else (cleanup_send_buffer cfg env (send_page (PageState s)) ((sealing s)\<lparr>SealedBatchSequence := sat_add u64_max (SealedBatchSequence s) 1,
      SealedBatchIndices := fold (\<lambda>(i, indices). sput i (take (nc_MaxUpdatesPerBatch cfg) indices))
        (changed_indices (page_entries (send_page (PageState s)) s)) (SealedBatchIndices s)\<rparr>))
      \<lparr>CurrentBatch := Some \<lparr>bd_sequence = sat_add u64_max (SealedBatchSequence s) 1, bd_source_time = ne_now env,
         bd_sealed_at = ne_block env, bd_remaining = length (Subscribers s)\<rparr>\<rparr>)"
proof -
  have "page_entries p (x\<lparr>PageState := y\<rparr>) = page_entries p x" "page_entries p (x\<lparr>SealedBatchSequence := z\<rparr>) = page_entries p x"
    for p z y and x :: "'a notifier_state"
    by (simp_all add: page_entries_def)
  then show ?thesis using assms
    by (auto simp: enqueue_updates_def seal_and_start_batch_def sealing_def Let_def split: if_splits)
qed

lemma cleanup_frame [simp]:
  "Subscribers (cleanup_send_buffer cfg env p s) = Subscribers s" "PendingInit (cleanup_send_buffer cfg env p s) = PendingInit s"
  "CurrentBatch (cleanup_send_buffer cfg env p s) = CurrentBatch s" "outbox (cleanup_send_buffer cfg env p s) = outbox s"
  "SubscribersWithCurrentBatch (cleanup_send_buffer cfg env p s) = SubscribersWithCurrentBatch s"
  "SealedBatchSequence (cleanup_send_buffer cfg env p s) = SealedBatchSequence s"
  "SealedBatchIndices (cleanup_send_buffer cfg env p s) = SealedBatchIndices s"
  by (simp_all add: cleanup_send_buffer_def)

lemma ssum_all_one: "(\<And>x. x \<in> set m \<Longrightarrow> f x = 1) \<Longrightarrow> ssum f m = length m"
  by (induction m) auto

lemma enqueue_updates_inv:
  assumes inv: "notifier_inv cfg s" and none: "CurrentBatch s = None" and room: "SealedBatchSequence s < u64_max"
    and ok: "enqueue_updates cfg env Authorized s = Inr s'"
  shows "notifier_inv cfg s'"
proof -
  have sub: "subscribers_ok cfg s" "pages_ok cfg s" and S: "SubscribersWithCurrentBatch s = []"
    using inv none by (simp_all add: notifier_inv_def batch_ok_def)
  show ?thesis
  proof (cases "Subscribers s = []")
    case True
    then have s': "s' = cleanup_send_buffer cfg env (send_page (PageState s)) (sealing s)" using enqueue_updates_eq [OF ok] by simp
    have "pages_ok cfg s'" unfolding s' by (intro cleanup_pages sealing_pages sub) simp
    moreover have "subscribers_ok cfg s'" by (rule subscribers_ok_cong [OF sub(1)]) (simp_all add: s')
    ultimately show ?thesis using none S by (simp add: notifier_inv_def batch_ok_def s')
  next
    case False
    define I where "I = fold (\<lambda>(i, indices). sput i (take (nc_MaxUpdatesPerBatch cfg) indices))
        (changed_indices (page_entries (send_page (PageState s)) s)) (SealedBatchIndices s)"
    define s1 where "s1 = (sealing s)\<lparr>SealedBatchSequence := SealedBatchSequence s + 1, SealedBatchIndices := I\<rparr>"
    define b where "b = \<lparr>bd_sequence = SealedBatchSequence s + 1, bd_source_time = ne_now env,
         bd_sealed_at = ne_block env, bd_remaining = length (Subscribers s)\<rparr>"
    have s': "s' = (cleanup_send_buffer cfg env (send_page (PageState s)) s1)\<lparr>CurrentBatch := Some b\<rparr>"
      using enqueue_updates_eq [OF ok] False room by (simp add: s1_def I_def b_def)
    have "pages_ok cfg s1" using sealing_pages [OF sub(2)] by (rule pages_ok_cong) (simp_all add: s1_def)
    then have "pages_ok cfg (cleanup_send_buffer cfg env (send_page (PageState s)) s1)"
      by (rule cleanup_pages) (simp add: s1_def)
    then have "pages_ok cfg s'" by (rule pages_ok_cong) (simp_all add: s')
    moreover have "subscribers_ok cfg s'" by (rule subscribers_ok_cong [OF sub(1)]) (simp_all add: s' s1_def)
    moreover have "unserved s' (SealedBatchSequence s + 1) = length (Subscribers s)"
      unfolding unserved_def
    proof -
      have "ssum (awaits (SealedBatchSequence s + 1) []) (Subscribers s) = length (Subscribers s)"
      proof (rule ssum_all_one)
        fix x assume x: "x \<in> set (Subscribers s)"
        then have "sget (Subscribers s) (fst x) = Some (snd x)" using sub(1) by (intro in_set_sget) (simp_all add: subscribers_ok_def)
        then have "si_last_init (snd x) \<le> SealedBatchSequence s" using sub(1) by (simp add: subscribers_ok_def)
        then show "awaits (SealedBatchSequence s + 1) [] x = 1" by (simp add: awaits_def scontains_def)
      qed
      then show "ssum (awaits (SealedBatchSequence s + 1) (SubscribersWithCurrentBatch s')) (Subscribers s') = length (Subscribers s)"
        using S by (simp add: s' s1_def)
    qed
    ultimately show ?thesis using False by (simp add: notifier_inv_def batch_ok_def s' b_def s1_def)
  qed
qed

lemma send_batch_eq:
  assumes "send_batch cfg env Authorized p q s = Inr s'"
  obtains b info where "CurrentBatch s = Some b" "sget (Subscribers s) p = Some info"
    "(case get_xcm_update_batch_size cfg env p of None \<Rightarrow> 0 | Some n \<Rightarrow> n) = 0"
    "s' = mark_served cfg p b (notifier_deposit (UpdateSendFailed p) s)"
  | b info n failed s1 where "CurrentBatch s = Some b" "sget (Subscribers s) p = Some info"
    "get_xcm_update_batch_size cfg env p = Some n" "0 < n"
    "send_collections cfg env p (si_pallet_index info) n q (bd_source_time b) (si_collections info) False s = (failed, s1)"
    "s' = (if failed then s1 else mark_served cfg p b s1)"
proof -
  let ?n = "case get_xcm_update_batch_size cfg env p of None \<Rightarrow> 0 | Some n \<Rightarrow> n"
  obtain b info where b: "CurrentBatch s = Some b" "sget (Subscribers s) p = Some info" using assms by (auto simp: send_batch_def)
  show thesis
  proof (cases "?n = 0")
    case True
    then show thesis using that(1) [OF b True] assms b by (simp add: send_batch_def)
  next
    case False
    then obtain n where n: "get_xcm_update_batch_size cfg env p = Some n" "0 < n" by (auto split: option.splits)
    obtain failed s1 where run: "send_collections cfg env p (si_pallet_index info) n q (bd_source_time b) (si_collections info) False s = (failed, s1)"
      by fastforce
    have "s' = (if failed then s1 else mark_served cfg p b s1)" using assms b n run by (auto simp: send_batch_def)
    then show thesis by (rule that(2) [OF b n run])
  qed
qed

lemma send_chunks_only: "\<exists>ms. sent_only ms s (snd (send_chunks cfg env p idx mk cs f s)) \<and> (\<forall>m \<in> set ms. fst m = p)"
  using send_chunks_sent [of cfg env p idx mk cs f s "fst (send_chunks cfg env p idx mk cs f s)" "snd (send_chunks cfg env p idx mk cs f s)"]
  by fastforce

lemma send_collections_only:
  "send_collections cfg env p idx n q t cs f s = (f', s') \<Longrightarrow> \<exists>ms. sent_only ms s s' \<and> (\<forall>m \<in> set ms. fst m = p)"
proof (induction cs arbitrary: f s)
  case Nil
  then show ?case using sent_only_refl [of s] by (intro exI [of _ "[]"]) simp
next
  case (Cons c cs)
  show ?case
  proof (cases "sget (SealedBatchIndices s) (fst c) \<in> {None, Some []}")
    case True
    then have "send_collections cfg env p idx n q t cs f s = (f', s')" using Cons.prems by (cases c) auto
    then show ?thesis by (rule Cons.IH)
  next
    case False
    then obtain xs where xs: "sget (SealedBatchIndices s) (fst c) = Some xs" "xs \<noteq> []" by auto
    define ch where "ch = send_chunks cfg env p idx (\<lambda>chunk. \<lparr>ub_identifier = fst c, ub_sequence = q, ub_source_time = t,
        ub_updates = chunk, ub_next_ring_index = rp_next_ring_index (ne_provider env) (fst c)\<rparr>)
        (chunks_of n (resolve_updates_for_indices env (fst c) xs)) f s"
    have "send_collections cfg env p idx n q t cs (fst ch) (snd ch) = (f', s')"
      using Cons.prems xs by (cases c) (simp add: ch_def Let_def case_prod_beta)
    from Cons.IH [OF this] obtain ms where ms: "sent_only ms (snd ch) s'" "\<forall>m \<in> set ms. fst m = p" by blast
    obtain ns where ns: "sent_only ns s (snd ch)" "\<forall>m \<in> set ns. fst m = p" unfolding ch_def using send_chunks_only by blast
    show ?thesis using sent_only_trans [OF ns(1) ms(1)] ns(2) ms(2) by (intro exI [of _ "ns @ ms"]) auto
  qed
qed

lemma send_batch_inv:
  assumes inv: "notifier_inv cfg s" and auth: "authorize_send_batch env src p q s = Inr x"
    and ok: "send_batch cfg env Authorized p q s = Inr s'"
  shows "notifier_inv cfg s'"
proof -
  obtain b info where b: "CurrentBatch s = Some b" "sget (Subscribers s) p = Some info"
    "si_last_init info < bd_sequence b" "\<not> scontains (SubscribersWithCurrentBatch s) p"
    using auth by (auto simp: authorize_send_batch_def ensure_local_source_def split: if_splits)
  show ?thesis
    using ok
  proof (cases rule: send_batch_eq)
    case (1 b' info')
    define s0 where "s0 = notifier_deposit (UpdateSendFailed p) s"
    have s': "s' = mark_served cfg p b s0" using 1 b by (simp add: s0_def)
    have "CurrentBatch s0 = Some b" "sget (Subscribers s0) p = Some info" "\<not> scontains (SubscribersWithCurrentBatch s0) p"
      using b by (simp_all add: s0_def notifier_deposit_def)
    moreover have "notifier_inv cfg s0" using inv by (simp add: s0_def)
    ultimately show ?thesis unfolding s' using b(3) by (intro mark_served_inv [where info = info])
  next
    case (2 b' info' n failed s1)
    obtain ms where ms: "sent_only ms s s1" using send_collections_only [OF 2(5)] by blast
    have i1: "notifier_inv cfg s1" using sent_only_inv [OF inv ms] .
    have "notifier_inv cfg (mark_served cfg p b s1)"
      by (rule mark_served_inv [OF i1, where info = info]) (use b in \<open>simp_all add: sent_onlyD [OF ms]\<close>)
    then show ?thesis using i1 2 b by simp
  qed
qed

lemma send_init_page_eq:
  assumes "send_init_page cfg env Authorized p s = Inr s'"
  obtains "s' = s"
  | st where "sget (PendingInit s) p = Some st" "\<not> pi_current st < length (pi_collections st)" "s' = s\<lparr>PendingInit := sdel p (PendingInit s)\<rparr>"
  | st n i e roots s1 where "sget (PendingInit s) p = Some st" "get_xcm_update_batch_size cfg env p = Some n"
    "pi_current st < length (pi_collections st)" "pi_collections st ! pi_current st = (i, e)"
    "roots = rp_get_ring_roots_paginated (ne_provider env) i (pi_after st) n"
    "s1 = s\<lparr>outbox := outbox s @ [(p, pi_pallet_index st, InitializeRingRoots e (build_init_batch cfg env st i roots))]\<rparr>"
    "s' = advance_init_pagination p st (length (pi_collections st)) (length roots = n)
       (if roots = [] then None else Some (fst (last roots))) s1"
proof -
  obtain st where st: "sget (PendingInit s) p = Some st" using assms by (auto simp: send_init_page_def)
  show thesis
  proof (cases "get_xcm_update_batch_size cfg env p")
    case None
    then show thesis using assms st that(1) by (simp add: send_init_page_def max_updates_per_xcm_def)
  next
    case (Some n)
    show thesis
    proof (cases "pi_current st < length (pi_collections st)")
      case False
      then show thesis using assms st Some that(2) by (simp add: send_init_page_def max_updates_per_xcm_def)
    next
      case True
      obtain i e where ie: "pi_collections st ! pi_current st = (i, e)" by fastforce
      define roots where "roots = rp_get_ring_roots_paginated (ne_provider env) i (pi_after st) n"
      define m where "m = (p, pi_pallet_index st, InitializeRingRoots e (build_init_batch cfg env st i roots))"
      show thesis
      proof (cases "ne_router env (outbox s) m")
        case False
        then have "s' = s" using assms st Some True ie
          by (simp add: send_init_page_def max_updates_per_xcm_def Let_def send_initialize_ring_roots_def send_xcm_call_to_subscriber_def m_def roots_def)
        then show thesis by (rule that(1))
      next
        case route: True
        show thesis
        proof (rule that(3) [OF st Some True ie refl refl])
          show "s' = advance_init_pagination p st (length (pi_collections st)) (length (rp_get_ring_roots_paginated (ne_provider env) i (pi_after st) n) = n)
            (if rp_get_ring_roots_paginated (ne_provider env) i (pi_after st) n = [] then None
             else Some (fst (last (rp_get_ring_roots_paginated (ne_provider env) i (pi_after st) n))))
            (s\<lparr>outbox := outbox s @ [(p, pi_pallet_index st, InitializeRingRoots e (build_init_batch cfg env st i
               (rp_get_ring_roots_paginated (ne_provider env) i (pi_after st) n)))]\<rparr>)"
            using assms st Some True ie route
            by (simp add: send_init_page_def max_updates_per_xcm_def Let_def send_initialize_ring_roots_def send_xcm_call_to_subscriber_def m_def roots_def)
        qed
      qed
    qed
  qed
qed

lemma init_only_inv:
  assumes inv: "notifier_inv cfg s" and s': "s' = s\<lparr>outbox := ob, PendingInit := P\<rparr>"
    and P: "\<And>q st. sget P q = Some st \<Longrightarrow> \<exists>st0. sget (PendingInit s) q = Some st0 \<and> pi_collections st = pi_collections st0 \<and>
      pi_sequence st = pi_sequence st0 \<and> pi_pallet_index st = pi_pallet_index st0"
  shows "notifier_inv cfg s'"
proof -
  have "subscribers_ok cfg s'" using inv unfolding notifier_inv_def subscribers_ok_def s' by simp (metis P)
  moreover have "batch_ok s'" "pages_ok cfg s'" using inv unfolding notifier_inv_def by (auto elim!: batch_ok_cong pages_ok_cong simp: s')
  ultimately show ?thesis by (simp add: notifier_inv_def)
qed

lemma advance_init_form:
  assumes "sget (PendingInit s) p = Some st"
  shows "\<exists>P. advance_init_pagination p st tot full k s = s\<lparr>PendingInit := P\<rparr> \<and>
    (\<forall>q st'. sget P q = Some st' \<longrightarrow> (\<exists>st0. sget (PendingInit s) q = Some st0 \<and> pi_collections st' = pi_collections st0 \<and>
      pi_sequence st' = pi_sequence st0 \<and> pi_pallet_index st' = pi_pallet_index st0))"
proof -
  consider (full) full | (next_collection) "\<not> full" "pi_current st < tot - 1" | (finished) "\<not> full" "\<not> pi_current st < tot - 1" by blast
  then show ?thesis
  proof cases
    case full
    then show ?thesis using assms
      by (intro exI [of _ "sput p (st\<lparr>pi_after := k\<rparr>) (PendingInit s)"]) (auto simp: advance_init_pagination_def)
  next
    case next_collection
    then show ?thesis using assms
      by (intro exI [of _ "sput p (st\<lparr>pi_current := sat_add u32_max (pi_current st) 1, pi_after := None\<rparr>) (PendingInit s)"])
         (auto simp: advance_init_pagination_def)
  next
    case finished
    then show ?thesis using assms by (intro exI [of _ "sdel p (PendingInit s)"]) (auto simp: advance_init_pagination_def)
  qed
qed

lemma send_init_page_inv:
  assumes inv: "notifier_inv cfg s" and ok: "send_init_page cfg env Authorized p s = Inr s'"
  shows "notifier_inv cfg s'"
  using ok
proof (cases rule: send_init_page_eq)
  case (2 st)
  then show ?thesis using inv by (intro init_only_inv [OF inv, where ob = "outbox s" and P = "sdel p (PendingInit s)"]) (auto split: if_splits)
next
  case (3 st n i e roots s1)
  then have st: "sget (PendingInit s1) p = Some st" by simp
  obtain P where P: "s' = s1\<lparr>PendingInit := P\<rparr>" "\<And>q st'. sget P q = Some st' \<Longrightarrow> (\<exists>st0. sget (PendingInit s1) q = Some st0 \<and>
     pi_collections st' = pi_collections st0 \<and> pi_sequence st' = pi_sequence st0 \<and> pi_pallet_index st' = pi_pallet_index st0)"
    using advance_init_form [OF st] unfolding 3(7) by blast
  show ?thesis by (rule init_only_inv [OF inv, where ob = "outbox s1" and P = P]) (use P 3(6) in auto)
qed (use inv in simp)

lemma abandon_inv: "notifier_inv cfg s \<Longrightarrow> abandon_stuck_batch cfg Authorized s = Inr s' \<Longrightarrow> notifier_inv cfg s'"
  by (auto simp: abandon_stuck_batch_def intro: clear_batch_inv simp: notifier_inv_def [of cfg s])

lemma notifier_step_inv:
  assumes cfg: "notifier_config_ok cfg" and inv: "notifier_inv cfg s" and guard: "notifier_guard cfg x s"
    and ok: "notifier_step cfg x s = Inr s'"
  shows "notifier_inv cfg s'"
proof -
  obtain env y where x: "x = (env, y)" by fastforce
  show ?thesis
  proof (cases y)
    case (Worker src c)
    then obtain v where auth: "notifier_authorize cfg env src c s = Inr v" and d: "notifier_dispatch cfg env c s = Inr s'"
      using ok x by auto
    show ?thesis
    proof (cases c)
      case (EnqueueUpdates pg d')
      then have "CurrentBatch s = None" using auth by (auto simp: authorize_enqueue_updates_def ensure_local_source_def split: if_splits)
      then show ?thesis using enqueue_updates_inv [OF inv] d guard x Worker EnqueueUpdates by simp
    next
      case (SendBatch p q d')
      then show ?thesis using send_batch_inv [OF inv] auth d by simp
    next
      case (SendInitPage p c k d')
      then show ?thesis using send_init_page_inv [OF inv] d by simp
    next
      case (AbandonStuckBatch d')
      then show ?thesis using abandon_inv [OF inv] d by simp
    qed
  next
    case (RootChange i r)
    then show ?thesis using note_root_change_inv [OF inv cfg] guard ok x by auto
  qed (use ok x inv subscribe_inv unsubscribe_inv request_replay_inv in \<open>auto\<close>)
qed

interpretation notifier: pallet_contract "notifier_step cfg" "\<lambda>s. notifier_config_ok cfg \<and> notifier_inv cfg s" "notifier_guard cfg" for cfg
  by unfold_locales (auto intro: notifier_step_inv)

end
