(* ===== verification/Replication.thy ===== *)
theory Replication
  imports Notifier_Steps
begin

text \<open>
  The members pallet, the notifier and one subscriber chain as one system. A step is a call of one of
  the pallets or the delivery of the next message to the subscriber; the announcements of a members call
  reach the notifier in the same step. Messages to the subscriber are delivered in the order in
  which the router took them.
\<close>

subsection \<open>The system\<close>

record ('m, 'root, 'inter, 'c) feed_config =
  fc_members :: "('m, 'root, 'inter, 'c) members_config"
  fc_notifier :: notifier_config
  fc_subscriber :: subscriber_config
  fc_pallet :: nat
  fc_hashed :: "coll_id \<Rightarrow> nat \<Rightarrow> nat"

record ('m, 'root, 'inter) world =
  w_members :: "('m, 'root, 'inter) members_state"
  w_notifier :: "'root notifier_state"
  w_delivered :: nat
  w_subscriber :: "'root subscriber_state"

definition world_genesis :: "('m, 'root, 'inter) world" where
  "world_genesis = \<lparr>w_members = members_genesis, w_notifier = notifier_genesis, w_delivered = 0,
     w_subscriber = subscriber_genesis\<rparr>"

datatype ('m, 'root, 'c) world_op =
    WMembers "'c members_env" "'m members_op"
  | WNotifier "'root notifier_env" notifier_op
  | WDeliver subscriber_env
  | WReplay subscriber_env tx_source coll_id "nat list"
  | WTerminate subscriber_env subscriber_origin

abbreviation here :: "('m, 'root, 'inter, 'c) feed_config \<Rightarrow> nat" where
  "here fc \<equiv> sc_SelfParaId (fc_subscriber fc)"

definition messages_to :: "nat \<Rightarrow> 'root sent list \<Rightarrow> (nat \<times> 'root SubscriberCall) list" where
  "messages_to p ms = map snd (filter (\<lambda>m. fst m = p) ms)"

definition in_transit ::
  "('m, 'root, 'inter, 'c) feed_config \<Rightarrow> ('m, 'root, 'inter) world \<Rightarrow> (nat \<times> 'root SubscriberCall) list" where
  "in_transit fc w = drop (w_delivered w) (messages_to (here fc) (outbox (w_notifier w)))"

text \<open>The announcements of a members call, in order.\<close>

definition note_changes ::
  "notifier_config \<Rightarrow> (coll_id \<times> nat \<times> 'root RingRootOp) list \<Rightarrow> 'root notifier_state \<Rightarrow> 'root notifier_state" where
  "note_changes cfg = fold (\<lambda>(i, r, _). note_root_change cfg i r)"

text \<open>The environment of a notifier call reads the roots of the members pallet.\<close>

definition with_members ::
  "('m, 'root, 'inter, 'c) feed_config \<Rightarrow> ('m, 'root, 'inter) world \<Rightarrow> 'root notifier_env \<Rightarrow> 'root notifier_env" where
  "with_members fc w env = env\<lparr>ne_provider := members_provider (fc_hashed fc) (w_members w)\<rparr>"

fun world_step ::
  "('m, 'root, 'inter, 'c) feed_config \<Rightarrow> ('m, 'root, 'c) world_op \<Rightarrow> ('m, 'root, 'inter) world \<Rightarrow>
   unit + ('m, 'root, 'inter) world" where
  "world_step fc (WMembers env x) w =
     map_err (\<lambda>_. ()) (on_ok (members_step (fc_members fc) (env, x) (w_members w)) (\<lambda>s'.
       Inr (w\<lparr>w_members := s', w_notifier := note_changes (fc_notifier fc)
         (drop (length (root_changes (w_members w))) (root_changes s')) (w_notifier w)\<rparr>)))"
| "world_step fc (WNotifier env x) w =
     (case x of
        RootChange _ _ \<Rightarrow> Inl ()
      | _ \<Rightarrow> map_err (\<lambda>_. ()) (on_ok (notifier_step (fc_notifier fc) (with_members fc w env, x) (w_notifier w)) (\<lambda>n'.
               Inr (w\<lparr>w_notifier := n'\<rparr>))))"
| "world_step fc (WDeliver env) w =
     (case in_transit fc w of
        [] \<Rightarrow> Inl ()
      | m # _ \<Rightarrow> Inr (w\<lparr>w_delivered := w_delivered w + 1,
          w_subscriber := receive_message (fc_subscriber fc) (fc_pallet fc) env m (w_subscriber w)\<rparr>))"
| "world_step fc (WReplay env source i indices) w =
     map_err (\<lambda>_. ()) (on_ok (map_err (\<lambda>_. BadOrigin) (authorize_replay_missing_roots (fc_subscriber fc) env source i indices (w_subscriber w)))
       (\<lambda>_. on_ok (replay_missing_roots (fc_subscriber fc) env SubAuthorized i indices (w_subscriber w)) (\<lambda>s'.
          Inr (w\<lparr>w_subscriber := s'\<rparr>))))"
| "world_step fc (WTerminate env origin) w =
     map_err (\<lambda>_. ()) (on_ok (terminate_subscription (fc_subscriber fc) env origin (w_subscriber w)) (\<lambda>s'.
       Inr (w\<lparr>w_subscriber := s'\<rparr>)))"

abbreviation world_run ::
  "('m, 'root, 'inter, 'c) feed_config \<Rightarrow> ('m, 'root, 'c) world_op list \<Rightarrow> ('m, 'root, 'inter) world" where
  "world_run fc ops \<equiv> run_calls (world_step fc) ops world_genesis"

text \<open>
  The configurations fit: the subscriber takes every batch the notifier builds and keeps at least one root of
  a ring, and the hash of the storage keys is injective.
\<close>

definition feed_config_ok :: "('m, 'root, 'inter, 'c) feed_config \<Rightarrow> bool" where
  "feed_config_ok fc \<longleftrightarrow> members_config_ok (fc_members fc) \<and> notifier_config_ok (fc_notifier fc) \<and>
     nc_MaxUpdatesPerBatch (fc_notifier fc) \<le> sc_MaxUpdatesPerBatch (fc_subscriber fc) \<and>
     0 < sc_MaxRecentRoots (fc_subscriber fc) \<and> (\<forall>i. inj (fc_hashed fc i))"

subsection \<open>What the replica will hold\<close>

text \<open>The replica after all messages in transit.\<close>

definition settled :: "('m, 'root, 'inter, 'c) feed_config \<Rightarrow> ('m, 'root, 'inter) world \<Rightarrow> 'root replica" where
  "settled fc w = fold (replica_receive (fc_subscriber fc) (fc_pallet fc)) (in_transit fc w) (replica_of (w_subscriber w))"

lemma messages_to_append: "messages_to p (xs @ ys) = messages_to p xs @ messages_to p ys"
  by (simp add: messages_to_def)

lemma messages_to_other: "(\<And>m. m \<in> set ms \<Longrightarrow> fst m \<noteq> p) \<Longrightarrow> messages_to p ms = []"
  by (auto simp: messages_to_def filter_empty_conv)

lemma messages_to_self: "(\<And>m. m \<in> set ms \<Longrightarrow> fst m = p) \<Longrightarrow> messages_to p ms = map snd ms"
  unfolding messages_to_def by (simp cong: filter_cong)

text \<open>Delivered messages are among those sent, so that a message sent is appended to those in transit.\<close>

definition channel_ok :: "('m, 'root, 'inter, 'c) feed_config \<Rightarrow> ('m, 'root, 'inter) world \<Rightarrow> bool" where
  "channel_ok fc w \<longleftrightarrow> w_delivered w \<le> length (messages_to (here fc) (outbox (w_notifier w)))"

lemma in_transit_send:
  assumes "channel_ok fc w" and "outbox n' = outbox (w_notifier w) @ ms"
  shows "in_transit fc (w\<lparr>w_notifier := n'\<rparr>) = in_transit fc w @ messages_to (here fc) ms"
    and "channel_ok fc (w\<lparr>w_notifier := n'\<rparr>)"
  using assms by (simp_all add: in_transit_def channel_ok_def messages_to_append)

lemma settled_send:
  assumes "channel_ok fc w" and "outbox n' = outbox (w_notifier w) @ ms"
  shows "settled fc (w\<lparr>w_notifier := n'\<rparr>) =
    fold (replica_receive (fc_subscriber fc) (fc_pallet fc)) (messages_to (here fc) ms) (settled fc w)"
  using in_transit_send [OF assms] by (simp add: settled_def)

lemma settled_deliver:
  assumes "world_step fc (WDeliver env) w = Inr w'"
  shows "settled fc w' = settled fc w" and "channel_ok fc w \<Longrightarrow> channel_ok fc w'"
proof -
  obtain m ms where t: "in_transit fc w = m # ms" using assms by (auto split: list.splits)
  have w': "w' = w\<lparr>w_delivered := w_delivered w + 1, w_subscriber := receive_message (fc_subscriber fc) (fc_pallet fc) env m (w_subscriber w)\<rparr>"
    using assms t by simp
  have "in_transit fc w' = ms"
    using t by (simp add: w' in_transit_def) (metis drop_Suc list.sel(3) tl_drop)
  then show "settled fc w' = settled fc w" using t by (simp add: settled_def w' receive_message_replica)
  have "w_delivered w < length (messages_to (here fc) (outbox (w_notifier w)))" using t by (auto simp: in_transit_def intro: ccontr)
  then show "channel_ok fc w'" by (simp add: w' channel_ok_def)
qed

lemma settled_replay:
  assumes "world_step fc (WReplay env source i indices) w = Inr w'"
  shows "settled fc w' = settled fc w" and "channel_ok fc w \<Longrightarrow> channel_ok fc w'" and "in_transit fc w' = in_transit fc w"
proof -
  obtain s' where "replay_missing_roots (fc_subscriber fc) env SubAuthorized i indices (w_subscriber w) = Inr s'"
    and w': "w' = w\<lparr>w_subscriber := s'\<rparr>" using assms by auto
  then have "replica_of s' = replica_of (w_subscriber w)" by (intro replay_replica)
  then show "settled fc w' = settled fc w" by (simp add: settled_def w' in_transit_def)
  show "channel_ok fc w'" if "channel_ok fc w" using that by (simp add: w' channel_ok_def)
  show "in_transit fc w' = in_transit fc w" by (simp add: w' in_transit_def)
qed

subsection \<open>Receiving honest messages\<close>

lemma replica_store_frame [simp]:
  "rep_status (replica_store cfg b R) = rep_status R" "rep_sequence (replica_store cfg b R) = ub_sequence b"
  by (simp_all add: replica_store_def)

lemma replica_store_windows: "windows_ok cfg (rep_roots R) \<Longrightarrow> windows_ok cfg (rep_roots (replica_store cfg b R))"
  by (simp add: replica_store_def fold_store_windows)

lemma receive_update:
  assumes "decodes cfg idx (idx, UpdateRingRoots b)"
  shows "replica_receive cfg idx (idx, UpdateRingRoots b) R =
    (case rep_status R of SubActive _ \<Rightarrow> if ub_sequence b < rep_sequence R then R else replica_store cfg b R | _ \<Rightarrow> R)"
  using assms by (simp add: replica_receive_def)

lemma receive_updates:
  fixes idx :: nat
  assumes cfg: "0 < sc_MaxRecentRoots cfg" and n: "n \<le> sc_MaxUpdatesPerBatch cfg"
    and fresh: "\<And>b. b \<in> set bs \<Longrightarrow> fresh_batch V q n b"
    and R: "windows_ok cfg (rep_roots R)" "rep_sequence R \<le> q"
  defines "R' \<equiv> fold (replica_receive cfg idx) (map (\<lambda>b. (idx, UpdateRingRoots b)) bs) R"
  shows "rep_status R' = rep_status R \<and> windows_ok cfg (rep_roots R') \<and> rep_sequence R' \<le> q \<and>
    (case rep_status R of
       SubActive _ \<Rightarrow> \<forall>i r. newest (rep_roots R') i r = (if \<exists>b \<in> set bs. (i, r) \<in> batch_rings b then V i r else newest (rep_roots R) i r)
     | _ \<Rightarrow> R' = R)"
  using fresh R unfolding R'_def
proof (induction bs arbitrary: R)
  case Nil
  then show ?case by (auto split: SubscriptionStatus.split)
next
  case (Cons b bs)
  have b: "honest V b" "ub_sequence b = q" "decodes cfg idx (idx, UpdateRingRoots b)"
    using Cons.prems(1) [of b] n by (auto simp: fresh_batch_def decodes_def)
  define R1 where "R1 = replica_receive cfg idx (idx, UpdateRingRoots b) R"
  have R1: "R1 = (case rep_status R of SubActive _ \<Rightarrow> replica_store cfg b R | _ \<Rightarrow> R)"
    using Cons.prems(3) b(2) by (auto simp: R1_def receive_update [OF b(3)] split: SubscriptionStatus.split)
  have ok: "windows_ok cfg (rep_roots R1)" "rep_sequence R1 \<le> q" "rep_status R1 = rep_status R"
    using Cons.prems b(2) replica_store_windows by (auto simp: R1 split: SubscriptionStatus.split)
  let ?R' = "fold (replica_receive cfg idx) (map (\<lambda>b. (idx, UpdateRingRoots b)) bs) R1"
  note IH = Cons.IH [OF Cons.prems(1) ok(1,2), simplified ok(3)]
  show ?case
  proof (cases "rep_status R")
    case (SubActive a)
    then have one: "newest (rep_roots R1) i r = (if (i, r) \<in> batch_rings b then V i r else newest (rep_roots R) i r)" for i r
      using newest_stored [OF cfg Cons.prems(2) b(1)] by (simp add: R1)
    have IH': "rep_status ?R' = rep_status R" "windows_ok cfg (rep_roots ?R')" "rep_sequence ?R' \<le> q"
      "newest (rep_roots ?R') i r = (if \<exists>b \<in> set bs. (i, r) \<in> batch_rings b then V i r else newest (rep_roots R1) i r)" for i r
      using IH SubActive by simp_all
    have "newest (rep_roots ?R') i r = (if \<exists>b \<in> set (b # bs). (i, r) \<in> batch_rings b then V i r else newest (rep_roots R) i r)" for i r
      unfolding IH'(4) one by auto
    then show ?thesis using IH' SubActive by (simp add: R1_def [symmetric])
  qed (use IH R1 Cons.prems(2,3) in \<open>simp_all add: R1_def [symmetric]\<close>)
qed

lemma receive_init:
  assumes cfg: "0 < sc_MaxRecentRoots cfg" and dec: "length (ub_updates b) \<le> sc_MaxUpdatesPerBatch cfg"
    and status: "case rep_status R of SubActive q \<Rightarrow> q = ub_sequence b | _ \<Rightarrow> True"
  shows "replica_receive cfg idx (idx, InitializeRingRoots e b) R = (replica_store cfg b R)\<lparr>rep_status := SubActive (ub_sequence b)\<rparr>"
  using assms by (simp add: replica_receive_def decodes_def split: SubscriptionStatus.splits)

end
