(* ===== verification/Replication_Inv.thy ===== *)
theory Replication_Inv
  imports Replication
begin

text \<open>
  The invariant of replication. For every ring of a collection a chain subscribed to, the replica will
  hold the provider's root once the messages in transit have arrived, or a message is still due: the ring is in a
  page of pending updates, in the sealed batch the chain has not got, or ahead of its initialisation; or
  the members pallet has changed the root without announcing it.
\<close>

subsection \<open>Messages that are still due\<close>

definition pending :: "'root notifier_state \<Rightarrow> coll_id \<Rightarrow> nat \<Rightarrow> bool" where
  "pending n c r \<longleftrightarrow> (\<exists>pg. scontains (PendingUpdates n) (pg, c, r))"

definition in_batch_of :: "nat \<Rightarrow> SubscriberInfo \<Rightarrow> 'root notifier_state \<Rightarrow> coll_id \<Rightarrow> nat \<Rightarrow> bool" where
  "in_batch_of p info n c r \<longleftrightarrow> (\<exists>b xs. CurrentBatch n = Some b \<and> si_last_init info < bd_sequence b \<and>
     \<not> scontains (SubscribersWithCurrentBatch n) p \<and> sget (SealedBatchIndices n) c = Some xs \<and> r \<in> set xs)"

definition init_ahead :: "(coll_id \<Rightarrow> nat \<Rightarrow> nat) \<Rightarrow> PendingInitState \<Rightarrow> coll_id \<Rightarrow> nat \<Rightarrow> bool" where
  "init_ahead place st c r \<longleftrightarrow> (\<exists>k < length (pi_collections st). fst (pi_collections st ! k) = c \<and>
     (pi_current st < k \<or> pi_current st = k \<and> comes_after place c (pi_after st) r))"

definition init_of :: "(coll_id \<Rightarrow> nat \<Rightarrow> nat) \<Rightarrow> nat \<Rightarrow> 'root notifier_state \<Rightarrow> coll_id \<Rightarrow> nat \<Rightarrow> bool" where
  "init_of place p n c r \<longleftrightarrow> (\<exists>st. sget (PendingInit n) p = Some st \<and> init_ahead place st c r)"

definition init_starts :: "nat \<Rightarrow> 'root notifier_state \<Rightarrow> bool" where
  "init_starts p n \<longleftrightarrow> (\<exists>st. sget (PendingInit n) p = Some st \<and> pi_current st = 0 \<and> pi_after st = None)"

text \<open>
  \<open>V\<close> is the provider's view of the roots and \<open>A\<close> what it has announced; \<open>R\<close> is the replica after the
  messages in transit.
\<close>

definition ring_tracked ::
  "(coll_id \<Rightarrow> nat \<Rightarrow> nat) \<Rightarrow> nat \<Rightarrow> SubscriberInfo \<Rightarrow> 'root notifier_state \<Rightarrow> 'root replica \<Rightarrow>
   (coll_id \<Rightarrow> nat \<Rightarrow> (nat \<times> 'root) option) \<Rightarrow> (coll_id \<Rightarrow> nat \<Rightarrow> (nat \<times> 'root) option) \<Rightarrow> coll_id \<Rightarrow> nat \<Rightarrow> bool" where
  "ring_tracked place p info n R V A c r \<longleftrightarrow>
     newest (rep_roots R) c r = V c r \<or> pending n c r \<or> in_batch_of p info n c r \<or>
     (init_of place p n c r \<and> V c r \<noteq> None) \<or> V c r \<noteq> A c r"

definition status_tracked :: "nat \<Rightarrow> SubscriberInfo \<Rightarrow> 'root notifier_state \<Rightarrow> 'root replica \<Rightarrow> bool" where
  "status_tracked p info n R \<longleftrightarrow>
     (case rep_status R of
        SubActive q \<Rightarrow> q = si_last_init info
      | _ \<Rightarrow> rep_roots R = [] \<and> (si_collections info \<noteq> [] \<longrightarrow> init_starts p n))"

definition tracks ::
  "subscriber_config \<Rightarrow> (coll_id \<Rightarrow> nat \<Rightarrow> nat) \<Rightarrow> nat \<Rightarrow> SubscriberInfo \<Rightarrow> 'root notifier_state \<Rightarrow> 'root replica \<Rightarrow>
   (coll_id \<Rightarrow> nat \<Rightarrow> (nat \<times> 'root) option) \<Rightarrow> (coll_id \<Rightarrow> nat \<Rightarrow> (nat \<times> 'root) option) \<Rightarrow> bool" where
  "tracks cfg place p info n R V A \<longleftrightarrow>
     windows_ok cfg (rep_roots R) \<and> rep_sequence R \<le> SealedBatchSequence n \<and> status_tracked p info n R \<and>
     (\<forall>c \<in> fst ` set (si_collections info). \<forall>r. ring_tracked place p info n R V A c r)"

text \<open>A change of the notifier that leaves the initialisation of the chain alone and drops nothing due.\<close>

lemma tracks_mono:
  assumes "tracks cfg place p info n R V A" and "sget (PendingInit n') p = sget (PendingInit n) p"
    and "SealedBatchSequence n \<le> SealedBatchSequence n'"
    and "\<And>c r. pending n c r \<Longrightarrow> pending n' c r \<or> in_batch_of p info n' c r"
    and "\<And>c r. in_batch_of p info n c r \<Longrightarrow> in_batch_of p info n' c r"
  shows "tracks cfg place p info n' R V A"
proof -
  have i: "init_of place p n' = init_of place p n" "init_starts p n' = init_starts p n"
    using assms(2) by (simp_all add: init_of_def init_starts_def fun_eq_iff)
  have "ring_tracked place p info n' R V A c r" if "ring_tracked place p info n R V A c r" for c r
    using that assms(4,5) [of c r] unfolding ring_tracked_def i by blast
  then show ?thesis using assms(1,3) unfolding tracks_def status_tracked_def i by (auto intro: le_trans)
qed

text \<open>A change of the roots that is announced, or made in silence.\<close>

lemma tracks_change:
  assumes "tracks cfg place p info n R V A"
    and "\<And>c r. (c, r) \<noteq> x \<Longrightarrow> V' c r = V c r \<and> A' c r = A c r"
    and "V' (fst x) (snd x) \<noteq> A' (fst x) (snd x) \<or> pending n (fst x) (snd x)"
  shows "tracks cfg place p info n R V' A'"
proof -
  have "ring_tracked place p info n R V' A' c r" if "ring_tracked place p info n R V A c r" for c r
    using that assms(2) [of c r] assms(3) unfolding ring_tracked_def by (cases "(c, r) = x") auto
  then show ?thesis using assms(1) unfolding tracks_def by blast
qed

text \<open>Honest updates only bring the replica closer.\<close>

lemma newest_Nil [simp]: "newest [] c r = None"
  by (simp add: newest_def)

lemma tracks_updates:
  fixes idx :: nat
  assumes t: "tracks cfg place p info n R V A" and cfg: "0 < sc_MaxRecentRoots cfg" and k: "k \<le> sc_MaxUpdatesPerBatch cfg"
    and fresh: "\<And>b. b \<in> set bs \<Longrightarrow> fresh_batch V (SealedBatchSequence n) k b"
  defines "R' \<equiv> fold (replica_receive cfg idx) (map (\<lambda>b. (idx, UpdateRingRoots b)) bs) R"
  shows "tracks cfg place p info n R' V A"
    and "(\<forall>c r. (\<exists>b \<in> set bs. (c, r) \<in> batch_rings b) \<longrightarrow> newest (rep_roots R') c r = V c r) \<or>
      (rep_roots R' = [] \<and> (si_collections info \<noteq> [] \<longrightarrow> init_starts p n))"
proof -
  have R: "windows_ok cfg (rep_roots R)" "rep_sequence R \<le> SealedBatchSequence n" using t by (simp_all add: tracks_def)
  note r = receive_updates [where bs = bs and idx = idx, OF cfg k fresh R, folded R'_def]
  have r': "rep_status R' = rep_status R" "windows_ok cfg (rep_roots R')" "rep_sequence R' \<le> SealedBatchSequence n"
    using r by auto
  have near: "newest (rep_roots R') c q = V c q \<or> newest (rep_roots R') c q = newest (rep_roots R) c q" for c q
    using r by (cases "rep_status R") auto
  have stat: "status_tracked p info n R'"
  proof (cases "rep_status R")
    case (SubActive a)
    then show ?thesis using t r'(1) by (simp add: status_tracked_def tracks_def)
  qed (use t r in \<open>simp_all add: status_tracked_def tracks_def\<close>)
  have "ring_tracked place p info n R' V A c q" if "ring_tracked place p info n R V A c q" for c q
    using that near [of c q] unfolding ring_tracked_def by auto
  then show "tracks cfg place p info n R' V A" using t r' stat unfolding tracks_def by blast
  show "(\<forall>c q. (\<exists>b \<in> set bs. (c, q) \<in> batch_rings b) \<longrightarrow> newest (rep_roots R') c q = V c q) \<or>
      (rep_roots R' = [] \<and> (si_collections info \<noteq> [] \<longrightarrow> init_starts p n))"
  proof (cases "rep_status R")
    case (SubActive a)
    then show ?thesis using r by auto
  qed (use stat r' in \<open>simp_all add: status_tracked_def\<close>)
qed

text \<open>At the start of the initialisation every root is ahead.\<close>

lemma init_starts_ahead:
  assumes "subscribers_ok ncfg n" and "sget (Subscribers n) p = Some info" and "init_starts p n" and "c \<in> fst ` set (si_collections info)"
  shows "init_of place p n c r"
proof -
  obtain st where st: "sget (PendingInit n) p = Some st" "pi_current st = 0" "pi_after st = None" using assms(3) by (auto simp: init_starts_def)
  then have cs: "pi_collections st = si_collections info" using assms(1,2) by (fastforce simp: subscribers_ok_def)
  obtain k where "k < length (si_collections info)" "fst (si_collections info ! k) = c"
    using assms(4) by (auto simp: in_set_conv_nth)
  then have "init_ahead place st c r" using st cs unfolding init_ahead_def comes_after_def by (intro exI [of _ k]) auto
  then show ?thesis using st by (auto simp: init_of_def)
qed

text \<open>The chain is marked as served after a batch that was sent without failure.\<close>

lemma tracks_served:
  assumes t: "tracks cfg place p info n R V A" and ok: "subscribers_ok ncfg n" and info: "sget (Subscribers n) p = Some info"
    and got: "(\<forall>c r. c \<in> fst ` set (si_collections info) \<and> in_batch_of p info n c r \<longrightarrow> newest (rep_roots R) c r = V c r) \<or>
      (rep_roots R = [] \<and> (si_collections info \<noteq> [] \<longrightarrow> init_starts p n))"
    and n': "sget (PendingInit n') p = sget (PendingInit n) p" "SealedBatchSequence n' = SealedBatchSequence n" "PendingUpdates n' = PendingUpdates n"
  shows "tracks cfg place p info n' R V A"
proof -
  have i: "init_of place p n' = init_of place p n" "init_starts p n' = init_starts p n" "pending n' = pending n"
    using n' by (simp_all add: init_of_def init_starts_def pending_def fun_eq_iff)
  have "ring_tracked place p info n' R V A c r" if c: "c \<in> fst ` set (si_collections info)" for c r
  proof -
    have old: "ring_tracked place p info n R V A c r" using t c unfolding tracks_def by blast
    show ?thesis
    proof (cases "in_batch_of p info n c r")
      case True
      then consider "newest (rep_roots R) c r = V c r" | "rep_roots R = []" "init_starts p n" using got c by auto
      then show ?thesis
      proof cases
        case 2
        then show ?thesis using init_starts_ahead [OF ok info 2(2) c, of place r] unfolding ring_tracked_def i by (cases "V c r") auto
      qed (simp add: ring_tracked_def)
    next
      case False
      then show ?thesis using old unfolding ring_tracked_def i by blast
    qed
  qed
  then show ?thesis using t unfolding tracks_def status_tracked_def i n'(2) by blast
qed

subsection \<open>Other chains\<close>

lemma two_await:
  assumes wf: "wf_storage (Subscribers n)" and p: "sget (Subscribers n) p = Some ip" "si_last_init ip < s" "\<not> scontains (SubscribersWithCurrentBatch n) p"
    and q: "sget (Subscribers n) q = Some iq" "si_last_init iq < s" "\<not> scontains (SubscribersWithCurrentBatch n) q" and ne: "p \<noteq> q"
  shows "2 \<le> unserved n s"
proof -
  let ?f = "awaits s (SubscribersWithCurrentBatch n)"
  have "ssum ?f (sdel q (Subscribers n)) + 1 = unserved n s"
    using ssum_sdel [OF wf, of ?f q] q by (simp add: unserved_def awaits_def)
  moreover have "1 \<le> ssum ?f (sdel q (Subscribers n))"
    using entry_value_le [where f = ?f and m = "sdel q (Subscribers n)" and k = p] p ne by (simp add: awaits_def)
  ultimately show ?thesis by simp
qed

lemma mark_served_frame [simp]:
  "PendingInit (mark_served cfg p b s) = PendingInit s" "Subscribers (mark_served cfg p b s) = Subscribers s"
  "SealedBatchSequence (mark_served cfg p b s) = SealedBatchSequence s" "PendingUpdates (mark_served cfg p b s) = PendingUpdates s"
  "outbox (mark_served cfg p b s) = outbox s"
  by (simp_all add: mark_served_def clear_batch_def Let_def)

lemma leave_batch_frame [simp]:
  "PendingInit (leave_batch cfg p i s) = PendingInit s" "Subscribers (leave_batch cfg p i s) = Subscribers s"
  "SealedBatchSequence (leave_batch cfg p i s) = SealedBatchSequence s" "PendingUpdates (leave_batch cfg p i s) = PendingUpdates s"
  "outbox (leave_batch cfg p i s) = outbox s"
  by (auto simp: leave_batch_def clear_batch_def Let_def split: option.splits)

lemma mark_served_other:
  assumes inv: "notifier_inv cfg n" and p: "sget (Subscribers n) p = Some ip" "in_batch_of p ip n c r"
    and q: "sget (Subscribers n) q = Some iq" "CurrentBatch n = Some b" "si_last_init iq < bd_sequence b"
      "\<not> scontains (SubscribersWithCurrentBatch n) q" and ne: "p \<noteq> q"
  shows "in_batch_of p ip (mark_served cfg q b n) c r"
proof -
  obtain xs where x: "si_last_init ip < bd_sequence b" "\<not> scontains (SubscribersWithCurrentBatch n) p"
    "sget (SealedBatchIndices n) c = Some xs" "r \<in> set xs" using p(2) q(2) by (auto simp: in_batch_of_def)
  have "2 \<le> unserved n (bd_sequence b)"
    using inv by (intro two_await [OF _ p(1) x(1,2) q(1,3,4) ne]) (simp add: notifier_inv_def subscribers_ok_def)
  then have "bd_remaining b - 1 \<noteq> 0" using inv q(2) by (simp add: notifier_inv_def batch_ok_def)
  then show ?thesis using x q(2) ne unfolding in_batch_of_def
    by (intro exI [of _ "b\<lparr>bd_remaining := bd_remaining b - 1\<rparr>"] exI [of _ xs]) (simp add: mark_served_def)
qed

lemma leave_batch_other:
  assumes inv: "notifier_inv cfg n" and p: "sget (Subscribers n) p = Some ip" "in_batch_of p ip n c r"
    and q: "sget (Subscribers n) q = Some iq" and ne: "p \<noteq> q"
    and n1: "CurrentBatch n1 = CurrentBatch n" "SubscribersWithCurrentBatch n1 = SubscribersWithCurrentBatch n"
      "SealedBatchIndices n1 = SealedBatchIndices n"
  shows "in_batch_of p ip (leave_batch cfg q iq n1) c r"
proof -
  obtain b xs where b: "CurrentBatch n = Some b" and x: "si_last_init ip < bd_sequence b" "\<not> scontains (SubscribersWithCurrentBatch n) p"
    "sget (SealedBatchIndices n) c = Some xs" "r \<in> set xs" using p(2) by (auto simp: in_batch_of_def)
  have rem: "bd_remaining b = unserved n (bd_sequence b)" using inv b by (simp add: notifier_inv_def batch_ok_def)
  show ?thesis
  proof (cases "\<not> scontains (SubscribersWithCurrentBatch n) q \<and> si_last_init iq < bd_sequence b")
    case True
    have "2 \<le> unserved n (bd_sequence b)"
      using inv True by (intro two_await [OF _ p(1) x(1,2) q _ _ ne]) (simp_all add: notifier_inv_def subscribers_ok_def)
    then have "leave_batch cfg q iq n1 = n1\<lparr>CurrentBatch := Some (b\<lparr>bd_remaining := bd_remaining b - 1\<rparr>)\<rparr>"
      using True b rem by (simp add: leave_batch_def n1 Let_def)
    then show ?thesis using x by (auto simp: in_batch_of_def n1)
  next
    case False
    then have "leave_batch cfg q iq n1 = (if scontains (SubscribersWithCurrentBatch n) q
        then n1\<lparr>SubscribersWithCurrentBatch := sdel q (SubscribersWithCurrentBatch n)\<rparr> else n1)"
      using b by (auto simp: leave_batch_def n1)
    then show ?thesis using x b ne by (auto simp: in_batch_of_def n1)
  qed
qed

end
