(* ===== verification/Replication_Feed.thy ===== *)
theory Replication_Feed
  imports Replication_Inv
begin

text \<open>
  Every call of the notifier carries the tracking of a replica on: the messages it sends to the
  chain make up for what the call takes out of the pages, the batch and the initialisation.
\<close>

subsection \<open>Carrying the tracking on\<close>

definition initial_replica :: "'root replica" where
  "initial_replica = \<lparr>rep_status = SubInactive, rep_sequence = 0, rep_roots = []\<rparr>"

definition tracked ::
  "subscriber_config \<Rightarrow> (coll_id \<Rightarrow> nat \<Rightarrow> nat) \<Rightarrow> nat \<Rightarrow> nat \<Rightarrow> 'root notifier_state \<Rightarrow> 'root replica \<Rightarrow>
   (coll_id \<Rightarrow> nat \<Rightarrow> (nat \<times> 'root) option) \<Rightarrow> (coll_id \<Rightarrow> nat \<Rightarrow> (nat \<times> 'root) option) \<Rightarrow> bool" where
  "tracked cfg place p idx n R V A \<longleftrightarrow>
     (case sget (Subscribers n) p of
        None \<Rightarrow> R = initial_replica
      | Some info \<Rightarrow> si_pallet_index info = idx \<and> length (si_collections info) \<le> u32_max \<and> tracks cfg place p info n R V A)"

definition carries ::
  "subscriber_config \<Rightarrow> (coll_id \<Rightarrow> nat \<Rightarrow> nat) \<Rightarrow> nat \<Rightarrow> nat \<Rightarrow> (coll_id \<Rightarrow> nat \<Rightarrow> (nat \<times> 'root) option) \<Rightarrow>
   (coll_id \<Rightarrow> nat \<Rightarrow> (nat \<times> 'root) option) \<Rightarrow> 'root notifier_state \<Rightarrow> 'root notifier_state \<Rightarrow> bool" where
  "carries cfg place p idx V A n n' \<longleftrightarrow> (\<exists>ms. outbox n' = outbox n @ ms \<and>
     (\<forall>R. tracked cfg place p idx n R V A \<longrightarrow>
        tracked cfg place p idx n' (fold (replica_receive cfg idx) (messages_to p ms) R) V A))"

lemma carries_other:
  assumes "outbox n' = outbox n @ ms" and "\<And>m. m \<in> set ms \<Longrightarrow> fst m \<noteq> p"
    and "sget (Subscribers n') p = sget (Subscribers n) p" and "sget (PendingInit n') p = sget (PendingInit n) p"
    and "SealedBatchSequence n \<le> SealedBatchSequence n'"
    and "\<And>info c r. sget (Subscribers n) p = Some info \<Longrightarrow> pending n c r \<Longrightarrow> pending n' c r \<or> in_batch_of p info n' c r"
    and "\<And>info c r. sget (Subscribers n) p = Some info \<Longrightarrow> in_batch_of p info n c r \<Longrightarrow> in_batch_of p info n' c r"
  shows "carries cfg place p idx V A n n'"
proof -
  have "tracked cfg place p idx n' R V A" if "tracked cfg place p idx n R V A" for R
    using that assms(3-7) by (auto simp: tracked_def split: option.splits elim!: tracks_mono)
  then show ?thesis using assms(1) messages_to_other [OF assms(2)] by (auto simp: carries_def)
qed

lemma carries_same:
  assumes "outbox n' = outbox n @ ms" and "\<And>m. m \<in> set ms \<Longrightarrow> fst m \<noteq> p"
    and "sget (Subscribers n') p = sget (Subscribers n) p" and "sget (PendingInit n') p = sget (PendingInit n) p"
    and "SealedBatchSequence n' = SealedBatchSequence n" and "PendingUpdates n' = PendingUpdates n" and "CurrentBatch n' = CurrentBatch n"
    and "SubscribersWithCurrentBatch n' = SubscribersWithCurrentBatch n" and "SealedBatchIndices n' = SealedBatchIndices n"
  shows "carries cfg place p idx V A n n'"
  using assms by (intro carries_other [where ms = ms]) (simp_all add: pending_def in_batch_of_def)

text \<open>The call sends to the chain itself, which has subscribed.\<close>

lemma carries_self:
  assumes "outbox n' = outbox n @ map (\<lambda>m. (p, m)) ms" and "sget (Subscribers n) p = Some info" and "sget (Subscribers n') p = Some info"
    and "\<And>R. si_pallet_index info = idx \<Longrightarrow> length (si_collections info) \<le> u32_max \<Longrightarrow> tracks cfg place p info n R V A \<Longrightarrow>
      tracks cfg place p info n' (fold (replica_receive cfg idx) ms R) V A"
  shows "carries cfg place p idx V A n n'"
proof -
  have "messages_to p (map (\<lambda>m. (p, m)) ms) = ms" by (simp add: messages_to_def filter_map o_def)
  then show ?thesis using assms by (auto simp: carries_def tracked_def)
qed

subsection \<open>Subscriptions\<close>

lemma subscribe_other_carries:
  assumes "subscribe cfg env origin q cs j n = Inr n'" and "q \<noteq> p"
  shows "carries scfg place p idx V A n n'"
proof -
  have n': "n' = notifier_deposit (Subscribed q) (register_for_init env q cs j n)" using assms(1) by (auto simp: subscribe_def)
  show ?thesis using assms(2) unfolding n'
    by (intro carries_same [where ms = "[]"]) (simp_all add: notifier_deposit_def register_for_init_def)
qed

lemma subscribe_self_carries:
  assumes ok: "subscribe cfg env origin p cs idx n = Inr n'" and inv: "notifier_inv cfg n" and cs: "length cs \<le> u32_max"
  shows "carries scfg place p idx V A n n'"
proof -
  have n': "n' = notifier_deposit (Subscribed p) (register_for_init env p cs idx n)" and new: "sget (Subscribers n) p = None"
    using ok by (auto simp: subscribe_def scontains_def)
  let ?info = "\<lparr>si_collections = cs, si_last_init = SealedBatchSequence n, si_pallet_index = idx\<rparr>"
  have info: "sget (Subscribers n') p = Some ?info" by (simp add: n' notifier_deposit_def register_for_init_def)
  have inv': "subscribers_ok cfg n'" using subscribe_inv [OF inv ok] by (simp add: notifier_inv_def)
  have starts: "init_starts p n'" by (simp add: n' notifier_deposit_def register_for_init_def init_starts_def)
  have "ring_tracked place p ?info n' initial_replica V A c r" if "c \<in> fst ` set cs" for c r
    using init_starts_ahead [OF inv' info starts, of c place r] that
    by (cases "V c r") (simp_all add: ring_tracked_def initial_replica_def)
  then have "tracks scfg place p ?info n' initial_replica V A"
    using starts by (simp add: tracks_def status_tracked_def initial_replica_def windows_ok_def sget_or_def)
  then show ?thesis using new info cs unfolding carries_def tracked_def
    by (intro exI [of _ "[]"]) (simp add: n' notifier_deposit_def register_for_init_def messages_to_def)
qed

lemma unsubscribe_carries:
  assumes inv: "notifier_inv cfg n" and ok: "unsubscribe cfg env origin x n = Inr n'"
    and other: "case unsubscribe_origin origin x of Inl _ \<Rightarrow> True | Inr (q, _) \<Rightarrow> q \<noteq> p"
  shows "carries scfg place p idx V A n n'"
proof -
  obtain q own info where info: "sget (Subscribers n) q = Some info" and or: "unsubscribe_origin origin x = Inr (q, own)"
    using ok by (auto simp: unsubscribe_def)
  have ne: "q \<noteq> p" using other or by simp
  define n0 where "n0 = (if \<not> own then (case send_xcm_call_to_subscriber env q TerminateSubscription (si_pallet_index info) n of
      Inl _ \<Rightarrow> n | Inr n' \<Rightarrow> n') else n)"
  obtain ms where n0: "sent_only ms n n0" "set ms \<subseteq> {(q, si_pallet_index info, TerminateSubscription)}"
    using terminate_sent [of n env q TerminateSubscription "si_pallet_index info"] sent_only_refl [of n] unfolding n0_def by (cases own) auto
  define n1 where "n1 = n0\<lparr>LastReplayTime := fold (\<lambda>(i, _). sdel (q, i)) (si_collections info) (LastReplayTime n0),
      Subscribers := sdel q (Subscribers n0), PendingInit := sdel q (PendingInit n0)\<rparr>"
  have n': "n' = notifier_deposit (Unsubscribed q) (leave_batch cfg q info n1)"
    using ok info or by (simp add: unsubscribe_def n0_def n1_def Let_def)
  have dep: "in_batch_of p ip (notifier_deposit e y) = in_batch_of p ip y" "pending (notifier_deposit e y) = pending y" for ip e y
    by (simp_all add: in_batch_of_def pending_def notifier_deposit_def fun_eq_iff)
  show ?thesis
  proof (rule carries_other [where ms = ms])
    show "outbox n' = outbox n @ ms" "sget (Subscribers n') p = sget (Subscribers n) p" "sget (PendingInit n') p = sget (PendingInit n) p"
      "SealedBatchSequence n \<le> SealedBatchSequence n'"
      using ne by (simp_all add: n' notifier_deposit_def n1_def sent_onlyD [OF n0(1)])
    show "fst m \<noteq> p" if "m \<in> set ms" for m using that n0(2) ne by auto
    show "pending n' c r \<or> in_batch_of p ip n' c r" if "pending n c r" for ip c r
      using that by (simp add: n' dep) (simp add: pending_def n1_def sent_onlyD [OF n0(1)])
    show "in_batch_of p ip n' c r" if "sget (Subscribers n) p = Some ip" "in_batch_of p ip n c r" for ip c r
      unfolding n' dep using that ne
      by (intro leave_batch_other [OF inv that info]) (auto simp: n1_def sent_onlyD [OF n0(1)])
  qed
qed

subsection \<open>Batches\<close>

text \<open>The rings of the sealed page are in the batch.\<close>

lemma sget_fold_sput:
  "distinct (map fst xs) \<Longrightarrow> (i, v) \<in> set xs \<Longrightarrow> sget (fold (\<lambda>(i, v). sput i (f v)) xs m) i = Some (f v)"
proof (induction xs arbitrary: m)
  case (Cons x xs)
  have keep: "sget (fold (\<lambda>(i, v). sput i (f v)) ys m) i = sget m i" if "i \<notin> fst ` set ys" for ys m
    using that by (induction ys arbitrary: m) auto
  show ?case
  proof (cases "(i, v) \<in> set xs")
    case False
    then have x: "x = (i, v)" using Cons.prems by auto
    have out: "i \<notin> fst ` set xs" using Cons.prems(1) x by simp
    show ?thesis using keep [OF out, of "sput i (f v) m"] by (simp add: x)
  qed (use Cons in auto)
qed simp

lemma ssum_one_filter: "ssum (\<lambda>x. if P x then 1 else 0) m = length (filter P m)"
  by (induction m) auto

lemma page_in_batch:
  assumes ok: "pages_ok cfg n" and x: "scontains (PendingUpdates n) (pg, c, r)"
  shows "\<exists>xs. sget (fold (\<lambda>(i, v). sput i (take (nc_MaxUpdatesPerBatch cfg) v)) (changed_indices (page_entries pg n)) I) c = Some xs \<and> r \<in> set xs"
proof -
  let ?es = "page_entries pg n"
  define v where "v = sort (map snd (filter (\<lambda>e. fst e = c) ?es))"
  have e: "(c, r) \<in> set ?es"
    using x sget_in_set [of "PendingUpdates n" "(pg, c, r)"] by (force simp: page_entries_def scontains_def image_iff)
  have "(c, v) \<in> set (changed_indices ?es)" using e by (force simp: changed_indices_def v_def)
  moreover have "distinct (map fst (changed_indices ?es))" by (simp add: changed_indices_def o_def)
  ultimately have "sget (fold (\<lambda>(i, v). sput i (take (nc_MaxUpdatesPerBatch cfg) v)) (changed_indices ?es) I) c = Some (take (nc_MaxUpdatesPerBatch cfg) v)"
    by (intro sget_fold_sput)
  moreover have "length v \<le> length ?es" by (simp add: v_def)
  moreover have "length ?es \<le> nc_MaxUpdatesPerBatch cfg"
    using ok by (simp add: page_entries_def pages_ok_def entries_of_def ssum_one_filter)
  moreover have "r \<in> set v" using e by (force simp: v_def)
  ultimately show ?thesis by simp
qed

lemma enqueue_carries:
  assumes inv: "notifier_inv cfg n" and none: "CurrentBatch n = None" and room: "SealedBatchSequence n < u64_max"
    and ok: "enqueue_updates cfg env Authorized n = Inr n'"
  shows "carries scfg place p idx V A n n'"
proof -
  have sub: "subscribers_ok cfg n" "pages_ok cfg n" and S: "SubscribersWithCurrentBatch n = []"
    using inv none by (simp_all add: notifier_inv_def batch_ok_def)
  note n' = enqueue_updates_eq [OF ok]
  show ?thesis
  proof (rule carries_other [where ms = "[]"])
    show "outbox n' = outbox n @ []" "sget (Subscribers n') p = sget (Subscribers n) p" "sget (PendingInit n') p = sget (PendingInit n) p"
      "SealedBatchSequence n \<le> SealedBatchSequence n'" using room by (simp_all add: n' sat_add_def)
    show "in_batch_of p ip n' c r" if "in_batch_of p ip n c r" for ip c r using that none by (simp add: in_batch_of_def)
    fix ip c r
    assume info: "sget (Subscribers n) p = Some ip" and "pending n c r"
    then obtain pg where x: "scontains (PendingUpdates n) (pg, c, r)" by (auto simp: pending_def)
    have ne: "Subscribers n \<noteq> []" using info by (cases "Subscribers n") simp_all
    let ?n1 = "(sealing n)\<lparr>SealedBatchSequence := sat_add u64_max (SealedBatchSequence n) 1,
      SealedBatchIndices := fold (\<lambda>(i, indices). sput i (take (nc_MaxUpdatesPerBatch cfg) indices))
        (changed_indices (page_entries (send_page (PageState n)) n)) (SealedBatchIndices n)\<rparr>"
    have "pages_ok cfg ?n1" using sealing_pages [OF sub(2)] by (rule pages_ok_cong) simp_all
    then have P: "PendingUpdates n' = filter (\<lambda>x. fst (fst x) \<noteq> send_page (PageState n)) (PendingUpdates n)"
      using cleanup_pending [of cfg ?n1 env "send_page (PageState n)"] ne by (simp add: n')
    show "pending n' c r \<or> in_batch_of p ip n' c r"
    proof (cases "pg = send_page (PageState n)")
      case True
      have last: "si_last_init ip < sat_add u64_max (SealedBatchSequence n) 1"
        using sub(1) info room by (force simp: subscribers_ok_def sat_add_def)
      obtain xs where "sget (SealedBatchIndices n') c = Some xs" "r \<in> set xs"
        using page_in_batch [OF sub(2) x, of "SealedBatchIndices n"] True ne by (auto simp: n')
      then have "in_batch_of p ip n' c r" using last S ne by (simp add: in_batch_of_def n' scontains_def)
      then show ?thesis ..
    next
      case False
      then have "((pg, c, r), ()) \<in> set (PendingUpdates n')" using x sget_in_set by (fastforce simp: P scontains_def)
      then have "scontains (PendingUpdates n') (pg, c, r)" by (force simp: scontains_def sget_None_iff)
      then show ?thesis by (auto simp: pending_def)
    qed
  qed simp
qed

lemma abandon_carries:
  assumes ok: "abandon_stuck_batch cfg Authorized n = Inr n'"
    and got: "\<And>info c r. sget (Subscribers n) p = Some info \<Longrightarrow> \<not> in_batch_of p info n c r"
  shows "carries scfg place p idx V A n n'"
proof -
  obtain e where n': "n' = notifier_deposit e (clear_batch cfg n)" using ok by (auto simp: abandon_stuck_batch_def)
  show ?thesis using got unfolding n'
    by (intro carries_other [where ms = "[]"]) (simp_all add: notifier_deposit_def clear_batch_def pending_def)
qed

subsection \<open>Messages with roots\<close>

lemma tracks_frame:
  assumes "tracks cfg place p info n R V A" and "sget (PendingInit n') p = sget (PendingInit n) p"
    and "SealedBatchSequence n' = SealedBatchSequence n" "PendingUpdates n' = PendingUpdates n" "CurrentBatch n' = CurrentBatch n"
      "SubscribersWithCurrentBatch n' = SubscribersWithCurrentBatch n" "SealedBatchIndices n' = SealedBatchIndices n"
  shows "tracks cfg place p info n' R V A"
  using assms by (intro tracks_mono [OF assms(1,2)]) (simp_all add: pending_def in_batch_of_def)

context ring_feed
begin

lemma replay_carries:
  assumes ok: "feed_ok v" and prov: "ne_provider env = provider v"
    and scfg: "0 < sc_MaxRecentRoots scfg" "nc_MaxUpdatesPerBatch cfg \<le> sc_MaxUpdatesPerBatch scfg"
    and run: "request_replay cfg env origin q i xs n = Inr n'"
  shows "carries scfg place p idx (root_view v) A n n'"
  using run
proof (rule request_replay_sent)
  fix info m b L
  assume info: "sget (Subscribers n) q = Some info" and len: "length (ub_updates b) \<le> nc_MaxUpdatesPerBatch cfg"
    and b: "b = \<lparr>ub_identifier = i, ub_sequence = SealedBatchSequence n, ub_source_time = ne_now env,
       ub_updates = resolve_updates_for_indices env i xs, ub_next_ring_index = rp_next_ring_index (ne_provider env) i\<rparr>"
    and n': "n' = notifier_deposit (ReplayRequested q i (length xs))
      (n\<lparr>outbox := outbox n @ [(q, si_pallet_index info, UpdateRingRoots b)], LastReplayTime := L\<rparr>)"
  show ?thesis
  proof (cases "q = p")
    case True
    have "honest (root_view v) b" by (rule resolved_part_honest [OF ok prov, where xs = xs]) (simp add: b)
    then have fresh: "fresh_batch (root_view v) (SealedBatchSequence n) (nc_MaxUpdatesPerBatch cfg) b'" if "b' \<in> set [b]" for b'
      using that len by (simp add: fresh_batch_def b)
    show ?thesis
    proof (rule carries_self [where ms = "[(si_pallet_index info, UpdateRingRoots b)]" and info = info])
      fix R assume idx: "si_pallet_index info = idx" and t: "tracks scfg place p info n R (root_view v) A"
      have "tracks scfg place p info n (fold (replica_receive scfg idx) [(idx, UpdateRingRoots b)] R) (root_view v) A"
        using tracks_updates(1) [where bs = "[b]" and idx = idx, OF t scfg fresh] by simp
      then show "tracks scfg place p info n' (fold (replica_receive scfg idx) [(si_pallet_index info, UpdateRingRoots b)] R) (root_view v) A"
        unfolding idx by (rule tracks_frame) (simp_all add: n' notifier_deposit_def)
    qed (use info True n' in \<open>simp_all add: notifier_deposit_def\<close>)
  next
    case False
    then show ?thesis unfolding n'
      by (intro carries_same [where ms = "[(q, si_pallet_index info, UpdateRingRoots b)]"]) (simp_all add: notifier_deposit_def)
  qed
qed

text \<open>A batch for the chain itself goes out over a channel with room for an update.\<close>

lemma send_batch_self:
  assumes ok: "feed_ok v" and prov: "ne_provider env = provider v"
    and scfg: "0 < sc_MaxRecentRoots scfg" "nc_MaxUpdatesPerBatch cfg \<le> sc_MaxUpdatesPerBatch scfg"
    and inv: "notifier_inv cfg n" and b: "CurrentBatch n = Some b" "sget (Subscribers n) p = Some info"
    and k: "get_xcm_update_batch_size cfg env p = Some k" "0 < k"
    and run: "send_collections cfg env p (si_pallet_index info) k (bd_sequence b) t (si_collections info) False n = (failed, n1)"
  shows "carries scfg place p idx (root_view v) A n (if failed then n1 else mark_served cfg p b n1)"
proof -
  have seq: "bd_sequence b = SealedBatchSequence n" using inv b by (simp add: notifier_inv_def batch_ok_def)
  obtain bs where bs: "sent_only (map (\<lambda>b. (p, si_pallet_index info, UpdateRingRoots b)) bs) n n1"
    "\<forall>b' \<in> set bs. fresh_batch (root_view v) (bd_sequence b) k b'"
    "\<not> failed \<longrightarrow> (\<forall>i e xs r. (i, e) \<in> set (si_collections info) \<and> sget (SealedBatchIndices n) i = Some xs \<and> r \<in> set xs \<longrightarrow>
       (\<exists>b \<in> set bs. (i, r) \<in> batch_rings b))"
    using send_collections_sent [OF ok prov k(2) batch_size_le [OF k(1)] run] by blast
  note g = sent_onlyD [OF bs(1)]
  have k': "k \<le> sc_MaxUpdatesPerBatch scfg" using batch_size_le [OF k(1)] scfg(2) by simp
  have fresh: "fresh_batch (root_view v) (SealedBatchSequence n) k b'" if "b' \<in> set bs" for b' using bs(2) that seq by simp
  show ?thesis
  proof (rule carries_self [where ms = "map (\<lambda>b. (si_pallet_index info, UpdateRingRoots b)) bs" and info = info])
    fix R assume idx: "si_pallet_index info = idx" and t: "tracks scfg place p info n R (root_view v) A"
    let ?R = "fold (replica_receive scfg idx) (map (\<lambda>b. (idx, UpdateRingRoots b)) bs) R"
    note u = tracks_updates [where bs = bs and idx = idx, OF t scfg(1) k' fresh]
    show "tracks scfg place p info (if failed then n1 else mark_served cfg p b n1)
        (fold (replica_receive scfg idx) (map (\<lambda>b. (si_pallet_index info, UpdateRingRoots b)) bs) R) (root_view v) A"
    proof (cases failed)
      case False
      show ?thesis unfolding idx
      proof (rule tracks_served [where n = n, OF _ _ b(2)])
        show "subscribers_ok cfg n" using inv by (simp add: notifier_inv_def)
        show "(\<forall>c r. c \<in> fst ` set (si_collections info) \<and> in_batch_of p info n c r \<longrightarrow> newest (rep_roots ?R) c r = root_view v c r) \<or>
          (rep_roots ?R = [] \<and> (si_collections info \<noteq> [] \<longrightarrow> init_starts p n))"
          using u(2) bs(3) False by (fastforce simp: in_batch_of_def)
      qed (use u(1) g False in simp_all)
    qed (use u(1) g idx in \<open>auto intro: tracks_frame\<close>)
  qed (use b(2) g(1,2) in \<open>simp_all add: o_def\<close>)
qed

end

lemma send_batch_other:
  assumes inv: "notifier_inv cfg n" and b: "CurrentBatch n = Some b" "sget (Subscribers n) q = Some info"
      "si_last_init info < bd_sequence b" "\<not> scontains (SubscribersWithCurrentBatch n) q"
    and sent: "sent_only ms n n1" "\<forall>m \<in> set ms. fst m = q" and ne: "q \<noteq> p"
  shows "carries scfg place p idx V A n (if served then mark_served cfg q b n1 else n1)"
proof (rule carries_other [where ms = ms])
  note f = sent_onlyD [OF sent(1)]
  fix ip c r assume ip: "sget (Subscribers n) p = Some ip" "in_batch_of p ip n c r"
  then have "in_batch_of p ip n1 c r" by (simp add: in_batch_of_def f)
  moreover have "in_batch_of p ip (mark_served cfg q b n1) c r"
    by (rule mark_served_other [OF sent_only_inv [OF inv sent(1)], where iq = info]) (use calculation ip b f ne in auto)
  ultimately show "in_batch_of p ip (if served then mark_served cfg q b n1 else n1) c r" by simp
qed (use sent(2) ne in \<open>auto simp: pending_def sent_onlyD [OF sent(1)]\<close>)

context ring_feed
begin

lemma send_batch_carries:
  assumes ok: "feed_ok v" and prov: "ne_provider env = provider v"
    and scfg: "0 < sc_MaxRecentRoots scfg" "nc_MaxUpdatesPerBatch cfg \<le> sc_MaxUpdatesPerBatch scfg" and pos: "0 < nc_MaxUpdatesPerBatch cfg"
    and inv: "notifier_inv cfg n" and auth: "authorize_send_batch env src q sq n = Inr x"
    and room: "q = p \<Longrightarrow> get_xcm_update_batch_size cfg env p \<noteq> None"
    and run: "send_batch cfg env Authorized q sq n = Inr n'"
  shows "carries scfg place p idx (root_view v) A n n'"
proof -
  obtain b info where b: "CurrentBatch n = Some b" "sget (Subscribers n) q = Some info"
    "si_last_init info < bd_sequence b" "\<not> scontains (SubscribersWithCurrentBatch n) q" and sq: "sq = bd_sequence b"
    using auth by (auto simp: authorize_send_batch_def ensure_local_source_def split: if_splits)
  show ?thesis
    using run
  proof (cases rule: send_batch_eq)
    case (1 b' info')
    have "q \<noteq> p" using room 1 pos by (auto simp: get_xcm_update_batch_size_def Let_def split: option.splits if_splits)
    from send_batch_other [OF inv b sent_only_deposit [OF sent_only_refl] _ this,
        of scfg place idx "root_view v" A True "UpdateSendFailed q"]
    show ?thesis using 1 b by simp
  next
    case (2 b' info' k failed n1)
    then have sc: "send_collections cfg env q (si_pallet_index info) k (bd_sequence b) (bd_source_time b) (si_collections info) False n = (failed, n1)"
      and n': "n' = (if failed then n1 else mark_served cfg q b n1)" using b sq by simp_all
    show ?thesis
    proof (cases "q = p")
      case True
      then show ?thesis using send_batch_self [OF ok prov scfg inv b(1,2) 2(3,4) sc] n' by simp
    next
      case False
      obtain ms where "sent_only ms n n1" "\<forall>m \<in> set ms. fst m = q" using send_collections_only [OF sc] by blast
      from send_batch_other [OF inv b this False, of scfg place idx "root_view v" A "\<not> failed"] show ?thesis using n' by (cases failed) simp_all
    qed
  qed
qed

text \<open>A page of the initialisation.\<close>

lemma init_batch_honest:
  assumes ok: "feed_ok v" and prov: "ne_provider env = provider v" and roots: "roots = rp_get_ring_roots_paginated (provider v) i k m"
    and m: "m \<le> nc_MaxUpdatesPerBatch cfg"
  shows "honest (root_view v) (build_init_batch cfg env st i roots)"
    and "length (ub_updates (build_init_batch cfg env st i roots)) \<le> m"
    and "r \<in> fst ` set roots \<Longrightarrow> (i, r) \<in> batch_rings (build_init_batch cfg env st i roots)"
proof -
  have len: "length roots \<le> m" unfolding roots by (rule page_length [OF ok])
  then have us: "ub_updates (build_init_batch cfg env st i roots) =
      map (\<lambda>(r, root, revision). \<lparr>up_ring = r, up_op = RootBuilt revision root\<rparr>) roots"
    using m by (simp add: build_init_batch_def)
  show "honest (root_view v) (build_init_batch cfg env st i roots)"
    unfolding honest_def us using page_sound [OF ok] roots by (auto simp: build_init_batch_def)
  show "length (ub_updates (build_init_batch cfg env st i roots)) \<le> m" using len by (simp add: us)
  show "(i, r) \<in> batch_rings (build_init_batch cfg env st i roots)" if "r \<in> fst ` set roots"
    using that us by (force simp: batch_rings_def build_init_batch_def)
qed

lemma init_advances:
  assumes ok: "feed_ok v" and st: "sget (PendingInit n) p = Some st" and cur: "pi_current st < length (pi_collections st)"
    and bound: "length (pi_collections st) \<le> u32_max" and m: "0 < m"
    and ie: "pi_collections st ! pi_current st = (i, e)" and roots: "roots = rp_get_ring_roots_paginated (provider v) i (pi_after st) m"
    and ahead: "init_of place p n c r" and root: "root_view v c r \<noteq> None"
  shows "(c = i \<and> r \<in> fst ` set roots) \<or>
    init_of place p (advance_init_pagination p st (length (pi_collections st)) (length roots = m)
      (if roots = [] then None else Some (fst (last roots))) n) c r"
proof -
  let ?n' = "advance_init_pagination p st (length (pi_collections st)) (length roots = m) (if roots = [] then None else Some (fst (last roots))) n"
  obtain k where k: "k < length (pi_collections st)" "fst (pi_collections st ! k) = c"
    and pos: "pi_current st < k \<or> pi_current st = k \<and> comes_after place c (pi_after st) r"
    using ahead st by (auto simp: init_of_def init_ahead_def)
  show ?thesis
  proof (cases "length roots = m")
    case True
    then have ne: "roots \<noteq> []" using m by auto
    then have st': "sget (PendingInit ?n') p = Some (st\<lparr>pi_after := Some (fst (last roots))\<rparr>)"
      using True st by (simp add: advance_init_pagination_def)
    show ?thesis
    proof (cases "pi_current st = k \<and> r \<notin> fst ` set roots")
      case at: True
      then have "c = i" "comes_after place i (pi_after st) r" using k ie pos by auto
      then have "comes_after place c (Some (fst (last roots))) r"
        using page_full [OF ok, of i "pi_after st" m r] ne root at unfolding roots by simp
      then show ?thesis using st' k at by (auto simp: init_of_def init_ahead_def)
    next
      case False
      then show ?thesis using st' k ie pos by (auto simp: init_of_def init_ahead_def)
    qed
  next
    case False
    then have less: "length roots < m" using page_length [OF ok, of i "pi_after st" m] unfolding roots by simp
    show ?thesis
    proof (cases "pi_current st = k")
      case True
      then have "c = i" "comes_after place i (pi_after st) r" using k ie pos by auto
      then show ?thesis using page_last [OF ok, of i "pi_after st" m r] less root unfolding roots by simp
    next
      case later: False
      then have lt: "pi_current st < k" using pos by simp
      then have st': "sget (PendingInit ?n') p = Some (st\<lparr>pi_current := pi_current st + 1, pi_after := None\<rparr>)"
        using False st k(1) bound by (simp add: advance_init_pagination_def sat_add_def)
      have "init_ahead place (st\<lparr>pi_current := pi_current st + 1, pi_after := None\<rparr>) c r"
        unfolding init_ahead_def comes_after_def using k lt by (intro exI [of _ k]) auto
      then show ?thesis using st' by (simp add: init_of_def)
    qed
  qed
qed

lemma init_page_self:
  assumes ok: "feed_ok v" and prov: "ne_provider env = provider v"
    and scfg: "0 < sc_MaxRecentRoots scfg" "nc_MaxUpdatesPerBatch cfg \<le> sc_MaxUpdatesPerBatch scfg"
    and m: "0 < m" "m \<le> nc_MaxUpdatesPerBatch cfg"
    and st: "sget (PendingInit n) p = Some st" "pi_current st < length (pi_collections st)" "pi_collections st ! pi_current st = (i, e)"
    and roots: "roots = rp_get_ring_roots_paginated (ne_provider env) i (pi_after st) m"
    and info: "pi_collections st = si_collections info" "pi_sequence st = si_last_init info" "si_last_init info \<le> SealedBatchSequence n"
    and n1: "n1 = n\<lparr>outbox := outbox n @ [(p, pi_pallet_index st, InitializeRingRoots e (build_init_batch cfg env st i roots))]\<rparr>"
    and n': "n' = advance_init_pagination p st (length (pi_collections st)) (length roots = m) (if roots = [] then None else Some (fst (last roots))) n1"
    and bound: "length (si_collections info) \<le> u32_max" and t: "tracks scfg place p info n R (root_view v) A"
  shows "tracks scfg place p info n' (replica_receive scfg idx (idx, InitializeRingRoots e (build_init_batch cfg env st i roots)) R) (root_view v) A"
proof -
  let ?b = "build_init_batch cfg env st i roots"
  let ?R = "(replica_store scfg ?b R)\<lparr>rep_status := SubActive (si_last_init info)\<rparr>"
  obtain P where P: "n' = n1\<lparr>PendingInit := P\<rparr>" using advance_init_form [of n1 p st] st(1) n1 n' by fastforce
  have frame: "SealedBatchSequence n' = SealedBatchSequence n" "pending n' = pending n" "in_batch_of p info n' = in_batch_of p info n"
    using P n1 by (simp_all add: pending_def in_batch_of_def fun_eq_iff)
  have roots': "roots = rp_get_ring_roots_paginated (provider v) i (pi_after st) m" using roots prov by simp
  note b = init_batch_honest [where st = st, OF ok prov roots' m(2)]
  have sq: "ub_sequence ?b = si_last_init info" using info(2) by (simp add: build_init_batch_def)
  have R: "windows_ok scfg (rep_roots R)" and stat: "status_tracked p info n R"
    and rings: "\<And>c r. c \<in> fst ` set (si_collections info) \<Longrightarrow> ring_tracked place p info n R (root_view v) A c r"
    using t unfolding tracks_def by blast+
  have "replica_receive scfg idx (idx, InitializeRingRoots e ?b) R = ?R"
    using receive_init [OF scfg(1), of ?b R idx e] b(2) m(2) scfg(2) stat
    by (simp add: sq status_tracked_def split: SubscriptionStatus.splits)
  moreover have "windows_ok scfg (rep_roots ?R)" "rep_sequence ?R \<le> SealedBatchSequence n'" "status_tracked p info n' ?R"
    using replica_store_windows [OF R, of ?b] info(3) by (simp_all add: sq frame status_tracked_def)
  moreover have "ring_tracked place p info n' ?R (root_view v) A c r" if c: "c \<in> fst ` set (si_collections info)" for c r
  proof -
    have new: "newest (rep_roots ?R) c r = (if (c, r) \<in> batch_rings ?b then root_view v c r else newest (rep_roots R) c r)"
      using newest_stored [OF scfg(1) R b(1)] by simp
    have "(c, r) \<in> batch_rings ?b \<or> init_of place p n' c r" if "init_of place p n c r" "root_view v c r \<noteq> None"
      using init_advances [where n = n1 and p = p and c = c and r = r, OF ok _ st(2) _ m(1) st(3) roots' _ that(2)]
        that(1) st(1) n1 n' bound info(1) b(3) by (auto simp: init_of_def)
    then show ?thesis using rings [OF c, of r] new unfolding ring_tracked_def frame by auto
  qed
  ultimately show ?thesis unfolding tracks_def by (metis (no_types))
qed

lemma init_done_carries:
  assumes inv: "notifier_inv cfg n" and st: "sget (PendingInit n) q = Some st" "\<not> pi_current st < length (pi_collections st)"
    and n': "n' = n\<lparr>PendingInit := sdel q (PendingInit n)\<rparr>"
  shows "carries scfg place p idx V A n n'"
proof (cases "q = p")
  case False
  then show ?thesis using n' by (intro carries_same [where ms = "[]"]) simp_all
next
  case True
  obtain info where info: "sget (Subscribers n) p = Some info" "pi_collections st = si_collections info"
    using inv st(1) True by (fastforce simp: notifier_inv_def subscribers_ok_def)
  have "\<not> init_of place p n c r" for c r using st True by (auto simp: init_of_def init_ahead_def)
  moreover have "si_collections info \<noteq> [] \<Longrightarrow> \<not> init_starts p n" using st True info by (auto simp: init_starts_def)
  moreover have "pending n' = pending n" "in_batch_of p info n' = in_batch_of p info n" "SealedBatchSequence n' = SealedBatchSequence n"
    using n' by (simp_all add: pending_def in_batch_of_def fun_eq_iff)
  ultimately have "tracks scfg place p info n' R V A" if "tracks scfg place p info n R V A" for R
    using that unfolding tracks_def status_tracked_def ring_tracked_def by (cases "rep_status R") auto
  then show ?thesis using info n' by (intro carries_self [where ms = "[]" and info = info]) simp_all
qed

lemma send_init_page_carries:
  assumes ok: "feed_ok v" and prov: "ne_provider env = provider v"
    and scfg: "0 < sc_MaxRecentRoots scfg" "nc_MaxUpdatesPerBatch cfg \<le> sc_MaxUpdatesPerBatch scfg" and pos: "0 < nc_MaxUpdatesPerBatch cfg"
    and inv: "notifier_inv cfg n" and run: "send_init_page cfg env Authorized q n = Inr n'"
  shows "carries scfg place p idx (root_view v) A n n'"
  using run
proof (cases rule: send_init_page_eq)
  case 1
  then show ?thesis by (intro carries_same [where ms = "[]"]) simp_all
next
  case (2 st)
  then show ?thesis by (intro init_done_carries [OF inv])
next
  case (3 st m i e roots n1)
  obtain P where P: "n' = n1\<lparr>PendingInit := P\<rparr>" using advance_init_form [of n1 q st] 3(1,6,7) by fastforce
  show ?thesis
  proof (cases "q = p")
    case False
    then have "sget (PendingInit n') p = sget (PendingInit n) p"
      unfolding 3(7) using 3(6) by (auto simp: advance_init_pagination_def split: option.split)
    then show ?thesis using P 3(6) False
      by (intro carries_same [where ms = "[(q, pi_pallet_index st, InitializeRingRoots e (build_init_batch cfg env st i roots))]"]) auto
  next
    case True
    obtain info where info: "sget (Subscribers n) p = Some info" "pi_collections st = si_collections info"
      "pi_sequence st = si_last_init info" "pi_pallet_index st = si_pallet_index info" "si_last_init info \<le> SealedBatchSequence n"
      using inv 3(1) True by (fastforce simp: notifier_inv_def subscribers_ok_def)
    have m: "0 < m" "m \<le> nc_MaxUpdatesPerBatch cfg"
      using 3(2) pos batch_size_le by (auto simp: get_xcm_update_batch_size_def Let_def split: option.splits if_splits)
    show ?thesis
    proof (rule carries_self [where ms = "[(si_pallet_index info, InitializeRingRoots e (build_init_batch cfg env st i roots))]" and info = info])
      fix R assume "si_pallet_index info = idx" "length (si_collections info) \<le> u32_max" "tracks scfg place p info n R (root_view v) A"
      then show "tracks scfg place p info n' (fold (replica_receive scfg idx)
          [(si_pallet_index info, InitializeRingRoots e (build_init_batch cfg env st i roots))] R) (root_view v) A"
        using init_page_self [OF ok prov scfg m _ 3(3,4,5) info(2,3,5), of p n1 n' R A idx] 3(1,6,7) True by simp
    qed (use info P 3(6) True in simp_all)
  qed
qed

end

end
