(* ===== verification/Replication_Steps.thy ===== *)
theory Replication_Steps
  imports Replication_Feed
begin

text \<open>
  Every step of the system keeps its invariant, as long as no message is lost: a batch is sent only
  over a channel with room, a batch the chain waits for is not abandoned, and the chain stays subscribed.
\<close>

subsection \<open>The guard\<close>

fun members_room :: "'m members_op \<Rightarrow> ('m, 'root, 'inter) members_state \<Rightarrow> bool" where
  "members_room (Maintain local (RemoveSuspendedKeys i r v)) s = (rr_revision (the (sget (Root s) (i, r))) < u32_max)"
| "members_room _ s = True"

fun lossless :: "('m, 'root, 'inter, 'c) feed_config \<Rightarrow> 'root notifier_env \<Rightarrow> notifier_op \<Rightarrow> 'root notifier_state \<Rightarrow> bool" where
  "lossless fc env (Subscribe origin p cs idx) n = (p = here fc \<longrightarrow> idx = fc_pallet fc \<and> length cs \<le> u32_max)"
| "lossless fc env (Unsubscribe origin x) n =
     (case unsubscribe_origin origin x of Inl _ \<Rightarrow> True | Inr (p, _) \<Rightarrow> p \<noteq> here fc)"
| "lossless fc env (Worker source (SendBatch p q d)) n =
     (p = here fc \<longrightarrow> get_xcm_update_batch_size (fc_notifier fc) env p \<noteq> None)"
| "lossless fc env (Worker source (AbandonStuckBatch d)) n =
     (case (CurrentBatch n, sget (Subscribers n) (here fc)) of
        (Some b, Some info) \<Rightarrow> bd_sequence b \<le> si_last_init info \<or> scontains (SubscribersWithCurrentBatch n) (here fc)
      | _ \<Rightarrow> True)"
| "lossless fc env _ n = True"

fun world_guard :: "('m, 'root, 'inter, 'c) feed_config \<Rightarrow> ('m, 'root, 'c) world_op \<Rightarrow> ('m, 'root, 'inter) world \<Rightarrow> bool" where
  "world_guard fc (WMembers env x) w =
     (members_guard (fc_members fc) (env, x) (w_members w) \<and> members_room x (w_members w) \<and>
      write_page (PageState (w_notifier w)) + 1 \<noteq> send_page (PageState (w_notifier w)))"
| "world_guard fc (WNotifier env x) w =
     (notifier_guard (fc_notifier fc) (env, x) (w_notifier w) \<and> lossless fc env x (w_notifier w))"
| "world_guard fc (WTerminate env origin) w = False"
| "world_guard fc _ w = True"

subsection \<open>The invariant\<close>

definition members_side :: "('m, 'root, 'inter, 'c) feed_config \<Rightarrow> ('m, 'root, 'inter) world \<Rightarrow> bool" where
  "members_side fc w \<longleftrightarrow> members_inv (fc_members fc) (w_members w) \<and> wf_storage (Root (w_members w)) \<and> announce_inv (w_members w)"

definition feed_inv :: "('m, 'root, 'inter, 'c) feed_config \<Rightarrow> ('m, 'root, 'inter) world \<Rightarrow> bool" where
  "feed_inv fc w \<longleftrightarrow> feed_config_ok fc \<and> members_side fc w \<and> notifier_inv (fc_notifier fc) (w_notifier w) \<and> channel_ok fc w \<and>
     tracked (fc_subscriber fc) (fc_hashed fc) (here fc) (fc_pallet fc) (w_notifier w) (settled fc w)
       (members_root_view (w_members w)) (announced (root_changes (w_members w)))"

lemma replica_of_genesis: "replica_of subscriber_genesis = initial_replica"
  by (simp add: replica_of_def subscriber_genesis_def initial_replica_def default_processing_state_def)

lemma feed_inv_genesis: "feed_config_ok fc \<Longrightarrow> feed_inv fc world_genesis"
  by (simp add: feed_inv_def members_side_def world_genesis_def members_genesis_inv notifier_genesis_inv announce_inv_genesis
      channel_ok_def settled_def in_transit_def messages_to_def tracked_def replica_of_genesis)
     (simp add: members_genesis_def notifier_genesis_def)

subsection \<open>Calls of the notifier\<close>

lemma feed_inv_carried:
  assumes inv: "feed_inv fc w" and n': "notifier_inv (fc_notifier fc) n'"
    and carried: "carries (fc_subscriber fc) (fc_hashed fc) (here fc) (fc_pallet fc) (members_root_view (w_members w))
      (announced (root_changes (w_members w))) (w_notifier w) n'"
  shows "feed_inv fc (w\<lparr>w_notifier := n'\<rparr>)"
proof -
  obtain ms where ms: "outbox n' = outbox (w_notifier w) @ ms"
    and t: "\<And>R. tracked (fc_subscriber fc) (fc_hashed fc) (here fc) (fc_pallet fc) (w_notifier w) R
        (members_root_view (w_members w)) (announced (root_changes (w_members w))) \<Longrightarrow>
      tracked (fc_subscriber fc) (fc_hashed fc) (here fc) (fc_pallet fc) n'
        (fold (replica_receive (fc_subscriber fc) (fc_pallet fc)) (messages_to (here fc) ms) R)
        (members_root_view (w_members w)) (announced (root_changes (w_members w)))"
    using carried unfolding carries_def by blast
  have ch: "channel_ok fc w" using inv by (simp add: feed_inv_def)
  show ?thesis using inv n' t settled_send [OF ch ms] in_transit_send(2) [OF ch ms]
    by (simp add: feed_inv_def members_side_def)
qed

lemma worker_carries:
  assumes inv: "feed_inv fc w" and prov: "ne_provider env = members_provider (fc_hashed fc) (w_members w)"
    and guard: "notifier_guard (fc_notifier fc) (env, Worker src c) (w_notifier w)" "lossless fc env (Worker src c) (w_notifier w)"
    and auth: "notifier_authorize (fc_notifier fc) env src c (w_notifier w) = Inr x"
    and ok: "notifier_dispatch (fc_notifier fc) env c (w_notifier w) = Inr n'"
  shows "carries (fc_subscriber fc) (fc_hashed fc) (here fc) (fc_pallet fc) (members_root_view (w_members w)) A (w_notifier w) n'"
proof -
  have n: "notifier_inv (fc_notifier fc) (w_notifier w)" using inv by (simp add: feed_inv_def)
  have feed: "members_feed_ok (fc_hashed fc) (w_members w)"
    using inv by (simp add: feed_inv_def members_side_def feed_config_ok_def members_feed_ok_def)
  have scfg: "0 < sc_MaxRecentRoots (fc_subscriber fc)" "nc_MaxUpdatesPerBatch (fc_notifier fc) \<le> sc_MaxUpdatesPerBatch (fc_subscriber fc)"
    "0 < nc_MaxUpdatesPerBatch (fc_notifier fc)"
    using inv by (simp_all add: feed_inv_def feed_config_ok_def notifier_config_ok_def)
  show ?thesis
  proof (cases c)
    case (EnqueueUpdates pg d)
    then have "CurrentBatch (w_notifier w) = None"
      using auth by (auto simp: authorize_enqueue_updates_def ensure_local_source_def split: if_splits)
    then show ?thesis using enqueue_carries [OF n] guard ok EnqueueUpdates by simp
  next
    case (SendBatch p q d)
    then show ?thesis
      using members_feed.send_batch_carries [OF feed prov scfg n, of src p q x "here fc" n'] auth ok guard(2) by simp
  next
    case (SendInitPage p i k d)
    then show ?thesis using members_feed.send_init_page_carries [OF feed prov scfg n] ok by simp
  next
    case (AbandonStuckBatch d)
    then have "\<not> in_batch_of (here fc) info (w_notifier w) i r" if "sget (Subscribers (w_notifier w)) (here fc) = Some info" for info i r
      using that guard(2) by (auto simp: in_batch_of_def)
    then show ?thesis using abandon_carries [of "fc_notifier fc" "w_notifier w" n' "here fc"] ok AbandonStuckBatch by simp
  qed
qed

lemma notifier_call_carries:
  assumes inv: "feed_inv fc w" and prov: "ne_provider env = members_provider (fc_hashed fc) (w_members w)"
    and guard: "notifier_guard (fc_notifier fc) (env, x) (w_notifier w)" "lossless fc env x (w_notifier w)"
    and x: "\<And>i r. x \<noteq> RootChange i r" and ok: "notifier_step (fc_notifier fc) (env, x) (w_notifier w) = Inr n'"
  shows "carries (fc_subscriber fc) (fc_hashed fc) (here fc) (fc_pallet fc) (members_root_view (w_members w)) A (w_notifier w) n'"
proof -
  have n: "notifier_inv (fc_notifier fc) (w_notifier w)" using inv by (simp add: feed_inv_def)
  have feed: "members_feed_ok (fc_hashed fc) (w_members w)"
    using inv by (simp add: feed_inv_def members_side_def feed_config_ok_def members_feed_ok_def)
  have scfg: "0 < sc_MaxRecentRoots (fc_subscriber fc)" "nc_MaxUpdatesPerBatch (fc_notifier fc) \<le> sc_MaxUpdatesPerBatch (fc_subscriber fc)"
    using inv by (simp_all add: feed_inv_def feed_config_ok_def)
  show ?thesis
  proof (cases x)
    case (Subscribe origin p cs idx)
    then show ?thesis
      using subscribe_other_carries [of "fc_notifier fc" env origin p cs idx "w_notifier w" n' "here fc"]
        subscribe_self_carries [of "fc_notifier fc" env origin p cs idx "w_notifier w" n', OF _ n] ok guard(2)
      by (cases "p = here fc") auto
  next
    case (Unsubscribe origin y)
    then show ?thesis using unsubscribe_carries [OF n] ok guard(2) by simp
  next
    case (RequestReplay origin p i xs)
    then show ?thesis using members_feed.replay_carries [OF feed prov scfg] ok by simp
  next
    case (Worker src c)
    then show ?thesis using worker_carries [OF inv prov] guard ok by auto
  qed (use x in simp)
qed

subsection \<open>Calls of the members pallet\<close>

lemma note_pending: "pending (note_root_change cfg i r n) i r" and note_keeps: "pending n c q \<Longrightarrow> pending (note_root_change cfg i r n) c q"
proof -
  show "pending (note_root_change cfg i r n) i r"
    by (auto simp: pending_def note_root_change_def Let_def)
  show "pending (note_root_change cfg i r n) c q" if old: "pending n c q"
  proof -
    obtain pg where pg: "scontains (PendingUpdates n) (pg, c, q)" using old by (auto simp: pending_def)
    have "scontains (PendingUpdates (note_root_change cfg i r n)) (pg, c, q)"
      using pg by (auto simp: note_root_change_def Let_def)
    then show ?thesis by (auto simp: pending_def)
  qed
qed

lemma tracked_change:
  assumes "tracked cfg place p idx n R V A"
    and "\<And>c r. (c, r) \<noteq> x \<Longrightarrow> V' c r = V c r \<and> A' c r = A c r"
    and "V' (fst x) (snd x) \<noteq> A' (fst x) (snd x) \<or> pending n (fst x) (snd x)"
  shows "tracked cfg place p idx n R V' A'"
proof -
  have "tracks cfg place p info n R V' A'" if "tracks cfg place p info n R V A" for info
    by (rule tracks_change [where V = V and A = A and x = x]) (use that assms(2,3) in blast)+
  then show ?thesis using assms(1) by (auto simp: tracked_def split: option.splits)
qed

lemma tracked_noted:
  assumes "tracked cfg place p idx n R V A"
  shows "tracked cfg place p idx (note_root_change ncfg i r n) R V A"
proof -
  have "tracks cfg place p info (note_root_change ncfg i r n) R V A" if "tracks cfg place p info n R V A" for info
    using that by (rule tracks_mono) (simp_all add: note_keeps, simp add: in_batch_of_def)
  then show ?thesis using assms by (auto simp: tracked_def split: option.splits)
qed

lemma silent_room:
  "world_guard fc (WMembers env x) w \<Longrightarrow> x = Maintain local (RemoveSuspendedKeys i r v) \<Longrightarrow>
   rr_revision (the (sget (Root (w_members w)) (i, r))) < u32_max"
  by simp

lemma members_step_feed:
  assumes inv: "feed_inv fc w" and guard: "world_guard fc (WMembers env x) w" and ok: "world_step fc (WMembers env x) w = Inr w'"
  shows "feed_inv fc w'"
proof -
  let ?s = "w_members w" and ?n = "w_notifier w"
  obtain s' where s': "members_step (fc_members fc) (env, x) ?s = Inr s'"
    and w': "w' = w\<lparr>w_members := s', w_notifier := note_changes (fc_notifier fc) (drop (length (root_changes ?s)) (root_changes s')) ?n\<rparr>"
    using ok by auto
  have cfg: "members_config_ok (fc_members fc)" "notifier_config_ok (fc_notifier fc)" and m: "members_inv (fc_members fc) ?s" "announce_inv ?s"
    and n: "notifier_inv (fc_notifier fc) ?n" and t: "tracked (fc_subscriber fc) (fc_hashed fc) (here fc) (fc_pallet fc) ?n (settled fc w)
       (members_root_view ?s) (announced (root_changes ?s))"
    using inv unfolding feed_inv_def feed_config_ok_def members_side_def by blast+
  have m': "members_inv (fc_members fc) s'" using members.step_keeps [of "fc_members fc" ?s "(env, x)" s'] cfg m guard s' by simp
  note kinds = conjunct1 [OF members_step_announces [OF cfg(1) m(1) s']]
  have wf: "wf_storage (Root s')" using members_step_announces [OF cfg(1) m(1) s'] inv unfolding feed_inv_def members_side_def by blast
  have finish: "feed_inv fc w'" if "announce_inv s'" and "notifier_inv (fc_notifier fc) (w_notifier w')" and "outbox (w_notifier w') = outbox ?n"
    and "tracked (fc_subscriber fc) (fc_hashed fc) (here fc) (fc_pallet fc) (w_notifier w') (settled fc w) (members_root_view s') (announced (root_changes s'))"
  proof -
    have f: "w_members w' = s'" "w_delivered w' = w_delivered w" "w_subscriber w' = w_subscriber w" by (simp_all add: w')
    have "in_transit fc w' = in_transit fc w" by (simp only: in_transit_def f that(3))
    then have "settled fc w' = settled fc w" by (simp only: settled_def f)
    moreover have "channel_ok fc w'" using inv by (simp only: feed_inv_def channel_ok_def f that(3))
    moreover have "feed_config_ok fc" using inv by (simp only: feed_inv_def)
    ultimately show ?thesis using that m' wf by (simp only: feed_inv_def members_side_def f)
  qed
  consider (quiet) "quiet ?s s'" | (announces) "announces ?s s'"
    | (silent) i r where "silent i r ?s s'" "rr_revision (the (sget (Root ?s) (i, r))) < u32_max"
    using kinds silent_room [OF guard] by blast
  then show ?thesis
  proof cases
    case quiet
    then have "root_changes s' = root_changes ?s" "members_root_view s' = members_root_view ?s"
      unfolding quiet_def members_root_view_def fun_eq_iff by simp_all
    then show ?thesis using announce_inv_quiet [OF m(2) quiet] n t by (intro finish) (simp_all add: w' note_changes_def)
  next
    case announces
    then obtain i r c where log: "root_changes s' = root_changes ?s @ [(i, r, c)]"
      and old: "\<And>j q. (j, q) \<noteq> (i, r) \<Longrightarrow> members_root_view s' j q = members_root_view ?s j q" unfolding announces_def by blast
    have n': "w_notifier w' = note_root_change (fc_notifier fc) i r ?n" by (simp add: w' log note_changes_def)
    have "tracked (fc_subscriber fc) (fc_hashed fc) (here fc) (fc_pallet fc) (w_notifier w') (settled fc w) (members_root_view s') (announced (root_changes s'))"
      unfolding n' by (rule tracked_change [OF tracked_noted [OF t], where x = "(i, r)"]) (use old in \<open>auto simp: log note_pending\<close>)
    then show ?thesis using announce_inv_announces [OF m(2) announces] note_root_change_inv [OF n cfg(2), of i r] guard
      by (intro finish) (simp_all add: n')
  next
    case (silent i r)
    then have log: "root_changes s' = root_changes ?s" and old: "\<And>j q. (j, q) \<noteq> (i, r) \<Longrightarrow> members_root_view s' j q = members_root_view ?s j q"
      by (auto simp: silent_def)
    have "tracked (fc_subscriber fc) (fc_hashed fc) (here fc) (fc_pallet fc) ?n (settled fc w) (members_root_view s') (announced (root_changes s'))"
      by (rule tracked_change [OF t, where x = "(i, r)"]) (use old silent_unannounced [OF m(2) silent] in \<open>auto simp: log\<close>)
    then show ?thesis using announce_inv_silent [OF m(2) silent] n by (intro finish) (simp_all add: w' log note_changes_def)
  qed
qed

subsection \<open>All steps\<close>

lemma with_members_guard:
  "notifier_guard cfg (with_members fc w env, y) n = notifier_guard cfg (env, y) n"
  "lossless fc (with_members fc w env) y n = lossless fc env y n"
proof -
  have "get_xcm_update_batch_size cfg (with_members fc w env) p = get_xcm_update_batch_size cfg env p" for cfg p
    by (simp add: get_xcm_update_batch_size_def max_xcm_payload_for_subscriber_def with_members_def)
  then show "lossless fc (with_members fc w env) y n = lossless fc env y n" by (cases "(fc, env, y, n)" rule: lossless.cases) simp_all
  show "notifier_guard cfg (with_members fc w env, y) n = notifier_guard cfg (env, y) n"
    by (cases "(cfg, (env, y), n)" rule: notifier_guard.cases) simp_all
qed

lemma world_step_inv:
  assumes inv: "feed_inv fc w" and guard: "world_guard fc x w" and ok: "world_step fc x w = Inr w'"
  shows "feed_inv fc w'"
proof (cases x)
  case (WMembers env y)
  then show ?thesis using members_step_feed [OF inv] guard ok by blast
next
  case (WNotifier env y)
  let ?env = "with_members fc w env"
  have y: "y \<noteq> RootChange i r" for i r using ok WNotifier by auto
  then obtain n' where n': "notifier_step (fc_notifier fc) (?env, y) (w_notifier w) = Inr n'" and w': "w' = w\<lparr>w_notifier := n'\<rparr>"
    using ok WNotifier by (auto split: notifier_op.splits)
  have g: "notifier_guard (fc_notifier fc) (?env, y) (w_notifier w)" "lossless fc ?env y (w_notifier w)"
    using guard WNotifier by (simp_all add: with_members_guard)
  have "notifier_inv (fc_notifier fc) n'"
    using notifier.step_keeps [OF _ g(1) n'] inv by (simp add: feed_inv_def feed_config_ok_def)
  then show ?thesis unfolding w'
    by (rule feed_inv_carried [OF inv]) (rule notifier_call_carries [OF inv _ g y n'], simp add: with_members_def)
next
  case (WDeliver env)
  then have "settled fc w' = settled fc w" "channel_ok fc w'" "w_members w' = w_members w" "w_notifier w' = w_notifier w"
    using inv settled_deliver [of fc env w w'] ok by (auto simp: feed_inv_def split: list.splits)
  then show ?thesis using inv by (simp add: feed_inv_def members_side_def)
next
  case (WReplay env src i xs)
  then have "settled fc w' = settled fc w" "channel_ok fc w'" "w_members w' = w_members w" "w_notifier w' = w_notifier w"
    using inv settled_replay [of fc env src i xs w w'] ok by (auto simp: feed_inv_def)
  then show ?thesis using inv by (simp add: feed_inv_def members_side_def)
qed (use guard in simp)

end
