(* ===== verification/Replication_History.thy ===== *)
theory Replication_History
  imports Replication_Steps
begin

text \<open>
  Where the roots of a subscriber come from. Whatever messages are lost, delayed or sent
  again, a message tells roots the members pallet had when it was sent, and a subscriber stores nothing else.
\<close>

subsection \<open>Roots told and roots stored\<close>

definition told :: "'root SubscriberCall \<Rightarrow> (coll_id \<times> nat \<times> nat \<times> 'root) set" where
  "told c = (case call_batch c of
     None \<Rightarrow> {}
   | Some b \<Rightarrow> {(ub_identifier b, up_ring u, v, root) | u v root. u \<in> set (ub_updates b) \<and> up_op u = RootBuilt v root})"

definition stored :: "'root windows \<Rightarrow> (coll_id \<times> nat \<times> nat \<times> 'root) set" where
  "stored R = {(i, r, p) | i r p. p \<in> window_roots R i r}"

definition held :: "('m, 'root, 'inter) members_state \<Rightarrow> (coll_id \<times> nat \<times> nat \<times> 'root) set" where
  "held s = {(i, r, p) | i r p. members_root_view s i r = Some p}"

lemma stored_Nil [simp]: "stored [] = {}"
  by (simp add: stored_def window_roots_def sget_or_def)

lemma told_terminate [simp]: "told TerminateSubscription = {}"
  by (simp add: told_def)

lemma told_honest:
  assumes "call_batch c = Some b" and "honest V b"
  shows "told c \<subseteq> {(i, r, p) | i r p. V i r = Some p}"
proof -
  have "V (ub_identifier b) (up_ring u) = Some (v, root)" if "u \<in> set (ub_updates b)" "up_op u = RootBuilt v root" for u v root
    using assms(2) that by (metis honest_def op_view.simps(1))
  then show ?thesis using assms(1) by (auto simp: told_def)
qed

lemma stored_store_root:
  "stored (store_root cfg b u R) \<subseteq> stored R \<union> {(ub_identifier b, up_ring u, v, root) | v root. up_op u = RootBuilt v root}"
proof
  let ?V = "\<lambda>i r. if i = ub_identifier b \<and> r = up_ring u then op_view (up_op u) else None"
  fix y assume y: "y \<in> stored (store_root cfg b u R)"
  obtain i r w x where eq: "y = (i, r, w, x)" by (metis prod_cases4)
  have "(w, x) \<in> window_roots R i r \<or> ?V i r = Some (w, x)"
    using y by (intro window_roots_store_root [of u ?V b]) (simp_all add: stored_def eq)
  then show "y \<in> stored R \<union> {(ub_identifier b, up_ring u, v, root) | v root. up_op u = RootBuilt v root}"
    by (cases "up_op u") (auto simp: stored_def eq split: if_splits)
qed

lemma stored_fold:
  "stored (fold (store_root cfg b) us R) \<subseteq>
   stored R \<union> {(ub_identifier b, up_ring u, v, root) | u v root. u \<in> set us \<and> up_op u = RootBuilt v root}"
proof (induction us arbitrary: R)
  case (Cons u us)
  show ?case using Cons.IH [of "store_root cfg b u R"] stored_store_root [of cfg b u R] by fastforce
qed simp

lemma stored_replica_store:
  "call_batch c = Some b \<Longrightarrow> stored (rep_roots (replica_store cfg b R)) \<subseteq> stored (rep_roots R) \<union> told c"
  using stored_fold [of cfg b "ub_updates b" "rep_roots R"] by (simp add: replica_store_def told_def)

lemma wf_store_root: "wf_storage R \<Longrightarrow> wf_storage (store_root cfg b u R)"
  by (simp add: store_root_def Let_def split: RingRootOp.split)

lemma wf_replica_store: "wf_storage (rep_roots R) \<Longrightarrow> wf_storage (rep_roots (replica_store cfg b R))"
proof -
  have "wf_storage (fold (store_root cfg b) us m)" if "wf_storage m" for us and m :: "'a windows"
    using that by (induction us arbitrary: m) (simp_all add: wf_store_root)
  then show "wf_storage (rep_roots R) \<Longrightarrow> wf_storage (rep_roots (replica_store cfg b R))" by (simp add: replica_store_def)
qed

lemma replica_clear_stored:
  assumes "wf_storage (rep_roots R)"
  shows "stored (rep_roots (replica_clear cfg R)) \<subseteq> stored (rep_roots R)" and "wf_storage (rep_roots (replica_clear cfg R))"
proof -
  have "window_roots (rep_roots (replica_clear cfg R)) i r \<subseteq> window_roots (rep_roots R) i r" for i r
    using sget_or_sclear_wf [OF assms, of "sat_mul u32_max (sc_MaxCollections cfg) (sc_MaxRingRoots cfg)" "(i, r)"]
    by (auto simp: window_roots_def replica_clear_def)
  then show "stored (rep_roots (replica_clear cfg R)) \<subseteq> stored (rep_roots R)" unfolding stored_def by blast
  show "wf_storage (rep_roots (replica_clear cfg R))"
    using assms by (simp add: replica_clear_def sclear_def wf_storage_def drop_map [symmetric])
qed

lemma replica_receive_stored:
  assumes wf: "wf_storage (rep_roots R)"
  shows "stored (rep_roots (replica_receive cfg idx m R)) \<subseteq> stored (rep_roots R) \<union> told (snd m) \<and>
    wf_storage (rep_roots (replica_receive cfg idx m R))"
proof -
  note clear = replica_clear_stored [OF wf, of cfg]
  have "stored (rep_roots (replica_call cfg c R)) \<subseteq> stored (rep_roots R) \<union> told c \<and> wf_storage (rep_roots (replica_call cfg c R))" for c
  proof (cases c)
    case (InitializeRingRoots e b)
    then show ?thesis
      using stored_replica_store [of c b cfg R] stored_replica_store [of c b cfg "replica_clear cfg R"] clear wf
      by (auto simp: wf_replica_store split: SubscriptionStatus.split)
  next
    case (UpdateRingRoots b)
    then show ?thesis using stored_replica_store [of c b cfg R] wf by (auto simp: wf_replica_store split: SubscriptionStatus.split)
  next
    case TerminateSubscription
    then show ?thesis using clear wf by (auto split: SubscriptionStatus.split)
  qed
  then show ?thesis using wf by (simp add: replica_receive_def)
qed

lemma terminate_stored:
  assumes wf: "wf_storage (RingRoots s)" and ok: "terminate_subscription cfg env origin s = Inr s'"
  shows "stored (RingRoots s') \<subseteq> stored (RingRoots s) \<and> wf_storage (RingRoots s')"
proof -
  have "RingRoots s' = RingRoots s \<or> RingRoots s' = rep_roots (replica_clear cfg (replica_of s))"
    using ok by (auto simp: terminate_subscription_def send_to_notifier_def subscriber_deposit_def replica_clear_def replica_of_def
      clear_all_ring_data_def Let_def ensure_def split: SubscriptionStatus.splits if_splits sum.splits)
  then show ?thesis using wf replica_clear_stored [of "replica_of s" cfg] by (auto simp: replica_of_def)
qed

subsection \<open>The notifier tells roots as they are\<close>

definition told_by :: "'root sent \<Rightarrow> (coll_id \<times> nat \<times> nat \<times> 'root) set" where
  "told_by m = told (snd (snd m))"

definition tells :: "(coll_id \<Rightarrow> nat \<Rightarrow> (nat \<times> 'root) option) \<Rightarrow> 'root notifier_state \<Rightarrow> 'root notifier_state \<Rightarrow> bool" where
  "tells V n n' \<longleftrightarrow> (\<exists>ms. outbox n' = outbox n @ ms \<and> (\<forall>m \<in> set ms. told_by m \<subseteq> {(i, r, p) | i r p. V i r = Some p}))"

lemma tells_nothing: "outbox n' = outbox n \<Longrightarrow> tells V n n'"
  unfolding tells_def by (intro exI [of _ "[]"]) simp

lemma tells_batch:
  assumes "outbox n' = outbox n @ [(p, idx, c)]" and "call_batch c = Some b" and "honest V b"
  shows "tells V n n'"
  unfolding tells_def using assms told_honest [OF assms(2,3)] by (intro exI [of _ "[(p, idx, c)]"]) (simp add: told_by_def)

lemma unsubscribe_tells:
  assumes "unsubscribe cfg env origin y n = Inr n'"
  shows "tells V n n'"
proof -
  obtain p own info where or: "unsubscribe_origin origin y = Inr (p, own)" and info: "sget (Subscribers n) p = Some info"
    using assms by (auto simp: unsubscribe_def)
  obtain ms where ms: "sent_only ms n (case send_xcm_call_to_subscriber env p TerminateSubscription (si_pallet_index info) n of Inl _ \<Rightarrow> n | Inr n1 \<Rightarrow> n1)"
    "set ms \<subseteq> {(p, si_pallet_index info, TerminateSubscription)}"
    using terminate_sent [of n env p TerminateSubscription "si_pallet_index info"] by blast
  have "outbox n' = outbox n @ (if own then [] else ms)"
    using assms or info sent_onlyD(1) [OF ms(1)] by (cases own) (auto simp: unsubscribe_def notifier_deposit_def Let_def)
  then show ?thesis unfolding tells_def using ms(2) by (intro exI [of _ "if own then [] else ms"]) (auto simp: told_by_def)
qed

context ring_feed
begin

lemma replay_tells:
  assumes ok: "feed_ok v" and prov: "ne_provider env = provider v" and "request_replay cfg env origin p i xs n = Inr n'"
  shows "tells (root_view v) n n'"
  using assms(3)
proof (rule request_replay_sent)
  fix info m b L
  assume b: "b = \<lparr>ub_identifier = i, ub_sequence = SealedBatchSequence n, ub_source_time = ne_now env,
      ub_updates = resolve_updates_for_indices env i xs, ub_next_ring_index = rp_next_ring_index (ne_provider env) i\<rparr>"
    and n': "n' = notifier_deposit (ReplayRequested p i (length xs))
      (n\<lparr>outbox := outbox n @ [(p, si_pallet_index info, UpdateRingRoots b)], LastReplayTime := L\<rparr>)"
  have "honest (root_view v) b" by (rule resolved_part_honest [OF ok prov, where xs = xs]) (simp add: b)
  then show ?thesis
    by (intro tells_batch [where c = "UpdateRingRoots b" and b = b and p = p and idx = "si_pallet_index info"]) (simp_all add: n' notifier_deposit_def)
qed

lemma send_batch_tells:
  assumes ok: "feed_ok v" and prov: "ne_provider env = provider v" and "send_batch cfg env Authorized p q n = Inr n'"
  shows "tells (root_view v) n n'"
  using assms(3)
proof (cases rule: send_batch_eq)
  case (1 b info)
  then show ?thesis by (intro tells_nothing) (simp add: notifier_deposit_def)
next
  case (2 b info k failed s1)
  obtain bs where bs: "sent_only (map (\<lambda>b. (p, si_pallet_index info, UpdateRingRoots b)) bs) n s1"
    "\<forall>b \<in> set bs. fresh_batch (root_view v) q k b"
    using send_collections_sent [OF ok prov 2(4) batch_size_le [OF 2(3)] 2(5)] by blast
  have "told (UpdateRingRoots b) \<subseteq> {(i, r, p) | i r p. root_view v i r = Some p}" if "b \<in> set bs" for b
    using bs(2) that by (intro told_honest [where b = b]) (simp_all add: fresh_batch_def)
  then show ?thesis using sent_onlyD(1) [OF bs(1)] 2(6) unfolding tells_def
    by (intro exI [of _ "map (\<lambda>b. (p, si_pallet_index info, UpdateRingRoots b)) bs"]) (auto simp: told_by_def)
qed

lemma send_init_page_tells:
  assumes ok: "feed_ok v" and prov: "ne_provider env = provider v" and "send_init_page cfg env Authorized p n = Inr n'"
  shows "tells (root_view v) n n'"
  using assms(3)
proof (cases rule: send_init_page_eq)
  case (3 st m i e roots n1)
  have "honest (root_view v) (build_init_batch cfg env st i roots)"
    using 3(5) prov by (intro init_batch_honest(1) [OF ok prov _ batch_size_le [OF 3(2)]]) simp
  moreover obtain P where "n' = n1\<lparr>PendingInit := P\<rparr>" using advance_init_form [of n1 p st] 3(1,6,7) by fastforce
  ultimately show ?thesis using 3(6)
    by (intro tells_batch [where c = "InitializeRingRoots e (build_init_batch cfg env st i roots)"
          and b = "build_init_batch cfg env st i roots" and p = p and idx = "pi_pallet_index st"]) simp_all
qed (auto intro: tells_nothing)

lemma notifier_tells:
  assumes ok: "feed_ok v" and prov: "ne_provider env = provider v" and step: "notifier_step cfg (env, x) n = Inr n'"
  shows "tells (root_view v) n n'"
proof (cases x)
  case (Subscribe origin p cs idx)
  then show ?thesis using step by (intro tells_nothing) (auto simp: subscribe_def notifier_deposit_def register_for_init_def)
next
  case (Worker src c)
  then have d: "notifier_dispatch cfg env c n = Inr n'" using step by auto
  show ?thesis
  proof (cases c)
    case (EnqueueUpdates pg t)
    then have "enqueue_updates cfg env Authorized n = Inr n'" using d by simp
    from enqueue_updates_eq [OF this] show ?thesis by (intro tells_nothing) simp
  next
    case (AbandonStuckBatch t)
    then show ?thesis using d by (intro tells_nothing) (auto simp: abandon_stuck_batch_def notifier_deposit_def clear_batch_def)
  qed (use d send_batch_tells [OF ok prov] send_init_page_tells [OF ok prov] in auto)
next
  case (RootChange i r)
  then show ?thesis using step by (intro tells_nothing) auto
qed (use step unsubscribe_tells replay_tells [OF ok prov] in auto)

end

subsection \<open>The history of a run\<close>

definition past_inv ::
  "('m, 'root, 'inter, 'c) feed_config \<Rightarrow> (coll_id \<times> nat \<times> nat \<times> 'root) set \<Rightarrow> ('m, 'root, 'inter) world \<Rightarrow> bool" where
  "past_inv fc S w \<longleftrightarrow> members_inv (fc_members fc) (w_members w) \<and> wf_storage (Root (w_members w)) \<and>
     held (w_members w) \<subseteq> S \<and> (\<forall>m \<in> set (outbox (w_notifier w)). told_by m \<subseteq> S) \<and>
     wf_storage (RingRoots (w_subscriber w)) \<and> stored (RingRoots (w_subscriber w)) \<subseteq> S"

fun members_only_guard :: "('m, 'root, 'inter, 'c) feed_config \<Rightarrow> ('m, 'root, 'c) world_op \<Rightarrow> ('m, 'root, 'inter) world \<Rightarrow> bool" where
  "members_only_guard fc (WMembers env x) w = members_guard (fc_members fc) (env, x) (w_members w)"
| "members_only_guard fc _ w = True"

lemma past_inv_mono: "past_inv fc S w \<Longrightarrow> S \<subseteq> S' \<Longrightarrow> past_inv fc S' w"
  unfolding past_inv_def by blast

lemma note_changes_outbox [simp]: "outbox (note_changes cfg xs n) = outbox n"
  unfolding note_changes_def by (induction xs arbitrary: n) (auto simp: split: prod.split)

lemma rep_roots_of: "rep_roots (replica_of s) = RingRoots s"
  by (simp add: replica_of_def)

lemma in_transit_told:
  assumes "\<forall>m \<in> set (outbox (w_notifier w)). told_by m \<subseteq> S" and "m \<in> set (in_transit fc w)"
  shows "told (snd m) \<subseteq> S"
proof -
  have "m \<in> snd ` set (outbox (w_notifier w))"
    using assms(2) by (auto simp: in_transit_def messages_to_def dest!: in_set_dropD)
  then show ?thesis using assms(1) by (auto simp: told_by_def)
qed

lemma past_step:
  assumes cfg: "feed_config_ok fc" and inv: "past_inv fc S w" and guard: "members_only_guard fc x w" and ok: "world_step fc x w = Inr w'"
  shows "past_inv fc (S \<union> held (w_members w')) w'"
proof (cases x)
  case (WMembers env y)
  then obtain s' where s': "members_step (fc_members fc) (env, y) (w_members w) = Inr s'" and f: "w_members w' = s'"
    "outbox (w_notifier w') = outbox (w_notifier w)" "w_subscriber w' = w_subscriber w" using ok by auto
  have c: "members_config_ok (fc_members fc)" "members_inv (fc_members fc) (w_members w)" using cfg inv by (simp_all add: feed_config_ok_def past_inv_def)
  have "members_inv (fc_members fc) s'" using members.step_keeps [OF _ _ s'] c guard WMembers by simp
  moreover have "wf_storage (Root s')" using members_step_announces [OF c s'] inv unfolding past_inv_def by blast
  ultimately show ?thesis using inv unfolding past_inv_def f by blast
next
  case (WNotifier env y)
  let ?env = "with_members fc w env"
  obtain n' where n': "notifier_step (fc_notifier fc) (?env, y) (w_notifier w) = Inr n'" and w': "w' = w\<lparr>w_notifier := n'\<rparr>"
    using ok WNotifier by (auto split: notifier_op.splits)
  have feed: "members_feed_ok (fc_hashed fc) (w_members w)"
    using cfg inv by (simp add: feed_config_ok_def past_inv_def members_feed_ok_def)
  obtain ms where ms: "outbox n' = outbox (w_notifier w) @ ms" "\<forall>m \<in> set ms. told_by m \<subseteq> held (w_members w)"
    using members_feed.notifier_tells [OF feed _ n'] by (auto simp: with_members_def held_def tells_def)
  then show ?thesis using inv unfolding past_inv_def w' by auto
next
  case (WDeliver env)
  then obtain m ms where t: "in_transit fc w = m # ms" using ok by (auto split: list.splits)
  have w': "w' = w\<lparr>w_delivered := w_delivered w + 1, w_subscriber := receive_message (fc_subscriber fc) (fc_pallet fc) env m (w_subscriber w)\<rparr>"
    using ok t WDeliver by simp
  have "told (snd m) \<subseteq> S" using in_transit_told [of w S m fc] inv t by (simp add: past_inv_def)
  moreover have "RingRoots (receive_message (fc_subscriber fc) (fc_pallet fc) env m (w_subscriber w)) =
      rep_roots (replica_receive (fc_subscriber fc) (fc_pallet fc) m (replica_of (w_subscriber w)))"
    by (simp add: receive_message_replica [where env = env, symmetric] rep_roots_of)
  ultimately show ?thesis
    using replica_receive_stored [of "replica_of (w_subscriber w)" "fc_subscriber fc" "fc_pallet fc" m] inv
    unfolding past_inv_def rep_roots_of by (auto simp: w')
next
  case (WReplay env src i xs)
  then obtain s' where "replay_missing_roots (fc_subscriber fc) env SubAuthorized i xs (w_subscriber w) = Inr s'"
    and w': "w' = w\<lparr>w_subscriber := s'\<rparr>" using ok by auto
  then have "RingRoots s' = RingRoots (w_subscriber w)" using replay_replica rep_roots_of by metis
  then show ?thesis using inv unfolding past_inv_def w' by auto
next
  case (WTerminate env origin)
  then obtain s' where t: "terminate_subscription (fc_subscriber fc) env origin (w_subscriber w) = Inr s'"
    and w': "w' = w\<lparr>w_subscriber := s'\<rparr>" using ok by auto
  have "stored (RingRoots s') \<subseteq> stored (RingRoots (w_subscriber w)) \<and> wf_storage (RingRoots s')"
    using inv by (intro terminate_stored [OF _ t]) (simp add: past_inv_def)
  then show ?thesis using inv unfolding past_inv_def w' by auto
qed

text \<open>Over a whole run: whatever is told or stored was held after some prefix of the run.\<close>

lemma guarded_run_snoc: "guarded_run step g (xs @ [x]) s \<longleftrightarrow> guarded_run step g xs s \<and> g x (run_calls step xs s)"
  by (induction xs arbitrary: s) auto

definition past :: "('m, 'root, 'inter, 'c) feed_config \<Rightarrow> ('m, 'root, 'c) world_op list \<Rightarrow> (coll_id \<times> nat \<times> nat \<times> 'root) set" where
  "past fc ops = (\<Union>k \<le> length ops. held (w_members (world_run fc (take k ops))))"

lemma past_snoc: "past fc (ops @ [x]) = past fc ops \<union> held (w_members (world_run fc (ops @ [x])))"
proof -
  have "past fc (ops @ [x]) = (\<Union>k \<le> Suc (length ops). held (w_members (world_run fc (take k (ops @ [x])))))"
    by (simp add: past_def)
  also have "\<dots> = (\<Union>k \<le> length ops. held (w_members (world_run fc (take k (ops @ [x]))))) \<union> held (w_members (world_run fc (ops @ [x])))"
    by (simp add: atMost_Suc Un_commute)
  also have "(\<Union>k \<le> length ops. held (w_members (world_run fc (take k (ops @ [x]))))) = past fc ops"
    unfolding past_def by (intro SUP_cong) simp_all
  finally show ?thesis .
qed

lemma past_run:
  assumes cfg: "feed_config_ok fc" and "guarded_run (world_step fc) (members_only_guard fc) ops world_genesis"
  shows "past_inv fc (past fc ops) (world_run fc ops)"
  using assms(2)
proof (induction ops rule: rev_induct)
  case Nil
  show ?case
    by (simp add: past_inv_def past_def world_genesis_def members_genesis_inv subscriber_genesis_def notifier_genesis_def)
       (simp add: members_genesis_def)
next
  case (snoc x ops)
  let ?w = "world_run fc ops"
  have g: "members_only_guard fc x ?w" and IH: "past_inv fc (past fc ops) ?w" using snoc by (simp_all add: guarded_run_snoc)
  show ?case
  proof (cases "world_step fc x ?w")
    case (Inl e)
    then have "world_run fc (ops @ [x]) = ?w" by (simp add: run_calls_append)
    then show ?thesis using past_inv_mono [OF IH] by (simp add: past_snoc)
  next
    case (Inr w')
    then have "world_run fc (ops @ [x]) = w'" by (simp add: run_calls_append)
    then show ?thesis using past_step [OF cfg IH g Inr] by (simp add: past_snoc)
  qed
qed

subsection \<open>The roots a subscriber has\<close>

text \<open>Every record in the window of a subscriber is a root that the members pallet had at some point.\<close>

lemma stored_root_held:
  assumes "feed_config_ok fc" and "guarded_run (world_step fc) (members_only_guard fc) ops world_genesis"
    and roots: "sget (RingRoots (w_subscriber (world_run fc ops))) (c, r) = Some roots" and x: "x \<in> set roots"
  shows "\<exists>k \<le> length ops. members_root_view (w_members (world_run fc (take k ops))) c r = Some (rc_revision x, rc_root x)"
proof -
  have "(c, r, rc_revision x, rc_root x) \<in> stored (RingRoots (w_subscriber (world_run fc ops)))"
    using roots x by (auto simp: stored_def window_roots_def sget_or_def)
  then have "(c, r, rc_revision x, rc_root x) \<in> past fc ops" using past_run [OF assms(1,2)] by (auto simp: past_inv_def)
  then show ?thesis by (force simp: past_def held_def)
qed

lemma window_root_held:
  assumes "feed_config_ok fc" and "guarded_run (world_step fc) (members_only_guard fc) ops world_genesis"
    and roots: "sget (RingRoots (w_subscriber (world_run fc (take j ops)))) (c, r) = Some roots" and x: "x \<in> set roots"
  shows "\<exists>k \<le> length ops. members_root_view (w_members (world_run fc (take k ops))) c r = Some (rc_revision x, rc_root x)"
proof -
  obtain k where k: "k \<le> length (take j ops)"
    "members_root_view (w_members (world_run fc (take k (take j ops)))) c r = Some (rc_revision x, rc_root x)"
    using stored_root_held [OF assms(1) guarded_run_take [OF assms(2)] roots x] by blast
  then have "take k (take j ops) = take k ops" by (simp add: min_absorb1)
  with k show ?thesis by (intro exI [of _ k]) auto
qed

end
