(* ===== verification/Replication_Demo.thy ===== *)
theory Replication_Demo
  imports Replication_History Members_Demo
begin

text \<open>
  A concrete system for the witnesses: the demo configuration of the members pallet, a notifier and
  a subscriber of small bounds, and a run in which the subscriber is initialised with the first root of a
  ring and then gets its second root in a batch.
\<close>

definition demo_notifier :: notifier_config where
  "demo_notifier = \<lparr>nc_MaxSubscribers = 2, nc_MaxUpdatesPerBatch = 2, nc_MaxCollectionsPerSubscriber = 2,
     nc_MaxCollections = 4, nc_UpdateTriggerBlocks = 1, nc_UpdateTriggerThreshold = 1, nc_OffchainWorkerInterval = 1,
     nc_StuckBatchTimeout = 100, nc_ReplayCooldownSeconds = 10, nc_xcm_overhead = 1, nc_update_size = 1\<rparr>"

definition demo_subscriber :: subscriber_config where
  "demo_subscriber = \<lparr>sc_SelfParaId = 100, sc_MaxMissing = 3, sc_MaxDeleted = 2, sc_MaxRingRoots = 4, sc_MaxCollections = 4,
     sc_ReplayCooldownSeconds = 10, sc_MaxUpdatesPerBatch = 2, sc_ReplayWarningThreshold = 2, sc_ReplayAbandonThreshold = 4,
     sc_MaxRecentRoots = 2, sc_OffchainWorkerInterval = 1, sc_notifier_pallet_index = 9, sc_capacity_supported = (\<lambda>_. True)\<rparr>"

definition demo_feed :: "(nat, nat list, nat list, nat) feed_config" where
  "demo_feed = \<lparr>fc_members = demo_members, fc_notifier = demo_notifier, fc_subscriber = demo_subscriber, fc_pallet = 7,
     fc_hashed = (\<lambda>i r. r)\<rparr>"

lemma demo_feed_ok: "feed_config_ok demo_feed"
proof -
  have "notifier_config_ok demo_notifier"
    by (simp add: notifier_config_ok_def notifier_integrity_test_def demo_notifier_def TX_LONGEVITY_def)
  moreover have "inj (\<lambda>r :: nat. r)" by (simp add: inj_def)
  ultimately show ?thesis
    by (simp add: feed_config_ok_def demo_feed_def demo_members_ok) (simp add: demo_notifier_def demo_subscriber_def)
qed

definition demo_net :: "nat \<Rightarrow> nat list notifier_env" where
  "demo_net now = \<lparr>ne_block = now, ne_now = now, ne_channel = (\<lambda>_. Some 10), ne_router = (\<lambda>_ _. True),
     ne_provider = \<lparr>rp_get_ring_roots = (\<lambda>_ _. []), rp_next_ring_index = (\<lambda>_. 0), rp_get_ring_roots_paginated = (\<lambda>_ _ _. [])\<rparr>\<rparr>"

definition demo_sub :: "nat \<Rightarrow> subscriber_env" where
  "demo_sub now = \<lparr>se_now = now, se_sender = (\<lambda>_ _. True)\<rparr>"

definition demo_replication :: "(nat, nat list, nat) world_op list" where
  "demo_replication = [
     WMembers (demo_env 10) (CreateCollection [7] [1] 1 FlexibleRings R2e9 (Some 5)),
     WMembers (demo_env 10) (AddMembers [1] [21, 22]),
     WMembers (demo_env 11) (Maintain True (OnboardMembers [1] 0 0 (Some 21))),
     WMembers (demo_env 12) (Maintain True (BuildRing [1] 0 R2e9 None 1)),
     WNotifier (demo_net 13) (Subscribe Manager 100 [([1], R2e9)] 7),
     WNotifier (demo_net 14) (Worker LocalSource (SendInitPage 100 0 None 0)),
     WDeliver (demo_sub 15),
     WMembers (demo_env 16) (Maintain True (BuildRing [1] 0 R2e9 (Some 0) 1)),
     WNotifier (demo_net 17) (Worker LocalSource (EnqueueUpdates 0 0)),
     WNotifier (demo_net 18) (Worker LocalSource (SendBatch 100 1 0)),
     WDeliver (demo_sub 19)]"

abbreviation demo_world :: "(nat, nat list, nat list) world" where
  "demo_world \<equiv> world_run demo_feed demo_replication"

lemma demo_world_guards:
  "guarded_run (world_step demo_feed) (world_guard demo_feed) demo_replication world_genesis"
  "guarded_run (world_step demo_feed) (members_only_guard demo_feed) demo_replication world_genesis"
  by code_simp+

text \<open>A chain of ten blocks of the notifier alone, with a subscriber that is served and one that is not.\<close>

definition demo_roots :: "nat list ring_provider" where
  "demo_roots = \<lparr>rp_get_ring_roots = (\<lambda>_ idxs. map (\<lambda>r. (r, [r], 1)) idxs), rp_next_ring_index = (\<lambda>_. 5),
     rp_get_ring_roots_paginated = (\<lambda>_ _ _. [])\<rparr>"

definition demo_batches :: "(nat list notifier_env \<times> notifier_op) list" where
  "demo_batches = (let env = \<lambda>now. (demo_net now)\<lparr>ne_provider := demo_roots\<rparr> in [
     (env 1, Subscribe Manager 100 [([1], R2e9)] 7),
     (env 1, Subscribe Manager 200 [([1], R2e9), ([2], R2e9)] 7),
     (env 2, RootChange [1] 0), (env 2, RootChange [1] 1), (env 2, RootChange [2] 0),
     (env 3, Worker LocalSource (EnqueueUpdates 0 0)),
     (env 4, Worker LocalSource (SendBatch 100 1 0)),
     (env 5, RequestReplay (SignedBy [1]) 100 [1] [1, 3])])"

text \<open>Both members of the ring are suspended after the subscriber has caught up.\<close>

definition demo_suspension :: "(nat, nat list, nat) world_op list" where
  "demo_suspension = [
     WMembers (demo_env 20) (StartRemoval [1]),
     WMembers (demo_env 20) (RemoveMembers [1] [21, 22]),
     WMembers (demo_env 20) (EndRemoval [1])]"

end
