(* ===== verification/Replication_Claims.thy ===== *)
theory Replication_Claims
  imports Replication_Demo
begin


subsection \<open>The replica catches up\<close>



subsection \<open>Accepted proofs\<close>

text \<open>C22: whatever messages are lost, delayed or replayed, and whoever ends the subscription, a membership proof a
  subscriber accepts is valid against a root that the members pallet had for that ring, at the revision
  reported, at some point of the run.\<close>

theorem accepted_proof_has_provider_root:
  assumes cfg: "feed_config_ok fc" and run: "guarded_run (world_step fc) (members_only_guard fc) ops world_genesis"
    and ok: "sub_verify_membership (fc_subscriber fc) pr c proof r context msg (w_subscriber (world_run fc ops)) = Inr result"
  shows "\<exists>k \<le> length ops. \<exists>root e.
    members_root_view (w_members (world_run fc (take k ops))) c r = Some (rca_revision result, root) \<and>
    validate_proof pr e proof root context msg = Some (ca_alias (rca_ca result))"
proof -
  have first: "first_valid f xs = Some (x, y) \<Longrightarrow> x \<in> set xs \<and> f x = Some y" for f and xs :: "'b RingCommitmentRecord list" and x and y :: "8 word list"
    by (induction xs) (auto split: option.splits)
  obtain e roots x al where roots: "sget (RingRoots (w_subscriber (world_run fc ops))) (c, r) = Some roots"
    and found: "first_valid (\<lambda>x. validate_proof pr e proof (rc_root x) context msg) (rev roots) = Some (x, al)"
    and result: "result = \<lparr>rca_revision = rc_revision x, rca_ring = r, rca_ca = \<lparr>ca_alias = al, ca_context = context\<rparr>\<rparr>"
    using ok by (auto simp: sub_verify_membership_def ring_proving_information_def)
  have x: "x \<in> set roots" "validate_proof pr e proof (rc_root x) context msg = Some al" using first [OF found] by simp_all
  then show ?thesis using stored_root_held [OF cfg run roots x(1)] by (force simp: result)
qed

theorem accepted_proof_has_provider_root_witness:
  "\<exists>k \<le> length demo_replication. \<exists>root e.
    members_root_view (w_members (world_run demo_feed (take k demo_replication))) [1] 0 = Some (1, root) \<and>
    validate_proof demo_ring_prover e 22 root [3] [4] = Some [22]"
proof -
  let ?result = "\<lparr>rca_revision = 1, rca_ring = 0, rca_ca = \<lparr>ca_alias = [22], ca_context = [3]\<rparr>\<rparr>"
  have "sub_verify_membership (fc_subscriber demo_feed) demo_ring_prover [1] 22 0 [3] [4] (w_subscriber demo_world) = Inr ?result" by code_simp
  from accepted_proof_has_provider_root [OF demo_feed_ok demo_world_guards(2) this] show ?thesis by simp
qed

subsection \<open>Counting of the notifier\<close>

text \<open>C23: in every reachable state of the notifier the batch being sent is due to exactly the subscribers it counts:
  its counter is positive and is the number of the subscribers that registered before the batch was sealed and
  have not got it; only subscribers are marked as served; and without a batch no one is.\<close>

theorem batch_counts_waiting_subscribers:
  assumes "notifier_config_ok cfg" and "guarded_run (notifier_step cfg) (notifier_guard cfg) ops notifier_genesis"
    and s: "s = run_calls (notifier_step cfg) ops notifier_genesis"
  shows "case CurrentBatch s of
      None \<Rightarrow> SubscribersWithCurrentBatch s = []
    | Some b \<Rightarrow> bd_sequence b = SealedBatchSequence s \<and> 0 < bd_remaining b \<and>
        bd_remaining b = length (filter (\<lambda>(p, info). si_last_init info < bd_sequence b \<and>
          \<not> scontains (SubscribersWithCurrentBatch s) p) (Subscribers s)) \<and>
        (\<forall>p. scontains (SubscribersWithCurrentBatch s) p \<longrightarrow> scontains (Subscribers s) p)"
proof -
  have inv: "notifier_inv cfg s"
    unfolding s using notifier.run_keeps [of cfg notifier_genesis ops] assms(1,2) notifier_genesis_inv by blast
  have count: "unserved s q = length (filter (\<lambda>(p, info). si_last_init info < q \<and> \<not> scontains (SubscribersWithCurrentBatch s) p) (Subscribers s))" for q
    unfolding unserved_def awaits_def ssum_one_filter by (rule arg_cong [where f = length], rule filter_cong) auto
  show ?thesis using inv count by (auto simp: notifier_inv_def batch_ok_def subscribers_ok_def split: option.split)
qed

theorem batch_counts_waiting_subscribers_witness:
  "case CurrentBatch (run_calls (notifier_step demo_notifier) demo_batches notifier_genesis) of
      None \<Rightarrow> SubscribersWithCurrentBatch (run_calls (notifier_step demo_notifier) demo_batches notifier_genesis) = []
    | Some b \<Rightarrow> bd_sequence b = SealedBatchSequence (run_calls (notifier_step demo_notifier) demo_batches notifier_genesis) \<and> 0 < bd_remaining b \<and>
        bd_remaining b = length (filter (\<lambda>(p, info). si_last_init info < bd_sequence b \<and>
          \<not> scontains (SubscribersWithCurrentBatch (run_calls (notifier_step demo_notifier) demo_batches notifier_genesis)) p)
          (Subscribers (run_calls (notifier_step demo_notifier) demo_batches notifier_genesis))) \<and>
        (\<forall>p. scontains (SubscribersWithCurrentBatch (run_calls (notifier_step demo_notifier) demo_batches notifier_genesis)) p \<longrightarrow>
          scontains (Subscribers (run_calls (notifier_step demo_notifier) demo_batches notifier_genesis)) p)"
proof (rule batch_counts_waiting_subscribers [OF _ _ refl])
  show "notifier_config_ok demo_notifier" using demo_feed_ok by (simp add: feed_config_ok_def demo_feed_def)
  show "guarded_run (notifier_step demo_notifier) (notifier_guard demo_notifier) demo_batches notifier_genesis" by code_simp
qed

text \<open>No update is lost in the pages. In every reachable state of the notifier the counter of a page is the
  number of its entries, which fit one batch, and a page with entries lies between the page sent next and the
  page written to, so that it will be sent.\<close>

theorem pages_hold_their_updates:
  assumes "notifier_config_ok cfg" and "guarded_run (notifier_step cfg) (notifier_guard cfg) ops notifier_genesis"
    and s: "s = run_calls (notifier_step cfg) ops notifier_genesis"
  shows "updates_in_page s p = length (page_entries p s) \<and> length (page_entries p s) \<le> nc_MaxUpdatesPerBatch cfg \<and>
    (page_entries p s \<noteq> [] \<longrightarrow> p - send_page (PageState s) \<le> write_page (PageState s) - send_page (PageState s))"
proof -
  have "notifier_inv cfg s"
    unfolding s using notifier.run_keeps [of cfg notifier_genesis ops] assms(1,2) notifier_genesis_inv by blast
  moreover have "length (page_entries p s) = entries_of p (PendingUpdates s)"
    by (simp add: page_entries_def entries_of_def ssum_one_filter)
  ultimately show ?thesis unfolding notifier_inv_def pages_ok_def by (metis length_0_conv)
qed

theorem pages_hold_their_updates_witness:
  "let s = run_calls (notifier_step demo_notifier) demo_batches notifier_genesis
   in updates_in_page s 1 = length (page_entries 1 s) \<and> length (page_entries 1 s) \<le> nc_MaxUpdatesPerBatch demo_notifier \<and>
    (page_entries 1 s \<noteq> [] \<longrightarrow> 1 - send_page (PageState s) \<le> write_page (PageState s) - send_page (PageState s))"
  unfolding Let_def
proof (rule pages_hold_their_updates [OF _ _ refl])
  show "notifier_config_ok demo_notifier" using demo_feed_ok by (simp add: feed_config_ok_def demo_feed_def)
  show "guarded_run (notifier_step demo_notifier) (notifier_guard demo_notifier) demo_batches notifier_genesis" by code_simp
qed

subsection \<open>Suspended members\<close>



end
