(* ===== verification/Subscriber_Props.thy ===== *)
theory Subscriber_Props
  imports Subscriber
begin

text \<open>
  The subscriber as a whole: its calls as steps, and the books it keeps of every collection. The count of
  a collection is the number of its rings with a root, the rings it misses and those it knows to be
  deleted are two disjoint sets of rings without a root, and all of them are below the next ring index.
\<close>

subsection \<open>Steps\<close>

datatype 'root subscriber_op =
    Initialize subscriber_origin RingExponent "'root RingRootUpdatesBatch"
  | ProcessUpdates subscriber_origin "'root RingRootUpdatesBatch"
  | Terminate subscriber_origin
  | ReplayMissing tx_source coll_id "nat list"

datatype subscriber_failure = SubNotAuthorized SubscriberInvalid | SubCallFailed "SubscriberError dispatch_error"

fun subscriber_step ::
  "subscriber_config \<Rightarrow> subscriber_env \<times> 'root subscriber_op \<Rightarrow> 'root subscriber_state \<Rightarrow> subscriber_failure + 'root subscriber_state" where
  "subscriber_step cfg (env, Initialize origin e b) s = map_err SubCallFailed (initialize_ring_roots cfg env origin e b s)"
| "subscriber_step cfg (env, ProcessUpdates origin b) s = map_err SubCallFailed (process_ring_updates cfg env origin b s)"
| "subscriber_step cfg (env, Terminate origin) s = map_err SubCallFailed (terminate_subscription cfg env origin s)"
| "subscriber_step cfg (env, ReplayMissing source i idxs) s =
     on_ok (map_err SubNotAuthorized (authorize_replay_missing_roots cfg env source i idxs s))
       (\<lambda>_. map_err SubCallFailed (replay_missing_roots cfg env SubAuthorized i idxs s))"

text \<open>
  What the calls rely on: a batch names rings below the next ring index and does not overflow the count,
  and the limits of the clearing cover what there is to clear.
\<close>

definition batch_fits :: "'root RingRootUpdatesBatch \<Rightarrow> 'root subscriber_state \<Rightarrow> bool" where
  "batch_fits b s \<longleftrightarrow>
     (\<forall>u \<in> set (ub_updates b). up_ring u < max (cs_next_ring_index (collection_state_of s (ub_identifier b))) (ub_next_ring_index b)) \<and>
     cs_ring_count (collection_state_of s (ub_identifier b)) + length (ub_updates b) \<le> u32_max"

definition clear_suffices :: "subscriber_config \<Rightarrow> 'root subscriber_state \<Rightarrow> bool" where
  "clear_suffices cfg s \<longleftrightarrow>
     length (RingRoots s) \<le> sat_mul u32_max (sc_MaxCollections cfg) (sc_MaxRingRoots cfg) \<and>
     length (RingCollectionStates s) \<le> sc_MaxCollections cfg"

fun subscriber_guard :: "subscriber_config \<Rightarrow> subscriber_env \<times> 'root subscriber_op \<Rightarrow> 'root subscriber_state \<Rightarrow> bool" where
  "subscriber_guard cfg (env, Initialize origin e b) s =
     (batch_fits b s \<and> batch_fits b (clear_all_ring_data cfg s) \<and> clear_suffices cfg s)"
| "subscriber_guard cfg (env, ProcessUpdates origin b) s = batch_fits b s"
| "subscriber_guard cfg (env, Terminate origin) s = clear_suffices cfg s"
| "subscriber_guard cfg (env, ReplayMissing source i idxs) s = True"

subsection \<open>The books of a collection\<close>

definition rings_of :: "(coll_id \<times> nat, 'v) storage \<Rightarrow> coll_id \<Rightarrow> nat set" where
  "rings_of R i = {r. scontains R (i, r)}"

definition missing_ok :: "subscriber_config \<Rightarrow> (nat, nat) storage \<Rightarrow> bool" where
  "missing_ok cfg m \<longleftrightarrow> wf_storage m \<and> length m \<le> sc_MaxMissing cfg \<and>
     (\<forall>r n. sget m r = Some n \<longrightarrow> n = 0 \<or> n < sc_ReplayAbandonThreshold cfg)"

definition coll_ok ::
  "subscriber_config \<Rightarrow> coll_id \<Rightarrow> RingCollectionState \<Rightarrow> (coll_id \<times> nat, 'root RingCommitmentRecord list) storage \<Rightarrow> bool" where
  "coll_ok cfg i st R \<longleftrightarrow>
     cs_ring_count st = card (rings_of R i) \<and> missing_ok cfg (cs_missing st) \<and>
     distinct (cs_deleted st) \<and> length (cs_deleted st) \<le> sc_MaxDeleted cfg \<and>
     (\<forall>r. scontains (cs_missing st) r \<longrightarrow> r < cs_next_ring_index st \<and> r \<notin> rings_of R i \<and> r \<notin> set (cs_deleted st)) \<and>
     (\<forall>r \<in> set (cs_deleted st). r < cs_next_ring_index st \<and> r \<notin> rings_of R i) \<and>
     (\<forall>r \<in> rings_of R i. r < cs_next_ring_index st \<and> sget_or [] R (i, r) \<noteq> [] \<and> length (sget_or [] R (i, r)) \<le> sc_MaxRecentRoots cfg)"

definition subscriber_inv :: "subscriber_config \<Rightarrow> 'root subscriber_state \<Rightarrow> bool" where
  "subscriber_inv cfg s \<longleftrightarrow> (\<forall>i. coll_ok cfg i (collection_state_of s i) (RingRoots s))"

lemma rings_of_finite [simp]: "finite (rings_of R i)"
proof -
  have "rings_of R i \<subseteq> snd ` fst ` set R" by (force simp: rings_of_def scontains_def sget_None_iff)
  then show ?thesis by (rule finite_subset) simp
qed

lemma rings_of_sput [simp]: "rings_of (sput (i, r) v R) j = (if j = i then insert r (rings_of R j) else rings_of R j)"
  by (auto simp: rings_of_def)

lemma rings_of_sdel [simp]: "rings_of (sdel (i, r) R) j = (if j = i then rings_of R j - {r} else rings_of R j)"
  by (auto simp: rings_of_def)

lemma rings_of_Nil [simp]: "rings_of [] i = {}"
  by (simp add: rings_of_def scontains_def)

lemma coll_ok_default: "coll_ok cfg i default_collection_state []"
  by (simp add: coll_ok_def default_collection_state_def missing_ok_def scontains_def)

lemma subscriber_genesis_inv: "subscriber_inv cfg subscriber_genesis"
  by (simp add: subscriber_inv_def subscriber_genesis_def collection_state_of_def sget_or_def coll_ok_default)

text \<open>The books of a collection depend on its own roots only.\<close>

lemma coll_ok_cong:
  assumes "coll_ok cfg i st R" and "\<And>r. sget R' (i, r) = sget R (i, r)"
  shows "coll_ok cfg i st R'"
proof -
  have "rings_of R' i = rings_of R i" "\<And>r. sget_or [] R' (i, r) = sget_or [] R (i, r)"
    using assms(2) by (simp_all add: rings_of_def scontains_def sget_or_def)
  then show ?thesis using assms(1) by (simp add: coll_ok_def)
qed

subsection \<open>Storing a batch\<close>

lemma missing_ok_sdel: "missing_ok cfg m \<Longrightarrow> missing_ok cfg (sdel r m)"
  using le_trans [OF length_sdel] by (auto simp: missing_ok_def)

lemma coll_ok_next: "coll_ok cfg i st R \<Longrightarrow> cs_next_ring_index st \<le> n \<Longrightarrow> coll_ok cfg i (st\<lparr>cs_next_ring_index := n\<rparr>) R"
  unfolding coll_ok_def by (auto intro: less_le_trans)

lemma push_record_ok:
  "0 < sc_MaxRecentRoots cfg \<Longrightarrow> length ws \<le> sc_MaxRecentRoots cfg \<Longrightarrow>
   push_record cfg x ws \<noteq> [] \<and> length (push_record cfg x ws) \<le> sc_MaxRecentRoots cfg"
  by (cases ws) (auto simp: push_record_def Let_def)

lemma store_built_ok:
  assumes ok: "coll_ok cfg i st R" and max: "0 < sc_MaxRecentRoots cfg" and r: "r < cs_next_ring_index st" and room: "cs_ring_count st < u32_max"
  defines "w \<equiv> sget_or [] R (i, r)"
  shows "coll_ok cfg i (st\<lparr>cs_missing := sdel r (cs_missing st), cs_deleted := removeAll r (cs_deleted st),
      cs_ring_count := (if w = [] then sat_add u32_max (cs_ring_count st) 1 else cs_ring_count st)\<rparr>) (sput (i, r) (push_record cfg x w) R)"
proof -
  have w: "w = [] \<longleftrightarrow> r \<notin> rings_of R i" and len: "length w \<le> sc_MaxRecentRoots cfg"
    using ok unfolding coll_ok_def w_def by (auto simp: rings_of_def scontains_def sget_or_def split: option.splits)
  have "length (removeAll r (cs_deleted st)) \<le> sc_MaxDeleted cfg"
    using ok le_trans [OF length_filter_le] unfolding coll_ok_def removeAll_filter_not_eq by blast
  then show ?thesis
    using ok r room push_record_ok [OF max len, of x] w
    by (auto simp: coll_ok_def missing_ok_sdel distinct_removeAll sat_add_def insert_absorb)
qed

lemma store_deleted_ok:
  assumes ok: "coll_ok cfg i st R" and r: "r < cs_next_ring_index st"
  defines "d \<equiv> (case try_insert_set (sc_MaxDeleted cfg) r (cs_deleted st) of None \<Rightarrow> cs_deleted st | Some d \<Rightarrow> d)"
  shows "coll_ok cfg i (st\<lparr>cs_missing := sdel r (cs_missing st), cs_deleted := d,
      cs_ring_count := (if scontains R (i, r) then cs_ring_count st - 1 else cs_ring_count st)\<rparr>) (sdel (i, r) R)"
proof -
  have d: "distinct d" "length d \<le> sc_MaxDeleted cfg" "set d \<subseteq> insert r (set (cs_deleted st))"
    using ok by (auto simp: d_def try_insert_set_def coll_ok_def)
  have "cs_ring_count st - 1 = card (rings_of R i - {r})" if "scontains R (i, r)"
    using that ok card_Diff_singleton [of r "rings_of R i"] by (simp add: coll_ok_def rings_of_def)
  moreover have "rings_of R i - {r} = rings_of R i" if "\<not> scontains R (i, r)" using that by (simp add: rings_of_def)
  ultimately show ?thesis using ok r d by (auto simp: coll_ok_def missing_ok_sdel)
qed

text \<open>One update, and the loop over the updates of a batch.\<close>

lemma store_update_ok:
  assumes ok: "coll_ok cfg (ub_identifier b) st R" and max: "0 < sc_MaxRecentRoots cfg"
    and r: "up_ring u < cs_next_ring_index st" and room: "cs_ring_count st < u32_max"
    and run: "store_update cfg b u (st, R) = (st', R')"
  shows "coll_ok cfg (ub_identifier b) st' R'" and "cs_next_ring_index st' = cs_next_ring_index st"
    and "cs_ring_count st' \<le> cs_ring_count st + 1" and "j \<noteq> ub_identifier b \<Longrightarrow> sget R' (j, q) = sget R (j, q)"
proof -
  show "coll_ok cfg (ub_identifier b) st' R'"
  proof (cases "up_op u")
    case (RootBuilt v root)
    let ?w = "sget_or [] R (ub_identifier b, up_ring u)"
      and ?x = "\<lparr>rc_root = root, rc_revision = v, rc_source_time = ub_source_time b, rc_source_sequence = ub_sequence b\<rparr>"
    have "R' = sput (ub_identifier b, up_ring u) (push_record cfg ?x ?w) R"
      "st' = st\<lparr>cs_missing := sdel (up_ring u) (cs_missing st), cs_deleted := removeAll (up_ring u) (cs_deleted st),
        cs_ring_count := (if ?w = [] then sat_add u32_max (cs_ring_count st) 1 else cs_ring_count st)\<rparr>"
      using run RootBuilt by (auto simp: store_update_def Let_def)
    then show ?thesis using store_built_ok [OF ok max r room, of ?x] by simp
  next
    case RootDeleted
    let ?d = "case try_insert_set (sc_MaxDeleted cfg) (up_ring u) (cs_deleted st) of None \<Rightarrow> cs_deleted st | Some d \<Rightarrow> d"
    have "R' = sdel (ub_identifier b, up_ring u) R"
      "st' = st\<lparr>cs_missing := sdel (up_ring u) (cs_missing st), cs_deleted := ?d,
        cs_ring_count := (if scontains R (ub_identifier b, up_ring u) then cs_ring_count st - 1 else cs_ring_count st)\<rparr>"
      using run RootDeleted by (auto simp: store_update_def Let_def split: option.splits)
    then show ?thesis using store_deleted_ok [OF ok r] by simp
  qed
  show "cs_next_ring_index st' = cs_next_ring_index st" "cs_ring_count st' \<le> cs_ring_count st + 1"
    "j \<noteq> ub_identifier b \<Longrightarrow> sget R' (j, q) = sget R (j, q)"
    using run by (auto simp: store_update_def Let_def sat_add_def split: RingRootOp.splits option.splits if_splits)
qed

lemma store_updates_ok:
  assumes "coll_ok cfg (ub_identifier b) st R" and max: "0 < sc_MaxRecentRoots cfg"
    and "\<forall>u \<in> set us. up_ring u < cs_next_ring_index st" and "cs_ring_count st + length us \<le> u32_max"
    and "fold (store_update cfg b) us (st, R) = (st', R')"
  shows "coll_ok cfg (ub_identifier b) st' R' \<and> cs_next_ring_index st' = cs_next_ring_index st \<and>
    (\<forall>j q. j \<noteq> ub_identifier b \<longrightarrow> sget R' (j, q) = sget R (j, q))"
  using assms(1,3-5)
proof (induction us arbitrary: st R)
  case (Cons u us)
  obtain st1 R1 where one: "store_update cfg b u (st, R) = (st1, R1)" by fastforce
  have "up_ring u < cs_next_ring_index st" "cs_ring_count st < u32_max" using Cons.prems(2,3) by simp_all
  note s1 = store_update_ok [OF Cons.prems(1) max this one]
  have "coll_ok cfg (ub_identifier b) st' R' \<and> cs_next_ring_index st' = cs_next_ring_index st1 \<and>
      (\<forall>j q. j \<noteq> ub_identifier b \<longrightarrow> sget R' (j, q) = sget R1 (j, q))"
    using Cons.prems s1 one by (intro Cons.IH) auto
  then show ?case using s1 by simp
qed simp

lemma store_ring_roots_inv:
  assumes inv: "subscriber_inv cfg s" and max: "0 < sc_MaxRecentRoots cfg" and fits: "batch_fits b s"
  shows "subscriber_inv cfg (store_ring_roots cfg b s)"
    and "cs_next_ring_index (collection_state_of (store_ring_roots cfg b s) (ub_identifier b)) =
      max (cs_next_ring_index (collection_state_of s (ub_identifier b))) (ub_next_ring_index b)"
proof -
  let ?i = "ub_identifier b" and ?st = "collection_state_of s (ub_identifier b)"
  let ?st1 = "?st\<lparr>cs_next_ring_index := max (cs_next_ring_index ?st) (ub_next_ring_index b)\<rparr>"
  obtain st' R' where run: "fold (store_update cfg b) (ub_updates b) (?st1, RingRoots s) = (st', R')" by (meson surj_pair)
  have s': "store_ring_roots cfg b s = s\<lparr>RingRoots := R', RingCollectionStates := sput ?i st' (RingCollectionStates s)\<rparr>"
    unfolding store_ring_roots_def Let_def run by simp
  have at: "collection_state_of (store_ring_roots cfg b s) j = (if j = ?i then st' else collection_state_of s j)"
    and roots: "RingRoots (store_ring_roots cfg b s) = R'" for j
    unfolding s' collection_state_of_def by simp_all
  have "coll_ok cfg ?i ?st1 (RingRoots s)" using inv by (simp add: subscriber_inv_def coll_ok_next)
  moreover have "\<forall>u \<in> set (ub_updates b). up_ring u < cs_next_ring_index ?st1" "cs_ring_count ?st1 + length (ub_updates b) \<le> u32_max"
    using fits by (simp_all add: batch_fits_def)
  ultimately have all: "coll_ok cfg ?i st' R' \<and> cs_next_ring_index st' = cs_next_ring_index ?st1 \<and>
      (\<forall>j q. j \<noteq> ?i \<longrightarrow> sget R' (j, q) = sget (RingRoots s) (j, q))" by (rule store_updates_ok [OF _ max _ _ run])
  then have st': "coll_ok cfg ?i st' R'" "cs_next_ring_index st' = cs_next_ring_index ?st1" and other: "\<And>j q. j \<noteq> ?i \<Longrightarrow> sget R' (j, q) = sget (RingRoots s) (j, q)"
    by blast+
  have "coll_ok cfg j (collection_state_of s j) R'" if "j \<noteq> ?i" for j
    using inv other that by (auto simp: subscriber_inv_def intro!: coll_ok_cong [where R = "RingRoots s" and R' = R'])
  then show "subscriber_inv cfg (store_ring_roots cfg b s)" using st'(1) unfolding subscriber_inv_def at roots by simp
  show "cs_next_ring_index (collection_state_of (store_ring_roots cfg b s) ?i) = max (cs_next_ring_index ?st) (ub_next_ring_index b)"
    using st'(2) unfolding at by simp
qed

subsection \<open>Finding the missing rings\<close>

lemma coll_ok_missing:
  assumes "coll_ok cfg i st R" and "missing_ok cfg m"
    and "\<And>r. scontains m r \<Longrightarrow> r < cs_next_ring_index st \<and> r \<notin> rings_of R i \<and> r \<notin> set (cs_deleted st)"
  shows "coll_ok cfg i (st\<lparr>cs_missing := m\<rparr>) R"
  using assms by (simp add: coll_ok_def)

lemma try_insert_missing_ok:
  assumes "missing_ok cfg m" and "try_insert_map (sc_MaxMissing cfg) r 0 m = Some m'" and "\<not> scontains m r"
  shows "missing_ok cfg m' \<and> m' = sput r 0 m"
proof -
  have m': "m' = sput r 0 m" "length m < sc_MaxMissing cfg" using assms(2,3) by (auto simp: try_insert_map_def split: if_splits)
  then show ?thesis using assms(1) length_sput_new [OF assms(3)] by (auto simp: missing_ok_def split: if_splits)
qed

lemma scan_missing_ok:
  assumes "scan_missing cfg i R d idx n m k = (m', k')" and "missing_ok cfg m"
    and "\<forall>r. scontains m r \<longrightarrow> r < N \<and> r \<notin> rings_of R i \<and> r \<notin> set d" and "idx + n \<le> N"
  shows "missing_ok cfg m' \<and> (\<forall>r. scontains m' r \<longrightarrow> r < N \<and> r \<notin> rings_of R i \<and> r \<notin> set d) \<and>
    (\<forall>r. scontains m r \<longrightarrow> scontains m' r) \<and>
    (length m' < sc_MaxMissing cfg \<longrightarrow> (\<forall>r. idx \<le> r \<and> r < idx + n \<longrightarrow> r \<in> rings_of R i \<or> r \<in> set d \<or> scontains m' r))"
  using assms
proof (induction n arbitrary: idx m k)
  case (Suc n)
  have split: "idx \<le> r \<and> r < idx + Suc n \<longleftrightarrow> r = idx \<or> idx + 1 \<le> r \<and> r < idx + 1 + n" for r by auto
  show ?case
  proof (cases "\<not> scontains R (i, idx) \<and> \<not> scontains m idx \<and> idx \<notin> set d")
    case False
    then have "scan_missing cfg i R d (idx + 1) n m k = (m', k')" using Suc.prems(1) by auto
    from Suc.IH [OF this Suc.prems(2,3)] Suc.prems(4) False show ?thesis unfolding split by (auto simp: rings_of_def)
  next
    case True
    show ?thesis
    proof (cases "try_insert_map (sc_MaxMissing cfg) idx 0 m")
      case None
      then have "m' = m" "\<not> length m < sc_MaxMissing cfg" using True Suc.prems(1) by (auto simp: try_insert_map_def split: if_splits)
      then show ?thesis using Suc.prems by simp
    next
      case (Some m1)
      then have go: "scan_missing cfg i R d (idx + 1) n m1 (k + 1) = (m', k')" using True Suc.prems(1) by auto
      have m1: "missing_ok cfg m1" "m1 = sput idx 0 m" using try_insert_missing_ok [OF Suc.prems(2) Some] True by blast+
      have "\<forall>r. scontains m1 r \<longrightarrow> r < N \<and> r \<notin> rings_of R i \<and> r \<notin> set d" using Suc.prems(3,4) True m1(2) by (auto simp: rings_of_def)
      from Suc.IH [OF go m1(1) this] Suc.prems(4) m1(2) show ?thesis unfolding split by auto
    qed
  qed
qed auto

lemma detect_inv:
  assumes inv: "subscriber_inv cfg s" and old: "old \<le> cs_next_ring_index (collection_state_of s (ub_identifier b))"
  shows "subscriber_inv cfg (detect_missing_rings_in_batch cfg b old s)"
proof -
  let ?i = "ub_identifier b" and ?st = "collection_state_of s (ub_identifier b)"
  have c: "coll_ok cfg ?i ?st (RingRoots s)" using inv by (simp add: subscriber_inv_def)
  have put: "subscriber_inv cfg (s\<lparr>RingCollectionStates := sput ?i (?st\<lparr>cs_missing := m\<rparr>) (RingCollectionStates s)\<rparr>)"
    if "coll_ok cfg ?i (?st\<lparr>cs_missing := m\<rparr>) (RingRoots s)" for m
    using inv that by (simp add: subscriber_inv_def collection_state_of_def)
  have dep: "subscriber_inv cfg (subscriber_deposit e x) = subscriber_inv cfg x" for e and x :: "'a subscriber_state"
    by (simp add: subscriber_inv_def subscriber_deposit_def collection_state_of_def)
  obtain m k where scan: "scan_missing cfg ?i (RingRoots s) (cs_deleted ?st) old (cs_next_ring_index ?st - old) (cs_missing ?st) 0 = (m, k)" by fastforce
  have "missing_ok cfg m \<and> (\<forall>r. scontains m r \<longrightarrow> r < cs_next_ring_index ?st \<and> r \<notin> rings_of (RingRoots s) ?i \<and> r \<notin> set (cs_deleted ?st))"
    using scan_missing_ok [OF scan, where N = "cs_next_ring_index ?st"] c old by (simp add: coll_ok_def)
  then have "coll_ok cfg ?i (?st\<lparr>cs_missing := m\<rparr>) (RingRoots s)" by (intro coll_ok_missing [OF c]) simp_all
  moreover have "coll_ok cfg ?i (?st\<lparr>cs_missing := []\<rparr>) (RingRoots s)"
    by (rule coll_ok_missing [OF c]) (simp_all add: missing_ok_def scontains_def)
  ultimately show ?thesis using put scan inv by (simp add: detect_missing_rings_in_batch_def Let_def dep)
qed

subsection \<open>The calls keep the books\<close>

lemma subscriber_inv_frame [simp]:
  "subscriber_inv cfg (subscriber_deposit e s) = subscriber_inv cfg s" "subscriber_inv cfg (record_batch_processed env q s) = subscriber_inv cfg s"
  "subscriber_inv cfg (s\<lparr>Subscription := a, RingCollectionExponents := b\<rparr>) = subscriber_inv cfg s"
  "subscriber_inv cfg (s\<lparr>Subscription := a\<rparr>) = subscriber_inv cfg s" "subscriber_inv cfg (s\<lparr>to_notifier := c\<rparr>) = subscriber_inv cfg s"
  "subscriber_inv cfg (s\<lparr>ProcessingState := d\<rparr>) = subscriber_inv cfg s"
  by (simp_all add: subscriber_inv_def subscriber_deposit_def record_batch_processed_def collection_state_of_def)

lemma batch_stored_inv:
  assumes "subscriber_inv cfg s" and "0 < sc_MaxRecentRoots cfg" and "batch_fits b s"
  shows "subscriber_inv cfg (detect_missing_rings_in_batch cfg b (cs_next_ring_index (collection_state_of s (ub_identifier b))) (store_ring_roots cfg b s))"
  using store_ring_roots_inv [OF assms] by (intro detect_inv) simp_all

lemma cleared_inv: "clear_suffices cfg s \<Longrightarrow> subscriber_inv cfg (clear_all_ring_data cfg s)"
  by (simp add: clear_suffices_def clear_all_ring_data_def Let_def sclear_def subscriber_inv_def collection_state_of_def sget_or_def coll_ok_default)

lemma initialize_inv:
  assumes inv: "subscriber_inv cfg s" and max: "0 < sc_MaxRecentRoots cfg"
    and guard: "batch_fits b s" "batch_fits b (clear_all_ring_data cfg s)" "clear_suffices cfg s"
    and ok: "initialize_ring_roots cfg env origin e b s = Inr s'"
  shows "subscriber_inv cfg s'"
proof -
  obtain s1 where s1: "s1 = s \<or> s1 = clear_all_ring_data cfg s" and s': "s' = subscriber_deposit (RingRootsInitialized (length (ub_updates b)) (ub_sequence b))
      ((record_batch_processed env (ub_sequence b) (detect_missing_rings_in_batch cfg b
          (cs_next_ring_index (collection_state_of s1 (ub_identifier b))) (store_ring_roots cfg b s1)))
        \<lparr>Subscription := SubActive (ub_sequence b), RingCollectionExponents := sput (ub_identifier b) e (RingCollectionExponents
          (record_batch_processed env (ub_sequence b) (detect_missing_rings_in_batch cfg b
            (cs_next_ring_index (collection_state_of s1 (ub_identifier b))) (store_ring_roots cfg b s1))))\<rparr>)"
    using ok unfolding initialize_ring_roots_def Let_def ensure_Inr on_ok_Inr by (auto split: SubscriptionStatus.splits if_splits)
  have "subscriber_inv cfg s1" "batch_fits b s1" using s1 inv cleared_inv [OF guard(3)] guard(1,2) by auto
  from batch_stored_inv [OF this(1) max this(2)] show ?thesis by (simp add: s')
qed

lemma process_inv:
  assumes inv: "subscriber_inv cfg s" and max: "0 < sc_MaxRecentRoots cfg" and fits: "batch_fits b s"
    and ok: "process_ring_updates cfg env origin b s = Inr s'"
  shows "subscriber_inv cfg s'"
  using ok batch_stored_inv [OF inv max fits] inv
  by (auto simp: process_ring_updates_def Let_def split: if_splits)

lemma terminate_inv:
  assumes inv: "subscriber_inv cfg s" and clear: "clear_suffices cfg s" and ok: "terminate_subscription cfg env origin s = Inr s'"
  shows "subscriber_inv cfg s'"
proof -
  have "clear_suffices cfg (s\<lparr>to_notifier := x\<rparr>)" for x using clear by (simp add: clear_suffices_def)
  then show ?thesis using ok inv clear
    by (auto simp: terminate_subscription_def send_to_notifier_def Let_def ensure_def cleared_inv split: SubscriptionStatus.splits if_splits sum.splits)
qed

text \<open>The replay raises counters of missing rings or gives them up.\<close>

lemma replay_loop_ok:
  assumes "missing_ok cfg m" and "replay_loop (sc_ReplayAbandonThreshold cfg) idxs m acc = (m', acc')"
  shows "missing_ok cfg m' \<and> (\<forall>r. scontains m' r \<longrightarrow> scontains m r)"
  using assms
proof (induction idxs arbitrary: m acc)
  case (Cons i idxs)
  show ?case
  proof (cases "sget m i")
    case None
    then show ?thesis using Cons by simp
  next
    case (Some n)
    have "length (sput i n' m) = length m" for n' using Some by (induction m) (auto simp: sput_def sget_Cons split: if_splits)
    then have put: "missing_ok cfg (sput i n' m)" if "n' < sc_ReplayAbandonThreshold cfg" for n'
      using that Cons.prems(1) by (auto simp: missing_ok_def split: if_splits)
    show ?thesis
    proof (cases "sat_add u32_max n 1 \<ge> sc_ReplayAbandonThreshold cfg")
      case True
      then have "replay_loop (sc_ReplayAbandonThreshold cfg) idxs (sdel i m) acc = (m', acc')" using Some Cons.prems(2) by simp
      from Cons.IH [OF missing_ok_sdel [OF Cons.prems(1)] this] show ?thesis by auto
    next
      case False
      then have "replay_loop (sc_ReplayAbandonThreshold cfg) idxs (sput i (sat_add u32_max n 1) m) (acc @ [i]) = (m', acc')"
        using Some Cons.prems(2) by simp
      from Cons.IH [OF put this] False Some show ?thesis by (auto simp: scontains_def split: if_splits)
    qed
  qed
qed simp

lemma send_replay_chunks_inv: "subscriber_inv cfg (snd (send_replay_chunks c env i cs b s)) = subscriber_inv cfg s"
proof (induction cs arbitrary: b s)
  case (Cons ch cs)
  show ?case
  proof (cases "send_replay_request c env i ch s")
    case (Inr s1)
    then have "subscriber_inv cfg s1 = subscriber_inv cfg s" by (auto simp: send_replay_request_def send_to_notifier_def Let_def)
    then show ?thesis using Inr Cons.IH by simp
  qed simp
qed simp

lemma replay_inv:
  assumes inv: "subscriber_inv cfg s" and ok: "replay_missing_roots cfg env origin i idxs s = Inr s'"
  shows "subscriber_inv cfg s'"
proof -
  let ?st = "collection_state_of s i" and ?xs = "sort (remdups idxs)"
  obtain m acc where loop: "replay_loop (sc_ReplayAbandonThreshold cfg) ?xs (cs_missing ?st) [] = (m, acc)" by (meson surj_pair)
  have c: "coll_ok cfg i ?st (RingRoots s)" using inv by (simp add: subscriber_inv_def)
  have "missing_ok cfg m \<and> (\<forall>r. scontains m r \<longrightarrow> scontains (cs_missing ?st) r)"
    using c by (intro replay_loop_ok [OF _ loop]) (simp add: coll_ok_def)
  then have "coll_ok cfg i (?st\<lparr>cs_missing := m\<rparr>) (RingRoots s)" using c by (intro coll_ok_missing) (auto simp: coll_ok_def)
  then have "subscriber_inv cfg (s\<lparr>RingCollectionStates := sput i (?st\<lparr>cs_missing := m\<rparr>) (RingCollectionStates s)\<rparr>)"
    using inv by (simp add: subscriber_inv_def collection_state_of_def)
  then have "subscriber_inv cfg (snd (process_collection_replay cfg env i ?xs s))"
    using inv loop by (simp add: process_collection_replay_def Let_def send_replay_chunks_inv)
  then show ?thesis using ok by (auto simp: replay_missing_roots_def Let_def case_prod_beta split: if_splits)
qed

lemma subscriber_step_inv:
  assumes max: "0 < sc_MaxRecentRoots cfg" and inv: "subscriber_inv cfg s" and guard: "subscriber_guard cfg x s"
    and ok: "subscriber_step cfg x s = Inr s'"
  shows "subscriber_inv cfg s'"
proof -
  obtain env y where x: "x = (env, y)" by (meson surj_pair)
  show ?thesis
  proof (cases y)
    case (Initialize origin e b)
    then show ?thesis using initialize_inv [OF inv max, of b env origin e s'] guard ok x by auto
  next
    case (ProcessUpdates origin b)
    then show ?thesis using process_inv [OF inv max] guard ok x by simp
  next
    case (Terminate origin)
    then show ?thesis using terminate_inv [OF inv] guard ok x by simp
  next
    case (ReplayMissing source i idxs)
    then show ?thesis using replay_inv [OF inv] ok x by auto
  qed
qed

interpretation subscriber: pallet_contract "subscriber_step cfg" "\<lambda>s. 0 < sc_MaxRecentRoots cfg \<and> subscriber_inv cfg s" "subscriber_guard cfg" for cfg
  by unfold_locales (auto intro: subscriber_step_inv)

end
