(* ===== verification/Subscriber_Claims.thy ===== *)
theory Subscriber_Claims
  imports Subscriber_Props Replication_Demo
begin

text \<open>The properties of the subscriber, and of what it asks the notifier for.\<close>

subsection \<open>A run of the subscriber\<close>

definition demo_update :: "nat \<Rightarrow> nat list \<Rightarrow> nat list RingRootUpdatesBatch" where
  "demo_update n rings = \<lparr>ub_identifier = [1], ub_sequence = n, ub_source_time = n,
     ub_updates = map (\<lambda>r. \<lparr>up_ring = r, up_op = RootBuilt n [r]\<rparr>) rings, ub_next_ring_index = 4\<rparr>"

definition demo_calls :: "(subscriber_env \<times> nat list subscriber_op) list" where
  "demo_calls = [
     (demo_sub 10, Initialize NotifierOrigin R2e9 (demo_update 1 [0])),
     (demo_sub 20, ReplayMissing LocalSource [1] [1, 2, 3]),
     (demo_sub 30, ProcessUpdates NotifierOrigin (demo_update 2 [0, 1]))]"

abbreviation demo_replica :: "nat list subscriber_state" where
  "demo_replica \<equiv> run_calls (subscriber_step demo_subscriber) demo_calls subscriber_genesis"

lemma demo_calls_guard: "guarded_run (subscriber_step demo_subscriber) (subscriber_guard demo_subscriber) demo_calls subscriber_genesis"
  by code_simp

subsection \<open>The books of the subscriber\<close>

text \<open>C24: in every reachable state of the subscriber the ring count of a collection is the number of its rings with a
  root; the rings marked as missing and those marked as deleted have no root and are not the same; and
  all of them are below the next ring index of the collection.\<close>

theorem subscriber_books_balance:
  assumes "0 < sc_MaxRecentRoots cfg" and "guarded_run (subscriber_step cfg) (subscriber_guard cfg) ops subscriber_genesis"
    and s: "s = run_calls (subscriber_step cfg) ops subscriber_genesis" and st: "st = collection_state_of s i"
  shows "cs_ring_count st = card {r. scontains (RingRoots s) (i, r)} \<and>
    (\<forall>r. scontains (RingRoots s) (i, r) \<or> scontains (cs_missing st) r \<or> r \<in> set (cs_deleted st) \<longrightarrow> r < cs_next_ring_index st) \<and>
    (\<forall>r. scontains (RingRoots s) (i, r) \<longrightarrow> \<not> scontains (cs_missing st) r \<and> r \<notin> set (cs_deleted st)) \<and>
    (\<forall>r. scontains (cs_missing st) r \<longrightarrow> r \<notin> set (cs_deleted st))"
proof -
  have "subscriber_inv cfg s"
    unfolding s using subscriber.run_keeps [of cfg subscriber_genesis ops] assms(1,2) subscriber_genesis_inv by blast
  then have "coll_ok cfg i st (RingRoots s)" by (simp add: subscriber_inv_def st)
  then show ?thesis unfolding coll_ok_def rings_of_def by auto
qed

theorem subscriber_books_balance_witness:
  "let s = demo_replica; st = collection_state_of s [1] in
    cs_ring_count st = card {r. scontains (RingRoots s) ([1], r)} \<and>
    (\<forall>r. scontains (RingRoots s) ([1], r) \<or> scontains (cs_missing st) r \<or> r \<in> set (cs_deleted st) \<longrightarrow> r < cs_next_ring_index st) \<and>
    (\<forall>r. scontains (RingRoots s) ([1], r) \<longrightarrow> \<not> scontains (cs_missing st) r \<and> r \<notin> set (cs_deleted st)) \<and>
    (\<forall>r. scontains (cs_missing st) r \<longrightarrow> r \<notin> set (cs_deleted st))"
  unfolding Let_def
  by (rule subscriber_books_balance [OF _ demo_calls_guard refl refl]) (simp add: demo_subscriber_def)

text \<open>C25: the values of the subscriber fit their types in every reachable state: the map of missing rings has distinct
  keys and, like the set of deleted rings, no more entries than its bound, the attempts of a missing ring are below
  the threshold at which it is given up, and the window of a ring has between one record and the bound.\<close>

theorem subscriber_values_fit:
  assumes "0 < sc_MaxRecentRoots cfg" and "guarded_run (subscriber_step cfg) (subscriber_guard cfg) ops subscriber_genesis"
    and s: "s = run_calls (subscriber_step cfg) ops subscriber_genesis" and st: "st = collection_state_of s i"
  shows "wf_storage (cs_missing st) \<and> length (cs_missing st) \<le> sc_MaxMissing cfg \<and>
    distinct (cs_deleted st) \<and> length (cs_deleted st) \<le> sc_MaxDeleted cfg \<and>
    (\<forall>r n. sget (cs_missing st) r = Some n \<longrightarrow> n = 0 \<or> n < sc_ReplayAbandonThreshold cfg) \<and>
    (\<forall>r roots. sget (RingRoots s) (i, r) = Some roots \<longrightarrow> 0 < length roots \<and> length roots \<le> sc_MaxRecentRoots cfg)"
proof -
  have "subscriber_inv cfg s"
    unfolding s using subscriber.run_keeps [of cfg subscriber_genesis ops] assms(1,2) subscriber_genesis_inv by blast
  then have c: "coll_ok cfg i st (RingRoots s)" by (simp add: subscriber_inv_def st)
  have "0 < length roots \<and> length roots \<le> sc_MaxRecentRoots cfg" if "sget (RingRoots s) (i, r) = Some roots" for r roots
  proof -
    have "r \<in> rings_of (RingRoots s) i" "sget_or [] (RingRoots s) (i, r) = roots" using that by (simp_all add: rings_of_def scontains_def sget_or_def)
    then show ?thesis using c unfolding coll_ok_def by (metis length_greater_0_conv)
  qed
  then show ?thesis using c by (auto simp: coll_ok_def missing_ok_def)
qed

theorem subscriber_values_fit_witness:
  "let s = demo_replica; st = collection_state_of s [1] in
    wf_storage (cs_missing st) \<and> length (cs_missing st) \<le> sc_MaxMissing demo_subscriber \<and>
    distinct (cs_deleted st) \<and> length (cs_deleted st) \<le> sc_MaxDeleted demo_subscriber \<and>
    (\<forall>r n. sget (cs_missing st) r = Some n \<longrightarrow> n = 0 \<or> n < sc_ReplayAbandonThreshold demo_subscriber) \<and>
    (\<forall>r roots. sget (RingRoots s) ([1], r) = Some roots \<longrightarrow> 0 < length roots \<and> length roots \<le> sc_MaxRecentRoots demo_subscriber)"
  unfolding Let_def
  by (rule subscriber_values_fit [OF _ demo_calls_guard refl refl]) (simp add: demo_subscriber_def)

subsection \<open>Gaps are detected\<close>

lemma accounted_all:
  assumes c: "coll_ok cfg i st R" and all: "sat_add u32_max (cs_ring_count st) (length (cs_deleted st)) \<ge> cs_next_ring_index st"
    and r: "r < cs_next_ring_index st"
  shows "r \<in> rings_of R i \<or> r \<in> set (cs_deleted st)"
proof -
  let ?S = "rings_of R i" and ?D = "set (cs_deleted st)"
  have sub: "?S \<union> ?D \<subseteq> {..<cs_next_ring_index st}" and disj: "?S \<inter> ?D = {}" and cnt: "cs_ring_count st = card ?S" "length (cs_deleted st) = card ?D"
    using c by (auto simp: coll_ok_def distinct_card)
  have "cs_next_ring_index st \<le> card (?S \<union> ?D)" using all disj cnt by (simp add: card_Un_disjoint sat_add_def split: if_splits)
  then have "?S \<union> ?D = {..<cs_next_ring_index st}" using card_subset_eq [OF _ sub] card_mono [OF _ sub] by simp
  then show ?thesis using r by blast
qed

lemma collection_state_of_put:
  "collection_state_of (s\<lparr>RingCollectionStates := sput i x (RingCollectionStates s)\<rparr>) i = x"
  "collection_state_of (subscriber_deposit e s) i = collection_state_of s i"
  by (simp_all add: collection_state_of_def subscriber_deposit_def)

lemma detect_accounts:
  assumes inv: "subscriber_inv cfg s" and old: "old \<le> r" and r: "r < cs_next_ring_index (collection_state_of s (ub_identifier b))"
    and s': "s' = detect_missing_rings_in_batch cfg b old s" and st: "st = collection_state_of s' (ub_identifier b)"
  shows "r \<in> rings_of (RingRoots s') (ub_identifier b) \<or> r \<in> set (cs_deleted st) \<or> scontains (cs_missing st) r \<or>
    length (cs_missing st) = sc_MaxMissing cfg \<or> length (cs_deleted st) = sc_MaxDeleted cfg"
proof -
  let ?i = "ub_identifier b" and ?st = "collection_state_of s (ub_identifier b)"
  have c: "coll_ok cfg ?i ?st (RingRoots s)" using inv by (simp add: subscriber_inv_def)
  consider (all) "sat_add u32_max (cs_ring_count ?st) (length (cs_deleted ?st)) \<ge> cs_next_ring_index ?st"
    | (full) "\<not> sat_add u32_max (cs_ring_count ?st) (length (cs_deleted ?st)) \<ge> cs_next_ring_index ?st" "length (cs_deleted ?st) \<ge> sc_MaxDeleted cfg"
    | (scan) "\<not> sat_add u32_max (cs_ring_count ?st) (length (cs_deleted ?st)) \<ge> cs_next_ring_index ?st" "\<not> length (cs_deleted ?st) \<ge> sc_MaxDeleted cfg"
    by blast
  then show ?thesis
  proof cases
    case all
    have "r \<in> rings_of (RingRoots s) ?i \<or> r \<in> set (cs_deleted ?st)" by (rule accounted_all [OF c all r])
    moreover have "RingRoots s' = RingRoots s" "cs_deleted st = cs_deleted ?st"
      using all by (simp_all add: st s' detect_missing_rings_in_batch_def Let_def collection_state_of_put)
    ultimately show ?thesis by auto
  next
    case full
    then have "cs_deleted st = cs_deleted ?st"
      by (simp add: st s' detect_missing_rings_in_batch_def Let_def collection_state_of_put)
    then show ?thesis using full(2) c by (simp add: coll_ok_def)
  next
    case scan
    obtain m k where run: "scan_missing cfg ?i (RingRoots s) (cs_deleted ?st) old (cs_next_ring_index ?st - old) (cs_missing ?st) 0 = (m, k)"
      by (meson surj_pair)
    then have f: "cs_deleted st = cs_deleted ?st" "cs_missing st = m"
      using scan by (simp_all add: st s' detect_missing_rings_in_batch_def Let_def collection_state_of_put)
    have roots: "RingRoots s' = RingRoots s" by (simp add: s')
    have m: "missing_ok cfg m" "length m < sc_MaxMissing cfg \<longrightarrow>
        (\<forall>q. old \<le> q \<and> q < old + (cs_next_ring_index ?st - old) \<longrightarrow> q \<in> rings_of (RingRoots s) ?i \<or> q \<in> set (cs_deleted ?st) \<or> scontains m q)"
      using scan_missing_ok [OF run, where N = "cs_next_ring_index ?st"] c old r unfolding coll_ok_def by auto
    show ?thesis
    proof (cases "length m < sc_MaxMissing cfg")
      case True
      then show ?thesis using m(2) old r unfolding f roots by auto
    next
      case False
      then show ?thesis using m(1) unfolding f missing_ok_def by simp
    qed
  qed
qed

text \<open>A gap is noticed. After a batch that the subscriber did not skip, every ring index that became known with the
  batch has a root, is marked as deleted or is marked as missing and so asked for again, unless one of the two
  bounded collections of marks is full.\<close>

theorem gaps_are_marked:
  assumes "0 < sc_MaxRecentRoots cfg" and "guarded_run (subscriber_step cfg) (subscriber_guard cfg) ops subscriber_genesis"
    and s: "s = run_calls (subscriber_step cfg) ops subscriber_genesis"
    and fits: "batch_fits b s" and new: "\<not> ub_sequence b < ps_last_processed (ProcessingState s)"
    and ok: "process_ring_updates cfg env NotifierOrigin b s = Inr s'" and st: "st = collection_state_of s' (ub_identifier b)"
    and r: "cs_next_ring_index (collection_state_of s (ub_identifier b)) \<le> r" "r < ub_next_ring_index b"
  shows "scontains (RingRoots s') (ub_identifier b, r) \<or> r \<in> set (cs_deleted st) \<or> scontains (cs_missing st) r \<or>
    length (cs_missing st) = sc_MaxMissing cfg \<or> length (cs_deleted st) = sc_MaxDeleted cfg"
proof -
  let ?s1 = "store_ring_roots cfg b s" and ?old = "cs_next_ring_index (collection_state_of s (ub_identifier b))"
  let ?s2 = "detect_missing_rings_in_batch cfg b ?old ?s1"
  have "subscriber_inv cfg s"
    unfolding s using subscriber.run_keeps [of cfg subscriber_genesis ops] assms(1,2) subscriber_genesis_inv by blast
  note stored = store_ring_roots_inv [OF this assms(1) fits]
  have "RingRoots s' = RingRoots ?s2" "RingCollectionStates s' = RingCollectionStates ?s2"
    using ok new by (auto simp: process_ring_updates_def Let_def subscriber_deposit_def record_batch_processed_def)
  then have s': "RingRoots s' = RingRoots ?s2" "st = collection_state_of ?s2 (ub_identifier b)" by (simp_all add: st collection_state_of_def)
  show ?thesis
    using detect_accounts [OF stored(1) r(1) _ refl s'(2)] r(2) stored(2) unfolding s'(1) rings_of_def by simp
qed

theorem gaps_are_marked_witness:
  "let s' = sum.projr (process_ring_updates demo_subscriber (demo_sub 40) NotifierOrigin
       ((demo_update 3 [0])\<lparr>ub_next_ring_index := 6\<rparr>) demo_replica);
     st = collection_state_of s' [1]
   in scontains (RingRoots s') ([1], 5) \<or> 5 \<in> set (cs_deleted st) \<or> scontains (cs_missing st) 5 \<or>
    length (cs_missing st) = sc_MaxMissing demo_subscriber \<or> length (cs_deleted st) = sc_MaxDeleted demo_subscriber"
proof -
  let ?b = "(demo_update 3 [0])\<lparr>ub_next_ring_index := 6\<rparr>"
  have i: "ub_identifier ?b = [1]" by (simp add: demo_update_def)
  show ?thesis
    unfolding Let_def
    by (rule gaps_are_marked [OF _ demo_calls_guard refl, where b = ?b and env = "demo_sub 40", unfolded i]; code_simp?)
qed

subsection \<open>Asking again\<close>

lemma send_replay_chunks_messages:
  "\<exists>cs'. to_notifier (snd (send_replay_chunks cfg env i cs b s)) =
     to_notifier s @ map (\<lambda>c. (sc_notifier_pallet_index cfg, CallRequestReplay (sc_SelfParaId cfg) i c)) cs'"
proof (induction cs arbitrary: b s)
  case (Cons c cs)
  show ?case
  proof (cases "send_replay_request cfg env i c s")
    case (Inl e)
    then show ?thesis by (intro exI [of _ "[]"]) simp
  next
    case (Inr s1)
    then have s1: "to_notifier (subscriber_deposit e s1) = to_notifier s @ [(sc_notifier_pallet_index cfg, CallRequestReplay (sc_SelfParaId cfg) i c)]" for e
      by (auto simp: send_replay_request_def send_to_notifier_def Let_def subscriber_deposit_def)
    obtain cs' where "to_notifier (snd (send_replay_chunks cfg env i cs True (subscriber_deposit (ReplayRequestSent i (length c)) s1))) =
        to_notifier (subscriber_deposit (ReplayRequestSent i (length c)) s1) @
        map (\<lambda>c. (sc_notifier_pallet_index cfg, CallRequestReplay (sc_SelfParaId cfg) i c)) cs'" using Cons.IH by blast
    then show ?thesis using Inr s1 by (intro exI [of _ "c # cs'"]) simp
  qed
qed simp

lemma replay_messages:
  assumes "replay_missing_roots cfg env SubAuthorized i idxs s = Inr s'"
  shows "\<exists>cs. to_notifier s' = to_notifier s @ map (\<lambda>c. (sc_notifier_pallet_index cfg, CallRequestReplay (sc_SelfParaId cfg) i c)) cs"
proof -
  have "\<exists>cs. to_notifier (snd (process_collection_replay cfg env i xs s)) =
      to_notifier s @ map (\<lambda>c. (sc_notifier_pallet_index cfg, CallRequestReplay (sc_SelfParaId cfg) i c)) cs" for xs
  proof -
    obtain m acc where loop: "replay_loop (sc_ReplayAbandonThreshold cfg) xs (cs_missing (collection_state_of s i)) [] = (m, acc)" by (meson surj_pair)
    let ?s1 = "s\<lparr>RingCollectionStates := sput i ((collection_state_of s i)\<lparr>cs_missing := m\<rparr>) (RingCollectionStates s)\<rparr>"
    have "process_collection_replay cfg env i xs s \<in> {(False, s), (False, ?s1),
        send_replay_chunks cfg env i (chunks_of (sc_MaxUpdatesPerBatch cfg) acc) False ?s1}"
      using loop by (simp add: process_collection_replay_def Let_def)
    then consider "process_collection_replay cfg env i xs s = (False, s)" | "process_collection_replay cfg env i xs s = (False, ?s1)"
      | "process_collection_replay cfg env i xs s = send_replay_chunks cfg env i (chunks_of (sc_MaxUpdatesPerBatch cfg) acc) False ?s1" by blast
    then show ?thesis
    proof cases
      case 3
      then show ?thesis using send_replay_chunks_messages [of cfg env i "chunks_of (sc_MaxUpdatesPerBatch cfg) acc" False ?s1] by simp
    qed (auto intro: exI [of _ "[]"])
  qed
  moreover have "to_notifier s' = to_notifier (snd (process_collection_replay cfg env i (sort (remdups idxs)) s))"
    using assms by (auto simp: replay_missing_roots_def Let_def case_prod_beta split: if_splits)
  ultimately show ?thesis by simp
qed

text \<open>Of the requests that one replay of a collection sends in chunks, the notifier answers one. Whenever two requests
  come from the same call of \<open>replay_missing_roots\<close> and the notifier has answered the first, the second is
  refused until the cooldown has passed, although the subscriber has counted an attempt for its rings as well.\<close>

theorem later_chunks_refused:
  assumes sent: "replay_missing_roots scfg senv SubAuthorized i idxs s = Inr s'"
    and two: "to_notifier s' = to_notifier s @ (j1, CallRequestReplay p1 i1 xs) # (j2, CallRequestReplay p2 i2 ys) # rest"
    and first: "request_replay cfg env o1 p1 i1 xs n = Inr n1"
    and soon: "ne_now env' - ne_now env < nc_ReplayCooldownSeconds cfg"
  shows "\<exists>e. request_replay cfg env' o2 p2 i2 ys n1 = Inl e"
proof -
  obtain cs where "to_notifier s' = to_notifier s @ map (\<lambda>c. (sc_notifier_pallet_index scfg, CallRequestReplay (sc_SelfParaId scfg) i c)) cs"
    using replay_messages [OF sent] by blast
  then have same: "p2 = p1" "i2 = i1" using two by (auto simp: Cons_eq_map_conv)
  have last: "sget (LastReplayTime n1) (p1, i1) = Some (ne_now env)"
    using first unfolding request_replay_def Let_def ensure_Inr map_err_Inr ok_or_Inr on_ok_Inr by (auto simp: notifier_deposit_def)
  have "request_replay cfg env' o2 p1 i1 ys n1 \<noteq> Inr n2" for n2
  proof
    assume "request_replay cfg env' o2 p1 i1 ys n1 = Inr n2"
    then have "case sget (LastReplayTime n1) (p1, i1) of None \<Rightarrow> True | Some t \<Rightarrow> ne_now env' - t \<ge> nc_ReplayCooldownSeconds cfg"
      unfolding request_replay_def Let_def ensure_Inr map_err_Inr ok_or_Inr on_ok_Inr by blast
    then show False using last soon by simp
  qed
  then show ?thesis using same by (metis sum.exhaust)
qed

definition demo_asks :: "nat list subscriber_state" where
  "demo_asks = run_calls (subscriber_step demo_subscriber) (take 1 demo_calls) subscriber_genesis"

definition demo_answers :: "nat list notifier_state" where
  "demo_answers = run_calls (notifier_step demo_notifier) (take 7 demo_batches) notifier_genesis"

theorem later_chunks_refused_witness:
  "\<exists>e. request_replay demo_notifier ((demo_net 6)\<lparr>ne_provider := demo_roots\<rparr>) (SignedBy [1]) 100 [1] [3]
     (sum.projr (request_replay demo_notifier ((demo_net 5)\<lparr>ne_provider := demo_roots\<rparr>) (SignedBy [1]) 100 [1] [1, 2] demo_answers)) = Inl e"
  by (rule later_chunks_refused [where scfg = demo_subscriber and senv = "demo_sub 20" and i = "[1]" and idxs = "[1, 2, 3]" and s = demo_asks
        and s' = "sum.projr (replay_missing_roots demo_subscriber (demo_sub 20) SubAuthorized [1] [1, 2, 3] demo_asks)"
        and ?j1.0 = 9 and ?j2.0 = 9 and ?p1.0 = 100 and ?i1.0 = "[1]" and xs = "[1, 2]" and rest = "[]" and ?o1.0 = "SignedBy [1]"
        and env = "(demo_net 5)\<lparr>ne_provider := demo_roots\<rparr>" and n = demo_answers]) code_simp+

text \<open>The offchain worker of the subscriber only submits calls that are authorised: each collection it names has
  a missing ring among the indices, the subscription is active and the cooldown has passed.\<close>

theorem replay_calls_authorised:
  assumes max: "0 < sc_MaxMissing cfg" and wf: "wf_storage (RingCollectionStates s)"
    and call: "(i, idxs) \<in> set (subscriber_offchain_worker cfg env block s)"
  shows "authorize_replay_missing_roots cfg env LocalSource i idxs s = Inr i \<and> idxs \<noteq> [] \<and> length idxs \<le> sc_MaxMissing cfg \<and>
    set idxs \<subseteq> fst ` set (cs_missing (collection_state_of s i))"
proof -
  obtain st where st: "(i, st) \<in> set (RingCollectionStates s)" "cs_missing st \<noteq> []" "idxs = take (sc_MaxMissing cfg) (sort (map fst (cs_missing st)))"
    and ready: "case Subscription s of SubActive _ \<Rightarrow> True | _ \<Rightarrow> False"
      "\<not> se_now env - ps_last_replay_time (ProcessingState s) < sc_ReplayCooldownSeconds cfg"
    using call by (auto simp: subscriber_offchain_worker_def split: if_splits)
  have at: "collection_state_of s i = st" using in_set_sget [OF wf st(1)] by (simp add: collection_state_of_def sget_or_def)
  have sub: "set idxs \<subseteq> fst ` set (cs_missing st)" using st(3) by (auto dest: in_set_takeD)
  have "sort (map fst (cs_missing st)) \<noteq> []" using st(2) by (metis length_0_conv length_map length_sort)
  then have ne: "idxs \<noteq> []" using st(3) max by simp
  then have "list_ex (scontains (cs_missing st)) idxs"
    using sub by (cases idxs) (auto simp: scontains_def sget_None_iff)
  then show ?thesis using ready at sub ne st(3) by (simp add: authorize_replay_missing_roots_def)
qed

theorem replay_calls_authorised_witness:
  "authorize_replay_missing_roots demo_subscriber (demo_sub 60) LocalSource [1] [2, 3] demo_replica = Inr [1] \<and> [2, 3 :: nat] \<noteq> [] \<and>
    length [2, 3 :: nat] \<le> sc_MaxMissing demo_subscriber \<and> set [2, 3] \<subseteq> fst ` set (cs_missing (collection_state_of demo_replica [1]))"
  by (rule replay_calls_authorised [where block = 1]) code_simp+

end
