(* ===== verification/Member_Service.thy ===== *)
theory Member_Service
  imports Subscriber
begin

text \<open>
  What the pallets that identify people by ring proofs use of their runtime: the membership service
  (the trait \<open>MembershipProver\<close> of \<open>support/src/traits/reality.rs\<close>), which the members pallet and the
  members subscriber provide, the identifiers of the two collections of people, the little-endian
  encoding of integers, and an asset ledger.
\<close>

subsection \<open>The collections of people\<close>

definition PEOPLE_IDENTIFIER :: coll_id where
  "PEOPLE_IDENTIFIER = map (of_nat \<circ> of_char) ''pop:polkadot.network/people     ''"

definition PEOPLE_LITE_IDENTIFIER :: coll_id where
  "PEOPLE_LITE_IDENTIFIER = map (of_nat \<circ> of_char) ''pop:polkadot.network/people-lite''"

lemma people_identifiers_differ [simp]:
  "PEOPLE_IDENTIFIER \<noteq> PEOPLE_LITE_IDENTIFIER" "PEOPLE_LITE_IDENTIFIER \<noteq> PEOPLE_IDENTIFIER"
  by (simp_all add: PEOPLE_IDENTIFIER_def PEOPLE_LITE_IDENTIFIER_def)

subsection \<open>The membership service\<close>

text \<open>
  The service at one moment. A failed verification carries an error that no client looks at.
\<close>

record 'proof member_service =
  ms_verify_at_rev :: "coll_id \<Rightarrow> 'proof \<Rightarrow> nat \<Rightarrow> nat \<Rightarrow> bytes \<Rightarrow> bytes \<Rightarrow> ContextualAlias option"
  ms_ring_revision :: "coll_id \<Rightarrow> nat \<Rightarrow> nat option"
  ms_is_revision_valid :: "coll_id \<Rightarrow> nat \<Rightarrow> nat \<Rightarrow> bool"
  ms_revision_source_time :: "coll_id \<Rightarrow> nat \<Rightarrow> nat \<Rightarrow> nat option"

definition ok_value :: "'e + 'a \<Rightarrow> 'a option" where
  "ok_value r = (case r of Inl _ \<Rightarrow> None | Inr x \<Rightarrow> Some x)"

lemma ok_value_Some [simp]: "ok_value r = Some x \<longleftrightarrow> r = Inr x"
  by (simp add: ok_value_def split: sum.splits)

text \<open>The service that a subscriber gives its chain, and the one of the members pallet.\<close>

definition subscriber_service ::
  "subscriber_config \<Rightarrow> ('proof, 'root) ring_prover \<Rightarrow> 'root subscriber_state \<Rightarrow> 'proof member_service" where
  "subscriber_service cfg pr s = \<lparr>
     ms_verify_at_rev = (\<lambda>i proof ring revision context msg.
       ok_value (sub_verify_membership_at_rev cfg pr i proof ring revision context msg s)),
     ms_ring_revision = (\<lambda>i ring. sub_ring_revision i ring s),
     ms_is_revision_valid = (\<lambda>i ring revision. sub_is_revision_valid i ring revision s),
     ms_revision_source_time = (\<lambda>i ring revision. sub_revision_source_time i ring revision s)\<rparr>"

definition members_service ::
  "('m, 'root, 'inter, 'c) members_config \<Rightarrow> ('proof, 'root) ring_prover \<Rightarrow> nat \<Rightarrow>
   ('m, 'root, 'inter) members_state \<Rightarrow> 'proof member_service" where
  "members_service cfg pr now s = \<lparr>
     ms_verify_at_rev = (\<lambda>i proof ring revision context msg.
       ok_value (verify_membership_at_rev cfg pr now i proof ring revision context msg s)),
     ms_ring_revision = (\<lambda>i ring. ring_revision i ring s),
     ms_is_revision_valid = (\<lambda>i ring revision. is_revision_valid cfg now i ring revision s),
     ms_revision_source_time = (\<lambda>i ring revision. revision_source_time i ring revision s)\<rparr>"

text \<open>
  What a client relies on: a verified proof is for the context that was asked for; and, from the
  subscriber only, the latest revision is one of those retained, and all of those have a time. (The
  members pallet keeps the roots of a collection while it deletes it, and has times for old roots only.)
\<close>

locale membership_prover =
  fixes service :: "'s \<Rightarrow> 'proof member_service"
  assumes verified_context:
    "ms_verify_at_rev (service s) i proof ring revision context msg = Some ca \<Longrightarrow> ca_context ca = context"

locale root_window = membership_prover service
  for service :: "'s \<Rightarrow> 'proof member_service" +
  assumes latest_retained: "ms_ring_revision (service s) i ring = Some v \<Longrightarrow> ms_is_revision_valid (service s) i ring v"
    and retained_timed: "ms_is_revision_valid (service s) i ring v \<Longrightarrow> ms_revision_source_time (service s) i ring v \<noteq> None"
    and retained_latest: "ms_is_revision_valid (service s) i ring v \<Longrightarrow> ms_ring_revision (service s) i ring \<noteq> None"

interpretation mem: membership_prover "\<lambda>(now, s). members_service cfg pr now s"
  by unfold_locales
     (auto simp: members_service_def verify_membership_at_rev_def)

lemma find_ex: "list_ex P xs \<Longrightarrow> find P xs \<noteq> None"
  by (auto simp: list_ex_iff find_None_iff)

interpretation sub: root_window "subscriber_service cfg pr"
proof unfold_locales
  fix s i pf ring v ctx msg ca
  assume "ms_verify_at_rev (subscriber_service cfg pr s) i pf ring v ctx msg = Some ca"
  then show "ca_context ca = ctx"
    by (auto simp: subscriber_service_def sub_verify_membership_at_rev_def)
next
  fix s i ring v
  assume "ms_ring_revision (subscriber_service cfg pr s) i ring = Some v"
  then show "ms_is_revision_valid (subscriber_service cfg pr s) i ring v"
    by (auto simp: subscriber_service_def sub_ring_revision_def sub_is_revision_valid_def list_ex_iff
          split: option.splits if_splits)
next
  fix s i ring v
  assume "ms_is_revision_valid (subscriber_service cfg pr s) i ring v"
  then show "ms_revision_source_time (subscriber_service cfg pr s) i ring v \<noteq> None"
    by (auto simp: subscriber_service_def sub_revision_source_time_def sub_is_revision_valid_def
          dest!: find_ex split: option.splits)
next
  fix s i ring v
  assume "ms_is_revision_valid (subscriber_service cfg pr s) i ring v"
  then show "ms_ring_revision (subscriber_service cfg pr s) i ring \<noteq> None"
    by (auto simp: subscriber_service_def sub_ring_revision_def sub_is_revision_valid_def split: option.splits)
qed

subsection \<open>Encoding of integers\<close>

text \<open>\<open>to_le_bytes\<close> of an unsigned integer of \<open>k\<close> bytes, which is also its SCALE encoding.\<close>

fun le_bytes :: "nat \<Rightarrow> nat \<Rightarrow> bytes" where
  "le_bytes 0 n = []"
| "le_bytes (Suc k) n = of_nat (n mod 256) # le_bytes k (n div 256)"

fun from_le_bytes :: "bytes \<Rightarrow> nat" where
  "from_le_bytes [] = 0"
| "from_le_bytes (b # bs) = unat b + 256 * from_le_bytes bs"

lemma length_le_bytes [simp]: "length (le_bytes k n) = k"
  by (induction k arbitrary: n) auto

lemma from_le_bytes_inverse: "n < 256 ^ k \<Longrightarrow> from_le_bytes (le_bytes k n) = n"
proof (induction k arbitrary: n)
  case (Suc k)
  have "n div 256 < 256 ^ k" using Suc.prems by (simp add: less_mult_imp_div_less mult.commute)
  then have "from_le_bytes (le_bytes k (n div 256)) = n div 256" by (rule Suc.IH)
  moreover have "unat (of_nat (n mod 256) :: 8 word) = n mod 256"
    by (simp add: unat_of_nat)
  ultimately show ?case by (simp del: unat_of_nat)
qed simp

lemma le_bytes_inject: "m < 256 ^ k \<Longrightarrow> n < 256 ^ k \<Longrightarrow> le_bytes k m = le_bytes k n \<longleftrightarrow> m = n"
  by (metis from_le_bytes_inverse)

subsection \<open>An asset ledger\<close>

text \<open>
  \<open>fungibles\<close> of the SDK: the assets by identifier and the balances of the accounts. The laws state what
  its documentation promises of a successful operation: minting adds to the balance of the target
  and burning exactly an amount takes it off; nothing else moves. Minting and creation keep assets
  in being.
\<close>

record 'l fungibles =
  asset_exists :: "nat \<Rightarrow> 'l \<Rightarrow> bool"
  asset_balance :: "nat \<Rightarrow> account_id \<Rightarrow> 'l \<Rightarrow> nat"
  mint_into :: "nat \<Rightarrow> account_id \<Rightarrow> nat \<Rightarrow> 'l \<Rightarrow> string + 'l"
  burn_exact :: "nat \<Rightarrow> account_id \<Rightarrow> nat \<Rightarrow> preservation \<Rightarrow> 'l \<Rightarrow> string + 'l"
  create_asset :: "nat \<Rightarrow> account_id \<Rightarrow> bool \<Rightarrow> nat \<Rightarrow> 'l \<Rightarrow> string + 'l"

definition fungibles_laws :: "'l fungibles \<Rightarrow> bool" where
  "fungibles_laws f \<longleftrightarrow>
     (\<forall>x a n l l'. mint_into f x a n l = Inr l' \<longrightarrow>
        asset_balance f x a l' = asset_balance f x a l + n \<and>
        (\<forall>y b. (y, b) \<noteq> (x, a) \<longrightarrow> asset_balance f y b l' = asset_balance f y b l)) \<and>
     (\<forall>x a n p l l'. burn_exact f x a n p l = Inr l' \<longrightarrow>
        asset_balance f x a l' + n = asset_balance f x a l \<and>
        (\<forall>y b. (y, b) \<noteq> (x, a) \<longrightarrow> asset_balance f y b l' = asset_balance f y b l)) \<and>
     (\<forall>x a sufficient n l l'. create_asset f x a sufficient n l = Inr l' \<longrightarrow>
        \<not> asset_exists f x l \<and> asset_exists f x l' \<and> (\<forall>y b. asset_balance f y b l' = asset_balance f y b l))"

lemma mint_law:
  assumes "fungibles_laws f" and "mint_into f x a n l = Inr l'"
  shows "asset_balance f x a l' = asset_balance f x a l + n"
    and "(y, b) \<noteq> (x, a) \<Longrightarrow> asset_balance f y b l' = asset_balance f y b l"
  using assms unfolding fungibles_laws_def by blast+

lemma burn_law:
  assumes "fungibles_laws f" and "burn_exact f x a n p l = Inr l'"
  shows "asset_balance f x a l' + n = asset_balance f x a l"
    and "(y, b) \<noteq> (x, a) \<Longrightarrow> asset_balance f y b l' = asset_balance f y b l"
  using assms unfolding fungibles_laws_def by blast+

lemma create_law:
  assumes "fungibles_laws f" and "create_asset f x a sufficient n l = Inr l'"
  shows "asset_exists f x l'" and "asset_balance f y b l' = asset_balance f y b l"
  using assms unfolding fungibles_laws_def by blast+

text \<open>A ledger that meets the laws, for the witnesses: the assets and the balances.\<close>

definition book_fungibles :: "(nat list \<times> (nat \<times> account_id, nat) storage) fungibles" where
  "book_fungibles = \<lparr>
     asset_exists = (\<lambda>x (assets, b). x \<in> set assets),
     asset_balance = (\<lambda>x a (assets, b). sget_or 0 b (x, a)),
     mint_into = (\<lambda>x a n (assets, b).
       if x \<in> set assets then Inr (assets, sput (x, a) (sget_or 0 b (x, a) + n) b) else Inl ''UnknownAsset''),
     burn_exact = (\<lambda>x a n p (assets, b).
       if n \<le> sget_or 0 b (x, a) then Inr (assets, sput (x, a) (sget_or 0 b (x, a) - n) b) else Inl ''FundsUnavailable''),
     create_asset = (\<lambda>x a sufficient n (assets, b).
       if x \<in> set assets then Inl ''InUse'' else Inr (x # assets, b))\<rparr>"

lemma book_fungibles_laws: "fungibles_laws book_fungibles"
  by (auto simp: fungibles_laws_def book_fungibles_def sget_or_def split: if_splits)

end
