(* ===== verification/Account_Binding.thy ===== *)
theory Account_Binding
  imports Member_Service
begin

text \<open>
  What the pallets that bind accounts to aliases share: two maps, one from keys to accounts and one
  from accounts to what is bound to them, that are inverse to each other, and one reference of
  \<open>frame_system\<close> for every bound account. The key of a binding is a function of what is stored with the account.
\<close>

subsection \<open>Inverse maps\<close>

definition bound_maps ::
  "('i \<Rightarrow> 'k) \<Rightarrow> ('k, 'a) storage \<Rightarrow> ('a, 'i) storage \<Rightarrow> bool" where
  "bound_maps key A B \<longleftrightarrow>
     (\<forall>k who. sget A k = Some who \<longleftrightarrow> (\<exists>info. sget B who = Some info \<and> key info = k))"

lemma bound_maps_Nil: "bound_maps key [] []"
  by (simp add: bound_maps_def)

lemma bound_mapsD:
  "bound_maps key A B \<Longrightarrow> sget B who = Some info \<Longrightarrow> sget A (key info) = Some who"
  "bound_maps key A B \<Longrightarrow> sget A k = Some who \<Longrightarrow> \<exists>info. sget B who = Some info \<and> key info = k"
  unfolding bound_maps_def by blast+

lemma bound_maps_inj:
  assumes "bound_maps key A B" and "sget B v = Some i" and "sget B w = Some j" and "key i = key j"
  shows "v = w"
  using bound_mapsD(1) [OF assms(1,2)] bound_mapsD(1) [OF assms(1,3)] assms(4) by simp

lemma bound_mapsI:
  assumes "\<And>w i. sget B w = Some i \<Longrightarrow> sget A (key i) = Some w"
    and "\<And>k w. sget A k = Some w \<Longrightarrow> \<exists>i. sget B w = Some i \<and> key i = k"
  shows "bound_maps key A B"
  using assms unfolding bound_maps_def by blast

lemma bound_maps_unbind:
  assumes maps: "bound_maps key A B" and who: "sget B who = Some info"
  shows "bound_maps key (sdel (key info) A) (sdel who B)"
proof (rule bound_mapsI)
  fix w i
  assume "sget (sdel who B) w = Some i"
  then have w: "w \<noteq> who" "sget B w = Some i" by (auto split: if_splits)
  then have "key i \<noteq> key info" using bound_maps_inj [OF maps w(2) who] by auto
  then show "sget (sdel (key info) A) (key i) = Some w" using bound_mapsD(1) [OF maps w(2)] by simp
next
  fix k w
  assume "sget (sdel (key info) A) k = Some w"
  then have "k \<noteq> key info" "sget A k = Some w" by (auto split: if_splits)
  then show "\<exists>i. sget (sdel who B) w = Some i \<and> key i = k"
    using bound_mapsD(2) [OF maps, of k w] who by auto
qed

lemma bound_maps_swap:
  assumes maps: "bound_maps key A B" and at_key: "sget A (key info) = Some old" and who: "sget B who = None"
  shows "bound_maps key (sput (key info) who A) (sput who info (sdel old B))"
proof (rule bound_mapsI)
  fix w i
  assume w: "sget (sput who info (sdel old B)) w = Some i"
  show "sget (sput (key info) who A) (key i) = Some w"
  proof (cases "w = who")
    case False
    then have "w \<noteq> old" "sget A (key i) = Some w" using w bound_mapsD(1) [OF maps] by (auto split: if_splits)
    then show ?thesis using at_key by auto
  qed (use w in auto)
next
  fix k w
  assume k: "sget (sput (key info) who A) k = Some w"
  show "\<exists>i. sget (sput who info (sdel old B)) w = Some i \<and> key i = k"
  proof (cases "k = key info")
    case False
    then obtain i where i: "sget B w = Some i" "key i = k" using k bound_mapsD(2) [OF maps, of k w] by auto
    obtain j where j: "sget B old = Some j" "key j = key info" using bound_mapsD(2) [OF maps at_key] by auto
    have "w \<noteq> old" "w \<noteq> who" using i j who False by auto
    then show ?thesis using i by simp
  qed (use k in auto)
qed

lemma bound_maps_bind:
  assumes maps: "bound_maps key A B" and at_key: "sget A (key info) = None" and who: "sget B who = None"
  shows "bound_maps key (sput (key info) who A) (sput who info B)"
proof (rule bound_mapsI)
  fix w i
  assume w: "sget (sput who info B) w = Some i"
  show "sget (sput (key info) who A) (key i) = Some w"
    using w at_key bound_mapsD(1) [OF maps, of w i] by (cases "w = who") auto
next
  fix k w
  assume "sget (sput (key info) who A) k = Some w"
  then show "\<exists>i. sget (sput who info B) w = Some i \<and> key i = k"
    using who bound_mapsD(2) [OF maps, of k w] by (cases "k = key info") force+
qed

lemma bound_maps_renew:
  assumes maps: "bound_maps key A B" and who: "sget B who = Some info0" and same: "key info = key info0"
  shows "bound_maps key A (sput who info B)" and "bound_maps key (sput (key info) who A) (sput who info B)"
proof -
  show *: "bound_maps key A (sput who info B)"
  proof (rule bound_mapsI)
    fix w i
    assume "sget (sput who info B) w = Some i"
    then show "sget A (key i) = Some w"
      using bound_mapsD(1) [OF maps] who same by (cases "w = who") auto
  next
    fix k w
    assume "sget A k = Some w"
    then show "\<exists>i. sget (sput who info B) w = Some i \<and> key i = k"
      using bound_mapsD(2) [OF maps, of k w] who same by (cases "w = who") auto
  qed
  have "sget (sput (key info) who A) = sget A"
    using bound_mapsD(1) [OF maps who] same by auto
  with * show "bound_maps key (sput (key info) who A) (sput who info B)" by (simp add: bound_maps_def)
qed

subsection \<open>References\<close>

text \<open>
  The calls a pallet makes to the reference counters of \<open>frame_system\<close>, in order; the counters themselves are
  shared with the other pallets.
\<close>

datatype ref_call = IncSufficients account_id | DecSufficients account_id

definition net_refs :: "ref_call list \<Rightarrow> account_id \<Rightarrow> int" where
  "net_refs cs a = int (count_list cs (IncSufficients a)) - int (count_list cs (DecSufficients a))"

definition never_below :: "ref_call list \<Rightarrow> bool" where
  "never_below cs \<longleftrightarrow> (\<forall>n a. 0 \<le> net_refs (take n cs) a)"

lemma count_list_snoc: "count_list (xs @ [y]) x = count_list xs x + (if x = y then 1 else 0)"
  by (induction xs) auto

lemma net_refs_simps [simp]:
  "net_refs [] a = 0"
  "net_refs (cs @ [IncSufficients b]) a = net_refs cs a + (if a = b then 1 else 0)"
  "net_refs (cs @ [DecSufficients b]) a = net_refs cs a - (if a = b then 1 else 0)"
  by (auto simp: net_refs_def count_list_snoc)

lemma never_below_Nil [simp]: "never_below []"
  by (simp add: never_below_def)

lemma never_below_snoc:
  "never_below (cs @ [c]) \<longleftrightarrow> never_below cs \<and> (\<forall>a. 0 \<le> net_refs (cs @ [c]) a)"
proof
  assume all: "never_below (cs @ [c])"
  have "0 \<le> net_refs (take n cs) a" for n a
    using all [unfolded never_below_def, rule_format, of "min n (length cs)" a] by (simp add: min_def split: if_splits)
  moreover have "0 \<le> net_refs (cs @ [c]) a" for a
    using all [unfolded never_below_def, rule_format, of "Suc (length cs)" a] by simp
  ultimately show "never_below cs \<and> (\<forall>a. 0 \<le> net_refs (cs @ [c]) a)" by (simp add: never_below_def)
next
  assume split: "never_below cs \<and> (\<forall>a. 0 \<le> net_refs (cs @ [c]) a)"
  show "never_below (cs @ [c])"
    unfolding never_below_def
  proof (intro allI)
    fix n a
    show "0 \<le> net_refs (take n (cs @ [c])) a"
      using split by (cases "n \<le> length cs") (auto simp: never_below_def)
  qed
qed

text \<open>The pallet holds as many references of an account as it should, and never released one it did not hold.\<close>

definition refs_match :: "ref_call list \<Rightarrow> (account_id \<Rightarrow> nat) \<Rightarrow> bool" where
  "refs_match cs f \<longleftrightarrow> never_below cs \<and> (\<forall>a. net_refs cs a = int (f a))"

lemma refs_match_dec: "refs_match cs f \<Longrightarrow> 0 < f a \<Longrightarrow> refs_match (cs @ [DecSufficients a]) (f(a := f a - 1))"
  by (auto simp: refs_match_def never_below_snoc)

lemma refs_match_inc: "refs_match cs f \<Longrightarrow> refs_match (cs @ [IncSufficients a]) (f(a := f a + 1))"
  by (auto simp: refs_match_def never_below_snoc)

definition holders :: "('a, 'i) storage \<Rightarrow> 'a \<Rightarrow> nat" where
  "holders B a = (if scontains B a then 1 else 0)"

lemma holders_simps [simp]:
  "holders [] a = 0" "holders (sput a i B) b = (if b = a then 1 else holders B b)"
  "holders (sdel a B) b = (if b = a then 0 else holders B b)"
  by (auto simp: holders_def scontains_def)

lemma holders_bound: "sget B a = Some i \<Longrightarrow> holders B a = 1" "sget B a = None \<Longrightarrow> holders B a = 0"
  by (simp_all add: holders_def scontains_def)

lemma holders_dec: "refs_match cs (holders B) \<Longrightarrow> scontains B a \<Longrightarrow> refs_match (cs @ [DecSufficients a]) (holders (sdel a B))"
  by (auto simp: refs_match_def never_below_snoc holders_def)

lemma holders_inc: "refs_match cs (holders B) \<Longrightarrow> \<not> scontains B a \<Longrightarrow> refs_match (cs @ [IncSufficients a]) (holders (sput a i B))"
  by (auto simp: refs_match_def never_below_snoc holders_def)

lemma holders_renew: "refs_match cs (holders B) \<Longrightarrow> scontains B a \<Longrightarrow> refs_match cs (holders (sput a i B))"
  by (auto simp: refs_match_def holders_def)

end
