(* ===== verification/Alias_Accounts.thy ===== *)
theory Alias_Accounts
  imports Account_Binding
begin

text \<open>
  The pallet \<open>pallets/alias-accounts\<close>: an account shows by a ring proof that it belongs to a person, and is
  bound to the person's alias in a context; the transaction extension \<open>AsRingAlias\<close> then turns its signed
  transactions into transactions of the alias. The membership service, the time and the ledger
  of the fee belong to the runtime: the first two come with every call, in an environment.
\<close>

subsection \<open>Types and storage\<close>

record AliasAccountInfo =
  ai_collection :: coll_id
  ai_revision :: nat
  ai_ring :: nat
  ai_ca :: ContextualAlias

definition from_validated :: "coll_id \<Rightarrow> RevisedContextualAlias \<Rightarrow> AliasAccountInfo" where
  "from_validated collection rca =
     \<lparr>ai_collection = collection, ai_revision = rca_revision rca, ai_ring = rca_ring rca, ai_ca = rca_ca rca\<rparr>"

datatype AliasEvent =
    AliasAccountSet account_id coll_id bytes
  | AliasAccountUnset account_id
  | StaleAliasCleanedUp account_id coll_id bytes
  | AliasFeeSet nat

datatype AliasError =
    InvalidCollection | AccountInUse | InvalidAccount | AliasAccountAlreadySet | TimeOutOfRange
  | AliasNotStale | CleanupTooEarly | InconsistentState | AliasFeeUnset | ReproveMismatch
  | RingRootNotFound | Alias_StaleRevision | BadProof | InvalidRingCapacity

text \<open>
  The origin of a call: signed, admitted by \<open>FeeManagerOrigin\<close>, the pallet's own origin, or another one.
\<close>

datatype alias_origin = AliasSigned account_id | FeeManager | RingAlias AliasAccountInfo | AliasOtherOrigin

record 'l alias_state =
  AliasToAccount :: "(coll_id \<times> ContextualAlias, account_id) storage"
  AccountToAlias :: "(account_id, AliasAccountInfo) storage"
  AliasFee :: "nat option"
  alias_ledger :: 'l
  alias_refs :: "ref_call list"
  alias_events :: "AliasEvent list"

definition alias_genesis :: "'l \<Rightarrow> 'l alias_state" where
  "alias_genesis l = \<lparr>AliasToAccount = [], AccountToAlias = [], AliasFee = None, alias_ledger = l,
     alias_refs = [], alias_events = []\<rparr>"

record 'l alias_config =
  ProofValidityWindow :: nat
  CleanupGracePeriod :: nat
  PeopleLiteRingExponent :: RingExponent
  PeopleRingExponent :: RingExponent
  alias_fungibles :: "'l fungibles"
  alias_pgas_asset :: nat
  alias_blake2 :: "bytes \<Rightarrow> bytes"

record 'proof alias_env =
  ae_now :: nat
  ae_service :: "'proof member_service"

definition alias_deposit :: "AliasEvent \<Rightarrow> 'l alias_state \<Rightarrow> 'l alias_state" where
  "alias_deposit e s = s\<lparr>alias_events := alias_events s @ [e]\<rparr>"

definition note_ref :: "ref_call \<Rightarrow> 'l alias_state \<Rightarrow> 'l alias_state" where
  "note_ref c s = s\<lparr>alias_refs := alias_refs s @ [c]\<rparr>"

definition alias_integrity_test :: "'l alias_config \<Rightarrow> bool" where
  "alias_integrity_test cfg \<longleftrightarrow> ProofValidityWindow cfg > 0 \<and> CleanupGracePeriod cfg > 0"

subsection \<open>Verification of proofs\<close>

definition ensure_valid_collection :: "'l alias_config \<Rightarrow> coll_id \<Rightarrow> AliasError + RingExponent" where
  "ensure_valid_collection cfg collection =
     (if collection = PEOPLE_LITE_IDENTIFIER then Inr (PeopleLiteRingExponent cfg)
      else if collection = PEOPLE_IDENTIFIER then Inr (PeopleRingExponent cfg)
      else Inl InvalidCollection)"

text \<open>The encoding of the triple: the literal of 14 bytes, the account and the \<open>u64\<close>, one after another.\<close>

definition proof_preimage :: "account_id \<Rightarrow> nat \<Rightarrow> bytes" where
  "proof_preimage account proof_valid_at =
     map (of_nat \<circ> of_char) ''alias-accounts'' @ account @ le_bytes 8 proof_valid_at"

definition proof_message :: "'l alias_config \<Rightarrow> account_id \<Rightarrow> nat \<Rightarrow> bytes" where
  "proof_message cfg account proof_valid_at = alias_blake2 cfg (proof_preimage account proof_valid_at)"

definition is_revision_in_grace :: "'l alias_config \<Rightarrow> 'proof alias_env \<Rightarrow> coll_id \<Rightarrow> nat \<Rightarrow> nat \<Rightarrow> bool" where
  "is_revision_in_grace cfg env i ring revision =
     (if \<not> ms_is_revision_valid (ae_service env) i ring revision then False
      else if ms_ring_revision (ae_service env) i ring = Some revision then True
      else case ms_revision_source_time (ae_service env) i ring revision of
        None \<Rightarrow> False
      | Some source_time \<Rightarrow> ae_now env \<le> sat_add u64_max source_time (CleanupGracePeriod cfg))"

definition verify_proof ::
  "'l alias_config \<Rightarrow> 'proof alias_env \<Rightarrow> 'proof \<Rightarrow> coll_id \<Rightarrow> nat \<Rightarrow> nat \<Rightarrow> bytes \<Rightarrow> bytes \<Rightarrow>
   AliasError + RevisedContextualAlias" where
  "verify_proof cfg env proof collection ring revision context msg =
     on_ok (ensure_valid_collection cfg collection) (\<lambda>_.
     ensure (is_revision_in_grace cfg env collection ring revision) Alias_StaleRevision (
     ok_or (ms_verify_at_rev (ae_service env) collection proof ring revision context msg) BadProof (\<lambda>ca.
     Inr \<lparr>rca_revision = revision, rca_ring = ring, rca_ca = ca\<rparr>)))"

definition ensure_alias_is_stale ::
  "'l alias_config \<Rightarrow> 'proof alias_env \<Rightarrow> AliasAccountInfo \<Rightarrow> AliasError + unit" where
  "ensure_alias_is_stale cfg env info =
     (if is_revision_in_grace cfg env (ai_collection info) (ai_ring info) (ai_revision info) then Inl AliasNotStale
      else case ms_ring_revision (ae_service env) (ai_collection info) (ai_ring info) of
        None \<Rightarrow> Inr ()
      | Some latest_revision \<Rightarrow>
          let newest_source_time =
                (case ms_revision_source_time (ae_service env) (ai_collection info) (ai_ring info) latest_revision of
                   None \<Rightarrow> 0 | Some t \<Rightarrow> t)
          in ensure (ae_now env \<ge> sat_add u64_max newest_source_time (CleanupGracePeriod cfg)) CleanupTooEarly (Inr ()))"

text \<open>The window in which a proof for a time is accepted.\<close>

definition proof_in_time :: "'l alias_config \<Rightarrow> nat \<Rightarrow> nat \<Rightarrow> bool" where
  "proof_in_time cfg now proof_valid_at \<longleftrightarrow>
     proof_valid_at \<le> now \<and> now \<le> sat_add u64_max proof_valid_at (ProofValidityWindow cfg)"

subsection \<open>The calls\<close>

definition alias_ensure_signed ::
  "alias_origin \<Rightarrow> (account_id \<Rightarrow> AliasError dispatch_error + 'a) \<Rightarrow> AliasError dispatch_error + 'a" where
  "alias_ensure_signed origin k = (case origin of AliasSigned who \<Rightarrow> k who | _ \<Rightarrow> Inl BadOrigin)"

definition unset_alias_account ::
  "alias_origin \<Rightarrow> 'l alias_state \<Rightarrow> AliasError dispatch_error + (pays \<times> 'l alias_state)" where
  "unset_alias_account origin s =
     alias_ensure_signed origin (\<lambda>who.
     ok_or (sget (AccountToAlias s) who) (Module InvalidAccount) (\<lambda>info.
       let s1 = s\<lparr>AccountToAlias := sdel who (AccountToAlias s),
                  AliasToAccount := sdel (ai_collection info, ai_ca info) (AliasToAccount s)\<rparr>
       in Inr (PaysYes, alias_deposit (AliasAccountUnset who) (note_ref (DecSufficients who) s1))))"

definition swap_account :: "account_id option \<Rightarrow> account_id \<Rightarrow> 'l alias_state \<Rightarrow> 'l alias_state" where
  "swap_account old_account who s =
     (let s1 = (case old_account of
                  Some old \<Rightarrow> (note_ref (DecSufficients old) s)\<lparr>AccountToAlias := sdel old (AccountToAlias s)\<rparr>
                | None \<Rightarrow> s)
      in note_ref (IncSufficients who) s1)"

definition set_alias_account ::
  "'l alias_config \<Rightarrow> 'proof alias_env \<Rightarrow> alias_origin \<Rightarrow> 'proof \<Rightarrow> coll_id \<Rightarrow> nat \<Rightarrow> nat \<Rightarrow> bytes \<Rightarrow> nat \<Rightarrow>
   'l alias_state \<Rightarrow> AliasError dispatch_error + (pays \<times> 'l alias_state)" where
  "set_alias_account cfg env origin proof collection ring revision context proof_valid_at s =
     alias_ensure_signed origin (\<lambda>who.
     ok_or (AliasFee s) (Module AliasFeeUnset) (\<lambda>fee.
     ensure (proof_in_time cfg (ae_now env) proof_valid_at) (Module TimeOutOfRange) (
     on_ok (map_err Module (verify_proof cfg env proof collection ring revision context
              (proof_message cfg who proof_valid_at))) (\<lambda>rca.
       let info = from_validated collection rca;
           old_account = sget (AliasToAccount s) (collection, ai_ca info);
           is_new_account = (old_account \<noteq> Some who)
       in ensure (is_new_account \<or> sget (AccountToAlias s) who \<noteq> Some info) (Module AliasAccountAlreadySet) (
          ensure (\<not> (is_new_account \<and> scontains (AccountToAlias s) who)) (Module AccountInUse) (
          on_ok (map_err External
                  (burn_exact (alias_fungibles cfg) (alias_pgas_asset cfg) who fee Expendable (alias_ledger s))) (\<lambda>l.
            let s1 = s\<lparr>alias_ledger := l\<rparr>;
                s2 = (if is_new_account then swap_account old_account who s1 else s1);
                s3 = s2\<lparr>AccountToAlias := sput who info (AccountToAlias s2),
                       AliasToAccount := sput (collection, ai_ca info) who (AliasToAccount s2)\<rparr>
            in Inr (PaysYes, alias_deposit (AliasAccountSet who collection (ca_alias (ai_ca info))) s3))))))))"

definition reprove_alias_account ::
  "'l alias_config \<Rightarrow> 'proof alias_env \<Rightarrow> alias_origin \<Rightarrow> 'proof \<Rightarrow> nat \<Rightarrow> nat \<Rightarrow> nat \<Rightarrow>
   'l alias_state \<Rightarrow> AliasError dispatch_error + (pays \<times> 'l alias_state)" where
  "reprove_alias_account cfg env origin proof ring revision proof_valid_at s =
     alias_ensure_signed origin (\<lambda>who.
     ensure (proof_in_time cfg (ae_now env) proof_valid_at) (Module TimeOutOfRange) (
     ok_or (sget (AccountToAlias s) who) (Module InvalidAccount) (\<lambda>old_info.
     on_ok (map_err Module (verify_proof cfg env proof (ai_collection old_info) ring revision
              (ca_context (ai_ca old_info)) (proof_message cfg who proof_valid_at))) (\<lambda>rca.
     ensure (ca_alias (rca_ca rca) = ca_alias (ai_ca old_info)) (Module ReproveMismatch) (
     ensure (rca_ring rca \<noteq> ai_ring old_info \<or> rca_revision rca > ai_revision old_info)
         (Module AliasAccountAlreadySet) (
       let new_info = \<lparr>ai_collection = ai_collection old_info, ai_revision = rca_revision rca,
                       ai_ring = rca_ring rca, ai_ca = ai_ca old_info\<rparr>
       in Inr (PaysNo, alias_deposit (AliasAccountSet who (ai_collection new_info) (ca_alias (ai_ca new_info)))
                 (s\<lparr>AccountToAlias := sput who new_info (AccountToAlias s)\<rparr>))))))))"

definition set_alias_fee ::
  "alias_origin \<Rightarrow> nat \<Rightarrow> 'l alias_state \<Rightarrow> AliasError dispatch_error + (pays \<times> 'l alias_state)" where
  "set_alias_fee origin fee s =
     (case origin of
        FeeManager \<Rightarrow> Inr (PaysYes, alias_deposit (AliasFeeSet fee) (s\<lparr>AliasFee := Some fee\<rparr>))
      | _ \<Rightarrow> Inl BadOrigin)"

definition clean_up_stale_alias ::
  "'l alias_config \<Rightarrow> 'proof alias_env \<Rightarrow> alias_origin \<Rightarrow> coll_id \<Rightarrow> ContextualAlias \<Rightarrow>
   'l alias_state \<Rightarrow> AliasError dispatch_error + (pays \<times> 'l alias_state)" where
  "clean_up_stale_alias cfg env origin collection ca s =
     alias_ensure_signed origin (\<lambda>_.
     ok_or (sget (AliasToAccount s) (collection, ca)) (Module InvalidAccount) (\<lambda>account.
     ok_or (sget (AccountToAlias s) account) (Module InvalidAccount) (\<lambda>info.
     ensure (ai_collection info = collection) (Module InconsistentState) (
     on_ok (map_err Module (ensure_alias_is_stale cfg env info)) (\<lambda>_.
       let s1 = s\<lparr>AliasToAccount := sdel (collection, ca) (AliasToAccount s),
                  AccountToAlias := sdel account (AccountToAlias s)\<rparr>
       in Inr (PaysNo, alias_deposit (StaleAliasCleanedUp account collection (ca_alias ca))
                 (note_ref (DecSufficients account) s1)))))))"

datatype 'proof alias_call =
    UnsetAliasAccount
  | SetAliasAccount 'proof coll_id nat nat bytes nat
  | ReproveAliasAccount 'proof nat nat nat
  | SetAliasFee nat
  | CleanUpStaleAlias coll_id ContextualAlias

fun alias_dispatch ::
  "'l alias_config \<Rightarrow> 'proof alias_env \<Rightarrow> alias_origin \<Rightarrow> 'proof alias_call \<Rightarrow> 'l alias_state \<Rightarrow>
   AliasError dispatch_error + (pays \<times> 'l alias_state)" where
  "alias_dispatch cfg env o' UnsetAliasAccount s = unset_alias_account o' s"
| "alias_dispatch cfg env o' (SetAliasAccount p c r v ctx t) s = set_alias_account cfg env o' p c r v ctx t s"
| "alias_dispatch cfg env o' (ReproveAliasAccount p r v t) s = reprove_alias_account cfg env o' p r v t s"
| "alias_dispatch cfg env o' (SetAliasFee fee) s = set_alias_fee o' fee s"
| "alias_dispatch cfg env o' (CleanUpStaleAlias c ca) s = clean_up_stale_alias cfg env o' c ca s"

text \<open>A transaction together with the environment it is executed in.\<close>

fun alias_step ::
  "'l alias_config \<Rightarrow> 'proof alias_env \<times> alias_origin \<times> 'proof alias_call \<Rightarrow> 'l alias_state \<Rightarrow>
   AliasError dispatch_error + 'l alias_state" where
  "alias_step cfg (env, o', c) s = on_ok (alias_dispatch cfg env o' c s) (\<lambda>(_, s'). Inr s')"

subsection \<open>The lookup of personhood\<close>

definition personhood_info ::
  "'l alias_config \<Rightarrow> 'proof alias_env \<Rightarrow> account_id \<Rightarrow> bytes \<Rightarrow> 'l alias_state \<Rightarrow> (coll_id \<times> bytes) option" where
  "personhood_info cfg env account context s =
     (case sget (AccountToAlias s) account of
        None \<Rightarrow> None
      | Some info \<Rightarrow>
          if ca_context (ai_ca info) \<noteq> context then None
          else if \<not> is_revision_in_grace cfg env (ai_collection info) (ai_ring info) (ai_revision info) then None
          else Some (ai_collection info, ca_alias (ai_ca info)))"

record 'proof PersonhoodProofRequest =
  pp_identifier :: coll_id
  pp_proof :: 'proof
  pp_alias :: bytes
  pp_ring_index :: nat
  pp_context :: bytes
  pp_revision :: nat
  pp_message :: bytes

definition personhood_info_by_proof :: "'proof alias_env \<Rightarrow> 'proof PersonhoodProofRequest \<Rightarrow> bool" where
  "personhood_info_by_proof env q =
     (case ms_verify_at_rev (ae_service env) (pp_identifier q) (pp_proof q) (pp_ring_index q) (pp_revision q)
             (pp_context q) (pp_message q) of
        None \<Rightarrow> False
      | Some ca \<Rightarrow> ca_alias ca = pp_alias q)"

subsection \<open>The origin of an alias\<close>

definition ensure_ring_alias :: "alias_origin \<Rightarrow> AliasAccountInfo option" where
  "ensure_ring_alias origin = (case origin of RingAlias info \<Rightarrow> Some info | _ \<Rightarrow> None)"

definition ensure_ring_alias_of :: "alias_origin \<Rightarrow> coll_id \<Rightarrow> bytes option" where
  "ensure_ring_alias_of origin collection =
     (case origin of
        RingAlias info \<Rightarrow> if ai_collection info = collection then Some (ca_alias (ai_ca info)) else None
      | _ \<Rightarrow> None)"

definition ensure_ring_alias_in_context :: "alias_origin \<Rightarrow> coll_id \<Rightarrow> bytes \<Rightarrow> bytes option" where
  "ensure_ring_alias_in_context origin collection context =
     (case origin of
        RingAlias info \<Rightarrow>
          if ai_collection info = collection \<and> ca_context (ai_ca info) = context
          then Some (ca_alias (ai_ca info)) else None
      | _ \<Rightarrow> None)"

text \<open>The types that wrap these checks hand the origin back when they refuse it.\<close>

definition try_origin :: "(alias_origin \<Rightarrow> 'a option) \<Rightarrow> alias_origin \<Rightarrow> alias_origin + 'a" where
  "try_origin check o' = ok_or (check o') o' Inr"

subsection \<open>The transaction extension\<close>

datatype CustomValidity = OriginNotSigned | NoAliasMapping | Ext_StaleRevision | NonceInvalid string

text \<open>The extension with its nonce, or unused; \<open>CheckNonce\<close> of the SDK is a parameter.\<close>

type_synonym AsRingAlias = "nat option"

datatype Val = NotUsing | UsingAccount account_id nat

definition as_ring_alias_validate ::
  "'l alias_config \<Rightarrow> (account_id \<Rightarrow> nat \<Rightarrow> string + 'tags) \<Rightarrow> 'proof alias_env \<Rightarrow> AsRingAlias \<Rightarrow> alias_origin \<Rightarrow>
   'l alias_state \<Rightarrow> CustomValidity + ('tags option \<times> Val \<times> alias_origin)" where
  "as_ring_alias_validate cfg check_nonce env ext origin s =
     (case ext of
        None \<Rightarrow> Inr (None, NotUsing, origin)
      | Some nonce \<Rightarrow>
          (case origin of
             AliasSigned who \<Rightarrow>
               ok_or (sget (AccountToAlias s) who) NoAliasMapping (\<lambda>info.
               ensure (is_revision_in_grace cfg env (ai_collection info) (ai_ring info) (ai_revision info))
                   Ext_StaleRevision (
               on_ok (map_err NonceInvalid (check_nonce who nonce)) (\<lambda>tags.
                 Inr (Some tags, UsingAccount who nonce, RingAlias info))))
           | _ \<Rightarrow> Inl OriginNotSigned))"

definition as_ring_alias_prepare :: "(account_id \<Rightarrow> nat \<Rightarrow> 'y \<Rightarrow> string + 'y) \<Rightarrow> Val \<Rightarrow> 'y \<Rightarrow> string + 'y" where
  "as_ring_alias_prepare prepare_nonce v y =
     (case v of UsingAccount who nonce \<Rightarrow> prepare_nonce who nonce y | NotUsing \<Rightarrow> Inr y)"

end
