(* ===== verification/Alias_Inv.thy ===== *)
theory Alias_Inv
  imports Alias_Accounts
begin

text \<open>
  The books of the alias accounts: the two maps are inverse to each other, and the pallet holds one reference
  of \<open>frame_system\<close> for every bound account and releases none that it does not hold.
\<close>

definition alias_key :: "AliasAccountInfo \<Rightarrow> coll_id \<times> ContextualAlias" where
  "alias_key info = (ai_collection info, ai_ca info)"

subsection \<open>The invariant\<close>

definition alias_inv :: "'l alias_state \<Rightarrow> bool" where
  "alias_inv s \<longleftrightarrow> bound_maps alias_key (AliasToAccount s) (AccountToAlias s) \<and> refs_match (alias_refs s) (holders (AccountToAlias s))"

lemma alias_inv_genesis: "alias_inv (alias_genesis l)"
  by (simp add: alias_inv_def alias_genesis_def bound_maps_Nil refs_match_def holders_def scontains_def)

lemma ensure_signed_Inr [res_simps]:
  "alias_ensure_signed o' k = Inr x \<longleftrightarrow> (\<exists>who. o' = AliasSigned who \<and> k who = Inr x)"
  by (auto simp: alias_ensure_signed_def split: alias_origin.splits)

lemma scontains_iff: "scontains m k \<longleftrightarrow> (\<exists>v. sget m k = Some v)"
  by (auto simp: scontains_def)

lemma unset_keeps:
  assumes "alias_inv s" and "unset_alias_account origin s = Inr (p, s')"
  shows "alias_inv s'"
proof -
  obtain who info where info: "sget (AccountToAlias s) who = Some info"
    and s': "s' = alias_deposit (AliasAccountUnset who) (note_ref (DecSufficients who)
       (s\<lparr>AccountToAlias := sdel who (AccountToAlias s),
          AliasToAccount := sdel (ai_collection info, ai_ca info) (AliasToAccount s)\<rparr>))"
    using assms(2) unfolding unset_alias_account_def Let_def ensure_signed_Inr ok_or_Inr by auto
  show ?thesis
    using assms(1) bound_maps_unbind [where key = alias_key, OF _ info] holders_dec [of _ "AccountToAlias s" who] info
    by (simp add: s' alias_inv_def alias_deposit_def note_ref_def alias_key_def scontains_iff)
qed

lemma clean_up_keeps:
  assumes "alias_inv s" and "clean_up_stale_alias cfg env origin c ca s = Inr (p, s')"
  shows "alias_inv s'"
proof -
  obtain who info where key: "sget (AliasToAccount s) (c, ca) = Some who" "sget (AccountToAlias s) who = Some info"
    and s': "s' = alias_deposit (StaleAliasCleanedUp who c (ca_alias ca)) (note_ref (DecSufficients who)
       (s\<lparr>AliasToAccount := sdel (c, ca) (AliasToAccount s), AccountToAlias := sdel who (AccountToAlias s)\<rparr>))"
    using assms(2)
    unfolding clean_up_stale_alias_def Let_def ensure_signed_Inr ok_or_Inr ensure_Inr on_ok_Inr by auto
  have "alias_key info = (c, ca)" using assms(1) key bound_mapsD(2) by (fastforce simp: alias_inv_def)
  then show ?thesis
    using assms(1) bound_maps_unbind [where key = alias_key, OF _ key(2)] holders_dec [of _ "AccountToAlias s" who] key(2)
    by (simp add: s' alias_inv_def alias_deposit_def note_ref_def scontains_iff)
qed

text \<open>What a successful \<open>set_alias_account\<close> does, in its two cases.\<close>

lemma set_aliasE:
  assumes "set_alias_account cfg env origin pf c r v ctx t s = Inr (p, s')"
  obtains who fee rca info l where "origin = AliasSigned who" and "AliasFee s = Some fee"
    and "proof_in_time cfg (ae_now env) t"
    and "verify_proof cfg env pf c r v ctx (proof_message cfg who t) = Inr rca"
    and "info = from_validated c rca"
    and "burn_exact (alias_fungibles cfg) (alias_pgas_asset cfg) who fee Expendable (alias_ledger s) = Inr l"
    and "p = PaysYes" and "alias_ledger s' = l" and "AliasFee s' = AliasFee s"
    and "alias_events s' = alias_events s @ [AliasAccountSet who c (ca_alias (ai_ca info))]"
    and "AliasToAccount s' = sput (alias_key info) who (AliasToAccount s)"
    and "if sget (AliasToAccount s) (alias_key info) = Some who
         then sget (AccountToAlias s) who \<noteq> Some info \<and> alias_refs s' = alias_refs s \<and>
              AccountToAlias s' = sput who info (AccountToAlias s)
         else \<not> scontains (AccountToAlias s) who \<and>
              (case sget (AliasToAccount s) (alias_key info) of
                 None \<Rightarrow> alias_refs s' = alias_refs s @ [IncSufficients who] \<and>
                         AccountToAlias s' = sput who info (AccountToAlias s)
               | Some old \<Rightarrow> alias_refs s' = alias_refs s @ [DecSufficients old, IncSufficients who] \<and>
                         AccountToAlias s' = sput who info (sdel old (AccountToAlias s)))"
proof -
  obtain who fee rca l where *: "origin = AliasSigned who" "AliasFee s = Some fee"
    "proof_in_time cfg (ae_now env) t"
    "verify_proof cfg env pf c r v ctx (proof_message cfg who t) = Inr rca"
    "burn_exact (alias_fungibles cfg) (alias_pgas_asset cfg) who fee Expendable (alias_ledger s) = Inr l"
    and guard: "sget (AliasToAccount s) (c, ai_ca (from_validated c rca)) \<noteq> Some who \<or>
        sget (AccountToAlias s) who \<noteq> Some (from_validated c rca)"
      "\<not> (sget (AliasToAccount s) (c, ai_ca (from_validated c rca)) \<noteq> Some who \<and> scontains (AccountToAlias s) who)"
    and res: "let info = from_validated c rca;
           old_account = sget (AliasToAccount s) (c, ai_ca info);
           is_new_account = (old_account \<noteq> Some who);
           s1 = s\<lparr>alias_ledger := l\<rparr>;
           s2 = (if is_new_account then swap_account old_account who s1 else s1);
           s3 = s2\<lparr>AccountToAlias := sput who info (AccountToAlias s2),
                  AliasToAccount := sput (c, ai_ca info) who (AliasToAccount s2)\<rparr>
       in (PaysYes, alias_deposit (AliasAccountSet who c (ca_alias (ai_ca info))) s3) = (p, s')"
    using assms
    unfolding set_alias_account_def Let_def ensure_signed_Inr ok_or_Inr ensure_Inr on_ok_Inr map_err_Inr
    by (elim exE conjE) (metis Inr_inject)
  have key: "(c, ai_ca (from_validated c rca)) = alias_key (from_validated c rca)"
    by (simp add: alias_key_def from_validated_def)
  show ?thesis
    using res guard
    by (intro that [OF *(1-4) refl *(5)])
       (auto simp: Let_def key swap_account_def alias_deposit_def note_ref_def split: if_splits option.splits)
qed

lemma set_alias_keeps:
  assumes inv: "alias_inv s" and step: "set_alias_account cfg env origin pf c r v ctx t s = Inr (p, s')"
  shows "alias_inv s'"
  using step
proof (rule set_aliasE)
  fix who fee rca info l
  assume A: "AliasToAccount s' = sput (alias_key info) who (AliasToAccount s)"
    and cases: "if sget (AliasToAccount s) (alias_key info) = Some who
         then sget (AccountToAlias s) who \<noteq> Some info \<and> alias_refs s' = alias_refs s \<and>
              AccountToAlias s' = sput who info (AccountToAlias s)
         else \<not> scontains (AccountToAlias s) who \<and>
              (case sget (AliasToAccount s) (alias_key info) of
                 None \<Rightarrow> alias_refs s' = alias_refs s @ [IncSufficients who] \<and>
                         AccountToAlias s' = sput who info (AccountToAlias s)
               | Some old \<Rightarrow> alias_refs s' = alias_refs s @ [DecSufficients old, IncSufficients who] \<and>
                         AccountToAlias s' = sput who info (sdel old (AccountToAlias s)))"
  note parts = inv [unfolded alias_inv_def, THEN conjunct1] inv [unfolded alias_inv_def, THEN conjunct2]
  show ?thesis
  proof (cases "sget (AliasToAccount s) (alias_key info) = Some who")
    case True
    then obtain info0 where "sget (AccountToAlias s) who = Some info0" "alias_key info = alias_key info0"
      using bound_mapsD(2) [OF parts(1) True] by auto
    then show ?thesis
      using cases True A bound_maps_renew(2) [OF parts(1)] holders_renew [OF parts(2)]
      by (simp add: alias_inv_def scontains_iff)
  next
    case fresh: False
    then have no: "\<not> scontains (AccountToAlias s) who" "sget (AccountToAlias s) who = None"
      using cases by (auto simp: scontains_def)
    show ?thesis
    proof (cases "sget (AliasToAccount s) (alias_key info)")
      case None
      then show ?thesis
        using cases A no bound_maps_bind [OF parts(1) None no(2)] holders_inc [OF parts(2) no(1)]
        by (simp add: alias_inv_def)
    next
      case (Some old)
      have old: "scontains (AccountToAlias s) old"
        using bound_mapsD(2) [OF parts(1) Some] by (auto simp: scontains_iff)
      have "\<not> scontains (sdel old (AccountToAlias s)) who" using no by simp
      with holders_inc [OF holders_dec [OF parts(2) old]] show ?thesis
        using cases A fresh Some bound_maps_swap [OF parts(1) Some no(2)] by (simp add: alias_inv_def)
    qed
  qed
qed

lemma reproveE:
  assumes "reprove_alias_account cfg env origin pf r v t s = Inr (p, s')"
  obtains who old rca new where "origin = AliasSigned who" and "sget (AccountToAlias s) who = Some old"
    and "proof_in_time cfg (ae_now env) t"
    and "verify_proof cfg env pf (ai_collection old) r v (ca_context (ai_ca old)) (proof_message cfg who t) = Inr rca"
    and "ca_alias (rca_ca rca) = ca_alias (ai_ca old)"
    and "rca_ring rca \<noteq> ai_ring old \<or> rca_revision rca > ai_revision old"
    and "new = \<lparr>ai_collection = ai_collection old, ai_revision = rca_revision rca, ai_ring = rca_ring rca, ai_ca = ai_ca old\<rparr>"
    and "p = PaysNo"
    and "s' = alias_deposit (AliasAccountSet who (ai_collection old) (ca_alias (ai_ca old)))
               (s\<lparr>AccountToAlias := sput who new (AccountToAlias s)\<rparr>)"
proof -
  obtain who old rca where *: "origin = AliasSigned who" "sget (AccountToAlias s) who = Some old"
    "proof_in_time cfg (ae_now env) t"
    "verify_proof cfg env pf (ai_collection old) r v (ca_context (ai_ca old)) (proof_message cfg who t) = Inr rca"
    "ca_alias (rca_ca rca) = ca_alias (ai_ca old)"
    "rca_ring rca \<noteq> ai_ring old \<or> rca_revision rca > ai_revision old"
    and res: "let new_info = \<lparr>ai_collection = ai_collection old, ai_revision = rca_revision rca,
                       ai_ring = rca_ring rca, ai_ca = ai_ca old\<rparr>
       in (PaysNo, alias_deposit (AliasAccountSet who (ai_collection new_info) (ca_alias (ai_ca new_info)))
                 (s\<lparr>AccountToAlias := sput who new_info (AccountToAlias s)\<rparr>)) = (p, s')"
    using assms
    unfolding reprove_alias_account_def Let_def ensure_signed_Inr ok_or_Inr ensure_Inr on_ok_Inr map_err_Inr
    by (elim exE conjE) (metis Inr_inject)
  show ?thesis using res by (intro that [OF * refl]) (auto simp: Let_def)
qed

lemma reprove_keeps:
  assumes inv: "alias_inv s" and step: "reprove_alias_account cfg env origin pf r v t s = Inr (p, s')"
  shows "alias_inv s'"
  using step
proof (rule reproveE)
  fix who old rca new
  assume old: "sget (AccountToAlias s) who = Some old"
    and new: "new = \<lparr>ai_collection = ai_collection old, ai_revision = rca_revision rca, ai_ring = rca_ring rca, ai_ca = ai_ca old\<rparr>"
    and s': "s' = alias_deposit (AliasAccountSet who (ai_collection old) (ca_alias (ai_ca old)))
               (s\<lparr>AccountToAlias := sput who new (AccountToAlias s)\<rparr>)"
  have "alias_key new = alias_key old" by (simp add: new alias_key_def)
  then show ?thesis
    using inv bound_maps_renew(1) [where key = alias_key, OF _ old] holders_renew [of _ "AccountToAlias s" who new] old
    by (simp add: s' alias_inv_def alias_deposit_def scontains_iff)
qed

lemma fee_keeps: "alias_inv s \<Longrightarrow> set_alias_fee origin fee s = Inr (p, s') \<Longrightarrow> alias_inv s'"
  by (auto simp: set_alias_fee_def alias_inv_def alias_deposit_def split: alias_origin.splits)

lemma alias_step_keeps:
  assumes inv: "alias_inv s" and step: "alias_step cfg x s = Inr s'"
  shows "alias_inv s'"
proof -
  obtain env origin c where x: "x = (env, origin, c)" by (metis surj_pair)
  obtain p where "alias_dispatch cfg env origin c s = Inr (p, s')"
    using step by (auto simp: x)
  then show ?thesis
    by (cases c) (auto intro: unset_keeps [OF inv] set_alias_keeps [OF inv] reprove_keeps [OF inv]
        fee_keeps [OF inv] clean_up_keeps [OF inv])
qed

interpretation alias_accounts: pallet_contract "alias_step cfg" alias_inv "\<lambda>_ _. True"
  by unfold_locales (rule alias_step_keeps)

end
