(* ===== verification/Alias_Claims.thy ===== *)
theory Alias_Claims
  imports Alias_Inv Replication_Claims
begin

text \<open>The properties of the alias accounts, alone and on a chain whose membership service is the subscriber.\<close>

subsection \<open>The books\<close>

text \<open>After any transactions, in whatever order and at whatever times, and whatever the membership service answers,
  the two maps of the pallet are inverse to each other, so an account has at most one alias and an alias at
  most one account; the pallet holds exactly one reference of every bound account and has never released a
  reference it did not hold; and no cleanup finds the storage inconsistent.\<close>

theorem alias_books_balance:
  assumes s: "s = run_calls (alias_step cfg) txs (alias_genesis l)"
  shows "(\<forall>c ca who. sget (AliasToAccount s) (c, ca) = Some who \<longleftrightarrow>
            (\<exists>info. sget (AccountToAlias s) who = Some info \<and> ai_collection info = c \<and> ai_ca info = ca)) \<and>
         (\<forall>who. net_refs (alias_refs s) who = (if scontains (AccountToAlias s) who then 1 else 0)) \<and>
         (\<forall>n who. 0 \<le> net_refs (take n (alias_refs s)) who) \<and>
         clean_up_stale_alias cfg env origin c ca s \<noteq> Inl (Module InconsistentState)"
proof -
  have inv: "alias_inv s"
    unfolding s by (rule alias_accounts.run_keeps [OF alias_inv_genesis guarded_run_trivial])
  then have maps: "sget (AliasToAccount s) k = Some who \<longleftrightarrow> (\<exists>info. sget (AccountToAlias s) who = Some info \<and> alias_key info = k)" for k who
    using bound_mapsD [of alias_key "AliasToAccount s" "AccountToAlias s"] unfolding alias_inv_def by blast
  have "clean_up_stale_alias cfg env origin c ca s \<noteq> Inl (Module InconsistentState)"
  proof
    assume "clean_up_stale_alias cfg env origin c ca s = Inl (Module InconsistentState)"
    then show False
      using maps by (auto simp: clean_up_stale_alias_def alias_ensure_signed_def ok_or_def ensure_def on_ok_def map_err_def
          ensure_alias_is_stale_def Let_def alias_key_def split: alias_origin.splits option.splits if_splits sum.splits)
  qed
  then show ?thesis using inv maps by (simp add: alias_inv_def refs_match_def never_below_def holders_def alias_key_def)
qed

subsection \<open>Where an alias comes from\<close>

text \<open>The proof that an account gave for its alias, in the environment of that time.\<close>

definition proven_for :: "'l alias_config \<Rightarrow> 'proof alias_env \<Rightarrow> account_id \<Rightarrow> AliasAccountInfo \<Rightarrow> bool" where
  "proven_for cfg env who info \<longleftrightarrow>
     ai_collection info \<in> {PEOPLE_IDENTIFIER, PEOPLE_LITE_IDENTIFIER} \<and>
     (\<exists>pf t. proof_in_time cfg (ae_now env) t \<and>
        ms_verify_at_rev (ae_service env) (ai_collection info) pf (ai_ring info) (ai_revision info)
          (ca_context (ai_ca info)) (proof_message cfg who t) = Some (ai_ca info))"

lemma verify_proofD:
  assumes "verify_proof cfg env pf c r v ctx msg = Inr rca"
  shows "c \<in> {PEOPLE_IDENTIFIER, PEOPLE_LITE_IDENTIFIER}" and "rca_revision rca = v" and "rca_ring rca = r"
    and "ms_verify_at_rev (ae_service env) c pf r v ctx msg = Some (rca_ca rca)"
    and "is_revision_in_grace cfg env c r v"
  using assms by (auto simp: verify_proof_def ensure_valid_collection_def split: if_splits)

context membership_prover
begin

lemma set_alias_proven:
  assumes "set_alias_account cfg \<lparr>ae_now = now, ae_service = service st\<rparr> origin pf c r v ctx t s = Inr (p, s')"
    and "sget (AccountToAlias s') who = Some info"
  shows "sget (AccountToAlias s) who = Some info \<or>
    origin = AliasSigned who \<and> proven_for cfg \<lparr>ae_now = now, ae_service = service st\<rparr> who info"
  using assms(1)
proof (rule set_aliasE)
  fix signer rca info' l
  let ?env = "\<lparr>ae_now = now, ae_service = service st\<rparr>"
  assume signer: "origin = AliasSigned signer" and time: "proof_in_time cfg (ae_now ?env) t"
    and verified: "verify_proof cfg ?env pf c r v ctx (proof_message cfg signer t) = Inr rca"
    and info': "info' = from_validated c rca"
    and cases: "if sget (AliasToAccount s) (alias_key info') = Some signer
         then sget (AccountToAlias s) signer \<noteq> Some info' \<and> alias_refs s' = alias_refs s \<and>
              AccountToAlias s' = sput signer info' (AccountToAlias s)
         else \<not> scontains (AccountToAlias s) signer \<and>
              (case sget (AliasToAccount s) (alias_key info') of
                 None \<Rightarrow> alias_refs s' = alias_refs s @ [IncSufficients signer] \<and>
                         AccountToAlias s' = sput signer info' (AccountToAlias s)
               | Some old \<Rightarrow> alias_refs s' = alias_refs s @ [DecSufficients old, IncSufficients signer] \<and>
                         AccountToAlias s' = sput signer info' (sdel old (AccountToAlias s)))"
  note v = verify_proofD [OF verified]
  have "ca_context (rca_ca rca) = ctx" by (rule verified_context) (use v(4) in simp)
  then have proven: "proven_for cfg ?env signer info'"
    using v time by (auto simp: proven_for_def info' from_validated_def)
  have "sget (AccountToAlias s') signer = Some info'"
    and "who \<noteq> signer \<Longrightarrow> sget (AccountToAlias s) who = Some info"
    using cases assms(2) by (auto split: if_splits option.splits)
  then show ?thesis using proven signer assms(2) by (cases "who = signer") auto
qed

lemma reprove_proven:
  assumes "reprove_alias_account cfg \<lparr>ae_now = now, ae_service = service st\<rparr> origin pf r v t s = Inr (p, s')"
    and "sget (AccountToAlias s') who = Some info"
  shows "sget (AccountToAlias s) who = Some info \<or>
    origin = AliasSigned who \<and> proven_for cfg \<lparr>ae_now = now, ae_service = service st\<rparr> who info"
  using assms(1)
proof (rule reproveE)
  fix signer old rca new
  let ?env = "\<lparr>ae_now = now, ae_service = service st\<rparr>"
  assume signer: "origin = AliasSigned signer" and time: "proof_in_time cfg (ae_now ?env) t"
    and verified: "verify_proof cfg ?env pf (ai_collection old) r v (ca_context (ai_ca old)) (proof_message cfg signer t) = Inr rca"
    and same: "ca_alias (rca_ca rca) = ca_alias (ai_ca old)"
    and new: "new = \<lparr>ai_collection = ai_collection old, ai_revision = rca_revision rca, ai_ring = rca_ring rca, ai_ca = ai_ca old\<rparr>"
    and s': "s' = alias_deposit (AliasAccountSet signer (ai_collection old) (ca_alias (ai_ca old)))
               (s\<lparr>AccountToAlias := sput signer new (AccountToAlias s)\<rparr>)"
  note v = verify_proofD [OF verified]
  have "ca_context (rca_ca rca) = ca_context (ai_ca old)" by (rule verified_context) (use v(4) in simp)
  then have "rca_ca rca = ai_ca old" using same by simp
  then have "proven_for cfg ?env signer new" using v time by (auto simp: proven_for_def new)
  then show ?thesis using assms(2) signer by (auto simp: s' alias_deposit_def split: if_splits)
qed

lemma alias_step_proven:
  assumes step: "alias_step cfg (\<lparr>ae_now = now, ae_service = service st\<rparr>, origin, c) s = Inr s'"
    and bound: "sget (AccountToAlias s') who = Some info"
  shows "sget (AccountToAlias s) who = Some info \<or>
    origin = AliasSigned who \<and> proven_for cfg \<lparr>ae_now = now, ae_service = service st\<rparr> who info"
proof -
  obtain p where d: "alias_dispatch cfg \<lparr>ae_now = now, ae_service = service st\<rparr> origin c s = Inr (p, s')"
    using step by auto
  show ?thesis
  proof (cases c)
    case UnsetAliasAccount
    then show ?thesis using d bound
      by (auto simp: unset_alias_account_def ensure_signed_Inr Let_def alias_deposit_def note_ref_def split: if_splits)
  next
    case (CleanUpStaleAlias i ca)
    then show ?thesis using d bound
      by (auto simp: clean_up_stale_alias_def ensure_signed_Inr Let_def alias_deposit_def note_ref_def split: if_splits)
  next
    case (SetAliasFee fee)
    then show ?thesis using d bound by (auto simp: set_alias_fee_def alias_deposit_def split: alias_origin.splits)
  qed (use d set_alias_proven [OF _ bound] reprove_proven [OF _ bound] in auto)
qed

end

subsection \<open>A chain whose membership service is the subscriber\<close>

text \<open>
  The environment of a transaction on the subscriber's chain: its time, and the subscriber as the first
  \<open>k\<close> operations of the two chains and the messages between them have left it.
\<close>

definition hub_env ::
  "('m, 'root, 'inter, 'c) feed_config \<Rightarrow> ('proof, 'root) ring_prover \<Rightarrow> ('m, 'root, 'c) world_op list \<Rightarrow> nat \<Rightarrow> nat \<Rightarrow>
   'proof alias_env" where
  "hub_env fc pr ops k now =
     \<lparr>ae_now = now, ae_service = subscriber_service (fc_subscriber fc) pr (w_subscriber (world_run fc (take k ops)))\<rparr>"

fun hub_tx ::
  "('m, 'root, 'inter, 'c) feed_config \<Rightarrow> ('proof, 'root) ring_prover \<Rightarrow> ('m, 'root, 'c) world_op list \<Rightarrow>
   nat \<times> nat \<times> alias_origin \<times> 'proof alias_call \<Rightarrow> 'proof alias_env \<times> alias_origin \<times> 'proof alias_call" where
  "hub_tx fc pr ops (k, now, x) = (hub_env fc pr ops k now, x)"

lemma hub_step_proven:
  assumes "alias_step cfg (hub_tx fc pr ops (k, now, origin, c)) s = Inr s'" and "sget (AccountToAlias s') who = Some info"
  shows "sget (AccountToAlias s) who = Some info \<or> origin = AliasSigned who \<and> proven_for cfg (hub_env fc pr ops k now) who info"
  using assms unfolding hub_env_def hub_tx.simps by (rule sub.alias_step_proven)

lemma hub_run_proven:
  assumes "sget (AccountToAlias (run_calls (alias_step cfg) (map (hub_tx fc pr ops) txs) (alias_genesis l))) who = Some info"
  shows "\<exists>k now c. (k, now, AliasSigned who, c) \<in> set txs \<and> proven_for cfg (hub_env fc pr ops k now) who info"
  using assms
proof (induction txs rule: rev_induct)
  case Nil
  then show ?case by (simp add: alias_genesis_def)
next
  case (snoc x xs)
  let ?s = "run_calls (alias_step cfg) (map (hub_tx fc pr ops) xs) (alias_genesis l)"
  obtain k now origin c where x: "x = (k, now, origin, c)" by (metis surj_pair)
  show ?case
  proof (cases "alias_step cfg (hub_tx fc pr ops x) ?s")
    case (Inl e)
    then show ?thesis using snoc by (auto simp: run_calls_append simp del: alias_step.simps hub_tx.simps)
  next
    case (Inr s')
    then have "sget (AccountToAlias ?s) who = Some info \<or> origin = AliasSigned who \<and> proven_for cfg (hub_env fc pr ops k now) who info"
      using hub_step_proven [of cfg fc pr ops k now origin c ?s s' who info] snoc.prems x
      by (simp add: run_calls_append del: alias_step.simps hub_tx.simps)
    then show ?thesis using snoc.IH x by auto
  qed
qed

text \<open>C27: a transaction speaks for an alias only if the signer proved it. When \<open>AsRingAlias\<close> turns a transaction
  signed by an account into one of an alias, the alias belongs to people or lite people, and the account
  itself signed an earlier transaction with a ring proof for this very account that is valid, in the alias's
  context, against a root which the members pallet of the people chain had for the ring at the revision recorded;
  and that revision is still retained, and the latest one or not older than the grace period.\<close>

theorem alias_origin_has_ring_proof:
  assumes fc: "feed_config_ok fc" and run: "guarded_run (world_step fc) (members_only_guard fc) ops world_genesis"
    and s: "s = run_calls (alias_step cfg) (map (hub_tx fc pr ops) txs) (alias_genesis l)"
    and ext: "as_ring_alias_validate cfg check_nonce (hub_env fc pr ops k now) (Some nonce) (AliasSigned who) s
      = Inr (tags, v, origin)"
  shows "\<exists>info. origin = RingAlias info \<and> v = UsingAccount who nonce \<and>
    ai_collection info \<in> {PEOPLE_IDENTIFIER, PEOPLE_LITE_IDENTIFIER} \<and>
    is_revision_in_grace cfg (hub_env fc pr ops k now) (ai_collection info) (ai_ring info) (ai_revision info) \<and>
    (\<exists>k' now' c pf t j e root. (k', now', AliasSigned who, c) \<in> set txs \<and>
       t \<le> now' \<and> now' \<le> t + ProofValidityWindow cfg \<and> j \<le> length ops \<and>
       members_root_view (w_members (world_run fc (take j ops))) (ai_collection info) (ai_ring info)
         = Some (ai_revision info, root) \<and>
       validate_proof pr e pf root (ca_context (ai_ca info)) (alias_blake2 cfg (proof_preimage who t))
         = Some (ca_alias (ai_ca info)))"
proof -
  obtain info where info: "sget (AccountToAlias s) who = Some info" "origin = RingAlias info" "v = UsingAccount who nonce"
    and grace: "is_revision_in_grace cfg (hub_env fc pr ops k now) (ai_collection info) (ai_ring info) (ai_revision info)"
    using ext by (auto simp: as_ring_alias_validate_def)
  obtain k' now' c where tx: "(k', now', AliasSigned who, c) \<in> set txs"
    and proven: "proven_for cfg (hub_env fc pr ops k' now') who info"
    using hub_run_proven [OF info(1) [unfolded s]] by blast
  obtain pf t where t: "proof_in_time cfg now' t"
    and verified: "sub_verify_membership_at_rev (fc_subscriber fc) pr (ai_collection info) pf (ai_ring info) (ai_revision info)
      (ca_context (ai_ca info)) (proof_message cfg who t) (w_subscriber (world_run fc (take k' ops))) = Inr (ai_ca info)"
    using proven by (auto simp: proven_for_def hub_env_def subscriber_service_def)
  obtain e roots x where roots: "sget (RingRoots (w_subscriber (world_run fc (take k' ops)))) (ai_collection info, ai_ring info) = Some roots"
    and x: "find (\<lambda>x. rc_revision x = ai_revision info) roots = Some x"
    and proves: "validate_proof pr e pf (rc_root x) (ca_context (ai_ca info)) (proof_message cfg who t) = Some (ca_alias (ai_ca info))"
    using verified unfolding sub_verify_membership_at_rev_def ring_proving_information_def
    by (auto dest: arg_cong [where f = ca_alias])
  have in_roots: "x \<in> set roots" and revision: "rc_revision x = ai_revision info" using x by (auto simp: find_Some_iff)
  obtain j where "j \<le> length ops"
    "members_root_view (w_members (world_run fc (take j ops))) (ai_collection info) (ai_ring info) = Some (ai_revision info, rc_root x)"
    using window_root_held [OF fc run roots in_roots] unfolding revision by blast
  moreover have "t \<le> now'" "now' \<le> t + ProofValidityWindow cfg"
    using t sat_add_le(1) [of u64_max t "ProofValidityWindow cfg"] by (auto simp: proof_in_time_def)
  moreover have "ai_collection info \<in> {PEOPLE_IDENTIFIER, PEOPLE_LITE_IDENTIFIER}"
    using proven unfolding proven_for_def by blast
  ultimately show ?thesis using info(2,3) grace tx proves unfolding proof_message_def by blast
qed

subsection \<open>Cleaning up\<close>




subsection \<open>Registering and renewing\<close>

lemma verify_again: "verify_proof cfg env pf c r v ctx msg = Inr rca \<Longrightarrow> rca_ca rca = ai_ca (from_validated c rca)"
  by (simp add: from_validated_def)

text \<open>A registration takes exactly the fee from the signer and nothing from anyone else, binds the signer to
  the alias that was proven, and unbinds the account that had it before, if that is another one; no other
  binding changes. Sending the same registration again is refused, so it is charged once.\<close>

theorem registration_charged_once:
  assumes laws: "fungibles_laws (alias_fungibles cfg)"
    and ok: "set_alias_account cfg env (AliasSigned who) pf c r v ctx t s = Inr (p, s')"
  shows "\<exists>fee info. AliasFee s = Some fee \<and>
    asset_balance (alias_fungibles cfg) (alias_pgas_asset cfg) who (alias_ledger s') + fee
      = asset_balance (alias_fungibles cfg) (alias_pgas_asset cfg) who (alias_ledger s) \<and>
    (\<forall>x a. (x, a) \<noteq> (alias_pgas_asset cfg, who) \<longrightarrow>
       asset_balance (alias_fungibles cfg) x a (alias_ledger s') = asset_balance (alias_fungibles cfg) x a (alias_ledger s)) \<and>
    (\<forall>a. sget (AccountToAlias s') a =
       (if a = who then Some info
        else if sget (AliasToAccount s) (c, ai_ca info) = Some a then None else sget (AccountToAlias s) a)) \<and>
    (\<forall>k. sget (AliasToAccount s') k = (if k = (c, ai_ca info) then Some who else sget (AliasToAccount s) k)) \<and>
    set_alias_account cfg env (AliasSigned who) pf c r v ctx t s' = Inl (Module AliasAccountAlreadySet)"
  using ok
proof (rule set_aliasE)
  fix signer fee rca info l
  assume signer: "AliasSigned who = AliasSigned signer" and fee: "AliasFee s = Some fee"
    and time: "proof_in_time cfg (ae_now env) t"
    and verified: "verify_proof cfg env pf c r v ctx (proof_message cfg signer t) = Inr rca"
    and info: "info = from_validated c rca"
    and burnt: "burn_exact (alias_fungibles cfg) (alias_pgas_asset cfg) signer fee Expendable (alias_ledger s) = Inr l"
    and l: "alias_ledger s' = l" and fee': "AliasFee s' = AliasFee s"
    and A: "AliasToAccount s' = sput (alias_key info) signer (AliasToAccount s)"
    and cases: "if sget (AliasToAccount s) (alias_key info) = Some signer
         then sget (AccountToAlias s) signer \<noteq> Some info \<and> alias_refs s' = alias_refs s \<and>
              AccountToAlias s' = sput signer info (AccountToAlias s)
         else \<not> scontains (AccountToAlias s) signer \<and>
              (case sget (AliasToAccount s) (alias_key info) of
                 None \<Rightarrow> alias_refs s' = alias_refs s @ [IncSufficients signer] \<and>
                         AccountToAlias s' = sput signer info (AccountToAlias s)
               | Some old \<Rightarrow> alias_refs s' = alias_refs s @ [DecSufficients old, IncSufficients signer] \<and>
                         AccountToAlias s' = sput signer info (sdel old (AccountToAlias s)))"
  have who: "signer = who" using signer by simp
  have key: "alias_key info = (c, ai_ca info)" by (simp add: info alias_key_def from_validated_def)
  have "sget (AccountToAlias s') a =
       (if a = who then Some info
        else if sget (AliasToAccount s) (c, ai_ca info) = Some a then None else sget (AccountToAlias s) a)" for a
    using cases unfolding who key by (auto split: if_splits option.splits)
  moreover have "sget (AccountToAlias s') who = Some info" "sget (AliasToAccount s') (c, ai_ca info) = Some who"
    using calculation A who key by auto
  then have "set_alias_account cfg env (AliasSigned who) pf c r v ctx t s' = Inl (Module AliasAccountAlreadySet)"
    using fee fee' time verified unfolding who info
    by (simp add: set_alias_account_def alias_ensure_signed_def Let_def)
  ultimately show ?thesis
    using burn_law [OF laws burnt] fee l A who key by auto
qed

text \<open>A renewal is free and only moves forward: it changes nothing but the ring and the revision recorded for the
  signer, on the same ring the revision grows, and sending the renewal again is refused.\<close>

theorem renewal_moves_forward:
  assumes ok: "reprove_alias_account cfg env (AliasSigned who) pf r v t s = Inr (p, s')"
    and old: "sget (AccountToAlias s) who = Some old"
  shows "p = PaysNo \<and> alias_ledger s' = alias_ledger s \<and> AliasToAccount s' = AliasToAccount s \<and>
    alias_refs s' = alias_refs s \<and> (ai_ring old = r \<longrightarrow> ai_revision old < v) \<and>
    (\<forall>a. sget (AccountToAlias s') a =
       (if a = who then Some (old\<lparr>ai_ring := r, ai_revision := v\<rparr>) else sget (AccountToAlias s) a)) \<and>
    reprove_alias_account cfg env (AliasSigned who) pf r v t s' = Inl (Module AliasAccountAlreadySet)"
  using ok
proof (rule reproveE)
  fix signer old' rca new
  assume signer: "AliasSigned who = AliasSigned signer" and old': "sget (AccountToAlias s) signer = Some old'"
    and time: "proof_in_time cfg (ae_now env) t" and p: "p = PaysNo"
    and verified: "verify_proof cfg env pf (ai_collection old') r v (ca_context (ai_ca old')) (proof_message cfg signer t) = Inr rca"
    and same: "ca_alias (rca_ca rca) = ca_alias (ai_ca old')"
    and forward: "rca_ring rca \<noteq> ai_ring old' \<or> rca_revision rca > ai_revision old'"
    and new: "new = \<lparr>ai_collection = ai_collection old', ai_revision = rca_revision rca, ai_ring = rca_ring rca, ai_ca = ai_ca old'\<rparr>"
    and s': "s' = alias_deposit (AliasAccountSet signer (ai_collection old') (ca_alias (ai_ca old')))
               (s\<lparr>AccountToAlias := sput signer new (AccountToAlias s)\<rparr>)"
  have eqs: "signer = who" "old' = old" using signer old' old by auto
  note v = verify_proofD(2,3) [OF verified]
  have "reprove_alias_account cfg env (AliasSigned who) pf r v t s' = Inl (Module AliasAccountAlreadySet)"
    using time verified same v unfolding eqs
    by (simp add: reprove_alias_account_def alias_ensure_signed_def s' alias_deposit_def new eqs)
  then show ?thesis using p forward v by (auto simp: s' alias_deposit_def new eqs)
qed

subsection \<open>Witnesses\<close>

definition demo_alias_config :: "(nat list \<times> (nat \<times> account_id, nat) storage) alias_config" where
  "demo_alias_config = \<lparr>ProofValidityWindow = 300, CleanupGracePeriod = 3600, PeopleLiteRingExponent = R2e9,
     PeopleRingExponent = R2e9, alias_fungibles = book_fungibles, alias_pgas_asset = 1, alias_blake2 = id\<rparr>"

text \<open>A run of the two chains in which the people's first ring root reaches the subscriber.\<close>

definition demo_people_feed :: "(nat, nat list, nat) world_op list" where
  "demo_people_feed = [
     WMembers (demo_env 10) (CreateCollection [7] PEOPLE_IDENTIFIER 1 FlexibleRings R2e9 (Some 5)),
     WMembers (demo_env 10) (AddMembers PEOPLE_IDENTIFIER [21, 22]),
     WMembers (demo_env 11) (Maintain True (OnboardMembers PEOPLE_IDENTIFIER 0 0 (Some 21))),
     WMembers (demo_env 12) (Maintain True (BuildRing PEOPLE_IDENTIFIER 0 R2e9 None 1)),
     WNotifier (demo_net 13) (Subscribe Manager 100 [(PEOPLE_IDENTIFIER, R2e9)] 7),
     WNotifier (demo_net 14) (Worker LocalSource (SendInitPage 100 0 None 0)),
     WDeliver (demo_sub 15)]"

definition demo_hub_txs :: "(nat \<times> nat \<times> alias_origin \<times> nat alias_call) list" where
  "demo_hub_txs = [
     (7, 100, FeeManager, SetAliasFee 2),
     (7, 101, AliasSigned [8], SetAliasAccount 21 PEOPLE_IDENTIFIER 0 0 [3] 90)]"

abbreviation demo_ledger5 :: "nat list \<times> (nat \<times> account_id, nat) storage" where
  "demo_ledger5 \<equiv> ([1], [((1, [8]), 5)])"

lemma demo_people_guard: "guarded_run (world_step demo_feed) (members_only_guard demo_feed) demo_people_feed world_genesis"
  by code_simp

lemma demo_hub_ext:
  "as_ring_alias_validate demo_alias_config (\<lambda>_ _. Inr ()) (hub_env demo_feed demo_ring_prover demo_people_feed 7 102) (Some 0)
     (AliasSigned [8]) (run_calls (alias_step demo_alias_config) (map (hub_tx demo_feed demo_ring_prover demo_people_feed) demo_hub_txs)
       (alias_genesis demo_ledger5))
   = Inr (Some (), UsingAccount [8] 0, RingAlias \<lparr>ai_collection = PEOPLE_IDENTIFIER, ai_revision = 0, ai_ring = 0,
       ai_ca = \<lparr>ca_alias = [21], ca_context = [3]\<rparr>\<rparr>)"
  by code_simp

abbreviation demo_hub :: "nat \<Rightarrow> nat alias_env" where
  "demo_hub now \<equiv> hub_env demo_feed demo_ring_prover demo_people_feed 7 now"

definition demo_alias_run :: "(nat list \<times> (nat \<times> account_id, nat) storage) alias_state" where
  "demo_alias_run = run_calls (alias_step demo_alias_config)
     (map (hub_tx demo_feed demo_ring_prover demo_people_feed) demo_hub_txs) (alias_genesis demo_ledger5)"

abbreviation demo_alias_info :: "nat \<Rightarrow> AliasAccountInfo" where
  "demo_alias_info ring \<equiv> \<lparr>ai_collection = PEOPLE_IDENTIFIER, ai_revision = 0, ai_ring = ring,
     ai_ca = \<lparr>ca_alias = [21], ca_context = [3]\<rparr>\<rparr>"

lemma demo_bound: "sget (AccountToAlias demo_alias_run) [8] = Some (demo_alias_info 0)"
  by code_simp

theorem alias_books_balance_witness:
  "sget (AliasToAccount demo_alias_run) (PEOPLE_IDENTIFIER, \<lparr>ca_alias = [21], ca_context = [3]\<rparr>) = Some [8] \<and>
   net_refs (alias_refs demo_alias_run) [8] = 1"
proof
  note books = alias_books_balance [OF demo_alias_run_def]
  show "sget (AliasToAccount demo_alias_run) (PEOPLE_IDENTIFIER, \<lparr>ca_alias = [21], ca_context = [3]\<rparr>) = Some [8]"
    using books [THEN conjunct1] demo_bound by simp
  show "net_refs (alias_refs demo_alias_run) [8] = 1"
    using books [THEN conjunct2, THEN conjunct1] demo_bound by (simp add: scontains_def)
qed

theorem alias_origin_has_ring_proof_witness:
  "\<exists>k' now' c pf t j e root. (k', now', AliasSigned [8], c) \<in> set demo_hub_txs \<and> t \<le> now' \<and>
     members_root_view (w_members (world_run demo_feed (take j demo_people_feed))) PEOPLE_IDENTIFIER 0 = Some (0, root) \<and>
     validate_proof demo_ring_prover e pf root [3] (proof_preimage [8] t) = Some [21]"
proof -
  have id: "alias_blake2 demo_alias_config = id" by (simp add: demo_alias_config_def)
  show ?thesis
    using alias_origin_has_ring_proof [OF demo_feed_ok demo_people_guard refl demo_hub_ext] by (simp add: id) blast
qed



abbreviation demo_fee_set :: "(nat list \<times> (nat \<times> account_id, nat) storage) alias_state" where
  "demo_fee_set \<equiv> (alias_genesis demo_ledger5)\<lparr>AliasFee := Some 2\<rparr>"

lemma demo_registers:
  "is_ok (set_alias_account demo_alias_config (demo_hub 101) (AliasSigned [8]) 21 PEOPLE_IDENTIFIER 0 0 [3] 90 demo_fee_set)"
  "is_ok (reprove_alias_account demo_alias_config (demo_hub 101) (AliasSigned [8]) 21 0 0 90
     (demo_fee_set\<lparr>AccountToAlias := [([8], demo_alias_info 5)]\<rparr>))"
  by code_simp+

theorem registration_charged_once_witness:
  "\<exists>p s'. set_alias_account demo_alias_config (demo_hub 101) (AliasSigned [8]) 21 PEOPLE_IDENTIFIER 0 0 [3] 90 demo_fee_set
     = Inr (p, s') \<and> asset_balance book_fungibles 1 [8] (alias_ledger s') = 3"
proof -
  have cfg: "alias_fungibles demo_alias_config = book_fungibles" "alias_pgas_asset demo_alias_config = 1"
    by (simp_all add: demo_alias_config_def)
  obtain p s' where ok: "set_alias_account demo_alias_config (demo_hub 101) (AliasSigned [8]) 21 PEOPLE_IDENTIFIER 0 0 [3] 90
      demo_fee_set = Inr (p, s')"
    using demo_registers(1) unfolding is_ok_iff by (metis surj_pair)
  have "asset_balance book_fungibles 1 [8] (alias_ledger demo_fee_set) = 5" by code_simp
  moreover have "fungibles_laws (alias_fungibles demo_alias_config)" by (simp add: cfg book_fungibles_laws)
  ultimately show ?thesis using registration_charged_once [OF _ ok] ok unfolding cfg by (intro exI conjI) auto
qed

theorem renewal_moves_forward_witness:
  "\<exists>p s'. reprove_alias_account demo_alias_config (demo_hub 101) (AliasSigned [8]) 21 0 0 90
     (demo_fee_set\<lparr>AccountToAlias := [([8], demo_alias_info 5)]\<rparr>) = Inr (p, s') \<and>
     sget (AccountToAlias s') [8] = Some (demo_alias_info 0)"
proof -
  let ?s = "demo_fee_set\<lparr>AccountToAlias := [([8], demo_alias_info 5)]\<rparr>"
  obtain p s' where ok: "reprove_alias_account demo_alias_config (demo_hub 101) (AliasSigned [8]) 21 0 0 90 ?s = Inr (p, s')"
    using demo_registers(2) unfolding is_ok_iff by (metis surj_pair)
  have "sget (AccountToAlias ?s) [8] = Some (demo_alias_info 5)" by (simp add: sget_def)
  from renewal_moves_forward [OF ok this] ok show ?thesis by auto
qed

end
