(* ===== verification/Pgas.thy ===== *)
theory Pgas
  imports Member_Service "HOL-Library.List_Lexorder"
begin

text \<open>
  The pallet \<open>pallets/pgas\<close>: a person claims a fixed amount of the gas token a limited number of times a day. A claim is
  anonymous: its ring proof shows an alias in a context made of the day and of one of the day's
  slots, and the pallet remembers the aliases of the day. The tags that the transaction
  pool compares and the weights are not modelled.
\<close>

subsection \<open>Types and storage\<close>

definition PGAS_CONTEXT_PREFIX :: bytes where
  "PGAS_CONTEXT_PREFIX = map (of_nat \<circ> of_char) ''pop:gas:''"

definition PGAS_DAY_GRACE_WINDOW :: nat where
  "PGAS_DAY_GRACE_WINDOW = 3600"

definition SECS_PER_DAY :: nat where
  "SECS_PER_DAY = 86400"

datatype PgasCollection = People | LitePeople

fun pgas_identifier :: "PgasCollection \<Rightarrow> coll_id" where
  "pgas_identifier People = PEOPLE_IDENTIFIER"
| "pgas_identifier LitePeople = PEOPLE_LITE_IDENTIFIER"

datatype PgasEvent =
    PgasClaimed bytes account_id nat PgasCollection nat
  | PgasAssetCreated
  | PgasClaimRecordsCleaned nat nat

datatype PgasError = AlreadyClaimed | PgasMintFailed | NoRecordsForDay | FirstAliasMismatch

datatype pgas_origin = ClaimAlias bytes nat PgasCollection | PgasAuthorized | PgasNone | PgasOtherOrigin

text \<open>The keys of the map of claimed aliases, in no particular order.\<close>

record 'l pgas_state =
  ClaimedGasAliases :: "(nat \<times> bytes) list"
  pgas_ledger :: 'l
  pgas_events :: "PgasEvent list"

definition pgas_genesis :: "'l \<Rightarrow> 'l pgas_state" where
  "pgas_genesis l = \<lparr>ClaimedGasAliases = [], pgas_ledger = l, pgas_events = []\<rparr>"

text \<open>\<open>pg_storage_key\<close> is the key \<open>Blake2_128Concat\<close> makes of an alias, by which the storage is iterated.\<close>

record 'l pgas_config =
  pg_fungibles :: "'l fungibles"
  PgasAssetId :: nat
  PgasClaimAmount :: nat
  MaxClaimsPerPeriodPerPerson :: nat
  MaxClaimsPerPeriodPerLitePerson :: nat
  MaxPgasClaimRecordCleanupPerCall :: nat
  PgasAdmin :: account_id
  PgasMinBalance :: nat
  pg_storage_key :: "bytes \<Rightarrow> bytes"

record 'proof pgas_env =
  pe_now :: nat
  pe_service :: "'proof member_service"

definition pgas_deposit :: "PgasEvent \<Rightarrow> 'l pgas_state \<Rightarrow> 'l pgas_state" where
  "pgas_deposit e s = s\<lparr>pgas_events := pgas_events s @ [e]\<rparr>"

definition pgas_integrity_test :: "'l pgas_config \<Rightarrow> bool" where
  "pgas_integrity_test cfg \<longleftrightarrow> PgasClaimAmount cfg \<ge> PgasMinBalance cfg"

subsection \<open>Days, slots and contexts\<close>

text \<open>\<open>saturated_into\<close> to \<open>u32\<close>.\<close>

definition to_u32 :: "nat \<Rightarrow> nat" where
  "to_u32 n = min n u32_max"

definition current_day :: "nat \<Rightarrow> nat" where
  "current_day now = to_u32 (now div SECS_PER_DAY)"

definition grace_day :: "nat \<Rightarrow> nat" where
  "grace_day now = to_u32 ((now - PGAS_DAY_GRACE_WINDOW) div SECS_PER_DAY)"

definition build_gas_context :: "nat \<Rightarrow> nat \<Rightarrow> bytes" where
  "build_gas_context day slot_index =
     PGAS_CONTEXT_PREFIX @ le_bytes 4 day @ le_bytes 4 slot_index @ replicate 16 0"

fun max_claims_for :: "'l pgas_config \<Rightarrow> PgasCollection \<Rightarrow> nat" where
  "max_claims_for cfg People = MaxClaimsPerPeriodPerPerson cfg"
| "max_claims_for cfg LitePeople = MaxClaimsPerPeriodPerLitePerson cfg"

subsection \<open>Iteration of the claimed aliases\<close>

text \<open>
  The days are encoded big-endian and not hashed, so iteration goes through the days in rising order, and
  within a day by the storage key of the alias. \<open>clear_prefix\<close> removes the first entries of the
  iteration; the entries of a day that can be cleaned are never of the same block.
\<close>

definition day_aliases :: "'l pgas_config \<Rightarrow> nat \<Rightarrow> 'l pgas_state \<Rightarrow> bytes list" where
  "day_aliases cfg day s = sort_key (pg_storage_key cfg) (map snd (filter (\<lambda>(d, _). d = day) (ClaimedGasAliases s)))"

definition first_of_day :: "'l pgas_config \<Rightarrow> nat \<Rightarrow> 'l pgas_state \<Rightarrow> bytes option" where
  "first_of_day cfg day s = (case day_aliases cfg day s of [] \<Rightarrow> None | a # _ \<Rightarrow> Some a)"

definition first_key :: "'l pgas_config \<Rightarrow> 'l pgas_state \<Rightarrow> (nat \<times> bytes) option" where
  "first_key cfg s =
     (case sort (map fst (ClaimedGasAliases s)) of
        [] \<Rightarrow> None
      | day # _ \<Rightarrow> map_option (\<lambda>a. (day, a)) (first_of_day cfg day s))"

definition clear_day :: "'l pgas_config \<Rightarrow> nat \<Rightarrow> nat \<Rightarrow> 'l pgas_state \<Rightarrow> nat \<times> 'l pgas_state" where
  "clear_day cfg day limit s =
     (let gone = take limit (day_aliases cfg day s)
      in (length gone, s\<lparr>ClaimedGasAliases := filter (\<lambda>(d, a). \<not> (d = day \<and> a \<in> set gone)) (ClaimedGasAliases s)\<rparr>))"

subsection \<open>The calls\<close>

definition ensure_claim_alias :: "pgas_origin \<Rightarrow> PgasError dispatch_error + (bytes \<times> nat \<times> PgasCollection)" where
  "ensure_claim_alias origin =
     (case origin of ClaimAlias alias day collection \<Rightarrow> Inr (alias, day, collection) | _ \<Rightarrow> Inl BadOrigin)"

definition claim_pgas ::
  "'l pgas_config \<Rightarrow> pgas_origin \<Rightarrow> nat \<Rightarrow> account_id \<Rightarrow> 'l pgas_state \<Rightarrow>
   PgasError dispatch_error + (pays \<times> 'l pgas_state)" where
  "claim_pgas cfg origin slot_index target s =
     on_ok (ensure_claim_alias origin) (\<lambda>(alias, day, collection).
     ensure ((day, alias) \<notin> set (ClaimedGasAliases s)) (Module AlreadyClaimed) (
     on_ok (map_err (\<lambda>_. Module PgasMintFailed)
             (mint_into (pg_fungibles cfg) (PgasAssetId cfg) target (PgasClaimAmount cfg) (pgas_ledger s))) (\<lambda>l.
       Inr (PaysNo, pgas_deposit (PgasClaimed alias target (PgasClaimAmount cfg) collection day)
              (s\<lparr>pgas_ledger := l, ClaimedGasAliases := (day, alias) # ClaimedGasAliases s\<rparr>)))))"

definition do_create_pgas_asset :: "'l pgas_config \<Rightarrow> 'l pgas_state \<Rightarrow> PgasError dispatch_error + 'l pgas_state" where
  "do_create_pgas_asset cfg s =
     on_ok (map_err External
             (create_asset (pg_fungibles cfg) (PgasAssetId cfg) (PgasAdmin cfg) True (PgasMinBalance cfg) (pgas_ledger s))) (\<lambda>l.
       Inr (pgas_deposit PgasAssetCreated (s\<lparr>pgas_ledger := l\<rparr>)))"

definition create_pgas_asset :: "'l pgas_config \<Rightarrow> pgas_origin \<Rightarrow> 'l pgas_state \<Rightarrow> PgasError dispatch_error + 'l pgas_state" where
  "create_pgas_asset cfg origin s = ensure (origin = PgasAuthorized) BadOrigin (do_create_pgas_asset cfg s)"

definition clean_pgas_claim_records ::
  "'l pgas_config \<Rightarrow> pgas_origin \<Rightarrow> nat \<Rightarrow> bytes \<Rightarrow> 'l pgas_state \<Rightarrow> PgasError dispatch_error + 'l pgas_state" where
  "clean_pgas_claim_records cfg origin day_index first_alias s =
     ensure (origin = PgasAuthorized) BadOrigin (
     ok_or (first_of_day cfg day_index s) (Module NoRecordsForDay) (\<lambda>actual_first.
     ensure (actual_first = first_alias) (Module FirstAliasMismatch) (
       let (unique, s1) = clear_day cfg day_index (MaxPgasClaimRecordCleanupPerCall cfg) s
       in Inr (pgas_deposit (PgasClaimRecordsCleaned day_index unique) s1))))"

subsection \<open>Authorisation\<close>

datatype PgasInvalid =
    PgasStale | PgasFuture | PgasCall | PgasBadSigner | PgasBadProof
  | InvalidClaimSlot | InvalidClaimDay | ClaimedAlready | PgasAssetNotCreated | AliasMismatch

definition authorize_create_pgas_asset :: "'l pgas_config \<Rightarrow> 'l pgas_state \<Rightarrow> PgasInvalid + unit" where
  "authorize_create_pgas_asset cfg s =
     ensure (\<not> asset_exists (pg_fungibles cfg) (PgasAssetId cfg) (pgas_ledger s)) PgasStale (Inr ())"

definition authorize_clean_pgas_claim_records ::
  "'l pgas_config \<Rightarrow> nat \<Rightarrow> tx_source \<Rightarrow> nat \<Rightarrow> bytes \<Rightarrow> 'l pgas_state \<Rightarrow> PgasInvalid + unit" where
  "authorize_clean_pgas_claim_records cfg now source day_index first_alias s =
     ensure (source = InBlock \<or> source = LocalSource) PgasCall (
     ensure (\<not> day_index \<ge> grace_day now) PgasFuture (
     ok_or (first_of_day cfg day_index s) PgasStale (\<lambda>actual_first.
     ensure (actual_first = first_alias) AliasMismatch (Inr ()))))"

text \<open>The worker: the call it submits, if any.\<close>

definition pgas_offchain_worker :: "'l pgas_config \<Rightarrow> nat \<Rightarrow> 'l pgas_state \<Rightarrow> (nat \<times> bytes) option" where
  "pgas_offchain_worker cfg now s =
     (case first_key cfg s of
        None \<Rightarrow> None
      | Some (day, first_alias) \<Rightarrow> if day \<ge> grace_day now then None else Some (day, first_alias))"

text \<open>The migration that creates the asset.\<close>

definition pgas_on_runtime_upgrade :: "'l pgas_config \<Rightarrow> 'l pgas_state \<Rightarrow> 'l pgas_state" where
  "pgas_on_runtime_upgrade cfg s =
     (if asset_exists (pg_fungibles cfg) (PgasAssetId cfg) (pgas_ledger s) then s
      else case do_create_pgas_asset cfg s of Inl _ \<Rightarrow> s | Inr s' \<Rightarrow> s')"

subsection \<open>The transaction extension\<close>

record 'proof AsPgasInfo =
  pc_proof :: 'proof
  pc_ring_index :: nat
  pc_revision :: nat
  pc_collection :: PgasCollection
  pc_day :: nat

text \<open>
  The call of the transaction is its slot if it is \<open>claim_pgas\<close>; the message is the hash of the inherited implication.
\<close>

definition validate_claim ::
  "'l pgas_config \<Rightarrow> 'proof pgas_env \<Rightarrow> pgas_origin \<Rightarrow> nat option \<Rightarrow> bytes \<Rightarrow> 'proof AsPgasInfo \<Rightarrow> 'l pgas_state \<Rightarrow>
   PgasInvalid + pgas_origin" where
  "validate_claim cfg env origin call_slot msg info s =
     ensure (origin = PgasNone) PgasBadSigner (
     ok_or call_slot PgasCall (\<lambda>slot_index.
     ensure (slot_index < max_claims_for cfg (pc_collection info)) InvalidClaimSlot (
     ensure (asset_exists (pg_fungibles cfg) (PgasAssetId cfg) (pgas_ledger s)) PgasAssetNotCreated (
     ensure (pc_day info = current_day (pe_now env) \<or> pc_day info = grace_day (pe_now env)) InvalidClaimDay (
     ok_or (ms_verify_at_rev (pe_service env) (pgas_identifier (pc_collection info)) (pc_proof info) (pc_ring_index info)
              (pc_revision info) (build_gas_context (pc_day info) slot_index) msg) PgasBadProof (\<lambda>ca.
     ensure ((pc_day info, ca_alias ca) \<notin> set (ClaimedGasAliases s)) ClaimedAlready (
       Inr (ClaimAlias (ca_alias ca) (pc_day info) (pc_collection info)))))))))"

definition as_pgas_validate ::
  "'l pgas_config \<Rightarrow> 'proof pgas_env \<Rightarrow> pgas_origin \<Rightarrow> nat option \<Rightarrow> bytes \<Rightarrow> 'proof AsPgasInfo option \<Rightarrow> 'l pgas_state \<Rightarrow>
   PgasInvalid + pgas_origin" where
  "as_pgas_validate cfg env origin call_slot msg ext s =
     (case ext of None \<Rightarrow> Inr origin | Some info \<Rightarrow> validate_claim cfg env origin call_slot msg info s)"

text \<open>
  A transaction of a block, which is valid at the time it is executed: a claim, unsigned or not, with its
  extension, an authorised call, or the migration of a runtime upgrade.
\<close>

datatype 'proof pgas_tx =
    ClaimTx bool "'proof AsPgasInfo option" bytes nat account_id
  | CreateAssetTx
  | CleanRecordsTx tx_source nat bytes
  | RuntimeUpgrade

fun pgas_step :: "'l pgas_config \<Rightarrow> 'proof pgas_env \<times> 'proof pgas_tx \<Rightarrow> 'l pgas_state \<Rightarrow>
   PgasError dispatch_error + 'l pgas_state" where
  "pgas_step cfg (env, ClaimTx is_none ext msg slot_index target) s =
     on_ok (map_err (\<lambda>_. External ''invalid'')
             (as_pgas_validate cfg env (if is_none then PgasNone else PgasOtherOrigin) (Some slot_index) msg ext s)) (\<lambda>origin'.
     on_ok (claim_pgas cfg origin' slot_index target s) (\<lambda>(_, s'). Inr s'))"
| "pgas_step cfg (env, CreateAssetTx) s =
     on_ok (map_err (\<lambda>_. External ''invalid'') (authorize_create_pgas_asset cfg s)) (\<lambda>_.
     create_pgas_asset cfg PgasAuthorized s)"
| "pgas_step cfg (env, CleanRecordsTx source day first_alias) s =
     on_ok (map_err (\<lambda>_. External ''invalid'')
             (authorize_clean_pgas_claim_records cfg (pe_now env) source day first_alias s)) (\<lambda>_.
     clean_pgas_claim_records cfg PgasAuthorized day first_alias s)"
| "pgas_step cfg (env, RuntimeUpgrade) s = Inr (pgas_on_runtime_upgrade cfg s)"

end
