(* ===== verification/Pgas_Claims.thy ===== *)
theory Pgas_Claims
  imports Pgas "HOL-Library.Code_Target_Nat"
begin

text \<open>The properties of the gas claims.\<close>

subsection \<open>Contexts\<close>

lemma context_parts:
  "take 8 (build_gas_context day slot) = PGAS_CONTEXT_PREFIX"
  "take 4 (drop 8 (build_gas_context day slot)) = le_bytes 4 day"
  "take 4 (drop 12 (build_gas_context day slot)) = le_bytes 4 slot"
proof -
  have "length PGAS_CONTEXT_PREFIX = 8" by (simp add: PGAS_CONTEXT_PREFIX_def)
  then show "take 8 (build_gas_context day slot) = PGAS_CONTEXT_PREFIX"
    "take 4 (drop 8 (build_gas_context day slot)) = le_bytes 4 day"
    "take 4 (drop 12 (build_gas_context day slot)) = le_bytes 4 slot"
    by (simp_all add: build_gas_context_def)
qed

text \<open>C30: a context of 32 bytes determines the day and the slot it was made of, for all values of their type: they
  can be read off its bytes, so no two of the claims a person may make share a context.\<close>

theorem gas_context_roundtrip:
  assumes "day \<le> u32_max" and "slot \<le> u32_max"
  shows "length (build_gas_context day slot) = 32 \<and>
    from_le_bytes (take 4 (drop 8 (build_gas_context day slot))) = day \<and>
    from_le_bytes (take 4 (drop 12 (build_gas_context day slot))) = slot"
  using assms by (simp add: context_parts from_le_bytes_inverse) (simp add: build_gas_context_def PGAS_CONTEXT_PREFIX_def)

theorem gas_context_roundtrip_witness: "from_le_bytes (take 4 (drop 8 (build_gas_context 20400 3))) = 20400"
  using gas_context_roundtrip [of 20400 3] by simp

subsection \<open>The claims made\<close>

definition claims :: "'l pgas_state \<Rightarrow> (nat \<times> bytes \<times> PgasCollection \<times> account_id \<times> nat) list" where
  "claims s = List.map_filter (\<lambda>e. case e of PgasClaimed a target amount c d \<Rightarrow> Some (d, a, c, target, amount) | _ \<Rightarrow> None)
     (pgas_events s)"

lemma claims_deposit [simp]:
  "claims (pgas_deposit e s) = claims s @ (case e of PgasClaimed a target amount c d \<Rightarrow> [(d, a, c, target, amount)] | _ \<Rightarrow> [])"
  by (auto simp: claims_def pgas_deposit_def map_filter_def split: PgasEvent.splits)

lemma claims_updates [simp]:
  "claims (s\<lparr>pgas_ledger := l\<rparr>) = claims s" "claims (s\<lparr>ClaimedGasAliases := A\<rparr>) = claims s"
  by (simp_all add: claims_def)

lemma deposit_selectors [simp]:
  "ClaimedGasAliases (pgas_deposit e s) = ClaimedGasAliases s" "pgas_ledger (pgas_deposit e s) = pgas_ledger s"
  by (simp_all add: pgas_deposit_def)

lemma grace_le_current: "grace_day now \<le> current_day now"
  unfolding grace_day_def current_day_def to_u32_def by (intro min.mono div_le_mono) simp_all

lemma grace_mono: "t \<le> now \<Longrightarrow> grace_day t \<le> grace_day now"
  unfolding grace_day_def to_u32_def by (intro min.mono div_le_mono diff_le_mono) simp_all

text \<open>What a transaction does, in its cases.\<close>

lemma created:
  assumes "do_create_pgas_asset cfg s = Inr s'"
  obtains l where "create_asset (pg_fungibles cfg) (PgasAssetId cfg) (PgasAdmin cfg) True (PgasMinBalance cfg) (pgas_ledger s) = Inr l"
    and "s' = pgas_deposit PgasAssetCreated (s\<lparr>pgas_ledger := l\<rparr>)"
  using assms unfolding do_create_pgas_asset_def by auto

lemma pgas_stepE:
  assumes "pgas_step cfg (env, tx) s = Inr s'"
  obtains (claim) d a c target slot pf r v ca msg l where "slot < max_claims_for cfg c"
      and "d = current_day (pe_now env) \<or> d = grace_day (pe_now env)"
      and "ms_verify_at_rev (pe_service env) (pgas_identifier c) pf r v (build_gas_context d slot) msg = Some ca"
      and "a = ca_alias ca" and "(d, a) \<notin> set (ClaimedGasAliases s)"
      and "mint_into (pg_fungibles cfg) (PgasAssetId cfg) target (PgasClaimAmount cfg) (pgas_ledger s) = Inr l"
      and "s' = pgas_deposit (PgasClaimed a target (PgasClaimAmount cfg) c d)
             (s\<lparr>pgas_ledger := l, ClaimedGasAliases := (d, a) # ClaimedGasAliases s\<rparr>)"
  | (create) l where "create_asset (pg_fungibles cfg) (PgasAssetId cfg) (PgasAdmin cfg) True (PgasMinBalance cfg) (pgas_ledger s) = Inr l"
      and "s' = pgas_deposit PgasAssetCreated (s\<lparr>pgas_ledger := l\<rparr>)"
  | (clean) day limit n where "day < grace_day (pe_now env)"
      and "s' = pgas_deposit (PgasClaimRecordsCleaned day n) (snd (clear_day cfg day limit s))"
  | (nothing) "s' = s"
proof (cases tx)
  case (ClaimTx is_none ext msg slot target)
  obtain origin where valid: "as_pgas_validate cfg env (if is_none then PgasNone else PgasOtherOrigin) (Some slot) msg ext s = Inr origin"
    and dispatched: "on_ok (claim_pgas cfg origin slot target s) (\<lambda>(_, s'). Inr s') = Inr s'"
    using assms unfolding ClaimTx by auto
  have "origin \<noteq> PgasNone \<and> origin \<noteq> PgasOtherOrigin"
    using dispatched by (auto simp: claim_pgas_def ensure_claim_alias_def)
  then obtain info where ext: "ext = Some info" using valid by (cases ext) (auto simp: as_pgas_validate_def split: if_splits)
  obtain ca where valid: "slot < max_claims_for cfg (pc_collection info)"
      "pc_day info = current_day (pe_now env) \<or> pc_day info = grace_day (pe_now env)"
      "ms_verify_at_rev (pe_service env) (pgas_identifier (pc_collection info)) (pc_proof info) (pc_ring_index info)
         (pc_revision info) (build_gas_context (pc_day info) slot) msg = Some ca"
    and origin: "origin = ClaimAlias (ca_alias ca) (pc_day info) (pc_collection info)"
    using valid unfolding ext by (auto simp: as_pgas_validate_def validate_claim_def)
  obtain l where fresh: "(pc_day info, ca_alias ca) \<notin> set (ClaimedGasAliases s)"
      "mint_into (pg_fungibles cfg) (PgasAssetId cfg) target (PgasClaimAmount cfg) (pgas_ledger s) = Inr l"
      "s' = pgas_deposit (PgasClaimed (ca_alias ca) target (PgasClaimAmount cfg) (pc_collection info) (pc_day info))
         (s\<lparr>pgas_ledger := l, ClaimedGasAliases := (pc_day info, ca_alias ca) # ClaimedGasAliases s\<rparr>)"
    using dispatched unfolding origin by (auto simp: claim_pgas_def ensure_claim_alias_def)
  show ?thesis by (rule claim [OF valid refl fresh])
next
  case CreateAssetTx
  then have "do_create_pgas_asset cfg s = Inr s'" using assms by (simp add: create_pgas_asset_def)
  then show ?thesis by (elim created) (rule create)
next
  case (CleanRecordsTx source day first_alias)
  then obtain n s1 where cleared: "clear_day cfg day (MaxPgasClaimRecordCleanupPerCall cfg) s = (n, s1)"
    and "\<not> grace_day (pe_now env) \<le> day" and "s' = pgas_deposit (PgasClaimRecordsCleaned day n) s1"
    using assms by (auto simp: authorize_clean_pgas_claim_records_def clean_pgas_claim_records_def split: prod.splits)
  then show ?thesis by (intro clean [of day n "MaxPgasClaimRecordCleanupPerCall cfg"]) simp_all
next
  case RuntimeUpgrade
  then have "s' = s \<or> do_create_pgas_asset cfg s = Inr s'"
    using assms by (auto simp: pgas_on_runtime_upgrade_def split: if_splits sum.splits)
  then show ?thesis by (elim disjE created) (rule nothing, assumption, rule create)
qed

text \<open>
  No alias claims twice on a day: a claim is remembered as long as it could be repeated.
\<close>

definition claims_inv :: "nat \<Rightarrow> 'l pgas_state \<Rightarrow> bool" where
  "claims_inv now s \<longleftrightarrow> distinct (map (\<lambda>(d, a, _). (d, a)) (claims s)) \<and>
     (\<forall>(d, a, _) \<in> set (claims s). (d, a) \<in> set (ClaimedGasAliases s) \<or> d < grace_day now)"

lemma claims_inv_mono: "claims_inv t s \<Longrightarrow> t \<le> now \<Longrightarrow> claims_inv now s"
  using grace_mono [of t now] by (force simp: claims_inv_def)

lemma claims_inv_step:
  assumes inv: "claims_inv (pe_now env) s" and step: "pgas_step cfg (env, tx) s = Inr s'"
  shows "claims_inv (pe_now env) s'"
  using step
proof (cases rule: pgas_stepE)
  case (claim d a c target slot pf r v ca msg l)
  have "\<not> d < grace_day (pe_now env)" using claim(2) grace_le_current [of "pe_now env"] by auto
  then have "(d, a) \<notin> (\<lambda>(d, a, _). (d, a)) ` set (claims s)"
    using inv claim(5) by (force simp: claims_inv_def)
  then show ?thesis using inv claim(7) by (auto simp: claims_inv_def)
next
  case (create l)
  then show ?thesis using inv by (simp add: claims_inv_def)
next
  case (clean day limit n)
  then show ?thesis using inv by (auto simp: claims_inv_def clear_day_def Let_def)
next
  case nothing
  with inv show ?thesis by simp
qed

lemma claims_inv_run:
  assumes "claims_inv t s" and "sorted (t # map (pe_now \<circ> fst) txs)"
  shows "distinct (map (\<lambda>(d, a, _). (d, a)) (claims (run_calls (pgas_step cfg) txs s)))"
  using assms
proof (induction txs arbitrary: t s)
  case (Cons x xs)
  obtain env tx where x: "x = (env, tx)" by force
  have inv: "claims_inv (pe_now env) s" using claims_inv_mono [OF Cons.prems(1)] Cons.prems(2) x by simp
  show ?case
  proof (cases "pgas_step cfg x s")
    case (Inl e)
    then show ?thesis using Cons.IH [OF inv] Cons.prems(2) x by (simp del: pgas_step.simps)
  next
    case (Inr s')
    then show ?thesis using Cons.IH [OF claims_inv_step [OF inv]] Cons.prems(2) x by (simp del: pgas_step.simps)
  qed
qed (simp add: claims_inv_def)

lemma claims_genesis [simp]: "claims (pgas_genesis l) = []"
  by (simp add: claims_def pgas_genesis_def map_filter_def)

text \<open>Every claim was made in one of the slots that its collection allows.\<close>

definition in_slot :: "('m \<Rightarrow> bytes \<Rightarrow> bytes) \<Rightarrow> 'l pgas_config \<Rightarrow> nat \<times> bytes \<times> PgasCollection \<times> account_id \<times> nat \<Rightarrow> 'm \<Rightarrow> bool" where
  "in_slot vrf cfg claim m \<longleftrightarrow>
     (case claim of (d, a, c, _) \<Rightarrow> \<exists>slot < max_claims_for cfg c. a = vrf m (build_gas_context d slot))"

definition sound_service :: "('m \<Rightarrow> bytes \<Rightarrow> bytes) \<Rightarrow> 'proof member_service \<Rightarrow> bool" where
  "sound_service vrf service \<longleftrightarrow>
     (\<forall>i pf r v ctx msg ca. ms_verify_at_rev service i pf r v ctx msg = Some ca \<longrightarrow> (\<exists>m. ca_alias ca = vrf m ctx))"

lemma slots_step:
  assumes "\<forall>x \<in> set (claims s). \<exists>m. in_slot vrf cfg x m" and "sound_service vrf (pe_service env)"
    and step: "pgas_step cfg (env, tx) s = Inr s'"
  shows "\<forall>x \<in> set (claims s'). \<exists>m. in_slot vrf cfg x m"
  using step
proof (cases rule: pgas_stepE)
  case (claim d a c target slot pf r v ca msg l)
  obtain m where "ca_alias ca = vrf m (build_gas_context d slot)"
    using assms(2) claim(3) unfolding sound_service_def by blast
  then have "in_slot vrf cfg (d, a, c, target, PgasClaimAmount cfg) m" using claim(1,4) by (auto simp: in_slot_def)
  then show ?thesis using assms(1) claim(7) by auto
next
  case (clean day limit n)
  then show ?thesis using assms(1) by (simp add: clear_day_def Let_def)
qed (use assms(1) in auto)

lemma slots_run:
  assumes "\<forall>x \<in> set (claims s). \<exists>m. in_slot vrf cfg x m" and "\<forall>(env, _) \<in> set txs. sound_service vrf (pe_service env)"
  shows "\<forall>x \<in> set (claims (run_calls (pgas_step cfg) txs s)). \<exists>m. in_slot vrf cfg x m"
  using assms
proof (induction txs arbitrary: s)
  case (Cons x xs)
  obtain env tx where x: "x = (env, tx)" by force
  have sound: "sound_service vrf (pe_service env)" "\<forall>(env, _) \<in> set xs. sound_service vrf (pe_service env)"
    using Cons.prems(2) x by auto
  show ?case
  proof (cases "pgas_step cfg x s")
    case (Inl e)
    then show ?thesis using Cons.IH [OF Cons.prems(1) sound(2)] by (simp del: pgas_step.simps)
  next
    case (Inr s')
    then show ?thesis using Cons.IH [OF slots_step [OF Cons.prems(1) sound(1)] sound(2)] x by (simp del: pgas_step.simps)
  qed
qed simp

lemma few_in_slots:
  assumes "distinct (map (\<lambda>(d, a, _). (d, a)) xs)"
  shows "length (filter (\<lambda>x. fst x = day \<and> fst (snd (snd x)) = c \<and> in_slot vrf cfg x m) xs) \<le> max_claims_for cfg c"
proof -
  let ?P = "\<lambda>x. fst x = day \<and> fst (snd (snd x)) = c \<and> in_slot vrf cfg x m"
  let ?key = "\<lambda>(d, a, _). (d, a) :: nat \<times> bytes"
  let ?slots = "(\<lambda>slot. (day, vrf m (build_gas_context day slot))) ` {..<max_claims_for cfg c}"
  have "?key x \<in> ?slots" if "?P x" for x using that by (cases x) (auto simp: in_slot_def)
  then have "?key ` set (filter ?P xs) \<subseteq> ?slots" by (intro image_subsetI) simp
  then have "card (?key ` set (filter ?P xs)) \<le> card ?slots" by (intro card_mono) simp_all
  also have "card ?slots \<le> max_claims_for cfg c" using card_image_le [of "{..<max_claims_for cfg c}"] by simp
  finally have le: "card (?key ` set (filter ?P xs)) \<le> max_claims_for cfg c" .
  have "distinct (map ?key (filter ?P xs))" using assms by (rule distinct_map_filter)
  then have "card (set (map ?key (filter ?P xs))) = length (map ?key (filter ?P xs))" by (rule distinct_card)
  with le show ?thesis by (simp only: set_map length_map)
qed

text \<open>C29: a person claims at most as often a day as the configuration allows. If an accepted proof shows the alias that
  the verifiable random function gives some member in the context asked for, then in every run in which
  time does not go back every claim was made with the alias of some member in an allowed slot of its day; and
  with the aliases of one member at most \<open>max_claims_for\<close> claims of a day and collection were ever
  paid, whatever records were cleaned up in between.\<close>

theorem claims_per_person_bounded:
  assumes sound: "\<forall>(env, _) \<in> set txs. sound_service vrf (pe_service env)"
    and time: "sorted (map (pe_now \<circ> fst) txs)"
    and s: "s = run_calls (pgas_step cfg) txs (pgas_genesis l)"
  shows "(\<forall>x \<in> set (claims s). \<exists>m. in_slot vrf cfg x m) \<and>
    length (filter (\<lambda>x. fst x = day \<and> fst (snd (snd x)) = c \<and> in_slot vrf cfg x m) (claims s)) \<le> max_claims_for cfg c"
proof
  show "\<forall>x \<in> set (claims s). \<exists>m. in_slot vrf cfg x m" unfolding s by (rule slots_run [OF _ sound]) simp
  have "claims_inv 0 (pgas_genesis l)" by (simp add: claims_inv_def)
  moreover have "sorted (0 # map (pe_now \<circ> fst) txs)" using time by simp
  ultimately have "distinct (map (\<lambda>(d, a, _). (d, a)) (claims s))" unfolding s by (rule claims_inv_run)
  then show "length (filter (\<lambda>x. fst x = day \<and> fst (snd (snd x)) = c \<and> in_slot vrf cfg x m) (claims s)) \<le> max_claims_for cfg c"
    by (rule few_in_slots)
qed

text \<open>No alias is paid twice for a day, also when the records of the day have been cleaned up and whatever proofs
  are accepted, as long as time does not go back: the records are only cleaned when no claim for
  their day can be accepted any more.\<close>

theorem alias_claims_once_a_day:
  assumes time: "sorted (map (pe_now \<circ> fst) txs)"
  shows "distinct (map (\<lambda>(d, a, _). (d, a)) (claims (run_calls (pgas_step cfg) txs (pgas_genesis l))))"
proof -
  have "claims_inv 0 (pgas_genesis l)" by (simp add: claims_inv_def)
  moreover have "sorted (0 # map (pe_now \<circ> fst) txs)" using time by simp
  ultimately show ?thesis by (rule claims_inv_run)
qed

subsection \<open>The balances\<close>

definition claimed_by :: "account_id \<Rightarrow> 'l pgas_state \<Rightarrow> nat" where
  "claimed_by who s = sum_list (map (\<lambda>(_, _, _, target, amount). if target = who then amount else 0) (claims s))"

lemma claimed_by_deposit [simp]:
  "claimed_by who (pgas_deposit e s) = claimed_by who s +
     (case e of PgasClaimed a target amount c d \<Rightarrow> if target = who then amount else 0 | _ \<Rightarrow> 0)"
  by (auto simp: claimed_by_def split: PgasEvent.splits)

lemma claimed_by_updates [simp]:
  "claimed_by who (s\<lparr>pgas_ledger := l\<rparr>) = claimed_by who s" "claimed_by who (s\<lparr>ClaimedGasAliases := A\<rparr>) = claimed_by who s"
  by (simp_all add: claimed_by_def)

definition minted_inv :: "'l pgas_config \<Rightarrow> 'l \<Rightarrow> 'l pgas_state \<Rightarrow> bool" where
  "minted_inv cfg l s \<longleftrightarrow>
     (\<forall>x a. asset_balance (pg_fungibles cfg) x a (pgas_ledger s) =
        asset_balance (pg_fungibles cfg) x a l + (if x = PgasAssetId cfg then claimed_by a s else 0)) \<and>
     (\<forall>(_, _, _, _, amount) \<in> set (claims s). amount = PgasClaimAmount cfg)"

lemma minted_step:
  assumes laws: "fungibles_laws (pg_fungibles cfg)" and inv: "minted_inv cfg l s"
    and step: "pgas_step cfg (env, tx) s = Inr s'"
  shows "minted_inv cfg l s'"
  using step
proof (cases rule: pgas_stepE)
  case (claim d a c target slot pf r v ca msg l')
  have "asset_balance (pg_fungibles cfg) x b l' = asset_balance (pg_fungibles cfg) x b (pgas_ledger s) +
      (if x = PgasAssetId cfg \<and> b = target then PgasClaimAmount cfg else 0)" for x b
    using mint_law(1) [OF laws claim(6)] mint_law(2) [OF laws claim(6), of x b] by (cases "(x, b) = (PgasAssetId cfg, target)") auto
  then show ?thesis using inv unfolding claim(7) minted_inv_def by simp
next
  case (create l')
  have "asset_balance (pg_fungibles cfg) x b l' = asset_balance (pg_fungibles cfg) x b (pgas_ledger s)" for x b
    using create_law(2) [OF laws create(1)] .
  then show ?thesis using inv create(2) by (auto simp: minted_inv_def)
next
  case (clean day limit n)
  then show ?thesis using inv by (auto simp: minted_inv_def clear_day_def Let_def)
qed (use inv in simp)

interpretation pgas: pallet_contract "pgas_step cfg" "\<lambda>s. fungibles_laws (pg_fungibles cfg) \<longrightarrow> minted_inv cfg l s" "\<lambda>_ _. True"
  for cfg :: "'l pgas_config" and l
  by unfold_locales (metis minted_step surj_pair)

lemma equal_amounts:
  "\<forall>(_, _, _, _, amount) \<in> set xs. amount = n \<Longrightarrow>
   sum_list (map (\<lambda>(_, _, _, target, amount). if target = a then amount else 0) xs)
      = n * length (filter (\<lambda>(_, _, _, target, _). target = a) xs)" for xs :: "(nat \<times> bytes \<times> PgasCollection \<times> account_id \<times> nat) list"
  by (induction xs) auto

text \<open>The pallet creates gas only through claims: after any transactions the gas of an account is what it had plus the
  claims paid to it, each of the configured amount, and no other asset has changed.\<close>

theorem gas_is_claimed:
  assumes laws: "fungibles_laws (pg_fungibles cfg)"
    and s: "s = run_calls (pgas_step cfg) txs (pgas_genesis l)"
  shows "asset_balance (pg_fungibles cfg) x a (pgas_ledger s) =
      asset_balance (pg_fungibles cfg) x a l + (if x = PgasAssetId cfg then claimed_by a s else 0) \<and>
    claimed_by a s = PgasClaimAmount cfg * length (filter (\<lambda>(_, _, _, target, _). target = a) (claims s))"
proof -
  have start: "minted_inv cfg l (pgas_genesis l)"
    unfolding minted_inv_def claimed_by_def by (simp add: pgas_genesis_def claims_def map_filter_def)
  have "fungibles_laws (pg_fungibles cfg) \<longrightarrow> minted_inv cfg l s"
    unfolding s by (rule pgas.run_keeps [OF _ guarded_run_trivial]) (simp add: start)
  then have inv: "minted_inv cfg l s" using laws by blast
  have "claimed_by a s = PgasClaimAmount cfg * length (filter (\<lambda>(_, _, _, target, _). target = a) (claims s))"
    using inv unfolding minted_inv_def claimed_by_def by (intro equal_amounts) blast
  then show ?thesis using inv unfolding minted_inv_def by blast
qed

subsection \<open>The worker\<close>

lemma first_of_day_in: "first_of_day cfg day s = Some a \<Longrightarrow> (day, a) \<in> set (ClaimedGasAliases s)"
proof -
  assume "first_of_day cfg day s = Some a"
  then have "a \<in> set (day_aliases cfg day s)" by (auto simp: first_of_day_def split: list.splits)
  then show ?thesis by (auto simp: day_aliases_def)
qed

lemma first_key_least:
  assumes "first_key cfg s = Some (day, a)"
  shows "first_of_day cfg day s = Some a" and "\<And>d b. (d, b) \<in> set (ClaimedGasAliases s) \<Longrightarrow> day \<le> d"
proof -
  obtain ds where ds: "sort (map fst (ClaimedGasAliases s)) = day # ds" and first: "first_of_day cfg day s = Some a"
    using assms by (auto simp: first_key_def split: list.splits)
  show "first_of_day cfg day s = Some a" by (rule first)
  fix d b
  assume "(d, b) \<in> set (ClaimedGasAliases s)"
  then have "d \<in> set (sort (map fst (ClaimedGasAliases s)))" by force
  moreover have "sorted (day # ds)" unfolding ds [symmetric] by simp
  ultimately show "day \<le> d" unfolding ds by auto
qed

lemma sort_Nil_iff: "sort xs = [] \<longleftrightarrow> xs = []"
  by (metis length_0_conv length_sort)

lemma first_key_None: "first_key cfg s = None \<longleftrightarrow> ClaimedGasAliases s = []"
proof (cases "sort (map fst (ClaimedGasAliases s))")
  case Nil
  then show ?thesis by (simp add: first_key_def sort_Nil_iff)
next
  case (Cons day ds)
  then have "day \<in> set (sort (map fst (ClaimedGasAliases s)))" by simp
  then obtain a where a: "(day, a) \<in> set (ClaimedGasAliases s)" by auto
  then have "a \<in> set (day_aliases cfg day s)" by (force simp: day_aliases_def)
  then have "first_of_day cfg day s \<noteq> None" by (auto simp: first_of_day_def split: list.splits)
  then have "first_key cfg s \<noteq> None" by (simp add: first_key_def Cons)
  with a show ?thesis by auto
qed

lemma day_aliases_set: "set (day_aliases cfg day s) = {a. (day, a) \<in> set (ClaimedGasAliases s)}"
  by (auto simp: day_aliases_def) force

lemma length_gone:
  assumes "distinct xs" and "set gone \<subseteq> {a. (day, a) \<in> set xs}" and "distinct gone"
  shows "length (filter (\<lambda>(d, a). \<not> (d = day \<and> a \<in> set gone)) xs) + length gone = length xs"
proof -
  let ?P = "\<lambda>(d, a). d = day \<and> a \<in> set gone"
  have "set (filter ?P xs) = Pair day ` set gone" using assms(2) by auto
  then have "length (filter ?P xs) = card (Pair day ` set gone)"
    using distinct_card [of "filter ?P xs"] assms(1) by simp
  also have "\<dots> = length gone" using assms(3) by (simp add: card_image inj_on_def distinct_card)
  finally show ?thesis using sum_length_filter_compl [of ?P xs] by (simp add: case_prod_unfold)
qed

text \<open>Old records do not pile up. As long as a record of a day before the grace day exists, the worker submits a cleanup of the
  oldest day; in the same state it is authorised and succeeds, it removes as many records of that day as the
  limit allows, and at least one if the limit is positive.\<close>

theorem worker_cleans_old_records:
  assumes old: "(d, b) \<in> set (ClaimedGasAliases s)" "d < grace_day (pe_now env)"
    and distinct: "distinct (ClaimedGasAliases s)"
  shows "\<exists>day a s'. pgas_offchain_worker cfg (pe_now env) s = Some (day, a) \<and> day \<le> d \<and>
    pgas_step cfg (env, CleanRecordsTx LocalSource day a) s = Inr s' \<and>
    length (ClaimedGasAliases s') + min (MaxPgasClaimRecordCleanupPerCall cfg) (length (day_aliases cfg day s))
      = length (ClaimedGasAliases s) \<and>
    0 < length (day_aliases cfg day s) \<and>
    (\<forall>e a'. e \<noteq> day \<longrightarrow> (e, a') \<in> set (ClaimedGasAliases s') \<longleftrightarrow> (e, a') \<in> set (ClaimedGasAliases s))"
proof -
  obtain day a where key: "first_key cfg s = Some (day, a)"
    using first_key_None [of cfg s] old(1) by (cases "first_key cfg s") auto
  note first = first_key_least(1) [OF key] and least = first_key_least(2) [OF key old(1)]
  have past: "day < grace_day (pe_now env)" using least old(2) by simp
  let ?n = "MaxPgasClaimRecordCleanupPerCall cfg"
  let ?gone = "take ?n (day_aliases cfg day s)"
  let ?s1 = "snd (clear_day cfg day ?n s)"
  have "inj_on snd (set (filter (\<lambda>(d, _). d = day) (ClaimedGasAliases s)))" by (auto simp: inj_on_def)
  then have "distinct (day_aliases cfg day s)" using distinct by (simp add: day_aliases_def distinct_map)
  moreover have "set ?gone \<subseteq> {a. (day, a) \<in> set (ClaimedGasAliases s)}"
    using set_take_subset [of ?n "day_aliases cfg day s"] unfolding day_aliases_set .
  ultimately have len: "length (ClaimedGasAliases ?s1) + length ?gone = length (ClaimedGasAliases s)"
    using length_gone [OF distinct, of ?gone day] by (simp add: clear_day_def Let_def)
  have "0 < length (day_aliases cfg day s)" using first by (auto simp: first_of_day_def split: list.splits)
  moreover have "pgas_offchain_worker cfg (pe_now env) s = Some (day, a)"
    using key past by (simp add: pgas_offchain_worker_def)
  moreover have "pgas_step cfg (env, CleanRecordsTx LocalSource day a) s
      = Inr (pgas_deposit (PgasClaimRecordsCleaned day (length ?gone)) ?s1)"
    using first past
    by (simp add: authorize_clean_pgas_claim_records_def clean_pgas_claim_records_def clear_day_def Let_def)
  moreover have "(e, a') \<in> set (ClaimedGasAliases ?s1) \<longleftrightarrow> (e, a') \<in> set (ClaimedGasAliases s)" if "e \<noteq> day" for e a'
    using that by (auto simp: clear_day_def Let_def)
  ultimately show ?thesis using len least by (intro exI [of _ day] exI [of _ a] exI) (auto simp: min.commute)
qed

subsection \<open>Witnesses\<close>

definition demo_pgas :: "(nat list \<times> (nat \<times> account_id, nat) storage) pgas_config" where
  "demo_pgas = \<lparr>pg_fungibles = book_fungibles, PgasAssetId = 1, PgasClaimAmount = 10, MaxClaimsPerPeriodPerPerson = 2,
     MaxClaimsPerPeriodPerLitePerson = 1, MaxPgasClaimRecordCleanupPerCall = 1, PgasAdmin = [9], PgasMinBalance = 1,
     pg_storage_key = id\<rparr>"

text \<open>A service that accepts every proof: the proof names the member, and the alias is the member and the context.\<close>

definition demo_vrf :: "nat \<Rightarrow> bytes \<Rightarrow> bytes" where
  "demo_vrf m ctx = of_nat m # ctx"

definition demo_gas_env :: "nat \<Rightarrow> nat pgas_env" where
  "demo_gas_env now = \<lparr>pe_now = now, pe_service = \<lparr>
     ms_verify_at_rev = (\<lambda>i pf r v ctx msg. Some \<lparr>ca_alias = demo_vrf pf ctx, ca_context = ctx\<rparr>),
     ms_ring_revision = (\<lambda>_ _. Some 0), ms_is_revision_valid = (\<lambda>_ _ v. v = 0), ms_revision_source_time = (\<lambda>_ _ _. Some 0)\<rparr>\<rparr>"

definition demo_claim :: "nat \<Rightarrow> nat \<Rightarrow> nat pgas_tx" where
  "demo_claim day slot = ClaimTx True (Some \<lparr>pc_proof = 5, pc_ring_index = 0, pc_revision = 0, pc_collection = People, pc_day = day\<rparr>)
     [] slot [8]"

text \<open>Day 20: two claims in two slots, one of them sent twice, and one in a slot that does not exist. On day 21 the
  first record is removed after the grace window; the claim of day 20 cannot be repeated.\<close>

definition demo_gas_txs :: "(nat pgas_env \<times> nat pgas_tx) list" where
  "demo_gas_txs = [
     (demo_gas_env 1728000, RuntimeUpgrade),
     (demo_gas_env 1731700, demo_claim 20 0), (demo_gas_env 1731701, demo_claim 20 0),
     (demo_gas_env 1731702, demo_claim 20 1), (demo_gas_env 1731703, demo_claim 20 2),
     (demo_gas_env 1819000, CleanRecordsTx LocalSource 20 (demo_vrf 5 (build_gas_context 20 0))),
     (demo_gas_env 1819001, demo_claim 20 0)]"

definition demo_gas_run :: "(nat list \<times> (nat \<times> account_id, nat) storage) pgas_state" where
  "demo_gas_run = run_calls (pgas_step demo_pgas) demo_gas_txs (pgas_genesis ([], []))"

lemma demo_gas_time: "sorted (map (pe_now \<circ> fst) demo_gas_txs)"
  by (simp add: demo_gas_txs_def demo_gas_env_def)

lemma demo_gas_sound: "\<forall>(env, _) \<in> set demo_gas_txs. sound_service demo_vrf (pe_service env)"
  by (auto simp: demo_gas_txs_def sound_service_def demo_gas_env_def)

lemma demo_gas_claims: "length (claims demo_gas_run) = 2" "length (ClaimedGasAliases demo_gas_run) = 1"
  by code_simp+

theorem claims_per_person_bounded_witness:
  "length (claims demo_gas_run) = 2 \<and>
   length (filter (\<lambda>x. fst x = 20 \<and> fst (snd (snd x)) = People \<and> in_slot demo_vrf demo_pgas x 5) (claims demo_gas_run))
     \<le> max_claims_for demo_pgas People"
  using demo_gas_claims(1) claims_per_person_bounded [OF demo_gas_sound demo_gas_time demo_gas_run_def, where m = 5] by blast

theorem alias_claims_once_a_day_witness:
  "length (claims demo_gas_run) = 2 \<and> distinct (map (\<lambda>(d, a, _). (d, a)) (claims demo_gas_run))"
  using demo_gas_claims(1) alias_claims_once_a_day [OF demo_gas_time, of demo_pgas "([], [])"]
  unfolding demo_gas_run_def by blast

theorem gas_is_claimed_witness:
  "asset_balance book_fungibles 1 [8] (pgas_ledger demo_gas_run) = 20"
proof -
  have cfg: "pg_fungibles demo_pgas = book_fungibles" "PgasAssetId demo_pgas = 1" by (simp_all add: demo_pgas_def)
  have "claimed_by [8] demo_gas_run = 20" by code_simp
  moreover have "asset_balance book_fungibles 1 [8] ([], []) = 0" by code_simp
  ultimately show ?thesis
    using gas_is_claimed [OF _ demo_gas_run_def, of 1 "[8]"] unfolding cfg by (simp add: book_fungibles_laws)
qed

theorem worker_cleans_old_records_witness:
  "\<exists>day a s'. pgas_offchain_worker demo_pgas 1819002 demo_gas_run = Some (day, a) \<and>
    pgas_step demo_pgas (demo_gas_env 1819002, CleanRecordsTx LocalSource day a) demo_gas_run = Inr s'"
proof -
  have now: "pe_now (demo_gas_env 1819002) = 1819002" by (simp add: demo_gas_env_def)
  have there: "(20, demo_vrf 5 (build_gas_context 20 1)) \<in> set (ClaimedGasAliases demo_gas_run)"
    "20 < grace_day 1819002" "distinct (ClaimedGasAliases demo_gas_run)"
    by code_simp+
  show ?thesis
    using worker_cleans_old_records [OF there(1), where env = "demo_gas_env 1819002" and cfg = demo_pgas] there(2,3)
    unfolding now by blast
qed

end
