(* ===== verification/People_Multi.thy ===== *)
theory People_Multi
  imports Account_Binding Members_Props
begin

text \<open>
  The pallet \<open>pallets/people-multi\<close>: who is recognised as a person, under which personal identity and key, and which
  accounts act for a person or for one of the aliases of a person. The keys of the persons are members of the
  collection of people in the members pallet, whose model is part of the state.
\<close>

subsection \<open>Types and storage\<close>

definition PEOPLE_ONBOARDING_SIZE :: nat where
  "PEOPLE_ONBOARDING_SIZE = 10"

definition MAX_BULK_CLEANUP :: nat where
  "MAX_BULK_CLEANUP = 100"

record 'm PersonRecord =
  pr_key :: 'm
  pr_account :: "account_id option"

datatype 'm PeopleEvent =
    PersonhoodRecognized nat 'm
  | PersonOnboarding nat 'm
  | AliasDispatched ContextualAlias account_id
  | PplAliasAccountSet ContextualAlias account_id
  | PplAliasAccountUnset ContextualAlias account_id
  | PersonalIdAccountSet nat account_id
  | PersonalIdAccountUnset nat account_id
  | PplCollectionCreated
  | ForcePersonhoodRecognized "'m list"
  | AliasCleanedUp ContextualAlias account_id

text \<open>The errors of the pallet that its code raises; the others of its enumeration are left from earlier versions.\<close>

datatype PeopleError =
    NotPerson | NoKey | InvalidContext | Ppl_InvalidAccount | Ppl_AccountInUse | Ppl_KeyAlreadyInUse
  | PersonalIdNotReserved | PersonalIdReservationCannotRenew | PersonalIdNotReservedOrNotRecognized
  | Ppl_TimeOutOfRange | Ppl_AliasAccountAlreadySet | Ppl_AliasNotStale | Ppl_AliasMismatch | NoStaleAliases

datatype people_origin =
    PplSigned account_id
  | PersonalIdentity nat
  | PersonalAlias RevisedContextualAlias
  | PplManager
  | PplAuthorized
  | PplNone
  | PplOther

text \<open>\<open>ppl_rest\<close> is what belongs to the rest of the chain, such as the nonces.\<close>

record ('m, 'root, 'inter, 'r) people_state =
  Keys :: "('m, nat) storage"
  People :: "(nat, 'm PersonRecord) storage"
  ppl_AliasToAccount :: "(ContextualAlias, account_id) storage"
  ppl_AccountToAlias :: "(account_id, RevisedContextualAlias) storage"
  AccountToPersonalId :: "(account_id, nat) storage"
  NextPersonalId :: nat
  PeopleCollectionCreated :: bool
  ReservedPersonalId :: "(nat, unit) storage"
  ppl_members :: "('m, 'root, 'inter) members_state"
  ppl_refs :: "ref_call list"
  ppl_events :: "'m PeopleEvent list"
  ppl_rest :: 'r

text \<open>
  The configuration: the members pallet and the ring crypto, the signatures of keys, the constants, the hash,
  the nonces of \<open>CheckNonce\<close>, and the calls of the other pallets, which act on the rest of the chain.
\<close>

record ('m, 'root, 'inter, 'c, 'proof, 'sig, 'x, 'r) people_config =
  pc_members :: "('m, 'root, 'inter, 'c) members_config"
  pc_prover :: "('proof, 'root) ring_prover"
  pc_verify_signature :: "'sig \<Rightarrow> bytes \<Rightarrow> 'm \<Rightarrow> bool"
  pc_RingExponent :: RingExponent
  pc_CollectionOwner :: bytes
  pc_StaleAliasCleanupInterval :: nat
  pc_SelfInclusionDelay :: nat
  pc_blake2 :: "bytes \<Rightarrow> bytes"
  pc_check_nonce :: "account_id \<Rightarrow> nat \<Rightarrow> 'r \<Rightarrow> bool"
  pc_prepare_nonce :: "account_id \<Rightarrow> nat \<Rightarrow> 'r \<Rightarrow> 'r option"
  pc_other_call :: "people_origin \<Rightarrow> 'x \<Rightarrow> 'r \<Rightarrow> string + (pays \<times> 'r)"

text \<open>The block, its time, and the contexts that may have accounts, which governance changes.\<close>

record people_env =
  ppl_block :: nat
  ppl_now :: nat
  AccountContexts :: "bytes \<Rightarrow> bool"

definition ppl_deposit :: "'m PeopleEvent \<Rightarrow> ('m, 'root, 'inter, 'r) people_state \<Rightarrow> ('m, 'root, 'inter, 'r) people_state" where
  "ppl_deposit e s = s\<lparr>ppl_events := ppl_events s @ [e]\<rparr>"

definition ppl_ref :: "ref_call \<Rightarrow> ('m, 'root, 'inter, 'r) people_state \<Rightarrow> ('m, 'root, 'inter, 'r) people_state" where
  "ppl_ref c s = s\<lparr>ppl_refs := ppl_refs s @ [c]\<rparr>"

definition people_integrity_test :: "('m, 'root, 'inter, 'c, 'proof, 'sig, 'x, 'r) people_config \<Rightarrow> bool" where
  "people_integrity_test cfg = (pc_StaleAliasCleanupInterval cfg \<noteq> 0)"

definition account_setup_time_tolerance :: nat where
  "account_setup_time_tolerance = 600"

definition setup_in_time :: "nat \<Rightarrow> nat \<Rightarrow> bool" where
  "setup_in_time block call_valid_at \<longleftrightarrow>
     call_valid_at \<le> block \<and> block \<le> sat_add u32_max call_valid_at account_setup_time_tolerance"

subsection \<open>Identities\<close>

text \<open>\<open>saturating_inc\<close> of a \<open>u64\<close>.\<close>

definition reserve_new_id ::
  "('m, 'root, 'inter, 'r) people_state \<Rightarrow> nat \<times> ('m, 'root, 'inter, 'r) people_state" where
  "reserve_new_id s =
     (let new_id = NextPersonalId s
      in (new_id, s\<lparr>NextPersonalId := sat_add u64_max new_id 1,
                  ReservedPersonalId := sput new_id () (ReservedPersonalId s)\<rparr>))"

definition cancel_id_reservation ::
  "nat \<Rightarrow> ('m, 'root, 'inter, 'r) people_state \<Rightarrow> PeopleError dispatch_error + ('m, 'root, 'inter, 'r) people_state" where
  "cancel_id_reservation personal_id s =
     ok_or (sget (ReservedPersonalId s) personal_id) (Module PersonalIdNotReserved) (\<lambda>_.
     Inr (s\<lparr>ReservedPersonalId := sdel personal_id (ReservedPersonalId s)\<rparr>))"

definition renew_id_reservation ::
  "nat \<Rightarrow> ('m, 'root, 'inter, 'r) people_state \<Rightarrow> PeopleError dispatch_error + ('m, 'root, 'inter, 'r) people_state" where
  "renew_id_reservation personal_id s =
     (if NextPersonalId s \<le> personal_id \<or> scontains (People s) personal_id \<or> scontains (ReservedPersonalId s) personal_id
      then Inl (Module PersonalIdReservationCannotRenew)
      else Inr (s\<lparr>ReservedPersonalId := sput personal_id () (ReservedPersonalId s)\<rparr>))"

text \<open>An error of the members pallet is handed on.\<close>

definition of_members :: "MembersError + 'a \<Rightarrow> PeopleError dispatch_error + 'a" where
  "of_members r = map_err (\<lambda>_. External ''Members'') r"

definition recognize_personhood ::
  "('m, 'root, 'inter, 'c, 'proof, 'sig, 'x, 'r) people_config \<Rightarrow> people_env \<Rightarrow> nat \<Rightarrow> 'm option \<Rightarrow>
   ('m, 'root, 'inter, 'r) people_state \<Rightarrow> PeopleError dispatch_error + ('m, 'root, 'inter, 'r) people_state" where
  "recognize_personhood cfg env who maybe_key s =
     (case maybe_key of
        Some key \<Rightarrow>
          ensure (\<not> scontains (Keys s) key) (Module Ppl_KeyAlreadyInUse) (
          ensure (scontains (ReservedPersonalId s) who) (Module PersonalIdNotReservedOrNotRecognized) (
          on_ok (of_members (add_members (pc_members cfg) (ppl_now env) PEOPLE_IDENTIFIER [key] (ppl_members s))) (\<lambda>ms.
            Inr (ppl_deposit (PersonhoodRecognized who key)
              (s\<lparr>ppl_members := ms, ReservedPersonalId := sdel who (ReservedPersonalId s),
                Keys := sput key who (Keys s), People := sput who \<lparr>pr_key = key, pr_account = None\<rparr> (People s)\<rparr>)))))
      | None \<Rightarrow>
          ok_or (sget (People s) who) (Module NotPerson) (\<lambda>person.
          ensure (sget (Keys s) (pr_key person) = Some who) (Module NoKey) (
          on_ok (of_members (add_members (pc_members cfg) (ppl_now env) PEOPLE_IDENTIFIER [pr_key person] (ppl_members s))) (\<lambda>ms.
            Inr (ppl_deposit (PersonOnboarding who (pr_key person)) (s\<lparr>ppl_members := ms\<rparr>))))))"

fun suspend_persons ::
  "nat list \<Rightarrow> 'm list \<Rightarrow> ('m, 'root, 'inter, 'r) people_state \<Rightarrow>
   PeopleError dispatch_error + ('m list \<times> ('m, 'root, 'inter, 'r) people_state)" where
  "suspend_persons [] keys s = Inr (keys, s)"
| "suspend_persons (personal_id # ids) keys s =
     ok_or (sget (People s) personal_id) (Module NotPerson) (\<lambda>person.
       let s1 = (case pr_account person of
                   Some account \<Rightarrow> s\<lparr>AccountToPersonalId := sdel account (AccountToPersonalId s)\<rparr>
                 | None \<Rightarrow> s)
       in suspend_persons ids (keys @ [pr_key person])
            (s1\<lparr>People := sput personal_id (person\<lparr>pr_account := None\<rparr>) (People s1)\<rparr>))"

definition suspend_personhood ::
  "('m, 'root, 'inter, 'c, 'proof, 'sig, 'x, 'r) people_config \<Rightarrow> nat list \<Rightarrow>
   ('m, 'root, 'inter, 'r) people_state \<Rightarrow> PeopleError dispatch_error + ('m, 'root, 'inter, 'r) people_state" where
  "suspend_personhood cfg suspensions s =
     on_ok (suspend_persons suspensions [] s) (\<lambda>(keys, s1).
     on_ok (of_members (remove_members (pc_members cfg) PEOPLE_IDENTIFIER keys (ppl_members s1))) (\<lambda>ms.
     Inr (s1\<lparr>ppl_members := ms\<rparr>)))"

definition can_start_people_set_mutation_session :: "('m, 'root, 'inter, 'r) people_state \<Rightarrow> bool" where
  "can_start_people_set_mutation_session s =
     is_ok (start_mutation_session (rings_state_of (ppl_members s) PEOPLE_IDENTIFIER))"

definition start_people_set_mutation_session ::
  "('m, 'root, 'inter, 'r) people_state \<Rightarrow> PeopleError dispatch_error + ('m, 'root, 'inter, 'r) people_state" where
  "start_people_set_mutation_session s =
     on_ok (of_members (start_removal_session PEOPLE_IDENTIFIER (ppl_members s))) (\<lambda>ms. Inr (s\<lparr>ppl_members := ms\<rparr>))"

definition end_people_set_mutation_session ::
  "('m, 'root, 'inter, 'r) people_state \<Rightarrow> PeopleError dispatch_error + ('m, 'root, 'inter, 'r) people_state" where
  "end_people_set_mutation_session s =
     on_ok (of_members (end_removal_session PEOPLE_IDENTIFIER (ppl_members s))) (\<lambda>ms. Inr (s\<lparr>ppl_members := ms\<rparr>))"

subsection \<open>Origins\<close>

definition ensure_personal_identity :: "people_origin \<Rightarrow> nat option" where
  "ensure_personal_identity origin = (case origin of PersonalIdentity m \<Rightarrow> Some m | _ \<Rightarrow> None)"

definition ensure_personal_alias :: "people_origin \<Rightarrow> ContextualAlias option" where
  "ensure_personal_alias origin = (case origin of PersonalAlias rev_ca \<Rightarrow> Some (rca_ca rev_ca) | _ \<Rightarrow> None)"

definition ensure_revised_personal_alias :: "people_origin \<Rightarrow> RevisedContextualAlias option" where
  "ensure_revised_personal_alias origin = (case origin of PersonalAlias rev_ca \<Rightarrow> Some rev_ca | _ \<Rightarrow> None)"

text \<open>The guards hand the origin back when they refuse it.\<close>

definition EnsurePersonalIdentity :: "people_origin \<Rightarrow> people_origin + nat" where
  "EnsurePersonalIdentity origin = ok_or (ensure_personal_identity origin) origin Inr"

definition EnsurePersonalAlias :: "people_origin \<Rightarrow> people_origin + ContextualAlias" where
  "EnsurePersonalAlias origin = ok_or (ensure_personal_alias origin) origin Inr"

definition EnsurePersonalAliasInContext :: "people_origin \<Rightarrow> bytes \<Rightarrow> people_origin + bytes" where
  "EnsurePersonalAliasInContext origin arg =
     ok_or (ensure_personal_alias origin) origin (\<lambda>ca. ensure (ca_context ca = arg) origin (Inr (ca_alias ca)))"

definition EnsurePersonalAliasInContextWithCollection :: "people_origin \<Rightarrow> bytes \<Rightarrow> people_origin + (bytes \<times> coll_id)" where
  "EnsurePersonalAliasInContextWithCollection origin arg =
     ok_or (ensure_personal_alias origin) origin (\<lambda>ca.
       ensure (ca_context ca = arg) origin (Inr (ca_alias ca, PEOPLE_IDENTIFIER)))"

definition EnsureRevisedPersonalAlias :: "people_origin \<Rightarrow> people_origin + RevisedContextualAlias" where
  "EnsureRevisedPersonalAlias origin = ok_or (ensure_revised_personal_alias origin) origin Inr"

record RevisedAlias =
  ra_revision :: nat
  ra_ring :: nat
  ra_alias :: bytes

definition EnsureRevisedPersonalAliasInContext :: "people_origin \<Rightarrow> bytes \<Rightarrow> people_origin + RevisedAlias" where
  "EnsureRevisedPersonalAliasInContext origin arg =
     ok_or (ensure_revised_personal_alias origin) origin (\<lambda>ca.
       ensure (ca_context (rca_ca ca) = arg) origin
         (Inr \<lparr>ra_revision = rca_revision ca, ra_ring = rca_ring ca, ra_alias = ca_alias (rca_ca ca)\<rparr>))"

definition people_active_count :: "('m, 'root, 'inter, 'r) people_state \<Rightarrow> nat" where
  "people_active_count s = active_count (ppl_members s) PEOPLE_IDENTIFIER"

subsection \<open>Calls\<close>

text \<open>
  The checks of \<open>under_alias\<close>: the origin it dispatches its call from, and the state with the event.
\<close>

definition under_alias ::
  "people_env \<Rightarrow> people_origin \<Rightarrow> ('m, 'root, 'inter, 'r) people_state \<Rightarrow>
   PeopleError dispatch_error + (people_origin \<times> ('m, 'root, 'inter, 'r) people_state)" where
  "under_alias env origin s =
     (case origin of
        PplSigned account \<Rightarrow>
          ok_or (sget (ppl_AccountToAlias s) account) (Module Ppl_InvalidAccount) (\<lambda>rev_ca.
          ensure (AccountContexts env (ca_context (rca_ca rev_ca))) (Module InvalidContext) (
          ok_or (ring_revision PEOPLE_IDENTIFIER (rca_ring rev_ca) (ppl_members s)) (Module Ppl_InvalidAccount) (\<lambda>latest.
          ensure (rca_revision rev_ca = latest) BadOrigin (
          Inr (PersonalAlias rev_ca, ppl_deposit (AliasDispatched (rca_ca rev_ca) account) s)))))
      | _ \<Rightarrow> Inl BadOrigin)"

definition ppl_swap_account ::
  "account_id option \<Rightarrow> account_id \<Rightarrow> ('m, 'root, 'inter, 'r) people_state \<Rightarrow> ('m, 'root, 'inter, 'r) people_state" where
  "ppl_swap_account old_account account s =
     (let s1 = (case old_account of
                  Some old \<Rightarrow> (ppl_ref (DecSufficients old) s)\<lparr>ppl_AccountToAlias := sdel old (ppl_AccountToAlias s)\<rparr>
                | None \<Rightarrow> s)
      in ppl_ref (IncSufficients account) s1)"

definition ppl_set_alias_account ::
  "people_env \<Rightarrow> people_origin \<Rightarrow> account_id \<Rightarrow> nat \<Rightarrow> ('m, 'root, 'inter, 'r) people_state \<Rightarrow>
   PeopleError dispatch_error + (pays \<times> ('m, 'root, 'inter, 'r) people_state)" where
  "ppl_set_alias_account env origin account call_valid_at s =
     ok_or (ensure_revised_personal_alias origin) BadOrigin (\<lambda>rev_ca.
     ensure (setup_in_time (ppl_block env) call_valid_at) (Module Ppl_TimeOutOfRange) (
     ensure (AccountContexts env (ca_context (rca_ca rev_ca))) (Module InvalidContext) (
     ensure (\<not> scontains (AccountToPersonalId s) account) (Module Ppl_AccountInUse) (
       let old_account = sget (ppl_AliasToAccount s) (rca_ca rev_ca);
           old_rev_ca = Option.bind old_account (sget (ppl_AccountToAlias s));
           needs_revision = (case old_rev_ca of
               None \<Rightarrow> False
             | Some old \<Rightarrow> rca_revision old \<noteq> rca_revision rev_ca \<or> rca_ring old \<noteq> rca_ring rev_ca)
       in ensure (old_account \<noteq> Some account \<or> needs_revision) (Module Ppl_AliasAccountAlreadySet) (
          ensure (old_account = Some account \<or> \<not> scontains (ppl_AccountToAlias s) account) (Module Ppl_AccountInUse) (
            let s1 = (if old_account \<noteq> Some account then ppl_swap_account old_account account s else s);
                s2 = s1\<lparr>ppl_AccountToAlias := sput account rev_ca (ppl_AccountToAlias s1),
                       ppl_AliasToAccount := sput (rca_ca rev_ca) account (ppl_AliasToAccount s1)\<rparr>
            in Inr (if old_account = None \<or> needs_revision then PaysNo else PaysYes,
                    ppl_deposit (PplAliasAccountSet (rca_ca rev_ca) account) s2)))))))"

definition unbind_alias ::
  "ContextualAlias \<Rightarrow> account_id \<Rightarrow> ('m, 'root, 'inter, 'r) people_state \<Rightarrow> ('m, 'root, 'inter, 'r) people_state" where
  "unbind_alias ca account s =
     ppl_ref (DecSufficients account)
       (s\<lparr>ppl_AliasToAccount := sdel ca (ppl_AliasToAccount s),
          ppl_AccountToAlias := sdel account (ppl_AccountToAlias s)\<rparr>)"

definition ppl_unset_alias_account ::
  "people_origin \<Rightarrow> ('m, 'root, 'inter, 'r) people_state \<Rightarrow>
   PeopleError dispatch_error + (pays \<times> ('m, 'root, 'inter, 'r) people_state)" where
  "ppl_unset_alias_account origin s =
     ok_or (ensure_personal_alias origin) BadOrigin (\<lambda>ca.
     ok_or (sget (ppl_AliasToAccount s) ca) (Module Ppl_InvalidAccount) (\<lambda>account.
     Inr (PaysYes, ppl_deposit (PplAliasAccountUnset ca account) (unbind_alias ca account s))))"

fun force_recognize_loop ::
  "('m, 'root, 'inter, 'c, 'proof, 'sig, 'x, 'r) people_config \<Rightarrow> people_env \<Rightarrow> 'm list \<Rightarrow>
   ('m, 'root, 'inter, 'r) people_state \<Rightarrow> PeopleError dispatch_error + ('m, 'root, 'inter, 'r) people_state" where
  "force_recognize_loop cfg env [] s = Inr s"
| "force_recognize_loop cfg env (key # keys) s =
     (let (personal_id, s1) = reserve_new_id s
      in on_ok (recognize_personhood cfg env personal_id (Some key) s1) (force_recognize_loop cfg env keys))"

definition force_recognize_personhood ::
  "('m, 'root, 'inter, 'c, 'proof, 'sig, 'x, 'r) people_config \<Rightarrow> people_env \<Rightarrow> people_origin \<Rightarrow> 'm list \<Rightarrow>
   ('m, 'root, 'inter, 'r) people_state \<Rightarrow> PeopleError dispatch_error + (pays \<times> ('m, 'root, 'inter, 'r) people_state)" where
  "force_recognize_personhood cfg env origin people s =
     ensure (origin = PplManager) BadOrigin (
     on_ok (force_recognize_loop cfg env people s) (\<lambda>s1.
     Inr (PaysYes, ppl_deposit (ForcePersonhoodRecognized people) s1)))"

definition set_personal_id_account ::
  "people_env \<Rightarrow> people_origin \<Rightarrow> account_id \<Rightarrow> nat \<Rightarrow> ('m, 'root, 'inter, 'r) people_state \<Rightarrow>
   PeopleError dispatch_error + (pays \<times> ('m, 'root, 'inter, 'r) people_state)" where
  "set_personal_id_account env origin account call_valid_at s =
     ok_or (ensure_personal_identity origin) BadOrigin (\<lambda>who.
     ensure (setup_in_time (ppl_block env) call_valid_at) (Module Ppl_TimeOutOfRange) (
     ensure (\<not> scontains (AccountToPersonalId s) account) (Module Ppl_AccountInUse) (
     ensure (\<not> scontains (ppl_AccountToAlias s) account) (Module Ppl_AccountInUse) (
     ok_or (sget (People s) who) (Module NotPerson) (\<lambda>person.
       let (s1, pays) =
             (case pr_account person of
                Some old \<Rightarrow> ((ppl_ref (DecSufficients old) s)\<lparr>AccountToPersonalId := sdel old (AccountToPersonalId s)\<rparr>, PaysYes)
              | None \<Rightarrow> (s, PaysNo));
           s2 = ppl_ref (IncSufficients account) s1;
           s3 = s2\<lparr>AccountToPersonalId := sput account who (AccountToPersonalId s2),
                  People := sput who (person\<lparr>pr_account := Some account\<rparr>) (People s2)\<rparr>
       in Inr (pays, ppl_deposit (PersonalIdAccountSet who account) s3))))))"

definition unset_personal_id_account ::
  "people_origin \<Rightarrow> ('m, 'root, 'inter, 'r) people_state \<Rightarrow>
   PeopleError dispatch_error + (pays \<times> ('m, 'root, 'inter, 'r) people_state)" where
  "unset_personal_id_account origin s =
     ok_or (ensure_personal_identity origin) BadOrigin (\<lambda>who.
     ok_or (sget (People s) who) (Module NotPerson) (\<lambda>person.
     ok_or (pr_account person) (Module Ppl_InvalidAccount) (\<lambda>account.
     ensure (scontains (AccountToPersonalId s) account) (Module Ppl_InvalidAccount) (
       let s1 = ppl_ref (DecSufficients account) (s\<lparr>AccountToPersonalId := sdel account (AccountToPersonalId s)\<rparr>);
           s2 = s1\<lparr>People := sput who (person\<lparr>pr_account := None\<rparr>) (People s1)\<rparr>
       in Inr (PaysYes, ppl_deposit (PersonalIdAccountUnset who account) s2)))))"

definition create_people_collection ::
  "('m, 'root, 'inter, 'c, 'proof, 'sig, 'x, 'r) people_config \<Rightarrow> people_origin \<Rightarrow>
   ('m, 'root, 'inter, 'r) people_state \<Rightarrow> PeopleError dispatch_error + (pays \<times> ('m, 'root, 'inter, 'r) people_state)" where
  "create_people_collection cfg origin s =
     ensure (origin = PplAuthorized) BadOrigin (
     on_ok (of_members (create_collection (pc_members cfg) (pc_CollectionOwner cfg) PEOPLE_IDENTIFIER PEOPLE_ONBOARDING_SIZE
              FlexibleRings (pc_RingExponent cfg) (Some (pc_SelfInclusionDelay cfg)) (ppl_members s))) (\<lambda>ms.
     Inr (PaysYes, ppl_deposit PplCollectionCreated (s\<lparr>ppl_members := ms, PeopleCollectionCreated := True\<rparr>))))"

text \<open>One alias of the bulk cleanup; the result says whether it was cleaned up.\<close>

definition clean_up_one ::
  "ContextualAlias \<Rightarrow> ('m, 'root, 'inter, 'r) people_state \<Rightarrow> ('m, 'root, 'inter, 'r) people_state option" where
  "clean_up_one ca s =
     (case sget (ppl_AliasToAccount s) ca of
        None \<Rightarrow> None
      | Some account \<Rightarrow>
          (case sget (ppl_AccountToAlias s) account of
             None \<Rightarrow> None
           | Some rev_ca \<Rightarrow>
               if rca_ca rev_ca \<noteq> ca then None
               else Some (ppl_deposit (AliasCleanedUp ca account) (unbind_alias ca account s))))"

fun clean_up_bulk ::
  "ContextualAlias list \<Rightarrow> nat \<Rightarrow> ('m, 'root, 'inter, 'r) people_state \<Rightarrow> nat \<times> ('m, 'root, 'inter, 'r) people_state" where
  "clean_up_bulk [] cleaned s = (cleaned, s)"
| "clean_up_bulk (ca # aliases) cleaned s =
     (case clean_up_one ca s of
        None \<Rightarrow> clean_up_bulk aliases cleaned s
      | Some s1 \<Rightarrow> clean_up_bulk aliases (cleaned + 1) s1)"

definition clean_up_stale_aliases ::
  "people_origin \<Rightarrow> ContextualAlias list \<Rightarrow> ('m, 'root, 'inter, 'r) people_state \<Rightarrow>
   PeopleError dispatch_error + (pays \<times> ('m, 'root, 'inter, 'r) people_state)" where
  "clean_up_stale_aliases origin aliases s =
     ensure (origin = PplAuthorized) BadOrigin (
       let (cleaned, s1) = clean_up_bulk aliases 0 s
       in ensure (cleaned > 0) (Module NoStaleAliases) (Inr (PaysYes, s1)))"

text \<open>\<open>CleanUpAlias\<close>, for other pallets.\<close>

definition clean_up_alias ::
  "ContextualAlias \<Rightarrow> ('m, 'root, 'inter, 'r) people_state \<Rightarrow>
   PeopleError dispatch_error + ('m, 'root, 'inter, 'r) people_state" where
  "clean_up_alias ca s =
     ok_or (sget (ppl_AliasToAccount s) ca) (Module Ppl_InvalidAccount) (\<lambda>account.
     ok_or (sget (ppl_AccountToAlias s) account) (Module Ppl_InvalidAccount) (\<lambda>rev_ca.
     ensure (rca_ca rev_ca = ca) (Module Ppl_AliasMismatch) (
     Inr (ppl_deposit (AliasCleanedUp ca account) (unbind_alias ca account s)))))"

datatype ('m, 'x) people_call =
    UnderAlias "('m, 'x) people_call"
  | Ppl_SetAliasAccount account_id nat
  | Ppl_UnsetAliasAccount
  | ForceRecognizePersonhood "'m list"
  | SetPersonalIdAccount account_id nat
  | UnsetPersonalIdAccount
  | CreatePeopleCollection
  | CleanUpStaleAliases "ContextualAlias list"
  | OtherPalletCall 'x

fun people_dispatch ::
  "('m, 'root, 'inter, 'c, 'proof, 'sig, 'x, 'r) people_config \<Rightarrow> people_env \<Rightarrow> people_origin \<Rightarrow> ('m, 'x) people_call \<Rightarrow>
   ('m, 'root, 'inter, 'r) people_state \<Rightarrow> PeopleError dispatch_error + (pays \<times> ('m, 'root, 'inter, 'r) people_state)" where
  "people_dispatch cfg env origin (UnderAlias call) s =
     on_ok (under_alias env origin s) (\<lambda>(local_origin, s1). people_dispatch cfg env local_origin call s1)"
| "people_dispatch cfg env origin (Ppl_SetAliasAccount account at) s = ppl_set_alias_account env origin account at s"
| "people_dispatch cfg env origin Ppl_UnsetAliasAccount s = ppl_unset_alias_account origin s"
| "people_dispatch cfg env origin (ForceRecognizePersonhood keys) s = force_recognize_personhood cfg env origin keys s"
| "people_dispatch cfg env origin (SetPersonalIdAccount account at) s = set_personal_id_account env origin account at s"
| "people_dispatch cfg env origin UnsetPersonalIdAccount s = unset_personal_id_account origin s"
| "people_dispatch cfg env origin CreatePeopleCollection s = create_people_collection cfg origin s"
| "people_dispatch cfg env origin (CleanUpStaleAliases aliases) s = clean_up_stale_aliases origin aliases s"
| "people_dispatch cfg env origin (OtherPalletCall x) s =
     on_ok (map_err External (pc_other_call cfg origin x (ppl_rest s))) (\<lambda>(p, r). Inr (p, s\<lparr>ppl_rest := r\<rparr>))"

end
