(* ===== verification/People_Ext.thy ===== *)
theory People_Ext
  imports People_Multi
begin

text \<open>
  How transactions reach the pallet of the people: the extension \<open>AsPerson\<close>, which turns the origin of a transaction
  into a personal alias or a personal identity, the authorisation of the calls without a signer, the worker
  that cleans up stale aliases, and one step of the pallet on its chain, with the calls that other pallets make.
\<close>

subsection \<open>The extension\<close>

datatype PeopleInvalidity = EmptyAliases | Custom_InvalidAccount | Custom_AliasMismatch | Custom_AliasNotStale

datatype people_invalid =
    Ppl_BadSigner | Ppl_CallInvalid | Ppl_Future | Ppl_Stale | Ppl_BadProof | Ppl_NonceInvalid
  | CustomInvalid PeopleInvalidity

datatype ('proof, 'sig) AsPersonInfo =
    AsPersonalAliasWithAccount nat
  | AsPersonalAliasWithProof 'proof nat bytes
  | AsPersonalIdentityWithProof 'sig nat
  | AsPersonalIdentityWithAccount nat
  | AsPersonalAliasWithAccountRevised nat 'proof nat bytes

datatype people_val =
    Ppl_NotUsing
  | UsingProof
  | Ppl_UsingAccount account_id nat
  | UsingAccountWithRevisionUpdate account_id nat RevisedContextualAlias

text \<open>
  The encoding of the tuple that a revision signs: the implication, the string with its compact length, the
  account and the nonce, a \<open>u32\<close>.
\<close>

definition revise_preimage :: "bytes \<Rightarrow> account_id \<Rightarrow> nat \<Rightarrow> bytes" where
  "revise_preimage implication who nonce =
     implication @ [24] @ map (of_nat \<circ> of_char) ''revise'' @ who @ le_bytes 4 nonce"

definition setup_time_check :: "people_env \<Rightarrow> nat \<Rightarrow> people_invalid + 'a \<Rightarrow> people_invalid + 'a" where
  "setup_time_check env call_valid_at k =
     ensure (call_valid_at \<le> ppl_block env) Ppl_Future (
     ensure (ppl_block env \<le> sat_add u32_max call_valid_at account_setup_time_tolerance) Ppl_Stale k)"

text \<open>The five ways to use the extension; the tags that order the transaction pool are left out.\<close>

definition validate_alias_with_account ::
  "('m, 'root, 'inter, 'c, 'proof, 'sig, 'x, 'r) people_config \<Rightarrow> people_env \<Rightarrow> nat \<Rightarrow> people_origin \<Rightarrow>
   ('m, 'root, 'inter, 'r) people_state \<Rightarrow> people_invalid + (people_val \<times> people_origin)" where
  "validate_alias_with_account cfg env nonce origin s =
     (case origin of
        PplSigned who \<Rightarrow>
          ok_or (sget (ppl_AccountToAlias s) who) Ppl_BadSigner (\<lambda>rev_ca.
          ensure (AccountContexts env (ca_context (rca_ca rev_ca))) Ppl_BadSigner (
          ok_or (ring_revision PEOPLE_IDENTIFIER (rca_ring rev_ca) (ppl_members s)) Ppl_BadSigner (\<lambda>latest.
          ensure (latest = rca_revision rev_ca) Ppl_BadSigner (
          ensure (pc_check_nonce cfg who nonce (ppl_rest s)) Ppl_NonceInvalid (
          Inr (Ppl_UsingAccount who nonce, PersonalAlias rev_ca))))))
      | _ \<Rightarrow> Inl Ppl_BadSigner)"

definition validate_alias_revised ::
  "('m, 'root, 'inter, 'c, 'proof, 'sig, 'x, 'r) people_config \<Rightarrow> people_env \<Rightarrow> bytes \<Rightarrow> nat \<Rightarrow> 'proof \<Rightarrow> nat \<Rightarrow> bytes \<Rightarrow>
   people_origin \<Rightarrow> ('m, 'root, 'inter, 'r) people_state \<Rightarrow> people_invalid + (people_val \<times> people_origin)" where
  "validate_alias_revised cfg env implication nonce proof ring context origin s =
     (case origin of
        PplSigned who \<Rightarrow>
          ok_or (sget (ppl_AccountToAlias s) who) Ppl_BadSigner (\<lambda>old_rev_ca.
          on_ok (map_err (\<lambda>_. Ppl_BadProof) (verify_membership (pc_members cfg) (pc_prover cfg) PEOPLE_IDENTIFIER proof ring
                   context (pc_blake2 cfg (revise_preimage implication who nonce)) (ppl_members s))) (\<lambda>rev_ca.
          ensure (ca_alias (rca_ca rev_ca) = ca_alias (rca_ca old_rev_ca)) Ppl_BadSigner (
          ensure (context = ca_context (rca_ca old_rev_ca)) Ppl_BadSigner (
          ensure (AccountContexts env context) Ppl_BadSigner (
          ensure (pc_check_nonce cfg who nonce (ppl_rest s)) Ppl_NonceInvalid (
          Inr (UsingAccountWithRevisionUpdate who nonce rev_ca, PersonalAlias rev_ca)))))))
      | _ \<Rightarrow> Inl Ppl_BadSigner)"

definition validate_identity_with_account ::
  "('m, 'root, 'inter, 'c, 'proof, 'sig, 'x, 'r) people_config \<Rightarrow> nat \<Rightarrow> people_origin \<Rightarrow>
   ('m, 'root, 'inter, 'r) people_state \<Rightarrow> people_invalid + (people_val \<times> people_origin)" where
  "validate_identity_with_account cfg nonce origin s =
     (case origin of
        PplSigned who \<Rightarrow>
          ok_or (sget (AccountToPersonalId s) who) Ppl_BadSigner (\<lambda>m.
          ensure (pc_check_nonce cfg who nonce (ppl_rest s)) Ppl_NonceInvalid (
          Inr (Ppl_UsingAccount who nonce, PersonalIdentity m)))
      | _ \<Rightarrow> Inl Ppl_BadSigner)"

definition validate_alias_with_proof ::
  "('m, 'root, 'inter, 'c, 'proof, 'sig, 'x, 'r) people_config \<Rightarrow> people_env \<Rightarrow> bytes \<Rightarrow> 'proof \<Rightarrow> nat \<Rightarrow> bytes \<Rightarrow>
   people_origin \<Rightarrow> ('m, 'x) people_call \<Rightarrow> ('m, 'root, 'inter, 'r) people_state \<Rightarrow>
   people_invalid + (people_val \<times> people_origin)" where
  "validate_alias_with_proof cfg env implication proof ring context origin call s =
     ensure (origin = PplNone) Ppl_BadSigner (
     case call of
       Ppl_SetAliasAccount account call_valid_at \<Rightarrow>
         ensure (AccountContexts env context) Ppl_CallInvalid (
         setup_time_check env call_valid_at (
         on_ok (map_err (\<lambda>_. Ppl_BadProof) (verify_membership (pc_members cfg) (pc_prover cfg) PEOPLE_IDENTIFIER proof ring
                  context (pc_blake2 cfg implication) (ppl_members s))) (\<lambda>rev_ca.
         ensure (sget (ppl_AccountToAlias s) account \<noteq> Some rev_ca) Ppl_Stale (
         Inr (UsingProof, PersonalAlias rev_ca)))))
     | _ \<Rightarrow> Inl Ppl_CallInvalid)"

definition validate_identity_with_proof ::
  "('m, 'root, 'inter, 'c, 'proof, 'sig, 'x, 'r) people_config \<Rightarrow> people_env \<Rightarrow> bytes \<Rightarrow> 'sig \<Rightarrow> nat \<Rightarrow>
   people_origin \<Rightarrow> ('m, 'x) people_call \<Rightarrow> ('m, 'root, 'inter, 'r) people_state \<Rightarrow>
   people_invalid + (people_val \<times> people_origin)" where
  "validate_identity_with_proof cfg env implication signature who origin call s =
     ensure (origin = PplNone) Ppl_BadSigner (
     case call of
       SetPersonalIdAccount account call_valid_at \<Rightarrow>
         setup_time_check env call_valid_at (
         ok_or (sget (People s) who) Ppl_BadSigner (\<lambda>person.
         ensure (pc_verify_signature cfg signature (pc_blake2 cfg implication) (pr_key person)) Ppl_BadProof (
         ensure (pr_account person \<noteq> Some account) Ppl_Stale (
         Inr (UsingProof, PersonalIdentity who)))))
     | _ \<Rightarrow> Inl Ppl_CallInvalid)"

fun as_person_validate ::
  "('m, 'root, 'inter, 'c, 'proof, 'sig, 'x, 'r) people_config \<Rightarrow> people_env \<Rightarrow> bytes \<Rightarrow> ('proof, 'sig) AsPersonInfo option \<Rightarrow>
   people_origin \<Rightarrow> ('m, 'x) people_call \<Rightarrow> ('m, 'root, 'inter, 'r) people_state \<Rightarrow>
   people_invalid + (people_val \<times> people_origin)" where
  "as_person_validate cfg env imp None origin call s = Inr (Ppl_NotUsing, origin)"
| "as_person_validate cfg env imp (Some (AsPersonalAliasWithAccount nonce)) origin call s =
     validate_alias_with_account cfg env nonce origin s"
| "as_person_validate cfg env imp (Some (AsPersonalAliasWithAccountRevised nonce pf ring ctx)) origin call s =
     validate_alias_revised cfg env imp nonce pf ring ctx origin s"
| "as_person_validate cfg env imp (Some (AsPersonalIdentityWithAccount nonce)) origin call s =
     validate_identity_with_account cfg nonce origin s"
| "as_person_validate cfg env imp (Some (AsPersonalAliasWithProof pf ring ctx)) origin call s =
     validate_alias_with_proof cfg env imp pf ring ctx origin call s"
| "as_person_validate cfg env imp (Some (AsPersonalIdentityWithProof sig who)) origin call s =
     validate_identity_with_proof cfg env imp sig who origin call s"

definition ppl_prepare_nonce ::
  "('m, 'root, 'inter, 'c, 'proof, 'sig, 'x, 'r) people_config \<Rightarrow> account_id \<Rightarrow> nat \<Rightarrow>
   ('m, 'root, 'inter, 'r) people_state \<Rightarrow> people_invalid + ('m, 'root, 'inter, 'r) people_state" where
  "ppl_prepare_nonce cfg who nonce s =
     ok_or (pc_prepare_nonce cfg who nonce (ppl_rest s)) Ppl_NonceInvalid (\<lambda>r. Inr (s\<lparr>ppl_rest := r\<rparr>))"

definition as_person_prepare ::
  "('m, 'root, 'inter, 'c, 'proof, 'sig, 'x, 'r) people_config \<Rightarrow> people_val \<Rightarrow>
   ('m, 'root, 'inter, 'r) people_state \<Rightarrow> people_invalid + ('m, 'root, 'inter, 'r) people_state" where
  "as_person_prepare cfg v s =
     (case v of
        Ppl_UsingAccount who nonce \<Rightarrow> ppl_prepare_nonce cfg who nonce s
      | UsingAccountWithRevisionUpdate who nonce rev_ca \<Rightarrow>
          ppl_prepare_nonce cfg who nonce (s\<lparr>ppl_AccountToAlias := sput who rev_ca (ppl_AccountToAlias s)\<rparr>)
      | _ \<Rightarrow> Inr s)"

subsection \<open>Calls without a signer\<close>

definition ppl_ensure_alias_is_stale ::
  "people_env \<Rightarrow> RevisedContextualAlias \<Rightarrow> ('m, 'root, 'inter, 'r) people_state \<Rightarrow> PeopleError + unit" where
  "ppl_ensure_alias_is_stale env rev_ca s =
     (if \<not> AccountContexts env (ca_context (rca_ca rev_ca)) then Inr ()
      else case ring_revision PEOPLE_IDENTIFIER (rca_ring rev_ca) (ppl_members s) of
             None \<Rightarrow> Inr ()
           | Some _ \<Rightarrow> Inl Ppl_AliasNotStale)"

fun authorize_aliases ::
  "people_env \<Rightarrow> ContextualAlias list \<Rightarrow> ('m, 'root, 'inter, 'r) people_state \<Rightarrow> people_invalid + unit" where
  "authorize_aliases env [] s = Inr ()"
| "authorize_aliases env (ca # aliases) s =
     ok_or (sget (ppl_AliasToAccount s) ca) (CustomInvalid Custom_InvalidAccount) (\<lambda>account.
     ok_or (sget (ppl_AccountToAlias s) account) (CustomInvalid Custom_InvalidAccount) (\<lambda>rev_ca.
     ensure (rca_ca rev_ca = ca) (CustomInvalid Custom_AliasMismatch) (
     on_ok (map_err (\<lambda>_. CustomInvalid Custom_AliasNotStale) (ppl_ensure_alias_is_stale env rev_ca s)) (\<lambda>_.
     authorize_aliases env aliases s))))"

definition authorize_clean_up_stale_aliases ::
  "people_env \<Rightarrow> bool \<Rightarrow> ContextualAlias list \<Rightarrow> ('m, 'root, 'inter, 'r) people_state \<Rightarrow> people_invalid + unit" where
  "authorize_clean_up_stale_aliases env local_or_in_block aliases s =
     ensure local_or_in_block Ppl_BadSigner (
     ensure (aliases \<noteq> []) (CustomInvalid EmptyAliases) (authorize_aliases env aliases s))"

definition authorize_create_people_collection :: "('m, 'root, 'inter, 'r) people_state \<Rightarrow> people_invalid + unit" where
  "authorize_create_people_collection s = ensure (\<not> PeopleCollectionCreated s) Ppl_CallInvalid (Inr ())"

text \<open>Only the two calls with an \<open>authorize\<close> attribute can be made this way.\<close>

fun people_authorize ::
  "people_env \<Rightarrow> bool \<Rightarrow> ('m, 'x) people_call \<Rightarrow> ('m, 'root, 'inter, 'r) people_state \<Rightarrow> people_invalid + unit" where
  "people_authorize env local CreatePeopleCollection s = authorize_create_people_collection s"
| "people_authorize env local (CleanUpStaleAliases aliases) s = authorize_clean_up_stale_aliases env local aliases s"
| "people_authorize env local _ s = Inl Ppl_CallInvalid"

text \<open>The worker reads the aliases in the order of the storage.\<close>

definition people_offchain_worker ::
  "('m, 'root, 'inter, 'c, 'proof, 'sig, 'x, 'r) people_config \<Rightarrow> people_env \<Rightarrow> ('m, 'root, 'inter, 'r) people_state \<Rightarrow>
   ('m, 'x) people_call option" where
  "people_offchain_worker cfg env s =
     (let interval = pc_StaleAliasCleanupInterval cfg
      in if interval = 0 \<or> ppl_block env mod interval \<noteq> 0 then None
         else let stale = take MAX_BULK_CLEANUP (map (\<lambda>(_, rev_ca). rca_ca rev_ca)
                            (filter (\<lambda>(_, rev_ca). \<not> AccountContexts env (ca_context (rca_ca rev_ca))) (ppl_AccountToAlias s)))
              in if stale = [] then None else Some (CleanUpStaleAliases stale))"

subsection \<open>Steps\<close>

text \<open>
  One step on the chain: a transaction with its implication and its signer, a call without a
  signer, a call of governance, a call that another pallet makes through the traits, or a step of the
  members pallet that does not come from here. A bulk cleanup of more than 100 aliases does not decode.
\<close>

datatype ('m, 'c, 'proof, 'sig, 'x) people_op =
    PplTransaction "('proof, 'sig) AsPersonInfo option" "account_id option" bytes "('m, 'x) people_call"
  | PplUnsigned bool "('m, 'x) people_call"
  | PplGovernance "('m, 'x) people_call"
  | ReserveId
  | CancelReservation nat
  | RenewReservation nat
  | RecognizePersonhood nat "'m option"
  | SuspendPersonhood "nat list"
  | StartMutations
  | EndMutations
  | CleanUpAliasOf ContextualAlias
  | OfMembers "'c members_env" "'m members_op"

datatype people_failure = Undecodable | Ppl_Invalid people_invalid | Ppl_Failed "PeopleError dispatch_error"

fun call_decodes :: "('m, 'x) people_call \<Rightarrow> bool" where
  "call_decodes (UnderAlias call) = call_decodes call"
| "call_decodes (CleanUpStaleAliases aliases) = (length aliases \<le> MAX_BULK_CLEANUP)"
| "call_decodes _ = True"

text \<open>A transaction that fails when it is dispatched keeps what the extension prepared.\<close>

definition people_transaction ::
  "('m, 'root, 'inter, 'c, 'proof, 'sig, 'x, 'r) people_config \<Rightarrow> people_env \<Rightarrow> ('proof, 'sig) AsPersonInfo option \<Rightarrow>
   account_id option \<Rightarrow> bytes \<Rightarrow> ('m, 'x) people_call \<Rightarrow> ('m, 'root, 'inter, 'r) people_state \<Rightarrow>
   people_failure + ('m, 'root, 'inter, 'r) people_state" where
  "people_transaction cfg env ext signer imp call s =
     ensure (call_decodes call) Undecodable (
     on_ok (map_err Ppl_Invalid (as_person_validate cfg env imp ext
              (case signer of Some who \<Rightarrow> PplSigned who | None \<Rightarrow> PplNone) call s)) (\<lambda>(v, origin).
     on_ok (map_err Ppl_Invalid (as_person_prepare cfg v s)) (\<lambda>s1.
     Inr (case people_dispatch cfg env origin call s1 of Inl _ \<Rightarrow> s1 | Inr (_, s2) \<Rightarrow> s2))))"

fun people_step ::
  "('m, 'root, 'inter, 'c, 'proof, 'sig, 'x, 'r) people_config \<Rightarrow> people_env \<times> ('m, 'c, 'proof, 'sig, 'x) people_op \<Rightarrow>
   ('m, 'root, 'inter, 'r) people_state \<Rightarrow> people_failure + ('m, 'root, 'inter, 'r) people_state" where
  "people_step cfg (env, PplTransaction ext signer imp call) s = people_transaction cfg env ext signer imp call s"
| "people_step cfg (env, PplUnsigned local call) s =
     ensure (call_decodes call) Undecodable (
     on_ok (map_err Ppl_Invalid (people_authorize env local call s)) (\<lambda>_.
     on_ok (map_err Ppl_Failed (people_dispatch cfg env PplAuthorized call s)) (\<lambda>(_, s1). Inr s1)))"
| "people_step cfg (env, PplGovernance call) s =
     on_ok (map_err Ppl_Failed (people_dispatch cfg env PplManager call s)) (\<lambda>(_, s1). Inr s1)"
| "people_step cfg (env, ReserveId) s = Inr (snd (reserve_new_id s))"
| "people_step cfg (env, CancelReservation who) s = map_err Ppl_Failed (cancel_id_reservation who s)"
| "people_step cfg (env, RenewReservation who) s = map_err Ppl_Failed (renew_id_reservation who s)"
| "people_step cfg (env, RecognizePersonhood who key) s = map_err Ppl_Failed (recognize_personhood cfg env who key s)"
| "people_step cfg (env, SuspendPersonhood ids) s = map_err Ppl_Failed (suspend_personhood cfg ids s)"
| "people_step cfg (env, StartMutations) s = map_err Ppl_Failed (start_people_set_mutation_session s)"
| "people_step cfg (env, EndMutations) s = map_err Ppl_Failed (end_people_set_mutation_session s)"
| "people_step cfg (env, CleanUpAliasOf ca) s = map_err Ppl_Failed (clean_up_alias ca s)"
| "people_step cfg (env, OfMembers menv y) s =
     on_ok (map_err (\<lambda>_. Ppl_Failed (External ''Members'')) (members_step (pc_members cfg) (menv, y) (ppl_members s)))
       (\<lambda>ms. Inr (s\<lparr>ppl_members := ms\<rparr>))"

definition people_genesis :: "'r \<Rightarrow> ('m, 'root, 'inter, 'r) people_state" where
  "people_genesis r = \<lparr>Keys = [], People = [], ppl_AliasToAccount = [], ppl_AccountToAlias = [], AccountToPersonalId = [],
     NextPersonalId = 0, PeopleCollectionCreated = False, ReservedPersonalId = [], ppl_members = members_genesis,
     ppl_refs = [], ppl_events = [], ppl_rest = r\<rparr>"

end
