(* ===== verification/Members_Frame.thy ===== *)
theory Members_Frame
  imports Members_Root
begin

text \<open>
  What the operations of the members pallet leave alone: only \<open>add_members\<close> makes a key known to a
  collection, and only \<open>create_collection\<close> adds or changes the description of one.
\<close>

text \<open>A key a collection knows: it has a record, or it is in a page of a ring.\<close>

definition known :: "('m, 'root, 'inter) members_state \<Rightarrow> coll_id \<Rightarrow> 'm \<Rightarrow> bool" where
  "known s i k \<longleftrightarrow> scontains (Members s) (i, k) \<or> (\<exists>r p. k \<in> set (keys_of s i r p))"

definition no_new :: "('m, 'root, 'inter) members_state \<Rightarrow> ('m, 'root, 'inter) members_state \<Rightarrow> bool" where
  "no_new s s' \<longleftrightarrow> (\<forall>i k. known s' i k \<longrightarrow> known s i k) \<and>
     (\<forall>i info. sget (Collections s') i = Some info \<longrightarrow> sget (Collections s) i = Some info)"

lemma known_page: "k \<in> set (keys_of s i r p) \<Longrightarrow> known s i k"
  by (auto simp: known_def)

lemma known_cong: "Members s' = Members s \<Longrightarrow> RingKeys s' = RingKeys s \<Longrightarrow> known s' = known s"
  by (simp add: known_def keys_of_def fun_eq_iff)

lemma no_new_refl [simp]: "no_new s s"
  by (simp add: no_new_def)

lemma no_new_trans: "no_new s s1 \<Longrightarrow> no_new s1 s2 \<Longrightarrow> no_new s s2"
  by (simp add: no_new_def)

lemma no_new_upd [simp]:
  "no_new s (s'\<lparr>StaleRings := a\<rparr>) = no_new s s'" "no_new s (s'\<lparr>PendingSuspensions := b\<rparr>) = no_new s s'"
  "no_new s (s'\<lparr>RingKeysStatus := c\<rparr>) = no_new s s'" "no_new s (s'\<lparr>ActiveMembers := d\<rparr>) = no_new s s'"
  "no_new s (s'\<lparr>Root := f\<rparr>) = no_new s s'"
  "no_new s (s'\<lparr>OldRoots := g\<rparr>) = no_new s s'" "no_new s (s'\<lparr>OnboardingQueue := h\<rparr>) = no_new s s'"
  "no_new s (s'\<lparr>QueuePageIndices := j\<rparr>) = no_new s s'" "no_new s (s'\<lparr>CurrentRingIndex := k\<rparr>) = no_new s s'"
  "no_new s (s'\<lparr>RingDeletionQueue := l\<rparr>) = no_new s s'" "no_new s (s'\<lparr>members_events := m\<rparr>) = no_new s s'"
  "no_new s (s'\<lparr>RingsState := n\<rparr>) = no_new s s'" "no_new s (s'\<lparr>root_changes := p\<rparr>) = no_new s s'"
  "no_new s (members_deposit ev s') = no_new s s'" "no_new s (on_ring_root_change q r ch s') = no_new s s'"
  "no_new s (s'\<lparr>OnboardingSize := t\<rparr>) = no_new s s'"
  by (simp_all add: no_new_def known_def keys_of_def members_deposit_def on_ring_root_change_def)

text \<open>The record of a member is written where there was one, and pages of rings with known keys.\<close>

lemma no_new_put:
  assumes "scontains (Members s') (i, k)" and "no_new s s'"
  shows "no_new s (s'\<lparr>Members := sput (i, k) v (Members s')\<rparr>)"
proof -
  have "known (s'\<lparr>Members := sput (i, k) v (Members s')\<rparr>) = known s'"
    using assms(1) by (auto simp: known_def keys_of_def fun_eq_iff)
  then show ?thesis using assms(2) by (simp add: no_new_def)
qed

lemma no_new_del: "no_new s s' \<Longrightarrow> no_new s (s'\<lparr>Members := sdel x (Members s')\<rparr>)"
  by (auto simp: no_new_def known_def keys_of_def)

lemma no_new_page:
  assumes "no_new s s'" and "\<And>k. k \<in> set ks \<Longrightarrow> known s i k"
  shows "no_new s (s'\<lparr>RingKeys := sput (i, r, p) ks (RingKeys s')\<rparr>)"
proof -
  have "known s' j k \<or> known s j k" if "known (s'\<lparr>RingKeys := sput (i, r, p) ks (RingKeys s')\<rparr>) j k" for j k
    using that assms(2) by (auto simp: known_def keys_of_def split: if_splits)
  then show ?thesis using assms(1) by (auto simp: no_new_def)
qed

lemma no_new_page_gone: "no_new s s' \<Longrightarrow> no_new s (s'\<lparr>RingKeys := sdel x (RingKeys s')\<rparr>)"
  by (auto simp: no_new_def known_def keys_of_def split: if_splits)

lemma no_new_page_gone2: "no_new s s' \<Longrightarrow> R = RingKeys s' \<Longrightarrow> no_new s (s'\<lparr>RingKeys := sdel x R\<rparr>)"
  by (simp add: no_new_page_gone)

lemma no_new_under [simp]:
  "no_new s (s'\<lparr>RingKeysStatus := a, RingKeys := K\<rparr>) = no_new s (s'\<lparr>RingKeys := K\<rparr>)"
  "no_new s (s'\<lparr>ActiveMembers := b, RingKeys := K\<rparr>) = no_new s (s'\<lparr>RingKeys := K\<rparr>)"
  by (simp_all add: no_new_def known_def keys_of_def)

lemma no_new_known: "no_new s s' \<Longrightarrow> known s' i k \<Longrightarrow> known s i k"
  by (simp add: no_new_def)

lemma no_new_archive [simp]: "no_new s (archive_and_notify now i r s') = no_new s s'"
  by (simp add: archive_and_notify_def archive_root_def split: option.splits)

lemma available_ring_frame:
  "available_ring cfg i n s = (x, s') \<Longrightarrow> Members s' = Members s \<and> Collections s' = Collections s \<and> RingKeys s' = RingKeys s"
  by (auto simp: available_ring_def Let_def split: if_splits)

lemma available_ring_keys: "available_ring cfg i n s = ((r, p, keys, st), s') \<Longrightarrow> keys = keys_of s i r p"
  by (auto simp: available_ring_def Let_def keys_of_def split: if_splits)

lemma suspend_member_no_new:
  assumes "suspend_member cfg i m s = Inr s'"
  shows "no_new s s'"
proof -
  obtain pos where pos: "sget (Members s) (i, m) = Some pos" using assms by (auto simp: suspend_member_def)
  have put: "no_new s (s\<lparr>Members := sput (i, m) v (Members s)\<rparr>)" for v
    using pos by (simp add: scontains_def no_new_put)
  then have "no_new s (s\<lparr>PendingSuspensions := P, Members := sput (i, m) v (Members s)\<rparr>)"
    "no_new s (s\<lparr>OnboardingQueue := Q, Members := sput (i, m) v (Members s)\<rparr>)" for v P Q
    by (simp_all add: no_new_def known_def keys_of_def)
  with put show ?thesis using assms pos by (cases pos) (auto simp: suspend_member_def Let_def split: if_split_asm)
qed

lemma suspend_loop_no_new: "suspend_loop cfg i ms s = Inr s' \<Longrightarrow> no_new s s'"
proof (induction ms arbitrary: s)
  case (Cons m ms)
  then obtain s1 where "suspend_member cfg i m s = Inr s1" "suspend_loop cfg i ms s1 = Inr s'" by auto
  then show ?case using suspend_member_no_new Cons.IH no_new_trans by metis
qed simp

lemma requeue_loop_no_new: "requeue_loop i h ks s = Inr s' \<Longrightarrow> no_new s s'"
proof (induction ks arbitrary: s)
  case (Cons k ks)
  then obtain position where *: "sget (Members s) (i, k) = Some position"
    "requeue_loop i h ks (case position of
        Onboarding _ since \<Rightarrow> s\<lparr>Members := sput (i, k) (Onboarding h since) (Members s)\<rparr> | _ \<Rightarrow> s) = Inr s'"
    by auto
  have "no_new s (case position of
        Onboarding _ since \<Rightarrow> s\<lparr>Members := sput (i, k) (Onboarding h since) (Members s)\<rparr> | _ \<Rightarrow> s)"
    using *(1) by (auto simp: scontains_def no_new_put split: RingPosition.splits)
  then show ?case using Cons.IH [OF *(2)] no_new_trans by blast
qed simp

lemma onboard_loop_no_new:
  "onboard_loop cfg i r p keys ks s = Inr (q, keys', s') \<Longrightarrow> (\<And>x. x \<in> set keys \<Longrightarrow> known s i x) \<Longrightarrow>
   no_new s s' \<and> (\<forall>x \<in> set keys'. known s i x)"
proof (induction ks arbitrary: p keys s)
  case (Cons k ks)
  let ?s1 = "s\<lparr>Members := sput (i, k) (Included r p (length keys)) (Members s)\<rparr>"
  have k: "scontains (Members s) (i, k)"
    and rest: "if length (keys @ [k]) \<ge> flexible_ring_capacity cfg then
          let s2 = ?s1\<lparr>RingKeys := sput (i, r, p) (keys @ [k]) (RingKeys ?s1)\<rparr>; page1 = saturating_inc p
          in onboard_loop cfg i r page1 (keys_of s2 i r page1) ks s2 = Inr (q, keys', s')
        else onboard_loop cfg i r p (keys @ [k]) ks ?s1 = Inr (q, keys', s')"
    using Cons.prems(1) by (auto simp: Let_def try_push_def split: if_splits)
  have keys: "known s i x" if "x \<in> set (keys @ [k])" for x using that Cons.prems(2) k by (auto simp: known_def)
  have one: "no_new s ?s1" using k by (simp add: no_new_put)
  let ?s2 = "?s1\<lparr>RingKeys := sput (i, r, p) (keys @ [k]) (RingKeys ?s1)\<rparr>"
  have two: "no_new s ?s2" by (rule no_new_page [OF one keys])
  show ?case
  proof (cases "length (keys @ [k]) \<ge> flexible_ring_capacity cfg")
    case True
    then have "onboard_loop cfg i r (saturating_inc p) (keys_of ?s2 i r (saturating_inc p)) ks ?s2 = Inr (q, keys', s')"
      using rest by (simp add: Let_def)
    then have "no_new ?s2 s' \<and> (\<forall>x \<in> set keys'. known ?s2 i x)" by (rule Cons.IH) (rule known_page)
    then show ?thesis by (intro conjI ballI no_new_trans [OF two] no_new_known [OF two]) auto
  next
    case False
    then have loop: "onboard_loop cfg i r p (keys @ [k]) ks ?s1 = Inr (q, keys', s')" using rest by simp
    have "known ?s1 i x" if "x \<in> set (keys @ [k])" for x
      using keys [OF that] by (auto simp: known_def keys_of_def)
    from Cons.IH [OF loop this] have "no_new ?s1 s' \<and> (\<forall>x \<in> set keys'. known ?s1 i x)" .
    then show ?thesis by (intro conjI ballI no_new_trans [OF one] no_new_known [OF one]) auto
  qed
qed simp

lemma store_remaining_no_new [simp]: "no_new s (store_remaining cfg i h head t ks s') = no_new s s'"
  by (simp add: store_remaining_def Let_def)

lemma onboard_members_no_new:
  assumes "onboard_members cfg i must s = Inr (b, s')"
  shows "no_new s s'"
proof -
  obtain info where live: "sget (Collections s) i = Some info" using assms by (auto simp: onboard_members_def)
  obtain r p keys st s1 where av: "available_ring cfg i (ring_capacity cfg (ci_ring_size info)) s = ((r, p, keys, st), s1)"
    by (metis surj_pair)
  obtain h t where pages: "queue_pages s1 i = (h, t)" by fastforce
  have same: "known s1 = known s" "Collections s1 = Collections s"
    using available_ring_frame [OF av] known_cong by blast+
  have keys: "known s1 i x" if "x \<in> set keys" for x
    using that unfolding available_ring_keys [OF av] same by (rule known_page)
  have two: "no_new s (s2\<lparr>RingKeys := sput (i, r, q) keys' (RingKeys s2)\<rparr>)"
    if "onboard_loop cfg i r p keys ks s1 = Inr (q, keys', s2)" for ks q keys' s2
    using onboard_loop_no_new [OF that keys] by (intro no_new_page) (auto simp: no_new_def same)
  show ?thesis
    using assms two by (auto simp: onboard_members_def live av pages Let_def split: option.split_asm if_split_asm)
qed

lemma do_self_include_no_new:
  assumes "do_self_include cfg i m s = Inr s'"
  shows "no_new s s'"
proof -
  obtain info pos where live: "sget (Collections s) i = Some info" and pos: "sget (Members s) (i, m) = Some pos"
    using assms unfolding do_self_include_def ok_or_Inr Let_def ensure_Inr by blast
  obtain q since where q: "pos = Onboarding q since"
    using assms live pos by (cases pos) (simp_all add: do_self_include_def)
  obtain h t where pages: "queue_pages s i = (h, t)" by fastforce
  define s1 where "s1 = (if remove1 m (queue_of s i q) = []
      then s\<lparr>OnboardingQueue := sdel (i, q) (OnboardingQueue s),
             QueuePageIndices := sput i (if h = q \<and> h \<noteq> t then next_page q else h, t) (QueuePageIndices s)\<rparr>
      else s\<lparr>OnboardingQueue := sput (i, q) (remove1 m (queue_of s i q)) (OnboardingQueue s)\<rparr>)"
  obtain r p keys st s2 where av: "available_ring cfg i (ring_capacity cfg (ci_ring_size info)) s1 = ((r, p, keys, st), s2)"
    by (metis surj_pair)
  have s2: "Members s2 = Members s" "Collections s2 = Collections s" "RingKeys s2 = RingKeys s"
    using available_ring_frame [OF av] by (simp_all add: s1_def)
  have "keys_of s1 = keys_of s" by (simp add: s1_def keys_of_def fun_eq_iff)
  then have keys: "keys = keys_of s i r p" using available_ring_keys [OF av] by simp
  have "\<exists>v. Members s' = sput (i, m) v (Members s) \<and> Collections s' = Collections s \<and>
      RingKeys s' = sput (i, r, p) (keys @ [m]) (RingKeys s)"
    using assms by (auto simp: do_self_include_def live pos q pages Let_def s1_def [symmetric] av s2 try_push_def split: if_split_asm)
  then obtain v where s': "Members s' = sput (i, m) v (Members s)" "Collections s' = Collections s"
    "RingKeys s' = sput (i, r, p) (keys @ [m]) (RingKeys s)" by blast
  have "known s j k" if "known s' j k" for j k
    using that pos keys by (auto simp: known_def keys_of_def s' s2 scontains_def split: if_splits)
  then show ?thesis by (simp add: no_new_def s')
qed

lemma retain_loop_keys: "retain_loop cfg i r n js ks new s = (b, new', s') \<Longrightarrow> set new' \<subseteq> set new \<union> set ks"
proof (induction ks arbitrary: n js new s)
  case (Cons k ks)
  then obtain js1 new1 s1 where "retain_loop cfg i r (n + 1) js1 ks new1 s1 = (b, new', s') \<or> new' = new"
    and "set new1 \<subseteq> insert k (set new)"
    by (fastforce simp: Let_def try_push_def split: if_split_asm)
  then show ?case using Cons.IH by fastforce
qed simp

lemma retain_loop_no_new: "retain_loop cfg i r n js ks new s = (b, new', s') \<Longrightarrow> no_new s s'"
proof (induction ks arbitrary: n js new s)
  case (Cons k ks)
  show ?case
  proof (cases "js \<noteq> [] \<and> n = hd js")
    case True
    then have loop: "retain_loop cfg i r (n + 1) (tl js) ks new (members_deposit (MemberRemoved k) s) = (b, new', s')"
      using Cons.prems by simp
    have "no_new s (members_deposit (MemberRemoved k) s)" by simp
    from no_new_trans [OF this Cons.IH [OF loop]] show ?thesis .
  next
    case False
    define s1 where "s1 = (case sget (Members s) (i, k) of
        Some (Included q p j) \<Rightarrow>
          if r \<noteq> q then s else s\<lparr>Members := sput (i, k) (Included q p (length new)) (Members s)\<rparr>
      | _ \<Rightarrow> s)"
    have one: "no_new s s1"
      by (auto simp: s1_def scontains_def no_new_put split: option.splits RingPosition.splits)
    have "s' = s1 \<or> (\<exists>new1. retain_loop cfg i r (n + 1) js ks new1 s1 = (b, new', s'))"
      using Cons.prems False unfolding s1_def by (auto simp: Let_def split: option.split_asm)
    then show ?thesis using one Cons.IH no_new_trans by blast
  qed
qed simp

lemma remove_suspended_keys_no_new: "no_new s (remove_suspended_keys cfg now i r s)"
proof -
  obtain b keys s1 where loop: "retain_loop cfg i r 0 (pending_of s i r) (keys_of s i r 0) [] s = (b, keys, s1)"
    by (metis surj_pair)
  have one: "no_new s s1" by (rule retain_loop_no_new [OF loop])
  have "no_new s (s1\<lparr>RingKeys := if keys = [] then sdel (i, r, 0) (RingKeys s1) else sput (i, r, 0) keys (RingKeys s1)\<rparr>)"
    using no_new_page [OF one, of keys] no_new_page_gone [OF one] retain_loop_keys [OF loop] known_page by fastforce
  with one show ?thesis
    by (cases "keys = []") (simp_all add: remove_suspended_keys_def Let_def loop split: option.splits)
qed

lemma merge_loop_no_new: "merge_loop cfg i base B ks s = Inr (B', s') \<Longrightarrow> no_new s s'"
proof (induction ks arbitrary: B s)
  case (Cons k ks)
  then obtain B1 where *: "scontains (Members s) (i, k)"
    "merge_loop cfg i base B1 ks (s\<lparr>Members := sput (i, k) (Included base 0 (length B)) (Members s)\<rparr>) = Inr (B', s')"
    by (auto simp: Let_def)
  have "no_new s (s\<lparr>Members := sput (i, k) (Included base 0 (length B)) (Members s)\<rparr>)" using *(1) by (simp add: no_new_put)
  then show ?case using Cons.IH [OF *(2)] no_new_trans by blast
qed simp

lemma merge_rings_no_new:
  assumes "merge_rings cfg now sg i base target s = Inr (p, s')"
  shows "no_new s s'"
proof -
  obtain B1 s1 where s': "s' = (let s2 = s1\<lparr>RingKeys := sput (i, base, 0) B1 (RingKeys s1), RingKeysStatus := sput (i, base)
            ((status_of s i base)\<lparr>rs_total := sat_add u32_max (rs_total (status_of s i base)) (length (keys_of s i target 0))\<rparr>) (RingKeysStatus s1)\<rparr>;
          s3 = archive_and_notify now i target s2
        in members_deposit (RingsMerged i base target) (s3\<lparr>StaleRings := sdel (i, target) (sput (i, base) () (StaleRings s3)),
             RingKeys := sdel (i, target, 0) (RingKeys s3), RingKeysStatus := sdel (i, target) (RingKeysStatus s3)\<rparr>))"
    and loop: "merge_loop cfg i base (keys_of s i base 0) (keys_of s i target 0) s = Inr (B1, s1)"
    using assms unfolding merge_rings_def Let_def by auto
  have "B1 = keys_of s i base 0 @ keys_of s i target 0" using merge_loop_frame [OF loop] by blast
  then have "no_new s (s1\<lparr>RingKeys := sput (i, base, 0) B1 (RingKeys s1)\<rparr>)"
    by (intro no_new_page merge_loop_no_new [OF loop]) (auto dest: known_page)
  then show ?thesis unfolding s' Let_def by (simp only: no_new_upd) (rule no_new_page_gone2; simp)
qed

lemma release_loop_no_new: "no_new s (release_loop i r p j ks s)"
proof (induction ks arbitrary: j s)
  case (Cons k ks)
  have "no_new s (s\<lparr>Members := sdel (i, k) (Members s)\<rparr>)" by (simp add: no_new_del)
  from no_new_trans [OF this Cons.IH] show ?case using Cons.IH by simp
qed simp

lemma delete_queue_page_no_new: "no_new s (snd (delete_onboarding_queue_page i p s))"
proof -
  have "scontains (fold (\<lambda>key. sdel (i, key)) keys M) x \<Longrightarrow> scontains M x" for keys M x
    by (induction keys arbitrary: M) fastforce+
  then show ?thesis by (auto simp: delete_onboarding_queue_page_def Let_def no_new_def known_def keys_of_def)
qed

lemma clean_up_loop_no_new: "no_new s (clean_up_loop cfg now i r n s)"
proof (induction n arbitrary: s)
  case (Suc n)
  have "no_new s (clean_up_loop cfg now i r n (members_deposit (OldRootCleanedUp i r v) (s\<lparr>OldRoots := sdel (i, r, v) (OldRoots s)\<rparr>)))" for v
    by (rule no_new_trans [OF _ Suc.IH]) simp
  then show ?case by (simp split: option.splits)
qed simp

lemma enqueue_no_new: "no_new s (snd (enqueue_ring_for_deletion cfg now i r s))"
  by (simp add: enqueue_ring_for_deletion_def Let_def)

lemma maintenance_no_new:
  assumes ok: "maintenance_dispatch cfg env c s = Inr s'"
  shows "no_new s s'"
proof (cases c)
  case (BuildRing i r e rv n)
  obtain keys n' where loop: "build_loop (flexible_ring_capacity cfg) (keys_of s i r) (rs_total (status_of s i r)) n
      (rs_included (status_of s i r)) [] = (keys, n')" by fastforce
  show ?thesis
    using ok unfolding BuildRing by (auto simp: build_ring_def Let_def no_new_def known_def keys_of_def members_deposit_def on_ring_root_change_def loop)
next
  case (OnboardMembers i r h m)
  then show ?thesis using ok onboard_members_no_new by (fastforce simp: onboard_members_authorized_def)
next
  case (MergeQueuePages i h h')
  then show ?thesis
    using ok by (auto simp: merge_queue_pages_authorized_def merge_queue_pages_def dest!: requeue_loop_no_new)
next
  case (DeleteRingPage i r p)
  have "no_new s (release_loop i r p 0 ks (s\<lparr>RingDeletionQueue := D\<rparr>))" for ks D
    by (rule no_new_trans [OF _ release_loop_no_new]) simp
  then show ?thesis
    using DeleteRingPage ok by (auto simp: delete_ring_page_authorized_def delete_ring_page_def Let_def intro: no_new_page_gone)
next
  case (FinalizeCollectionDeletion i)
  then show ?thesis
    using ok by (auto simp: finalize_collection_deletion_def Let_def no_new_def known_def keys_of_def members_deposit_def)
qed (use ok remove_suspended_keys_no_new enqueue_no_new delete_queue_page_no_new clean_up_loop_no_new in
      \<open>auto simp: mark_ring_stale_authorized_def\<close>)

subsection \<open>Additions\<close>

lemma push_adds:
  "push_to_onboarding_queue cfg now i k s = Inr s' \<Longrightarrow>
   (known s' j x \<longrightarrow> known s j x \<or> j = i \<and> x = k) \<and> Collections s' = Collections s"
  by (auto simp: push_to_onboarding_queue_def Let_def members_deposit_def known_def keys_of_def split: prod.split_asm option.split_asm)

lemma add_loop_adds:
  "add_loop cfg now i ks s = Inr s' \<Longrightarrow>
   (known s' j x \<longrightarrow> known s j x \<or> j = i \<and> x \<in> set ks) \<and> Collections s' = Collections s"
proof (induction ks arbitrary: s)
  case (Cons k ks)
  then obtain s1 where "push_to_onboarding_queue cfg now i k s = Inr s1" "add_loop cfg now i ks s1 = Inr s'"
    by (auto split: option.splits if_splits)
  then show ?case using push_adds [of cfg now i k s s1 j x] Cons.IH [of s1] by auto
qed simp

text \<open>A step, by what it may add.\<close>

fun adds_keys :: "'m members_op \<Rightarrow> coll_id \<Rightarrow> 'm \<Rightarrow> bool" where
  "adds_keys (AddMembers i ms) j k = (j = i \<and> k \<in> set ms)"
| "adds_keys _ j k = False"

fun creates :: "'m members_op \<Rightarrow> coll_id \<Rightarrow> RingMode \<Rightarrow> bool" where
  "creates (CreateCollection owner i n mode sz delay) j m = (j = i \<and> m = mode)"
| "creates _ j m = False"

lemma members_step_adds:
  assumes ok: "members_step cfg (env, y) s = Inr s'"
  shows "known s' j k \<Longrightarrow> known s j k \<or> adds_keys y j k"
    and "sget (Collections s') i = Some info \<Longrightarrow> sget (Collections s) i = Some info \<or> creates y i (ci_mode info)"
proof -
  have "no_new s s' \<or> (\<exists>h ms. y = AddMembers h ms \<and> add_loop cfg (env_now env) h ms s = Inr s') \<or>
      (\<exists>owner h n mode sz delay. y = CreateCollection owner h n mode sz delay)"
  proof (cases y)
    case (Maintain local c)
    then show ?thesis using ok maintenance_no_new by auto
  next
    case (SelfInclude sg j m t)
    then show ?thesis using ok by (auto simp: self_include_def dest!: do_self_include_no_new)
  next
    case (MergeRings sg j b t)
    then show ?thesis using ok merge_rings_no_new by fastforce
  next
    case (AddMembers j ms)
    then show ?thesis using ok by (simp add: add_members_def)
  next
    case (RemoveRing j r)
    then show ?thesis using ok enqueue_no_new by (auto simp: remove_ring_def split: if_splits)
  next
    case (RemoveMembers j ms)
    then show ?thesis using ok suspend_loop_no_new by (auto simp: remove_members_def queue_member_suspensions_def)
  next
    case (DeleteCollection ow j)
    then have "no_new s s'" using ok by (auto simp: delete_collection_def no_new_def known_def keys_of_def members_deposit_def split: if_splits)
    then show ?thesis by simp
  qed (use ok in \<open>auto simp: set_onboarding_size_def start_removal_session_def end_removal_session_def split: if_splits\<close>)
  moreover have "(known s' j k \<longrightarrow> known s j k) \<and>
      (sget (Collections s') i = Some info \<longrightarrow> sget (Collections s) i = Some info \<or> creates y i (ci_mode info))"
    if "y = CreateCollection ow h n mode sz d" for ow h n mode sz d
    using ok that by (auto simp: create_collection_def known_def keys_of_def Let_def split: if_splits)
  ultimately have "(known s' j k \<longrightarrow> known s j k \<or> adds_keys y j k) \<and>
      (sget (Collections s') i = Some info \<longrightarrow> sget (Collections s) i = Some info \<or> creates y i (ci_mode info))"
  proof (elim disjE exE conjE)
    fix h ms
    assume "y = AddMembers h ms" "add_loop cfg (env_now env) h ms s = Inr s'"
    then show ?thesis using add_loop_adds [of cfg "env_now env" h ms s s' j k] by auto
  next
    assume "no_new s s'"
    then show ?thesis unfolding no_new_def by blast
  qed blast
  then show "known s' j k \<Longrightarrow> known s j k \<or> adds_keys y j k"
    and "sget (Collections s') i = Some info \<Longrightarrow> sget (Collections s) i = Some info \<or> creates y i (ci_mode info)"
    by blast+
qed

end
