(* ===== verification/People_Inv.thy ===== *)
theory People_Inv
  imports People_Ext Members_Frame
begin

text \<open>
  The books of the people pallet and its collection: keys and persons, accounts and identities, accounts and aliases are
  inverse to each other; no account serves twice; the references of \<open>frame_system\<close> cover every account in
  use; and only keys of recognised persons are members of the collection of people.
\<close>

subsection \<open>References of two maps\<close>

text \<open>
  The references cover the accounts of both maps, and \<open>k\<close> more of every account: those that the pallet holds for
  nothing.
\<close>

definition refs_cover :: "(account_id \<Rightarrow> nat) \<Rightarrow> ref_call list \<Rightarrow> (account_id, 'i) storage \<Rightarrow> (account_id, 'j) storage \<Rightarrow> bool" where
  "refs_cover k cs A B \<longleftrightarrow> never_below cs \<and> (\<forall>a. int (holders A a + holders B a + k a) \<le> net_refs cs a)"

lemma holders_le: "holders A a \<le> 1"
  by (simp add: holders_def)

lemma refs_cover_Nil [simp]: "refs_cover (\<lambda>_. 0) [] [] []"
  by (simp add: refs_cover_def)

lemma refs_cover_nonneg: "refs_cover k cs A B \<Longrightarrow> 0 \<le> net_refs cs a"
  by (meson of_nat_0_le_iff order_trans refs_cover_def)

lemma refs_cover_inc:
  assumes "refs_cover k cs A B"
  shows "refs_cover k (cs @ [IncSufficients a]) (sput a m A) B" and "refs_cover k (cs @ [IncSufficients a]) A (sput a n B)"
proof -
  have ge: "int (holders A b + holders B b + k b) \<le> net_refs cs b" for b using assms by (simp add: refs_cover_def)
  have ge': "int (holders A a + k a) \<le> net_refs cs a" "int (holders B a + k a) \<le> net_refs cs a" using ge [of a] by linarith+
  show "refs_cover k (cs @ [IncSufficients a]) (sput a m A) B" "refs_cover k (cs @ [IncSufficients a]) A (sput a n B)"
    using assms ge' refs_cover_nonneg [OF assms] by (auto simp: refs_cover_def never_below_snoc add_increasing2)
qed

lemma refs_cover_dec:
  assumes cover: "refs_cover k cs A B"
  shows "scontains A a \<Longrightarrow> refs_cover k (cs @ [DecSufficients a]) (sdel a A) B"
    and "scontains B a \<Longrightarrow> refs_cover k (cs @ [DecSufficients a]) A (sdel a B)"
proof -
  have ge: "int (holders A b + holders B b + k b) \<le> net_refs cs b" for b using cover by (simp add: refs_cover_def)
  show "refs_cover k (cs @ [DecSufficients a]) (sdel a A) B" if "scontains A a"
    using cover that ge [of a] refs_cover_nonneg [OF cover] by (auto simp: refs_cover_def never_below_snoc holders_def)
  show "refs_cover k (cs @ [DecSufficients a]) A (sdel a B)" if "scontains B a"
    using cover that ge [of a] refs_cover_nonneg [OF cover] by (auto simp: refs_cover_def never_below_snoc holders_def)
qed

lemma refs_cover_less:
  assumes "refs_cover k cs A B"
  shows "refs_cover k cs (sdel a A) B"
  using assms refs_cover_nonneg [OF assms] holders_le [of B a]
  by (auto simp: refs_cover_def dest: spec [of _ a])

lemma refs_cover_renew:
  assumes "refs_cover k cs A B" and "scontains B a"
  shows "refs_cover k cs A (sput a n B)"
proof -
  have "holders (sput a n B) = holders B" using assms(2) by (auto simp: holders_def fun_eq_iff)
  then show ?thesis using assms(1) by (simp add: refs_cover_def)
qed

subsection \<open>The books\<close>

definition id_accounts :: "(account_id, nat) storage \<Rightarrow> (nat, 'm PersonRecord) storage \<Rightarrow> bool" where
  "id_accounts A P \<longleftrightarrow>
     (\<forall>a m. sget A a = Some m \<longleftrightarrow> (\<exists>p. sget P m = Some p \<and> pr_account p = Some a))"

definition ids_ok :: "nat \<Rightarrow> (nat, 'm PersonRecord) storage \<Rightarrow> (nat, unit) storage \<Rightarrow> bool" where
  "ids_ok n P R \<longleftrightarrow> (\<forall>m. (scontains P m \<longrightarrow> m < n \<and> \<not> scontains R m) \<and> (scontains R m \<longrightarrow> m < n))"

definition books_inv :: "(account_id \<Rightarrow> nat) \<Rightarrow> ('m, 'root, 'inter, 'r) people_state \<Rightarrow> bool" where
  "books_inv k s \<longleftrightarrow> bound_maps pr_key (Keys s) (People s) \<and>
     bound_maps rca_ca (ppl_AliasToAccount s) (ppl_AccountToAlias s) \<and>
     id_accounts (AccountToPersonalId s) (People s) \<and>
     (\<forall>a. \<not> (scontains (AccountToPersonalId s) a \<and> scontains (ppl_AccountToAlias s) a)) \<and>
     ids_ok (NextPersonalId s) (People s) (ReservedPersonalId s) \<and>
     refs_cover k (ppl_refs s) (AccountToPersonalId s) (ppl_AccountToAlias s) \<and>
     wf_storage (ppl_AccountToAlias s)"

lemma books_invD:
  assumes "books_inv k s"
  shows "bound_maps pr_key (Keys s) (People s)"
    and "bound_maps rca_ca (ppl_AliasToAccount s) (ppl_AccountToAlias s)"
    and "id_accounts (AccountToPersonalId s) (People s)"
    and "\<not> (scontains (AccountToPersonalId s) a \<and> scontains (ppl_AccountToAlias s) a)"
    and "ids_ok (NextPersonalId s) (People s) (ReservedPersonalId s)"
    and "refs_cover k (ppl_refs s) (AccountToPersonalId s) (ppl_AccountToAlias s)"
    and "wf_storage (ppl_AccountToAlias s)"
  using assms unfolding books_inv_def by blast+

lemma books_inv_frame [simp]:
  "books_inv k (s\<lparr>ppl_members := ms\<rparr>) = books_inv k s" "books_inv k (s\<lparr>ppl_rest := r\<rparr>) = books_inv k s"
  "books_inv k (s\<lparr>PeopleCollectionCreated := b\<rparr>) = books_inv k s" "books_inv k (ppl_deposit e s) = books_inv k s"
  by (simp_all add: books_inv_def ppl_deposit_def)

lemma people_sel [simp]:
  "Keys (ppl_deposit e s) = Keys s" "ppl_members (ppl_deposit e s) = ppl_members s"
  "Keys (ppl_ref c s) = Keys s" "ppl_members (ppl_ref c s) = ppl_members s"
  "People (ppl_deposit e s) = People s" "People (ppl_ref c s) = People s"
  "NextPersonalId (ppl_deposit e s) = NextPersonalId s" "NextPersonalId (ppl_ref c s) = NextPersonalId s"
  "ppl_AccountToAlias (ppl_deposit e s) = ppl_AccountToAlias s" "ppl_AccountToAlias (ppl_ref c s) = ppl_AccountToAlias s"
  "ppl_AliasToAccount (ppl_deposit e s) = ppl_AliasToAccount s" "ppl_AliasToAccount (ppl_ref c s) = ppl_AliasToAccount s"
  "AccountToPersonalId (ppl_deposit e s) = AccountToPersonalId s" "AccountToPersonalId (ppl_ref c s) = AccountToPersonalId s"
  "ReservedPersonalId (ppl_deposit e s) = ReservedPersonalId s" "ReservedPersonalId (ppl_ref c s) = ReservedPersonalId s"
  "ppl_refs (ppl_deposit e s) = ppl_refs s" "ppl_refs (ppl_ref c s) = ppl_refs s @ [c]"
  "ppl_rest (ppl_deposit e s) = ppl_rest s" "ppl_rest (ppl_ref c s) = ppl_rest s"
  by (simp_all add: ppl_deposit_def ppl_ref_def)

text \<open>A person's record is rewritten with another account.\<close>

lemma id_accounts_rewrite:
  assumes ids: "id_accounts A P" and who: "sget P m = Some p"
  shows "id_accounts (case pr_account p of Some old \<Rightarrow> sdel old A | None \<Rightarrow> A) (sput m (p\<lparr>pr_account := None\<rparr>) P)"
    and "sget A a = None \<Longrightarrow>
      id_accounts (sput a m (case pr_account p of Some old \<Rightarrow> sdel old A | None \<Rightarrow> A)) (sput m (p\<lparr>pr_account := Some a\<rparr>) P)"
proof -
  have eq: "sget A b = Some n \<longleftrightarrow> (\<exists>q. sget P n = Some q \<and> pr_account q = Some b)" for b n
    using ids by (simp add: id_accounts_def)
  have old: "sget (case pr_account p of Some old \<Rightarrow> sdel old A | None \<Rightarrow> A) b = Some n \<longleftrightarrow>
      n \<noteq> m \<and> (\<exists>q. sget P n = Some q \<and> pr_account q = Some b)" for b n
    using eq [of b n] eq [of b m] who by (cases "pr_account p") auto
  show "id_accounts (case pr_account p of Some old \<Rightarrow> sdel old A | None \<Rightarrow> A) (sput m (p\<lparr>pr_account := None\<rparr>) P)"
    using old by (auto simp: id_accounts_def)
  show "id_accounts (sput a m (case pr_account p of Some old \<Rightarrow> sdel old A | None \<Rightarrow> A)) (sput m (p\<lparr>pr_account := Some a\<rparr>) P)"
    if fresh: "sget A a = None"
    unfolding id_accounts_def
  proof (intro allI)
    fix b n
    have "\<not> (\<exists>q. sget P n = Some q \<and> pr_account q = Some a)" using eq [of a n] fresh by auto
    then show "sget (sput a m (case pr_account p of Some old \<Rightarrow> sdel old A | None \<Rightarrow> A)) b = Some n \<longleftrightarrow>
        (\<exists>q. sget (sput m (p\<lparr>pr_account := Some a\<rparr>) P) n = Some q \<and> pr_account q = Some b)"
      using old [of b n] by auto
  qed
qed

lemma ids_ok_rewrite: "ids_ok n P R \<Longrightarrow> sget P m = Some p \<Longrightarrow> ids_ok n (sput m p' P) R"
  by (auto simp: ids_ok_def scontains_def)

subsection \<open>Identities\<close>

lemma reserve_books:
  assumes inv: "books_inv k s" and room: "NextPersonalId s < u64_max"
  shows "books_inv k (snd (reserve_new_id s))"
proof -
  have "ids_ok (sat_add u64_max (NextPersonalId s) 1) (People s) (sput (NextPersonalId s) () (ReservedPersonalId s))"
    using books_invD(5) [OF inv] room by (auto simp: ids_ok_def less_Suc_eq)
  then show ?thesis using inv by (simp add: reserve_new_id_def Let_def books_inv_def)
qed

lemma cancel_books: "books_inv k s \<Longrightarrow> cancel_id_reservation m s = Inr s' \<Longrightarrow> books_inv k s'"
  by (auto simp: cancel_id_reservation_def books_inv_def ids_ok_def)

lemma renew_books: "books_inv k s \<Longrightarrow> renew_id_reservation m s = Inr s' \<Longrightarrow> books_inv k s'"
  by (auto simp: renew_id_reservation_def books_inv_def ids_ok_def split: if_splits)

lemma recognizeE:
  assumes "recognize_personhood cfg env who maybe_key s = Inr s'"
  obtains (new) key ms where "maybe_key = Some key" and "\<not> scontains (Keys s) key" and "scontains (ReservedPersonalId s) who"
      and "add_members (pc_members cfg) (ppl_now env) PEOPLE_IDENTIFIER [key] (ppl_members s) = Inr ms"
      and "s' = ppl_deposit (PersonhoodRecognized who key)
         (s\<lparr>ppl_members := ms, ReservedPersonalId := sdel who (ReservedPersonalId s), Keys := sput key who (Keys s),
            People := sput who \<lparr>pr_key = key, pr_account = None\<rparr> (People s)\<rparr>)"
    | (again) person ms where "maybe_key = None" and "sget (People s) who = Some person" and "sget (Keys s) (pr_key person) = Some who"
      and "add_members (pc_members cfg) (ppl_now env) PEOPLE_IDENTIFIER [pr_key person] (ppl_members s) = Inr ms"
      and "s' = ppl_deposit (PersonOnboarding who (pr_key person)) (s\<lparr>ppl_members := ms\<rparr>)"
  using assms by (cases maybe_key) (auto simp: recognize_personhood_def of_members_def)

lemma recognize_books:
  assumes inv: "books_inv k s" and ok: "recognize_personhood cfg env who maybe_key s = Inr s'"
  shows "books_inv k s'"
  using ok
proof (cases rule: recognizeE)
  case (new key ms)
  have no: "sget (People s) who = None" "sget (Keys s) key = None"
    using books_invD(5) [OF inv] new(2,3) by (auto simp: ids_ok_def scontains_def)
  have "bound_maps pr_key (sput key who (Keys s)) (sput who \<lparr>pr_key = key, pr_account = None\<rparr> (People s))"
    using bound_maps_bind [OF books_invD(1) [OF inv], where info = "\<lparr>pr_key = key, pr_account = None\<rparr>" and who = who] no by simp
  moreover have "id_accounts (AccountToPersonalId s) (sput who \<lparr>pr_key = key, pr_account = None\<rparr> (People s))"
    using books_invD(3) [OF inv] no(1) by (auto simp: id_accounts_def)
  moreover have "ids_ok (NextPersonalId s) (sput who \<lparr>pr_key = key, pr_account = None\<rparr> (People s)) (sdel who (ReservedPersonalId s))"
    using books_invD(5) [OF inv] new(3) by (auto simp: ids_ok_def)
  ultimately show ?thesis using inv by (simp add: new(5) books_inv_def)
qed (simp add: inv)

lemma suspend_one_books:
  assumes inv: "books_inv k s" and who: "sget (People s) m = Some p"
  shows "books_inv k (let s1 = (case pr_account p of
           Some account \<Rightarrow> s\<lparr>AccountToPersonalId := sdel account (AccountToPersonalId s)\<rparr> | None \<Rightarrow> s)
         in s1\<lparr>People := sput m (p\<lparr>pr_account := None\<rparr>) (People s1)\<rparr>)"
proof -
  let ?A = "case pr_account p of Some old \<Rightarrow> sdel old (AccountToPersonalId s) | None \<Rightarrow> AccountToPersonalId s"
  let ?P = "sput m (p\<lparr>pr_account := None\<rparr>) (People s)"
  have eq: "(let s1 = (case pr_account p of
           Some account \<Rightarrow> s\<lparr>AccountToPersonalId := sdel account (AccountToPersonalId s)\<rparr> | None \<Rightarrow> s)
         in s1\<lparr>People := sput m (p\<lparr>pr_account := None\<rparr>) (People s1)\<rparr>) = s\<lparr>AccountToPersonalId := ?A, People := ?P\<rparr>"
    by (simp split: option.splits)
  have "bound_maps pr_key (Keys s) ?P" by (rule bound_maps_renew(1) [OF books_invD(1) [OF inv] who]) simp
  moreover have "id_accounts ?A ?P" by (rule id_accounts_rewrite(1) [OF books_invD(3) [OF inv] who])
  moreover have "\<not> (scontains ?A a \<and> scontains (ppl_AccountToAlias s) a)" for a
    using books_invD(4) [OF inv, of a] by (auto split: option.splits)
  moreover have "ids_ok (NextPersonalId s) ?P (ReservedPersonalId s)"
    by (rule ids_ok_rewrite [OF books_invD(5) [OF inv] who])
  moreover have "refs_cover k (ppl_refs s) ?A (ppl_AccountToAlias s)"
    using books_invD(6) [OF inv] refs_cover_less by (auto split: option.splits)
  ultimately show ?thesis unfolding eq using inv by (simp add: books_inv_def)
qed

lemma suspend_persons_frame:
  "suspend_persons ids keys s = Inr (keys', s') \<Longrightarrow>
   ppl_members s' = ppl_members s \<and> Keys s' = Keys s \<and> ppl_refs s' = ppl_refs s \<and> ppl_AccountToAlias s' = ppl_AccountToAlias s"
proof (induction ids arbitrary: keys s)
  case (Cons m ids)
  obtain keys1 s1 where "suspend_persons ids keys1 s1 = Inr (keys', s')" and "ppl_members s1 = ppl_members s \<and> Keys s1 = Keys s \<and>
      ppl_refs s1 = ppl_refs s \<and> ppl_AccountToAlias s1 = ppl_AccountToAlias s"
    using Cons.prems by (fastforce simp: Let_def split: option.split_asm)
  then show ?case using Cons.IH by simp
qed simp

lemma suspend_persons_books: "books_inv k s \<Longrightarrow> suspend_persons ids keys s = Inr (keys', s') \<Longrightarrow> books_inv k s'"
proof (induction ids arbitrary: keys s)
  case (Cons m ids)
  then obtain p where p: "sget (People s) m = Some p" by auto
  let ?s2 = "let s1 = (case pr_account p of
           Some account \<Rightarrow> s\<lparr>AccountToPersonalId := sdel account (AccountToPersonalId s)\<rparr> | None \<Rightarrow> s)
         in s1\<lparr>People := sput m (p\<lparr>pr_account := None\<rparr>) (People s1)\<rparr>"
  have "suspend_persons ids (keys @ [pr_key p]) ?s2 = Inr (keys', s')"
    using Cons.prems(2) p by (simp add: Let_def)
  from Cons.IH [OF suspend_one_books [OF Cons.prems(1) p] this] show ?case .
qed simp

lemma suspend_books: "books_inv k s \<Longrightarrow> suspend_personhood cfg ids s = Inr s' \<Longrightarrow> books_inv k s'"
  using suspend_persons_books by (fastforce simp: suspend_personhood_def of_members_def)

subsection \<open>Accounts\<close>

text \<open>Binding an account to an alias, in its three cases, and unbinding.\<close>

lemma bind_books:
  assumes inv: "books_inv k s" and free: "\<not> scontains (AccountToPersonalId s) account"
    and unused: "sget (ppl_AliasToAccount s) (rca_ca rev_ca) \<noteq> Some account \<longrightarrow> \<not> scontains (ppl_AccountToAlias s) account"
    and s1: "s1 = (if sget (ppl_AliasToAccount s) (rca_ca rev_ca) \<noteq> Some account
      then ppl_swap_account (sget (ppl_AliasToAccount s) (rca_ca rev_ca)) account s else s)"
  shows "books_inv k (s1\<lparr>ppl_AccountToAlias := sput account rev_ca (ppl_AccountToAlias s1),
    ppl_AliasToAccount := sput (rca_ca rev_ca) account (ppl_AliasToAccount s1)\<rparr>)"
proof -
  note maps = books_invD(2) [OF inv] and refs = books_invD(6) [OF inv]
  consider (renew) "sget (ppl_AliasToAccount s) (rca_ca rev_ca) = Some account"
    | (fresh) "sget (ppl_AliasToAccount s) (rca_ca rev_ca) = None"
    | (swap) old where "sget (ppl_AliasToAccount s) (rca_ca rev_ca) = Some old" "old \<noteq> account"
    by (cases "sget (ppl_AliasToAccount s) (rca_ca rev_ca)") auto
  then show ?thesis
  proof cases
    case renew
    then obtain info0 where info0: "sget (ppl_AccountToAlias s) account = Some info0" "rca_ca info0 = rca_ca rev_ca"
      using bound_mapsD(2) [OF maps renew] by blast
    have "refs_cover k (ppl_refs s) (AccountToPersonalId s) (sput account rev_ca (ppl_AccountToAlias s))"
      using refs_cover_renew [OF refs] info0(1) by (simp add: scontains_def)
    then show ?thesis
      using inv free bound_maps_renew(2) [OF maps info0(1)] info0(2) renew by (auto simp: books_inv_def s1)
  next
    case fresh
    then have no: "sget (ppl_AccountToAlias s) account = None" using unused by (simp add: scontains_def)
    show ?thesis
      using inv free bound_maps_bind [OF maps fresh no] refs_cover_inc(2) [OF refs, of account rev_ca] fresh
      by (auto simp: books_inv_def s1 ppl_swap_account_def)
  next
    case (swap old)
    then have no: "sget (ppl_AccountToAlias s) account = None" using unused by (simp add: scontains_def)
    have old: "scontains (ppl_AccountToAlias s) old" using bound_mapsD(2) [OF maps swap(1)] by (auto simp: scontains_def)
    have refs': "refs_cover k ((ppl_refs s @ [DecSufficients old]) @ [IncSufficients account]) (AccountToPersonalId s)
        (sput account rev_ca (sdel old (ppl_AccountToAlias s)))"
      by (intro refs_cover_inc(2) refs_cover_dec(2) [OF refs] old)
    have maps': "bound_maps rca_ca (sput (rca_ca rev_ca) account (ppl_AliasToAccount s))
        (sput account rev_ca (sdel old (ppl_AccountToAlias s)))" by (rule bound_maps_swap [OF maps swap(1) no])
    show ?thesis
      using inv free maps' refs' swap by (auto simp: books_inv_def s1 ppl_swap_account_def)
  qed
qed

lemma set_alias_books:
  assumes inv: "books_inv k s" and ok: "ppl_set_alias_account env origin account at s = Inr (p, s')"
  shows "books_inv k s'"
proof -
  obtain rev_ca where free: "\<not> scontains (AccountToPersonalId s) account"
    and unused: "sget (ppl_AliasToAccount s) (rca_ca rev_ca) = Some account \<or> \<not> scontains (ppl_AccountToAlias s) account"
    and s': "s' = ppl_deposit (PplAliasAccountSet (rca_ca rev_ca) account)
      (let s1 = (if sget (ppl_AliasToAccount s) (rca_ca rev_ca) \<noteq> Some account
                 then ppl_swap_account (sget (ppl_AliasToAccount s) (rca_ca rev_ca)) account s else s)
       in s1\<lparr>ppl_AccountToAlias := sput account rev_ca (ppl_AccountToAlias s1),
             ppl_AliasToAccount := sput (rca_ca rev_ca) account (ppl_AliasToAccount s1)\<rparr>)"
    using ok unfolding ppl_set_alias_account_def ok_or_Inr ensure_Inr Let_def by auto
  have "sget (ppl_AliasToAccount s) (rca_ca rev_ca) \<noteq> Some account \<longrightarrow> \<not> scontains (ppl_AccountToAlias s) account"
    using unused by blast
  from bind_books [OF inv free this refl] show ?thesis unfolding s' books_inv_frame Let_def .
qed

lemma unbind_books:
  assumes inv: "books_inv k s" and ca: "sget (ppl_AliasToAccount s) ca = Some account"
  shows "books_inv k (unbind_alias ca account s)"
proof -
  obtain info where info: "sget (ppl_AccountToAlias s) account = Some info" "rca_ca info = ca"
    using bound_mapsD(2) [OF books_invD(2) [OF inv] ca] by blast
  then have "scontains (ppl_AccountToAlias s) account" by (simp add: scontains_def)
  then show ?thesis
    using inv bound_maps_unbind [OF books_invD(2) [OF inv] info(1)] refs_cover_dec(2) [OF books_invD(6) [OF inv]] info(2)
    by (auto simp: books_inv_def unbind_alias_def)
qed

lemma unset_alias_books: "books_inv k s \<Longrightarrow> ppl_unset_alias_account origin s = Inr (p, s') \<Longrightarrow> books_inv k s'"
  by (auto simp: ppl_unset_alias_account_def intro: unbind_books)

lemma clean_up_alias_books: "books_inv k s \<Longrightarrow> clean_up_alias ca s = Inr s' \<Longrightarrow> books_inv k s'"
  by (auto simp: clean_up_alias_def intro: unbind_books)

lemma clean_up_bulk_books: "books_inv k s \<Longrightarrow> books_inv k (snd (clean_up_bulk aliases n s))"
proof (induction aliases arbitrary: n s)
  case (Cons ca aliases)
  have "books_inv k s1" if "clean_up_one ca s = Some s1" for s1
    using that unbind_books [OF Cons.prems] by (auto simp: clean_up_one_def split: option.splits if_splits)
  then show ?case using Cons by (auto split: option.splits)
qed simp

lemma set_personal_books:
  assumes inv: "books_inv k s" and ok: "set_personal_id_account env origin account at s = Inr (p, s')"
  shows "books_inv k s'"
proof -
  obtain who person where free: "sget (AccountToPersonalId s) account = None" "\<not> scontains (ppl_AccountToAlias s) account"
    and who: "sget (People s) who = Some person"
    and s': "s' = ppl_deposit (PersonalIdAccountSet who account)
      (s\<lparr>ppl_refs := (case pr_account person of Some old \<Rightarrow> ppl_refs s @ [DecSufficients old] | None \<Rightarrow> ppl_refs s) @ [IncSufficients account],
         AccountToPersonalId := sput account who (case pr_account person of
            Some old \<Rightarrow> sdel old (AccountToPersonalId s) | None \<Rightarrow> AccountToPersonalId s),
         People := sput who (person\<lparr>pr_account := Some account\<rparr>) (People s)\<rparr>)"
    using ok by (auto simp: set_personal_id_account_def Let_def scontains_def ppl_ref_def split: option.splits)
  let ?A = "case pr_account person of Some old \<Rightarrow> sdel old (AccountToPersonalId s) | None \<Rightarrow> AccountToPersonalId s"
  let ?R = "case pr_account person of Some old \<Rightarrow> ppl_refs s @ [DecSufficients old] | None \<Rightarrow> ppl_refs s"
  have held: "scontains (AccountToPersonalId s) old" if "pr_account person = Some old" for old
  proof -
    have "sget (AccountToPersonalId s) old = Some who"
      using books_invD(3) [OF inv] who that unfolding id_accounts_def by blast
    then show ?thesis by (simp add: scontains_def)
  qed
  have "refs_cover k ?R ?A (ppl_AccountToAlias s)"
    using books_invD(6) [OF inv] refs_cover_dec(1) [OF books_invD(6) [OF inv]] held by (auto split: option.splits)
  then have "refs_cover k (?R @ [IncSufficients account]) (sput account who ?A) (ppl_AccountToAlias s)"
    by (rule refs_cover_inc(1))
  moreover have "id_accounts (sput account who ?A) (sput who (person\<lparr>pr_account := Some account\<rparr>) (People s))"
    by (rule id_accounts_rewrite(2) [OF books_invD(3) [OF inv] who free(1)])
  moreover have "\<not> (scontains (sput account who ?A) a \<and> scontains (ppl_AccountToAlias s) a)" for a
    using books_invD(4) [OF inv, of a] free(2) by (auto split: option.splits)
  moreover have "bound_maps pr_key (Keys s) (sput who (person\<lparr>pr_account := Some account\<rparr>) (People s))"
    by (rule bound_maps_renew(1) [OF books_invD(1) [OF inv] who]) simp
  moreover have "ids_ok (NextPersonalId s) (sput who (person\<lparr>pr_account := Some account\<rparr>) (People s)) (ReservedPersonalId s)"
    by (rule ids_ok_rewrite [OF books_invD(5) [OF inv] who])
  ultimately show ?thesis unfolding s' books_inv_frame using inv by (simp add: books_inv_def)
qed

lemma unset_personal_books:
  assumes inv: "books_inv k s" and ok: "unset_personal_id_account origin s = Inr (p, s')"
  shows "books_inv k s'"
proof -
  obtain who person account where who: "sget (People s) who = Some person" "pr_account person = Some account"
    and held: "scontains (AccountToPersonalId s) account"
    and s': "s' = ppl_deposit (PersonalIdAccountUnset who account)
      (s\<lparr>AccountToPersonalId := sdel account (AccountToPersonalId s), ppl_refs := ppl_refs s @ [DecSufficients account],
         People := sput who (person\<lparr>pr_account := None\<rparr>) (People s)\<rparr>)"
    using ok by (auto simp: unset_personal_id_account_def Let_def ppl_ref_def)
  have "id_accounts (sdel account (AccountToPersonalId s)) (sput who (person\<lparr>pr_account := None\<rparr>) (People s))"
    using id_accounts_rewrite(1) [OF books_invD(3) [OF inv] who(1)] who(2) by simp
  moreover have "bound_maps pr_key (Keys s) (sput who (person\<lparr>pr_account := None\<rparr>) (People s))"
    by (rule bound_maps_renew(1) [OF books_invD(1) [OF inv] who(1)]) simp
  moreover have "ids_ok (NextPersonalId s) (sput who (person\<lparr>pr_account := None\<rparr>) (People s)) (ReservedPersonalId s)"
    by (rule ids_ok_rewrite [OF books_invD(5) [OF inv] who(1)])
  ultimately show ?thesis
    unfolding s' books_inv_frame using inv refs_cover_dec(1) [OF books_invD(6) [OF inv] held] by (auto simp: books_inv_def)
qed

end
