(* ===== verification/Members_Client.thy ===== *)
theory Members_Client
  imports Members_Frame
begin

text \<open>
  What a pallet that owns a collection in the members pallet relies on: no other step adds a key to it or removes its
  rings, so its members are those that the pallet added, and none of them is ever lost.
\<close>

subsection \<open>Members stay\<close>

text \<open>No record of a member is removed, and no collection or ring is marked for deletion or forgotten.\<close>

definition retains :: "('m, 'root, 'inter) members_state \<Rightarrow> ('m, 'root, 'inter) members_state \<Rightarrow> bool" where
  "retains s s' \<longleftrightarrow> (\<forall>x. scontains (Members s) x \<longrightarrow> scontains (Members s') x) \<and>
     SuspendedCollections s' = SuspendedCollections s \<and> RingDeletionQueue s' = RingDeletionQueue s"

lemma retains_refl [simp]: "retains s s"
  by (simp add: retains_def)

lemma retains_trans: "retains s s1 \<Longrightarrow> retains s1 s2 \<Longrightarrow> retains s s2"
  by (simp add: retains_def)

lemma retains_upd [simp]:
  "retains s (s'\<lparr>StaleRings := a\<rparr>) = retains s s'" "retains s (s'\<lparr>PendingSuspensions := b\<rparr>) = retains s s'"
  "retains s (s'\<lparr>RingKeysStatus := c\<rparr>) = retains s s'" "retains s (s'\<lparr>ActiveMembers := d\<rparr>) = retains s s'"
  "retains s (s'\<lparr>Root := f\<rparr>) = retains s s'" "retains s (s'\<lparr>RingKeys := e\<rparr>) = retains s s'"
  "retains s (s'\<lparr>OldRoots := g\<rparr>) = retains s s'" "retains s (s'\<lparr>OnboardingQueue := h\<rparr>) = retains s s'"
  "retains s (s'\<lparr>QueuePageIndices := j\<rparr>) = retains s s'" "retains s (s'\<lparr>CurrentRingIndex := k\<rparr>) = retains s s'"
  "retains s (s'\<lparr>Collections := l\<rparr>) = retains s s'" "retains s (s'\<lparr>members_events := m\<rparr>) = retains s s'"
  "retains s (s'\<lparr>RingsState := n\<rparr>) = retains s s'" "retains s (s'\<lparr>root_changes := p\<rparr>) = retains s s'"
  "retains s (members_deposit ev s') = retains s s'" "retains s (on_ring_root_change q r ch s') = retains s s'"
  "retains s (s'\<lparr>OnboardingSize := t\<rparr>) = retains s s'" "retains s (s'\<lparr>IdentifiersOf := u\<rparr>) = retains s s'"
  by (simp_all add: retains_def members_deposit_def on_ring_root_change_def)

lemma retains_put [simp]: "retains s s' \<Longrightarrow> retains s (s'\<lparr>Members := sput x v (Members s')\<rparr>)"
  by (auto simp: retains_def)

lemma retains_under [simp]:
  "retains s (s'\<lparr>PendingSuspensions := a, Members := M\<rparr>) = retains s (s'\<lparr>Members := M\<rparr>)"
  "retains s (s'\<lparr>OnboardingQueue := b, Members := M\<rparr>) = retains s (s'\<lparr>Members := M\<rparr>)"
  "retains s (s'\<lparr>RingKeys := e, Members := M\<rparr>) = retains s (s'\<lparr>Members := M\<rparr>)"
  by (simp_all add: retains_def)

lemma retains_archive [simp]: "retains s (archive_and_notify now i r s') = retains s s'"
  by (simp add: archive_and_notify_def archive_root_def split: option.splits)

lemma suspend_loop_retains: "suspend_loop cfg i ms s = Inr s' \<Longrightarrow> retains s s'"
proof (induction ms arbitrary: s)
  case (Cons m ms)
  then obtain s1 where one: "suspend_member cfg i m s = Inr s1" and rest: "suspend_loop cfg i ms s1 = Inr s'" by auto
  then obtain pos where pos: "sget (Members s) (i, m) = Some pos" by (auto simp: suspend_member_def)
  have "retains s s1"
    using one pos by (cases pos) (auto simp: suspend_member_def Let_def retains_def split: if_split_asm)
  then show ?case using Cons.IH [OF rest] by (rule retains_trans)
qed simp

lemma requeue_loop_retains: "requeue_loop i h ks s = Inr s' \<Longrightarrow> retains s s'"
proof (induction ks arbitrary: s)
  case (Cons k ks)
  then obtain pos where "requeue_loop i h ks (case pos of
      Onboarding _ since \<Rightarrow> s\<lparr>Members := sput (i, k) (Onboarding h since) (Members s)\<rparr> | _ \<Rightarrow> s) = Inr s'"
    by auto
  from Cons.IH [OF this] show ?case by (auto simp: retains_def split: RingPosition.splits)
qed simp

lemma onboard_loop_retains: "onboard_loop cfg i r p keys ks s = Inr (q, keys', s') \<Longrightarrow> retains s s'"
proof (induction ks arbitrary: p keys s)
  case (Cons k ks)
  let ?s1 = "s\<lparr>Members := sput (i, k) (Included r p (length keys)) (Members s)\<rparr>"
  obtain p1 keys1 s1 where "onboard_loop cfg i r p1 keys1 ks s1 = Inr (q, keys', s')"
    and "s1 = ?s1 \<or> s1 = ?s1\<lparr>RingKeys := sput (i, r, p) (keys @ [k]) (RingKeys ?s1)\<rparr>"
    using Cons.prems by (auto simp: Let_def try_push_def split: if_splits)
  then have "retains s s1" "retains s1 s'" using Cons.IH by auto
  then show ?case by (rule retains_trans)
qed simp

lemma store_remaining_retains [simp]: "retains s (store_remaining cfg i h head t ks s') = retains s s'"
  by (simp add: store_remaining_def Let_def)

lemma available_ring_retains: "available_ring cfg i n s = (x, s') \<Longrightarrow> retains s s'"
  by (auto simp: available_ring_def Let_def split: if_splits)

lemma onboard_members_retains:
  assumes "onboard_members cfg i must s = Inr (b, s')"
  shows "retains s s'"
proof -
  obtain info where live: "sget (Collections s) i = Some info" using assms by (auto simp: onboard_members_def)
  obtain r p keys st s1 where av: "available_ring cfg i (ring_capacity cfg (ci_ring_size info)) s = ((r, p, keys, st), s1)"
    by (metis surj_pair)
  obtain h t where pages: "queue_pages s1 i = (h, t)" by fastforce
  have "retains s s2" if "onboard_loop cfg i r p keys ks s1 = Inr (q, keys', s2)" for ks q keys' s2
    by (rule retains_trans [OF available_ring_retains [OF av] onboard_loop_retains [OF that]])
  then show ?thesis
    using assms by (auto simp: onboard_members_def live av pages Let_def split: option.split_asm if_split_asm)
qed

lemma do_self_include_retains:
  assumes "do_self_include cfg i m s = Inr s'"
  shows "retains s s'"
proof -
  obtain info pos where live: "sget (Collections s) i = Some info" and pos: "sget (Members s) (i, m) = Some pos"
    using assms unfolding do_self_include_def ok_or_Inr Let_def ensure_Inr by blast
  obtain q since where q: "pos = Onboarding q since"
    using assms live pos by (cases pos) (simp_all add: do_self_include_def)
  obtain h t where pages: "queue_pages s i = (h, t)" by fastforce
  define s1 where "s1 = (if remove1 m (queue_of s i q) = []
      then s\<lparr>OnboardingQueue := sdel (i, q) (OnboardingQueue s),
             QueuePageIndices := sput i (if h = q \<and> h \<noteq> t then next_page q else h, t) (QueuePageIndices s)\<rparr>
      else s\<lparr>OnboardingQueue := sput (i, q) (remove1 m (queue_of s i q)) (OnboardingQueue s)\<rparr>)"
  obtain r p keys st s2 where av: "available_ring cfg i (ring_capacity cfg (ci_ring_size info)) s1 = ((r, p, keys, st), s2)"
    by (metis surj_pair)
  have "retains s s1" by (simp add: s1_def)
  then have two: "retains s s2" using available_ring_retains [OF av] by (rule retains_trans)
  then show ?thesis
    using assms by (auto simp: do_self_include_def live pos q pages Let_def s1_def [symmetric] av retains_def split: if_split_asm)
qed

lemma retain_loop_retains: "retain_loop cfg i r n js ks new s = (b, new', s') \<Longrightarrow> retains s s'"
proof (induction ks arbitrary: n js new s)
  case (Cons k ks)
  define s1 where "s1 = (case sget (Members s) (i, k) of
        Some (Included q p j) \<Rightarrow>
          if r \<noteq> q then s else s\<lparr>Members := sput (i, k) (Included q p (length new)) (Members s)\<rparr>
      | _ \<Rightarrow> s)"
  have one: "retains s s1" by (auto simp: s1_def retains_def split: option.splits RingPosition.splits)
  have "s' = s1 \<or> (\<exists>n1 js1 new1. retain_loop cfg i r n1 js1 ks new1 (members_deposit (MemberRemoved k) s) = (b, new', s')) \<or>
      (\<exists>n1 js1 new1. retain_loop cfg i r n1 js1 ks new1 s1 = (b, new', s'))"
    using Cons.prems unfolding s1_def by (auto simp: Let_def split: option.split_asm if_split_asm)
  moreover have "retains s (members_deposit (MemberRemoved k) s)" by simp
  ultimately show ?case using one Cons.IH retains_trans by blast
qed simp

lemma remove_suspended_keys_retains: "retains s (remove_suspended_keys cfg now i r s)"
proof -
  obtain b keys s1 where loop: "retain_loop cfg i r 0 (pending_of s i r) (keys_of s i r 0) [] s = (b, keys, s1)"
    by (metis surj_pair)
  have "retains s s1" by (rule retain_loop_retains [OF loop])
  then show ?thesis by (simp add: remove_suspended_keys_def Let_def loop split: option.splits)
qed

lemma merge_loop_retains: "merge_loop cfg i base B ks s = Inr (B', s') \<Longrightarrow> retains s s'"
proof (induction ks arbitrary: B s)
  case (Cons k ks)
  then obtain B1 where "merge_loop cfg i base B1 ks (s\<lparr>Members := sput (i, k) (Included base 0 (length B)) (Members s)\<rparr>) = Inr (B', s')"
    by (auto simp: Let_def)
  from Cons.IH [OF this] show ?case by (auto simp: retains_def)
qed simp

lemma merge_rings_retains: "merge_rings cfg now sg i base target s = Inr (p, s') \<Longrightarrow> retains s s'"
  by (auto simp: merge_rings_def Let_def dest!: merge_loop_retains)

lemma add_loop_retains: "add_loop cfg now i ks s = Inr s' \<Longrightarrow> retains s s'"
proof (induction ks arbitrary: s)
  case (Cons k ks)
  then obtain s1 where one: "push_to_onboarding_queue cfg now i k s = Inr s1" and rest: "add_loop cfg now i ks s1 = Inr s'"
    by (auto split: option.splits if_splits)
  have "retains s s1"
    using one by (auto simp: push_to_onboarding_queue_def Let_def members_deposit_def retains_def split: prod.split_asm option.split_asm)
  then show ?case using Cons.IH [OF rest] by (rule retains_trans)
qed simp

lemma clean_up_loop_retains: "retains s (clean_up_loop cfg now i r n s)"
proof (induction n arbitrary: s)
  case (Suc n)
  have "retains s (clean_up_loop cfg now i r n (members_deposit (OldRootCleanedUp i r v) (s\<lparr>OldRoots := sdel (i, r, v) (OldRoots s)\<rparr>)))" for v
    by (rule retains_trans [OF _ Suc.IH]) simp
  then show ?case by (simp split: option.splits)
qed simp

text \<open>Nothing of the collection is marked for deletion.\<close>

definition undisturbed :: "coll_id \<Rightarrow> ('m, 'root, 'inter) members_state \<Rightarrow> bool" where
  "undisturbed i s \<longleftrightarrow> \<not> scontains (SuspendedCollections s) i \<and> (\<forall>r p. \<not> scontains (RingDeletionQueue s) (i, r, p))"

fun deletes :: "'m members_op \<Rightarrow> coll_id \<Rightarrow> bool" where
  "deletes (DeleteCollection owner i) j = (j = i)"
| "deletes (RemoveRing i r) j = (j = i)"
| "deletes _ j = False"

definition members_stay :: "coll_id \<Rightarrow> ('m, 'root, 'inter) members_state \<Rightarrow> ('m, 'root, 'inter) members_state \<Rightarrow> bool" where
  "members_stay i s s' \<longleftrightarrow> undisturbed i s' \<and> (\<forall>k. scontains (Members s) (i, k) \<longrightarrow> scontains (Members s') (i, k))"

lemma retains_stay: "undisturbed i s \<Longrightarrow> retains s s' \<Longrightarrow> members_stay i s s'"
  by (simp add: retains_def members_stay_def undisturbed_def)

lemma release_loop_stays:
  "RingDeletionQueue (release_loop j r p n ks s) = RingDeletionQueue s"
  "SuspendedCollections (release_loop j r p n ks s) = SuspendedCollections s"
  "i \<noteq> j \<Longrightarrow> scontains (Members (release_loop j r p n ks s)) (i, k) = scontains (Members s) (i, k)"
  by (induction ks arbitrary: n s) (simp_all add: scontains_def)

lemma enqueue_pages_other: "i \<noteq> j \<Longrightarrow> scontains (enqueue_pages j r ps D) (i, q) = scontains D (i, q)"
  by (induction ps arbitrary: D) auto

lemma enqueue_stays:
  assumes "undisturbed i s" and "i \<noteq> j"
  shows "members_stay i s (snd (enqueue_ring_for_deletion cfg now j r s))"
proof -
  have "retains s (archive_and_notify now j r s)" by simp
  then have "members_stay i s (archive_and_notify now j r s)" using assms(1) by (rule retains_stay [rotated])
  then show ?thesis
    using assms(2) enqueue_pages_other [OF assms(2)]
    by (auto simp: enqueue_ring_for_deletion_def Let_def members_stay_def undisturbed_def)
qed

lemma sdel_other: "i \<noteq> j \<Longrightarrow> scontains (fold (\<lambda>key. sdel (j, key)) keys M) (i, k) = scontains M (i, k)"
  by (induction keys arbitrary: M) simp_all

lemma maintenance_stays:
  assumes calm: "undisturbed i s" and auth: "members_authorize cfg now local c s = Inr ()"
    and ok: "maintenance_dispatch cfg env c s = Inr s'"
  shows "members_stay i s s'"
proof (cases c)
  case (BuildRing j r e rv n)
  obtain keys n' where loop: "build_loop (flexible_ring_capacity cfg) (keys_of s j r) (rs_total (status_of s j r)) n
      (rs_included (status_of s j r)) [] = (keys, n')" by fastforce
  have "retains s s'"
    using ok unfolding BuildRing by (auto simp: build_ring_def Let_def retains_def members_deposit_def on_ring_root_change_def loop)
  then show ?thesis by (rule retains_stay [OF calm])
next
  case (OnboardMembers j r h m)
  then obtain b where "onboard_members cfg j True s = Inr (b, s')" using ok by (auto simp: onboard_members_authorized_def)
  from retains_stay [OF calm onboard_members_retains [OF this]] show ?thesis .
next
  case (MergeQueuePages j h h')
  then have "retains s s'"
    using ok by (auto simp: merge_queue_pages_authorized_def merge_queue_pages_def dest!: requeue_loop_retains)
  then show ?thesis by (rule retains_stay [OF calm])
next
  case (RemoveSuspendedKeys j r rv)
  then show ?thesis using ok retains_stay [OF calm remove_suspended_keys_retains] by auto
next
  case (DeleteRingPage j r p)
  then have "i \<noteq> j" using auth calm by (auto simp: ensure_can_delete_ring_page_def undisturbed_def)
  then show ?thesis
    using DeleteRingPage ok calm
    by (auto simp: delete_ring_page_authorized_def delete_ring_page_def Let_def members_stay_def undisturbed_def release_loop_stays)
next
  case (EnqueueRingDeletion j r)
  then have "i \<noteq> j" using auth calm by (auto simp: ensure_can_enqueue_ring_deletion_def undisturbed_def)
  then show ?thesis using EnqueueRingDeletion ok enqueue_stays [OF calm] by auto
next
  case (DeleteOnboardingQueuePage j p)
  then have "i \<noteq> j" using auth calm by (auto simp: ensure_can_delete_onboarding_queue_page_def undisturbed_def)
  then show ?thesis
    using DeleteOnboardingQueuePage ok calm
    by (auto simp: delete_onboarding_queue_page_def Let_def members_stay_def undisturbed_def sdel_other)
next
  case (FinalizeCollectionDeletion j)
  then show ?thesis
    using ok calm by (auto simp: finalize_collection_deletion_def Let_def members_stay_def undisturbed_def members_deposit_def)
next
  case (MarkRingStale j r)
  then show ?thesis using ok retains_stay [OF calm] by (auto simp: mark_ring_stale_authorized_def)
next
  case (CleanUpOldRoots j r limit)
  then show ?thesis using ok retains_stay [OF calm clean_up_loop_retains] by auto
qed

lemma members_step_stays:
  assumes calm: "undisturbed i s" and ok: "members_step cfg (env, y) s = Inr s'" and keep: "\<not> deletes y i"
  shows "members_stay i s s'"
proof -
  have "retains s s' \<Longrightarrow> members_stay i s s'" by (rule retains_stay [OF calm])
  moreover have "retains s s' \<or> (\<exists>local c. y = Maintain local c) \<or> (\<exists>j r. y = RemoveRing j r) \<or> (\<exists>ow j. y = DeleteCollection ow j)"
  proof (cases y)
    case (SelfInclude sg j m t)
    then show ?thesis using ok by (auto simp: self_include_def dest!: do_self_include_retains)
  next
    case (MergeRings sg j b t)
    then show ?thesis using ok merge_rings_retains by fastforce
  next
    case (AddMembers j ms)
    then show ?thesis using ok add_loop_retains by (auto simp: add_members_def)
  next
    case (RemoveMembers j ms)
    then show ?thesis using ok suspend_loop_retains by (auto simp: remove_members_def queue_member_suspensions_def)
  next
    case (CreateCollection ow h n mode sz d)
    then show ?thesis using ok by (auto simp: create_collection_def Let_def)
  qed (use ok in \<open>auto simp: set_onboarding_size_def start_removal_session_def end_removal_session_def split: if_splits\<close>)
  moreover have "members_stay i s s'" if "y = Maintain local c" for local c
    using ok that maintenance_stays [OF calm, of cfg "env_now env" local c env] by auto
  moreover have "members_stay i s s'" if "y = RemoveRing j r" for j r
    using ok keep that calm enqueue_stays [OF calm] by (auto simp: remove_ring_def members_stay_def split: if_splits)
  moreover have "members_stay i s s'" if "y = DeleteCollection ow j" for ow j
    using ok keep that calm by (auto simp: delete_collection_def members_stay_def undisturbed_def members_deposit_def)
  ultimately show ?thesis by blast
qed

subsection \<open>A collection and its owner\<close>

text \<open>The steps that administer a collection, which are for its owner.\<close>

fun administers :: "'m members_op \<Rightarrow> coll_id \<Rightarrow> bool" where
  "administers (AddMembers i ms) j = (j = i)"
| "administers (RemoveMembers i ms) j = (j = i)"
| "administers (CreateCollection owner i n mode e delay) j = (j = i)"
| "administers (DeleteCollection owner i) j = (j = i)"
| "administers (StartRemoval i) j = (j = i)"
| "administers (EndRemoval i) j = (j = i)"
| "administers (RemoveRing i r) j = (j = i)"
| "administers _ j = False"

lemma administers_all:
  "\<not> administers y i \<Longrightarrow> \<not> adds_keys y i k" "\<not> administers y i \<Longrightarrow> \<not> creates y i m" "\<not> administers y i \<Longrightarrow> \<not> deletes y i"
  by (cases y; simp)+

definition collection_ok ::
  "('m, 'root, 'inter, 'c) members_config \<Rightarrow> coll_id \<Rightarrow> RingMode \<Rightarrow> ('m, 'root, 'inter) members_state \<Rightarrow> bool" where
  "collection_ok cfg i mode ms \<longleftrightarrow> members_config_ok cfg \<and> members_inv cfg ms \<and> root_inv cfg ms \<and>
     (\<forall>info. sget (Collections ms) i = Some info \<longrightarrow> ci_mode info = mode)"

text \<open>The members of the collection, and the keys in its rings, are keys of the owner's choice.\<close>

definition only_keys :: "('m \<Rightarrow> bool) \<Rightarrow> coll_id \<Rightarrow> ('m, 'root, 'inter) members_state \<Rightarrow> bool" where
  "only_keys P i ms \<longleftrightarrow> (\<forall>k. known ms i k \<longrightarrow> P k)"

lemma only_keys_mono: "only_keys P i ms \<Longrightarrow> (\<And>k. P k \<Longrightarrow> Q k) \<Longrightarrow> only_keys Q i ms"
  by (simp add: only_keys_def)

lemma collection_step:
  assumes inv: "collection_ok cfg i mode ms" "only_keys P i ms"
    and ok: "members_step cfg (env, y) ms = Inr ms'" and guard: "members_guard cfg (env, y) ms"
    and new: "\<And>k. adds_keys y i k \<Longrightarrow> P k" and mode: "\<And>m. creates y i m \<Longrightarrow> m = mode"
  shows "collection_ok cfg i mode ms'" and "only_keys P i ms'"
proof -
  have cfg: "members_config_ok cfg" "members_inv cfg ms" "root_inv cfg ms"
    using inv(1) by (simp_all add: collection_ok_def)
  show "collection_ok cfg i mode ms'"
    using members_step_inv [OF cfg(1,2) guard ok] members_step_root [OF cfg guard ok] cfg(1)
      members_step_adds(2) [OF ok, of i] mode inv(1)
    unfolding collection_ok_def by blast
  show "only_keys P i ms'"
    using members_step_adds(1) [OF ok] new inv(2) unfolding only_keys_def by blast
qed

lemma collection_other_step:
  assumes "collection_ok cfg i mode ms" and "only_keys P i ms" and "members_step cfg (env, y) ms = Inr ms'"
    and "members_guard cfg (env, y) ms" and "\<not> administers y i"
  shows "collection_ok cfg i mode ms'" and "only_keys P i ms'"
  using collection_step [OF assms(1-4)] administers_all [OF assms(5)] by blast+

lemma collection_add:
  assumes inv: "collection_ok cfg i mode ms" "only_keys P i ms" and ok: "add_members cfg now i [key] ms = Inr ms'" and key: "P key"
  shows "collection_ok cfg i mode ms'" and "only_keys P i ms'"
proof -
  have step: "members_step cfg (\<lparr>env_now = now, env_chunks = C\<rparr>, AddMembers i [key]) ms = Inr ms'" for C
    using ok by simp
  have guard: "members_guard cfg (\<lparr>env_now = now, env_chunks = C\<rparr>, AddMembers i [key]) ms" for C by simp
  show "collection_ok cfg i mode ms'" "only_keys P i ms'"
    by (rule collection_step [OF inv step guard]; use key in auto)+
qed

lemma collection_create:
  assumes inv: "collection_ok cfg i mode ms" "only_keys P i ms" and ok: "create_collection cfg owner i n mode e delay ms = Inr ms'"
  shows "collection_ok cfg i mode ms'" and "only_keys P i ms'"
proof -
  have step: "members_step cfg (env, CreateCollection owner i n mode e delay) ms = Inr ms'" for env
    using ok by simp
  have guard: "members_guard cfg (env, CreateCollection owner i n mode e delay) ms" for env by simp
  show "collection_ok cfg i mode ms'" "only_keys P i ms'"
    by (rule collection_step [OF inv step guard]; simp)+
qed

lemma collection_genesis:
  "members_config_ok cfg \<Longrightarrow> collection_ok cfg i mode members_genesis" "only_keys P i members_genesis" "undisturbed i members_genesis"
  using members_genesis_inv [of cfg]
  by (simp_all add: collection_ok_def only_keys_def known_def keys_of_def root_inv_def root_ok_none members_genesis_def
      undisturbed_def scontains_def)

lemma add_members_stays:
  assumes "undisturbed i ms" and "add_members cfg now i [key] ms = Inr ms'"
  shows "members_stay i ms ms'" and "scontains (Members ms') (i, key)"
proof -
  have "members_step cfg (\<lparr>env_now = now, env_chunks = C\<rparr>, AddMembers i [key]) ms = Inr ms'" for C
    using assms(2) by simp
  from members_step_stays [OF assms(1) this] show "members_stay i ms ms'" by simp
  show "scontains (Members ms') (i, key)"
    using assms(2) by (auto simp: add_members_def push_to_onboarding_queue_def Let_def members_deposit_def
        split: option.split_asm if_split_asm prod.split_asm)
qed

lemma create_collection_stays:
  assumes "undisturbed i ms" and "create_collection cfg owner j n mode e delay ms = Inr ms'"
  shows "members_stay i ms ms'"
proof -
  have "members_step cfg (env, CreateCollection owner j n mode e delay) ms = Inr ms'" for env
    using assms(2) by simp
  from members_step_stays [OF assms(1) this] show ?thesis by simp
qed

lemma verified_context:
  "verify_membership cfg pr i pf ring ctx msg ms = Inr rev_ca \<Longrightarrow> ca_context (rca_ca rev_ca) = ctx \<and> rca_ring rev_ca = ring"
  by (auto simp: verify_membership_def)

subsection \<open>Aliases of members\<close>

text \<open>
  The alias was proven against a root of the collection, of that ring and that revision, that was built from keys which
  are all of the owner's choice.
\<close>

definition ring_proven ::
  "('m, 'root, 'inter, 'c) members_config \<Rightarrow> ('proof, 'root) ring_prover \<Rightarrow> coll_id \<Rightarrow> ('m \<Rightarrow> bool) \<Rightarrow>
   ('m, 'root, 'inter) members_state \<Rightarrow> RevisedContextualAlias \<Rightarrow> bool" where
  "ring_proven cfg pr i P ms rev_ca \<longleftrightarrow> (\<exists>info root keys pf msg.
     sget (Collections ms) i = Some info \<and>
     sget (Root ms) (i, rca_ring rev_ca) = Some root \<and> rr_revision root = rca_revision rev_ca \<and>
     rr_root root = finish_members cfg (rr_intermediate root) \<and>
     built_from cfg (ci_ring_size info) keys (rr_intermediate root) \<and>
     (\<forall>key \<in> set keys. P key) \<and>
     validate_proof pr (ci_ring_size info) pf (rr_root root) (ca_context (rca_ca rev_ca)) msg = Some (ca_alias (rca_ca rev_ca)))"

lemma ring_key_known: "key \<in> set (ring_keys cap ms i r) \<Longrightarrow> known ms i key"
  by (auto simp: ring_keys_def intro: known_page)

lemma verified_ring_proven:
  assumes inv: "collection_ok cfg i mode ms" "only_keys P i ms"
    and ok: "verify_membership cfg pr i pf ring ctx msg ms = Inr rev_ca"
  shows "ring_proven cfg pr i P ms rev_ca"
proof -
  obtain info root al where live: "sget (Collections ms) i = Some info" and root: "sget (Root ms) (i, ring) = Some root"
    and pf: "validate_proof pr (ci_ring_size info) pf (rr_root root) ctx msg = Some al"
    and rev: "rev_ca = \<lparr>rca_revision = rr_revision root, rca_ring = ring, rca_ca = \<lparr>ca_alias = al, ca_context = ctx\<rparr>\<rparr>"
    using ok by (auto simp: verify_membership_def collection_exponent_def)
  let ?keys = "take (rs_included (status_of ms i ring)) (ring_keys (flexible_ring_capacity cfg) ms i ring)"
  have "root_inv cfg ms" using inv(1) by (simp add: collection_ok_def)
  then have built: "rr_root root = finish_members cfg (rr_intermediate root)"
    "built_from cfg (ci_ring_size info) ?keys (rr_intermediate root)"
    using root live by (auto simp: root_inv_def root_ok_def dest!: spec [of _ i] spec [of _ ring])
  have "P key" if "key \<in> set ?keys" for key
  proof -
    have "known ms i key" using that by (intro ring_key_known) (rule in_set_takeD)
    then show ?thesis using inv(2) by (simp add: only_keys_def)
  qed
  then show ?thesis using live root pf built unfolding ring_proven_def rev by fastforce
qed

end
