(* ===== verification/People_Steps.thy ===== *)
theory People_Steps
  imports People_Inv Members_Client
begin

text \<open>
  Every step of the people pallet on its chain keeps the invariant: its books, and the collection
  of people in the members pallet, whose members are keys of recognised persons.
\<close>

subsection \<open>The invariant\<close>

text \<open>The collection of people is flexible, and its members are keys of recognised persons.\<close>

abbreviation people_collection_ok ::
  "('m, 'root, 'inter, 'c) members_config \<Rightarrow> ('m, nat) storage \<Rightarrow> ('m, 'root, 'inter) members_state \<Rightarrow> bool" where
  "people_collection_ok cfg K ms \<equiv>
     collection_ok cfg PEOPLE_IDENTIFIER FlexibleRings ms \<and> only_keys (scontains K) PEOPLE_IDENTIFIER ms"

definition people_inv ::
  "('m, 'root, 'inter, 'c, 'proof, 'sig, 'x, 'r) people_config \<Rightarrow> (account_id \<Rightarrow> nat) \<Rightarrow>
   ('m, 'root, 'inter, 'r) people_state \<Rightarrow> bool" where
  "people_inv cfg k s \<longleftrightarrow> books_inv k s \<and> people_collection_ok (pc_members cfg) (Keys s) (ppl_members s)"

lemma people_inv_same:
  assumes "people_inv cfg k s" and "books_inv k s'" and "ppl_members s' = ppl_members s" and "Keys s' = Keys s"
  shows "people_inv cfg k s'"
  using assms by (simp add: people_inv_def)

lemma people_inv_genesis: "members_config_ok (pc_members cfg) \<Longrightarrow> people_inv cfg (\<lambda>_. 0) (people_genesis r)"
  by (simp add: people_inv_def people_genesis_def books_inv_def bound_maps_Nil id_accounts_def ids_ok_def scontains_def
      collection_genesis)

lemma people_coll:
  assumes "people_inv cfg k s"
  shows "collection_ok (pc_members cfg) PEOPLE_IDENTIFIER FlexibleRings (ppl_members s)"
    and "only_keys (scontains (Keys s)) PEOPLE_IDENTIFIER (ppl_members s)"
  using assms by (simp_all add: people_inv_def)

lemma recognize_keeps:
  assumes inv: "people_inv cfg k s" and ok: "recognize_personhood cfg env who key s = Inr s'"
  shows "people_inv cfg k s'"
proof -
  have books: "books_inv k s'" using recognize_books [OF _ ok] inv by (simp add: people_inv_def)
  note coll = people_coll [OF inv]
  from ok show ?thesis
  proof (cases rule: recognizeE)
    case (new key ms)
    then have "only_keys (scontains (Keys s')) PEOPLE_IDENTIFIER (ppl_members s)" using only_keys_mono [OF coll(2)] by simp
    from collection_add [OF coll(1) this new(4)] show ?thesis using books new(5) by (simp add: people_inv_def)
  next
    case (again person ms)
    then have "scontains (Keys s) (pr_key person)" by (simp add: scontains_def)
    then show ?thesis using books collection_add [OF coll again(4)] again(5) by (simp add: people_inv_def)
  qed
qed

lemma reserve_keeps: "people_inv cfg k s \<Longrightarrow> NextPersonalId s < u64_max \<Longrightarrow> people_inv cfg k (snd (reserve_new_id s))"
  using reserve_books [of k s] by (auto simp: people_inv_def reserve_new_id_def Let_def)

lemma recognize_next: "recognize_personhood cfg env who key s = Inr s' \<Longrightarrow> NextPersonalId s' = NextPersonalId s"
  by (erule recognizeE) simp_all

lemma force_loop_keeps:
  "people_inv cfg k s \<Longrightarrow> NextPersonalId s + length keys \<le> u64_max \<Longrightarrow> force_recognize_loop cfg env keys s = Inr s' \<Longrightarrow>
   people_inv cfg k s'"
proof (induction keys arbitrary: s)
  case (Cons key keys)
  let ?s1 = "snd (reserve_new_id s)"
  obtain s2 where s2: "recognize_personhood cfg env (fst (reserve_new_id s)) (Some key) ?s1 = Inr s2"
    and rest: "force_recognize_loop cfg env keys s2 = Inr s'"
    using Cons.prems(3) by (auto simp: case_prod_beta Let_def)
  have "people_inv cfg k ?s1" by (rule reserve_keeps [OF Cons.prems(1)]) (use Cons.prems(2) in simp)
  then have two: "people_inv cfg k s2" using s2 by (rule recognize_keeps)
  have "NextPersonalId ?s1 = NextPersonalId s + 1" using Cons.prems(2) by (simp add: reserve_new_id_def Let_def)
  then have "NextPersonalId s2 + length keys \<le> u64_max" using Cons.prems(2) recognize_next [OF s2] by simp
  from Cons.IH [OF two this rest] show ?case .
qed simp

lemma suspend_keeps:
  assumes inv: "people_inv cfg k s" and ok: "suspend_personhood cfg ids s = Inr s'"
    and there: "scontains (Collections (ppl_members s)) PEOPLE_IDENTIFIER"
  shows "people_inv cfg k s'"
proof -
  obtain keys s1 ms where loop: "suspend_persons ids [] s = Inr (keys, s1)"
    and rem: "remove_members (pc_members cfg) PEOPLE_IDENTIFIER keys (ppl_members s1) = Inr ms"
    and s': "s' = s1\<lparr>ppl_members := ms\<rparr>"
    using ok by (auto simp: suspend_personhood_def of_members_def)
  have b: "books_inv k s1" "ppl_members s1 = ppl_members s" "Keys s1 = Keys s"
    using suspend_persons_books [OF _ loop] suspend_persons_frame [OF loop] inv by (simp_all add: people_inv_def)
  note coll = people_coll [OF inv]
  have mode: "mode_is FlexibleRings PEOPLE_IDENTIFIER (ppl_members s)"
    using there coll(1) by (auto simp: mode_is_def collection_ok_def scontains_def split: option.splits)
  have step: "members_step (pc_members cfg) (env, RemoveMembers PEOPLE_IDENTIFIER keys) (ppl_members s) = Inr ms" for env
    using rem b(2) by simp
  have guard: "members_guard (pc_members cfg) (env, RemoveMembers PEOPLE_IDENTIFIER keys) (ppl_members s)" for env
    using mode by simp
  from collection_step [OF coll step guard] show ?thesis using b by (simp add: people_inv_def s')
qed

lemma session_keeps:
  assumes inv: "people_inv cfg k s"
    and ok: "start_people_set_mutation_session s = Inr s' \<or> end_people_set_mutation_session s = Inr s'"
  shows "people_inv cfg k s'"
proof -
  note coll = people_coll [OF inv]
  obtain y ms where y: "y = StartRemoval PEOPLE_IDENTIFIER \<or> y = EndRemoval PEOPLE_IDENTIFIER"
    and step: "\<And>env. members_step (pc_members cfg) (env, y) (ppl_members s) = Inr ms" and s': "s' = s\<lparr>ppl_members := ms\<rparr>"
    using ok by (fastforce simp: start_people_set_mutation_session_def end_people_set_mutation_session_def of_members_def)
  have "members_guard (pc_members cfg) (env, y) (ppl_members s)" for env using y by auto
  from collection_step [OF coll step this] show ?thesis using y inv by (auto simp: people_inv_def s')
qed

lemma create_collection_keeps:
  assumes inv: "people_inv cfg k s" and ok: "create_people_collection cfg origin s = Inr (p, s')"
  shows "people_inv cfg k s'"
proof -
  note coll = people_coll [OF inv]
  obtain ms where create: "create_collection (pc_members cfg) (pc_CollectionOwner cfg) PEOPLE_IDENTIFIER PEOPLE_ONBOARDING_SIZE
      FlexibleRings (pc_RingExponent cfg) (Some (pc_SelfInclusionDelay cfg)) (ppl_members s) = Inr ms"
    and s': "s' = ppl_deposit PplCollectionCreated (s\<lparr>ppl_members := ms, PeopleCollectionCreated := True\<rparr>)"
    using ok by (auto simp: create_people_collection_def of_members_def)
  from collection_create [OF coll create] show ?thesis using inv by (simp add: people_inv_def s')
qed

subsection \<open>Calls and steps\<close>

lemma bulk_same:
  "ppl_members (snd (clean_up_bulk aliases n s)) = ppl_members s \<and> Keys (snd (clean_up_bulk aliases n s)) = Keys s"
proof (induction aliases arbitrary: n s)
  case (Cons ca aliases)
  show ?case
  proof (cases "clean_up_one ca s")
    case (Some s1)
    then have "ppl_members s1 = ppl_members s" "Keys s1 = Keys s"
      by (auto simp: clean_up_one_def unbind_alias_def split: option.splits if_splits)
    then show ?thesis using Some Cons.IH by simp
  qed (use Cons.IH in simp)
qed simp

lemma swap_same [simp]:
  "ppl_members (ppl_swap_account old account s) = ppl_members s" "Keys (ppl_swap_account old account s) = Keys s"
  by (simp_all add: ppl_swap_account_def Let_def split: option.splits)

lemma set_alias_frame:
  "ppl_set_alias_account env origin account at s = Inr (p, s') \<Longrightarrow> ppl_members s' = ppl_members s \<and> Keys s' = Keys s"
  unfolding ppl_set_alias_account_def ok_or_Inr ensure_Inr Let_def by (elim exE conjE) (auto split: if_splits)

lemma account_calls_frame:
  "ppl_unset_alias_account origin s = Inr (p, s') \<Longrightarrow> ppl_members s' = ppl_members s \<and> Keys s' = Keys s"
  "set_personal_id_account env origin account at s = Inr (p, s') \<Longrightarrow> ppl_members s' = ppl_members s \<and> Keys s' = Keys s"
  "unset_personal_id_account origin s = Inr (p, s') \<Longrightarrow> ppl_members s' = ppl_members s \<and> Keys s' = Keys s"
  "clean_up_alias ca s = Inr s' \<Longrightarrow> ppl_members s' = ppl_members s \<and> Keys s' = Keys s"
  by (auto simp: ppl_unset_alias_account_def set_personal_id_account_def unset_personal_id_account_def
      clean_up_alias_def unbind_alias_def Let_def split: option.splits)

fun ids_left :: "('m, 'x) people_call \<Rightarrow> ('m, 'root, 'inter, 'r) people_state \<Rightarrow> bool" where
  "ids_left (ForceRecognizePersonhood keys) s = (NextPersonalId s + length keys \<le> u64_max)"
| "ids_left _ s = True"

lemma dispatch_keeps:
  "people_inv cfg k s \<Longrightarrow> people_dispatch cfg env origin call s = Inr (p, s') \<Longrightarrow> (origin = PplManager \<Longrightarrow> ids_left call s) \<Longrightarrow>
   people_inv cfg k s'"
proof (induction call arbitrary: origin s)
  case (UnderAlias call)
  then obtain rev_ca e where "people_dispatch cfg env (PersonalAlias rev_ca) call (ppl_deposit e s) = Inr (p, s')"
    by (auto simp: under_alias_def split: people_origin.splits)
  then show ?case
    using UnderAlias.IH [of "ppl_deposit e s" "PersonalAlias rev_ca"] UnderAlias.prems(1) by (simp add: people_inv_def)
next
  case (Ppl_SetAliasAccount account at)
  then show ?case
    using people_inv_same [OF Ppl_SetAliasAccount(1)] set_alias_books set_alias_frame by (fastforce simp: people_inv_def)
next
  case Ppl_UnsetAliasAccount
  then show ?case
    using people_inv_same [OF Ppl_UnsetAliasAccount(1)] unset_alias_books account_calls_frame(1) by (fastforce simp: people_inv_def)
next
  case (ForceRecognizePersonhood keys)
  then obtain s1 where loop: "origin = PplManager" "force_recognize_loop cfg env keys s = Inr s1"
    and s': "s' = ppl_deposit (ForcePersonhoodRecognized keys) s1"
    by (auto simp: force_recognize_personhood_def)
  show ?case using force_loop_keeps [OF ForceRecognizePersonhood(1) _ loop(2)] ForceRecognizePersonhood(3) loop(1) s'
    by (simp add: people_inv_def)
next
  case (SetPersonalIdAccount account at)
  then show ?case
    using people_inv_same [OF SetPersonalIdAccount(1)] set_personal_books account_calls_frame(2) by (fastforce simp: people_inv_def)
next
  case UnsetPersonalIdAccount
  then show ?case
    using people_inv_same [OF UnsetPersonalIdAccount(1)] unset_personal_books account_calls_frame(3) by (fastforce simp: people_inv_def)
next
  case CreatePeopleCollection
  then show ?case using create_collection_keeps by simp
next
  case (CleanUpStaleAliases aliases)
  then have "s' = snd (clean_up_bulk aliases 0 s)"
    by (auto simp: clean_up_stale_aliases_def Let_def split: prod.splits)
  then show ?case
    using CleanUpStaleAliases(1) clean_up_bulk_books [of k s aliases 0] bulk_same [of aliases 0 s] by (simp add: people_inv_def)
next
  case (OtherPalletCall x)
  then show ?case by (auto simp: people_inv_def)
qed

lemma prepare_keeps:
  assumes inv: "people_inv cfg k s" and valid: "as_person_validate cfg env imp ext origin call s = Inr (v, origin')"
    and ok: "as_person_prepare cfg v s = Inr s1"
  shows "people_inv cfg k s1"
proof (cases "\<exists>who nonce rev_ca. v = UsingAccountWithRevisionUpdate who nonce rev_ca")
  case True
  then obtain who nonce rev_ca where v: "v = UsingAccountWithRevisionUpdate who nonce rev_ca" by blast
  obtain old where old: "sget (ppl_AccountToAlias s) who = Some old" and same: "rca_ca rev_ca = rca_ca old"
  proof (cases ext)
    case (Some i)
    then obtain pf ring ctx where i: "i = AsPersonalAliasWithAccountRevised nonce pf ring ctx"
      using valid v by (cases i) (auto simp: validate_alias_with_account_def validate_alias_revised_def validate_identity_with_account_def
        validate_alias_with_proof_def validate_identity_with_proof_def setup_time_check_def split: people_origin.splits people_call.splits)
    then show thesis
      using that valid v Some verified_context
      by (fastforce simp: validate_alias_revised_def split: people_origin.splits intro!: ContextualAlias.equality)
  qed (use valid v in simp)
  obtain r where s1: "s1 = s\<lparr>ppl_AccountToAlias := sput who rev_ca (ppl_AccountToAlias s), ppl_rest := r\<rparr>"
    using ok by (auto simp: v as_person_prepare_def ppl_prepare_nonce_def)
  have books: "books_inv k s" using inv by (simp add: people_inv_def)
  have held: "scontains (ppl_AccountToAlias s) who" using old by (simp add: scontains_def)
  have "books_inv k s1"
    unfolding s1 books_inv_frame
    using books bound_maps_renew(1) [OF books_invD(2) [OF books] old same] refs_cover_renew [OF books_invD(6) [OF books] held]
      books_invD(4) [OF books] held
    by (auto simp: books_inv_def)
  then show ?thesis using inv by (simp add: people_inv_def s1)
next
  case False
  then show ?thesis using ok inv by (cases v) (auto simp: as_person_prepare_def ppl_prepare_nonce_def people_inv_def)
qed

text \<open>
  What the environment has to respect: the identifiers do not run out of their \<open>u64\<close>; nobody is suspended before the
  collection is created; and the collection of people is administered by this pallet only.
\<close>

fun people_guard ::
  "('m, 'root, 'inter, 'c, 'proof, 'sig, 'x, 'r) people_config \<Rightarrow> people_env \<times> ('m, 'c, 'proof, 'sig, 'x) people_op \<Rightarrow>
   ('m, 'root, 'inter, 'r) people_state \<Rightarrow> bool" where
  "people_guard cfg (env, ReserveId) s = (NextPersonalId s < u64_max)"
| "people_guard cfg (env, PplGovernance call) s = ids_left call s"
| "people_guard cfg (env, SuspendPersonhood ids) s = scontains (Collections (ppl_members s)) PEOPLE_IDENTIFIER"
| "people_guard cfg (env, OfMembers menv y) s = (\<not> administers y PEOPLE_IDENTIFIER \<and> members_guard (pc_members cfg) (menv, y) (ppl_members s))"
| "people_guard cfg (env, _) s = True"

lemma validated_origin:
  "as_person_validate cfg env imp ext (case signer of Some who \<Rightarrow> PplSigned who | None \<Rightarrow> PplNone) call s = Inr (v, origin) \<Longrightarrow>
   origin \<noteq> PplManager \<and> origin \<noteq> PplAuthorized"
  by (cases "(cfg, env, imp, ext, if signer = None then PplNone else PplSigned (the signer), call, s)" rule: as_person_validate.cases)
     (auto simp: validate_alias_with_account_def validate_alias_revised_def validate_identity_with_account_def
        validate_alias_with_proof_def validate_identity_with_proof_def setup_time_check_def
        split: people_origin.splits people_call.splits option.splits)

lemma transaction_keeps:
  assumes inv: "people_inv cfg k s" and ok: "people_transaction cfg env ext signer imp call s = Inr s'"
  shows "people_inv cfg k s'"
proof -
  obtain v origin s1 where valid: "as_person_validate cfg env imp ext
        (case signer of Some who \<Rightarrow> PplSigned who | None \<Rightarrow> PplNone) call s = Inr (v, origin)"
    and prep: "as_person_prepare cfg v s = Inr s1"
    and s': "s' = (case people_dispatch cfg env origin call s1 of Inl _ \<Rightarrow> s1 | Inr (_, s2) \<Rightarrow> s2)"
    using ok by (auto simp: people_transaction_def)
  have one: "people_inv cfg k s1" by (rule prepare_keeps [OF inv valid prep])
  have "people_inv cfg k s2" if "people_dispatch cfg env origin call s1 = Inr (p, s2)" for p s2
    using dispatch_keeps [OF one that] validated_origin [OF valid] by simp
  then show ?thesis using one by (auto simp: s' split: sum.splits prod.splits)
qed

lemma people_step_keeps:
  assumes inv: "people_inv cfg k s" and guard: "people_guard cfg x s" and ok: "people_step cfg x s = Inr s'"
  shows "people_inv cfg k s'"
proof -
  obtain env y where x: "x = (env, y)" by fastforce
  have books: "books_inv k s" using inv by (simp add: people_inv_def)
  note same = people_inv_same [OF inv]
  show ?thesis
  proof (cases y)
    case (PplTransaction ext signer imp call)
    then show ?thesis using transaction_keeps [OF inv] ok x by simp
  next
    case (PplUnsigned local call)
    then obtain p where "people_dispatch cfg env PplAuthorized call s = Inr (p, s')" using ok x by auto
    from dispatch_keeps [OF inv this] show ?thesis by simp
  next
    case (PplGovernance call)
    then obtain p where "people_dispatch cfg env PplManager call s = Inr (p, s')" using ok x by auto
    from dispatch_keeps [OF inv this] show ?thesis using guard x PplGovernance by simp
  next
    case ReserveId
    then show ?thesis using reserve_keeps [OF inv] ok guard x by auto
  next
    case (CancelReservation who)
    then have "cancel_id_reservation who s = Inr s'" using ok x by simp
    then show ?thesis using cancel_books [OF books] by (intro same) (auto simp: cancel_id_reservation_def)
  next
    case (RenewReservation who)
    then have "renew_id_reservation who s = Inr s'" using ok x by simp
    then show ?thesis using renew_books [OF books] by (intro same) (auto simp: renew_id_reservation_def split: if_splits)
  next
    case (RecognizePersonhood who key)
    then show ?thesis using recognize_keeps [OF inv] ok x by simp
  next
    case (SuspendPersonhood ids)
    then show ?thesis using suspend_keeps [OF inv] ok guard x by simp
  next
    case (CleanUpAliasOf ca)
    then have "clean_up_alias ca s = Inr s'" using ok x by simp
    then show ?thesis using clean_up_alias_books [OF books] account_calls_frame(4) by (intro same) blast+
  next
    case (OfMembers menv z)
    then obtain ms where step: "members_step (pc_members cfg) (menv, z) (ppl_members s) = Inr ms" and s': "s' = s\<lparr>ppl_members := ms\<rparr>"
      using ok x by auto
    have z: "\<not> administers z PEOPLE_IDENTIFIER" "members_guard (pc_members cfg) (menv, z) (ppl_members s)"
      using guard x OfMembers by simp_all
    from collection_other_step [OF people_coll [OF inv] step z(2,1)] show ?thesis using inv by (simp add: people_inv_def s')
  qed (use session_keeps [OF inv] ok x in auto)
qed

interpretation people: pallet_contract "people_step cfg" "people_inv cfg k" "people_guard cfg" for cfg k
  by unfold_locales (rule people_step_keeps)

lemma people_reachable:
  assumes "members_config_ok (pc_members cfg)" and "guarded_run (people_step cfg) (people_guard cfg) ops (people_genesis r)"
  shows "people_inv cfg (\<lambda>_. 0) (run_calls (people_step cfg) ops (people_genesis r))"
  by (rule people.run_keeps [OF people_inv_genesis [OF assms(1)] assms(2)])

end
