(* ===== verification/People_Demo.thy ===== *)
theory People_Demo
  imports People_Steps Members_Worker
begin

text \<open>
  A concrete chain for the witnesses of the people pallet: ten persons in one ring, of whom one has bound an
  account to an alias and another one an account to the identity.
\<close>

definition demo_pop :: "(nat, nat list, nat list, nat, nat, nat, unit, unit) people_config" where
  "demo_pop = \<lparr>pc_members = demo_members\<lparr>OnboardingQueuePageSize := 10, RingBuildingMemberLimit := 16, ring_capacity := \<lambda>_. 20\<rparr>,
     pc_prover = demo_ring_prover, pc_verify_signature = (\<lambda>sig _ key. sig = key), pc_RingExponent = R2e9, pc_CollectionOwner = [7],
     pc_StaleAliasCleanupInterval = 2, pc_SelfInclusionDelay = 5, pc_blake2 = id, pc_check_nonce = (\<lambda>_ _ _. True),
     pc_prepare_nonce = (\<lambda>_ _ r. Some r), pc_other_call = (\<lambda>_ _ r. Inr (PaysYes, r))\<rparr>"

definition demo_block :: "nat \<Rightarrow> people_env" where
  "demo_block n = \<lparr>ppl_block = n, ppl_now = n, AccountContexts = (\<lambda>c. c = [3])\<rparr>"

text \<open>The same after governance has removed the context.\<close>

definition demo_closed :: "nat \<Rightarrow> people_env" where
  "demo_closed n = \<lparr>ppl_block = n, ppl_now = n, AccountContexts = (\<lambda>_. False)\<rparr>"

definition demo_people_ops :: "(people_env \<times> (nat, nat, nat, nat, unit) people_op) list" where
  "demo_people_ops = [
     (demo_block 1, PplUnsigned True CreatePeopleCollection),
     (demo_block 1, PplGovernance (ForceRecognizePersonhood [21, 22, 23, 24, 25, 26, 27, 28, 29, 30])),
     (demo_block 2, OfMembers (demo_env 11) (Maintain True (OnboardMembers PEOPLE_IDENTIFIER 0 0 (Some 21)))),
     (demo_block 3, OfMembers (demo_env 12) (Maintain True (BuildRing PEOPLE_IDENTIFIER 0 R2e9 None 10))),
     (demo_block 700, PplTransaction (Some (AsPersonalAliasWithProof 21 0 [3])) None [1] (Ppl_SetAliasAccount [8] 600)),
     (demo_block 701, PplTransaction (Some (AsPersonalIdentityWithProof 22 1)) None [2] (SetPersonalIdAccount [9] 600)),
     (demo_block 702, StartMutations)]"

abbreviation demo_people_run :: "(people_env \<times> (nat, nat, nat, nat, unit) people_op) list \<Rightarrow> (nat, nat list, nat list, unit) people_state" where
  "demo_people_run ops \<equiv> run_calls (people_step demo_pop) ops (people_genesis ())"

abbreviation demo_personal :: RevisedContextualAlias where
  "demo_personal \<equiv> \<lparr>rca_revision = 0, rca_ring = 0, rca_ca = \<lparr>ca_alias = [21], ca_context = [3]\<rparr>\<rparr>"

lemma demo_pop_ok: "members_config_ok (pc_members demo_pop)"
  by (simp add: members_config_ok_def members_integrity_test_def demo_pop_def demo_members_def flexible_ring_capacity_def
      ALL_exponents_def split: RingExponent.splits)

lemma demo_pop_guard: "guarded_run (people_step demo_pop) (people_guard demo_pop) demo_people_ops (people_genesis ())"
  by code_simp

lemma demo_pop_accounts:
  "sget (ppl_AccountToAlias (demo_people_run demo_people_ops)) [8] = Some demo_personal"
  "sget (People (demo_people_run demo_people_ops)) 1 = Some \<lparr>pr_key = 22, pr_account = Some [9]\<rparr>"
  "ppl_refs (demo_people_run demo_people_ops) = [IncSufficients [8], IncSufficients [9]]"
  by code_simp+

lemma demo_pop_extension:
  "as_person_validate demo_pop (demo_block 703) [4] (Some (AsPersonalAliasWithAccount 0)) (PplSigned [8])
     (OtherPalletCall ()) (demo_people_run demo_people_ops) = Inr (Ppl_UsingAccount [8] 0, PersonalAlias demo_personal)"
  by code_simp

text \<open>The person with an account is suspended, and the account is bound to nothing any more.\<close>

definition demo_suspended :: "(nat, nat list, nat list, unit) people_state" where
  "demo_suspended = (case suspend_personhood demo_pop [1] (demo_people_run demo_people_ops) of Inr s \<Rightarrow> s | Inl _ \<Rightarrow> people_genesis ())"

lemma demo_suspends:
  "suspend_personhood demo_pop [1] (demo_people_run demo_people_ops) = Inr demo_suspended"
  "scontains (Collections (ppl_members (demo_people_run demo_people_ops))) PEOPLE_IDENTIFIER"
  by code_simp+

lemma demo_worker:
  "people_offchain_worker demo_pop (demo_closed 704) (demo_people_run demo_people_ops) =
     Some (CleanUpStaleAliases [\<lparr>ca_alias = [21], ca_context = [3]\<rparr>])"
  by code_simp

end
