(* ===== verification/People_Claims.thy ===== *)
theory People_Claims
  imports People_Demo
begin

text \<open>The properties of the people pallet on its chain.\<close>

abbreviation people_run ::
  "('m, 'root, 'inter, 'c, 'proof, 'sig, 'x, 'r) people_config \<Rightarrow> (people_env \<times> ('m, 'c, 'proof, 'sig, 'x) people_op) list \<Rightarrow>
   'r \<Rightarrow> ('m, 'root, 'inter, 'r) people_state" where
  "people_run cfg ops r \<equiv> run_calls (people_step cfg) ops (people_genesis r)"

subsection \<open>The books\<close>

text \<open>C32: after any steps, in whatever order, a key belongs to at most one person and a person has one key; an account speaks
  for at most one person or at most one alias, never both, and the lookups in both directions agree; a reserved
  identifier is nobody's; and the pallet holds a reference of \<open>frame_system\<close> for every account in use and
  has never released a reference it did not hold.\<close>

theorem people_books_balance:
  assumes "members_config_ok (pc_members cfg)" and "guarded_run (people_step cfg) (people_guard cfg) ops (people_genesis r)"
    and s: "s = people_run cfg ops r"
  shows "(\<forall>key who. sget (Keys s) key = Some who \<longleftrightarrow> (\<exists>person. sget (People s) who = Some person \<and> pr_key person = key)) \<and>
    (\<forall>a who. sget (AccountToPersonalId s) a = Some who \<longleftrightarrow> (\<exists>person. sget (People s) who = Some person \<and> pr_account person = Some a)) \<and>
    (\<forall>ca a. sget (ppl_AliasToAccount s) ca = Some a \<longleftrightarrow> (\<exists>info. sget (ppl_AccountToAlias s) a = Some info \<and> rca_ca info = ca)) \<and>
    (\<forall>a. \<not> (scontains (AccountToPersonalId s) a \<and> scontains (ppl_AccountToAlias s) a)) \<and>
    (\<forall>who. scontains (ReservedPersonalId s) who \<longrightarrow> \<not> scontains (People s) who) \<and>
    (\<forall>a. (if scontains (AccountToPersonalId s) a \<or> scontains (ppl_AccountToAlias s) a then 1 else 0) \<le> net_refs (ppl_refs s) a) \<and>
    (\<forall>n a. 0 \<le> net_refs (take n (ppl_refs s)) a)"
proof -
  have books: "books_inv (\<lambda>_. 0) s" using people_reachable [OF assms(1,2)] by (simp add: s people_inv_def)
  have refs: "never_below (ppl_refs s)"
    "int (holders (AccountToPersonalId s) a + holders (ppl_AccountToAlias s) a) \<le> net_refs (ppl_refs s) a" for a
    using books_invD(6) [OF books] by (simp_all add: refs_cover_def)
  have "(if scontains (AccountToPersonalId s) a \<or> scontains (ppl_AccountToAlias s) a then 1 else 0) \<le> net_refs (ppl_refs s) a" for a
    using refs(2) [of a] books_invD(4) [OF books, of a] by (auto simp: holders_def split: if_splits)
  moreover have "\<not> scontains (People s) who" if "scontains (ReservedPersonalId s) who" for who
    using that books_invD(5) [OF books] by (auto simp: ids_ok_def)
  ultimately show ?thesis
    using books_invD(1-4) [OF books] refs(1) unfolding bound_maps_def id_accounts_def never_below_def by blast
qed

subsection \<open>Where a personal alias comes from\<close>

abbreviation signer_origin :: "account_id option \<Rightarrow> people_origin" where
  "signer_origin signer \<equiv> (case signer of Some who \<Rightarrow> PplSigned who | None \<Rightarrow> PplNone)"

text \<open>The alias was verified against a root of the collection that commits to keys of recognised persons.\<close>

definition proven_alias ::
  "('m, 'root, 'inter, 'c, 'proof, 'sig, 'x, 'r) people_config \<Rightarrow> ('m, 'root, 'inter, 'r) people_state \<Rightarrow>
   RevisedContextualAlias \<Rightarrow> bool" where
  "proven_alias cfg s rev_ca = ring_proven (pc_members cfg) (pc_prover cfg) PEOPLE_IDENTIFIER
     (\<lambda>key. \<exists>who person. sget (People s) who = Some person \<and> pr_key person = key) (ppl_members s) rev_ca"

lemma verified_alias_proven:
  assumes inv: "people_inv cfg k s"
    and ok: "verify_membership (pc_members cfg) (pc_prover cfg) PEOPLE_IDENTIFIER pf ring ctx msg (ppl_members s) = Inr rev_ca"
  shows "proven_alias cfg s rev_ca"
  unfolding proven_alias_def
proof (rule verified_ring_proven [OF people_coll(1) [OF inv] _ ok], rule only_keys_mono [OF people_coll(2) [OF inv]])
  fix key
  assume "scontains (Keys s) key"
  then show "\<exists>who person. sget (People s) who = Some person \<and> pr_key person = key"
    using bound_mapsD(2) [OF books_invD(1)] inv by (fastforce simp: people_inv_def scontains_def)
qed

lemma validated_alias:
  assumes inv: "people_inv cfg k s"
    and ok: "as_person_validate cfg env imp ext (signer_origin signer) call s = Inr (v, PersonalAlias rev_ca)"
  shows "proven_alias cfg s rev_ca \<or> (\<exists>who. sget (ppl_AccountToAlias s) who = Some rev_ca)"
proof (cases ext)
  case None
  then show ?thesis using ok by (cases signer) simp_all
next
  case (Some i)
  then show ?thesis
    using ok verified_alias_proven [OF inv]
    by (cases i) (auto simp: validate_alias_with_account_def validate_alias_revised_def validate_identity_with_account_def
        validate_alias_with_proof_def validate_identity_with_proof_def setup_time_check_def
        split: people_origin.splits people_call.splits option.splits)
qed

text \<open>An alias is stored only when the origin of the call is that alias.\<close>

lemma set_alias_stores:
  assumes "ppl_set_alias_account env origin account at s = Inr (p, s')" and "sget (ppl_AccountToAlias s') w = Some rev_ca"
  shows "(\<exists>v. sget (ppl_AccountToAlias s) v = Some rev_ca) \<or> origin = PersonalAlias rev_ca"
proof -
  let ?s1 = "\<lambda>new. if sget (ppl_AliasToAccount s) (rca_ca new) \<noteq> Some account
    then ppl_swap_account (sget (ppl_AliasToAccount s) (rca_ca new)) account s else s"
  obtain new where origin: "origin = PersonalAlias new"
    and s': "ppl_AccountToAlias s' = sput account new (ppl_AccountToAlias (?s1 new))"
    using assms(1) unfolding ppl_set_alias_account_def ok_or_Inr ensure_Inr Let_def
    by (auto simp: ensure_revised_personal_alias_def split: people_origin.split_asm)
  have "sget (ppl_AccountToAlias (?s1 new)) w = Some x \<Longrightarrow> sget (ppl_AccountToAlias s) w = Some x" for x
    by (auto simp: ppl_swap_account_def Let_def split: option.split_asm if_split_asm)
  then show ?thesis using assms(2) origin by (auto simp: s' split: if_split_asm)
qed

lemma unbind_keeps_aliases:
  "sget (ppl_AccountToAlias (unbind_alias ca account s)) w = Some x \<Longrightarrow> sget (ppl_AccountToAlias s) w = Some x"
  by (simp add: unbind_alias_def split: if_splits)

lemma bulk_keeps_aliases:
  "sget (ppl_AccountToAlias (snd (clean_up_bulk aliases n s))) w = Some x \<Longrightarrow> sget (ppl_AccountToAlias s) w = Some x"
proof (induction aliases arbitrary: n s)
  case (Cons ca aliases)
  show ?case
  proof (cases "clean_up_one ca s")
    case (Some s1)
    then have "sget (ppl_AccountToAlias s1) w = Some x" using Cons by simp
    then show ?thesis using Some unbind_keeps_aliases by (fastforce simp: clean_up_one_def split: option.split_asm if_split_asm)
  qed (use Cons in simp)
qed simp

lemma force_loop_aliases:
  "force_recognize_loop cfg env keys s = Inr s' \<Longrightarrow> ppl_AccountToAlias s' = ppl_AccountToAlias s"
proof (induction keys arbitrary: s)
  case (Cons key keys)
  then obtain s2 where s2: "recognize_personhood cfg env (fst (reserve_new_id s)) (Some key) (snd (reserve_new_id s)) = Inr s2"
    and rest: "force_recognize_loop cfg env keys s2 = Inr s'"
    by (auto simp: case_prod_beta Let_def)
  have "ppl_AccountToAlias s2 = ppl_AccountToAlias (snd (reserve_new_id s))" using s2 by (rule recognizeE) simp_all
  then show ?case using Cons.IH [OF rest] by (simp add: reserve_new_id_def Let_def)
qed simp

lemma dispatch_stores:
  "people_dispatch cfg env origin call s = Inr (p, s') \<Longrightarrow> sget (ppl_AccountToAlias s') w = Some rev_ca \<Longrightarrow>
   (\<exists>v. sget (ppl_AccountToAlias s) v = Some rev_ca) \<or> origin = PersonalAlias rev_ca"
proof (induction call arbitrary: origin s)
  case (UnderAlias call)
  then obtain stored e account where "people_dispatch cfg env (PersonalAlias stored) call (ppl_deposit e s) = Inr (p, s')"
    and "sget (ppl_AccountToAlias s) account = Some stored"
    by (auto simp: under_alias_def split: people_origin.splits)
  with UnderAlias.IH [OF this(1) UnderAlias.prems(2)] show ?case by auto
next
  case (Ppl_SetAliasAccount account at)
  then show ?case using set_alias_stores by simp
next
  case Ppl_UnsetAliasAccount
  then show ?case using unbind_keeps_aliases by (fastforce simp: ppl_unset_alias_account_def)
next
  case (ForceRecognizePersonhood keys)
  then show ?case using force_loop_aliases by (fastforce simp: force_recognize_personhood_def)
next
  case (CleanUpStaleAliases aliases)
  then have "s' = snd (clean_up_bulk aliases 0 s)" by (auto simp: clean_up_stale_aliases_def Let_def split: prod.splits)
  then show ?case using CleanUpStaleAliases.prems(2) bulk_keeps_aliases by blast
next
  case (SetPersonalIdAccount account at)
  then have "ppl_AccountToAlias s' = ppl_AccountToAlias s" by (auto simp: set_personal_id_account_def Let_def split: option.splits)
  then show ?case using SetPersonalIdAccount.prems(2) by auto
qed (auto simp: unset_personal_id_account_def create_people_collection_def Let_def)

lemma prepare_stores:
  assumes "as_person_prepare cfg v s = Inr s1"
    and "as_person_validate cfg env imp ext (signer_origin signer) call s = Inr (v, origin)"
    and "sget (ppl_AccountToAlias s1) w = Some rev_ca"
  shows "sget (ppl_AccountToAlias s) w = Some rev_ca \<or> origin = PersonalAlias rev_ca"
proof (cases "\<exists>who nonce new. v = UsingAccountWithRevisionUpdate who nonce new")
  case True
  then obtain who nonce new where v: "v = UsingAccountWithRevisionUpdate who nonce new" by blast
  have "origin = PersonalAlias new"
  proof (cases ext)
    case (Some i)
    then show ?thesis
      using assms(2) v by (cases i) (auto simp: validate_alias_with_account_def validate_alias_revised_def
        validate_identity_with_account_def validate_alias_with_proof_def validate_identity_with_proof_def setup_time_check_def
        split: people_origin.splits people_call.splits option.splits)
  qed (use assms(2) v in simp)
  then show ?thesis using assms(1,3) by (auto simp: v as_person_prepare_def ppl_prepare_nonce_def split: if_split_asm)
next
  case False
  then show ?thesis using assms(1,3) by (cases v) (auto simp: as_person_prepare_def ppl_prepare_nonce_def)
qed

lemma suspend_stores: "suspend_personhood cfg ids s = Inr s' \<Longrightarrow> ppl_AccountToAlias s' = ppl_AccountToAlias s"
  by (auto simp: suspend_personhood_def of_members_def dest!: suspend_persons_frame)

lemma step_stores:
  assumes inv: "people_inv cfg k s" and ok: "people_step cfg (env, y) s = Inr s'" and w: "sget (ppl_AccountToAlias s') w = Some rev_ca"
  shows "(\<exists>v. sget (ppl_AccountToAlias s) v = Some rev_ca) \<or> proven_alias cfg s rev_ca"
proof (cases y)
  case (PplTransaction ext signer imp call)
  then have "people_transaction cfg env ext signer imp call s = Inr s'" using ok by simp
  then obtain v origin s1 where valid: "as_person_validate cfg env imp ext (signer_origin signer) call s = Inr (v, origin)"
    and prep: "as_person_prepare cfg v s = Inr s1"
    and s': "s' = (case people_dispatch cfg env origin call s1 of Inl _ \<Rightarrow> s1 | Inr (_, s2) \<Rightarrow> s2)"
    by (auto simp: people_transaction_def)
  have "(\<exists>v. sget (ppl_AccountToAlias s1) v = Some rev_ca) \<or> origin = PersonalAlias rev_ca"
    using w dispatch_stores [of cfg env origin call s1] by (fastforce simp: s' split: sum.split_asm prod.split_asm)
  then have "(\<exists>v. sget (ppl_AccountToAlias s) v = Some rev_ca) \<or> origin = PersonalAlias rev_ca"
    using prepare_stores [OF prep valid] by blast
  then show ?thesis using validated_alias [OF inv] valid by blast
next
  case (PplUnsigned local call)
  then obtain p where "people_dispatch cfg env PplAuthorized call s = Inr (p, s')" using ok by auto
  from dispatch_stores [OF this w] show ?thesis by simp
next
  case (PplGovernance call)
  then obtain p where "people_dispatch cfg env PplManager call s = Inr (p, s')" using ok by auto
  from dispatch_stores [OF this w] show ?thesis by simp
next
  case (RecognizePersonhood who key)
  then have "recognize_personhood cfg env who key s = Inr s'" using ok by simp
  then have "ppl_AccountToAlias s' = ppl_AccountToAlias s" by (rule recognizeE) simp_all
  then show ?thesis using w by auto
next
  case (SuspendPersonhood ids)
  then show ?thesis using ok w suspend_stores by fastforce
next
  case (CleanUpAliasOf ca)
  then show ?thesis using ok w unbind_keeps_aliases by (fastforce simp: clean_up_alias_def)
qed (use ok w in \<open>auto simp: reserve_new_id_def cancel_id_reservation_def renew_id_reservation_def Let_def
      start_people_set_mutation_session_def end_people_set_mutation_session_def split: if_splits\<close>)

text \<open>C31: whenever a transaction gets the origin of a personal alias, in whichever way, a ring proof of that alias has been verified, now or
  at an earlier moment: against the root of that ring and that revision of the collection of people, a
  root built from keys that were all keys of recognised persons.\<close>

theorem personal_alias_traced:
  assumes "members_config_ok (pc_members cfg)" and "guarded_run (people_step cfg) (people_guard cfg) ops (people_genesis r)"
    and ok: "as_person_validate cfg env imp ext (signer_origin signer) call (people_run cfg ops r) = Inr (v, PersonalAlias rev_ca)"
  shows "\<exists>n \<le> length ops. proven_alias cfg (people_run cfg (take n ops) r) rev_ca"
proof -
  have inv: "people_inv cfg (\<lambda>_. 0) (people_run cfg (take n ops) r)" for n
    by (rule people_reachable [OF assms(1) guarded_run_take [OF assms(2)]])
  have inv_ops: "people_inv cfg (\<lambda>_. 0) (people_run cfg ops r)" using inv [of "length ops"] by simp
  show ?thesis
  proof (cases "\<exists>w. sget (ppl_AccountToAlias (people_run cfg ops r)) w = Some rev_ca")
    case True
    then obtain n s' where n: "n < length ops" and new: "\<nexists>w. sget (ppl_AccountToAlias (people_run cfg (take n ops) r)) w = Some rev_ca"
      and step: "people_step cfg (ops ! n) (people_run cfg (take n ops) r) = Inr s'"
      and "\<exists>w. sget (ppl_AccountToAlias s') w = Some rev_ca"
      using run_calls_brings [of "\<lambda>s. \<exists>w. sget (ppl_AccountToAlias s) w = Some rev_ca" "people_step cfg" ops "people_genesis r"]
      by (auto simp: people_genesis_def)
    moreover obtain env y where "ops ! n = (env, y)" by fastforce
    ultimately have "proven_alias cfg (people_run cfg (take n ops) r) rev_ca" using step_stores [OF inv, of env y] by metis
    then show ?thesis using n less_imp_le by blast
  next
    case False
    then show ?thesis using validated_alias [OF inv_ops ok] by auto
  qed
qed

subsection \<open>Suspension\<close>

lemma refs_cover_lost:
  assumes cover: "refs_cover k cs A B" and held: "scontains A a"
  shows "refs_cover (k(a := k a + 1)) cs (sdel a A) B"
proof -
  have ge: "int (holders A b + holders B b + k b) \<le> net_refs cs b" for b using cover by (simp add: refs_cover_def)
  show ?thesis using cover held ge [of a] ge by (auto simp: refs_cover_def holders_def)
qed

text \<open>C34: suspending a person who has a personal account takes the account away from the person but keeps the reference of
  \<open>frame_system\<close> that was taken for it: whatever happens afterwards, and also when the account has long been bound to nothing,
  the pallet still holds a reference of it, so the account can never be reaped.\<close>

theorem suspension_leaks_reference:
  assumes "members_config_ok (pc_members cfg)" and "guarded_run (people_step cfg) (people_guard cfg) ops (people_genesis r)"
    and person: "sget (People (people_run cfg ops r)) who = Some person" "pr_account person = Some a"
    and suspended: "suspend_personhood cfg [who] (people_run cfg ops r) = Inr s1"
    and there: "scontains (Collections (ppl_members (people_run cfg ops r))) PEOPLE_IDENTIFIER"
    and later: "guarded_run (people_step cfg) (people_guard cfg) more_ops s1"
  shows "sget (AccountToPersonalId s1) a = None \<and> ppl_refs s1 = ppl_refs (people_run cfg ops r) \<and>
    (let s2 = run_calls (people_step cfg) more_ops s1 in
       \<not> scontains (AccountToPersonalId s2) a \<and> \<not> scontains (ppl_AccountToAlias s2) a \<longrightarrow> 1 \<le> net_refs (ppl_refs s2) a)"
proof -
  let ?s = "people_run cfg ops r"
  have inv: "people_inv cfg (\<lambda>_. 0) ?s" by (rule people_reachable [OF assms(1,2)])
  then have books: "books_inv (\<lambda>_. 0) ?s" by (simp add: people_inv_def)
  have inv1: "people_inv cfg (\<lambda>_. 0) s1" by (rule suspend_keeps [OF inv suspended there])
  obtain ms where s1: "s1 = ?s\<lparr>AccountToPersonalId := sdel a (AccountToPersonalId ?s),
      People := sput who (person\<lparr>pr_account := None\<rparr>) (People ?s), ppl_members := ms\<rparr>"
    using suspended person by (auto simp: suspend_personhood_def Let_def of_members_def)
  have "scontains (AccountToPersonalId ?s) a"
    using books_invD(3) [OF books] person by (auto simp: id_accounts_def scontains_def)
  then have "refs_cover ((\<lambda>_. 0)(a := 0 + 1)) (ppl_refs s1) (AccountToPersonalId s1) (ppl_AccountToAlias s1)"
    using refs_cover_lost [OF books_invD(6) [OF books]] by (simp add: s1)
  then have "people_inv cfg ((\<lambda>_. 0)(a := 0 + 1)) s1" using inv1 by (simp add: people_inv_def books_inv_def)
  from people.run_keeps [OF this later]
  have "refs_cover ((\<lambda>_. 0)(a := 0 + 1)) (ppl_refs (run_calls (people_step cfg) more_ops s1))
      (AccountToPersonalId (run_calls (people_step cfg) more_ops s1)) (ppl_AccountToAlias (run_calls (people_step cfg) more_ops s1))"
    by (simp add: people_inv_def books_inv_def)
  then have "1 \<le> net_refs (ppl_refs (run_calls (people_step cfg) more_ops s1)) a"
    unfolding refs_cover_def by (auto dest!: spec [of _ a])
  then show ?thesis by (simp add: s1 Let_def)
qed

subsection \<open>Stale aliases\<close>

lemma clean_one_result:
  assumes books: "books_inv k s"
  shows "case clean_up_one ca s of
      None \<Rightarrow> \<forall>w x. sget (ppl_AccountToAlias s) w = Some x \<longrightarrow> rca_ca x \<noteq> ca
    | Some s1 \<Rightarrow> books_inv k s1 \<and> (\<forall>w x. sget (ppl_AccountToAlias s1) w = Some x \<longleftrightarrow>
        sget (ppl_AccountToAlias s) w = Some x \<and> rca_ca x \<noteq> ca)"
proof (cases "sget (ppl_AliasToAccount s) ca")
  case None
  then show ?thesis using bound_mapsD(1) [OF books_invD(2) [OF books]] by (auto simp: clean_up_one_def)
next
  case (Some a)
  note maps = books_invD(2) [OF books]
  obtain info where info: "sget (ppl_AccountToAlias s) a = Some info" "rca_ca info = ca"
    using bound_mapsD(2) [OF maps Some] by blast
  have only: "w = a" if "sget (ppl_AccountToAlias s) w = Some x" "rca_ca x = ca" for w x
    using bound_maps_inj [OF maps that(1) info(1)] that(2) info(2) by simp
  have one: "clean_up_one ca s = Some (ppl_deposit (AliasCleanedUp ca a) (unbind_alias ca a s))"
    using Some info by (simp add: clean_up_one_def)
  have "sget (ppl_AccountToAlias (unbind_alias ca a s)) w = Some x \<longleftrightarrow> sget (ppl_AccountToAlias s) w = Some x \<and> rca_ca x \<noteq> ca" for w x
  proof (cases "w = a")
    case False
    then have "\<not> (sget (ppl_AccountToAlias s) w = Some x \<and> rca_ca x = ca)" using only by blast
    then show ?thesis using False by (auto simp: unbind_alias_def)
  qed (use info in \<open>auto simp: unbind_alias_def\<close>)
  then show ?thesis by (simp add: one unbind_books [OF books Some])
qed

lemma clean_bulk_result:
  "books_inv k s \<Longrightarrow> clean_up_bulk aliases n s = (m, s') \<Longrightarrow>
   n \<le> m \<and> (m = n \<longrightarrow> (\<forall>w x. sget (ppl_AccountToAlias s) w = Some x \<longrightarrow> rca_ca x \<notin> set aliases)) \<and>
   (\<forall>w x. sget (ppl_AccountToAlias s') w = Some x \<longleftrightarrow> sget (ppl_AccountToAlias s) w = Some x \<and> rca_ca x \<notin> set aliases)"
proof (induction aliases arbitrary: n s)
  case (Cons ca aliases)
  note one = clean_one_result [OF Cons.prems(1), of ca]
  show ?case
  proof (cases "clean_up_one ca s")
    case None
    then show ?thesis using one Cons.IH [OF Cons.prems(1), of n] Cons.prems(2) by auto
  next
    case (Some s1)
    then have "books_inv k s1" "clean_up_bulk aliases (n + 1) s1 = (m, s')" using one Cons.prems(2) by auto
    from Cons.IH [OF this] show ?thesis using one Some by auto
  qed
qed simp

lemma authorize_aliases_ok:
  "(\<And>ca. ca \<in> set aliases \<Longrightarrow> \<exists>a info. sget (ppl_AliasToAccount s) ca = Some a \<and> sget (ppl_AccountToAlias s) a = Some info \<and>
     rca_ca info = ca \<and> \<not> AccountContexts env (ca_context ca)) \<Longrightarrow> authorize_aliases env aliases s = Inr ()"
proof (induction aliases)
  case (Cons ca aliases)
  obtain a info where "sget (ppl_AliasToAccount s) ca = Some a" "sget (ppl_AccountToAlias s) a = Some info" "rca_ca info = ca"
    "\<not> AccountContexts env (ca_context ca)"
    using Cons.prems [of ca] by auto
  moreover have "authorize_aliases env aliases s = Inr ()" using Cons by simp
  ultimately show ?case by (simp add: ppl_ensure_alias_is_stale_def)
qed simp

text \<open>C33: the call that the worker submits in a reachable state is authorised and succeeds: it unbinds exactly the aliases that
  the worker named, so that of at most 100 stale aliases none is left, and every binding in a context that
  accounts may still have stays.\<close>

theorem stale_aliases_cleaned:
  assumes "members_config_ok (pc_members cfg)" and "guarded_run (people_step cfg) (people_guard cfg) ops (people_genesis r)"
    and s: "s = people_run cfg ops r" and worker: "people_offchain_worker cfg env s = Some call"
  shows "\<exists>s'. people_step cfg (env, PplUnsigned True call) s = Inr s' \<and>
    (\<forall>a info. sget (ppl_AccountToAlias s) a = Some info \<and> AccountContexts env (ca_context (rca_ca info)) \<longrightarrow>
       sget (ppl_AccountToAlias s') a = Some info) \<and>
    (length (filter (\<lambda>(_, info). \<not> AccountContexts env (ca_context (rca_ca info))) (ppl_AccountToAlias s)) \<le> MAX_BULK_CLEANUP \<longrightarrow>
       (\<forall>a info. sget (ppl_AccountToAlias s') a = Some info \<longrightarrow> AccountContexts env (ca_context (rca_ca info))))"
proof -
  let ?stale = "filter (\<lambda>(_, info). \<not> AccountContexts env (ca_context (rca_ca info))) (ppl_AccountToAlias s)"
  let ?all = "map (\<lambda>(_, info). rca_ca info) ?stale"
  define aliases where "aliases = take MAX_BULK_CLEANUP ?all"
  have call: "call = CleanUpStaleAliases aliases" "aliases \<noteq> []"
    using worker by (auto simp: people_offchain_worker_def Let_def aliases_def split: if_split_asm)
  have books: "books_inv (\<lambda>_. 0) s" using people_reachable [OF assms(1,2)] by (simp add: s people_inv_def)
  have bound: "\<exists>a info. sget (ppl_AliasToAccount s) ca = Some a \<and> sget (ppl_AccountToAlias s) a = Some info \<and>
      rca_ca info = ca \<and> \<not> AccountContexts env (ca_context ca)" if "ca \<in> set aliases" for ca
  proof -
    have "ca \<in> set ?all" using that unfolding aliases_def by (rule in_set_takeD)
    then obtain a info where "(a, info) \<in> set (ppl_AccountToAlias s)" "rca_ca info = ca" "\<not> AccountContexts env (ca_context ca)" by auto
    then show ?thesis
      using in_set_sget [OF books_invD(7) [OF books]] bound_mapsD(1) [OF books_invD(2) [OF books]] by blast
  qed
  obtain m s' where bulk: "clean_up_bulk aliases 0 s = (m, s')" by fastforce
  note result = clean_bulk_result [OF books bulk]
  have "0 < m" using result bound call(2) by (metis gr_zeroI list.set_intros(1) neq_Nil_conv)
  moreover have "length aliases \<le> MAX_BULK_CLEANUP" by (simp add: aliases_def)
  moreover have "authorize_aliases env aliases s = Inr ()" by (rule authorize_aliases_ok [OF bound])
  ultimately have step: "people_step cfg (env, PplUnsigned True call) s = Inr s'"
    using bulk call by (simp add: authorize_clean_up_stale_aliases_def clean_up_stale_aliases_def)
  have kept: "rca_ca info \<notin> set aliases" if "AccountContexts env (ca_context (rca_ca info))" for info
    using bound that by blast
  have gone: "rca_ca info \<in> set aliases"
    if "length ?stale \<le> MAX_BULK_CLEANUP" "sget (ppl_AccountToAlias s) a = Some info" "\<not> AccountContexts env (ca_context (rca_ca info))" for a info
  proof -
    have "aliases = ?all" using that(1) by (simp add: aliases_def)
    moreover have "rca_ca info \<in> set ?all" using sget_in_set [OF that(2)] that(3) by force
    ultimately show ?thesis by simp
  qed
  show ?thesis using step result kept gone by blast
qed

subsection \<open>The call and the extension\<close>

text \<open>The call \<open>under_alias\<close> of an account gives exactly the origin that the extension gives it when the nonce is valid, in
  every state: each accepts an account if the other does, and for the same alias.\<close>

theorem under_alias_as_extension:
  "(\<exists>v. as_person_validate cfg env imp (Some (AsPersonalAliasWithAccount nonce)) (PplSigned who) call s = Inr (v, origin)) \<longleftrightarrow>
   pc_check_nonce cfg who nonce (ppl_rest s) \<and> (\<exists>s1. under_alias env (PplSigned who) s = Inr (origin, s1))"
  by (auto simp: validate_alias_with_account_def under_alias_def)

subsection \<open>Witnesses\<close>

theorem people_books_balance_witness:
  "sget (ppl_AliasToAccount (demo_people_run demo_people_ops)) \<lparr>ca_alias = [21], ca_context = [3]\<rparr> = Some [8] \<and>
   sget (AccountToPersonalId (demo_people_run demo_people_ops)) [9] = Some 1 \<and>
   \<not> scontains (AccountToPersonalId (demo_people_run demo_people_ops)) [8]"
proof -
  note books = people_books_balance [OF demo_pop_ok demo_pop_guard refl]
  have account: "sget (ppl_AliasToAccount (demo_people_run demo_people_ops)) \<lparr>ca_alias = [21], ca_context = [3]\<rparr> = Some [8]"
    using books [THEN conjunct2, THEN conjunct2, THEN conjunct1] demo_pop_accounts(1) by simp
  have person: "sget (AccountToPersonalId (demo_people_run demo_people_ops)) [9] = Some 1"
    using books [THEN conjunct2, THEN conjunct1] demo_pop_accounts(2) by simp
  have "scontains (ppl_AccountToAlias (demo_people_run demo_people_ops)) [8]" using demo_pop_accounts(1) by (simp add: scontains_def)
  then show ?thesis using account person books by blast
qed

theorem personal_alias_traced_witness:
  "\<exists>n \<le> length demo_people_ops. proven_alias demo_pop (demo_people_run (take n demo_people_ops)) demo_personal"
proof (rule personal_alias_traced [OF demo_pop_ok demo_pop_guard])
  show "as_person_validate demo_pop (demo_block 703) [4] (Some (AsPersonalAliasWithAccount 0)) (signer_origin (Some [8]))
     (OtherPalletCall ()) (demo_people_run demo_people_ops) = Inr (Ppl_UsingAccount [8] 0, PersonalAlias demo_personal)"
    using demo_pop_extension by simp
qed

theorem suspension_leaks_reference_witness:
  "sget (AccountToPersonalId demo_suspended) [9] = None \<and> ppl_refs demo_suspended = [IncSufficients [8], IncSufficients [9]]"
proof -
  have account: "pr_account \<lparr>pr_key = 22 :: nat, pr_account = Some [9]\<rparr> = Some [9]" by simp
  have none: "guarded_run (people_step demo_pop) (people_guard demo_pop) [] demo_suspended" by simp
  show ?thesis
    using suspension_leaks_reference [OF demo_pop_ok demo_pop_guard demo_pop_accounts(2) account demo_suspends none]
      demo_pop_accounts(3) by simp
qed

theorem stale_aliases_cleaned_witness:
  "\<exists>s'. people_step demo_pop (demo_closed 704, PplUnsigned True (CleanUpStaleAliases [\<lparr>ca_alias = [21], ca_context = [3]\<rparr>]))
     (demo_people_run demo_people_ops) = Inr s' \<and> sget (ppl_AccountToAlias s') [8] = None"
proof -
  have len: "length (filter (\<lambda>(_, info). \<not> AccountContexts (demo_closed 704) (ca_context (rca_ca info)))
      (ppl_AccountToAlias (demo_people_run demo_people_ops))) \<le> MAX_BULK_CLEANUP" by code_simp
  have closed: "\<not> AccountContexts (demo_closed 704) c" for c by (simp add: demo_closed_def)
  from stale_aliases_cleaned [OF demo_pop_ok demo_pop_guard refl demo_worker] obtain s' where
    "people_step demo_pop (demo_closed 704, PplUnsigned True (CleanUpStaleAliases [\<lparr>ca_alias = [21], ca_context = [3]\<rparr>]))
      (demo_people_run demo_people_ops) = Inr s'"
    "\<forall>a info. sget (ppl_AccountToAlias s') a = Some info \<longrightarrow> AccountContexts (demo_closed 704) (ca_context (rca_ca info))"
    using len by auto
  then show ?thesis using closed by (metis not_None_eq)
qed

end
