(* ===== verification/People_Lite.thy ===== *)
theory People_Lite
  imports People_Ext Members_Client
begin

text \<open>
  The pallet \<open>pallets/people-lite\<close>: attesters with an allowance register accounts as lite persons, each with a key
  that becomes a member of an append-only collection; a lite person may bind another account to the alias of
  the key. The model of the members pallet, which owns the collection, is part of the state.
\<close>

subsection \<open>Types and storage\<close>

definition MSG_PREFIX :: bytes where
  "MSG_PREFIX = map (of_nat \<circ> of_char) ''pop:people-lite:register using''"

definition LITE_PEOPLE_AUTH_CONTEXT :: bytes where
  "LITE_PEOPLE_AUTH_CONTEXT = map (of_nat \<circ> of_char) ''pop:polkadot.network/plite-auth ''"

definition account_setup_block_tolerance :: nat where
  "account_setup_block_tolerance = 600"

datatype RecognitionMethod = UniqueDevice account_id

record 'm LitePersonInfo =
  lpi_ring_vrf_key :: 'm
  lpi_method :: RecognitionMethod

record 'asig LiteConsumerRegistrationParams =
  crp_signature :: 'asig
  crp_account :: account_id
  crp_identifier_key :: bytes
  crp_username :: bytes
  crp_reserved_username :: "bytes option"

text \<open>The encoding of a slice of less than 64 bytes: its length as one compact byte, then the bytes.\<close>

definition encode_slice :: "bytes \<Rightarrow> bytes" where
  "encode_slice bs = of_nat (4 * length bs) # bs"

text \<open>The payload ends the username at the first separator, the byte 46.\<close>

definition signing_payload :: "account_id \<Rightarrow> 'asig LiteConsumerRegistrationParams \<Rightarrow> bytes" where
  "signing_payload verifier params =
     crp_account params @ verifier @ crp_identifier_key params @
     encode_slice (takeWhile (\<lambda>b. b \<noteq> 46) (crp_username params)) @
     (case crp_reserved_username params of None \<Rightarrow> [0] | Some name \<Rightarrow> 1 # encode_slice name)"

datatype LiteEvent =
    AllAttestationAllowanceCleared account_id
  | AttestationAllowanceIncreased account_id nat
  | PersonAttested account_id account_id
  | ConsumerRegistered account_id
  | Lite_AliasAccountSet ContextualAlias account_id
  | Lite_AliasAccountUnset ContextualAlias account_id

datatype LiteError =
    NoAttestationAllowance | InvalidAttestationSignature | InvalidProofOfOwnership | Lite_AlreadyRegistered
  | Lite_KeyAlreadyInUse | Lite_AccountInUse | Lite_AliasAccountAlreadySet | AliasAccountNotSet
  | CallBlockOutOfRange | InvalidAliasContext | LitePeopleCollectionNotCreated

text \<open>The origins of calls; \<open>LiteManager\<close> is one that the manager of the allowances accepts.\<close>

datatype lite_origin =
    LiteSigned account_id
  | LitePerson account_id
  | LiteAlias RevisedContextualAlias
  | LiteManager
  | LiteNone
  | LiteOther

record ('m, 'root, 'inter, 'r) lite_state =
  LitePeople :: "(account_id, 'm LitePersonInfo) storage"
  lite_AliasToAccount :: "(ContextualAlias, account_id) storage"
  lite_AccountToAlias :: "(account_id, RevisedContextualAlias) storage"
  LitePeopleCollectionCreated :: bool
  AttestationAllowance :: "(account_id, nat) storage"
  lite_members :: "('m, 'root, 'inter) members_state"
  lite_refs :: "ref_call list"
  lite_events :: "LiteEvent list"
  lite_rest :: 'r

text \<open>
  The configuration: the members pallet and the ring crypto, the signatures of keys and of accounts, the encoding of
  keys, the constants, the weights of the hook, the hash, the nonces, the service that registers consumers
  and the calls of other pallets. The last three act on the rest of the chain.
\<close>

type_synonym weight = "nat \<times> nat"

record ('m, 'root, 'inter, 'c, 'proof, 'sig, 'asig, 'x, 'r) lite_config =
  lc_members :: "('m, 'root, 'inter, 'c) members_config"
  lc_prover :: "('proof, 'root) ring_prover"
  lc_verify_signature :: "'sig \<Rightarrow> bytes \<Rightarrow> 'm \<Rightarrow> bool"
  lc_verify_attestation :: "'asig \<Rightarrow> bytes \<Rightarrow> account_id \<Rightarrow> bool"
  lc_encode_member :: "'m \<Rightarrow> bytes"
  lc_CollectionOwner :: bytes
  lc_LiteRingExponent :: RingExponent
  lc_LiteOnboardingSize :: nat
  lc_check_weight :: weight
  lc_initialize_weight :: weight
  lc_blake2 :: "bytes \<Rightarrow> bytes"
  lc_check_nonce :: "account_id \<Rightarrow> nat \<Rightarrow> 'r \<Rightarrow> bool"
  lc_prepare_nonce :: "account_id \<Rightarrow> nat \<Rightarrow> 'r \<Rightarrow> 'r option"
  lc_registrar :: "account_id \<Rightarrow> bytes \<Rightarrow> bytes \<Rightarrow> bytes option \<Rightarrow> 'r \<Rightarrow> string + 'r"
  lc_other_call :: "lite_origin \<Rightarrow> 'x \<Rightarrow> 'r \<Rightarrow> string + (pays \<times> 'r)"

record lite_env =
  lite_block :: nat
  lite_now :: nat

definition lite_deposit :: "LiteEvent \<Rightarrow> ('m, 'root, 'inter, 'r) lite_state \<Rightarrow> ('m, 'root, 'inter, 'r) lite_state" where
  "lite_deposit e s = s\<lparr>lite_events := lite_events s @ [e]\<rparr>"

definition lite_ref :: "ref_call \<Rightarrow> ('m, 'root, 'inter, 'r) lite_state \<Rightarrow> ('m, 'root, 'inter, 'r) lite_state" where
  "lite_ref c s = s\<lparr>lite_refs := lite_refs s @ [c]\<rparr>"

definition of_member_service :: "MembersError + 'a \<Rightarrow> LiteError dispatch_error + 'a" where
  "of_member_service r = map_err (\<lambda>_. External ''Members'') r"

definition lite_setup_in_time :: "nat \<Rightarrow> nat \<Rightarrow> bool" where
  "lite_setup_in_time current_block valid_at_block \<longleftrightarrow>
     valid_at_block \<le> current_block \<and> current_block \<le> sat_add u32_max valid_at_block account_setup_block_tolerance"

subsection \<open>The collection\<close>

definition ensure_lite_collection_exists ::
  "('m, 'root, 'inter, 'c, 'proof, 'sig, 'asig, 'x, 'r) lite_config \<Rightarrow> ('m, 'root, 'inter, 'r) lite_state \<Rightarrow>
   LiteError dispatch_error + ('m, 'root, 'inter, 'r) lite_state" where
  "ensure_lite_collection_exists cfg s =
     (if LitePeopleCollectionCreated s then Inr s
      else on_ok (of_member_service (create_collection (lc_members cfg) (lc_CollectionOwner cfg) PEOPLE_LITE_IDENTIFIER
             (lc_LiteOnboardingSize cfg) AppendOnlyRings (lc_LiteRingExponent cfg) None (lite_members s))) (\<lambda>ms.
           Inr (s\<lparr>lite_members := ms, LitePeopleCollectionCreated := True\<rparr>)))"

definition ensure_lite_collection_created :: "('m, 'root, 'inter, 'r) lite_state \<Rightarrow> LiteError dispatch_error + unit" where
  "ensure_lite_collection_created s =
     ensure (LitePeopleCollectionCreated s) (Module LitePeopleCollectionNotCreated) (Inr ())"

text \<open>A weight meter by what is left; a weight fits if both of its components do.\<close>

definition consume_weight :: "weight \<Rightarrow> weight \<Rightarrow> weight option" where
  "consume_weight left w =
     (if fst w \<le> fst left \<and> snd w \<le> snd left then Some (fst left - fst w, snd left - snd w) else None)"

definition lite_do_on_poll ::
  "('m, 'root, 'inter, 'c, 'proof, 'sig, 'asig, 'x, 'r) lite_config \<Rightarrow> weight \<Rightarrow> ('m, 'root, 'inter, 'r) lite_state \<Rightarrow>
   weight \<times> ('m, 'root, 'inter, 'r) lite_state" where
  "lite_do_on_poll cfg left s =
     (case consume_weight left (lc_check_weight cfg) of
        None \<Rightarrow> (left, s)
      | Some left1 \<Rightarrow>
          if LitePeopleCollectionCreated s then (left1, s)
          else case consume_weight left1 (lc_initialize_weight cfg) of
                 None \<Rightarrow> (left1, s)
               | Some left2 \<Rightarrow> (left2, case ensure_lite_collection_exists cfg s of Inl _ \<Rightarrow> s | Inr s1 \<Rightarrow> s1))"

definition lite_on_poll ::
  "('m, 'root, 'inter, 'c, 'proof, 'sig, 'asig, 'x, 'r) lite_config \<Rightarrow> weight \<Rightarrow> ('m, 'root, 'inter, 'r) lite_state \<Rightarrow>
   weight \<times> ('m, 'root, 'inter, 'r) lite_state" where
  "lite_on_poll cfg remaining s =
     (let budget = (fst remaining div 2, snd remaining div 2);
          (left, s1) = lite_do_on_poll cfg budget s
      in ((fst remaining - (fst budget - fst left), snd remaining - (snd budget - snd left)), s1))"

definition lite_active_count :: "('m, 'root, 'inter, 'r) lite_state \<Rightarrow> nat" where
  "lite_active_count s = active_count (lite_members s) PEOPLE_LITE_IDENTIFIER"

subsection \<open>Origins\<close>

definition EnsureLitePerson :: "lite_origin \<Rightarrow> lite_origin + account_id" where
  "EnsureLitePerson origin = (case origin of LitePerson account \<Rightarrow> Inr account | _ \<Rightarrow> Inl origin)"

definition EnsureRevisedLiteAlias :: "lite_origin \<Rightarrow> lite_origin + RevisedContextualAlias" where
  "EnsureRevisedLiteAlias origin = (case origin of LiteAlias rev_ca \<Rightarrow> Inr rev_ca | _ \<Rightarrow> Inl origin)"

definition EnsureLiteAliasInContextWithCollection :: "lite_origin \<Rightarrow> bytes \<Rightarrow> lite_origin + (bytes \<times> coll_id)" where
  "EnsureLiteAliasInContextWithCollection origin arg =
     (case origin of
        LiteAlias rev_ca \<Rightarrow>
          if ca_context (rca_ca rev_ca) = arg then Inr (ca_alias (rca_ca rev_ca), PEOPLE_LITE_IDENTIFIER) else Inl origin
      | _ \<Rightarrow> Inl origin)"

subsection \<open>Calls\<close>

definition increase_attestation_allowance ::
  "lite_origin \<Rightarrow> account_id \<Rightarrow> nat \<Rightarrow> ('m, 'root, 'inter, 'r) lite_state \<Rightarrow>
   LiteError dispatch_error + (pays \<times> ('m, 'root, 'inter, 'r) lite_state)" where
  "increase_attestation_allowance origin account count s =
     ensure (origin = LiteManager) BadOrigin (
       let available = sat_add u32_max (sget_or 0 (AttestationAllowance s) account) count
       in Inr (PaysYes, lite_deposit (AttestationAllowanceIncreased account count)
            (s\<lparr>AttestationAllowance := sput account available (AttestationAllowance s)\<rparr>)))"

definition clear_attestation_allowance ::
  "lite_origin \<Rightarrow> account_id \<Rightarrow> ('m, 'root, 'inter, 'r) lite_state \<Rightarrow>
   LiteError dispatch_error + (pays \<times> ('m, 'root, 'inter, 'r) lite_state)" where
  "clear_attestation_allowance origin account s =
     ensure (origin = LiteManager) BadOrigin (
     Inr (PaysYes, lite_deposit (AllAttestationAllowanceCleared account)
       (s\<lparr>AttestationAllowance := sdel account (AttestationAllowance s)\<rparr>)))"

definition register_lite_consumer ::
  "('m, 'root, 'inter, 'c, 'proof, 'sig, 'asig, 'x, 'r) lite_config \<Rightarrow> 'asig LiteConsumerRegistrationParams \<Rightarrow> account_id \<Rightarrow>
   ('m, 'root, 'inter, 'r) lite_state \<Rightarrow> LiteError dispatch_error + ('m, 'root, 'inter, 'r) lite_state" where
  "register_lite_consumer cfg params verifier s =
     ensure (lc_verify_attestation cfg (crp_signature params) (signing_payload verifier params) (crp_account params))
       (Module InvalidAttestationSignature) (
     on_ok (map_err External (lc_registrar cfg (crp_account params) (crp_identifier_key params) (crp_username params)
              (crp_reserved_username params) (lite_rest s))) (\<lambda>r.
     Inr (lite_deposit (ConsumerRegistered (crp_account params)) (s\<lparr>lite_rest := r\<rparr>))))"

definition attest ::
  "('m, 'root, 'inter, 'c, 'proof, 'sig, 'asig, 'x, 'r) lite_config \<Rightarrow> lite_env \<Rightarrow> lite_origin \<Rightarrow> account_id \<Rightarrow> 'asig \<Rightarrow>
   'm \<Rightarrow> 'sig \<Rightarrow> 'asig LiteConsumerRegistrationParams option \<Rightarrow> ('m, 'root, 'inter, 'r) lite_state \<Rightarrow>
   LiteError dispatch_error + (pays \<times> ('m, 'root, 'inter, 'r) lite_state)" where
  "attest cfg env origin candidate candidate_signature ring_vrf_key proof_of_ownership consumer_registration s =
     (case origin of
        LiteSigned verifier \<Rightarrow>
          ensure (\<not> scontains (LitePeople s) candidate) (Module Lite_AlreadyRegistered) (
          ensure (member_status PEOPLE_LITE_IDENTIFIER ring_vrf_key (lite_members s) = None) (Module Lite_KeyAlreadyInUse) (
          ok_or (checked_sub (sget_or 0 (AttestationAllowance s) verifier) 1) (Module NoAttestationAllowance) (\<lambda>available.
          on_ok (ensure_lite_collection_created s) (\<lambda>_.
          let msg = MSG_PREFIX @ candidate @ lc_encode_member cfg ring_vrf_key
          in ensure (lc_verify_signature cfg proof_of_ownership msg ring_vrf_key) (Module InvalidProofOfOwnership) (
             ensure (lc_verify_attestation cfg candidate_signature msg candidate) (Module InvalidAttestationSignature) (
             let s1 = s\<lparr>AttestationAllowance :=
                          (if available > 0 then sput verifier available (AttestationAllowance s)
                           else sdel verifier (AttestationAllowance s)),
                        LitePeople := sput candidate \<lparr>lpi_ring_vrf_key = ring_vrf_key, lpi_method = UniqueDevice verifier\<rparr>
                          (LitePeople s)\<rparr>
             in on_ok (of_member_service (add_members (lc_members cfg) (lite_now env) PEOPLE_LITE_IDENTIFIER [ring_vrf_key]
                         (lite_members s1))) (\<lambda>ms.
                let s2 = lite_deposit (PersonAttested candidate verifier) (lite_ref (IncSufficients candidate) (s1\<lparr>lite_members := ms\<rparr>))
                in on_ok (case consumer_registration of
                            None \<Rightarrow> Inr s2
                          | Some params \<Rightarrow> register_lite_consumer cfg params verifier s2) (\<lambda>s3.
                   Inr (PaysNo, s3)))))))))
      | _ \<Rightarrow> Inl BadOrigin)"

text \<open>The checks of \<open>dispatch_as_signer\<close>: the account that its call is then dispatched for.\<close>

definition as_signer :: "lite_origin \<Rightarrow> LiteError dispatch_error + account_id" where
  "as_signer origin = (case origin of LitePerson account \<Rightarrow> Inr account | _ \<Rightarrow> Inl BadOrigin)"

definition lite_move_account ::
  "account_id option \<Rightarrow> account_id \<Rightarrow> ('m, 'root, 'inter, 'r) lite_state \<Rightarrow>
   LiteError dispatch_error + ('m, 'root, 'inter, 'r) lite_state" where
  "lite_move_account old_account account s =
     (case old_account of
        None \<Rightarrow>
          ensure (\<not> scontains (lite_AccountToAlias s) account) (Module Lite_AccountInUse) (
          Inr (lite_ref (IncSufficients account) s))
      | Some old \<Rightarrow>
          if old \<noteq> account then
            ensure (\<not> scontains (lite_AccountToAlias s) account) (Module Lite_AccountInUse) (
              let s1 = (lite_ref (DecSufficients old) s)\<lparr>lite_AccountToAlias := sdel old (lite_AccountToAlias s)\<rparr>
              in Inr (lite_ref (IncSufficients account) s1))
          else Inr s)"

definition lite_set_alias_account ::
  "lite_env \<Rightarrow> lite_origin \<Rightarrow> account_id \<Rightarrow> nat \<Rightarrow> ('m, 'root, 'inter, 'r) lite_state \<Rightarrow>
   LiteError dispatch_error + (pays \<times> ('m, 'root, 'inter, 'r) lite_state)" where
  "lite_set_alias_account env origin account valid_at_block s =
     on_ok (map_err (\<lambda>_. BadOrigin) (EnsureRevisedLiteAlias origin)) (\<lambda>rev_ca.
     ensure (lite_setup_in_time (lite_block env) valid_at_block) (Module CallBlockOutOfRange) (
     ensure (ca_context (rca_ca rev_ca) = LITE_PEOPLE_AUTH_CONTEXT) (Module InvalidAliasContext) (
     ensure (\<not> scontains (LitePeople s) account) (Module Lite_AccountInUse) (
       let old_account = sget (lite_AliasToAccount s) (rca_ca rev_ca);
           old_rev_ca = Option.bind old_account (sget (lite_AccountToAlias s));
           needs_revision = (case old_rev_ca of
               None \<Rightarrow> False
             | Some old \<Rightarrow> rca_revision old \<noteq> rca_revision rev_ca \<or> rca_ring old \<noteq> rca_ring rev_ca)
       in ensure (old_account \<noteq> Some account \<or> needs_revision) (Module Lite_AliasAccountAlreadySet) (
          on_ok (lite_move_account old_account account s) (\<lambda>s1.
            let s2 = s1\<lparr>lite_AccountToAlias := sput account rev_ca (lite_AccountToAlias s1),
                       lite_AliasToAccount := sput (rca_ca rev_ca) account (lite_AliasToAccount s1)\<rparr>
            in Inr (if old_account = None \<or> needs_revision then PaysNo else PaysYes,
                    lite_deposit (Lite_AliasAccountSet (rca_ca rev_ca) account) s2)))))))"

definition lite_unset_alias_account ::
  "lite_origin \<Rightarrow> ('m, 'root, 'inter, 'r) lite_state \<Rightarrow>
   LiteError dispatch_error + (pays \<times> ('m, 'root, 'inter, 'r) lite_state)" where
  "lite_unset_alias_account origin s =
     on_ok (map_err (\<lambda>_. BadOrigin) (EnsureRevisedLiteAlias origin)) (\<lambda>rev_ca.
     ok_or (sget (lite_AliasToAccount s) (rca_ca rev_ca)) (Module AliasAccountNotSet) (\<lambda>account.
       let s1 = s\<lparr>lite_AliasToAccount := sdel (rca_ca rev_ca) (lite_AliasToAccount s),
                  lite_AccountToAlias := sdel account (lite_AccountToAlias s)\<rparr>
       in Inr (PaysYes, lite_deposit (Lite_AliasAccountUnset (rca_ca rev_ca) account) (lite_ref (DecSufficients account) s1))))"

datatype ('m, 'sig, 'asig, 'x) lite_call =
    IncreaseAttestationAllowance account_id nat
  | ClearAttestationAllowance account_id
  | Attest account_id 'asig 'm 'sig "'asig LiteConsumerRegistrationParams option"
  | DispatchAsSigner "('m, 'sig, 'asig, 'x) lite_call"
  | Lite_SetAliasAccount account_id nat
  | Lite_UnsetAliasAccount
  | LiteOtherCall 'x

fun lite_dispatch ::
  "('m, 'root, 'inter, 'c, 'proof, 'sig, 'asig, 'x, 'r) lite_config \<Rightarrow> lite_env \<Rightarrow> lite_origin \<Rightarrow>
   ('m, 'sig, 'asig, 'x) lite_call \<Rightarrow> ('m, 'root, 'inter, 'r) lite_state \<Rightarrow>
   LiteError dispatch_error + (pays \<times> ('m, 'root, 'inter, 'r) lite_state)" where
  "lite_dispatch cfg env origin (IncreaseAttestationAllowance account n) s = increase_attestation_allowance origin account n s"
| "lite_dispatch cfg env origin (ClearAttestationAllowance account) s = clear_attestation_allowance origin account s"
| "lite_dispatch cfg env origin (Attest candidate csig key sig params) s = attest cfg env origin candidate csig key sig params s"
| "lite_dispatch cfg env origin (DispatchAsSigner call) s =
     on_ok (as_signer origin) (\<lambda>who. lite_dispatch cfg env (LiteSigned who) call s)"
| "lite_dispatch cfg env origin (Lite_SetAliasAccount account at) s = lite_set_alias_account env origin account at s"
| "lite_dispatch cfg env origin Lite_UnsetAliasAccount s = lite_unset_alias_account origin s"
| "lite_dispatch cfg env origin (LiteOtherCall x) s =
     on_ok (map_err External (lc_other_call cfg origin x (lite_rest s))) (\<lambda>(p, r). Inr (p, s\<lparr>lite_rest := r\<rparr>))"

subsection \<open>The extension\<close>

datatype LiteCustomError = NotLitePerson | StaleAlias | Lite_InvalidProof | Lite_AliasMismatch | NoAliasBinding

datatype lite_invalid =
    Lite_BadSigner | Lite_CallInvalid | Lite_Future | Lite_Stale | Lite_BadProof | Lite_NonceInvalid
  | LiteCustom LiteCustomError

datatype 'proof PeopleLiteAuthData =
    AsLitePerson nat
  | AsLiteAliasWithAccount nat
  | AsLiteAliasWithProof 'proof nat bytes
  | AsLiteAliasWithAccountRevised nat 'proof nat bytes

datatype PeopleLiteAuthVal =
    Val_AsLitePerson account_id nat
  | Val_AsLiteAliasWithAccount account_id nat
  | Val_AsLiteAliasWithProof
  | Val_AsLiteAliasWithAccountRevised account_id nat RevisedContextualAlias
  | Val_None

definition lite_verify ::
  "('m, 'root, 'inter, 'c, 'proof, 'sig, 'asig, 'x, 'r) lite_config \<Rightarrow> 'proof \<Rightarrow> nat \<Rightarrow> bytes \<Rightarrow> bytes \<Rightarrow>
   ('m, 'root, 'inter, 'r) lite_state \<Rightarrow> MembersError + RevisedContextualAlias" where
  "lite_verify cfg proof ring context msg s =
     verify_membership (lc_members cfg) (lc_prover cfg) PEOPLE_LITE_IDENTIFIER proof ring context msg (lite_members s)"

definition validate_lite_person ::
  "('m, 'root, 'inter, 'c, 'proof, 'sig, 'asig, 'x, 'r) lite_config \<Rightarrow> nat \<Rightarrow> lite_origin \<Rightarrow>
   ('m, 'root, 'inter, 'r) lite_state \<Rightarrow> lite_invalid + (PeopleLiteAuthVal \<times> lite_origin)" where
  "validate_lite_person cfg nonce origin s =
     (case origin of
        LiteSigned who \<Rightarrow>
          ensure (scontains (LitePeople s) who) (LiteCustom NotLitePerson) (
          ensure (lc_check_nonce cfg who nonce (lite_rest s)) Lite_NonceInvalid (
          Inr (Val_AsLitePerson who nonce, LitePerson who)))
      | _ \<Rightarrow> Inl Lite_BadSigner)"

definition validate_lite_alias_with_account ::
  "('m, 'root, 'inter, 'c, 'proof, 'sig, 'asig, 'x, 'r) lite_config \<Rightarrow> nat \<Rightarrow> lite_origin \<Rightarrow>
   ('m, 'root, 'inter, 'r) lite_state \<Rightarrow> lite_invalid + (PeopleLiteAuthVal \<times> lite_origin)" where
  "validate_lite_alias_with_account cfg nonce origin s =
     (case origin of
        LiteSigned who \<Rightarrow>
          ok_or (sget (lite_AccountToAlias s) who) (LiteCustom NoAliasBinding) (\<lambda>rev_ca.
          ok_or (ring_revision PEOPLE_LITE_IDENTIFIER (rca_ring rev_ca) (lite_members s)) (LiteCustom StaleAlias) (\<lambda>revision.
          ensure (revision = rca_revision rev_ca) (LiteCustom StaleAlias) (
          ensure (lc_check_nonce cfg who nonce (lite_rest s)) Lite_NonceInvalid (
          Inr (Val_AsLiteAliasWithAccount who nonce, LiteAlias rev_ca)))))
      | _ \<Rightarrow> Inl Lite_BadSigner)"

definition validate_lite_alias_with_proof ::
  "('m, 'root, 'inter, 'c, 'proof, 'sig, 'asig, 'x, 'r) lite_config \<Rightarrow> lite_env \<Rightarrow> bytes \<Rightarrow> 'proof \<Rightarrow> nat \<Rightarrow> bytes \<Rightarrow>
   lite_origin \<Rightarrow> ('m, 'sig, 'asig, 'x) lite_call \<Rightarrow> ('m, 'root, 'inter, 'r) lite_state \<Rightarrow>
   lite_invalid + (PeopleLiteAuthVal \<times> lite_origin)" where
  "validate_lite_alias_with_proof cfg env implication proof ring context origin call s =
     ensure (origin = LiteNone) Lite_BadSigner (
     case call of
       Lite_SetAliasAccount account valid_at_block \<Rightarrow>
         ensure (context = LITE_PEOPLE_AUTH_CONTEXT) Lite_CallInvalid (
         ensure (valid_at_block \<le> lite_block env) Lite_Future (
         ensure (lite_block env \<le> sat_add u32_max valid_at_block account_setup_block_tolerance) Lite_Stale (
         on_ok (map_err (\<lambda>_. Lite_BadProof) (lite_verify cfg proof ring context (lc_blake2 cfg implication) s)) (\<lambda>rev_ca.
         ensure (sget (lite_AccountToAlias s) account \<noteq> Some rev_ca) Lite_Stale (
         Inr (Val_AsLiteAliasWithProof, LiteAlias rev_ca))))))
     | _ \<Rightarrow> Inl Lite_CallInvalid)"

definition validate_lite_alias_revised ::
  "('m, 'root, 'inter, 'c, 'proof, 'sig, 'asig, 'x, 'r) lite_config \<Rightarrow> bytes \<Rightarrow> nat \<Rightarrow> 'proof \<Rightarrow> nat \<Rightarrow> bytes \<Rightarrow>
   lite_origin \<Rightarrow> ('m, 'root, 'inter, 'r) lite_state \<Rightarrow> lite_invalid + (PeopleLiteAuthVal \<times> lite_origin)" where
  "validate_lite_alias_revised cfg implication nonce proof ring context origin s =
     (case origin of
        LiteSigned who \<Rightarrow>
          ok_or (sget (lite_AccountToAlias s) who) (LiteCustom NoAliasBinding) (\<lambda>old_rev_ca.
          ensure (context = LITE_PEOPLE_AUTH_CONTEXT) Lite_CallInvalid (
          on_ok (map_err (\<lambda>_. LiteCustom Lite_InvalidProof)
                  (lite_verify cfg proof ring context (lc_blake2 cfg (revise_preimage implication who nonce)) s)) (\<lambda>rev_ca.
          ensure (ca_alias (rca_ca rev_ca) = ca_alias (rca_ca old_rev_ca) \<and>
                  ca_context (rca_ca rev_ca) = ca_context (rca_ca old_rev_ca)) (LiteCustom Lite_AliasMismatch) (
          ensure (lc_check_nonce cfg who nonce (lite_rest s)) Lite_NonceInvalid (
          Inr (Val_AsLiteAliasWithAccountRevised who nonce rev_ca, LiteAlias rev_ca))))))
      | _ \<Rightarrow> Inl Lite_BadSigner)"

fun lite_auth_validate ::
  "('m, 'root, 'inter, 'c, 'proof, 'sig, 'asig, 'x, 'r) lite_config \<Rightarrow> lite_env \<Rightarrow> bytes \<Rightarrow> 'proof PeopleLiteAuthData option \<Rightarrow>
   lite_origin \<Rightarrow> ('m, 'sig, 'asig, 'x) lite_call \<Rightarrow> ('m, 'root, 'inter, 'r) lite_state \<Rightarrow>
   lite_invalid + (PeopleLiteAuthVal \<times> lite_origin)" where
  "lite_auth_validate cfg env imp None origin call s = Inr (Val_None, origin)"
| "lite_auth_validate cfg env imp (Some (AsLitePerson nonce)) origin call s = validate_lite_person cfg nonce origin s"
| "lite_auth_validate cfg env imp (Some (AsLiteAliasWithAccount nonce)) origin call s =
     validate_lite_alias_with_account cfg nonce origin s"
| "lite_auth_validate cfg env imp (Some (AsLiteAliasWithProof pf ring ctx)) origin call s =
     validate_lite_alias_with_proof cfg env imp pf ring ctx origin call s"
| "lite_auth_validate cfg env imp (Some (AsLiteAliasWithAccountRevised nonce pf ring ctx)) origin call s =
     validate_lite_alias_revised cfg imp nonce pf ring ctx origin s"

definition lite_nonce ::
  "('m, 'root, 'inter, 'c, 'proof, 'sig, 'asig, 'x, 'r) lite_config \<Rightarrow> account_id \<Rightarrow> nat \<Rightarrow>
   ('m, 'root, 'inter, 'r) lite_state \<Rightarrow> lite_invalid + ('m, 'root, 'inter, 'r) lite_state" where
  "lite_nonce cfg who nonce s =
     ok_or (lc_prepare_nonce cfg who nonce (lite_rest s)) Lite_NonceInvalid (\<lambda>r. Inr (s\<lparr>lite_rest := r\<rparr>))"

definition lite_auth_prepare ::
  "('m, 'root, 'inter, 'c, 'proof, 'sig, 'asig, 'x, 'r) lite_config \<Rightarrow> PeopleLiteAuthVal \<Rightarrow>
   ('m, 'root, 'inter, 'r) lite_state \<Rightarrow> lite_invalid + ('m, 'root, 'inter, 'r) lite_state" where
  "lite_auth_prepare cfg v s =
     (case v of
        Val_AsLitePerson account nonce \<Rightarrow> lite_nonce cfg account nonce s
      | Val_AsLiteAliasWithAccount account nonce \<Rightarrow> lite_nonce cfg account nonce s
      | Val_AsLiteAliasWithProof \<Rightarrow> Inr s
      | Val_AsLiteAliasWithAccountRevised account nonce rev_ca \<Rightarrow>
          lite_nonce cfg account nonce (s\<lparr>lite_AccountToAlias := sput account rev_ca (lite_AccountToAlias s)\<rparr>)
      | Val_None \<Rightarrow> Inr s)"

subsection \<open>Steps\<close>

text \<open>
  One step on the chain: a transaction, a call of the manager, the hook at the start of a block with the weight that
  remains, or a step of the members pallet that does not come from here. Usernames are of at most 32 bytes and
  identifier keys of 65, or the call does not decode.
\<close>

fun lite_decodes :: "('m, 'sig, 'asig, 'x) lite_call \<Rightarrow> bool" where
  "lite_decodes (Attest candidate csig key sig (Some params)) =
     (length (crp_identifier_key params) = 65 \<and> length (crp_username params) \<le> 32 \<and>
      (case crp_reserved_username params of None \<Rightarrow> True | Some name \<Rightarrow> length name \<le> 32))"
| "lite_decodes (DispatchAsSigner call) = lite_decodes call"
| "lite_decodes _ = True"

datatype ('m, 'c, 'proof, 'sig, 'asig, 'x) lite_op =
    LiteTransaction "'proof PeopleLiteAuthData option" "account_id option" bytes "('m, 'sig, 'asig, 'x) lite_call"
  | LiteManagerCall "('m, 'sig, 'asig, 'x) lite_call"
  | LitePoll weight
  | LiteOfMembers "'c members_env" "'m members_op"

datatype lite_failure = Lite_Undecodable | Lite_Invalid lite_invalid | Lite_Failed "LiteError dispatch_error"

definition lite_transaction ::
  "('m, 'root, 'inter, 'c, 'proof, 'sig, 'asig, 'x, 'r) lite_config \<Rightarrow> lite_env \<Rightarrow> 'proof PeopleLiteAuthData option \<Rightarrow>
   account_id option \<Rightarrow> bytes \<Rightarrow> ('m, 'sig, 'asig, 'x) lite_call \<Rightarrow> ('m, 'root, 'inter, 'r) lite_state \<Rightarrow>
   lite_failure + ('m, 'root, 'inter, 'r) lite_state" where
  "lite_transaction cfg env ext signer imp call s =
     ensure (lite_decodes call) Lite_Undecodable (
     on_ok (map_err Lite_Invalid (lite_auth_validate cfg env imp ext
              (case signer of Some who \<Rightarrow> LiteSigned who | None \<Rightarrow> LiteNone) call s)) (\<lambda>(v, origin).
     on_ok (map_err Lite_Invalid (lite_auth_prepare cfg v s)) (\<lambda>s1.
     Inr (case lite_dispatch cfg env origin call s1 of Inl _ \<Rightarrow> s1 | Inr (_, s2) \<Rightarrow> s2))))"

fun lite_step ::
  "('m, 'root, 'inter, 'c, 'proof, 'sig, 'asig, 'x, 'r) lite_config \<Rightarrow> lite_env \<times> ('m, 'c, 'proof, 'sig, 'asig, 'x) lite_op \<Rightarrow>
   ('m, 'root, 'inter, 'r) lite_state \<Rightarrow> lite_failure + ('m, 'root, 'inter, 'r) lite_state" where
  "lite_step cfg (env, LiteTransaction ext signer imp call) s = lite_transaction cfg env ext signer imp call s"
| "lite_step cfg (env, LiteManagerCall call) s =
     on_ok (map_err Lite_Failed (lite_dispatch cfg env LiteManager call s)) (\<lambda>(_, s1). Inr s1)"
| "lite_step cfg (env, LitePoll remaining) s = Inr (snd (lite_on_poll cfg remaining s))"
| "lite_step cfg (env, LiteOfMembers menv y) s =
     on_ok (map_err (\<lambda>_. Lite_Failed (External ''Members'')) (members_step (lc_members cfg) (menv, y) (lite_members s)))
       (\<lambda>ms. Inr (s\<lparr>lite_members := ms\<rparr>))"

definition lite_genesis :: "'r \<Rightarrow> ('m, 'root, 'inter, 'r) lite_state" where
  "lite_genesis r = \<lparr>LitePeople = [], lite_AliasToAccount = [], lite_AccountToAlias = [], LitePeopleCollectionCreated = False,
     AttestationAllowance = [], lite_members = members_genesis, lite_refs = [], lite_events = [], lite_rest = r\<rparr>"

end
