(* ===== verification/Lite_Steps.thy ===== *)
theory Lite_Steps
  imports People_Lite
begin

text \<open>
  The invariant of the pallet of the lite people on its chain: the books of its accounts and aliases, the keys of the lite
  people as the members of the collection, and the allowances against what was granted.
\<close>

subsection \<open>Selectors\<close>

lemma lite_sel [simp]:
  "LitePeople (lite_deposit e s) = LitePeople s" "LitePeople (lite_ref c s) = LitePeople s"
  "lite_AliasToAccount (lite_deposit e s) = lite_AliasToAccount s" "lite_AliasToAccount (lite_ref c s) = lite_AliasToAccount s"
  "lite_AccountToAlias (lite_deposit e s) = lite_AccountToAlias s" "lite_AccountToAlias (lite_ref c s) = lite_AccountToAlias s"
  "AttestationAllowance (lite_deposit e s) = AttestationAllowance s" "AttestationAllowance (lite_ref c s) = AttestationAllowance s"
  "LitePeopleCollectionCreated (lite_deposit e s) = LitePeopleCollectionCreated s"
  "LitePeopleCollectionCreated (lite_ref c s) = LitePeopleCollectionCreated s"
  "lite_members (lite_deposit e s) = lite_members s" "lite_members (lite_ref c s) = lite_members s"
  "lite_refs (lite_deposit e s) = lite_refs s" "lite_refs (lite_ref c s) = lite_refs s @ [c]"
  "lite_events (lite_deposit e s) = lite_events s @ [e]" "lite_events (lite_ref c s) = lite_events s"
  "lite_rest (lite_deposit e s) = lite_rest s" "lite_rest (lite_ref c s) = lite_rest s"
  by (simp_all add: lite_deposit_def lite_ref_def)

subsection \<open>The books\<close>

definition attested_by :: "account_id \<Rightarrow> (account_id, 'm LitePersonInfo) storage \<Rightarrow> nat" where
  "attested_by v L = ssum (\<lambda>(_, info). if lpi_method info = UniqueDevice v then 1 else 0) L"

text \<open>What governance has granted an account in all.\<close>

fun granted_to :: "account_id \<Rightarrow> LiteEvent list \<Rightarrow> nat" where
  "granted_to v [] = 0"
| "granted_to v (AttestationAllowanceIncreased a n # es) = (if a = v then n else 0) + granted_to v es"
| "granted_to v (_ # es) = granted_to v es"

lemma granted_to_append [simp]: "granted_to v (es @ fs) = granted_to v es + granted_to v fs"
  by (induction es rule: granted_to.induct) simp_all

definition uses_of :: "('m, 'root, 'inter, 'r) lite_state \<Rightarrow> account_id \<Rightarrow> nat" where
  "uses_of s a = holders (LitePeople s) a + holders (lite_AccountToAlias s) a"

definition allowances_ok :: "('m, 'root, 'inter, 'r) lite_state \<Rightarrow> bool" where
  "allowances_ok s \<longleftrightarrow> (\<forall>v. attested_by v (LitePeople s) + sget_or 0 (AttestationAllowance s) v \<le> granted_to v (lite_events s))"

definition aliases_ok :: "('m, 'root, 'inter, 'r) lite_state \<Rightarrow> bool" where
  "aliases_ok s \<longleftrightarrow> bound_maps rca_ca (lite_AliasToAccount s) (lite_AccountToAlias s) \<and>
     (\<forall>a info. sget (lite_AccountToAlias s) a = Some info \<longrightarrow> ca_context (rca_ca info) = LITE_PEOPLE_AUTH_CONTEXT) \<and>
     refs_match (lite_refs s) (uses_of s)"

text \<open>The keys of the lite people are different, and they are the members of the collection.\<close>

definition lite_key :: "('m, 'root, 'inter, 'r) lite_state \<Rightarrow> 'm \<Rightarrow> bool" where
  "lite_key s k \<longleftrightarrow> (\<exists>a info. sget (LitePeople s) a = Some info \<and> lpi_ring_vrf_key info = k)"

definition keys_ok :: "('m, 'root, 'inter, 'c, 'proof, 'sig, 'asig, 'x, 'r) lite_config \<Rightarrow> ('m, 'root, 'inter, 'r) lite_state \<Rightarrow> bool" where
  "keys_ok cfg s \<longleftrightarrow> wf_storage (LitePeople s) \<and>
     (\<forall>a b i j. sget (LitePeople s) a = Some i \<and> sget (LitePeople s) b = Some j \<and> lpi_ring_vrf_key i = lpi_ring_vrf_key j \<longrightarrow> a = b) \<and>
     collection_ok (lc_members cfg) PEOPLE_LITE_IDENTIFIER AppendOnlyRings (lite_members s) \<and>
     only_keys (lite_key s) PEOPLE_LITE_IDENTIFIER (lite_members s) \<and>
     undisturbed PEOPLE_LITE_IDENTIFIER (lite_members s) \<and>
     (\<forall>k. lite_key s k \<longrightarrow> scontains (Members (lite_members s)) (PEOPLE_LITE_IDENTIFIER, k))"

definition lite_inv :: "('m, 'root, 'inter, 'c, 'proof, 'sig, 'asig, 'x, 'r) lite_config \<Rightarrow> ('m, 'root, 'inter, 'r) lite_state \<Rightarrow> bool" where
  "lite_inv cfg s \<longleftrightarrow> allowances_ok s \<and> aliases_ok s \<and> keys_ok cfg s"

lemma lite_invD:
  assumes "lite_inv cfg s"
  shows "allowances_ok s" and "aliases_ok s" and "keys_ok cfg s"
  using assms by (simp_all add: lite_inv_def)

lemma keys_okD:
  assumes "keys_ok cfg s"
  shows "wf_storage (LitePeople s)"
    and "sget (LitePeople s) a = Some i \<Longrightarrow> sget (LitePeople s) b = Some j \<Longrightarrow> lpi_ring_vrf_key i = lpi_ring_vrf_key j \<Longrightarrow> a = b"
    and "collection_ok (lc_members cfg) PEOPLE_LITE_IDENTIFIER AppendOnlyRings (lite_members s)"
    and "only_keys (lite_key s) PEOPLE_LITE_IDENTIFIER (lite_members s)"
    and "undisturbed PEOPLE_LITE_IDENTIFIER (lite_members s)"
    and "lite_key s k \<Longrightarrow> scontains (Members (lite_members s)) (PEOPLE_LITE_IDENTIFIER, k)"
  using assms unfolding keys_ok_def by blast+

text \<open>Each part only depends on what it is about.\<close>

lemma allowances_frame:
  "LitePeople s' = LitePeople s \<Longrightarrow> AttestationAllowance s' = AttestationAllowance s \<Longrightarrow>
   (\<And>v. granted_to v (lite_events s') = granted_to v (lite_events s)) \<Longrightarrow> allowances_ok s' = allowances_ok s"
  by (simp add: allowances_ok_def)

lemma aliases_frame:
  "LitePeople s' = LitePeople s \<Longrightarrow> lite_AccountToAlias s' = lite_AccountToAlias s \<Longrightarrow>
   lite_AliasToAccount s' = lite_AliasToAccount s \<Longrightarrow> lite_refs s' = lite_refs s \<Longrightarrow> aliases_ok s' = aliases_ok s"
  by (simp add: aliases_ok_def uses_of_def [abs_def])

lemma keys_frame: "LitePeople s' = LitePeople s \<Longrightarrow> lite_members s' = lite_members s \<Longrightarrow> keys_ok cfg s' = keys_ok cfg s"
  by (simp add: keys_ok_def lite_key_def [abs_def])

lemma lite_inv_rest [simp]: "lite_inv cfg (s\<lparr>lite_rest := r\<rparr>) = lite_inv cfg s"
  by (simp add: lite_inv_def allowances_ok_def aliases_ok_def keys_ok_def uses_of_def [abs_def] lite_key_def [abs_def])

lemma lite_inv_genesis: "members_config_ok (lc_members cfg) \<Longrightarrow> lite_inv cfg (lite_genesis r)"
  by (simp add: lite_inv_def allowances_ok_def aliases_ok_def keys_ok_def lite_genesis_def attested_by_def uses_of_def
      bound_maps_Nil refs_match_def collection_genesis lite_key_def)

subsection \<open>Allowances and attestations\<close>

lemma allowances_okD: "allowances_ok s \<Longrightarrow> attested_by v (LitePeople s) + sget_or 0 (AttestationAllowance s) v \<le> granted_to v (lite_events s)"
  by (simp add: allowances_ok_def)

lemma increase_keeps:
  assumes inv: "lite_inv cfg s" and ok: "increase_attestation_allowance origin account n s = Inr (p, s')"
  shows "lite_inv cfg s'"
proof -
  let ?n = "sat_add u32_max (sget_or 0 (AttestationAllowance s) account) n"
  have s': "s' = lite_deposit (AttestationAllowanceIncreased account n)
      (s\<lparr>AttestationAllowance := sput account ?n (AttestationAllowance s)\<rparr>)"
    using ok by (simp add: increase_attestation_allowance_def Let_def)
  have "attested_by account (LitePeople s) + ?n \<le> granted_to account (lite_events s) + n"
    using allowances_okD [OF lite_invD(1) [OF inv], of account] sat_add_le(1) [of u32_max "sget_or 0 (AttestationAllowance s) account" n]
    by linarith
  then have "allowances_ok s'"
    using allowances_okD [OF lite_invD(1) [OF inv]] by (simp add: allowances_ok_def s')
  moreover have "aliases_ok s' = aliases_ok s" by (rule aliases_frame) (simp_all add: s')
  moreover have "keys_ok cfg s' = keys_ok cfg s" by (rule keys_frame) (simp_all add: s')
  ultimately show ?thesis using inv by (simp add: lite_inv_def)
qed

lemma clear_keeps:
  assumes inv: "lite_inv cfg s" and ok: "clear_attestation_allowance origin account s = Inr (p, s')"
  shows "lite_inv cfg s'"
proof -
  have s': "s' = lite_deposit (AllAttestationAllowanceCleared account)
      (s\<lparr>AttestationAllowance := sdel account (AttestationAllowance s)\<rparr>)"
    using ok by (simp add: clear_attestation_allowance_def)
  have "attested_by account (LitePeople s) \<le> granted_to account (lite_events s)"
    using allowances_okD [OF lite_invD(1) [OF inv], of account] by linarith
  then have "allowances_ok s'"
    using allowances_okD [OF lite_invD(1) [OF inv]] by (simp add: allowances_ok_def s')
  moreover have "aliases_ok s' = aliases_ok s" by (rule aliases_frame) (simp_all add: s')
  moreover have "keys_ok cfg s' = keys_ok cfg s" by (rule keys_frame) (simp_all add: s')
  ultimately show ?thesis using inv by (simp add: lite_inv_def)
qed

text \<open>The effect of a successful attestation.\<close>

lemma attestE:
  assumes "attest cfg env origin candidate csig key sig reg s = Inr (p, s')"
  obtains verifier where "origin = LiteSigned verifier" and "sget (LitePeople s) candidate = None"
    and "sget (Members (lite_members s)) (PEOPLE_LITE_IDENTIFIER, key) = None"
    and "0 < sget_or 0 (AttestationAllowance s) verifier" and "LitePeopleCollectionCreated s"
    and "lc_verify_signature cfg sig (MSG_PREFIX @ candidate @ lc_encode_member cfg key) key"
    and "lc_verify_attestation cfg csig (MSG_PREFIX @ candidate @ lc_encode_member cfg key) candidate"
    and "add_members (lc_members cfg) (lite_now env) PEOPLE_LITE_IDENTIFIER [key] (lite_members s) = Inr (lite_members s')"
    and "LitePeople s' = sput candidate \<lparr>lpi_ring_vrf_key = key, lpi_method = UniqueDevice verifier\<rparr> (LitePeople s)"
    and "sget_or 0 (AttestationAllowance s') =
        (sget_or 0 (AttestationAllowance s))(verifier := sget_or 0 (AttestationAllowance s) verifier - 1)"
    and "lite_refs s' = lite_refs s @ [IncSufficients candidate]"
    and "lite_events s' = lite_events s @ PersonAttested candidate verifier #
        (case reg of None \<Rightarrow> [] | Some params \<Rightarrow> [ConsumerRegistered (crp_account params)])"
    and "lite_AliasToAccount s' = lite_AliasToAccount s" and "lite_AccountToAlias s' = lite_AccountToAlias s"
proof -
  obtain verifier where origin: "origin = LiteSigned verifier" using assms by (auto simp: attest_def split: lite_origin.split_asm)
  show thesis
    using assms that [OF origin]
    by (cases reg) (auto simp: attest_def origin Let_def ensure_lite_collection_created_def of_member_service_def member_status_def
        checked_sub_def scontains_def register_lite_consumer_def fun_eq_iff split: if_split_asm)
qed

lemma attested_by_sput:
  assumes "wf_storage L" and "sget L a = None"
  shows "attested_by v (sput a info L) = attested_by v L + (if lpi_method info = UniqueDevice v then 1 else 0)"
  using ssum_sput [OF assms(1), of "\<lambda>(_, info). if lpi_method info = UniqueDevice v then 1 else 0" a info] assms(2)
  by (simp add: attested_by_def)

lemma attest_keeps:
  assumes inv: "lite_inv cfg s" and ok: "attest cfg env origin candidate csig key sig reg s = Inr (p, s')"
  shows "lite_inv cfg s'"
  using ok
proof (cases rule: attestE)
  case (1 v)
  note keys = keys_okD [OF lite_invD(3) [OF inv]]
  let ?info = "\<lparr>lpi_ring_vrf_key = key, lpi_method = UniqueDevice v\<rparr>"
  note people = 1(9)
  have events: "granted_to w (lite_events s') = granted_to w (lite_events s)" for w
    by (simp add: 1(12) split: option.splits)
  have "allowances_ok s'"
    using 1(4) attested_by_sput [OF keys(1) 1(2)] allowances_okD [OF lite_invD(1) [OF inv]] allowances_okD [OF lite_invD(1) [OF inv], of v]
    by (auto simp: allowances_ok_def people events 1(10))
  moreover have "uses_of s' = (uses_of s)(candidate := uses_of s candidate + 1)"
    using 1(2) by (auto simp: uses_of_def fun_eq_iff people 1(14) holders_bound)
  then have "aliases_ok s'"
    using lite_invD(2) [OF inv] refs_match_inc by (auto simp: aliases_ok_def 1(11,13,14))
  moreover have new: "\<not> lite_key s key" using keys(6) [of key] 1(3) by (auto simp: scontains_def)
  have other: "lpi_ring_vrf_key info \<noteq> key" if "sget (LitePeople s) a = Some info" for a info
    using new that by (auto simp: lite_key_def)
  have lite_key': "lite_key s' k \<longleftrightarrow> k = key \<or> lite_key s k" for k
    using 1(2) by (auto simp: lite_key_def people split: if_splits) (metis option.distinct(1))
  have "keys_ok cfg s'"
  proof -
    let ?ms = "lite_members s'"
    have only: "only_keys (lite_key s') PEOPLE_LITE_IDENTIFIER (lite_members s)"
      using only_keys_mono [OF keys(4)] lite_key' by blast
    have "a = b" if "sget (LitePeople s') a = Some i" "sget (LitePeople s') b = Some j" "lpi_ring_vrf_key i = lpi_ring_vrf_key j" for a b i j
      using that by (auto simp: people dest: other keys(2) split: if_splits)
    moreover have "collection_ok (lc_members cfg) PEOPLE_LITE_IDENTIFIER AppendOnlyRings ?ms" "only_keys (lite_key s') PEOPLE_LITE_IDENTIFIER ?ms"
      using collection_add [OF keys(3) only 1(8)] lite_key' by blast+
    moreover have "members_stay PEOPLE_LITE_IDENTIFIER (lite_members s) ?ms" "scontains (Members ?ms) (PEOPLE_LITE_IDENTIFIER, key)"
      using add_members_stays [OF keys(5) 1(8)] by blast+
    moreover have "wf_storage (LitePeople s')" using keys(1) by (simp add: people)
    ultimately show ?thesis
      using keys(6) unfolding keys_ok_def lite_key' members_stay_def by blast
  qed
  ultimately show ?thesis by (simp add: lite_inv_def)
qed

subsection \<open>The collection\<close>

lemma exists_keeps:
  assumes inv: "lite_inv cfg s" and ok: "ensure_lite_collection_exists cfg s = Inr s'"
  shows "lite_inv cfg s'"
proof (cases "LitePeopleCollectionCreated s")
  case False
  note keys = keys_okD [OF lite_invD(3) [OF inv]]
  obtain ms where create: "create_collection (lc_members cfg) (lc_CollectionOwner cfg) PEOPLE_LITE_IDENTIFIER
        (lc_LiteOnboardingSize cfg) AppendOnlyRings (lc_LiteRingExponent cfg) None (lite_members s) = Inr ms"
    and s': "s' = s\<lparr>lite_members := ms, LitePeopleCollectionCreated := True\<rparr>"
    using ok False by (auto simp: ensure_lite_collection_exists_def of_member_service_def)
  have key: "lite_key s' = lite_key s" by (simp add: lite_key_def [abs_def] s')
  have "keys_ok cfg s'"
    using collection_create [OF keys(3,4) create] create_collection_stays [OF keys(5) create] keys(1,2,6)
    by (auto simp: keys_ok_def key members_stay_def) (simp_all add: s')
  moreover have "allowances_ok s' = allowances_ok s" by (rule allowances_frame) (simp_all add: s')
  moreover have "aliases_ok s' = aliases_ok s" by (rule aliases_frame) (simp_all add: s')
  ultimately show ?thesis using inv by (simp add: lite_inv_def)
qed (use ok inv in \<open>simp add: ensure_lite_collection_exists_def\<close>)

lemma poll_result:
  "snd (lite_on_poll cfg left s) = s \<or> ensure_lite_collection_exists cfg s = Inr (snd (lite_on_poll cfg left s))"
  by (auto simp: lite_on_poll_def lite_do_on_poll_def Let_def split: prod.split option.split sum.split)

lemma of_members_keeps:
  assumes inv: "lite_inv cfg s" and step: "members_step (lc_members cfg) (menv, y) (lite_members s) = Inr ms"
    and guard: "members_guard (lc_members cfg) (menv, y) (lite_members s)" and other: "\<not> administers y PEOPLE_LITE_IDENTIFIER"
  shows "lite_inv cfg (s\<lparr>lite_members := ms\<rparr>)"
proof -
  note keys = keys_okD [OF lite_invD(3) [OF inv]]
  have key: "lite_key (s\<lparr>lite_members := ms\<rparr>) = lite_key s" by (simp add: lite_key_def [abs_def])
  have "members_stay PEOPLE_LITE_IDENTIFIER (lite_members s) ms"
    using members_step_stays [OF keys(5) step] administers_all(3) [OF other] by blast
  then have "keys_ok cfg (s\<lparr>lite_members := ms\<rparr>)"
    using collection_other_step [OF keys(3,4) step guard other] keys(1,2,6) by (auto simp: keys_ok_def key members_stay_def)
  moreover have "allowances_ok (s\<lparr>lite_members := ms\<rparr>) = allowances_ok s" by (rule allowances_frame) simp_all
  moreover have "aliases_ok (s\<lparr>lite_members := ms\<rparr>) = aliases_ok s" by (rule aliases_frame) simp_all
  ultimately show ?thesis using inv by (simp add: lite_inv_def)
qed

subsection \<open>Aliases\<close>

lemma moved_account:
  assumes ok: "lite_move_account (sget (lite_AliasToAccount s) (rca_ca rev_ca)) account s = Inr s1"
    and inv: "aliases_ok s" and in_ctx: "ca_context (rca_ca rev_ca) = LITE_PEOPLE_AUTH_CONTEXT"
  shows "aliases_ok (s1\<lparr>lite_AccountToAlias := sput account rev_ca (lite_AccountToAlias s1),
      lite_AliasToAccount := sput (rca_ca rev_ca) account (lite_AliasToAccount s1)\<rparr>)"
proof -
  note maps = inv [unfolded aliases_ok_def, THEN conjunct1]
  have refs: "refs_match (lite_refs s) (uses_of s)" using inv by (simp add: aliases_ok_def)
  consider (renew) "sget (lite_AliasToAccount s) (rca_ca rev_ca) = Some account" "s1 = s"
    | (fresh) "sget (lite_AliasToAccount s) (rca_ca rev_ca) = None" "sget (lite_AccountToAlias s) account = None"
        "s1 = lite_ref (IncSufficients account) s"
    | (swap) old where "sget (lite_AliasToAccount s) (rca_ca rev_ca) = Some old" "old \<noteq> account" "sget (lite_AccountToAlias s) account = None"
        "s1 = lite_ref (IncSufficients account) ((lite_ref (DecSufficients old) s)\<lparr>lite_AccountToAlias := sdel old (lite_AccountToAlias s)\<rparr>)"
    using ok by (auto simp: lite_move_account_def Let_def scontains_def split: option.split_asm if_split_asm)
  then show ?thesis
  proof cases
    case renew
    then obtain info where info: "sget (lite_AccountToAlias s) account = Some info" "rca_ca info = rca_ca rev_ca"
      using bound_mapsD(2) [OF maps renew(1)] by blast
    have "uses_of (s\<lparr>lite_AccountToAlias := sput account rev_ca (lite_AccountToAlias s),
        lite_AliasToAccount := sput (rca_ca rev_ca) account (lite_AliasToAccount s)\<rparr>) = uses_of s"
      using info(1) by (simp add: uses_of_def fun_eq_iff holders_bound)
    then show ?thesis
      using inv bound_maps_renew(2) [OF maps info(1)] info(2) in_ctx renew by (auto simp: aliases_ok_def)
  next
    case fresh
    have "uses_of (s1\<lparr>lite_AccountToAlias := sput account rev_ca (lite_AccountToAlias s1),
        lite_AliasToAccount := sput (rca_ca rev_ca) account (lite_AliasToAccount s1)\<rparr>) = (uses_of s)(account := uses_of s account + 1)"
      using fresh by (simp add: uses_of_def fun_eq_iff holders_bound)
    then show ?thesis
      using inv bound_maps_bind [OF maps fresh(1,2)] refs_match_inc [OF refs] in_ctx fresh by (auto simp: aliases_ok_def)
  next
    case (swap old)
    obtain info where info: "sget (lite_AccountToAlias s) old = Some info" using bound_mapsD(2) [OF maps swap(1)] by blast
    let ?f = "(uses_of s)(old := uses_of s old - 1)"
    have "0 < uses_of s old" using info by (simp add: uses_of_def holders_bound)
    then have "refs_match ((lite_refs s @ [DecSufficients old]) @ [IncSufficients account]) (?f(account := ?f account + 1))"
      by (intro refs_match_inc refs_match_dec refs)
    moreover have "uses_of (s1\<lparr>lite_AccountToAlias := sput account rev_ca (lite_AccountToAlias s1),
        lite_AliasToAccount := sput (rca_ca rev_ca) account (lite_AliasToAccount s1)\<rparr>) = ?f(account := ?f account + 1)"
      using swap info by (auto simp: uses_of_def fun_eq_iff holders_bound)
    ultimately show ?thesis
      using inv bound_maps_swap [OF maps swap(1,3)] in_ctx swap by (auto simp: aliases_ok_def)
  qed
qed

lemma move_frame:
  "lite_move_account old account s = Inr s1 \<Longrightarrow> LitePeople s1 = LitePeople s \<and> lite_members s1 = lite_members s \<and>
   lite_events s1 = lite_events s \<and> AttestationAllowance s1 = AttestationAllowance s"
  by (auto simp: lite_move_account_def Let_def split: option.split_asm if_split_asm)

lemma lite_set_alias_keeps:
  assumes inv: "lite_inv cfg s" and ok: "lite_set_alias_account env origin account at s = Inr (p, s')"
  shows "lite_inv cfg s'"
proof -
  obtain rev_ca s1 where in_ctx: "ca_context (rca_ca rev_ca) = LITE_PEOPLE_AUTH_CONTEXT"
    and move: "lite_move_account (sget (lite_AliasToAccount s) (rca_ca rev_ca)) account s = Inr s1"
    and s': "s' = lite_deposit (Lite_AliasAccountSet (rca_ca rev_ca) account)
      (s1\<lparr>lite_AccountToAlias := sput account rev_ca (lite_AccountToAlias s1),
          lite_AliasToAccount := sput (rca_ca rev_ca) account (lite_AliasToAccount s1)\<rparr>)"
    using ok unfolding lite_set_alias_account_def on_ok_Inr ensure_Inr Let_def by auto
  note frame = move_frame [OF move]
  have "aliases_ok s'"
    using moved_account [OF move lite_invD(2) [OF inv] in_ctx] unfolding s' by (subst aliases_frame) simp_all
  moreover have "allowances_ok s' = allowances_ok s" by (rule allowances_frame) (simp_all add: s' frame)
  moreover have "keys_ok cfg s' = keys_ok cfg s" by (rule keys_frame) (simp_all add: s' frame)
  ultimately show ?thesis using inv by (simp add: lite_inv_def)
qed

lemma lite_unset_alias_keeps:
  assumes inv: "lite_inv cfg s" and ok: "lite_unset_alias_account origin s = Inr (p, s')"
  shows "lite_inv cfg s'"
proof -
  obtain rev_ca :: RevisedContextualAlias and account where bound: "sget (lite_AliasToAccount s) (rca_ca rev_ca) = Some account"
    and s': "s' = lite_deposit (Lite_AliasAccountUnset (rca_ca rev_ca) account) (lite_ref (DecSufficients account)
      (s\<lparr>lite_AliasToAccount := sdel (rca_ca rev_ca) (lite_AliasToAccount s),
         lite_AccountToAlias := sdel account (lite_AccountToAlias s)\<rparr>))"
    using ok unfolding lite_unset_alias_account_def on_ok_Inr ok_or_Inr Let_def by auto
  have maps: "bound_maps rca_ca (lite_AliasToAccount s) (lite_AccountToAlias s)" and refs: "refs_match (lite_refs s) (uses_of s)"
    using lite_invD(2) [OF inv] by (simp_all add: aliases_ok_def)
  obtain info where info: "sget (lite_AccountToAlias s) account = Some info" "rca_ca info = rca_ca rev_ca"
    using bound_mapsD(2) [OF maps bound] by blast
  have "uses_of s' = (uses_of s)(account := uses_of s account - 1)" and "0 < uses_of s account"
    using info(1) by (simp_all add: uses_of_def fun_eq_iff s' holders_bound)
  then have "aliases_ok s'"
    using lite_invD(2) [OF inv] bound_maps_unbind [OF maps info(1)] refs_match_dec [OF refs] info(2) by (auto simp: aliases_ok_def s')
  moreover have "allowances_ok s' = allowances_ok s" by (rule allowances_frame) (simp_all add: s')
  moreover have "keys_ok cfg s' = keys_ok cfg s" by (rule keys_frame) (simp_all add: s')
  ultimately show ?thesis using inv by (simp add: lite_inv_def)
qed

subsection \<open>Steps\<close>

lemma lite_dispatch_keeps:
  "lite_inv cfg s \<Longrightarrow> lite_dispatch cfg env origin call s = Inr (p, s') \<Longrightarrow> lite_inv cfg s'"
proof (induction call arbitrary: origin)
  case (DispatchAsSigner call)
  then show ?case by auto
qed (use increase_keeps clear_keeps attest_keeps lite_set_alias_keeps lite_unset_alias_keeps in auto)

lemma lite_prepare_keeps:
  assumes inv: "lite_inv cfg s" and valid: "lite_auth_validate cfg env imp ext origin call s = Inr (v, origin')"
    and ok: "lite_auth_prepare cfg v s = Inr s1"
  shows "lite_inv cfg s1"
proof (cases "\<exists>who nonce rev_ca. v = Val_AsLiteAliasWithAccountRevised who nonce rev_ca")
  case True
  then obtain who nonce rev_ca where v: "v = Val_AsLiteAliasWithAccountRevised who nonce rev_ca" by blast
  obtain old where old: "sget (lite_AccountToAlias s) who = Some old" and same: "rca_ca rev_ca = rca_ca old"
  proof (cases ext)
    case (Some i)
    then obtain pf ring ctx where i: "i = AsLiteAliasWithAccountRevised nonce pf ring ctx"
      using valid v by (cases i) (auto simp: validate_lite_person_def validate_lite_alias_with_account_def
        validate_lite_alias_with_proof_def validate_lite_alias_revised_def split: lite_origin.splits lite_call.splits)
    then show thesis
      using that valid v Some
      by (fastforce simp: validate_lite_alias_revised_def split: lite_origin.splits intro!: ContextualAlias.equality)
  qed (use valid v in simp)
  obtain r where s1: "s1 = s\<lparr>lite_AccountToAlias := sput who rev_ca (lite_AccountToAlias s), lite_rest := r\<rparr>"
    using ok by (auto simp: v lite_auth_prepare_def lite_nonce_def)
  let ?s = "s\<lparr>lite_AccountToAlias := sput who rev_ca (lite_AccountToAlias s)\<rparr>"
  have maps: "bound_maps rca_ca (lite_AliasToAccount s) (lite_AccountToAlias s)" using lite_invD(2) [OF inv] by (simp add: aliases_ok_def)
  have "uses_of ?s = uses_of s" using old by (simp add: uses_of_def fun_eq_iff holders_bound)
  then have "aliases_ok ?s"
    using lite_invD(2) [OF inv] bound_maps_renew(1) [OF maps old same] old same by (auto simp: aliases_ok_def)
  moreover have "allowances_ok ?s = allowances_ok s" by (rule allowances_frame) simp_all
  moreover have "keys_ok cfg ?s = keys_ok cfg s" by (rule keys_frame) simp_all
  ultimately have "lite_inv cfg ?s" using inv by (simp add: lite_inv_def)
  then have "lite_inv cfg (?s\<lparr>lite_rest := r\<rparr>)" unfolding lite_inv_rest .
  then show ?thesis by (simp add: s1)
next
  case False
  then show ?thesis using ok inv by (cases v) (auto simp: lite_auth_prepare_def lite_nonce_def)
qed

text \<open>The collection of the lite people is administered by this pallet only.\<close>

fun lite_guard ::
  "('m, 'root, 'inter, 'c, 'proof, 'sig, 'asig, 'x, 'r) lite_config \<Rightarrow> lite_env \<times> ('m, 'c, 'proof, 'sig, 'asig, 'x) lite_op \<Rightarrow>
   ('m, 'root, 'inter, 'r) lite_state \<Rightarrow> bool" where
  "lite_guard cfg (env, LiteOfMembers menv y) s =
     (\<not> administers y PEOPLE_LITE_IDENTIFIER \<and> members_guard (lc_members cfg) (menv, y) (lite_members s))"
| "lite_guard cfg (env, _) s = True"

lemma lite_step_keeps:
  assumes inv: "lite_inv cfg s" and guard: "lite_guard cfg x s" and ok: "lite_step cfg x s = Inr s'"
  shows "lite_inv cfg s'"
proof -
  obtain env y where x: "x = (env, y)" by fastforce
  show ?thesis
  proof (cases y)
    case (LiteTransaction ext signer imp call)
    then obtain v origin s1 where valid: "lite_auth_validate cfg env imp ext
          (case signer of Some who \<Rightarrow> LiteSigned who | None \<Rightarrow> LiteNone) call s = Inr (v, origin)"
      and prep: "lite_auth_prepare cfg v s = Inr s1"
      and s': "s' = (case lite_dispatch cfg env origin call s1 of Inl _ \<Rightarrow> s1 | Inr (_, s2) \<Rightarrow> s2)"
      using ok x by (auto simp: lite_transaction_def)
    have "lite_inv cfg s1" by (rule lite_prepare_keeps [OF inv valid prep])
    then show ?thesis using lite_dispatch_keeps by (fastforce simp: s' split: sum.splits)
  next
    case (LiteManagerCall call)
    then show ?thesis using ok x lite_dispatch_keeps [OF inv] by auto
  next
    case (LitePoll left)
    then show ?thesis using ok x inv exists_keeps [OF inv] poll_result [of cfg left s] by auto
  next
    case (LiteOfMembers menv z)
    then show ?thesis using ok x guard of_members_keeps [OF inv] by auto
  qed
qed

interpretation lite: pallet_contract "lite_step cfg" "lite_inv cfg" "lite_guard cfg" for cfg
  by unfold_locales (rule lite_step_keeps)

lemma lite_reachable:
  assumes "members_config_ok (lc_members cfg)" and "guarded_run (lite_step cfg) (lite_guard cfg) ops (lite_genesis r)"
  shows "lite_inv cfg (run_calls (lite_step cfg) ops (lite_genesis r))"
  by (rule lite.run_keeps [OF lite_inv_genesis [OF assms(1)] assms(2)])

end
