(* ===== verification/Lite_Demo.thy ===== *)
theory Lite_Demo
  imports Lite_Steps Members_Demo
begin

text \<open>
  A concrete chain for the witnesses of the pallet of the lite people: an attester registers two of the three people it may
  register, their keys are put into a ring, and one of them binds an account to the alias.
\<close>

definition demo_lite :: "(nat, nat list, nat list, nat, nat, nat, bytes, unit, account_id list) lite_config" where
  "demo_lite = \<lparr>lc_members = demo_members\<lparr>OnboardingQueuePageSize := 10, RingBuildingMemberLimit := 16, ring_capacity := \<lambda>_. 20\<rparr>,
     lc_prover = demo_ring_prover, lc_verify_signature = (\<lambda>sig _ key. sig = key), lc_verify_attestation = (\<lambda>csig _ a. csig = a),
     lc_encode_member = (\<lambda>key. [of_nat key]), lc_CollectionOwner = [7], lc_LiteRingExponent = R2e9, lc_LiteOnboardingSize = 1,
     lc_check_weight = (1, 1), lc_initialize_weight = (10, 10), lc_blake2 = id, lc_check_nonce = (\<lambda>_ _ _. True),
     lc_prepare_nonce = (\<lambda>_ _ r. Some r), lc_registrar = (\<lambda>a _ _ _ r. Inr (a # r)),
     lc_other_call = (\<lambda>_ _ r. Inr (PaysYes, r))\<rparr>"

definition demo_at :: "nat \<Rightarrow> lite_env" where
  "demo_at n = \<lparr>lite_block = n, lite_now = n\<rparr>"

definition demo_lite_ops :: "(lite_env \<times> (nat, nat, nat, nat, bytes, unit) lite_op) list" where
  "demo_lite_ops = [
     (demo_at 1, LitePoll (100, 100)),
     (demo_at 1, LiteManagerCall (IncreaseAttestationAllowance [5] 3)),
     (demo_at 2, LiteTransaction None (Some [5]) [0] (Attest [6] [6] 41 41 None)),
     (demo_at 2, LiteTransaction None (Some [5]) [0] (Attest [7] [7] 42 42 None)),
     (demo_at 3, LiteOfMembers (demo_env 11) (Maintain True (OnboardMembers PEOPLE_LITE_IDENTIFIER 0 0 (Some 41)))),
     (demo_at 4, LiteOfMembers (demo_env 12) (Maintain True (BuildRing PEOPLE_LITE_IDENTIFIER 0 R2e9 None 2))),
     (demo_at 700, LiteTransaction (Some (AsLiteAliasWithProof 41 0 LITE_PEOPLE_AUTH_CONTEXT)) None [1] (Lite_SetAliasAccount [8] 600))]"

abbreviation demo_lite_run ::
  "(lite_env \<times> (nat, nat, nat, nat, bytes, unit) lite_op) list \<Rightarrow> (nat, nat list, nat list, account_id list) lite_state" where
  "demo_lite_run ops \<equiv> run_calls (lite_step demo_lite) ops (lite_genesis [])"

abbreviation demo_lite_alias :: RevisedContextualAlias where
  "demo_lite_alias \<equiv> \<lparr>rca_revision = 0, rca_ring = 0, rca_ca = \<lparr>ca_alias = [41], ca_context = LITE_PEOPLE_AUTH_CONTEXT\<rparr>\<rparr>"

lemma demo_lite_ok: "members_config_ok (lc_members demo_lite)"
  by (simp add: members_config_ok_def members_integrity_test_def demo_lite_def demo_members_def flexible_ring_capacity_def
      ALL_exponents_def split: RingExponent.splits)

lemma demo_lite_guard: "guarded_run (lite_step demo_lite) (lite_guard demo_lite) demo_lite_ops (lite_genesis [])"
  by code_simp

lemma demo_lite_books:
  "sget (LitePeople (demo_lite_run demo_lite_ops)) [7] = Some \<lparr>lpi_ring_vrf_key = 42, lpi_method = UniqueDevice [5]\<rparr>"
  "sget (lite_AccountToAlias (demo_lite_run demo_lite_ops)) [8] = Some demo_lite_alias"
  "sget_or 0 (AttestationAllowance (demo_lite_run demo_lite_ops)) [5] = 1"
  "granted_to [5] (lite_events (demo_lite_run demo_lite_ops)) = 3"
  by code_simp+

lemma demo_lite_extension:
  "lite_auth_validate demo_lite (demo_at 701) [4] (Some (AsLiteAliasWithAccount 0)) (LiteSigned [8])
     (LiteOtherCall ()) (demo_lite_run demo_lite_ops) = Inr (Val_AsLiteAliasWithAccount [8] 0, LiteAlias demo_lite_alias)"
  by code_simp

text \<open>A third person is attested, with a registration for the account \<open>[10]\<close>, which is nobody's.\<close>

definition demo_params :: "bytes LiteConsumerRegistrationParams" where
  "demo_params = \<lparr>crp_signature = [10], crp_account = [10], crp_identifier_key = replicate 65 0,
     crp_username = [97, 98, 46, 49], crp_reserved_username = None\<rparr>"

definition demo_attested :: "(nat, nat list, nat list, account_id list) lite_state" where
  "demo_attested = (case attest demo_lite (demo_at 702) (LiteSigned [5]) [9] [9] 43 43 None (demo_lite_run demo_lite_ops) of
     Inr (_, s) \<Rightarrow> s | Inl _ \<Rightarrow> lite_genesis [])"

lemma demo_attests:
  "attest demo_lite (demo_at 702) (LiteSigned [5]) [9] [9] 43 43 None (demo_lite_run demo_lite_ops) = Inr (PaysNo, demo_attested)"
  "\<not> scontains (LitePeople (demo_lite_run demo_lite_ops)) (crp_account demo_params)" "lite_rest (demo_lite_run demo_lite_ops) = []"
  by code_simp+

lemma demo_params_accepted:
  "lc_verify_attestation demo_lite (crp_signature demo_params) (signing_payload [5] demo_params) (crp_account demo_params)"
  "lc_registrar demo_lite (crp_account demo_params) (crp_identifier_key demo_params) (crp_username demo_params)
     (crp_reserved_username demo_params) [] = Inr [[10]]" "crp_account demo_params \<noteq> [9]"
  by code_simp+

end
