(* ===== verification/Lite_Claims.thy ===== *)
theory Lite_Claims
  imports Lite_Demo
begin

text \<open>The properties of the pallet of the lite people on its chain.\<close>

abbreviation lite_run ::
  "('m, 'root, 'inter, 'c, 'proof, 'sig, 'asig, 'x, 'r) lite_config \<Rightarrow>
   (lite_env \<times> ('m, 'c, 'proof, 'sig, 'asig, 'x) lite_op) list \<Rightarrow> 'r \<Rightarrow> ('m, 'root, 'inter, 'r) lite_state" where
  "lite_run cfg ops r \<equiv> run_calls (lite_step cfg) ops (lite_genesis r)"

abbreviation lite_signer :: "account_id option \<Rightarrow> lite_origin" where
  "lite_signer signer \<equiv> (case signer of Some who \<Rightarrow> LiteSigned who | None \<Rightarrow> LiteNone)"

subsection \<open>What changes the lite people and the aliases\<close>

text \<open>The call that is dispatched in the end.\<close>

fun innermost :: "('m, 'sig, 'asig, 'x) lite_call \<Rightarrow> ('m, 'sig, 'asig, 'x) lite_call" where
  "innermost (DispatchAsSigner call) = innermost call"
| "innermost call = call"

text \<open>A call that registers the account with the information, with the signatures of the account and of the key.\<close>

definition registers ::
  "('m, 'root, 'inter, 'c, 'proof, 'sig, 'asig, 'x, 'r) lite_config \<Rightarrow> ('m, 'sig, 'asig, 'x) lite_call \<Rightarrow> account_id \<Rightarrow>
   account_id \<Rightarrow> 'm LitePersonInfo \<Rightarrow> bool" where
  "registers cfg call attester a info \<longleftrightarrow> lpi_method info = UniqueDevice attester \<and>
     (\<exists>csig sig reg. innermost call = Attest a csig (lpi_ring_vrf_key info) sig reg \<and>
       lc_verify_attestation cfg csig (MSG_PREFIX @ a @ lc_encode_member cfg (lpi_ring_vrf_key info)) a \<and>
       lc_verify_signature cfg sig (MSG_PREFIX @ a @ lc_encode_member cfg (lpi_ring_vrf_key info)) (lpi_ring_vrf_key info))"

lemma lite_set_alias_frame:
  "lite_set_alias_account env origin account at s = Inr (p, s') \<Longrightarrow> LitePeople s' = LitePeople s"
  unfolding lite_set_alias_account_def on_ok_Inr ensure_Inr Let_def by (auto dest!: move_frame)

lemma dispatch_registers:
  "lite_dispatch cfg env origin call s = Inr (p, s') \<Longrightarrow> sget (LitePeople s') a = Some info \<Longrightarrow>
   sget (LitePeople s) a = Some info \<or> (\<exists>v. (origin = LiteSigned v \<or> origin = LitePerson v) \<and> registers cfg call v a info)"
proof (induction call arbitrary: origin)
  case (Attest candidate csig key sig reg)
  then have "attest cfg env origin candidate csig key sig reg s = Inr (p, s')" by simp
  then show ?case
  proof (cases rule: attestE)
    case (1 v)
    then show ?thesis using Attest.prems(2) by (auto simp: registers_def split: if_split_asm)
  qed
next
  case (DispatchAsSigner call)
  then show ?case by (cases origin) (auto simp: as_signer_def registers_def)
next
  case (Lite_SetAliasAccount account at)
  then show ?case by (auto dest!: lite_set_alias_frame)
qed (auto simp: increase_attestation_allowance_def clear_attestation_allowance_def lite_unset_alias_account_def Let_def)

lemma validated_signer:
  "lite_auth_validate cfg env imp ext (lite_signer signer) call s = Inr (v, origin) \<Longrightarrow>
   origin = LiteSigned w \<or> origin = LitePerson w \<Longrightarrow> signer = Some w"
  by (cases signer; cases ext; simp; cases "the ext")
     (auto simp: validate_lite_person_def validate_lite_alias_with_account_def validate_lite_alias_with_proof_def
        validate_lite_alias_revised_def split: lite_call.splits)

lemma prepare_frame: "lite_auth_prepare cfg v s = Inr s1 \<Longrightarrow> LitePeople s1 = LitePeople s"
  by (cases v) (auto simp: lite_auth_prepare_def lite_nonce_def)

lemma exists_frame:
  "ensure_lite_collection_exists cfg s = Inr s' \<Longrightarrow> LitePeople s' = LitePeople s \<and> lite_AccountToAlias s' = lite_AccountToAlias s"
  by (auto simp: ensure_lite_collection_exists_def split: if_splits)

lemma step_registers:
  assumes ok: "lite_step cfg (env, y) s = Inr s'" and a: "sget (LitePeople s') a = Some info"
  shows "sget (LitePeople s) a = Some info \<or>
    (\<exists>ext attester imp call. y = LiteTransaction ext (Some attester) imp call \<and> registers cfg call attester a info)"
proof (cases y)
  case (LiteTransaction ext signer imp call)
  then obtain v origin s1 where valid: "lite_auth_validate cfg env imp ext (lite_signer signer) call s = Inr (v, origin)"
    and prep: "lite_auth_prepare cfg v s = Inr s1"
    and s': "s' = (case lite_dispatch cfg env origin call s1 of Inl _ \<Rightarrow> s1 | Inr (_, s2) \<Rightarrow> s2)"
    using ok by (auto simp: lite_transaction_def)
  have "sget (LitePeople s1) a = Some info \<or> (\<exists>w. (origin = LiteSigned w \<or> origin = LitePerson w) \<and> registers cfg call w a info)"
    using a dispatch_registers [of cfg env origin call s1] by (fastforce simp: s' split: sum.split_asm prod.split_asm)
  then show ?thesis using validated_signer [OF valid] LiteTransaction prepare_frame [OF prep] by auto
next
  case (LiteManagerCall call)
  then obtain p where "lite_dispatch cfg env LiteManager call s = Inr (p, s')" using ok by auto
  from dispatch_registers [OF this a] show ?thesis by simp
next
  case (LitePoll left)
  then have "s' = snd (lite_on_poll cfg left s)" using ok by simp
  then have "LitePeople s' = LitePeople s" using poll_result [of cfg left s] exists_frame [of cfg s s'] by auto
  then show ?thesis using a by simp
next
  case (LiteOfMembers menv z)
  then show ?thesis using ok a by auto
qed

text \<open>A lite person stays one.\<close>

lemma dispatch_keeps_person:
  "lite_dispatch cfg env origin call s = Inr (p, s') \<Longrightarrow> sget (LitePeople s) a = Some info \<Longrightarrow> sget (LitePeople s') a = Some info"
proof (induction call arbitrary: origin)
  case (Attest candidate csig key sig reg)
  then have "attest cfg env origin candidate csig key sig reg s = Inr (p, s')" by simp
  then show ?case by (rule attestE) (use Attest.prems(2) in auto)
next
  case (DispatchAsSigner call)
  then show ?case by auto
next
  case (Lite_SetAliasAccount account at)
  then show ?case by (auto dest!: lite_set_alias_frame)
qed (auto simp: increase_attestation_allowance_def clear_attestation_allowance_def lite_unset_alias_account_def Let_def)

lemma step_keeps_person:
  assumes ok: "lite_step cfg (env, y) s = Inr s'" and a: "sget (LitePeople s) a = Some info"
  shows "sget (LitePeople s') a = Some info"
proof (cases y)
  case (LiteTransaction ext signer imp call)
  then obtain v origin s1 where "lite_auth_prepare cfg v s = Inr s1"
    and s': "s' = (case lite_dispatch cfg env origin call s1 of Inl _ \<Rightarrow> s1 | Inr (_, s2) \<Rightarrow> s2)"
    using ok by (auto simp: lite_transaction_def)
  then have "sget (LitePeople s1) a = Some info" using a prepare_frame by metis
  then show ?thesis using dispatch_keeps_person [of cfg env origin call s1] by (auto simp: s' split: sum.split)
next
  case (LiteManagerCall call)
  then show ?thesis using ok a dispatch_keeps_person [of cfg env LiteManager call s] by auto
next
  case (LitePoll left)
  then have "s' = snd (lite_on_poll cfg left s)" using ok by simp
  then have "LitePeople s' = LitePeople s" using poll_result [of cfg left s] exists_frame [of cfg s s'] by auto
  then show ?thesis using a by simp
next
  case (LiteOfMembers menv z)
  then show ?thesis using ok a by auto
qed

lemma run_keeps_person:
  "sget (LitePeople s) a = Some info \<Longrightarrow> sget (LitePeople (run_calls (lite_step cfg) ops s)) a = Some info"
proof (induction ops arbitrary: s)
  case (Cons x ops)
  have "sget (LitePeople (case lite_step cfg x s of Inl _ \<Rightarrow> s | Inr s' \<Rightarrow> s')) a = Some info"
    using Cons.prems step_keeps_person [of cfg "fst x" "snd x" s] by (auto split: sum.split)
  then show ?case using Cons.IH by simp
qed simp

subsection \<open>Where a bound alias comes from\<close>

definition proven_lite_alias ::
  "('m, 'root, 'inter, 'c, 'proof, 'sig, 'asig, 'x, 'r) lite_config \<Rightarrow> ('m, 'root, 'inter, 'r) lite_state \<Rightarrow>
   RevisedContextualAlias \<Rightarrow> bool" where
  "proven_lite_alias cfg s rev_ca = ring_proven (lc_members cfg) (lc_prover cfg) PEOPLE_LITE_IDENTIFIER
     (\<lambda>key. \<exists>a info. sget (LitePeople s) a = Some info \<and> lpi_ring_vrf_key info = key) (lite_members s) rev_ca"

lemma lite_verified_proven:
  assumes "lite_inv cfg s" and "lite_verify cfg pf ring ctx msg s = Inr rev_ca"
  shows "proven_lite_alias cfg s rev_ca"
  using verified_ring_proven [OF keys_okD(3,4) [OF lite_invD(3) [OF assms(1)]] assms(2) [unfolded lite_verify_def]]
  by (simp add: proven_lite_alias_def lite_key_def [abs_def])

lemma validated_lite_alias:
  assumes inv: "lite_inv cfg s" and ok: "lite_auth_validate cfg env imp ext (lite_signer signer) call s = Inr (v, LiteAlias rev_ca)"
  shows "proven_lite_alias cfg s rev_ca \<or> (\<exists>a. sget (lite_AccountToAlias s) a = Some rev_ca)"
proof (cases ext)
  case None
  then show ?thesis using ok by (cases signer) simp_all
next
  case (Some i)
  then show ?thesis
    using ok lite_verified_proven [OF inv]
    by (cases i) (auto simp: validate_lite_person_def validate_lite_alias_with_account_def validate_lite_alias_revised_def
        validate_lite_alias_with_proof_def split: lite_origin.splits lite_call.splits option.splits)
qed

lemma moved_keeps_aliases:
  "lite_move_account old account s = Inr s1 \<Longrightarrow> sget (lite_AccountToAlias s1) w = Some x \<Longrightarrow> sget (lite_AccountToAlias s) w = Some x"
  by (auto simp: lite_move_account_def Let_def split: option.split_asm if_split_asm)

lemma lite_set_alias_stores:
  assumes "lite_set_alias_account env origin account at s = Inr (p, s')" and "sget (lite_AccountToAlias s') w = Some rev_ca"
  shows "(\<exists>a. sget (lite_AccountToAlias s) a = Some rev_ca) \<or> origin = LiteAlias rev_ca"
proof -
  obtain new :: RevisedContextualAlias and s1 where origin: "origin = LiteAlias new"
    and move: "lite_move_account (sget (lite_AliasToAccount s) (rca_ca new)) account s = Inr s1"
    and s': "lite_AccountToAlias s' = sput account new (lite_AccountToAlias s1)"
    using assms(1) unfolding lite_set_alias_account_def on_ok_Inr ensure_Inr Let_def
    by (auto simp: EnsureRevisedLiteAlias_def split: lite_origin.split_asm)
  show ?thesis using assms(2) origin moved_keeps_aliases [OF move] by (auto simp: s' split: if_split_asm)
qed

lemma lite_dispatch_stores:
  "lite_dispatch cfg env origin call s = Inr (p, s') \<Longrightarrow> sget (lite_AccountToAlias s') w = Some rev_ca \<Longrightarrow>
   (\<exists>a. sget (lite_AccountToAlias s) a = Some rev_ca) \<or> origin = LiteAlias rev_ca"
proof (induction call arbitrary: origin)
  case (Attest candidate csig key sig reg)
  then have "attest cfg env origin candidate csig key sig reg s = Inr (p, s')" by simp
  then show ?case by (rule attestE) (use Attest.prems(2) in auto)
next
  case (DispatchAsSigner call)
  then show ?case by auto
next
  case (Lite_SetAliasAccount account at)
  then show ?case using lite_set_alias_stores by simp
qed (auto simp: increase_attestation_allowance_def clear_attestation_allowance_def lite_unset_alias_account_def Let_def split: if_split_asm)

lemma lite_prepare_stores:
  assumes "lite_auth_prepare cfg v s = Inr s1" and "lite_auth_validate cfg env imp ext origin0 call s = Inr (v, origin)"
    and "sget (lite_AccountToAlias s1) w = Some rev_ca"
  shows "(\<exists>a. sget (lite_AccountToAlias s) a = Some rev_ca) \<or> origin = LiteAlias rev_ca"
proof (cases "\<exists>who nonce new. v = Val_AsLiteAliasWithAccountRevised who nonce new")
  case True
  then obtain who nonce new where v: "v = Val_AsLiteAliasWithAccountRevised who nonce new" by blast
  have "origin = LiteAlias new"
  proof (cases ext)
    case (Some i)
    then show ?thesis
      using assms(2) v by (cases i) (auto simp: validate_lite_person_def validate_lite_alias_with_account_def
        validate_lite_alias_with_proof_def validate_lite_alias_revised_def split: lite_origin.splits lite_call.splits)
  qed (use assms(2) v in simp)
  then show ?thesis using assms(1,3) by (auto simp: v lite_auth_prepare_def lite_nonce_def split: if_split_asm)
next
  case False
  then show ?thesis using assms(1,3) by (cases v) (auto simp: lite_auth_prepare_def lite_nonce_def)
qed

lemma lite_step_stores:
  assumes inv: "lite_inv cfg s" and ok: "lite_step cfg (env, y) s = Inr s'" and w: "sget (lite_AccountToAlias s') w = Some rev_ca"
  shows "(\<exists>a. sget (lite_AccountToAlias s) a = Some rev_ca) \<or> proven_lite_alias cfg s rev_ca"
proof (cases y)
  case (LiteTransaction ext signer imp call)
  then obtain v origin s1 where valid: "lite_auth_validate cfg env imp ext (lite_signer signer) call s = Inr (v, origin)"
    and prep: "lite_auth_prepare cfg v s = Inr s1"
    and s': "s' = (case lite_dispatch cfg env origin call s1 of Inl _ \<Rightarrow> s1 | Inr (_, s2) \<Rightarrow> s2)"
    using ok by (auto simp: lite_transaction_def)
  have "(\<exists>a. sget (lite_AccountToAlias s1) a = Some rev_ca) \<or> origin = LiteAlias rev_ca"
    using w lite_dispatch_stores [of cfg env origin call s1] by (fastforce simp: s' split: sum.split_asm prod.split_asm)
  then have "(\<exists>a. sget (lite_AccountToAlias s) a = Some rev_ca) \<or> origin = LiteAlias rev_ca"
    using lite_prepare_stores [OF prep valid] by blast
  then show ?thesis using validated_lite_alias [OF inv] valid by blast
next
  case (LiteManagerCall call)
  then obtain p where "lite_dispatch cfg env LiteManager call s = Inr (p, s')" using ok by auto
  from lite_dispatch_stores [OF this w] show ?thesis by simp
next
  case (LitePoll left)
  then have "s' = snd (lite_on_poll cfg left s)" using ok by simp
  then have "lite_AccountToAlias s' = lite_AccountToAlias s" using poll_result [of cfg left s] exists_frame [of cfg s s'] by auto
  then show ?thesis using w by auto
next
  case (LiteOfMembers menv z)
  then show ?thesis using ok w by auto
qed

subsection \<open>Properties\<close>

text \<open>C35: after any steps the members of the collection are exactly the keys of the lite people, a key belongs to one lite person only,
  also every key in a ring is one of them, and nobody who was ever registered is lost.\<close>

theorem lite_people_are_members:
  assumes "members_config_ok (lc_members cfg)" and "guarded_run (lite_step cfg) (lite_guard cfg) ops (lite_genesis r)"
    and s: "s = lite_run cfg ops r"
  shows "(\<forall>key. scontains (Members (lite_members s)) (PEOPLE_LITE_IDENTIFIER, key) \<longleftrightarrow>
      (\<exists>a info. sget (LitePeople s) a = Some info \<and> lpi_ring_vrf_key info = key)) \<and>
    (\<forall>ring page key. key \<in> set (keys_of (lite_members s) PEOPLE_LITE_IDENTIFIER ring page) \<longrightarrow>
      (\<exists>a info. sget (LitePeople s) a = Some info \<and> lpi_ring_vrf_key info = key)) \<and>
    (\<forall>a b i j. sget (LitePeople s) a = Some i \<and> sget (LitePeople s) b = Some j \<and> lpi_ring_vrf_key i = lpi_ring_vrf_key j \<longrightarrow> a = b) \<and>
    (\<forall>n a info. sget (LitePeople (lite_run cfg (take n ops) r)) a = Some info \<longrightarrow> sget (LitePeople s) a = Some info)"
proof -
  have "lite_inv cfg s" using lite_reachable [OF assms(1,2)] by (simp add: s)
  note keys = keys_okD [OF lite_invD(3) [OF this]]
  have known: "lite_key s key" if "known (lite_members s) PEOPLE_LITE_IDENTIFIER key" for key
    using that keys(4) by (simp add: only_keys_def)
  have "scontains (Members (lite_members s)) (PEOPLE_LITE_IDENTIFIER, key) \<longleftrightarrow> lite_key s key" for key
    using known keys(6) by (auto simp: known_def)
  moreover have "lite_key s key" if "key \<in> set (keys_of (lite_members s) PEOPLE_LITE_IDENTIFIER ring page)" for ring page key
    using known known_page that by metis
  moreover have "sget (LitePeople s) a = Some info" if "sget (LitePeople (lite_run cfg (take n ops) r)) a = Some info" for n a info
    using run_keeps_person [OF that, where cfg = cfg and ops = "drop n ops"]
    by (simp add: s run_calls_append [symmetric])
  ultimately show ?thesis using keys(2) unfolding lite_key_def by blast
qed

text \<open>C36: everyone who is a lite person was registered by a transaction of the attester on record that carried a signature of the account
  and one of the key, both over a message that names the account and the key; and an attester has registered
  no more people than governance has granted, less what is left of the allowance.\<close>

theorem attestations_backed:
  assumes "members_config_ok (lc_members cfg)" and "guarded_run (lite_step cfg) (lite_guard cfg) ops (lite_genesis r)"
    and s: "s = lite_run cfg ops r"
  shows "(\<forall>a info. sget (LitePeople s) a = Some info \<longrightarrow>
      (\<exists>n < length ops. \<exists>env ext attester imp call. ops ! n = (env, LiteTransaction ext (Some attester) imp call) \<and>
         registers cfg call attester a info)) \<and>
    (\<forall>v. length (filter (\<lambda>(_, info). lpi_method info = UniqueDevice v) (LitePeople s)) + sget_or 0 (AttestationAllowance s) v
       \<le> granted_to v (lite_events s))"
proof -
  have "allowances_ok s" using lite_invD(1) [OF lite_reachable [OF assms(1,2)]] by (simp add: s)
  moreover have "length (filter (\<lambda>(_, info). lpi_method info = UniqueDevice v) L) = attested_by v L"
    for v and L :: "(account_id, 'a LitePersonInfo) storage"
    by (induction L) (auto simp: attested_by_def)
  moreover have "\<exists>n < length ops. \<exists>env ext attester imp call. ops ! n = (env, LiteTransaction ext (Some attester) imp call) \<and>
      registers cfg call attester a info" if a: "sget (LitePeople s) a = Some info" for a info
  proof -
    obtain n s' where n: "n < length ops" and new: "sget (LitePeople (lite_run cfg (take n ops) r)) a \<noteq> Some info"
      and step: "lite_step cfg (ops ! n) (lite_run cfg (take n ops) r) = Inr s'" and "sget (LitePeople s') a = Some info"
      using run_calls_brings [of "\<lambda>s. sget (LitePeople s) a = Some info" "lite_step cfg" ops "lite_genesis r"] a
      by (auto simp: s lite_genesis_def)
    moreover obtain env y where y: "ops ! n = (env, y)" by fastforce
    ultimately show ?thesis using step_registers [of cfg env y] by metis
  qed
  ultimately show ?thesis unfolding allowances_ok_def by metis
qed

text \<open>C37: after any steps the lookups between aliases and accounts agree in both directions, every bound alias is one for the context of
  authorisation, and the pallet holds exactly one reference of \<open>frame_system\<close> of an account for each of its two roles, lite
  person and account of an alias, and has never released a reference it did not hold.\<close>

theorem lite_books_balance:
  assumes "members_config_ok (lc_members cfg)" and "guarded_run (lite_step cfg) (lite_guard cfg) ops (lite_genesis r)"
    and s: "s = lite_run cfg ops r"
  shows "(\<forall>ca a. sget (lite_AliasToAccount s) ca = Some a \<longleftrightarrow> (\<exists>info. sget (lite_AccountToAlias s) a = Some info \<and> rca_ca info = ca)) \<and>
    (\<forall>ca a. sget (lite_AliasToAccount s) ca = Some a \<longrightarrow> ca_context ca = LITE_PEOPLE_AUTH_CONTEXT) \<and>
    (\<forall>a. net_refs (lite_refs s) a =
       (if scontains (LitePeople s) a then 1 else 0) + (if scontains (lite_AccountToAlias s) a then 1 else 0)) \<and>
    (\<forall>n a. 0 \<le> net_refs (take n (lite_refs s)) a)"
proof -
  have "aliases_ok s" using lite_invD(2) [OF lite_reachable [OF assms(1,2)]] by (simp add: s)
  then have maps: "bound_maps rca_ca (lite_AliasToAccount s) (lite_AccountToAlias s)"
    and ctx: "\<forall>a info. sget (lite_AccountToAlias s) a = Some info \<longrightarrow> ca_context (rca_ca info) = LITE_PEOPLE_AUTH_CONTEXT"
    and refs: "refs_match (lite_refs s) (uses_of s)"
    by (simp_all add: aliases_ok_def)
  have "net_refs (lite_refs s) a = (if scontains (LitePeople s) a then 1 else 0) + (if scontains (lite_AccountToAlias s) a then 1 else 0)" for a
    using refs by (simp add: refs_match_def uses_of_def holders_def)
  moreover have "0 \<le> net_refs (take n (lite_refs s)) a" for n a using refs by (simp add: refs_match_def never_below_def)
  moreover have "ca_context ca = LITE_PEOPLE_AUTH_CONTEXT" if "sget (lite_AliasToAccount s) ca = Some a" for ca a
    using bound_mapsD(2) [OF maps that] ctx by auto
  ultimately show ?thesis using maps unfolding bound_maps_def by blast
qed

text \<open>C38: whenever a transaction gets the origin of a lite alias, in whichever way, a ring proof of that alias has been verified, now or
  at an earlier moment: against the root of that ring and that revision of the collection of lite people, a root built
  from keys that were all keys of lite people.\<close>

theorem lite_alias_traced:
  assumes "members_config_ok (lc_members cfg)" and "guarded_run (lite_step cfg) (lite_guard cfg) ops (lite_genesis r)"
    and ok: "lite_auth_validate cfg env imp ext (lite_signer signer) call (lite_run cfg ops r) = Inr (v, LiteAlias rev_ca)"
  shows "\<exists>n \<le> length ops. proven_lite_alias cfg (lite_run cfg (take n ops) r) rev_ca"
proof -
  have inv: "lite_inv cfg (lite_run cfg (take n ops) r)" for n
    by (rule lite_reachable [OF assms(1) guarded_run_take [OF assms(2)]])
  have inv_ops: "lite_inv cfg (lite_run cfg ops r)" using inv [of "length ops"] by simp
  show ?thesis
  proof (cases "\<exists>w. sget (lite_AccountToAlias (lite_run cfg ops r)) w = Some rev_ca")
    case True
    then obtain n s' where n: "n < length ops" and "\<nexists>w. sget (lite_AccountToAlias (lite_run cfg (take n ops) r)) w = Some rev_ca"
      and "lite_step cfg (ops ! n) (lite_run cfg (take n ops) r) = Inr s'"
      and "\<exists>w. sget (lite_AccountToAlias s') w = Some rev_ca"
      using run_calls_brings [of "\<lambda>s. \<exists>w. sget (lite_AccountToAlias s) w = Some rev_ca" "lite_step cfg" ops "lite_genesis r"]
      by (auto simp: lite_genesis_def)
    moreover obtain env y where "ops ! n = (env, y)" by fastforce
    ultimately have "proven_lite_alias cfg (lite_run cfg (take n ops) r) rev_ca" using lite_step_stores [OF inv, of env y] by metis
    then show ?thesis using n less_imp_le by blast
  next
    case False
    then show ?thesis using validated_lite_alias [OF inv_ops ok] by auto
  qed
qed

subsection \<open>Consumers\<close>

text \<open>C39: an attestation with a consumer registration does not ask whose registration it is: whenever the attestation alone would succeed and
  an account has signed a payload that the registrar takes, the call registers that account as a lite consumer,
  also when it is not the candidate and no lite person.\<close>

theorem foreign_consumer_registered:
  assumes "attest cfg env (LiteSigned verifier) candidate csig key sig None s = Inr (p, s1)"
    and "lc_verify_attestation cfg (crp_signature params) (signing_payload verifier params) (crp_account params)"
    and "lc_registrar cfg (crp_account params) (crp_identifier_key params) (crp_username params)
      (crp_reserved_username params) (lite_rest s) = Inr r"
    and other: "crp_account params \<noteq> candidate" "\<not> scontains (LitePeople s) (crp_account params)"
  shows "\<exists>s'. attest cfg env (LiteSigned verifier) candidate csig key sig (Some params) s = Inr (p, s') \<and>
    lite_rest s' = r \<and> last (lite_events s') = ConsumerRegistered (crp_account params) \<and> \<not> scontains (LitePeople s') (crp_account params)"
proof -
  have s1: "lite_rest s1 = lite_rest s" "scontains (LitePeople s1) (crp_account params) = scontains (LitePeople s) (crp_account params)"
    using assms(1) other(1) by (auto simp: attest_def Let_def split: if_split_asm)
  have "attest cfg env (LiteSigned verifier) candidate csig key sig (Some params) s =
      Inr (p, lite_deposit (ConsumerRegistered (crp_account params)) (s1\<lparr>lite_rest := r\<rparr>))"
    using assms(1-3) s1(1) by (auto simp: attest_def Let_def register_lite_consumer_def)
  then show ?thesis using s1 other(2) by simp
qed

text \<open>What a slice is followed by does not matter for where it ends.\<close>

lemma encode_slice_inject:
  assumes "encode_slice xs @ ys = encode_slice xs' @ ys'" and "length xs < 64" and "length xs' < 64"
  shows "xs = xs' \<and> ys = ys'"
proof -
  have "(of_nat (4 * length xs) :: 8 word) = of_nat (4 * length xs')" and rest: "xs @ ys = xs' @ ys'"
    using assms(1) by (simp_all only: encode_slice_def append_Cons list.inject)
  then have "unat (of_nat (4 * length xs) :: 8 word) = unat (of_nat (4 * length xs') :: 8 word)" by (simp only:)
  then have "(4 * length xs) mod 256 = (4 * length xs') mod 256" by (simp only: unat_of_nat) simp
  then have "length xs = length xs'" using assms(2,3) by simp
  then show ?thesis using rest by simp
qed

text \<open>C40: the payload that a user signs for a consumer registration fixes the user's account, the attester, the identifier key, the username up to its
  separator and the whole reserved username: a signature serves for no other registration, but for the digits
  that the attester may choose.\<close>

theorem signing_payload_binds:
  assumes "signing_payload v p = signing_payload w q"
    and lens: "length (crp_account p) = 32" "length (crp_account q) = 32" "length v = 32" "length w = 32"
      "length (crp_identifier_key p) = 65" "length (crp_identifier_key q) = 65"
      "length (crp_username p) \<le> 32" "length (crp_username q) \<le> 32"
      "\<forall>name. crp_reserved_username p = Some name \<longrightarrow> length name \<le> 32" "\<forall>name. crp_reserved_username q = Some name \<longrightarrow> length name \<le> 32"
  shows "crp_account p = crp_account q \<and> v = w \<and> crp_identifier_key p = crp_identifier_key q \<and>
    takeWhile (\<lambda>b. b \<noteq> 46) (crp_username p) = takeWhile (\<lambda>b. b \<noteq> 46) (crp_username q) \<and>
    crp_reserved_username p = crp_reserved_username q"
proof -
  let ?r = "\<lambda>p. case crp_reserved_username p of None \<Rightarrow> [0] | Some name \<Rightarrow> 1 # encode_slice name"
  let ?u = "\<lambda>p. takeWhile (\<lambda>b. b \<noteq> 46) (crp_username p)"
  have whole: "crp_account p @ v @ crp_identifier_key p @ encode_slice (?u p) @ ?r p =
      crp_account q @ w @ crp_identifier_key q @ encode_slice (?u q) @ ?r q"
    using assms(1) by (simp only: signing_payload_def)
  have one: "crp_account p = crp_account q"
    and "v @ crp_identifier_key p @ encode_slice (?u p) @ ?r p = w @ crp_identifier_key q @ encode_slice (?u q) @ ?r q"
    using append_eq_append_conv [THEN iffD1, OF _ whole] lens(1,2) by simp_all
  then have two: "v = w" and "crp_identifier_key p @ encode_slice (?u p) @ ?r p = crp_identifier_key q @ encode_slice (?u q) @ ?r q"
    using append_eq_append_conv [of v w] lens(3,4) by simp_all
  then have three: "crp_identifier_key p = crp_identifier_key q" and rest: "encode_slice (?u p) @ ?r p = encode_slice (?u q) @ ?r q"
    using append_eq_append_conv [of "crp_identifier_key p" "crp_identifier_key q"] lens(5,6) by simp_all
  have "length (?u p) < 64" "length (?u q) < 64"
    using lens(7,8) length_takeWhile_le [of "\<lambda>b. b \<noteq> 46" "crp_username p"]
      length_takeWhile_le [of "\<lambda>b. b \<noteq> 46" "crp_username q"] by linarith+
  from encode_slice_inject [OF rest this] have names: "?u p = ?u q" "?r p = ?r q" by blast+
  have "crp_reserved_username p = crp_reserved_username q"
  proof (cases "crp_reserved_username p")
    case (Some name)
    then obtain name' where name': "crp_reserved_username q = Some name'" "encode_slice name = encode_slice name'"
      using names(2) by (auto split: option.split_asm)
    then have "name = name'" using encode_slice_inject [of name "[]" name' "[]"] lens(9,10) Some by fastforce
    then show ?thesis using Some name'(1) by simp
  qed (use names(2) in \<open>auto split: option.split_asm\<close>)
  then show ?thesis using one two three names(1) by blast
qed

subsection \<open>Witnesses\<close>

theorem lite_people_are_members_witness:
  "scontains (Members (lite_members (demo_lite_run demo_lite_ops))) (PEOPLE_LITE_IDENTIFIER, 42)"
proof -
  have "\<exists>a info. sget (LitePeople (demo_lite_run demo_lite_ops)) a = Some info \<and> lpi_ring_vrf_key info = 42"
    using demo_lite_books(1) by fastforce
  then show ?thesis using lite_people_are_members [OF demo_lite_ok demo_lite_guard refl, THEN conjunct1] by blast
qed

theorem attestations_backed_witness:
  "length (filter (\<lambda>(_, info). lpi_method info = UniqueDevice [5]) (LitePeople (demo_lite_run demo_lite_ops))) \<le> 2 \<and>
   (\<exists>n < length demo_lite_ops. \<exists>env ext attester imp call. demo_lite_ops ! n = (env, LiteTransaction ext (Some attester) imp call) \<and>
      registers demo_lite call attester [7] \<lparr>lpi_ring_vrf_key = 42, lpi_method = UniqueDevice [5]\<rparr>)"
proof -
  note backed = attestations_backed [OF demo_lite_ok demo_lite_guard refl]
  have "length (filter (\<lambda>(_, info). lpi_method info = UniqueDevice [5]) (LitePeople (demo_lite_run demo_lite_ops))) + 1 \<le> 3"
    using backed [THEN conjunct2, rule_format, of "[5]"] demo_lite_books(3,4) by simp
  then show ?thesis using backed [THEN conjunct1, rule_format, OF demo_lite_books(1)] by simp
qed

theorem lite_books_balance_witness:
  "net_refs (lite_refs (demo_lite_run demo_lite_ops)) [8] = 1 + (if scontains (LitePeople (demo_lite_run demo_lite_ops)) [8] then 1 else 0)"
proof -
  have "scontains (lite_AccountToAlias (demo_lite_run demo_lite_ops)) [8]" using demo_lite_books(2) by (simp add: scontains_def)
  then show ?thesis using lite_books_balance [OF demo_lite_ok demo_lite_guard refl] by simp
qed

theorem lite_alias_traced_witness:
  "\<exists>n \<le> length demo_lite_ops. proven_lite_alias demo_lite (demo_lite_run (take n demo_lite_ops)) demo_lite_alias"
proof (rule lite_alias_traced [OF demo_lite_ok demo_lite_guard])
  show "lite_auth_validate demo_lite (demo_at 701) [4] (Some (AsLiteAliasWithAccount 0)) (lite_signer (Some [8]))
     (LiteOtherCall ()) (demo_lite_run demo_lite_ops) = Inr (Val_AsLiteAliasWithAccount [8] 0, LiteAlias demo_lite_alias)"
    using demo_lite_extension by simp
qed

theorem foreign_consumer_registered_witness:
  "\<exists>s'. attest demo_lite (demo_at 702) (LiteSigned [5]) [9] [9] 43 43 (Some demo_params) (demo_lite_run demo_lite_ops) = Inr (PaysNo, s') \<and>
     lite_rest s' = [[10]] \<and> \<not> scontains (LitePeople s') (crp_account demo_params)"
  using foreign_consumer_registered [OF demo_attests(1) demo_params_accepted(1) _ demo_params_accepted(3) demo_attests(2), of "[[10]]"]
    demo_params_accepted(2) demo_attests(3) by auto

theorem signing_payload_binds_witness:
  "crp_reserved_username (\<lparr>crp_signature = (0 :: nat), crp_account = replicate 32 1, crp_identifier_key = replicate 65 2,
      crp_username = [97, 46, 49], crp_reserved_username = Some [98]\<rparr> :: nat LiteConsumerRegistrationParams) =
   crp_reserved_username (\<lparr>crp_signature = (5 :: nat), crp_account = replicate 32 1, crp_identifier_key = replicate 65 2,
      crp_username = [97, 46, 50], crp_reserved_username = Some [98]\<rparr> :: nat LiteConsumerRegistrationParams)"
  by (rule signing_payload_binds [where v = "replicate 32 3" and w = "replicate 32 3",
        THEN conjunct2, THEN conjunct2, THEN conjunct2, THEN conjunct2]) (simp_all add: signing_payload_def)

end
