(* ===== verification/Spec2Isabelle.thy ===== *)
theory Spec2Isabelle
  imports Mob_Payout_Props Score_Props Origin_Restriction Honour_Props Chunks_Props Members_Claims
    Replication_Claims Subscriber_Claims Alias_Claims Pgas_Claims People_Claims Lite_Claims
begin

text \<open>
  The runtimes of the Paseo network: the pallets of the people system.

  \<^bold>\<open>The program.\<close> People prove that they are persons, and the chain keeps them as members of rings without
  learning who acts. The pallets under \<open>src/pallets\<close> that this development models are the core of that system:

  \<^item> \<open>mob-rule\<close>: people vote on statements about other people (is this evidence real, is this username valid);
    the judgement is handed back to the pallet that asked, and votes that agree with it earn points.
  \<^item> \<open>score\<close>: attendance of games gives points of personhood; with enough of them a participant is recognised, and
    with too many absences suspended. Points can be cashed out.
  \<^item> \<open>honour\<close>: persons vote each other up and down under aliases.
  \<^item> \<open>origin-restriction\<close>: a rate limit for origins that pay no fees themselves.
  \<^item> \<open>chunks-manager\<close>: pages of the ring crypto's parameters, registered by their hashes.
  \<^item> \<open>members\<close>: collections of members, an onboarding queue per collection, rings and their roots, the suspension of
    members, and the verification of membership proofs. It reads its chunks from \<open>chunks-manager\<close> and tells
    \<open>OnRingRootChange\<close> of every new root.
  \<^item> \<open>people-multi\<close>: who is recognised as a person, under which key, and which accounts act for a person or for one of the
    aliases of a person. The keys of the persons are the members of one collection.
  \<^item> \<open>people-lite\<close>: accounts that attesters have registered as lite persons, whose keys are the members of another collection, and
    accounts that act for their aliases.
  \<^item> \<open>members-notifier\<close> on the people chain and \<open>members-subscriber\<close> on other chains: the replication of ring roots over
    XCM, so that membership proofs can be verified there.
  \<^item> \<open>alias-accounts\<close>, on such a chain: accounts bound to the alias of a person by a ring proof, whose transactions then
    speak for the alias.
  \<^item> \<open>pgas\<close>: anonymous daily claims of gas tokens by ring proofs.

  \<^bold>\<open>Conventions\<close> (theory \<open>Prelude\<close>). A pallet's storage is a record; a storage map is an association list with distinct
  keys, whose order stands for the iteration order of the trie, over which the theorems quantify. A dispatchable is a
  function from the state to an error or a new state, with the source's checks as early returns; a transaction
  that fails changes nothing. The unsigned integers are natural numbers, with the bound of their width in every
  operation that saturates or checks; the page counters of the notifier and the bytes of the codec wrap around and are
  words. A run applies a list of calls to the state of genesis (\<open>run_calls\<close>); \<open>guarded_run\<close> says that a condition
  holds before each of them. The locale \<open>pallet_contract\<close> is the contract of a pallet whose calls keep an invariant, and
  every pallet interprets it.

  \<^bold>\<open>Theories and sources.\<close>

  \<^item> \<open>Reality\<close>: \<open>support/src/traits/reality.rs\<close>, the types the pallets share.
  \<^item> \<open>Mob_Rule\<close>, \<open>Mob_Tally\<close>: \<open>pallets/mob-rule/src/lib.rs\<close>. \<open>Mob_Rule_Cases\<close>, \<open>Mob_Rule_Lifecycle\<close> and
    \<open>Mob_Rule_Payout\<close> hold the lemmas on cases, on their life cycle and on the flow of funds; the properties are in
    \<open>Mob_Rule_Props\<close> and \<open>Mob_Payout_Props\<close>, with the configuration of the witnesses in \<open>Mob_Demo\<close>.
  \<^item> \<open>Score_Types\<close>, \<open>Score\<close>: \<open>pallets/score/src\<close> (types, library, extension). \<open>Score_People\<close> and \<open>Score_Payout\<close> hold
    the invariants of participants and of funds, \<open>Score_Props\<close> the properties.
  \<^item> \<open>Origin_Restriction\<close>: \<open>pallets/origin-restriction/src/lib.rs\<close> with its properties.
  \<^item> \<open>Honour\<close>, \<open>Honour_Props\<close>: \<open>pallets/honour/src\<close>.
  \<^item> \<open>Chunks_Manager\<close>, \<open>Chunks_Props\<close>: \<open>pallets/chunks-manager/src/lib.rs\<close>.
  \<^item> \<open>Members\<close>, \<open>Members_Calls\<close>: \<open>pallets/members/src\<close> (internal operations; then calls, authorisation, worker, interface
    and the extension \<open>AsMember\<close>). \<open>Members_View\<close> and \<open>Members_Inv\<close> state the invariant per collection,
    \<open>Members_Rings\<close>, \<open>Members_Steps\<close>, \<open>Members_Delete\<close> and \<open>Members_Props\<close> show that every call keeps it,
    \<open>Members_Root\<close> that a root commits to the keys of its ring, \<open>Members_Worker\<close> that the calls of the offchain worker
    succeed; \<open>Members_Claims\<close> has the properties, \<open>Members_Demo\<close> the concrete runs.
  \<^item> \<open>Ring_Feed\<close>: \<open>support/src/members_notifier_subscriber.rs\<close> and the provider of ring roots of the members pallet. The
    locale \<open>ring_feed\<close> is the contract between a provider and the notifier.
  \<^item> \<open>Notifier\<close>: \<open>pallets/members-notifier/src\<close>. \<open>Notifier_Feed\<close> shows what the messages tell, \<open>Notifier_Inv\<close> and
    \<open>Notifier_Steps\<close> the invariant.
  \<^item> \<open>Subscriber\<close>: \<open>pallets/members-subscriber/src\<close>; \<open>Subscriber_Props\<close> its invariant, \<open>Subscriber_Claims\<close> its
    properties.
  \<^item> \<open>Members_Announce\<close>: which changes of roots the members pallet announces. \<open>Replica\<close>: the subscriber as an abstract
    replica, which its calls implement. \<open>Replication\<close> composes the three pallets with a channel;
    \<open>Replication_Inv\<close>, \<open>Replication_Feed\<close> and \<open>Replication_Steps\<close> carry the invariant that every ring is up to date or due,
    \<open>Replication_History\<close> the one that subscribers only hold roots of the past; \<open>Replication_Claims\<close> has the properties,
    \<open>Replication_Demo\<close> the concrete system.
  \<^item> \<open>Member_Service\<close>: the trait \<open>MembershipProver\<close> as an interface. The locale \<open>membership_prover\<close> is what its clients rely on,
    \<open>root_window\<close> what the subscriber promises beyond it; both are interpreted on the models of the pallets. It also has the
    ledger of assets and the little-endian encoding.
  \<^item> \<open>Account_Binding\<close>: what the pallets that bind accounts to aliases share, inverse maps and the calls to the reference counters
    of \<open>frame_system\<close>.
  \<^item> \<open>Alias_Accounts\<close>: \<open>pallets/alias-accounts/src\<close>; \<open>Alias_Inv\<close> its invariant, \<open>Alias_Claims\<close> its properties, alone and composed
    with the replication of ring roots.
  \<^item> \<open>Pgas\<close>, \<open>Pgas_Claims\<close>: \<open>pallets/pgas/src\<close>.
  \<^item> \<open>People_Multi\<close>, \<open>People_Ext\<close>: \<open>pallets/people-multi/src\<close> (the calls and the traits for other pallets; then the
    extension \<open>AsPerson\<close>, the authorisation, the worker and the steps) on a state that contains the members pallet. \<open>Members_Frame\<close>
    shows that only \<open>add_members\<close> makes a key known to a collection, and \<open>Members_Client\<close> what the owner of a collection relies
    on: its members are those it added, none is lost, and an accepted proof is against a root built from their keys. \<open>People_Inv\<close> has the invariant of the books, \<open>People_Steps\<close> that
    every step keeps it and that the collection holds keys of recognised persons only; \<open>People_Claims\<close> has the
    properties, \<open>People_Demo\<close> a concrete chain.
  \<^item> \<open>People_Lite\<close>: \<open>pallets/people-lite/src\<close> (types, library, extension) on such a state as well. \<open>Lite_Steps\<close> shows that every step
    keeps the invariant of the allowances, the aliases and the keys, \<open>Lite_Claims\<close> has the properties, \<open>Lite_Demo\<close> a
    concrete chain.

  \<^bold>\<open>Parameters and named hypotheses.\<close> Code outside the repository is an argument of the definitions. \<open>hold_laws\<close> states the
  documentation of the holds of a fungible currency, \<open>perbill_laws\<close> that of the rounding arithmetic, \<open>callback_ok\<close> and
  \<open>world_frame\<close> what a callback may change, \<open>fungibles_laws\<close> the documentation of minting, burning and creating assets,
  \<open>sound_service\<close> that an accepted proof shows an alias of some member, \<open>aliases_stable\<close> that a person keeps an alias; the ring crypto is the
  operations \<open>start_members\<close>, \<open>push_members\<close>, \<open>finish_members\<close> and a record of proof checks, on which no law is
  assumed. \<open>members_config_ok\<close>, \<open>notifier_config_ok\<close> and \<open>feed_config_ok\<close> collect the checks of the integrity
  tests and bounds of constants. Of the XCM router the model only asks whether it takes a message; messages to a
  subscriber arrive in the order sent.

  \<^bold>\<open>Guards.\<close> The theorems on runs name what they need of the calls: \<open>members_guard\<close> asks that counters of
  \<open>u32\<close> do not overflow, that rings are merged or members suspended in flexible collections only and rings removed in
  append-only ones; \<open>notifier_guard\<close> that the sequence of batches is not exhausted and that not all 65536 pages are
  in use; \<open>subscriber_guard\<close> that batches name rings below the next ring index and that the limits of the clearing
  cover the storage; \<open>world_guard\<close> adds that no message to the subscriber is lost: it stays subscribed, a batch goes
  to it over a channel with room for an update, and no batch it waits for is abandoned. The safety of accepted proofs needs none
  of the latter. \<open>people_guard\<close> asks that the personal identifiers do not run out of their \<open>u64\<close>, that nobody is suspended
  before the collection of people exists, and that no other pallet administers that collection; \<open>lite_guard\<close> asks the
  latter for the collection of lite people.

  \<^bold>\<open>Bounds and fuel.\<close> No loop of the model runs on fuel that could be short: recursion is structural or has a measure, the
  range lookup of the chunks is a partial function that is shown to return, and the loops over the pages of a ring
  and over the chunks of a batch have measures.

  \<^bold>\<open>Not modelled.\<close> Weights, events that are only logged, the submission of transactions by the offchain workers, benchmarks,
  mocks and tests. The runtimes under \<open>relay\<close> and \<open>system-parachains\<close> compose pallets of the SDK, which is not
  part of the repository; their constants are quoted where they matter. Of the other pallets,
  \<open>resources\<close>, \<open>coinage\<close>, \<open>game\<close>, \<open>proof-of-ink\<close>, \<open>airdrop\<close>, \<open>dotns-gateway\<close> and
  \<open>value-transfer-auth\<close> are left for later, in that order: the first ones use the members interface modelled here.
\<close>

end
